(* ===== verification/Prelude.thy ===== *)
theory Prelude
  imports Main "HOL-Library.Sublist" "HOL-Library.Multiset"
begin

text \<open>
  What every component of the model shares: the reading of Rust's basic types, the byte
  string operations of \<^verbatim>\<open>str\<close> the sources call, HTTP status codes, the time types
  and small facts about lists, options and sums.

  \<^item> A Rust \<open>str\<close> / \<open>String\<close> is the list of the bytes of its UTF-8 encoding (\<open>string\<close>, a
    \<open>char list\<close>; an Isabelle \<open>char\<close> is one byte), so \<open>length\<close> is Rust's \<open>len()\<close>. Characters
    beyond ASCII are byte sequences; where a source operation is about characters
    (\<open>trim\<close>, \<open>chars().count()\<close>, \<open>is_control\<close>) it is written out on the UTF-8 bytes.
  \<^item> A Rust \<open>Result\<close> is a sum, \<open>Inl\<close> the error.
  \<^item> An \<open>Instant\<close> and a \<open>Duration\<close> are their nanoseconds; \<open>duration_since\<close> saturates at
    zero, which is subtraction on \<open>nat\<close>.
\<close>

section \<open>Collections of facts\<close>

named_theorems byte_simps \<open>evaluation of the byte string operations\<close>
named_theorems model_defs \<open>definitions unfolded to evaluate an operation of the model\<close>

section \<open>Time\<close>

type_synonym instant = nat
type_synonym duration = nat

abbreviation secs :: "nat \<Rightarrow> duration" where
  "secs n \<equiv> n * 1000000000"

definition instant_max :: instant where
  "instant_max = 2 ^ 63 * 1000000000 - 1"

definition instant_checked_add :: "instant \<Rightarrow> duration \<Rightarrow> instant option" where
  "instant_checked_add t d = (if t + d \<le> instant_max then Some (t + d) else None)"

section \<open>HTTP status codes\<close>

type_synonym status = nat

abbreviation BAD_REQUEST :: status where "BAD_REQUEST \<equiv> 400"
abbreviation UNAUTHORIZED :: status where "UNAUTHORIZED \<equiv> 401"
abbreviation FORBIDDEN :: status where "FORBIDDEN \<equiv> 403"
abbreviation NOT_FOUND :: status where "NOT_FOUND \<equiv> 404"
abbreviation CONFLICT :: status where "CONFLICT \<equiv> 409"
abbreviation PAYLOAD_TOO_LARGE :: status where "PAYLOAD_TOO_LARGE \<equiv> 413"
abbreviation TOO_MANY_REQUESTS :: status where "TOO_MANY_REQUESTS \<equiv> 429"
abbreviation INTERNAL_SERVER_ERROR :: status where "INTERNAL_SERVER_ERROR \<equiv> 500"
abbreviation SERVICE_UNAVAILABLE :: status where "SERVICE_UNAVAILABLE \<equiv> 503"

definition is_server_error :: "status \<Rightarrow> bool" where
  "is_server_error s \<longleftrightarrow> 500 \<le> s \<and> s < 600"

definition is_client_error :: "status \<Rightarrow> bool" where
  "is_client_error s \<longleftrightarrow> 400 \<le> s \<and> s < 500"

section \<open>Results\<close>

definition res_bind :: "'e + 'a \<Rightarrow> ('a \<Rightarrow> 'e + 'b) \<Rightarrow> 'e + 'b" where
  "res_bind r f = (case r of Inl e \<Rightarrow> Inl e | Inr x \<Rightarrow> f x)"

lemma res_bind_simps [simp]:
  "res_bind (Inl e) f = Inl e"
  "res_bind (Inr x) f = f x"
  by (simp_all add: res_bind_def)

lemma res_bind_Inr_iff: "res_bind r f = Inr y \<longleftrightarrow> (\<exists>x. r = Inr x \<and> f x = Inr y)"
  by (cases r) auto

lemma res_bind_Inl_iff:
  "res_bind r f = Inl e \<longleftrightarrow> r = Inl e \<or> (\<exists>x. r = Inr x \<and> f x = Inl e)"
  by (cases r) auto

definition ok_or :: "'e \<Rightarrow> 'a option \<Rightarrow> 'e + 'a" where
  "ok_or e x = (case x of None \<Rightarrow> Inl e | Some y \<Rightarrow> Inr y)"

lemma ok_or_simps [simp]:
  "ok_or e None = Inl e"
  "ok_or e (Some y) = Inr y"
  by (simp_all add: ok_or_def)

lemma ok_or_Inr_iff: "ok_or e x = Inr y \<longleftrightarrow> x = Some y"
  by (cases x) auto

section \<open>Byte strings\<close>

definition strip_prefix :: "string \<Rightarrow> string \<Rightarrow> string option" where
  "strip_prefix p s = (if prefix p s then Some (drop (length p) s) else None)"

lemma strip_prefix_Some_iff [byte_simps]: "strip_prefix p s = Some r \<longleftrightarrow> s = p @ r"
  by (auto simp: strip_prefix_def prefix_def)

lemma strip_prefix_None_iff: "strip_prefix p s = None \<longleftrightarrow> \<not> prefix p s"
  by (simp add: strip_prefix_def)

lemma strip_prefix_append [simp]: "strip_prefix p (p @ r) = Some r"
  by (simp add: strip_prefix_Some_iff)

text \<open>\<open>split(c)\<close>: the parts between the occurrences of the byte, at least one.\<close>

fun split_on :: "char \<Rightarrow> string \<Rightarrow> string list" where
  "split_on c [] = [[]]"
| "split_on c (x # xs) =
     (if x = c then [] # split_on c xs
      else (case split_on c xs of [] \<Rightarrow> [[x]] | p # ps \<Rightarrow> (x # p) # ps))"

fun join_on :: "string \<Rightarrow> string list \<Rightarrow> string" where
  "join_on sep [] = []"
| "join_on sep [p] = p"
| "join_on sep (p # q # ps) = p @ sep @ join_on sep (q # ps)"

lemma split_on_nonempty [simp]: "split_on c s \<noteq> []"
  by (induction s) (auto split: list.splits)

lemma split_on_no_sep: "c \<notin> set s \<Longrightarrow> split_on c s = [s]"
  by (induction s) auto

lemma split_on_append_sep:
  "c \<notin> set p \<Longrightarrow> split_on c (p @ c # s) = p # split_on c s"
  by (induction p) auto

lemma split_on_parts: "p \<in> set (split_on c s) \<Longrightarrow> c \<notin> set p"
  by (induction s arbitrary: p) (auto split: if_splits list.splits)

lemma split_on_join_on:
  "ps \<noteq> [] \<Longrightarrow> (\<And>p. p \<in> set ps \<Longrightarrow> c \<notin> set p) \<Longrightarrow> split_on c (join_on [c] ps) = ps"
  by (induction "[c]" ps rule: join_on.induct) (auto simp: split_on_no_sep split_on_append_sep)

lemma join_on_Cons: "ps \<noteq> [] \<Longrightarrow> join_on sep (p # ps) = p @ sep @ join_on sep ps"
  by (cases ps) auto

lemma join_on_split_on: "join_on [c] (split_on c s) = s"
proof (induction s)
  case (Cons x xs)
  show ?case
  proof (cases "x = c")
    case True
    with Cons.IH show ?thesis by (simp add: join_on_Cons)
  next
    case False
    obtain p ps where s: "split_on c xs = p # ps"
      by (cases "split_on c xs") auto
    with False Cons.IH show ?thesis by (cases ps) auto
  qed
qed simp

text \<open>\<open>split_once(c)\<close>: before and after the first occurrence.\<close>

fun split_once :: "char \<Rightarrow> string \<Rightarrow> (string \<times> string) option" where
  "split_once c [] = None"
| "split_once c (x # xs) =
     (if x = c then Some ([], xs)
      else map_option (\<lambda>(a, b). (x # a, b)) (split_once c xs))"

lemma split_once_Some_iff [byte_simps]:
  "split_once c s = Some (a, b) \<longleftrightarrow> s = a @ c # b \<and> c \<notin> set a"
proof (induction s arbitrary: a)
  case (Cons x xs)
  then show ?case by (cases a) auto
qed simp

lemma split_once_None_iff: "split_once c s = None \<longleftrightarrow> c \<notin> set s"
  by (induction s) auto

text \<open>\<open>find(p)\<close>: the index of the first occurrence.\<close>

fun find_sub :: "string \<Rightarrow> string \<Rightarrow> nat option" where
  "find_sub p s = (if prefix p s then Some 0 else case s of
     [] \<Rightarrow> None | _ # s' \<Rightarrow> map_option Suc (find_sub p s'))"

declare find_sub.simps [simp del]

lemma find_sub_Some:
  assumes "find_sub p s = Some i"
  obtains a r where "s = a @ p @ r" "length a = i" "\<And>a' r'. s = a' @ p @ r' \<Longrightarrow> i \<le> length a'"
proof -
  have "\<exists>a r. s = a @ p @ r \<and> length a = i \<and> (\<forall>a' r'. s = a' @ p @ r' \<longrightarrow> i \<le> length a')"
    using assms
  proof (induction s arbitrary: i)
    case Nil
    then show ?case by (simp add: find_sub.simps [of p "[]"] split: if_splits)
  next
    case (Cons c s)
    show ?case
    proof (cases "prefix p (c # s)")
      case True
      then obtain r where "c # s = p @ r" by (auto simp: prefix_def)
      moreover have "i = 0" using True Cons.prems by (simp add: find_sub.simps [of p "c # s"])
      ultimately show ?thesis by (intro exI [of _ "[]"] exI [of _ r]) simp
    next
      case False
      then obtain j where j: "find_sub p s = Some j" "i = Suc j"
        using Cons.prems by (auto simp: find_sub.simps [of p "c # s"])
      from Cons.IH [OF j(1)] obtain a r where s: "s = a @ p @ r" "length a = j"
        and first: "\<forall>a' r'. s = a' @ p @ r' \<longrightarrow> j \<le> length a'" by blast
      have "i \<le> length a'" if "c # s = a' @ p @ r'" for a' r'
      proof (cases a')
        case Nil
        with that False show ?thesis by (metis append_Nil prefixI)
      next
        case (Cons x xs)
        with that have "s = xs @ p @ r'" by simp
        then have "j \<le> length xs" using first by blast
        with Cons j(2) show ?thesis by simp
      qed
      moreover have "c # s = (c # a) @ p @ r" using s(1) by simp
      moreover have "length (c # a) = i" using s(2) j(2) by simp
      ultimately show ?thesis by blast
    qed
  qed
  then show ?thesis using that by blast
qed

lemma find_sub_None: "find_sub p s = None \<Longrightarrow> s \<noteq> a @ p @ r"
proof (induction s arbitrary: a)
  case Nil
  then show ?case by (auto simp: find_sub.simps [of p "[]"] split: if_splits)
next
  case (Cons c s)
  then have "\<not> prefix p (c # s)" "find_sub p s = None"
    by (auto simp: find_sub.simps [of p "c # s"] split: if_splits)
  with Cons.IH show ?case by (cases a) (auto simp: prefix_def)
qed

subsection \<open>Byte classes\<close>

abbreviation byte :: "char \<Rightarrow> nat" where
  "byte c \<equiv> of_char c"

definition is_ascii_digit :: "char \<Rightarrow> bool" where
  "is_ascii_digit c \<longleftrightarrow> 48 \<le> byte c \<and> byte c \<le> 57"

definition is_ascii_upper :: "char \<Rightarrow> bool" where
  "is_ascii_upper c \<longleftrightarrow> 65 \<le> byte c \<and> byte c \<le> 90"

definition is_ascii_lower :: "char \<Rightarrow> bool" where
  "is_ascii_lower c \<longleftrightarrow> 97 \<le> byte c \<and> byte c \<le> 122"

definition is_ascii_alnum :: "char \<Rightarrow> bool" where
  "is_ascii_alnum c \<longleftrightarrow> is_ascii_digit c \<or> is_ascii_upper c \<or> is_ascii_lower c"

definition is_ascii_ws :: "char \<Rightarrow> bool" where
  "is_ascii_ws c \<longleftrightarrow> byte c \<in> {9, 10, 12, 13, 32}"

definition ascii_lower :: "char \<Rightarrow> char" where
  "ascii_lower c = (if is_ascii_upper c then char_of (byte c + 32) else c)"

definition to_ascii_lowercase :: "string \<Rightarrow> string" where
  "to_ascii_lowercase = map ascii_lower"

definition eq_ignore_ascii_case :: "string \<Rightarrow> string \<Rightarrow> bool" where
  "eq_ignore_ascii_case a b \<longleftrightarrow> to_ascii_lowercase a = to_ascii_lowercase b"

text \<open>\<open>chars().count()\<close>: every character has one byte which is no continuation byte.\<close>

definition is_continuation :: "char \<Rightarrow> bool" where
  "is_continuation c \<longleftrightarrow> 128 \<le> byte c \<and> byte c < 192"

definition char_count :: "string \<Rightarrow> nat" where
  "char_count s = length (filter (\<lambda>c. \<not> is_continuation c) s)"

lemma char_count_le_length: "char_count s \<le> length s"
  by (simp add: char_count_def)

subsection \<open>Trimming\<close>

text \<open>
  \<open>trim\<close> removes the characters with the Unicode property \<open>White_Space\<close>: U+0009..U+000D,
  U+0020, U+0085, U+00A0, U+1680, U+2000..U+200A, U+2028, U+2029, U+202F, U+205F and
  U+3000. \<open>ws_len\<close> is the length of the one which starts the byte list (0 if none does),
  \<open>ws_len_rev\<close> of the one which ends the string, read from its end.
\<close>

fun ws_len :: "nat list \<Rightarrow> nat" where
  "ws_len (a # b # c # r) =
     (if (9 \<le> a \<and> a \<le> 13) \<or> a = 32 then 1
      else if a = 0xC2 \<and> (b = 0x85 \<or> b = 0xA0) then 2
      else if (a = 0xE1 \<and> b = 0x9A \<and> c = 0x80)
           \<or> (a = 0xE2 \<and> b = 0x80 \<and> (0x80 \<le> c \<and> c \<le> 0x8A \<or> c \<in> {0xA8, 0xA9, 0xAF}))
           \<or> (a = 0xE2 \<and> b = 0x81 \<and> c = 0x9F)
           \<or> (a = 0xE3 \<and> b = 0x80 \<and> c = 0x80) then 3
      else 0)"
| "ws_len (a # b # r) =
     (if (9 \<le> a \<and> a \<le> 13) \<or> a = 32 then 1
      else if a = 0xC2 \<and> (b = 0x85 \<or> b = 0xA0) then 2 else 0)"
| "ws_len (a # r) = (if (9 \<le> a \<and> a \<le> 13) \<or> a = 32 then 1 else 0)"
| "ws_len [] = 0"

fun ws_len_rev :: "nat list \<Rightarrow> nat" where
  "ws_len_rev (c # b # a # r) =
     (if (9 \<le> c \<and> c \<le> 13) \<or> c = 32 then 1
      else if b = 0xC2 \<and> (c = 0x85 \<or> c = 0xA0) then 2
      else if ws_len [a, b, c] = 3 then 3 else 0)"
| "ws_len_rev (b # a # r) =
     (if (9 \<le> b \<and> b \<le> 13) \<or> b = 32 then 1
      else if a = 0xC2 \<and> (b = 0x85 \<or> b = 0xA0) then 2 else 0)"
| "ws_len_rev (a # r) = (if (9 \<le> a \<and> a \<le> 13) \<or> a = 32 then 1 else 0)"
| "ws_len_rev [] = 0"

function trim_start :: "string \<Rightarrow> string" where
  "trim_start s =
     (let n = ws_len (map of_char (take 3 s)) in
      if s = [] \<or> n = 0 then s else trim_start (drop n s))"
  by pat_completeness auto
termination
  by (relation "measure length") auto

function trim_end_rev :: "string \<Rightarrow> string" where
  "trim_end_rev s =
     (let n = ws_len_rev (map of_char (take 3 s)) in
      if s = [] \<or> n = 0 then s else trim_end_rev (drop n s))"
  by pat_completeness auto
termination
  by (relation "measure length") auto

declare trim_start.simps [simp del] trim_end_rev.simps [simp del]

definition trim_end :: "string \<Rightarrow> string" where
  "trim_end s = rev (trim_end_rev (rev s))"

definition trim :: "string \<Rightarrow> string" where
  "trim s = trim_end (trim_start s)"

lemma trim_start_Nil [simp]: "trim_start [] = []"
  by (simp add: trim_start.simps [of "[]"])

lemma trim_Nil [simp]: "trim [] = []"
  by (simp add: trim_def trim_end_def trim_end_rev.simps [of "[]"])

text \<open>A string which starts and ends with a visible ASCII character is trimmed already.\<close>

definition is_graphic :: "char \<Rightarrow> bool" where
  "is_graphic c \<longleftrightarrow> 33 \<le> byte c \<and> byte c \<le> 126"

lemma ws_len_graphic: "33 \<le> a \<Longrightarrow> a \<le> 126 \<Longrightarrow> ws_len (a # r) = 0"
  by (cases r; cases "tl r") auto

lemma ws_len_rev_graphic: "33 \<le> a \<Longrightarrow> a \<le> 126 \<Longrightarrow> ws_len_rev (a # r) = 0"
  by (cases r; cases "tl r") auto

lemma trim_start_graphic: "s \<noteq> [] \<Longrightarrow> is_graphic (hd s) \<Longrightarrow> trim_start s = s"
  by (subst trim_start.simps) (cases s, auto simp: is_graphic_def ws_len_graphic)

lemma trim_end_rev_graphic: "s \<noteq> [] \<Longrightarrow> is_graphic (hd s) \<Longrightarrow> trim_end_rev s = s"
  by (subst trim_end_rev.simps) (cases s, auto simp: is_graphic_def ws_len_rev_graphic)

lemma trim_graphic:
  "s \<noteq> [] \<Longrightarrow> is_graphic (hd s) \<Longrightarrow> is_graphic (last s) \<Longrightarrow> trim s = s"
  by (simp add: trim_def trim_end_def trim_start_graphic trim_end_rev_graphic hd_rev)

text \<open>Trimming a literal.\<close>

lemma trim_eval [byte_simps]:
  "trim_start (CHR '' '' # s) = trim_start s"
  "trim_end_rev (CHR '' '' # s) = trim_end_rev s"
  "33 \<le> byte c \<Longrightarrow> byte c \<le> 126 \<Longrightarrow> trim_start (c # s) = c # s"
  "33 \<le> byte c \<Longrightarrow> byte c \<le> 126 \<Longrightarrow> trim_end_rev (c # s) = c # s"
  "trim_end_rev [] = []"
  "trim s = trim_end (trim_start s)" "trim_end s = rev (trim_end_rev (rev s))"
proof -
  show "trim_start (CHR '' '' # s) = trim_start s"
    by (subst trim_start.simps, cases s; cases "tl s") (simp_all add: ws_len.simps)
  show "trim_end_rev (CHR '' '' # s) = trim_end_rev s"
    by (subst trim_end_rev.simps, cases s; cases "tl s") (simp_all add: ws_len_rev.simps)
qed (simp_all add: trim_start_graphic trim_end_rev_graphic is_graphic_def trim_def trim_end_def
    trim_end_rev.simps [of "[]"])

lemma trim_start_suffix: "suffix (trim_start s) s"
proof (induction s rule: trim_start.induct)
  case (1 s)
  show ?case
  proof (cases "s = [] \<or> ws_len (map of_char (take 3 s)) = 0")
    case True
    then show ?thesis by (auto simp: trim_start.simps [of s])
  next
    case False
    with 1 have "suffix (trim_start (drop (ws_len (map of_char (take 3 s))) s)) s"
      by (meson suffix_drop suffix_order.trans)
    with False show ?thesis by (simp add: trim_start.simps [of s] Let_def)
  qed
qed

lemma trim_end_rev_suffix: "suffix (trim_end_rev s) s"
proof (induction s rule: trim_end_rev.induct)
  case (1 s)
  show ?case
  proof (cases "s = [] \<or> ws_len_rev (map of_char (take 3 s)) = 0")
    case True
    then show ?thesis by (auto simp: trim_end_rev.simps [of s])
  next
    case False
    with 1 have "suffix (trim_end_rev (drop (ws_len_rev (map of_char (take 3 s))) s)) s"
      by (meson suffix_drop suffix_order.trans)
    with False show ?thesis by (simp add: trim_end_rev.simps [of s] Let_def)
  qed
qed

lemma trim_end_prefix: "prefix (trim_end s) s"
  using trim_end_rev_suffix [of "rev s"] by (simp add: trim_end_def suffix_to_prefix)

lemma set_trim_subset: "set (trim s) \<subseteq> set s"
  using trim_start_suffix [of s] trim_end_prefix [of "trim_start s"]
  by (auto simp: trim_def dest: set_mono_suffix set_mono_prefix)

lemma length_trim_le: "length (trim s) \<le> length s"
  using trim_start_suffix [of s] trim_end_prefix [of "trim_start s"]
  by (fastforce simp: trim_def dest: prefix_length_le suffix_length_le)

section \<open>Lists\<close>

lemma filter_length_mono:
  "(\<And>x. x \<in> set xs \<Longrightarrow> P x \<Longrightarrow> Q x) \<Longrightarrow> length (filter P xs) \<le> length (filter Q xs)"
  by (induction xs) auto

lemma size_filter_mset_mono:
  "filter_mset P A \<subseteq># B \<Longrightarrow> size (filter_mset P A) \<le> size B"
  by (rule size_mset_mono)

text \<open>\<open>iter().position(p)\<close>: the index of the first element with \<open>p\<close>.\<close>

fun find_pos :: "('a \<Rightarrow> bool) \<Rightarrow> 'a list \<Rightarrow> nat option" where
  "find_pos p [] = None"
| "find_pos p (x # xs) = (if p x then Some 0 else map_option Suc (find_pos p xs))"

lemma find_pos_Some:
  "find_pos p xs = Some i \<Longrightarrow> i < length xs \<and> p (xs ! i) \<and> (\<forall>j < i. \<not> p (xs ! j))"
proof (induction xs arbitrary: i)
  case (Cons x xs)
  show ?case
  proof (cases "p x")
    case True
    with Cons.prems show ?thesis by simp
  next
    case False
    with Cons.prems obtain j where j: "find_pos p xs = Some j" "i = Suc j" by auto
    with False Cons.IH show ?thesis
      by (auto simp: nth_Cons split: nat.splits)
  qed
qed simp

lemma find_pos_None: "find_pos p xs = None \<longleftrightarrow> (\<forall>x \<in> set xs. \<not> p x)"
  by (induction xs) auto

end
