(* ===== verification/Budget.thy ===== *)
theory Budget
  imports Prelude
begin

text \<open>
  The interface of a failure budget: at most \<open>limit\<close> failed attempts of one client within a
  sliding \<open>window\<close>, where an attempt reserves a slot before it runs and a failure passes its
  slot to a recorded failure. Two components of the repository provide it: the attempts of
  \<^verbatim>\<open>crates/rate_limit/src/lib.rs\<close> and the second factor failures of
  \<^verbatim>\<open>auth/server/src/api/login/totp.rs\<close>. The bound is proved once here, from the laws
  each operation keeps, for the history of failures of the client.
\<close>

section \<open>The sliding window\<close>

text \<open>\<open>now.duration_since(time) < window\<close>.\<close>

definition in_window :: "duration \<Rightarrow> instant \<Rightarrow> instant \<Rightarrow> bool" where
  "in_window w now t \<longleftrightarrow> now - t < w"

definition recent :: "duration \<Rightarrow> instant \<Rightarrow> instant list \<Rightarrow> instant list" where
  "recent w now ts = filter (in_window w now) ts"

lemma in_window_mono: "now \<le> now' \<Longrightarrow> in_window w now' t \<Longrightarrow> in_window w now t"
  by (auto simp: in_window_def)

lemma recent_recent: "now \<le> now' \<Longrightarrow> recent w now' (recent w now ts) = recent w now' ts"
  by (auto simp: recent_def intro!: filter_cong dest: in_window_mono)

lemma length_recent_mono: "now \<le> now' \<Longrightarrow> length (recent w now' ts) \<le> length (recent w now ts)"
  unfolding recent_def by (rule filter_length_mono) (rule in_window_mono)

lemma recent_append: "recent w now (xs @ ys) = recent w now xs @ recent w now ys"
  by (simp add: recent_def)

lemma set_recent: "set (recent w now ts) = {t \<in> set ts. in_window w now t}"
  by (auto simp: recent_def)

lemma mset_recent: "mset (recent w now ts) = filter_mset (in_window w now) (mset ts)"
  by (simp add: recent_def)

lemma recent_Nil [simp]: "recent w now [] = []"
  by (simp add: recent_def)

lemma sorted_recent: "sorted ts \<Longrightarrow> sorted (recent w now ts)"
  by (simp add: recent_def sorted_wrt_filter)

text \<open>The failures of a history which lie in the window ending at \<open>t\<close>.\<close>

definition window_count :: "duration \<Rightarrow> instant list \<Rightarrow> instant \<Rightarrow> nat" where
  "window_count w h t = length (filter (\<lambda>x. x \<le> t \<and> t - x < w) h)"

lemma window_count_snoc:
  "window_count w (h @ [x]) t = window_count w h t + (if x \<le> t \<and> t - x < w then 1 else 0)"
  by (simp add: window_count_def)

section \<open>How long a refused client waits\<close>

text \<open>
  \<open>failures.len().checked_sub(max)\<close>, the failure at that index, and what is left of its
  window: the window itself when there is none.
\<close>

definition retry_in :: "nat \<Rightarrow> duration \<Rightarrow> instant list \<Rightarrow> instant \<Rightarrow> duration" where
  "retry_in limit w fs now =
     (if length fs < limit then w
      else if length fs - limit < length fs then w - (now - fs ! (length fs - limit))
      else w)"

lemma sorted_recent_length_less:
  assumes "sorted fs" "0 < limit" "limit \<le> length fs"
  shows "length (recent w now fs) < limit \<longleftrightarrow> w \<le> now - fs ! (length fs - limit)"
proof -
  let ?i = "length fs - limit"
  have i: "?i < length fs" using assms by simp
  have split: "fs = take ?i fs @ fs ! ?i # drop (Suc ?i) fs"
    using i by (simp add: id_take_nth_drop)
  have len: "length (drop (Suc ?i) fs) = limit - 1" using assms by simp
  show ?thesis
  proof
    assume less: "length (recent w now fs) < limit"
    show "w \<le> now - fs ! ?i"
    proof (rule ccontr)
      assume "\<not> ?thesis"
      then have first: "in_window w now (fs ! ?i)" by (simp add: in_window_def)
      have "in_window w now x" if "x \<in> set (drop ?i fs)" for x
      proof -
        from that obtain j where "j < length (drop ?i fs)" "x = drop ?i fs ! j"
          by (metis in_set_conv_nth)
        then have "fs ! ?i \<le> x"
          using assms i by (auto intro: sorted_nth_mono)
        with first show ?thesis by (auto simp: in_window_def)
      qed
      then have "recent w now (drop ?i fs) = drop ?i fs"
        by (simp add: recent_def)
      then have "limit \<le> length (recent w now fs)"
        using assms recent_append [of w now "take ?i fs" "drop ?i fs"]
        by (simp add: append_take_drop_id)
      with less show False by simp
    qed
  next
    assume out: "w \<le> now - fs ! ?i"
    have "\<not> in_window w now x" if "x \<in> set (take (Suc ?i) fs)" for x
    proof -
      from that obtain j where "j < length (take (Suc ?i) fs)" "x = take (Suc ?i) fs ! j"
        by (metis in_set_conv_nth)
      then have "x \<le> fs ! ?i"
        using assms i by (auto intro: sorted_nth_mono)
      with out show ?thesis by (auto simp: in_window_def)
    qed
    then have "recent w now (take (Suc ?i) fs) = []"
      by (simp add: recent_def filter_empty_conv)
    then have "recent w now fs = recent w now (drop (Suc ?i) fs)"
      using recent_append [of w now "take (Suc ?i) fs" "drop (Suc ?i) fs"] by simp
    then have "length (recent w now fs) \<le> limit - 1"
      using len by (simp add: recent_def order.trans [OF length_filter_le])
    with assms show "length (recent w now fs) < limit" by simp
  qed
qed

text \<open>
  The wait is exact: with no further failure, a client whose failures use up the budget is
  below it again at \<open>now + d\<close> exactly when \<open>d\<close> has reached the announced wait.
\<close>

lemma retry_in_exact:
  assumes "sorted fs" "0 < limit" "limit \<le> length fs" "\<forall>t \<in> set fs. t \<le> now"
  shows "length (recent w (now + d) fs) < limit \<longleftrightarrow> retry_in limit w fs now \<le> d"
proof -
  let ?i = "length fs - limit"
  have i: "?i < length fs" using assms by simp
  have "fs ! ?i \<le> now" using assms i by auto
  then show ?thesis
    using sorted_recent_length_less [OF assms(1-3), of w "now + d"] assms(2,3) i
    by (simp add: retry_in_def) linarith
qed

section \<open>The bookkeeping of one client\<close>

text \<open>
  \<open>budget_inv limit w now fs n h\<close> relates the recorded failures \<open>fs\<close> and the attempts in
  flight \<open>n\<close> of a client to the history \<open>h\<close> of the failures of its reserved attempts: the
  ones still in the window are recorded, with the attempts in flight they fit the budget, and
  no window of the past held more than \<open>limit\<close> of them.
\<close>

definition budget_inv ::
  "nat \<Rightarrow> duration \<Rightarrow> instant \<Rightarrow> instant list \<Rightarrow> nat \<Rightarrow> instant list \<Rightarrow> bool" where
  "budget_inv limit w now fs n h \<longleftrightarrow>
     mset (recent w now h) \<subseteq># mset (recent w now fs) \<and>
     length (recent w now h) + n \<le> limit \<and>
     (\<forall>t \<in> set h. t \<le> now) \<and>
     (\<forall>t. window_count w h t \<le> limit)"

definition failures_inv :: "instant \<Rightarrow> instant list \<Rightarrow> bool" where
  "failures_inv now fs \<longleftrightarrow> sorted fs \<and> (\<forall>t \<in> set fs. t \<le> now)"

lemma failures_inv_Nil [simp]: "failures_inv now []"
  by (simp add: failures_inv_def)

lemma failures_inv_mono: "failures_inv now fs \<Longrightarrow> now \<le> now' \<Longrightarrow> failures_inv now' fs"
  by (auto simp: failures_inv_def)

lemma failures_inv_recent: "failures_inv now fs \<Longrightarrow> failures_inv now (recent w \<tau> fs)"
  by (auto simp: failures_inv_def sorted_recent set_recent)

lemma failures_inv_snoc: "failures_inv now fs \<Longrightarrow> failures_inv now (fs @ [now])"
  by (auto simp: failures_inv_def sorted_append)

lemma budget_inv_init: "budget_inv limit w now [] 0 []"
  by (simp add: budget_inv_def window_count_def)

lemma budget_inv_tick:
  assumes "budget_inv limit w now fs n h" "now \<le> now'"
  shows "budget_inv limit w now' fs n h"
proof -
  have "mset (recent w now' h) \<subseteq># mset (recent w now' fs)"
  proof -
    have "mset (recent w now' (recent w now h)) \<subseteq># mset (recent w now' (recent w now fs))"
      using assms(1) by (simp add: budget_inv_def mset_recent multiset_filter_mono)
    then show ?thesis using assms(2) by (simp add: recent_recent)
  qed
  moreover have "length (recent w now' h) \<le> length (recent w now h)"
    using assms(2) by (rule length_recent_mono)
  ultimately show ?thesis using assms by (fastforce simp: budget_inv_def)
qed

text \<open>Dropping failures which left the window, at any time up to now, changes nothing.\<close>

lemma budget_inv_prune:
  "budget_inv limit w now fs n h \<Longrightarrow> \<tau> \<le> now \<Longrightarrow> budget_inv limit w now (recent w \<tau> fs) n h"
  by (simp add: budget_inv_def recent_recent)

lemma budget_inv_reserve:
  assumes inv: "budget_inv limit w now fs n h" and "\<tau> \<le> now"
    and room: "length (recent w \<tau> fs) + n < limit"
  shows "budget_inv limit w now (recent w \<tau> fs) (Suc n) h"
proof -
  have "length (recent w now h) \<le> length (recent w now fs)"
    using inv size_mset_mono by (fastforce simp: budget_inv_def)
  also have "\<dots> \<le> length (recent w \<tau> fs)"
    using assms(2) by (rule length_recent_mono)
  finally have "length (recent w now h) + Suc n \<le> limit" using room by simp
  with budget_inv_prune [OF inv assms(2)] show ?thesis
    by (simp add: budget_inv_def)
qed

lemma budget_inv_release: "budget_inv limit w now fs n h \<Longrightarrow> budget_inv limit w now fs (n - 1) h"
  by (auto simp: budget_inv_def)

text \<open>A failure which no reservation counts (a best effort attempt) only adds a failure.\<close>

lemma budget_inv_other_failure:
  "budget_inv limit w now fs n h \<Longrightarrow> budget_inv limit w now (recent w now fs @ [now]) n h"
  by (auto simp: budget_inv_def recent_append recent_recent subset_mset.add_increasing2)

lemma window_count_le_recent:
  assumes "\<forall>x \<in> set h. x \<le> now" "now \<le> t"
  shows "window_count w h t \<le> length (recent w now h)"
  unfolding window_count_def recent_def
  by (rule filter_length_mono) (use assms in \<open>auto simp: in_window_def\<close>)

text \<open>A failure passes its slot to the recorded failures.\<close>

lemma budget_inv_fail:
  assumes inv: "budget_inv limit w now fs n h" and "0 < n"
  shows "budget_inv limit w now (recent w now fs @ [now]) (n - 1) (h @ [now])"
proof -
  have le: "length (recent w now h) + n \<le> limit" and past: "\<forall>t \<in> set h. t \<le> now"
    and sub: "mset (recent w now h) \<subseteq># mset (recent w now fs)"
    and old: "window_count w h t \<le> limit" for t
    using inv by (auto simp: budget_inv_def)
  have one: "length (recent w now [now]) \<le> 1" by (simp add: recent_def)
  have "window_count w (h @ [now]) t \<le> limit" for t
  proof (cases "now \<le> t \<and> t - now < w")
    case True
    then have "window_count w h t \<le> length (recent w now h)"
      using past by (auto intro: window_count_le_recent)
    with True le assms(2) show ?thesis by (simp add: window_count_snoc)
  next
    case False
    then have "window_count w (h @ [now]) t = window_count w h t"
      by (simp only: window_count_snoc if_False)
    then show ?thesis using old [of t] by simp
  qed
  moreover have "mset (recent w now (h @ [now])) \<subseteq># mset (recent w now (recent w now fs @ [now]))"
    using sub by (simp add: recent_append recent_recent)
  moreover have "length (recent w now (h @ [now])) + (n - 1) \<le> limit"
    using le one assms(2) by (simp add: recent_append)
  ultimately show ?thesis using past by (auto simp: budget_inv_def)
qed

text \<open>An entry whose failures all left the window is as good as no entry.\<close>

lemma budget_inv_stale:
  assumes "budget_inv limit w now fs n h" "recent w now fs = []"
  shows "budget_inv limit w now [] 0 h"
  using assms by (auto simp: budget_inv_def)

section \<open>The interface\<close>

text \<open>
  What a provider of the budget keeps: \<open>reserve \<tau> a\<close> (with a time \<open>\<tau>\<close> read before the entry was
  locked) takes a slot only when the failures in the window and the attempts in flight leave
  one, \<open>release\<close> gives it back and \<open>fail\<close> turns it into a failure recorded now.
\<close>

locale failure_budget =
  fixes limit :: nat and window :: duration
    and fails :: "'a \<Rightarrow> instant list" and flying :: "'a \<Rightarrow> nat"
    and reserve :: "instant \<Rightarrow> 'a \<Rightarrow> 'a option"
    and release :: "instant \<Rightarrow> 'a \<Rightarrow> 'a"
    and fail :: "instant \<Rightarrow> 'a \<Rightarrow> 'a"
  assumes reserve_law: "reserve \<tau> a = Some a' \<Longrightarrow>
      fails a' = recent window \<tau> (fails a) \<and> flying a' = Suc (flying a) \<and>
      length (fails a') + flying a < limit"
    and release_law: "flying (release now a) = flying a - 1 \<and>
      (fails (release now a) = fails a \<or> fails (release now a) = recent window now (fails a))"
    and fail_law: "flying (fail now a) = flying a - 1 \<and>
      fails (fail now a) = recent window now (fails a) @ [now]"
begin

definition ok :: "instant \<Rightarrow> 'a \<Rightarrow> instant list \<Rightarrow> bool" where
  "ok now a h \<longleftrightarrow> budget_inv limit window now (fails a) (flying a) h \<and> failures_inv now (fails a)"

lemma tick_ok: "ok now a h \<Longrightarrow> now \<le> now' \<Longrightarrow> ok now' a h"
  by (auto simp: ok_def intro: budget_inv_tick failures_inv_mono)

lemma reserve_ok: "ok now a h \<Longrightarrow> \<tau> \<le> now \<Longrightarrow> reserve \<tau> a = Some a' \<Longrightarrow> ok now a' h"
  using reserve_law [of \<tau> a a'] by (auto simp: ok_def intro: budget_inv_reserve failures_inv_recent)

lemma release_ok: "ok now a h \<Longrightarrow> ok now (release now a) h"
  using release_law [of now a]
  by (auto simp: ok_def simp del: One_nat_def
      intro: budget_inv_release budget_inv_prune [OF budget_inv_release] failures_inv_recent)

lemma fail_ok: "ok now a h \<Longrightarrow> 0 < flying a \<Longrightarrow> ok now (fail now a) (h @ [now])"
  using fail_law [of now a]
  by (auto simp: ok_def simp del: One_nat_def
      intro: budget_inv_fail failures_inv_recent failures_inv_snoc)

lemma ok_bound: "ok now a h \<Longrightarrow> window_count window h t \<le> limit"
  by (simp add: ok_def budget_inv_def)

lemma ok_flying: "ok now a h \<Longrightarrow> flying a \<le> limit"
  by (simp add: ok_def budget_inv_def)

end

text \<open>A budget which other attempts share: they record failures without a reservation.\<close>

locale shared_failure_budget = failure_budget +
  fixes note_failure :: "instant \<Rightarrow> 'a \<Rightarrow> 'a"
  assumes note_failure_law: "flying (note_failure now a) = flying a \<and>
      fails (note_failure now a) = recent window now (fails a) @ [now]"
begin

lemma note_failure_ok: "ok now a h \<Longrightarrow> ok now (note_failure now a) h"
  using note_failure_law [of now a]
  by (auto simp: ok_def intro: budget_inv_other_failure failures_inv_recent failures_inv_snoc)

end

end
