(* ===== verification/Net.thy ===== *)
theory Net
  imports Prelude "HOL-Library.Word"
begin

unbundle bit_operations_syntax

text \<open>
  \<^verbatim>\<open>std::net\<close> addresses as the sources use them: an IPv4 address is 32 bits, an IPv6
  address 128, and an IPv4-mapped IPv6 address (\<open>::ffff:a.b.c.d\<close>) has an IPv4 form.
\<close>

datatype ip_addr = V4 "32 word" | V6 "128 word"

definition to_ipv4_mapped :: "128 word \<Rightarrow> 32 word option" where
  "to_ipv4_mapped w = (if drop_bit 32 w = 0xFFFF then Some (ucast w) else None)"

fun to_canonical :: "ip_addr \<Rightarrow> ip_addr" where
  "to_canonical (V4 w) = V4 w"
| "to_canonical (V6 w) = (case to_ipv4_mapped w of Some v \<Rightarrow> V4 v | None \<Rightarrow> V6 w)"

lemma to_canonical_idem [simp]: "to_canonical (to_canonical ip) = to_canonical ip"
  by (cases ip) (auto split: option.splits)

definition map_v4 :: "32 word \<Rightarrow> 128 word" where
  "map_v4 v = push_bit 32 (mask 16) OR ucast v"

text \<open>Every IPv4 address is the canonical form of its mapped IPv6 address.\<close>

lemma to_ipv4_mapped_map_v4: "to_ipv4_mapped (map_v4 v) = Some v"
proof -
  have "drop_bit 32 (map_v4 v) = mask 16"
    by (rule bit_word_eqI) (auto simp: map_v4_def bit_simps dest: bit_imp_le_length)
  then have "drop_bit 32 (map_v4 v) = 0xFFFF" by (simp add: mask_eq_exp_minus_1)
  moreover have "(ucast (map_v4 v) :: 32 word) = v"
    by (rule bit_word_eqI) (auto simp: map_v4_def bit_simps)
  ultimately show ?thesis by (simp add: to_ipv4_mapped_def)
qed

lemma to_canonical_map_v4: "to_canonical (V6 (map_v4 v)) = V4 v"
  by (simp add: to_ipv4_mapped_map_v4)

end
