(* ===== verification/RateLimit.thy ===== *)
theory RateLimit
  imports Budget Net "HOL-Library.Option_ord"
begin

text \<open>
  The failure rate limiter, \<^verbatim>\<open>crates/rate_limit/src/lib.rs\<close>: the configuration and
  its builder, the attempts of one client (\<open>Attempts\<close>, pruned, checked, reserved and
  recorded under the entry's lock), the map of shared entries with the clean up and the
  making of room, and the tasks of \<open>with_failure_rate_limit_using_ip\<close> (best effort) and
  \<open>with_strict_failure_rate_limit_using_ip\<close> (strict) as a step relation in which every
  locked section is one step. \<open>Arc<Entry>\<close> handles are addresses into a heap of entries
  with a count of the references besides the map's own, so that removing an entry while a
  task still holds it would be visible.
\<close>

section \<open>Configuration\<close>

record rate_limiter =
  rl_disabled :: bool
  rl_max_attempts :: nat
  rl_window :: duration
  rl_ipv6_prefix_len :: "8 word"
  rl_max_entries :: nat

definition DEFAULT_IPV6_PREFIX_LEN :: "8 word" where "DEFAULT_IPV6_PREFIX_LEN = 64"
definition DEFAULT_MAX_ENTRIES :: nat where "DEFAULT_MAX_ENTRIES = 100000"

definition builder :: "nat \<Rightarrow> duration \<Rightarrow> rate_limiter" where
  "builder max_attempts window =
     \<lparr>rl_disabled = False, rl_max_attempts = max_attempts, rl_window = window,
      rl_ipv6_prefix_len = DEFAULT_IPV6_PREFIX_LEN, rl_max_entries = DEFAULT_MAX_ENTRIES\<rparr>"

definition with_disabled :: "bool \<Rightarrow> rate_limiter \<Rightarrow> rate_limiter" where
  "with_disabled d b = b\<lparr>rl_disabled := d\<rparr>"

definition with_ipv6_prefix_len :: "8 word \<Rightarrow> rate_limiter \<Rightarrow> rate_limiter" where
  "with_ipv6_prefix_len len b = b\<lparr>rl_ipv6_prefix_len := min len 128\<rparr>"

definition with_max_entries :: "nat \<Rightarrow> rate_limiter \<Rightarrow> rate_limiter" where
  "with_max_entries n b = b\<lparr>rl_max_entries := max n 1\<rparr>"

definition new_limiter :: "bool \<Rightarrow> nat \<Rightarrow> duration \<Rightarrow> rate_limiter" where
  "new_limiter d max_attempts window = with_disabled d (builder max_attempts window)"

text \<open>What every configuration the builder makes satisfies.\<close>

definition limiter_cfg_ok :: "rate_limiter \<Rightarrow> bool" where
  "limiter_cfg_ok c \<longleftrightarrow> rl_ipv6_prefix_len c \<le> 128 \<and> 1 \<le> rl_max_entries c"

lemma builder_cfg_ok [intro]:
  "limiter_cfg_ok (builder m w)"
  "limiter_cfg_ok b \<Longrightarrow> limiter_cfg_ok (with_disabled d b)"
  "limiter_cfg_ok b \<Longrightarrow> limiter_cfg_ok (with_ipv6_prefix_len len b)"
  "limiter_cfg_ok b \<Longrightarrow> limiter_cfg_ok (with_max_entries n b)"
  by (auto simp: limiter_cfg_ok_def builder_def with_disabled_def with_ipv6_prefix_len_def
      with_max_entries_def DEFAULT_IPV6_PREFIX_LEN_def DEFAULT_MAX_ENTRIES_def)

section \<open>The key of a client\<close>

definition u128_checked_shl :: "128 word \<Rightarrow> nat \<Rightarrow> 128 word option" where
  "u128_checked_shl w n = (if n < 128 then Some (push_bit n w) else None)"

definition limiter_key :: "rate_limiter \<Rightarrow> ip_addr \<Rightarrow> ip_addr" where
  "limiter_key c ip = (case to_canonical ip of
     V4 v \<Rightarrow> V4 v
   | V6 w \<Rightarrow>
       let mask = (case u128_checked_shl (- 1) (128 - unat (rl_ipv6_prefix_len c)) of
                     Some m \<Rightarrow> m | None \<Rightarrow> 0)
       in V6 (w AND mask))"

section \<open>The attempts of one client\<close>

record attempts =
  failures :: "instant list"
  in_flight :: nat

definition no_attempts :: attempts where
  "no_attempts = \<lparr>failures = [], in_flight = 0\<rparr>"

definition prune :: "instant \<Rightarrow> duration \<Rightarrow> attempts \<Rightarrow> attempts" where
  "prune now window a = a\<lparr>failures := filter (\<lambda>t. now - t < window) (failures a)\<rparr>"

text \<open>The refusal carries the time the client is told to wait.\<close>

definition too_many_attempts :: "rate_limiter \<Rightarrow> instant list \<Rightarrow> instant \<Rightarrow> duration" where
  "too_many_attempts c fs now = retry_in (rl_max_attempts c) (rl_window c) fs now"

text \<open>\<open>check\<close>: \<open>Inl\<close> the wait of the refusal, else the entry as the check leaves it.\<close>

definition check :: "rate_limiter \<Rightarrow> instant \<Rightarrow> attempts option \<Rightarrow> duration + attempts option" where
  "check c now entry = (case entry of
     None \<Rightarrow> (if rl_max_attempts c = 0 then Inl (too_many_attempts c [] now) else Inr None)
   | Some a \<Rightarrow>
       let a = prune now (rl_window c) a in
       if rl_max_attempts c \<le> length (failures a) then Inl (too_many_attempts c (failures a) now)
       else Inr (Some a))"

datatype reserve_outcome =
    Refused duration
  | Wait "instant option"
  | Reserved

definition reserve :: "rate_limiter \<Rightarrow> instant \<Rightarrow> attempts \<Rightarrow> reserve_outcome \<times> attempts" where
  "reserve c now a =
     (let a = prune now (rl_window c) a in
      if rl_max_attempts c \<le> length (failures a)
      then (Refused (too_many_attempts c (failures a) now), a)
      else if rl_max_attempts c \<le> length (failures a) + in_flight a
      then (Wait (case failures a of [] \<Rightarrow> None
                  | first # _ \<Rightarrow> instant_checked_add first (rl_window c)), a)
      else (Reserved, a\<lparr>in_flight := Suc (in_flight a)\<rparr>))"

definition push_failure :: "rate_limiter \<Rightarrow> instant \<Rightarrow> attempts \<Rightarrow> nat \<times> attempts" where
  "push_failure c now a =
     (let a = prune now (rl_window c) a;
          a = a\<lparr>failures := failures a @ [now]\<rparr>
      in (rl_max_attempts c - length (failures a), a))"

definition record_failure :: "rate_limiter \<Rightarrow> instant \<Rightarrow> attempts \<Rightarrow> nat \<times> attempts" where
  "record_failure c now a = push_failure c now a"

definition reservation_fail :: "rate_limiter \<Rightarrow> instant \<Rightarrow> attempts \<Rightarrow> nat \<times> attempts" where
  "reservation_fail c now a = push_failure c now (a\<lparr>in_flight := in_flight a - 1\<rparr>)"

definition reservation_drop :: "attempts \<Rightarrow> attempts" where
  "reservation_drop a = a\<lparr>in_flight := in_flight a - 1\<rparr>"

lemmas attempt_ops = prune_def check_def reserve_def push_failure_def record_failure_def
  reservation_fail_def reservation_drop_def too_many_attempts_def Let_def

lemma failures_prune [simp]: "failures (prune now w a) = recent w now (failures a)"
  by (simp add: prune_def recent_def in_window_def [abs_def])

lemma in_flight_prune [simp]: "in_flight (prune now w a) = in_flight a"
  by (simp add: prune_def)

definition reserve_slot :: "rate_limiter \<Rightarrow> instant \<Rightarrow> attempts \<Rightarrow> attempts option" where
  "reserve_slot c \<tau> a = (case reserve c \<tau> a of (Reserved, a') \<Rightarrow> Some a' | _ \<Rightarrow> None)"

lemma reserve_slot_Some_iff:
  "reserve_slot c \<tau> a = Some a' \<longleftrightarrow> reserve c \<tau> a = (Reserved, a')"
  by (auto simp: reserve_slot_def split: prod.splits reserve_outcome.splits)

text \<open>The operations on an entry provide the shared failure budget.\<close>

interpretation rl: shared_failure_budget
  "rl_max_attempts c" "rl_window c" failures in_flight
  "reserve_slot c" "\<lambda>_. reservation_drop" "\<lambda>now a. snd (reservation_fail c now a)"
  "\<lambda>now a. snd (record_failure c now a)"
  for c
  by unfold_locales
    (auto simp: reserve_slot_Some_iff reserve_def reservation_drop_def reservation_fail_def
      record_failure_def push_failure_def Let_def split: if_splits)

lemma reserve_other_outcome:
  "reserve c \<tau> a = (r, a') \<Longrightarrow> r \<noteq> Reserved \<Longrightarrow> a' = prune \<tau> (rl_window c) a"
  by (auto simp: reserve_def Let_def split: if_splits)

end
