(* ===== verification/LimiterSystem.thy ===== *)
theory LimiterSystem
  imports RateLimit
begin

text \<open>
  The shared state of a \<open>RateLimiter\<close> and the tasks using it,
  \<^verbatim>\<open>crates/rate_limit/src/lib.rs\<close>: \<open>get\<close>, \<open>get_or_insert\<close>, \<open>make_room\<close> and \<open>cleanup_at\<close>
  on the map of entries, then the attempts as tasks interleaved in any order. A task can be
  cancelled wherever it waits; a disabled limiter counts no attempt and cleans nothing up. \<open>Instant::now()\<close> is read before the lock is taken in
  \<open>check\<close>, \<open>reserve\<close>, \<open>make_room\<close> and \<open>cleanup\<close>, so those steps may use any earlier time.
\<close>

section \<open>The map of entries\<close>

record limiter =
  attempts_map :: "(ip_addr \<times> nat) list"  \<comment> \<open>\<open>HashMap<IpAddr, Arc<Entry>>\<close>, in its iteration order\<close>
  heap :: "nat \<Rightarrow> attempts"               \<comment> \<open>the entries behind the \<open>Arc\<close>s\<close>
  refs :: "nat \<Rightarrow> nat"                    \<comment> \<open>\<open>Arc::strong_count\<close> less the map's own handle\<close>
  next_entry :: nat

definition empty_limiter :: limiter where
  "empty_limiter = \<lparr>attempts_map = [], heap = (\<lambda>_. no_attempts), refs = (\<lambda>_. 0), next_entry = 0\<rparr>"

definition clone_ref :: "nat \<Rightarrow> limiter \<Rightarrow> limiter" where
  "clone_ref a l = l\<lparr>refs := (refs l)(a := Suc (refs l a))\<rparr>"

definition drop_ref :: "nat \<Rightarrow> limiter \<Rightarrow> limiter" where
  "drop_ref a l = l\<lparr>refs := (refs l)(a := refs l a - 1)\<rparr>"

definition set_entry :: "nat \<Rightarrow> attempts \<Rightarrow> limiter \<Rightarrow> limiter" where
  "set_entry a e l = l\<lparr>heap := (heap l)(a := e)\<rparr>"

lemma limiter_updates [simp]:
  "attempts_map (clone_ref a l) = attempts_map l" "heap (clone_ref a l) = heap l"
  "next_entry (clone_ref a l) = next_entry l"
  "refs (clone_ref a l) = (refs l)(a := Suc (refs l a))"
  "attempts_map (drop_ref a l) = attempts_map l" "heap (drop_ref a l) = heap l"
  "next_entry (drop_ref a l) = next_entry l"
  "refs (drop_ref a l) = (refs l)(a := refs l a - 1)"
  "attempts_map (set_entry a e l) = attempts_map l" "heap (set_entry a e l) = (heap l)(a := e)"
  "next_entry (set_entry a e l) = next_entry l" "refs (set_entry a e l) = refs l"
  by (simp_all add: clone_ref_def drop_ref_def set_entry_def)

definition get_entry :: "ip_addr \<Rightarrow> limiter \<Rightarrow> nat option" where
  "get_entry k l = map_of (attempts_map l) k"

text \<open>No one holds an entry whose count is the map's own, so its lock is free.\<close>

definition is_stale :: "rate_limiter \<Rightarrow> limiter \<Rightarrow> instant \<Rightarrow> nat \<Rightarrow> bool" where
  "is_stale c l now a \<longleftrightarrow>
     refs l a = 0 \<and> in_flight (heap l a) = 0 \<and>
     (failures (heap l a) = [] \<or> rl_window c \<le> now - last (failures (heap l a)))"

definition last_failure :: "limiter \<Rightarrow> nat \<Rightarrow> instant option" where
  "last_failure l a = (if failures (heap l a) = [] then None else Some (last (failures (heap l a))))"

text \<open>
  The clients \<open>make_room\<close> removes though they may have failures in the window: of those no
  attempt uses, the ones whose last failure is the oldest, as many as bring the map down to
  90\<open>%\<close>. (\<open>select_nth_unstable_by_key\<close> leaves the order of equal keys open, and so does the
  iteration order of the map, which is any here.)
\<close>

definition removable :: "limiter \<Rightarrow> (ip_addr \<times> nat) list \<Rightarrow> (instant option \<times> ip_addr) list" where
  "removable l m = [(last_failure l a, k). (k, a) \<leftarrow> m, refs l a = 0 \<and> in_flight (heap l a) = 0]"

definition room_victims :: "rate_limiter \<Rightarrow> instant \<Rightarrow> limiter \<Rightarrow> ip_addr list" where
  "room_victims c now l =
     (let m = filter (\<lambda>(_, a). \<not> is_stale c l now a) (attempts_map l);
          target = rl_max_entries c - max (rl_max_entries c div 10) 1;
          excess = length m - target;
          rs = removable l m;
          excess = min excess (length rs)
      in if excess = 0 then []
         else map snd (take excess (if excess < length rs then sort_key fst rs else rs)))"

definition make_room :: "rate_limiter \<Rightarrow> instant \<Rightarrow> limiter \<Rightarrow> limiter" where
  "make_room c now l =
     l\<lparr>attempts_map := filter (\<lambda>(k, _). k \<notin> set (room_victims c now l))
        (filter (\<lambda>(_, a). \<not> is_stale c l now a) (attempts_map l))\<rparr>"

definition needs_room :: "rate_limiter \<Rightarrow> ip_addr \<Rightarrow> limiter \<Rightarrow> bool" where
  "needs_room c k l \<longleftrightarrow> get_entry k l = None \<and> rl_max_entries c \<le> length (attempts_map l)"

definition get_or_insert ::
  "rate_limiter \<Rightarrow> instant \<Rightarrow> ip_addr \<Rightarrow> limiter \<Rightarrow> nat \<times> limiter" where
  "get_or_insert c now k l = (case get_entry k l of
     Some a \<Rightarrow> (a, clone_ref a l)
   | None \<Rightarrow>
       let l = (if rl_max_entries c \<le> length (attempts_map l) then make_room c now l else l);
           a = next_entry l
       in (a, l\<lparr>attempts_map := (k, a) # attempts_map l, heap := (heap l)(a := no_attempts),
               refs := (refs l)(a := 1), next_entry := Suc a\<rparr>))"

definition cleanup_at :: "rate_limiter \<Rightarrow> instant \<Rightarrow> limiter \<Rightarrow> limiter" where
  "cleanup_at c now l =
     l\<lparr>attempts_map := filter (\<lambda>(_, a). \<not> is_stale c l now a) (attempts_map l)\<rparr>"

section \<open>Tasks\<close>

datatype attempt =
    StrictWait ip_addr nat              \<comment> \<open>in the reserve loop, holding the entry\<close>
  | StrictRun ip_addr nat               \<comment> \<open>running the future with a reservation\<close>
  | BestCheck ip_addr "nat option"      \<comment> \<open>looked the entry up, before the check\<close>
  | BestRun ip_addr "nat option"        \<comment> \<open>running the future\<close>
  | BestFail ip_addr "nat option" nat   \<comment> \<open>the future failed, the entry was looked up again\<close>

fun held :: "attempt \<Rightarrow> nat list" where
  "held (StrictWait k a) = [a]"
| "held (StrictRun k a) = [a]"
| "held (BestCheck k ao) = (case ao of None \<Rightarrow> [] | Some a \<Rightarrow> [a])"
| "held (BestRun k ao) = (case ao of None \<Rightarrow> [] | Some a \<Rightarrow> [a])"
| "held (BestFail k ao b) = b # (case ao of None \<Rightarrow> [] | Some a \<Rightarrow> [a])"

fun attempt_key :: "attempt \<Rightarrow> ip_addr" where
  "attempt_key (StrictWait k a) = k"
| "attempt_key (StrictRun k a) = k"
| "attempt_key (BestCheck k ao) = k"
| "attempt_key (BestRun k ao) = k"
| "attempt_key (BestFail k ao b) = k"

definition drop_refs :: "attempt \<Rightarrow> limiter \<Rightarrow> limiter" where
  "drop_refs t l = foldr drop_ref (held t) l"

definition clone_opt :: "nat option \<Rightarrow> limiter \<Rightarrow> limiter" where
  "clone_opt ao l = (case ao of None \<Rightarrow> l | Some a \<Rightarrow> clone_ref a l)"

definition check_entry ::
  "rate_limiter \<Rightarrow> instant \<Rightarrow> nat option \<Rightarrow> limiter \<Rightarrow> bool \<times> limiter" where
  "check_entry c now ao l = (case ao of
     None \<Rightarrow> (case check c now None of Inl _ \<Rightarrow> False | Inr _ \<Rightarrow> True, l)
   | Some a \<Rightarrow> (case check c now (Some (heap l a)) of Inl _ \<Rightarrow> False | Inr _ \<Rightarrow> True,
                set_entry a (prune now (rl_window c) (heap l a)) l))"

record system =
  lim :: limiter
  clock :: instant
  pool :: "attempt list"                   \<comment> \<open>the tasks in progress\<close>
  strict_history :: "(ip_addr \<times> instant) list"  \<comment> \<open>every failure of a strict attempt so far\<close>
  evicted :: "ip_addr set"                 \<comment> \<open>clients \<open>make_room\<close> dropped failures of\<close>

definition init_system :: system where
  "init_system = \<lparr>lim = empty_limiter, clock = 0, pool = [], strict_history = [], evicted = {}\<rparr>"

definition room_evictions :: "rate_limiter \<Rightarrow> instant \<Rightarrow> ip_addr \<Rightarrow> limiter \<Rightarrow> ip_addr set" where
  "room_evictions c now k l = (if needs_room c k l then set (room_victims c now l) else {})"

inductive step :: "rate_limiter \<Rightarrow> system \<Rightarrow> system \<Rightarrow> bool" for c :: rate_limiter where
  tick: "clock s \<le> t \<Longrightarrow> step c s (s\<lparr>clock := t\<rparr>)"
| strict_begin: "\<not> rl_disabled c \<Longrightarrow> \<tau> \<le> clock s \<Longrightarrow> k = limiter_key c ip \<Longrightarrow> get_or_insert c \<tau> k (lim s) = (a, l) \<Longrightarrow>
    step c s (s\<lparr>lim := l, pool := StrictWait k a # pool s,
                evicted := evicted s \<union> room_evictions c \<tau> k (lim s)\<rparr>)"
| strict_reserve: "pool s = xs @ StrictWait k a # ys \<Longrightarrow> \<tau> \<le> clock s \<Longrightarrow>
    reserve c \<tau> (heap (lim s) a) = (Reserved, e) \<Longrightarrow>
    step c s (s\<lparr>lim := set_entry a e (lim s), pool := xs @ StrictRun k a # ys\<rparr>)"
| strict_wait: "pool s = xs @ StrictWait k a # ys \<Longrightarrow> \<tau> \<le> clock s \<Longrightarrow>
    reserve c \<tau> (heap (lim s) a) = (Wait w, e) \<Longrightarrow>
    step c s (s\<lparr>lim := set_entry a e (lim s)\<rparr>)"
| strict_refused: "pool s = xs @ StrictWait k a # ys \<Longrightarrow> \<tau> \<le> clock s \<Longrightarrow>
    reserve c \<tau> (heap (lim s) a) = (Refused d, e) \<Longrightarrow>
    step c s (s\<lparr>lim := drop_refs (StrictWait k a) (set_entry a e (lim s)), pool := xs @ ys\<rparr>)"
| strict_done: "pool s = xs @ StrictRun k a # ys \<Longrightarrow>
    step c s (s\<lparr>lim := drop_refs (StrictRun k a)
                  (set_entry a (reservation_drop (heap (lim s) a)) (lim s)), pool := xs @ ys\<rparr>)"
| strict_fail: "pool s = xs @ StrictRun k a # ys \<Longrightarrow>
    step c s (s\<lparr>lim := drop_refs (StrictRun k a)
                  (set_entry a (snd (reservation_fail c (clock s) (heap (lim s) a))) (lim s)),
                pool := xs @ ys, strict_history := strict_history s @ [(k, clock s)]\<rparr>)"
| best_begin: "\<not> rl_disabled c \<Longrightarrow> k = limiter_key c ip \<Longrightarrow> ao = get_entry k (lim s) \<Longrightarrow>
    step c s (s\<lparr>lim := clone_opt ao (lim s), pool := BestCheck k ao # pool s\<rparr>)"
| best_pass: "pool s = xs @ BestCheck k ao # ys \<Longrightarrow> \<tau> \<le> clock s \<Longrightarrow>
    check_entry c \<tau> ao (lim s) = (True, l) \<Longrightarrow>
    step c s (s\<lparr>lim := l, pool := xs @ BestRun k ao # ys\<rparr>)"
| best_refused: "pool s = xs @ BestCheck k ao # ys \<Longrightarrow> \<tau> \<le> clock s \<Longrightarrow>
    check_entry c \<tau> ao (lim s) = (False, l) \<Longrightarrow>
    step c s (s\<lparr>lim := drop_refs (BestCheck k ao) l, pool := xs @ ys\<rparr>)"
| best_fail: "pool s = xs @ BestRun k ao # ys \<Longrightarrow> \<tau> \<le> clock s \<Longrightarrow>
    get_or_insert c \<tau> k (lim s) = (b, l) \<Longrightarrow>
    step c s (s\<lparr>lim := l, pool := xs @ BestFail k ao b # ys,
                evicted := evicted s \<union> room_evictions c \<tau> k (lim s)\<rparr>)"
| best_record: "pool s = xs @ BestFail k ao b # ys \<Longrightarrow>
    step c s (s\<lparr>lim := drop_refs (BestFail k ao b)
                  (set_entry b (snd (record_failure c (clock s) (heap (lim s) b))) (lim s)),
                pool := xs @ ys\<rparr>)"
| leave: "pool s = xs @ t # ys \<Longrightarrow> (\<forall>k a. t \<noteq> StrictRun k a) \<Longrightarrow>
    step c s (s\<lparr>lim := drop_refs t (lim s), pool := xs @ ys\<rparr>)"
| cleanup: "\<not> rl_disabled c \<Longrightarrow> \<tau> \<le> clock s \<Longrightarrow> step c s (s\<lparr>lim := cleanup_at c \<tau> (lim s)\<rparr>)"

inductive reachable :: "rate_limiter \<Rightarrow> system \<Rightarrow> bool" for c :: rate_limiter where
  start: "reachable c init_system"
| more: "reachable c s \<Longrightarrow> step c s s' \<Longrightarrow> reachable c s'"

end
