(* ===== verification/LimiterBound.thy ===== *)
theory LimiterBound
  imports LimiterSystem
begin

text \<open>
  The invariant of the running limiter (\<open>LimiterSystem\<close>), kept by every step whatever the
  interleaving: the map is a bijection between clients and entries, an entry a task holds
  stays on the map, the counts of references and of attempts in flight are those of the tasks,
  and every client's failures keep the budget of \<open>Budget\<close>.
\<close>

section \<open>The invariant\<close>

abbreviation clients :: "limiter \<Rightarrow> ip_addr set" where
  "clients l \<equiv> fst ` set (attempts_map l)"

definition holders :: "nat \<Rightarrow> attempt list \<Rightarrow> nat" where
  "holders a ts = (\<Sum>t\<leftarrow>ts. count_list (held t) a)"

fun running :: "nat \<Rightarrow> attempt \<Rightarrow> bool" where
  "running a (StrictRun k b) = (b = a)"
| "running a _ = False"

definition map_inv :: "limiter \<Rightarrow> bool" where
  "map_inv l \<longleftrightarrow> distinct (map fst (attempts_map l)) \<and> distinct (map snd (attempts_map l)) \<and>
     (\<forall>(k, a) \<in> set (attempts_map l). a < next_entry l)"

definition pool_inv :: "limiter \<Rightarrow> attempt list \<Rightarrow> bool" where
  "pool_inv l ts \<longleftrightarrow>
     (\<forall>t \<in> set ts. \<forall>a \<in> set (held t). (attempt_key t, a) \<in> set (attempts_map l)) \<and>
     (\<forall>a. refs l a = holders a ts)"

definition count_inv :: "rate_limiter \<Rightarrow> limiter \<Rightarrow> attempt list \<Rightarrow> bool" where
  "count_inv c l ts \<longleftrightarrow> (\<forall>(k, a) \<in> set (attempts_map l).
     in_flight (heap l a) = length (filter (running a) ts) \<and>
     in_flight (heap l a) \<le> rl_max_attempts c)"

definition history_of :: "(ip_addr \<times> instant) list \<Rightarrow> ip_addr \<Rightarrow> instant list" where
  "history_of h k = map snd (filter (\<lambda>p. fst p = k) h)"

definition hist_inv ::
  "rate_limiter \<Rightarrow> instant \<Rightarrow> limiter \<Rightarrow> ip_addr set \<Rightarrow> (ip_addr \<times> instant) list \<Rightarrow> bool" where
  "hist_inv c now l ev h \<longleftrightarrow>
     (\<forall>(k, a) \<in> set (attempts_map l). failures_inv now (failures (heap l a))) \<and>
     (\<forall>(k, a) \<in> set (attempts_map l). k \<notin> ev \<longrightarrow> rl.ok c now (heap l a) (history_of h k)) \<and>
     (\<forall>k. k \<notin> ev \<longrightarrow> k \<notin> clients l \<longrightarrow> rl.ok c now no_attempts (history_of h k))"

definition system_inv :: "rate_limiter \<Rightarrow> system \<Rightarrow> bool" where
  "system_inv c s \<longleftrightarrow> map_inv (lim s) \<and> pool_inv (lim s) (pool s) \<and>
     count_inv c (lim s) (pool s) \<and>
     hist_inv c (clock s) (lim s) (evicted s) (strict_history s)"

lemma hist_invI:
  assumes "\<And>k a. (k, a) \<in> set (attempts_map l) \<Longrightarrow> failures_inv now (failures (heap l a))"
    and "\<And>k a. (k, a) \<in> set (attempts_map l) \<Longrightarrow> k \<notin> ev \<Longrightarrow> rl.ok c now (heap l a) (history_of h k)"
    and "\<And>k. k \<notin> ev \<Longrightarrow> k \<notin> clients l \<Longrightarrow> rl.ok c now no_attempts (history_of h k)"
  shows "hist_inv c now l ev h"
  using assms unfolding hist_inv_def by auto

lemma no_attempts_sel [simp]: "failures no_attempts = []" "in_flight no_attempts = 0"
  by (simp_all add: no_attempts_def)

lemma ok_no_attempts_Nil: "rl.ok c now no_attempts []"
  by (simp add: rl.ok_def budget_inv_init)

lemma system_inv_init: "system_inv c init_system"
  by (simp add: system_inv_def init_system_def empty_limiter_def map_inv_def pool_inv_def
      holders_def count_inv_def hist_inv_def history_of_def ok_no_attempts_Nil)

section \<open>References\<close>

lemma holders_append [simp]: "holders a (xs @ ys) = holders a xs + holders a ys"
  by (simp add: holders_def)

lemma holders_Cons [simp]: "holders a (t # ts) = count_list (held t) a + holders a ts"
  by (simp add: holders_def)

lemma holders_Nil [simp]: "holders a [] = 0"
  by (simp add: holders_def)

lemma foldr_drop_ref [simp]:
  "attempts_map (foldr drop_ref as l) = attempts_map l"
  "heap (foldr drop_ref as l) = heap l"
  "next_entry (foldr drop_ref as l) = next_entry l"
  "refs (foldr drop_ref as l) a = refs l a - count_list as a"
  by (induction as arbitrary: a) auto

lemma drop_refs_sel [simp]:
  "attempts_map (drop_refs t l) = attempts_map l"
  "heap (drop_refs t l) = heap l"
  "next_entry (drop_refs t l) = next_entry l"
  "refs (drop_refs t l) a = refs l a - count_list (held t) a"
  by (simp_all add: drop_refs_def)

lemma map_inv_heap_refs [simp]:
  "map_inv (drop_refs t l) = map_inv l"
  "map_inv (set_entry a e l) = map_inv l"
  "map_inv (clone_ref a l) = map_inv l"
  by (simp_all add: map_inv_def)

lemma pool_inv_set_entry [simp]: "pool_inv (set_entry a e l) ts = pool_inv l ts"
  by (simp add: pool_inv_def)

lemma pool_inv_remove: "pool_inv l (xs @ t # ys) \<Longrightarrow> pool_inv (drop_refs t l) (xs @ ys)"
  by (auto simp: pool_inv_def)

lemma pool_inv_swap:
  "pool_inv l (xs @ t # ys) \<Longrightarrow> held t' = held t \<Longrightarrow> attempt_key t' = attempt_key t \<Longrightarrow>
   pool_inv l (xs @ t' # ys)"
  by (auto simp: pool_inv_def)

lemma pool_inv_entry:
  "pool_inv l (xs @ t # ys) \<Longrightarrow> a \<in> set (held t) \<Longrightarrow> (attempt_key t, a) \<in> set (attempts_map l)"
  by (auto simp: pool_inv_def)

lemma holders_0_iff: "holders a ts = 0 \<longleftrightarrow> (\<forall>t \<in> set ts. a \<notin> set (held t))"
  by (induction ts) (auto simp: count_list_0_iff)

lemma pool_inv_refs_0: "pool_inv l ts \<Longrightarrow> a \<notin> snd ` set (attempts_map l) \<Longrightarrow> refs l a = 0"
  by (force simp: pool_inv_def holders_0_iff)

lemma map_inv_unique:
  "map_inv l \<Longrightarrow> (k, a) \<in> set (attempts_map l) \<Longrightarrow> (k', a) \<in> set (attempts_map l) \<Longrightarrow> k' = k"
  unfolding map_inv_def distinct_map inj_on_def by (metis fst_conv snd_conv)

lemma map_inv_functional:
  "map_inv l \<Longrightarrow> (k, a) \<in> set (attempts_map l) \<Longrightarrow> (k, a') \<in> set (attempts_map l) \<Longrightarrow> a' = a"
  by (auto simp: map_inv_def dest: eq_key_imp_eq_value)

section \<open>Removing entries\<close>

text \<open>Both clean ups keep a part of the map, with every entry an attempt uses.\<close>

definition shrinks :: "rate_limiter \<Rightarrow> instant \<Rightarrow> ip_addr set \<Rightarrow> limiter \<Rightarrow> limiter \<Rightarrow> bool" where
  "shrinks c \<tau> ev l l' \<longleftrightarrow>
     (\<exists>P. attempts_map l' = filter P (attempts_map l) \<and>
       (\<forall>(k, a) \<in> set (attempts_map l). 0 < refs l a \<longrightarrow> P (k, a)) \<and>
       (\<forall>(k, a) \<in> set (attempts_map l). \<not> P (k, a) \<longrightarrow> is_stale c l \<tau> a \<or> k \<in> ev)) \<and>
     heap l' = heap l \<and> refs l' = refs l \<and> next_entry l' = next_entry l"

lemma shrinks_cleanup: "shrinks c \<tau> ev l (cleanup_at c \<tau> l)"
  unfolding shrinks_def cleanup_at_def
  by (auto simp: is_stale_def intro!: exI [where x = "\<lambda>(_, a). \<not> is_stale c l \<tau> a"])

lemma set_take_sorted_sub:
  "set (map snd (take n (if b then sort_key fst rs else rs))) \<subseteq> snd ` set rs"
  by (auto dest!: in_set_takeD split: if_splits)

lemma room_victims_sub:
  "set (room_victims c \<tau> l) \<subseteq>
   snd ` set (removable l (filter (\<lambda>(_, a). \<not> is_stale c l \<tau> a) (attempts_map l)))"
  unfolding room_victims_def Let_def
  by (cases "min (length (filter (\<lambda>(_, a). \<not> is_stale c l \<tau> a) (attempts_map l)) -
        (rl_max_entries c - max (rl_max_entries c div 10) 1))
      (length (removable l (filter (\<lambda>(_, a). \<not> is_stale c l \<tau> a) (attempts_map l)))) = 0")
    (simp_all only: if_True if_False simp_thms set_take_sorted_sub list.set empty_subsetI)

lemma room_victims_unused:
  assumes "k \<in> set (room_victims c \<tau> l)" "(k, a) \<in> set (attempts_map l)" "map_inv l"
  shows "refs l a = 0"
proof -
  let ?m = "filter (\<lambda>(_, a). \<not> is_stale c l \<tau> a) (attempts_map l)"
  have "k \<in> snd ` set (removable l ?m)"
    using assms(1) room_victims_sub by blast
  then obtain b where "(k, b) \<in> set (attempts_map l)" "refs l b = 0"
    by (auto simp: removable_def)
  then show ?thesis using map_inv_functional [OF assms(3,2)] by blast
qed

lemma shrinks_make_room:
  assumes "map_inv l"
  shows "shrinks c \<tau> (set (room_victims c \<tau> l)) l (make_room c \<tau> l)"
  unfolding shrinks_def make_room_def
  using room_victims_unused [OF _ _ assms]
  by (auto simp: is_stale_def intro!: exI [where x = "\<lambda>(k, a). k \<notin> set (room_victims c \<tau> l) \<and> \<not> is_stale c l \<tau> a"]
      intro: filter_cong)

lemma make_room_sel [simp]:
  "heap (make_room c \<tau> l) = heap l" "refs (make_room c \<tau> l) = refs l"
  "next_entry (make_room c \<tau> l) = next_entry l"
  by (simp_all add: make_room_def)

lemma shrinks_map_inv: "shrinks c \<tau> ev l l' \<Longrightarrow> map_inv l \<Longrightarrow> map_inv l'"
  by (auto simp: shrinks_def map_inv_def distinct_map_filter)

lemma shrinks_keeps:
  "shrinks c \<tau> ev l l' \<Longrightarrow> (k, a) \<in> set (attempts_map l) \<Longrightarrow> 0 < refs l a \<Longrightarrow>
   (k, a) \<in> set (attempts_map l')"
  by (auto simp: shrinks_def)

lemma shrinks_sub: "shrinks c \<tau> ev l l' \<Longrightarrow> set (attempts_map l') \<subseteq> set (attempts_map l)"
  by (auto simp: shrinks_def)

lemma shrinks_pool_inv:
  assumes "shrinks c \<tau> ev l l'" "pool_inv l ts"
  shows "pool_inv l' ts"
proof -
  have "(attempt_key t, a) \<in> set (attempts_map l')" if "t \<in> set ts" "a \<in> set (held t)" for t a
  proof -
    have "refs l a \<noteq> 0" using assms(2) that by (auto simp: pool_inv_def holders_0_iff)
    with assms that show ?thesis by (auto simp: pool_inv_def intro: shrinks_keeps)
  qed
  with assms show ?thesis by (auto simp: pool_inv_def shrinks_def)
qed

lemma shrinks_count_inv: "shrinks c \<tau> ev l l' \<Longrightarrow> count_inv c l ts \<Longrightarrow> count_inv c l' ts"
  by (auto simp: count_inv_def shrinks_def)

lemma stale_ok:
  assumes "rl.ok c now (heap l a) h" "is_stale c l \<tau> a" "\<tau> \<le> now"
  shows "rl.ok c now no_attempts h"
proof -
  have "recent (rl_window c) now (failures (heap l a)) = []"
  proof (cases "failures (heap l a) = []")
    case False
    have "\<not> in_window (rl_window c) now t" if "t \<in> set (failures (heap l a))" for t
    proof -
      have "t \<le> last (failures (heap l a))"
        using assms(1) that False
        by (auto simp: rl.ok_def failures_inv_def in_set_conv_nth last_conv_nth intro: sorted_nth_mono)
      moreover have "rl_window c \<le> \<tau> - last (failures (heap l a))"
        using assms(2) False by (auto simp: is_stale_def)
      ultimately show ?thesis using assms(3) by (auto simp: in_window_def)
    qed
    then show ?thesis by (auto simp: recent_def filter_empty_conv)
  qed simp
  then show ?thesis
    using assms(1) by (auto simp: rl.ok_def dest: budget_inv_stale)
qed

lemma shrinks_hist_inv:
  assumes "shrinks c \<tau> ev' l l'" "hist_inv c now l ev h" "\<tau> \<le> now"
  shows "hist_inv c now l' (ev \<union> ev') h"
proof -
  have gone: "rl.ok c now no_attempts (history_of h k)"
    if "k \<notin> ev" "k \<notin> ev'" "k \<notin> clients l'" for k
  proof (cases "k \<in> clients l")
    case False
    with that assms(2) show ?thesis by (auto simp: hist_inv_def)
  next
    case True
    then obtain a where a: "(k, a) \<in> set (attempts_map l)" by auto
    with that assms(1) have "is_stale c l \<tau> a" by (force simp: shrinks_def)
    with a that assms show ?thesis by (auto simp: hist_inv_def intro: stale_ok)
  qed
  have "heap l' = heap l" using assms(1) by (simp add: shrinks_def)
  with gone shrinks_sub [OF assms(1)] assms(2) show ?thesis
    by (auto simp: hist_inv_def)
qed

section \<open>Looking an entry up or adding one\<close>

definition with_entry :: "ip_addr \<Rightarrow> nat \<Rightarrow> limiter \<Rightarrow> limiter" where
  "with_entry k a l = l\<lparr>attempts_map := (k, a) # attempts_map l, heap := (heap l)(a := no_attempts),
                        refs := (refs l)(a := 1), next_entry := Suc a\<rparr>"

text \<open>The two ways \<open>get_or_insert\<close> goes, the room made included.\<close>

lemma get_or_insert_cases:
  assumes "get_or_insert c \<tau> k l = (a, l')" "map_inv l"
  obtains (found) "(k, a) \<in> set (attempts_map l)" "l' = clone_ref a l" "room_evictions c \<tau> k l = {}"
    | (fresh) l1 where "k \<notin> clients l" "shrinks c \<tau> (room_evictions c \<tau> k l) l l1" "a = next_entry l"
        "l' = with_entry k a l1"
proof (cases "get_entry k l")
  case (Some b)
  with assms found show ?thesis
    by (auto simp: get_or_insert_def room_evictions_def needs_room_def get_entry_def
        dest: map_of_SomeD)
next
  case None
  then have k: "k \<notin> clients l" by (simp add: get_entry_def map_of_eq_None_iff)
  show ?thesis
  proof (cases "rl_max_entries c \<le> length (attempts_map l)")
    case True
    with None assms show ?thesis
      by (intro fresh [OF k, of "make_room c \<tau> l"])
        (auto simp: get_or_insert_def room_evictions_def needs_room_def with_entry_def Let_def
          shrinks_make_room)
  next
    case False
    have "shrinks c \<tau> {} l l"
      by (auto simp: shrinks_def intro!: exI [where x = "\<lambda>_. True"])
    with False None assms show ?thesis
      by (intro fresh [OF k, of l])
        (auto simp: get_or_insert_def room_evictions_def needs_room_def with_entry_def Let_def)
  qed
qed

lemma shrinks_next: "shrinks c \<tau> ev l l' \<Longrightarrow> next_entry l' = next_entry l"
  by (simp add: shrinks_def)

lemma fresh_unused:
  assumes "map_inv l" "pool_inv l ts"
  shows "next_entry l \<notin> snd ` set (attempts_map l)" "holders (next_entry l) ts = 0"
    "filter (running (next_entry l)) ts = []"
proof -
  show un: "next_entry l \<notin> snd ` set (attempts_map l)" using assms(1) by (force simp: map_inv_def)
  show h: "holders (next_entry l) ts = 0"
    using pool_inv_refs_0 [OF assms(2) un] assms(2) by (simp add: pool_inv_def)
  show "filter (running (next_entry l)) ts = []"
  proof -
    have "\<not> running (next_entry l) t" if "t \<in> set ts" for t
    proof -
      from h that have "next_entry l \<notin> set (held t)" by (simp add: holders_0_iff)
      then show ?thesis by (cases t) auto
    qed
    then show ?thesis by (simp add: filter_empty_conv)
  qed
qed

text \<open>
  After it, the task holds an entry of its client: the references count one more, and the
  entry is an old one or a new one without attempts.
\<close>

lemma with_entry_sel [simp]:
  "attempts_map (with_entry k a l) = (k, a) # attempts_map l"
  "heap (with_entry k a l) = (heap l)(a := no_attempts)"
  "refs (with_entry k a l) = (refs l)(a := 1)"
  "next_entry (with_entry k a l) = Suc a"
  by (simp_all add: with_entry_def)

lemma map_inv_with_entry:
  "map_inv l \<Longrightarrow> k \<notin> clients l \<Longrightarrow> map_inv (with_entry k (next_entry l) l)"
  unfolding map_inv_def by auto

lemma clients_shrinks: "shrinks c \<tau> ev l l' \<Longrightarrow> k \<notin> clients l \<Longrightarrow> k \<notin> clients l'"
  using shrinks_sub by fastforce

lemma get_or_insert_map_inv:
  assumes "get_or_insert c \<tau> k l = (a, l')" "map_inv l"
  shows "map_inv l'"
  using assms
proof (cases rule: get_or_insert_cases)
  case (fresh l1)
  then show ?thesis
    using assms(2) by (metis shrinks_map_inv shrinks_next clients_shrinks map_inv_with_entry)
qed (use assms in simp)

lemma get_or_insert_pool_inv:
  assumes goi: "get_or_insert c \<tau> k l = (a, l')" and inv: "map_inv l" "pool_inv l (xs @ ts @ ys)"
    and new: "attempt_key t = k" "\<And>b. count_list (held t) b = count_list [a] b + holders b ts"
    and sub: "\<forall>u \<in> set ts. attempt_key u = k"
  shows "pool_inv l' (xs @ t # ys)"
proof -
  have refs: "refs l' b = Suc (refs l b)" if "b = a" for b
    using goi inv(1)
  proof (cases rule: get_or_insert_cases)
    case (fresh l1)
    with that fresh_unused [OF inv] inv(2) show ?thesis by (simp add: pool_inv_def shrinks_def)
  qed (simp add: that)
  have refs': "refs l' b = refs l b" if "b \<noteq> a" for b
    using goi inv(1)
  proof (cases rule: get_or_insert_cases)
    case (fresh l1)
    with that show ?thesis by (simp add: shrinks_def)
  qed (simp add: that)
  have keep: "(attempt_key u, b) \<in> set (attempts_map l')"
    if "u \<in> set (xs @ ts @ ys)" "b \<in> set (held u)" for u b
    using goi inv(1)
  proof (cases rule: get_or_insert_cases)
    case found
    with that inv(2) show ?thesis by (simp add: pool_inv_def)
  next
    case (fresh l1)
    with that shrinks_pool_inv [OF fresh(2) inv(2)] show ?thesis by (simp add: pool_inv_def)
  qed
  have mine: "(k, a) \<in> set (attempts_map l')"
    using goi inv(1) by (cases rule: get_or_insert_cases) auto
  have held_t: "set (held t) = insert a (\<Union>u \<in> set ts. set (held u))"
  proof -
    have "b \<in> set (held t) \<longleftrightarrow> b = a \<or> (\<exists>u \<in> set ts. b \<in> set (held u))" for b
      using new(2) [of b] holders_0_iff [of b ts] count_list_0_iff [of "held t" b]
      by (auto split: if_splits)
    then show ?thesis by blast
  qed
  show ?thesis
    unfolding pool_inv_def
  proof (intro conjI ballI allI)
    fix u b assume u: "u \<in> set (xs @ t # ys)" "b \<in> set (held u)"
    show "(attempt_key u, b) \<in> set (attempts_map l')"
    proof (cases "u = t")
      case True
      with u held_t have "b = a \<or> (\<exists>v \<in> set ts. b \<in> set (held v))" by auto
      then show ?thesis
      proof
        assume "\<exists>v \<in> set ts. b \<in> set (held v)"
        then obtain v where "v \<in> set ts" "b \<in> set (held v)" by blast
        with keep [of v b] sub new(1) True show ?thesis by auto
      qed (use mine new(1) True in simp)
    qed (use u keep in auto)
  next
    fix b show "refs l' b = holders b (xs @ t # ys)"
      using refs [of b] refs' [of b] new(2) [of b] inv(2) by (auto simp: pool_inv_def)
  qed
qed

lemma get_or_insert_count_inv:
  assumes "get_or_insert c \<tau> k l = (a, l')" "map_inv l" "pool_inv l ts" "count_inv c l ts"
  shows "count_inv c l' ts"
  using assms(1,2)
proof (cases rule: get_or_insert_cases)
  case (fresh l1)
  have "count_inv c l1 ts" using fresh(2) assms(4) by (rule shrinks_count_inv)
  moreover have "next_entry l \<notin> snd ` set (attempts_map l1)"
    using fresh_unused(1) [OF assms(2,3)] shrinks_sub [OF fresh(2)] by auto
  ultimately show ?thesis
    using fresh(3,4) fresh_unused(3) [OF assms(2,3)] by (force simp: count_inv_def)
qed (use assms(4) in \<open>simp add: count_inv_def\<close>)

lemma get_or_insert_hist_inv:
  assumes "get_or_insert c \<tau> k l = (a, l')" "map_inv l" "hist_inv c now l ev h" "\<tau> \<le> now"
  shows "hist_inv c now l' (ev \<union> room_evictions c \<tau> k l) h"
  using assms(1,2)
proof (cases rule: get_or_insert_cases)
  case found
  with assms(3) show ?thesis by (simp add: hist_inv_def)
next
  case (fresh l1)
  have h1: "hist_inv c now l1 (ev \<union> room_evictions c \<tau> k l) h"
    using fresh(2) assms(3,4) by (rule shrinks_hist_inv)
  have k: "k \<notin> clients l1" using fresh(1,2) by (simp add: clients_shrinks)
  have "next_entry l \<notin> snd ` set (attempts_map l1)"
    using assms(2) shrinks_sub [OF fresh(2)] by (force simp: map_inv_def)
  then have old: "b \<noteq> a" if "(k', b) \<in> set (attempts_map l1)" for k' b
    using fresh(3) that by force
  have "rl.ok c now no_attempts (history_of h k)" if "k \<notin> ev \<union> room_evictions c \<tau> k l"
    using h1 k that unfolding hist_inv_def by blast
  with h1 old fresh(4) show ?thesis
    unfolding hist_inv_def by (auto split: if_splits)
qed

section \<open>Changing one entry\<close>

text \<open>
  A locked section of a task: it changes the entry of its client and may record a failure.
\<close>

lemma set_entry_hist_inv:
  assumes "hist_inv c now l ev h" "map_inv l" "(k, a) \<in> set (attempts_map l)"
    and "failures_inv now (failures e)"
    and "k \<notin> ev \<Longrightarrow> rl.ok c now e (history_of h k @ new)"
    and "h' = h @ map (Pair k) new"
  shows "hist_inv c now (set_entry a e l) ev h'"
proof -
  have other: "history_of h' k' = history_of h k'" if "k' \<noteq> k" for k'
    using that assms(6) by (auto simp: history_of_def filter_empty_conv)
  have mine: "history_of h' k = history_of h k @ new"
    using assms(6) by (simp add: history_of_def o_def filter_map)
  have "k' \<noteq> k \<longleftrightarrow> a' \<noteq> a" if "(k', a') \<in> set (attempts_map l)" for k' a'
    using that assms(2,3) by (metis map_inv_unique map_inv_functional)
  note same = this
  have "failures_inv now (failures (heap (set_entry a e l) b))"
    if "(k', b) \<in> set (attempts_map (set_entry a e l))" for k' b
    using that assms(1,4) by (auto simp: hist_inv_def)
  moreover have "rl.ok c now (heap (set_entry a e l) b) (history_of h' k')"
    if "(k', b) \<in> set (attempts_map (set_entry a e l))" "k' \<notin> ev" for k' b
    using that assms(1,5) other mine same [of k' b] by (cases "k' = k") (auto simp: hist_inv_def)
  moreover have "rl.ok c now no_attempts (history_of h' k')"
    if "k' \<notin> ev" "k' \<notin> clients (set_entry a e l)" for k'
    using that assms(1,3) other [of k'] by (force simp: hist_inv_def)
  ultimately show ?thesis by (rule hist_invI)
qed

lemma hist_inv_entry:
  assumes "hist_inv c now l ev h" "(k, a) \<in> set (attempts_map l)"
  shows "failures_inv now (failures (heap l a))"
    and "k \<notin> ev \<Longrightarrow> rl.ok c now (heap l a) (history_of h k)"
  using assms by (auto simp: hist_inv_def)

lemma set_entry_count_inv:
  assumes "count_inv c l ts" "map_inv l" "(k, a) \<in> set (attempts_map l)"
    and "in_flight e = length (filter (running a) ts')" "in_flight e \<le> rl_max_attempts c"
    and "\<And>b. b \<noteq> a \<Longrightarrow> length (filter (running b) ts') = length (filter (running b) ts)"
  shows "count_inv c (set_entry a e l) ts'"
  using assms by (auto simp: count_inv_def)

lemma count_inv_drop_refs [simp]: "count_inv c (drop_refs t l) ts = count_inv c l ts"
  by (simp add: count_inv_def)

lemma hist_inv_drop_refs [simp]: "hist_inv c now (drop_refs t l) ev h = hist_inv c now l ev h"
  by (simp add: hist_inv_def)

lemma pool_inv_drop_refs_cong: "pool_inv (drop_refs t (set_entry a e l)) ts = pool_inv (drop_refs t l) ts"
  by (simp add: pool_inv_def)

lemma count_inv_same_running:
  "count_inv c l ts \<Longrightarrow> (\<And>b. length (filter (running b) ts') = length (filter (running b) ts)) \<Longrightarrow>
   count_inv c l ts'"
  by (auto simp: count_inv_def)

lemma hist_inv_tick: "hist_inv c now l ev h \<Longrightarrow> now \<le> now' \<Longrightarrow> hist_inv c now' l ev h"
  unfolding hist_inv_def by (auto intro: rl.tick_ok failures_inv_mono)

section \<open>Every step keeps the invariant\<close>

lemma running_filter_other:
  "\<forall>k b. t \<noteq> StrictRun k b \<Longrightarrow> length (filter (running b) (xs @ t # ys)) = length (filter (running b) (xs @ ys))"
  by (cases t) auto

lemma system_invD:
  assumes "system_inv c s"
  shows "map_inv (lim s)" "pool_inv (lim s) (pool s)" "count_inv c (lim s) (pool s)"
    "hist_inv c (clock s) (lim s) (evicted s) (strict_history s)"
  using assms by (simp_all add: system_inv_def)

text \<open>A task which prunes its entry without taking or giving back a slot.\<close>

lemma prune_entry_inv:
  assumes inv: "system_inv c s" and p: "pool s = xs @ t # ys" and a: "a \<in> set (held t)"
    and \<tau>: "\<tau> \<le> clock s" and nr: "\<forall>k b. t \<noteq> StrictRun k b"
  defines "l \<equiv> set_entry a (prune \<tau> (rl_window c) (heap (lim s) a)) (lim s)"
  shows "map_inv l" "pool_inv l (xs @ t # ys)" "count_inv c l (xs @ ys)"
    "hist_inv c (clock s) l (evicted s) (strict_history s)"
proof -
  note D = system_invD [OF inv, unfolded p]
  have mem: "(attempt_key t, a) \<in> set (attempts_map (lim s))"
    using D(2) a by (rule pool_inv_entry)
  show "map_inv l" "pool_inv l (xs @ t # ys)" using D by (simp_all add: l_def)
  show "count_inv c l (xs @ ys)"
    unfolding l_def
    by (rule set_entry_count_inv [OF D(3) D(1) mem])
      (use D(3) mem running_filter_other [OF nr, of _ xs ys] in \<open>auto simp: count_inv_def\<close>)
  show "hist_inv c (clock s) l (evicted s) (strict_history s)"
    unfolding l_def
    by (rule set_entry_hist_inv [OF D(4) D(1) mem, where new = "[]"])
      (use hist_inv_entry [OF D(4) mem] \<tau> in
        \<open>auto simp: failures_inv_recent rl.ok_def budget_inv_prune\<close>)
qed

lemma count_inv_no_run:
  assumes "count_inv c l (xs @ ys)" "\<forall>k b. t \<noteq> StrictRun k b"
  shows "count_inv c l (xs @ t # ys)"
  using assms(1) by (rule count_inv_same_running) (rule running_filter_other [OF assms(2)])

text \<open>A running strict attempt which ends, having changed its entry.\<close>

lemma running_ends_inv:
  assumes inv: "system_inv c s" and p: "pool s = xs @ StrictRun k a # ys"
    and fl: "in_flight e = in_flight (heap (lim s) a) - 1"
    and fi: "failures_inv (clock s) (failures e)"
    and ok: "k \<notin> evicted s \<Longrightarrow> rl.ok c (clock s) e (history_of (strict_history s) k @ new)"
  shows "system_inv c (s\<lparr>lim := drop_refs (StrictRun k a) (set_entry a e (lim s)), pool := xs @ ys,
                         strict_history := strict_history s @ map (Pair k) new\<rparr>)"
proof -
  note D = system_invD [OF inv, unfolded p]
  have mem: "(k, a) \<in> set (attempts_map (lim s))"
    using pool_inv_entry [OF D(2)] by simp
  have "count_inv c (set_entry a e (lim s)) (xs @ ys)"
    by (rule set_entry_count_inv [OF D(3) D(1) mem])
      (use D(3) mem fl in \<open>auto simp: count_inv_def\<close>)
  moreover have "pool_inv (drop_refs (StrictRun k a) (set_entry a e (lim s))) (xs @ ys)"
    using pool_inv_remove [OF D(2)] by (simp only: pool_inv_drop_refs_cong)
  moreover have "hist_inv c (clock s) (set_entry a e (lim s)) (evicted s)
      (strict_history s @ map (Pair k) new)"
    by (rule set_entry_hist_inv [OF D(4) D(1) mem]) (use fi ok in auto)
  ultimately show ?thesis using D(1) by (simp add: system_inv_def)
qed

lemma in_flight_pos:
  assumes "system_inv c s" "pool s = xs @ StrictRun k a # ys"
  shows "0 < in_flight (heap (lim s) a)" "(k, a) \<in> set (attempts_map (lim s))"
proof -
  note D = system_invD [OF assms(1), unfolded assms(2)]
  show mem: "(k, a) \<in> set (attempts_map (lim s))" using pool_inv_entry [OF D(2)] by simp
  then show "0 < in_flight (heap (lim s) a)" using D(3) by (auto simp: count_inv_def)
qed

lemma check_entry_cases:
  assumes "check_entry c \<tau> ao l = (ok, l')"
  shows "(ao = None \<and> l' = l) \<or>
    (\<exists>a. ao = Some a \<and> l' = set_entry a (prune \<tau> (rl_window c) (heap l a)) l)"
  using assms by (auto simp: check_entry_def split: option.splits)

lemma check_entry_inv:
  assumes inv: "system_inv c s" and p: "pool s = xs @ BestCheck k ao # ys" and \<tau>: "\<tau> \<le> clock s"
    and ce: "check_entry c \<tau> ao (lim s) = (b, l)"
  shows "map_inv l" "pool_inv l (xs @ BestCheck k ao # ys)" "count_inv c l (xs @ ys)"
    "hist_inv c (clock s) l (evicted s) (strict_history s)"
proof -
  note D = system_invD [OF inv, unfolded p]
  have nr: "\<forall>k' b. BestCheck k ao \<noteq> StrictRun k' b" by simp
  have cnt: "count_inv c (lim s) (xs @ ys)"
    using D(3) by (rule count_inv_same_running) (simp only: running_filter_other [OF nr])
  have "map_inv l \<and> pool_inv l (xs @ BestCheck k ao # ys) \<and> count_inv c l (xs @ ys) \<and>
    hist_inv c (clock s) l (evicted s) (strict_history s)"
    using check_entry_cases [OF ce]
  proof (elim disjE exE conjE)
    fix a assume "ao = Some a" "l = set_entry a (prune \<tau> (rl_window c) (heap (lim s) a)) (lim s)"
    with prune_entry_inv [OF inv p _ \<tau> nr, of a] show ?thesis by simp
  qed (use D cnt in simp)
  then show "map_inv l" "pool_inv l (xs @ BestCheck k ao # ys)" "count_inv c l (xs @ ys)"
    "hist_inv c (clock s) l (evicted s) (strict_history s)" by blast+
qed

lemma get_or_insert_step_inv:
  assumes inv: "system_inv c s" and p: "pool s = xs @ ts @ ys" and \<tau>: "\<tau> \<le> clock s"
    and goi: "get_or_insert c \<tau> k (lim s) = (a, l)"
    and t: "attempt_key t = k" "\<And>b. count_list (held t) b = count_list [a] b + holders b ts"
      "\<forall>k b. t \<noteq> StrictRun k b"
    and ts: "\<forall>u \<in> set ts. attempt_key u = k \<and> (\<forall>k b. u \<noteq> StrictRun k b)"
  shows "system_inv c (s\<lparr>lim := l, pool := xs @ t # ys,
    evicted := evicted s \<union> room_evictions c \<tau> k (lim s)\<rparr>)"
proof -
  note D = system_invD [OF inv]
  have "count_inv c l (pool s)"
    using goi D(1-3) by (rule get_or_insert_count_inv)
  moreover have "length (filter (running b) (xs @ t # ys)) = length (filter (running b) (pool s))" for b
  proof -
    have "\<not> running b u" if "u \<in> set ts" for u
      using ts that by (cases u) auto
    then show ?thesis
      using t(3) by (cases t) (auto simp: p filter_empty_conv)
  qed
  ultimately have "count_inv c l (xs @ t # ys)" by (rule count_inv_same_running)
  moreover have "pool_inv l (xs @ t # ys)"
    by (rule get_or_insert_pool_inv [OF goi D(1) D(2) [unfolded p] t(1,2)]) (use ts in auto)
  moreover have "map_inv l" using goi D(1) by (rule get_or_insert_map_inv)
  moreover have "hist_inv c (clock s) l (evicted s \<union> room_evictions c \<tau> k (lim s)) (strict_history s)"
    using goi D(1) D(4) \<tau> by (rule get_or_insert_hist_inv)
  ultimately show ?thesis by (simp add: system_inv_def)
qed

lemma clone_opt_inv:
  assumes "system_inv c s" "ao = get_entry k (lim s)"
  shows "system_inv c (s\<lparr>lim := clone_opt ao (lim s), pool := BestCheck k ao # pool s\<rparr>)"
proof (cases ao)
  case None
  with system_invD [OF assms(1)] show ?thesis
    by (auto simp: system_inv_def clone_opt_def pool_inv_def count_inv_def)
next
  case (Some a)
  with assms(2) have "(k, a) \<in> set (attempts_map (lim s))"
    by (simp add: get_entry_def map_of_SomeD)
  with Some system_invD [OF assms(1)] show ?thesis
    by (auto simp: system_inv_def clone_opt_def pool_inv_def count_inv_def hist_inv_def)
qed

lemma no_run [simp]:
  "\<forall>k b. StrictWait k' a \<noteq> StrictRun k b" "\<forall>k b. BestRun k' ao \<noteq> StrictRun k b"
  "\<forall>k b. BestCheck k' ao \<noteq> StrictRun k b" "\<forall>k b. BestFail k' ao b' \<noteq> StrictRun k b"
  by simp_all

text \<open>A task which reserves a slot.\<close>

lemma strict_reserve_inv:
  assumes inv: "system_inv c s" and p: "pool s = xs @ StrictWait k a # ys" and \<tau>: "\<tau> \<le> clock s"
    and r: "reserve c \<tau> (heap (lim s) a) = (Reserved, e)"
  shows "system_inv c (s\<lparr>lim := set_entry a e (lim s), pool := xs @ StrictRun k a # ys\<rparr>)"
proof -
  note D = system_invD [OF inv, unfolded p]
  have mem: "(k, a) \<in> set (attempts_map (lim s))" using pool_inv_entry [OF D(2)] by simp
  have e: "in_flight e = Suc (in_flight (heap (lim s) a))" "in_flight e \<le> rl_max_attempts c"
    "failures e = recent (rl_window c) \<tau> (failures (heap (lim s) a))"
    using r by (auto simp: reserve_def Let_def split: if_splits)
  have "count_inv c (set_entry a e (lim s)) (xs @ StrictRun k a # ys)"
    by (rule set_entry_count_inv [OF D(3) D(1) mem]) (use D(3) mem e in \<open>auto simp: count_inv_def\<close>)
  moreover have "pool_inv (set_entry a e (lim s)) (xs @ StrictRun k a # ys)"
    unfolding pool_inv_set_entry by (rule pool_inv_swap [OF D(2)]) simp_all
  moreover have "hist_inv c (clock s) (set_entry a e (lim s)) (evicted s) (strict_history s)"
    by (rule set_entry_hist_inv [OF D(4) D(1) mem, where new = "[]"])
      (use hist_inv_entry [OF D(4) mem] e(3) r \<tau> in
        \<open>auto simp: reserve_slot_Some_iff intro: rl.reserve_ok failures_inv_recent\<close>)
  ultimately show ?thesis using D(1) by (simp add: system_inv_def)
qed

lemma push_failures_inv:
  assumes "failures_inv now (failures a)"
  shows "failures_inv now (failures (snd (push_failure c now a)))"
  using assms by (simp add: push_failure_def Let_def failures_inv_snoc failures_inv_recent)

lemma record_failures_inv:
  "failures_inv now (failures a) \<Longrightarrow> failures_inv now (failures (snd (record_failure c now a)))"
  by (simp add: record_failure_def push_failures_inv)

lemma leave_inv:
  assumes inv: "map_inv l" "pool_inv l (xs @ t # ys)" "count_inv c l (xs @ ys)" "hist_inv c (clock s) l (evicted s) (strict_history s)"
  shows "system_inv c (s\<lparr>lim := drop_refs t l, pool := xs @ ys\<rparr>)"
  using inv pool_inv_remove [OF inv(2)] by (simp add: system_inv_def)

lemma count_inv_leave:
  "count_inv c l (xs @ t # ys) \<Longrightarrow> \<forall>k b. t \<noteq> StrictRun k b \<Longrightarrow> count_inv c l (xs @ ys)"
  by (erule count_inv_same_running) (rule running_filter_other [symmetric])

lemma best_record_inv:
  assumes inv: "system_inv c s" and p: "pool s = xs @ BestFail k ao b # ys"
  shows "system_inv c (s\<lparr>lim := drop_refs (BestFail k ao b)
            (set_entry b (snd (record_failure c (clock s) (heap (lim s) b))) (lim s)),
          pool := xs @ ys\<rparr>)"
proof -
  let ?e = "snd (record_failure c (clock s) (heap (lim s) b))"
  note D = system_invD [OF inv, unfolded p]
  have mem: "(k, b) \<in> set (attempts_map (lim s))" using pool_inv_entry [OF D(2)] by simp
  have fl: "in_flight ?e = in_flight (heap (lim s) b)"
    using rl.note_failure_law by simp
  have "count_inv c (set_entry b ?e (lim s)) (xs @ ys)"
    by (rule set_entry_count_inv [OF count_inv_leave [OF D(3) no_run(4)] D(1) mem])
      (use count_inv_leave [OF D(3) no_run(4)] mem fl in \<open>auto simp: count_inv_def\<close>)
  moreover have "hist_inv c (clock s) (set_entry b ?e (lim s)) (evicted s) (strict_history s)"
    by (rule set_entry_hist_inv [OF D(4) D(1) mem, where new = "[]"])
      (use hist_inv_entry [OF D(4) mem] in
        \<open>auto intro: rl.note_failure_ok record_failures_inv\<close>)
  ultimately show ?thesis
    using D(1,2) by (intro leave_inv) simp_all
qed

lemma cleanup_inv:
  assumes "system_inv c s" "\<tau> \<le> clock s"
  shows "system_inv c (s\<lparr>lim := cleanup_at c \<tau> (lim s)\<rparr>)"
proof -
  note sh = shrinks_cleanup [of c \<tau> "{}" "lim s"]
  show ?thesis
    using shrinks_hist_inv [OF sh _ assms(2)] system_invD [OF assms(1)]
    by (auto simp: system_inv_def intro: shrinks_map_inv [OF sh] shrinks_pool_inv [OF sh]
        shrinks_count_inv [OF sh])
qed

text \<open>The invariant is kept, whatever runs next.\<close>

lemma clock_inv: "system_inv c s \<Longrightarrow> clock s \<le> t \<Longrightarrow> system_inv c (s\<lparr>clock := t\<rparr>)"
  by (auto simp: system_inv_def intro: hist_inv_tick)

lemma strict_fail_inv:
  assumes inv: "system_inv c s" and p: "pool s = xs @ StrictRun k a # ys"
  shows "system_inv c (s\<lparr>lim := drop_refs (StrictRun k a)
            (set_entry a (snd (reservation_fail c (clock s) (heap (lim s) a))) (lim s)),
          pool := xs @ ys, strict_history := strict_history s @ [(k, clock s)]\<rparr>)"
proof -
  note I = in_flight_pos [OF inv p] and H = hist_inv_entry [OF system_invD(4) [OF inv]]
  have "system_inv c (s\<lparr>lim := drop_refs (StrictRun k a)
            (set_entry a (snd (reservation_fail c (clock s) (heap (lim s) a))) (lim s)),
          pool := xs @ ys, strict_history := strict_history s @ map (Pair k) [clock s]\<rparr>)"
  proof (rule running_ends_inv [OF inv p])
    show "in_flight (snd (reservation_fail c (clock s) (heap (lim s) a))) = in_flight (heap (lim s) a) - 1"
      using rl.fail_law by blast
    show "failures_inv (clock s) (failures (snd (reservation_fail c (clock s) (heap (lim s) a))))"
      using H(1) [OF I(2)] by (simp add: reservation_fail_def push_failures_inv)
    show "k \<notin> evicted s \<Longrightarrow> rl.ok c (clock s) (snd (reservation_fail c (clock s) (heap (lim s) a)))
        (history_of (strict_history s) k @ [clock s])"
      using H(2) [OF I(2)] I(1) by (rule rl.fail_ok)
  qed
  then show ?thesis by simp
qed

lemma strict_done_inv:
  assumes inv: "system_inv c s" and p: "pool s = xs @ StrictRun k a # ys"
  shows "system_inv c (s\<lparr>lim := drop_refs (StrictRun k a)
            (set_entry a (reservation_drop (heap (lim s) a)) (lim s)), pool := xs @ ys\<rparr>)"
proof -
  note I = in_flight_pos [OF inv p] and H = hist_inv_entry [OF system_invD(4) [OF inv]]
  have "system_inv c (s\<lparr>lim := drop_refs (StrictRun k a)
            (set_entry a (reservation_drop (heap (lim s) a)) (lim s)),
          pool := xs @ ys, strict_history := strict_history s @ map (Pair k) []\<rparr>)"
    by (rule running_ends_inv [OF inv p])
      (use H [OF I(2)] rl.release_ok in \<open>auto simp: reservation_drop_def\<close>)
  then show ?thesis by simp
qed

lemma strict_pruned_inv:
  assumes inv: "system_inv c s" and p: "pool s = xs @ StrictWait k a # ys" and \<tau>: "\<tau> \<le> clock s"
    and r: "reserve c \<tau> (heap (lim s) a) = (r, e)" "r \<noteq> Reserved"
  shows "system_inv c (s\<lparr>lim := set_entry a e (lim s)\<rparr>)"
    and "system_inv c (s\<lparr>lim := drop_refs (StrictWait k a) (set_entry a e (lim s)), pool := xs @ ys\<rparr>)"
proof -
  note P = prune_entry_inv [OF inv p _ \<tau> no_run(1), of a, simplified]
  note e = reserve_other_outcome [OF r]
  show "system_inv c (s\<lparr>lim := set_entry a e (lim s)\<rparr>)"
    using P count_inv_no_run [OF P(3) no_run(1)] p by (simp add: system_inv_def e)
  show "system_inv c (s\<lparr>lim := drop_refs (StrictWait k a) (set_entry a e (lim s)), pool := xs @ ys\<rparr>)"
    using P unfolding e by (intro leave_inv) simp_all
qed

lemma best_pass_inv:
  assumes inv: "system_inv c s" and p: "pool s = xs @ BestCheck k ao # ys" and \<tau>: "\<tau> \<le> clock s"
    and ce: "check_entry c \<tau> ao (lim s) = (b, l)"
  shows "system_inv c (s\<lparr>lim := l, pool := xs @ BestRun k ao # ys\<rparr>)"
    and "system_inv c (s\<lparr>lim := drop_refs (BestCheck k ao) l, pool := xs @ ys\<rparr>)"
proof -
  note C = check_entry_inv [OF assms]
  show "system_inv c (s\<lparr>lim := l, pool := xs @ BestRun k ao # ys\<rparr>)"
    using C count_inv_no_run [OF C(3) no_run(2)] pool_inv_swap [OF C(2), of "BestRun k ao"]
    by (simp add: system_inv_def)
  show "system_inv c (s\<lparr>lim := drop_refs (BestCheck k ao) l, pool := xs @ ys\<rparr>)"
    using C by (rule leave_inv)
qed

lemma step_inv: "step c s s' \<Longrightarrow> system_inv c s \<Longrightarrow> system_inv c s'"
proof (induction rule: step.induct)
  case (strict_begin \<tau> s k ip a l)
  then show ?case
    using get_or_insert_step_inv [where xs = "[]" and ts = "[]" and ys = "pool s" and
        t = "StrictWait k a"] by simp
next
  case (best_fail s xs k ao ys \<tau> b l)
  show ?case
    by (rule get_or_insert_step_inv [where ts = "[BestRun k ao]"]) (use best_fail in auto)
next
  case (leave s xs t ys)
  note D = system_invD [OF leave(3), unfolded leave(1)]
  show ?case using D count_inv_leave [OF D(3) leave(2)] by (intro leave_inv) simp_all
qed (simp_all only: clock_inv strict_reserve_inv strict_pruned_inv strict_done_inv strict_fail_inv
    clone_opt_inv best_pass_inv best_record_inv cleanup_inv reserve_outcome.distinct not_False_eq_True)

theorem reachable_inv: "reachable c s \<Longrightarrow> system_inv c s"
  by (induction rule: reachable.induct) (auto intro: system_inv_init step_inv)

end
