(* ===== verification/LimiterProps.thy ===== *)
theory LimiterProps
  imports LimiterBound
begin

text \<open>
  What the rate limiter promises, over the reachable states of \<open>LimiterSystem\<close> and the
  operations of \<open>RateLimit\<close>.
\<close>

section \<open>Steps, ready to use\<close>

inductive_cases stepE: "step c s s'"

lemmas reachable_step = reachable.more

lemma reachable_invD:
  assumes "reachable c s"
  shows "map_inv (lim s)" "pool_inv (lim s) (pool s)" "count_inv c (lim s) (pool s)"
    "hist_inv c (clock s) (lim s) (evicted s) (strict_history s)"
  using system_invD [OF reachable_inv [OF assms]] .

text \<open>A run of one strict attempt which fails, for the witnesses.\<close>

definition demo_limiter :: rate_limiter where
  "demo_limiter = builder 1 60"

definition demo_waiting :: system where
  "demo_waiting = \<lparr>lim = \<lparr>attempts_map = [(V4 7, 0)], heap = (\<lambda>_. no_attempts),
     refs = (\<lambda>_. 0)(0 := 1), next_entry = 1\<rparr>, clock = 0, pool = [StrictWait (V4 7) 0],
     strict_history = [], evicted = {}\<rparr>"

definition demo_running :: system where
  "demo_running = demo_waiting\<lparr>lim := set_entry 0 \<lparr>failures = [], in_flight = 1\<rparr> (lim demo_waiting),
     pool := [StrictRun (V4 7) 0]\<rparr>"

definition demo_failed :: system where
  "demo_failed = demo_running\<lparr>lim := drop_refs (StrictRun (V4 7) 0)
       (set_entry 0 \<lparr>failures = [0], in_flight = 0\<rparr> (lim demo_running)),
     pool := [], strict_history := [(V4 7, 0)]\<rparr>"

lemmas demo_defs = demo_limiter_def builder_def DEFAULT_MAX_ENTRIES_def DEFAULT_IPV6_PREFIX_LEN_def
  demo_waiting_def demo_running_def demo_failed_def

lemma reachable_demo_waiting: "reachable demo_limiter demo_waiting"
proof -
  have "get_or_insert demo_limiter 0 (V4 7) (lim init_system) = (0, lim demo_waiting)"
    by (simp add: get_or_insert_def get_entry_def init_system_def empty_limiter_def demo_defs)
      (simp add: fun_eq_iff)
  moreover have "limiter_key demo_limiter (V4 7) = V4 7"
    by (simp add: limiter_key_def)
  ultimately have "step demo_limiter init_system (init_system\<lparr>lim := lim demo_waiting,
      pool := StrictWait (V4 7) 0 # pool init_system,
      evicted := evicted init_system \<union> room_evictions demo_limiter 0 (V4 7) (lim init_system)\<rparr>)"
    by (intro step.strict_begin [where ip = "V4 7"]) (simp_all add: init_system_def demo_limiter_def builder_def)
  moreover have "room_evictions demo_limiter 0 (V4 7) (lim init_system) = {}"
    by (simp add: room_evictions_def needs_room_def init_system_def empty_limiter_def demo_defs)
  ultimately have "step demo_limiter init_system demo_waiting"
    by (simp add: init_system_def demo_waiting_def)
  with reachable.start show ?thesis by (rule reachable.more)
qed

lemma reachable_demo_running: "reachable demo_limiter demo_running"
proof -
  have "reserve demo_limiter 0 (heap (lim demo_waiting) 0) = (Reserved, \<lparr>failures = [], in_flight = 1\<rparr>)"
    by (simp add: reserve_def prune_def no_attempts_def demo_defs)
  from step.strict_reserve [of demo_waiting "[]" "V4 7" 0 "[]" 0, OF _ _ this]
  have "step demo_limiter demo_waiting demo_running"
    by (simp add: demo_waiting_def demo_running_def)
  with reachable_demo_waiting show ?thesis by (rule reachable.more)
qed

lemma reachable_demo_failed: "reachable demo_limiter demo_failed"
proof -
  have "snd (reservation_fail demo_limiter 0 (heap (lim demo_running) 0)) =
      \<lparr>failures = [0], in_flight = 0\<rparr>"
    by (simp add: reservation_fail_def push_failure_def prune_def demo_defs)
  with step.strict_fail [of demo_running "[]" "V4 7" 0 "[]" demo_limiter]
  have "step demo_limiter demo_running demo_failed"
    by (simp add: demo_waiting_def demo_running_def demo_failed_def)
  with reachable_demo_running show ?thesis by (rule reachable.more)
qed

section \<open>The bound on failures\<close>

text \<open>
  C1: Whatever the interleaving of strict and best effort attempts, clean ups and
  cancellations, no window of the length configured ever holds more than \<open>max_attempts\<close> failed
  strict attempts of one client, as long as a full table did not make room by dropping it.
\<close>

theorem strict_failures_bounded:
  assumes "reachable c s" "k \<notin> evicted s"
  shows "window_count (rl_window c) (history_of (strict_history s) k) t \<le> rl_max_attempts c"
proof (cases "k \<in> clients (lim s)")
  case True
  then obtain a where "(k, a) \<in> set (attempts_map (lim s))" by auto
  with reachable_invD(4) [OF assms(1)] assms(2) show ?thesis
    by (auto dest: hist_inv_entry(2) rl.ok_bound)
next
  case False
  with reachable_invD(4) [OF assms(1)] assms(2) show ?thesis
    by (auto simp: hist_inv_def dest: rl.ok_bound)
qed

lemma strict_failures_bounded_witness:
  "window_count 60 [0] 30 = 1 \<and> window_count 60 (history_of (strict_history demo_failed) (V4 7)) 30 \<le> 1"
  using strict_failures_bounded [OF reachable_demo_failed, of "V4 7" 30]
  by (simp add: window_count_def demo_defs)

section \<open>Attempts in flight\<close>

lemma strict_runs_running:
  assumes "reachable c s" "(k, a) \<in> set (attempts_map (lim s))" "StrictRun k b \<in> set (pool s)"
  shows "b = a"
proof -
  from assms(3) obtain xs ys where "pool s = xs @ StrictRun k b # ys" by (meson split_list)
  then have "(k, b) \<in> set (attempts_map (lim s))"
    using pool_inv_entry [of "lim s" xs "StrictRun k b" ys b] reachable_invD(2) [OF assms(1)] by simp
  with assms show ?thesis by (blast dest: map_inv_functional reachable_invD(1))
qed

definition strict_running :: "ip_addr \<Rightarrow> system \<Rightarrow> nat" where
  "strict_running k s = length (filter (\<lambda>t. case t of StrictRun k' _ \<Rightarrow> k' = k | _ \<Rightarrow> False) (pool s))"

lemma strict_running_in_flight:
  assumes r: "reachable c s" and m: "(k, a) \<in> set (attempts_map (lim s))"
  shows "strict_running k s = in_flight (heap (lim s) a)"
proof -
  have "(case t of StrictRun k' _ \<Rightarrow> k' = k | _ \<Rightarrow> False) = running a t" if "t \<in> set (pool s)" for t
  proof (cases t)
    case (StrictRun k' b)
    obtain xs ys where "pool s = xs @ t # ys" using \<open>t \<in> set (pool s)\<close> by (meson split_list)
    then have "(k', b) \<in> set (attempts_map (lim s))"
      using pool_inv_entry [of "lim s" xs t ys b] reachable_invD(2) [OF r] StrictRun by simp
    with StrictRun that strict_runs_running [OF r m] map_inv_unique [OF reachable_invD(1) [OF r] m]
    show ?thesis by auto
  qed simp_all
  then have "strict_running k s = length (filter (running a) (pool s))"
    unfolding strict_running_def by (metis (no_types, lifting) filter_cong)
  with reachable_invD(3) [OF r] m show ?thesis by (auto simp: count_inv_def)
qed

text \<open>
  At most \<open>max_attempts\<close> strict attempts of one client run at any moment: the reservations
  bound the guesses in flight as well as those that failed.
\<close>

theorem strict_running_bounded:
  assumes "reachable c s"
  shows "strict_running k s \<le> rl_max_attempts c"
proof (cases "strict_running k s = 0")
  case False
  then obtain t where t: "t \<in> set (pool s)" "case t of StrictRun k' _ \<Rightarrow> k' = k | _ \<Rightarrow> False"
    by (auto simp: strict_running_def filter_empty_conv)
  from t(2) obtain a where "t = StrictRun k a" by (cases t) auto
  with t(1) have "StrictRun k a \<in> set (pool s)" by simp
  then obtain xs ys where "pool s = xs @ StrictRun k a # ys" by (meson split_list)
  then have "(k, a) \<in> set (attempts_map (lim s))"
    using pool_inv_entry [of "lim s" xs "StrictRun k a" ys a] reachable_invD(2) [OF assms] by simp
  with strict_running_in_flight [OF assms] reachable_invD(3) [OF assms] show ?thesis
    by (auto simp: count_inv_def)
qed simp

lemma strict_running_bounded_witness:
  "strict_running (V4 7) demo_running = 1 \<and> strict_running (V4 7) demo_running \<le> 1"
  using strict_running_bounded [OF reachable_demo_running, of "V4 7"]
  by (simp add: strict_running_def demo_defs)

text \<open>
  A strict attempt waits only for one that runs: when no strict attempt of its client
  runs, its next look at the entry either reserves a slot or refuses it.
\<close>

theorem strict_wait_progress:
  assumes "reachable c s" "pool s = xs @ StrictWait k a # ys" "strict_running k s = 0"
    and "reserve c \<tau> (heap (lim s) a) = (r, e)"
  shows "r = Reserved \<or> (\<exists>d. r = Refused d \<and> rl_max_attempts c \<le> length (failures e))"
proof -
  have "(k, a) \<in> set (attempts_map (lim s))"
    using pool_inv_entry [of "lim s" xs "StrictWait k a" ys a] reachable_invD(2) [OF assms(1)]
      assms(2) by simp
  with assms(1,3) have "in_flight (heap (lim s) a) = 0" by (simp add: strict_running_in_flight)
  with assms(4) show ?thesis by (auto simp: reserve_def Let_def split: if_splits)
qed

lemma strict_wait_progress_witness:
  "fst (reserve demo_limiter 0 (heap (lim demo_waiting) 0)) = Reserved"
proof -
  have *: "reserve demo_limiter 0 (heap (lim demo_waiting) 0) = (Reserved, no_attempts\<lparr>in_flight := 1\<rparr>)"
    by (simp add: reserve_def prune_def no_attempts_def demo_defs)
  have "pool demo_waiting = [] @ StrictWait (V4 7) 0 # []" "strict_running (V4 7) demo_waiting = 0"
    by (simp_all add: demo_waiting_def strict_running_def)
  from strict_wait_progress [OF reachable_demo_waiting this *] * show ?thesis by simp
qed

text \<open>
  The failure of a strict attempt is never lost to a clean up or to the making of room that
  happened while it ran: after it, the map still maps the client to an entry, and that entry
  records the failure.
\<close>

theorem strict_failure_recorded:
  assumes "reachable c s" "pool s = xs @ StrictRun k a # ys"
    and "lim s' = drop_refs (StrictRun k a)
          (set_entry a (snd (reservation_fail c (clock s) (heap (lim s) a))) (lim s))"
  shows "get_entry k (lim s') = Some a \<and> clock s \<in> set (failures (heap (lim s') a))"
proof -
  have "(k, a) \<in> set (attempts_map (lim s))"
    using pool_inv_entry [of "lim s" xs "StrictRun k a" ys a] reachable_invD(2) [OF assms(1)]
      assms(2) by simp
  with reachable_invD(1) [OF assms(1)] show ?thesis
    by (simp add: assms(3) get_entry_def map_inv_def reservation_fail_def push_failure_def Let_def)
qed

lemma strict_failure_recorded_witness:
  "get_entry (V4 7) (lim demo_failed) = Some 0 \<and> 0 \<in> set (failures (heap (lim demo_failed) 0))"
proof -
  have "lim demo_failed = drop_refs (StrictRun (V4 7) 0) (set_entry 0
      (snd (reservation_fail demo_limiter (clock demo_running) (heap (lim demo_running) 0)))
      (lim demo_running))"
    by (simp add: reservation_fail_def push_failure_def prune_def demo_defs)
  moreover have "pool demo_running = [] @ StrictRun (V4 7) 0 # []"
    by (simp add: demo_running_def)
  ultimately show ?thesis
    using strict_failure_recorded [OF reachable_demo_running, of "[]" "V4 7" 0 "[]" demo_failed]
    by (simp add: demo_running_def demo_waiting_def)
qed

section \<open>Refusals\<close>

text \<open>
  A client is refused exactly when its failures in the window use up its attempts, and the
  wait it is told is exact: with no failure in between, a check after \<open>d'\<close> passes if and only
  if \<open>d'\<close> is at least the wait. So an honest client told to retry in \<open>d\<close> is neither refused
  after it nor kept out longer than it must be.
\<close>

theorem refusal_exact:
  assumes "check c now (Some a) = Inl d" "failures_inv now (failures a)" "0 < rl_max_attempts c"
  shows "(\<exists>e. check c (now + d') (Some (prune now (rl_window c) a)) = Inr e) \<longleftrightarrow> d \<le> d'"
proof -
  let ?fs = "recent (rl_window c) now (failures a)"
  have full: "rl_max_attempts c \<le> length ?fs" and d: "d = retry_in (rl_max_attempts c) (rl_window c) ?fs now"
    using assms(1) by (auto simp: check_def too_many_attempts_def Let_def split: if_splits)
  have fi: "failures_inv now ?fs" using assms(2) by (rule failures_inv_recent)
  have "(\<exists>e. check c (now + d') (Some (prune now (rl_window c) a)) = Inr e) \<longleftrightarrow>
      length (recent (rl_window c) (now + d') ?fs) < rl_max_attempts c"
    by (auto simp: check_def Let_def)
  also have "\<dots> \<longleftrightarrow> d \<le> d'"
    unfolding d using fi assms(3) full by (intro retry_in_exact) (auto simp: failures_inv_def)
  finally show ?thesis .
qed

lemma refusal_exact_witness:
  "check (builder 2 60) 20 (Some \<lparr>failures = [5, 10], in_flight = 0\<rparr>) = Inl 45 \<and>
   (\<exists>e. check (builder 2 60) 65 (Some \<lparr>failures = [5, 10], in_flight = 0\<rparr>) = Inr e)"
proof -
  have *: "check (builder 2 60) 20 (Some \<lparr>failures = [5, 10], in_flight = 0\<rparr>) = Inl 45"
    by (simp add: check_def prune_def too_many_attempts_def retry_in_def builder_def)
  then show ?thesis
    using refusal_exact [OF *, of 45] by (simp add: failures_inv_def prune_def builder_def)
qed

section \<open>Clients\<close>

definition client_prefix :: "rate_limiter \<Rightarrow> ip_addr \<Rightarrow> ip_addr" where
  "client_prefix c ip = (case to_canonical ip of
     V4 v \<Rightarrow> V4 v | V6 w \<Rightarrow> V6 (drop_bit (128 - unat (rl_ipv6_prefix_len c)) w))"

lemma and_mask_eq_iff:
  fixes v w :: "128 word"
  assumes "n \<le> 128"
  shows "and v (push_bit n (- 1)) = and w (push_bit n (- 1)) \<longleftrightarrow> drop_bit n v = drop_bit n w"
proof -
  have m: "bit (and x (push_bit n (- 1))) i \<longleftrightarrow> n \<le> i \<and> bit x i" for x :: "128 word" and i
    by (auto simp: bit_simps dest: bit_imp_le_length)
  have "(\<forall>i. (n \<le> i \<and> bit v i) = (n \<le> i \<and> bit w i)) \<longleftrightarrow> (\<forall>i. bit v (n + i) = bit w (n + i))"
    by (metis le_add1 le_Suc_ex)
  then have "and v (push_bit n (- 1)) = and w (push_bit n (- 1)) \<longleftrightarrow>
      (\<forall>i. bit v (n + i) = bit w (n + i))"
    by (metis (mono_tags) m bit_word_eqI bit_imp_le_length)
  moreover have "drop_bit n v = drop_bit n w \<longleftrightarrow> (\<forall>i. bit v (n + i) = bit w (n + i))"
  proof -
    have d: "bit (drop_bit n x) i = bit x (n + i)" for x :: "128 word" and i
      by (simp add: bit_drop_bit_eq)
    show ?thesis by (auto simp flip: d intro: bit_word_eqI)
  qed
  ultimately show ?thesis by simp
qed

text \<open>
  Two addresses share their attempts exactly when they are the same IPv4 address (written
  as IPv4 or as IPv4-mapped IPv6) or IPv6 addresses with the same prefix of the length
  configured, down to prefix length 0, where every IPv6 client shares one entry.
\<close>

theorem limiter_key_same_client:
  assumes "limiter_cfg_ok c"
  shows "limiter_key c ip = limiter_key c ip' \<longleftrightarrow> client_prefix c ip = client_prefix c ip'"
proof -
  have p: "unat (rl_ipv6_prefix_len c) \<le> 128"
    using assms by (simp add: limiter_cfg_ok_def word_le_nat_alt)
  let ?n = "128 - unat (rl_ipv6_prefix_len c)"
  have mask: "(case u128_checked_shl (- 1) ?n of Some m \<Rightarrow> m | None \<Rightarrow> 0) = push_bit ?n (- 1)"
  proof (cases "?n < 128")
    case False
    then have "?n = 128" by simp
    have "push_bit 128 (- 1 :: 128 word) = 0" by (rule bit_word_eqI) (simp add: bit_simps)
    then show ?thesis unfolding \<open>?n = 128\<close> u128_checked_shl_def by simp
  qed (simp add: u128_checked_shl_def)
  have "and v (push_bit ?n (- 1)) = and w (push_bit ?n (- 1)) \<longleftrightarrow> drop_bit ?n v = drop_bit ?n w"
    for v w :: "128 word" by (rule and_mask_eq_iff) simp
  then show ?thesis
    unfolding limiter_key_def client_prefix_def mask Let_def
    by (simp split: ip_addr.splits)
qed

lemma limiter_key_same_client_witness:
  "limiter_key demo_limiter (V6 (0x20010db8 * 2 ^ 96 + 1)) = limiter_key demo_limiter (V6 (0x20010db8 * 2 ^ 96 + 2)) \<and>
   limiter_key demo_limiter (V4 7) \<noteq> limiter_key demo_limiter (V4 8)"
proof -
  have cfg: "limiter_cfg_ok demo_limiter" unfolding demo_limiter_def by (rule builder_cfg_ok)
  have "client_prefix demo_limiter (V6 (0x20010db8 * 2 ^ 96 + 1)) =
      client_prefix demo_limiter (V6 (0x20010db8 * 2 ^ 96 + 2))"
    "client_prefix demo_limiter (V4 7) \<noteq> client_prefix demo_limiter (V4 8)"
    by (simp_all add: client_prefix_def to_ipv4_mapped_def demo_defs)
  then show ?thesis by (simp only: limiter_key_same_client [OF cfg] simp_thms)
qed

section \<open>The size of the table\<close>

definition in_use :: "limiter \<Rightarrow> (ip_addr \<times> nat) \<Rightarrow> bool" where
  "in_use l = (\<lambda>(_, a). \<not> (refs l a = 0 \<and> in_flight (heap l a) = 0))"

lemma length_filter_out:
  assumes "distinct (map fst m)" "distinct ks" "set ks \<subseteq> fst ` set m"
  shows "length (filter (\<lambda>(k, _). k \<notin> set ks) m) = length m - length ks"
proof -
  have "distinct m" using assms(1) by (simp add: distinct_map)
  have "length (filter (\<lambda>p. fst p \<in> set ks) m) = card (set (filter (\<lambda>p. fst p \<in> set ks) m))"
    using \<open>distinct m\<close> by (metis distinct_card distinct_filter)
  also have "\<dots> = card (fst ` set (filter (\<lambda>p. fst p \<in> set ks) m))"
    using assms(1) by (intro card_image [symmetric]) (auto simp: distinct_map inj_on_def)
  also have "fst ` set (filter (\<lambda>p. fst p \<in> set ks) m) = set ks"
    using assms(3) by force
  also have "card (set ks) = length ks" using assms(2) by (rule distinct_card)
  finally show ?thesis
    using sum_length_filter_compl [of "\<lambda>p. fst p \<in> set ks" m]
    by (simp add: case_prod_unfold)
qed

lemma removable_keys:
  assumes "distinct (map fst m)"
  shows "distinct (map snd (removable l m))" "set (map snd (removable l m)) \<subseteq> fst ` set m"
    "length (removable l m) = length (filter (\<lambda>p. \<not> in_use l p) m)"
  using assms by (induction m) (force simp: removable_def in_use_def)+

lemma min_excess: "(a :: nat) - min (a - x) y \<le> max x (a - y)"
  by (cases "a - x \<le> y") auto

text \<open>After the making of room the table is at its target or holds only what is in use.\<close>

lemma length_make_room:
  assumes "map_inv l"
  shows "length (attempts_map (make_room c \<tau> l)) \<le>
    max (rl_max_entries c - max (rl_max_entries c div 10) 1) (length (filter (in_use l) (attempts_map l)))"
proof -
  let ?target = "rl_max_entries c - max (rl_max_entries c div 10) 1"
  define m where "m = filter (\<lambda>(_, a). \<not> is_stale c l \<tau> a) (attempts_map l)"
  define rs where "rs = removable l m"
  define n where "n = min (length m - ?target) (length rs)"
  define vs where "vs = map snd (take n (if n < length rs then sort_key fst rs else rs))"
  have dm: "distinct (map fst m)"
    using assms by (simp add: m_def map_inv_def distinct_map_filter)
  note K = removable_keys [OF dm, of l, folded rs_def]
  have victims: "room_victims c \<tau> l = (if n = 0 then [] else vs)"
    by (simp add: room_victims_def Let_def vs_def n_def rs_def m_def)
  have sorted: "distinct (map snd (sort_key fst rs))"
    using K(1) by (simp add: distinct_map inj_on_def)
  have vs: "distinct vs" "set vs \<subseteq> fst ` set m" "length vs = n"
  proof -
    show "distinct vs" using K(1) sorted by (simp add: vs_def distinct_take flip: take_map)
    show "set vs \<subseteq> fst ` set m"
      using K(2) set_take_sorted_sub [of n "n < length rs" rs] unfolding vs_def by simp
    show "length vs = n" by (simp add: vs_def n_def)
  qed
  have "length (attempts_map (make_room c \<tau> l)) = length m - n"
    using length_filter_out [OF dm vs(1,2)] vs(3)
    by (cases "n = 0") (simp_all add: make_room_def victims flip: m_def)
  also have "\<dots> \<le> max ?target (length m - length rs)"
    unfolding n_def by (rule min_excess)
  also have "length m - length rs = length (filter (in_use l) m)"
    using K(3) sum_length_filter_compl [of "in_use l" m] by simp
  also have "\<dots> \<le> length (filter (in_use l) (attempts_map l))"
    unfolding m_def filter_filter by (rule filter_length_mono) simp
  finally show ?thesis by simp
qed

text \<open>
  The table stays bounded: a client which is new to it leaves it with at most
  \<open>max_entries\<close> entries, or with those in use by an attempt and its own when there are more.
\<close>

theorem table_bounded:
  assumes "limiter_cfg_ok c" "map_inv l" "get_entry k l = None" "get_or_insert c \<tau> k l = (a, l')"
  shows "length (attempts_map l') \<le>
    max (rl_max_entries c) (Suc (length (filter (in_use l) (attempts_map l))))"
  using assms length_make_room [OF assms(2), of c \<tau>]
  by (auto simp: get_or_insert_def Let_def limiter_cfg_ok_def)

lemma table_bounded_witness:
  "length (attempts_map (snd (get_or_insert (with_max_entries 1 demo_limiter) 0 (V4 8) (lim demo_failed)))) = 1 \<and>
   length (attempts_map (snd (get_or_insert (with_max_entries 1 demo_limiter) 0 (V4 8) (lim demo_failed)))) \<le> 1"
proof -
  let ?c = "with_max_entries 1 demo_limiter" and ?l = "lim demo_failed"
  have cfg: "limiter_cfg_ok ?c" unfolding demo_limiter_def by (intro builder_cfg_ok)
  have none: "get_entry (V4 8) ?l = None" by (simp add: get_entry_def demo_defs)
  have used: "filter (in_use ?l) (attempts_map ?l) = []"
    by (simp add: in_use_def demo_defs)
  have "length (attempts_map (snd (get_or_insert ?c 0 (V4 8) ?l))) \<le> 1"
    using table_bounded [OF cfg reachable_invD(1) [OF reachable_demo_failed] none surjective_pairing]
    by (simp add: used with_max_entries_def)
  moreover have "1 \<le> length (attempts_map (snd (get_or_insert ?c 0 (V4 8) ?l)))"
    by (simp add: get_or_insert_def none Let_def)
  ultimately show ?thesis by (simp only: le_antisym)
qed

end
