(* ===== verification/IpParse.thy ===== *)
theory IpParse
  imports Net
begin

text \<open>
  Rust's \<open>str::parse\<close> for \<open>IpAddr\<close> and \<open>SocketAddr\<close> (\<open>core::net::parser\<close>), which
  \<^verbatim>\<open>crates/request_ip/src/lib.rs\<close> (\<open>parse_forwarded_ip\<close>) and
  \<^verbatim>\<open>crates/request_ip/src/cidr.rs\<close> (\<open>parse_cidr\<close>) call on untrusted header
  entries. A reader takes the text left and gives the value read with the rest, or \<open>None\<close> and
  then the text is where it was.
\<close>

section \<open>Readers\<close>

type_synonym 'a reader = "string \<Rightarrow> ('a \<times> string) option"

definition read_bind :: "'a reader \<Rightarrow> ('a \<Rightarrow> 'b reader) \<Rightarrow> 'b reader" where
  "read_bind r f s = (case r s of None \<Rightarrow> None | Some (x, s') \<Rightarrow> f x s')"

definition read_char :: "char \<Rightarrow> unit reader" where
  "read_char c s = (case s of [] \<Rightarrow> None | x # s' \<Rightarrow> if x = c then Some ((), s') else None)"

definition digit_value :: "nat \<Rightarrow> char \<Rightarrow> nat option" where
  "digit_value radix c =
     (let d = (if is_ascii_digit c then byte c - 48
               else if is_ascii_lower c then byte c - 87
               else if is_ascii_upper c then byte c - 55 else radix)
      in if d < radix then Some d else None)"

text \<open>\<open>read_number\<close>: digits up to a value below \<open>bound\<close> (the overflow check of its type).\<close>

fun read_digits :: "nat \<Rightarrow> nat option \<Rightarrow> nat \<Rightarrow> nat \<Rightarrow> nat \<Rightarrow> (nat \<times> nat) reader" where
  "read_digits radix max_digits bound acc n [] = Some ((acc, n), [])"
| "read_digits radix max_digits bound acc n (c # s) = (case digit_value radix c of
     None \<Rightarrow> Some ((acc, n), c # s)
   | Some d \<Rightarrow>
       if bound \<le> acc * radix + d then None
       else if (case max_digits of None \<Rightarrow> False | Some m \<Rightarrow> m < Suc n) then None
       else read_digits radix max_digits bound (acc * radix + d) (Suc n) s)"

definition read_number :: "nat \<Rightarrow> nat option \<Rightarrow> bool \<Rightarrow> nat \<Rightarrow> nat reader" where
  "read_number radix max_digits allow_zero_prefix bound s =
     (case read_digits radix max_digits bound 0 0 s of
        None \<Rightarrow> None
      | Some ((v, n), s') \<Rightarrow>
          if n = 0 then None
          else if \<not> allow_zero_prefix \<and> hd s = CHR ''0'' \<and> 1 < n then None
          else Some (v, s'))"

section \<open>IPv4\<close>

definition read_octet :: "nat reader" where
  "read_octet = read_number 10 (Some 3) False 256"

definition read_dot_octet :: "nat reader" where
  "read_dot_octet = read_bind (read_char (CHR ''.'')) (\<lambda>_. read_octet)"

definition ipv4_of_octets :: "nat \<Rightarrow> nat \<Rightarrow> nat \<Rightarrow> nat \<Rightarrow> 32 word" where
  "ipv4_of_octets a b c d = of_nat (((a * 256 + b) * 256 + c) * 256 + d)"

definition read_ipv4 :: "32 word reader" where
  "read_ipv4 = read_bind read_octet (\<lambda>a. read_bind read_dot_octet (\<lambda>b.
     read_bind read_dot_octet (\<lambda>c. read_bind read_dot_octet (\<lambda>d s.
       Some (ipv4_of_octets a b c d, s)))))"

section \<open>IPv6\<close>

text \<open>
  \<open>read_groups\<close>: the groups read (at most \<open>limit\<close>), whether the last two came from an embedded
  IPv4 address, and the rest. \<open>i\<close> is the index of the next group; a group but the first comes
  after a colon, which is given back when no group follows it.
\<close>

definition read_sep :: "nat \<Rightarrow> 'a reader \<Rightarrow> 'a reader" where
  "read_sep i r = (if 0 < i then read_bind (read_char (CHR '':'')) (\<lambda>_. r) else r)"

fun read_groups :: "nat \<Rightarrow> nat \<Rightarrow> nat \<Rightarrow> string \<Rightarrow> nat list \<times> bool \<times> string" where
  "read_groups 0 limit i s = ([], False, s)"
| "read_groups (Suc left) limit i s =
     (case (if i < limit - 1 then read_sep i read_ipv4 s else None) of
        Some (v, s') \<Rightarrow> ([unat v div 65536, unat v mod 65536], True, s')
      | None \<Rightarrow>
          (case read_sep i (read_number 16 (Some 4) True 65536) s of
             None \<Rightarrow> ([], False, s)
           | Some (g, s') \<Rightarrow>
               (case read_groups left limit (Suc i) s' of (gs, v4, s'') \<Rightarrow> (g # gs, v4, s''))))"

definition ipv6_of_groups :: "nat list \<Rightarrow> 128 word" where
  "ipv6_of_groups gs = of_nat (foldl (\<lambda>n g. n * 65536 + g) 0 gs)"

definition read_ipv6 :: "128 word reader" where
  "read_ipv6 s = (case read_groups 8 8 0 s of (hds, head_v4, s1) \<Rightarrow>
     if length hds = 8 then Some (ipv6_of_groups hds, s1)
     else if head_v4 then None
     else (case read_bind (read_char (CHR '':'')) (\<lambda>_. read_char (CHR '':'')) s1 of
       None \<Rightarrow> None
     | Some (_, s2) \<Rightarrow>
         let limit = 8 - (length hds + 1) in
         (case read_groups limit limit 0 s2 of (tls, _, s3) \<Rightarrow>
            Some (ipv6_of_groups (hds @ replicate (8 - length hds - length tls) 0 @ tls), s3))))"

section \<open>Addresses\<close>

definition or_else :: "'a reader \<Rightarrow> 'a reader \<Rightarrow> 'a reader" where
  "or_else r1 r2 s = (case r1 s of None \<Rightarrow> r2 s | Some x \<Rightarrow> Some x)"

definition read_map :: "('a \<Rightarrow> 'b) \<Rightarrow> 'a reader \<Rightarrow> 'b reader" where
  "read_map f r = read_bind r (\<lambda>x s. Some (f x, s))"

definition read_ip :: "ip_addr reader" where
  "read_ip = or_else (read_map V4 read_ipv4) (read_map V6 read_ipv6)"

definition read_port :: "nat reader" where
  "read_port = read_bind (read_char (CHR '':'')) (\<lambda>_. read_number 10 None True 65536)"

text \<open>An optional scope id, \<open>[fe80::1%2]:80\<close>.\<close>

definition read_scope :: "unit reader" where
  "read_scope s =
     (case read_bind (read_char (CHR ''%'')) (\<lambda>_. read_number 10 None True (2 ^ 32)) s of
        None \<Rightarrow> Some ((), s) | Some (_, s') \<Rightarrow> Some ((), s'))"

definition read_socket_ip :: "ip_addr reader" where
  "read_socket_ip = or_else
     (read_bind read_ipv4 (\<lambda>v. read_bind read_port (\<lambda>_ s. Some (V4 v, s))))
     (read_bind (read_char (CHR ''['')) (\<lambda>_. read_bind read_ipv6 (\<lambda>v.
        read_bind read_scope (\<lambda>_. read_bind (read_char (CHR '']'')) (\<lambda>_.
          read_bind read_port (\<lambda>_ s. Some (V6 v, s)))))))"

text \<open>The whole text must be read.\<close>

definition parse_with :: "'a reader \<Rightarrow> string \<Rightarrow> 'a option" where
  "parse_with r s = (case r s of Some (x, []) \<Rightarrow> Some x | _ \<Rightarrow> None)"

definition parse_ip :: "string \<Rightarrow> ip_addr option" where
  "parse_ip = parse_with read_ip"

definition parse_socket_ip :: "string \<Rightarrow> ip_addr option" where
  "parse_socket_ip = parse_with read_socket_ip"

lemmas read_defs = parse_ip_def parse_socket_ip_def parse_with_def read_ip_def read_socket_ip_def
  read_map_def or_else_def read_bind_def read_char_def read_ipv4_def read_ipv6_def read_octet_def
  read_dot_octet_def read_port_def read_scope_def read_number_def digit_value_def read_sep_def
  ipv6_of_groups_def ipv4_of_octets_def

end
