(* ===== verification/RequestIp.thy ===== *)
theory RequestIp
  imports IpParse
begin

text \<open>
  Which address a request comes from, \<^verbatim>\<open>crates/request_ip/src/lib.rs\<close>, and the sets
  of networks it is compared with, \<^verbatim>\<open>crates/request_ip/src/cidr.rs\<close>.

  Networks are the type of the \<open>ipnet\<close> crate, which the sources only call: the model takes its
  operations as a record of functions (\<open>ipnet\<close>). A \<open>HeaderMap\<close> is the function from a header
  name to its values in order, and \<open>to_str\<close> is \<open>HeaderValue::to_str\<close>, both of the \<open>http\<close> crate.
  An error of the request is its status code.
\<close>

section \<open>Sets of networks\<close>

record 'n ipnet =
  net_parse :: "string \<Rightarrow> 'n option"                   \<comment> \<open>\<open>str::parse::<IpNet>\<close>\<close>
  net_of_ip :: "ip_addr \<Rightarrow> 'n"                         \<comment> \<open>\<open>IpNet::from\<close>\<close>
  net_contains :: "'n \<Rightarrow> ip_addr \<Rightarrow> bool"              \<comment> \<open>\<open>IpNet::contains\<close>\<close>
  net_v6 :: "'n \<Rightarrow> (128 word \<times> nat) option"           \<comment> \<open>\<open>IpNet::V6\<close>: \<open>addr\<close>, \<open>prefix_len\<close>\<close>
  net_new_v4 :: "32 word \<Rightarrow> nat \<Rightarrow> 'n option"         \<comment> \<open>\<open>IpNet::V4(Ipv4Net::new(..)?)\<close>\<close>

definition canonicalize_net :: "'n ipnet \<Rightarrow> 'n \<Rightarrow> 'n" where
  "canonicalize_net N net = (case net_v6 N net of
     None \<Rightarrow> net
   | Some (addr, len) \<Rightarrow>
       if 96 \<le> len then
         (case to_ipv4_mapped addr of
            None \<Rightarrow> net
          | Some v4 \<Rightarrow> (case net_new_v4 N v4 (len - 96) of None \<Rightarrow> net | Some net4 \<Rightarrow> net4))
       else net)"

datatype cidr_error = Empty_Entry | Invalid_Entry string

definition parse_cidr :: "'n ipnet \<Rightarrow> string \<Rightarrow> cidr_error + 'n" where
  "parse_cidr N entry =
     (let entry = trim entry in
      if entry = [] then Inl Empty_Entry
      else res_bind
        (case net_parse N entry of
           Some net \<Rightarrow> Inr net
         | None \<Rightarrow> ok_or (Invalid_Entry entry) (map_option (net_of_ip N) (parse_ip entry)))
        (\<lambda>net. Inr (canonicalize_net N net)))"

fun cidr_set_parse :: "'n ipnet \<Rightarrow> string list \<Rightarrow> cidr_error + 'n list" where
  "cidr_set_parse N [] = Inr []"
| "cidr_set_parse N (e # es) =
     res_bind (parse_cidr N e) (\<lambda>net. res_bind (cidr_set_parse N es) (\<lambda>nets. Inr (net # nets)))"

definition cidr_set_contains :: "'n ipnet \<Rightarrow> 'n list \<Rightarrow> ip_addr \<Rightarrow> bool" where
  "cidr_set_contains N nets ip = list_ex (\<lambda>net. net_contains N net (to_canonical ip)) nets"

definition validate_cidr_whitelist :: "'n ipnet \<Rightarrow> string list \<Rightarrow> cidr_error + unit" where
  "validate_cidr_whitelist N es = res_bind (cidr_set_parse N es) (\<lambda>_. Inr ())"

definition check_cidr_whitelist :: "'n ipnet \<Rightarrow> ip_addr \<Rightarrow> string list \<Rightarrow> status + unit" where
  "check_cidr_whitelist N ip whitelist = (case cidr_set_parse N whitelist of
     Inl _ \<Rightarrow> Inl INTERNAL_SERVER_ERROR
   | Inr nets \<Rightarrow> if nets = [] \<or> cidr_set_contains N nets ip then Inr () else Inl FORBIDDEN)"

section \<open>Trusted proxies\<close>

datatype 'n trusted_proxies =
    Trust_None
  | Trust_Cidrs "'n list"
  | Trust_All

definition PRIVATE_RANGES :: "string list" where
  "PRIVATE_RANGES =
     [''127.0.0.0/8'', ''::1'', ''10.0.0.0/8'', ''172.16.0.0/12'', ''192.168.0.0/16'', ''fc00::/7'']"

text \<open>\<open>None\<close> is the panic of \<open>expect\<close>.\<close>

definition trusted_private :: "'n ipnet \<Rightarrow> 'n trusted_proxies option" where
  "trusted_private N = (case cidr_set_parse N PRIVATE_RANGES of
     Inl _ \<Rightarrow> None | Inr nets \<Rightarrow> Some (Trust_Cidrs nets))"

definition trusted_parse :: "'n ipnet \<Rightarrow> string list \<Rightarrow> cidr_error + 'n trusted_proxies" where
  "trusted_parse N es = res_bind (cidr_set_parse N es)
     (\<lambda>nets. Inr (if nets = [] then Trust_None else Trust_Cidrs nets))"

datatype config_error = Combined_Keyword | Bad_Entry cidr_error | Bad_Private

text \<open>The loop of \<open>from_config\<close>: \<open>cidrs\<close>, \<open>all\<close>, \<open>none\<close> and \<open>count\<close> (\<open>n\<close>).\<close>

definition config_entry ::
  "string \<Rightarrow> string list \<times> bool \<times> bool \<times> nat \<Rightarrow> string list \<times> bool \<times> bool \<times> nat" where
  "config_entry entry st = (case st of (cidrs, all, none, n) \<Rightarrow>
     let entry = trim entry in
     if entry = [] then st
     else
       let key = to_ascii_lowercase entry in
       if key = ''all'' then (cidrs, True, none, Suc n)
       else if key = ''none'' then (cidrs, all, True, Suc n)
       else if key = ''private'' then (cidrs @ PRIVATE_RANGES, all, none, Suc n)
       else (cidrs @ [entry], all, none, Suc n))"

definition trusted_from_config :: "'n ipnet \<Rightarrow> string list \<Rightarrow> config_error + 'n trusted_proxies" where
  "trusted_from_config N entries = (case fold config_entry entries ([], False, False, 0) of
     (cidrs, all, none, n) \<Rightarrow>
       if (all \<or> none) \<and> 1 < n then Inl Combined_Keyword
       else if all then Inr Trust_All
       else if none then Inr Trust_None
       else if cidrs = [] then ok_or Bad_Private (trusted_private N)
       else (case trusted_parse N cidrs of Inl e \<Rightarrow> Inl (Bad_Entry e) | Inr t \<Rightarrow> Inr t))"

fun trusts :: "'n ipnet \<Rightarrow> 'n trusted_proxies \<Rightarrow> ip_addr \<Rightarrow> bool" where
  "trusts N Trust_None ip = False"
| "trusts N (Trust_Cidrs nets) ip = cidr_set_contains N nets ip"
| "trusts N Trust_All ip = True"

section \<open>The client of a request\<close>

definition parse_forwarded_ip :: "string \<Rightarrow> status + ip_addr" where
  "parse_forwarded_ip entry = (case parse_ip entry of
     Some ip \<Rightarrow> Inr (to_canonical ip)
   | None \<Rightarrow> (case parse_socket_ip entry of
       Some ip \<Rightarrow> Inr (to_canonical ip)
     | None \<Rightarrow> Inl UNAUTHORIZED))"

text \<open>
  One value's entries from the right: \<open>Inl\<close> ends the whole walk with its result, \<open>Inr\<close> goes on
  with the leftmost address so far.
\<close>

fun walk_entries ::
  "'n ipnet \<Rightarrow> 'n trusted_proxies \<Rightarrow> bool \<Rightarrow> ip_addr option \<Rightarrow> string list \<Rightarrow>
   (status + ip_addr) + ip_addr option" where
  "walk_entries N tp lenient leftmost [] = Inr leftmost"
| "walk_entries N tp lenient leftmost (entry # es) =
     (if entry = [] then walk_entries N tp lenient leftmost es
      else (case parse_forwarded_ip entry of
        Inl e \<Rightarrow> if lenient then walk_entries N tp lenient leftmost es else Inl (Inl e)
      | Inr ip \<Rightarrow>
          if \<not> trusts N tp ip then Inl (Inr ip)
          else walk_entries N tp lenient (Some ip) es))"

fun walk_values ::
  "(string \<Rightarrow> string option) \<Rightarrow> 'n ipnet \<Rightarrow> 'n trusted_proxies \<Rightarrow> bool \<Rightarrow> ip_addr option \<Rightarrow>
   string list \<Rightarrow> status + ip_addr option" where
  "walk_values to_str N tp lenient leftmost [] = Inr leftmost"
| "walk_values to_str N tp lenient leftmost (v # vs) = (case to_str v of
     None \<Rightarrow> if lenient then walk_values to_str N tp lenient leftmost vs else Inl UNAUTHORIZED
   | Some s \<Rightarrow>
       (case walk_entries N tp lenient leftmost (rev (map trim (split_on (CHR '','') s))) of
          Inl (Inl e) \<Rightarrow> Inl e
        | Inl (Inr ip) \<Rightarrow> Inr (Some ip)
        | Inr leftmost \<Rightarrow> walk_values to_str N tp lenient leftmost vs))"

type_synonym header_map = "string \<Rightarrow> string list"

definition walk_forwarding_header ::
  "(string \<Rightarrow> string option) \<Rightarrow> 'n ipnet \<Rightarrow> header_map \<Rightarrow> string \<Rightarrow> 'n trusted_proxies \<Rightarrow> bool \<Rightarrow>
   status + ip_addr option" where
  "walk_forwarding_header to_str N headers name tp lenient =
     walk_values to_str N tp lenient None (rev (headers name))"

definition get_client_ip ::
  "(string \<Rightarrow> string option) \<Rightarrow> 'n ipnet \<Rightarrow> header_map \<Rightarrow> ip_addr option \<Rightarrow> 'n trusted_proxies \<Rightarrow>
   status + ip_addr" where
  "get_client_ip to_str N headers peer tp =
     (let peer = map_option to_canonical peer;
          peer_trusted = (case (tp, peer) of
             (Trust_All, _) \<Rightarrow> True
           | (_, None) \<Rightarrow> False
           | (trusted, Some peer) \<Rightarrow> trusts N trusted peer)
      in if \<not> peer_trusted then ok_or UNAUTHORIZED peer
      else
        let lenient = (case tp of Trust_All \<Rightarrow> True | _ \<Rightarrow> False) in
        res_bind (walk_forwarding_header to_str N headers ''x-forwarded-for'' tp lenient)
          (\<lambda>ip. case ip of Some ip \<Rightarrow> Inr ip | None \<Rightarrow>
             res_bind (walk_forwarding_header to_str N headers ''x-real-ip'' tp lenient)
               (\<lambda>ip. case ip of Some ip \<Rightarrow> Inr ip | None \<Rightarrow> ok_or UNAUTHORIZED peer)))"

lemmas client_ip_defs = get_client_ip_def walk_forwarding_header_def Let_def

section \<open>The walk\<close>

lemma trusts_canonical [simp]: "trusts N tp (to_canonical ip) = trusts N tp ip"
  by (cases tp) (simp_all add: cidr_set_contains_def)

lemma parse_forwarded_ip_canonical:
  "parse_forwarded_ip e = Inr ip \<Longrightarrow> to_canonical ip = ip"
  by (auto simp: parse_forwarded_ip_def split: option.splits)

text \<open>The entries of all values of a header, nearest hop first.\<close>

definition header_entries :: "string list \<Rightarrow> string list" where
  "header_entries vs = concat (map (\<lambda>v. rev (map trim (split_on (CHR '','') v))) (rev vs))"

lemma walk_entries_trusted:
  assumes "\<forall>e \<in> set es. e = [] \<or> (\<exists>ip. parse_forwarded_ip e = Inr ip \<and> trusts N tp ip)"
  shows "\<exists>l'. walk_entries N tp lenient l (es @ r) = walk_entries N tp lenient l' r"
  using assms
proof (induction es arbitrary: l)
  case (Cons e es)
  then consider "e = []" | ip where "e \<noteq> []" "parse_forwarded_ip e = Inr ip" "trusts N tp ip" by auto
  then show ?case
  proof cases
    case 2
    with Cons.IH [of "Some ip"] Cons.prems show ?thesis by simp
  qed (use Cons in auto)
qed auto

lemma walk_entries_Inr_cases:
  "walk_entries N tp lenient l es = Inr l' \<Longrightarrow>
   l' = l \<or> (\<exists>e ip. e \<in> set es \<and> parse_forwarded_ip e = Inr ip \<and> l' = Some ip \<and> trusts N tp ip)"
  by (induction N tp lenient l es rule: walk_entries.induct) (auto split: if_splits sum.splits)

lemma walk_entries_found:
  "walk_entries N tp lenient l es = Inl (Inr ip) \<Longrightarrow>
   \<exists>e \<in> set es. parse_forwarded_ip e = Inr ip \<and> \<not> trusts N tp ip"
  by (induction N tp lenient l es rule: walk_entries.induct) (auto split: if_splits sum.splits)

lemma walk_entries_error:
  "walk_entries N tp lenient l es = Inl (Inl e) \<Longrightarrow> e = UNAUTHORIZED \<and> \<not> lenient"
  by (induction N tp lenient l es rule: walk_entries.induct)
    (auto simp: parse_forwarded_ip_def split: if_splits sum.splits option.splits)

lemma walk_values_error:
  "walk_values to_str N tp lenient l vs = Inl e \<Longrightarrow> e = UNAUTHORIZED \<and> \<not> lenient"
  by (induction to_str N tp lenient l vs rule: walk_values.induct)
    (auto dest: walk_entries_error split: if_splits sum.splits option.splits)

section \<open>What the address rests on\<close>

text \<open>
  Behind a peer which is not a trusted proxy the client is that peer, whatever the headers
  say: an untrusted connection cannot choose its address.
\<close>

theorem untrusted_peer_ignores_headers:
  assumes "\<not> trusts N tp p"
  shows "get_client_ip to_str N headers (Some p) tp = Inr (to_canonical p)"
  using assms by (cases tp) (simp_all add: get_client_ip_def Let_def)

text \<open>A network type for the witnesses: pairs of a base and a prefix length.\<close>

definition demo_nets :: "(ip_addr \<times> nat) ipnet" where
  "demo_nets = \<lparr>net_parse = (\<lambda>s. if s = ''10.0.0.0/8'' then Some (V4 0x0A000000, 8) else None),
     net_of_ip = (\<lambda>ip. (ip, case ip of V4 _ \<Rightarrow> 32 | V6 _ \<Rightarrow> 128)),
     net_contains = (\<lambda>(b, n) ip. case (b, ip) of
        (V4 v, V4 w) \<Rightarrow> drop_bit (32 - n) v = drop_bit (32 - n) w
      | (V6 v, V6 w) \<Rightarrow> drop_bit (128 - n) v = drop_bit (128 - n) w
      | _ \<Rightarrow> False),
     net_v6 = (\<lambda>(b, n). case b of V4 _ \<Rightarrow> None | V6 w \<Rightarrow> Some (w, n)),
     net_new_v4 = (\<lambda>v n. if n \<le> 32 then Some (V4 v, n) else None)\<rparr>"

definition demo_proxies :: "(ip_addr \<times> nat) trusted_proxies" where
  "demo_proxies = Trust_Cidrs [(V4 0x0A000000, 8)]"

definition demo_headers :: header_map where
  "demo_headers name = (if name = ''x-forwarded-for''
     then [''8.8.8.8'', ''9.9.9.9, 1.2.3.4, 10.0.0.2'', ''10.0.0.3''] else [])"

lemma untrusted_peer_ignores_headers_witness:
  "get_client_ip Some demo_nets demo_headers (Some (V4 0x01010101)) demo_proxies = Inr (V4 0x01010101)"
proof -
  have "\<not> trusts demo_nets demo_proxies (V4 0x01010101)"
    by (simp add: demo_nets_def demo_proxies_def cidr_set_contains_def)
  from untrusted_peer_ignores_headers [OF this, of Some demo_headers] show ?thesis by simp
qed

lemma walk_values_trusted:
  assumes "\<forall>v \<in> set vs. \<exists>s. to_str v = Some s \<and>
      (\<forall>e \<in> set (split_on (CHR '','') s). trim e = [] \<or>
        (\<exists>ip. parse_forwarded_ip (trim e) = Inr ip \<and> trusts N tp ip))"
  shows "\<exists>l'. walk_values to_str N tp lenient l (vs @ r) = walk_values to_str N tp lenient l' r"
  using assms
proof (induction vs arbitrary: l)
  case (Cons v vs)
  then obtain s where s: "to_str v = Some s"
    "\<forall>e \<in> set (split_on (CHR '','') s). trim e = [] \<or>
        (\<exists>ip. parse_forwarded_ip (trim e) = Inr ip \<and> trusts N tp ip)"
    by auto
  have "\<exists>l'. walk_entries N tp lenient l (rev (map trim (split_on (CHR '','') s)) @ []) =
      walk_entries N tp lenient l' []"
    by (rule walk_entries_trusted) (use s(2) in auto)
  then obtain l' where "walk_entries N tp lenient l (rev (map trim (split_on (CHR '','') s))) = Inr l'"
    by auto
  with s(1) Cons.IH [of l'] Cons.prems show ?case by simp
qed auto

text \<open>
  C2: A client behind trusted proxies cannot choose its address: if each trusted hop appends the
  address it saw, the client's is the first entry from the right that is not a trusted proxy,
  whatever lines and entries the client itself put to the left of it.
\<close>

theorem client_ip_not_spoofable:
  assumes "trusts N tp peer" "tp \<noteq> Trust_All"
    and "headers ''x-forwarded-for'' = sent @ line # newer"
    and "to_str line = Some text" "split_on (CHR '','') text = spoofed @ entry # hops"
    and "parse_forwarded_ip (trim entry) = Inr ip" "trim entry \<noteq> []" "\<not> trusts N tp ip"
    and "\<forall>h \<in> set hops. trim h = [] \<or> (\<exists>i. parse_forwarded_ip (trim h) = Inr i \<and> trusts N tp i)"
    and "\<forall>v \<in> set newer. \<exists>s. to_str v = Some s \<and> (\<forall>h \<in> set (split_on (CHR '','') s).
           trim h = [] \<or> (\<exists>i. parse_forwarded_ip (trim h) = Inr i \<and> trusts N tp i))"
  shows "get_client_ip to_str N headers (Some peer) tp = Inr ip"
proof -
  have walk: "walk_entries N tp False l (rev (map trim (split_on (CHR '','') text))) = Inl (Inr ip)" for l
  proof -
    have "\<exists>l'. walk_entries N tp False l (rev (map trim hops) @ trim entry # rev (map trim spoofed)) =
        walk_entries N tp False l' (trim entry # rev (map trim spoofed))"
      by (rule walk_entries_trusted) (use assms(9) in auto)
    with assms(5-8) show ?thesis by auto
  qed
  have "\<exists>l'. walk_values to_str N tp False None (rev newer @ line # rev sent) =
      walk_values to_str N tp False l' (line # rev sent)"
    by (rule walk_values_trusted) (use assms(10) in auto)
  then have "walk_forwarding_header to_str N headers ''x-forwarded-for'' tp False = Inr (Some ip)"
    using assms(3,4) walk by (auto simp: walk_forwarding_header_def)
  with assms(1,2) show ?thesis
    by (cases tp) (simp_all add: get_client_ip_def Let_def cidr_set_contains_def)
qed

lemmas ip_eval = parse_forwarded_ip_def read_defs is_ascii_digit_def is_ascii_lower_def
  is_ascii_upper_def

lemma demo_parse:
  "parse_forwarded_ip ''1.2.3.4'' = Inr (V4 0x01020304)"
  "parse_forwarded_ip ''10.0.0.2'' = Inr (V4 0x0A000002)"
  "parse_forwarded_ip ''10.0.0.3'' = Inr (V4 0x0A000003)"
  by (simp_all add: ip_eval)

lemma client_ip_not_spoofable_witness:
  "get_client_ip Some demo_nets demo_headers (Some (V4 0x0A000001)) demo_proxies = Inr (V4 0x01020304)"
proof (rule client_ip_not_spoofable)
  show "split_on (CHR '','') ''9.9.9.9, 1.2.3.4, 10.0.0.2'' = [''9.9.9.9''] @ '' 1.2.3.4'' # ['' 10.0.0.2'']"
    by simp
  show "demo_headers ''x-forwarded-for'' = [''8.8.8.8''] @ ''9.9.9.9, 1.2.3.4, 10.0.0.2'' # [''10.0.0.3'']"
    by (simp add: demo_headers_def)
  have "trusts demo_nets demo_proxies (V4 0x0A000002)" "trusts demo_nets demo_proxies (V4 0x0A000003)"
    by (simp_all add: demo_nets_def demo_proxies_def cidr_set_contains_def)
  then show "\<forall>h \<in> set ['' 10.0.0.2'']. trim h = [] \<or>
      (\<exists>i. parse_forwarded_ip (trim h) = Inr i \<and> trusts demo_nets demo_proxies i)"
    "\<forall>v \<in> set [''10.0.0.3'']. \<exists>s. Some v = Some s \<and> (\<forall>h \<in> set (split_on (CHR '','') s).
       trim h = [] \<or> (\<exists>i. parse_forwarded_ip (trim h) = Inr i \<and> trusts demo_nets demo_proxies i))"
    by (simp_all add: byte_simps demo_parse)
qed (simp_all add: byte_simps demo_parse demo_nets_def demo_proxies_def cidr_set_contains_def)

lemma walk_values_found:
  "walk_values to_str N tp lenient l vs = Inr (Some ip) \<Longrightarrow>
   l = Some ip \<or> (\<exists>v \<in> set vs. \<exists>s. to_str v = Some s \<and>
     (\<exists>e \<in> set (split_on (CHR '','') s). parse_forwarded_ip (trim e) = Inr ip))"
proof (induction to_str N tp lenient l vs rule: walk_values.induct)
  case (2 to_str N tp lenient l v vs)
  show ?case
  proof (cases "to_str v")
    case None
    with 2 show ?thesis by (auto split: if_splits)
  next
    case (Some s)
    let ?es = "rev (map trim (split_on (CHR '','') s))"
    show ?thesis
    proof (cases "walk_entries N tp lenient l ?es")
      case (Inl r)
      with 2(3) Some walk_entries_found [of N tp lenient l ?es ip] show ?thesis
        by (cases r) auto
    next
      case (Inr l')
      with 2 Some walk_entries_Inr_cases [OF Inr] show ?thesis by auto
    qed
  qed
qed auto

lemma walk_values_trust_all:
  "\<exists>l'. walk_values to_str N Trust_All True l vs = Inr l'"
  by (metis obj_sumE walk_values_error)

text \<open>
  The client address is the peer, or was written in an entry of a forwarding header that the
  policy lets the request be judged by; the only error is \<open>401 Unauthorized\<close>, and a request whose
  peer is known is never refused under \<open>TrustedProxies::All\<close> or by an untrusted peer.
\<close>

theorem client_ip_provenance:
  "case get_client_ip to_str N headers peer tp of
     Inr ip \<Rightarrow> (\<exists>p. peer = Some p \<and> ip = to_canonical p) \<or>
       (\<exists>name v s e. name \<in> {''x-forwarded-for'', ''x-real-ip''} \<and> v \<in> set (headers name) \<and>
          to_str v = Some s \<and> e \<in> set (split_on (CHR '','') s) \<and>
          parse_forwarded_ip (trim e) = Inr ip \<and>
          (tp = Trust_All \<or> (\<exists>p. peer = Some p \<and> trusts N tp p)))
   | Inl e \<Rightarrow> e = UNAUTHORIZED \<and>
       (peer = None \<or> tp \<noteq> Trust_All \<and> (\<exists>p. peer = Some p \<and> trusts N tp p))"
proof -
  let ?len = "case tp of Trust_All \<Rightarrow> True | _ \<Rightarrow> False"
  let ?W = "\<lambda>name. walk_forwarding_header to_str N headers name tp ?len"
  have err: "e = UNAUTHORIZED \<and> tp \<noteq> Trust_All" if "?W name = Inl e" for name e
    using walk_values_error [OF that [unfolded walk_forwarding_header_def]] by auto
  have found: "\<exists>v \<in> set (headers name). \<exists>s. to_str v = Some s \<and>
      (\<exists>e \<in> set (split_on (CHR '','') s). parse_forwarded_ip (trim e) = Inr ip)"
    if "?W name = Inr (Some ip)" for name ip
    using walk_values_found [OF that [unfolded walk_forwarding_header_def]] by simp
  show ?thesis
  proof (cases "tp = Trust_All \<or> (\<exists>p. peer = Some p \<and> trusts N tp p)")
    case False
    then have "get_client_ip to_str N headers peer tp = ok_or UNAUTHORIZED (map_option to_canonical peer)"
      by (cases tp; cases peer) (auto simp: get_client_ip_def Let_def)
    with False show ?thesis by (cases peer) auto
  next
    case True
    then have g: "get_client_ip to_str N headers peer tp = res_bind (?W ''x-forwarded-for'')
          (\<lambda>ip. case ip of Some ip \<Rightarrow> Inr ip | None \<Rightarrow> res_bind (?W ''x-real-ip'')
             (\<lambda>ip. case ip of Some ip \<Rightarrow> Inr ip | None \<Rightarrow> ok_or UNAUTHORIZED (map_option to_canonical peer)))"
      by (cases tp; cases peer) (auto simp: get_client_ip_def Let_def)
    show ?thesis
      unfolding g using True err found
      by (cases "?W ''x-forwarded-for''"; cases "?W ''x-real-ip''"; cases peer)
        (fastforce split: option.splits)+
  qed
qed

section \<open>Networks and whitelists\<close>

text \<open>What the sources rely on of \<open>ipnet\<close>: the addresses of a network share its prefix.\<close>

definition ipnet_v6_law :: "'n ipnet \<Rightarrow> bool" where
  "ipnet_v6_law N \<longleftrightarrow> (\<forall>net addr len. net_v6 N net = Some (addr, len) \<longrightarrow> len \<le> 128 \<and>
     (\<forall>w. net_contains N net (V6 w) = (drop_bit (128 - len) w = drop_bit (128 - len) addr)))"

definition ipnet_v4_law :: "'n ipnet \<Rightarrow> bool" where
  "ipnet_v4_law N \<longleftrightarrow> (\<forall>v len. len \<le> 32 \<longrightarrow> (\<exists>net. net_new_v4 N v len = Some net \<and>
     (\<forall>w. net_contains N net (V4 w) = (drop_bit (32 - len) w = drop_bit (32 - len) v)) \<and>
     (\<forall>w. \<not> net_contains N net (V6 w))))"

lemma drop_bit_map_v4_eq_iff:
  assumes "n \<le> 32"
  shows "drop_bit n (map_v4 v) = drop_bit n (map_v4 w) \<longleftrightarrow> drop_bit n v = drop_bit n w"
proof
  have b: "bit (map_v4 x) i \<longleftrightarrow> 32 \<le> i \<and> i < 48 \<or> bit x i" for x :: "32 word" and i
    by (auto simp: map_v4_def bit_simps dest: bit_imp_le_length)
  assume eq: "drop_bit n (map_v4 v) = drop_bit n (map_v4 w)"
  show "drop_bit n v = drop_bit n w"
  proof (rule bit_word_eqI)
    fix i assume "i < LENGTH(32)"
    have "bit (drop_bit n (map_v4 v)) i = bit (drop_bit n (map_v4 w)) i" by (simp only: eq)
    then show "bit (drop_bit n v) i = bit (drop_bit n w) i"
      by (auto simp: bit_drop_bit_eq b dest: bit_imp_le_length)
  qed
next
  have b: "bit (map_v4 x) i \<longleftrightarrow> 32 \<le> i \<and> i < 48 \<or> bit x i" for x :: "32 word" and i
    by (auto simp: map_v4_def bit_simps dest: bit_imp_le_length)
  assume eq: "drop_bit n v = drop_bit n w"
  show "drop_bit n (map_v4 v) = drop_bit n (map_v4 w)"
  proof (rule bit_word_eqI)
    fix i assume "i < LENGTH(128)"
    have "bit (drop_bit n v) i = bit (drop_bit n w) i" by (simp only: eq)
    then show "bit (drop_bit n (map_v4 v)) i = bit (drop_bit n (map_v4 w)) i"
      by (auto simp: bit_drop_bit_eq b)
  qed
qed

lemma map_v4_of_mapped:
  assumes "to_ipv4_mapped a = Some v"
  shows "map_v4 v = a"
proof (rule bit_word_eqI)
  fix i assume "i < LENGTH(128)"
  have d: "drop_bit 32 a = mask 16" and v: "v = ucast a"
    using assms by (auto simp: to_ipv4_mapped_def mask_eq_exp_minus_1 split: if_splits)
  have "bit (drop_bit 32 a) (i - 32) = bit (mask 16 :: 128 word) (i - 32)" by (simp only: d)
  then show "bit (map_v4 v) i = bit a i"
    by (cases "32 \<le> i") (auto simp: map_v4_def v bit_simps \<open>i < LENGTH(128)\<close>[simplified])
qed

text \<open>
  Writing an IPv4-mapped IPv6 network (a part of \<open>::ffff:0:0/96\<close>) as an IPv4 network, as a set
  of networks does when it is parsed, keeps its members: it contains an IPv4 client, which every
  check compares in its IPv4 form, exactly when the network as written contains the mapped form.
\<close>

theorem canonicalize_net_same_clients:
  assumes "ipnet_v6_law N" "ipnet_v4_law N"
    and "net_v6 N net = Some (addr, len)" "96 \<le> len" "to_ipv4_mapped addr \<noteq> None"
  shows "cidr_set_contains N [canonicalize_net N net] (V4 w) \<longleftrightarrow> net_contains N net (V6 (map_v4 w))"
proof -
  obtain v where v: "to_ipv4_mapped addr = Some v" using assms(5) by auto
  have len: "len \<le> 128" using assms(1,3) by (auto simp: ipnet_v6_law_def)
  then have "len - 96 \<le> 32" by simp
  then obtain net4 where n4: "net_new_v4 N v (len - 96) = Some net4"
    "net_contains N net4 (V4 w) = (drop_bit (32 - (len - 96)) w = drop_bit (32 - (len - 96)) v)"
    using assms(2) unfolding ipnet_v4_law_def by blast
  have eq: "32 - (len - 96) = 128 - len" using assms(4) by simp
  have "net_contains N net (V6 (map_v4 w)) = (drop_bit (128 - len) (map_v4 w) = drop_bit (128 - len) addr)"
    using assms(1,3) by (auto simp: ipnet_v6_law_def)
  also have "\<dots> = (drop_bit (128 - len) w = drop_bit (128 - len) v)"
    using drop_bit_map_v4_eq_iff [of "128 - len" w v] map_v4_of_mapped [OF v] assms(4) by simp
  finally show ?thesis
    using assms(3,4) v n4 eq by (simp add: canonicalize_net_def cidr_set_contains_def)
qed

lemma demo_nets_laws: "ipnet_v4_law demo_nets"
  by (auto simp: ipnet_v4_law_def demo_nets_def)

definition demo_nets6 :: "(ip_addr \<times> nat) ipnet" where
  "demo_nets6 = demo_nets\<lparr>net_v6 := \<lambda>(b, n). case b of V4 _ \<Rightarrow> None
     | V6 w \<Rightarrow> if n \<le> 128 then Some (w, n) else None\<rparr>"

lemma canonicalize_net_same_clients_witness:
  "cidr_set_contains demo_nets6 [canonicalize_net demo_nets6 (V6 (map_v4 0x0A000000), 104)] (V4 0x0A000001) \<longleftrightarrow>
   net_contains demo_nets6 (V6 (map_v4 0x0A000000), 104) (V6 (map_v4 0x0A000001))"
proof (rule canonicalize_net_same_clients [where addr = "map_v4 0x0A000000" and len = 104])
  show "ipnet_v6_law demo_nets6"
    by (auto simp: ipnet_v6_law_def demo_nets6_def demo_nets_def split: ip_addr.splits if_splits)
  show "ipnet_v4_law demo_nets6"
    using demo_nets_laws by (simp add: ipnet_v4_law_def demo_nets6_def)
qed (simp_all add: demo_nets6_def to_ipv4_mapped_map_v4)

lemma cidr_set_parse_Inr_iff:
  "(\<exists>nets. cidr_set_parse N es = Inr nets) \<longleftrightarrow> (\<forall>e \<in> set es. \<exists>net. parse_cidr N e = Inr net)"
proof (induction es)
  case (Cons e es)
  then show ?case
    by (cases "parse_cidr N e"; cases "cidr_set_parse N es") (auto simp: res_bind_def)
qed simp

lemma cidr_set_parse_nets:
  "cidr_set_parse N es = Inr nets \<Longrightarrow> list_all2 (\<lambda>e net. parse_cidr N e = Inr net) es nets"
  by (induction es arbitrary: nets) (auto simp: res_bind_Inr_iff)

text \<open>
  A whitelist fails closed: a request passes exactly when every entry parses and the list is
  empty or the network of one of its entries contains the address; an entry which does not parse
  refuses everyone with \<open>500\<close>, all else is \<open>403\<close>.
\<close>

theorem whitelist_fails_closed:
  "check_cidr_whitelist N ip es =
     (if \<exists>e \<in> set es. \<forall>net. parse_cidr N e \<noteq> Inr net then Inl INTERNAL_SERVER_ERROR
      else if es = [] \<or> (\<exists>e \<in> set es. \<exists>net. parse_cidr N e = Inr net \<and>
          net_contains N net (to_canonical ip)) then Inr ()
      else Inl FORBIDDEN)"
proof (cases "cidr_set_parse N es")
  case (Inl e)
  then have "\<exists>e \<in> set es. \<forall>net. parse_cidr N e \<noteq> Inr net"
    using cidr_set_parse_Inr_iff [of N es] by auto
  with Inl show ?thesis by (simp add: check_cidr_whitelist_def)
next
  case (Inr nets)
  have ok: "\<forall>e \<in> set es. \<exists>net. parse_cidr N e = Inr net"
    using Inr cidr_set_parse_Inr_iff [of N es] by auto
  note rel = cidr_set_parse_nets [OF Inr]
  have "cidr_set_contains N nets ip \<longleftrightarrow>
      (\<exists>e \<in> set es. \<exists>net. parse_cidr N e = Inr net \<and> net_contains N net (to_canonical ip))"
    using rel by (induction rule: list_all2_induct) (auto simp: cidr_set_contains_def)
  moreover have "nets = [] \<longleftrightarrow> es = []" using rel by (cases es; cases nets) auto
  ultimately show ?thesis using Inr ok by (simp add: check_cidr_whitelist_def)
qed

section \<open>The policy from the configuration\<close>

definition keyword :: "string \<Rightarrow> string" where
  "keyword e = to_ascii_lowercase (trim e)"

lemma config_fold:
  "fold config_entry es (cs, a, n, k) = (cs', a', n', k') \<Longrightarrow>
   (a' \<longleftrightarrow> a \<or> (\<exists>e \<in> set es. keyword e = ''all'')) \<and>
   (n' \<longleftrightarrow> n \<or> (\<exists>e \<in> set es. keyword e = ''none'')) \<and>
   k' = k + length (filter (\<lambda>e. trim e \<noteq> []) es)"
proof (induction es arbitrary: cs a n k)
  case (Cons e es)
  obtain cs1 a1 n1 k1 where st: "config_entry e (cs, a, n, k) = (cs1, a1, n1, k1)"
    by (metis prod_cases4)
  have "(a1 \<longleftrightarrow> a \<or> keyword e = ''all'') \<and> (n1 \<longleftrightarrow> n \<or> keyword e = ''none'') \<and>
      k1 = k + (if trim e \<noteq> [] then 1 else 0)"
    using st by (auto simp: config_entry_def keyword_def to_ascii_lowercase_def Let_def split: if_splits)
  with Cons.IH [of cs1 a1 n1 k1] Cons.prems st show ?case by (auto split: if_splits)
qed simp

text \<open>
  Every hop is believed (\<open>TrustedProxies::All\<close>) only when the one entry of the configuration
  that is not blank is \<open>all\<close>; together with any other entry it is an error.
\<close>

theorem all_proxies_only_alone:
  "trusted_from_config N es = Inr Trust_All \<longleftrightarrow>
     (\<exists>e. filter (\<lambda>e. trim e \<noteq> []) es = [e] \<and> keyword e = ''all'')"
proof -
  obtain cs a n k where f: "fold config_entry es ([], False, False, 0) = (cs, a, n, k)"
    by (metis prod_cases4)
  from config_fold [OF f] have a: "a \<longleftrightarrow> (\<exists>e \<in> set es. keyword e = ''all'')"
    and k: "k = length (filter (\<lambda>e. trim e \<noteq> []) es)" by auto
  have nonblank: "trim e \<noteq> []" if "keyword e = ''all''" for e
    using that by (auto simp: keyword_def to_ascii_lowercase_def)
  have "trusted_from_config N es = Inr Trust_All \<longleftrightarrow> a \<and> k \<le> 1"
    using f by (auto simp: trusted_from_config_def trusted_private_def trusted_parse_def
        res_bind_def ok_or_def split: sum.splits option.splits if_splits)
  also have "\<dots> \<longleftrightarrow> (\<exists>e. filter (\<lambda>e. trim e \<noteq> []) es = [e] \<and> keyword e = ''all'')"
  proof
    assume ak: "a \<and> k \<le> 1"
    then obtain e where e: "e \<in> set es" "keyword e = ''all''" using a by blast
    then have "e \<in> set (filter (\<lambda>e. trim e \<noteq> []) es)" using nonblank by simp
    with ak k e show "\<exists>e. filter (\<lambda>e. trim e \<noteq> []) es = [e] \<and> keyword e = ''all''"
      by (cases "filter (\<lambda>e. trim e \<noteq> []) es") auto
  next
    assume "\<exists>e. filter (\<lambda>e. trim e \<noteq> []) es = [e] \<and> keyword e = ''all''"
    then obtain e where e: "filter (\<lambda>e. trim e \<noteq> []) es = [e]" "keyword e = ''all''" by blast
    then have "e \<in> set es" by (metis filter_eq_ConsD in_set_conv_decomp)
    with e show "a \<and> k \<le> 1" using a k by auto
  qed
  finally show ?thesis .
qed

end
