(* ===== verification/HeaderTimeout.thy ===== *)
theory HeaderTimeout
  imports Prelude "HOL-Library.Word"
begin

text \<open>
  The header read timeout of connections, \<^verbatim>\<open>crates/server/src/timeout.rs\<close>: \<open>on_read\<close> follows
  what a client sends, in whatever pieces it arrives, and sets or lifts the deadline by which the
  headers of a request must have arrived. The loop is written as the source has it, over pieces;
  it is then shown to be the byte by byte reference, and that one to be right on whole frames.
\<close>

unbundle bit_operations_syntax

section \<open>The follower\<close>

type_synonym octet = "8 word"

definition H2_PREFACE :: "octet list" where
  "H2_PREFACE = map (\<lambda>c. of_nat (of_char c))
     (''PRI * HTTP/2.0'' @ [CHR 0x0D, CHR 0x0A, CHR 0x0D, CHR 0x0A] @ ''SM'' @
      [CHR 0x0D, CHR 0x0A, CHR 0x0D, CHR 0x0A])"

definition FRAME_HEADER_LEN :: nat where "FRAME_HEADER_LEN = 9"
definition HEADERS :: octet where "HEADERS = 1"
definition CONTINUATION :: octet where "CONTINUATION = 9"
definition END_HEADERS :: octet where "END_HEADERS = 4"

text \<open>\<open>fr_header\<close> is the part of the frame header read so far, \<open>header[..header_len]\<close>.\<close>

record frames =
  fr_header :: "octet list"
  payload_left :: nat
  ends_headers :: bool

definition no_frame :: frames where
  "no_frame = \<lparr>fr_header = [], payload_left = 0, ends_headers = False\<rparr>"

datatype protocol = Unknown nat | Http1 | Http2 frames

record header_timeout =
  ht_timeout :: "duration option"
  ht_deadline :: "instant option"
  ht_protocol :: protocol

definition new_timeout :: "duration option \<Rightarrow> instant \<Rightarrow> header_timeout" where
  "new_timeout timeout now =
     \<lparr>ht_timeout = timeout, ht_deadline = map_option (\<lambda>d. now + d) timeout, ht_protocol = Unknown 0\<rparr>"

text \<open>\<open>u32::from_be_bytes([0, l0, l1, l2])\<close>.\<close>

definition be24 :: "octet \<Rightarrow> octet \<Rightarrow> octet \<Rightarrow> nat" where
  "be24 l0 l1 l2 = (unat l0 * 256 + unat l1) * 256 + unat l2"

text \<open>The frame header is complete.\<close>

definition start_frame ::
  "instant \<Rightarrow> duration \<Rightarrow> octet list \<Rightarrow> instant option \<Rightarrow> frames \<times> instant option" where
  "start_frame now timeout header deadline =
     (let kind = header ! 3; flags = header ! 4 in
      (\<lparr>fr_header = header, payload_left = be24 (header ! 0) (header ! 1) (header ! 2),
        ends_headers = (kind \<in> {HEADERS, CONTINUATION} \<and> flags AND END_HEADERS \<noteq> 0)\<rparr>,
       if kind = HEADERS \<and> deadline = None then Some (now + timeout) else deadline))"

text \<open>The frame's payload, as much of it as was read: the bytes left and the new state.\<close>

definition read_payload ::
  "octet list \<Rightarrow> frames \<Rightarrow> instant option \<Rightarrow> octet list \<times> frames \<times> instant option" where
  "read_payload bs fr deadline =
     (let len = min (length bs) (payload_left fr);
          fr = fr\<lparr>payload_left := payload_left fr - len\<rparr>
      in (drop len bs,
          if payload_left fr = 0
          then (fr\<lparr>fr_header := []\<rparr>, if ends_headers fr then None else deadline)
          else (fr, deadline)))"

fun phase :: "protocol \<Rightarrow> nat" where
  "phase (Unknown _) = 2"
| "phase Http1 = 0"
| "phase (Http2 fr) = (if length (fr_header fr) < FRAME_HEADER_LEN then 0 else 1)"

text \<open>A prefix longer than the preface is never matched; the slice of it would be out of range.\<close>

function follow ::
  "instant \<Rightarrow> duration \<Rightarrow> octet list \<Rightarrow> instant option \<Rightarrow> protocol \<Rightarrow> instant option \<times> protocol" where
  "follow now timeout bs deadline p =
     (if bs = [] then (deadline, p) else case p of
        Http1 \<Rightarrow> (deadline, p)
      | Unknown matched \<Rightarrow>
          let expected = drop matched H2_PREFACE; len = min (length bs) (length expected) in
          if length H2_PREFACE < matched then (deadline, p)
          else if take len bs \<noteq> take len expected then (None, Http1)
          else follow now timeout (drop len bs) deadline
            (if matched + len = length H2_PREFACE then Http2 no_frame else Unknown (matched + len))
      | Http2 fr \<Rightarrow>
          if length (fr_header fr) < FRAME_HEADER_LEN then
            let len = min (length bs) (FRAME_HEADER_LEN - length (fr_header fr));
                header = fr_header fr @ take len bs
            in if length header < FRAME_HEADER_LEN
               then (deadline, Http2 (fr\<lparr>fr_header := header\<rparr>))
               else
                 case start_frame now timeout header deadline of (fr, deadline) \<Rightarrow>
                 case read_payload (drop len bs) fr deadline of (bs, fr, deadline) \<Rightarrow>
                   follow now timeout bs deadline (Http2 fr)
          else
            case read_payload bs fr deadline of (bs, fr, deadline) \<Rightarrow>
              follow now timeout bs deadline (Http2 fr))"
  by pat_completeness auto
termination
  by (relation "measures [\<lambda>(_, _, bs, _, _). length bs, \<lambda>(_, _, _, _, p). phase p]")
    (auto simp: read_payload_def Let_def FRAME_HEADER_LEN_def no_frame_def split: if_splits)

declare follow.simps [simp del]

definition on_read :: "instant \<Rightarrow> octet list \<Rightarrow> header_timeout \<Rightarrow> header_timeout" where
  "on_read now bs h = (case ht_timeout h of
     None \<Rightarrow> h
   | Some timeout \<Rightarrow> (case follow now timeout bs (ht_deadline h) (ht_protocol h) of
       (deadline, p) \<Rightarrow> h\<lparr>ht_deadline := deadline, ht_protocol := p\<rparr>))"

definition expired :: "instant \<Rightarrow> header_timeout \<Rightarrow> bool" where
  "expired now h = (case ht_deadline h of None \<Rightarrow> False | Some d \<Rightarrow> d \<le> now)"

text \<open>
  \<open>poll_read\<close>: what the wrapped stream gave (\<open>None\<close>: nothing yet), \<open>Inl\<close> an error.
\<close>

datatype read_error = Inner_Error | Timed_Out

definition poll_read ::
  "instant \<Rightarrow> (read_error + octet list) option \<Rightarrow> header_timeout \<Rightarrow>
   (read_error + octet list) option \<times> header_timeout" where
  "poll_read now r h =
     (let h = (case r of Some (Inr bs) \<Rightarrow> on_read now bs h | _ \<Rightarrow> h) in
      if (case r of Some (Inl _) \<Rightarrow> False | _ \<Rightarrow> True) \<and> expired now h
      then (Some (Inl Timed_Out), h) else (r, h))"

section \<open>Byte by byte\<close>

definition feed_frame ::
  "instant \<Rightarrow> duration \<Rightarrow> octet \<Rightarrow> instant option \<Rightarrow> frames \<Rightarrow> frames \<times> instant option" where
  "feed_frame now timeout b deadline fr =
     (if length (fr_header fr) < FRAME_HEADER_LEN then
        let header = fr_header fr @ [b] in
        if length header < FRAME_HEADER_LEN then (fr\<lparr>fr_header := header\<rparr>, deadline)
        else case start_frame now timeout header deadline of
          (fr, deadline) \<Rightarrow> if payload_left fr = 0
            then (fr\<lparr>fr_header := []\<rparr>, if ends_headers fr then None else deadline)
            else (fr, deadline)
      else
        let fr = fr\<lparr>payload_left := payload_left fr - 1\<rparr> in
        if payload_left fr = 0
        then (fr\<lparr>fr_header := []\<rparr>, if ends_headers fr then None else deadline)
        else (fr, deadline))"

fun feed ::
  "instant \<Rightarrow> duration \<Rightarrow> octet \<Rightarrow> instant option \<times> protocol \<Rightarrow> instant option \<times> protocol" where
  "feed now timeout b (deadline, Http1) = (deadline, Http1)"
| "feed now timeout b (deadline, Unknown matched) =
     (if H2_PREFACE ! matched \<noteq> b then (None, Http1)
      else if Suc matched = length H2_PREFACE then (deadline, Http2 no_frame)
      else (deadline, Unknown (Suc matched)))"
| "feed now timeout b (deadline, Http2 fr) =
     (case feed_frame now timeout b deadline fr of (fr, deadline) \<Rightarrow> (deadline, Http2 fr))"

text \<open>Between two bytes: a part of the preface, of a header, or of a payload.\<close>

fun protocol_ok :: "protocol \<Rightarrow> bool" where
  "protocol_ok (Unknown matched) = (matched < length H2_PREFACE)"
| "protocol_ok Http1 = True"
| "protocol_ok (Http2 fr) =
     (length (fr_header fr) < FRAME_HEADER_LEN \<or>
      length (fr_header fr) = FRAME_HEADER_LEN \<and> 0 < payload_left fr)"

lemma protocol_ok_feed: "protocol_ok p \<Longrightarrow> protocol_ok (snd (feed now timeout b (d, p)))"
  by (cases p) (auto simp: feed_frame_def start_frame_def no_frame_def FRAME_HEADER_LEN_def Let_def
      split: prod.splits if_splits)

lemma length_H2_PREFACE [simp]: "length H2_PREFACE = 24"
  by (simp add: H2_PREFACE_def)

abbreviation feeds :: "instant \<Rightarrow> duration \<Rightarrow> octet list \<Rightarrow> instant option \<times> protocol \<Rightarrow> instant option \<times> protocol" where
  "feeds now timeout bs \<equiv> fold (feed now timeout) bs"

lemma feeds_Http1: "feeds now timeout bs (d, Http1) = (d, Http1)"
  by (induction bs) auto

text \<open>The preface, as much of it as the bytes go.\<close>

lemma feeds_preface:
  assumes "n \<le> length bs" "matched + n \<le> 24" "matched < 24"
  shows "feeds now timeout (take n bs) (d, Unknown matched) =
    (if take n bs \<noteq> take n (drop matched H2_PREFACE) then (None, Http1)
     else if matched + n = 24 then (d, Http2 no_frame) else (d, Unknown (matched + n)))"
  using assms
proof (induction n arbitrary: bs matched)
  case (Suc n)
  then obtain b bs' where bs: "bs = b # bs'" by (cases bs) auto
  have dr: "drop matched H2_PREFACE = H2_PREFACE ! matched # drop (Suc matched) H2_PREFACE"
    using Suc.prems(3) by (simp add: Cons_nth_drop_Suc)
  show ?case
  proof (cases "H2_PREFACE ! matched = b")
    case False
    then show ?thesis by (simp add: bs dr feeds_Http1)
  next
    case True
    show ?thesis
    proof (cases "Suc matched = 24")
      case True
      with Suc.prems(2) have "n = 0" by simp
      have "drop (Suc matched) H2_PREFACE = []" using True by simp
      then have "drop matched H2_PREFACE = [b]"
        using dr \<open>H2_PREFACE ! matched = b\<close> by simp
      then show ?thesis
        using \<open>n = 0\<close> True \<open>H2_PREFACE ! matched = b\<close> unfolding bs by simp
    next
      case False
      with Suc.prems Suc.IH [of bs' "Suc matched"] True bs dr show ?thesis by auto
    qed
  qed
qed simp

lemma feeds_payload:
  assumes "n \<le> length bs" "n < payload_left fr" "length (fr_header fr) = FRAME_HEADER_LEN"
  shows "feeds now timeout (take n bs) (d, Http2 fr) = (d, Http2 (fr\<lparr>payload_left := payload_left fr - n\<rparr>))"
  using assms
proof (induction n arbitrary: bs fr)
  case (Suc n)
  then obtain b bs' where bs: "bs = b # bs'" by (cases bs) auto
  have "feed now timeout b (d, Http2 fr) = (d, Http2 (fr\<lparr>payload_left := payload_left fr - 1\<rparr>))"
    using Suc.prems by (simp add: feed_frame_def Let_def)
  with Suc.prems Suc.IH [of bs' "fr\<lparr>payload_left := payload_left fr - 1\<rparr>"] bs show ?case by simp
qed simp

lemma feeds_read_payload:
  assumes "length (fr_header fr) = FRAME_HEADER_LEN" "0 < payload_left fr" "read_payload bs fr d = (bs', fr', d')"
  shows "feeds now timeout bs (d, Http2 fr) = feeds now timeout bs' (d', Http2 fr')"
proof (cases "length bs < payload_left fr")
  case True
  with feeds_payload [of "length bs" bs fr now timeout d] assms show ?thesis
    by (auto simp: read_payload_def Let_def)
next
  case False
  let ?n = "payload_left fr"
  have split: "bs = take (?n - 1) bs @ bs ! (?n - 1) # drop ?n bs"
    using False assms(2) by (metis One_nat_def Suc_pred id_take_nth_drop le_neq_implies_less linorder_not_less nat_less_le diff_Suc_less less_le_trans)
  have "feeds now timeout bs (d, Http2 fr) =
      feeds now timeout (bs ! (?n - 1) # drop ?n bs) (d, Http2 (fr\<lparr>payload_left := 1\<rparr>))"
    using feeds_payload [of "?n - 1" bs fr now timeout d] False assms(1,2)
    by (subst split) (simp add: Suc_diff_le)
  also have "\<dots> = feeds now timeout (drop ?n bs)
      (if ends_headers fr then None else d, Http2 (fr\<lparr>payload_left := 0, fr_header := []\<rparr>))"
    using assms(1) by (simp add: feed_frame_def Let_def)
  finally show ?thesis
    using assms(3) False by (auto simp: read_payload_def Let_def min_absorb2)
qed

lemma feeds_header:
  assumes "n \<le> length bs" "length (fr_header fr) + n < FRAME_HEADER_LEN"
  shows "feeds now timeout (take n bs) (d, Http2 fr) = (d, Http2 (fr\<lparr>fr_header := fr_header fr @ take n bs\<rparr>))"
  using assms
proof (induction n arbitrary: bs fr)
  case (Suc n)
  then obtain b bs' where bs: "bs = b # bs'" by (cases bs) auto
  with Suc.prems Suc.IH [of bs' "fr\<lparr>fr_header := fr_header fr @ [b]\<rparr>"] show ?case
    by (simp add: feed_frame_def Let_def)
qed simp

lemma start_frame_sel:
  "start_frame now timeout header d = (fr, d') \<Longrightarrow> fr_header fr = header"
  by (auto simp: start_frame_def Let_def)

text \<open>The byte which completes a frame header.\<close>

lemma feeds_complete_header:
  assumes "length (fr_header fr) < FRAME_HEADER_LEN" "FRAME_HEADER_LEN - length (fr_header fr) \<le> length bs"
    and "start_frame now timeout (fr_header fr @ take (FRAME_HEADER_LEN - length (fr_header fr)) bs) d = (fr1, d1)"
    and "read_payload (drop (FRAME_HEADER_LEN - length (fr_header fr)) bs) fr1 d1 = (bs2, fr2, d2)"
  shows "feeds now timeout bs (d, Http2 fr) = feeds now timeout bs2 (d2, Http2 fr2)"
proof -
  let ?n = "FRAME_HEADER_LEN - length (fr_header fr)"
  have n: "0 < ?n" "?n - 1 < length bs" using assms(1,2) by auto
  have split: "bs = take (?n - 1) bs @ bs ! (?n - 1) # drop ?n bs"
    using id_take_nth_drop [OF n(2)] unfolding Suc_pred' [OF n(1), symmetric] Suc_diff_1 [OF n(1)] .
  have last: "take (?n - 1) bs @ [bs ! (?n - 1)] = take ?n bs"
    using take_Suc_conv_app_nth [OF n(2), symmetric] unfolding Suc_diff_1 [OF n(1)] .
  have h1: "length fr1_h = FRAME_HEADER_LEN" if "fr1_h = fr_header fr1" for fr1_h
    using start_frame_sel [OF assms(3)] assms(1,2) that by simp
  have "feeds now timeout bs (d, Http2 fr) = feeds now timeout (bs ! (?n - 1) # drop ?n bs)
      (d, Http2 (fr\<lparr>fr_header := fr_header fr @ take (?n - 1) bs\<rparr>))"
    using feeds_header [of "?n - 1" bs fr now timeout d] n assms(1) by (subst split) simp
  also have "\<dots> = feeds now timeout (drop ?n bs)
      (if payload_left fr1 = 0 then (if ends_headers fr1 then None else d1, Http2 (fr1\<lparr>fr_header := []\<rparr>))
       else (d1, Http2 fr1))"
    using assms(1-3) n last by (simp add: feed_frame_def Let_def)
  also have "\<dots> = feeds now timeout bs2 (d2, Http2 fr2)"
  proof (cases "payload_left fr1 = 0")
    case True
    then show ?thesis using assms(4) by (cases fr1) (auto simp: read_payload_def Let_def)
  next
    case False
    then show ?thesis using feeds_read_payload [OF h1 [OF refl] _ assms(4)] by simp
  qed
  finally show ?thesis .
qed

lemma read_payload_ok:
  "length (fr_header fr) = FRAME_HEADER_LEN \<Longrightarrow> read_payload bs fr d = (bs', fr', d') \<Longrightarrow>
   protocol_ok (Http2 fr')"
  by (auto simp: read_payload_def Let_def FRAME_HEADER_LEN_def split: if_splits)

text \<open>The loop over pieces is the byte by byte reference.\<close>

lemma follow_feeds: "protocol_ok p \<Longrightarrow> follow now timeout bs d p = feeds now timeout bs (d, p)"
proof (induction now timeout bs d p rule: follow.induct)
  case (1 now timeout bs d p)
  show ?case
  proof (cases "bs = []")
    case True
    then show ?thesis by (simp add: follow.simps)
  next
    case ne: False
    show ?thesis
    proof (cases p)
      case Http1
      then show ?thesis using ne by (simp add: follow.simps feeds_Http1)
    next
      case (Unknown matched)
      define len where "len = min (length bs) (24 - matched)"
      have m: "matched < 24" using 1(4) Unknown by simp
      have A: "feeds now timeout bs (d, p) = feeds now timeout (drop len bs) (feeds now timeout (take len bs) (d, p))"
        by (metis append_take_drop_id comp_apply fold_append)
      have B: "feeds now timeout (take len bs) (d, p) =
          (if take len bs \<noteq> take len (drop matched H2_PREFACE) then (None, Http1)
           else if matched + len = 24 then (d, Http2 no_frame) else (d, Unknown (matched + len)))"
        unfolding Unknown by (rule feeds_preface) (use m in \<open>auto simp: len_def\<close>)
      show ?thesis
      proof (cases "take len bs = take len (drop matched H2_PREFACE)")
        case False
        then show ?thesis using ne m Unknown A B
          by (simp add: follow.simps [of _ _ bs] Let_def feeds_Http1 flip: len_def)
      next
        case True
        have ok: "protocol_ok (if matched + len = length H2_PREFACE then Http2 no_frame else Unknown (matched + len))"
          using m by (auto simp: len_def no_frame_def FRAME_HEADER_LEN_def)
        have "follow now timeout bs d p = follow now timeout (drop len bs) d
            (if matched + len = length H2_PREFACE then Http2 no_frame else Unknown (matched + len))"
          using ne m Unknown True by (simp add: follow.simps [of _ _ bs] Let_def flip: len_def)
        with A B True 1(1) [OF ne Unknown refl, of len] ok m show ?thesis by (simp add: len_def)
      qed
    next
      case (Http2 fr)
      show ?thesis
      proof (cases "length (fr_header fr) < FRAME_HEADER_LEN")
        case short: True
        let ?n = "FRAME_HEADER_LEN - length (fr_header fr)"
        show ?thesis
        proof (cases "length bs < ?n")
          case True
          then have "length (fr_header fr) + length bs < FRAME_HEADER_LEN" by simp
          then show ?thesis
            using ne Http2 short feeds_header [of "length bs" bs fr now timeout d]
            by (simp add: follow.simps [of _ _ bs] Let_def)
        next
          case False
          obtain fr1 d1 where s: "start_frame now timeout (fr_header fr @ take ?n bs) d = (fr1, d1)"
            by fastforce
          obtain bs2 fr2 d2 where r: "read_payload (drop ?n bs) fr1 d1 = (bs2, fr2, d2)"
            by (metis prod_cases3)
          have min: "min (length bs) ?n = ?n" using False by simp
          have "length (fr_header fr1) = FRAME_HEADER_LEN"
            using start_frame_sel [OF s] short False by simp
          then have ok: "protocol_ok (Http2 fr2)" using r by (rule read_payload_ok)
          have "follow now timeout bs d p = follow now timeout bs2 d2 (Http2 fr2)"
            using ne Http2 short False s r by (simp add: follow.simps [of _ _ bs] Let_def min)
          also have "\<dots> = feeds now timeout bs2 (d2, Http2 fr2)"
            using 1(2) [OF ne Http2 short min [symmetric] refl _ s [symmetric] r [symmetric] refl ok]
              short False by simp
          finally show ?thesis
            using feeds_complete_header [OF short _ s r] False Http2 by simp
        qed
      next
        case full: False
        then have h: "length (fr_header fr) = FRAME_HEADER_LEN" "0 < payload_left fr"
          using 1(4) Http2 by auto
        obtain bs2 fr2 d2 where r: "read_payload bs fr d = (bs2, fr2, d2)" by (metis prod_cases3)
        have "follow now timeout bs d p = follow now timeout bs2 d2 (Http2 fr2)"
          using ne Http2 full r by (simp add: follow.simps [of _ _ bs] Let_def)
        also have "\<dots> = feeds now timeout bs2 (d2, Http2 fr2)"
          using 1(3) [OF ne Http2 full r [symmetric] refl read_payload_ok [OF h(1) r]] .
        finally show ?thesis using feeds_read_payload [OF h r] Http2 by simp
      qed
    qed
  qed
qed

section \<open>What the deadline depends on\<close>

lemma protocol_ok_feeds: "protocol_ok p \<Longrightarrow> protocol_ok (snd (feeds now timeout bs (d, p)))"
proof (induction bs arbitrary: d p)
  case (Cons b bs)
  obtain d' p' where f: "feed now timeout b (d, p) = (d', p')" by fastforce
  then have "protocol_ok p'" using protocol_ok_feed [OF Cons.prems, of now timeout b d] by simp
  with Cons.IH f show ?case by simp
qed simp

lemma on_read_feeds:
  assumes "protocol_ok (ht_protocol h)" "ht_timeout h = Some timeout"
  shows "on_read now bs h =
    (case feeds now timeout bs (ht_deadline h, ht_protocol h) of
       (d, p) \<Rightarrow> h\<lparr>ht_deadline := d, ht_protocol := p\<rparr>)"
  using assms by (simp add: on_read_def follow_feeds)

lemma on_read_ok:
  assumes "protocol_ok (ht_protocol h)"
  shows "protocol_ok (ht_protocol (on_read now bs h))" "ht_timeout (on_read now bs h) = ht_timeout h"
proof -
  have "protocol_ok (ht_protocol (on_read now bs h)) \<and> ht_timeout (on_read now bs h) = ht_timeout h"
  proof (cases "ht_timeout h")
    case (Some timeout)
    with on_read_feeds [OF assms Some, of now bs]
      protocol_ok_feeds [OF assms, of now timeout bs "ht_deadline h"] show ?thesis
      by (auto split: prod.splits)
  qed (simp add: on_read_def assms)
  then show "protocol_ok (ht_protocol (on_read now bs h))" "ht_timeout (on_read now bs h) = ht_timeout h"
    by blast+
qed

lemma on_read_append:
  assumes "protocol_ok (ht_protocol h)"
  shows "on_read now (as @ bs) h = on_read now bs (on_read now as h)"
proof (cases "ht_timeout h")
  case (Some timeout)
  show ?thesis
    using on_read_feeds [OF assms Some] on_read_feeds [OF on_read_ok(1) [OF assms], where timeout = timeout]
      on_read_ok(2) [OF assms] Some
    by (simp split: prod.splits)
qed (simp add: on_read_def)

lemma new_timeout_ok [simp]: "protocol_ok (ht_protocol (new_timeout timeout t0))"
  by (simp add: new_timeout_def)

text \<open>
  How the bytes of a client are cut into reads does not matter: reading them in any pieces
  leaves the connection in the state that reading them at once does.
\<close>

theorem header_timeout_chunking:
  "fold (on_read now) pieces (new_timeout timeout t0) = on_read now (concat pieces) (new_timeout timeout t0)"
proof -
  have "protocol_ok (ht_protocol h) \<Longrightarrow> fold (on_read now) pieces h = on_read now (concat pieces) h" for h
  proof (induction pieces arbitrary: h)
    case Nil
    show ?case by (cases "ht_timeout h") (simp_all add: on_read_def follow.simps)
  next
    case (Cons bs pieces)
    then show ?case by (simp add: on_read_append on_read_ok(1))
  qed
  then show ?thesis by simp
qed

section \<open>Whole frames\<close>

record h2_frame =
  f_kind :: octet
  f_flags :: octet
  f_stream :: "octet list"
  f_payload :: "octet list"

definition frame_ok :: "h2_frame \<Rightarrow> bool" where
  "frame_ok f \<longleftrightarrow> length (f_stream f) = 4 \<and> length (f_payload f) < 2 ^ 24"

definition frame_head :: "h2_frame \<Rightarrow> octet list" where
  "frame_head f = (let n = length (f_payload f) in
     [of_nat (n div 65536), of_nat (n div 256), of_nat n, f_kind f, f_flags f] @ f_stream f)"

definition frame_bytes :: "h2_frame \<Rightarrow> octet list" where
  "frame_bytes f = frame_head f @ f_payload f"

definition frame_ends_headers :: "h2_frame \<Rightarrow> bool" where
  "frame_ends_headers f \<longleftrightarrow> f_kind f \<in> {HEADERS, CONTINUATION} \<and> f_flags f AND END_HEADERS \<noteq> 0"

text \<open>The client owes headers from the start and from every HEADERS frame until the block ends.\<close>

definition owes_headers :: "h2_frame list \<Rightarrow> bool" where
  "owes_headers fs = fold (\<lambda>f owed. (owed \<or> f_kind f = HEADERS) \<and> \<not> frame_ends_headers f) fs True"

lemma be24_length:
  assumes "n < 2 ^ 24"
  shows "be24 (of_nat (n div 65536)) (of_nat (n div 256)) (of_nat n) = n"
proof -
  have "n div 65536 mod 256 = n div 65536" using assms by (simp add: less_mult_imp_div_less)
  moreover have "n = (n div 256 div 256 * 256 + n div 256 mod 256) * 256 + n mod 256"
    by (simp only: div_mult_mod_eq)
  moreover have "n div 256 div 256 = n div 65536" by (simp add: div_mult2_eq [symmetric])
  ultimately show ?thesis by (simp add: be24_def unat_of_nat take_bit_eq_mod)
qed

lemma length_frame_head: "frame_ok f \<Longrightarrow> length (frame_head f) = FRAME_HEADER_LEN"
  by (simp add: frame_ok_def frame_head_def FRAME_HEADER_LEN_def Let_def)

definition started :: "h2_frame \<Rightarrow> frames" where
  "started f = \<lparr>fr_header = frame_head f, payload_left = length (f_payload f),
     ends_headers = frame_ends_headers f\<rparr>"

lemma start_frame_head:
  assumes "frame_ok f"
  shows "start_frame now timeout (frame_head f) d =
    (started f, if f_kind f = HEADERS \<and> d = None then Some (now + timeout) else d)"
proof -
  have "be24 (frame_head f ! 0) (frame_head f ! 1) (frame_head f ! 2) = length (f_payload f)"
    using be24_length [of "length (f_payload f)"] assms by (simp add: frame_ok_def frame_head_def Let_def)
  then show ?thesis
    by (simp add: start_frame_def Let_def started_def frame_ends_headers_def)
      (simp add: frame_head_def Let_def)
qed

text \<open>A frame as a whole, from between two frames to between two frames.\<close>

lemma feeds_frame:
  assumes f: "frame_ok f" and fr: "fr_header fr = []"
  shows "\<exists>fr'. fr_header fr' = [] \<and> feeds now timeout (frame_bytes f @ bs) (d, Http2 fr) =
    feeds now timeout bs
      (if frame_ends_headers f then None
       else if f_kind f = HEADERS \<and> d = None then Some (now + timeout) else d, Http2 fr')"
proof -
  note len = length_frame_head [OF f]
  obtain bs2 fr2 d2 where r: "read_payload (f_payload f @ bs) (started f)
      (if f_kind f = HEADERS \<and> d = None then Some (now + timeout) else d) = (bs2, fr2, d2)"
    by (metis prod_cases3)
  have "feeds now timeout (frame_bytes f @ bs) (d, Http2 fr) = feeds now timeout bs2 (d2, Http2 fr2)"
    by (rule feeds_complete_header [where ?fr1.0 = "started f"])
      (use len fr r f in \<open>auto simp: frame_bytes_def start_frame_head FRAME_HEADER_LEN_def\<close>)
  moreover have "bs2 = bs" "fr_header fr2 = []" "d2 = (if frame_ends_headers f then None
       else if f_kind f = HEADERS \<and> d = None then Some (now + timeout) else d)"
    using r by (auto simp: read_payload_def started_def Let_def)
  ultimately show ?thesis by auto
qed

lemma feeds_H2_PREFACE: "feeds now timeout H2_PREFACE (d, Unknown 0) = (d, Http2 no_frame)"
  using feeds_preface [of 24 H2_PREFACE 0 now timeout d] by simp

lemma on_read_new:
  "ht_deadline (on_read now bs (new_timeout (Some timeout) t0)) =
   fst (feeds now timeout bs (Some (t0 + timeout), Unknown 0))"
  using on_read_feeds [of "new_timeout (Some timeout) t0" timeout now bs]
  by (simp add: new_timeout_def split: prod.splits)

lemma feeds_frames_owed:
  assumes "\<forall>f \<in> set fs. frame_ok f" "fr_header fr = []"
  shows "fst (feeds now timeout (concat (map frame_bytes fs)) (d, Http2 fr)) \<noteq> None \<longleftrightarrow>
    fold (\<lambda>f owed. (owed \<or> f_kind f = HEADERS) \<and> \<not> frame_ends_headers f) fs (d \<noteq> None)"
  using assms
proof (induction fs arbitrary: d fr)
  case (Cons f fs)
  obtain fr' where fr': "fr_header fr' = []"
    "feeds now timeout (frame_bytes f @ concat (map frame_bytes fs)) (d, Http2 fr) =
      feeds now timeout (concat (map frame_bytes fs))
      (if frame_ends_headers f then None
       else if f_kind f = HEADERS \<and> d = None then Some (now + timeout) else d, Http2 fr')"
    using feeds_frame [of f fr now timeout "concat (map frame_bytes fs)" d] Cons.prems by auto
  show ?case
    unfolding list.map concat.simps fr'(2) using Cons.IH [OF _ fr'(1)] Cons.prems
    by (auto split: if_splits)
qed simp

text \<open>
  On an http/2 connection a deadline runs exactly while the client owes the headers of a
  request: from the start until the first header block arrived whole, and from each later HEADERS
  frame until its block did. Frames of other types change nothing.
\<close>

theorem deadline_iff_headers_owed:
  assumes "\<forall>f \<in> set fs. frame_ok f"
  shows "ht_deadline (on_read now (H2_PREFACE @ concat (map frame_bytes fs)) (new_timeout (Some timeout) t0)) \<noteq> None
    \<longleftrightarrow> owes_headers fs"
  using feeds_frames_owed [OF assms, of no_frame now timeout "Some (t0 + timeout)"]
  by (simp add: on_read_new feeds_H2_PREFACE owes_headers_def no_frame_def)

definition demo_ping :: h2_frame where
  "demo_ping = \<lparr>f_kind = 6, f_flags = 0, f_stream = [0, 0, 0, 0], f_payload = [1, 2, 3, 4, 5, 6, 7, 8]\<rparr>"

definition demo_header_frame :: "octet \<Rightarrow> h2_frame" where
  "demo_header_frame flags = \<lparr>f_kind = HEADERS, f_flags = flags, f_stream = [0, 0, 0, 1], f_payload = [9, 9]\<rparr>"

lemma deadline_iff_headers_owed_witness:
  "ht_deadline (on_read 5 (H2_PREFACE @ concat (map frame_bytes [demo_ping])) (new_timeout (Some 30) 0)) \<noteq> None \<and>
   ht_deadline (on_read 5 (H2_PREFACE @ concat (map frame_bytes [demo_ping, demo_header_frame 4])) (new_timeout (Some 30) 0)) = None"
proof -
  have "owes_headers [demo_ping]" "\<not> owes_headers [demo_ping, demo_header_frame 4]"
    by (simp_all add: owes_headers_def frame_ends_headers_def demo_ping_def demo_header_frame_def
        HEADERS_def CONTINUATION_def END_HEADERS_def)
  moreover have "frame_ok demo_ping" "frame_ok (demo_header_frame 4)"
    by (simp_all add: frame_ok_def demo_ping_def demo_header_frame_def)
  ultimately show ?thesis
    using deadline_iff_headers_owed [of "[demo_ping]" 5 30 0]
      deadline_iff_headers_owed [of "[demo_ping, demo_header_frame 4]" 5 30 0] by simp
qed

section \<open>Slow clients\<close>

lemma feeds_part_of_frame:
  assumes f: "frame_ok f" "\<not> frame_ends_headers f" and fr: "fr_header fr = []"
    and bs: "strict_prefix bs (frame_bytes f)"
  shows "fst (feeds now timeout bs (Some dl, Http2 fr)) = Some dl"
proof (cases "length bs < FRAME_HEADER_LEN")
  case True
  then show ?thesis using feeds_header [of "length bs" bs fr now timeout "Some dl"] fr by simp
next
  case False
  note len = length_frame_head [OF f(1)]
  have take: "take FRAME_HEADER_LEN bs = frame_head f"
    using bs len False by (auto simp: strict_prefix_def prefix_def frame_bytes_def append_eq_append_conv_if
        split: if_splits)
  have short: "length (drop FRAME_HEADER_LEN bs) < length (f_payload f)"
    using bs len False prefix_length_less [OF bs] by (simp add: frame_bytes_def)
  obtain bs2 fr2 d2 where r: "read_payload (drop FRAME_HEADER_LEN bs) (started f) (Some dl) = (bs2, fr2, d2)"
    by (metis prod_cases3)
  then have r': "bs2 = []" "d2 = Some dl" using short by (auto simp: read_payload_def started_def Let_def)
  have "feeds now timeout bs (Some dl, Http2 fr) = feeds now timeout bs2 (d2, Http2 fr2)"
    by (rule feeds_complete_header [where ?fr1.0 = "started f"])
      (use False fr r take f in \<open>auto simp: start_frame_head FRAME_HEADER_LEN_def\<close>)
  with r' show ?thesis by simp
qed

lemma feeds_part_of_frames:
  assumes "\<forall>f \<in> set fs. frame_ok f \<and> \<not> frame_ends_headers f" "fr_header fr = []"
    and "prefix bs (concat (map frame_bytes fs))"
  shows "fst (feeds now timeout bs (Some dl, Http2 fr)) = Some dl"
  using assms
proof (induction fs arbitrary: bs fr)
  case (Cons f fs)
  consider bs' where "bs = frame_bytes f @ bs'" "prefix bs' (concat (map frame_bytes fs))"
    | "strict_prefix bs (frame_bytes f)"
  proof (cases "bs = frame_bytes f")
    case True
    with that(1) [of "[]"] show ?thesis by simp
  qed (use Cons.prems(3) that in \<open>auto simp: prefix_append strict_prefix_def\<close>)
  then show ?case
  proof cases
    case 1
    obtain fr' where "fr_header fr' = []"
      "feeds now timeout (frame_bytes f @ bs') (Some dl, Http2 fr) = feeds now timeout bs' (Some dl, Http2 fr')"
      using feeds_frame [of f fr now timeout bs' "Some dl"] Cons.prems(1,2) by auto
    with Cons.IH [of fr' bs'] Cons.prems(1) 1 show ?thesis by simp
  next
    case 2
    with Cons.prems feeds_part_of_frame [of f fr bs] show ?thesis by simp
  qed
qed simp

lemma feeds_part_of_stream:
  assumes "\<forall>f \<in> set fs. frame_ok f \<and> \<not> frame_ends_headers f"
    and "prefix bs (H2_PREFACE @ concat (map frame_bytes fs))"
  shows "fst (feeds now timeout bs (Some dl, Unknown 0)) = Some dl"
proof -
  consider bs' where "bs = H2_PREFACE @ bs'" "prefix bs' (concat (map frame_bytes fs))" | "prefix bs H2_PREFACE"
    using assms(2) by (auto simp: prefix_append)
  then show ?thesis
  proof cases
    case 1
    with feeds_part_of_frames [OF assms(1), of no_frame bs'] show ?thesis
      by (simp add: feeds_H2_PREFACE no_frame_def)
  next
    case 2
    have "length bs \<le> 24" using prefix_length_le [OF 2] by simp
    moreover have "bs = take (length bs) H2_PREFACE" using 2 by (metis append_eq_conv_conj prefix_def)
    ultimately show ?thesis
      using feeds_preface [of "length bs" bs 0 now timeout "Some dl"] by auto
  qed
qed

text \<open>While a deadline runs, the time of a read plays no part.\<close>

lemma feed_now: "feed now timeout b (Some dl, p) = feed now' timeout b (Some dl, p)"
  by (cases p) (simp_all add: feed_frame_def start_frame_def Let_def)

lemma feeds_now:
  assumes "\<And>q. prefix q bs \<Longrightarrow> fst (feeds now timeout q (Some dl, p)) = Some dl"
  shows "feeds now' timeout bs (Some dl, p) = feeds now timeout bs (Some dl, p)"
  using assms
proof (induction bs rule: rev_induct)
  case (snoc b bs)
  then have "feeds now' timeout bs (Some dl, p) = feeds now timeout bs (Some dl, p)" by simp
  moreover obtain p' where "feeds now timeout bs (Some dl, p) = (Some dl, p')"
    using snoc.prems [of bs] by (cases "feeds now timeout bs (Some dl, p)") auto
  ultimately show ?case using feed_now [of now' timeout b dl p' now] by simp
qed simp

text \<open>Reads of a part of such a stream leave the deadline where it was set.\<close>

lemma slow_client_deadline:
  assumes "\<forall>f \<in> set fs. frame_ok f \<and> \<not> frame_ends_headers f"
    and "prefix (concat (map snd reads)) (H2_PREFACE @ concat (map frame_bytes fs))"
  shows "ht_deadline (fold (\<lambda>(t, bs). on_read t bs) reads (new_timeout (Some timeout) t0)) =
    Some (t0 + timeout)"
proof -
  let ?dl = "t0 + timeout" and ?h0 = "new_timeout (Some timeout) t0"
  let ?all = "H2_PREFACE @ concat (map frame_bytes fs)"
  have keep: "fst (feeds t timeout q (Some ?dl, Unknown 0)) = Some ?dl" if "prefix q ?all" for t q
    using assms(1) that by (rule feeds_part_of_stream)
  have "prefix (concat (map snd rs)) ?all \<Longrightarrow> fold (\<lambda>(t, bs). on_read t bs) rs ?h0 =
      (case feeds 0 timeout (concat (map snd rs)) (Some ?dl, Unknown 0) of
         (d, p) \<Rightarrow> ?h0\<lparr>ht_deadline := d, ht_protocol := p\<rparr>)" for rs
  proof (induction rs rule: rev_induct)
    case (snoc r rs)
    obtain t bs where r: "r = (t, bs)" by fastforce
    let ?pre = "concat (map snd rs)"
    have pre: "prefix ?pre ?all" using snoc.prems by (auto intro: append_prefixD)
    obtain p where p: "feeds 0 timeout ?pre (Some ?dl, Unknown 0) = (Some ?dl, p)"
      using keep [OF pre, of 0] by (cases "feeds 0 timeout ?pre (Some ?dl, Unknown 0)") auto
    then have ok: "protocol_ok p"
      using protocol_ok_feeds [of "Unknown 0" 0 timeout ?pre "Some ?dl"] by simp
    have "feeds t timeout bs (Some ?dl, p) = feeds 0 timeout bs (Some ?dl, p)"
    proof (rule feeds_now)
      fix q assume "prefix q bs"
      then have "prefix (?pre @ q) ?all" using snoc.prems r by (auto simp: prefix_def)
      from keep [OF this, of 0] p show "fst (feeds 0 timeout q (Some ?dl, p)) = Some ?dl" by simp
    qed
    with snoc.IH [OF pre] p r ok show ?case
      using on_read_feeds [of "?h0\<lparr>ht_deadline := Some ?dl, ht_protocol := p\<rparr>" timeout t bs]
      by (simp add: new_timeout_def split: prod.splits)
  qed (simp add: new_timeout_def)
  from this [OF assms(2)] keep [OF assms(2), of 0] show ?thesis by (auto split: prod.splits)
qed

text \<open>
  C3: A client cannot hold a connection open without sending a request: whatever http/2 frames
  that end no header block it sends, in whatever pieces and at whatever times, the deadline stays
  the one set when the connection was accepted, and once it passed every read fails: one which
  waits, one which finds the stream ended, and one which has further bytes of such frames, which
  are taken in first. A read which fails by itself fails with its own error.
\<close>

theorem slow_client_times_out:
  assumes "\<forall>f \<in> set fs. frame_ok f \<and> \<not> frame_ends_headers f"
    and "prefix (concat (map snd reads) @ (case r of Some (Inr bs) \<Rightarrow> bs | _ \<Rightarrow> []))
      (H2_PREFACE @ concat (map frame_bytes fs))"
    and "h = fold (\<lambda>(t, bs). on_read t bs) reads (new_timeout (Some timeout) t0)" "t0 + timeout \<le> now"
  shows "ht_deadline h = Some (t0 + timeout) \<and>
    fst (poll_read now r h) = Some (Inl (case r of Some (Inl e) \<Rightarrow> e | _ \<Rightarrow> Timed_Out))"
proof -
  let ?bs = "case r of Some (Inr bs) \<Rightarrow> bs | _ \<Rightarrow> []"
  have dl: "ht_deadline h = Some (t0 + timeout)"
    unfolding assms(3) using assms(1) append_prefixD [OF assms(2)] by (rule slow_client_deadline)
  have "ht_deadline (on_read now ?bs h) = Some (t0 + timeout)"
    using slow_client_deadline [of fs "reads @ [(now, ?bs)]" timeout t0] assms(1-3) by simp
  with dl assms(4) show ?thesis
    by (auto simp: poll_read_def expired_def Let_def split: option.splits sum.splits)
qed

lemma slow_client_times_out_witness:
  "\<exists>h. h = fold (\<lambda>(t, bs). on_read t bs) [(1, H2_PREFACE), (10, frame_bytes demo_ping)] (new_timeout (Some 30) 0) \<and>
     fst (poll_read 31 (Some (Inr (frame_bytes demo_ping))) h) = Some (Inl Timed_Out) \<and>
     fst (poll_read 29 (Some (Inr (frame_bytes demo_ping))) h) = Some (Inr (frame_bytes demo_ping))"
proof -
  let ?reads = "[(1, H2_PREFACE), (10, frame_bytes demo_ping)] :: (instant \<times> octet list) list"
  let ?h = "fold (\<lambda>(t, bs). on_read t bs) ?reads (new_timeout (Some 30) 0)"
  have ping: "\<forall>f \<in> set [demo_ping, demo_ping]. frame_ok f \<and> \<not> frame_ends_headers f"
    by (simp add: frame_ok_def frame_ends_headers_def demo_ping_def HEADERS_def CONTINUATION_def)
  have "fst (poll_read 31 (Some (Inr (frame_bytes demo_ping))) ?h) = Some (Inl Timed_Out)"
    using slow_client_times_out [of "[demo_ping, demo_ping]" ?reads "Some (Inr (frame_bytes demo_ping))" _ 30 0 31,
        OF ping _ refl] by simp
  moreover have "ht_deadline (on_read 29 (frame_bytes demo_ping) ?h) = Some (0 + 30)"
    using slow_client_deadline [OF ping, of "?reads @ [(29, frame_bytes demo_ping)]" 30 0] by simp
  then have "fst (poll_read 29 (Some (Inr (frame_bytes demo_ping))) ?h) = Some (Inr (frame_bytes demo_ping))"
    by (simp add: poll_read_def expired_def Let_def)
  ultimately show ?thesis by blast
qed

end
