(* ===== verification/SessionStore.thy ===== *)
theory SessionStore
  imports Net
begin

text \<open>
  The in memory session store, \<^verbatim>\<open>crates/server/src/session.rs\<close>. Every operation is one
  section under the store's lock. \<open>OffsetDateTime\<close> (when sessions expire) is an integer,
  \<open>Instant\<close> (when the store was swept last) as elsewhere; both are passed to each operation. The
  map is the list of its records in its iteration order; the id of a record is its key.
\<close>

section \<open>The store\<close>

record ('i, 'd) session_record =
  sess_id :: 'i
  sess_expiry :: int
  sess_data :: 'd

record ('i, 'd) memory_store =
  records :: "('i, 'd) session_record list"
  max_sessions :: nat
  sweep_interval :: duration
  last_sweep :: instant

definition DEFAULT_MAX_SESSIONS :: nat where "DEFAULT_MAX_SESSIONS = 10000"
definition SWEEP_INTERVAL :: duration where "SWEEP_INTERVAL = secs 60"

definition with_sweep_interval :: "nat \<Rightarrow> duration \<Rightarrow> instant \<Rightarrow> ('i, 'd) memory_store" where
  "with_sweep_interval n interval t =
     \<lparr>records = [], max_sessions = max n 1, sweep_interval = interval, last_sweep = t\<rparr>"

definition new_store :: "nat \<Rightarrow> instant \<Rightarrow> ('i, 'd) memory_store" where
  "new_store n t = with_sweep_interval n SWEEP_INTERVAL t"

definition get_record :: "'i \<Rightarrow> ('i, 'd) memory_store \<Rightarrow> ('i, 'd) session_record option" where
  "get_record i s = List.find (\<lambda>r. sess_id r = i) (records s)"

definition remove_record :: "'i \<Rightarrow> ('i, 'd) memory_store \<Rightarrow> ('i, 'd) memory_store" where
  "remove_record i s = s\<lparr>records := filter (\<lambda>r. sess_id r \<noteq> i) (records s)\<rparr>"

definition insert_record ::
  "('i, 'd) session_record \<Rightarrow> ('i, 'd) memory_store \<Rightarrow> ('i, 'd) memory_store" where
  "insert_record r s = s\<lparr>records := r # filter (\<lambda>q. sess_id q \<noteq> sess_id r) (records s)\<rparr>"

definition is_active :: "('i, 'd) session_record \<Rightarrow> int \<Rightarrow> bool" where
  "is_active r now \<longleftrightarrow> now < sess_expiry r"

definition sweep :: "int \<Rightarrow> instant \<Rightarrow> ('i, 'd) memory_store \<Rightarrow> ('i, 'd) memory_store" where
  "sweep now t s = s\<lparr>records := filter (\<lambda>r. is_active r now) (records s), last_sweep := t\<rparr>"

definition maybe_sweep :: "int \<Rightarrow> instant \<Rightarrow> ('i, 'd) memory_store \<Rightarrow> ('i, 'd) memory_store" where
  "maybe_sweep now t s = (if sweep_interval s \<le> t - last_sweep s then sweep now t s else s)"

text \<open>
  The records which go: \<open>select_nth_unstable_by_key\<close> leaves the order of equal expiries open,
  which is here that of the map.
\<close>

definition evict_count :: "('i, 'd) memory_store \<Rightarrow> nat" where
  "evict_count s = (let excess = Suc (length (records s)) - max_sessions s in
     if excess = 0 then 0
     else min (max excess (max_sessions s div 10)) (length (records s)))"

definition evict_ids :: "('i, 'd) memory_store \<Rightarrow> 'i list" where
  "evict_ids s = (let count = evict_count s in
     map sess_id (take count
       (if count < length (records s) then sort_key sess_expiry (records s) else records s)))"

definition session_make_room :: "int \<Rightarrow> instant \<Rightarrow> ('i, 'd) memory_store \<Rightarrow> ('i, 'd) memory_store" where
  "session_make_room now t s =
     (if length (records s) < max_sessions s then s
      else let s = sweep now t s in
        s\<lparr>records := filter (\<lambda>r. sess_id r \<notin> set (evict_ids s)) (records s)\<rparr>)"

text \<open>
  The collision loop draws ids until one is free; \<open>None\<close> when the given draws run out first.
\<close>

fun free_id :: "('i, 'd) memory_store \<Rightarrow> 'i \<Rightarrow> 'i list \<Rightarrow> 'i option" where
  "free_id s i ds = (if get_record i s = None then Some i
     else case ds of [] \<Rightarrow> None | d # ds \<Rightarrow> free_id s d ds)"

declare free_id.simps [simp del]

definition session_create ::
  "int \<Rightarrow> instant \<Rightarrow> 'i list \<Rightarrow> ('i, 'd) session_record \<Rightarrow> ('i, 'd) memory_store \<Rightarrow>
   (('i, 'd) session_record \<times> ('i, 'd) memory_store) option" where
  "session_create now t draws r s =
     (let s = session_make_room now t (maybe_sweep now t s) in
      map_option (\<lambda>i. let r = r\<lparr>sess_id := i\<rparr> in (r, insert_record r s)) (free_id s (sess_id r) draws))"

definition session_save ::
  "int \<Rightarrow> instant \<Rightarrow> ('i, 'd) session_record \<Rightarrow> ('i, 'd) memory_store \<Rightarrow> ('i, 'd) memory_store" where
  "session_save now t r s =
     (let s = maybe_sweep now t s;
          s = (if get_record (sess_id r) s = None then session_make_room now t s else s)
      in insert_record r s)"

definition session_load ::
  "int \<Rightarrow> 'i \<Rightarrow> ('i, 'd) memory_store \<Rightarrow> ('i, 'd) session_record option \<times> ('i, 'd) memory_store" where
  "session_load now i s = (case get_record i s of
     Some r \<Rightarrow> if is_active r now then (Some r, s) else (None, remove_record i s)
   | None \<Rightarrow> (None, s))"

definition session_delete :: "'i \<Rightarrow> ('i, 'd) memory_store \<Rightarrow> ('i, 'd) memory_store" where
  "session_delete i s = remove_record i s"

definition delete_expired :: "int \<Rightarrow> instant \<Rightarrow> ('i, 'd) memory_store \<Rightarrow> ('i, 'd) memory_store" where
  "delete_expired now t s = sweep now t s"

section \<open>The invariant\<close>

definition store_inv :: "('i, 'd) memory_store \<Rightarrow> bool" where
  "store_inv s \<longleftrightarrow> distinct (map sess_id (records s)) \<and> 1 \<le> max_sessions s \<and>
     length (records s) \<le> max_sessions s"

lemma get_record_Some:
  "distinct (map sess_id (records s)) \<Longrightarrow>
   get_record i s = Some r \<longleftrightarrow> r \<in> set (records s) \<and> sess_id r = i"
proof -
  have "distinct (map sess_id rs) \<Longrightarrow> List.find (\<lambda>r. sess_id r = i) rs = Some r \<longleftrightarrow>
      r \<in> set rs \<and> sess_id r = i" for rs :: "('a, 'b) session_record list"
    by (induction rs) auto
  then show "distinct (map sess_id (records s)) \<Longrightarrow> ?thesis" by (simp add: get_record_def)
qed

lemma get_record_None: "get_record i s = None \<longleftrightarrow> i \<notin> sess_id ` set (records s)"
  by (auto simp: get_record_def find_None_iff)

lemma max_sessions_ops [simp]:
  "max_sessions (sweep now t s) = max_sessions s"
  "max_sessions (maybe_sweep now t s) = max_sessions s"
  "max_sessions (insert_record r s) = max_sessions s"
  "max_sessions (remove_record i s) = max_sessions s"
  "max_sessions (session_make_room now t s) = max_sessions s"
  by (simp_all add: sweep_def maybe_sweep_def insert_record_def remove_record_def
      session_make_room_def Let_def)

lemma sweep_inv: "store_inv s \<Longrightarrow> store_inv (sweep now t s)"
  by (auto simp: store_inv_def sweep_def distinct_map_filter intro: order.trans [OF length_filter_le])

lemma maybe_sweep_inv: "store_inv s \<Longrightarrow> store_inv (maybe_sweep now t s)"
  by (simp add: maybe_sweep_def sweep_inv)

lemma remove_inv: "store_inv s \<Longrightarrow> store_inv (remove_record i s)"
  by (auto simp: store_inv_def remove_record_def distinct_map_filter intro: order.trans [OF length_filter_le])

lemma length_evict_ids: "length (evict_ids s) = evict_count s"
  by (auto simp: evict_ids_def evict_count_def Let_def)

lemma mset_take_sort: "set (take n (sort_key f xs)) \<subseteq> set xs"
  by (metis set_sort set_take_subset)

lemma distinct_evict_ids:
  assumes "distinct (map sess_id (records s))"
  shows "distinct (evict_ids s)" "set (evict_ids s) \<subseteq> sess_id ` set (records s)"
proof -
  have "distinct (map sess_id (sort_key sess_expiry (records s)))"
    using assms by (simp add: distinct_map)
  with assms show "distinct (evict_ids s)"
    by (simp add: evict_ids_def Let_def distinct_take flip: take_map)
  show "set (evict_ids s) \<subseteq> sess_id ` set (records s)"
    using mset_take_sort [of "evict_count s" sess_expiry "records s"]
    by (auto simp: evict_ids_def Let_def dest: in_set_takeD)
qed

text \<open>Making room leaves room for one more.\<close>

lemma length_filter_keys:
  assumes "distinct (map f xs)" "distinct ks" "set ks \<subseteq> f ` set xs"
  shows "length (filter (\<lambda>x. f x \<notin> set ks) xs) + length ks = length xs"
proof -
  have "length (filter (\<lambda>x. f x \<in> set ks) xs) = length ks"
  proof -
    have "length (filter (\<lambda>x. f x \<in> set ks) xs) = card (f ` set (filter (\<lambda>x. f x \<in> set ks) xs))"
      using assms(1) by (metis card_image distinct_card distinct_filter distinct_map inj_on_subset filter_is_subset)
    also have "f ` set (filter (\<lambda>x. f x \<in> set ks) xs) = set ks" using assms(3) by auto
    finally show ?thesis using assms(2) by (simp add: distinct_card)
  qed
  then show ?thesis using sum_length_filter_compl [of "\<lambda>x. f x \<in> set ks" xs] by simp
qed

lemma make_room_room:
  assumes "store_inv s"
  shows "store_inv (session_make_room now t s)"
    "length (records (session_make_room now t s)) < max_sessions s"
proof -
  define u where "u = sweep now t s"
  have u: "store_inv u" unfolding u_def using assms by (rule sweep_inv)
  then have d: "distinct (map sess_id (records u))" by (simp add: store_inv_def)
  have n: "length (filter (\<lambda>r. sess_id r \<notin> set (evict_ids u)) (records u)) + evict_count u = length (records u)"
    using length_filter_keys [OF d distinct_evict_ids [OF d]] by (simp add: length_evict_ids)
  have "length (records u) - evict_count u < max_sessions u"
    using u by (auto simp: store_inv_def evict_count_def Let_def)
  with n have less: "length (filter (\<lambda>r. sess_id r \<notin> set (evict_ids u)) (records u)) < max_sessions u"
    by linarith
  show "length (records (session_make_room now t s)) < max_sessions s"
    using less by (simp add: session_make_room_def Let_def u_def)
  then show "store_inv (session_make_room now t s)"
    using assms d by (auto simp: store_inv_def session_make_room_def Let_def u_def distinct_map_filter)
qed

lemma insert_inv:
  assumes "store_inv s" "length (records s) < max_sessions s \<or> get_record (sess_id r) s \<noteq> None"
  shows "store_inv (insert_record r s)"
proof -
  let ?f = "filter (\<lambda>q. sess_id q \<noteq> sess_id r) (records s)"
  have "length ?f < length (records s)" if "get_record (sess_id r) s \<noteq> None"
    using that by (auto simp: get_record_None intro: length_filter_less)
  moreover have "length ?f \<le> length (records s)" by simp
  moreover have "length (records s) \<le> max_sessions s" using assms(1) by (simp add: store_inv_def)
  ultimately have "Suc (length ?f) \<le> max_sessions s" using assms(2) by linarith
  with assms(1) show ?thesis by (auto simp: store_inv_def insert_record_def distinct_map_filter)
qed

lemma get_insert: "get_record i (insert_record r s) = (if i = sess_id r then Some r else get_record i s)"
proof -
  have "List.find (\<lambda>q. sess_id q = i) (filter (\<lambda>q. sess_id q \<noteq> j) rs) =
      (if i = j then None else List.find (\<lambda>q. sess_id q = i) rs)" for j and rs :: "('a, 'b) session_record list"
    by (induction rs) auto
  then show ?thesis by (simp add: get_record_def insert_record_def)
qed

lemma save_inv: "store_inv s \<Longrightarrow> store_inv (session_save now t r s)"
  unfolding session_save_def Let_def
  using make_room_room [OF maybe_sweep_inv, of s now t now t] maybe_sweep_inv [of s now t]
  by (auto intro!: insert_inv)

lemma create_inv: "store_inv s \<Longrightarrow> session_create now t ds r s = Some (r', s') \<Longrightarrow> store_inv s'"
  using make_room_room [OF maybe_sweep_inv, of s now t now t]
  by (auto simp: session_create_def Let_def intro!: insert_inv)

lemma session_load_inv: "store_inv s \<Longrightarrow> store_inv (snd (session_load now i s))"
  by (auto simp: session_load_def remove_inv split: option.splits)

section \<open>Histories of operations\<close>

datatype ('i, 'd) store_op =
    Op_Create "'i list" "('i, 'd) session_record"
  | Op_Save "('i, 'd) session_record"
  | Op_Load 'i
  | Op_Delete 'i
  | Op_Delete_Expired

fun run_op :: "int \<times> instant \<times> ('i, 'd) store_op \<Rightarrow> ('i, 'd) memory_store \<Rightarrow> ('i, 'd) memory_store" where
  "run_op (now, t, Op_Create ds r) s = (case session_create now t ds r s of None \<Rightarrow> s | Some (_, s') \<Rightarrow> s')"
| "run_op (now, t, Op_Save r) s = session_save now t r s"
| "run_op (now, t, Op_Load i) s = snd (session_load now i s)"
| "run_op (now, t, Op_Delete i) s = session_delete i s"
| "run_op (now, t, Op_Delete_Expired) s = delete_expired now t s"

lemma run_op_inv: "store_inv s \<Longrightarrow> store_inv (run_op op s)"
  by (cases "(op, s)" rule: run_op.cases)
    (auto simp: save_inv session_load_inv session_delete_def remove_inv delete_expired_def sweep_inv
      dest: create_inv split: option.splits)

lemma store_ops_inv: "store_inv s \<Longrightarrow> store_inv (fold run_op ops s)"
  by (induction ops arbitrary: s) (auto intro: run_op_inv)

text \<open>
  The store never holds more than \<open>max_sessions\<close> sessions (at least one), nor two of the same
  id, after any sequence of operations at any times.
\<close>

theorem store_bounded:
  "length (records (fold run_op ops (new_store n t))) \<le> max n 1 \<and>
   distinct (map sess_id (records (fold run_op ops (new_store n t))))"
proof -
  have "store_inv (new_store n t)"
    by (simp add: store_inv_def new_store_def with_sweep_interval_def)
  then have i: "store_inv (fold run_op ops (new_store n t))" by (rule store_ops_inv)
  have "max_sessions (run_op op s) = max_sessions s" for op and s :: "('a, 'b) memory_store"
    by (cases "(op, s)" rule: run_op.cases)
      (auto simp: session_save_def session_create_def session_load_def session_delete_def
        delete_expired_def Let_def split: option.splits)
  then have "max_sessions (fold run_op ops s) = max_sessions s" for s :: "('a, 'b) memory_store"
    by (induction ops arbitrary: s) auto
  with i show ?thesis by (simp add: store_inv_def new_store_def with_sweep_interval_def)
qed

lemma session_load_fst:
  assumes "store_inv s"
  shows "fst (session_load now i s) = Some r \<longleftrightarrow> r \<in> set (records s) \<and> sess_id r = i \<and> now < sess_expiry r"
proof -
  have d: "distinct (map sess_id (records s))" using assms by (simp add: store_inv_def)
  show ?thesis using get_record_Some [OF d, of i r]
    by (auto simp: session_load_def is_active_def split: option.splits)
qed

lemma get_remove: "get_record i (remove_record i s) = None"
  by (auto simp: get_record_None remove_record_def)

lemma active_after_sweep:
  "now < sess_expiry q \<Longrightarrow> q \<in> set (records (maybe_sweep now t s)) \<longleftrightarrow> q \<in> set (records s)"
  by (simp add: maybe_sweep_def sweep_def is_active_def)

text \<open>
  A session which was saved is loaded as it was saved until it expires; from then on no load
  gives it, and the load takes it out of the store. While the store is not full, saving a session
  does not change what is loaded for any other id.
\<close>

theorem session_save_load:
  assumes "store_inv s"
  shows "fst (session_load now' (sess_id r) (session_save now t r s)) =
      (if now' < sess_expiry r then Some r else None) \<and>
    (sess_expiry r \<le> now' \<longrightarrow>
      get_record (sess_id r) (snd (session_load now' (sess_id r) (session_save now t r s))) = None) \<and>
    (j \<noteq> sess_id r \<longrightarrow> length (records s) < max_sessions s \<longrightarrow> now \<le> now' \<longrightarrow>
      fst (session_load now' j (session_save now t r s)) = fst (session_load now' j s))"
proof (intro conjI impI)
  have g: "get_record (sess_id r) (session_save now t r s) = Some r"
    by (simp add: session_save_def Let_def get_insert)
  show "fst (session_load now' (sess_id r) (session_save now t r s)) =
      (if now' < sess_expiry r then Some r else None)"
    by (simp add: session_load_def g is_active_def)
  show "sess_expiry r \<le> now' \<Longrightarrow>
      get_record (sess_id r) (snd (session_load now' (sess_id r) (session_save now t r s))) = None"
    by (simp add: session_load_def g is_active_def get_remove)
next
  assume j: "j \<noteq> sess_id r" and room: "length (records s) < max_sessions s" and later: "now \<le> now'"
  let ?u = "maybe_sweep now t s"
  have u: "store_inv ?u" using assms by (rule maybe_sweep_inv)
  have "length (records ?u) \<le> length (records s)" by (simp add: maybe_sweep_def sweep_def)
  then have "session_save now t r s = insert_record r ?u"
    using room by (simp add: session_save_def session_make_room_def Let_def)
  then have "q \<in> set (records (session_save now t r s)) \<and> sess_id q = j \<and> now' < sess_expiry q \<longleftrightarrow>
      q \<in> set (records s) \<and> sess_id q = j \<and> now' < sess_expiry q" for q
    using j later active_after_sweep [of now q t s] by (auto simp: insert_record_def)
  then have "fst (session_load now' j (session_save now t r s)) = Some q \<longleftrightarrow>
      fst (session_load now' j s) = Some q" for q
    using session_load_fst [OF assms] session_load_fst [OF save_inv [OF assms]] by simp
  then show "fst (session_load now' j (session_save now t r s)) = fst (session_load now' j s)"
    by (metis option.exhaust)
qed

definition demo_store :: "(nat, string) memory_store" where
  "demo_store = \<lparr>records = [\<lparr>sess_id = 1, sess_expiry = 50, sess_data = ''a''\<rparr>], max_sessions = 2,
     sweep_interval = secs 60, last_sweep = 0\<rparr>"

lemma demo_store_inv: "store_inv demo_store"
  by (simp add: store_inv_def demo_store_def)

lemma session_save_load_witness:
  "fst (session_load 60 2 (session_save 10 0 \<lparr>sess_id = 2, sess_expiry = 70, sess_data = ''b''\<rparr> demo_store)) =
     Some \<lparr>sess_id = 2, sess_expiry = 70, sess_data = ''b''\<rparr> \<and>
   fst (session_load 40 1 (session_save 10 0 \<lparr>sess_id = 2, sess_expiry = 70, sess_data = ''b''\<rparr> demo_store)) =
     fst (session_load 40 1 demo_store)"
  using session_save_load [OF demo_store_inv, of 60 "\<lparr>sess_id = 2, sess_expiry = 70, sess_data = ''b''\<rparr>" 10 0 1]
    session_save_load [OF demo_store_inv, of 40 "\<lparr>sess_id = 2, sess_expiry = 70, sess_data = ''b''\<rparr>" 10 0 1]
  by (simp add: demo_store_def)

text \<open>
  A full store evicts no session that is kept past another: every active session it drops
  expires no later than every session it keeps.
\<close>

theorem evicts_soonest_to_expire:
  assumes "store_inv s" "r \<in> set (records s)" "is_active r now"
    and "r \<notin> set (records (session_make_room now t s))" "q \<in> set (records (session_make_room now t s))"
  shows "sess_expiry r \<le> sess_expiry q"
proof -
  define u where "u = sweep now t s"
  have full: "session_make_room now t s = u\<lparr>records := filter (\<lambda>r. sess_id r \<notin> set (evict_ids u)) (records u)\<rparr>"
    using assms(2,4) by (auto simp: session_make_room_def Let_def u_def split: if_splits)
  have d: "distinct (map sess_id (records u))"
    using sweep_inv [OF assms(1)] by (simp add: u_def store_inv_def)
  have r: "r \<in> set (records u)" using assms(2,3) by (simp add: u_def sweep_def)
  with assms(4) full have ri: "sess_id r \<in> set (evict_ids u)" by simp
  from assms(5) full have q: "q \<in> set (records u)" "sess_id q \<notin> set (evict_ids u)" by auto
  let ?xs = "sort_key sess_expiry (records u)" and ?n = "evict_count u"
  have lt: "?n < length (records u)"
  proof (rule ccontr)
    assume "\<not> ?thesis"
    with q show False by (simp add: evict_ids_def Let_def)
  qed
  then have ids: "evict_ids u = map sess_id (take ?n ?xs)" by (simp add: evict_ids_def Let_def)
  have "r \<in> set (take ?n ?xs)"
  proof -
    from ri ids obtain x where x: "x \<in> set (take ?n ?xs)" "sess_id x = sess_id r" by auto
    then have "x \<in> set (records u)" by (auto dest: in_set_takeD)
    with x r d show ?thesis by (metis (mono_tags) distinct_map inj_onD)
  qed
  moreover have "q \<in> set (drop ?n ?xs)"
  proof -
    have "q \<in> set (take ?n ?xs @ drop ?n ?xs)" using q(1) by simp
    with q(2) ids show ?thesis by (auto simp del: append_take_drop_id)
  qed
  moreover have "sorted (map sess_expiry (take ?n ?xs @ drop ?n ?xs))" by simp
  ultimately show ?thesis by (simp only: map_append sorted_append) auto
qed

lemma evicts_soonest_to_expire_witness:
  "\<exists>q \<in> set (records (session_make_room 0 0 (demo_store\<lparr>records :=
      \<lparr>sess_id = 2, sess_expiry = 70, sess_data = ''b''\<rparr> # records demo_store\<rparr>))). 50 \<le> sess_expiry q"
proof -
  let ?s = "demo_store\<lparr>records := \<lparr>sess_id = 2, sess_expiry = 70, sess_data = ''b''\<rparr> # records demo_store\<rparr>"
  let ?r = "\<lparr>sess_id = 1, sess_expiry = 50, sess_data = ''a''\<rparr>"
  let ?q = "\<lparr>sess_id = 2, sess_expiry = 70, sess_data = ''b''\<rparr>"
  have m: "records (session_make_room 0 0 ?s) = [?q]"
    by (simp add: session_make_room_def sweep_def is_active_def evict_ids_def evict_count_def
        demo_store_def Let_def sort_key_def)
  have "store_inv ?s" by (simp add: store_inv_def demo_store_def)
  from evicts_soonest_to_expire [OF this, of ?r 0 0 ?q] m
  show ?thesis by (simp add: demo_store_def is_active_def)
qed

section \<open>The session cookie\<close>

text \<open>
  How \<open>session_layer\<close> configures the cookie. The parsed \<open>host\<close> url is what the \<open>url\<close> crate gives
  for it, \<open>None\<close> when it does not parse.
\<close>

datatype url_host = Host_Domain string | Host_Ipv4 "32 word" | Host_Ipv6 "128 word"

record parsed_url =
  url_scheme :: string
  url_host :: "url_host option"

datatype same_site = SameSite_None | SameSite_Lax

record session_cookie =
  ck_expiry :: int
  ck_secure :: bool
  ck_same_site :: same_site
  ck_domain :: "string option"
  ck_name :: "string option"     \<comment> \<open>\<open>None\<close>: the default of \<open>tower_sessions\<close>\<close>

definition HOST_COOKIE_NAME :: string where "HOST_COOKIE_NAME = ''__Host-id''"

definition url_is_loopback :: "parsed_url \<Rightarrow> bool" where
  "url_is_loopback u = (case url_host u of
     Some (Host_Domain d) \<Rightarrow> eq_ignore_ascii_case d ''localhost''
   | Some (Host_Ipv4 v) \<Rightarrow> drop_bit 24 v = 127
   | Some (Host_Ipv6 v) \<Rightarrow> v = 1
   | None \<Rightarrow> False)"

definition host_is_https :: "string \<Rightarrow> parsed_url option \<Rightarrow> bool" where
  "host_is_https host url = (case url of
     Some u \<Rightarrow> url_scheme u = ''https''
   | None \<Rightarrow> 8 \<le> length host \<and> eq_ignore_ascii_case (take 8 host) ''https://'')"

definition session_layer ::
  "string \<Rightarrow> parsed_url option \<Rightarrow> bool \<Rightarrow> int \<Rightarrow> string option \<Rightarrow> session_cookie" where
  "session_layer host url cross_site expiry cookie_domain =
     (let https = host_is_https host url;
          layer = \<lparr>ck_expiry = expiry, ck_secure = https \<or> cross_site,
            ck_same_site = (if cross_site then SameSite_None else SameSite_Lax),
            ck_domain = None, ck_name = None\<rparr>
      in case (case cookie_domain of Some d \<Rightarrow> if d \<noteq> [] then Some d else None | None \<Rightarrow> None) of
           Some d \<Rightarrow> layer\<lparr>ck_domain := Some d\<rparr>
         | None \<Rightarrow> if https then layer\<lparr>ck_name := Some HOST_COOKIE_NAME\<rparr> else layer)"

text \<open>The warning about a cookie browsers reject.\<close>

definition cross_site_rejected :: "string \<Rightarrow> parsed_url option \<Rightarrow> bool \<Rightarrow> bool" where
  "cross_site_rejected host url cross_site \<longleftrightarrow> cross_site \<and> \<not> host_is_https host url \<and>
     \<not> (case url of None \<Rightarrow> False | Some u \<Rightarrow> url_is_loopback u)"

text \<open>
  The cookie a browser is asked to keep is one it accepts: a name with the \<open>__Host-\<close> prefix comes
  with \<open>Secure\<close> and without a domain, \<open>SameSite=None\<close> comes with \<open>Secure\<close>, and a cookie of an
  https host is never sent over http.
\<close>

lemma session_cookie_accepted:
  "let c = session_layer host url cross_site expiry domain in
     (ck_name c = Some HOST_COOKIE_NAME \<longrightarrow> ck_secure c \<and> ck_domain c = None) \<and>
     (ck_same_site c = SameSite_None \<longrightarrow> ck_secure c) \<and>
     (host_is_https host url \<longrightarrow> ck_secure c) \<and>
     (\<exists>d. ck_domain c = Some d \<and> d \<noteq> [] \<or> ck_domain c = None)"
  by (auto simp: session_layer_def Let_def split: option.split)

end
