(* ===== verification/Errors.thy ===== *)
theory Errors
  imports Prelude
begin

text \<open>
  Errors as responses: the chain of an \<open>anyhow::Error\<close>, its serialized form \<open>Serror\<close> and the
  rebuilding of a received one (\<^verbatim>\<open>crates/error/src/lib.rs\<close>,
  \<^verbatim>\<open>crates/error/src/serror.rs\<close>), the response of an \<open>Error\<close> with the process wide
  \<open>ServerErrorDetail\<close> (\<^verbatim>\<open>crates/error/src/axum.rs\<close>), and the note a failed attempt gets
  (\<open>failed_attempt\<close> in \<^verbatim>\<open>crates/rate_limit/src/lib.rs\<close>). JSON text and debug output are
  functions of \<open>serde_json\<close> and the derive macros, given as a record; so is the \<open>HeaderMap\<close>.
\<close>

section \<open>Chains\<close>

text \<open>An \<open>anyhow::Error\<close>: a message, with contexts around it.\<close>

datatype anyhow = Msg string | Context string anyhow

fun chain :: "anyhow \<Rightarrow> string list" where
  "chain (Msg m) = [m]"
| "chain (Context c e) = c # chain e"

lemma chain_nonempty [simp]: "chain e \<noteq> []" "[] \<noteq> chain e"
  by (cases e; simp)+

text \<open>\<open>to_string()\<close> is the top message, \<open>{:#}\<close> the whole chain.\<close>

definition top_message :: "anyhow \<Rightarrow> string" where
  "top_message e = hd (chain e)"

definition alternate :: "anyhow \<Rightarrow> string" where
  "alternate e = join_on '': '' (chain e)"

text \<open>An error is its chain.\<close>

lemma chain_inject: "chain e = chain e' \<Longrightarrow> e = e'"
proof (induction e arbitrary: e')
  case (Msg m)
  then show ?case by (cases e') auto
next
  case (Context c e)
  then show ?case by (cases e') auto
qed

section \<open>The serialized form\<close>

record serror =
  se_error :: string
  se_trace :: "string list"

definition to_serror :: "anyhow \<Rightarrow> serror" where
  "to_serror e = \<lparr>se_error = top_message e, se_trace = tl (chain e)\<rparr>"

definition MAX_TRACE_DEPTH :: nat where "MAX_TRACE_DEPTH = 64"

definition fold_trace :: "string list \<Rightarrow> string list" where
  "fold_trace t =
     (if MAX_TRACE_DEPTH < length t
      then take (MAX_TRACE_DEPTH - 1) t @ [join_on '': '' (drop (MAX_TRACE_DEPTH - 1) t)] else t)"

definition serror_into_anyhow_error :: "serror \<Rightarrow> anyhow" where
  "serror_into_anyhow_error s =
     (let t = rev (fold_trace (se_trace s)) in
      case t of [] \<Rightarrow> Msg (se_error s)
      | msg # t \<Rightarrow> Context (se_error s) (fold Context t (Msg msg)))"

text \<open>A body which is no \<open>Serror\<close> becomes the message; \<open>from_json\<close> is \<open>serde_json::from_str\<close>.\<close>

definition deserialize_serror :: "(string \<Rightarrow> serror option) \<Rightarrow> string \<Rightarrow> serror" where
  "deserialize_serror from_json json = (case from_json json of
     Some s \<Rightarrow> s | None \<Rightarrow> \<lparr>se_error = json, se_trace = []\<rparr>)"

definition deserialize_error :: "(string \<Rightarrow> serror option) \<Rightarrow> string \<Rightarrow> anyhow" where
  "deserialize_error from_json json = serror_into_anyhow_error (deserialize_serror from_json json)"

lemma chain_fold_Context: "chain (fold Context cs e) = rev cs @ chain e"
  by (induction cs arbitrary: e) auto

lemma chain_serror_into: "chain (serror_into_anyhow_error s) = se_error s # fold_trace (se_trace s)"
  by (cases "rev (fold_trace (se_trace s))")
    (auto simp: serror_into_anyhow_error_def chain_fold_Context Let_def dest: arg_cong [where f = rev])

lemma join_on_append:
  "ys \<noteq> [] \<Longrightarrow> join_on sep (xs @ [join_on sep ys]) = join_on sep (xs @ ys)"
proof (induction xs)
  case (Cons x xs)
  then show ?case by (simp add: join_on_Cons)
qed simp

text \<open>
  An error read back from its serialized form is the error that was sent, message by message,
  when its chain has at most 65 messages. A longer one, which only a peer can send, becomes a
  chain of exactly 65 messages with the same text, so dropping it cannot overflow the stack.
\<close>

theorem serror_roundtrip:
  shows "length (chain (serror_into_anyhow_error s)) \<le> MAX_TRACE_DEPTH + 1 \<and>
    alternate (serror_into_anyhow_error s) = join_on '': '' (se_error s # se_trace s) \<and>
    (length (se_trace s) \<le> MAX_TRACE_DEPTH \<longrightarrow> to_serror (serror_into_anyhow_error s) = s) \<and>
    (length (chain e) \<le> MAX_TRACE_DEPTH + 1 \<longrightarrow> serror_into_anyhow_error (to_serror e) = e)"
proof (intro conjI impI)
  show "length (chain (serror_into_anyhow_error s)) \<le> MAX_TRACE_DEPTH + 1"
    by (simp add: chain_serror_into fold_trace_def MAX_TRACE_DEPTH_def)
  have "join_on '': '' (se_error s # fold_trace (se_trace s)) = join_on '': '' (se_error s # se_trace s)"
  proof (cases "MAX_TRACE_DEPTH < length (se_trace s)")
    case True
    then have "drop (MAX_TRACE_DEPTH - 1) (se_trace s) \<noteq> []" by simp
    from join_on_append [OF this, of _ "se_error s # take (MAX_TRACE_DEPTH - 1) (se_trace s)"] True
    show ?thesis by (simp add: fold_trace_def)
  qed (simp add: fold_trace_def)
  then show "alternate (serror_into_anyhow_error s) = join_on '': '' (se_error s # se_trace s)"
    by (simp add: alternate_def chain_serror_into)
  show "length (se_trace s) \<le> MAX_TRACE_DEPTH \<Longrightarrow> to_serror (serror_into_anyhow_error s) = s"
    by (simp add: to_serror_def top_message_def chain_serror_into fold_trace_def)
  assume "length (chain e) \<le> MAX_TRACE_DEPTH + 1"
  then have "fold_trace (tl (chain e)) = tl (chain e)"
    by (auto simp: fold_trace_def MAX_TRACE_DEPTH_def)
  then show "serror_into_anyhow_error (to_serror e) = e"
    by (intro chain_inject) (simp add: chain_serror_into to_serror_def top_message_def)
qed

definition demo_error :: anyhow where
  "demo_error = Context ''top'' (Context ''middle'' (Msg ''root''))"

lemma serror_roundtrip_witness:
  "to_serror demo_error = \<lparr>se_error = ''top'', se_trace = [''middle'', ''root'']\<rparr> \<and>
   serror_into_anyhow_error (to_serror demo_error) = demo_error \<and>
   to_serror (serror_into_anyhow_error (to_serror demo_error)) = to_serror demo_error"
  using serror_roundtrip [of "to_serror demo_error" demo_error]
  by (simp add: to_serror_def top_message_def demo_error_def MAX_TRACE_DEPTH_def)

section \<open>Responses\<close>

datatype server_error_detail = Full | Message | Generic

text \<open>The value of the process wide atomic.\<close>

definition detail_to_u8 :: "server_error_detail \<Rightarrow> nat" where
  "detail_to_u8 d = (case d of Full \<Rightarrow> 0 | Message \<Rightarrow> 1 | Generic \<Rightarrow> 2)"

definition detail_of_u8 :: "nat \<Rightarrow> server_error_detail" where
  "detail_of_u8 n = (if n = 1 then Message else if n = 2 then Generic else Full)"

lemma detail_u8_roundtrip: "detail_of_u8 (detail_to_u8 d) = d"
  by (cases d) (simp_all add: detail_of_u8_def detail_to_u8_def)

record 'h web =
  to_json :: "serror \<Rightarrow> string option"
  debug_error :: "anyhow \<Rightarrow> string"
  debug_serror :: "serror \<Rightarrow> string"
  canonical_reason :: "status \<Rightarrow> string option"
  no_headers :: 'h
  headers_append :: "string \<Rightarrow> string \<Rightarrow> 'h \<Rightarrow> 'h"
  headers_extend :: "'h \<Rightarrow> 'h \<Rightarrow> 'h"

record 'h web_error =
  err_status :: status
  err_headers :: "'h option"
  err_error :: anyhow

record 'h response =
  resp_status :: status
  resp_headers :: 'h
  resp_body :: string
  resp_hidden :: "anyhow option"   \<comment> \<open>the \<open>HiddenServerError\<close> extension, not sent\<close>

definition error_from :: "anyhow \<Rightarrow> 'h web_error" where
  "error_from e = \<lparr>err_status = INTERNAL_SERVER_ERROR, err_headers = None, err_error = e\<rparr>"

definition with_status :: "status \<Rightarrow> 'h web_error \<Rightarrow> 'h web_error" where
  "with_status s e = e\<lparr>err_status := s\<rparr>"

definition with_header :: "'h web \<Rightarrow> string \<Rightarrow> string \<Rightarrow> 'h web_error \<Rightarrow> 'h web_error" where
  "with_header W n v e = (case err_headers e of
     Some h \<Rightarrow> e\<lparr>err_headers := Some (headers_append W n v h)\<rparr>
   | None \<Rightarrow> e\<lparr>err_headers := Some (headers_append W n v (no_headers W))\<rparr>)"

definition serialize_error :: "'h web \<Rightarrow> anyhow \<Rightarrow> string" where
  "serialize_error W e = (case to_json W (to_serror e) of Some s \<Rightarrow> s | None \<Rightarrow> debug_error W e)"

definition serialize_message :: "'h web \<Rightarrow> string \<Rightarrow> string" where
  "serialize_message W m = (let s = \<lparr>se_error = m, se_trace = []\<rparr> in
     case to_json W s of Some t \<Rightarrow> t | None \<Rightarrow> debug_serror W s)"

definition response_with_detail :: "'h web \<Rightarrow> server_error_detail \<Rightarrow> 'h web_error \<Rightarrow> 'h response" where
  "response_with_detail W server_detail e =
     (let detail = (if is_server_error (err_status e) then server_detail else Full);
          body = (case detail of
              Full \<Rightarrow> serialize_error W (err_error e)
            | Message \<Rightarrow> serialize_message W (top_message (err_error e))
            | Generic \<Rightarrow> serialize_message W (case canonical_reason W (err_status e) of
                Some r \<Rightarrow> r | None \<Rightarrow> ''Server Error''));
          headers = headers_append W ''Content-Type'' ''application/json'' (no_headers W);
          headers = (case err_headers e of None \<Rightarrow> headers | Some h \<Rightarrow> headers_extend W headers h)
      in \<lparr>resp_status = err_status e, resp_headers = headers, resp_body = body,
          resp_hidden = (if detail \<noteq> Full then Some (err_error e) else None)\<rparr>)"

section \<open>Failed attempts\<close>

fun show_nat :: "nat \<Rightarrow> string" where
  "show_nat n = (if n < 10 then [char_of (48 + n)] else show_nat (n div 10) @ [char_of (48 + n mod 10)])"

declare show_nat.simps [simp del]

record failed_attempt_note =
  fa_error :: string
  fa_remaining :: nat

definition annotate :: "failed_attempt_note \<Rightarrow> string \<Rightarrow> string" where
  "annotate a message = message @ '' | You have '' @ show_nat (fa_remaining a) @ '' attempts remaining''"

definition display_attempt :: "failed_attempt_note \<Rightarrow> string" where
  "display_attempt a = annotate a (fa_error a)"

definition failed_attempt :: "server_error_detail \<Rightarrow> 'h web_error \<Rightarrow> nat \<Rightarrow> 'h web_error" where
  "failed_attempt server_detail e remaining =
     (let hide_causes = is_server_error (err_status e) \<and> server_detail \<noteq> Full;
          a = \<lparr>fa_error = (if hide_causes then top_message (err_error e) else alternate (err_error e)),
               fa_remaining = remaining\<rparr>
      in e\<lparr>err_error := Context (display_attempt a) (err_error e)\<rparr>)"

text \<open>What the caller sees of a response: all but the extension.\<close>

definition sent :: "'h response \<Rightarrow> 'h response" where
  "sent r = r\<lparr>resp_hidden := None\<rparr>"

text \<open>
  When the app hides the details of server errors, the response to a server error, also of a
  rate limited attempt, depends on the error's top message alone: two errors which differ only in
  their causes (hosts, paths, driver messages) are answered alike. The causes are kept for the
  logs.
\<close>

theorem hidden_causes_not_sent:
  assumes "is_server_error (err_status e)" "detail \<noteq> Full"
    and "err_status e' = err_status e" "err_headers e' = err_headers e"
    and "top_message (err_error e') = top_message (err_error e)"
  shows "sent (response_with_detail W detail e') = sent (response_with_detail W detail e) \<and>
    sent (response_with_detail W detail (failed_attempt detail e' n)) =
      sent (response_with_detail W detail (failed_attempt detail e n)) \<and>
    resp_hidden (response_with_detail W detail e) = Some (err_error e)"
  using assms
  by (cases detail; simp add: response_with_detail_def failed_attempt_def sent_def Let_def top_message_def)

definition demo_web :: "(string \<times> string) list web" where
  "demo_web = \<lparr>to_json = (\<lambda>s. Some (join_on '','' (se_error s # se_trace s))), debug_error = alternate,
     debug_serror = se_error, canonical_reason = (\<lambda>_. None), no_headers = [],
     headers_append = (\<lambda>n v h. h @ [(n, v)]), headers_extend = (@)\<rparr>"

lemma hidden_causes_not_sent_witness:
  "resp_body (response_with_detail demo_web Message (failed_attempt Message
      (error_from (Context ''Query failed'' (Msg ''host db1 unreachable''))) 3)) =
   resp_body (response_with_detail demo_web Message (failed_attempt Message (error_from (Msg ''Query failed'')) 3))"
proof -
  have body: "resp_body r = resp_body (sent r)" for r :: "(string \<times> string) list response"
    by (simp add: sent_def)
  have "sent (response_with_detail demo_web Message (failed_attempt Message
      (error_from (Context ''Query failed'' (Msg ''host db1 unreachable''))) 3)) =
    sent (response_with_detail demo_web Message (failed_attempt Message (error_from (Msg ''Query failed'')) 3))"
    using hidden_causes_not_sent [of "error_from (Msg ''Query failed'')" Message
        "error_from (Context ''Query failed'' (Msg ''host db1 unreachable''))" demo_web 3]
    by (simp add: error_from_def is_server_error_def top_message_def)
  from arg_cong [OF this, of resp_body] show ?thesis by (simp flip: body)
qed

end
