(* ===== verification/Cache.thy ===== *)
theory Cache
  imports Errors
begin

text \<open>
  The caches of \<^verbatim>\<open>crates/cache/src/lib.rs\<close>. A \<open>TimeoutCache\<close> gives out shared, lockable
  entries: as in the rate limiter a handle is an address, with the count of the handles callers
  hold, and the tasks using the cache are a step relation, a task running its action while it
  holds the entry's lock. A \<open>HashMap\<close> is an association list in its iteration order.
\<close>

section \<open>Errors\<close>

definition clone_anyhow_error :: "anyhow \<Rightarrow> anyhow" where
  "clone_anyhow_error e =
     (let reasons = chain e in fold Context (rev (butlast reasons)) (Msg (last reasons)))"

text \<open>The copy of an error has its messages in the same order.\<close>

lemma clone_anyhow_error_same: "clone_anyhow_error e = e"
proof (induction e)
  case (Context c e)
  then show ?case by (simp add: clone_anyhow_error_def Let_def)
qed (simp add: clone_anyhow_error_def)

section \<open>The timeout cache\<close>

record 'r cache_entry =
  last_ts :: int
  res :: "anyhow + 'r"

definition default_entry :: "'r \<Rightarrow> 'r cache_entry" where
  "default_entry d = \<lparr>last_ts = 0, res = Inr d\<rparr>"

definition clone_result :: "anyhow + 'r \<Rightarrow> anyhow + 'r" where
  "clone_result r = (case r of Inl e \<Rightarrow> Inl (clone_anyhow_error e) | Inr x \<Rightarrow> Inr x)"

definition entry_set :: "anyhow + 'r \<Rightarrow> int \<Rightarrow> 'r cache_entry \<Rightarrow> 'r cache_entry" where
  "entry_set r ts e = e\<lparr>res := clone_result r, last_ts := ts\<rparr>"

definition clone_res :: "'r cache_entry \<Rightarrow> anyhow + 'r" where
  "clone_res e = clone_result (res e)"

lemma clone_result_same [simp]: "clone_result r = r"
  by (simp add: clone_result_def clone_anyhow_error_same split: sum.split)

text \<open>\<open>tc_handles\<close> is \<open>Arc::strong_count\<close> less the map's own handle.\<close>

record ('k, 'r) timeout_cache =
  tc_map :: "('k \<times> nat) list"
  tc_heap :: "nat \<Rightarrow> 'r cache_entry"
  tc_handles :: "nat \<Rightarrow> nat"
  tc_next :: nat

definition empty_cache :: "'r \<Rightarrow> ('k, 'r) timeout_cache" where
  "empty_cache d =
     \<lparr>tc_map = [], tc_heap = (\<lambda>_. default_entry d), tc_handles = (\<lambda>_. 0), tc_next = 0\<rparr>"

definition is_held :: "('k, 'r) timeout_cache \<Rightarrow> nat \<Rightarrow> bool" where
  "is_held c a \<longleftrightarrow> 0 < tc_handles c a"

definition get_lock :: "'r \<Rightarrow> 'k \<Rightarrow> ('k, 'r) timeout_cache \<Rightarrow> nat \<times> ('k, 'r) timeout_cache" where
  "get_lock d k c = (case map_of (tc_map c) k of
     Some a \<Rightarrow> (a, c\<lparr>tc_handles := (tc_handles c)(a := Suc (tc_handles c a))\<rparr>)
   | None \<Rightarrow>
       let a = tc_next c in
       (a, c\<lparr>tc_map := (k, a) # tc_map c, tc_heap := (tc_heap c)(a := default_entry d),
             tc_handles := (tc_handles c)(a := 1), tc_next := Suc a\<rparr>))"

definition drop_handle :: "nat \<Rightarrow> ('k, 'r) timeout_cache \<Rightarrow> ('k, 'r) timeout_cache" where
  "drop_handle a c = c\<lparr>tc_handles := (tc_handles c)(a := tc_handles c a - 1)\<rparr>"

definition cache_remove :: "'k \<Rightarrow> ('k, 'r) timeout_cache \<Rightarrow> bool \<times> ('k, 'r) timeout_cache" where
  "cache_remove k c = (case map_of (tc_map c) k of
     Some a \<Rightarrow> if \<not> is_held c a
       then (True, c\<lparr>tc_map := filter (\<lambda>p. fst p \<noteq> k) (tc_map c)\<rparr>) else (False, c)
   | None \<Rightarrow> (False, c))"

definition cache_retain ::
  "('k \<Rightarrow> 'r cache_entry \<Rightarrow> bool) \<Rightarrow> ('k, 'r) timeout_cache \<Rightarrow> ('k, 'r) timeout_cache" where
  "cache_retain keep c =
     c\<lparr>tc_map := filter (\<lambda>(k, a). is_held c a \<or> keep k (tc_heap c a)) (tc_map c)\<rparr>"

definition cache_prune :: "int \<Rightarrow> ('k, 'r) timeout_cache \<Rightarrow> nat \<times> ('k, 'r) timeout_cache" where
  "cache_prune older_than c =
     (length (filter (\<lambda>(k, a). \<not> is_held c a \<and> \<not> older_than \<le> last_ts (tc_heap c a)) (tc_map c)),
      cache_retain (\<lambda>_ e. older_than \<le> last_ts e) c)"

section \<open>Tasks using the cache\<close>

text \<open>A task holds a handle, then the entry's lock for the length of its action.\<close>

datatype 'k cache_task = Waiting 'k nat | Acting 'k nat

fun task_key :: "'k cache_task \<Rightarrow> 'k" where
  "task_key (Waiting k a) = k"
| "task_key (Acting k a) = k"

fun task_entry :: "'k cache_task \<Rightarrow> nat" where
  "task_entry (Waiting k a) = a"
| "task_entry (Acting k a) = a"

definition acting_on :: "nat \<Rightarrow> 'k cache_task \<Rightarrow> bool" where
  "acting_on a t \<longleftrightarrow> (\<exists>k. t = Acting k a)"

definition acting_for :: "'k \<Rightarrow> 'k cache_task \<Rightarrow> bool" where
  "acting_for k t \<longleftrightarrow> (\<exists>a. t = Acting k a)"

inductive cache_step ::
  "'r \<Rightarrow> ('k, 'r) timeout_cache \<times> 'k cache_task list \<Rightarrow>
   ('k, 'r) timeout_cache \<times> 'k cache_task list \<Rightarrow> bool" for d where
  take: "get_lock d k c = (a, c') \<Longrightarrow> cache_step d (c, ts) (c', Waiting k a # ts)"
| lock: "\<forall>t \<in> set (xs @ ys). \<not> acting_on a t \<Longrightarrow>
    cache_step d (c, xs @ Waiting k a # ys) (c, xs @ Acting k a # ys)"
| finish: "cache_step d (c, xs @ Acting k a # ys)
    (drop_handle a (c\<lparr>tc_heap := (tc_heap c)(a := entry_set r ts (tc_heap c a))\<rparr>), xs @ ys)"
| leave: "task_entry t = a \<Longrightarrow> cache_step d (c, xs @ t # ys) (drop_handle a c, xs @ ys)"
| remove: "cache_remove k c = (b, c') \<Longrightarrow> cache_step d (c, ts) (c', ts)"
| retain: "cache_step d (c, ts) (cache_retain keep c, ts)"
| prune: "cache_prune older_than c = (n, c') \<Longrightarrow> cache_step d (c, ts) (c', ts)"

inductive cache_reachable ::
  "'r \<Rightarrow> ('k, 'r) timeout_cache \<times> 'k cache_task list \<Rightarrow> bool" for d where
  start: "cache_reachable d (empty_cache d, [])"
| more: "cache_reachable d s \<Longrightarrow> cache_step d s s' \<Longrightarrow> cache_reachable d s'"

definition holding :: "nat \<Rightarrow> 'k cache_task list \<Rightarrow> nat" where
  "holding a ts = length (filter (\<lambda>t. task_entry t = a) ts)"

definition cache_inv :: "('k, 'r) timeout_cache \<Rightarrow> 'k cache_task list \<Rightarrow> bool" where
  "cache_inv c ts \<longleftrightarrow>
     distinct (map fst (tc_map c)) \<and> distinct (map snd (tc_map c)) \<and>
     (\<forall>(k, a) \<in> set (tc_map c). a < tc_next c) \<and>
     (\<forall>t \<in> set ts. (task_key t, task_entry t) \<in> set (tc_map c)) \<and>
     (\<forall>a. tc_handles c a = holding a ts) \<and>
     (\<forall>a. length (filter (acting_on a) ts) \<le> 1)"

lemma cache_invI:
  assumes "distinct (map fst (tc_map c))" "distinct (map snd (tc_map c))"
    and "\<And>k a. (k, a) \<in> set (tc_map c) \<Longrightarrow> a < tc_next c"
    and "\<And>t. t \<in> set ts \<Longrightarrow> (task_key t, task_entry t) \<in> set (tc_map c)"
    and "\<And>a. tc_handles c a = holding a ts" "\<And>a. length (filter (acting_on a) ts) \<le> 1"
  shows "cache_inv c ts"
  using assms by (auto simp: cache_inv_def)

lemma cache_invD:
  assumes "cache_inv c ts"
  shows "distinct (map fst (tc_map c))" "distinct (map snd (tc_map c))"
    "(k, a) \<in> set (tc_map c) \<Longrightarrow> a < tc_next c"
    "t \<in> set ts \<Longrightarrow> (task_key t, task_entry t) \<in> set (tc_map c)"
    "tc_handles c b = holding b ts" "length (filter (acting_on b) ts) \<le> 1"
  using assms by (auto simp: cache_inv_def)

lemma holding_simps [simp]:
  "holding a [] = 0"
  "holding a (t # ts) = (if task_entry t = a then Suc (holding a ts) else holding a ts)"
  "holding a (xs @ ys) = holding a xs + holding a ys"
  by (simp_all add: holding_def)

lemma acting_on_simps [simp]: "acting_on a (Acting k b) = (b = a)" "\<not> acting_on a (Waiting k b)"
  by (auto simp: acting_on_def)

lemma holding_pos: "t \<in> set ts \<Longrightarrow> 0 < holding (task_entry t) ts"
  by (induction ts) auto

text \<open>Removals which keep the held entries keep the invariant.\<close>

lemma cache_inv_filter:
  assumes inv: "cache_inv c ts" and c': "c' = c\<lparr>tc_map := filter P (tc_map c)\<rparr>"
    and keep: "\<And>k a. (k, a) \<in> set (tc_map c) \<Longrightarrow> is_held c a \<Longrightarrow> P (k, a)"
  shows "cache_inv c' ts"
proof (rule cache_invI)
  fix t assume "t \<in> set ts"
  with cache_invD(4,5) [OF inv] holding_pos [of t ts] keep
  show "(task_key t, task_entry t) \<in> set (tc_map c')"
    by (simp add: c' is_held_def)
qed (use cache_invD [OF inv] in \<open>auto simp: c' distinct_map_filter\<close>)

lemma get_lock_inv:
  assumes inv: "cache_inv c ts" and g: "get_lock d k c = (a, c')"
  shows "cache_inv c' (Waiting k a # ts)"
proof (cases "map_of (tc_map c) k")
  case (Some b)
  with g have a: "a = b" "c' = c\<lparr>tc_handles := (tc_handles c)(a := Suc (tc_handles c a))\<rparr>"
    by (auto simp: get_lock_def)
  show ?thesis
    by (rule cache_invI) (use cache_invD [OF inv] map_of_SomeD [OF Some] in \<open>auto simp: a\<close>)
next
  case None
  with g have a: "a = tc_next c" "c' = c\<lparr>tc_map := (k, a) # tc_map c,
      tc_heap := (tc_heap c)(a := default_entry d), tc_handles := (tc_handles c)(a := 1),
      tc_next := Suc a\<rparr>"
    by (auto simp: get_lock_def Let_def)
  have fresh: "a \<notin> snd ` set (tc_map c)" using cache_invD(3) [OF inv] by (force simp: a(1))
  have "holding a ts = 0"
    using cache_invD(4) [OF inv] fresh by (force simp: holding_def filter_empty_conv)
  moreover have "k \<notin> fst ` set (tc_map c)" using None by (simp add: map_of_eq_None_iff)
  ultimately show ?thesis
    by (intro cache_invI)
      (use cache_invD [OF inv] fresh in \<open>auto simp: a(2) a(1) [symmetric] intro: less_SucI\<close>)
qed

lemma drop_inv:
  assumes inv: "cache_inv c (xs @ t # ys)" and a: "task_entry t = a"
  shows "cache_inv (drop_handle a c) (xs @ ys)"
proof (rule cache_invI)
  fix b show "length (filter (acting_on b) (xs @ ys)) \<le> 1"
    using cache_invD(6) [OF inv, of b] by (auto split: if_splits)
  show "tc_handles (drop_handle a c) b = holding b (xs @ ys)"
    using cache_invD(5) [OF inv, of b] a by (auto simp: drop_handle_def)
qed (use cache_invD(1-4) [OF inv] in \<open>auto simp: drop_handle_def\<close>)

lemma cache_inv_heap [simp]: "cache_inv (c\<lparr>tc_heap := h\<rparr>) ts = cache_inv c ts"
  by (simp add: cache_inv_def)

lemma cache_step_inv: "cache_step d s s' \<Longrightarrow> case_prod cache_inv s \<Longrightarrow> case_prod cache_inv s'"
proof (induction rule: cache_step.induct)
  case (lock xs ys a c k)
  have none: "filter (acting_on a) xs = []" "filter (acting_on a) ys = []"
    using lock(1) by (auto simp: filter_empty_conv)
  have "cache_inv c (xs @ Acting k a # ys)"
  proof (rule cache_invI)
    fix b show "length (filter (acting_on b) (xs @ Acting k a # ys)) \<le> 1"
      using cache_invD(6) [of c "xs @ Waiting k a # ys" b] lock(2) none by (cases "b = a") auto
  next
    fix t assume "t \<in> set (xs @ Acting k a # ys)"
    then show "(task_key t, task_entry t) \<in> set (tc_map c)"
      using cache_invD(4) [of c "xs @ Waiting k a # ys" "Waiting k a"]
        cache_invD(4) [of c "xs @ Waiting k a # ys" t] lock(2) by auto
  qed (use cache_invD(1-3,5) [of c "xs @ Waiting k a # ys"] lock(2) in auto)
  then show ?case by simp
next
  case (finish c xs k a ys r ts)
  then have "cache_inv (c\<lparr>tc_heap := (tc_heap c)(a := entry_set r ts (tc_heap c a))\<rparr>) (xs @ Acting k a # ys)"
    by simp
  from drop_inv [OF this] show ?case by simp
next
  case (remove k c b c' ts)
  then show ?case
    by (auto simp: cache_remove_def split: option.splits if_splits
        intro!: cache_inv_filter [where c = c and P = "\<lambda>p. fst p \<noteq> k"])
      (metis cache_invD(1) map_of_is_SomeI option.inject)
qed (auto simp: get_lock_inv drop_inv cache_retain_def cache_prune_def
    intro: cache_inv_filter [where P = "\<lambda>(k, a). _ k a \<or> _ k a"] cache_inv_filter)

lemma cache_reachable_inv: "cache_reachable d (c, ts) \<Longrightarrow> cache_inv c ts"
proof -
  have "cache_reachable d s \<Longrightarrow> case_prod cache_inv s" for s
    by (induction rule: cache_reachable.induct)
      (auto simp: cache_step_inv, auto simp: cache_inv_def empty_cache_def)
  then show "cache_reachable d (c, ts) \<Longrightarrow> cache_inv c ts" by fastforce
qed

section \<open>One action at a time\<close>

text \<open>
  Callers of a \<open>TimeoutCache\<close> never run the action of one key at the same time: whatever
  removals, retains and prunes run in between, every caller of the key holds the same entry, so
  its lock lets one act at most.
\<close>

theorem timeout_cache_exclusive:
  assumes "cache_reachable d (c, ts)"
  shows "length (filter (acting_for k) ts) \<le> 1"
proof (cases "filter (acting_for k) ts")
  case (Cons t rest)
  then have "t \<in> set (filter (acting_for k) ts)" by simp
  then obtain a where t: "t = Acting k a" "t \<in> set ts" by (auto simp: acting_for_def)
  note inv = cache_reachable_inv [OF assms]
  have "acting_for k u = (acting_on a u)" if "u \<in> set ts" for u
  proof -
    have "u = Acting k b \<Longrightarrow> b = a" for b
      using cache_invD(4) [OF inv, of u] cache_invD(4) [OF inv, of t] cache_invD(1) [OF inv] t that
      by (auto dest: eq_key_imp_eq_value)
    moreover have "u = Acting k' a \<Longrightarrow> k' = k" for k'
      using cache_invD(4) [OF inv, of u] cache_invD(4) [OF inv, of t] cache_invD(2) [OF inv] t that
      by (fastforce simp: distinct_map inj_on_def)
    ultimately show ?thesis by (auto simp: acting_for_def acting_on_def)
  qed
  then have "filter (acting_for k) ts = filter (acting_on a) ts" by (rule filter_cong [OF refl])
  with cache_invD(6) [OF inv] show ?thesis by simp
qed simp

lemma timeout_cache_exclusive_witness:
  "\<exists>c. cache_reachable (0 :: nat) (c, [Waiting ''img'' 0, Acting ''img'' 0]) \<and>
     length (filter (acting_for ''img'') [Waiting ''img'' 0, Acting ''img'' 0]) \<le> 1"
proof -
  let ?c0 = "empty_cache 0 :: (string, nat) timeout_cache"
  obtain c1 where g1: "get_lock 0 ''img'' ?c0 = (0, c1)" "map_of (tc_map c1) ''img'' = Some 0"
    by (simp add: get_lock_def empty_cache_def Let_def)
  have r1: "cache_reachable 0 (c1, [Waiting ''img'' 0])"
    using cache_reachable.more [OF cache_reachable.start cache_step.take [OF g1(1)]] .
  have r2: "cache_reachable 0 (c1, [Acting ''img'' 0])"
    using cache_reachable.more [OF r1 cache_step.lock [of "[]" "[]" 0, simplified]] by simp
  obtain c2 where g2: "get_lock 0 ''img'' c1 = (0, c2)" using g1(2) by (simp add: get_lock_def)
  have "cache_reachable 0 (c2, [Waiting ''img'' 0, Acting ''img'' 0])"
    using cache_reachable.more [OF r2 cache_step.take [OF g2]] .
  with timeout_cache_exclusive [OF this, of "''img''"] show ?thesis by blast
qed

section \<open>Keyed caches\<close>

text \<open>\<open>CloneCache\<close>, a map under a lock.\<close>

type_synonym ('k, 'v) clone_cache = "('k \<times> 'v) list"

definition cc_get :: "'k \<Rightarrow> ('k, 'v) clone_cache \<Rightarrow> 'v option" where
  "cc_get k c = map_of c k"

definition cc_keys :: "('k, 'v) clone_cache \<Rightarrow> 'k list" where
  "cc_keys c = map fst c"

definition cc_values :: "('k, 'v) clone_cache \<Rightarrow> 'v list" where
  "cc_values c = map snd c"

definition cc_remove :: "'k \<Rightarrow> ('k, 'v) clone_cache \<Rightarrow> 'v option \<times> ('k, 'v) clone_cache" where
  "cc_remove k c = (map_of c k, filter (\<lambda>p. fst p \<noteq> k) c)"

definition cc_insert :: "'k \<Rightarrow> 'v \<Rightarrow> ('k, 'v) clone_cache \<Rightarrow> 'v option \<times> ('k, 'v) clone_cache" where
  "cc_insert k v c = (map_of c k, (k, v) # filter (\<lambda>p. fst p \<noteq> k) c)"

text \<open>\<open>retain\<close> may change a value it keeps.\<close>

fun cc_retain :: "('k \<Rightarrow> 'v \<Rightarrow> bool \<times> 'v) \<Rightarrow> ('k, 'v) clone_cache \<Rightarrow> ('k, 'v) clone_cache" where
  "cc_retain f [] = []"
| "cc_retain f ((k, v) # c) =
     (case f k v of (keep, v') \<Rightarrow> if keep then (k, v') # cc_retain f c else cc_retain f c)"

definition cc_get_or_insert_with :: "'k \<Rightarrow> 'v \<Rightarrow> ('k, 'v) clone_cache \<Rightarrow> 'v \<times> ('k, 'v) clone_cache" where
  "cc_get_or_insert_with k d c = (case cc_get k c of
     Some v \<Rightarrow> (v, c) | None \<Rightarrow> (d, snd (cc_insert k d c)))"

text \<open>\<open>CloneVecCache\<close>, items found by a predicate. \<open>swap_remove\<close> puts the last item into the gap.\<close>

definition swap_remove :: "nat \<Rightarrow> 'v list \<Rightarrow> 'v list" where
  "swap_remove i xs = butlast (xs[i := last xs])"

definition vc_find :: "('v \<Rightarrow> bool) \<Rightarrow> 'v list \<Rightarrow> 'v option" where
  "vc_find f c = List.find f c"

definition vc_insert :: "('v \<Rightarrow> bool) \<Rightarrow> 'v \<Rightarrow> 'v list \<Rightarrow> 'v option \<times> 'v list" where
  "vc_insert f v c = (case find_pos f c of
     Some i \<Rightarrow> (Some (c ! i), c[i := v]) | None \<Rightarrow> (None, c @ [v]))"

definition vc_remove :: "('v \<Rightarrow> bool) \<Rightarrow> 'v list \<Rightarrow> 'v option \<times> 'v list" where
  "vc_remove f c = (case find_pos f c of
     None \<Rightarrow> (None, c) | Some i \<Rightarrow> (Some (c ! i), swap_remove i c))"

definition vc_find_or_insert_with :: "('v \<Rightarrow> bool) \<Rightarrow> 'v \<Rightarrow> 'v list \<Rightarrow> 'v \<times> 'v list" where
  "vc_find_or_insert_with f d c = (case vc_find f c of Some v \<Rightarrow> (v, c) | None \<Rightarrow> (d, c @ [d]))"

text \<open>\<open>SetCache\<close>.\<close>

definition sc_insert :: "'k \<Rightarrow> 'k set \<Rightarrow> bool \<times> 'k set" where
  "sc_insert k s = (k \<notin> s, insert k s)"

definition sc_remove :: "'k \<Rightarrow> 'k set \<Rightarrow> bool \<times> 'k set" where
  "sc_remove k s = (k \<in> s, s - {k})"

text \<open>
  The contract of both: items have keys, at most one item has a key, and a lookup gives the item
  put last. \<open>fill\<close> is the \<open>get_or_insert_with\<close> of each.
\<close>

locale keyed_cache =
  fixes inv :: "'c \<Rightarrow> bool" and look :: "'k \<Rightarrow> 'c \<Rightarrow> 'v option"
    and put :: "'k \<Rightarrow> 'v \<Rightarrow> 'c \<Rightarrow> 'v option \<times> 'c" and del :: "'k \<Rightarrow> 'c \<Rightarrow> 'v option \<times> 'c"
    and fill :: "'k \<Rightarrow> 'v \<Rightarrow> 'c \<Rightarrow> 'v \<times> 'c" and fits :: "'k \<Rightarrow> 'v \<Rightarrow> bool"
  assumes put_law: "inv c \<Longrightarrow> fits k v \<Longrightarrow> put k v c = (old, c') \<Longrightarrow>
      inv c' \<and> old = look k c \<and> look k' c' = (if k' = k then Some v else look k' c)"
    and del_law: "inv c \<Longrightarrow> del k c = (old, c') \<Longrightarrow>
      inv c' \<and> old = look k c \<and> look k' c' = (if k' = k then None else look k' c)"
    and fill_law: "inv c \<Longrightarrow> fits k v \<Longrightarrow> fill k v c = (w, c') \<Longrightarrow> inv c' \<and>
      w = (case look k c of Some x \<Rightarrow> x | None \<Rightarrow> v) \<and>
      look k' c' = (if k' = k then Some w else look k' c) \<and> (look k c \<noteq> None \<longrightarrow> c' = c)"
begin

text \<open>The second of two fills finds what the first left, and changes nothing.\<close>

lemma fill_once:
  assumes "inv c" "fits k v" "fits k v'" "fill k v c = (w, c')"
  shows "fill k v' c' = (w, c')"
proof -
  have c': "inv c'" "look k c' = Some w" using fill_law [OF assms(1,2,4), of k] by auto
  obtain w2 c2 where f: "fill k v' c' = (w2, c2)" by (cases "fill k v' c'")
  with fill_law [OF c'(1) assms(3) f, of k] c'(2) show ?thesis by simp
qed

lemma del_put:
  assumes "inv c" "fits k v" "put k v c = (old, c1)" "del k c1 = (old1, c2)"
  shows "old1 = Some v" "look k c2 = None" "k' \<noteq> k \<Longrightarrow> look k' c2 = look k' c"
  using put_law [OF assms(1-3), of k] put_law [OF assms(1-3), of k'] assms(4)
    del_law [of c1 k old1 c2 k] del_law [of c1 k old1 c2 k'] by auto

end

lemma map_of_filter_key: "map_of (filter (\<lambda>p. fst p \<noteq> k) c) = (map_of c)(k := None)"
  by (induction c) (auto simp: fun_eq_iff)

interpretation cc: keyed_cache "\<lambda>_. True" cc_get cc_insert cc_remove cc_get_or_insert_with "\<lambda>_ _. True"
  by unfold_locales
    (auto simp: cc_get_def cc_insert_def cc_remove_def cc_get_or_insert_with_def map_of_filter_key
      split: option.splits)

text \<open>A \<open>CloneVecCache\<close> searched by key, with at most one item of a key.\<close>

definition keyed :: "('v \<Rightarrow> 'k) \<Rightarrow> 'k \<Rightarrow> 'v \<Rightarrow> bool" where
  "keyed key k v \<longleftrightarrow> key v = k"

lemma find_keyed:
  assumes "distinct (map key c)"
  shows "vc_find (keyed key k) c = Some v \<longleftrightarrow> v \<in> set c \<and> key v = k"
  using assms by (induction c) (auto simp: vc_find_def keyed_def)

lemma find_keyed_eqI:
  assumes "distinct (map key c)" "\<And>v. v \<in> set c \<and> key v = k \<longleftrightarrow> r = Some v"
  shows "vc_find (keyed key k) c = r"
  using find_keyed [OF assms(1), of k] assms(2) by (cases r; cases "vc_find (keyed key k) c") auto

lemma find_vc_None: "vc_find f c = None \<longleftrightarrow> (\<forall>x \<in> set c. \<not> f x)"
  by (induction c) (auto simp: vc_find_def)

lemma swap_remove_snoc:
  "i \<le> length ys \<Longrightarrow> swap_remove i (ys @ [z]) = (if i = length ys then ys else ys[i := z])"
  by (auto simp: swap_remove_def list_update_append)

lemma mset_swap_remove:
  assumes "i < length xs"
  shows "mset xs = add_mset (xs ! i) (mset (swap_remove i xs))"
proof (cases xs rule: rev_cases)
  case (snoc ys z)
  show ?thesis
  proof (cases "i = length ys")
    case False
    then have "i < length ys" using assms snoc by simp
    then show ?thesis
      using snoc nth_mem_mset [of i ys]
      by (simp add: swap_remove_snoc nth_append mset_update)
  qed (simp add: snoc swap_remove_snoc)
qed (use assms in simp)

lemma vc_remove_keyed:
  assumes "distinct (map key c)" "vc_remove (keyed key k) c = (old, c')"
  shows "old = vc_find (keyed key k) c" "distinct (map key c')"
    "v \<in> set c' \<longleftrightarrow> v \<in> set c \<and> key v \<noteq> k"
proof -
  have "old = vc_find (keyed key k) c \<and> distinct (map key c') \<and>
    (v \<in> set c' \<longleftrightarrow> v \<in> set c \<and> key v \<noteq> k)"
  proof (cases "find_pos (keyed key k) c")
    case None
    then have "\<forall>x \<in> set c. key x \<noteq> k" by (simp add: find_pos_None keyed_def)
    moreover from this have "vc_find (keyed key k) c = None" by (simp add: find_vc_None keyed_def)
    ultimately show ?thesis using None assms by (auto simp: vc_remove_def)
  next
    case (Some i)
    then have i: "i < length c" "key (c ! i) = k" by (auto dest: find_pos_Some simp: keyed_def)
    have r: "old = Some (c ! i)" "c' = swap_remove i c" using Some assms(2) by (auto simp: vc_remove_def)
    have m: "mset c = add_mset (c ! i) (mset c')" using mset_swap_remove [OF i(1)] r(2) by simp
    have "mset (map key c) = add_mset k (mset (map key c'))" using i(2) by (simp add: m)
    then have "mset (map key c) = mset (k # map key c')" by simp
    then have d: "distinct (k # map key c')" using assms(1) by (metis mset_eq_imp_distinct_iff)
    have "set c = insert (c ! i) (set c')" using m by (metis set_mset_add_mset_insert set_mset_mset)
    moreover have "vc_find (keyed key k) c = Some (c ! i)"
      using i assms(1) by (simp add: find_keyed)
    ultimately show ?thesis using d i(2) r(1) by (simp add: image_iff) metis
  qed
  then show "old = vc_find (keyed key k) c" "distinct (map key c')"
    "v \<in> set c' \<longleftrightarrow> v \<in> set c \<and> key v \<noteq> k" by blast+
qed

lemma vc_insert_keyed:
  assumes "distinct (map key c)" "key w = k" "vc_insert (keyed key k) w c = (old, c')"
  shows "old = vc_find (keyed key k) c" "distinct (map key c')"
    "v \<in> set c' \<longleftrightarrow> v = w \<or> v \<in> set c \<and> key v \<noteq> k"
proof -
  have "old = vc_find (keyed key k) c \<and> distinct (map key c') \<and>
    (v \<in> set c' \<longleftrightarrow> v = w \<or> v \<in> set c \<and> key v \<noteq> k)"
  proof (cases "find_pos (keyed key k) c")
    case None
    then have "\<forall>x \<in> set c. key x \<noteq> k" by (simp add: find_pos_None keyed_def)
    moreover from this have "vc_find (keyed key k) c = None" by (simp add: find_vc_None keyed_def)
    moreover have "old = None" "c' = c @ [w]" using None assms(3) by (auto simp: vc_insert_def)
    ultimately show ?thesis using assms(1,2) by (simp add: image_iff) metis
  next
    case (Some i)
    then have i: "i < length c" "key (c ! i) = k" by (auto dest: find_pos_Some simp: keyed_def)
    have r: "old = Some (c ! i)" "c' = c[i := w]" using Some assms(3) by (auto simp: vc_insert_def)
    have "map key c' = map key c" using i assms(2) by (simp add: r(2) map_update)
      (metis length_map list_update_id nth_map)
    moreover have "v \<in> set c' \<longleftrightarrow> v = w \<or> v \<in> set c \<and> key v \<noteq> k"
    proof -
      have "distinct c" using assms(1) by (simp add: distinct_map)
      then have "set c' = insert w (set c - {c ! i})" using i(1) by (simp add: r(2) set_update_distinct)
      moreover have "u \<in> set c \<Longrightarrow> key u = k \<Longrightarrow> u = c ! i" for u
        using assms(1) i by (auto simp: distinct_map inj_on_def)
      ultimately show ?thesis using i(2) by auto
    qed
    moreover have "vc_find (keyed key k) c = Some (c ! i)"
      using i assms(1) by (simp add: find_keyed)
    ultimately show ?thesis using assms(1) r(1) by simp
  qed
  then show "old = vc_find (keyed key k) c" "distinct (map key c')"
    "v \<in> set c' \<longleftrightarrow> v = w \<or> v \<in> set c \<and> key v \<noteq> k" by blast+
qed

lemma find_after:
  assumes "distinct (map key c')" "\<And>v. v \<in> set c' \<longleftrightarrow> v = w \<or> v \<in> set c \<and> key v \<noteq> k"
    and "key w = k" "distinct (map key c)"
  shows "vc_find (keyed key k') c' = (if k' = k then Some w else vc_find (keyed key k') c)"
  by (rule find_keyed_eqI [OF assms(1)])
    (use assms(2,3) find_keyed [OF assms(4), of k'] in auto)

interpretation vc: keyed_cache "\<lambda>c. distinct (map key c)" "\<lambda>k. vc_find (keyed key k)"
  "\<lambda>k. vc_insert (keyed key k)" "\<lambda>k. vc_remove (keyed key k)"
  "\<lambda>k. vc_find_or_insert_with (keyed key k)" "\<lambda>k v. key v = k"
  for key
proof unfold_locales
  fix c k v old c' k'
  assume *: "distinct (map key c)" "key v = k" "vc_insert (keyed key k) v c = (old, c')"
  note I = vc_insert_keyed [OF *]
  show "distinct (map key c') \<and> old = vc_find (keyed key k) c \<and>
    vc_find (keyed key k') c' = (if k' = k then Some v else vc_find (keyed key k') c)"
    using I(1,2) find_after [OF I(2,3) *(2,1)] by blast
next
  fix c k old c' k'
  assume *: "distinct (map key c)" "vc_remove (keyed key k) c = (old, c')"
  note R = vc_remove_keyed [OF *]
  have "vc_find (keyed key k') c' = (if k' = k then None else vc_find (keyed key k') c)"
    by (rule find_keyed_eqI [OF R(2)]) (use R(3) find_keyed [OF *(1), of k'] in auto)
  with R(1,2) show "distinct (map key c') \<and> old = vc_find (keyed key k) c \<and>
    vc_find (keyed key k') c' = (if k' = k then None else vc_find (keyed key k') c)" by blast
next
  fix c k v w c' k'
  assume *: "distinct (map key c)" "key v = k" "vc_find_or_insert_with (keyed key k) v c = (w, c')"
  show "distinct (map key c') \<and> w = (case vc_find (keyed key k) c of Some x \<Rightarrow> x | None \<Rightarrow> v) \<and>
    vc_find (keyed key k') c' = (if k' = k then Some w else vc_find (keyed key k') c) \<and>
    (vc_find (keyed key k) c \<noteq> None \<longrightarrow> c' = c)"
  proof (cases "vc_find (keyed key k) c")
    case None
    then have n: "\<forall>x \<in> set c. key x \<noteq> k" by (simp add: find_vc_None keyed_def)
    have c': "c' = c @ [v]" "w = v" using None *(3) by (auto simp: vc_find_or_insert_with_def)
    have d: "distinct (map key c')" using *(1,2) n by (auto simp: c')
    have "u \<in> set c' \<longleftrightarrow> u = v \<or> u \<in> set c \<and> key u \<noteq> k" for u using n by (auto simp: c')
    from find_after [OF d this *(2,1)] d None c'(2) show ?thesis by simp
  qed (use * in \<open>auto simp: vc_find_or_insert_with_def\<close>)
qed

text \<open>
  A cache of items with distinct keys inserts the item of a key at most once: after
  \<open>find_or_insert_with\<close>, a second call for the key, whatever it would insert, gives the first
  call's item and leaves the cache as it is.
\<close>

theorem find_or_insert_once:
  assumes "distinct (map key c)" "key v = k" "key v' = k"
    and "vc_find_or_insert_with (keyed key k) v c = (w, c')"
  shows "vc_find_or_insert_with (keyed key k) v' c' = (w, c') \<and> distinct (map key c')"
  using vc.fill_once [OF assms] vc.fill_law [OF assms(1,2,4)] by blast

lemma find_or_insert_once_witness:
  "vc_find_or_insert_with (keyed fst 2) (2, True) [(1 :: nat, False), (2, False)] =
     ((2, False), [(1, False), (2, False)])"
  using find_or_insert_once [of fst "[(1 :: nat, False)]" "(2, False)" 2 "(2, True)"
      "(2, False)" "[(1, False), (2, False)]"]
  by (simp add: vc_find_or_insert_with_def vc_find_def keyed_def)

end
