(* ===== verification/LoadCache.thy ===== *)
theory LoadCache
  imports Prelude "HOL-Library.Word"
begin

text \<open>
  The cache of values loaded over the network, \<^verbatim>\<open>auth/server/src/provider/load_cache.rs\<close>:
  when a value is current, when the last one may stand in for a source that fails, and when the
  source is asked again. A load takes time and other callers run meanwhile, so \<open>load\<close> is its three
  locked sections: the two looks at the cache (before and after waiting for the key's turn) and
  the storing of what was loaded. Instants are passed to each.
\<close>

section \<open>The cache\<close>

definition LOAD_TIMEOUT :: duration where "LOAD_TIMEOUT = secs 15"
definition RETRY_FAILED_LOAD_AFTER :: duration where "RETRY_FAILED_LOAD_AFTER = secs 30"
definition MAX_STALE_AGE :: duration where "MAX_STALE_AGE = secs 3600"

definition duration_max :: duration where
  "duration_max = 2 ^ 64 * 1000000000 - 1"

definition duration_saturating_add :: "duration \<Rightarrow> duration \<Rightarrow> duration" where
  "duration_saturating_add a b = min (a + b) duration_max"

record 'v load_entry =
  fingerprint :: "64 word"
  loaded_value :: "(instant \<times> 'v) option"
  failed_at :: "instant option"

datatype load_state = Fresh | Stale | FailedRecently | Load

definition usable_while_failing :: "duration option \<Rightarrow> duration \<Rightarrow> bool" where
  "usable_while_failing valid_for age = (case valid_for of
     None \<Rightarrow> True | Some v \<Rightarrow> age < duration_saturating_add v MAX_STALE_AGE)"

definition load_state_of ::
  "duration option \<Rightarrow> duration option \<Rightarrow> duration option \<Rightarrow> load_state" where
  "load_state_of valid_for value_age failed_ago =
     (if (case value_age of None \<Rightarrow> False
          | Some age \<Rightarrow> (case valid_for of None \<Rightarrow> True | Some v \<Rightarrow> age < v)) then Fresh
      else if (case failed_ago of None \<Rightarrow> False | Some ago \<Rightarrow> ago < RETRY_FAILED_LOAD_AFTER) then
        (if (case value_age of None \<Rightarrow> False | Some age \<Rightarrow> usable_while_failing valid_for age)
         then Stale else FailedRecently)
      else Load)"

type_synonym 'v load_entries = "string \<Rightarrow> 'v load_entry option"

datatype load_error = Load_Failed_Recently | Load_Error string | Load_Timeout

text \<open>\<open>get(key).filter(fingerprint)\<close>.\<close>

definition entry_for :: "'v load_entries \<Rightarrow> string \<Rightarrow> 64 word \<Rightarrow> 'v load_entry option" where
  "entry_for es key fp = (case es key of
     Some e \<Rightarrow> if fingerprint e = fp then Some e else None | None \<Rightarrow> None)"

definition cached ::
  "'v load_entries \<Rightarrow> string \<Rightarrow> 64 word \<Rightarrow> duration option \<Rightarrow> instant \<Rightarrow> load_error + 'v option" where
  "cached es key fp valid_for now =
     (let entry = entry_for es key fp;
          val = Option.bind entry loaded_value;
          failed = Option.bind entry failed_at
      in case load_state_of valid_for (map_option (\<lambda>(t, _). now - t) val)
           (map_option (\<lambda>t. now - t) failed) of
        Fresh \<Rightarrow> Inr (map_option snd val)
      | Stale \<Rightarrow> Inr (map_option snd val)
      | FailedRecently \<Rightarrow> Inl Load_Failed_Recently
      | Load \<Rightarrow> Inr None)"

text \<open>What \<open>timeout(load())\<close> gives: the result of a load in time, \<open>None\<close> past the timeout.\<close>

definition timed_load :: "(string + 'v) option \<Rightarrow> load_error + 'v" where
  "timed_load r = (case r of
     None \<Rightarrow> Inl Load_Timeout | Some (Inl e) \<Rightarrow> Inl (Load_Error e) | Some (Inr v) \<Rightarrow> Inr v)"

definition store_load ::
  "'v load_entries \<Rightarrow> string \<Rightarrow> 64 word \<Rightarrow> duration option \<Rightarrow> instant \<Rightarrow> load_error + 'v \<Rightarrow>
   (load_error + 'v) \<times> 'v load_entries" where
  "store_load es key fp valid_for now loaded =
     (let previous = Option.bind (entry_for es key fp) loaded_value in
      case loaded of
        Inr v \<Rightarrow>
          (Inr v, es(key \<mapsto> \<lparr>fingerprint = fp, loaded_value = Some (now, v), failed_at = None\<rparr>))
      | Inl e \<Rightarrow>
          let stale = (case previous of None \<Rightarrow> None
                 | Some (t, v) \<Rightarrow> if usable_while_failing valid_for (now - t) then Some v else None)
          in (case stale of Some v \<Rightarrow> Inr v | None \<Rightarrow> Inl e,
              es(key \<mapsto> \<lparr>fingerprint = fp, loaded_value = previous, failed_at = Some now\<rparr>)))"

definition evict_load :: "string \<Rightarrow> 'v load_entries \<Rightarrow> 'v load_entries" where
  "evict_load key es = es(key := None)"

definition retain_loads :: "(string \<Rightarrow> bool) \<Rightarrow> 'v load_entries \<Rightarrow> 'v load_entries" where
  "retain_loads keep es = (\<lambda>key. if keep key then es key else None)"

section \<open>Callers\<close>

text \<open>
  A caller looks at the cache (\<open>Looking\<close>), takes the key's turn and looks again, loads
  (\<open>Loading\<close>) and stores. The turn is a lock per key; \<open>evict\<close> and \<open>retain\<close> drop it, after which
  another caller may load the key at the same time. \<open>sources\<close> is every value a load returned.
\<close>

datatype load_task =
    Looking string "64 word" "duration option"
  | Loading string "64 word" "duration option"

record 'v load_system =
  load_entries :: "'v load_entries"
  load_tasks :: "load_task list"
  load_clock :: instant
  sources :: "(string \<times> 64 word \<times> instant \<times> 'v) set"
  served :: "(string \<times> 64 word \<times> duration option \<times> instant \<times> 'v) list"

definition no_loads :: "'v load_system" where
  "no_loads = \<lparr>load_entries = (\<lambda>_. None), load_tasks = [], load_clock = 0, sources = {}, served = []\<rparr>"

definition serve :: "string \<Rightarrow> 64 word \<Rightarrow> duration option \<Rightarrow> 'v \<Rightarrow> 'v load_system \<Rightarrow> 'v load_system" where
  "serve k fp vf v s = s\<lparr>served := (k, fp, vf, load_clock s, v) # served s\<rparr>"

inductive load_step :: "'v load_system \<Rightarrow> 'v load_system \<Rightarrow> bool" where
  wait: "load_clock s \<le> t \<Longrightarrow> load_step s (s\<lparr>load_clock := t\<rparr>)"
| hit: "cached (load_entries s) k fp vf (load_clock s) = Inr (Some v) \<Longrightarrow>
    load_step s (serve k fp vf v s)"
| miss: "cached (load_entries s) k fp vf (load_clock s) = Inr None \<Longrightarrow>
    load_step s (s\<lparr>load_tasks := Looking k fp vf # load_tasks s\<rparr>)"
| look_hit: "load_tasks s = xs @ Looking k fp vf # ys \<Longrightarrow>
    cached (load_entries s) k fp vf (load_clock s) = Inr (Some v) \<Longrightarrow>
    load_step s (serve k fp vf v (s\<lparr>load_tasks := xs @ ys\<rparr>))"
| look_failed: "load_tasks s = xs @ Looking k fp vf # ys \<Longrightarrow>
    cached (load_entries s) k fp vf (load_clock s) = Inl e \<Longrightarrow>
    load_step s (s\<lparr>load_tasks := xs @ ys\<rparr>)"
| look_load: "load_tasks s = xs @ Looking k fp vf # ys \<Longrightarrow>
    cached (load_entries s) k fp vf (load_clock s) = Inr None \<Longrightarrow>
    load_step s (s\<lparr>load_tasks := xs @ Loading k fp vf # ys\<rparr>)"
| loaded: "load_tasks s = xs @ Loading k fp vf # ys \<Longrightarrow>
    store_load (load_entries s) k fp vf (load_clock s) (Inr v) = (Inr w, es) \<Longrightarrow>
    load_step s (serve k fp vf w (s\<lparr>load_entries := es, load_tasks := xs @ ys,
                   sources := insert (k, fp, load_clock s, v) (sources s)\<rparr>))"
| failed_stale: "load_tasks s = xs @ Loading k fp vf # ys \<Longrightarrow>
    store_load (load_entries s) k fp vf (load_clock s) (Inl e) = (Inr w, es) \<Longrightarrow>
    load_step s (serve k fp vf w (s\<lparr>load_entries := es, load_tasks := xs @ ys\<rparr>))"
| failed: "load_tasks s = xs @ Loading k fp vf # ys \<Longrightarrow>
    store_load (load_entries s) k fp vf (load_clock s) (Inl e) = (Inl e', es) \<Longrightarrow>
    load_step s (s\<lparr>load_entries := es, load_tasks := xs @ ys\<rparr>)"
| cancel: "load_tasks s = xs @ t # ys \<Longrightarrow> load_step s (s\<lparr>load_tasks := xs @ ys\<rparr>)"
| evict: "load_step s (s\<lparr>load_entries := evict_load k (load_entries s)\<rparr>)"
| retain: "load_step s (s\<lparr>load_entries := retain_loads keep (load_entries s)\<rparr>)"

inductive load_reachable :: "'v load_system \<Rightarrow> bool" where
  start: "load_reachable no_loads"
| more: "load_reachable s \<Longrightarrow> load_step s s' \<Longrightarrow> load_reachable s'"

text \<open>How old a value a caller with \<open>valid_for\<close> may be given.\<close>

definition usable_age :: "duration option \<Rightarrow> duration \<Rightarrow> bool" where
  "usable_age valid_for age = (case valid_for of None \<Rightarrow> True | Some v \<Rightarrow> age < v + MAX_STALE_AGE)"

definition load_inv :: "'v load_system \<Rightarrow> bool" where
  "load_inv s \<longleftrightarrow>
     (\<forall>k e t v. load_entries s k = Some e \<longrightarrow> loaded_value e = Some (t, v) \<longrightarrow>
        t \<le> load_clock s \<and> (k, fingerprint e, t, v) \<in> sources s) \<and>
     (\<forall>k fp vf t v. (k, fp, vf, t, v) \<in> set (served s) \<longrightarrow>
        (\<exists>t0. (k, fp, t0, v) \<in> sources s \<and> usable_age vf (t - t0)))"

lemma usable_while_failing_age: "usable_while_failing vf age \<Longrightarrow> usable_age vf age"
  by (auto simp: usable_while_failing_def usable_age_def duration_saturating_add_def split: option.splits)

lemma load_state_usable:
  "load_state_of vf (Some age) fa \<in> {Fresh, Stale} \<Longrightarrow> usable_age vf age"
  by (auto simp: load_state_of_def usable_age_def dest: usable_while_failing_age
      split: option.splits if_splits)

text \<open>A value from the cache is of the caller's configuration and not too old.\<close>

lemma cached_value:
  assumes "cached es k fp vf now = Inr (Some v)"
  obtains e t where "es k = Some e" "fingerprint e = fp" "loaded_value e = Some (t, v)"
    "usable_age vf (now - t)"
proof -
  have "\<exists>e t. es k = Some e \<and> fingerprint e = fp \<and> loaded_value e = Some (t, v) \<and> usable_age vf (now - t)"
    using assms
    by (auto simp: cached_def Let_def entry_for_def load_state_usable bind_eq_Some_conv
        split: load_state.splits option.splits if_splits intro: load_state_usable)
  then show ?thesis using that by blast
qed

lemma entry_for_Some: "entry_for es k fp = Some e \<longleftrightarrow> es k = Some e \<and> fingerprint e = fp"
  by (auto simp: entry_for_def split: option.splits if_splits)

lemma load_inv_serve:
  assumes "load_inv s" "(k, fp, t0, v) \<in> sources s" "usable_age vf (load_clock s - t0)"
  shows "load_inv (serve k fp vf v s)"
  using assms unfolding load_inv_def serve_def by auto

lemma load_inv_cached:
  assumes "load_inv s" "cached (load_entries s) k fp vf (load_clock s) = Inr (Some v)"
  shows "load_inv (serve k fp vf v s)"
proof -
  obtain e t where e: "load_entries s k = Some e" "fingerprint e = fp" "loaded_value e = Some (t, v)"
    "usable_age vf (load_clock s - t)"
    using assms(2) by (rule cached_value)
  with assms(1) have "(k, fp, t, v) \<in> sources s" unfolding load_inv_def by blast
  with assms(1) e(4) show ?thesis by (blast intro: load_inv_serve)
qed

lemma load_inv_entries:
  assumes "load_inv s" "\<And>k' e. es k' = Some e \<Longrightarrow>
      load_entries s k' = Some e \<or> loaded_value e = None \<or>
      (\<exists>e0. load_entries s k' = Some e0 \<and> loaded_value e = loaded_value e0 \<and> fingerprint e = fingerprint e0)"
  shows "load_inv (s\<lparr>load_entries := es\<rparr>)"
  unfolding load_inv_def
proof (intro conjI allI impI)
  fix k e t v assume "load_entries (s\<lparr>load_entries := es\<rparr>) k = Some e" "loaded_value e = Some (t, v)"
  with assms(2) [of k e] assms(1)
  show "t \<le> load_clock (s\<lparr>load_entries := es\<rparr>)"
    "(k, fingerprint e, t, v) \<in> sources (s\<lparr>load_entries := es\<rparr>)"
    unfolding load_inv_def by (simp, metis option.distinct(1))+
qed (use assms(1) in \<open>auto simp: load_inv_def\<close>)

lemma load_inv_cong:
  assumes "load_inv s" "load_entries s' = load_entries s" "load_clock s \<le> load_clock s'"
    and "sources s' = sources s" "served s' = served s"
  shows "load_inv s'"
  using assms(1,3) unfolding load_inv_def assms(2,4,5) by (meson order.trans)

lemma load_inv_store:
  assumes inv: "load_inv s" and st: "store_load (load_entries s) k fp vf (load_clock s) (Inl e) = (r, es)"
  shows "load_inv (s\<lparr>load_entries := es\<rparr>)"
    and "r = Inr w \<Longrightarrow> load_inv (serve k fp vf w (s\<lparr>load_entries := es\<rparr>))"
proof -
  have es: "es = (load_entries s)(k \<mapsto> \<lparr>fingerprint = fp,
      loaded_value = Option.bind (entry_for (load_entries s) k fp) loaded_value,
      failed_at = Some (load_clock s)\<rparr>)"
    using st by (auto simp: store_load_def Let_def)
  show inv': "load_inv (s\<lparr>load_entries := es\<rparr>)"
    by (rule load_inv_entries [OF inv])
      (auto simp: es entry_for_def split: if_splits option.splits)
  assume "r = Inr w"
  then obtain t where p: "Option.bind (entry_for (load_entries s) k fp) loaded_value = Some (t, w)"
    "usable_while_failing vf (load_clock s - t)"
    using st by (auto simp: store_load_def Let_def split: option.splits if_splits)
  then obtain e0 where "load_entries s k = Some e0" "fingerprint e0 = fp" "loaded_value e0 = Some (t, w)"
    by (auto simp: bind_eq_Some_conv entry_for_Some)
  with inv have "(k, fp, t, w) \<in> sources s" unfolding load_inv_def by blast
  with p(2) show "load_inv (serve k fp vf w (s\<lparr>load_entries := es\<rparr>))"
    by (intro load_inv_serve [OF inv', where ?t0.0 = t]) (simp_all add: usable_while_failing_age)
qed

lemma load_inv_loaded:
  assumes inv: "load_inv s" and st: "store_load (load_entries s) k fp vf (load_clock s) (Inr v) = (Inr w, es)"
  shows "load_inv (serve k fp vf w (s\<lparr>load_entries := es, sources := insert (k, fp, load_clock s, v) (sources s)\<rparr>))"
proof -
  have es: "w = v" "es = (load_entries s)(k \<mapsto> \<lparr>fingerprint = fp, loaded_value = Some (load_clock s, v),
      failed_at = None\<rparr>)"
    using st by (auto simp: store_load_def Let_def)
  have "load_inv (s\<lparr>load_entries := es, sources := insert (k, fp, load_clock s, v) (sources s)\<rparr>)"
    using inv unfolding load_inv_def es by (auto split: if_splits) blast+
  then show ?thesis
    by (rule load_inv_serve [where ?t0.0 = "load_clock s"])
      (auto simp: es usable_age_def MAX_STALE_AGE_def split: option.split)
qed

lemma load_step_inv: "load_step s s' \<Longrightarrow> load_inv s \<Longrightarrow> load_inv s'"
proof (induction rule: load_step.induct)
  case (look_hit s xs k fp vf ys v)
  have "load_inv (s\<lparr>load_tasks := xs @ ys\<rparr>)" using look_hit(3) by (rule load_inv_cong) simp_all
  with look_hit(2) show ?case using load_inv_cached [of "s\<lparr>load_tasks := xs @ ys\<rparr>"] by simp
next
  case (loaded s xs k fp vf ys v w es)
  from load_inv_loaded [OF loaded(3,2)] show ?case
    by (rule load_inv_cong) (simp_all add: serve_def)
next
  case (failed_stale s xs k fp vf ys e w es)
  from load_inv_store(2) [OF failed_stale(3,2) refl] show ?case
    by (rule load_inv_cong) (simp_all add: serve_def)
next
  case (failed s xs k fp vf ys e e' es)
  from load_inv_store(1) [OF failed(3,2)] show ?case by (rule load_inv_cong) simp_all
next
  case (evict s k)
  then show ?case by (rule load_inv_entries) (simp add: evict_load_def split: if_splits)
next
  case (retain s keep)
  then show ?case by (rule load_inv_entries) (simp add: retain_loads_def split: if_splits)
next
  case (hit s k fp vf v)
  then show ?case by (rule load_inv_cached [rotated])
qed (auto elim!: load_inv_cong)

lemma load_reachable_inv: "load_reachable s \<Longrightarrow> load_inv s"
  by (induction rule: load_reachable.induct) (auto simp: load_step_inv, simp add: load_inv_def no_loads_def)

section \<open>What callers get\<close>

text \<open>
  Whatever the interleaving of callers, evictions and failing loads, a caller is only ever
  given a value that a load of its key with its own configuration returned, no longer than its
  \<open>valid_for\<close> and one hour ago.
\<close>

theorem served_values_current:
  assumes "load_reachable s" "(k, fp, vf, t, v) \<in> set (served s)"
  shows "\<exists>t0. (k, fp, t0, v) \<in> sources s \<and>
    (case vf of None \<Rightarrow> True | Some d \<Rightarrow> t - t0 < d + MAX_STALE_AGE)"
  using load_reachable_inv [OF assms(1)] assms(2) unfolding load_inv_def usable_age_def by blast

definition demo_entry :: "nat load_entry" where
  "demo_entry = \<lparr>fingerprint = 1, loaded_value = Some (0, 5), failed_at = None\<rparr>"

lemma served_values_current_witness:
  "\<exists>s :: nat load_system. load_reachable s \<and> (''k'', 1, Some 10, 0, 5) \<in> set (served s) \<and>
     (\<exists>t0. (''k'', 1, t0, 5) \<in> sources s \<and> 0 - t0 < 10 + MAX_STALE_AGE)"
proof -
  let ?s0 = "no_loads :: nat load_system"
  let ?s1 = "?s0\<lparr>load_tasks := [Looking ''k'' 1 (Some 10)]\<rparr>"
  let ?s2 = "?s0\<lparr>load_tasks := [Loading ''k'' 1 (Some 10)]\<rparr>"
  let ?s3 = "serve ''k'' 1 (Some 10) 5 (?s0\<lparr>load_entries := [''k'' \<mapsto> demo_entry],
    sources := {(''k'', 1, 0, 5)}\<rparr>)"
  have c: "cached (\<lambda>_. None :: nat load_entry option) ''k'' 1 (Some 10) 0 = Inr None"
    by (simp add: cached_def entry_for_def load_state_of_def)
  have "load_step ?s0 ?s1" "load_step ?s1 ?s2"
    using load_step.miss [of ?s0 "''k''" 1 "Some 10"]
      load_step.look_load [of ?s1 "[]" "''k''" 1 "Some 10" "[]"] c
    by (simp_all add: no_loads_def)
  moreover have "load_step ?s2 ?s3"
    using load_step.loaded [of ?s2 "[]" "''k''" 1 "Some 10" "[]" 5 5 "[''k'' \<mapsto> demo_entry]"]
    by (simp add: no_loads_def store_load_def demo_entry_def serve_def)
  ultimately have r: "load_reachable ?s3"
    by (meson load_reachable.start load_reachable.more)
  have m: "(''k'', 1, Some 10, 0, 5) \<in> set (served ?s3)" by (simp add: serve_def no_loads_def)
  with served_values_current [OF r m] r show ?thesis by auto
qed

text \<open>
  After a load fails the source is left alone: no look at the cache for the same
  configuration within 30 seconds asks for another load, callers get the previous value while it
  is usable and an error otherwise; once the 30 seconds are over and no value is current, the next
  look asks for a load again.
\<close>

theorem failed_load_backs_off:
  assumes "store_load es k fp vf t (Inl e) = (r, es')" "t \<le> now"
  shows "(now - t < RETRY_FAILED_LOAD_AFTER \<longrightarrow> cached es' k fp vf now \<noteq> Inr None) \<and>
    (RETRY_FAILED_LOAD_AFTER \<le> now - t \<longrightarrow> cached es' k fp vf now = Inr None \<or>
      (\<exists>t0 v. Option.bind (entry_for es k fp) loaded_value = Some (t0, v) \<and>
         (case vf of None \<Rightarrow> True | Some d \<Rightarrow> now - t0 < d)))"
proof -
  define p where "p = Option.bind (entry_for es k fp) loaded_value"
  have es': "entry_for es' k fp = Some \<lparr>fingerprint = fp, loaded_value = p, failed_at = Some t\<rparr>"
    using assms(1) by (auto simp: store_load_def Let_def entry_for_def p_def)
  show ?thesis
    unfolding cached_def es' p_def [symmetric]
    by (cases p) (auto simp: load_state_of_def Let_def split: load_state.splits if_splits option.splits)
qed

lemma failed_load_backs_off_witness:
  "cached (snd (store_load (\<lambda>_. None :: nat load_entry option) ''k'' 1 None 0 (Inl Load_Timeout)))
     ''k'' 1 None (secs 29) \<noteq> Inr None"
  using failed_load_backs_off [of "\<lambda>_. None :: nat load_entry option" "''k''" 1 None 0 Load_Timeout _ _ "secs 29",
      OF surjective_pairing]
  by (simp add: RETRY_FAILED_LOAD_AFTER_def)

end
