(* ===== verification/Validations.thy ===== *)
theory Validations
  imports Prelude
begin

text \<open>
  Input validation: the string validator of \<^verbatim>\<open>crates/validations/src/lib.rs\<close> and the
  username, password, api key name and url rules of \<^verbatim>\<open>auth/server/src/validations.rs\<close>.
  Strings are valid UTF-8 byte lists. The regular expressions are anchored character classes,
  written out as tests of every character; the \<open>url\<close> and \<open>bson\<close> crates are parameters.
\<close>

section \<open>Control characters\<close>

text \<open>
  \<open>char::is_control\<close> (general category Cc): U+0000..U+001F, U+007F and U+0080..U+009F, the
  latter C2 80..C2 9F in UTF-8. The index counts characters.
\<close>

fun find_control :: "nat \<Rightarrow> string \<Rightarrow> nat option" where
  "find_control i [] = None"
| "find_control i (a # s) =
     (if byte a < 32 \<or> byte a = 127 then Some i
      else if byte a = 0xC2 \<and> (case s of [] \<Rightarrow> False | b # _ \<Rightarrow> 0x80 \<le> byte b \<and> byte b < 0xA0)
        then Some i
      else find_control (if \<not> is_continuation (hd (s @ [CHR ''x''])) then Suc i else i) s)"

datatype validation_error =
    Too_Short nat
  | Too_Long nat
  | Control_Character nat
  | Invalid_Username
  | Is_Object_Id
  | Invalid_Variable_Name
  | Not_Http
  | Not_A_Url
  | Too_Many_Bytes

definition validate_no_control_chars :: "string \<Rightarrow> validation_error + unit" where
  "validate_no_control_chars s =
     (case find_control 0 s of Some i \<Rightarrow> Inl (Control_Character i) | None \<Rightarrow> Inr ())"

section \<open>The validator\<close>

datatype string_matches = Username | Variable_Name | Http_Url

record string_validator =
  sv_min_length :: nat
  sv_max_length :: "nat option"
  sv_skip_control_check :: bool
  sv_matches :: "string_matches option"

definition default_validator :: string_validator where
  "default_validator =
     \<lparr>sv_min_length = 0, sv_max_length = None, sv_skip_control_check = False, sv_matches = None\<rparr>"

definition is_username_char :: "char \<Rightarrow> bool" where
  "is_username_char c \<longleftrightarrow> is_ascii_alnum c \<or> c \<in> {CHR ''.'', CHR ''_'', CHR ''@'', CHR ''-''}"

definition is_variable_char :: "char \<Rightarrow> bool" where
  "is_variable_char c \<longleftrightarrow> is_ascii_alnum c \<or> c = CHR ''_''"

definition starts_with :: "string \<Rightarrow> string \<Rightarrow> bool" where
  "starts_with p s = prefix p s"

text \<open>\<open>is_oid\<close> is \<open>ObjectId::from_str(..).is_ok()\<close> with the \<open>bson\<close> feature, never true without.\<close>

definition validate_matches ::
  "(string \<Rightarrow> bool) \<Rightarrow> (string \<Rightarrow> bool) \<Rightarrow> string_matches \<Rightarrow> string \<Rightarrow> validation_error + unit" where
  "validate_matches is_oid is_url m s = (case m of
     Username \<Rightarrow>
       if s = [] \<or> \<not> list_all is_username_char s then Inl Invalid_Username
       else if is_oid s then Inl Is_Object_Id else Inr ()
   | Variable_Name \<Rightarrow>
       if s \<noteq> [] \<and> list_all is_variable_char s \<and> \<not> is_ascii_digit (hd s) then Inr ()
       else Inl Invalid_Variable_Name
   | Http_Url \<Rightarrow>
       if \<not> starts_with ''http://'' s \<and> \<not> starts_with ''https://'' s then Inl Not_Http
       else if is_url s then Inr () else Inl Not_A_Url)"

definition validate ::
  "(string \<Rightarrow> bool) \<Rightarrow> (string \<Rightarrow> bool) \<Rightarrow> string_validator \<Rightarrow> string \<Rightarrow> validation_error + unit" where
  "validate is_oid is_url v s =
     (let len = char_count s in
      if len < sv_min_length v then Inl (Too_Short (sv_min_length v))
      else if (case sv_max_length v of None \<Rightarrow> False | Some n \<Rightarrow> n < len)
        then Inl (Too_Long (the (sv_max_length v)))
      else res_bind (if sv_skip_control_check v then Inr () else validate_no_control_chars s)
        (\<lambda>_. case sv_matches v of None \<Rightarrow> Inr () | Some m \<Rightarrow> validate_matches is_oid is_url m s))"

section \<open>Usernames, passwords and api key names\<close>

definition MIN_USERNAME_LENGTH :: nat where "MIN_USERNAME_LENGTH = 1"
definition MAX_USERNAME_LENGTH :: nat where "MAX_USERNAME_LENGTH = 100"
definition MIN_PASSWORD_LENGTH :: nat where "MIN_PASSWORD_LENGTH = 8"
definition MAX_PASSWORD_BYTES :: nat where "MAX_PASSWORD_BYTES = 72"
definition MAX_PASSWORD_LENGTH :: nat where "MAX_PASSWORD_LENGTH = MAX_PASSWORD_BYTES"
definition MAX_API_KEY_NAME_LENGTH :: nat where "MAX_API_KEY_NAME_LENGTH = 200"

definition validate_username :: "(string \<Rightarrow> bool) \<Rightarrow> string \<Rightarrow> validation_error + unit" where
  "validate_username is_oid s = validate is_oid (\<lambda>_. False)
     (default_validator\<lparr>sv_min_length := MIN_USERNAME_LENGTH, sv_max_length := Some MAX_USERNAME_LENGTH,
        sv_matches := Some Username\<rparr>) s"

definition validate_password :: "string \<Rightarrow> validation_error + unit" where
  "validate_password s =
     res_bind (validate (\<lambda>_. False) (\<lambda>_. False)
       (default_validator\<lparr>sv_min_length := MIN_PASSWORD_LENGTH, sv_max_length := Some MAX_PASSWORD_LENGTH\<rparr>) s)
       (\<lambda>_. if MAX_PASSWORD_BYTES < length s then Inl Too_Many_Bytes else Inr ())"

definition validate_api_key_name :: "string \<Rightarrow> validation_error + unit" where
  "validate_api_key_name s = validate (\<lambda>_. False) (\<lambda>_. False)
     (default_validator\<lparr>sv_max_length := Some MAX_API_KEY_NAME_LENGTH\<rparr>) s"

text \<open>\<open>ct_eq\<close> on slices: false for different lengths, else every byte is compared.\<close>

definition constant_time_eq :: "string \<Rightarrow> string \<Rightarrow> bool" where
  "constant_time_eq a b \<longleftrightarrow> length a = length b \<and> foldl (\<lambda>ok (x, y). ok \<and> x = y) True (zip a b)"

lemma constant_time_eq_iff [simp]: "constant_time_eq a b \<longleftrightarrow> a = b"
proof -
  have "foldl (\<lambda>ok (x, y). ok \<and> x = y) ok ps \<longleftrightarrow> ok \<and> list_all (\<lambda>(x, y). x = y) ps"
    for ok and ps :: "(char \<times> char) list"
    by (induction ps arbitrary: ok) auto
  then show ?thesis
    by (auto simp: constant_time_eq_def list_all_length list_eq_iff_nth_eq)
qed

section \<open>Urls\<close>

record 'u urls =
  url_parse :: "string \<Rightarrow> 'u option"
  url_scheme_of :: "'u \<Rightarrow> string"
  url_username :: "'u \<Rightarrow> string"
  url_password :: "'u \<Rightarrow> string option"
  url_set_username :: "'u \<Rightarrow> string \<Rightarrow> 'u option"
  url_clear_password :: "'u \<Rightarrow> 'u option"
  url_text :: "'u \<Rightarrow> string"

datatype url_error = Invalid_Url | Wrong_Scheme | Has_Credentials

definition url_has_credentials :: "'u urls \<Rightarrow> 'u \<Rightarrow> bool" where
  "url_has_credentials U u \<longleftrightarrow> url_username U u \<noteq> [] \<or> url_password U u \<noteq> None"

definition validate_public_http_url :: "'u urls \<Rightarrow> string \<Rightarrow> url_error + unit" where
  "validate_public_http_url U url = (case url_parse U url of
     None \<Rightarrow> Inl Invalid_Url
   | Some u \<Rightarrow>
       if url_scheme_of U u \<notin> {''http'', ''https''} then Inl Wrong_Scheme
       else if url_has_credentials U u then Inl Has_Credentials
       else Inr ())"

definition rfind :: "char \<Rightarrow> string \<Rightarrow> nat option" where
  "rfind c s = map_option (\<lambda>i. length s - Suc i) (find_pos (\<lambda>x. x = c) (rev s))"

definition authority_end :: "string \<Rightarrow> nat" where
  "authority_end rest =
     (case find_pos (\<lambda>c. c \<in> {CHR ''/'', CHR ''?'', CHR ''#'', CHR 0x5C}) rest of
        Some i \<Rightarrow> i | None \<Rightarrow> length rest)"

text \<open>The part for urls which do not parse.\<close>

definition redact_text :: "string \<Rightarrow> string" where
  "redact_text url = (case find_sub ''://'' url of
     None \<Rightarrow> url
   | Some i \<Rightarrow>
       let start = i + 3; rest = drop start url in
       (case rfind (CHR ''@'') (take (authority_end rest) rest) of
          Some k \<Rightarrow> take start url @ ''***@'' @ drop (Suc k) rest
        | None \<Rightarrow> url))"

definition redact_url_credentials :: "'u urls \<Rightarrow> string \<Rightarrow> string" where
  "redact_url_credentials U url = (case url_parse U url of
     Some u \<Rightarrow>
       if \<not> url_has_credentials U u then url
       else (case Option.bind (url_set_username U u ''***'') (url_clear_password U) of
         Some u' \<Rightarrow> url_text U u'
       | None \<Rightarrow> redact_text url)
   | None \<Rightarrow> redact_text url)"

section \<open>What passes\<close>

text \<open>
  Passwords are bounded so that bcrypt, which hashes the first 72 bytes alone, uses all of
  every accepted one: a password passes only with 8 to 72 bytes and no control character, and two
  accepted passwords that agree on their first 72 bytes are the same.
\<close>

theorem accepted_passwords_whole:
  assumes "validate_password p = Inr ()"
  shows "MIN_PASSWORD_LENGTH \<le> char_count p \<and> length p \<le> 72 \<and> find_control 0 p = None \<and>
    (\<forall>q. validate_password q = Inr () \<longrightarrow> take 72 p = take 72 q \<longrightarrow> p = q)"
proof -
  have len: "length q \<le> 72" if "validate_password q = Inr ()" for q
    using that by (auto simp: validate_password_def MAX_PASSWORD_BYTES_def res_bind_Inr_iff split: if_splits)
  have "MIN_PASSWORD_LENGTH \<le> char_count p \<and> find_control 0 p = None"
    using assms by (auto simp: validate_password_def validate_def Let_def default_validator_def
        validate_no_control_chars_def res_bind_Inr_iff split: if_splits option.splits)
  with len [OF assms] len show ?thesis by auto
qed

lemma accepted_passwords_whole_witness:
  "validate_password ''correct horse'' = Inr () \<and> length ''correct horse'' \<le> 72"
proof -
  have "validate_password ''correct horse'' = Inr ()"
    by (simp add: validate_password_def validate_def default_validator_def char_count_def is_continuation_def
        validate_no_control_chars_def MIN_PASSWORD_LENGTH_def MAX_PASSWORD_LENGTH_def MAX_PASSWORD_BYTES_def)
  with accepted_passwords_whole [OF this] show ?thesis by blast
qed

lemma username_char_ascii: "is_username_char c \<Longrightarrow> 33 \<le> byte c \<and> byte c \<le> 122"
  by (auto simp: is_username_char_def is_ascii_alnum_def is_ascii_digit_def is_ascii_upper_def is_ascii_lower_def)

lemma find_control_ascii:
  assumes "\<forall>c \<in> set s. 33 \<le> byte c \<and> byte c \<le> 126"
  shows "find_control i s = None" "char_count s = length s"
proof -
  show "find_control i s = None"
    using assms by (induction i s rule: find_control.induct) auto
  show "char_count s = length s"
    using assms by (subst char_count_def, subst filter_True) (auto simp: is_continuation_def)
qed

text \<open>
  A username passes exactly when it has 1 to 100 characters, each an ASCII letter, a digit or
  one of \<open>. _ @ -\<close>, and is no object id; so it is printable ASCII and its characters are its bytes.
\<close>

theorem username_accepted_iff:
  "validate_username is_oid s = Inr () \<longleftrightarrow>
     1 \<le> length s \<and> length s \<le> 100 \<and> list_all is_username_char s \<and> \<not> is_oid s"
proof (cases "list_all is_username_char s")
  case True
  then have "\<forall>c \<in> set s. 33 \<le> byte c \<and> byte c \<le> 126"
    using username_char_ascii by (fastforce simp: list_all_iff)
  note A = find_control_ascii [OF this]
  show ?thesis
    using True A by (auto simp: validate_username_def validate_def default_validator_def Let_def
        validate_no_control_chars_def validate_matches_def MIN_USERNAME_LENGTH_def
        MAX_USERNAME_LENGTH_def res_bind_def Suc_le_eq)
next
  case False
  then show ?thesis
    by (auto simp: validate_username_def validate_def default_validator_def Let_def
        validate_matches_def res_bind_Inr_iff split: if_splits)
qed

lemma find_sub_prefix: "prefix p s \<Longrightarrow> find_sub p s = Some 0"
  by (simp add: find_sub.simps [of p s])

lemma find_sub_scheme:
  assumes "CHR '':'' \<notin> set scheme"
  shows "find_sub ''://'' (scheme @ ''://'' @ r) = Some (length scheme)"
  using assms
proof (induction scheme)
  case (Cons c scheme)
  then have "\<not> prefix ''://'' (c # scheme @ ''://'' @ r)" by auto
  with Cons show ?case by (simp add: find_sub.simps [of "''://''" "c # _"])
qed (simp add: find_sub_prefix)

lemma find_pos_append_None: "\<forall>x \<in> set xs. \<not> p x \<Longrightarrow> find_pos p (xs @ ys) = map_option ((+) (length xs)) (find_pos p ys)"
  by (induction xs) (auto simp: option.map_comp o_def option.map_ident cong: map_option_cong)

lemma rfind_last:
  assumes "c \<notin> set b"
  shows "rfind c (a @ c # b) = Some (length a)"
  using find_pos_append_None [of "rev b" "\<lambda>x. x = c" "c # rev a"] assms
  by (force simp: rfind_def)

text \<open>
  A url shown in a message or a log does not show its credentials: for a url that the \<open>url\<close>
  crate does not parse, everything between the scheme and the last \<open>@\<close> of the authority is
  replaced, whatever it is.
\<close>

theorem redacted_text_hides_userinfo:
  assumes "url_parse U (scheme @ ''://'' @ userinfo @ ''@'' @ host @ tail) = None"
    and "CHR '':'' \<notin> set scheme"
    and "\<forall>c \<in> set (userinfo @ host). c \<notin> {CHR ''/'', CHR ''?'', CHR ''#'', CHR 0x5C}"
    and "CHR ''@'' \<notin> set host"
    and "tail = [] \<or> hd tail \<in> {CHR ''/'', CHR ''?'', CHR ''#'', CHR 0x5C}"
  shows "redact_url_credentials U (scheme @ ''://'' @ userinfo @ ''@'' @ host @ tail) =
    scheme @ ''://***@'' @ host @ tail"
proof -
  let ?url = "scheme @ ''://'' @ userinfo @ ''@'' @ host @ tail"
  let ?rest = "userinfo @ ''@'' @ host @ tail"
  have f: "find_sub ''://'' ?url = Some (length scheme)"
    using assms(2) by (rule find_sub_scheme)
  have d: "drop (length scheme + 3) ?url = ?rest" "take (length scheme + 3) ?url = scheme @ ''://''" by simp_all
  have e: "authority_end ?rest = length (userinfo @ ''@'' @ host)"
    using find_pos_append_None [of "userinfo @ ''@'' @ host" "\<lambda>c. c \<in> {CHR ''/'', CHR ''?'', CHR ''#'', CHR 0x5C}" tail]
      assms(3,5) by (cases tail) (auto simp: authority_end_def)
  have "take (authority_end ?rest) ?rest = userinfo @ CHR ''@'' # host" unfolding e by simp
  then have "rfind (CHR ''@'') (take (authority_end ?rest) ?rest) = Some (length userinfo)"
    using rfind_last [OF assms(4)] by simp
  then show ?thesis
    using assms(1) f d by (simp add: redact_url_credentials_def redact_text_def Let_def)
qed

definition demo_urls :: "string urls" where
  "demo_urls = \<lparr>url_parse = (\<lambda>_. None), url_scheme_of = id, url_username = id, url_password = Some,
     url_set_username = (\<lambda>_ _. None), url_clear_password = Some, url_text = id\<rparr>"

lemma redacted_text_hides_userinfo_witness:
  "redact_url_credentials demo_urls ''https://bob:pw@[bad/path'' = ''https://***@[bad/path''"
  using redacted_text_hides_userinfo [of demo_urls "''https''" "''bob:pw''" "''[bad''" "''/path''"]
  by (simp add: demo_urls_def)

end
