(* ===== verification/AuthSession.thy ===== *)
theory AuthSession
  imports Prelude
begin

text \<open>
  What the login flows keep on a client's session, \<^verbatim>\<open>auth/server/src/session.rs\<close>: the
  completed external login, the second factor in progress with its count of attempts, the
  enrollments and the link begun. A slot of the session holds nothing, a value, or a value another
  version wrote that this one cannot read. The session of \<open>tower_sessions\<close> is the record of the
  slots with its id, the ids whose records were deleted, and whether it was modified (a modified
  session is saved, which extends its life). Ids are given to the operations that cycle them.
  \<open>'p\<close> is the passkey state of \<open>webauthn_rs\<close>, \<open>'t\<close> the TOTP of \<open>totp_rs\<close>.
\<close>

section \<open>The session\<close>

datatype 'a slot = Absent | Present 'a | Unreadable

type_synonym user_id = string
type_synonym unix_secs = nat

datatype login_kind =
    Local
  | Provider string string
  | Workload string string string string

record external_login =
  xl_provider_id :: string
  xl_link_user_id :: "user_id option"
  xl_state :: string
  xl_nonce :: "string option"
  xl_pkce_verifier :: "string option"
  xl_redirect :: "string option"

record ('p, 't) auth_session =
  as_id :: nat
  as_deleted :: "nat set"
  as_modified :: bool
  as_user :: "(user_id \<times> unix_secs) slot"                       \<comment> \<open>\<open>AUTHENTICATED_USER\<close>\<close>
  as_external :: "external_login slot"                          \<comment> \<open>\<open>EXTERNAL_LOGIN\<close>\<close>
  as_passkey :: "(user_id \<times> 'p \<times> unix_secs) slot"              \<comment> \<open>\<open>PASSKEY_LOGIN\<close>\<close>
  as_kind :: "login_kind slot"                                 \<comment> \<open>\<open>LOGIN_KIND\<close>\<close>
  as_totp :: "(user_id \<times> unix_secs) slot"                       \<comment> \<open>\<open>TOTP_LOGIN\<close>\<close>
  as_totp_attempts :: "nat slot"                                \<comment> \<open>\<open>TOTP_LOGIN_ATTEMPTS\<close>\<close>
  as_passkey_enrollment :: "(user_id \<times> 'p) slot"
  as_totp_enrollment :: "(user_id \<times> 't) slot"
  as_link :: "(user_id \<times> unix_secs) slot"                       \<comment> \<open>\<open>EXTERNAL_LINK\<close>\<close>

definition empty_session :: "nat \<Rightarrow> ('p, 't) auth_session" where
  "empty_session i = \<lparr>as_id = i, as_deleted = {}, as_modified = False, as_user = Absent,
     as_external = Absent, as_passkey = Absent, as_kind = Absent, as_totp = Absent,
     as_totp_attempts = Absent, as_passkey_enrollment = Absent, as_totp_enrollment = Absent,
     as_link = Absent\<rparr>"

definition MAX_COMPLETED_LOGIN_AGE :: unix_secs where "MAX_COMPLETED_LOGIN_AGE = 120"
definition MAX_SECOND_FACTOR_LOGIN_AGE :: unix_secs where "MAX_SECOND_FACTOR_LOGIN_AGE = 600"
definition MAX_EXTERNAL_LINK_AGE :: unix_secs where "MAX_EXTERNAL_LINK_AGE = 600"
definition MAX_TOTP_LOGIN_ATTEMPTS :: nat where "MAX_TOTP_LOGIN_ATTEMPTS = 5"

text \<open>\<open>get::<T>\<close> and what remains of it with \<open>context(..).status_code(UNAUTHORIZED)\<close>.\<close>

definition slot_get :: "'a slot \<Rightarrow> status + 'a option" where
  "slot_get s = (case s of
     Absent \<Rightarrow> Inr None | Present x \<Rightarrow> Inr (Some x) | Unreadable \<Rightarrow> Inl INTERNAL_SERVER_ERROR)"

definition slot_required :: "'a slot \<Rightarrow> status + 'a" where
  "slot_required s = res_bind (slot_get s) (ok_or UNAUTHORIZED)"

definition modified :: "('p, 't) auth_session \<Rightarrow> ('p, 't) auth_session" where
  "modified s = s\<lparr>as_modified := True\<rparr>"

definition cycle_id :: "nat \<Rightarrow> ('p, 't) auth_session \<Rightarrow> ('p, 't) auth_session" where
  "cycle_id i s = modified (s\<lparr>as_id := i, as_deleted := insert (as_id s) (as_deleted s)\<rparr>)"

text \<open>\<open>take\<close> leaves a session without the value unmodified.\<close>

definition taken :: "'a slot \<Rightarrow> (('p, 't) auth_session \<Rightarrow> ('p, 't) auth_session) \<Rightarrow>
    ('p, 't) auth_session \<Rightarrow> ('p, 't) auth_session" where
  "taken slot clear s = (case slot of Absent \<Rightarrow> s | _ \<Rightarrow> modified (clear s))"

section \<open>Ages\<close>

definition is_within :: "unix_secs \<Rightarrow> unix_secs \<Rightarrow> unix_secs \<Rightarrow> bool" where
  "is_within begun now max_age \<longleftrightarrow> now - begun \<le> max_age"

definition check_login_age :: "unix_secs \<Rightarrow> unix_secs \<Rightarrow> unix_secs \<Rightarrow> status + unit" where
  "check_login_age begun now max_age = (if is_within begun now max_age then Inr () else Inl UNAUTHORIZED)"

definition check_second_factor_login_age :: "unix_secs \<Rightarrow> unix_secs \<Rightarrow> status + unit" where
  "check_second_factor_login_age begun now = check_login_age begun now MAX_SECOND_FACTOR_LOGIN_AGE"

definition check_completed_login_age :: "unix_secs \<Rightarrow> unix_secs \<Rightarrow> status + unit" where
  "check_completed_login_age at now = check_login_age at now MAX_COMPLETED_LOGIN_AGE"

definition check_external_link_age :: "unix_secs \<Rightarrow> unix_secs \<Rightarrow> status + unit" where
  "check_external_link_age begun now =
     (if is_within begun now MAX_EXTERNAL_LINK_AGE then Inr () else Inl UNAUTHORIZED)"

section \<open>Logins\<close>

definition insert_authenticated_user ::
  "nat \<Rightarrow> user_id \<Rightarrow> unix_secs \<Rightarrow> ('p, 't) auth_session \<Rightarrow> ('p, 't) auth_session" where
  "insert_authenticated_user i u at s = (cycle_id i s)\<lparr>as_user := Present (u, at)\<rparr>"

definition retrieve_authenticated_user ::
  "unix_secs \<Rightarrow> ('p, 't) auth_session \<Rightarrow> (status + user_id \<times> unix_secs) \<times> ('p, 't) auth_session" where
  "retrieve_authenticated_user now s =
     (res_bind (slot_required (as_user s)) (\<lambda>(u, at).
        res_bind (check_completed_login_age at now) (\<lambda>_. Inr (u, at))),
      taken (as_user s) (\<lambda>s. s\<lparr>as_user := Absent\<rparr>) s)"

definition insert_external_login :: "external_login \<Rightarrow> ('p, 't) auth_session \<Rightarrow> ('p, 't) auth_session" where
  "insert_external_login l s = modified (s\<lparr>as_external := Present l\<rparr>)"

definition retrieve_external_login ::
  "('p, 't) auth_session \<Rightarrow> (status + external_login) \<times> ('p, 't) auth_session" where
  "retrieve_external_login s =
     (slot_required (as_external s), taken (as_external s) (\<lambda>s. s\<lparr>as_external := Absent\<rparr>) s)"

definition insert_login_kind :: "login_kind \<Rightarrow> ('p, 't) auth_session \<Rightarrow> ('p, 't) auth_session" where
  "insert_login_kind k s = modified (s\<lparr>as_kind := Present k\<rparr>)"

definition take_login_kind :: "('p, 't) auth_session \<Rightarrow> login_kind \<times> ('p, 't) auth_session" where
  "take_login_kind s =
     (case as_kind s of Present k \<Rightarrow> k | Absent \<Rightarrow> Local | Unreadable \<Rightarrow> Local,
      modified (s\<lparr>as_kind := Absent\<rparr>))"

definition insert_passkey_login ::
  "nat \<Rightarrow> user_id \<Rightarrow> 'p \<Rightarrow> unix_secs \<Rightarrow> ('p, 't) auth_session \<Rightarrow> ('p, 't) auth_session" where
  "insert_passkey_login i u p begun s = (cycle_id i s)\<lparr>as_passkey := Present (u, p, begun)\<rparr>"

definition retrieve_passkey_login ::
  "unix_secs \<Rightarrow> ('p, 't) auth_session \<Rightarrow>
   (status + user_id \<times> 'p \<times> login_kind) \<times> ('p, 't) auth_session" where
  "retrieve_passkey_login now s =
     (let s' = taken (as_passkey s) (\<lambda>s. s\<lparr>as_passkey := Absent\<rparr>) s in
      case slot_required (as_passkey s) of
        Inl e \<Rightarrow> (Inl e, s')
      | Inr (u, p, begun) \<Rightarrow>
          (case take_login_kind s' of (kind, s'') \<Rightarrow>
             (res_bind (check_second_factor_login_age begun now) (\<lambda>_. Inr (u, p, kind)), s'')))"

definition insert_totp_login ::
  "nat \<Rightarrow> user_id \<Rightarrow> unix_secs \<Rightarrow> ('p, 't) auth_session \<Rightarrow> ('p, 't) auth_session" where
  "insert_totp_login i u begun s =
     (cycle_id i s)\<lparr>as_totp_attempts := Present 0, as_totp := Present (u, begun)\<rparr>"

definition complete_totp_login :: "('p, 't) auth_session \<Rightarrow> login_kind \<times> ('p, 't) auth_session" where
  "complete_totp_login s =
     take_login_kind (modified (s\<lparr>as_totp := Absent, as_totp_attempts := Absent\<rparr>))"

definition begin_totp_login_attempt ::
  "unix_secs \<Rightarrow> ('p, 't) auth_session \<Rightarrow> (status + user_id) \<times> ('p, 't) auth_session" where
  "begin_totp_login_attempt now s = (case slot_required (as_totp s) of
     Inl e \<Rightarrow> (Inl e, s)
   | Inr (u, begun) \<Rightarrow>
       (case check_second_factor_login_age begun now of
          Inl e \<Rightarrow> (Inl e, snd (complete_totp_login s))
        | Inr _ \<Rightarrow>
            (case slot_get (as_totp_attempts s) of
               Inl e \<Rightarrow> (Inl e, s)
             | Inr attempts \<Rightarrow>
                 let attempts = (case attempts of None \<Rightarrow> 0 | Some n \<Rightarrow> n) in
                 if MAX_TOTP_LOGIN_ATTEMPTS \<le> attempts
                 then (Inl UNAUTHORIZED, snd (complete_totp_login s))
                 else (Inr u, modified (s\<lparr>as_totp_attempts := Present (attempts + 1)\<rparr>)))))"

section \<open>Enrollments and links\<close>

definition check_enrollment_user :: "user_id \<Rightarrow> user_id \<Rightarrow> status + unit" where
  "check_enrollment_user began_by u = (if began_by = u then Inr () else Inl UNAUTHORIZED)"

definition insert_passkey_enrollment ::
  "user_id \<Rightarrow> 'p \<Rightarrow> ('p, 't) auth_session \<Rightarrow> ('p, 't) auth_session" where
  "insert_passkey_enrollment u p s = modified (s\<lparr>as_passkey_enrollment := Present (u, p)\<rparr>)"

definition retrieve_passkey_enrollment ::
  "user_id \<Rightarrow> ('p, 't) auth_session \<Rightarrow> (status + 'p) \<times> ('p, 't) auth_session" where
  "retrieve_passkey_enrollment u s =
     (res_bind (slot_required (as_passkey_enrollment s)) (\<lambda>(began_by, p).
        res_bind (check_enrollment_user began_by u) (\<lambda>_. Inr p)),
      modified (s\<lparr>as_passkey_enrollment := Absent\<rparr>))"

definition insert_totp_enrollment ::
  "user_id \<Rightarrow> 't \<Rightarrow> ('p, 't) auth_session \<Rightarrow> ('p, 't) auth_session" where
  "insert_totp_enrollment u t s = modified (s\<lparr>as_totp_enrollment := Present (u, t)\<rparr>)"

definition retrieve_totp_enrollment ::
  "user_id \<Rightarrow> ('p, 't) auth_session \<Rightarrow> (status + 't) \<times> ('p, 't) auth_session" where
  "retrieve_totp_enrollment u s =
     (res_bind (slot_required (as_totp_enrollment s)) (\<lambda>(began_by, t).
        res_bind (check_enrollment_user began_by u) (\<lambda>_. Inr t)),
      modified (s\<lparr>as_totp_enrollment := Absent\<rparr>))"

definition insert_external_link ::
  "nat \<Rightarrow> user_id \<Rightarrow> unix_secs \<Rightarrow> ('p, 't) auth_session \<Rightarrow> ('p, 't) auth_session" where
  "insert_external_link i u begun s = (cycle_id i s)\<lparr>as_link := Present (u, begun)\<rparr>"

text \<open>The caller checks the age (\<open>ExternalLink::check_age\<close>).\<close>

definition retrieve_external_link ::
  "('p, 't) auth_session \<Rightarrow> (status + user_id \<times> unix_secs) \<times> ('p, 't) auth_session" where
  "retrieve_external_link s =
     (slot_required (as_link s), taken (as_link s) (\<lambda>s. s\<lparr>as_link := Absent\<rparr>) s)"

section \<open>Histories of a session\<close>

datatype ('p, 't) session_op =
    Insert_User nat user_id unix_secs
  | Retrieve_User
  | Insert_External external_login
  | Retrieve_External
  | Insert_Kind login_kind
  | Insert_Passkey nat user_id 'p unix_secs
  | Retrieve_Passkey
  | Insert_Totp nat user_id unix_secs
  | Attempt_Totp
  | Complete_Totp
  | Insert_Passkey_Enrollment user_id 'p
  | Retrieve_Passkey_Enrollment user_id
  | Insert_Totp_Enrollment user_id 't
  | Retrieve_Totp_Enrollment user_id
  | Insert_Link nat user_id unix_secs
  | Retrieve_Link

datatype 't session_out =
    Out_None
  | Out_User user_id unix_secs
  | Out_Attempt user_id
  | Out_Totp user_id 't
  | Out_Refused status

definition out_of :: "('a \<Rightarrow> 't session_out) \<Rightarrow> (status + 'a) \<Rightarrow> 't session_out" where
  "out_of f r = (case r of Inl e \<Rightarrow> Out_Refused e | Inr x \<Rightarrow> f x)"

fun session_step ::
  "unix_secs \<times> ('p, 't) session_op \<Rightarrow> ('p, 't) auth_session \<Rightarrow> 't session_out \<times> ('p, 't) auth_session" where
  "session_step (now, Insert_User i u at) s = (Out_None, insert_authenticated_user i u at s)"
| "session_step (now, Retrieve_User) s =
     map_prod (out_of (\<lambda>(u, at). Out_User u at)) id (retrieve_authenticated_user now s)"
| "session_step (now, Insert_External l) s = (Out_None, insert_external_login l s)"
| "session_step (now, Retrieve_External) s = map_prod (out_of (\<lambda>_. Out_None)) id (retrieve_external_login s)"
| "session_step (now, Insert_Kind k) s = (Out_None, insert_login_kind k s)"
| "session_step (now, Insert_Passkey i u p at) s = (Out_None, insert_passkey_login i u p at s)"
| "session_step (now, Retrieve_Passkey) s = map_prod (out_of (\<lambda>_. Out_None)) id (retrieve_passkey_login now s)"
| "session_step (now, Insert_Totp i u at) s = (Out_None, insert_totp_login i u at s)"
| "session_step (now, Attempt_Totp) s = map_prod (out_of Out_Attempt) id (begin_totp_login_attempt now s)"
| "session_step (now, Complete_Totp) s = (Out_None, snd (complete_totp_login s))"
| "session_step (now, Insert_Passkey_Enrollment u p) s = (Out_None, insert_passkey_enrollment u p s)"
| "session_step (now, Retrieve_Passkey_Enrollment u) s =
     map_prod (out_of (\<lambda>_. Out_None)) id (retrieve_passkey_enrollment u s)"
| "session_step (now, Insert_Totp_Enrollment u t) s = (Out_None, insert_totp_enrollment u t s)"
| "session_step (now, Retrieve_Totp_Enrollment u) s =
     map_prod (out_of (Out_Totp u)) id (retrieve_totp_enrollment u s)"
| "session_step (now, Insert_Link i u at) s = (Out_None, insert_external_link i u at s)"
| "session_step (now, Retrieve_Link) s = map_prod (out_of (\<lambda>(u, at). Out_User u at)) id (retrieve_external_link s)"

fun session_run ::
  "(unix_secs \<times> ('p, 't) session_op) list \<Rightarrow> ('p, 't) auth_session \<Rightarrow>
   (unix_secs \<times> ('p, 't) session_op \<times> 't session_out) list \<times> ('p, 't) auth_session" where
  "session_run [] s = ([], s)"
| "session_run ((now, op) # ops) s =
     (case session_step (now, op) s of (out, s') \<Rightarrow>
      case session_run ops s' of (outs, s'') \<Rightarrow> ((now, op, out) # outs, s''))"

lemmas session_ops = insert_authenticated_user_def retrieve_authenticated_user_def
  insert_external_login_def retrieve_external_login_def insert_login_kind_def take_login_kind_def
  insert_passkey_login_def retrieve_passkey_login_def insert_totp_login_def complete_totp_login_def
  begin_totp_login_attempt_def insert_passkey_enrollment_def retrieve_passkey_enrollment_def
  insert_totp_enrollment_def retrieve_totp_enrollment_def insert_external_link_def
  retrieve_external_link_def cycle_id_def modified_def taken_def out_of_def Let_def
  slot_get_def slot_required_def

section \<open>What a history can do\<close>

definition attempts_left :: "('p, 't) auth_session \<Rightarrow> nat" where
  "attempts_left s = (case as_totp s of
     Present _ \<Rightarrow> MAX_TOTP_LOGIN_ATTEMPTS - (case as_totp_attempts s of Present n \<Rightarrow> n | _ \<Rightarrow> 0)
   | _ \<Rightarrow> 0)"

definition is_attempt :: "unix_secs \<times> ('p, 't) session_op \<times> 't session_out \<Rightarrow> bool" where
  "is_attempt = (\<lambda>(_, _, out). case out of Out_Attempt _ \<Rightarrow> True | _ \<Rightarrow> False)"

definition is_insert_totp :: "('p, 't) session_op \<Rightarrow> bool" where
  "is_insert_totp op = (case op of Insert_Totp _ _ _ \<Rightarrow> True | _ \<Rightarrow> False)"

lemma out_of_attempt [simp]:
  "out_of (\<lambda>_. Out_None) r \<noteq> Out_Attempt u" "out_of (case_prod Out_User) r' \<noteq> Out_Attempt u"
  "out_of (Out_Totp v) r'' \<noteq> Out_Attempt u"
  by (auto simp: out_of_def split: sum.splits prod.splits)

lemma map_prod_id_eq [simp]: "map_prod f id x = (a, b) \<longleftrightarrow> f (fst x) = a \<and> snd x = b"
  by (cases x) auto

text \<open>All operations but an attempt and a new first factor keep or drop the pending login.\<close>

lemma other_step:
  assumes "session_step (now, op) s = (out, s')" "\<not> is_insert_totp op" "op \<noteq> Attempt_Totp"
  shows "out \<noteq> Out_Attempt u"
    and "as_totp s' = as_totp s \<and> as_totp_attempts s' = as_totp_attempts s \<or> as_totp s' = Absent"
proof -
  show "out \<noteq> Out_Attempt u" using assms by (cases op) (auto simp: is_insert_totp_def)
  show "as_totp s' = as_totp s \<and> as_totp_attempts s' = as_totp_attempts s \<or> as_totp s' = Absent"
  proof (cases op)
    case Retrieve_Passkey
    then show ?thesis using assms(1)
      by (auto simp: retrieve_passkey_login_def taken_def modified_def take_login_kind_def Let_def
          split: slot.splits sum.splits prod.splits)
  qed (use assms in \<open>auto simp: is_insert_totp_def insert_authenticated_user_def
      retrieve_authenticated_user_def insert_external_login_def retrieve_external_login_def
      insert_login_kind_def insert_passkey_login_def complete_totp_login_def take_login_kind_def
      insert_passkey_enrollment_def retrieve_passkey_enrollment_def insert_totp_enrollment_def
      retrieve_totp_enrollment_def insert_external_link_def retrieve_external_link_def
      cycle_id_def modified_def taken_def split: slot.splits\<close>)
qed

lemma attempt_step:
  assumes "begin_totp_login_attempt now s = (r, s')"
  shows "(case r of Inr u \<Rightarrow> (\<exists>begun. as_totp s = Present (u, begun) \<and> now - begun \<le> MAX_SECOND_FACTOR_LOGIN_AGE) \<and>
        as_totp s' = as_totp s \<and> Suc (attempts_left s') = attempts_left s
     | Inl _ \<Rightarrow> s' = s \<or> as_totp s' = Absent)"
proof (cases "as_totp s")
  case (Present p)
  obtain u begun where p: "p = (u, begun)" by fastforce
  show ?thesis
  proof (cases "is_within begun now MAX_SECOND_FACTOR_LOGIN_AGE")
    case True
    with assms Present p show ?thesis
      by (cases "as_totp_attempts s")
        (auto simp: begin_totp_login_attempt_def slot_required_def slot_get_def check_second_factor_login_age_def
          check_login_age_def is_within_def modified_def attempts_left_def complete_totp_login_def
          take_login_kind_def MAX_TOTP_LOGIN_ATTEMPTS_def Let_def split: if_splits)
  next
    case False
    with assms Present p show ?thesis
      by (auto simp: begin_totp_login_attempt_def slot_required_def slot_get_def check_second_factor_login_age_def
          check_login_age_def modified_def complete_totp_login_def take_login_kind_def)
  qed
qed (use assms in \<open>auto simp: begin_totp_login_attempt_def slot_required_def slot_get_def\<close>)

lemma totp_step:
  assumes "session_step (now, op) s = (out, s')" "\<not> is_insert_totp op"
  shows "(case out of Out_Attempt _ \<Rightarrow> 1 | _ \<Rightarrow> 0) + attempts_left s' \<le> attempts_left s"
    and "as_totp s' = as_totp s \<or> as_totp s' = Absent"
    and "out = Out_Attempt u \<Longrightarrow> \<exists>begun. as_totp s = Present (u, begun) \<and> now - begun \<le> MAX_SECOND_FACTOR_LOGIN_AGE"
proof -
  have "(case out of Out_Attempt _ \<Rightarrow> 1 | _ \<Rightarrow> 0) + attempts_left s' \<le> attempts_left s \<and>
    (as_totp s' = as_totp s \<or> as_totp s' = Absent) \<and>
    (\<forall>u. out = Out_Attempt u \<longrightarrow> (\<exists>begun. as_totp s = Present (u, begun) \<and> now - begun \<le> MAX_SECOND_FACTOR_LOGIN_AGE))"
  proof (cases "op = Attempt_Totp")
    case True
    obtain r where r: "begin_totp_login_attempt now s = (r, s')" "out = out_of Out_Attempt r"
      using assms(1) True by (cases "begin_totp_login_attempt now s") auto
    from attempt_step [OF r(1)] r(2) show ?thesis
      by (cases r) (auto simp: out_of_def attempts_left_def)
  next
    case False
    note O = other_step [OF assms False]
    have "(case out of Out_Attempt _ \<Rightarrow> 1 | _ \<Rightarrow> (0 :: nat)) = 0" using O(1) by (cases out) auto
    moreover have "attempts_left s' \<le> attempts_left s" using O(2)
      by (cases "as_totp s") (auto simp: attempts_left_def)
    ultimately show ?thesis using O by auto
  qed
  then show "(case out of Out_Attempt _ \<Rightarrow> 1 | _ \<Rightarrow> 0) + attempts_left s' \<le> attempts_left s"
    "as_totp s' = as_totp s \<or> as_totp s' = Absent"
    "out = Out_Attempt u \<Longrightarrow> \<exists>begun. as_totp s = Present (u, begun) \<and> now - begun \<le> MAX_SECOND_FACTOR_LOGIN_AGE"
    by blast+
qed

lemma totp_run:
  assumes "session_run ops s = (outs, s')" "\<forall>(_, op) \<in> set ops. \<not> is_insert_totp op"
  shows "length (filter is_attempt outs) \<le> attempts_left s"
    and "(now, op, Out_Attempt u) \<in> set outs \<Longrightarrow>
      \<exists>begun. as_totp s = Present (u, begun) \<and> now - begun \<le> MAX_SECOND_FACTOR_LOGIN_AGE"
proof -
  have "length (filter is_attempt outs) \<le> attempts_left s \<and>
    (\<forall>now op u. (now, op, Out_Attempt u) \<in> set outs \<longrightarrow>
      (\<exists>begun. as_totp s = Present (u, begun) \<and> now - begun \<le> MAX_SECOND_FACTOR_LOGIN_AGE))"
    using assms
  proof (induction ops s arbitrary: outs rule: session_run.induct)
    case (2 now op ops s)
    obtain out s1 where st: "session_step (now, op) s = (out, s1)" by fastforce
    obtain outs' where r: "session_run ops s1 = (outs', s')" "outs = (now, op, out) # outs'"
      using 2(2) st by (auto split: prod.splits)
    have ni: "\<not> is_insert_totp op" using 2(3) by simp
    note T = totp_step [OF st ni]
    have IH: "length (filter is_attempt outs') \<le> attempts_left s1 \<and>
        (\<forall>now op u. (now, op, Out_Attempt u) \<in> set outs' \<longrightarrow>
          (\<exists>begun. as_totp s1 = Present (u, begun) \<and> now - begun \<le> MAX_SECOND_FACTOR_LOGIN_AGE))"
      using 2(1) [OF st [symmetric] r(1)] 2(3) by simp
    have "length (filter is_attempt outs) =
        (case out of Out_Attempt _ \<Rightarrow> 1 | _ \<Rightarrow> 0) + length (filter is_attempt outs')"
      by (simp add: r(2) is_attempt_def split: session_out.split)
    moreover have "\<exists>begun. as_totp s = Present (v, begun) \<and> t - begun \<le> MAX_SECOND_FACTOR_LOGIN_AGE"
      if "(t, op', Out_Attempt v) \<in> set outs" for t op' v
      using that IH T(2,3) r(2) by fastforce
    ultimately show ?case using IH T(1) by fastforce
  qed simp
  then show "length (filter is_attempt outs) \<le> attempts_left s"
    "(now, op, Out_Attempt u) \<in> set outs \<Longrightarrow>
      \<exists>begun. as_totp s = Present (u, begun) \<and> now - begun \<le> MAX_SECOND_FACTOR_LOGIN_AGE"
    by blast+
qed

text \<open>
  A first factor is good for at most five tries of a second factor code, all for the user who
  passed it and within ten minutes, whatever else happens on the session: only another first
  factor starts over.
\<close>

theorem second_factor_tries_bounded:
  assumes "session_run ops (insert_totp_login i u begun s) = (outs, s')"
    and "\<forall>(_, op) \<in> set ops. \<not> is_insert_totp op"
  shows "length (filter is_attempt outs) \<le> 5 \<and>
    (\<forall>now op v. (now, op, Out_Attempt v) \<in> set outs \<longrightarrow> v = u \<and> now - begun \<le> 600)"
  using totp_run [OF assms]
  by (fastforce simp: insert_totp_login_def attempts_left_def MAX_TOTP_LOGIN_ATTEMPTS_def
      MAX_SECOND_FACTOR_LOGIN_AGE_def cycle_id_def modified_def)

lemma second_factor_tries_bounded_witness:
  "\<exists>outs s'. session_run (replicate 6 (100, Attempt_Totp))
      (insert_totp_login 2 ''bob'' 90 (empty_session 1 :: (unit, unit) auth_session)) = (outs, s') \<and>
    length (filter is_attempt outs) \<le> 5"
proof -
  obtain outs s' where r: "session_run (replicate 6 (100, Attempt_Totp))
      (insert_totp_login 2 ''bob'' 90 (empty_session 1 :: (unit, unit) auth_session)) = (outs, s')"
    by fastforce
  from second_factor_tries_bounded [OF r] r show ?thesis by (auto simp: is_insert_totp_def)
qed

text \<open>
  A slot that a history fills is only reachable with an id the session got in it: the id the
  session had before is deleted.
\<close>

definition sensitive :: "('p, 't) auth_session \<Rightarrow> bool" where
  "sensitive s \<longleftrightarrow> (\<exists>x. as_user s = Present x) \<or> (\<exists>x. as_passkey s = Present x) \<or>
     (\<exists>x. as_totp s = Present x) \<or> (\<exists>x. as_link s = Present x)"

fun op_id :: "('p, 't) session_op \<Rightarrow> nat option" where
  "op_id (Insert_User i u at) = Some i"
| "op_id (Insert_Passkey i u p at) = Some i"
| "op_id (Insert_Totp i u at) = Some i"
| "op_id (Insert_Link i u at) = Some i"
| "op_id _ = None"

lemma session_step_id:
  assumes "session_step (now, op) s = (out, s')"
  shows "(case op_id op of Some i \<Rightarrow> as_id s' = i \<and> as_deleted s' = insert (as_id s) (as_deleted s)
     | None \<Rightarrow> as_id s' = as_id s \<and> as_deleted s' = as_deleted s \<and> (sensitive s' \<longrightarrow> sensitive s))"
proof (cases op)
  case Attempt_Totp
  then show ?thesis using assms
    by (auto simp: session_ops sensitive_def split: slot.splits prod.splits if_splits option.splits sum.splits)
next
  case Retrieve_Passkey
  then show ?thesis using assms
    by (auto simp: session_ops sensitive_def res_bind_def ok_or_def split: slot.splits prod.splits sum.splits option.splits)
qed (use assms in \<open>auto simp: session_ops sensitive_def split: slot.splits prod.splits\<close>)

lemma session_run_id:
  assumes "session_run ops s = (outs, s')" "\<forall>(_, op) \<in> set ops. op_id op \<noteq> Some j"
    and "as_id s = j \<Longrightarrow> \<not> sensitive s" "as_id s \<noteq> j \<Longrightarrow> j \<in> as_deleted s"
  shows "sensitive s' \<longrightarrow> as_id s' \<noteq> j \<and> j \<in> as_deleted s'"
  using assms
proof (induction ops s arbitrary: outs rule: session_run.induct)
  case (2 now op ops s)
  obtain out s1 where st: "session_step (now, op) s = (out, s1)" by fastforce
  obtain outs' where r: "session_run ops s1 = (outs', s')"
    using 2(2) st by (auto split: prod.splits)
  show ?case
    by (rule 2(1) [OF st [symmetric] r]) (use session_step_id [OF st] 2(3-5) in \<open>auto split: option.splits\<close>)
qed auto

text \<open>
  C4: No session fixation: whatever happens on a session that held no login or link, once it holds
  a completed login, a pending second factor or a link begun, it has another id than before and
  the record of the old id is gone, so a cookie planted beforehand reaches none of them.
\<close>

theorem no_session_fixation:
  assumes "session_run ops s = (outs, s')" "\<not> sensitive s" "sensitive s'"
    and "\<forall>(_, op) \<in> set ops. op_id op \<noteq> Some (as_id s)"
  shows "as_id s' \<noteq> as_id s \<and> as_id s \<in> as_deleted s'"
  using session_run_id [OF assms(1), of "as_id s"] assms(2-4) by blast

lemma no_session_fixation_witness:
  "as_id (snd (session_run [(5, Insert_Totp 2 ''bob'' 5)] (empty_session 1 :: (unit, unit) auth_session))) \<noteq> 1"
  using no_session_fixation [of "[(5, Insert_Totp 2 ''bob'' 5)]" "empty_session 1 :: (unit, unit) auth_session",
      OF surjective_pairing]
  by (simp add: empty_session_def sensitive_def insert_totp_login_def cycle_id_def modified_def)

text \<open>The user a pending enrollment belongs to is the one who began it.\<close>

lemma enrollment_step:
  assumes "session_step (now, op) s = (out, s')"
  shows "as_totp_enrollment s' = Present (u, t) \<Longrightarrow>
      op = Insert_Totp_Enrollment u t \<or> as_totp_enrollment s = Present (u, t)"
    and "out = Out_Totp u t \<Longrightarrow> op = Retrieve_Totp_Enrollment u \<and>
      as_totp_enrollment s = Present (u, t) \<and> as_totp_enrollment s' = Absent"
proof -
  have "(as_totp_enrollment s' = Present (u, t) \<longrightarrow>
      op = Insert_Totp_Enrollment u t \<or> as_totp_enrollment s = Present (u, t)) \<and>
    (out = Out_Totp u t \<longrightarrow> op = Retrieve_Totp_Enrollment u \<and>
      as_totp_enrollment s = Present (u, t) \<and> as_totp_enrollment s' = Absent)"
  proof (cases op)
    case Attempt_Totp
    then show ?thesis using assms
      by (auto simp: session_ops split: slot.splits prod.splits if_splits option.splits sum.splits)
  next
    case (Retrieve_Totp_Enrollment v)
    then show ?thesis using assms
      by (auto simp: session_ops res_bind_def ok_or_def check_enrollment_user_def
          split: slot.splits prod.splits if_splits sum.splits option.splits)
  qed (use assms in \<open>auto simp: session_ops res_bind_def ok_or_def split: slot.splits prod.splits sum.splits\<close>)
  then show "as_totp_enrollment s' = Present (u, t) \<Longrightarrow>
      op = Insert_Totp_Enrollment u t \<or> as_totp_enrollment s = Present (u, t)"
    "out = Out_Totp u t \<Longrightarrow> op = Retrieve_Totp_Enrollment u \<and>
      as_totp_enrollment s = Present (u, t) \<and> as_totp_enrollment s' = Absent"
    by blast+
qed

lemma enrollment_run:
  assumes "session_run ops s = (outs, s')" "(now, op, Out_Totp u t) \<in> set outs"
  shows "op = Retrieve_Totp_Enrollment u \<and>
    (as_totp_enrollment s = Present (u, t) \<or> Insert_Totp_Enrollment u t \<in> snd ` set ops)"
  using assms
proof (induction ops s arbitrary: outs rule: session_run.induct)
  case (2 now' op' ops s)
  obtain out s1 where st: "session_step (now', op') s = (out, s1)" by fastforce
  obtain outs' where r: "session_run ops s1 = (outs', s')" "outs = (now', op', out) # outs'"
    using 2(2) st by (auto split: prod.splits)
  show ?case
  proof (cases "(now, op, Out_Totp u t) \<in> set outs'")
    case True
    from 2(1) [OF st [symmetric] r(1) True] enrollment_step(1) [OF st, of u t] show ?thesis
      by (auto simp: image_iff)
  next
    case False
    with 2(3) r(2) have "op = op'" "out = Out_Totp u t" by auto
    with enrollment_step(2) [OF st] show ?thesis by blast
  qed
qed simp

text \<open>
  A user can only confirm a TOTP enrollment that the same user began on the session: the
  secret that is enrolled is one whose enrollment that user started, so no client begins an
  enrollment as one user and completes it as another.
\<close>

theorem enrollment_of_same_user:
  assumes "session_run ops (empty_session i) = (outs, s')" "(now, op, Out_Totp u t) \<in> set outs"
  shows "op = Retrieve_Totp_Enrollment u \<and> Insert_Totp_Enrollment u t \<in> snd ` set ops"
  using enrollment_run [OF assms] by (simp add: empty_session_def)

lemma enrollment_of_same_user_witness:
  "Insert_Totp_Enrollment ''bob'' (7 :: nat) \<in>
     snd ` set [(1, Insert_Totp_Enrollment ''bob'' 7), (2, Retrieve_Totp_Enrollment ''bob'') :: nat \<times> (unit, nat) session_op]"
proof -
  have "session_run [(1, Insert_Totp_Enrollment ''bob'' 7), (2, Retrieve_Totp_Enrollment ''bob'')]
      (empty_session 1 :: (unit, nat) auth_session) =
    ([(1, Insert_Totp_Enrollment ''bob'' 7, Out_None), (2, Retrieve_Totp_Enrollment ''bob'', Out_Totp ''bob'' 7)],
     modified (empty_session 1))"
    by (simp add: insert_totp_enrollment_def retrieve_totp_enrollment_def slot_required_def slot_get_def
        check_enrollment_user_def out_of_def modified_def empty_session_def)
  from enrollment_of_same_user [OF this, of 2 "Retrieve_Totp_Enrollment ''bob''" "''bob''" 7]
  show ?thesis by simp
qed

text \<open>
  A completed login is exchanged once and for two minutes: retrieving it takes it off the
  session, and gives it only within its age.
\<close>

lemma completed_login_once:
  assumes "retrieve_authenticated_user now (insert_authenticated_user i u at s) = (r, s')"
  shows "r = (if now - at \<le> 120 then Inr (u, at) else Inl UNAUTHORIZED)"
    and "fst (retrieve_authenticated_user now' s') = Inl UNAUTHORIZED"
    and "snd (retrieve_authenticated_user now' s') = s'"
  using assms
  by (auto simp: retrieve_authenticated_user_def insert_authenticated_user_def slot_required_def
      slot_get_def taken_def modified_def check_completed_login_age_def check_login_age_def
      is_within_def MAX_COMPLETED_LOGIN_AGE_def)

end
