(* ===== verification/SecondFactor.thy ===== *)
theory SecondFactor
  imports Budget AuthSession
begin

text \<open>
  The tries of second factor codes, \<^verbatim>\<open>auth/server/src/api/login/totp.rs\<close>: the latest accepted
  TOTP step of a user, the failures of a user within the window (\<open>SecondFactorAttempts\<close>, a second
  provider of the interface of Budget), and the recovery codes, checked and used up under the
  user's lock. The map of the users and the locks are behind one mutex, so each operation is one
  step; attempts run interleaved, and each can be dropped (a cancelled request) at any point.
  \<open>bcrypt::verify\<close> and the app's storage of the codes are outside: verification is a parameter,
  and the storage loads and writes back the whole list of a user's codes in two steps.
\<close>

section \<open>Steps of TOTP codes\<close>

text \<open>\<open>consume_totp_step_in_process\<close>, under the mutex of \<open>ACCEPTED_TOTP_STEPS\<close>.\<close>

definition consume_totp_step_in_process ::
  "user_id \<Rightarrow> nat \<Rightarrow> (user_id \<Rightarrow> nat option) \<Rightarrow> bool \<times> (user_id \<Rightarrow> nat option)" where
  "consume_totp_step_in_process u step accepted = (case accepted u of
     Some latest \<Rightarrow> if step \<le> latest then (False, accepted) else (True, accepted(u \<mapsto> step))
   | None \<Rightarrow> (True, accepted(u \<mapsto> step)))"

fun consume_all ::
  "(user_id \<times> nat) list \<Rightarrow> (user_id \<Rightarrow> nat option) \<Rightarrow> (user_id \<times> nat) list" where
  "consume_all [] accepted = []"
| "consume_all ((u, step) # cs) accepted =
     (case consume_totp_step_in_process u step accepted of (fresh, accepted') \<Rightarrow>
        if fresh then (u, step) # consume_all cs accepted' else consume_all cs accepted')"

section \<open>The failures of the users\<close>

definition MAX_SECOND_FACTOR_FAILURES :: nat where "MAX_SECOND_FACTOR_FAILURES = 10"
definition SECOND_FACTOR_FAILURE_WINDOW :: duration where "SECOND_FACTOR_FAILURE_WINDOW = secs (15 * 60)"
definition SECOND_FACTOR_SWEEP_INTERVAL :: duration where "SECOND_FACTOR_SWEEP_INTERVAL = secs 60"

type_synonym lock_id = nat

record user_attempts =
  ua_failures :: "instant list"
  ua_in_flight :: nat
  ua_lock :: lock_id

record second_factor =
  sf_max :: nat
  sf_window :: duration
  sf_users :: "user_id \<Rightarrow> user_attempts option"
  sf_last_sweep :: "instant option"
  sf_next_lock :: lock_id  \<comment> \<open>the mutex the next \<open>or_default()\<close> creates\<close>

definition second_factor_new :: "nat \<Rightarrow> duration \<Rightarrow> second_factor" where
  "second_factor_new m w = \<lparr>sf_max = m, sf_window = w, sf_users = (\<lambda>_. None), sf_last_sweep = None,
     sf_next_lock = 0\<rparr>"

definition ua_prune :: "instant \<Rightarrow> duration \<Rightarrow> user_attempts \<Rightarrow> user_attempts" where
  "ua_prune now w ua = ua\<lparr>ua_failures := recent w now (ua_failures ua)\<rparr>"

definition ua_busy :: "user_attempts \<Rightarrow> bool" where
  "ua_busy ua \<longleftrightarrow> 0 < ua_in_flight ua \<or> ua_failures ua \<noteq> []"

definition sf_sweep :: "instant \<Rightarrow> second_factor \<Rightarrow> second_factor" where
  "sf_sweep now sf =
     (if (case sf_last_sweep sf of None \<Rightarrow> False
          | Some latest \<Rightarrow> now - latest < SECOND_FACTOR_SWEEP_INTERVAL) then sf
      else sf\<lparr>sf_last_sweep := Some now,
              sf_users := (\<lambda>u. case sf_users sf u of None \<Rightarrow> None
                 | Some ua \<Rightarrow> (let ua' = ua_prune now (sf_window sf) ua in
                              if ua_busy ua' then Some ua' else None))\<rparr>)"

datatype begin_outcome = Begun lock_id | Too_Many_Invalid duration | Too_Many_At_Once

text \<open>\<open>SecondFactorAttempts::begin\<close>, first on the entry of the user.\<close>

definition ua_begin :: "nat \<Rightarrow> duration \<Rightarrow> instant \<Rightarrow> user_attempts \<Rightarrow> begin_outcome \<times> user_attempts" where
  "ua_begin m w now ua =
     (let ua = ua_prune now w ua; n = length (ua_failures ua) in
      if m \<le> n then (Too_Many_Invalid (retry_in m w (ua_failures ua) now), ua)
      else if m \<le> n + ua_in_flight ua then (Too_Many_At_Once, ua)
      else (Begun (ua_lock ua), ua\<lparr>ua_in_flight := ua_in_flight ua + 1\<rparr>))"

definition sf_entry :: "user_id \<Rightarrow> second_factor \<Rightarrow> user_attempts" where
  "sf_entry u sf = (case sf_users sf u of Some ua \<Rightarrow> ua
     | None \<Rightarrow> \<lparr>ua_failures = [], ua_in_flight = 0, ua_lock = sf_next_lock sf\<rparr>)"

definition sf_begin :: "user_id \<Rightarrow> instant \<Rightarrow> second_factor \<Rightarrow> begin_outcome \<times> second_factor" where
  "sf_begin u now sf0 =
     (let sf = sf_sweep now sf0 in
      case ua_begin (sf_max sf) (sf_window sf) now (sf_entry u sf) of (out, ua) \<Rightarrow>
        (out, sf\<lparr>sf_users := (sf_users sf)(u \<mapsto> ua),
                 sf_next_lock := (if sf_users sf u = None then sf_next_lock sf + 1 else sf_next_lock sf)\<rparr>))"

text \<open>\<open>SecondFactorAttempts::end\<close>.\<close>

definition ua_end :: "duration \<Rightarrow> bool \<Rightarrow> instant \<Rightarrow> user_attempts \<Rightarrow> user_attempts" where
  "ua_end w failed now ua =
     (let ua = ua_prune now w (ua\<lparr>ua_in_flight := ua_in_flight ua - 1\<rparr>) in
      if failed then ua\<lparr>ua_failures := ua_failures ua @ [now]\<rparr> else ua)"

definition sf_end :: "user_id \<Rightarrow> bool \<Rightarrow> instant \<Rightarrow> second_factor \<Rightarrow> second_factor" where
  "sf_end u failed now sf = (case sf_users sf u of
     None \<Rightarrow> sf
   | Some ua \<Rightarrow>
       (let ua = ua_end (sf_window sf) failed now ua in
        sf\<lparr>sf_users := (sf_users sf)(u := if ua_busy ua then Some ua else None)\<rparr>))"

text \<open>\<open>SecondFactorAttempt::end\<close> counts a refusal, not a server error, as a failure.\<close>

definition counts_as_failure :: "(status + 'a) \<Rightarrow> bool" where
  "counts_as_failure r \<longleftrightarrow> (case r of Inl e \<Rightarrow> \<not> is_server_error e | Inr _ \<Rightarrow> False)"

text \<open>The hash of the list which the code matches, \<open>find_recovery_code\<close>.\<close>

definition find_recovery_code :: "(string \<Rightarrow> string \<Rightarrow> bool) \<Rightarrow> string \<Rightarrow> string list \<Rightarrow> string option" where
  "find_recovery_code verify code hashes = List.find (verify code) hashes"

section \<open>The failure budget of a user\<close>

definition ua_reserve :: "nat \<Rightarrow> duration \<Rightarrow> instant \<Rightarrow> user_attempts \<Rightarrow> user_attempts option" where
  "ua_reserve m w now ua = (case ua_begin m w now ua of (Begun _, ua') \<Rightarrow> Some ua' | _ \<Rightarrow> None)"

interpretation sfb: failure_budget m w ua_failures ua_in_flight "ua_reserve m w"
    "ua_end w False" "ua_end w True"
  for m :: nat and w :: duration
  by unfold_locales
    (auto simp: ua_reserve_def ua_begin_def ua_prune_def ua_end_def Let_def split: if_splits)

lemma ua_lock_kept [simp]:
  "ua_lock (ua_prune now w ua) = ua_lock ua" "ua_lock (ua_end w failed now ua) = ua_lock ua"
  by (auto simp: ua_prune_def ua_end_def Let_def)

lemma ua_begin_lock: "ua_begin m w now ua = (out, ua') \<Longrightarrow> ua_lock ua' = ua_lock ua"
  by (auto simp: ua_begin_def Let_def split: if_splits)

text \<open>What the history of the failures of one user relates to: an absent entry counts nothing.\<close>

definition user_ok :: "nat \<Rightarrow> duration \<Rightarrow> instant \<Rightarrow> user_attempts option \<Rightarrow> instant list \<Rightarrow> bool" where
  "user_ok m w now e h \<longleftrightarrow> (case e of
     None \<Rightarrow> budget_inv m w now [] 0 h | Some ua \<Rightarrow> sfb.ok m w now ua h)"

lemma user_ok_bound: "user_ok m w now e h \<Longrightarrow> window_count w h t \<le> m"
  by (auto simp: user_ok_def budget_inv_def dest: sfb.ok_bound split: option.splits)

lemma user_ok_tick: "user_ok m w now e h \<Longrightarrow> now \<le> now' \<Longrightarrow> user_ok m w now' e h"
  by (auto simp: user_ok_def intro: budget_inv_tick sfb.tick_ok split: option.splits)

lemma user_ok_prune:
  assumes "user_ok m w now (Some ua) h"
  shows "user_ok m w now (Some (ua_prune now w ua)) h"
  using assms
  by (auto simp: user_ok_def sfb.ok_def ua_prune_def intro: budget_inv_prune failures_inv_recent)

lemma user_ok_idle:
  assumes "user_ok m w now (Some ua) h" "\<not> ua_busy (ua_prune now w ua)"
  shows "user_ok m w now None h"
  using assms
  by (auto simp: user_ok_def sfb.ok_def ua_busy_def ua_prune_def intro: budget_inv_stale)

section \<open>What the operations keep of the users\<close>

definition flying_of :: "second_factor \<Rightarrow> user_id \<Rightarrow> nat" where
  "flying_of sf u = (case sf_users sf u of None \<Rightarrow> 0 | Some ua \<Rightarrow> ua_in_flight ua)"

definition lock_of :: "second_factor \<Rightarrow> user_id \<Rightarrow> lock_id option" where
  "lock_of sf u = map_option ua_lock (sf_users sf u)"

definition locks_ok :: "second_factor \<Rightarrow> bool" where
  "locks_ok sf \<longleftrightarrow> (\<forall>u l. lock_of sf u = Some l \<longrightarrow> l < sf_next_lock sf) \<and>
     (\<forall>u v l. lock_of sf u = Some l \<and> lock_of sf v = Some l \<longrightarrow> u = v)"

definition users_ok :: "instant \<Rightarrow> second_factor \<Rightarrow> (user_id \<Rightarrow> instant list) \<Rightarrow> bool" where
  "users_ok now sf h \<longleftrightarrow> (\<forall>u. user_ok (sf_max sf) (sf_window sf) now (sf_users sf u) (h u))"

lemma sweep_params [simp]:
  "sf_max (sf_sweep now sf) = sf_max sf" "sf_window (sf_sweep now sf) = sf_window sf"
  "sf_next_lock (sf_sweep now sf) = sf_next_lock sf"
  by (simp_all add: sf_sweep_def)

lemma begin_params:
  assumes "sf_begin u now sf = (out, sf')"
  shows "sf_max sf' = sf_max sf" "sf_window sf' = sf_window sf"
  using assms by (auto simp: sf_begin_def Let_def split: prod.splits)

lemma end_params [simp]:
  "sf_max (sf_end u failed now sf) = sf_max sf" "sf_window (sf_end u failed now sf) = sf_window sf"
  "sf_next_lock (sf_end u failed now sf) = sf_next_lock sf"
  by (simp_all add: sf_end_def Let_def split: option.splits)

lemma sweep_users:
  "sf_users (sf_sweep now sf) u = sf_users sf u \<or>
   sf_users (sf_sweep now sf) u = (case sf_users sf u of None \<Rightarrow> None
     | Some ua \<Rightarrow> if ua_busy (ua_prune now (sf_window sf) ua)
                then Some (ua_prune now (sf_window sf) ua) else None)"
  by (simp add: sf_sweep_def Let_def split: option.splits)

lemma prune_in_flight [simp]: "ua_in_flight (ua_prune now w ua) = ua_in_flight ua"
  by (simp add: ua_prune_def)

lemma sweep_flying [simp]: "flying_of (sf_sweep now sf) u = flying_of sf u"
  using sweep_users [of now sf u]
  by (auto simp: flying_of_def ua_busy_def split: option.splits if_splits)

lemma sweep_lock:
  "lock_of (sf_sweep now sf) u = Some l \<Longrightarrow> lock_of sf u = Some l"
  "0 < flying_of sf u \<Longrightarrow> lock_of (sf_sweep now sf) u = lock_of sf u"
  using sweep_users [of now sf u]
  by (auto simp: lock_of_def flying_of_def ua_busy_def split: option.splits if_splits)

lemma sweep_ok:
  assumes "users_ok now sf h"
  shows "users_ok now (sf_sweep now sf) h"
  unfolding users_ok_def sweep_params
proof
  fix u
  have u: "user_ok (sf_max sf) (sf_window sf) now (sf_users sf u) (h u)"
    using assms by (simp add: users_ok_def)
  show "user_ok (sf_max sf) (sf_window sf) now (sf_users (sf_sweep now sf) u) (h u)"
    using sweep_users [of now sf u] u
    by (auto dest: user_ok_prune user_ok_idle split: option.splits if_splits)
qed

lemma entry_facts [simp]:
  "ua_in_flight (sf_entry u sf) = flying_of sf u"
  "ua_lock (sf_entry u sf) = (case lock_of sf u of None \<Rightarrow> sf_next_lock sf | Some l \<Rightarrow> l)"
  by (simp_all add: sf_entry_def flying_of_def lock_of_def split: option.splits)

lemma begin_cases:
  assumes "sf_begin u now sf = (out, sf')"
  obtains ua where
    "ua_begin (sf_max sf) (sf_window sf) now (sf_entry u (sf_sweep now sf)) = (out, ua)"
    "sf_users sf' = (sf_users (sf_sweep now sf))(u \<mapsto> ua)"
    "sf_next_lock sf' = (if sf_users (sf_sweep now sf) u = None then Suc (sf_next_lock sf) else sf_next_lock sf)"
  using assms by (auto simp: sf_begin_def Let_def split: prod.splits)

lemma ua_begin_in_flight:
  "ua_begin m w now ua = (out, ua') \<Longrightarrow>
   ua_in_flight ua' = ua_in_flight ua + (case out of Begun _ \<Rightarrow> 1 | _ \<Rightarrow> 0)"
  by (auto simp: ua_begin_def Let_def split: if_splits)

lemma ua_begin_begun: "ua_begin m w now ua = (Begun l, ua') \<Longrightarrow> l = ua_lock ua"
  by (auto simp: ua_begin_def Let_def split: if_splits)

lemma begin_flying:
  assumes "sf_begin u now sf = (out, sf')"
  shows "flying_of sf' v =
    flying_of sf v + (if v = u then case out of Begun _ \<Rightarrow> 1 | _ \<Rightarrow> 0 else 0)"
proof -
  obtain ua where b: "ua_begin (sf_max sf) (sf_window sf) now (sf_entry u (sf_sweep now sf)) = (out, ua)"
    and sf': "sf_users sf' = (sf_users (sf_sweep now sf))(u \<mapsto> ua)"
    using begin_cases [OF assms] by metis
  have "flying_of sf' v = (if v = u then ua_in_flight ua else flying_of (sf_sweep now sf) v)"
    by (simp add: flying_of_def sf')
  then show ?thesis using ua_begin_in_flight [OF b] by simp
qed

lemma begin_lock:
  assumes "sf_begin u now sf = (out, sf')"
  shows "0 < flying_of sf v \<Longrightarrow> lock_of sf' v = lock_of sf v"
    and "out = Begun l \<Longrightarrow> lock_of sf' u = Some l"
    and "locks_ok sf \<Longrightarrow> locks_ok sf'"
proof -
  obtain ua where b: "ua_begin (sf_max sf) (sf_window sf) now (sf_entry u (sf_sweep now sf)) = (out, ua)"
    and sf': "sf_users sf' = (sf_users (sf_sweep now sf))(u \<mapsto> ua)"
      "sf_next_lock sf' = (if sf_users (sf_sweep now sf) u = None then Suc (sf_next_lock sf) else sf_next_lock sf)"
    using begin_cases [OF assms] by metis
  have lock: "lock_of sf' u = Some (case lock_of (sf_sweep now sf) u of None \<Rightarrow> sf_next_lock sf | Some l \<Rightarrow> l)"
    using ua_begin_lock [OF b, unfolded entry_facts sweep_params]
    unfolding lock_of_def sf' by simp
  have other: "lock_of sf' v = lock_of (sf_sweep now sf) v" if "v \<noteq> u" for v
    using that by (simp add: lock_of_def sf')
  show "lock_of sf' v = lock_of sf v" if f: "0 < flying_of sf v"
  proof (cases "v = u")
    case True
    have "\<exists>l. lock_of sf u = Some l" using f True by (auto simp: flying_of_def lock_of_def split: option.splits)
    then show ?thesis using sweep_lock(2) [OF f, of now] True lock by auto
  next
    case False
    then show ?thesis using sweep_lock(2) [OF f, of now] other by simp
  qed
  show "lock_of sf' u = Some l" if "out = Begun l"
    using ua_begin_begun [OF b [unfolded that], unfolded entry_facts sweep_params] lock by simp
  show "locks_ok sf'" if ok: "locks_ok sf"
  proof -
    have less: "sf_next_lock sf \<le> sf_next_lock sf'" by (simp add: sf')
    have old: "lock_of sf v = Some l" if "v \<noteq> u" "lock_of sf' v = Some l" for v l
      using that sweep_lock(1) [of now sf v l] other by simp
    have new: "lock_of sf u = Some l \<and> l < sf_next_lock sf' \<or>
        l = sf_next_lock sf \<and> sf_next_lock sf' = Suc (sf_next_lock sf)" if "lock_of sf' u = Some l" for l
    proof (cases "lock_of (sf_sweep now sf) u")
      case None
      then show ?thesis using that lock by (simp add: sf' lock_of_def)
    next
      case (Some a)
      then have "lock_of (sf_sweep now sf) u = Some l" using that lock by simp
      then have "lock_of sf u = Some l" by (rule sweep_lock(1))
      moreover from this have "l < sf_next_lock sf" using ok unfolding locks_ok_def by blast
      ultimately show ?thesis using less by simp
    qed
    show ?thesis
      unfolding locks_ok_def
    proof (intro conjI allI impI)
      fix v l assume v: "lock_of sf' v = Some l"
      show "l < sf_next_lock sf'"
        using old [of v l] new [of l] v ok less by (cases "v = u") (fastforce simp: locks_ok_def)+
    next
      fix v x l assume a: "lock_of sf' v = Some l \<and> lock_of sf' x = Some l"
      show "v = x"
        using old [of v l] old [of x l] new [of l] a ok
        by (cases "v = u"; cases "x = u") (fastforce simp: locks_ok_def)+
    qed
  qed
qed

lemma ua_begin_ok:
  assumes "ua_begin m w now ua = (out, ua')" "user_ok m w now (Some ua) h"
  shows "user_ok m w now (Some ua') h"
proof (cases "ua_reserve m w now ua")
  case None
  then have "ua' = ua_prune now w ua"
    using assms(1) by (auto simp: ua_reserve_def ua_begin_def Let_def split: if_splits)
  then show ?thesis using user_ok_prune [OF assms(2)] by simp
next
  case (Some a)
  then have "a = ua'" using assms(1) by (auto simp: ua_reserve_def split: begin_outcome.splits)
  with Some show ?thesis
    using assms(2) sfb.reserve_ok [of m w now ua h now ua'] by (simp add: user_ok_def)
qed

lemma user_ok_entry:
  assumes "user_ok m w now (sf_users sf u) h"
  shows "user_ok m w now (Some (sf_entry u sf)) h"
  using assms by (auto simp: sf_entry_def user_ok_def sfb.ok_def split: option.splits)

lemma begin_ok:
  assumes "sf_begin u now sf = (out, sf')" "users_ok now sf h"
  shows "users_ok now sf' h"
proof -
  obtain ua where b: "ua_begin (sf_max sf) (sf_window sf) now (sf_entry u (sf_sweep now sf)) = (out, ua)"
    and sf': "sf_users sf' = (sf_users (sf_sweep now sf))(u \<mapsto> ua)"
    using begin_cases [OF assms(1)] by metis
  have sw: "user_ok (sf_max sf) (sf_window sf) now (sf_users (sf_sweep now sf) v) (h v)" for v
    using sweep_ok [OF assms(2), unfolded users_ok_def] by simp
  have "user_ok (sf_max sf) (sf_window sf) now (Some ua) (h u)"
    by (rule ua_begin_ok [OF b]) (rule user_ok_entry [OF sw])
  with sw show ?thesis
    unfolding users_ok_def begin_params [OF assms(1)] sf' by simp
qed

lemma end_flying:
  "flying_of (sf_end u failed now sf) v = flying_of sf v - (if v = u then 1 else 0)"
  by (auto simp: flying_of_def sf_end_def ua_end_def ua_busy_def Let_def split: option.splits)

lemma end_lock:
  "lock_of (sf_end u failed now sf) v = Some l \<Longrightarrow> lock_of sf v = Some l"
  "0 < flying_of (sf_end u failed now sf) v \<Longrightarrow> lock_of (sf_end u failed now sf) v = lock_of sf v"
  by (auto simp: lock_of_def flying_of_def sf_end_def Let_def split: option.splits if_splits)

lemma end_locks_ok: "locks_ok sf \<Longrightarrow> locks_ok (sf_end u failed now sf)"
  unfolding locks_ok_def end_params by (meson end_lock(1))

lemma end_ok:
  assumes "users_ok now sf h" "0 < flying_of sf u"
  shows "users_ok now (sf_end u failed now sf) (if failed then h(u := h u @ [now]) else h)"
proof -
  obtain ua where ua: "sf_users sf u = Some ua" "0 < ua_in_flight ua"
    using assms(2) by (auto simp: flying_of_def split: option.splits)
  let ?ua = "ua_end (sf_window sf) failed now ua" and ?h = "if failed then h u @ [now] else h u"
  have "user_ok (sf_max sf) (sf_window sf) now (Some ua) (h u)"
    using assms(1) ua(1) by (metis users_ok_def)
  then have some: "user_ok (sf_max sf) (sf_window sf) now (Some ?ua) ?h"
    using ua(2) by (cases failed) (auto simp: user_ok_def intro: sfb.fail_ok sfb.release_ok)
  have pruned: "ua_prune now (sf_window sf) ?ua = ?ua" if "\<not> failed"
    using that by (simp add: ua_end_def ua_prune_def recent_recent Let_def)
  have "user_ok (sf_max sf) (sf_window sf) now (if ua_busy ?ua then Some ?ua else None) ?h"
  proof (cases "ua_busy ?ua")
    case False
    then have "\<not> failed" by (auto simp: ua_busy_def ua_end_def Let_def)
    with False some pruned show ?thesis
      using user_ok_idle [of "sf_max sf" "sf_window sf" now ?ua ?h] by simp
  qed (use some in simp)
  with assms(1) ua(1) show ?thesis
    by (auto simp: users_ok_def sf_end_def Let_def)
qed

end
