(* ===== verification/SecondFactorSystem.thy ===== *)
theory SecondFactorSystem
  imports SecondFactor
begin

text \<open>
  The second factor codes of all users being checked at once: each request begins an attempt,
  checks a TOTP code or goes through \<open>finish_totp_recovery_login\<close> one await point at a time, and
  ends with a result or is dropped. The steps of different requests interleave in any order.
\<close>

section \<open>Attempts and the system\<close>

text \<open>Where a request is in \<open>finish_totp_recovery_login\<close>; one with a TOTP code stays \<open>Started\<close>.\<close>

datatype recovery_pc =
    Started
  | Locked
  | Loaded "string list"             \<comment> \<open>the hashes \<open>get_user\<close> returned\<close>
  | Found string                     \<comment> \<open>the hash the code matches\<close>
  | Removing string "string list"    \<comment> \<open>the app loaded the list to write it back without the hash\<close>
  | Removed string                   \<comment> \<open>\<open>remove_totp_recovery_code\<close> returned\<close>
  | Unlocked string                  \<comment> \<open>\<open>drop(recovery_codes)\<close>, the login is recorded\<close>

fun holds_lock :: "recovery_pc \<Rightarrow> bool" where
  "holds_lock Started = False"
| "holds_lock (Unlocked _) = False"
| "holds_lock _ = True"

record sf_attempt =
  at_user :: user_id
  at_lock :: lock_id
  at_pc :: recovery_pc

record sf_system =
  sy_now :: instant
  sy_sf :: second_factor
  sy_attempts :: "nat \<Rightarrow> sf_attempt option"
  sy_owner :: "lock_id \<Rightarrow> nat option"
  sy_codes :: "user_id \<Rightarrow> string list"
  sy_failed :: "user_id \<Rightarrow> instant list"     \<comment> \<open>history: when refused codes of a user ended\<close>
  sy_used :: "(user_id \<times> string) list"       \<comment> \<open>history: the hashes logins went on with\<close>

definition sf_init :: "nat \<Rightarrow> duration \<Rightarrow> instant \<Rightarrow> (user_id \<Rightarrow> string list) \<Rightarrow> sf_system" where
  "sf_init m w now codes = \<lparr>sy_now = now, sy_sf = second_factor_new m w, sy_attempts = (\<lambda>_. None),
     sy_owner = (\<lambda>_. None), sy_codes = codes, sy_failed = (\<lambda>_. []), sy_used = []\<rparr>"

datatype sf_op =
    Wait duration
  | Begin_Attempt nat user_id
  | Lock_Codes nat
  | Load_User nat
  | Find_Code nat string
  | Load_For_Removal nat
  | Store_Removal nat
  | Drop_Guard nat
  | End_Attempt nat "status + unit"
  | Drop_Attempt nat

definition set_pc :: "nat \<Rightarrow> sf_attempt \<Rightarrow> recovery_pc \<Rightarrow> sf_system \<Rightarrow> sf_system" where
  "set_pc t a pc s = s\<lparr>sy_attempts := (sy_attempts s)(t \<mapsto> a\<lparr>at_pc := pc\<rparr>)\<rparr>"

definition release_lock :: "sf_attempt \<Rightarrow> sf_system \<Rightarrow> sf_system" where
  "release_lock a s = (if holds_lock (at_pc a) then s\<lparr>sy_owner := (sy_owner s)(at_lock a := None)\<rparr> else s)"

text \<open>
  An attempt which ends or is dropped drops its guard of the recovery codes, if it holds it,
  gives its slot back and, when the code was refused, records the failure.
\<close>

definition finish_attempt :: "nat \<Rightarrow> sf_attempt \<Rightarrow> bool \<Rightarrow> sf_system \<Rightarrow> sf_system" where
  "finish_attempt t a failed s =
     (release_lock a s)\<lparr>sy_sf := sf_end (at_user a) failed (sy_now s) (sy_sf s),
        sy_attempts := (sy_attempts s)(t := None),
        sy_failed := (if failed then (sy_failed s)(at_user a := sy_failed s (at_user a) @ [sy_now s])
                      else sy_failed s)\<rparr>"

text \<open>One step, when it is enabled.\<close>

fun sf_step :: "(string \<Rightarrow> string \<Rightarrow> bool) \<Rightarrow> sf_op \<Rightarrow> sf_system \<Rightarrow> sf_system option" where
  "sf_step verify (Wait d) s = Some (s\<lparr>sy_now := sy_now s + d\<rparr>)"
| "sf_step verify (Begin_Attempt t u) s =
     (if sy_attempts s t = None then
        (case sf_begin u (sy_now s) (sy_sf s) of
           (Begun l, sf) \<Rightarrow> Some (s\<lparr>sy_sf := sf,
             sy_attempts := (sy_attempts s)(t \<mapsto> \<lparr>at_user = u, at_lock = l, at_pc = Started\<rparr>)\<rparr>)
         | (_, sf) \<Rightarrow> Some (s\<lparr>sy_sf := sf\<rparr>))
      else None)"
| "sf_step verify (Lock_Codes t) s = (case sy_attempts s t of
     Some a \<Rightarrow> if at_pc a = Started \<and> sy_owner s (at_lock a) = None
               then Some (set_pc t a Locked s\<lparr>sy_owner := (sy_owner s)(at_lock a \<mapsto> t)\<rparr>) else None
   | None \<Rightarrow> None)"
| "sf_step verify (Load_User t) s = (case sy_attempts s t of
     Some a \<Rightarrow> if at_pc a = Locked then Some (set_pc t a (Loaded (sy_codes s (at_user a))) s) else None
   | None \<Rightarrow> None)"
| "sf_step verify (Find_Code t code) s = (case sy_attempts s t of
     Some a \<Rightarrow> (case at_pc a of
        Loaded hashes \<Rightarrow> (case find_recovery_code verify code hashes of
           Some h \<Rightarrow> Some (set_pc t a (Found h) s) | None \<Rightarrow> Some (finish_attempt t a True s))
      | _ \<Rightarrow> None)
   | None \<Rightarrow> None)"
| "sf_step verify (Load_For_Removal t) s = (case sy_attempts s t of
     Some a \<Rightarrow> (case at_pc a of
        Found h \<Rightarrow> Some (set_pc t a (Removing h (sy_codes s (at_user a))) s) | _ \<Rightarrow> None)
   | None \<Rightarrow> None)"
| "sf_step verify (Store_Removal t) s = (case sy_attempts s t of
     Some a \<Rightarrow> (case at_pc a of
        Removing h hashes \<Rightarrow> Some (set_pc t a (Removed h) s
          \<lparr>sy_codes := (sy_codes s)(at_user a := filter (\<lambda>x. x \<noteq> h) hashes),
           sy_used := (at_user a, h) # sy_used s\<rparr>)
      | _ \<Rightarrow> None)
   | None \<Rightarrow> None)"
| "sf_step verify (Drop_Guard t) s = (case sy_attempts s t of
     Some a \<Rightarrow> (case at_pc a of
        Removed h \<Rightarrow> Some (set_pc t a (Unlocked h) (release_lock a s)) | _ \<Rightarrow> None)
   | None \<Rightarrow> None)"
| "sf_step verify (End_Attempt t r) s = (case sy_attempts s t of
     Some a \<Rightarrow> Some (finish_attempt t a (counts_as_failure r) s) | None \<Rightarrow> None)"
| "sf_step verify (Drop_Attempt t) s = (case sy_attempts s t of
     Some a \<Rightarrow> Some (finish_attempt t a False s) | None \<Rightarrow> None)"

fun sf_run :: "(string \<Rightarrow> string \<Rightarrow> bool) \<Rightarrow> sf_op list \<Rightarrow> sf_system \<Rightarrow> sf_system option" where
  "sf_run verify [] s = Some s"
| "sf_run verify (op # ops) s = (case sf_step verify op s of
     Some s' \<Rightarrow> sf_run verify ops s' | None \<Rightarrow> None)"

lemma finish_simps [simp]:
  "sy_now (finish_attempt t a failed s) = sy_now s"
  "sy_sf (finish_attempt t a failed s) = sf_end (at_user a) failed (sy_now s) (sy_sf s)"
  "sy_attempts (finish_attempt t a failed s) = (sy_attempts s)(t := None)"
  "sy_failed (finish_attempt t a failed s) = (if failed
     then (sy_failed s)(at_user a := sy_failed s (at_user a) @ [sy_now s]) else sy_failed s)"
  "sy_owner (finish_attempt t a failed s) =
     (if holds_lock (at_pc a) then (sy_owner s)(at_lock a := None) else sy_owner s)"
  "sy_codes (finish_attempt t a failed s) = sy_codes s"
  "sy_used (finish_attempt t a failed s) = sy_used s"
  by (simp_all add: finish_attempt_def release_lock_def)

section \<open>The budget holds for every user\<close>

definition attempts_of :: "sf_system \<Rightarrow> user_id \<Rightarrow> nat set" where
  "attempts_of s u = {t. \<exists>a. sy_attempts s t = Some a \<and> at_user a = u}"

definition budgets_inv :: "sf_system \<Rightarrow> bool" where
  "budgets_inv s \<longleftrightarrow> finite (Map.dom (sy_attempts s)) \<and>
     (\<forall>u. flying_of (sy_sf s) u = card (attempts_of s u)) \<and>
     users_ok (sy_now s) (sy_sf s) (sy_failed s)"

lemma budgets_inv_init: "budgets_inv (sf_init m w now codes)"
  by (simp add: budgets_inv_def sf_init_def attempts_of_def second_factor_new_def flying_of_def
      users_ok_def user_ok_def budget_inv_init)

lemma finite_attempts: "finite (Map.dom (sy_attempts s)) \<Longrightarrow> finite (attempts_of s u)"
  by (rule finite_subset [of _ "Map.dom (sy_attempts s)"]) (auto simp: attempts_of_def)

lemma attempts_of_add:
  assumes "sy_attempts s t = None"
  shows "attempts_of (s\<lparr>sy_sf := sf, sy_attempts := (sy_attempts s)(t \<mapsto> a)\<rparr>) u =
    (if at_user a = u then insert t (attempts_of s u) else attempts_of s u)" "t \<notin> attempts_of s u"
  using assms by (auto simp: attempts_of_def)

lemma attempts_of_finish:
  assumes "sy_attempts s t = Some a"
  shows "attempts_of (finish_attempt t a failed s) u =
    (if at_user a = u then attempts_of s u - {t} else attempts_of s u)"
  using assms by (auto simp: attempts_of_def)

lemma attempt_flying:
  assumes "budgets_inv s" "sy_attempts s t = Some a"
  shows "0 < flying_of (sy_sf s) (at_user a)"
proof -
  have "t \<in> attempts_of s (at_user a)" using assms(2) by (simp add: attempts_of_def)
  moreover have "finite (attempts_of s (at_user a))"
    using assms(1) by (simp add: budgets_inv_def finite_attempts)
  ultimately show ?thesis using assms(1) by (auto simp: budgets_inv_def card_gt_0_iff)
qed

text \<open>The steps between begin and end keep the bookkeeping.\<close>

definition same_budgets :: "sf_system \<Rightarrow> sf_system \<Rightarrow> bool" where
  "same_budgets s s' \<longleftrightarrow> sy_now s' = sy_now s \<and> sy_sf s' = sy_sf s \<and> sy_failed s' = sy_failed s \<and>
     Map.dom (sy_attempts s') = Map.dom (sy_attempts s) \<and> (\<forall>u. attempts_of s' u = attempts_of s u)"

lemma same_budgets_inv: "same_budgets s s' \<Longrightarrow> budgets_inv s \<Longrightarrow> budgets_inv s'"
  by (simp add: same_budgets_def budgets_inv_def)

lemma same_budgets_set_pc:
  assumes "sy_attempts s t = Some a"
  shows "same_budgets s (set_pc t a pc s)"
    "same_budgets s (set_pc t a pc s\<lparr>sy_owner := own\<rparr>)"
    "same_budgets s (set_pc t a pc s\<lparr>sy_codes := cs, sy_used := us\<rparr>)"
    "same_budgets s (set_pc t a pc (release_lock a s))"
  using assms by (auto simp: same_budgets_def set_pc_def attempts_of_def release_lock_def)

lemma budgets_inv_finish:
  assumes inv: "budgets_inv s" and t: "sy_attempts s t = Some a"
  shows "budgets_inv (finish_attempt t a failed s)"
proof -
  have fin: "finite (Map.dom (sy_attempts s))" and n: "flying_of (sy_sf s) u = card (attempts_of s u)" for u
    using inv by (auto simp: budgets_inv_def)
  have "t \<in> attempts_of s (at_user a)" using t by (simp add: attempts_of_def)
  have pos: "0 < flying_of (sy_sf s) (at_user a)" using inv t by (rule attempt_flying)
  have card: "card (attempts_of (finish_attempt t a failed s) u) =
      card (attempts_of s u) - (if u = at_user a then 1 else 0)" for u
    using \<open>t \<in> attempts_of s (at_user a)\<close> finite_attempts [OF fin]
    by (simp add: attempts_of_finish [OF t] card_Diff_singleton)
  have "users_ok (sy_now s) (sf_end (at_user a) failed (sy_now s) (sy_sf s))
      (sy_failed (finish_attempt t a failed s))"
    using end_ok [of "sy_now s" "sy_sf s" "sy_failed s" "at_user a" failed] inv pos
    by (simp add: budgets_inv_def)
  then show ?thesis
    unfolding budgets_inv_def using fin n card by (simp del: One_nat_def add: end_flying)
qed

lemma budgets_inv_begin:
  assumes inv: "budgets_inv s" and t: "sy_attempts s t = None"
    and b: "sf_begin u (sy_now s) (sy_sf s) = (out, sf)"
  shows "\<nexists>l. out = Begun l \<Longrightarrow> budgets_inv (s\<lparr>sy_sf := sf\<rparr>)"
    and "out = Begun l \<Longrightarrow> at_user a = u \<Longrightarrow>
      budgets_inv (s\<lparr>sy_sf := sf, sy_attempts := (sy_attempts s)(t \<mapsto> a)\<rparr>)"
proof -
  have fin: "finite (Map.dom (sy_attempts s))" and n: "flying_of (sy_sf s) v = card (attempts_of s v)"
    and ok: "users_ok (sy_now s) (sy_sf s) (sy_failed s)" for v
    using inv by (auto simp: budgets_inv_def)
  note f = begin_flying [OF b] and o = begin_ok [OF b ok]
  show "budgets_inv (s\<lparr>sy_sf := sf\<rparr>)" if "\<nexists>l. out = Begun l"
  proof -
    have "flying_of sf v = card (attempts_of s v)" for v
      using f that n by (cases out) auto
    then show ?thesis using fin o by (simp add: budgets_inv_def attempts_of_def)
  qed
  show "budgets_inv (s\<lparr>sy_sf := sf, sy_attempts := (sy_attempts s)(t \<mapsto> a)\<rparr>)"
    if "out = Begun l" "at_user a = u"
  proof -
    have "flying_of sf v = card (attempts_of (s\<lparr>sy_sf := sf, sy_attempts := (sy_attempts s)(t \<mapsto> a)\<rparr>) v)" for v
      using f [of v] that n [of v] finite_attempts [OF fin, of v]
      by (simp add: attempts_of_add [OF t])
    then show ?thesis using fin o by (simp add: budgets_inv_def)
  qed
qed

lemma budgets_inv_step:
  assumes "budgets_inv s" "sf_step verify op s = Some s'"
  shows "budgets_inv s'"
proof (cases op)
  case (Wait d)
  have "users_ok (sy_now s + d) (sy_sf s) (sy_failed s)"
    using assms(1) by (auto simp: budgets_inv_def users_ok_def intro: user_ok_tick [where now = "sy_now s"])
  then show ?thesis using assms Wait
    by (auto simp: budgets_inv_def attempts_of_def)
next
  case (Begin_Attempt t u)
  obtain out sf where b: "sf_begin u (sy_now s) (sy_sf s) = (out, sf)" by fastforce
  have t: "sy_attempts s t = None" using assms(2) Begin_Attempt by (auto split: if_splits)
  show ?thesis
    using budgets_inv_begin [OF assms(1) t b] assms(2) Begin_Attempt b t
    by (cases out) auto
qed (use assms in \<open>auto split: option.splits recovery_pc.splits if_splits
      intro: budgets_inv_finish same_budgets_inv [OF same_budgets_set_pc(1)]
        same_budgets_inv [OF same_budgets_set_pc(2)] same_budgets_inv [OF same_budgets_set_pc(3)]
        same_budgets_inv [OF same_budgets_set_pc(4)]\<close>)


section \<open>A recovery code is used once\<close>

text \<open>
  All the attempts of a user in flight share one lock, no two users share one, and the attempt
  which is between loading the codes and dropping its guard owns it. So what it loaded is still
  the list of the user's codes, and a hash it goes on with is still on it.
\<close>

definition pc_ok :: "string list \<Rightarrow> recovery_pc \<Rightarrow> bool" where
  "pc_ok codes pc \<longleftrightarrow> (case pc of
     Loaded hashes \<Rightarrow> hashes = codes
   | Found h \<Rightarrow> h \<in> set codes
   | Removing h hashes \<Rightarrow> hashes = codes \<and> h \<in> set codes
   | _ \<Rightarrow> True)"

definition locks_inv :: "sf_system \<Rightarrow> bool" where
  "locks_inv s \<longleftrightarrow> locks_ok (sy_sf s) \<and>
     (\<forall>t a. sy_attempts s t = Some a \<longrightarrow> lock_of (sy_sf s) (at_user a) = Some (at_lock a)) \<and>
     (\<forall>t a. sy_attempts s t = Some a \<and> holds_lock (at_pc a) \<longrightarrow>
        sy_owner s (at_lock a) = Some t \<and> pc_ok (sy_codes s (at_user a)) (at_pc a)) \<and>
     distinct (sy_used s) \<and> (\<forall>(u, h) \<in> set (sy_used s). h \<notin> set (sy_codes s u))"

lemma locks_inv_init: "locks_inv (sf_init m w now codes)"
  by (simp add: locks_inv_def sf_init_def second_factor_new_def locks_ok_def lock_of_def)

lemma locks_invD:
  assumes "locks_inv s" "sy_attempts s t = Some a"
  shows "lock_of (sy_sf s) (at_user a) = Some (at_lock a)"
    and "holds_lock (at_pc a) \<Longrightarrow> sy_owner s (at_lock a) = Some t"
    and "holds_lock (at_pc a) \<Longrightarrow> pc_ok (sy_codes s (at_user a)) (at_pc a)"
  using assms by (auto simp: locks_inv_def)

lemma same_user_same_lock:
  assumes "locks_inv s" "sy_attempts s t = Some a" "sy_attempts s t' = Some b"
  shows "at_user a = at_user b \<longleftrightarrow> at_lock a = at_lock b"
proof -
  have "locks_ok (sy_sf s)" using assms(1) by (simp add: locks_inv_def)
  then show ?thesis
    using locks_invD(1) [OF assms(1,2)] locks_invD(1) [OF assms(1,3)]
    by (auto simp: locks_ok_def)
qed

lemma only_holder:
  assumes "locks_inv s" "sy_attempts s t = Some a" "holds_lock (at_pc a)"
    "sy_attempts s t' = Some b" "holds_lock (at_pc b)" "at_user a = at_user b"
  shows "t' = t"
  using locks_invD(2) [OF assms(1,2,3)] locks_invD(2) [OF assms(1,4,5)]
    same_user_same_lock [OF assms(1,2,4)] assms(6) by simp

text \<open>A step that only moves one attempt, whose new state is in order.\<close>

lemma locks_inv_set_pc:
  assumes inv: "locks_inv s" and t: "sy_attempts s t = Some a"
    and pc: "holds_lock pc \<Longrightarrow> sy_owner s (at_lock a) = Some t \<and> pc_ok (sy_codes s (at_user a)) pc"
  shows "locks_inv (set_pc t a pc s)"
  using inv pc locks_invD(1) [OF inv t] by (auto simp: locks_inv_def set_pc_def)

lemma locks_inv_lock:
  assumes inv: "locks_inv s" and t: "sy_attempts s t = Some a" and free: "sy_owner s (at_lock a) = None"
  shows "locks_inv (set_pc t a Locked s\<lparr>sy_owner := (sy_owner s)(at_lock a \<mapsto> t)\<rparr>)"
proof -
  have "at_lock b \<noteq> at_lock a" if "sy_attempts s t' = Some b" "holds_lock (at_pc b)" for t' b
    using locks_invD(2) [OF inv that] free by auto
  with inv locks_invD(1) [OF inv t] show ?thesis
    by (auto simp: locks_inv_def set_pc_def pc_ok_def)
qed

lemma locks_inv_drop_owner:
  assumes inv: "locks_inv s" and t: "sy_attempts s t = Some a" and "sy_attempts s' = (sy_attempts s)(t := at')"
    and "sy_owner s' = (if holds_lock (at_pc a) then (sy_owner s)(at_lock a := None) else sy_owner s)"
    and other: "t' \<noteq> t" "sy_attempts s t' = Some b" "holds_lock (at_pc b)"
  shows "sy_owner s' (at_lock b) = Some t'"
proof -
  have "at_lock b \<noteq> at_lock a" if "holds_lock (at_pc a)"
    using locks_invD(2) [OF inv t that] locks_invD(2) [OF inv other(2,3)] other(1) by auto
  then show ?thesis
    using locks_invD(2) [OF inv other(2,3)] assms(4) by (simp split: if_splits)
qed

lemma locks_inv_guard:
  assumes inv: "locks_inv s" and t: "sy_attempts s t = Some a" and pc: "at_pc a = Removed h"
  shows "locks_inv (set_pc t a (Unlocked h) (release_lock a s))"
proof -
  let ?s = "set_pc t a (Unlocked h) (release_lock a s)"
  have s': "sy_attempts ?s = (sy_attempts s)(t := Some (a\<lparr>at_pc := Unlocked h\<rparr>))"
    "sy_owner ?s = (if holds_lock (at_pc a) then (sy_owner s)(at_lock a := None) else sy_owner s)"
    "sy_sf ?s = sy_sf s" "sy_codes ?s = sy_codes s" "sy_used ?s = sy_used s"
    by (simp_all add: set_pc_def release_lock_def)
  have own: "sy_owner ?s (at_lock b) = Some t'"
    if "t' \<noteq> t" "sy_attempts s t' = Some b" "holds_lock (at_pc b)" for t' b
    by (rule locks_inv_drop_owner [OF inv t s'(1,2) that])
  show ?thesis
    unfolding locks_inv_def
    using inv own locks_invD(1) [OF inv t] by (auto simp: locks_inv_def s'(1,3-5))
qed

lemma locks_inv_store:
  assumes inv: "locks_inv s" and t: "sy_attempts s t = Some a" and pc: "at_pc a = Removing h hashes"
  shows "locks_inv (set_pc t a (Removed h) s
    \<lparr>sy_codes := (sy_codes s)(at_user a := filter (\<lambda>x. x \<noteq> h) hashes),
     sy_used := (at_user a, h) # sy_used s\<rparr>)"
proof -
  have holds: "holds_lock (at_pc a)" using pc by simp
  have codes: "hashes = sy_codes s (at_user a)" and h: "h \<in> set hashes"
    using locks_invD(3) [OF inv t holds] pc by (auto simp: pc_ok_def)
  have fresh: "(at_user a, h) \<notin> set (sy_used s)"
    using inv codes h by (fastforce simp: locks_inv_def)
  have other: "at_user b \<noteq> at_user a" if "t' \<noteq> t" "sy_attempts s t' = Some b" "holds_lock (at_pc b)" for t' b
    using only_holder [OF inv t holds that(2,3)] that(1) by metis
  show ?thesis
    using inv fresh other locks_invD(1) [OF inv t] locks_invD(2) [OF inv t holds]
    unfolding locks_inv_def
    by (auto simp: set_pc_def codes pc_ok_def split: if_splits)
qed

lemma locks_inv_finish:
  assumes inv: "locks_inv s" and "budgets_inv s" and t: "sy_attempts s t = Some a"
  shows "locks_inv (finish_attempt t a failed s)"
proof -
  let ?s = "finish_attempt t a failed s"
  have "lock_of (sy_sf ?s) (at_user b) = Some (at_lock b)" if b: "t' \<noteq> t" "sy_attempts s t' = Some b" for t' b
  proof -
    have "budgets_inv ?s" using assms(2) t by (rule budgets_inv_finish)
    then have "0 < flying_of (sy_sf ?s) (at_user b)" by (rule attempt_flying [where t = t']) (use b in simp)
    then show ?thesis
      using end_lock(2) locks_invD(1) [OF inv b(2)] by simp
  qed
  moreover have "sy_owner ?s (at_lock b) = Some t'"
    if "t' \<noteq> t" "sy_attempts s t' = Some b" "holds_lock (at_pc b)" for t' b
    by (rule locks_inv_drop_owner [OF inv t _ _ that]) simp_all
  moreover have "locks_ok (sy_sf ?s)" using inv by (simp add: locks_inv_def end_locks_ok)
  ultimately show ?thesis
    using inv by (auto simp del: finish_simps(5) simp: locks_inv_def)
qed

lemma locks_inv_begin:
  assumes inv: "locks_inv s" and bud: "budgets_inv s" and t: "sy_attempts s t = None"
    and b: "sf_begin u (sy_now s) (sy_sf s) = (out, sf)"
  shows "locks_inv (s\<lparr>sy_sf := sf\<rparr>)"
    and "out = Begun l \<Longrightarrow>
      locks_inv (s\<lparr>sy_sf := sf, sy_attempts := (sy_attempts s)(t \<mapsto> \<lparr>at_user = u, at_lock = l, at_pc = Started\<rparr>)\<rparr>)"
proof -
  have lock: "lock_of sf (at_user a) = Some (at_lock a)" if a: "sy_attempts s t' = Some a" for t' a
  proof -
    have "0 < flying_of (sy_sf s) (at_user a)" using bud a by (rule attempt_flying)
    then show ?thesis using begin_lock(1) [OF b] locks_invD(1) [OF inv a] by simp
  qed
  have ok: "locks_ok sf" using begin_lock(3) [OF b] inv by (simp add: locks_inv_def)
  show "locks_inv (s\<lparr>sy_sf := sf\<rparr>)" using inv lock ok by (auto simp: locks_inv_def)
  show "locks_inv (s\<lparr>sy_sf := sf, sy_attempts := (sy_attempts s)(t \<mapsto> \<lparr>at_user = u, at_lock = l, at_pc = Started\<rparr>)\<rparr>)"
    if "out = Begun l"
    using inv lock ok begin_lock(2) [OF b that] by (auto simp: locks_inv_def)
qed

lemma find_recovery_code_mem: "find_recovery_code verify code hs = Some h \<Longrightarrow> h \<in> set hs \<and> verify code h"
  by (auto simp: find_recovery_code_def find_Some_iff)

lemma locks_inv_step:
  assumes inv: "locks_inv s" and bud: "budgets_inv s" and s: "sf_step verify op s = Some s'"
  shows "locks_inv s'"
proof (cases op)
  case (Wait d)
  then show ?thesis using inv s by (auto simp: locks_inv_def)
next
  case (Begin_Attempt t u)
  obtain out sf where b: "sf_begin u (sy_now s) (sy_sf s) = (out, sf)" by fastforce
  have t: "sy_attempts s t = None" using s Begin_Attempt by (auto split: if_splits)
  show ?thesis
    using locks_inv_begin [OF inv bud t b] s Begin_Attempt b t by (cases out) auto
next
  case (Lock_Codes t)
  then show ?thesis using inv s by (auto split: option.splits if_splits intro: locks_inv_lock)
next
  case (Load_User t)
  then show ?thesis using inv s locks_invD(2) [OF inv]
    by (auto split: option.splits if_splits simp: pc_ok_def intro!: locks_inv_set_pc)
next
  case (Find_Code t code)
  then obtain a hs where t: "sy_attempts s t = Some a" and pc: "at_pc a = Loaded hs"
    using s by (auto split: option.splits recovery_pc.splits)
  have h: "holds_lock (at_pc a)" using pc by simp
  show ?thesis
  proof (cases "find_recovery_code verify code hs")
    case None
    then show ?thesis using s Find_Code t pc locks_inv_finish [OF inv bud t, of True] by auto
  next
    case (Some x)
    have "locks_inv (set_pc t a (Found x) s)"
      using locks_invD(2,3) [OF inv t h] pc find_recovery_code_mem [OF Some]
      by (intro locks_inv_set_pc [OF inv t]) (simp add: pc_ok_def)
    then show ?thesis using s Find_Code t pc Some by simp
  qed
next
  case (Load_For_Removal t)
  then obtain a x where t: "sy_attempts s t = Some a" and pc: "at_pc a = Found x"
    using s by (auto split: option.splits recovery_pc.splits)
  have h: "holds_lock (at_pc a)" using pc by simp
  have "locks_inv (set_pc t a (Removing x (sy_codes s (at_user a))) s)"
    using locks_invD(2,3) [OF inv t h] pc
    by (intro locks_inv_set_pc [OF inv t]) (simp add: pc_ok_def)
  then show ?thesis using s Load_For_Removal t pc by simp
next
  case (Store_Removal t)
  then show ?thesis using inv s
    by (auto split: option.splits recovery_pc.splits intro: locks_inv_store)
next
  case (Drop_Guard t)
  then show ?thesis using inv s
    by (auto split: option.splits recovery_pc.splits intro: locks_inv_guard)
qed (use s inv bud in \<open>auto split: option.splits intro: locks_inv_finish\<close>)

lemma sf_run_inv:
  assumes "sf_run verify ops s = Some s'" "budgets_inv s" "locks_inv s"
  shows "budgets_inv s' \<and> locks_inv s'"
  using assms
proof (induction ops arbitrary: s)
  case (Cons op ops)
  then show ?case
    by (auto split: option.splits dest: budgets_inv_step locks_inv_step)
qed simp

lemma sf_step_max:
  assumes "sf_step verify op s = Some s'"
  shows "sf_max (sy_sf s') = sf_max (sy_sf s) \<and> sf_window (sy_sf s') = sf_window (sy_sf s)"
proof (cases op)
  case (Begin_Attempt t u)
  obtain out sf where b: "sf_begin u (sy_now s) (sy_sf s) = (out, sf)" by fastforce
  then show ?thesis using assms Begin_Attempt begin_params [OF b]
    by (cases out) (auto split: if_splits)
qed (use assms in \<open>auto simp: set_pc_def release_lock_def split: option.splits recovery_pc.splits if_splits\<close>)

lemma sf_run_max:
  "sf_run verify ops s = Some s' \<Longrightarrow>
   sf_max (sy_sf s') = sf_max (sy_sf s) \<and> sf_window (sy_sf s') = sf_window (sy_sf s)"
  by (induction ops arbitrary: s) (auto split: option.splits dest!: sf_step_max)


section \<open>Properties\<close>

text \<open>
  C5: However requests with second factor codes interleave, and whichever are dropped, at most
  \<open>MAX_SECOND_FACTOR_FAILURES\<close> codes of one user fail within any window of fifteen minutes, and
  the codes of the user being checked at once never exceed it either.
\<close>

theorem second_factor_failures_bounded:
  assumes "sf_run verify ops
      (sf_init MAX_SECOND_FACTOR_FAILURES SECOND_FACTOR_FAILURE_WINDOW now codes) = Some s"
  shows "window_count SECOND_FACTOR_FAILURE_WINDOW (sy_failed s u) t \<le> MAX_SECOND_FACTOR_FAILURES \<and>
    card (attempts_of s u) \<le> MAX_SECOND_FACTOR_FAILURES"
proof -
  have inv: "budgets_inv s"
    using sf_run_inv [OF assms budgets_inv_init locks_inv_init] by simp
  have max: "sf_max (sy_sf s) = MAX_SECOND_FACTOR_FAILURES"
    "sf_window (sy_sf s) = SECOND_FACTOR_FAILURE_WINDOW"
    using sf_run_max [OF assms] by (simp_all add: sf_init_def second_factor_new_def)
  have ok: "user_ok MAX_SECOND_FACTOR_FAILURES SECOND_FACTOR_FAILURE_WINDOW (sy_now s)
      (sf_users (sy_sf s) u) (sy_failed s u)"
    using inv by (simp add: budgets_inv_def users_ok_def max)
  have "flying_of (sy_sf s) u \<le> MAX_SECOND_FACTOR_FAILURES"
    using ok by (auto simp: user_ok_def flying_of_def dest: sfb.ok_flying split: option.splits)
  then show ?thesis using user_ok_bound [OF ok] inv by (simp add: budgets_inv_def)
qed

definition demo_codes :: "user_id \<Rightarrow> string list" where
  "demo_codes u = (if u = ''ann'' then [''h1'', ''h2''] else [])"

definition demo_ops :: "sf_op list" where
  "demo_ops = [Begin_Attempt 1 ''ann'', Begin_Attempt 2 ''ann'', Wait 5,
     End_Attempt 1 (Inl UNAUTHORIZED), Lock_Codes 2, Load_User 2, Find_Code 2 ''h2'',
     Load_For_Removal 2, Store_Removal 2, Drop_Guard 2, End_Attempt 2 (Inr ())]"

lemmas sf_eval = demo_ops_def demo_codes_def sf_init_def second_factor_new_def sf_begin_def
  sf_sweep_def sf_entry_def ua_begin_def ua_prune_def Let_def set_pc_def finish_attempt_def
  release_lock_def sf_end_def ua_end_def ua_busy_def counts_as_failure_def is_server_error_def
  find_recovery_code_def MAX_SECOND_FACTOR_FAILURES_def SECOND_FACTOR_FAILURE_WINDOW_def recent_def
  in_window_def

lemma demo_run: "\<exists>s. sf_run (=) demo_ops
    (sf_init MAX_SECOND_FACTOR_FAILURES SECOND_FACTOR_FAILURE_WINDOW 100 demo_codes) = Some s \<and>
    sy_failed s ''ann'' = [105] \<and> sy_used s = [(''ann'', ''h2'')] \<and> sy_codes s ''ann'' = [''h1'']"
  by (simp add: sf_eval)

lemma second_factor_failures_bounded_witness:
  "\<exists>s :: sf_system. sy_failed s ''ann'' = [105] \<and>
     window_count SECOND_FACTOR_FAILURE_WINDOW (sy_failed s ''ann'') 200 \<le> MAX_SECOND_FACTOR_FAILURES"
proof -
  obtain s where s: "sf_run (=) demo_ops (sf_init MAX_SECOND_FACTOR_FAILURES
      SECOND_FACTOR_FAILURE_WINDOW 100 demo_codes) = Some s" "sy_failed s ''ann'' = [105]"
    using demo_run by blast
  show ?thesis
    by (intro exI [of _ s] conjI s(2))
      (rule conjunct1 [OF second_factor_failures_bounded [OF s(1), of "''ann''" 200]])
qed

text \<open>
  C6: A recovery code logs in once: however the logins of a user interleave, with storage which
  loads and writes back the whole list of codes, no hash is used up by two logins, and a used hash
  is no longer among the user's codes (one removal does not undo another).
\<close>

theorem recovery_code_used_once:
  assumes "sf_run verify ops (sf_init m w now codes) = Some s"
  shows "distinct (sy_used s) \<and> (\<forall>(u, h) \<in> set (sy_used s). h \<notin> set (sy_codes s u))"
  using sf_run_inv [OF assms budgets_inv_init locks_inv_init] by (simp add: locks_inv_def)

lemma recovery_code_used_once_witness:
  "\<exists>s :: sf_system. sy_used s = [(''ann'', ''h2'')] \<and> distinct (sy_used s) \<and>
     (\<forall>(u, h) \<in> set (sy_used s). h \<notin> set (sy_codes s u))"
proof -
  obtain s where s: "sf_run (=) demo_ops (sf_init MAX_SECOND_FACTOR_FAILURES
      SECOND_FACTOR_FAILURE_WINDOW 100 demo_codes) = Some s" "sy_used s = [(''ann'', ''h2'')]"
    using demo_run by blast
  show ?thesis
    by (intro exI [of _ s] conjI s(2) recovery_code_used_once [OF s(1), THEN conjunct1]
        recovery_code_used_once [OF s(1), THEN conjunct2])
qed

text \<open>
  A TOTP code is accepted once: of the steps submitted in any order by any users, the steps
  accepted for one user strictly increase, and all lie after the last one accepted before.
\<close>

theorem totp_step_accepted_once:
  "sorted_wrt (<) (map snd (filter (\<lambda>(v, _). v = u) (consume_all cs accepted))) \<and>
   (\<forall>step. (u, step) \<in> set (consume_all cs accepted) \<longrightarrow>
      (case accepted u of None \<Rightarrow> True | Some before \<Rightarrow> before < step))"
proof (induction cs arbitrary: accepted)
  case (Cons c cs)
  obtain v step where c: "c = (v, step)" by fastforce
  show ?case
  proof (cases "\<exists>before. accepted v = Some before \<and> step \<le> before")
    case True
    then have "consume_all (c # cs) accepted = consume_all cs accepted"
      by (auto simp: c consume_totp_step_in_process_def)
    then show ?thesis using Cons [of accepted] by simp
  next
    case False
    then have run: "consume_all (c # cs) accepted = (v, step) # consume_all cs (accepted(v \<mapsto> step))"
      by (auto simp: c consume_totp_step_in_process_def split: option.splits)
    define now where "now = accepted(v \<mapsto> step)"
    have "now u = (if u = v then Some step else accepted u)" by (simp add: now_def)
    then show ?thesis
      using Cons [of now] False unfolding run now_def [symmetric]
      by (cases "v = u"; cases "accepted u") (auto dest: less_trans)
  qed
qed simp

lemma totp_step_accepted_once_witness:
  "consume_all [(''ann'', 7), (''ann'', 7), (''bob'', 3), (''ann'', 6), (''ann'', 9)] (\<lambda>_. None) =
     [(''ann'', 7), (''bob'', 3), (''ann'', 9)] \<and>
   sorted_wrt (<) (map snd (filter (\<lambda>(v, _). v = ''ann'')
     (consume_all [(''ann'', 7), (''ann'', 7), (''bob'', 3), (''ann'', 6), (''ann'', 9)] (\<lambda>_. None))))"
  using totp_step_accepted_once [of "''ann''" "[(''ann'', 7), (''ann'', 7), (''bob'', 3), (''ann'', 6), (''ann'', 9)]"
    "\<lambda>_. None"] by (simp add: consume_totp_step_in_process_def)

end
