(* ===== verification/Flow.thy ===== *)
theory Flow
  imports Prelude
begin

text \<open>
  Runs of fallible steps over a state: a step gives an error or a value, and the state it leaves. Rust's
  \<open>?\<close> is \<open>and_then\<close>. What a run leaves alone is stated by \<open>preserves\<close>.
\<close>

section \<open>Steps\<close>

definition done_with :: "'a \<Rightarrow> 's \<Rightarrow> ('e + 'a) \<times> 's" where
  "done_with x s = (Inr x, s)"

definition and_then ::
  "('s \<Rightarrow> ('e + 'a) \<times> 's) \<Rightarrow> ('a \<Rightarrow> 's \<Rightarrow> ('e + 'b) \<times> 's) \<Rightarrow> 's \<Rightarrow> ('e + 'b) \<times> 's" where
  "and_then m f s = (case m s of (Inl e, s') \<Rightarrow> (Inl e, s') | (Inr x, s') \<Rightarrow> f x s')"

definition from_result :: "'e + 'a \<Rightarrow> 's \<Rightarrow> ('e + 'a) \<times> 's" where
  "from_result r s = (r, s)"

text \<open>A \<open>match\<close> on the error of a step.\<close>

definition catching :: "('s \<Rightarrow> ('e + 'a) \<times> 's) \<Rightarrow> ('e \<Rightarrow> 's \<Rightarrow> ('f + 'a) \<times> 's) \<Rightarrow> 's \<Rightarrow> ('f + 'a) \<times> 's" where
  "catching m h s = (case m s of (Inl e, s') \<Rightarrow> h e s' | (Inr x, s') \<Rightarrow> (Inr x, s'))"

section \<open>Reading a run\<close>

lemma catching_ok:
  "catching m h s = (Inr y, s') \<longleftrightarrow> m s = (Inr y, s') \<or> (\<exists>e s1. m s = (Inl e, s1) \<and> h e s1 = (Inr y, s'))"
  by (auto simp: catching_def split: prod.splits sum.splits)

lemma and_then_ok:
  "and_then m f s = (Inr y, s') \<longleftrightarrow> (\<exists>x s1. m s = (Inr x, s1) \<and> f x s1 = (Inr y, s'))"
  by (auto simp: and_then_def split: prod.splits sum.splits)

lemma done_with_ok [simp]: "done_with x s = (Inr y, s') \<longleftrightarrow> x = y \<and> s = s'"
  by (simp add: done_with_def)

lemma from_result_ok [simp]: "from_result r s = (Inr y, s') \<longleftrightarrow> r = Inr y \<and> s = s'"
  by (simp add: from_result_def)

lemma and_then_step: "m s = (Inr x, s1) \<Longrightarrow> and_then m f s = f x s1"
  by (simp add: and_then_def)

lemma and_then_stop: "m s = (Inl e, s1) \<Longrightarrow> and_then m f s = (Inl e, s1)"
  by (simp add: and_then_def)

section \<open>What a run leaves alone\<close>

definition preserves :: "('s \<Rightarrow> 'b) \<Rightarrow> ('s \<Rightarrow> 'r \<times> 's) \<Rightarrow> bool" where
  "preserves g m \<longleftrightarrow> (\<forall>s. g (snd (m s)) = g s)"

lemma preservesD: "preserves g m \<Longrightarrow> m s = (r, s') \<Longrightarrow> g s' = g s"
  unfolding preserves_def by (metis snd_conv)

lemma preserves_and_then [intro!]: "preserves g m \<Longrightarrow> (\<And>x. preserves g (f x)) \<Longrightarrow> preserves g (and_then m f)"
  unfolding preserves_def and_then_def by (auto split: prod.splits sum.splits) (metis snd_conv)+

lemma preserves_catching: "preserves g m \<Longrightarrow> (\<And>e. preserves g (h e)) \<Longrightarrow> preserves g (catching m h)"
  unfolding preserves_def catching_def by (auto split: prod.splits sum.splits) (metis snd_conv)+

text \<open>A run with an effect goes past every step which has none.\<close>

lemma goes_past:
  assumes "and_then m f s = (r, s')" "g s' \<noteq> g s" "preserves g m"
  obtains x s1 where "m s = (Inr x, s1)" "g s1 = g s" "g s' \<noteq> g s1" "f x s1 = (r, s')"
proof -
  obtain q s1 where m: "m s = (q, s1)" by fastforce
  then show ?thesis using preservesD [OF assms(3) m] assms(1,2) that by (cases q) (auto simp: and_then_def)
qed

section \<open>What a run guarantees\<close>

text \<open>From states with \<open>P\<close>, the run ends with \<open>Q\<close> of its value, or with \<open>E\<close> of its error.\<close>

definition runs :: "('s \<Rightarrow> bool) \<Rightarrow> ('s \<Rightarrow> ('e + 'a) \<times> 's) \<Rightarrow> ('a \<Rightarrow> 's \<Rightarrow> bool) \<Rightarrow> ('e \<Rightarrow> 's \<Rightarrow> bool) \<Rightarrow> bool" where
  "runs P m Q E \<longleftrightarrow> (\<forall>s. P s \<longrightarrow> (case m s of (Inl e, s') \<Rightarrow> E e s' | (Inr x, s') \<Rightarrow> Q x s'))"

lemma runsI: "(\<And>s. P s \<Longrightarrow> case m s of (Inl e, s') \<Rightarrow> E e s' | (Inr x, s') \<Rightarrow> Q x s') \<Longrightarrow> runs P m Q E"
  by (simp add: runs_def)

lemma runs_Inr: "runs P m Q E \<Longrightarrow> P s \<Longrightarrow> m s = (Inr x, s') \<Longrightarrow> Q x s'"
  unfolding runs_def by fastforce

lemma runs_Inl: "runs P m Q E \<Longrightarrow> P s \<Longrightarrow> m s = (Inl e, s') \<Longrightarrow> E e s'"
  unfolding runs_def by fastforce

lemma runs_and_then: "runs P m R E \<Longrightarrow> (\<And>x. runs (R x) (f x) Q E) \<Longrightarrow> runs P (and_then m f) Q E"
proof (rule runsI)
  fix s assume m: "runs P m R E" "\<And>x. runs (R x) (f x) Q E" and s: "P s"
  show "case and_then m f s of (Inl e, s') \<Rightarrow> E e s' | (Inr x, s') \<Rightarrow> Q x s'"
  proof (cases "m s")
    case (Pair r s1)
    show ?thesis
    proof (cases r)
      case (Inl e)
      then show ?thesis using Pair runs_Inl [OF m(1) s] by (simp add: and_then_def)
    next
      case (Inr x)
      then have "R x s1" using Pair runs_Inr [OF m(1) s] by simp
      then show ?thesis using Pair Inr m(2) [of x] by (simp add: and_then_def runs_def)
    qed
  qed
qed

lemma runs_catching: "runs P m Q R \<Longrightarrow> (\<And>e. runs (R e) (h e) Q E) \<Longrightarrow> runs P (catching m h) Q E"
proof (rule runsI)
  fix s assume m: "runs P m Q R" "\<And>e. runs (R e) (h e) Q E" and s: "P s"
  show "case catching m h s of (Inl e, s') \<Rightarrow> E e s' | (Inr x, s') \<Rightarrow> Q x s'"
  proof (cases "m s")
    case (Pair r s1)
    show ?thesis
    proof (cases r)
      case (Inl e)
      then have "R e s1" using Pair runs_Inl [OF m(1) s] by simp
      then show ?thesis using Pair Inl m(2) [of e] by (simp add: catching_def runs_def)
    next
      case (Inr x)
      then show ?thesis using Pair runs_Inr [OF m(1) s] by (simp add: catching_def)
    qed
  qed
qed

lemma runs_pure: "(\<And>s. P s \<Longrightarrow> case r of Inl e \<Rightarrow> E e (g s) | Inr x \<Rightarrow> Q x (g s)) \<Longrightarrow> runs P (\<lambda>s. (r, g s)) Q E"
  by (auto simp: runs_def split: sum.splits)

lemma runs_done: "(\<And>s. P s \<Longrightarrow> Q x s) \<Longrightarrow> runs P (done_with x) Q E"
  by (simp add: runs_def done_with_def)

lemma runs_from_result:
  "(\<And>s y. P s \<Longrightarrow> r = Inr y \<Longrightarrow> Q y s) \<Longrightarrow> (\<And>s e. P s \<Longrightarrow> r = Inl e \<Longrightarrow> E e s) \<Longrightarrow> runs P (from_result r) Q E"
  by (cases r) (simp_all add: runs_def from_result_def)

lemma runs_weaken:
  "runs P' m Q' E' \<Longrightarrow> (\<And>s. P s \<Longrightarrow> P' s) \<Longrightarrow> (\<And>x s. Q' x s \<Longrightarrow> Q x s) \<Longrightarrow> (\<And>e s. E' e s \<Longrightarrow> E e s) \<Longrightarrow> runs P m Q E"
  unfolding runs_def by (fastforce split: prod.splits sum.splits)

lemma runs_and_value:
  "runs P m Q E \<Longrightarrow> (\<And>s x s'. P s \<Longrightarrow> m s = (Inr x, s') \<Longrightarrow> R x s') \<Longrightarrow> runs P m (\<lambda>x s. Q x s \<and> R x s) E"
  unfolding runs_def by (fastforce split: prod.splits sum.splits)

lemma runs_if:
  "(b \<Longrightarrow> runs P m Q E) \<Longrightarrow> (\<not> b \<Longrightarrow> runs P m' Q E) \<Longrightarrow> runs P (if b then m else m') Q E"
  by simp

lemma runs_preserves:
  "preserves g m \<Longrightarrow> (\<And>s s'. g s' = g s \<Longrightarrow> P s \<Longrightarrow> P s') \<Longrightarrow> runs P m (\<lambda>_. P) (\<lambda>_. P)"
  unfolding runs_def preserves_def by (auto split: prod.splits sum.splits) (metis snd_conv)+

end
