(* ===== verification/Jwt.thy ===== *)
theory Jwt
  imports Prelude
begin

text \<open>
  App tokens, \<^verbatim>\<open>auth/server/src/provider/jwt.rs\<close>: the claims, the provider with its
  issuer, audience, validation and time to live, encoding and decoding. The crate
  \<^verbatim>\<open>jsonwebtoken\<close> is the parameter \<open>jwt_lib\<close>: its header and validation are opaque values
  of type \<open>'o\<close>, signing and verifying its functions. \<open>jwt_lib_ok\<close> states what its documentation
  says of them: under the secret it was signed with, a token decodes exactly to its claims, while
  the algorithm, issuer, audience and expiry meet the validation (that no token decodes under
  another secret is cryptography, and not used).
  Times are unix seconds, \<open>u64\<close> in the source.
\<close>

section \<open>Claims\<close>

definition u64_max :: nat where "u64_max = 2 ^ 64 - 1"

definition saturating_add :: "nat \<Rightarrow> nat \<Rightarrow> nat" where
  "saturating_add a b = min (a + b) u64_max"

record jwt_claims =
  jc_sub :: string
  jc_iss :: string
  jc_aud :: string
  jc_iat :: nat
  jc_exp :: nat
  jc_auth_time :: "nat option"

definition authenticated_at :: "jwt_claims \<Rightarrow> nat" where
  "authenticated_at c = (case jc_auth_time c of None \<Rightarrow> jc_iat c | Some t \<Rightarrow> min t (jc_iat c))"

section \<open>The library\<close>

record 'o jwt_lib =
  jl_default_header :: 'o
  jl_alg :: "'o \<Rightarrow> string"
  jl_validation :: "string \<Rightarrow> string \<Rightarrow> string \<Rightarrow> nat \<Rightarrow> 'o"  \<comment> \<open>algorithm, issuer, audience, leeway\<close>
  jl_leeway :: "'o \<Rightarrow> nat"
  jl_encode :: "'o \<Rightarrow> jwt_claims \<Rightarrow> string \<Rightarrow> string option"
  jl_decode :: "nat \<Rightarrow> string \<Rightarrow> string \<Rightarrow> 'o \<Rightarrow> jwt_claims option"

definition jwt_lib_ok :: "'o jwt_lib \<Rightarrow> bool" where
  "jwt_lib_ok L \<longleftrightarrow>
     (\<forall>alg iss aud leeway. jl_leeway L (jl_validation L alg iss aud leeway) = leeway) \<and>
     (\<forall>now h c secret t alg iss aud leeway.
        jl_encode L h c secret = Some t \<longrightarrow>
        jl_decode L now t secret (jl_validation L alg iss aud leeway) =
          (if alg = jl_alg L h \<and> iss = jc_iss c \<and> aud = jc_aud c \<and> now \<le> jc_exp c + leeway
           then Some c else None))"

section \<open>The provider\<close>

definition DEFAULT_ISS_AUD :: string where "DEFAULT_ISS_AUD = ''mogh_auth''"
definition MIN_SECRET_BYTES :: nat where "MIN_SECRET_BYTES = 32"
definition JWT_CLOCK_SKEW_TOLERANCE_SECS :: nat where "JWT_CLOCK_SKEW_TOLERANCE_SECS = 10"

record 'o jwt_provider =
  jp_header :: "'o option"
  jp_validation :: "'o option"
  jp_default_validation :: 'o
  jp_encoding_key :: string
  jp_decoding_key :: string
  jp_secret_missing :: bool
  jp_ttl_ms :: nat
  jp_iss :: string
  jp_aud :: string

definition build_validation :: "'o jwt_lib \<Rightarrow> string \<Rightarrow> string \<Rightarrow> string \<Rightarrow> 'o" where
  "build_validation L iss aud alg = jl_validation L alg iss aud JWT_CLOCK_SKEW_TOLERANCE_SECS"

text \<open>Whole seconds, rounded up, at least one.\<close>

definition div_ceil :: "nat \<Rightarrow> nat \<Rightarrow> nat" where
  "div_ceil a b = (if a mod b = 0 then a div b else a div b + 1)"

definition ttl_secs :: "nat \<Rightarrow> nat" where
  "ttl_secs ttl_ms = max 1 (min (div_ceil ttl_ms 1000) u64_max)"

definition jwt_provider_new :: "'o jwt_lib \<Rightarrow> string \<Rightarrow> nat \<Rightarrow> 'o jwt_provider" where
  "jwt_provider_new L secret ttl_ms = \<lparr>jp_header = None, jp_validation = None,
     jp_default_validation =
       build_validation L DEFAULT_ISS_AUD DEFAULT_ISS_AUD (jl_alg L (jl_default_header L)),
     jp_encoding_key = secret, jp_decoding_key = secret, jp_secret_missing = (secret = []),
     jp_ttl_ms = ttl_ms, jp_iss = DEFAULT_ISS_AUD, jp_aud = DEFAULT_ISS_AUD\<rparr>"

definition jwt_provider_try_new :: "'o jwt_lib \<Rightarrow> string \<Rightarrow> nat \<Rightarrow> 'o jwt_provider option" where
  "jwt_provider_try_new L secret ttl_ms =
     (if length secret < MIN_SECRET_BYTES then None else Some (jwt_provider_new L secret ttl_ms))"

definition jwt_header :: "'o jwt_lib \<Rightarrow> 'o jwt_provider \<Rightarrow> 'o" where
  "jwt_header L p = (case jp_header p of None \<Rightarrow> jl_default_header L | Some h \<Rightarrow> h)"

definition jwt_validation :: "'o jwt_provider \<Rightarrow> 'o" where
  "jwt_validation p = (case jp_validation p of None \<Rightarrow> jp_default_validation p | Some v \<Rightarrow> v)"

definition rebuild_default_validation :: "'o jwt_lib \<Rightarrow> 'o jwt_provider \<Rightarrow> 'o jwt_provider" where
  "rebuild_default_validation L p = p\<lparr>jp_default_validation :=
     build_validation L (jp_iss p) (jp_aud p) (jl_alg L (jwt_header L p))\<rparr>"

definition jwt_with_header :: "'o jwt_lib \<Rightarrow> 'o \<Rightarrow> 'o jwt_provider \<Rightarrow> 'o jwt_provider" where
  "jwt_with_header L h p = rebuild_default_validation L (p\<lparr>jp_header := Some h\<rparr>)"

definition jwt_with_validation :: "'o \<Rightarrow> 'o jwt_provider \<Rightarrow> 'o jwt_provider" where
  "jwt_with_validation v p = p\<lparr>jp_validation := Some v\<rparr>"

definition jwt_with_iss :: "'o jwt_lib \<Rightarrow> string \<Rightarrow> 'o jwt_provider \<Rightarrow> 'o jwt_provider" where
  "jwt_with_iss L iss p = rebuild_default_validation L (p\<lparr>jp_iss := iss\<rparr>)"

definition jwt_with_aud :: "'o jwt_lib \<Rightarrow> string \<Rightarrow> 'o jwt_provider \<Rightarrow> 'o jwt_provider" where
  "jwt_with_aud L aud p = rebuild_default_validation L (p\<lparr>jp_aud := aud\<rparr>)"

section \<open>Encoding and decoding\<close>

text \<open>The errors are those of \<open>anyhow\<close>: the callers choose the status, so they are \<open>None\<close>.\<close>

definition jwt_expires_at :: "'o jwt_provider \<Rightarrow> nat \<Rightarrow> nat \<Rightarrow> nat" where
  "jwt_expires_at p now ttl_ms = saturating_add now (ttl_secs (min ttl_ms (jp_ttl_ms p)))"

definition default_expires_at :: "'o jwt_provider \<Rightarrow> nat \<Rightarrow> nat" where
  "default_expires_at p now = jwt_expires_at p now (jp_ttl_ms p)"

definition jwt_encode ::
  "'o jwt_lib \<Rightarrow> 'o jwt_provider \<Rightarrow> nat \<Rightarrow> string \<Rightarrow> nat \<Rightarrow> nat option \<Rightarrow> string option" where
  "jwt_encode L p now sub ttl_ms auth_time =
     (if jp_secret_missing p then None
      else jl_encode L (jwt_header L p)
        \<lparr>jc_sub = sub, jc_iss = jp_iss p, jc_aud = jp_aud p, jc_iat = now,
         jc_exp = saturating_add now (ttl_secs (min ttl_ms (jp_ttl_ms p))),
         jc_auth_time = map_option (\<lambda>t. min t now) auth_time\<rparr>
        (jp_encoding_key p))"

definition encode_sub :: "'o jwt_lib \<Rightarrow> 'o jwt_provider \<Rightarrow> nat \<Rightarrow> string \<Rightarrow> string option" where
  "encode_sub L p now sub = jwt_encode L p now sub (jp_ttl_ms p) None"

definition encode_sub_with_ttl :: "'o jwt_lib \<Rightarrow> 'o jwt_provider \<Rightarrow> nat \<Rightarrow> string \<Rightarrow> nat \<Rightarrow> string option" where
  "encode_sub_with_ttl L p now sub ttl_ms = jwt_encode L p now sub ttl_ms None"

definition encode_sub_with_auth_time ::
  "'o jwt_lib \<Rightarrow> 'o jwt_provider \<Rightarrow> nat \<Rightarrow> string \<Rightarrow> nat \<Rightarrow> string option" where
  "encode_sub_with_auth_time L p now sub auth_time = jwt_encode L p now sub (jp_ttl_ms p) (Some auth_time)"

definition decode_claims :: "'o jwt_lib \<Rightarrow> 'o jwt_provider \<Rightarrow> nat \<Rightarrow> string \<Rightarrow> jwt_claims option" where
  "decode_claims L p now jwt =
     (if jp_secret_missing p then None
      else case jl_decode L now jwt (jp_decoding_key p) (jwt_validation p) of
        None \<Rightarrow> None
      | Some c \<Rightarrow> if saturating_add now (jl_leeway L (jwt_validation p)) < jc_iat c then None else Some c)"

definition decode_sub :: "'o jwt_lib \<Rightarrow> 'o jwt_provider \<Rightarrow> nat \<Rightarrow> string \<Rightarrow> string option" where
  "decode_sub L p now jwt = map_option jc_sub (decode_claims L p now jwt)"

section \<open>What the providers built keep\<close>

text \<open>The validation is the one the provider built itself, for what its tokens carry.\<close>

definition own_validation :: "'o jwt_lib \<Rightarrow> 'o jwt_provider \<Rightarrow> bool" where
  "own_validation L p \<longleftrightarrow> jp_validation p = None \<and>
     jp_default_validation p = build_validation L (jp_iss p) (jp_aud p) (jl_alg L (jwt_header L p)) \<and>
     jp_decoding_key p = jp_encoding_key p \<and> jp_secret_missing p = (jp_encoding_key p = [])"

lemma own_validation_new [simp]: "own_validation L (jwt_provider_new L secret ttl)"
  by (simp add: own_validation_def jwt_provider_new_def jwt_header_def)

lemma own_validation_with [simp]:
  assumes "own_validation L p"
  shows "own_validation L (jwt_with_header L h p)" "own_validation L (jwt_with_iss L iss p)"
    "own_validation L (jwt_with_aud L aud p)"
  using assms
  by (simp_all add: own_validation_def jwt_with_header_def jwt_with_iss_def jwt_with_aud_def
      rebuild_default_validation_def jwt_header_def)

lemma jwt_validation_own:
  "own_validation L p \<Longrightarrow> jwt_validation p =
     jl_validation L (jl_alg L (jwt_header L p)) (jp_iss p) (jp_aud p) JWT_CLOCK_SKEW_TOLERANCE_SECS"
  by (simp add: own_validation_def jwt_validation_def build_validation_def)

lemma div_ceil_bounds:
  assumes "0 < b"
  shows "a \<le> b * div_ceil a b" "b * div_ceil a b < a + b"
proof -
  have eq: "b * (a div b) + a mod b = a" and less: "a mod b < b" using assms by simp_all
  have up: "b * (a div b + 1) = b * (a div b) + b" by simp
  show "a \<le> b * div_ceil a b"
  proof (cases "a mod b = 0")
    case True
    then show ?thesis using eq by (simp add: div_ceil_def)
  next
    case False
    then show ?thesis using up eq less by (simp only: div_ceil_def if_False)
  qed
  show "b * div_ceil a b < a + b"
  proof (cases "a mod b = 0")
    case True
    then show ?thesis using eq assms by (simp add: div_ceil_def)
  next
    case False
    then show ?thesis using up eq by (simp only: div_ceil_def if_False)
  qed
qed

text \<open>A token is valid for its time to live, and less than a second longer, but a second at least.\<close>

lemma ttl_secs_bounds:
  assumes "ttl_ms \<le> 1000 * u64_max"
  shows "ttl_ms \<le> 1000 * ttl_secs ttl_ms" "1000 * ttl_secs ttl_ms < max 1 ttl_ms + 1000"
proof -
  have "div_ceil ttl_ms 1000 \<le> u64_max"
    using assms div_ceil_bounds(2) [of 1000 ttl_ms] by linarith
  then have "ttl_secs ttl_ms = max 1 (div_ceil ttl_ms 1000)" by (simp add: ttl_secs_def)
  then show "ttl_ms \<le> 1000 * ttl_secs ttl_ms" "1000 * ttl_secs ttl_ms < max 1 ttl_ms + 1000"
    using div_ceil_bounds [where a = ttl_ms and b = 1000] by (auto simp: max_def)
qed

lemma ttl_secs_pos: "1 \<le> ttl_secs ttl_ms"
  by (simp add: ttl_secs_def)

lemma authenticated_at_le_iat: "authenticated_at c \<le> jc_iat c"
  by (simp add: authenticated_at_def split: option.splits)

lemma jwt_encode_eq:
  assumes "jwt_encode L p now sub ttl auth_time = Some t"
  shows "jl_encode L (jwt_header L p)
      \<lparr>jc_sub = sub, jc_iss = jp_iss p, jc_aud = jp_aud p, jc_iat = now,
       jc_exp = jwt_expires_at p now ttl, jc_auth_time = map_option (\<lambda>t. min t now) auth_time\<rparr>
      (jp_encoding_key p) = Some t" "\<not> jp_secret_missing p"
  using assms by (simp_all add: jwt_encode_def jwt_expires_at_def split: if_splits)

section \<open>Properties\<close>

text \<open>
  C7: A token a provider issues is accepted by another provider of the same secret exactly when the
  issuer, audience and algorithm are the same and it is not expired, up to ten seconds of clock skew
  either way: it decodes to its user, the expiry which was announced for it, and the time the user
  authenticated, never later than its issue.
\<close>

theorem jwt_accepted_exactly:
  assumes L: "jwt_lib_ok L" and p: "own_validation L p" and q: "own_validation L q"
    and enc: "jwt_encode L p issued sub ttl_ms auth_time = Some t"
    and key: "jp_decoding_key q = jp_encoding_key p"
    and now: "now + JWT_CLOCK_SKEW_TOLERANCE_SECS \<le> u64_max"
  shows "decode_claims L q now t =
    (if jp_iss q = jp_iss p \<and> jp_aud q = jp_aud p \<and>
        jl_alg L (jwt_header L q) = jl_alg L (jwt_header L p) \<and>
        now \<le> jwt_expires_at p issued ttl_ms + 10 \<and> issued \<le> now + 10
     then Some \<lparr>jc_sub = sub, jc_iss = jp_iss p, jc_aud = jp_aud p, jc_iat = issued,
       jc_exp = jwt_expires_at p issued ttl_ms, jc_auth_time = map_option (\<lambda>t. min t issued) auth_time\<rparr>
     else None)"
proof -
  have missing: "\<not> jp_secret_missing q"
    using q p key jwt_encode_eq(2) [OF enc] by (auto simp: own_validation_def)
  let ?v = "jl_validation L (jl_alg L (jwt_header L q)) (jp_iss q) (jp_aud q) JWT_CLOCK_SKEW_TOLERANCE_SECS"
  have leeway: "jl_leeway L ?v = 10"
    using L by (simp add: jwt_lib_ok_def JWT_CLOCK_SKEW_TOLERANCE_SECS_def)
  have sat: "saturating_add now 10 = now + 10"
    using now by (simp add: saturating_add_def JWT_CLOCK_SKEW_TOLERANCE_SECS_def)
  note dec = L [unfolded jwt_lib_ok_def, THEN conjunct2, rule_format, OF jwt_encode_eq(1) [OF enc],
      of now "jl_alg L (jwt_header L q)" "jp_iss q" "jp_aud q" JWT_CLOCK_SKEW_TOLERANCE_SECS]
  show ?thesis
    unfolding decode_claims_def jwt_validation_own [OF q] leeway sat key dec
    using missing by (auto simp: JWT_CLOCK_SKEW_TOLERANCE_SECS_def)
qed

text \<open>A library which signs the one token of the demonstration.\<close>

definition demo_claims :: jwt_claims where
  "demo_claims = \<lparr>jc_sub = ''ann'', jc_iss = ''mogh_auth'', jc_aud = ''mogh_auth'', jc_iat = 1000,
     jc_exp = 1060, jc_auth_time = Some 900\<rparr>"

definition demo_lib :: "(string \<times> string \<times> string \<times> nat) jwt_lib" where
  "demo_lib = \<lparr>jl_default_header = (''HS256'', [], [], 0), jl_alg = fst,
     jl_validation = (\<lambda>alg iss aud leeway. (alg, iss, aud, leeway)), jl_leeway = (\<lambda>(_, _, _, l). l),
     jl_encode = (\<lambda>h c secret. if c = demo_claims \<and> fst h = ''HS256'' then Some ''token'' else None),
     jl_decode = (\<lambda>now t secret (alg, iss, aud, leeway).
       if alg = ''HS256'' \<and> iss = ''mogh_auth'' \<and> aud = ''mogh_auth'' \<and> now \<le> 1060 + leeway
       then Some demo_claims else None)\<rparr>"

lemmas jwt_eval = demo_lib_def demo_claims_def jwt_provider_new_def jwt_encode_def jwt_header_def
  saturating_add_def u64_max_def ttl_secs_def div_ceil_def DEFAULT_ISS_AUD_def jwt_expires_at_def

lemma demo_lib_issues: "jwt_encode demo_lib (jwt_provider_new demo_lib ''secret'' 60000) 1000 ''ann'' 60000 (Some 900)
    = Some ''token''"
  by (simp add: jwt_eval)

lemma demo_lib_ok: "jwt_lib_ok demo_lib"
  by (auto simp: jwt_lib_ok_def demo_lib_def demo_claims_def split: if_splits)

lemma jwt_provider_new_sel [simp]:
  "jp_iss (jwt_provider_new L s ttl) = DEFAULT_ISS_AUD" "jp_aud (jwt_provider_new L s ttl) = DEFAULT_ISS_AUD"
  "jp_encoding_key (jwt_provider_new L s ttl) = s" "jp_decoding_key (jwt_provider_new L s ttl) = s"
  "jp_ttl_ms (jwt_provider_new L s ttl) = ttl"
  "jwt_header L (jwt_provider_new L s ttl) = jl_default_header L"
  by (simp_all add: jwt_provider_new_def jwt_header_def)

lemma jwt_accepted_exactly_witness:
  "decode_claims demo_lib (jwt_provider_new demo_lib ''secret'' 5) 1070 ''token'' = Some demo_claims \<and>
   decode_claims demo_lib (jwt_provider_new demo_lib ''secret'' 5) 1071 ''token'' = None"
proof -
  let ?p = "jwt_provider_new demo_lib ''secret'' 60000" and ?q = "jwt_provider_new demo_lib ''secret'' 5"
  have exp: "jwt_expires_at ?p 1000 60000 = 1060"
    by (simp add: jwt_expires_at_def saturating_add_def u64_max_def ttl_secs_def div_ceil_def)
  have claims: "\<lparr>jc_sub = ''ann'', jc_iss = DEFAULT_ISS_AUD, jc_aud = DEFAULT_ISS_AUD, jc_iat = 1000,
      jc_exp = 1060, jc_auth_time = map_option (\<lambda>t. min t 1000) (Some 900)\<rparr> = demo_claims"
    by (simp add: demo_claims_def DEFAULT_ISS_AUD_def)
  have accepted: "decode_claims demo_lib ?q now ''token'' = (if now \<le> 1070 \<and> 1000 \<le> now + 10 then Some demo_claims else None)"
    if "now + JWT_CLOCK_SKEW_TOLERANCE_SECS \<le> u64_max" for now
    using jwt_accepted_exactly [OF demo_lib_ok own_validation_new own_validation_new demo_lib_issues _ that,
        of "''secret''" 5]
    unfolding jwt_provider_new_sel exp claims by simp
  show ?thesis
    using accepted [of 1070] accepted [of 1071]
    by (simp add: u64_max_def JWT_CLOCK_SKEW_TOLERANCE_SECS_def)
qed

end
