(* ===== verification/LoginFlow.thy ===== *)
theory LoginFlow
  imports Flow Jwt RequestIp SecondFactor
begin

text \<open>
  What the login flows of \<^verbatim>\<open>auth/server\<close> share: the user and the record of a login
  (\<^verbatim>\<open>user.rs\<close>, \<^verbatim>\<open>lib.rs\<close>), the app behind the trait \<open>AuthImpl\<close>, and the state a
  request runs on with the combinators its steps are written in. \<open>'w\<close> is the world the callbacks of
  the app act on (its storage, the clocks); \<open>'o\<close> the opaque values of third party crates
  (passkeys and their states, TOTPs, JWT headers). A failure has the status of the response and the
  message of its top error, when the message is written in the code modelled here; an error with a
  context keeps the failure it was put around, as the chain of an \<open>anyhow::Error\<close> does.
\<close>

section \<open>Users, logins and failures\<close>

datatype failure = Failure status "string option" | Caused status string failure

fun failure_status :: "failure \<Rightarrow> status" where
  "failure_status (Failure st _) = st"
| "failure_status (Caused st _ _) = st"

fun failure_message :: "failure \<Rightarrow> string option" where
  "failure_message (Failure _ msg) = msg"
| "failure_message (Caused _ msg _) = Some msg"

text \<open>The failures below a context, which the response's trace shows.\<close>

fun failure_causes :: "failure \<Rightarrow> failure list" where
  "failure_causes (Failure _ _) = []"
| "failure_causes (Caused _ _ f) = f # failure_causes f"

record 'o user =
  us_id :: user_id
  us_username :: string
  us_hashed_password :: "string option"
  us_passkey :: "'o option"
  us_totp_secret :: "string option"
  us_recovery_codes :: "string list"
  us_external_skip_2fa :: bool
  us_enabled :: bool
  us_admin :: bool
  us_workload :: bool
  us_cidr_whitelist :: "string list"

datatype login_factor = By_Passkey | By_Totp | By_Totp_Recovery

record login =
  lo_user_id :: user_id
  lo_username :: string
  lo_ip :: ip_addr
  lo_kind :: login_kind
  lo_second_factor :: "login_factor option"
  lo_token_expires :: nat

definition login_of :: "'o user \<Rightarrow> ip_addr \<Rightarrow> login_kind \<Rightarrow> login_factor option \<Rightarrow> nat \<Rightarrow> login" where
  "login_of u ip kind factor expires = \<lparr>lo_user_id = us_id u, lo_username = us_username u, lo_ip = ip,
     lo_kind = kind, lo_second_factor = factor, lo_token_expires = expires\<rparr>"

section \<open>The app\<close>

type_synonym ('w, 'a) callback = "'w \<Rightarrow> (failure + 'a) \<times> 'w"

record 'o passkey_provider =
  pp_start :: "'o \<Rightarrow> failure + 'o \<times> 'o"       \<comment> \<open>the challenge and the state to verify it with\<close>
  pp_finish :: "'o \<Rightarrow> 'o \<Rightarrow> failure + 'o"       \<comment> \<open>the credential, the state\<close>

record ('w, 'o) auth_env =
  ae_net :: "'o ipnet"
  ae_lib :: "'o jwt_lib"
  ae_jwt :: "'o jwt_provider"
  ae_unix_secs :: "'w \<Rightarrow> unix_secs"
  ae_instant :: "'w \<Rightarrow> instant"
  ae_new_session_id :: "'w \<Rightarrow> nat"
  ae_local_auth_enabled :: bool
  ae_local_registration_disabled :: bool
  ae_locked_usernames :: "string list"
  ae_passkey_provider :: "'o passkey_provider option"
  ae_update_credential :: "'o \<Rightarrow> 'o \<Rightarrow> (bool \<times> 'o) option"
  ae_base32 :: "string \<Rightarrow> string option"
  ae_make_totp :: "string \<Rightarrow> failure + 'o"
  ae_check_totp :: "'o \<Rightarrow> string \<Rightarrow> 'w \<Rightarrow> nat option"
  ae_bcrypt_verify :: "string \<Rightarrow> string \<Rightarrow> failure + bool"
  ae_bcrypt_hash :: "string \<Rightarrow> ('w, string) callback"
  ae_validate_username :: "string \<Rightarrow> failure + unit"
  ae_validate_password :: "string \<Rightarrow> failure + unit"
  ae_no_users_exist :: "('w, bool) callback"
  ae_get_user :: "user_id \<Rightarrow> ('w, 'o user) callback"
  ae_find_user_with_username :: "string \<Rightarrow> ('w, 'o user option) callback"
  ae_sign_up_local_user :: "string \<Rightarrow> string \<Rightarrow> bool \<Rightarrow> ('w, user_id) callback"
  ae_record_login :: "login \<Rightarrow> ('w, unit) callback"
  ae_consume_totp_step :: "user_id \<Rightarrow> nat \<Rightarrow> ('w, bool) callback"
  ae_remove_recovery_code :: "user_id \<Rightarrow> string \<Rightarrow> ('w, unit) callback"
  ae_update_passkey :: "user_id \<Rightarrow> 'o \<Rightarrow> ('w, unit) callback"

section \<open>The state of a request and its steps\<close>

text \<open>What a flow does to the accounts of the app: users and the external logins linked to them.\<close>

datatype account_event =
    Signed_Up user_id string string string   \<comment> \<open>the user, their name, provider id, external id\<close>
  | Linked user_id string string

record ('w, 'o) login_state =
  ls_session :: "('o, 'o) auth_session"
  ls_second :: second_factor
  ls_world :: 'w
  ls_logins :: "login list"   \<comment> \<open>history: the logins \<open>record_login\<close> took\<close>
  ls_events :: "account_event list"   \<comment> \<open>history: the external accounts signed up and linked\<close>

type_synonym ('w, 'o, 'a) flow = "('w, 'o) login_state \<Rightarrow> (failure + 'a) \<times> ('w, 'o) login_state"

definition refuse :: "status \<Rightarrow> string \<Rightarrow> ('w, 'o, 'a) flow" where
  "refuse st msg s = (Inl (Failure st (Some msg)), s)"

definition from_status :: "status + 'a \<Rightarrow> ('w, 'o, 'a) flow" where
  "from_status r s = (map_sum (\<lambda>st. Failure st None) id r, s)"

text \<open>\<open>.context(msg)\<close> with a status, on an option or on a result.\<close>

definition required :: "status \<Rightarrow> string \<Rightarrow> 'a option \<Rightarrow> ('w, 'o, 'a) flow" where
  "required st msg x = (case x of None \<Rightarrow> refuse st msg | Some y \<Rightarrow> done_with y)"

definition in_context :: "status \<Rightarrow> string \<Rightarrow> failure + 'a \<Rightarrow> ('w, 'o, 'a) flow" where
  "in_context st msg r = (case r of Inl f \<Rightarrow> from_result (Inl (Caused st msg f)) | Inr y \<Rightarrow> done_with y)"

definition call :: "('w, 'a) callback \<Rightarrow> ('w, 'o, 'a) flow" where
  "call f s = (case f (ls_world s) of (r, w) \<Rightarrow> (r, s\<lparr>ls_world := w\<rparr>))"

definition asking :: "('w \<Rightarrow> 'a) \<Rightarrow> ('w, 'o) login_state \<Rightarrow> ('e + 'a) \<times> ('w, 'o) login_state" where
  "asking f s = (Inr (f (ls_world s)), s)"

definition on_session ::
  "(('o, 'o) auth_session \<Rightarrow> (status + 'a) \<times> ('o, 'o) auth_session) \<Rightarrow> ('w, 'o, 'a) flow" where
  "on_session f s = (case f (ls_session s) of
     (r, se) \<Rightarrow> (map_sum (\<lambda>st. Failure st None) id r, s\<lparr>ls_session := se\<rparr>))"

definition to_session :: "(('o, 'o) auth_session \<Rightarrow> ('o, 'o) auth_session) \<Rightarrow> ('w, 'o, unit) flow" where
  "to_session f s = (Inr (), s\<lparr>ls_session := f (ls_session s)\<rparr>)"

section \<open>Reading a run\<close>

lemma refuse_ok [simp]: "refuse st msg s \<noteq> (Inr y, s')"
  by (simp add: refuse_def)

lemma from_status_ok [simp]: "from_status r s = (Inr y, s') \<longleftrightarrow> r = Inr y \<and> s = s'"
  by (cases r) (auto simp: from_status_def)

lemma required_ok [simp]: "required st msg x s = (Inr y, s') \<longleftrightarrow> x = Some y \<and> s = s'"
  by (cases x) (auto simp: required_def)

lemma in_context_ok [simp]: "in_context st msg r s = (Inr y, s') \<longleftrightarrow> r = Inr y \<and> s = s'"
  by (cases r) (auto simp: in_context_def)

lemma call_ok: "call f s = (Inr y, s') \<longleftrightarrow> f (ls_world s) = (Inr y, ls_world s') \<and> s' = s\<lparr>ls_world := ls_world s'\<rparr>"
  by (auto simp: call_def split: prod.splits)

lemma asking_ok [simp]: "asking f s = (Inr y, s') \<longleftrightarrow> y = f (ls_world s) \<and> s = s'"
  by (auto simp: asking_def)

lemma on_session_ok:
  "on_session f s = (Inr y, s') \<longleftrightarrow>
     f (ls_session s) = (Inr y, ls_session s') \<and> s' = s\<lparr>ls_session := ls_session s'\<rparr>"
  by (cases "f (ls_session s)"; cases "fst (f (ls_session s))") (auto simp: on_session_def)

lemma to_session_ok [simp]:
  "to_session f s = (Inr y, s') \<longleftrightarrow> s' = s\<lparr>ls_session := f (ls_session s)\<rparr>"
  by (auto simp: to_session_def)

section \<open>Steps every flow uses\<close>

definition check_user_cidr_whitelist ::
  "('w, 'o) auth_env \<Rightarrow> 'o user \<Rightarrow> ip_addr \<Rightarrow> ('w, 'o, unit) flow" where
  "check_user_cidr_whitelist env u ip = from_status (check_cidr_whitelist (ae_net env) ip (us_cidr_whitelist u))"

definition record_login :: "('w, 'o) auth_env \<Rightarrow> login \<Rightarrow> ('w, 'o, unit) flow" where
  "record_login env l s = (case ae_record_login env l (ls_world s) of
     (Inl e, w) \<Rightarrow> (Inl e, s\<lparr>ls_world := w\<rparr>)
   | (Inr _, w) \<Rightarrow> (Inr (), s\<lparr>ls_world := w, ls_logins := ls_logins s @ [l]\<rparr>))"

text \<open>\<open>record_login(Login::of(.., jwt_provider().default_expires_at()?))\<close>.\<close>

definition record_login_of ::
  "('w, 'o) auth_env \<Rightarrow> 'o user \<Rightarrow> ip_addr \<Rightarrow> login_kind \<Rightarrow> login_factor option \<Rightarrow> ('w, 'o, unit) flow" where
  "record_login_of env u ip kind factor =
     and_then (asking (\<lambda>w. default_expires_at (ae_jwt env) (ae_unix_secs env w))) (\<lambda>expires.
       record_login env (login_of u ip kind factor expires))"

definition issue_jwt :: "('w, 'o) auth_env \<Rightarrow> user_id \<Rightarrow> ('w, 'o, string) flow" where
  "issue_jwt env sub s = (case encode_sub (ae_lib env) (ae_jwt env) (ae_unix_secs env (ls_world s)) sub of
     None \<Rightarrow> (Inl (Failure INTERNAL_SERVER_ERROR None), s) | Some jwt \<Rightarrow> (Inr jwt, s))"

definition issue_jwt_with_auth_time ::
  "('w, 'o) auth_env \<Rightarrow> user_id \<Rightarrow> unix_secs \<Rightarrow> ('w, 'o, string) flow" where
  "issue_jwt_with_auth_time env sub at s =
     (case encode_sub_with_auth_time (ae_lib env) (ae_jwt env) (ae_unix_secs env (ls_world s)) sub at of
        None \<Rightarrow> (Inl (Failure INTERNAL_SERVER_ERROR None), s) | Some jwt \<Rightarrow> (Inr jwt, s))"

text \<open>Whether \<open>jwt\<close> is a token of the app for the user, issued at some time.\<close>

definition jwt_for :: "('w, 'o) auth_env \<Rightarrow> user_id \<Rightarrow> unix_secs option \<Rightarrow> string \<Rightarrow> bool" where
  "jwt_for env u auth_time jwt \<longleftrightarrow> (\<exists>now.
     jwt_encode (ae_lib env) (ae_jwt env) now u (jp_ttl_ms (ae_jwt env)) auth_time = Some jwt)"

lemma check_user_cidr_whitelist_ok [simp]:
  "check_user_cidr_whitelist env u ip s = (Inr y, s') \<longleftrightarrow>
     check_cidr_whitelist (ae_net env) ip (us_cidr_whitelist u) = Inr () \<and> s' = s"
  by (auto simp: check_user_cidr_whitelist_def)

lemma record_login_ok:
  "record_login env l s = (Inr y, s') \<Longrightarrow>
     ls_logins s' = ls_logins s @ [l] \<and> ls_session s' = ls_session s \<and> ls_second s' = ls_second s"
  by (auto simp: record_login_def split: prod.splits sum.splits)

lemma record_login_of_ok:
  "record_login_of env u ip kind factor s = (Inr y, s') \<Longrightarrow>
     (\<exists>expires. ls_logins s' = ls_logins s @ [login_of u ip kind factor expires]) \<and>
     ls_session s' = ls_session s \<and> ls_second s' = ls_second s"
  by (auto simp: record_login_of_def and_then_ok dest: record_login_ok)

lemma issue_jwt_ok: "issue_jwt env sub s = (Inr jwt, s') \<Longrightarrow> s' = s \<and> jwt_for env sub None jwt"
  by (auto simp: issue_jwt_def jwt_for_def encode_sub_def split: option.splits)

lemma issue_jwt_with_auth_time_ok:
  "issue_jwt_with_auth_time env sub at s = (Inr jwt, s') \<Longrightarrow> s' = s \<and> jwt_for env sub (Some at) jwt"
  by (auto simp: issue_jwt_with_auth_time_def jwt_for_def encode_sub_with_auth_time_def split: option.splits)

end
