(* ===== verification/Login.thy ===== *)
theory Login
  imports LoginFlow
begin

text \<open>
  The login API, \<^verbatim>\<open>auth/server/src/api/login\<close>: sign up and login with a password
  (\<^verbatim>\<open>local.rs\<close>), the second factors (\<^verbatim>\<open>passkey.rs\<close>, \<^verbatim>\<open>totp.rs\<close>) and the
  exchange of a completed external login for a token (\<^verbatim>\<open>mod.rs\<close>), with the second factor an
  external login begins (\<^verbatim>\<open>api/mod.rs\<close>). The rate limits around the handlers are the
  attempts of LimiterSystem; logging is left out.
\<close>

section \<open>Second factors\<close>

datatype 'o jwt_or_two_factor = Jwt_Issued string | Passkey_Required 'o | Totp_Required

definition new_session_id :: "('w, 'o) auth_env \<Rightarrow> ('w, 'o, nat) flow" where
  "new_session_id env = asking (ae_new_session_id env)"

definition unix_secs_now :: "('w, 'o) auth_env \<Rightarrow> ('w, 'o, unix_secs) flow" where
  "unix_secs_now env = asking (ae_unix_secs env)"

text \<open>The arm of \<open>(Some(passkey), _)\<close>: the challenge, with its state and the login kind on the session.\<close>

definition begin_passkey :: "('w, 'o) auth_env \<Rightarrow> 'o user \<Rightarrow> 'o \<Rightarrow> login_kind \<Rightarrow> ('w, 'o, 'o) flow" where
  "begin_passkey env u passkey kind =
     and_then (required INTERNAL_SERVER_ERROR
       ''No passkey provider available, possibly invalid 'host' config.'' (ae_passkey_provider env)) (\<lambda>provider.
     and_then (in_context INTERNAL_SERVER_ERROR ''Failed to start passkey authentication flow''
       (pp_start provider passkey)) (\<lambda>(response, st).
     and_then (new_session_id env) (\<lambda>i.
     and_then (unix_secs_now env) (\<lambda>now.
     and_then (to_session (insert_passkey_login i (us_id u) st now)) (\<lambda>_.
     and_then (to_session (insert_login_kind kind)) (\<lambda>_. done_with response))))))"

definition begin_totp :: "('w, 'o) auth_env \<Rightarrow> 'o user \<Rightarrow> login_kind \<Rightarrow> ('w, 'o, unit) flow" where
  "begin_totp env u kind =
     and_then (new_session_id env) (\<lambda>i.
     and_then (unix_secs_now env) (\<lambda>now.
     and_then (to_session (insert_totp_login i (us_id u) now)) (\<lambda>_.
     to_session (insert_login_kind kind))))"

definition external_login_requires_two_factor :: "'o user \<Rightarrow> bool" where
  "external_login_requires_two_factor u \<longleftrightarrow>
     \<not> us_external_skip_2fa u \<and> (us_passkey u \<noteq> None \<or> us_totp_secret u \<noteq> None)"

datatype 'o external_two_factor = External_Passkey 'o | External_Totp

definition begin_external_two_factor ::
  "('w, 'o) auth_env \<Rightarrow> 'o user \<Rightarrow> login_kind \<Rightarrow> ('w, 'o, 'o external_two_factor option) flow" where
  "begin_external_two_factor env u provider_login =
     (if \<not> external_login_requires_two_factor u then done_with None
      else case (us_passkey u, us_totp_secret u) of
        (Some passkey, _) \<Rightarrow>
          and_then (begin_passkey env u passkey provider_login) (\<lambda>response. done_with (Some (External_Passkey response)))
      | (None, Some _) \<Rightarrow>
          and_then (begin_totp env u provider_login) (\<lambda>_. done_with (Some External_Totp))
      | (None, None) \<Rightarrow> done_with None)"

section \<open>Passwords\<close>

definition check_username_available ::
  "('w, 'o) auth_env \<Rightarrow> string \<Rightarrow> user_id option \<Rightarrow> ('w, 'o, unit) flow" where
  "check_username_available env username user_id =
     and_then (call (ae_find_user_with_username env username)) (\<lambda>found. case found of
       Some existing \<Rightarrow> if Some (us_id existing) \<noteq> user_id
                        then refuse CONFLICT ''Username is already taken'' else done_with ()
     | None \<Rightarrow> done_with ())"

definition sign_up_local_user ::
  "('w, 'o) auth_env \<Rightarrow> ip_addr \<Rightarrow> string \<Rightarrow> string \<Rightarrow> ('w, 'o, string) flow" where
  "sign_up_local_user env ip username password =
     (if \<not> ae_local_auth_enabled env then refuse UNAUTHORIZED ''Local auth is not enabled''
      else and_then (call (ae_no_users_exist env)) (\<lambda>no_users_exist.
        if ae_local_registration_disabled env \<and> \<not> no_users_exist
        then refuse UNAUTHORIZED ''User registration is disabled''
        else and_then (from_result (ae_validate_username env username)) (\<lambda>_.
          and_then (from_result (ae_validate_password env password)) (\<lambda>_.
          and_then (check_username_available env username None) (\<lambda>_.
          and_then (call (ae_bcrypt_hash env password)) (\<lambda>hashed.
          and_then (call (ae_sign_up_local_user env username hashed no_users_exist)) (\<lambda>user_id.
          and_then (asking (\<lambda>w. default_expires_at (ae_jwt env) (ae_unix_secs env w))) (\<lambda>expires.
          and_then (record_login env \<lparr>lo_user_id = user_id, lo_username = username, lo_ip = ip,
             lo_kind = Local, lo_second_factor = None, lo_token_expires = expires\<rparr>) (\<lambda>_.
          issue_jwt env user_id)))))))))"

definition invalid_credentials :: "('w, 'o, 'a) flow" where
  "invalid_credentials = refuse UNAUTHORIZED ''Invalid login credentials''"

text \<open>A hash is still computed, and its result dropped.\<close>

definition invalid_credentials_after_dummy_hash ::
  "('w, 'o) auth_env \<Rightarrow> string \<Rightarrow> ('w, 'o, 'a) flow" where
  "invalid_credentials_after_dummy_hash env password s =
     invalid_credentials (snd (call (ae_bcrypt_hash env password) s))"

text \<open>The end of \<open>login_local_user\<close>: its user is verified.\<close>

definition local_login_verified ::
  "('w, 'o) auth_env \<Rightarrow> 'o user \<Rightarrow> ip_addr \<Rightarrow> ('w, 'o, 'o jwt_or_two_factor) flow" where
  "local_login_verified env u ip = (case (us_passkey u, us_totp_secret u) of
     (Some passkey, _) \<Rightarrow>
       and_then (begin_passkey env u passkey Local) (\<lambda>response. done_with (Passkey_Required response))
   | (None, Some _) \<Rightarrow> and_then (begin_totp env u Local) (\<lambda>_. done_with Totp_Required)
   | (None, None) \<Rightarrow>
       and_then (record_login_of env u ip Local None) (\<lambda>_.
       and_then (issue_jwt env (us_id u)) (\<lambda>jwt. done_with (Jwt_Issued jwt))))"

definition login_local_user ::
  "('w, 'o) auth_env \<Rightarrow> ip_addr \<Rightarrow> string \<Rightarrow> string \<Rightarrow> ('w, 'o, 'o jwt_or_two_factor) flow" where
  "login_local_user env ip username password =
     (if \<not> ae_local_auth_enabled env then refuse UNAUTHORIZED ''Local auth is not enabled''
      else and_then (from_result (ae_validate_username env username)) (\<lambda>_.
        and_then (call (ae_find_user_with_username env username)) (\<lambda>found. case found of
          None \<Rightarrow> invalid_credentials_after_dummy_hash env password
        | Some u \<Rightarrow> (case us_hashed_password u of
            None \<Rightarrow> invalid_credentials_after_dummy_hash env password
          | Some hashed \<Rightarrow>
              and_then (in_context UNAUTHORIZED ''Invalid login credentials''
                (ae_bcrypt_verify env password hashed)) (\<lambda>verified.
              if \<not> verified then invalid_credentials
              else case check_cidr_whitelist (ae_net env) ip (us_cidr_whitelist u) of
                Inl _ \<Rightarrow> invalid_credentials
              | Inr _ \<Rightarrow> local_login_verified env u ip)))))"

section \<open>Completing a second factor\<close>

text \<open>\<open>SecondFactorAttempt::begin\<close> and \<open>end\<close> around the check of a code.\<close>

definition with_second_factor_attempt ::
  "('w, 'o) auth_env \<Rightarrow> user_id \<Rightarrow> ('w, 'o, 'a) flow \<Rightarrow> ('w, 'o, 'a) flow" where
  "with_second_factor_attempt env u m s =
     (case sf_begin u (ae_instant env (ls_world s)) (ls_second s) of
        (Begun _, sf) \<Rightarrow> (case m (s\<lparr>ls_second := sf\<rparr>) of
           (r, s') \<Rightarrow> (r, s'\<lparr>ls_second := sf_end u (counts_as_failure (map_sum failure_status id r))
              (ae_instant env (ls_world s')) (ls_second s')\<rparr>))
      | (_, sf) \<Rightarrow> (Inl (Failure TOO_MANY_REQUESTS None), s\<lparr>ls_second := sf\<rparr>))"

definition complete_totp :: "('w, 'o) auth_env \<Rightarrow> 'o user \<Rightarrow> user_id \<Rightarrow> ip_addr \<Rightarrow> login_factor \<Rightarrow> ('w, 'o, string) flow" where
  "complete_totp env u user_id ip factor =
     and_then (on_session (map_prod Inr id \<circ> complete_totp_login)) (\<lambda>kind.
     and_then (record_login_of env u ip kind (Some factor)) (\<lambda>_.
     issue_jwt env user_id))"

definition finish_totp_login :: "('w, 'o) auth_env \<Rightarrow> ip_addr \<Rightarrow> user_id \<Rightarrow> string \<Rightarrow> ('w, 'o, string) flow" where
  "finish_totp_login env ip user_id code =
     and_then (call (ae_get_user env user_id)) (\<lambda>u.
     and_then (required INTERNAL_SERVER_ERROR ''User is not enrolled in TOTP 2FA'' (us_totp_secret u)) (\<lambda>secret.
     and_then (check_user_cidr_whitelist env u ip) (\<lambda>_.
     and_then (required INTERNAL_SERVER_ERROR ''Failed to decode TOTP secret to bytes'' (ae_base32 env secret)) (\<lambda>bytes.
     and_then (from_result (ae_make_totp env bytes)) (\<lambda>totp.
     and_then (asking (ae_check_totp env totp code)) (\<lambda>checked.
     and_then (required UNAUTHORIZED ''Invalid TOTP code'' checked) (\<lambda>step.
     and_then (call (ae_consume_totp_step env user_id step)) (\<lambda>fresh.
     if \<not> fresh then refuse UNAUTHORIZED ''TOTP code already used. Wait for the next code.''
     else complete_totp env u user_id ip By_Totp))))))))"

definition complete_totp_login_request ::
  "('w, 'o) auth_env \<Rightarrow> ip_addr \<Rightarrow> string \<Rightarrow> ('w, 'o, string) flow" where
  "complete_totp_login_request env ip code =
     and_then (unix_secs_now env) (\<lambda>now.
     and_then (on_session (begin_totp_login_attempt now)) (\<lambda>user_id.
     with_second_factor_attempt env user_id (finish_totp_login env ip user_id code)))"

text \<open>
  \<open>bcrypt::verify(..).unwrap_or(false)\<close> on each unused hash. The lock of the user's recovery codes,
  held up to the removal, is in SecondFactorSystem.
\<close>

definition recovery_code_matches :: "('w, 'o) auth_env \<Rightarrow> string \<Rightarrow> string \<Rightarrow> bool" where
  "recovery_code_matches env code hash = (case ae_bcrypt_verify env code hash of Inr b \<Rightarrow> b | Inl _ \<Rightarrow> False)"

definition finish_totp_recovery_login ::
  "('w, 'o) auth_env \<Rightarrow> ip_addr \<Rightarrow> user_id \<Rightarrow> string \<Rightarrow> ('w, 'o, string) flow" where
  "finish_totp_recovery_login env ip user_id code =
     and_then (call (ae_get_user env user_id)) (\<lambda>u.
     if us_totp_secret u = None then refuse UNAUTHORIZED ''User is not enrolled in TOTP 2FA''
     else and_then (check_user_cidr_whitelist env u ip) (\<lambda>_.
     and_then (required UNAUTHORIZED ''Invalid recovery code''
       (find_recovery_code (recovery_code_matches env) code (us_recovery_codes u))) (\<lambda>hashed.
     and_then (call (ae_remove_recovery_code env user_id hashed)) (\<lambda>_.
     complete_totp env u user_id ip By_Totp_Recovery))))"

definition complete_totp_recovery_login_request ::
  "('w, 'o) auth_env \<Rightarrow> ip_addr \<Rightarrow> string \<Rightarrow> ('w, 'o, string) flow" where
  "complete_totp_recovery_login_request env ip code =
     and_then (unix_secs_now env) (\<lambda>now.
     and_then (on_session (begin_totp_login_attempt now)) (\<lambda>user_id.
     with_second_factor_attempt env user_id (finish_totp_recovery_login env ip user_id code)))"

text \<open>The passkey which signed must be the one enrolled now; \<open>True\<close> when its new state is stored.\<close>

definition apply_authentication :: "('w, 'o) auth_env \<Rightarrow> 'o \<Rightarrow> 'o \<Rightarrow> ('w, 'o, bool \<times> 'o) flow" where
  "apply_authentication env passkey update =
     required UNAUTHORIZED ''Passkey is no longer enrolled for this user'' (ae_update_credential env passkey update)"

definition complete_passkey_login_request ::
  "('w, 'o) auth_env \<Rightarrow> ip_addr \<Rightarrow> 'o \<Rightarrow> ('w, 'o, string) flow" where
  "complete_passkey_login_request env ip credential =
     and_then (unix_secs_now env) (\<lambda>now.
     and_then (on_session (retrieve_passkey_login now)) (\<lambda>(user_id, st, kind).
     and_then (required INTERNAL_SERVER_ERROR
       ''No passkey provider available, possibly invalid 'host' config.'' (ae_passkey_provider env)) (\<lambda>provider.
     and_then (in_context UNAUTHORIZED ''Failed to validate passkey'' (pp_finish provider credential st)) (\<lambda>update.
     and_then (call (ae_get_user env user_id)) (\<lambda>u.
     and_then (check_user_cidr_whitelist env u ip) (\<lambda>_.
     and_then (required UNAUTHORIZED ''User is not enrolled in Passkey 2FA'' (us_passkey u)) (\<lambda>passkey.
     and_then (apply_authentication env passkey update) (\<lambda>(changed, passkey').
     and_then (if changed then call (ae_update_passkey env user_id passkey') else done_with ()) (\<lambda>_.
     and_then (record_login_of env u ip kind (Some By_Passkey)) (\<lambda>_.
     issue_jwt env user_id))))))))))"

section \<open>Redeeming a completed external login\<close>

definition exchange_for_jwt :: "('w, 'o) auth_env \<Rightarrow> ip_addr \<Rightarrow> ('w, 'o, string) flow" where
  "exchange_for_jwt env ip =
     and_then (unix_secs_now env) (\<lambda>now.
     and_then (on_session (retrieve_authenticated_user now)) (\<lambda>(user_id, at).
     and_then (call (ae_get_user env user_id)) (\<lambda>u.
     and_then (check_user_cidr_whitelist env u ip) (\<lambda>_.
     issue_jwt_with_auth_time env (us_id u) at))))"

text \<open>An external login of an existing user, \<open>get_user_id_or_two_factor\<close>.\<close>

datatype 'o user_id_or_two_factor = User_Id user_id | User_Passkey 'o | User_Totp

definition get_user_id_or_two_factor ::
  "('w, 'o) auth_env \<Rightarrow> 'o user \<Rightarrow> ip_addr \<Rightarrow> login_kind \<Rightarrow> ('w, 'o, 'o user_id_or_two_factor) flow" where
  "get_user_id_or_two_factor env u ip provider_login =
     and_then (check_user_cidr_whitelist env u ip) (\<lambda>_.
     and_then (begin_external_two_factor env u provider_login) (\<lambda>factor. case factor of
       None \<Rightarrow>
         and_then (record_login_of env u ip provider_login None) (\<lambda>_.
         and_then (new_session_id env) (\<lambda>i.
         and_then (unix_secs_now env) (\<lambda>now.
         and_then (to_session (insert_authenticated_user i (us_id u) now)) (\<lambda>_.
         done_with (User_Id (us_id u))))))
     | Some (External_Passkey response) \<Rightarrow> done_with (User_Passkey response)
     | Some External_Totp \<Rightarrow> done_with User_Totp))"

section \<open>The requests\<close>

text \<open>\<open>LoginRequest\<close>, but for the login options and the exchange of a provider's token.\<close>

datatype 'o login_request =
    ExchangeForJwt
  | SignUpLocalUser string string
  | LoginLocalUser string string
  | CompletePasskeyLogin 'o
  | CompleteTotpLogin string
  | CompleteTotpRecoveryLogin string

fun resolve_login ::
  "('w, 'o) auth_env \<Rightarrow> ip_addr \<Rightarrow> 'o login_request \<Rightarrow> ('w, 'o, 'o jwt_or_two_factor) flow" where
  "resolve_login env ip ExchangeForJwt = and_then (exchange_for_jwt env ip) (\<lambda>jwt. done_with (Jwt_Issued jwt))"
| "resolve_login env ip (SignUpLocalUser name password) =
     and_then (sign_up_local_user env ip name password) (\<lambda>jwt. done_with (Jwt_Issued jwt))"
| "resolve_login env ip (LoginLocalUser name password) = login_local_user env ip name password"
| "resolve_login env ip (CompletePasskeyLogin credential) =
     and_then (complete_passkey_login_request env ip credential) (\<lambda>jwt. done_with (Jwt_Issued jwt))"
| "resolve_login env ip (CompleteTotpLogin code) =
     and_then (complete_totp_login_request env ip code) (\<lambda>jwt. done_with (Jwt_Issued jwt))"
| "resolve_login env ip (CompleteTotpRecoveryLogin code) =
     and_then (complete_totp_recovery_login_request env ip code) (\<lambda>jwt. done_with (Jwt_Issued jwt))"

section \<open>What a run of each step shows\<close>

text \<open>The session which waits for the second factor of \<open>u\<close>.\<close>

definition awaits_passkey :: "('p, 't) auth_session \<Rightarrow> user_id \<Rightarrow> unix_secs \<Rightarrow> login_kind \<Rightarrow> nat \<Rightarrow> bool" where
  "awaits_passkey se u now kind i \<longleftrightarrow>
     (\<exists>st. as_passkey se = Present (u, st, now)) \<and> as_kind se = Present kind \<and> as_id se = i"

definition awaits_totp :: "('p, 't) auth_session \<Rightarrow> user_id \<Rightarrow> unix_secs \<Rightarrow> login_kind \<Rightarrow> nat \<Rightarrow> bool" where
  "awaits_totp se u now kind i \<longleftrightarrow> as_totp se = Present (u, now) \<and> as_totp_attempts se = Present 0 \<and>
     as_kind se = Present kind \<and> as_id se = i"

lemma invalid_credentials_ok [simp]:
  "invalid_credentials_after_dummy_hash env password s \<noteq> (Inr r, s')"
  "invalid_credentials s \<noteq> (Inr r, s')"
  by (simp_all add: invalid_credentials_after_dummy_hash_def invalid_credentials_def)

lemma dummy_hash_refuses:
  "fst (invalid_credentials_after_dummy_hash env password s) =
     Inl (Failure UNAUTHORIZED (Some ''Invalid login credentials''))"
  "ls_session (snd (invalid_credentials_after_dummy_hash env password s)) = ls_session s"
  "ls_logins (snd (invalid_credentials_after_dummy_hash env password s)) = ls_logins s"
  by (simp_all add: invalid_credentials_after_dummy_hash_def invalid_credentials_def refuse_def call_def
      split: prod.splits)

lemma begin_passkey_ok:
  assumes "begin_passkey env u k kind s = (Inr r, s')"
  shows "ls_logins s' = ls_logins s \<and> awaits_passkey (ls_session s') (us_id u)
    (ae_unix_secs env (ls_world s)) kind (ae_new_session_id env (ls_world s))"
  using assms
  by (auto simp: begin_passkey_def and_then_ok new_session_id_def unix_secs_now_def awaits_passkey_def
      insert_passkey_login_def insert_login_kind_def cycle_id_def modified_def split: prod.splits)

lemma begin_totp_ok:
  assumes "begin_totp env u kind s = (Inr r, s')"
  shows "ls_logins s' = ls_logins s \<and> awaits_totp (ls_session s') (us_id u)
    (ae_unix_secs env (ls_world s)) kind (ae_new_session_id env (ls_world s))"
  using assms
  by (auto simp: begin_totp_def and_then_ok new_session_id_def unix_secs_now_def awaits_totp_def
      insert_totp_login_def insert_login_kind_def cycle_id_def modified_def)

text \<open>What the verified user gets.\<close>

definition granted ::
  "('w, 'o) auth_env \<Rightarrow> 'o user \<Rightarrow> ip_addr \<Rightarrow> ('w, 'o) login_state \<Rightarrow> 'o jwt_or_two_factor \<Rightarrow> ('w, 'o) login_state \<Rightarrow> bool" where
  "granted env u ip s r s' \<longleftrightarrow> (case r of
     Jwt_Issued jwt \<Rightarrow> us_passkey u = None \<and> us_totp_secret u = None \<and> jwt_for env (us_id u) None jwt \<and>
       ls_session s' = ls_session s \<and> (\<exists>e. ls_logins s' = ls_logins s @ [login_of u ip Local None e])
   | Passkey_Required _ \<Rightarrow> us_passkey u \<noteq> None \<and> ls_logins s' = ls_logins s \<and>
       awaits_passkey (ls_session s') (us_id u) (ae_unix_secs env (ls_world s)) Local (ae_new_session_id env (ls_world s))
   | Totp_Required \<Rightarrow> us_passkey u = None \<and> us_totp_secret u \<noteq> None \<and> ls_logins s' = ls_logins s \<and>
       awaits_totp (ls_session s') (us_id u) (ae_unix_secs env (ls_world s)) Local (ae_new_session_id env (ls_world s)))"

lemma local_login_verified_ok:
  assumes "local_login_verified env u ip s = (Inr r, s')"
  shows "granted env u ip s r s'"
  using assms
  by (auto simp: local_login_verified_def granted_def and_then_ok split: option.splits
      dest!: begin_passkey_ok begin_totp_ok record_login_of_ok issue_jwt_ok)

lemma attempt_ok:
  assumes "begin_totp_login_attempt now se = (Inr u, se')"
  shows "\<exists>begun. as_totp se = Present (u, begun) \<and> now \<le> begun + MAX_SECOND_FACTOR_LOGIN_AGE"
    "as_kind se' = as_kind se" "as_totp se' = as_totp se"
  using assms
  by (auto simp: begin_totp_login_attempt_def slot_required_def slot_get_def modified_def is_within_def
      check_second_factor_login_age_def check_login_age_def Let_def
      split: slot.splits sum.splits if_splits option.splits prod.splits)

definition kind_of :: "('p, 't) auth_session \<Rightarrow> login_kind" where
  "kind_of se = (case as_kind se of Present k \<Rightarrow> k | _ \<Rightarrow> Local)"

lemma retrieve_passkey_ok:
  assumes "retrieve_passkey_login now se = (Inr (u, st, kind), se')"
  shows "\<exists>begun. as_passkey se = Present (u, st, begun) \<and> now \<le> begun + MAX_SECOND_FACTOR_LOGIN_AGE"
    "kind = kind_of se" "as_passkey se' = Absent"
  using assms
  by (auto simp: retrieve_passkey_login_def slot_required_def slot_get_def modified_def is_within_def
      check_second_factor_login_age_def check_login_age_def Let_def take_login_kind_def taken_def kind_of_def
      split: slot.splits sum.splits if_splits option.splits prod.splits)

lemma complete_totp_ok:
  assumes "complete_totp env u user_id ip factor s = (Inr jwt, s')"
  shows "as_totp (ls_session s') = Absent" "jwt_for env user_id None jwt"
    "\<exists>e. ls_logins s' = ls_logins s @ [login_of u ip (kind_of (ls_session s)) (Some factor) e]"
proof -
  obtain kind s1 s2 where k: "on_session (map_prod Inr id \<circ> complete_totp_login) s = (Inr kind, s1)"
    and rec: "record_login_of env u ip kind (Some factor) s1 = (Inr (), s2)"
    and jwt: "issue_jwt env user_id s2 = (Inr jwt, s')"
    using assms by (auto simp: complete_totp_def and_then_ok)
  have k': "complete_totp_login (ls_session s) = (kind, ls_session s1)" "s1 = s\<lparr>ls_session := ls_session s1\<rparr>"
    using k by (auto simp: on_session_ok map_prod_def split: prod.splits)
  have eq: "kind = fst (complete_totp_login (ls_session s))" "ls_session s1 = snd (complete_totp_login (ls_session s))"
    using k'(1) by simp_all
  have "kind = kind_of (ls_session s) \<and> as_totp (ls_session s1) = Absent"
    unfolding eq by (simp add: complete_totp_login_def take_login_kind_def modified_def kind_of_def)
  moreover have "ls_logins s1 = ls_logins s" using k'(2) by (metis login_state.select_convs(4) login_state.surjective login_state.update_convs(1))
  ultimately show "as_totp (ls_session s') = Absent" "jwt_for env user_id None jwt"
    "\<exists>e. ls_logins s' = ls_logins s @ [login_of u ip (kind_of (ls_session s)) (Some factor) e]"
    using record_login_of_ok [OF rec] issue_jwt_ok [OF jwt] by auto
qed

lemma with_attempt_ok:
  assumes "with_second_factor_attempt env u m s = (Inr x, s')"
  obtains sf s1 where "m (s\<lparr>ls_second := sf\<rparr>) = (Inr x, s1)" "ls_session s' = ls_session s1"
    "ls_logins s' = ls_logins s1"
  using assms
  by (fastforce simp: with_second_factor_attempt_def split: prod.splits begin_outcome.splits)

lemma call_keeps:
  assumes "call f s = (Inr x, s')"
  shows "ls_session s' = ls_session s" "ls_logins s' = ls_logins s"
  using assms by (auto simp: call_def split: prod.splits)

end
