(* ===== verification/LoginDemo.thy ===== *)
theory LoginDemo
  imports LoginFlow
begin

text \<open>
  An app for the demonstrations: two users, one with TOTP, both within a whitelist; a token is its
  subject; the world is the time.
\<close>

type_synonym demo_value = "ip_addr \<times> nat"

definition demo_user :: "string \<Rightarrow> string option \<Rightarrow> demo_value user" where
  "demo_user name totp = \<lparr>us_id = name, us_username = name, us_hashed_password = Some ''hash'',
     us_passkey = None, us_totp_secret = totp, us_recovery_codes = [], us_external_skip_2fa = False,
     us_enabled = True, us_admin = False, us_workload = False, us_cidr_whitelist = [''10.0.0.0/8'']\<rparr>"

definition demo_find :: "string \<Rightarrow> demo_value user option" where
  "demo_find name = (if name = ''ann'' then Some (demo_user ''ann'' (Some ''S''))
     else if name = ''bob'' then Some (demo_user ''bob'' None) else None)"

definition demo_jwt_lib :: "demo_value jwt_lib" where
  "demo_jwt_lib = \<lparr>jl_default_header = (V4 0, 0), jl_alg = (\<lambda>_. ''HS256''),
     jl_validation = (\<lambda>_ _ _ leeway. (V4 0, leeway)), jl_leeway = snd,
     jl_encode = (\<lambda>_ c _. Some (jc_sub c)), jl_decode = (\<lambda>_ _ _ _. None)\<rparr>"

definition demo_env :: "(nat, demo_value) auth_env" where
  "demo_env = \<lparr>ae_net = demo_nets, ae_lib = demo_jwt_lib, ae_jwt = jwt_provider_new demo_jwt_lib ''key'' 60000,
     ae_unix_secs = id, ae_instant = secs, ae_new_session_id = (\<lambda>w. 7), ae_local_auth_enabled = True,
     ae_local_registration_disabled = False, ae_locked_usernames = [], ae_passkey_provider = None,
     ae_update_credential = (\<lambda>_ _. None), ae_base32 = Some, ae_make_totp = (\<lambda>_. Inr (V4 0, 0)),
     ae_check_totp = (\<lambda>_ code w. if code = ''123456'' then Some w else None),
     ae_bcrypt_verify = (\<lambda>password hash. Inr (password = ''right'')), ae_bcrypt_hash = (\<lambda>_ w. (Inr ''hash'', w)),
     ae_validate_username = (\<lambda>_. Inr ()), ae_validate_password = (\<lambda>_. Inr ()),
     ae_no_users_exist = (\<lambda>w. (Inr False, w)),
     ae_get_user = (\<lambda>u w. (case demo_find u of None \<Rightarrow> Inl (Failure UNAUTHORIZED None) | Some x \<Rightarrow> Inr x, w)),
     ae_find_user_with_username = (\<lambda>u w. (Inr (demo_find u), w)),
     ae_sign_up_local_user = (\<lambda>name _ _ w. (Inr name, w)), ae_record_login = (\<lambda>_ w. (Inr (), w)),
     ae_consume_totp_step = (\<lambda>_ _ w. (Inr True, w)), ae_remove_recovery_code = (\<lambda>_ _ w. (Inr (), w)),
     ae_update_passkey = (\<lambda>_ _ w. (Inr (), w))\<rparr>"

definition demo_state :: "(nat, demo_value) login_state" where
  "demo_state = \<lparr>ls_session = empty_session 1, ls_second = second_factor_new 10 (secs 900), ls_world = 1000,
     ls_logins = [], ls_events = []\<rparr>"

lemmas flow_steps = and_then_def from_result_def call_def asking_def on_session_def to_session_def done_with_def
  required_def in_context_def refuse_def from_status_def check_user_cidr_whitelist_def record_login_def record_login_of_def
  issue_jwt_def issue_jwt_with_auth_time_def demo_env_def demo_find_def demo_user_def demo_state_def

lemma demo_whitelist_parse: "cidr_set_parse demo_nets [''10.0.0.0/8''] = Inr [(V4 0x0A000000, 8)]"
  by (simp add: byte_simps parse_cidr_def Let_def canonicalize_net_def demo_nets_def)

lemma demo_whitelist: "check_cidr_whitelist demo_nets (V4 0x0A000001) [''10.0.0.0/8''] = Inr ()"
  "check_cidr_whitelist demo_nets (V4 0x01000001) [''10.0.0.0/8''] = Inl FORBIDDEN"
  unfolding check_cidr_whitelist_def demo_whitelist_parse
  by (simp_all add: cidr_set_contains_def demo_nets_def)

lemma demo_encode: "encode_sub demo_jwt_lib (jwt_provider_new demo_jwt_lib ''key'' 60000) now u = Some u"
  "encode_sub_with_auth_time demo_jwt_lib (jwt_provider_new demo_jwt_lib ''key'' 60000) now u at = Some u"
  by (simp_all add: encode_sub_def encode_sub_with_auth_time_def jwt_encode_def jwt_provider_new_def demo_jwt_lib_def)

end
