(* ===== verification/LoginProps.thy ===== *)
theory LoginProps
  imports Login LoginDemo SecondFactorSystem
begin

text \<open>The properties of the login API.\<close>

section \<open>Passwords\<close>

text \<open>
  C8: A password logs in only a user whose stored hash it verifies against, from an address within
  the user's whitelist. A token is issued right away only to a user without a second factor, and
  then the login is recorded once; otherwise no login is recorded, and the session, under a new id,
  holds the pending second factor of exactly that user, begun now.
\<close>

theorem password_login_gate:
  assumes "login_local_user env ip name password s = (Inr r, s')"
  shows "ae_local_auth_enabled env \<and> (\<exists>u w hashed.
    ae_find_user_with_username env name (ls_world s) = (Inr (Some u), w) \<and>
    us_hashed_password u = Some hashed \<and> ae_bcrypt_verify env password hashed = Inr True \<and>
    check_cidr_whitelist (ae_net env) ip (us_cidr_whitelist u) = Inr () \<and>
    granted env u ip (s\<lparr>ls_world := w\<rparr>) r s')"
proof -
  have enabled: "ae_local_auth_enabled env"
    using assms by (auto simp: login_local_user_def split: if_splits)
  let ?rest = "\<lambda>found. case found of
      None \<Rightarrow> invalid_credentials_after_dummy_hash env password
    | Some u \<Rightarrow> (case us_hashed_password u of
        None \<Rightarrow> invalid_credentials_after_dummy_hash env password
      | Some hashed \<Rightarrow>
          and_then (in_context UNAUTHORIZED ''Invalid login credentials''
            (ae_bcrypt_verify env password hashed)) (\<lambda>verified.
          if \<not> verified then invalid_credentials
          else case check_cidr_whitelist (ae_net env) ip (us_cidr_whitelist u) of
            Inl _ \<Rightarrow> invalid_credentials
          | Inr _ \<Rightarrow> local_login_verified env u ip))"
  obtain found s1 where call: "call (ae_find_user_with_username env name) s = (Inr found, s1)"
    and rest: "?rest found s1 = (Inr r, s')"
    using assms enabled unfolding login_local_user_def by (auto simp: and_then_ok)
  obtain u where u: "found = Some u" using rest by (cases found) auto
  obtain hashed where h: "us_hashed_password u = Some hashed"
    using rest u by (cases "us_hashed_password u") auto
  have ok: "us_hashed_password u = Some hashed" "ae_bcrypt_verify env password hashed = Inr True"
      "check_cidr_whitelist (ae_net env) ip (us_cidr_whitelist u) = Inr ()"
    and fin: "local_login_verified env u ip s1 = (Inr r, s')"
    using rest u h by (auto simp: and_then_ok split: if_splits sum.splits)
  note find = call [unfolded u]
  have s1: "ae_find_user_with_username env name (ls_world s) = (Inr (Some u), ls_world s1)"
    "s1 = s\<lparr>ls_world := ls_world s1\<rparr>"
    using find by (simp_all add: call_ok)
  then show ?thesis
    using enabled ok local_login_verified_ok [OF fin] by metis
qed


text \<open>
  C9: A refused password login says the same whatever the reason: no such user, a user without a
  password, a wrong password and an address outside the user's whitelist all get the same failure,
  with no cause below it. Only a stored hash which bcrypt can't read shows: the answer has the same
  status and message, but bcrypt's failure stands below it as its one cause. In every case the
  session and the recorded logins stay as they are.
\<close>

theorem refused_logins_look_alike:
  assumes "ae_local_auth_enabled env" "ae_validate_username env name = Inr ()"
    and "fst (ae_find_user_with_username env name (ls_world s)) = Inr found"
    and "\<not> (\<exists>u hashed. found = Some u \<and> us_hashed_password u = Some hashed \<and>
      ae_bcrypt_verify env password hashed = Inr True \<and>
      check_cidr_whitelist (ae_net env) ip (us_cidr_whitelist u) = Inr ())"
  shows "\<exists>f. fst (login_local_user env ip name password s) = Inl f \<and>
    failure_status f = UNAUTHORIZED \<and> failure_message f = Some ''Invalid login credentials'' \<and>
    (\<forall>u hashed e. found = Some u \<and> us_hashed_password u = Some hashed \<and> ae_bcrypt_verify env password hashed = Inl e \<longrightarrow>
      f = Caused UNAUTHORIZED ''Invalid login credentials'' e) \<and>
    ((\<nexists>u hashed e. found = Some u \<and> us_hashed_password u = Some hashed \<and> ae_bcrypt_verify env password hashed = Inl e) \<longrightarrow>
      f = Failure UNAUTHORIZED (Some ''Invalid login credentials'')) \<and>
    ls_session (snd (login_local_user env ip name password s)) = ls_session s \<and>
    ls_logins (snd (login_local_user env ip name password s)) = ls_logins s"
proof -
  obtain w where w: "ae_find_user_with_username env name (ls_world s) = (Inr found, w)"
    using assms(3) by (metis prod.collapse)
  have run: "login_local_user env ip name password s = (case found of
      None \<Rightarrow> invalid_credentials_after_dummy_hash env password
    | Some u \<Rightarrow> (case us_hashed_password u of
        None \<Rightarrow> invalid_credentials_after_dummy_hash env password
      | Some hashed \<Rightarrow>
          and_then (in_context UNAUTHORIZED ''Invalid login credentials''
            (ae_bcrypt_verify env password hashed)) (\<lambda>verified.
          if \<not> verified then invalid_credentials
          else case check_cidr_whitelist (ae_net env) ip (us_cidr_whitelist u) of
            Inl _ \<Rightarrow> invalid_credentials
          | Inr _ \<Rightarrow> local_login_verified env u ip))) (s\<lparr>ls_world := w\<rparr>)"
    using assms(1,2) by (simp add: login_local_user_def and_then_def from_result_def call_def w)
  show ?thesis
    unfolding run using assms(4)
    by (auto simp: dummy_hash_refuses and_then_def in_context_def from_result_def invalid_credentials_def refuse_def
        done_with_def split: option.splits sum.splits)
qed

section \<open>Second factors\<close>

text \<open>The second factor a request completes, when it is pending on the session, and since when.\<close>

fun pending_factor :: "'o login_request \<Rightarrow> ('o, 'o) auth_session \<Rightarrow> (login_factor \<times> user_id \<times> unix_secs) option" where
  "pending_factor (CompletePasskeyLogin _) se = (case as_passkey se of
     Present (u, _, begun) \<Rightarrow> Some (By_Passkey, u, begun) | _ \<Rightarrow> None)"
| "pending_factor (CompleteTotpLogin _) se = (case as_totp se of
     Present (u, begun) \<Rightarrow> Some (By_Totp, u, begun) | _ \<Rightarrow> None)"
| "pending_factor (CompleteTotpRecoveryLogin _) se = (case as_totp se of
     Present (u, begun) \<Rightarrow> Some (By_Totp_Recovery, u, begun) | _ \<Rightarrow> None)"
| "pending_factor _ se = None"

definition is_completion :: "'o login_request \<Rightarrow> bool" where
  "is_completion req \<longleftrightarrow> (case req of
     CompletePasskeyLogin _ \<Rightarrow> True | CompleteTotpLogin _ \<Rightarrow> True | CompleteTotpRecoveryLogin _ \<Rightarrow> True | _ \<Rightarrow> False)"

definition user_loaded :: "('w, 'o) auth_env \<Rightarrow> user_id \<Rightarrow> 'o user \<Rightarrow> bool" where
  "user_loaded env user_id u \<longleftrightarrow> (\<exists>w. fst (ae_get_user env user_id w) = Inr u)"

lemma user_loaded_call: "call (ae_get_user env user_id) s = (Inr u, s') \<Longrightarrow> user_loaded env user_id u"
  by (auto simp: call_ok user_loaded_def intro: exI [of _ "ls_world s"])

lemma totp_completion_ok:
  assumes att: "on_session (begin_totp_login_attempt now) s = (Inr user_id, s1)"
    and fin: "with_second_factor_attempt env user_id m s1 = (Inr jwt, s')"
    and m: "\<And>t t'. m t = (Inr jwt, t') \<Longrightarrow> ls_session t = ls_session s1 \<Longrightarrow> ls_logins t = ls_logins s1 \<Longrightarrow>
      \<exists>u e. as_totp (ls_session t') = Absent \<and> jwt_for env user_id None jwt \<and>
        user_loaded env user_id u \<and> check_cidr_whitelist (ae_net env) ip (us_cidr_whitelist u) = Inr () \<and>
        ls_logins t' = ls_logins s1 @ [login_of u ip (kind_of (ls_session s1)) (Some factor) e]"
  shows "\<exists>begun u e. as_totp (ls_session s) = Present (user_id, begun) \<and>
    now \<le> begun + MAX_SECOND_FACTOR_LOGIN_AGE \<and> as_totp (ls_session s') = Absent \<and>
    jwt_for env user_id None jwt \<and> user_loaded env user_id u \<and> check_cidr_whitelist (ae_net env) ip (us_cidr_whitelist u) = Inr () \<and>
    ls_logins s' = ls_logins s @ [login_of u ip (kind_of (ls_session s)) (Some factor) e]"
proof -
  have b: "begin_totp_login_attempt now (ls_session s) = (Inr user_id, ls_session s1)"
    and s1: "s1 = s\<lparr>ls_session := ls_session s1\<rparr>"
    using att by (simp_all add: on_session_ok)
  obtain sf t' where run: "m (s1\<lparr>ls_second := sf\<rparr>) = (Inr jwt, t')"
    and same: "ls_session s' = ls_session t'" "ls_logins s' = ls_logins t'"
    using fin by (rule with_attempt_ok)
  have "kind_of (ls_session s1) = kind_of (ls_session s)" using attempt_ok(2) [OF b] by (simp add: kind_of_def)
  moreover have "ls_logins s1 = ls_logins s" by (subst s1) simp
  moreover have "\<exists>u e. as_totp (ls_session t') = Absent \<and> jwt_for env user_id None jwt \<and>
      user_loaded env user_id u \<and> check_cidr_whitelist (ae_net env) ip (us_cidr_whitelist u) = Inr () \<and>
      ls_logins t' = ls_logins s1 @ [login_of u ip (kind_of (ls_session s1)) (Some factor) e]"
    by (rule m [OF run]) simp_all
  ultimately show ?thesis using attempt_ok(1) [OF b] same by metis
qed

lemma finish_totp_ok:
  assumes "finish_totp_login env ip user_id code t = (Inr jwt, t')"
  shows "\<exists>u e. as_totp (ls_session t') = Absent \<and> jwt_for env user_id None jwt \<and>
    user_loaded env user_id u \<and> check_cidr_whitelist (ae_net env) ip (us_cidr_whitelist u) = Inr () \<and>
    ls_logins t' = ls_logins t @ [login_of u ip (kind_of (ls_session t)) (Some By_Totp) e]"
proof -
  obtain u t1 step fresh t2 where g: "call (ae_get_user env user_id) t = (Inr u, t1)"
    and c: "check_cidr_whitelist (ae_net env) ip (us_cidr_whitelist u) = Inr ()"
    and "call (ae_consume_totp_step env user_id step) t1 = (Inr fresh, t2)"
    and fin: "complete_totp env u user_id ip By_Totp t2 = (Inr jwt, t')"
    using assms by (auto simp: finish_totp_login_def and_then_ok split: if_splits)
  with g have "ls_session t2 = ls_session t" "ls_logins t2 = ls_logins t" by (simp_all add: call_keeps)
  with complete_totp_ok [OF fin] c user_loaded_call [OF g] show ?thesis by metis
qed

lemma finish_recovery_ok:
  assumes "finish_totp_recovery_login env ip user_id code t = (Inr jwt, t')"
  shows "\<exists>u e. as_totp (ls_session t') = Absent \<and> jwt_for env user_id None jwt \<and>
    user_loaded env user_id u \<and> check_cidr_whitelist (ae_net env) ip (us_cidr_whitelist u) = Inr () \<and>
    ls_logins t' = ls_logins t @ [login_of u ip (kind_of (ls_session t)) (Some By_Totp_Recovery) e]"
proof -
  obtain u t1 h t2 where g: "call (ae_get_user env user_id) t = (Inr u, t1)"
    and c: "check_cidr_whitelist (ae_net env) ip (us_cidr_whitelist u) = Inr ()"
    and "call (ae_remove_recovery_code env user_id h) t1 = (Inr (), t2)"
    and fin: "complete_totp env u user_id ip By_Totp_Recovery t2 = (Inr jwt, t')"
    using assms by (auto simp: finish_totp_recovery_login_def and_then_ok split: if_splits)
  with g have "ls_session t2 = ls_session t" "ls_logins t2 = ls_logins t" by (simp_all add: call_keeps)
  with complete_totp_ok [OF fin] c user_loaded_call [OF g] show ?thesis by metis
qed

lemma passkey_completion_ok:
  assumes "complete_passkey_login_request env ip credential s = (Inr jwt, s')"
  shows "\<exists>user_id st begun u e. as_passkey (ls_session s) = Present (user_id, st, begun) \<and>
    ae_unix_secs env (ls_world s) \<le> begun + MAX_SECOND_FACTOR_LOGIN_AGE \<and>
    as_passkey (ls_session s') = Absent \<and> jwt_for env user_id None jwt \<and>
    user_loaded env user_id u \<and> check_cidr_whitelist (ae_net env) ip (us_cidr_whitelist u) = Inr () \<and>
    ls_logins s' = ls_logins s @ [login_of u ip (kind_of (ls_session s)) (Some By_Passkey) e]"
proof -
  obtain user_id st kind s1 u s2 changed passkey s3 s4 where
    r: "on_session (retrieve_passkey_login (ae_unix_secs env (ls_world s))) s = (Inr (user_id, st, kind), s1)"
    and g: "call (ae_get_user env user_id) s1 = (Inr u, s2)"
    and c: "check_cidr_whitelist (ae_net env) ip (us_cidr_whitelist u) = Inr ()"
    and k: "(if changed then call (ae_update_passkey env user_id passkey) else done_with ()) s2 = (Inr (), s3)"
    and l: "record_login_of env u ip kind (Some By_Passkey) s3 = (Inr (), s4)"
    and j: "issue_jwt env user_id s4 = (Inr jwt, s')"
    using assms
    by (auto simp: complete_passkey_login_request_def and_then_ok unix_secs_now_def
        apply_authentication_def split: prod.splits)
  have r': "retrieve_passkey_login (ae_unix_secs env (ls_world s)) (ls_session s) = (Inr (user_id, st, kind), ls_session s1)"
    and s1: "s1 = s\<lparr>ls_session := ls_session s1\<rparr>"
    using r by (simp_all add: on_session_ok)
  have "ls_session s3 = ls_session s2 \<and> ls_logins s3 = ls_logins s2"
    using k by (auto split: if_splits dest: call_keeps)
  moreover have "ls_logins s1 = ls_logins s" by (subst s1) simp
  ultimately show ?thesis
    using retrieve_passkey_ok [OF r'] c user_loaded_call [OF g] call_keeps [OF g] record_login_of_ok [OF l] issue_jwt_ok [OF j]
    by metis
qed

text \<open>
  C10: A second factor only completes the login pending on its own session: a token is issued for the
  user whose first factor passed there, at most ten minutes ago, within that user's whitelist; the
  pending login is used up; and the login is recorded once, with the kind of its first factor.
\<close>

theorem second_factor_completes_pending_login:
  assumes "is_completion req" "resolve_login env ip req s = (Inr r, s')"
  shows "\<exists>factor user_id begun jwt u e. pending_factor req (ls_session s) = Some (factor, user_id, begun) \<and>
    ae_unix_secs env (ls_world s) \<le> begun + MAX_SECOND_FACTOR_LOGIN_AGE \<and>
    pending_factor req (ls_session s') = None \<and> r = Jwt_Issued jwt \<and> jwt_for env user_id None jwt \<and>
    user_loaded env user_id u \<and> check_cidr_whitelist (ae_net env) ip (us_cidr_whitelist u) = Inr () \<and>
    ls_logins s' = ls_logins s @ [login_of u ip (kind_of (ls_session s)) (Some factor) e]"
proof (cases req)
  case (CompletePasskeyLogin credential)
  then obtain jwt where "complete_passkey_login_request env ip credential s = (Inr jwt, s')" "r = Jwt_Issued jwt"
    using assms(2) by (auto simp: and_then_ok)
  then show ?thesis using passkey_completion_ok [of env ip credential s jwt s'] CompletePasskeyLogin by fastforce
next
  case (CompleteTotpLogin code)
  then obtain jwt user_id s1 where r: "r = Jwt_Issued jwt"
    and b: "on_session (begin_totp_login_attempt (ae_unix_secs env (ls_world s))) s = (Inr user_id, s1)"
    and f: "with_second_factor_attempt env user_id (finish_totp_login env ip user_id code) s1 = (Inr jwt, s')"
    using assms(2) by (auto simp: and_then_ok complete_totp_login_request_def unix_secs_now_def)
  from totp_completion_ok [OF b f] finish_totp_ok show ?thesis using CompleteTotpLogin r by fastforce
next
  case (CompleteTotpRecoveryLogin code)
  then obtain jwt user_id s1 where r: "r = Jwt_Issued jwt"
    and b: "on_session (begin_totp_login_attempt (ae_unix_secs env (ls_world s))) s = (Inr user_id, s1)"
    and f: "with_second_factor_attempt env user_id (finish_totp_recovery_login env ip user_id code) s1 = (Inr jwt, s')"
    using assms(2) by (auto simp: and_then_ok complete_totp_recovery_login_request_def unix_secs_now_def)
  from totp_completion_ok [OF b f] finish_recovery_ok show ?thesis
    using CompleteTotpRecoveryLogin r by fastforce
qed (use assms(1) in \<open>simp_all add: is_completion_def\<close>)

section \<open>Redeeming a completed external login\<close>

text \<open>
  C11: A completed external login is exchanged for a token once, within two minutes of the provider's
  callback and from within the user's whitelist: the token counts as a login of the callback's time,
  not of the exchange, nothing is recorded again, and a second exchange on the session is refused.
\<close>

theorem completed_login_exchanged_once:
  assumes "exchange_for_jwt env ip s = (Inr jwt, s')"
  shows "(\<exists>user_id at u. as_user (ls_session s) = Present (user_id, at) \<and>
      ae_unix_secs env (ls_world s) \<le> at + MAX_COMPLETED_LOGIN_AGE \<and> user_loaded env user_id u \<and>
      check_cidr_whitelist (ae_net env) ip (us_cidr_whitelist u) = Inr () \<and>
      jwt_for env (us_id u) (Some at) jwt) \<and>
    ls_logins s' = ls_logins s \<and> fst (exchange_for_jwt env ip' s') = Inl (Failure UNAUTHORIZED None)"
proof -
  obtain user_id at s1 u s2 where
    r: "on_session (retrieve_authenticated_user (ae_unix_secs env (ls_world s))) s = (Inr (user_id, at), s1)"
    and g: "call (ae_get_user env user_id) s1 = (Inr u, s2)"
    and c: "check_cidr_whitelist (ae_net env) ip (us_cidr_whitelist u) = Inr ()"
    and j: "issue_jwt_with_auth_time env (us_id u) at s2 = (Inr jwt, s')"
    using assms by (auto simp: exchange_for_jwt_def and_then_ok unix_secs_now_def split: prod.splits)
  have r': "retrieve_authenticated_user (ae_unix_secs env (ls_world s)) (ls_session s) = (Inr (user_id, at), ls_session s1)"
    and s1: "s1 = s\<lparr>ls_session := ls_session s1\<rparr>"
    using r by (simp_all add: on_session_ok)
  have se: "as_user (ls_session s) = Present (user_id, at)"
    "ae_unix_secs env (ls_world s) \<le> at + MAX_COMPLETED_LOGIN_AGE"
    using r'
    by (auto simp: retrieve_authenticated_user_def slot_required_def slot_get_def taken_def modified_def
        check_completed_login_age_def check_login_age_def is_within_def res_bind_Inr_iff
        split: slot.splits if_splits)
  have "ls_session s1 = snd (retrieve_authenticated_user (ae_unix_secs env (ls_world s)) (ls_session s))"
    using r' by simp
  then have gone: "as_user (ls_session s1) = Absent"
    by (simp add: retrieve_authenticated_user_def taken_def modified_def se)
  have s': "s' = s2" "jwt_for env (us_id u) (Some at) jwt" using issue_jwt_with_auth_time_ok [OF j] by auto
  have used: "as_user (ls_session s') = Absent" using gone call_keeps [OF g] s'(1) by simp
  have "ls_logins s' = ls_logins s" using call_keeps [OF g] s'(1) by (subst (asm) s1) simp
  moreover have "fst (exchange_for_jwt env ip' s') = Inl (Failure UNAUTHORIZED None)"
    using used
    by (simp add: exchange_for_jwt_def and_then_def unix_secs_now_def asking_def on_session_def
        retrieve_authenticated_user_def slot_required_def slot_get_def)
  ultimately show ?thesis using se user_loaded_call [OF g] c s'(2) by blast
qed

section \<open>A demonstration\<close>

lemmas flow_eval = flow_steps new_session_id_def unix_secs_now_def begin_totp_def local_login_verified_def

lemma password_login_gate_witness:
  "\<exists>s' u w hashed. login_local_user demo_env (V4 0x0A000001) ''ann'' ''right'' demo_state = (Inr Totp_Required, s') \<and>
     ae_find_user_with_username demo_env ''ann'' (ls_world demo_state) = (Inr (Some u), w) \<and>
     us_hashed_password u = Some hashed \<and> ae_bcrypt_verify demo_env ''right'' hashed = Inr True"
proof -
  obtain s' where "login_local_user demo_env (V4 0x0A000001) ''ann'' ''right'' demo_state = (Inr Totp_Required, s')"
    by (simp add: login_local_user_def flow_eval demo_whitelist)
  from password_login_gate [OF this] this show ?thesis by blast
qed

text \<open>Bob from elsewhere, somebody unknown, and ann when bcrypt can't read her hash.\<close>

definition demo_unreadable :: "(nat, demo_value) auth_env" where
  "demo_unreadable = demo_env\<lparr>ae_bcrypt_verify := (\<lambda>_ _. Inl (Failure INTERNAL_SERVER_ERROR (Some ''invalid hash'')))\<rparr>"

lemma refused_logins_look_alike_witness:
  "fst (login_local_user demo_env (V4 0x01000001) ''bob'' ''right'' demo_state) =
   fst (login_local_user demo_env (V4 0x0A000001) ''eve'' ''x'' demo_state) \<and>
   (\<exists>f. fst (login_local_user demo_unreadable (V4 0x0A000001) ''ann'' ''right'' demo_state) = Inl f \<and>
     failure_message f = Some ''Invalid login credentials'' \<and> failure_causes f \<noteq> [])"
proof -
  have "fst (login_local_user demo_env (V4 0x01000001) ''bob'' ''right'' demo_state) =
      Inl (Failure UNAUTHORIZED (Some ''Invalid login credentials''))"
    using refused_logins_look_alike [where found = "demo_find ''bob''" and env = demo_env and ip = "V4 0x01000001"
        and name = "''bob''" and password = "''right''" and s = demo_state]
    by (auto simp: flow_eval demo_whitelist)
  moreover have "fst (login_local_user demo_env (V4 0x0A000001) ''eve'' ''x'' demo_state) =
      Inl (Failure UNAUTHORIZED (Some ''Invalid login credentials''))"
    using refused_logins_look_alike [where found = None and env = demo_env and ip = "V4 0x0A000001"
        and name = "''eve''" and password = "''x''" and s = demo_state]
    by (auto simp: flow_eval)
  moreover have a: "ae_local_auth_enabled demo_unreadable" "ae_validate_username demo_unreadable ''ann'' = Inr ()"
      "fst (ae_find_user_with_username demo_unreadable ''ann'' (ls_world demo_state)) = Inr (Some (demo_user ''ann'' (Some ''S'')))"
    by (simp_all add: flow_eval demo_unreadable_def)
  have unread: "ae_bcrypt_verify demo_unreadable ''right'' hashed = Inl (Failure INTERNAL_SERVER_ERROR (Some ''invalid hash''))" for hashed
    by (simp add: demo_unreadable_def)
  from refused_logins_look_alike [OF a, of "''right''" "V4 0x0A000001"] obtain f where
      "fst (login_local_user demo_unreadable (V4 0x0A000001) ''ann'' ''right'' demo_state) = Inl f"
      "failure_message f = Some ''Invalid login credentials''"
      "us_hashed_password (demo_user ''ann'' (Some ''S'')) \<noteq> None \<longrightarrow>
        f = Caused UNAUTHORIZED ''Invalid login credentials'' (Failure INTERNAL_SERVER_ERROR (Some ''invalid hash''))"
    using unread by fastforce
  then have "\<exists>f. fst (login_local_user demo_unreadable (V4 0x0A000001) ''ann'' ''right'' demo_state) = Inl f \<and>
     failure_message f = Some ''Invalid login credentials'' \<and> failure_causes f \<noteq> []"
    by (auto simp: demo_user_def)
  ultimately show ?thesis by simp
qed

definition demo_pending :: "(nat, demo_value) login_state" where
  "demo_pending = demo_state\<lparr>ls_session := (empty_session 2)\<lparr>as_totp := Present (''ann'', 900),
     as_user := Present (''bob'', 990)\<rparr>\<rparr>"

lemma second_factor_completes_pending_login_witness:
  "\<exists>s' e. resolve_login demo_env (V4 0x0A000001) (CompleteTotpLogin ''123456'') demo_pending = (Inr (Jwt_Issued ''ann''), s') \<and>
     pending_factor (CompleteTotpLogin ''123456'') (ls_session s') = None"
proof -
  obtain s' where run: "resolve_login demo_env (V4 0x0A000001) (CompleteTotpLogin ''123456'') demo_pending =
      (Inr (Jwt_Issued ''ann''), s')"
    by (simp add: complete_totp_login_request_def finish_totp_login_def complete_totp_def with_second_factor_attempt_def
        flow_eval demo_pending_def demo_whitelist demo_encode empty_session_def session_ops sf_eval
        check_second_factor_login_age_def check_login_age_def is_within_def MAX_SECOND_FACTOR_LOGIN_AGE_def
        MAX_TOTP_LOGIN_ATTEMPTS_def)
  have "is_completion (CompleteTotpLogin ''123456'')" by (simp add: is_completion_def)
  from second_factor_completes_pending_login [OF this run] run show ?thesis by blast
qed

lemma completed_login_exchanged_once_witness:
  "\<exists>s'. exchange_for_jwt demo_env (V4 0x0A000001) demo_pending = (Inr ''bob'', s') \<and>
     fst (exchange_for_jwt demo_env (V4 0x0A000001) s') = Inl (Failure UNAUTHORIZED None)"
proof -
  obtain s' where run: "exchange_for_jwt demo_env (V4 0x0A000001) demo_pending = (Inr ''bob'', s')"
    by (simp add: exchange_for_jwt_def flow_eval demo_pending_def demo_whitelist demo_encode empty_session_def session_ops
        check_completed_login_age_def check_login_age_def is_within_def MAX_COMPLETED_LOGIN_AGE_def)
  from completed_login_exchanged_once [OF run] run show ?thesis by blast
qed

end
