(* ===== verification/Providers.thy ===== *)
theory Providers
  imports Prelude
begin

text \<open>
  The configured external login providers: their configuration, slugs and urls,
  \<^verbatim>\<open>auth/client/rs/src/config.rs\<close>, and how the static and the stored ones are listed and
  resolved, \<^verbatim>\<open>auth/server/src/provider/external.rs\<close>. The clients built for them are
  parameters of the flows which use them.
\<close>

section \<open>Configuration\<close>

datatype external_login_kind = Oidc | Github | Google

record oidc_config =
  oc_enabled :: bool
  oc_provider :: string
  oc_redirect_host :: string
  oc_client_id :: string
  oc_client_secret :: string
  oc_use_full_email :: bool
  oc_additional_audiences :: "string list"
  oc_auto_redirect :: bool
  oc_additional_scopes :: "string list"
  oc_groups_claim :: string
  oc_allowed_groups :: "string list"
  oc_admin_groups :: "string list"

record named_oauth_config =
  nc_enabled :: bool
  nc_client_id :: string
  nc_client_secret :: string

datatype provider_config =
    Oidc_Config oidc_config
  | Github_Config named_oauth_config
  | Google_Config named_oauth_config

record token_exchange_config =
  tx_enabled :: bool
  tx_audiences :: "string list"
  tx_max_token_age_secs :: nat

record external_login_provider =
  ep_id :: string
  ep_name :: string
  ep_slug :: string
  ep_registration_disabled :: bool
  ep_token_exchange :: token_exchange_config
  ep_config :: provider_config

definition oidc_enabled :: "oidc_config \<Rightarrow> bool" where
  "oidc_enabled c \<longleftrightarrow> oc_enabled c \<and> oc_provider c \<noteq> [] \<and> oc_client_id c \<noteq> []"

definition oidc_groups_claim :: "oidc_config \<Rightarrow> string option" where
  "oidc_groups_claim c =
     (if oc_groups_claim c \<noteq> [] then Some (oc_groups_claim c)
      else if oc_allowed_groups c \<noteq> [] \<or> oc_admin_groups c \<noteq> [] then Some ''groups''
      else None)"

definition named_enabled :: "named_oauth_config \<Rightarrow> bool" where
  "named_enabled c \<longleftrightarrow> nc_enabled c \<and> nc_client_id c \<noteq> []"

fun config_kind :: "provider_config \<Rightarrow> external_login_kind" where
  "config_kind (Oidc_Config _) = Oidc"
| "config_kind (Github_Config _) = Github"
| "config_kind (Google_Config _) = Google"

fun config_enabled :: "provider_config \<Rightarrow> bool" where
  "config_enabled (Oidc_Config c) = oidc_enabled c"
| "config_enabled (Github_Config c) = named_enabled c"
| "config_enabled (Google_Config c) = named_enabled c"

fun client_secret :: "provider_config \<Rightarrow> string" where
  "client_secret (Oidc_Config c) = oc_client_secret c"
| "client_secret (Github_Config c) = nc_client_secret c"
| "client_secret (Google_Config c) = nc_client_secret c"

fun set_client_secret :: "string \<Rightarrow> provider_config \<Rightarrow> provider_config" where
  "set_client_secret s (Oidc_Config c) = Oidc_Config (c\<lparr>oc_client_secret := s\<rparr>)"
| "set_client_secret s (Github_Config c) = Github_Config (c\<lparr>nc_client_secret := s\<rparr>)"
| "set_client_secret s (Google_Config c) = Google_Config (c\<lparr>nc_client_secret := s\<rparr>)"

definition provider_kind :: "external_login_provider \<Rightarrow> external_login_kind" where
  "provider_kind p = config_kind (ep_config p)"

definition provider_enabled :: "external_login_provider \<Rightarrow> bool" where
  "provider_enabled p = config_enabled (ep_config p)"

text \<open>A secret is shown as hashes, only that there is one can be seen.\<close>

definition empty_or_redacted :: "string \<Rightarrow> string" where
  "empty_or_redacted src = (if src = [] then [] else ''##############'')"

definition redact_secret :: "provider_config \<Rightarrow> provider_config" where
  "redact_secret c = set_client_secret (empty_or_redacted (client_secret c)) c"

section \<open>Slugs and urls\<close>

fun reserved_id :: "external_login_kind \<Rightarrow> string" where
  "reserved_id Oidc = ''oidc''"
| "reserved_id Github = ''github''"
| "reserved_id Google = ''google''"

definition slug_of :: "external_login_provider \<Rightarrow> string" where
  "slug_of p = (if ep_slug p = [] then ep_id p else ep_slug p)"

definition uses_reserved_id :: "external_login_provider \<Rightarrow> bool" where
  "uses_reserved_id p \<longleftrightarrow> ep_slug p = [] \<and> ep_id p = reserved_id (provider_kind p)"

definition callback_path :: "external_login_provider \<Rightarrow> string" where
  "callback_path p =
     (if uses_reserved_id p then ''/'' @ slug_of p @ ''/callback''
      else ''/external/'' @ slug_of p @ ''/callback'')"

definition redirect_uri :: "string \<Rightarrow> string \<Rightarrow> external_login_provider \<Rightarrow> string" where
  "redirect_uri host path p = host @ path @ callback_path p"

definition MAX_SLUG_LENGTH :: nat where "MAX_SLUG_LENGTH = 64"

text \<open>The characters of a UTF-8 string: a byte with the continuation bytes after it.\<close>

function utf8_chars :: "string \<Rightarrow> string list" where
  "utf8_chars [] = []"
| "utf8_chars (c # s) = (c # takeWhile is_continuation s) # utf8_chars (dropWhile is_continuation s)"
  by pat_completeness auto
termination
  by (relation "measure length") (auto simp: le_imp_less_Suc length_dropWhile_le)

text \<open>
  \<open>char::to_lowercase\<close>. Outside ASCII only two characters have ASCII in their lowercase: the
  Kelvin sign (U+212A) and the dotted capital I (U+0130). The others stay outside ASCII, where the
  callers here treat all characters alike, so those are given as they are.
\<close>

definition char_to_lowercase :: "string \<Rightarrow> string list" where
  "char_to_lowercase c =
     (if map byte c = [226, 132, 170] then [''k'']
      else if map byte c = [196, 176] then [''i'', [char_of (204 :: nat), char_of (135 :: nat)]]
      else [map ascii_lower c])"

definition slug_push :: "string \<Rightarrow> string \<Rightarrow> string" where
  "slug_push c slug =
     (if length c = 1 \<and> is_ascii_alnum (hd c) then slug @ c
      else if slug \<noteq> [] \<and> last slug \<noteq> CHR ''-'' then slug @ ''-''
      else slug)"

definition trim_end_matches :: "char \<Rightarrow> string \<Rightarrow> string" where
  "trim_end_matches c s = rev (dropWhile (\<lambda>x. x = c) (rev s))"

definition slugify :: "string \<Rightarrow> string" where
  "slugify name = trim_end_matches CHR ''-''
     (take MAX_SLUG_LENGTH (fold slug_push (concat (map char_to_lowercase (utf8_chars name))) []))"

datatype slug_error = Slug_Empty | Slug_Too_Long | Slug_Form

definition validate_slug :: "string \<Rightarrow> slug_error + unit" where
  "validate_slug slug =
     (if slug = [] then Inl Slug_Empty
      else if MAX_SLUG_LENGTH < length slug then Inl Slug_Too_Long
      else if slug \<noteq> slugify slug then Inl Slug_Form
      else Inr ())"

section \<open>Resolution\<close>

definition MAX_PROVIDER_ID_LENGTH :: nat where "MAX_PROVIDER_ID_LENGTH = 64"

definition validate_provider_id :: "string \<Rightarrow> bool" where
  "validate_provider_id i \<longleftrightarrow> i \<noteq> [] \<and> length i \<le> MAX_PROVIDER_ID_LENGTH \<and>
     list_all (\<lambda>c. is_ascii_alnum c \<or> c = CHR ''-'' \<or> c = CHR ''_'') i"

record resolved_provider =
  rp_provider :: external_login_provider
  rp_is_static :: bool

text \<open>The loop of \<open>merge_providers\<close>: an invalid id, a repeated id or slug is skipped.\<close>

definition merge_step :: "external_login_provider \<times> bool \<Rightarrow> resolved_provider list \<Rightarrow> resolved_provider list" where
  "merge_step = (\<lambda>(p, is_static) providers.
     if \<not> validate_provider_id (ep_id p) then providers
     else if list_ex (\<lambda>e. ep_id (rp_provider e) = ep_id p) providers then providers
     else if list_ex (\<lambda>e. slug_of (rp_provider e) = slug_of p) providers then providers
     else providers @ [\<lparr>rp_provider = p, rp_is_static = is_static\<rparr>])"

definition merge_providers ::
  "external_login_provider list \<Rightarrow> external_login_provider list \<Rightarrow> resolved_provider list" where
  "merge_providers static_providers stored_providers = fold merge_step
     (map (\<lambda>p. (p, True)) static_providers @ map (\<lambda>p. (p, False)) stored_providers) []"

definition find_by_slug :: "string \<Rightarrow> resolved_provider list \<Rightarrow> status + resolved_provider" where
  "find_by_slug slug providers =
     (if \<not> validate_provider_id slug then Inl NOT_FOUND
      else ok_or NOT_FOUND (List.find (\<lambda>r. slug_of (rp_provider r) = slug) providers))"

text \<open>
  \<open>stored\<close> is what \<open>AuthImpl::get_external_provider\<close> answered for the id. It is asked only
  when no static provider has the id.
\<close>

definition resolve_external_provider ::
  "external_login_provider list \<Rightarrow> external_login_provider option \<Rightarrow> string \<Rightarrow> status + resolved_provider" where
  "resolve_external_provider static_providers stored i =
     (if \<not> validate_provider_id i then Inl NOT_FOUND
      else case List.find (\<lambda>p. ep_id p = i) static_providers of
        Some p \<Rightarrow> Inr \<lparr>rp_provider = p, rp_is_static = True\<rparr>
      | None \<Rightarrow> (case stored of
          Some p \<Rightarrow> if ep_id p = i then Inr \<lparr>rp_provider = p, rp_is_static = False\<rparr> else Inl NOT_FOUND
        | None \<Rightarrow> Inl NOT_FOUND))"

section \<open>Slugs\<close>

definition slug_char :: "char \<Rightarrow> bool" where
  "slug_char c \<longleftrightarrow> is_ascii_lower c \<or> is_ascii_digit c \<or> c = CHR ''-''"

text \<open>No hyphen at the start, none after another.\<close>

definition slug_form :: "string \<Rightarrow> bool" where
  "slug_form s \<longleftrightarrow> list_all slug_char s \<and> (s \<noteq> [] \<longrightarrow> hd s \<noteq> CHR ''-'') \<and>
     successively (\<lambda>a b. \<not> (a = CHR ''-'' \<and> b = CHR ''-'')) s"

lemma slug_form_prefix: "slug_form (a @ b) \<Longrightarrow> slug_form a"
  by (cases "a = []") (simp_all add: slug_form_def successively_append_iff)

lemma slug_form_snoc:
  "slug_form (s @ [c]) \<longleftrightarrow> slug_form s \<and> slug_char c \<and> (c = CHR ''-'' \<longrightarrow> s \<noteq> [] \<and> last s \<noteq> CHR ''-'')"
  by (cases "s = []") (auto simp: slug_form_def successively_append_iff)

lemma slug_form_Nil [simp]: "slug_form []"
  by (simp add: slug_form_def)

lemma lower_not_hyphen: "is_ascii_lower c \<Longrightarrow> c \<noteq> CHR ''-''" "is_ascii_digit c \<Longrightarrow> c \<noteq> CHR ''-''"
  by (auto simp: is_ascii_lower_def is_ascii_digit_def)

lemma lowered: "c \<in> set (char_to_lowercase ch) \<Longrightarrow> length c = 1 \<Longrightarrow> is_ascii_alnum (hd c) \<Longrightarrow>
    is_ascii_lower (hd c) \<or> is_ascii_digit (hd c)"
  by (auto simp: char_to_lowercase_def is_ascii_alnum_def is_ascii_lower_def is_ascii_digit_def ascii_lower_def
      is_ascii_upper_def length_Suc_conv split: if_splits)

lemma slug_push_form:
  assumes "slug_form slug" "c \<in> set (char_to_lowercase ch)"
  shows "slug_form (slug_push c slug)"
proof (cases "length c = 1 \<and> is_ascii_alnum (hd c)")
  case True
  then obtain x where c: "c = [x]" by (cases c) auto
  have "is_ascii_lower x \<or> is_ascii_digit x" using lowered [OF assms(2)] True c by simp
  then have "slug_char x \<and> x \<noteq> CHR ''-''" using lower_not_hyphen by (auto simp: slug_char_def)
  then show ?thesis using assms(1) True c by (simp add: slug_push_def slug_form_snoc)
next
  case False
  then show ?thesis using assms(1) slug_form_snoc [of slug "CHR ''-''"]
    by (auto simp: slug_push_def slug_char_def)
qed

lemma fold_slug_push_form:
  "slug_form slug \<Longrightarrow> slug_form (fold slug_push (concat (map char_to_lowercase cs)) slug)"
proof (induction cs arbitrary: slug)
  case (Cons ch cs)
  have "slug_form (fold slug_push lowers slug)" if "set lowers \<subseteq> set (char_to_lowercase ch)" "slug_form slug" for lowers slug
    using that by (induction lowers arbitrary: slug) (auto intro: slug_push_form)
  then show ?case using Cons by simp
qed simp

lemma trim_end_matches_prefix: "prefix (trim_end_matches c s) s"
  unfolding trim_end_matches_def by (metis rev_rev_ident suffix_dropWhile suffix_to_prefix)

lemma trim_end_matches_last: "trim_end_matches c s \<noteq> [] \<Longrightarrow> last (trim_end_matches c s) \<noteq> c"
  unfolding trim_end_matches_def by (metis (mono_tags, lifting) hd_dropWhile last_rev rev_is_Nil_conv)

lemma trim_end_matches_id: "s = [] \<or> last s \<noteq> c \<Longrightarrow> trim_end_matches c s = s"
  by (cases s rule: rev_cases) (auto simp: trim_end_matches_def)

text \<open>A slug in form is what it makes itself.\<close>

lemma utf8_chars_ascii: "\<forall>c \<in> set s. \<not> is_continuation c \<Longrightarrow> utf8_chars s = map (\<lambda>c. [c]) s"
proof (induction s)
  case (Cons c s)
  then have "takeWhile is_continuation s = []" "dropWhile is_continuation s = s"
    by (cases s; simp)+
  then show ?case using Cons by simp
qed simp

lemma slug_char_lowercase: "slug_char c \<Longrightarrow> char_to_lowercase [c] = [[c]] \<and> \<not> is_continuation c"
  by (auto simp: slug_char_def char_to_lowercase_def ascii_lower_def is_ascii_upper_def is_ascii_lower_def
      is_ascii_digit_def is_continuation_def)

lemma fold_slug_push_id:
  "slug_form (slug @ s) \<Longrightarrow> fold slug_push (map (\<lambda>c. [c]) s) slug = slug @ s"
proof (induction s arbitrary: slug)
  case (Cons c s)
  have "slug_form (slug @ [c])" using Cons.prems slug_form_prefix [of "slug @ [c]" s] by simp
  then have "slug_push [c] slug = slug @ [c]"
    by (auto simp: slug_push_def slug_form_snoc slug_char_def is_ascii_alnum_def)
  then show ?case using Cons.IH [of "slug @ [c]"] Cons.prems by simp
qed simp

lemma slugify_id:
  assumes "slug_form s" "s \<noteq> [] \<Longrightarrow> last s \<noteq> CHR ''-''" "length s \<le> MAX_SLUG_LENGTH"
  shows "slugify s = s"
proof -
  have chars: "\<forall>c \<in> set s. slug_char c" using assms(1) by (simp add: slug_form_def list_all_iff)
  then have "utf8_chars s = map (\<lambda>c. [c]) s" using slug_char_lowercase by (intro utf8_chars_ascii) auto
  moreover have "concat (map (char_to_lowercase \<circ> (\<lambda>c. [c])) s) = map (\<lambda>c. [c]) s"
    using chars slug_char_lowercase by (induction s) auto
  ultimately have "slugify s = trim_end_matches CHR ''-'' (take MAX_SLUG_LENGTH s)"
    using fold_slug_push_id [of "[]" s] assms(1) by (simp add: slugify_def)
  then show ?thesis using assms(2,3) trim_end_matches_id [of s "CHR ''-''"] by auto
qed

lemma slugify_form:
  "slug_form (slugify name)" "slugify name \<noteq> [] \<Longrightarrow> last (slugify name) \<noteq> CHR ''-''"
  "length (slugify name) \<le> MAX_SLUG_LENGTH"
proof -
  let ?pushed = "fold slug_push (concat (map char_to_lowercase (utf8_chars name))) []"
  have p: "prefix (slugify name) (take MAX_SLUG_LENGTH ?pushed)"
    by (simp add: slugify_def trim_end_matches_prefix)
  have "slug_form ?pushed" by (rule fold_slug_push_form) simp
  then have "slug_form (take MAX_SLUG_LENGTH ?pushed)"
    by (metis append_take_drop_id slug_form_prefix)
  then show "slug_form (slugify name)" using p by (auto simp: prefix_def dest: slug_form_prefix)
  show "slugify name \<noteq> [] \<Longrightarrow> last (slugify name) \<noteq> CHR ''-''"
    unfolding slugify_def by (rule trim_end_matches_last)
  show "length (slugify name) \<le> MAX_SLUG_LENGTH"
    using prefix_length_le [OF p] by simp
qed

lemma successively_no_pair:
  "successively (\<lambda>a b. \<not> (a = x \<and> b = y)) s \<longleftrightarrow> \<not> (\<exists>a b. s = a @ [x, y] @ b)"
proof (induction s rule: induct_list012)
  case (3 u v s)
  have "(\<exists>a b. u # v # s = a @ [x, y] @ b) \<longleftrightarrow> u = x \<and> v = y \<or> (\<exists>a b. v # s = a @ [x, y] @ b)"
    by (metis (no_types, opaque_lifting) append_Cons append_Nil append_eq_Cons_conv list.inject)
  then show ?case using 3 by simp
qed (auto simp: append_eq_Cons_conv Cons_eq_append_conv)

text \<open>
  Which slugs are valid: lowercase ASCII letters and digits with single hyphens between them, at
  most 64; and whatever name a slug is made from, Unicode included, it is a valid one unless nothing
  is left of the name.
\<close>

theorem slugs_well_formed:
  "(validate_slug s = Inr () \<longleftrightarrow> s \<noteq> [] \<and> length s \<le> 64 \<and>
      (\<forall>c \<in> set s. is_ascii_lower c \<or> is_ascii_digit c \<or> c = CHR ''-'') \<and>
      hd s \<noteq> CHR ''-'' \<and> last s \<noteq> CHR ''-'' \<and> \<not> (\<exists>a b. s = a @ ''--'' @ b)) \<and>
   (slugify name \<noteq> [] \<longrightarrow> validate_slug (slugify name) = Inr ())"
proof -
  have valid: "validate_slug s = Inr () \<longleftrightarrow>
      s \<noteq> [] \<and> length s \<le> MAX_SLUG_LENGTH \<and> slug_form s \<and> last s \<noteq> CHR ''-''" for s
  proof
    assume "validate_slug s = Inr ()"
    then have "s \<noteq> []" "length s \<le> MAX_SLUG_LENGTH" "slugify s = s"
      by (auto simp: validate_slug_def split: if_splits)
    then show "s \<noteq> [] \<and> length s \<le> MAX_SLUG_LENGTH \<and> slug_form s \<and> last s \<noteq> CHR ''-''"
      using slugify_form [of s] by simp
  qed (use slugify_id [of s] in \<open>simp add: validate_slug_def\<close>)
  have hyphens: "successively (\<lambda>a b. \<not> (a = CHR ''-'' \<and> b = CHR ''-'')) s \<longleftrightarrow> \<not> (\<exists>a b. s = a @ ''--'' @ b)" for s
    by (rule successively_no_pair)
  have "validate_slug (slugify name) = Inr ()" if "slugify name \<noteq> []"
    using valid [of "slugify name"] slugify_form [of name] that by simp
  then show ?thesis
    unfolding valid slug_form_def hyphens MAX_SLUG_LENGTH_def list_all_iff slug_char_def by blast
qed

lemma demo_slug: "slugify ''A B!'' = ''a-b''"
  by (simp add: slugify_def char_to_lowercase_def slug_push_def is_continuation_def is_ascii_alnum_def
      is_ascii_lower_def is_ascii_upper_def is_ascii_digit_def ascii_lower_def trim_end_matches_def MAX_SLUG_LENGTH_def char_of_eq_iff take_bit_eq_mod)

lemma slugs_well_formed_witness:
  "validate_slug (slugify ''A B!'') = Inr () \<and> slugify ''A B!'' = ''a-b''"
  using conjunct2 [OF slugs_well_formed [of "[]" "''A B!''"]] by (simp only: demo_slug) simp

section \<open>The list\<close>

definition merged_inv :: "(external_login_provider \<times> bool) list \<Rightarrow> resolved_provider list \<Rightarrow> bool" where
  "merged_inv given rs \<longleftrightarrow> distinct (map (ep_id \<circ> rp_provider) rs) \<and> distinct (map (slug_of \<circ> rp_provider) rs) \<and>
     (\<forall>r \<in> set rs. validate_provider_id (ep_id (rp_provider r)) \<and> (rp_provider r, rp_is_static r) \<in> set given)"

lemma merge_step_inv:
  assumes "merged_inv given rs"
  shows "merged_inv (given @ [x]) (merge_step x rs)"
  using assms by (auto simp: merged_inv_def merge_step_def list_ex_iff split: prod.splits)

lemma merge_providers_inv:
  "merged_inv (map (\<lambda>p. (p, True)) static_providers @ map (\<lambda>p. (p, False)) stored_providers)
     (merge_providers static_providers stored_providers)"
proof -
  have "merged_inv given (fold merge_step given [])" for given
  proof (induction given rule: rev_induct)
    case Nil
    then show ?case by (simp add: merged_inv_def)
  qed (simp add: merge_step_inv)
  then show ?thesis by (simp only: merge_providers_def)
qed

lemma callback_path_inj:
  assumes "callback_path p = callback_path q"
  shows "slug_of p = slug_of q"
proof -
  have reserved: "slug_of p = reserved_id (provider_kind p)" if "uses_reserved_id p" for p
    using that by (simp add: uses_reserved_id_def slug_of_def)
  have "reserved_id k \<noteq> ''external/'' @ x" for k x by (cases k) auto
  then show ?thesis
    using assms reserved [of p] reserved [of q] unfolding callback_path_def
    by (auto split: if_splits) (metis append_Cons append_Nil append_assoc append_same_eq)+
qed

lemma find_unique:
  "distinct (map f xs) \<Longrightarrow> x \<in> set xs \<Longrightarrow> List.find (\<lambda>y. f y = f x) xs = Some x"
  by (induction xs) (auto simp: image_iff)

text \<open>
  The urls name one provider: for every provider of the list, however the static and the stored
  ones were given, its slug resolves to it, no other has its id or the callback path registered
  there, and only ids of the url alphabet are listed.
\<close>

theorem providers_unambiguous:
  assumes "r \<in> set (merge_providers static_providers stored_providers)"
    and "validate_provider_id (slug_of (rp_provider r))"
  shows "find_by_slug (slug_of (rp_provider r)) (merge_providers static_providers stored_providers) = Inr r \<and>
    validate_provider_id (ep_id (rp_provider r)) \<and>
    rp_provider r \<in> set (if rp_is_static r then static_providers else stored_providers) \<and>
    (\<forall>q \<in> set (merge_providers static_providers stored_providers).
       callback_path (rp_provider q) = callback_path (rp_provider r) \<or> ep_id (rp_provider q) = ep_id (rp_provider r) \<longrightarrow> q = r)"
proof -
  let ?rs = "merge_providers static_providers stored_providers"
  have inv: "distinct (map (ep_id \<circ> rp_provider) ?rs)" "distinct (map (slug_of \<circ> rp_provider) ?rs)"
    "validate_provider_id (ep_id (rp_provider r))"
    "rp_provider r \<in> set (if rp_is_static r then static_providers else stored_providers)"
    using merge_providers_inv [of static_providers stored_providers] assms(1) by (auto simp: merged_inv_def)
  have "q = r" if "q \<in> set ?rs"
    "callback_path (rp_provider q) = callback_path (rp_provider r) \<or> ep_id (rp_provider q) = ep_id (rp_provider r)" for q
    using that(2) callback_path_inj [of "rp_provider q" "rp_provider r"] inv(1,2) that(1) assms(1)
    unfolding distinct_map by (metis comp_apply inj_onD)
  moreover have "find_by_slug (slug_of (rp_provider r)) ?rs = Inr r"
    using find_unique [OF inv(2) assms(1)] assms(2) by (simp add: find_by_slug_def)
  ultimately show ?thesis using inv(3,4) by blast
qed

definition demo_github :: "string \<Rightarrow> string \<Rightarrow> external_login_provider" where
  "demo_github i slug = \<lparr>ep_id = i, ep_name = ''Github'', ep_slug = slug, ep_registration_disabled = False,
     ep_token_exchange = \<lparr>tx_enabled = False, tx_audiences = [], tx_max_token_age_secs = 0\<rparr>,
     ep_config = Github_Config \<lparr>nc_enabled = True, nc_client_id = ''c'', nc_client_secret = ''s''\<rparr>\<rparr>"

lemma demo_merge:
  "merge_providers [demo_github ''github'' []] [demo_github ''x1'' ''github'', demo_github ''x2'' ''work''] =
     [\<lparr>rp_provider = demo_github ''github'' [], rp_is_static = True\<rparr>,
      \<lparr>rp_provider = demo_github ''x2'' ''work'', rp_is_static = False\<rparr>]"
  by (simp add: merge_providers_def merge_step_def demo_github_def slug_of_def validate_provider_id_def
      MAX_PROVIDER_ID_LENGTH_def is_ascii_alnum_def is_ascii_lower_def is_ascii_upper_def is_ascii_digit_def)

lemma providers_unambiguous_witness:
  "find_by_slug ''work'' (merge_providers [demo_github ''github'' []] [demo_github ''x1'' ''github'', demo_github ''x2'' ''work'']) =
     Inr \<lparr>rp_provider = demo_github ''x2'' ''work'', rp_is_static = False\<rparr>"
  using providers_unambiguous [of "\<lparr>rp_provider = demo_github ''x2'' ''work'', rp_is_static = False\<rparr>"
      "[demo_github ''github'' []]" "[demo_github ''x1'' ''github'', demo_github ''x2'' ''work'']"]
  unfolding demo_merge
  by (simp add: demo_github_def slug_of_def validate_provider_id_def MAX_PROVIDER_ID_LENGTH_def
      is_ascii_alnum_def is_ascii_lower_def is_ascii_upper_def is_ascii_digit_def)

end
