(* ===== verification/Workload.thy ===== *)
theory Workload
  imports Providers
begin

text \<open>
  Workload identity, \<^verbatim>\<open>auth/server/src/provider/workload.rs\<close>: which rule of a trusted issuer the
  claims of a token match, and what access the rules of an issuer give. Claims are the JSON of
  \<^verbatim>\<open>serde_json\<close>: a number is its printed text, an object the list of its members.
\<close>

section \<open>Claims\<close>

datatype json =
    JNull
  | JBool bool
  | JNumber string
  | JString string
  | JArray "json list"
  | JObject "(string \<times> json) list"

type_synonym claims = "(string \<times> json) list"

record workload_claim =
  wc_claim :: string
  wc_pattern :: string

record workload_rule =
  wr_id :: string
  wr_name :: string
  wr_enabled :: bool
  wr_claims :: "workload_claim list"
  wr_groups :: "string list"
  wr_admin :: bool
  wr_token_ttl_secs :: nat

datatype trusted_issuer_keys = Discovery | Jwks_Uri string | Static_Keys string

record trusted_issuer =
  ti_id :: string
  ti_name :: string
  ti_enabled :: bool
  ti_issuer :: string
  ti_keys :: trusted_issuer_keys
  ti_audiences :: "string list"
  ti_max_token_age_secs :: nat
  ti_rules :: "workload_rule list"

section \<open>Patterns\<close>

text \<open>The loop over the parts after the first: the last has to end the value.\<close>

fun glob_parts :: "string list \<Rightarrow> string \<Rightarrow> bool" where
  "glob_parts [] rest = True"
| "glob_parts [part] rest = suffix part rest"
| "glob_parts (part # next # parts) rest = (case find_sub part rest of
     Some index \<Rightarrow> glob_parts (next # parts) (drop (index + length part) rest)
   | None \<Rightarrow> False)"

definition glob_match :: "string \<Rightarrow> string \<Rightarrow> bool" where
  "glob_match pattern value = (case split_on CHR ''*'' pattern of
     [] \<Rightarrow> False
   | first # parts \<Rightarrow> (case strip_prefix first value of
       None \<Rightarrow> False
     | Some rest \<Rightarrow> if parts = [] then rest = [] else glob_parts parts rest))"

text \<open>What a pattern means: a star stands for any run of characters, others for themselves.\<close>

fun glob_spec :: "string \<Rightarrow> string \<Rightarrow> bool" where
  "glob_spec [] v = (v = [])"
| "glob_spec (c # p) v =
     (if c = CHR ''*'' then \<exists>k \<le> length v. glob_spec p (drop k v)
      else (case v of [] \<Rightarrow> False | x # v' \<Rightarrow> x = c \<and> glob_spec p v'))"

lemma glob_spec_literal:
  "CHR ''*'' \<notin> set w \<Longrightarrow> glob_spec (w @ p) v \<longleftrightarrow> (\<exists>r. v = w @ r \<and> glob_spec p r)"
proof (induction w arbitrary: v)
  case (Cons c w)
  then show ?case by (cases v) auto
qed simp

lemma glob_spec_star: "glob_spec (CHR ''*'' # p) v \<longleftrightarrow> (\<exists>a r. v = a @ r \<and> glob_spec p r)"
proof
  assume "glob_spec (CHR ''*'' # p) v"
  then obtain k where "glob_spec p (drop k v)" by auto
  then show "\<exists>a r. v = a @ r \<and> glob_spec p r"
    by (intro exI [of _ "take k v"] exI [of _ "drop k v"]) simp
next
  assume "\<exists>a r. v = a @ r \<and> glob_spec p r"
  then obtain a r where "v = a @ r" "glob_spec p r" by blast
  then show "glob_spec (CHR ''*'' # p) v" by (auto intro!: exI [of _ "length a"])
qed

lemma glob_spec_star_suffix:
  "glob_spec (CHR ''*'' # p) r \<Longrightarrow> glob_spec (CHR ''*'' # p) (a @ r)"
  unfolding glob_spec_star by (metis append.assoc)

lemma glob_spec_Nil: "glob_spec [] = (\<lambda>v. v = [])"
  by auto

lemma glob_parts_spec:
  assumes "parts \<noteq> []" "\<And>p. p \<in> set parts \<Longrightarrow> CHR ''*'' \<notin> set p"
  shows "glob_parts parts rest \<longleftrightarrow> glob_spec (CHR ''*'' # join_on ''*'' parts) rest"
  using assms
proof (induction parts rest rule: glob_parts.induct)
  case (2 part rest)
  then have "glob_spec part r \<longleftrightarrow> r = part" for r
    using glob_spec_literal [of part "[]" r] by simp
  then show ?case by (auto simp: glob_spec_star suffix_def simp del: glob_spec.simps)
next
  case (3 part q parts rest)
  let ?tail = "CHR ''*'' # join_on ''*'' (q # parts)"
  have star: "glob_spec (CHR ''*'' # join_on ''*'' (part # q # parts)) rest \<longleftrightarrow>
      (\<exists>a r. rest = a @ part @ r \<and> glob_spec ?tail r)"
  proof -
    have eq: "glob_spec (part @ ?tail) v \<longleftrightarrow> (\<exists>r. v = part @ r \<and> glob_spec ?tail r)" for v
      using glob_spec_literal [of part ?tail] 3(3) by simp
    have "join_on ''*'' (part # q # parts) = part @ ?tail" by simp
    then show ?thesis unfolding glob_spec_star [of "join_on ''*'' (part # q # parts)"]
      by (simp only: eq) blast
  qed
  show ?case
  proof (cases "find_sub part rest")
    case None
    then show ?thesis using find_sub_None [OF None] star by auto
  next
    case (Some index)
    from Some obtain a r where ar: "rest = a @ part @ r" "length a = index"
      and first: "\<And>a' r'. rest = a' @ part @ r' \<Longrightarrow> index \<le> length a'" by (rule find_sub_Some) blast
    have rec: "glob_parts (part # q # parts) rest \<longleftrightarrow> glob_spec ?tail r"
      using 3(1) [OF Some] 3(3) ar Some by simp
    have "glob_spec ?tail r" if other: "rest = a' @ part @ r'" "glob_spec ?tail r'" for a' r'
    proof -
      have "length a \<le> length a'" using first [OF other(1)] ar(2) by simp
      moreover have "r = drop (length a + length part) rest" "r' = drop (length a' + length part) rest"
        using ar(1) by simp (use other(1) in simp)
      ultimately have "r' = drop (length a' - length a) r" by simp
      then obtain b where "r = b @ r'" by (metis append_take_drop_id)
      then show ?thesis using glob_spec_star_suffix [OF other(2)] by simp
    qed
    then show ?thesis using rec star ar(1) by blast
  qed
qed simp

lemma glob_match_spec: "glob_match pattern value \<longleftrightarrow> glob_spec pattern value"
proof -
  obtain first parts where s: "split_on CHR ''*'' pattern = first # parts"
    by (cases "split_on CHR ''*'' pattern") auto
  have free: "CHR ''*'' \<notin> set p" if "p \<in> set (first # parts)" for p
    using that split_on_parts [of p "CHR ''*''" pattern] s by simp
  have pat: "pattern = join_on ''*'' (first # parts)"
    using join_on_split_on [of "CHR ''*''" pattern] s by simp
  show ?thesis
  proof (cases parts)
    case Nil
    then have "glob_spec pattern value \<longleftrightarrow> value = first"
      using glob_spec_literal [of first "[]" "value"] free pat by auto
    then show ?thesis using s Nil by (auto simp: glob_match_def strip_prefix_Some_iff split: option.splits dest: strip_prefix_None_iff [THEN iffD1])
  next
    case (Cons q qs)
    have "pattern = first @ CHR ''*'' # join_on ''*'' parts"
      using pat Cons by simp
    then have "glob_spec pattern value \<longleftrightarrow> (\<exists>r. value = first @ r \<and> glob_parts parts r)"
      using glob_spec_literal [of first "CHR ''*'' # join_on ''*'' parts" "value"]
        glob_parts_spec [of parts] free Cons by (simp del: glob_spec.simps)
    then show ?thesis using s Cons
      by (auto simp: glob_match_def strip_prefix_Some_iff strip_prefix_None_iff prefix_def split: option.splits)
  qed
qed

section \<open>Looking up a claim\<close>

definition MAX_CLAIM_PATH_PARTS :: nat where "MAX_CLAIM_PATH_PARTS = 16"

text \<open>
  The inner \<open>lookup\<close>: the splits from \<open>n\<close> parts down to one; a name over all parts is the claim
  itself. \<open>split <= parts.len()\<close> throughout.
\<close>

function lookup_splits :: "claims \<Rightarrow> string list \<Rightarrow> nat \<Rightarrow> json option" where
  "lookup_splits claims parts 0 = None"
| "lookup_splits claims parts (Suc n) =
     (case map_of claims (join_on ''.'' (take (Suc n) parts)) of
        None \<Rightarrow> lookup_splits claims parts n
      | Some value \<Rightarrow>
          if length parts \<le> Suc n then Some value
          else (case value of
              JObject nested \<Rightarrow>
                (case lookup_splits nested (drop (Suc n) parts) (length parts - Suc n) of
                   Some found \<Rightarrow> Some found
                 | None \<Rightarrow> lookup_splits claims parts n)
            | _ \<Rightarrow> lookup_splits claims parts n))"
  by pat_completeness auto
termination
  by (relation "measures [\<lambda>(_, parts, _). length parts, \<lambda>(_, _, n). n]") auto

definition lookup_claim :: "claims \<Rightarrow> string \<Rightarrow> json option" where
  "lookup_claim claims path =
     (let parts = split_on CHR ''.'' path in
      if path = [] \<or> MAX_CLAIM_PATH_PARTS < length parts then None
      else lookup_splits claims parts (length parts))"

text \<open>What a path reaches: names, each with at least a part of the path, looked up one in the other.\<close>

fun reaches :: "claims \<Rightarrow> string list \<Rightarrow> json \<Rightarrow> bool" where
  "reaches claims [] v = False"
| "reaches claims [name] v = (map_of claims name = Some v)"
| "reaches claims (name # next # names) v =
     (case map_of claims name of Some (JObject nested) \<Rightarrow> reaches nested (next # names) v | _ \<Rightarrow> False)"

lemma reaches_Cons:
  "names \<noteq> [] \<Longrightarrow> reaches claims (name # names) v \<longleftrightarrow>
     (\<exists>nested. map_of claims name = Some (JObject nested) \<and> reaches nested names v)"
  by (cases names) (auto split: option.splits json.splits)

text \<open>How the parts of a path are put together to names again.\<close>

definition splits_of :: "string list \<Rightarrow> string list list \<Rightarrow> bool" where
  "splits_of parts css \<longleftrightarrow> concat css = parts \<and> css \<noteq> [] \<and> [] \<notin> set css"

lemma lookup_splits_sound:
  assumes "lookup_splits claims parts n = Some v" "n \<le> length parts"
  shows "\<exists>css. splits_of parts css \<and> reaches claims (map (join_on ''.'') css) v"
  using assms
proof (induction "length parts" arbitrary: claims parts n rule: less_induct)
  case less
  note nested_IH = less.hyps
  from less.prems show ?case
  proof (induction n)
    case (Suc n)
    let ?name = "join_on ''.'' (take (Suc n) parts)"
    consider (here) "map_of claims ?name = Some v" "length parts \<le> Suc n"
      | (nested) members where "map_of claims ?name = Some (JObject members)" "Suc n < length parts"
          "lookup_splits members (drop (Suc n) parts) (length parts - Suc n) = Some v"
      | (shorter) "lookup_splits claims parts n = Some v"
      using Suc.prems(1) by (auto split: option.splits if_splits json.splits)
    then show ?case
    proof cases
      case here
      then have "splits_of parts [parts] \<and> reaches claims (map (join_on ''.'') [parts]) v"
        using Suc.prems(2) by (cases parts) (auto simp: splits_of_def)
      then show ?thesis by blast
    next
      case nested
      have "length (drop (Suc n) parts) < length parts" using nested(2) by simp
      from nested_IH [OF this nested(3)] obtain css where css: "splits_of (drop (Suc n) parts) css"
        "reaches members (map (join_on ''.'') css) v" by auto
      then have "splits_of parts (take (Suc n) parts # css) \<and>
          reaches claims (map (join_on ''.'') (take (Suc n) parts # css)) v"
        using nested(1,2) by (auto simp: splits_of_def reaches_Cons)
      then show ?thesis by blast
    next
      case shorter
      then show ?thesis using Suc.IH Suc.prems(2) by simp
    qed
  qed simp
qed

lemma lookup_splits_complete:
  assumes "splits_of parts css" "reaches claims (map (join_on ''.'') css) v" "length (hd css) \<le> n" "n \<le> length parts"
  shows "lookup_splits claims parts n \<noteq> None"
  using assms
proof (induction "length parts" arbitrary: claims parts css n rule: less_induct)
  case less
  obtain cs rest where css: "css = cs # rest" using less.prems(1) by (cases css) (auto simp: splits_of_def)
  have cs: "cs \<noteq> []" and parts: "parts = cs @ concat rest" using less.prems(1) css by (auto simp: splits_of_def)
  have at: "lookup_splits claims parts (length cs) \<noteq> None"
  proof -
    obtain k where k: "length cs = Suc k" using cs by (cases cs) auto
    have name: "take (Suc k) parts = cs" "drop (Suc k) parts = concat rest" using parts k by auto
    show ?thesis
    proof (cases "rest = []")
      case True
      then have "map_of claims (join_on ''.'' cs) = Some v" "length parts \<le> Suc k"
        using less.prems(2) css parts k by simp_all
      then show ?thesis using k name by simp
    next
      case False
      obtain members where m: "map_of claims (join_on ''.'' cs) = Some (JObject members)"
        "reaches members (map (join_on ''.'') rest) v"
        using less.prems(2) css False by (auto simp: reaches_Cons)
      have sp: "splits_of (concat rest) rest" using False less.prems(1) css by (auto simp: splits_of_def)
      have shorter: "length (concat rest) < length parts" using cs parts by simp
      have hd: "length (hd rest) \<le> length (concat rest)" using False by (cases rest) auto
      have "lookup_splits members (concat rest) (length (concat rest)) \<noteq> None"
        by (rule less.hyps [OF shorter sp m(2) hd]) simp
      then show ?thesis using k name m(1) parts by (auto split: option.splits)
    qed
  qed
  have "lookup_splits claims parts (length cs + j) \<noteq> None" if "length cs + j \<le> length parts" for j
    using that
  proof (induction j)
    case (Suc j)
    then show ?case by (auto split: option.splits json.splits)
  qed (use at in simp)
  from this [of "n - length cs"] show ?case using less.prems(3,4) css by simp
qed

text \<open>A claim is found exactly when names spelling the path reach one.\<close>

lemma join_on_app:
  "xs \<noteq> [] \<Longrightarrow> ys \<noteq> [] \<Longrightarrow> join_on sep (xs @ ys) = join_on sep xs @ sep @ join_on sep ys"
proof (induction xs)
  case (Cons x xs)
  then show ?case by (cases xs) (auto simp: join_on_Cons)
qed simp

lemma join_on_concat:
  "[] \<notin> set css \<Longrightarrow> join_on sep (map (join_on sep) css) = join_on sep (concat css)"
proof (induction css)
  case (Cons cs css)
  show ?case
  proof (cases "css = []")
    case False
    moreover from this have "concat css \<noteq> []" using Cons.prems by (cases css) auto
    ultimately show ?thesis
      using Cons join_on_app [of cs "concat css" sep] by (auto simp: join_on_Cons)
  qed simp
qed simp

lemma split_on_join:
  "names \<noteq> [] \<Longrightarrow> split_on c (join_on [c] names) = concat (map (split_on c) names)"
proof (induction names)
  case (Cons x names)
  have app: "split_on c (a @ c # b) = split_on c a @ split_on c b" for a b
  proof (induction a)
    case (Cons y a)
    then show ?case by (auto split: list.splits simp: append_eq_Cons_conv)
  qed simp
  show ?case
  proof (cases "names = []")
    case False
    then show ?thesis using Cons.IH app by (simp add: join_on_Cons)
  qed simp
qed simp

lemma lookup_claim_reaches:
  assumes "path \<noteq> []" "length (split_on CHR ''.'' path) \<le> MAX_CLAIM_PATH_PARTS"
  shows "(\<exists>v. lookup_claim claims path = Some v) \<longleftrightarrow> (\<exists>names v. join_on ''.'' names = path \<and> reaches claims names v)"
    and "lookup_claim claims path = Some v \<Longrightarrow> \<exists>names. join_on ''.'' names = path \<and> reaches claims names v"
proof -
  let ?parts = "split_on CHR ''.'' path"
  have lookup: "lookup_claim claims path = lookup_splits claims ?parts (length ?parts)"
    using assms by (simp add: lookup_claim_def Let_def)
  show sound: "\<exists>names. join_on ''.'' names = path \<and> reaches claims names v"
    if found: "lookup_claim claims path = Some v" for v
  proof -
    obtain css where css: "splits_of ?parts css" "reaches claims (map (join_on ''.'') css) v"
      using lookup_splits_sound [of claims ?parts "length ?parts" v] found lookup by auto
    then have "join_on ''.'' (map (join_on ''.'') css) = path"
      by (simp add: splits_of_def join_on_concat join_on_split_on)
    with css(2) show ?thesis by blast
  qed
  show "(\<exists>v. lookup_claim claims path = Some v) \<longleftrightarrow> (\<exists>names v. join_on ''.'' names = path \<and> reaches claims names v)"
  proof
    assume "\<exists>names v. join_on ''.'' names = path \<and> reaches claims names v"
    then obtain names v where n: "join_on ''.'' names = path" "reaches claims names v" by blast
    have ne: "names \<noteq> []" using n(2) by auto
    let ?css = "map (split_on CHR ''.'') names"
    have "splits_of ?parts ?css"
      using split_on_join [OF ne, of "CHR ''.''"] n(1) ne
      by (auto simp: splits_of_def dest: sym [of "[]"])
    moreover have "map (join_on ''.'') ?css = names" by (simp add: join_on_split_on map_idI comp_def)
    moreover have "length (hd ?css) \<le> length ?parts"
      using split_on_join [OF ne, of "CHR ''.''"] n(1) ne by (cases names) auto
    ultimately have "lookup_splits claims ?parts (length ?parts) \<noteq> None"
      using lookup_splits_complete [of ?parts ?css claims v "length ?parts"] n(2) by simp
    then show "\<exists>v. lookup_claim claims path = Some v" using lookup by auto
  qed (use sound in blast)
qed

section \<open>Matching rules\<close>

definition show_bool :: "bool \<Rightarrow> string" where
  "show_bool b = (if b then ''true'' else ''false'')"

fun value_matches :: "string \<Rightarrow> json \<Rightarrow> bool" where
  "value_matches pattern (JString s) = glob_match pattern s"
| "value_matches pattern (JBool b) = glob_match pattern (show_bool b)"
| "value_matches pattern (JNumber n) = glob_match pattern n"
| "value_matches pattern _ = False"

definition claim_matches :: "claims \<Rightarrow> workload_claim \<Rightarrow> bool" where
  "claim_matches claims c = (case lookup_claim claims (wc_claim c) of
     Some (JArray values) \<Rightarrow> list_ex (value_matches (wc_pattern c)) values
   | Some v \<Rightarrow> value_matches (wc_pattern c) v
   | None \<Rightarrow> False)"

definition match_rule :: "workload_rule list \<Rightarrow> claims \<Rightarrow> workload_rule option" where
  "match_rule rules claims = List.find (\<lambda>r.
     wr_enabled r \<and> wr_claims r \<noteq> [] \<and> list_all (claim_matches claims) (wr_claims r)) rules"

section \<open>Access\<close>

record workload_access =
  wa_rule_id :: string
  wa_groups :: "string list"
  wa_admin :: bool
  wa_enabled :: bool

definition revoked :: "workload_access \<Rightarrow> workload_access" where
  "revoked a = a\<lparr>wa_groups := [], wa_admin := False, wa_enabled := False\<rparr>"

text \<open>\<open>iter_mut().find(..)\<close>: the first entry with the id, or none.\<close>

fun revoke_first :: "string \<Rightarrow> workload_access list \<Rightarrow> workload_access list option" where
  "revoke_first i [] = None"
| "revoke_first i (a # as) =
     (if wa_rule_id a = i then Some (revoked a # as) else map_option ((#) a) (revoke_first i as))"

definition access_step :: "trusted_issuer \<Rightarrow> workload_rule \<Rightarrow> workload_access list \<Rightarrow> workload_access list" where
  "access_step issuer r access =
     (if \<not> validate_provider_id (wr_id r) then access
      else case revoke_first (wr_id r) access of
        Some access' \<Rightarrow> access'
      | None \<Rightarrow> access @ [\<lparr>wa_rule_id = wr_id r, wa_groups = wr_groups r, wa_admin = wr_admin r,
                         wa_enabled = (ti_enabled issuer \<and> wr_enabled r)\<rparr>])"

definition access_of_issuer :: "trusted_issuer \<Rightarrow> workload_access list" where
  "access_of_issuer issuer = fold (access_step issuer) (ti_rules issuer) []"

text \<open>\<open>list_trusted_issuers\<close>: static issuers first; invalid and duplicate ids are skipped.\<close>

definition resolve_step :: "trusted_issuer \<times> bool \<Rightarrow> (trusted_issuer \<times> bool) list \<Rightarrow> (trusted_issuer \<times> bool) list" where
  "resolve_step x issuers =
     (if \<not> validate_provider_id (ti_id (fst x)) then issuers
      else if list_ex (\<lambda>e. ti_id (fst e) = ti_id (fst x)) issuers then issuers
      else issuers @ [x])"

definition list_trusted_issuers :: "trusted_issuer list \<Rightarrow> trusted_issuer list \<Rightarrow> (trusted_issuer \<times> bool) list" where
  "list_trusted_issuers static stored =
     fold resolve_step (map (\<lambda>i. (i, True)) static @ map (\<lambda>i. (i, False)) stored) []"

section \<open>What the rules accept and give\<close>

text \<open>The scalar text a condition looks at, one of a list's.\<close>

fun scalar_text :: "json \<Rightarrow> string option" where
  "scalar_text (JString s) = Some s"
| "scalar_text (JBool b) = Some (show_bool b)"
| "scalar_text (JNumber n) = Some n"
| "scalar_text _ = None"

definition texts :: "json \<Rightarrow> string set" where
  "texts v = (case v of JArray values \<Rightarrow> {s. \<exists>x \<in> set values. scalar_text x = Some s}
     | _ \<Rightarrow> {s. scalar_text v = Some s})"

lemma value_matches_text: "value_matches pattern v \<longleftrightarrow> (\<exists>s. scalar_text v = Some s \<and> glob_spec pattern s)"
  by (cases v) (simp_all add: glob_match_spec)

lemma claim_matches_iff:
  "claim_matches claims c \<longleftrightarrow>
     (\<exists>v. lookup_claim claims (wc_claim c) = Some v \<and> (\<exists>s \<in> texts v. glob_spec (wc_pattern c) s))"
  by (auto simp: claim_matches_def texts_def value_matches_text list_ex_iff split: option.splits json.splits)

lemma lookup_claim_path:
  assumes "lookup_claim claims path = Some v"
  shows "path \<noteq> []" "length (split_on CHR ''.'' path) \<le> MAX_CLAIM_PATH_PARTS"
proof -
  have "\<not> (path = [] \<or> MAX_CLAIM_PATH_PARTS < length (split_on CHR ''.'' path))"
    using assms unfolding lookup_claim_def Let_def by (metis option.distinct(1))
  then show "path \<noteq> []" "length (split_on CHR ''.'' path) \<le> MAX_CLAIM_PATH_PARTS" by simp_all
qed

text \<open>
  Whom the claims of a token act as: the first rule which is enabled, has conditions and meets
  them all, where a condition is met when names spelling its path reach a claim, one of whose texts
  (a list has those of its values) is an instance of the pattern, a star standing for any run of
  characters. No rule without conditions, and no missing claim, ever matches.
\<close>

theorem matched_rule_meets_conditions:
  assumes "match_rule rules claims = Some r"
  shows "wr_enabled r \<and> wr_claims r \<noteq> [] \<and>
    (\<forall>c \<in> set (wr_claims r). \<exists>names v. join_on ''.'' names = wc_claim c \<and> reaches claims names v \<and>
       (\<exists>s \<in> texts v. glob_spec (wc_pattern c) s)) \<and>
    (\<exists>before after. rules = before @ r # after \<and>
       (\<forall>q \<in> set before. \<not> wr_enabled q \<or> wr_claims q = [] \<or> (\<exists>c \<in> set (wr_claims q). \<not> claim_matches claims c)))"
proof -
  let ?P = "\<lambda>r. wr_enabled r \<and> wr_claims r \<noteq> [] \<and> list_all (claim_matches claims) (wr_claims r)"
  obtain i where i: "i < length rules" "r = rules ! i" "?P r" "\<And>j. j < i \<Longrightarrow> \<not> ?P (rules ! j)"
    using assms by (auto simp: match_rule_def find_Some_iff)
  have met: "\<exists>names v. join_on ''.'' names = wc_claim c \<and> reaches claims names v \<and>
      (\<exists>s \<in> texts v. glob_spec (wc_pattern c) s)" if "c \<in> set (wr_claims r)" for c
  proof -
    have "claim_matches claims c" using i(3) that by (simp add: list_all_iff)
    from this [unfolded claim_matches_iff]
    obtain v where v: "lookup_claim claims (wc_claim c) = Some v" "\<exists>s \<in> texts v. glob_spec (wc_pattern c) s" by blast
    from lookup_claim_reaches(2) [OF lookup_claim_path [OF v(1)] v(1)] v(2) show ?thesis by blast
  qed
  have "rules = take i rules @ r # drop (Suc i) rules" using i by (simp add: id_take_nth_drop)
  moreover have "\<not> ?P q" if q: "q \<in> set (take i rules)" for q
  proof -
    obtain j where "j < i" "q = rules ! j" using q by (auto simp: in_set_conv_nth)
    then show ?thesis using i(4) by blast
  qed
  ultimately show ?thesis using i(3) met
    by (intro conjI ballI exI [of _ "take i rules"] exI [of _ "drop (Suc i) rules"])
      (auto simp: list_all_iff)
qed

text \<open>Which rules share an id, and what the entry of the id is.\<close>

lemma revoke_first_eq:
  "revoke_first i as = (if i \<in> wa_rule_id ` set as then Some (map (\<lambda>a. if wa_rule_id a = i then revoked a else a) as) else None)"
  if "distinct (map wa_rule_id as)"
  using that
proof (induction as)
  case (Cons a as)
  show ?case
  proof (cases "wa_rule_id a = i")
    case True
    then have "\<forall>b \<in> set as. wa_rule_id b \<noteq> i" using Cons.prems by (auto simp: image_iff)
    then show ?thesis using True by (simp add: map_idI)
  qed (use Cons in \<open>auto simp: image_iff\<close>)
qed simp

definition entry_of :: "trusted_issuer \<Rightarrow> workload_rule list \<Rightarrow> string \<Rightarrow> workload_access" where
  "entry_of issuer rs i = (case filter (\<lambda>r. wr_id r = i) rs of
     [r] \<Rightarrow> \<lparr>wa_rule_id = i, wa_groups = wr_groups r, wa_admin = wr_admin r, wa_enabled = (ti_enabled issuer \<and> wr_enabled r)\<rparr>
   | _ \<Rightarrow> \<lparr>wa_rule_id = i, wa_groups = [], wa_admin = False, wa_enabled = False\<rparr>)"

lemma entry_of_id [simp]: "wa_rule_id (entry_of issuer rs i) = i"
  by (simp add: entry_of_def split: list.splits)

lemma entry_of_snoc:
  "wr_id r \<noteq> i \<Longrightarrow> entry_of issuer (rs @ [r]) i = entry_of issuer rs i"
  "filter (\<lambda>q. wr_id q = wr_id r) rs \<noteq> [] \<Longrightarrow> entry_of issuer (rs @ [r]) (wr_id r) =
     \<lparr>wa_rule_id = wr_id r, wa_groups = [], wa_admin = False, wa_enabled = False\<rparr>"
  "filter (\<lambda>q. wr_id q = wr_id r) rs = [] \<Longrightarrow> entry_of issuer (rs @ [r]) (wr_id r) =
     \<lparr>wa_rule_id = wr_id r, wa_groups = wr_groups r, wa_admin = wr_admin r, wa_enabled = (ti_enabled issuer \<and> wr_enabled r)\<rparr>"
  by (auto simp: entry_of_def split: list.splits)

definition access_inv :: "trusted_issuer \<Rightarrow> workload_rule list \<Rightarrow> workload_access list \<Rightarrow> bool" where
  "access_inv issuer rs as \<longleftrightarrow> distinct (map wa_rule_id as) \<and>
     wa_rule_id ` set as = {i. validate_provider_id i \<and> (\<exists>r \<in> set rs. wr_id r = i)} \<and>
     (\<forall>a \<in> set as. entry_of issuer rs (wa_rule_id a) = a)"

lemma access_inv_step:
  assumes inv: "access_inv issuer rs as"
  shows "access_inv issuer (rs @ [r]) (access_step issuer r as)"
proof (cases "validate_provider_id (wr_id r)")
  case False
  have "wr_id r \<notin> wa_rule_id ` set as" using inv False by (simp add: access_inv_def)
  then have "entry_of issuer (rs @ [r]) (wa_rule_id a) = a" if "a \<in> set as" for a
  proof -
    have "wr_id r \<noteq> wa_rule_id a" using that \<open>wr_id r \<notin> _\<close> by (metis imageI)
    then show ?thesis using that inv by (simp add: access_inv_def entry_of_snoc(1))
  qed
  moreover have "{i. validate_provider_id i \<and> (\<exists>q \<in> set (rs @ [r]). wr_id q = i)} =
      {i. validate_provider_id i \<and> (\<exists>q \<in> set rs. wr_id q = i)}" using False by auto
  ultimately show ?thesis
    using inv False by (simp add: access_inv_def access_step_def)
next
  case valid: True
  have d: "distinct (map wa_rule_id as)" using inv by (simp add: access_inv_def)
  show ?thesis
  proof (cases "wr_id r \<in> wa_rule_id ` set as")
    case True
    let ?f = "\<lambda>a. if wa_rule_id a = wr_id r then revoked a else a"
    have ids: "wa_rule_id (?f a) = wa_rule_id a" for a by (simp add: revoked_def)
    have "filter (\<lambda>q. wr_id q = wr_id r) rs \<noteq> []"
      using True inv by (auto simp: access_inv_def filter_empty_conv)
    then have entry: "entry_of issuer (rs @ [r]) (wa_rule_id a) = ?f a" if "a \<in> set as" for a
      using that inv entry_of_snoc(2) by (auto simp: access_inv_def revoked_def entry_of_snoc(1))
    have step: "access_step issuer r as = map ?f as"
      using valid True by (simp add: access_step_def revoke_first_eq [OF d])
    have "map wa_rule_id (map ?f as) = map wa_rule_id as" using ids by simp
    then have same: "distinct (map wa_rule_id (map ?f as))" "wa_rule_id ` set (map ?f as) = wa_rule_id ` set as"
      using d by (simp_all only: set_map [symmetric])
    have "entry_of issuer (rs @ [r]) (wa_rule_id b) = b" if b: "b \<in> set (map ?f as)" for b
    proof -
      obtain a where a: "a \<in> set as" "b = ?f a" using b unfolding set_map by (rule imageE)
      show ?thesis using entry [OF a(1)] ids [of a] unfolding a(2) by simp
    qed
    moreover have "{i. validate_provider_id i \<and> (\<exists>q \<in> set (rs @ [r]). wr_id q = i)} = wa_rule_id ` set as"
      using inv True by (auto simp: access_inv_def)
    ultimately show ?thesis
      unfolding step access_inv_def using same by (metis (mono_tags, lifting))
  next
    case False
    then have new: "filter (\<lambda>q. wr_id q = wr_id r) rs = []"
      using inv valid by (auto simp: access_inv_def filter_empty_conv)
    have "entry_of issuer (rs @ [r]) (wa_rule_id a) = a" if "a \<in> set as" for a
    proof -
      have "wr_id r \<noteq> wa_rule_id a" using that False by (metis imageI)
      then show ?thesis using that inv by (simp add: access_inv_def entry_of_snoc(1))
    qed
    then show ?thesis
      using inv valid False entry_of_snoc(3) [OF new]
      by (auto simp: access_inv_def access_step_def revoke_first_eq [OF d])
  qed
qed

lemma access_of_issuer_inv: "access_inv issuer (ti_rules issuer) (access_of_issuer issuer)"
proof -
  have "access_inv issuer rs (fold (access_step issuer) rs [])" for rs
  proof (induction rs rule: rev_induct)
    case Nil
    then show ?case by (simp add: access_inv_def)
  next
    case (snoc r rs)
    then show ?case by (simp add: access_inv_step)
  qed
  then show ?thesis
    by (simp add: access_of_issuer_def)
qed

text \<open>
  C12: The access of an issuer's rules: one entry for each valid rule id, and it is the rule's own,
  enabled exactly while the rule and the issuer both are; when rules share the id, nobody gets
  anything through it: no groups, no admin, not enabled.
\<close>

theorem access_of_issuer_entries:
  "distinct (map wa_rule_id (access_of_issuer issuer)) \<and>
   wa_rule_id ` set (access_of_issuer issuer) = {i. validate_provider_id i} \<inter> wr_id ` set (ti_rules issuer) \<and>
   set (access_of_issuer issuer) \<subseteq> range (entry_of issuer (ti_rules issuer))"
proof -
  have inv: "distinct (map wa_rule_id (access_of_issuer issuer))"
    "wa_rule_id ` set (access_of_issuer issuer) = {i. validate_provider_id i \<and> (\<exists>r \<in> set (ti_rules issuer). wr_id r = i)}"
    "\<And>a. a \<in> set (access_of_issuer issuer) \<Longrightarrow> entry_of issuer (ti_rules issuer) (wa_rule_id a) = a"
    using access_of_issuer_inv by (auto simp only: access_inv_def)
  have "a \<in> range (entry_of issuer (ti_rules issuer))" if "a \<in> set (access_of_issuer issuer)" for a
    using inv(3) [OF that] by (metis rangeI)
  moreover have "{i. validate_provider_id i \<and> (\<exists>r \<in> set (ti_rules issuer). wr_id r = i)} =
      {i. validate_provider_id i} \<inter> wr_id ` set (ti_rules issuer)" by auto
  ultimately show ?thesis using inv(1,2) by (metis subsetI)
qed

section \<open>A demonstration\<close>

definition demo_rule :: workload_rule where
  "demo_rule = \<lparr>wr_id = ''r1'', wr_name = ''deploy'', wr_enabled = True,
     wr_claims = [\<lparr>wc_claim = ''kubernetes.io.namespace'', wc_pattern = ''prod-*''\<rparr>],
     wr_groups = [''ops''], wr_admin = False, wr_token_ttl_secs = 900\<rparr>"

definition demo_workload_claims :: claims where
  "demo_workload_claims = [(''sub'', JString ''x''), (''kubernetes.io'', JObject [(''namespace'', JString ''prod-eu'')])]"

lemma demo_match: "match_rule [demo_rule\<lparr>wr_claims := []\<rparr>, demo_rule] demo_workload_claims = Some demo_rule"
  by (simp add: match_rule_def demo_rule_def demo_workload_claims_def claim_matches_def lookup_claim_def Let_def
      MAX_CLAIM_PATH_PARTS_def glob_match_spec strip_prefix_def numeral_eq_Suc)

lemma matched_rule_meets_conditions_witness:
  "match_rule [demo_rule\<lparr>wr_claims := []\<rparr>, demo_rule] demo_workload_claims = Some demo_rule \<and>
   (\<exists>names v. join_on ''.'' names = ''kubernetes.io.namespace'' \<and> reaches demo_workload_claims names v \<and>
     (\<exists>s \<in> texts v. glob_spec ''prod-*'' s))"
  using matched_rule_meets_conditions [OF demo_match] demo_match by (simp add: demo_rule_def)

end
