(* ===== verification/TokenVerify.thy ===== *)
theory TokenVerify
  imports Workload LoginFlow
begin

text \<open>
  Verification of tokens presented for token exchange,
  \<^verbatim>\<open>auth/server/src/provider/token_exchange.rs\<close>. The crate \<^verbatim>\<open>openidconnect\<close> is
  the parameter \<open>token_lib\<close>: parsing a token, and checking its signature, issuer, audience and
  expiry at a time under keys and a set of algorithms; so are base64 with the JSON parser, and the
  value of a number which is no integer.
\<close>

section \<open>Keys and the library\<close>

definition MAX_SUBJECT_TOKEN_LENGTH :: nat where "MAX_SUBJECT_TOKEN_LENGTH = 16 * 1024"
definition CLOCK_SKEW_TOLERANCE_SECS :: int where "CLOCK_SKEW_TOLERANCE_SECS = 60"

definition ASYMMETRIC_ALGS :: "string list" where
  "ASYMMETRIC_ALGS = [''RS256'', ''RS384'', ''RS512'', ''ES256'', ''ES384'', ''ES512'',
     ''PS256'', ''PS384'', ''PS512'', ''EdDSA'']"

record 'o token_keys =
  tk_issuer :: string
  tk_jwks :: 'o
  tk_signing_algs :: "string list"

record id_claims =
  ic_subject :: string
  ic_issue_time :: int
  ic_access_token_hash :: "string option"
  ic_preferred_username :: "string option"
  ic_name :: "string option"
  ic_email :: "string option"
  ic_picture :: "string option"
  ic_username :: "string option"     \<comment> \<open>the additional claims of \<open>UsernameAdditionalClaims\<close>\<close>
  ic_extra :: claims

record 'o token_lib =
  tl_parse :: "string \<Rightarrow> 'o option"
  tl_claims :: "'o token_keys \<Rightarrow> string \<Rightarrow> (string \<Rightarrow> bool) \<Rightarrow> 'o \<Rightarrow> unix_secs \<Rightarrow> id_claims option"
  tl_payload :: "string \<Rightarrow> claims option"
  tl_f64 :: "string \<Rightarrow> int"          \<comment> \<open>of a number's text as a float, truncated\<close>

definition keys_new :: "string \<Rightarrow> 'o \<Rightarrow> 'o token_keys" where
  "keys_new issuer jwks = \<lparr>tk_issuer = issuer, tk_jwks = jwks, tk_signing_algs = ASYMMETRIC_ALGS\<rparr>"

definition is_asymmetric :: "string \<Rightarrow> bool" where
  "is_asymmetric alg \<longleftrightarrow> alg \<in> set ASYMMETRIC_ALGS"

text \<open>From the issuer, the keys and the algorithms the provider's metadata advertises.\<close>

definition keys_from_metadata :: "string \<Rightarrow> 'o \<Rightarrow> string list \<Rightarrow> 'o token_keys" where
  "keys_from_metadata issuer jwks algs =
     \<lparr>tk_issuer = issuer, tk_jwks = jwks, tk_signing_algs = filter is_asymmetric algs\<rparr>"

section \<open>Numbers\<close>

definition i64_max :: int where "i64_max = 2 ^ 63 - 1"
definition i64_min :: int where "i64_min = - (2 ^ 63)"

definition i64_clamp :: "int \<Rightarrow> int" where
  "i64_clamp x = max i64_min (min i64_max x)"

fun digits_value :: "nat \<Rightarrow> string \<Rightarrow> nat option" where
  "digits_value n [] = Some n"
| "digits_value n (c # s) = (if is_ascii_digit c then digits_value (10 * n + (byte c - 48)) s else None)"

definition as_int :: "string \<Rightarrow> int option" where
  "as_int text = (case text of
     [] \<Rightarrow> None
   | c # s \<Rightarrow>
       if c = CHR ''-'' then (if s = [] then None else map_option (\<lambda>n. - int n) (digits_value 0 s))
       else map_option int (digits_value 0 text))"

definition as_i64 :: "json \<Rightarrow> int option" where
  "as_i64 v = (case v of
     JNumber text \<Rightarrow> (case as_int text of Some i \<Rightarrow> if i64_min \<le> i \<and> i \<le> i64_max then Some i else None | None \<Rightarrow> None)
   | _ \<Rightarrow> None)"

definition as_u64 :: "json \<Rightarrow> nat option" where
  "as_u64 v = (case v of
     JNumber text \<Rightarrow> (case as_int text of Some i \<Rightarrow> if 0 \<le> i \<and> i < 2 ^ 64 then Some (nat i) else None | None \<Rightarrow> None)
   | _ \<Rightarrow> None)"

definition as_f64_to_i64 :: "'o token_lib \<Rightarrow> json \<Rightarrow> int option" where
  "as_f64_to_i64 L v = (case v of JNumber text \<Rightarrow> Some (i64_clamp (tl_f64 L text)) | _ \<Rightarrow> None)"

section \<open>Payloads, before anything is verified\<close>

definition unverified_payload :: "'o token_lib \<Rightarrow> string \<Rightarrow> claims option" where
  "unverified_payload L token =
     (if MAX_SUBJECT_TOKEN_LENGTH < length token then None
      else case split_on CHR ''.'' token of
        [_, payload, _] \<Rightarrow> tl_payload L (trim_end_matches CHR ''='' payload)
      | _ \<Rightarrow> None)"

definition unverified_issuer :: "'o token_lib \<Rightarrow> string \<Rightarrow> string option" where
  "unverified_issuer L token = (case unverified_payload L token of
     None \<Rightarrow> None
   | Some p \<Rightarrow> (case map_of p ''iss'' of Some (JString s) \<Rightarrow> Some s | _ \<Rightarrow> None))"

definition is_security_event_token :: "'o token_lib \<Rightarrow> string \<Rightarrow> bool" where
  "is_security_event_token L token = (case unverified_payload L token of
     None \<Rightarrow> False | Some p \<Rightarrow> map_of p ''events'' \<noteq> None)"

definition issuers_match :: "string \<Rightarrow> string \<Rightarrow> bool" where
  "issuers_match a b \<longleftrightarrow> (let a' = trim_end_matches CHR ''/'' a; b' = trim_end_matches CHR ''/'' b in
     a' \<noteq> [] \<and> a' = b')"

definition timestamp_claim :: "'o token_lib \<Rightarrow> claims \<Rightarrow> string \<Rightarrow> nat option" where
  "timestamp_claim L p claim = (case map_of p claim of
     None \<Rightarrow> None
   | Some v \<Rightarrow> (case as_u64 v of
       Some n \<Rightarrow> Some n
     | None \<Rightarrow> (case as_i64 v of
         Some _ \<Rightarrow> Some 0
       | None \<Rightarrow> (case v of JNumber text \<Rightarrow> Some (min (nat (tl_f64 L text)) u64_max) | _ \<Rightarrow> None))))"

definition authenticated_at_from :: "'o token_lib \<Rightarrow> claims \<Rightarrow> unix_secs \<Rightarrow> unix_secs option" where
  "authenticated_at_from L p now =
     map_option (\<lambda>t. min t now)
       (case timestamp_claim L p ''auth_time'' of Some t \<Rightarrow> Some t | None \<Rightarrow> timestamp_claim L p ''iat'')"

definition token_authenticated_at :: "'o token_lib \<Rightarrow> unix_secs \<Rightarrow> string \<Rightarrow> unix_secs option" where
  "token_authenticated_at L now token = (case unverified_payload L token of
     None \<Rightarrow> None | Some p \<Rightarrow> authenticated_at_from L p now)"

section \<open>Verification\<close>

datatype token_error =
    Too_Large | Not_A_Jwt | Security_Event | Not_Valid_Yet | From_The_Future | Too_Old
  | Was_Rejected | No_Audience | Not_An_Object

definition not_before_of :: "'o token_lib \<Rightarrow> string \<Rightarrow> int option" where
  "not_before_of L token = (case unverified_payload L token of
     None \<Rightarrow> None
   | Some p \<Rightarrow> (case map_of p ''nbf'' of
       None \<Rightarrow> None
     | Some v \<Rightarrow> (case as_i64 v of Some i \<Rightarrow> Some i | None \<Rightarrow> as_f64_to_i64 L v)))"

definition check_not_before :: "'o token_lib \<Rightarrow> string \<Rightarrow> int \<Rightarrow> token_error + unit" where
  "check_not_before L token now = (case not_before_of L token of
     Some not_before \<Rightarrow>
       if i64_clamp (now + CLOCK_SKEW_TOLERANCE_SECS) < not_before then Inl Not_Valid_Yet else Inr ()
   | None \<Rightarrow> Inr ())"

definition check_token_age :: "int \<Rightarrow> int \<Rightarrow> nat \<Rightarrow> token_error + unit" where
  "check_token_age issued_at now max_age_secs =
     (if max_age_secs = 0 then Inr ()
      else let age = i64_clamp (now - issued_at) in
        if age < - CLOCK_SKEW_TOLERANCE_SECS then Inl From_The_Future
        else if min (int max_age_secs) i64_max < age then Inl Too_Old
        else Inr ())"

text \<open>The loop over the audiences which are not empty: the first one under which the token verifies.\<close>

fun verify_audiences ::
  "'o token_lib \<Rightarrow> 'o token_keys \<Rightarrow> string \<Rightarrow> 'o \<Rightarrow> (string \<Rightarrow> bool) \<Rightarrow> nat \<Rightarrow> unix_secs \<Rightarrow> bool \<Rightarrow>
   string list \<Rightarrow> token_error + id_claims" where
  "verify_audiences L keys raw token other max_age now rejected [] =
     Inl (if rejected then Was_Rejected else No_Audience)"
| "verify_audiences L keys raw token other max_age now rejected (audience # audiences) =
     (if audience = [] then verify_audiences L keys raw token other max_age now rejected audiences
      else case tl_claims L keys audience other token now of
        None \<Rightarrow> verify_audiences L keys raw token other max_age now True audiences
      | Some claims \<Rightarrow>
          if is_security_event_token L raw then Inl Security_Event
          else res_bind (check_not_before L raw (int now)) (\<lambda>_.
               res_bind (check_token_age (ic_issue_time claims) (int now) max_age) (\<lambda>_. Inr claims)))"

definition verify_token ::
  "'o token_lib \<Rightarrow> 'o token_keys \<Rightarrow> string \<Rightarrow> string list \<Rightarrow> string list \<Rightarrow> nat \<Rightarrow> unix_secs \<Rightarrow> token_error + id_claims" where
  "verify_token L keys token audiences trusted_other max_age now =
     (if MAX_SUBJECT_TOKEN_LENGTH < length token then Inl Too_Large
      else case tl_parse L token of
        None \<Rightarrow> Inl Not_A_Jwt
      | Some t \<Rightarrow> verify_audiences L keys token t (\<lambda>other. other \<in> set audiences \<or> other \<in> set trusted_other)
          max_age now False audiences)"

definition verify_payload ::
  "'o token_lib \<Rightarrow> 'o token_keys \<Rightarrow> string \<Rightarrow> string list \<Rightarrow> nat \<Rightarrow> unix_secs \<Rightarrow> token_error + claims" where
  "verify_payload L keys token audiences max_age now =
     res_bind (verify_token L keys token audiences [] max_age now) (\<lambda>_.
       ok_or Not_An_Object (unverified_payload L token))"

section \<open>What verifies\<close>

text \<open>Keys as the code makes them.\<close>

definition keys_ok :: "'o token_keys \<Rightarrow> bool" where
  "keys_ok keys \<longleftrightarrow> set (tk_signing_algs keys) \<subseteq> set ASYMMETRIC_ALGS"

lemma keys_ok_made [simp]: "keys_ok (keys_new issuer jwks)" "keys_ok (keys_from_metadata issuer jwks algs)"
  by (auto simp: keys_ok_def keys_new_def keys_from_metadata_def is_asymmetric_def)

definition token_current :: "'o token_lib \<Rightarrow> string \<Rightarrow> int \<Rightarrow> nat \<Rightarrow> int \<Rightarrow> bool" where
  "token_current L token issued max_age now \<longleftrightarrow>
     (\<forall>nbf. not_before_of L token = Some nbf \<longrightarrow> nbf \<le> now + 60) \<and>
     (max_age \<noteq> 0 \<longrightarrow> issued \<le> now + 60 \<and> i64_clamp (now - issued) \<le> int max_age)"

lemma i64_clamp_le: "i64_min \<le> x \<Longrightarrow> i64_clamp x \<le> x"
  by (simp add: i64_clamp_def)

lemma check_not_before_ok:
  assumes "check_not_before L token now = Inr ()" "not_before_of L token = Some nbf" "0 \<le> now"
  shows "nbf \<le> now + 60"
proof -
  have "nbf \<le> i64_clamp (now + 60)"
    using assms(1,2) by (auto simp: check_not_before_def CLOCK_SKEW_TOLERANCE_SECS_def split: if_splits)
  also have "\<dots> \<le> now + 60" using assms(3) by (intro i64_clamp_le) (simp add: i64_min_def)
  finally show ?thesis .
qed

lemma check_token_age_ok:
  assumes "check_token_age issued now max_age = Inr ()" "max_age \<noteq> 0"
  shows "issued \<le> now + 60 \<and> i64_clamp (now - issued) \<le> int max_age"
  using assms
  by (auto simp: check_token_age_def CLOCK_SKEW_TOLERANCE_SECS_def Let_def i64_clamp_def i64_min_def
      i64_max_def split: if_splits)

lemma verify_audiences_ok:
  assumes "verify_audiences L keys raw token other max_age now rejected audiences = Inr claims"
  shows "\<exists>audience \<in> set audiences. audience \<noteq> [] \<and> tl_claims L keys audience other token now = Some claims"
    and "\<not> is_security_event_token L raw \<and> token_current L raw (ic_issue_time claims) max_age (int now)"
proof -
  have "(\<exists>audience \<in> set audiences. audience \<noteq> [] \<and> tl_claims L keys audience other token now = Some claims) \<and>
      \<not> is_security_event_token L raw \<and> check_not_before L raw (int now) = Inr () \<and>
      check_token_age (ic_issue_time claims) (int now) max_age = Inr ()"
    using assms
    by (induction L keys raw token other max_age now rejected audiences rule: verify_audiences.induct)
      (auto simp: res_bind_Inr_iff split: if_splits option.splits)
  then show "\<exists>audience \<in> set audiences. audience \<noteq> [] \<and> tl_claims L keys audience other token now = Some claims"
    "\<not> is_security_event_token L raw \<and> token_current L raw (ic_issue_time claims) max_age (int now)"
    using check_not_before_ok [of L raw "int now"] check_token_age_ok [of "ic_issue_time claims" "int now" max_age]
    by (auto simp: token_current_def)
qed

text \<open>
  C14: What a token accepted for exchange has shown, whatever the provider advertises and however
  many audiences are tried: it is at most 16 KiB; the library verified it, at this time and with
  asymmetric algorithms only, as issued to one of the accepted audiences, with any further audience
  a configured one; it is no security event (logout) token; it is valid already, within a minute;
  and it is no older than the limit, and not from the future, when there is one.
\<close>

theorem exchanged_token_verified:
  assumes "verify_token L keys token audiences trusted_other max_age now = Inr claims"
    and "keys = keys_new issuer jwks \<or> keys = keys_from_metadata issuer jwks advertised"
  shows "length token \<le> 16384 \<and> (\<exists>t audience. tl_parse L token = Some t \<and> audience \<in> set audiences \<and> audience \<noteq> [] \<and>
      tl_claims L keys audience (\<lambda>other. other \<in> set audiences \<or> other \<in> set trusted_other) t now = Some claims) \<and>
    set (tk_signing_algs keys) \<subseteq> set ASYMMETRIC_ALGS \<and> ''HS256'' \<notin> set (tk_signing_algs keys) \<and>
    \<not> is_security_event_token L token \<and> token_current L token (ic_issue_time claims) max_age (int now)"
proof -
  obtain t where t: "length token \<le> MAX_SUBJECT_TOKEN_LENGTH" "tl_parse L token = Some t"
    and ok: "verify_audiences L keys token t (\<lambda>other. other \<in> set audiences \<or> other \<in> set trusted_other)
        max_age now False audiences = Inr claims"
    using assms(1) by (auto simp: verify_token_def split: if_splits option.splits)
  have algs: "set (tk_signing_algs keys) \<subseteq> set ASYMMETRIC_ALGS"
    using assms(2) keys_ok_made unfolding keys_ok_def by metis
  moreover have "''HS256'' \<notin> set ASYMMETRIC_ALGS" by (simp add: ASYMMETRIC_ALGS_def)
  ultimately have "''HS256'' \<notin> set (tk_signing_algs keys)" by blast
  moreover have "length token \<le> 16384" using t(1) by (simp add: MAX_SUBJECT_TOKEN_LENGTH_def)
  ultimately show ?thesis using t(2) algs verify_audiences_ok [OF ok] by blast
qed

section \<open>A demonstration\<close>

text \<open>A library which knows the token of one subject, issued at 1000 to the audience \<open>app\<close>.\<close>

definition demo_id_claims :: id_claims where
  "demo_id_claims = \<lparr>ic_subject = ''ann'', ic_issue_time = 1000, ic_access_token_hash = None,
     ic_preferred_username = None, ic_name = None, ic_email = None, ic_picture = None, ic_username = None, ic_extra = []\<rparr>"

definition demo_token_lib :: "string token_lib" where
  "demo_token_lib = \<lparr>tl_parse = Some,
     tl_claims = (\<lambda>keys audience other token now.
       if ''RS256'' \<in> set (tk_signing_algs keys) \<and> audience = ''app'' \<and> now < 2000 then Some demo_id_claims else None),
     tl_payload = (\<lambda>p. Some [(''iss'', JString ''https://idp''), (''sub'', JString ''ann''), (''nbf'', JNumber ''1000'')]),
     tl_f64 = (\<lambda>_. 0)\<rparr>"

lemma demo_verifies:
  "verify_token demo_token_lib (keys_new ''https://idp'' ''k'') ''h.p.s'' [[], ''cli'', ''app''] [] 300 1100 = Inr demo_id_claims"
  by (simp add: verify_token_def demo_token_lib_def demo_id_claims_def keys_new_def ASYMMETRIC_ALGS_def
      MAX_SUBJECT_TOKEN_LENGTH_def is_security_event_token_def unverified_payload_def check_not_before_def
      not_before_of_def as_i64_def as_int_def is_ascii_digit_def i64_clamp_def i64_min_def i64_max_def
      CLOCK_SKEW_TOLERANCE_SECS_def check_token_age_def)

lemma exchanged_token_verified_witness:
  "verify_token demo_token_lib (keys_new ''https://idp'' ''k'') ''h.p.s'' [[], ''cli'', ''app''] [] 300 1100 = Inr demo_id_claims \<and>
   token_current demo_token_lib ''h.p.s'' 1000 300 1100"
  using exchanged_token_verified [OF demo_verifies disjI1 [OF refl]] demo_verifies
  by (simp add: demo_id_claims_def)

end
