(* ===== verification/Oidc.thy ===== *)
theory Oidc
  imports TokenVerify Validations LoginDemo "HOL-Library.List_Lexorder" "HOL-Library.Char_ord"
begin

text \<open>
  Logins through an OpenID provider, \<^verbatim>\<open>auth/server/src/provider/oidc.rs\<close>: the validation
  of a login's tokens, the groups of the user and what they allow, and the name a new user is given.
  The crate \<^verbatim>\<open>openidconnect\<close> with its requests to the provider is the parameter
  \<open>oidc_client\<close>; responses and tokens are opaque values.
\<close>

section \<open>The provider\<close>

record ('w, 'o) oidc_client =
  ol_exchange_code :: "string \<Rightarrow> string \<Rightarrow> ('w, 'o) callback"     \<comment> \<open>code, PKCE verifier\<close>
  ol_id_token :: "'o \<Rightarrow> 'o option"
  ol_login_claims :: "(string \<Rightarrow> bool) \<Rightarrow> string \<Rightarrow> 'o \<Rightarrow> 'w \<Rightarrow> id_claims option"
    \<comment> \<open>which other audiences are trusted, nonce, ID token\<close>
  ol_access_token_hash :: "'o \<Rightarrow> 'o \<Rightarrow> failure + string"         \<comment> \<open>response, ID token\<close>
  ol_user_info :: "'o \<Rightarrow> string \<Rightarrow> 'w \<Rightarrow> id_claims option \<times> 'w"  \<comment> \<open>response, subject\<close>

record ('w, 'o) oidc_provider =
  op_client :: "('w, 'o) oidc_client"
  op_additional_audiences :: "string list"
  op_use_full_email :: bool
  op_verification_keys :: "'o token_keys"

record oidc_login_info =
  oi_subject :: string
  oi_groups :: "string list option"
  oi_admin :: "bool option"

definition oidc_login_info_new :: "oidc_config \<Rightarrow> string \<Rightarrow> string list option \<Rightarrow> oidc_login_info" where
  "oidc_login_info_new config subject groups = \<lparr>oi_subject = subject, oi_groups = groups,
     oi_admin = (if oc_admin_groups config = [] then None
       else map_option (list_ex (\<lambda>g. g \<in> set (oc_admin_groups config))) groups)\<rparr>"

definition check_allowed_groups :: "oidc_config \<Rightarrow> oidc_login_info \<Rightarrow> failure + unit" where
  "check_allowed_groups config info =
     (if oc_allowed_groups config = [] then Inr ()
      else case oi_groups info of
        None \<Rightarrow> Inl (Failure UNAUTHORIZED (Some ''Provider did not send user groups, which are required for login. The groups scope or claim may be misconfigured.''))
      | Some groups \<Rightarrow>
          if list_ex (\<lambda>g. g \<in> set (oc_allowed_groups config) \<or> g \<in> set (oc_admin_groups config)) groups
          then Inr ()
          else Inl (Failure UNAUTHORIZED (Some ''User is not a member of any allowed group'')))"

text \<open>The scopes requested on top of the standard ones.\<close>

definition additional_scope_step :: "string \<Rightarrow> string list \<Rightarrow> string list" where
  "additional_scope_step scope scopes =
     (if scope \<noteq> [] \<and> scope \<notin> {''openid'', ''profile'', ''email''} \<and> scope \<notin> set scopes
      then scopes @ [scope] else scopes)"

definition additional_scopes :: "oidc_config \<Rightarrow> string list option \<Rightarrow> string list" where
  "additional_scopes config scopes_supported =
     (let scopes = fold additional_scope_step (oc_additional_scopes config) [];
          supported = (case scopes_supported of None \<Rightarrow> False | Some ss \<Rightarrow> ''groups'' \<in> set ss) in
      if oidc_groups_claim config = Some ''groups'' \<and> supported \<and> ''groups'' \<notin> set scopes
      then scopes @ [''groups''] else scopes)"

section \<open>Groups\<close>

text \<open>\<open>value.get(key)\<close>: a member of an object.\<close>

definition json_get :: "string \<Rightarrow> json \<Rightarrow> json option" where
  "json_get key v = (case v of JObject members \<Rightarrow> map_of members key | _ \<Rightarrow> None)"

fun json_path :: "json \<Rightarrow> string list \<Rightarrow> json option" where
  "json_path v [] = Some v"
| "json_path v (key # path) = (case json_get key v of None \<Rightarrow> None | Some v' \<Rightarrow> json_path v' path)"

definition groups_value :: "claims \<Rightarrow> string \<Rightarrow> json option" where
  "groups_value claims claim = (case map_of claims claim of
     Some v \<Rightarrow> Some v
   | None \<Rightarrow> (case split_on CHR ''.'' claim of
       [] \<Rightarrow> None
     | first # path \<Rightarrow> (case map_of claims first of None \<Rightarrow> None | Some v \<Rightarrow> json_path v path)))"

fun all_strings :: "json list \<Rightarrow> string list option" where
  "all_strings [] = Some []"
| "all_strings (JString s # vs) = map_option ((#) s) (all_strings vs)"
| "all_strings (_ # vs) = None"

definition extract_groups :: "claims \<Rightarrow> string \<Rightarrow> string list option" where
  "extract_groups claims claim = (case groups_value claims claim of
     Some (JString g) \<Rightarrow> Some [g]
   | Some (JArray values) \<Rightarrow> map_option (\<lambda>groups. remdups_adj (sort groups)) (all_strings values)
   | _ \<Rightarrow> None)"

section \<open>Validating a login\<close>

definition trusts_audience :: "('w, 'o) oidc_provider \<Rightarrow> string \<Rightarrow> bool" where
  "trusts_audience P aud \<longleftrightarrow>
     (if op_additional_audiences P = [] then False else aud \<in> set (op_additional_audiences P))"

definition id_token_claims :: "('w, 'o) oidc_provider \<Rightarrow> string \<Rightarrow> 'o \<Rightarrow> 'w \<Rightarrow> id_claims option" where
  "id_token_claims P nonce id_token w = ol_login_claims (op_client P) (trusts_audience P) nonce id_token w"

definition user_info :: "('w, 'o) oidc_provider \<Rightarrow> string \<Rightarrow> 'o \<Rightarrow> ('w, 'o, id_claims option) flow" where
  "user_info P subject token s = (case ol_user_info (op_client P) token subject (ls_world s) of
     (info, w) \<Rightarrow> (Inr info, s\<lparr>ls_world := w\<rparr>))"

definition get_user_info_groups ::
  "('w, 'o) oidc_provider \<Rightarrow> string \<Rightarrow> 'o \<Rightarrow> string \<Rightarrow> ('w, 'o, string list option) flow" where
  "get_user_info_groups P subject token claim =
     and_then (user_info P subject token) (\<lambda>info. done_with (case info of
       None \<Rightarrow> None | Some ui \<Rightarrow> extract_groups (ic_extra ui) claim))"

definition check_access_token ::
  "('w, 'o) oidc_provider \<Rightarrow> id_claims \<Rightarrow> 'o \<Rightarrow> 'o \<Rightarrow> ('w, 'o, unit) flow" where
  "check_access_token P claims token id_token = (case ic_access_token_hash claims of
     None \<Rightarrow> done_with ()
   | Some expected \<Rightarrow> and_then (from_result (ol_access_token_hash (op_client P) token id_token)) (\<lambda>actual.
       if actual \<noteq> expected then refuse INTERNAL_SERVER_ERROR ''Invalid access token'' else done_with ()))"

definition login_groups ::
  "('w, 'o) oidc_provider \<Rightarrow> oidc_config \<Rightarrow> id_claims \<Rightarrow> 'o \<Rightarrow> ('w, 'o, string list option) flow" where
  "login_groups P config claims token = (case oidc_groups_claim config of
     None \<Rightarrow> done_with None
   | Some claim \<Rightarrow> (case extract_groups (ic_extra claims) claim of
       Some groups \<Rightarrow> done_with (Some groups)
     | None \<Rightarrow> get_user_info_groups P (ic_subject claims) token claim))"

definition validate_extract_login_info_and_token ::
  "('w, 'o) oidc_provider \<Rightarrow> oidc_config \<Rightarrow> string \<times> string \<Rightarrow> string \<Rightarrow> string \<Rightarrow> string \<Rightarrow>
   ('w, 'o, oidc_login_info \<times> 'o) flow" where
  "validate_extract_login_info_and_token P config = (\<lambda>(client, server) code pkce_verifier nonce.
     if \<not> constant_time_eq client server then refuse INTERNAL_SERVER_ERROR ''CSRF token invalid''
     else and_then (call (ol_exchange_code (op_client P) code pkce_verifier)) (\<lambda>token.
     and_then (required INTERNAL_SERVER_ERROR ''OIDC Server did not return an ID token'' (ol_id_token (op_client P) token)) (\<lambda>id_token.
     and_then (asking (id_token_claims P nonce id_token)) (\<lambda>verified.
     and_then (required UNAUTHORIZED
       ''Failed to verify token claims. This issue may be temporary (60 seconds max).'' verified) (\<lambda>claims.
     and_then (check_access_token P claims token id_token) (\<lambda>_.
     and_then (login_groups P config claims token) (\<lambda>groups.
     let info = oidc_login_info_new config (ic_subject claims) groups in
     and_then (from_result (check_allowed_groups config info)) (\<lambda>_. done_with (info, token)))))))))"

text \<open>A token presented for exchange.\<close>

definition oidc_verify_exchange_token ::
  "'o token_lib \<Rightarrow> ('w, 'o) oidc_provider \<Rightarrow> oidc_config \<Rightarrow> token_exchange_config \<Rightarrow> string \<Rightarrow> unix_secs \<Rightarrow>
   failure + oidc_login_info" where
  "oidc_verify_exchange_token L P config exchange token now =
     (case verify_token L (op_verification_keys P) token (oc_client_id config # tx_audiences exchange)
        (oc_additional_audiences config) (tx_max_token_age_secs exchange) now of
        Inl _ \<Rightarrow> Inl (Failure BAD_REQUEST None)
      | Inr claims \<Rightarrow>
          (let groups = (case oidc_groups_claim config of None \<Rightarrow> None | Some claim \<Rightarrow> extract_groups (ic_extra claims) claim);
               info = oidc_login_info_new config (ic_subject claims) groups in
           res_bind (check_allowed_groups config info) (\<lambda>_. Inr info)))"

section \<open>Usernames\<close>

fun first_some :: "'a option list \<Rightarrow> 'a option" where
  "first_some [] = None"
| "first_some (Some x # xs) = Some x"
| "first_some (None # xs) = first_some xs"

text \<open>A field of the ID token's claims, else of the user info.\<close>

definition of_either :: "(id_claims \<Rightarrow> 'a option) \<Rightarrow> id_claims option \<Rightarrow> id_claims option \<Rightarrow> 'a option" where
  "of_either f ic ui = first_some [Option.bind ic f, Option.bind ui f]"

definition email_name :: "string \<Rightarrow> string" where
  "email_name email = (case split_once CHR ''@'' email of Some (name, _) \<Rightarrow> name | None \<Rightarrow> email)"

definition token_id_claims :: "('w, 'o) oidc_provider \<Rightarrow> 'o \<Rightarrow> string \<Rightarrow> ('w, 'o, id_claims option) flow" where
  "token_id_claims P token nonce = asking (\<lambda>w. case ol_id_token (op_client P) token of
     None \<Rightarrow> None | Some id_token \<Rightarrow> id_token_claims P nonce id_token w)"

definition get_username_prioritize_email ::
  "('w, 'o) oidc_provider \<Rightarrow> string \<Rightarrow> 'o \<Rightarrow> string \<Rightarrow> ('w, 'o, string) flow" where
  "get_username_prioritize_email P subject token nonce =
     and_then (token_id_claims P token nonce) (\<lambda>ic. case Option.bind ic ic_email of
       Some email \<Rightarrow> done_with email
     | None \<Rightarrow> and_then (user_info P subject token) (\<lambda>ui.
         done_with (case first_some [Option.bind ui ic_email, of_either ic_preferred_username ic ui,
             of_either ic_username ic ui, of_either ic_name ic ui] of
           Some name \<Rightarrow> name | None \<Rightarrow> subject)))"

definition get_username ::
  "('w, 'o) oidc_provider \<Rightarrow> string \<Rightarrow> 'o \<Rightarrow> string \<Rightarrow> ('w, 'o, string) flow" where
  "get_username P subject token nonce =
     (if op_use_full_email P then get_username_prioritize_email P subject token nonce
      else and_then (token_id_claims P token nonce) (\<lambda>ic. case Option.bind ic ic_preferred_username of
        Some name \<Rightarrow> done_with name
      | None \<Rightarrow> and_then (user_info P subject token) (\<lambda>ui.
          done_with (case first_some [Option.bind ui ic_preferred_username, of_either ic_username ic ui,
              of_either ic_name ic ui, map_option email_name (of_either ic_email ic ui)] of
            Some name \<Rightarrow> name | None \<Rightarrow> subject))))"

section \<open>Who gets in\<close>

text \<open>What the groups allow; without any configured everybody is allowed.\<close>

definition groups_allow :: "oidc_config \<Rightarrow> oidc_login_info \<Rightarrow> bool" where
  "groups_allow config info \<longleftrightarrow> oc_allowed_groups config = [] \<or>
     (\<exists>groups. oi_groups info = Some groups \<and>
        set groups \<inter> (set (oc_allowed_groups config) \<union> set (oc_admin_groups config)) \<noteq> {})"

lemma check_allowed_groups_iff: "check_allowed_groups config info = Inr () \<longleftrightarrow> groups_allow config info"
  by (auto simp: check_allowed_groups_def groups_allow_def list_ex_iff split: option.splits)

lemma user_info_ok: "user_info P subject token s = (Inr x, s') \<Longrightarrow> ls_session s' = ls_session s"
  by (auto simp: user_info_def split: prod.splits)

section \<open>A demonstration\<close>

text \<open>A provider which redeems one code for a token whose ID token names the user in a group.\<close>

definition demo_oidc_config :: oidc_config where
  "demo_oidc_config = \<lparr>oc_enabled = True, oc_provider = ''https://idp'', oc_redirect_host = [],
     oc_client_id = ''app'', oc_client_secret = ''s'', oc_use_full_email = False, oc_additional_audiences = [],
     oc_auto_redirect = False, oc_additional_scopes = [], oc_groups_claim = [], oc_allowed_groups = [''ops''],
     oc_admin_groups = []\<rparr>"

definition demo_oidc :: "(nat, demo_value) oidc_provider" where
  "demo_oidc = \<lparr>op_client = \<lparr>
       ol_exchange_code = (\<lambda>code verifier w. (if code = ''code'' \<and> verifier = ''v'' then Inr (V4 0, 7) else Inl (Failure INTERNAL_SERVER_ERROR None), w)),
       ol_id_token = (\<lambda>t. Some t),
       ol_login_claims = (\<lambda>_ nonce t w. if nonce = ''n'' \<and> snd t = 7
         then Some \<lparr>ic_subject = ''ann'', ic_issue_time = 1000, ic_access_token_hash = Some ''h'', ic_preferred_username = Some ''ann'',
           ic_name = None, ic_email = None, ic_picture = None, ic_username = None, ic_extra = [(''groups'', JArray [JString ''ops''])]\<rparr> else None),
       ol_access_token_hash = (\<lambda>_ _. Inr ''h''), ol_user_info = (\<lambda>_ _ w. (None, w))\<rparr>,
     op_additional_audiences = [], op_use_full_email = False,
     op_verification_keys = keys_new ''https://idp'' (V4 0, 0)\<rparr>"

lemma demo_oidc_login:
  "validate_extract_login_info_and_token demo_oidc demo_oidc_config (''state'', ''state'') ''code'' ''v'' ''n'' demo_state =
     (Inr (\<lparr>oi_subject = ''ann'', oi_groups = Some [''ops''], oi_admin = None\<rparr>, (V4 0, 7)), demo_state)"
  by (simp add: validate_extract_login_info_and_token_def flow_steps demo_oidc_def demo_oidc_config_def id_token_claims_def
      check_access_token_def login_groups_def oidc_groups_claim_def extract_groups_def groups_value_def
      oidc_login_info_new_def check_allowed_groups_def Let_def)

end
