(* ===== verification/OidcProps.thy ===== *)
theory OidcProps
  imports Oidc
begin

text \<open>
  Who an OpenID login lets in (\<^verbatim>\<open>auth/server/src/provider/oidc.rs\<close>): what the claims of the
  provider say about the groups of a user, as relations of their own, and that a login goes by them.
\<close>

section \<open>The groups a provider names\<close>

text \<open>A value inside another one, under a path of member names.\<close>

inductive claim_found_at :: "json \<Rightarrow> string list \<Rightarrow> json \<Rightarrow> bool" where
  Here: "claim_found_at v [] v"
| Member: "map_of members k = Some v \<Longrightarrow> claim_found_at v ks w \<Longrightarrow> claim_found_at (JObject members) (k # ks) w"

inductive_simps value_at_Nil: "claim_found_at v [] w"
inductive_simps value_at_Cons: "claim_found_at v (k # ks) w"

text \<open>
  The value of a claim: the claim of that very name, and when there is none the value its parts,
  separated by dots, lead to.
\<close>

definition claim_value :: "claims \<Rightarrow> string \<Rightarrow> json \<Rightarrow> bool" where
  "claim_value claims claim v \<longleftrightarrow>
     map_of claims claim = Some v \<or>
     claim \<notin> fst ` set claims \<and>
     (\<exists>keys. keys \<noteq> [] \<and> (\<forall>k \<in> set keys. CHR ''.'' \<notin> set k) \<and> claim = join_on ''.'' keys \<and>
        claim_found_at (JObject claims) keys v)"

text \<open>A value names groups when it is one text, or an array of nothing but texts.\<close>

inductive value_groups :: "json \<Rightarrow> string set \<Rightarrow> bool" where
  One: "value_groups (JString g) {g}"
| Many: "value_groups (JArray (map JString gs)) (set gs)"

definition names_groups :: "claims \<Rightarrow> string \<Rightarrow> string set \<Rightarrow> bool" where
  "names_groups claims claim G \<longleftrightarrow> (\<exists>v. claim_value claims claim v \<and> value_groups v G)"

lemma json_path_iff: "json_path v ks = Some w \<longleftrightarrow> claim_found_at v ks w"
proof (induction ks arbitrary: v)
  case (Cons k ks)
  then show ?case by (cases v) (auto simp: json_get_def value_at_Cons split: option.splits)
qed (auto simp: value_at_Nil)

lemma groups_value_iff: "groups_value claims claim = Some v \<longleftrightarrow> claim_value claims claim v"
proof -
  have parts: "(\<exists>keys. keys \<noteq> [] \<and> (\<forall>k \<in> set keys. CHR ''.'' \<notin> set k) \<and> claim = join_on ''.'' keys \<and>
      claim_found_at (JObject claims) keys v) \<longleftrightarrow> claim_found_at (JObject claims) (split_on CHR ''.'' claim) v"
    using split_on_join_on [of _ "CHR ''.''"] split_on_parts [of _ "CHR ''.''" claim] join_on_split_on [of "CHR ''.''" claim]
    by (metis split_on_nonempty)
  obtain first path where sp: "split_on CHR ''.'' claim = first # path"
    by (cases "split_on CHR ''.'' claim") auto
  show ?thesis
    unfolding claim_value_def parts sp map_of_eq_None_iff [symmetric]
    by (auto simp: groups_value_def sp value_at_Cons json_path_iff split: option.splits)
qed

lemma all_strings_iff: "all_strings vs = Some gs \<longleftrightarrow> vs = map JString gs"
proof (induction vs arbitrary: gs)
  case (Cons v vs)
  then show ?case by (cases v; cases gs) auto
qed auto

lemma names_groups_iff: "names_groups claims claim G \<longleftrightarrow> (\<exists>gs. extract_groups claims claim = Some gs \<and> G = set gs)"
  unfolding names_groups_def extract_groups_def
  by (auto simp flip: groups_value_iff simp: all_strings_iff value_groups.simps split: option.splits json.splits)

text \<open>
  The groups of a user in a login: nothing when none are asked for, what the claims of the ID token
  name, and when they name none what the user info the provider gives for their subject names.
  They are asked for when a claim for them or any allowed or admin group is configured, under
  ''groups'' when no claim is.
\<close>

definition asked_claim :: "oidc_config \<Rightarrow> string \<Rightarrow> bool" where
  "asked_claim config claim \<longleftrightarrow>
     (oc_groups_claim config \<noteq> [] \<or> oc_allowed_groups config \<noteq> [] \<or> oc_admin_groups config \<noteq> []) \<and>
     claim = (if oc_groups_claim config = [] then ''groups'' else oc_groups_claim config)"

definition login_info_groups ::
  "('w, 'o) oidc_provider \<Rightarrow> oidc_config \<Rightarrow> id_claims \<Rightarrow> 'o \<Rightarrow> 'w \<Rightarrow> string set \<Rightarrow> bool" where
  "login_info_groups P config claims token w G \<longleftrightarrow> (\<exists>claim. asked_claim config claim \<and>
     (names_groups (ic_extra claims) claim G \<or>
      (\<nexists>H. names_groups (ic_extra claims) claim H) \<and>
      (\<exists>ui. fst (ol_user_info (op_client P) token (ic_subject claims) w) = Some ui \<and> names_groups (ic_extra ui) claim G)))"

lemma asked_claim_iff: "asked_claim config claim \<longleftrightarrow> oidc_groups_claim config = Some claim"
  by (auto simp: asked_claim_def oidc_groups_claim_def)

lemma login_groups_named:
  assumes "login_groups P config claims token s = (Inr groups, s')"
  shows "login_info_groups P config claims token (ls_world s) G \<longleftrightarrow> (\<exists>gs. groups = Some gs \<and> G = set gs)"
  using assms
  unfolding login_info_groups_def asked_claim_iff names_groups_iff login_groups_def get_user_info_groups_def user_info_def
  by (auto simp: and_then_ok done_with_def split: option.splits prod.splits)

section \<open>Who gets in\<close>

text \<open>
  C13: Who an OpenID login lets in: the state the client came back with is the one stored; the ID token
  is the one the code was redeemed for, verified under the nonce of this login, and the user is its
  subject; an access token it vouches for is the one received. The groups reported are the ones the
  configured claim of that ID token names, by its own name or along its dots, or those of the user
  info of its subject when the token names none. When allowed groups are configured the user is in
  an allowed or an admin group: without any group information nobody is let in then. When admin
  groups are configured and groups are known, the user is reported as an admin exactly when in one of
  them; otherwise nothing is reported.
\<close>

theorem oidc_login_gated:
  assumes "validate_extract_login_info_and_token P config (client, server) code pkce_verifier nonce s = (Inr (info, token), s')"
  shows "client = server \<and>
    (\<exists>w id_token claims. fst (ol_exchange_code (op_client P) code pkce_verifier (ls_world s)) = Inr token \<and>
       w = snd (ol_exchange_code (op_client P) code pkce_verifier (ls_world s)) \<and>
       ol_id_token (op_client P) token = Some id_token \<and>
       ol_login_claims (op_client P) (trusts_audience P) nonce id_token w = Some claims \<and>
       oi_subject info = ic_subject claims \<and>
       (\<forall>h. ic_access_token_hash claims = Some h \<longrightarrow> ol_access_token_hash (op_client P) token id_token = Inr h) \<and>
       (\<forall>G. login_info_groups P config claims token w G \<longleftrightarrow> (\<exists>gs. oi_groups info = Some gs \<and> G = set gs)) \<and>
       (oc_allowed_groups config \<noteq> [] \<longrightarrow> (\<exists>G. login_info_groups P config claims token w G \<and>
          G \<inter> (set (oc_allowed_groups config) \<union> set (oc_admin_groups config)) \<noteq> {})) \<and>
       (\<forall>admin. oi_admin info = Some admin \<longleftrightarrow> oc_admin_groups config \<noteq> [] \<and>
          (\<exists>G. login_info_groups P config claims token w G \<and> admin = (G \<inter> set (oc_admin_groups config) \<noteq> {}))))"
proof -
  obtain id_token claims groups s1 s2 s3 where eq: "client = server"
    and ex: "call (ol_exchange_code (op_client P) code pkce_verifier) s = (Inr token, s1)"
    and idt: "ol_id_token (op_client P) token = Some id_token"
    and cl: "id_token_claims P nonce id_token (ls_world s1) = Some claims"
    and at: "check_access_token P claims token id_token s1 = (Inr (), s2)"
    and gr: "login_groups P config claims token s2 = (Inr groups, s3)"
    and info: "info = oidc_login_info_new config (ic_subject claims) groups"
    and allowed: "check_allowed_groups config info = Inr ()"
    using assms
    by (auto simp: validate_extract_login_info_and_token_def and_then_ok Let_def split: if_splits)
  have w: "fst (ol_exchange_code (op_client P) code pkce_verifier (ls_world s)) = Inr token"
    "ls_world s1 = snd (ol_exchange_code (op_client P) code pkce_verifier (ls_world s))"
    using ex by (auto simp: call_ok)
  have hash: "ol_access_token_hash (op_client P) token id_token = Inr h" if "ic_access_token_hash claims = Some h" for h
    using at that by (auto simp: check_access_token_def and_then_ok split: if_splits)
  have "s2 = s1" using at by (auto simp: check_access_token_def and_then_ok split: option.splits if_splits)
  from login_groups_named [OF gr, unfolded this]
  have named: "login_info_groups P config claims token (ls_world s1) G \<longleftrightarrow> (\<exists>gs. groups = Some gs \<and> G = set gs)" for G .
  have "oi_subject info = ic_subject claims" "oi_groups info = groups"
    by (simp_all add: info oidc_login_info_new_def)
  moreover have "oi_admin info = Some admin \<longleftrightarrow> oc_admin_groups config \<noteq> [] \<and>
      (\<exists>gs. groups = Some gs \<and> admin = (set gs \<inter> set (oc_admin_groups config) \<noteq> {}))" for admin
    by (auto simp: info oidc_login_info_new_def list_ex_iff)
  moreover have "oc_allowed_groups config \<noteq> [] \<longrightarrow> (\<exists>gs. groups = Some gs \<and>
      set gs \<inter> (set (oc_allowed_groups config) \<union> set (oc_admin_groups config)) \<noteq> {})"
    using allowed calculation(2) by (auto simp: check_allowed_groups_iff groups_allow_def)
  ultimately show ?thesis
    using eq idt cl hash w named unfolding id_token_claims_def
    by (intro conjI exI [of _ "ls_world s1"] exI [of _ id_token] exI [of _ claims]) auto
qed

text \<open>A login whose groups stand inside another claim, one of them of admins.\<close>

definition demo_nested_config :: oidc_config where
  "demo_nested_config = demo_oidc_config\<lparr>oc_groups_claim := ''realm.roles'', oc_admin_groups := [''root'']\<rparr>"

definition demo_nested_oidc :: "(nat, demo_value) oidc_provider" where
  "demo_nested_oidc = demo_oidc\<lparr>op_client := (op_client demo_oidc)\<lparr>
     ol_login_claims := (\<lambda>_ nonce t w. if nonce = ''n'' \<and> snd t = 7
         then Some \<lparr>ic_subject = ''ann'', ic_issue_time = 1000, ic_access_token_hash = Some ''h'', ic_preferred_username = Some ''ann'',
           ic_name = None, ic_email = None, ic_picture = None, ic_username = None,
           ic_extra = [(''groups'', JArray [JString ''ops'']),
             (''realm'', JObject [(''roles'', JArray [JString ''root'', JString ''dev'', JString ''root''])])]\<rparr> else None)\<rparr>\<rparr>"

lemma oidc_login_gated_witness:
  "\<exists>info s' claims. validate_extract_login_info_and_token demo_nested_oidc demo_nested_config
       (''state'', ''state'') ''code'' ''v'' ''n'' demo_state = (Inr (info, (V4 0, 7)), s') \<and>
     login_info_groups demo_nested_oidc demo_nested_config claims (V4 0, 7) (ls_world demo_state) {''root'', ''dev''} \<and>
     oi_groups info = Some [''dev'', ''root''] \<and> oi_admin info = Some True"
proof -
  let ?info = "\<lparr>oi_subject = ''ann'', oi_groups = Some [''dev'', ''root''], oi_admin = Some True\<rparr>"
  have run: "validate_extract_login_info_and_token demo_nested_oidc demo_nested_config (''state'', ''state'') ''code'' ''v'' ''n'' demo_state =
      (Inr (?info, (V4 0, 7)), demo_state)"
    by (simp add: validate_extract_login_info_and_token_def flow_steps demo_oidc_def demo_oidc_config_def id_token_claims_def
        demo_nested_oidc_def demo_nested_config_def
        check_access_token_def login_groups_def oidc_groups_claim_def extract_groups_def groups_value_def json_get_def
        oidc_login_info_new_def check_allowed_groups_def Let_def)
  from oidc_login_gated [OF run] obtain w claims where
      "w = snd (ol_exchange_code (op_client demo_nested_oidc) ''code'' ''v'' (ls_world demo_state))"
      "\<forall>G. login_info_groups demo_nested_oidc demo_nested_config claims (V4 0, 7) w G \<longleftrightarrow>
        (\<exists>gs. oi_groups ?info = Some gs \<and> G = set gs)" by blast
  then have "login_info_groups demo_nested_oidc demo_nested_config claims (V4 0, 7) (ls_world demo_state) (set [''dev'', ''root''])"
    by (simp add: demo_nested_oidc_def demo_oidc_def)
  then show ?thesis using run by (auto simp: insert_commute)
qed

end
