(* ===== verification/ExternalClient.thy ===== *)
theory ExternalClient
  imports Oidc
begin

text \<open>
  The clients built for external login providers, \<^verbatim>\<open>auth/server/src/provider/external.rs\<close>:
  what a login is begun with, how the callback's code completes it, and tokens presented for
  exchange. The OpenID client is Oidc's; the requests to Github and Google and the random values of a
  begun login are parameters, \<open>client_lib\<close>.
\<close>

section \<open>Logins at a provider\<close>

record external_info =
  xi_provider_id :: string
  xi_kind :: external_login_kind
  xi_external_id :: string
  xi_avatar_url :: "string option"
  xi_groups :: "string list option"
  xi_admin :: "bool option"

record begun_login =
  bl_url :: string
  bl_state :: string
  bl_nonce :: "string option"
  bl_pkce_verifier :: "string option"

datatype 'o username_source = Known string | From_Oidc 'o string   \<comment> \<open>the token response, the nonce\<close>

record 'o completed_login =
  cl_info :: external_info
  cl_username :: "'o username_source"

record ('w, 'o) google_provider =
  gp_client_id :: string
  gp_verification_keys :: "'o token_keys"
  gp_exchange_code :: "string \<Rightarrow> ('w, 'o) callback"
  gp_id_token :: "'o \<Rightarrow> 'o option"
  gp_claims :: "string \<Rightarrow> 'o \<Rightarrow> 'w \<Rightarrow> id_claims option"       \<comment> \<open>nonce, ID token\<close>

datatype ('w, 'o) built_provider =
  Built_Oidc "('w, 'o) oidc_provider" | Built_Github 'o | Built_Google "('w, 'o) google_provider"

record github_user =
  gh_id :: string
  gh_login :: string
  gh_avatar_url :: string

record google_user =
  gu_id :: string
  gu_email :: string
  gu_picture :: string

record ('w, 'o) client_lib =
  cx_token_lib :: "'o token_lib"
  cx_authorize_oidc :: "('w, 'o) oidc_provider \<Rightarrow> 'w \<Rightarrow> (string \<times> string \<times> string \<times> string) \<times> 'w"
    \<comment> \<open>url, state, nonce and PKCE verifier\<close>
  cx_authorize_github :: "'o \<Rightarrow> 'w \<Rightarrow> (string \<times> string \<times> string) \<times> 'w"   \<comment> \<open>url, state, verifier\<close>
  cx_authorize_google :: "('w, 'o) google_provider \<Rightarrow> 'w \<Rightarrow> (string \<times> string \<times> string) \<times> 'w"   \<comment> \<open>url, state, nonce\<close>
  cx_github_token :: "'o \<Rightarrow> string \<Rightarrow> string \<Rightarrow> ('w, string) callback"     \<comment> \<open>code, verifier\<close>
  cx_github_user :: "'o \<Rightarrow> string \<Rightarrow> ('w, github_user) callback"

text \<open>Google's tokens, \<^verbatim>\<open>provider/named/google.rs\<close>: a missing email or picture is empty.\<close>

definition google_user_from_claims :: "id_claims \<Rightarrow> google_user" where
  "google_user_from_claims claims = \<lparr>gu_id = ic_subject claims,
     gu_email = (case ic_email claims of None \<Rightarrow> [] | Some e \<Rightarrow> e),
     gu_picture = (case ic_picture claims of None \<Rightarrow> [] | Some p \<Rightarrow> p)\<rparr>"

definition get_google_user :: "('w, 'o) google_provider \<Rightarrow> string \<Rightarrow> string \<Rightarrow> ('w, 'o, google_user) flow" where
  "get_google_user G code nonce =
     and_then (call (gp_exchange_code G code)) (\<lambda>token.
     and_then (required INTERNAL_SERVER_ERROR ''Google did not return an ID token'' (gp_id_token G token)) (\<lambda>id_token.
     and_then (asking (gp_claims G nonce id_token)) (\<lambda>verified.
     and_then (required INTERNAL_SERVER_ERROR ''Failed to verify Google ID token'' verified) (\<lambda>claims.
     done_with (google_user_from_claims claims)))))"

definition google_verify_exchange_token ::
  "'o token_lib \<Rightarrow> ('w, 'o) google_provider \<Rightarrow> token_exchange_config \<Rightarrow> string \<Rightarrow> unix_secs \<Rightarrow> token_error + google_user" where
  "google_verify_exchange_token L G exchange token now =
     res_bind (verify_token L (gp_verification_keys G) token (gp_client_id G # tx_audiences exchange) []
       (tx_max_token_age_secs exchange) now) (\<lambda>claims. Inr (google_user_from_claims claims))"

section \<open>Beginning and completing a login\<close>

definition drawing :: "('w \<Rightarrow> 'a \<times> 'w) \<Rightarrow> ('w, 'o, 'a) flow" where
  "drawing f s = (case f (ls_world s) of (x, w) \<Rightarrow> (Inr x, s\<lparr>ls_world := w\<rparr>))"

fun begin_login :: "('w, 'o) client_lib \<Rightarrow> ('w, 'o) built_provider \<Rightarrow> ('w, 'o, begun_login) flow" where
  "begin_login C (Built_Oidc P) = and_then (drawing (cx_authorize_oidc C P)) (\<lambda>(url, st, nonce, verifier).
     done_with \<lparr>bl_url = url, bl_state = st, bl_nonce = Some nonce, bl_pkce_verifier = Some verifier\<rparr>)"
| "begin_login C (Built_Github g) = and_then (drawing (cx_authorize_github C g)) (\<lambda>(url, st, verifier).
     done_with \<lparr>bl_url = url, bl_state = st, bl_nonce = None, bl_pkce_verifier = Some verifier\<rparr>)"
| "begin_login C (Built_Google g) = and_then (drawing (cx_authorize_google C g)) (\<lambda>(url, st, nonce).
     done_with \<lparr>bl_url = url, bl_state = st, bl_nonce = Some nonce, bl_pkce_verifier = None\<rparr>)"

definition base_info :: "external_login_provider \<Rightarrow> string \<Rightarrow> external_info" where
  "base_info p external_id = \<lparr>xi_provider_id = ep_id p, xi_kind = provider_kind p,
     xi_external_id = external_id, xi_avatar_url = None, xi_groups = None, xi_admin = None\<rparr>"

definition oidc_info :: "external_login_provider \<Rightarrow> oidc_login_info \<Rightarrow> external_info" where
  "oidc_info p info = (base_info p (oi_subject info))\<lparr>xi_groups := oi_groups info, xi_admin := oi_admin info\<rparr>"

definition complete_login ::
  "('w, 'o) client_lib \<Rightarrow> ('w, 'o) built_provider \<Rightarrow> external_login_provider \<Rightarrow> external_login \<Rightarrow> string \<Rightarrow> string \<Rightarrow>
   ('w, 'o, 'o completed_login) flow" where
  "complete_login C built p l client_state code = (case (built, ep_config p) of
     (Built_Oidc P, Oidc_Config config) \<Rightarrow>
       and_then (required INTERNAL_SERVER_ERROR ''Session is missing OIDC nonce'' (xl_nonce l)) (\<lambda>nonce.
       and_then (required INTERNAL_SERVER_ERROR ''Session is missing OIDC pkce verifier'' (xl_pkce_verifier l)) (\<lambda>verifier.
       and_then (validate_extract_login_info_and_token P config (client_state, xl_state l) code verifier nonce) (\<lambda>(info, token).
       done_with \<lparr>cl_info = oidc_info p info, cl_username = From_Oidc token nonce\<rparr>)))
   | (Built_Github g, Github_Config _) \<Rightarrow>
       and_then (required UNAUTHORIZED ''Session is missing Github pkce verifier, log in again'' (xl_pkce_verifier l)) (\<lambda>verifier.
       and_then (call (cx_github_token C g code verifier)) (\<lambda>token.
       and_then (call (cx_github_user C g token)) (\<lambda>user.
       done_with \<lparr>cl_info = (base_info p (gh_id user))\<lparr>xi_avatar_url := Some (gh_avatar_url user)\<rparr>,
         cl_username = Known (gh_login user)\<rparr>)))
   | (Built_Google g, Google_Config _) \<Rightarrow>
       and_then (required INTERNAL_SERVER_ERROR ''Session is missing Google nonce'' (xl_nonce l)) (\<lambda>nonce.
       and_then (get_google_user g code nonce) (\<lambda>user.
       done_with \<lparr>cl_info = (base_info p (gu_id user))\<lparr>xi_avatar_url := Some (gu_picture user)\<rparr>,
         cl_username = Known (hd (split_on CHR ''@'' (gu_email user)))\<rparr>))
   | _ \<Rightarrow> refuse INTERNAL_SERVER_ERROR ''Built provider does not match the provider kind'')"

definition verify_exchange_token ::
  "('w, 'o) client_lib \<Rightarrow> ('w, 'o) built_provider \<Rightarrow> external_login_provider \<Rightarrow> string \<Rightarrow> unix_secs \<Rightarrow>
   failure + external_info" where
  "verify_exchange_token C built p token now = (case (built, ep_config p) of
     (Built_Oidc P, Oidc_Config config) \<Rightarrow>
       res_bind (oidc_verify_exchange_token (cx_token_lib C) P config (ep_token_exchange p) token now) (\<lambda>info.
         Inr (oidc_info p info))
   | (Built_Google g, Google_Config _) \<Rightarrow>
       (case google_verify_exchange_token (cx_token_lib C) g (ep_token_exchange p) token now of
          Inl _ \<Rightarrow> Inl (Failure BAD_REQUEST None)
        | Inr user \<Rightarrow> Inr ((base_info p (gu_id user))\<lparr>xi_avatar_url := Some (gu_picture user)\<rparr>))
   | (Built_Github _, _) \<Rightarrow>
       Inl (Failure BAD_REQUEST (Some ''Github does not issue tokens which can be exchanged''))
   | _ \<Rightarrow> Inl (Failure INTERNAL_SERVER_ERROR (Some ''Built provider does not match the provider kind'')))"

text \<open>The name a new user is signed up with: the provider's, else the external id.\<close>

fun provider_username ::
  "('w, 'o) built_provider \<Rightarrow> 'o completed_login \<Rightarrow> ('w, 'o, string) flow" where
  "provider_username built c = (case (cl_username c, built) of
     (Known username, _) \<Rightarrow> done_with username
   | (From_Oidc token nonce, Built_Oidc P) \<Rightarrow> get_username P (xi_external_id (cl_info c)) token nonce
   | (From_Oidc _ _, _) \<Rightarrow> done_with (xi_external_id (cl_info c)))"

definition completed_username ::
  "('w, 'o) built_provider \<Rightarrow> 'o completed_login \<Rightarrow> ('w, 'o, string) flow" where
  "completed_username built c = and_then (provider_username built c) (\<lambda>username.
     done_with (if trim username = [] then xi_external_id (cl_info c) else username))"

section \<open>Which parts of a request's state a step leaves alone\<close>

text \<open>A step which only acts on the world: the session, logins and events stay.\<close>

definition core :: "('w, 'o) login_state \<Rightarrow> ('o, 'o) auth_session \<times> login list \<times> account_event list" where
  "core s = (ls_session s, ls_logins s, ls_events s)"

abbreviation keeps :: "(('w, 'o) login_state \<Rightarrow> 'r \<times> ('w, 'o) login_state) \<Rightarrow> bool" where
  "keeps \<equiv> preserves core"

lemma core_eq: "core s' = core s \<longleftrightarrow> ls_session s' = ls_session s \<and> ls_logins s' = ls_logins s \<and> ls_events s' = ls_events s"
  by (simp add: core_def)

lemma preserves_of_keeps [intro, simp]:
  "keeps m \<Longrightarrow> preserves (\<lambda>s. g (ls_session s)) m" "keeps m \<Longrightarrow> preserves ls_events m" "keeps m \<Longrightarrow> preserves ls_logins m"
  by (auto simp: preserves_def core_def)

lemma keeps_steps [intro, simp]:
  "keeps (done_with x)" "keeps (refuse st msg)" "keeps (from_result r)" "keeps (from_status t)"
  "keeps (required st msg z)" "keeps (in_context st msg r)" "keeps (call g)" "keeps (asking h)"
  "keeps (drawing d)" "keeps (user_info P subject token)" "keeps (check_user_cidr_whitelist env u ip)"
  by (simp_all add: preserves_def core_def done_with_def refuse_def from_result_def from_status_def required_def in_context_def
      call_def asking_def drawing_def user_info_def check_user_cidr_whitelist_def split: option.splits sum.splits prod.splits)

lemma keeps_oidc [intro, simp]:
  "keeps (get_username P subject token nonce)"
  "keeps (validate_extract_login_info_and_token P config states code verifier nonce)"
proof -
  show "keeps (get_username P subject token nonce)"
    unfolding get_username_def get_username_prioritize_email_def token_id_claims_def
    by (auto split: option.splits)
  have "keeps (check_access_token P claims token id_token)" for claims token id_token
    unfolding check_access_token_def by (auto split: option.splits)
  moreover have "keeps (login_groups P config claims token)" for claims token
    unfolding login_groups_def get_user_info_groups_def by (auto split: option.splits)
  ultimately show "keeps (validate_extract_login_info_and_token P config states code verifier nonce)"
    unfolding validate_extract_login_info_and_token_def by (auto simp: Let_def split: prod.splits)
qed

lemma keeps_client [intro, simp]:
  "keeps (begin_login C built)" "keeps (complete_login C built p l client_state code)"
  "keeps (completed_username built c)"
proof -
  show "keeps (begin_login C built)" by (cases built) (auto split: prod.splits)
  show "keeps (complete_login C built p l client_state code)"
    unfolding complete_login_def get_google_user_def by (auto split: built_provider.splits provider_config.splits prod.splits)
  show "keeps (completed_username built c)"
    unfolding completed_username_def provider_username.simps
    by (auto split: username_source.splits built_provider.splits)
qed

lemma complete_login_info:
  assumes "complete_login C built p l client_state code s = (Inr c, s')"
  shows "xi_provider_id (cl_info c) = ep_id p"
  using assms
  by (auto simp: complete_login_def and_then_ok base_info_def oidc_info_def
      split: built_provider.splits provider_config.splits prod.splits)

end
