(* ===== verification/ExternalFlow.thy ===== *)
theory ExternalFlow
  imports ExternalClient Login
begin

text \<open>
  External logins, \<^verbatim>\<open>auth/server/src/api/external.rs\<close> with the redirects and usernames
  of \<^verbatim>\<open>api/mod.rs\<close>: starting a login, starting a link, and the callback which completes
  either. The answer is the url the browser is sent to. The failure rate limit around the code's
  redemption is the attempt of LimiterSystem.
\<close>

section \<open>The app and the libraries\<close>

record 'o redirect_urls =
  ru_parse :: "string \<Rightarrow> 'o option"
  ru_join :: "'o \<Rightarrow> string \<Rightarrow> 'o option"
  ru_scheme :: "'o \<Rightarrow> string"
  ru_host :: "'o \<Rightarrow> string option"
  ru_query :: "'o \<Rightarrow> string option"
  ru_set_query :: "string \<Rightarrow> 'o \<Rightarrow> 'o"
  ru_text :: "'o \<Rightarrow> string"

record ('w, 'o) external_env =
  xe_auth :: "('w, 'o) auth_env"
  xe_client :: "('w, 'o) client_lib"
  xe_urls :: "'o redirect_urls"
  xe_host :: string
  xe_error_redirect :: "string option"
  xe_post_link_redirect :: string
  xe_urlencode :: "string \<Rightarrow> string"
  xe_failure_text :: "failure \<Rightarrow> string"      \<comment> \<open>\<open>{:#}\<close> of the error\<close>
  xe_passkey_text :: "'o \<Rightarrow> string option"    \<comment> \<open>base64 of the challenge's JSON\<close>
  xe_random_string :: "nat \<Rightarrow> 'w \<Rightarrow> string \<times> 'w"
  xe_save_session :: "('w, unit) callback"
  xe_static_providers :: "external_login_provider list"
  xe_list_providers :: "('w, external_login_provider list) callback"
  xe_load_client :: "external_login_provider \<Rightarrow> ('w, ('w, 'o) built_provider) callback"
  xe_registration_disabled :: "external_login_provider \<Rightarrow> bool"
  xe_find_external_user :: "string \<Rightarrow> string \<Rightarrow> ('w, 'o user option) callback"
  xe_sync_external_user :: "user_id \<Rightarrow> external_info \<Rightarrow> ('w, unit) callback"
  xe_sign_up_external_user :: "string \<Rightarrow> external_info \<Rightarrow> bool \<Rightarrow> ('w, user_id) callback"
  xe_link_external_login :: "user_id \<Rightarrow> external_info \<Rightarrow> ('w, unit) callback"

definition quoted :: "string \<Rightarrow> string" where
  "quoted s = CHR 0x27 # s @ [CHR 0x27]"

section \<open>Redirects\<close>

definition MAX_REDIRECT_LENGTH :: nat where "MAX_REDIRECT_LENGTH = 2048"

definition sanitize_redirect :: "'o redirect_urls \<Rightarrow> string \<Rightarrow> string \<Rightarrow> 'o option" where
  "sanitize_redirect U host redirect =
     (let redirect = trim redirect in
      if redirect = [] then None
      else case ru_parse U host of None \<Rightarrow> None | Some h \<Rightarrow>
        (case ru_host U h of None \<Rightarrow> None | Some host_name \<Rightarrow>
        (case ru_join U h redirect of None \<Rightarrow> None | Some target \<Rightarrow>
          if ru_scheme U target \<notin> {''http'', ''https''} then None
          else case ru_host U target of None \<Rightarrow> None
            | Some name \<Rightarrow> if eq_ignore_ascii_case name host_name then Some target else None)))"

definition bounded :: "string option \<Rightarrow> string option" where
  "bounded r = Option.bind r (\<lambda>r. if length r \<le> MAX_REDIRECT_LENGTH then Some r else None)"

definition login_redirect :: "'o redirect_urls \<Rightarrow> string \<Rightarrow> string option \<Rightarrow> string option" where
  "login_redirect U host redirect =
     bounded (map_option (ru_text U) (Option.bind (bounded redirect) (sanitize_redirect U host)))"

definition format_redirect :: "'o redirect_urls \<Rightarrow> string \<Rightarrow> string option \<Rightarrow> string \<Rightarrow> string" where
  "format_redirect U host redirect extra =
     (case Option.bind redirect (sanitize_redirect U host) of
        Some target \<Rightarrow>
          ru_text U (if extra = [] then target
            else ru_set_query U (case ru_query U target of
              Some query \<Rightarrow> if query \<noteq> [] then query @ ''&'' @ extra else extra
            | None \<Rightarrow> extra) target)
      | None \<Rightarrow> host @ (if extra = [] then [] else ''?'') @ extra)"

definition user_id_or_two_factor_redirect ::
  "('w, 'o) external_env \<Rightarrow> 'o user_id_or_two_factor \<Rightarrow> string option \<Rightarrow> ('w, 'o, string) flow" where
  "user_id_or_two_factor_redirect X res redirect = (case res of
     User_Id _ \<Rightarrow> done_with (format_redirect (xe_urls X) (xe_host X) redirect ''redeem_ready=true'')
   | User_Totp \<Rightarrow> done_with (format_redirect (xe_urls X) (xe_host X) redirect ''totp=true'')
   | User_Passkey passkey \<Rightarrow>
       and_then (required INTERNAL_SERVER_ERROR ''Failed to serialize passkey response'' (xe_passkey_text X passkey)) (\<lambda>text.
       done_with (format_redirect (xe_urls X) (xe_host X) redirect (''passkey='' @ text))))"

text \<open>\<open>str::replace\<close>, for a pattern which is not empty.\<close>

function replace_all :: "string \<Rightarrow> string \<Rightarrow> string \<Rightarrow> string" where
  "replace_all p t s = (if p = [] then s else case find_sub p s of
     None \<Rightarrow> s
   | Some i \<Rightarrow> take i s @ t @ replace_all p t (drop (i + length p) s))"
  by auto
termination
proof (relation "measure (\<lambda>(_, _, s). length s)", goal_cases)
  case (2 p t s i)
  from 2(2) obtain a r where "s = a @ p @ r" by (rule find_sub_Some) blast
  with 2(1) show ?case by (cases p) auto
qed simp

fun split_once_str :: "string \<Rightarrow> string \<Rightarrow> (string \<times> string) option" where
  "split_once_str p s = (case find_sub p s of
     None \<Rightarrow> None | Some i \<Rightarrow> Some (take i s, drop (i + length p) s))"

definition auth_redirect :: "string \<Rightarrow> string \<Rightarrow> failure + string" where
  "auth_redirect auth_url redirect_host =
     (if redirect_host \<noteq> [] then
        (case split_once_str ''://'' auth_url of
           None \<Rightarrow> Inl (Failure INTERNAL_SERVER_ERROR (Some ''Invalid URL: Missing protocol (eg 'https://')''))
         | Some (protocol, rest) \<Rightarrow>
             (let host = takeWhile (\<lambda>c. c \<noteq> CHR ''/'' \<and> c \<noteq> CHR ''?'') rest in
              Inr (replace_all (protocol @ ''://'' @ host) redirect_host auth_url)))
      else Inr auth_url)"

definition provider_redirect :: "external_login_provider \<Rightarrow> string \<Rightarrow> failure + string" where
  "provider_redirect p url = (case ep_config p of
     Oidc_Config config \<Rightarrow> auth_redirect url (oc_redirect_host config)
   | _ \<Rightarrow> Inr url)"

datatype external_flow = Login_Flow | Link_Flow

definition SERVER_ERROR_MESSAGE :: string where
  "SERVER_ERROR_MESSAGE = ''Login failed, see the server logs for details''"

definition error_redirect ::
  "('w, 'o) external_env \<Rightarrow> external_flow \<Rightarrow> failure + string \<Rightarrow> failure + string" where
  "error_redirect X flow res = (case res of
     Inr redirect \<Rightarrow> Inr redirect
   | Inl e \<Rightarrow> (case xe_error_redirect X of
       None \<Rightarrow> Inl e
     | Some login_page \<Rightarrow>
         (let (target, param) = (case flow of
                Login_Flow \<Rightarrow> (login_page, ''login_error'')
              | Link_Flow \<Rightarrow> (xe_post_link_redirect X, ''link_error''));
              message = (if is_server_error (failure_status e) then SERVER_ERROR_MESSAGE
                else xe_failure_text X e);
              splitter = (if CHR ''?'' \<in> set target then ''&'' else ''?'') in
          Inr (target @ splitter @ param @ ''='' @ xe_urlencode X message))))"

section \<open>Resolving the provider\<close>

definition list_external_providers :: "('w, 'o) external_env \<Rightarrow> ('w, 'o, resolved_provider list) flow" where
  "list_external_providers X = and_then (call (xe_list_providers X)) (\<lambda>stored.
     done_with (merge_providers (xe_static_providers X) stored))"

definition resolve_external_provider_by_slug ::
  "('w, 'o) external_env \<Rightarrow> string \<Rightarrow> ('w, 'o, resolved_provider) flow" where
  "resolve_external_provider_by_slug X slug =
     (if \<not> validate_provider_id slug then from_status (Inl NOT_FOUND)
      else and_then (list_external_providers X) (\<lambda>providers. from_status (find_by_slug slug providers)))"

definition resolve_enabled_provider ::
  "('w, 'o) external_env \<Rightarrow> string \<Rightarrow> ('w, 'o, external_login_provider) flow" where
  "resolve_enabled_provider X slug =
     and_then (resolve_external_provider_by_slug X slug) (\<lambda>r.
     if \<not> provider_enabled (rp_provider r)
     then refuse UNAUTHORIZED (''Login with '' @ quoted (ep_name (rp_provider r)) @ '' is not enabled'')
     else done_with (rp_provider r))"

text \<open>The reason a client can't be loaded stays in the logs.\<close>

definition load_provider_client ::
  "('w, 'o) external_env \<Rightarrow> external_login_provider \<Rightarrow> ('w, 'o, ('w, 'o) built_provider) flow" where
  "load_provider_client X p s = (case xe_load_client X p (ls_world s) of
     (Inl _, w) \<Rightarrow> (Inl (Failure SERVICE_UNAVAILABLE
        (Some (''Login provider '' @ quoted (ep_name p) @ '' is not available''))), s\<lparr>ls_world := w\<rparr>)
   | (Inr built, w) \<Rightarrow> (Inr built, s\<lparr>ls_world := w\<rparr>))"

definition load_enabled_provider ::
  "('w, 'o) external_env \<Rightarrow> string \<Rightarrow> ('w, 'o, external_login_provider \<times> ('w, 'o) built_provider) flow" where
  "load_enabled_provider X slug =
     and_then (resolve_enabled_provider X slug) (\<lambda>p.
     and_then (load_provider_client X p) (\<lambda>built. done_with (p, built)))"

section \<open>Starting a login or a link\<close>

definition begin_external_login ::
  "('w, 'o) external_env \<Rightarrow> string \<Rightarrow> string option \<Rightarrow> ('w, 'o, string) flow" where
  "begin_external_login X slug redirect =
     and_then (load_enabled_provider X slug) (\<lambda>(p, built).
     and_then (begin_login (xe_client X) built) (\<lambda>b.
     and_then (to_session (insert_external_login \<lparr>xl_provider_id = ep_id p, xl_link_user_id = None,
        xl_state = bl_state b, xl_nonce = bl_nonce b, xl_pkce_verifier = bl_pkce_verifier b,
        xl_redirect = login_redirect (xe_urls X) (xe_host X) redirect\<rparr>)) (\<lambda>_.
     from_result (provider_redirect p (bl_url b)))))"

definition external_login_route ::
  "('w, 'o) external_env \<Rightarrow> string \<Rightarrow> string option \<Rightarrow> ('w, 'o, string) flow" where
  "external_login_route X slug redirect s = (case begin_external_login X slug redirect s of
     (res, s') \<Rightarrow> (error_redirect X Login_Flow res, s'))"

definition check_username_locked :: "string list \<Rightarrow> string \<Rightarrow> ('w, 'o, unit) flow" where
  "check_username_locked locked_usernames username =
     (if list_ex (\<lambda>locked. locked = username \<or> locked = ''__ALL__'') locked_usernames
      then refuse UNAUTHORIZED ''Login credentials are locked for this user''
      else done_with ())"

definition check_user_can_link :: "('w, 'o) external_env \<Rightarrow> 'o user \<Rightarrow> ip_addr \<Rightarrow> ('w, 'o, unit) flow" where
  "check_user_can_link X u ip =
     (if \<not> us_enabled u then refuse FORBIDDEN ''User is not enabled''
      else and_then (check_username_locked (ae_locked_usernames (xe_auth X)) (us_username u)) (\<lambda>_.
        check_user_cidr_whitelist (xe_auth X) u ip))"

text \<open>Taken and saved right away, whatever the response.\<close>

definition save_session :: "('w, 'o) external_env \<Rightarrow> ('w, 'o, unit) flow" where
  "save_session X s = (case xe_save_session X (ls_world s) of
     (Inl _, w) \<Rightarrow> (Inl (Failure INTERNAL_SERVER_ERROR (Some ''Failed to save session'')), s\<lparr>ls_world := w\<rparr>)
   | (Inr _, w) \<Rightarrow> (Inr (), s\<lparr>ls_world := w\<rparr>))"

definition take_external_link :: "('w, 'o) external_env \<Rightarrow> ('w, 'o, user_id \<times> unix_secs) flow" where
  "take_external_link X = and_then (on_session retrieve_external_link) (\<lambda>link.
     and_then (save_session X) (\<lambda>_. done_with link))"

definition take_external_login :: "('w, 'o) external_env \<Rightarrow> ('w, 'o, external_login) flow" where
  "take_external_login X = and_then (on_session retrieve_external_login) (\<lambda>l.
     and_then (save_session X) (\<lambda>_. done_with l))"

definition begin_external_link ::
  "('w, 'o) external_env \<Rightarrow> string \<Rightarrow> ip_addr \<Rightarrow> user_id \<times> unix_secs \<Rightarrow> ('w, 'o, string) flow" where
  "begin_external_link X slug ip = (\<lambda>(user_id, begun).
     and_then (unix_secs_now (xe_auth X)) (\<lambda>now.
     and_then (from_status (check_external_link_age begun now)) (\<lambda>_.
     and_then (load_enabled_provider X slug) (\<lambda>(p, built).
     and_then (call (ae_get_user (xe_auth X) user_id)) (\<lambda>u.
     and_then (check_user_can_link X u ip) (\<lambda>_.
     and_then (begin_login (xe_client X) built) (\<lambda>b.
     and_then (to_session (insert_external_login \<lparr>xl_provider_id = ep_id p, xl_link_user_id = Some user_id,
        xl_state = bl_state b, xl_nonce = bl_nonce b, xl_pkce_verifier = bl_pkce_verifier b,
        xl_redirect = None\<rparr>)) (\<lambda>_.
     from_result (provider_redirect p (bl_url b))))))))))"

definition external_link_route ::
  "('w, 'o) external_env \<Rightarrow> string \<Rightarrow> ip_addr \<Rightarrow> ('w, 'o, string) flow" where
  "external_link_route X slug ip s = (case take_external_link X s of
     (Inl e, s') \<Rightarrow> (error_redirect X Login_Flow (Inl e), s')
   | (Inr link, s') \<Rightarrow> (case begin_external_link X slug ip link s' of
       (res, s'') \<Rightarrow> (error_redirect X Link_Flow res, s'')))"

section \<open>New users\<close>

definition UNIQUE_USERNAME_SUFFIX_LENGTH :: nat where "UNIQUE_USERNAME_SUFFIX_LENGTH = 6"

definition truncate_chars :: "nat \<Rightarrow> string \<Rightarrow> string" where
  "truncate_chars n text = concat (take n (utf8_chars text))"

definition unique_username :: "('w, 'o) external_env \<Rightarrow> string \<Rightarrow> ('w, 'o, string) flow" where
  "unique_username X username =
     and_then (call (ae_find_user_with_username (xe_auth X) username)) (\<lambda>found.
     if found = None then done_with username
     else and_then (drawing (xe_random_string X (UNIQUE_USERNAME_SUFFIX_LENGTH - 1))) (\<lambda>suffix.
       done_with (truncate_chars (MAX_USERNAME_LENGTH - UNIQUE_USERNAME_SUFFIX_LENGTH) username @ ''-'' @ suffix)))"

text \<open>The loop pushes until the limit is reached; the characters pushed are ASCII.\<close>

fun normalize_push :: "string list \<Rightarrow> string \<Rightarrow> string" where
  "normalize_push [] acc = acc"
| "normalize_push (ch # chars) acc =
     (let c = (if length ch = 1 \<and> (is_ascii_alnum (hd ch) \<or> hd ch \<in> {CHR ''.'', CHR ''_'', CHR ''@''})
               then hd ch else CHR ''-'') in
      if c = CHR ''-'' \<and> (acc = [] \<or> last acc = CHR ''-'') then normalize_push chars acc
      else if MAX_USERNAME_LENGTH \<le> length (acc @ [c]) then acc @ [c]
      else normalize_push chars (acc @ [c]))"

definition normalize_username :: "string \<Rightarrow> string" where
  "normalize_username name =
     (let edge = (\<lambda>c. c = CHR ''-'' \<or> c = CHR ''.'') in
      rev (dropWhile edge (rev (dropWhile edge (normalize_push (utf8_chars (trim name)) [])))))"

fun first_accepted :: "('w, 'o) external_env \<Rightarrow> string list \<Rightarrow> ('w, 'o, string option) flow" where
  "first_accepted X [] = done_with None"
| "first_accepted X (candidate # candidates) =
     (if candidate = [] \<or> (case ae_validate_username (xe_auth X) candidate of Inl _ \<Rightarrow> True | Inr _ \<Rightarrow> False)
      then first_accepted X candidates
      else and_then (unique_username X candidate) (\<lambda>username.
        case ae_validate_username (xe_auth X) username of
          Inr _ \<Rightarrow> done_with (Some username)
        | Inl _ \<Rightarrow> first_accepted X candidates))"

definition signup_username ::
  "('w, 'o) external_env \<Rightarrow> external_login_provider \<Rightarrow> string \<Rightarrow> ('w, 'o, string) flow" where
  "signup_username X p name =
     and_then (first_accepted X [name, normalize_username name]) (\<lambda>found. case found of
       Some username \<Rightarrow> done_with username
     | None \<Rightarrow>
         and_then (drawing (xe_random_string X 8)) (\<lambda>random.
         and_then (unique_username X (normalize_username (slug_of p) @ ''-'' @ random)) (\<lambda>username.
         and_then (in_context INTERNAL_SERVER_ERROR (''No username for the new user passes '' @ quoted ''validate_username'')
           (ae_validate_username (xe_auth X) username)) (\<lambda>_. done_with username))))"

section \<open>The callback\<close>

record callback_query =
  cq_state :: "string option"
  cq_code :: "string option"
  cq_error :: "string option"

definition query_open :: "callback_query \<Rightarrow> ('w, 'o, string \<times> string) flow" where
  "query_open q = (case cq_error q of
     Some e \<Rightarrow> refuse UNAUTHORIZED (''Provider returned error: '' @ e)
   | None \<Rightarrow>
       and_then (required UNAUTHORIZED ''Callback query does not contain state'' (cq_state q)) (\<lambda>st.
       and_then (required UNAUTHORIZED ''Callback query does not contain code'' (cq_code q)) (\<lambda>code.
       done_with (st, code))))"

definition validate_callback :: "external_login \<Rightarrow> string \<Rightarrow> string \<Rightarrow> ('w, 'o, unit) flow" where
  "validate_callback l provider_id client_state =
     (if xl_provider_id l \<noteq> provider_id then refuse UNAUTHORIZED ''Login was initiated with another provider''
      else if \<not> constant_time_eq client_state (xl_state l) then refuse UNAUTHORIZED ''State mismatch''
      else done_with ())"

definition provider_login :: "external_login_provider \<Rightarrow> login_kind" where
  "provider_login p = Provider (ep_id p) (ep_name p)"

text \<open>The calls which change accounts are kept in the history.\<close>

definition sign_up_external_user ::
  "('w, 'o) external_env \<Rightarrow> string \<Rightarrow> external_info \<Rightarrow> bool \<Rightarrow> ('w, 'o, user_id) flow" where
  "sign_up_external_user X username info no_users_exist s =
     (case xe_sign_up_external_user X username info no_users_exist (ls_world s) of
        (Inl e, w) \<Rightarrow> (Inl e, s\<lparr>ls_world := w\<rparr>)
      | (Inr u, w) \<Rightarrow> (Inr u, s\<lparr>ls_world := w,
          ls_events := ls_events s @ [Signed_Up u username (xi_provider_id info) (xi_external_id info)]\<rparr>))"

definition link_external_login ::
  "('w, 'o) external_env \<Rightarrow> user_id \<Rightarrow> external_info \<Rightarrow> ('w, 'o, unit) flow" where
  "link_external_login X u info s = (case xe_link_external_login X u info (ls_world s) of
     (Inl e, w) \<Rightarrow> (Inl e, s\<lparr>ls_world := w\<rparr>)
   | (Inr _, w) \<Rightarrow> (Inr (), s\<lparr>ls_world := w,
       ls_events := ls_events s @ [Linked u (xi_provider_id info) (xi_external_id info)]\<rparr>))"

definition login_existing ::
  "('w, 'o) external_env \<Rightarrow> external_login_provider \<Rightarrow> external_info \<Rightarrow> ip_addr \<Rightarrow> 'o user \<Rightarrow>
   ('w, 'o, 'o user_id_or_two_factor) flow" where
  "login_existing X p info ip u =
     and_then (check_user_cidr_whitelist (xe_auth X) u ip) (\<lambda>_.
     and_then (call (xe_sync_external_user X (us_id u) info)) (\<lambda>_.
     get_user_id_or_two_factor (xe_auth X) u ip (provider_login p)))"

definition login_new ::
  "('w, 'o) external_env \<Rightarrow> external_login_provider \<Rightarrow> ('w, 'o) built_provider \<Rightarrow> 'o completed_login \<Rightarrow> ip_addr \<Rightarrow>
   ('w, 'o, 'o user_id_or_two_factor) flow" where
  "login_new X p built completed ip =
     and_then (call (ae_no_users_exist (xe_auth X))) (\<lambda>no_users_exist.
     if xe_registration_disabled X p \<and> \<not> no_users_exist
     then refuse UNAUTHORIZED ''User registration is disabled''
     else and_then (completed_username built completed) (\<lambda>name.
     and_then (signup_username X p name) (\<lambda>username.
     and_then (sign_up_external_user X username (cl_info completed) no_users_exist) (\<lambda>user_id.
     and_then (call (xe_sync_external_user X user_id (cl_info completed))) (\<lambda>_.
     and_then (asking (\<lambda>w. default_expires_at (ae_jwt (xe_auth X)) (ae_unix_secs (xe_auth X) w))) (\<lambda>expires.
     and_then (record_login (xe_auth X) \<lparr>lo_user_id = user_id, lo_username = username, lo_ip = ip,
        lo_kind = provider_login p, lo_second_factor = None, lo_token_expires = expires\<rparr>) (\<lambda>_.
     and_then (new_session_id (xe_auth X)) (\<lambda>i.
     and_then (unix_secs_now (xe_auth X)) (\<lambda>now.
     and_then (to_session (insert_authenticated_user i user_id now)) (\<lambda>_.
     done_with (User_Id user_id)))))))))))"

definition login_callback ::
  "('w, 'o) external_env \<Rightarrow> external_login_provider \<Rightarrow> ('w, 'o) built_provider \<Rightarrow> 'o completed_login \<Rightarrow>
   string option \<Rightarrow> ip_addr \<Rightarrow> ('w, 'o, string) flow" where
  "login_callback X p built completed redirect ip =
     (let info = cl_info completed in
      and_then (call (xe_find_external_user X (xi_provider_id info) (xi_external_id info))) (\<lambda>found.
      and_then (case found of
          Some u \<Rightarrow> login_existing X p info ip u
        | None \<Rightarrow> login_new X p built completed ip) (\<lambda>res.
      user_id_or_two_factor_redirect X res redirect)))"

definition link_callback ::
  "('w, 'o) external_env \<Rightarrow> user_id \<Rightarrow> 'o completed_login \<Rightarrow> ip_addr \<Rightarrow> ('w, 'o, string) flow" where
  "link_callback X user_id completed ip =
     (let info = cl_info completed in
      and_then (call (ae_get_user (xe_auth X) user_id)) (\<lambda>u.
      and_then (check_user_can_link X u ip) (\<lambda>_.
      and_then (call (xe_find_external_user X (xi_provider_id info) (xi_external_id info))) (\<lambda>found. case found of
        Some existing \<Rightarrow>
          if us_id existing = user_id
          then and_then (call (xe_sync_external_user X user_id info)) (\<lambda>_. done_with (xe_post_link_redirect X))
          else refuse CONFLICT ''Account already linked to another user.''
      | None \<Rightarrow>
          and_then (link_external_login X user_id info) (\<lambda>_.
          and_then (call (xe_sync_external_user X user_id info)) (\<lambda>_.
          done_with (xe_post_link_redirect X)))))))"

definition complete_callback ::
  "('w, 'o) external_env \<Rightarrow> string \<Rightarrow> callback_query \<Rightarrow> ip_addr \<Rightarrow> external_login \<Rightarrow> ('w, 'o, string) flow" where
  "complete_callback X slug q ip l =
     and_then (query_open q) (\<lambda>(client_state, code).
     and_then (resolve_enabled_provider X slug) (\<lambda>p.
     and_then (validate_callback l (ep_id p) client_state) (\<lambda>_.
     and_then (load_provider_client X p) (\<lambda>built.
     and_then (complete_login (xe_client X) built p l client_state code) (\<lambda>completed.
     case xl_link_user_id l of
       Some user_id \<Rightarrow> link_callback X user_id completed ip
     | None \<Rightarrow> login_callback X p built completed (xl_redirect l) ip)))))"

definition external_callback ::
  "('w, 'o) external_env \<Rightarrow> string \<Rightarrow> callback_query \<Rightarrow> ip_addr \<Rightarrow> ('w, 'o, string) flow" where
  "external_callback X slug q ip s = (case take_external_login X s of
     (Inl e, s') \<Rightarrow> (error_redirect X Login_Flow (Inl e), s')
   | (Inr l, s') \<Rightarrow> (case complete_callback X slug q ip l s' of
       (res, s'') \<Rightarrow>
         (error_redirect X (if xl_link_user_id l \<noteq> None then Link_Flow else Login_Flow) res, s'')))"

end
