(* ===== verification/ExternalProps.thy ===== *)
theory ExternalProps
  imports ExternalFlow
begin

text \<open>
  What external logins guarantee, whatever the outcome of a request: which callbacks have any effect,
  whom they log in, and whom they link.
\<close>

section \<open>Steps which leave a request's state alone\<close>

lemma keeps_external [intro, simp]:
  "keeps (list_external_providers X)" "keeps (resolve_enabled_provider X slug)" "keeps (load_provider_client X p)"
  "keeps (query_open q)" "keeps (validate_callback l i st)" "keeps (check_user_can_link X u ip)"
  "keeps (save_session X)" "keeps (signup_username X p name)" "keeps (user_id_or_two_factor_redirect X res redirect)"
proof -
  show lists: "keeps (list_external_providers X)" unfolding list_external_providers_def by auto
  show "keeps (resolve_enabled_provider X slug)"
    unfolding resolve_enabled_provider_def resolve_external_provider_by_slug_def using lists by auto
  show "keeps (load_provider_client X p)" "keeps (save_session X)"
    by (auto simp: preserves_def core_def load_provider_client_def save_session_def split: prod.splits sum.splits)
  show "keeps (query_open q)" unfolding query_open_def by (auto split: option.splits)
  show "keeps (validate_callback l i st)" unfolding validate_callback_def by auto
  show "keeps (check_user_can_link X u ip)"
    unfolding check_user_can_link_def check_username_locked_def by auto
  have unique: "keeps (unique_username X name)" for name unfolding unique_username_def by auto
  have "keeps (first_accepted X names)" for names
    by (induction names) (auto intro: unique split: sum.splits)
  then show "keeps (signup_username X p name)"
    unfolding signup_username_def using unique by (auto simp del: first_accepted.simps split: option.splits)
  show "keeps (user_id_or_two_factor_redirect X res redirect)"
    unfolding user_id_or_two_factor_redirect_def by (auto split: user_id_or_two_factor.splits)
qed

section \<open>Which callbacks have effects\<close>

definition enabled_provider :: "('w, 'o) external_env \<Rightarrow> string \<Rightarrow> external_login_provider \<Rightarrow> 'w \<Rightarrow> bool" where
  "enabled_provider X slug p w \<longleftrightarrow> provider_enabled p \<and> slug_of p = slug \<and>
     (\<exists>stored. fst (xe_list_providers X w) = Inr stored \<and>
        p \<in> rp_provider ` set (merge_providers (xe_static_providers X) stored))"

lemma resolve_enabled_ok:
  assumes "resolve_enabled_provider X slug s = (Inr p, s')"
  shows "enabled_provider X slug p (ls_world s)"
  using assms
  by (auto simp: resolve_enabled_provider_def resolve_external_provider_by_slug_def list_external_providers_def
      enabled_provider_def find_by_slug_def and_then_ok call_ok ok_or_Inr_iff find_Some_iff image_iff
      split: if_splits) (metis nth_mem)

lemma query_open_ok:
  "query_open q s = (Inr (st, code), s') \<Longrightarrow> cq_error q = None \<and> cq_state q = Some st \<and> cq_code q = Some code"
  by (auto simp: query_open_def and_then_ok split: option.splits)

lemma validate_callback_ok:
  "validate_callback l i st s = (Inr u, s') \<Longrightarrow> xl_provider_id l = i \<and> xl_state l = st"
  by (auto simp: validate_callback_def split: if_splits)

text \<open>The login a callback completes: the state of the query is its own, the provider the url's.\<close>

definition callback_of ::
  "('w, 'o) external_env \<Rightarrow> string \<Rightarrow> callback_query \<Rightarrow> external_login \<Rightarrow> external_login_provider \<Rightarrow> string \<Rightarrow> 'w \<Rightarrow> bool" where
  "callback_of X slug q l p code w \<longleftrightarrow> enabled_provider X slug p w \<and> xl_provider_id l = ep_id p \<and>
     cq_error q = None \<and> cq_state q = Some (xl_state l) \<and> cq_code q = Some code"

text \<open>The client the app loaded for a provider.\<close>

definition client_of :: "('w, 'o) external_env \<Rightarrow> external_login_provider \<Rightarrow> ('w, 'o) built_provider \<Rightarrow> bool" where
  "client_of X p built \<longleftrightarrow> (\<exists>w. fst (xe_load_client X p w) = Inr built)"

lemma complete_callback_effect:
  assumes run: "complete_callback X slug q ip l s = (r, s')" and effect: "core s' \<noteq> core s"
  obtains p code built completed s0 s1 where "callback_of X slug q l p code (ls_world s)" "client_of X p built"
    "complete_login (xe_client X) built p l (xl_state l) code s0 = (Inr completed, s1)" "core s1 = core s"
    "(case xl_link_user_id l of Some u \<Rightarrow> link_callback X u completed ip
      | None \<Rightarrow> login_callback X p built completed (xl_redirect l) ip) s1 = (r, s')"
proof -
  obtain client_state code s1 where q: "query_open q s = (Inr (client_state, code), s1)" "core s1 = core s" "core s' \<noteq> core s1"
    and r1: "and_then (resolve_enabled_provider X slug) (\<lambda>p. and_then (validate_callback l (ep_id p) client_state) (\<lambda>_.
      and_then (load_provider_client X p) (\<lambda>built. and_then (complete_login (xe_client X) built p l client_state code)
      (\<lambda>completed. case xl_link_user_id l of Some u \<Rightarrow> link_callback X u completed ip
        | None \<Rightarrow> login_callback X p built completed (xl_redirect l) ip)))) s1 = (r, s')"
    using run effect unfolding complete_callback_def by (rule goes_past) auto
  obtain p s2 where p: "resolve_enabled_provider X slug s1 = (Inr p, s2)" "core s2 = core s1" "core s' \<noteq> core s2"
    and r2: "and_then (validate_callback l (ep_id p) client_state) (\<lambda>_. and_then (load_provider_client X p) (\<lambda>built.
      and_then (complete_login (xe_client X) built p l client_state code)
      (\<lambda>completed. case xl_link_user_id l of Some u \<Rightarrow> link_callback X u completed ip
        | None \<Rightarrow> login_callback X p built completed (xl_redirect l) ip))) s2 = (r, s')"
    using r1 q(3) by (rule goes_past) simp
  obtain u s3 where v: "validate_callback l (ep_id p) client_state s2 = (Inr u, s3)" "core s3 = core s2" "core s' \<noteq> core s3"
    and r3: "and_then (load_provider_client X p) (\<lambda>built. and_then (complete_login (xe_client X) built p l client_state code)
      (\<lambda>completed. case xl_link_user_id l of Some u \<Rightarrow> link_callback X u completed ip
        | None \<Rightarrow> login_callback X p built completed (xl_redirect l) ip)) s3 = (r, s')"
    using r2 p(3) by (rule goes_past) simp
  obtain built s4 where b: "load_provider_client X p s3 = (Inr built, s4)" "core s4 = core s3" "core s' \<noteq> core s4"
    and r4: "and_then (complete_login (xe_client X) built p l client_state code)
      (\<lambda>completed. case xl_link_user_id l of Some u \<Rightarrow> link_callback X u completed ip
        | None \<Rightarrow> login_callback X p built completed (xl_redirect l) ip) s4 = (r, s')"
    using r3 v(3) by (rule goes_past) simp
  obtain completed s5 where c: "complete_login (xe_client X) built p l client_state code s4 = (Inr completed, s5)" "core s5 = core s4"
    and r5: "(case xl_link_user_id l of Some u \<Rightarrow> link_callback X u completed ip
        | None \<Rightarrow> login_callback X p built completed (xl_redirect l) ip) s5 = (r, s')"
    using r4 b(3) by (rule goes_past) simp
  have "ls_world s1 = ls_world s" using q(1) by (auto simp: query_open_def and_then_ok split: option.splits)
  then have "callback_of X slug q l p code (ls_world s)"
    using query_open_ok [OF q(1)] validate_callback_ok [OF v(1)] resolve_enabled_ok [OF p(1)] by (simp add: callback_of_def)
  moreover have "core s5 = core s" using q(2) p(2) v(2) b(2) c(2) by simp
  moreover have "client_of X p built" using b(1) by (auto simp: load_provider_client_def client_of_def split: prod.splits sum.splits) (metis fst_conv)
  ultimately show thesis using that c(1) r5 validate_callback_ok [OF v(1)] by simp
qed

lemma take_external_login_ok:
  assumes "take_external_login X s = (r, s')"
  shows "as_external (ls_session s') = Absent" "ls_logins s' = ls_logins s" "ls_events s' = ls_events s"
    "as_user (ls_session s') = as_user (ls_session s)"
    "r = Inr l \<Longrightarrow> as_external (ls_session s) = Present l"
  using assms
  by (auto simp: take_external_login_def and_then_def on_session_def retrieve_external_login_def taken_def modified_def
      slot_required_def slot_get_def save_session_def done_with_def split: prod.splits sum.splits slot.splits)

section \<open>What a part of the session keeps\<close>

lemma preserves_to_session: "(\<And>se. g (h se) = g se) \<Longrightarrow> preserves (\<lambda>s. g (ls_session s)) (to_session h)"
  by (simp add: preserves_def to_session_def)

lemma preserves_record [intro, simp]: "preserves (\<lambda>s. g (ls_session s)) (record_login env l)" "preserves (\<lambda>s. g (ls_session s)) (record_login_of env u ip kind factor)"
proof -
  show r: "preserves (\<lambda>s. g (ls_session s)) (record_login env l)" for l
    by (simp add: preserves_def record_login_def split: prod.splits sum.splits)
  show "preserves (\<lambda>s. g (ls_session s)) (record_login_of env u ip kind factor)"
    unfolding record_login_of_def using r by auto
qed

lemma preserves_accounts [intro, simp]:
  "preserves (\<lambda>s. g (ls_session s)) (sign_up_external_user X username info no_users_exist)" "preserves (\<lambda>s. g (ls_session s)) (link_external_login X u info)"
  by (simp_all add: preserves_def sign_up_external_user_def link_external_login_def split: prod.splits sum.splits)

lemma preserves_link [intro, simp]: "preserves (\<lambda>s. g (ls_session s)) (link_callback X u completed ip)"
  unfolding link_callback_def Let_def by (auto split: option.splits)

text \<open>Beginning a second factor changes the id of the session and the second factor's slots only.\<close>

lemma preserves_second_factor:
  assumes "\<And>i se. g (cycle_id i se) = g se" "\<And>x se. g (se\<lparr>as_passkey := x\<rparr>) = g se" "\<And>x se. g (se\<lparr>as_kind := x\<rparr>) = g se"
    "\<And>x se. g (se\<lparr>as_totp := x\<rparr>) = g se" "\<And>x se. g (se\<lparr>as_totp_attempts := x\<rparr>) = g se"
    "\<And>x se. g (se\<lparr>as_modified := x\<rparr>) = g se"
  shows "preserves (\<lambda>s. g (ls_session s)) (begin_external_two_factor env u kind)"
proof -
  have "preserves (\<lambda>s. g (ls_session s)) (to_session (insert_passkey_login i v st now))" "preserves (\<lambda>s. g (ls_session s)) (to_session (insert_login_kind kind))"
    "preserves (\<lambda>s. g (ls_session s)) (to_session (insert_totp_login i v now))" for i v st now
    using assms by (auto intro!: preserves_to_session simp: insert_passkey_login_def insert_login_kind_def
        insert_totp_login_def modified_def)
  then have "preserves (\<lambda>s. g (ls_session s)) (begin_passkey env u passkey kind)" "preserves (\<lambda>s. g (ls_session s)) (begin_totp env u kind)" for passkey
    unfolding begin_passkey_def begin_totp_def new_session_id_def unix_secs_now_def by auto
  then show ?thesis unfolding begin_external_two_factor_def by (auto split: option.splits)
qed

lemma preserves_external_login_callback:
  "preserves (\<lambda>s. as_external (ls_session s)) (login_callback X p built completed redirect ip)"
proof -
  have user: "preserves (\<lambda>s. as_external (ls_session s)) (to_session (insert_authenticated_user i v now))" for i v now
    by (rule preserves_to_session) (simp add: insert_authenticated_user_def cycle_id_def modified_def)
  have "preserves (\<lambda>s. as_external (ls_session s)) (begin_external_two_factor env u kind)" for env u kind
    by (rule preserves_second_factor) (simp_all add: cycle_id_def modified_def)
  then have "preserves (\<lambda>s. as_external (ls_session s)) (get_user_id_or_two_factor env u ip kind)" for env u kind
    unfolding get_user_id_or_two_factor_def new_session_id_def unix_secs_now_def
    using user by (auto split: option.splits external_two_factor.splits)
  then have "preserves (\<lambda>s. as_external (ls_session s)) (login_existing X p info ip u)" for info u
    unfolding login_existing_def by auto
  moreover have "preserves (\<lambda>s. as_external (ls_session s)) (login_new X p built completed ip)"
    unfolding login_new_def new_session_id_def unix_secs_now_def using user by auto
  ultimately show ?thesis unfolding login_callback_def Let_def by (auto split: option.splits)
qed

lemma external_callback_effect:
  assumes run: "external_callback X slug q ip s = (r, s')"
    and effect: "as_user (ls_session s') \<noteq> as_user (ls_session s) \<or> ls_logins s' \<noteq> ls_logins s \<or> ls_events s' \<noteq> ls_events s"
  obtains l p code built completed s0 s1 r' w where "as_external (ls_session s) = Present l"
    "callback_of X slug q l p code w" "client_of X p built"
    "complete_login (xe_client X) built p l (xl_state l) code s0 = (Inr completed, s1)"
    "as_user (ls_session s1) = as_user (ls_session s)" "ls_logins s1 = ls_logins s" "ls_events s1 = ls_events s"
    "as_external (ls_session s1) = Absent"
    "(case xl_link_user_id l of Some u \<Rightarrow> link_callback X u completed ip
      | None \<Rightarrow> login_callback X p built completed (xl_redirect l) ip) s1 = (r', s')"
proof -
  obtain t s2 where take: "take_external_login X s = (t, s2)" by fastforce
  note taken = take_external_login_ok [OF take]
  obtain l r' where t: "t = Inr l" and c: "complete_callback X slug q ip l s2 = (r', s')"
    using run take effect taken by (auto simp: external_callback_def split: sum.splits prod.splits)
  have "core s' \<noteq> core s2" using effect taken by (auto simp: core_eq)
  with c show thesis
  proof (rule complete_callback_effect)
    fix p code built completed s0 s1
    assume "callback_of X slug q l p code (ls_world s2)" "client_of X p built" "core s1 = core s2"
      "complete_login (xe_client X) built p l (xl_state l) code s0 = (Inr completed, s1)"
      "(case xl_link_user_id l of Some u \<Rightarrow> link_callback X u completed ip
        | None \<Rightarrow> login_callback X p built completed (xl_redirect l) ip) s1 = (r', s')"
    then show thesis using that taken t by (simp add: core_eq)
  qed
qed

text \<open>
  C16: When a callback can have any effect (log anybody in, record a login, create or link an account):
  only for the login in flight on this very session, with the state stored when it was started and
  the provider it was started with, enabled now and named by the url; an error of the provider has
  none. And it is used up by it.
\<close>

theorem external_callback_needs_its_login:
  assumes "external_callback X slug q ip s = (r, s')"
    and "as_user (ls_session s') \<noteq> as_user (ls_session s) \<or> ls_logins s' \<noteq> ls_logins s \<or> ls_events s' \<noteq> ls_events s"
  shows "\<exists>l p code w. as_external (ls_session s) = Present l \<and> cq_error q = None \<and>
    cq_state q = Some (xl_state l) \<and> cq_code q = Some code \<and>
    enabled_provider X slug p w \<and> xl_provider_id l = ep_id p \<and> as_external (ls_session s') = Absent"
  using assms
proof (rule external_callback_effect)
  fix l p code built completed s0 s1 r' w
  assume l: "as_external (ls_session s) = Present l" "callback_of X slug q l p code w" "as_external (ls_session s1) = Absent"
    and run: "(case xl_link_user_id l of Some u \<Rightarrow> link_callback X u completed ip
      | None \<Rightarrow> login_callback X p built completed (xl_redirect l) ip) s1 = (r', s')"
  have "preserves (\<lambda>s. as_external (ls_session s)) (case xl_link_user_id l of Some u \<Rightarrow> link_callback X u completed ip
      | None \<Rightarrow> login_callback X p built completed (xl_redirect l) ip)"
    by (simp add: preserves_external_login_callback split: option.splits)
  from preservesD [OF this run] l show ?thesis by (auto simp: callback_of_def)
qed

section \<open>Whom a login logs in\<close>

abbreviation session_user :: "('w, 'o) login_state \<Rightarrow> (user_id \<times> unix_secs) slot" where
  "session_user \<equiv> \<lambda>s. as_user (ls_session s)"

lemma user_kept [intro, simp]:
  "preserves session_user (begin_external_two_factor env u kind)"
  "preserves session_user (record_login env l)" "preserves session_user (record_login_of env u ip kind factor)"
  by (rule preserves_second_factor; simp add: cycle_id_def modified_def) (rule preserves_record)+

lemma begin_external_two_factor_None:
  assumes "begin_external_two_factor env u kind s = (Inr None, s')"
  shows "\<not> external_login_requires_two_factor u \<and> s' = s"
  using assms
  by (auto simp: begin_external_two_factor_def external_login_requires_two_factor_def and_then_ok split: if_splits option.splits)

lemma authenticates:
  assumes "and_then (new_session_id env) (\<lambda>i. and_then (unix_secs_now env) (\<lambda>now.
    and_then (to_session (insert_authenticated_user i u now)) (\<lambda>_. f))) s = (r, s')" "preserves session_user f"
  shows "session_user s' = Present (u, ae_unix_secs env (ls_world s))"
proof -
  obtain s1 where "f s1 = (r, s')" "session_user s1 = Present (u, ae_unix_secs env (ls_world s))"
    using assms(1)
    by (auto simp: and_then_def new_session_id_def unix_secs_now_def asking_def to_session_def insert_authenticated_user_def)
  then show ?thesis using preservesD [OF assms(2)] by metis
qed

lemma existing_user_granted:
  assumes run: "login_existing X p info ip u s = (r, s')" and effect: "session_user s' \<noteq> session_user s"
  shows "\<exists>at. session_user s' = Present (us_id u, at)" "\<not> external_login_requires_two_factor u"
    "check_cidr_whitelist (ae_net (xe_auth X)) ip (us_cidr_whitelist u) = Inr ()"
proof -
  let ?env = "xe_auth X"
  obtain x s1 where w: "check_user_cidr_whitelist ?env u ip s = (Inr x, s1)" "session_user s' \<noteq> session_user s1"
    and r1: "and_then (call (xe_sync_external_user X (us_id u) info)) (\<lambda>_.
      get_user_id_or_two_factor ?env u ip (provider_login p)) s1 = (r, s')"
    using run effect unfolding login_existing_def by (rule goes_past) auto
  obtain y s2 where s2: "session_user s' \<noteq> session_user s2"
    and r2: "get_user_id_or_two_factor ?env u ip (provider_login p) s2 = (r, s')"
    using r1 w(2) by (rule goes_past) (simp, metis)
  obtain z s3 where s3: "session_user s' \<noteq> session_user s3"
    and r3: "and_then (begin_external_two_factor ?env u (provider_login p)) (\<lambda>factor. case factor of
       None \<Rightarrow>
         and_then (record_login_of ?env u ip (provider_login p) None) (\<lambda>_.
         and_then (new_session_id ?env) (\<lambda>i.
         and_then (unix_secs_now ?env) (\<lambda>now.
         and_then (to_session (insert_authenticated_user i (us_id u) now)) (\<lambda>_.
         done_with (User_Id (us_id u))))))
     | Some (External_Passkey response) \<Rightarrow> done_with (User_Passkey response)
     | Some External_Totp \<Rightarrow> done_with User_Totp) s3 = (r, s')"
    using r2 s2 unfolding get_user_id_or_two_factor_def by (rule goes_past) auto
  obtain factor s4 where f: "begin_external_two_factor ?env u (provider_login p) s3 = (Inr factor, s4)" "session_user s' \<noteq> session_user s4"
    and r4: "(case factor of
       None \<Rightarrow>
         and_then (record_login_of ?env u ip (provider_login p) None) (\<lambda>_.
         and_then (new_session_id ?env) (\<lambda>i.
         and_then (unix_secs_now ?env) (\<lambda>now.
         and_then (to_session (insert_authenticated_user i (us_id u) now)) (\<lambda>_.
         done_with (User_Id (us_id u))))))
     | Some (External_Passkey response) \<Rightarrow> done_with (User_Passkey response)
     | Some External_Totp \<Rightarrow> done_with User_Totp) s4 = (r, s')"
    using r3 s3 by (rule goes_past) auto
  have none: "factor = None"
    using r4 f(2) by (auto simp: done_with_def split: option.splits external_two_factor.splits)
  obtain v s5 where r5: "and_then (new_session_id ?env) (\<lambda>i. and_then (unix_secs_now ?env) (\<lambda>now.
         and_then (to_session (insert_authenticated_user i (us_id u) now)) (\<lambda>_. done_with (User_Id (us_id u))))) s5 = (r, s')"
    using r4 [unfolded none option.case] f(2) by (rule goes_past) auto
  show "\<exists>at. session_user s' = Present (us_id u, at)" using authenticates [OF r5] by auto
  show "\<not> external_login_requires_two_factor u"
    using begin_external_two_factor_None f(1) none by blast
  show "check_cidr_whitelist (ae_net ?env) ip (us_cidr_whitelist u) = Inr ()"
    using w(1) by (cases x) simp
qed

lemma no_event [intro, simp]:
  "preserves ls_events (record_login env l)" "preserves ls_events (record_login_of env u ip kind factor)"
  "preserves ls_events (to_session h)" "preserves ls_events (new_session_id env)" "preserves ls_events (unix_secs_now env)"
proof -
  show r: "preserves ls_events (record_login env l)" for l
    by (simp add: preserves_def record_login_def split: prod.splits sum.splits)
  show "preserves ls_events (record_login_of env u ip kind factor)"
    unfolding record_login_of_def using r by auto
qed (simp_all add: preserves_def to_session_def new_session_id_def unix_secs_now_def asking_def)

lemma no_event_existing [intro, simp]: "preserves ls_events (login_existing X p info ip u)"
proof -
  have "preserves ls_events (begin_external_two_factor env u kind)" for env kind
    unfolding begin_external_two_factor_def begin_passkey_def begin_totp_def by (auto split: option.splits)
  then show ?thesis
    unfolding login_existing_def get_user_id_or_two_factor_def
    by (auto split: option.splits external_two_factor.splits)
qed

lemma preserves_both: "preserves g m \<Longrightarrow> preserves h m \<Longrightarrow> preserves (\<lambda>s. (g s, h s)) m"
  by (simp add: preserves_def)

lemma signup_username_accepted:
  assumes "signup_username X p n s = (Inr name, s')"
  shows "\<exists>v. ae_validate_username (xe_auth X) name = Inr v"
proof -
  have first: "ae_validate_username (xe_auth X) name = Inr ()"
    if "first_accepted X names s = (Inr (Some name), s')" for names s s'
    using that
    by (induction names arbitrary: s) (auto simp: and_then_ok split: if_splits sum.splits)
  obtain found s1 where f: "first_accepted X [n, normalize_username n] s = (Inr found, s1)"
    and rest: "(case found of Some username \<Rightarrow> done_with username
      | None \<Rightarrow>
         and_then (drawing (xe_random_string X 8)) (\<lambda>random.
         and_then (unique_username X (normalize_username (slug_of p) @ ''-'' @ random)) (\<lambda>username.
         and_then (in_context INTERNAL_SERVER_ERROR (''No username for the new user passes '' @ quoted ''validate_username'')
           (ae_validate_username (xe_auth X) username)) (\<lambda>_. done_with username)))) s1 = (Inr name, s')"
    using assms unfolding signup_username_def and_then_ok by blast
  show ?thesis
  proof (cases found)
    case None
    then show ?thesis using rest by (simp add: and_then_ok) blast
  next
    case (Some username)
    then have "username = name" using rest by simp
    then show ?thesis using first f Some by metis
  qed
qed

text \<open>Of a new user: the registration is open, the account is created, then the session.\<close>

lemma new_user_signed_in:
  assumes run: "and_then (call c) (\<lambda>_. and_then (asking e) (\<lambda>expires. and_then (record_login env (l expires)) (\<lambda>_.
      and_then (new_session_id env) (\<lambda>i. and_then (unix_secs_now env) (\<lambda>now.
      and_then (to_session (insert_authenticated_user i u now)) (\<lambda>_. done_with x)))))) s = (r, s')"
    and effect: "session_user s' \<noteq> session_user s"
  shows "\<exists>at. session_user s' = Present (u, at)"
proof -
  obtain y s1 where s1: "session_user s' \<noteq> session_user s1"
    and r1: "and_then (asking e) (\<lambda>expires. and_then (record_login env (l expires)) (\<lambda>_.
      and_then (new_session_id env) (\<lambda>i. and_then (unix_secs_now env) (\<lambda>now.
      and_then (to_session (insert_authenticated_user i u now)) (\<lambda>_. done_with x))))) s1 = (r, s')"
    using run effect by (rule goes_past) (simp, metis)
  obtain expires s2 where s2: "session_user s' \<noteq> session_user s2"
    and r2: "and_then (record_login env (l expires)) (\<lambda>_.
      and_then (new_session_id env) (\<lambda>i. and_then (unix_secs_now env) (\<lambda>now.
      and_then (to_session (insert_authenticated_user i u now)) (\<lambda>_. done_with x)))) s2 = (r, s')"
    using r1 s1 by (rule goes_past) (simp, metis)
  obtain z s3 where "and_then (new_session_id env) (\<lambda>i. and_then (unix_secs_now env) (\<lambda>now.
      and_then (to_session (insert_authenticated_user i u now)) (\<lambda>_. done_with x))) s3 = (r, s')"
    using r2 s2 by (rule goes_past) (simp, metis)
  from authenticates [OF this] show ?thesis by auto
qed

lemma sign_up_goes_past:
  assumes "and_then (sign_up_external_user X username info no_users) f s = (r, s')"
    "(session_user s', ls_events s') \<noteq> (session_user s, ls_events s)"
  obtains u s1 where "session_user s1 = session_user s"
    "ls_events s1 = ls_events s @ [Signed_Up u username (xi_provider_id info) (xi_external_id info)]" "f u s1 = (r, s')"
proof (cases "xe_sign_up_external_user X username info no_users (ls_world s)")
  case (Pair q w)
  show thesis
  proof (cases q)
    case (Inr v)
    note run = assms(1) [unfolded and_then_def sign_up_external_user_def Pair Inr prod.case sum.case]
    show thesis by (rule that [OF _ _ run]) simp_all
  qed (use assms Pair in \<open>auto simp: and_then_def sign_up_external_user_def\<close>)
qed

lemma link_goes_past:
  assumes "and_then (link_external_login X u info) f s = (r, s')" "(session_user s', ls_events s') \<noteq> (session_user s, ls_events s)"
  obtains s1 where "ls_session s1 = ls_session s" "ls_logins s1 = ls_logins s"
    "ls_events s1 = ls_events s @ [Linked u (xi_provider_id info) (xi_external_id info)]" "f () s1 = (r, s')"
proof (cases "xe_link_external_login X u info (ls_world s)")
  case (Pair q w)
  show thesis
  proof (cases q)
    case (Inr v)
    note run = assms(1) [unfolded and_then_def link_external_login_def Pair Inr prod.case sum.case]
    show thesis by (rule that [OF _ _ _ run [simplified]]) simp_all
  qed (use assms Pair in \<open>auto simp: and_then_def link_external_login_def\<close>)
qed

lemma new_user_granted:
  assumes run: "login_new X p built completed ip s = (r, s')"
    and effect: "(session_user s', ls_events s') \<noteq> (session_user s, ls_events s)"
  shows "\<exists>u name. ls_events s' = ls_events s @ [Signed_Up u name (xi_provider_id (cl_info completed)) (xi_external_id (cl_info completed))] \<and>
      (session_user s' \<noteq> session_user s \<longrightarrow> (\<exists>at. session_user s' = Present (u, at))) \<and>
      (\<exists>v. ae_validate_username (xe_auth X) name = Inr v)"
    and "\<not> xe_registration_disabled X p \<or> fst (ae_no_users_exist (xe_auth X) (ls_world s)) = Inr True"
proof -
  let ?env = "xe_auth X" and ?info = "cl_info completed" and ?eff = "\<lambda>s. (session_user s, ls_events s)"
  let ?tail = "\<lambda>username user_id. and_then (call (xe_sync_external_user X user_id ?info)) (\<lambda>_.
     and_then (asking (\<lambda>w. default_expires_at (ae_jwt ?env) (ae_unix_secs ?env w))) (\<lambda>expires.
     and_then (record_login ?env \<lparr>lo_user_id = user_id, lo_username = username, lo_ip = ip,
        lo_kind = provider_login p, lo_second_factor = None, lo_token_expires = expires\<rparr>) (\<lambda>_.
     and_then (new_session_id ?env) (\<lambda>i.
     and_then (unix_secs_now ?env) (\<lambda>now.
     and_then (to_session (insert_authenticated_user i user_id now)) (\<lambda>_.
     done_with (User_Id user_id)))))))"
  let ?signup = "\<lambda>no_users. and_then (completed_username built completed) (\<lambda>name.
     and_then (signup_username X p name) (\<lambda>username.
     and_then (sign_up_external_user X username ?info no_users) (?tail username)))"
  have run': "and_then (call (ae_no_users_exist ?env)) (\<lambda>no_users. if xe_registration_disabled X p \<and> \<not> no_users
     then refuse UNAUTHORIZED ''User registration is disabled'' else ?signup no_users) s = (r, s')"
    using run by (simp add: login_new_def)
  obtain no_users s1 where n: "call (ae_no_users_exist ?env) s = (Inr no_users, s1)" "?eff s1 = ?eff s" "?eff s' \<noteq> ?eff s1"
    and r1: "(if xe_registration_disabled X p \<and> \<not> no_users
      then refuse UNAUTHORIZED ''User registration is disabled'' else ?signup no_users) s1 = (r, s')"
    using run' effect by (rule goes_past [where g = ?eff]) (simp add: preserves_both, blast)
  have open_registration: "\<not> (xe_registration_disabled X p \<and> \<not> no_users)"
    using r1 n(3) by (cases no_users) (auto simp: refuse_def)
  then show "\<not> xe_registration_disabled X p \<or> fst (ae_no_users_exist ?env (ls_world s)) = Inr True"
    using n(1) by (auto simp: call_ok)
  have r1': "?signup no_users s1 = (r, s')" using r1 open_registration by simp
  obtain name s2 where c: "?eff s2 = ?eff s1" "?eff s' \<noteq> ?eff s2"
    and r2: "and_then (signup_username X p name) (\<lambda>username.
      and_then (sign_up_external_user X username ?info no_users) (?tail username)) s2 = (r, s')"
    using r1' n(3) by (rule goes_past [where g = ?eff]) (simp add: preserves_both, blast)
  obtain username s3 where su: "signup_username X p name s2 = (Inr username, s3)" "?eff s3 = ?eff s2" "?eff s' \<noteq> ?eff s3"
    and r3: "and_then (sign_up_external_user X username ?info no_users) (?tail username) s3 = (r, s')"
    using r2 c(2) by (rule goes_past [where g = ?eff]) (simp add: preserves_both, blast)
  obtain u s4 where s4: "session_user s4 = session_user s3"
    "ls_events s4 = ls_events s3 @ [Signed_Up u username (xi_provider_id ?info) (xi_external_id ?info)]"
    and r4: "?tail username u s4 = (r, s')"
    using r3 su(3) by (rule sign_up_goes_past) blast
  have "preserves ls_events (?tail username u)" by (auto intro!: preserves_and_then)
  from preservesD [OF this r4] have "ls_events s' = ls_events s4" .
  moreover have "session_user s' \<noteq> session_user s4 \<longrightarrow> (\<exists>at. session_user s' = Present (u, at))"
    using new_user_signed_in [OF r4] by blast
  ultimately show "\<exists>u name. ls_events s' = ls_events s @ [Signed_Up u name (xi_provider_id ?info) (xi_external_id ?info)] \<and>
      (session_user s' \<noteq> session_user s \<longrightarrow> (\<exists>at. session_user s' = Present (u, at))) \<and>
      (\<exists>v. ae_validate_username ?env name = Inr v)"
    using signup_username_accepted [OF su(1)] s4 su(2) c(1) n(2) by auto
qed

lemma login_callback_effect:
  assumes "login_callback X p built completed redirect ip s = (r, s')" "core s' \<noteq> core s"
  obtains found s1 res s2 where
    "fst (xe_find_external_user X (xi_provider_id (cl_info completed)) (xi_external_id (cl_info completed)) (ls_world s)) = Inr found"
    "core s1 = core s" "core s' = core s2" "(case found of Some u \<Rightarrow> login_existing X p (cl_info completed) ip u
       | None \<Rightarrow> login_new X p built completed ip) s1 = (res, s2)"
  using assms unfolding login_callback_def Let_def
proof (rule goes_past)
  let ?login = "\<lambda>found. case found of Some u \<Rightarrow> login_existing X p (cl_info completed) ip u
    | None \<Rightarrow> login_new X p built completed ip"
  fix found s1
  assume f: "call (xe_find_external_user X (xi_provider_id (cl_info completed)) (xi_external_id (cl_info completed))) s = (Inr found, s1)"
    and s1: "core s1 = core s" and run: "and_then (?login found) (\<lambda>res. user_id_or_two_factor_redirect X res redirect) s1 = (r, s')"
  obtain res s2 where login: "?login found s1 = (res, s2)" by fastforce
  have "core s' = core s2"
  proof (cases res)
    case (Inr y)
    then have "user_id_or_two_factor_redirect X y redirect s2 = (r, s')" using run login by (simp add: and_then_def)
    then show ?thesis by (rule preservesD [OF keeps_external(9)])
  qed (use run login in \<open>simp add: and_then_def\<close>)
  then show thesis using that f s1 login by (simp add: call_ok)
qed simp

lemma link_callback_effect:
  assumes run: "link_callback X u completed ip s = (r, s')" and effect: "ls_events s' \<noteq> ls_events s"
  shows "\<exists>user w w'. ls_events s' = ls_events s @ [Linked u (xi_provider_id (cl_info completed)) (xi_external_id (cl_info completed))] \<and>
    fst (ae_get_user (xe_auth X) u w) = Inr user \<and> us_enabled user \<and>
    us_username user \<notin> set (ae_locked_usernames (xe_auth X)) \<and>
    check_cidr_whitelist (ae_net (xe_auth X)) ip (us_cidr_whitelist user) = Inr () \<and>
    fst (xe_find_external_user X (xi_provider_id (cl_info completed)) (xi_external_id (cl_info completed)) w') = Inr None"
proof -
  let ?i = "xi_provider_id (cl_info completed)" and ?x = "xi_external_id (cl_info completed)" and ?sync = "xe_sync_external_user X u (cl_info completed)"
  let ?link = "\<lambda>found. case found of
      Some existing \<Rightarrow> if us_id existing = u then and_then (call ?sync) (\<lambda>_. done_with (xe_post_link_redirect X))
        else refuse CONFLICT ''Account already linked to another user.''
    | None \<Rightarrow> and_then (link_external_login X u (cl_info completed)) (\<lambda>_.
        and_then (call ?sync) (\<lambda>_. done_with (xe_post_link_redirect X)))"
  obtain user s1 where g: "call (ae_get_user (xe_auth X) u) s = (Inr user, s1)" "ls_events s1 = ls_events s" "ls_events s' \<noteq> ls_events s1"
    and r1: "and_then (check_user_can_link X user ip) (\<lambda>_. and_then (call (xe_find_external_user X ?i ?x)) ?link) s1 = (r, s')"
    using run effect unfolding link_callback_def Let_def by (rule goes_past) (simp, blast)
  obtain v s2 where c: "check_user_can_link X user ip s1 = (Inr v, s2)" "ls_events s2 = ls_events s1" "ls_events s' \<noteq> ls_events s2"
    and r2: "and_then (call (xe_find_external_user X ?i ?x)) ?link s2 = (r, s')"
    using r1 g(3) by (rule goes_past) (simp, blast)
  obtain found s3 where f: "call (xe_find_external_user X ?i ?x) s2 = (Inr found, s3)" "ls_events s3 = ls_events s2" "ls_events s' \<noteq> ls_events s3"
    and r3: "?link found s3 = (r, s')"
    using r2 c(3) by (rule goes_past) (simp, blast)
  have "preserves ls_events (?link (Some e))" for e by auto
  then have none: "found = None" using preservesD [where g = ls_events and m = "?link found", OF _ r3] f(3) by (cases found) auto
  obtain s4 where s4: "ls_events s4 = ls_events s3 @ [Linked u ?i ?x]"
    and r4: "and_then (call ?sync) (\<lambda>_. done_with (xe_post_link_redirect X)) s4 = (r, s')"
    using r3 [unfolded none option.case] by (rule link_goes_past) (use f(3) in auto)
  have "preserves ls_events (and_then (call ?sync) (\<lambda>_. done_with (xe_post_link_redirect X)))" by auto
  then have "ls_events s' = ls_events s4" using r4 by (rule preservesD)
  moreover have "us_enabled user \<and> us_username user \<notin> set (ae_locked_usernames (xe_auth X)) \<and>
      check_cidr_whitelist (ae_net (xe_auth X)) ip (us_cidr_whitelist user) = Inr ()"
    using c(1) by (auto simp: check_user_can_link_def check_username_locked_def and_then_ok list_ex_iff split: if_splits)
  ultimately show ?thesis using g f none s4 c(2) by (auto simp: call_ok) (metis fst_conv)
qed

text \<open>
  The account at the provider a code stands for, redeemed with the verifier and the nonce of the
  login in flight: the subject of the ID token (OpenID, Google), or the user Github knows the token for.
\<close>

inductive redeems ::
  "('w, 'o) client_lib \<Rightarrow> external_login \<Rightarrow> string \<Rightarrow> 'w \<Rightarrow> ('w, 'o) built_provider \<Rightarrow> string \<Rightarrow> bool" for C l code w where
  By_Oidc: "xl_nonce l = Some nonce \<Longrightarrow> xl_pkce_verifier l = Some verifier \<Longrightarrow>
     ol_exchange_code (op_client P) code verifier w = (Inr token, w1) \<Longrightarrow> ol_id_token (op_client P) token = Some id_token \<Longrightarrow>
     ol_login_claims (op_client P) (trusts_audience P) nonce id_token w1 = Some claims \<Longrightarrow>
     redeems C l code w (Built_Oidc P) (ic_subject claims)"
| By_Github: "xl_pkce_verifier l = Some verifier \<Longrightarrow> cx_github_token C g code verifier w = (Inr token, w1) \<Longrightarrow>
     cx_github_user C g token w1 = (Inr user, w2) \<Longrightarrow> redeems C l code w (Built_Github g) (gh_id user)"
| By_Google: "xl_nonce l = Some nonce \<Longrightarrow> gp_exchange_code G code w = (Inr token, w1) \<Longrightarrow>
     gp_id_token G token = Some id_token \<Longrightarrow> gp_claims G nonce id_token w1 = Some claims \<Longrightarrow>
     redeems C l code w (Built_Google G) (ic_subject claims)"

lemma oidc_subject:
  assumes "validate_extract_login_info_and_token P config states code verifier nonce s = (Inr (info, token), s')"
    and "xl_nonce l = Some nonce" "xl_pkce_verifier l = Some verifier"
  shows "redeems C l code (ls_world s) (Built_Oidc P) (oi_subject info)"
  using assms
  by (auto simp: validate_extract_login_info_and_token_def and_then_ok call_ok Let_def oidc_login_info_new_def
      id_token_claims_def split: prod.splits if_splits intro: By_Oidc)

lemma complete_login_redeems:
  assumes "complete_login C built p l client_state code s = (Inr c, s')"
  shows "redeems C l code (ls_world s) built (xi_external_id (cl_info c))"
  using assms
  by (auto simp: complete_login_def and_then_ok call_ok base_info_def oidc_info_def get_google_user_def google_user_from_claims_def
      split: built_provider.splits provider_config.splits prod.splits
      intro: oidc_subject By_Github By_Google)

text \<open>
  C15: Whom a callback logs in: never while linking; the code is redeemed at the provider the login was
  begun with, by the login's own verifier and nonce, and it is the account this names which decides:
  a user that account is linked to, within their whitelist, who needs no second factor for it; or a
  new user, created by this callback for that account under a name the app accepts, while the
  registration is open for the provider or the app has no users.
\<close>

theorem external_login_grants:
  assumes "external_callback X slug q ip s = (r, s')"
    and "as_user (ls_session s') \<noteq> as_user (ls_session s)"
  shows "\<exists>l p built code u at x. as_external (ls_session s) = Present l \<and> xl_link_user_id l = None \<and>
    cq_code q = Some code \<and> ep_id p = xl_provider_id l \<and> client_of X p built \<and>
    (\<exists>w. redeems (xe_client X) l code w built x) \<and>
    as_user (ls_session s') = Present (u, at) \<and>
    ((\<exists>w user. fst (xe_find_external_user X (xl_provider_id l) x w) = Inr (Some user) \<and> us_id user = u \<and>
        \<not> external_login_requires_two_factor user \<and>
        check_cidr_whitelist (ae_net (xe_auth X)) ip (us_cidr_whitelist user) = Inr ()) \<or>
     (\<exists>w w' name. fst (xe_find_external_user X (xl_provider_id l) x w) = Inr None \<and>
        (\<not> xe_registration_disabled X p \<or> fst (ae_no_users_exist (xe_auth X) w') = Inr True) \<and>
        ls_events s' = ls_events s @ [Signed_Up u name (xl_provider_id l) x] \<and>
        ae_validate_username (xe_auth X) name = Inr ()))"
proof -
  have effect: "as_user (ls_session s') \<noteq> as_user (ls_session s) \<or> ls_logins s' \<noteq> ls_logins s \<or> ls_events s' \<noteq> ls_events s"
    using assms(2) by blast
  obtain l p code built completed s0 s1 r' w where l: "as_external (ls_session s) = Present l" "callback_of X slug q l p code w"
      "client_of X p built"
    and c: "complete_login (xe_client X) built p l (xl_state l) code s0 = (Inr completed, s1)"
    and s1: "session_user s1 = session_user s" "ls_events s1 = ls_events s"
    and run: "(case xl_link_user_id l of Some u \<Rightarrow> link_callback X u completed ip
      | None \<Rightarrow> login_callback X p built completed (xl_redirect l) ip) s1 = (r', s')"
    using assms(1) effect by (rule external_callback_effect)
  have pid: "xi_provider_id (cl_info completed) = xl_provider_id l" "ep_id p = xl_provider_id l"
    using complete_login_info [OF c] l(2) by (auto simp: callback_of_def)
  have code: "cq_code q = Some code" using l(2) by (simp add: callback_of_def)
  have redeemed: "\<exists>w. redeems (xe_client X) l code w built (xi_external_id (cl_info completed))"
    using complete_login_redeems [OF c] by blast
  note known = l(1) code pid(2) l(3) redeemed
  have no_link: "xl_link_user_id l = None"
  proof (cases "xl_link_user_id l")
    case (Some u)
    then have "session_user s' = session_user s1"
      using run preservesD [OF preserves_link [where g = as_user]] by auto
    then show ?thesis using s1(1) assms(2) by simp
  qed
  have "core s' \<noteq> core s1" using s1(1) assms(2) by (auto simp: core_eq)
  let ?x = "xi_external_id (cl_info completed)"
  obtain found s2 res s3 where found: "fst (xe_find_external_user X (xl_provider_id l) ?x (ls_world s1)) = Inr found"
    and cores: "core s2 = core s1" "core s' = core s3"
    and login: "(case found of Some u \<Rightarrow> login_existing X p (cl_info completed) ip u
       | None \<Rightarrow> login_new X p built completed ip) s2 = (res, s3)"
    using run [unfolded no_link option.case] \<open>core s' \<noteq> core s1\<close> unfolding pid(1) [symmetric] by (rule login_callback_effect)
  have s3': "session_user s' = session_user s3" "ls_events s' = ls_events s3" "session_user s3 \<noteq> session_user s2"
    and s2': "session_user s2 = session_user s1" "ls_events s2 = ls_events s1"
    using cores s1 assms(2) by (auto simp: core_eq)
  show ?thesis
  proof (cases found)
    case (Some user)
    then have "login_existing X p (cl_info completed) ip user s2 = (res, s3)" using login by simp
    from existing_user_granted [OF this s3'(3)] show ?thesis
      using known no_link found Some s3'(1) by metis
  next
    case None
    then have new: "login_new X p built completed ip s2 = (res, s3)" using login by simp
    have eff: "(session_user s3, ls_events s3) \<noteq> (session_user s2, ls_events s2)" using s3'(3) by simp
    obtain u name at where "ls_events s3 = ls_events s2 @ [Signed_Up u name (xl_provider_id l) ?x]"
      "session_user s3 = Present (u, at)" "ae_validate_username (xe_auth X) name = Inr ()"
      using new_user_granted(1) [OF new eff] s3'(3) pid(1) by auto
    then show ?thesis
      using known no_link found None s3' s2' s1 new_user_granted(2) [OF new eff] by metis
  qed
qed

text \<open>
  Whom a callback links: the user who began the link on this session, at the provider the link
  was begun with; loaded again and still enabled, not locked and within their whitelist; and only
  when the provider's account belongs to nobody. It logs nobody in.
\<close>

theorem external_link_checked:
  assumes "external_callback X slug q ip s = (r, s')"
    and "Linked u i x \<in> set (ls_events s')" "Linked u i x \<notin> set (ls_events s)"
  shows "\<exists>l user w w'. as_external (ls_session s) = Present l \<and> xl_link_user_id l = Some u \<and> xl_provider_id l = i \<and>
    fst (ae_get_user (xe_auth X) u w) = Inr user \<and> us_enabled user \<and>
    us_username user \<notin> set (ae_locked_usernames (xe_auth X)) \<and>
    check_cidr_whitelist (ae_net (xe_auth X)) ip (us_cidr_whitelist user) = Inr () \<and>
    fst (xe_find_external_user X i x w') = Inr None \<and> as_user (ls_session s') = as_user (ls_session s)"
proof -
  have effect: "as_user (ls_session s') \<noteq> as_user (ls_session s) \<or> ls_logins s' \<noteq> ls_logins s \<or> ls_events s' \<noteq> ls_events s"
    using assms(2,3) by auto
  obtain l p code built completed s0 s1 r' w where l: "as_external (ls_session s) = Present l" "callback_of X slug q l p code w"
      "client_of X p built"
    and c: "complete_login (xe_client X) built p l (xl_state l) code s0 = (Inr completed, s1)"
    and s1: "session_user s1 = session_user s" "ls_events s1 = ls_events s"
    and run: "(case xl_link_user_id l of Some u \<Rightarrow> link_callback X u completed ip
      | None \<Rightarrow> login_callback X p built completed (xl_redirect l) ip) s1 = (r', s')"
    using assms(1) effect by (rule external_callback_effect)
  have pid: "xi_provider_id (cl_info completed) = xl_provider_id l"
    using complete_login_info [OF c] l(2) by (auto simp: callback_of_def)
  have linked: "Linked u i x \<in> set (ls_events s')" "Linked u i x \<notin> set (ls_events s1)" using assms(2,3) s1(2) by simp_all
  show ?thesis
  proof (cases "xl_link_user_id l")
    case (Some v)
    then have link: "link_callback X v completed ip s1 = (r', s')" using run by simp
    from link_callback_effect [OF this] linked obtain user w w' where e:
      "ls_events s' = ls_events s1 @ [Linked v (xl_provider_id l) (xi_external_id (cl_info completed))]"
      and checked: "fst (ae_get_user (xe_auth X) v w) = Inr user" "us_enabled user"
        "us_username user \<notin> set (ae_locked_usernames (xe_auth X))"
        "check_cidr_whitelist (ae_net (xe_auth X)) ip (us_cidr_whitelist user) = Inr ()"
        "fst (xe_find_external_user X (xl_provider_id l) (xi_external_id (cl_info completed)) w') = Inr None"
      unfolding pid by metis
    have "v = u" "xl_provider_id l = i" "xi_external_id (cl_info completed) = x" using linked e by auto
    moreover have "session_user s' = session_user s"
      using preservesD [OF preserves_link [where g = as_user] link] s1(1) by simp
    ultimately show ?thesis using l(1) Some checked by metis
  next
    case None
    have "core s' \<noteq> core s1" using linked by (auto simp: core_eq)
    with run [unfolded None option.case] obtain found s2 res s3 where cores: "core s2 = core s1" "core s' = core s3"
      and login: "(case found of Some u \<Rightarrow> login_existing X p (cl_info completed) ip u
        | None \<Rightarrow> login_new X p built completed ip) s2 = (res, s3)"
      by (rule login_callback_effect)
    have ev: "ls_events s' = ls_events s3" "ls_events s2 = ls_events s1" using cores by (auto simp: core_eq)
    have "\<exists>evs. ls_events s3 = ls_events s2 @ evs \<and> (\<forall>u i x. Linked u i x \<notin> set evs)"
    proof (cases found)
      case (Some user)
      then have "ls_events s3 = ls_events s2" using login preservesD [OF no_event_existing] by auto
      then show ?thesis by simp
    next
      case None
      then have new: "login_new X p built completed ip s2 = (res, s3)" using login by simp
      show ?thesis
      proof (cases "ls_events s3 = ls_events s2")
        case False
        then show ?thesis using new_user_granted(1) [OF new] by auto
      qed simp
    qed
    then show ?thesis using linked ev by auto
  qed
qed

section \<open>A demonstration\<close>

text \<open>A Github provider whose codes are the ids of its users; one of them is linked to a user of the app.\<close>

definition demo_client_lib :: "(nat, demo_value) client_lib" where
  "demo_client_lib = \<lparr>cx_token_lib = \<lparr>tl_parse = (\<lambda>_. None), tl_claims = (\<lambda>_ _ _ _ _. None), tl_payload = (\<lambda>_. None), tl_f64 = (\<lambda>_. 0)\<rparr>,
     cx_authorize_oidc = (\<lambda>_ w. (([], [], [], []), w)), cx_authorize_github = (\<lambda>_ w. ((''https://github'', ''st'', ''v''), w)),
     cx_authorize_google = (\<lambda>_ w. (([], [], []), w)),
     cx_github_token = (\<lambda>_ code verifier w. (if verifier = ''v'' then Inr code else Inl (Failure INTERNAL_SERVER_ERROR None), w)),
     cx_github_user = (\<lambda>_ token w. (Inr \<lparr>gh_id = token, gh_login = ''new'', gh_avatar_url = []\<rparr>, w))\<rparr>"

definition demo_external :: "(nat, demo_value) external_env" where
  "demo_external = \<lparr>xe_auth = demo_env, xe_client = demo_client_lib,
     xe_urls = \<lparr>ru_parse = (\<lambda>_. None), ru_join = (\<lambda>_ _. None), ru_scheme = (\<lambda>_. []), ru_host = (\<lambda>_. None),
       ru_query = (\<lambda>_. None), ru_set_query = (\<lambda>_ u. u), ru_text = (\<lambda>_. [])\<rparr>,
     xe_host = ''https://app'', xe_error_redirect = None, xe_post_link_redirect = ''/profile'', xe_urlencode = id,
     xe_failure_text = (\<lambda>_. []), xe_passkey_text = (\<lambda>_. None), xe_random_string = (\<lambda>n w. (replicate n CHR ''x'', w)),
     xe_save_session = (\<lambda>w. (Inr (), w)), xe_static_providers = [demo_github ''gh'' ''work''],
     xe_list_providers = (\<lambda>w. (Inr [], w)), xe_load_client = (\<lambda>_ w. (Inr (Built_Github (V4 0, 0)), w)),
     xe_registration_disabled = (\<lambda>_. False),
     xe_find_external_user = (\<lambda>i x w. (Inr (if i = ''gh'' \<and> x = ''7'' then demo_find ''bob'' else None), w)),
     xe_sync_external_user = (\<lambda>_ _ w. (Inr (), w)), xe_sign_up_external_user = (\<lambda>name _ _ w. (Inr name, w)),
     xe_link_external_login = (\<lambda>_ _ w. (Inr (), w))\<rparr>"

lemma demo_external_sel [simp]:
  "xe_auth demo_external = demo_env" "xe_client demo_external = demo_client_lib" "xe_error_redirect demo_external = None"
  "xe_save_session demo_external w = (Inr (), w)" "xe_load_client demo_external p w = (Inr (Built_Github (V4 0, 0)), w)"
  "xe_registration_disabled demo_external p = False" "xe_sync_external_user demo_external u info w = (Inr (), w)"
  "xe_find_external_user demo_external i x w = (Inr (if i = ''gh'' \<and> x = ''7'' then demo_find ''bob'' else None), w)"
  "xe_link_external_login demo_external u info w = (Inr (), w)"
  by (simp_all add: demo_external_def)

definition demo_in_flight :: "user_id option \<Rightarrow> (nat, demo_value) login_state" where
  "demo_in_flight link = demo_state\<lparr>ls_session := (empty_session 1)\<lparr>as_external := Present
     \<lparr>xl_provider_id = ''gh'', xl_link_user_id = link, xl_state = ''st'', xl_nonce = None,
      xl_pkce_verifier = Some ''v'', xl_redirect = None\<rparr>\<rparr>\<rparr>"

definition demo_query :: "string \<Rightarrow> callback_query" where
  "demo_query code = \<lparr>cq_state = Some ''st'', cq_code = Some code, cq_error = None\<rparr>"

lemma demo_resolves: "resolve_enabled_provider demo_external ''work'' s = (Inr (demo_github ''gh'' ''work''), s)"
  by (simp add: resolve_enabled_provider_def resolve_external_provider_by_slug_def list_external_providers_def
      find_by_slug_def merge_providers_def merge_step_def demo_external_def demo_github_def slug_of_def provider_enabled_def
      named_enabled_def validate_provider_id_def MAX_PROVIDER_ID_LENGTH_def is_ascii_alnum_def is_ascii_lower_def
      is_ascii_upper_def is_ascii_digit_def flow_steps)

definition demo_completed :: "string \<Rightarrow> demo_value completed_login" where
  "demo_completed code = \<lparr>cl_info = (base_info (demo_github ''gh'' ''work'') code)\<lparr>xi_avatar_url := Some []\<rparr>,
     cl_username = Known ''new''\<rparr>"

lemma demo_complete_login:
  "xl_pkce_verifier l = Some ''v'' \<Longrightarrow> complete_login demo_client_lib (Built_Github (V4 0, 0)) (demo_github ''gh'' ''work'') l st code s =
     (Inr (demo_completed code), s)"
  by (simp add: complete_login_def demo_completed_def demo_github_def demo_client_lib_def flow_steps)

text \<open>The callback takes the login and comes to its end.\<close>

lemma demo_callback:
  "external_callback demo_external ''work'' (demo_query code) ip (demo_in_flight link) =
     (case (case link of Some u \<Rightarrow> link_callback demo_external u (demo_completed code) ip
        | None \<Rightarrow> login_callback demo_external (demo_github ''gh'' ''work'') (Built_Github (V4 0, 0)) (demo_completed code) None ip)
        (demo_state\<lparr>ls_session := modified (empty_session 1)\<rparr>) of (res, s) \<Rightarrow>
      (error_redirect demo_external (if link \<noteq> None then Link_Flow else Login_Flow) res, s))"
  by (cases link) (simp_all add: external_callback_def take_external_login_def retrieve_external_login_def taken_def modified_def
      slot_required_def slot_get_def empty_session_def save_session_def demo_in_flight_def complete_callback_def query_open_def
      demo_query_def demo_resolves validate_callback_def load_provider_client_def demo_complete_login
      and_then_def on_session_def done_with_def required_def demo_state_def demo_github_def [of "''gh''" "''work''", THEN arg_cong [where f = ep_id]])

lemma demo_bob_logs_in:
  "\<exists>s'. login_existing demo_external (demo_github ''gh'' ''work'') info (V4 0x0A000001) (demo_user ''bob'' None)
      (demo_state\<lparr>ls_session := modified (empty_session 1)\<rparr>) = (Inr (User_Id ''bob''), s') \<and>
     as_user (ls_session s') = Present (''bob'', 1000)"
  by (simp add: login_existing_def get_user_id_or_two_factor_def flow_steps demo_whitelist new_session_id_def unix_secs_now_def
      begin_external_two_factor_def external_login_requires_two_factor_def insert_authenticated_user_def cycle_id_def modified_def)

lemma demo_login_runs:
  "\<exists>r s'. external_callback demo_external ''work'' (demo_query ''7'') (V4 0x0A000001) (demo_in_flight None) = (r, s') \<and>
     as_user (ls_session s') = Present (''bob'', 1000)"
proof -
  let ?s = "demo_state\<lparr>ls_session := modified (empty_session 1)\<rparr>"
  have info: "cl_info (demo_completed ''7'') = \<lparr>xi_provider_id = ''gh'', xi_kind = Github, xi_external_id = ''7'',
      xi_avatar_url = Some [], xi_groups = None, xi_admin = None\<rparr>"
    by (simp add: demo_completed_def base_info_def demo_github_def provider_kind_def)
  obtain s' where bob: "login_existing demo_external (demo_github ''gh'' ''work'') (cl_info (demo_completed ''7'')) (V4 0x0A000001)
      (demo_user ''bob'' None) ?s = (Inr (User_Id ''bob''), s')" "as_user (ls_session s') = Present (''bob'', 1000)"
    using demo_bob_logs_in by blast
  have found: "call (xe_find_external_user demo_external ''gh'' ''7'') ?s = (Inr (Some (demo_user ''bob'' None)), ?s)"
    by (simp add: call_def demo_find_def demo_state_def)
  have "login_callback demo_external (demo_github ''gh'' ''work'') (Built_Github (V4 0, 0)) (demo_completed ''7'') None (V4 0x0A000001) ?s =
      user_id_or_two_factor_redirect demo_external (User_Id ''bob'') None s'"
    using found bob(1) by (simp add: login_callback_def Let_def info and_then_step)
  then show ?thesis using bob(2) by (simp add: demo_callback user_id_or_two_factor_redirect_def done_with_def)
qed

lemma demo_link_runs:
  "\<exists>r s'. external_callback demo_external ''work'' (demo_query ''8'') (V4 0x0A000001) (demo_in_flight (Some ''ann'')) = (r, s') \<and>
     Linked ''ann'' ''gh'' ''8'' \<in> set (ls_events s')"
proof -
  let ?s = "demo_state\<lparr>ls_session := modified (empty_session 1)\<rparr>" and ?ann = "demo_user ''ann'' (Some ''S'')"
  have info: "cl_info (demo_completed ''8'') = \<lparr>xi_provider_id = ''gh'', xi_kind = Github, xi_external_id = ''8'',
      xi_avatar_url = Some [], xi_groups = None, xi_admin = None\<rparr>"
    by (simp add: demo_completed_def base_info_def demo_github_def provider_kind_def)
  have get: "call (ae_get_user demo_env ''ann'') ?s = (Inr ?ann, ?s)"
    by (simp add: call_def demo_env_def demo_find_def demo_state_def)
  have can: "check_user_can_link demo_external ?ann (V4 0x0A000001) ?s = (Inr (), ?s)"
    by (simp add: check_user_can_link_def check_username_locked_def flow_steps demo_whitelist)
  have found: "call (xe_find_external_user demo_external ''gh'' ''8'') ?s = (Inr None, ?s)"
    by (simp add: call_def demo_state_def)
  have link: "link_external_login demo_external ''ann'' (cl_info (demo_completed ''8'')) ?s =
      (Inr (), ?s\<lparr>ls_events := [Linked ''ann'' ''gh'' ''8'']\<rparr>)"
    by (simp add: link_external_login_def info demo_state_def)
  have sync: "call (xe_sync_external_user demo_external ''ann'' x) s = (Inr (), s)" for x s by (simp add: call_def)
  have "link_callback demo_external ''ann'' (demo_completed ''8'') (V4 0x0A000001) ?s =
      (Inr (xe_post_link_redirect demo_external), ?s\<lparr>ls_events := [Linked ''ann'' ''gh'' ''8'']\<rparr>)"
    using get can found link by (simp add: link_callback_def Let_def info and_then_step sync done_with_def)
  then show ?thesis by (simp add: demo_callback)
qed

lemma external_callback_needs_its_login_witness:
  "\<exists>l. as_external (ls_session (demo_in_flight None)) = Present l \<and> cq_state (demo_query ''7'') = Some (xl_state l)"
proof -
  obtain r s' where run: "external_callback demo_external ''work'' (demo_query ''7'') (V4 0x0A000001) (demo_in_flight None) = (r, s')"
    and "as_user (ls_session s') = Present (''bob'', 1000)" using demo_login_runs by blast
  then have "as_user (ls_session s') \<noteq> as_user (ls_session (demo_in_flight None))"
    by (simp add: demo_in_flight_def demo_state_def empty_session_def)
  then show ?thesis using external_callback_needs_its_login [OF run] by blast
qed

lemma external_login_grants_witness:
  "\<exists>l built w x. as_external (ls_session (demo_in_flight None)) = Present l \<and> xl_link_user_id l = None \<and>
     client_of demo_external (demo_github ''gh'' ''work'') built \<and> redeems demo_client_lib l ''7'' w built x \<and>
     (\<exists>user. fst (xe_find_external_user demo_external ''gh'' x w) = Inr (Some user) \<and> us_id user = ''bob'') \<and> x = ''7''"
proof -
  obtain r s' where run: "external_callback demo_external ''work'' (demo_query ''7'') (V4 0x0A000001) (demo_in_flight None) = (r, s')"
    and user: "as_user (ls_session s') = Present (''bob'', 1000)" using demo_login_runs by blast
  then have "as_user (ls_session s') \<noteq> as_user (ls_session (demo_in_flight None))"
    by (simp add: demo_in_flight_def demo_state_def empty_session_def)
  from external_login_grants [OF run this] obtain l p built code x w where known:
    "as_external (ls_session (demo_in_flight None)) = Present l" "xl_link_user_id l = None"
    "cq_code (demo_query ''7'') = Some code" "client_of demo_external p built" "redeems demo_client_lib l code w built x"
    by auto
  then have built: "built = Built_Github (V4 0, 0)" "code = ''7''" by (auto simp: client_of_def demo_query_def)
  with known(5) have "x = ''7''" by (auto simp: redeems.simps demo_client_lib_def split: if_splits)
  then show ?thesis using known built by (auto simp: client_of_def demo_find_def demo_user_def)
qed

lemma external_link_checked_witness:
  "\<exists>l. as_external (ls_session (demo_in_flight (Some ''ann''))) = Present l \<and> xl_link_user_id l = Some ''ann''"
proof -
  obtain r s' where run: "external_callback demo_external ''work'' (demo_query ''8'') (V4 0x0A000001) (demo_in_flight (Some ''ann'')) = (r, s')"
    and linked: "Linked ''ann'' ''gh'' ''8'' \<in> set (ls_events s')" using demo_link_runs by blast
  have "Linked ''ann'' ''gh'' ''8'' \<notin> set (ls_events (demo_in_flight (Some ''ann'')))"
    by (simp add: demo_in_flight_def demo_state_def)
  then show ?thesis using external_link_checked [OF run linked] by blast
qed

end
