(* ===== verification/TokenExchange.thy ===== *)
theory TokenExchange
  imports ExternalFlow Errors
begin

text \<open>
  The token endpoint, \<^verbatim>\<open>auth/server/src/api/token.rs\<close>: a token of a login provider or of
  a trusted issuer is exchanged for an app token; and the exchange of the login API,
  \<^verbatim>\<open>api/login/external.rs\<close>, which may go on with a second factor. The failure rate limit
  around both is the attempt of LimiterSystem; the lock an exchange holds on the rule, against an
  update of its issuer, makes reading the rule again and getting its user one step.
\<close>

section \<open>Requests, errors and results\<close>

definition GRANT_TYPE_TOKEN_EXCHANGE :: string where
  "GRANT_TYPE_TOKEN_EXCHANGE = ''urn:ietf:params:oauth:grant-type:token-exchange''"
definition TOKEN_TYPE_ID_TOKEN :: string where
  "TOKEN_TYPE_ID_TOKEN = ''urn:ietf:params:oauth:token-type:id_token''"
definition TOKEN_TYPE_JWT :: string where
  "TOKEN_TYPE_JWT = ''urn:ietf:params:oauth:token-type:jwt''"
definition TOKEN_TYPE_ACCESS_TOKEN :: string where
  "TOKEN_TYPE_ACCESS_TOKEN = ''urn:ietf:params:oauth:token-type:access_token''"
definition GOOGLE_ISSUER :: string where "GOOGLE_ISSUER = ''https://accounts.google.com''"

record token_request =
  tr_grant_type :: string
  tr_subject_token :: string
  tr_subject_token_type :: string
  tr_requested_token_type :: "string option"
  tr_actor_token :: "string option"
  tr_actor_token_type :: "string option"

text \<open>An OAuth error with its code, a role nobody has (also an OAuth error), or any other.\<close>

datatype exchange_error = Oauth string string | Role_Not_Found string string | Other failure

type_synonym ('w, 'o, 'a) xflow = "('w, 'o) login_state \<Rightarrow> (exchange_error + 'a) \<times> ('w, 'o) login_state"

definition oauth_error :: "string \<Rightarrow> string \<Rightarrow> ('w, 'o, 'a) xflow" where
  "oauth_error code description = from_result (Inl (Oauth code description))"

definition invalid_request :: "string \<Rightarrow> ('w, 'o, 'a) xflow" where
  "invalid_request = oauth_error ''invalid_request''"

definition invalid_grant :: "string \<Rightarrow> ('w, 'o, 'a) xflow" where
  "invalid_grant = oauth_error ''invalid_grant''"

definition plain :: "('w, 'o, 'a) flow \<Rightarrow> ('w, 'o, 'a) xflow" where
  "plain m s = map_prod (map_sum Other id) id (m s)"

fun error_status :: "exchange_error \<Rightarrow> status" where
  "error_status (Oauth _ _) = BAD_REQUEST"
| "error_status (Role_Not_Found _ _) = BAD_REQUEST"
| "error_status (Other e) = failure_status e"

record token_error_body =
  te_error :: string
  te_description :: "string option"

text \<open>\<open>note\<close> is the failed attempt the rate limit put on top of the error, if it did.\<close>

definition token_exchange_error ::
  "(failure \<Rightarrow> string) \<Rightarrow> failed_attempt_note option \<Rightarrow> exchange_error \<Rightarrow> status \<times> token_error_body" where
  "token_exchange_error text note e =
     (let oauth = (\<lambda>code description. (BAD_REQUEST, \<lparr>te_error = code,
            te_description = Some (case note of Some n \<Rightarrow> annotate n description | None \<Rightarrow> description)\<rparr>));
          shown = (\<lambda>f. case note of Some n \<Rightarrow> display_attempt n | None \<Rightarrow> text f) in
      case e of
        Oauth code description \<Rightarrow> oauth code description
      | Role_Not_Found _ description \<Rightarrow> oauth ''invalid_grant'' description
      | Other f \<Rightarrow>
          if failure_status f \<in> {TOO_MANY_REQUESTS, SERVICE_UNAVAILABLE}
          then (failure_status f, \<lparr>te_error = ''temporarily_unavailable'', te_description = Some (shown f)\<rparr>)
          else if is_client_error (failure_status f)
          then (BAD_REQUEST, \<lparr>te_error = ''invalid_grant'', te_description = Some (shown f)\<rparr>)
          else (INTERNAL_SERVER_ERROR, \<lparr>te_error = ''server_error'', te_description = None\<rparr>))"

definition validate_request :: "token_request \<Rightarrow> ('w, 'o, string) xflow" where
  "validate_request q =
     (if tr_grant_type q \<noteq> GRANT_TYPE_TOKEN_EXCHANGE
      then oauth_error ''unsupported_grant_type'' (''Only '' @ quoted GRANT_TYPE_TOKEN_EXCHANGE @ '' is supported'')
      else if tr_subject_token_type q \<notin> {TOKEN_TYPE_ID_TOKEN, TOKEN_TYPE_JWT}
      then invalid_request (quoted ''subject_token_type'' @ '' must be '' @ quoted TOKEN_TYPE_ID_TOKEN @ '' or '' @
        quoted TOKEN_TYPE_JWT @ ''. Only tokens signed by the provider can be exchanged.'')
      else if tr_actor_token q \<noteq> None \<or> tr_actor_token_type q \<noteq> None
      then invalid_request (quoted ''actor_token'' @ '' (delegation) is not supported'')
      else if tr_subject_token q = [] then invalid_request (quoted ''subject_token'' @ '' is empty'')
      else if MAX_SUBJECT_TOKEN_LENGTH < length (tr_subject_token q)
      then invalid_request (quoted ''subject_token'' @ '' is too large'')
      else case tr_requested_token_type q of
        None \<Rightarrow> done_with TOKEN_TYPE_ACCESS_TOKEN
      | Some t \<Rightarrow>
          if t = TOKEN_TYPE_ACCESS_TOKEN then done_with TOKEN_TYPE_ACCESS_TOKEN
          else if t = TOKEN_TYPE_JWT then done_with TOKEN_TYPE_JWT
          else invalid_request (quoted ''requested_token_type'' @ '' must be '' @ quoted TOKEN_TYPE_ACCESS_TOKEN @
            '' or '' @ quoted TOKEN_TYPE_JWT))"

section \<open>The app\<close>

record workload_identity =
  wi_issuer_id :: string
  wi_rule_id :: string
  wi_rule_name :: string
  wi_groups :: "string list"
  wi_admin :: bool
  wi_claims :: claims

record ('w, 'o) token_env =
  tn_ext :: "('w, 'o) external_env"
  tn_static_issuers :: "trusted_issuer list"
  tn_list_issuers :: "('w, trusted_issuer list) callback"
  tn_load_keys :: "trusted_issuer \<Rightarrow> ('w, 'o token_keys) callback"
  tn_get_or_create_workload_user :: "workload_identity \<Rightarrow> ('w, user_id) callback"

abbreviation tn_auth :: "('w, 'o) token_env \<Rightarrow> ('w, 'o) auth_env" where
  "tn_auth T \<equiv> xe_auth (tn_ext T)"

abbreviation tn_lib :: "('w, 'o) token_env \<Rightarrow> 'o token_lib" where
  "tn_lib T \<equiv> cx_token_lib (xe_client (tn_ext T))"

record token_response =
  ts_access_token :: string
  ts_issued_token_type :: string
  ts_token_type :: string
  ts_expires_in :: nat

record exchanged_token =
  et_response :: token_response
  et_user_id :: user_id
  et_login :: login_kind

definition is_role :: "string option \<Rightarrow> string list \<Rightarrow> bool" where
  "is_role role names = (case role of None \<Rightarrow> True | Some r \<Rightarrow> r \<in> set names)"

section \<open>Tokens of users\<close>

definition provider_issues :: "external_login_provider \<Rightarrow> string \<Rightarrow> bool" where
  "provider_issues p issuer = (case ep_config p of
     Oidc_Config config \<Rightarrow> issuers_match (oc_provider config) issuer
   | Google_Config _ \<Rightarrow> issuers_match GOOGLE_ISSUER issuer
   | Github_Config _ \<Rightarrow> False)"

definition exchange_candidates ::
  "external_login_provider list \<Rightarrow> string \<Rightarrow> string option \<Rightarrow> external_login_provider list" where
  "exchange_candidates providers issuer role = filter (\<lambda>p. provider_issues p issuer)
     (filter (\<lambda>p. provider_enabled p \<and> tx_enabled (ep_token_exchange p) \<and>
        is_role role [ep_id p, slug_of p, ep_name p]) providers)"

record 'o verified_exchange =
  ve_provider :: external_login_provider
  ve_user :: "'o user"
  ve_info :: external_info
  ve_authenticated_at :: unix_secs

text \<open>A step whose error the loop keeps instead of ending with it.\<close>

definition attempt_of :: "('w, 'o, 'a) flow \<Rightarrow> ('w, 'o, failure + 'a) xflow" where
  "attempt_of m s = (case m s of (r, s') \<Rightarrow> (Inr r, s'))"

definition or_insert :: "'a option \<Rightarrow> 'a \<Rightarrow> 'a option" where
  "or_insert x y = (case x of None \<Rightarrow> Some y | Some z \<Rightarrow> Some z)"

text \<open>The first candidate which accepts the token and has its user; else the furthest any got.\<close>

fun try_candidates ::
  "('w, 'o) token_env \<Rightarrow> string \<Rightarrow> failure option \<Rightarrow> failure option \<Rightarrow> string option \<Rightarrow>
   external_login_provider list \<Rightarrow> ('w, 'o, 'o verified_exchange) xflow" where
  "try_candidates T token unavailable rejected unknown [] =
     (case unknown of
        Some name \<Rightarrow> invalid_grant (''No user is linked to this identity. Log in with '' @ quoted name @
          '' once before exchanging tokens.'')
      | None \<Rightarrow> (case (case unavailable of Some e \<Rightarrow> Some e | None \<Rightarrow> rejected) of
          Some e \<Rightarrow>
            if is_client_error (failure_status e) then invalid_grant (xe_failure_text (tn_ext T) e)
            else from_result (Inl (Other e))
        | None \<Rightarrow> invalid_grant ''Token was rejected''))"
| "try_candidates T token unavailable rejected unknown (p # candidates) =
     and_then (attempt_of (load_provider_client (tn_ext T) p)) (\<lambda>loaded. case loaded of
       Inl e \<Rightarrow> try_candidates T token (or_insert unavailable e) rejected unknown candidates
     | Inr built \<Rightarrow>
         and_then (asking (ae_unix_secs (tn_auth T))) (\<lambda>now.
         case verify_exchange_token (xe_client (tn_ext T)) built p token now of
           Inl e \<Rightarrow> try_candidates T token unavailable (Some e) unknown candidates
         | Inr info \<Rightarrow>
             and_then (plain (call (xe_find_external_user (tn_ext T) (xi_provider_id info) (xi_external_id info)))) (\<lambda>found.
             case found of
               None \<Rightarrow> try_candidates T token unavailable rejected (or_insert unknown (ep_name p)) candidates
             | Some u \<Rightarrow> done_with \<lparr>ve_provider = p, ve_user = u, ve_info = info,
                 ve_authenticated_at = (case token_authenticated_at (tn_lib T) now token of Some t \<Rightarrow> t | None \<Rightarrow> 0)\<rparr>)))"

definition verify_exchange ::
  "('w, 'o) token_env \<Rightarrow> string \<Rightarrow> string option \<Rightarrow> ('w, 'o, 'o verified_exchange option) xflow" where
  "verify_exchange T token role =
     (if token = [] then invalid_request ''The token is empty''
      else if MAX_SUBJECT_TOKEN_LENGTH < length token then invalid_request ''The token is too large''
      else case unverified_issuer (tn_lib T) token of
        None \<Rightarrow> invalid_grant ''The token is not a JWT with an issuer''
      | Some issuer \<Rightarrow>
          and_then (plain (list_external_providers (tn_ext T))) (\<lambda>providers.
          let candidates = exchange_candidates (map rp_provider providers) issuer role in
          if candidates = [] then done_with None
          else and_then (try_candidates T token None None None candidates) (\<lambda>verified. done_with (Some verified))))"

definition complete_exchange ::
  "('w, 'o) token_env \<Rightarrow> ip_addr \<Rightarrow> 'o verified_exchange \<Rightarrow> string \<Rightarrow> ('w, 'o, exchanged_token) xflow" where
  "complete_exchange T ip v issued_token_type =
     (let u = ve_user v; kind = provider_login (ve_provider v) in
      and_then (plain (check_user_cidr_whitelist (tn_auth T) u ip)) (\<lambda>_.
      if external_login_requires_two_factor u
      then invalid_grant (''The user requires a second factor for external logins, which this endpoint can't provide. Use '' @
        quoted ''ExchangeExternalForJwt'' @ '' of the login api instead.'')
      else and_then (plain (call (xe_sync_external_user (tn_ext T) (us_id u) (ve_info v)))) (\<lambda>_.
        and_then (plain (record_login_of (tn_auth T) u ip kind None)) (\<lambda>_.
        and_then (plain (issue_jwt_with_auth_time (tn_auth T) (us_id u) (ve_authenticated_at v))) (\<lambda>jwt.
        done_with \<lparr>et_response = \<lparr>ts_access_token = jwt, ts_issued_token_type = issued_token_type,
            ts_token_type = ''Bearer'', ts_expires_in = min (jp_ttl_ms (ae_jwt (tn_auth T)) div 1000) u64_max\<rparr>,
          et_user_id = us_id u, et_login = kind\<rparr>)))))"

section \<open>Tokens of workloads\<close>

record verified_workload =
  vw_issuer :: trusted_issuer
  vw_rule :: workload_rule
  vw_claims :: claims

definition load_issuer_keys :: "('w, 'o) token_env \<Rightarrow> trusted_issuer \<Rightarrow> ('w, 'o, 'o token_keys) flow" where
  "load_issuer_keys T issuer s = (case tn_load_keys T issuer (ls_world s) of
     (Inl _, w) \<Rightarrow> (Inl (Failure SERVICE_UNAVAILABLE
        (Some (''Trusted issuer '' @ quoted (ti_name issuer) @ '' is not available''))), s\<lparr>ls_world := w\<rparr>)
   | (Inr keys, w) \<Rightarrow> (Inr keys, s\<lparr>ls_world := w\<rparr>))"

definition check_rule_id :: "trusted_issuer \<Rightarrow> workload_rule \<Rightarrow> ('w, 'o, unit) flow" where
  "check_rule_id issuer r =
     (if length (filter (\<lambda>other. wr_id other = wr_id r) (ti_rules issuer)) = 1 \<and> validate_provider_id (wr_id r)
      then done_with ()
      else refuse INTERNAL_SERVER_ERROR (''Trusted issuer '' @ quoted (ti_name issuer) @ '' is misconfigured''))"

definition rules_for :: "string option \<Rightarrow> trusted_issuer \<Rightarrow> workload_rule list" where
  "rules_for role issuer = (case role of
     Some _ \<Rightarrow> filter (\<lambda>r. is_role role [wr_id r, wr_name r]) (ti_rules issuer)
   | None \<Rightarrow> ti_rules issuer)"

definition workload_candidates :: "trusted_issuer list \<Rightarrow> string \<Rightarrow> string option \<Rightarrow> trusted_issuer list" where
  "workload_candidates issuers issuer role = filter (\<lambda>t. ti_enabled t \<and> issuers_match (ti_issuer t) issuer \<and>
     list_ex (\<lambda>r. is_role role [wr_id r, wr_name r]) (ti_rules t)) issuers"

definition no_rule_message :: "string option \<Rightarrow> trusted_issuer \<Rightarrow> string" where
  "no_rule_message role issuer = (case role of
     Some role \<Rightarrow> ''The token is valid, but does not match rule '' @ quoted role @ '' of '' @ quoted (ti_name issuer)
   | None \<Rightarrow> ''The token is valid, but matches no rule of '' @ quoted (ti_name issuer))"

text \<open>The text of a rejection is the verification's, whose reasons are the values of \<open>token_error\<close>.\<close>

fun try_issuers ::
  "('w, 'o) token_env \<Rightarrow> (token_error \<Rightarrow> string) \<Rightarrow> string \<Rightarrow> string option \<Rightarrow> exchange_error option \<Rightarrow>
   exchange_error option \<Rightarrow> exchange_error option \<Rightarrow> trusted_issuer list \<Rightarrow> ('w, 'o, verified_workload) xflow" where
  "try_issuers T text token role unavailable rejected unmatched [] =
     (case unmatched of
        Some e \<Rightarrow> from_result (Inl e)
      | None \<Rightarrow> (case unavailable of
          Some e \<Rightarrow> from_result (Inl e)
        | None \<Rightarrow> (case rejected of
            Some e \<Rightarrow> from_result (Inl e)
          | None \<Rightarrow> invalid_grant ''Token was rejected'')))"
| "try_issuers T text token role unavailable rejected unmatched (issuer # issuers) =
     and_then (attempt_of (load_issuer_keys T issuer)) (\<lambda>loaded. case loaded of
       Inl e \<Rightarrow> try_issuers T text token role (or_insert unavailable (Other e)) rejected unmatched issuers
     | Inr keys \<Rightarrow>
         and_then (asking (ae_unix_secs (tn_auth T))) (\<lambda>now.
         case verify_payload (tn_lib T) keys token (ti_audiences issuer) (ti_max_token_age_secs issuer) now of
           Inl e \<Rightarrow> try_issuers T text token role unavailable (Some (Oauth ''invalid_grant'' (text e))) unmatched issuers
         | Inr claims \<Rightarrow> (case match_rule (rules_for role issuer) claims of
             None \<Rightarrow> try_issuers T text token role unavailable rejected
               (or_insert unmatched (Oauth ''invalid_grant'' (no_rule_message role issuer))) issuers
           | Some r \<Rightarrow> and_then (plain (check_rule_id issuer r)) (\<lambda>_.
               done_with \<lparr>vw_issuer = issuer, vw_rule = r, vw_claims = claims\<rparr>))))"

definition list_issuers :: "('w, 'o) token_env \<Rightarrow> ('w, 'o, trusted_issuer list) flow" where
  "list_issuers T = and_then (call (tn_list_issuers T)) (\<lambda>stored.
     done_with (map fst (list_trusted_issuers (tn_static_issuers T) stored)))"

definition verify_workload ::
  "('w, 'o) token_env \<Rightarrow> (token_error \<Rightarrow> string) \<Rightarrow> string \<Rightarrow> string option \<Rightarrow> ('w, 'o, verified_workload option) xflow" where
  "verify_workload T text token role = (case unverified_issuer (tn_lib T) token of
     None \<Rightarrow> invalid_grant ''The token is not a JWT with an issuer''
   | Some issuer \<Rightarrow>
       and_then (plain (list_issuers T)) (\<lambda>issuers.
       let candidates = workload_candidates issuers issuer role in
       if candidates = [] then done_with None
       else and_then (try_issuers T text token role None None None candidates) (\<lambda>v. done_with (Some v))))"

text \<open>The issuer and the rule as they are once the lock is held.\<close>

definition current_rule ::
  "('w, 'o) token_env \<Rightarrow> verified_workload \<Rightarrow> ('w, 'o, trusted_issuer \<times> workload_rule) xflow" where
  "current_rule T v =
     (let read = vw_issuer v in
      and_then (plain (list_issuers T)) (\<lambda>issuers.
      case List.find (\<lambda>i. ti_id i = ti_id read \<and> ti_enabled i) issuers of
        None \<Rightarrow> invalid_grant (''Trusted issuer '' @ quoted (ti_name read) @ '' no longer accepts tokens'')
      | Some issuer \<Rightarrow>
          if ti_issuer issuer \<noteq> ti_issuer read \<or> ti_keys issuer \<noteq> ti_keys read \<or>
            ti_audiences issuer \<noteq> ti_audiences read \<or> ti_max_token_age_secs issuer \<noteq> ti_max_token_age_secs read
          then from_result (Inl (Other (Failure SERVICE_UNAVAILABLE
            (Some (''Trusted issuer '' @ quoted (ti_name issuer) @ '' changed during the exchange, try again'')))))
          else case Option.bind (List.find (\<lambda>r. wr_id r = wr_id (vw_rule v)) (ti_rules issuer))
              (\<lambda>r. match_rule [r] (vw_claims v)) of
            None \<Rightarrow> invalid_grant (''The token no longer matches rule '' @ quoted (wr_name (vw_rule v)) @ '' of '' @
              quoted (ti_name issuer))
          | Some r \<Rightarrow> and_then (plain (check_rule_id issuer r)) (\<lambda>_. done_with (issuer, r))))"

text \<open>The checks of the user the app gave for the rule.\<close>

definition check_workload_user ::
  "('w, 'o) token_env \<Rightarrow> ip_addr \<Rightarrow> workload_rule \<Rightarrow> 'o user \<Rightarrow> ('w, 'o, unit) xflow" where
  "check_workload_user T ip r u =
     (if \<not> us_workload u then from_result (Inl (Other (Failure INTERNAL_SERVER_ERROR
        (Some (''The user returned by '' @ quoted ''AuthImpl::get_or_create_workload_user'' @ '' must report '' @
          quoted ''AuthUserImpl::is_workload'')))))
      else if \<not> us_enabled u then invalid_grant (''The user of rule '' @ quoted (wr_name r) @ '' is disabled'')
      else if us_admin u \<and> \<not> wr_admin r
      then invalid_grant (''The user of rule '' @ quoted (wr_name r) @ '' is an admin, which the rule doesn't allow'')
      else and_then (plain (check_user_cidr_whitelist (tn_auth T) u ip)) (\<lambda>_.
        if external_login_requires_two_factor u
        then invalid_grant ''The user of the workload requires a second factor, which a workload can't provide''
        else done_with ()))"

definition workload_ttl_ms :: "nat \<Rightarrow> nat \<Rightarrow> nat" where
  "workload_ttl_ms token_ttl_secs default_ttl_ms =
     (let ttl_ms = token_ttl_secs * 1000 in if ttl_ms = 0 then default_ttl_ms else min ttl_ms default_ttl_ms)"

text \<open>The login is recorded, and a token with the rule's time to live issued.\<close>

definition issue_workload_token ::
  "('w, 'o) token_env \<Rightarrow> ip_addr \<Rightarrow> trusted_issuer \<Rightarrow> workload_rule \<Rightarrow> 'o user \<Rightarrow> string \<Rightarrow> ('w, 'o, exchanged_token) xflow" where
  "issue_workload_token T ip issuer r u issued_token_type =
     (let kind = Workload (ti_id issuer) (ti_name issuer) (wr_id r) (wr_name r);
          ttl_ms = workload_ttl_ms (wr_token_ttl_secs r) (jp_ttl_ms (ae_jwt (tn_auth T))) in
      and_then (asking (\<lambda>w. jwt_expires_at (ae_jwt (tn_auth T)) (ae_unix_secs (tn_auth T) w) ttl_ms)) (\<lambda>expires.
      and_then (plain (record_login (tn_auth T) (login_of u ip kind None expires))) (\<lambda>_.
      and_then (asking (ae_unix_secs (tn_auth T))) (\<lambda>now.
      case encode_sub_with_ttl (ae_lib (tn_auth T)) (ae_jwt (tn_auth T)) now (us_id u) ttl_ms of
        None \<Rightarrow> from_result (Inl (Other (Failure INTERNAL_SERVER_ERROR None)))
      | Some jwt \<Rightarrow> done_with \<lparr>et_response = \<lparr>ts_access_token = jwt, ts_issued_token_type = issued_token_type,
            ts_token_type = ''Bearer'', ts_expires_in = min (ttl_ms div 1000) u64_max\<rparr>,
          et_user_id = us_id u, et_login = kind\<rparr>))))"

definition complete_workload ::
  "('w, 'o) token_env \<Rightarrow> ip_addr \<Rightarrow> verified_workload \<Rightarrow> string \<Rightarrow> ('w, 'o, exchanged_token) xflow" where
  "complete_workload T ip v issued_token_type =
     and_then (current_rule T v) (\<lambda>(issuer, r).
     and_then (plain (call (tn_get_or_create_workload_user T \<lparr>wi_issuer_id = ti_id issuer, wi_rule_id = wr_id r,
        wi_rule_name = wr_name r, wi_groups = wr_groups r, wi_admin = wr_admin r, wi_claims = vw_claims v\<rparr>))) (\<lambda>user_id.
     and_then (plain (call (ae_get_user (tn_auth T) user_id))) (\<lambda>u.
     and_then (check_workload_user T ip r u) (\<lambda>_.
     issue_workload_token T ip issuer r u issued_token_type))))"

section \<open>The exchange\<close>

text \<open>The user's rejection is reported, else the workload's, else that nobody takes the issuer.\<close>

definition exchange ::
  "('w, 'o) token_env \<Rightarrow> (token_error \<Rightarrow> string) \<Rightarrow> ip_addr \<Rightarrow> token_request \<Rightarrow> string option \<Rightarrow>
   ('w, 'o, exchanged_token) xflow" where
  "exchange T text ip q role s =
     and_then (validate_request q) (\<lambda>issued_token_type s.
       let token = tr_subject_token q in
       case verify_exchange T token role s of
         (Inr (Some v), s1) \<Rightarrow> complete_exchange T ip v issued_token_type s1
       | (user, s1) \<Rightarrow> (case verify_workload T text token role s1 of
           (Inr (Some v), s2) \<Rightarrow> complete_workload T ip v issued_token_type s2
         | (workload, s2) \<Rightarrow>
             (Inl (case user of
                Inl e \<Rightarrow> e
              | Inr _ \<Rightarrow> (case workload of
                  Inl e \<Rightarrow> e
                | Inr _ \<Rightarrow> (case role of
                    Some role \<Rightarrow> Role_Not_Found role (''No login provider or workload rule '' @ quoted role @
                      '' accepts tokens of this issuer'')
                  | None \<Rightarrow> Oauth ''invalid_grant''
                      ''No login provider or trusted issuer accepts tokens of this issuer''))), s2))) s"

text \<open>The exchange of the login API.\<close>

definition exchange_external_for_jwt ::
  "('w, 'o) token_env \<Rightarrow> ip_addr \<Rightarrow> string \<Rightarrow> ('w, 'o, 'o jwt_or_two_factor) xflow" where
  "exchange_external_for_jwt T ip token =
     and_then (verify_exchange T token None) (\<lambda>verified.
     and_then (from_result (ok_or (Other (Failure BAD_REQUEST
       (Some ''No login provider accepts tokens of this issuer for token exchange''))) verified)) (\<lambda>v.
     let u = ve_user v; kind = provider_login (ve_provider v) in
     and_then (plain (check_user_cidr_whitelist (tn_auth T) u ip)) (\<lambda>_.
     and_then (plain (call (xe_sync_external_user (tn_ext T) (us_id u) (ve_info v)))) (\<lambda>_.
     and_then (plain (begin_external_two_factor (tn_auth T) u kind)) (\<lambda>factor. case factor of
       None \<Rightarrow>
         and_then (plain (record_login_of (tn_auth T) u ip kind None)) (\<lambda>_.
         and_then (plain (issue_jwt_with_auth_time (tn_auth T) (us_id u) (ve_authenticated_at v))) (\<lambda>jwt.
         done_with (Jwt_Issued jwt)))
     | Some (External_Passkey response) \<Rightarrow> done_with (Passkey_Required response)
     | Some External_Totp \<Rightarrow> done_with Totp_Required)))))"

end
