(* ===== verification/TokenExchangeProps.thy ===== *)
theory TokenExchangeProps
  imports TokenExchange ExternalProps
begin

text \<open>
  What an exchanged token guarantees: of a user's, the provider which verified it and the user linked
  to its subject; of a workload's, the issuer and the rule as they are when the token is issued.
\<close>

section \<open>Reading a run\<close>

lemma plain_ok [simp]: "plain m s = (Inr y, s') \<longleftrightarrow> m s = (Inr y, s')"
  by (cases "m s"; cases "fst (m s)") (auto simp: plain_def)

lemma attempt_of_eq: "attempt_of m s = (Inr x, s') \<longleftrightarrow> m s = (x, s')"
  by (auto simp: attempt_of_def split: prod.splits)

lemma exchange_refusals [simp]:
  "oauth_error code d s \<noteq> (Inr y, s')" "invalid_request d s \<noteq> (Inr y, s')" "invalid_grant d s \<noteq> (Inr y, s')"
  by (simp_all add: oauth_error_def invalid_request_def invalid_grant_def)

lemma keeps_exchange_steps [intro, simp]:
  "keeps (from_result r)" "keeps (asking f)" "keeps (done_with x)"
  "keeps m \<Longrightarrow> keeps (plain m)" "keeps m \<Longrightarrow> keeps (attempt_of m)"
  "keeps (oauth_error code d)" "keeps (invalid_request d)" "keeps (invalid_grant d)" "keeps (validate_request q)"
proof -
  show "keeps m \<Longrightarrow> keeps (plain m)" "keeps m \<Longrightarrow> keeps (attempt_of m)"
    by (simp_all add: preserves_def plain_def attempt_of_def case_prod_unfold)
  show r: "keeps (from_result r)" "keeps (asking f)" "keeps (done_with x)" for r f x
    by (simp_all add: preserves_def from_result_def asking_def done_with_def)
  show o: "keeps (oauth_error code d)" "keeps (invalid_request d)" "keeps (invalid_grant d)" for code d
    using r(1) by (simp_all add: oauth_error_def invalid_request_def invalid_grant_def)
  show "keeps (validate_request q)"
    unfolding validate_request_def using o r by (auto split: option.splits)
qed

section \<open>Verifying\<close>

text \<open>The token shows the identity \<open>info\<close> at the provider, at some time.\<close>

definition shown_by ::
  "('w, 'o) token_env \<Rightarrow> string \<Rightarrow> external_login_provider \<Rightarrow> external_info \<Rightarrow> bool" where
  "shown_by T token p info \<longleftrightarrow> (\<exists>w built now. fst (xe_load_client (tn_ext T) p w) = Inr built \<and>
     verify_exchange_token (xe_client (tn_ext T)) built p token now = Inr info)"

definition linked_to :: "('w, 'o) token_env \<Rightarrow> external_info \<Rightarrow> 'o user \<Rightarrow> bool" where
  "linked_to T info u \<longleftrightarrow>
     (\<exists>w. fst (xe_find_external_user (tn_ext T) (xi_provider_id info) (xi_external_id info) w) = Inr (Some u))"

text \<open>An enabled provider of the app which issues the token and takes it for exchange, as the role.\<close>

definition takes_token :: "('w, 'o) token_env \<Rightarrow> string \<Rightarrow> string option \<Rightarrow> external_login_provider \<Rightarrow> bool" where
  "takes_token T token role p \<longleftrightarrow> provider_enabled p \<and> tx_enabled (ep_token_exchange p) \<and>
     is_role role [ep_id p, slug_of p, ep_name p] \<and>
     (\<exists>issuer. unverified_issuer (tn_lib T) token = Some issuer \<and> provider_issues p issuer) \<and>
     (\<exists>w stored. fst (xe_list_providers (tn_ext T) w) = Inr stored \<and>
        p \<in> rp_provider ` set (merge_providers (xe_static_providers (tn_ext T)) stored))"

lemma load_provider_client_ok:
  "load_provider_client X p s = (Inr built, s') \<Longrightarrow> fst (xe_load_client X p (ls_world s)) = Inr built"
  by (auto simp: load_provider_client_def split: prod.splits sum.splits)

lemma try_candidates_ok:
  assumes "try_candidates T token unavailable rejected unknown ps s = (Inr v, s')"
  shows "ve_provider v \<in> set ps \<and> shown_by T token (ve_provider v) (ve_info v) \<and> linked_to T (ve_info v) (ve_user v)"
  using assms
proof (induction T token unavailable rejected unknown ps arbitrary: s rule: try_candidates.induct)
  case (1 T token unavailable rejected unknown)
  then show ?case by (simp split: option.splits if_splits)
next
  case (2 T token unavailable rejected unknown p ps)
  obtain loaded s1 where l: "load_provider_client (tn_ext T) p s = (loaded, s1)" by fastforce
  show ?case
  proof (cases loaded)
    case (Inl e)
    then show ?thesis using 2 l by (simp add: and_then_def attempt_of_def)
  next
    case (Inr built)
    let ?now = "ae_unix_secs (tn_auth T) (ls_world s1)"
    show ?thesis
    proof (cases "verify_exchange_token (xe_client (tn_ext T)) built p token ?now")
      case (Inl e)
      then show ?thesis using 2 Inr l by (simp add: and_then_def attempt_of_def asking_def)
    next
      case info: (Inr info)
      obtain found s2 where f: "call (xe_find_external_user (tn_ext T) (xi_provider_id info) (xi_external_id info)) s1 = (Inr found, s2)"
        and rest: "(case found of
            None \<Rightarrow> try_candidates T token unavailable rejected (or_insert unknown (ep_name p)) ps
          | Some u \<Rightarrow> done_with \<lparr>ve_provider = p, ve_user = u, ve_info = info, ve_authenticated_at =
              (case token_authenticated_at (tn_lib T) ?now token of Some t \<Rightarrow> t | None \<Rightarrow> 0)\<rparr>) s2 = (Inr v, s')"
        using 2(4) l Inr info by (auto simp: and_then_step attempt_of_eq and_then_ok)
      have shown: "shown_by T token p info"
        unfolding shown_by_def using load_provider_client_ok l Inr info by blast
      show ?thesis
      proof (cases found)
        case None
        then show ?thesis using 2(3) rest Inr info by simp
      next
        case (Some u)
        then have "ve_provider v = p \<and> ve_user v = u \<and> ve_info v = info"
          using rest by auto
        moreover have "linked_to T info u" using f Some by (auto simp: linked_to_def call_ok intro!: exI [of _ "ls_world s1"])
        ultimately show ?thesis using shown by simp
      qed
    qed
  qed
qed

lemma keeps_try_candidates [intro, simp]: "keeps (try_candidates T token unavailable rejected unknown ps)"
  by (induction ps arbitrary: unavailable rejected unknown)
    (auto intro!: preserves_and_then split: option.splits sum.splits)

lemma keeps_verify_exchange [intro, simp]: "keeps (verify_exchange T token role)"
  unfolding verify_exchange_def by (auto simp: Let_def simp del: try_candidates.simps split: option.splits)

lemma verify_exchange_ok:
  assumes "verify_exchange T token role s = (Inr (Some v), s')"
  shows "takes_token T token role (ve_provider v) \<and> shown_by T token (ve_provider v) (ve_info v) \<and>
    linked_to T (ve_info v) (ve_user v)"
proof -
  obtain issuer providers s1 s2 where i: "unverified_issuer (tn_lib T) token = Some issuer"
    and l: "list_external_providers (tn_ext T) s = (Inr providers, s1)"
    and v: "try_candidates T token None None None (exchange_candidates (map rp_provider providers) issuer role) s1 = (Inr v, s2)"
    using assms by (auto simp: verify_exchange_def and_then_ok Let_def simp del: try_candidates.simps
        split: if_splits option.splits)
  have "\<exists>w stored. fst (xe_list_providers (tn_ext T) w) = Inr stored \<and>
      providers = merge_providers (xe_static_providers (tn_ext T)) stored"
    using l by (auto simp: list_external_providers_def and_then_ok call_ok) (metis fst_conv)
  then show ?thesis
    using try_candidates_ok [OF v] i by (auto simp: takes_token_def exchange_candidates_def)
qed

section \<open>Workloads\<close>

lemma keeps_workload [intro, simp]:
  "keeps (load_issuer_keys T issuer)" "keeps (check_rule_id issuer r)" "keeps (list_issuers T)"
  by (auto simp: check_rule_id_def list_issuers_def)
    (simp add: load_issuer_keys_def preserves_def core_def split: prod.splits sum.splits)

lemma keeps_try_issuers [intro, simp]: "keeps (try_issuers T text token role unavailable rejected unmatched issuers)"
  by (induction issuers arbitrary: unavailable rejected unmatched)
    (auto intro!: preserves_and_then split: option.splits sum.splits)

lemma keeps_verify_workload [intro, simp]: "keeps (verify_workload T text token role)" "keeps (current_rule T v)"
proof -
  show "keeps (verify_workload T text token role)"
    unfolding verify_workload_def by (auto simp: Let_def simp del: try_issuers.simps split: option.splits)
  show "keeps (current_rule T v)"
    unfolding current_rule_def by (auto simp: Let_def split: option.splits)
qed

















text \<open>Checks of the user of a rule.\<close>

definition workload_user_ok :: "('w, 'o) token_env \<Rightarrow> ip_addr \<Rightarrow> workload_rule \<Rightarrow> 'o user \<Rightarrow> bool" where
  "workload_user_ok T ip r u \<longleftrightarrow> us_workload u \<and> us_enabled u \<and> (us_admin u \<longrightarrow> wr_admin r) \<and>
     check_cidr_whitelist (ae_net (tn_auth T)) ip (us_cidr_whitelist u) = Inr () \<and> \<not> external_login_requires_two_factor u"

lemma check_workload_user_ok:
  "check_workload_user T ip r u s = (Inr x, s') \<Longrightarrow> workload_user_ok T ip r u \<and> s' = s"
  by (auto simp: check_workload_user_def workload_user_ok_def and_then_ok split: if_splits)



section \<open>Issuing the token\<close>

text \<open>The login is recorded and nothing else of the request's state changes.\<close>

definition logs_in :: "('w, 'o) login_state \<Rightarrow> login \<Rightarrow> ('w, 'o) login_state \<Rightarrow> bool" where
  "logs_in s l s' \<longleftrightarrow> ls_logins s' = ls_logins s @ [l] \<and> ls_session s' = ls_session s \<and> ls_events s' = ls_events s"

lemma keepsD: "m s = (r, s') \<Longrightarrow> keeps m \<Longrightarrow> core s' = core s"
  by (rule preservesD)

lemma logs_in_after: "core s1 = core s \<Longrightarrow> logs_in s1 l s' \<Longrightarrow> logs_in s l s'"
  by (simp add: logs_in_def core_eq)

lemma record_login_logs_in: "record_login env l s = (Inr x, s') \<Longrightarrow> logs_in s l s'"
  by (auto simp: record_login_def logs_in_def split: prod.splits sum.splits)

lemma record_login_of_logs_in:
  "record_login_of env u ip kind factor s = (Inr x, s') \<Longrightarrow> \<exists>expires. logs_in s (login_of u ip kind factor expires) s'"
  by (auto simp: record_login_of_def and_then_ok dest: record_login_logs_in)

lemma complete_exchange_ok:
  assumes "complete_exchange T ip v issued s = (Inr e, s')"
  shows "et_login e = provider_login (ve_provider v)" "et_user_id e = us_id (ve_user v)"
    and "check_cidr_whitelist (ae_net (tn_auth T)) ip (us_cidr_whitelist (ve_user v)) = Inr ()"
    and "\<not> external_login_requires_two_factor (ve_user v)"
    and "\<exists>at. jwt_for (tn_auth T) (us_id (ve_user v)) (Some at) (ts_access_token (et_response e))"
    and "\<exists>w. fst (xe_sync_external_user (tn_ext T) (us_id (ve_user v)) (ve_info v) w) = Inr ()"
    and "\<exists>expires. logs_in s (login_of (ve_user v) ip (provider_login (ve_provider v)) None expires) s'"
proof -
  obtain s1 s2 jwt s3 where no2fa: "\<not> external_login_requires_two_factor (ve_user v)"
    and w: "check_cidr_whitelist (ae_net (tn_auth T)) ip (us_cidr_whitelist (ve_user v)) = Inr ()"
    and sync: "call (xe_sync_external_user (tn_ext T) (us_id (ve_user v)) (ve_info v)) s = (Inr (), s1)"
    and l: "record_login_of (tn_auth T) (ve_user v) ip (provider_login (ve_provider v)) None s1 = (Inr (), s2)"
    and j: "issue_jwt_with_auth_time (tn_auth T) (us_id (ve_user v)) (ve_authenticated_at v) s2 = (Inr jwt, s3)"
    and e: "e = \<lparr>et_response = \<lparr>ts_access_token = jwt, ts_issued_token_type = issued,
            ts_token_type = ''Bearer'', ts_expires_in = min (jp_ttl_ms (ae_jwt (tn_auth T)) div 1000) u64_max\<rparr>,
          et_user_id = us_id (ve_user v), et_login = provider_login (ve_provider v)\<rparr>" and s': "s' = s3"
    using assms by (auto simp: complete_exchange_def Let_def and_then_ok split: if_splits)
  show "et_login e = provider_login (ve_provider v)" "et_user_id e = us_id (ve_user v)" using e by simp_all
  show "check_cidr_whitelist (ae_net (tn_auth T)) ip (us_cidr_whitelist (ve_user v)) = Inr ()"
    "\<not> external_login_requires_two_factor (ve_user v)" using no2fa w by simp_all
  show "\<exists>at. jwt_for (tn_auth T) (us_id (ve_user v)) (Some at) (ts_access_token (et_response e))"
    using issue_jwt_with_auth_time_ok [OF j] e by auto
  show "\<exists>w. fst (xe_sync_external_user (tn_ext T) (us_id (ve_user v)) (ve_info v) w) = Inr ()"
    using sync by (auto simp: call_ok) (metis fst_conv)
  have "core s1 = core s" using keepsD [where m = "call f" for f, OF sync] by simp
  then show "\<exists>expires. logs_in s (login_of (ve_user v) ip (provider_login (ve_provider v)) None expires) s'"
    using record_login_of_logs_in [OF l] issue_jwt_with_auth_time_ok [OF j] s' logs_in_after by blast
qed

text \<open>Whether \<open>jwt\<close> is a token of the app for the user, with a time to live of its own.\<close>

definition jwt_with_ttl :: "('w, 'o) auth_env \<Rightarrow> user_id \<Rightarrow> nat \<Rightarrow> string \<Rightarrow> bool" where
  "jwt_with_ttl env u ttl_ms jwt \<longleftrightarrow> (\<exists>now. jwt_encode (ae_lib env) (ae_jwt env) now u ttl_ms None = Some jwt)"

lemma issue_workload_token_ok:
  assumes "issue_workload_token T ip issuer r u issued s = (Inr e, s')"
  shows "et_user_id e = us_id u" "et_login e = Workload (ti_id issuer) (ti_name issuer) (wr_id r) (wr_name r)"
    and "jwt_with_ttl (tn_auth T) (us_id u) (workload_ttl_ms (wr_token_ttl_secs r) (jp_ttl_ms (ae_jwt (tn_auth T))))
      (ts_access_token (et_response e))"
    and "\<exists>expires. logs_in s (login_of u ip (et_login e) None expires) s'"
proof -
  let ?ttl = "workload_ttl_ms (wr_token_ttl_secs r) (jp_ttl_ms (ae_jwt (tn_auth T)))"
  let ?kind = "Workload (ti_id issuer) (ti_name issuer) (wr_id r) (wr_name r)"
  obtain expires now jwt s1 where l: "record_login (tn_auth T) (login_of u ip ?kind None expires) s = (Inr (), s1)"
    and j: "encode_sub_with_ttl (ae_lib (tn_auth T)) (ae_jwt (tn_auth T)) now (us_id u) ?ttl = Some jwt"
    and e: "et_user_id e = us_id u" "et_login e = ?kind" "ts_access_token (et_response e) = jwt" and s': "s' = s1"
    using assms unfolding issue_workload_token_def Let_def and_then_ok plain_ok
    by (elim exE conjE) (auto split: option.split_asm)
  show "et_user_id e = us_id u" "et_login e = ?kind" using e by simp_all
  show "jwt_with_ttl (tn_auth T) (us_id u) ?ttl (ts_access_token (et_response e))"
    using j e by (auto simp: jwt_with_ttl_def encode_sub_with_ttl_def)
  show "\<exists>expires. logs_in s (login_of u ip (et_login e) None expires) s'"
    unfolding e s' using record_login_logs_in [OF l] by blast
qed

lemma complete_workload_ok:
  assumes "complete_workload T ip v issued s = (Inr e, s')"
  shows "\<exists>issuer r u s1. current_rule T v s = (Inr (issuer, r), s1) \<and> workload_user_ok T ip r u \<and> us_id u = et_user_id e \<and>
    et_login e = Workload (ti_id issuer) (ti_name issuer) (wr_id r) (wr_name r) \<and>
    jwt_with_ttl (tn_auth T) (us_id u) (workload_ttl_ms (wr_token_ttl_secs r) (jp_ttl_ms (ae_jwt (tn_auth T))))
      (ts_access_token (et_response e)) \<and>
    (\<exists>expires. logs_in s (login_of u ip (et_login e) None expires) s')"
proof -
  obtain issuer r s1 user_id s2 u s3 x s4 where c: "current_rule T v s = (Inr (issuer, r), s1)"
    and g: "call (tn_get_or_create_workload_user T \<lparr>wi_issuer_id = ti_id issuer, wi_rule_id = wr_id r,
        wi_rule_name = wr_name r, wi_groups = wr_groups r, wi_admin = wr_admin r, wi_claims = vw_claims v\<rparr>) s1 = (Inr user_id, s2)"
    and u: "call (ae_get_user (tn_auth T) user_id) s2 = (Inr u, s3)"
    and k: "check_workload_user T ip r u s3 = (Inr x, s4)"
    and i: "issue_workload_token T ip issuer r u issued s4 = (Inr e, s')"
    using assms unfolding complete_workload_def and_then_ok plain_ok prod.case_distrib by (auto simp: and_then_ok)
  note k' = check_workload_user_ok [OF k] and i' = issue_workload_token_ok [OF i]
  have "core s1 = core s" "core s2 = core s1" "core s3 = core s2"
    using keepsD [where m = "current_rule T v", OF c] keepsD [where m = "call f" for f, OF g]
      keepsD [where m = "call f" for f, OF u] by simp_all
  then have "core s4 = core s" using k' by simp
  then show ?thesis using c k' i' logs_in_after by (metis (no_types, lifting))
qed

lemma exchange_cases:
  assumes "exchange T text ip q role s = (Inr e, s')"
  obtains (user) v issued s0 s1 where "verify_exchange T (tr_subject_token q) role s0 = (Inr (Some v), s1)" "core s1 = core s"
      "complete_exchange T ip v issued s1 = (Inr e, s')"
    | (workload) v issued s0 s1 where "verify_workload T text (tr_subject_token q) role s0 = (Inr (Some v), s1)" "core s1 = core s"
      "complete_workload T ip v issued s1 = (Inr e, s')"
proof -
  obtain issued s0 where v: "validate_request q s = (Inr issued, s0)"
    and rest: "(case verify_exchange T (tr_subject_token q) role s0 of
         (Inr (Some v), s1) \<Rightarrow> complete_exchange T ip v issued s1
       | (user, s1) \<Rightarrow> (case verify_workload T text (tr_subject_token q) role s1 of
           (Inr (Some v), s2) \<Rightarrow> complete_workload T ip v issued s2
         | (workload, s2) \<Rightarrow>
             (Inl (case user of
                Inl e \<Rightarrow> e
              | Inr _ \<Rightarrow> (case workload of
                  Inl e \<Rightarrow> e
                | Inr _ \<Rightarrow> (case role of
                    Some role \<Rightarrow> Role_Not_Found role (''No login provider or workload rule '' @ quoted role @
                      '' accepts tokens of this issuer'')
                  | None \<Rightarrow> Oauth ''invalid_grant''
                      ''No login provider or trusted issuer accepts tokens of this issuer''))), s2))) = (Inr e, s')"
    using assms unfolding exchange_def and_then_ok Let_def by blast
  obtain a s1 where a: "verify_exchange T (tr_subject_token q) role s0 = (a, s1)" by fastforce
  obtain b s2 where b: "verify_workload T text (tr_subject_token q) role s1 = (b, s2)" by fastforce
  have c0: "core s0 = core s" using keepsD [where m = "validate_request q", OF v] by simp
  have c1: "core s1 = core s0" using keepsD [where m = "verify_exchange T t role" for t, OF a] by simp
  have c2: "core s2 = core s1" using keepsD [where m = "verify_workload T x t role" for x t, OF b] by simp
  show thesis
  proof (cases "\<exists>v. a = Inr (Some v)")
    case True
    then show thesis using rest a c0 c1 user by auto
  next
    case False
    then have "\<exists>v. b = Inr (Some v) \<and> complete_workload T ip v issued s2 = (Inr e, s')"
      using rest a b by (auto split: sum.splits option.splits)
    then show thesis using b c0 c1 c2 workload by auto
  qed
qed

text \<open>
  C17: Of a token a user is given for one of a login provider: it is for the user the app has linked to
  the identity that provider, verifying the token, found in it; the provider is one of the app's
  (configured or stored), enabled, opted in to token exchange, of the role asked for, and the issuer
  the token names is its own; the address is within the user's whitelist, the user needs no second
  factor; the app has brought that user in line with what the identity says of groups and admin, as
  it does on every external login; and the login is recorded. The session stays as it is, and no
  account is signed up or linked.
\<close>

theorem user_exchange_checked:
  assumes "exchange T text ip q role s = (Inr e, s')" and "et_login e = Provider i n"
  shows "\<exists>p info u at expires. ep_id p = i \<and> takes_token T (tr_subject_token q) role p \<and>
    shown_by T (tr_subject_token q) p info \<and> linked_to T info u \<and> us_id u = et_user_id e \<and>
    check_cidr_whitelist (ae_net (tn_auth T)) ip (us_cidr_whitelist u) = Inr () \<and>
    \<not> external_login_requires_two_factor u \<and>
    (\<exists>w. fst (xe_sync_external_user (tn_ext T) (us_id u) info w) = Inr ()) \<and>
    jwt_for (tn_auth T) (us_id u) (Some at) (ts_access_token (et_response e)) \<and>
    logs_in s (login_of u ip (Provider i n) None expires) s'"
  using assms(1)
proof (cases rule: exchange_cases)
  case (user v issued s0 s1)
  note fin = complete_exchange_ok [OF user(3)]
  have "ep_id (ve_provider v) = i" "provider_login (ve_provider v) = Provider i n"
    using fin(1) assms(2) by (simp_all add: provider_login_def)
  then show ?thesis using verify_exchange_ok [OF user(1)] fin logs_in_after [OF user(2)] by metis
next
  case (workload v issued s0 s1)
  then show ?thesis using complete_workload_ok [OF workload(3)] assms(2) by auto
qed


text \<open>The exchange of the login API ends with a token or waits for the second factor.\<close>

definition awaits_second_factor :: "('w, 'o) login_state \<Rightarrow> user_id \<Rightarrow> login_kind \<Rightarrow> bool" where
  "awaits_second_factor s u kind \<longleftrightarrow> as_kind (ls_session s) = Present kind \<and>
     ((\<exists>st at. as_passkey (ls_session s) = Present (u, st, at)) \<or> (\<exists>at. as_totp (ls_session s) = Present (u, at)))"

lemma begin_external_two_factor_Some:
  assumes "begin_external_two_factor env u kind s = (Inr (Some factor), s')"
  shows "external_login_requires_two_factor u" "awaits_second_factor s' (us_id u) kind"
    "ls_logins s' = ls_logins s" "ls_events s' = ls_events s"
proof -
  have "external_login_requires_two_factor u \<and> awaits_second_factor s' (us_id u) kind \<and>
      ls_logins s' = ls_logins s \<and> ls_events s' = ls_events s"
    using assms
    by (auto simp: begin_external_two_factor_def begin_passkey_def begin_totp_def and_then_ok new_session_id_def unix_secs_now_def
        insert_login_kind_def insert_passkey_login_def insert_totp_login_def modified_def awaits_second_factor_def
        split: if_split_asm option.split_asm)
  then show "external_login_requires_two_factor u" "awaits_second_factor s' (us_id u) kind"
    "ls_logins s' = ls_logins s" "ls_events s' = ls_events s" by simp_all
qed

text \<open>
  The exchange of the login API takes a token as the token endpoint does, of a provider of the
  app for the user linked to the identity it shows, within their whitelist; but where the user needs
  a second factor, it answers no token and records no login: the session waits for that factor, of
  that user and that provider's login.
\<close>

theorem login_exchange_second_factor:
  assumes "exchange_external_for_jwt T ip token s = (Inr x, s')"
  shows "\<exists>p info u. takes_token T token None p \<and> shown_by T token p info \<and> linked_to T info u \<and>
    check_cidr_whitelist (ae_net (tn_auth T)) ip (us_cidr_whitelist u) = Inr () \<and>
    (case x of
       Jwt_Issued jwt \<Rightarrow> \<not> external_login_requires_two_factor u \<and>
         (\<exists>at. jwt_for (tn_auth T) (us_id u) (Some at) jwt) \<and>
         (\<exists>expires. logs_in s (login_of u ip (provider_login p) None expires) s')
     | _ \<Rightarrow> external_login_requires_two_factor u \<and> awaits_second_factor s' (us_id u) (provider_login p) \<and>
         ls_logins s' = ls_logins s \<and> ls_events s' = ls_events s)"
proof -
  obtain v s1 s2 factor s3 where v: "verify_exchange T token None s = (Inr (Some v), s1)"
    and w: "check_cidr_whitelist (ae_net (tn_auth T)) ip (us_cidr_whitelist (ve_user v)) = Inr ()"
    and sync: "call (xe_sync_external_user (tn_ext T) (us_id (ve_user v)) (ve_info v)) s1 = (Inr (), s2)"
    and f: "begin_external_two_factor (tn_auth T) (ve_user v) (provider_login (ve_provider v)) s2 = (Inr factor, s3)"
    and rest: "(case factor of
       None \<Rightarrow>
         and_then (plain (record_login_of (tn_auth T) (ve_user v) ip (provider_login (ve_provider v)) None)) (\<lambda>_.
         and_then (plain (issue_jwt_with_auth_time (tn_auth T) (us_id (ve_user v)) (ve_authenticated_at v))) (\<lambda>jwt.
         done_with (Jwt_Issued jwt)))
     | Some (External_Passkey response) \<Rightarrow> done_with (Passkey_Required response)
     | Some External_Totp \<Rightarrow> done_with Totp_Required) s3 = (Inr x, s')"
    using assms unfolding exchange_external_for_jwt_def Let_def and_then_ok plain_ok
    by (elim exE conjE) (auto simp: ok_or_Inr_iff)
  have "core s1 = core s" using keepsD [where m = "verify_exchange T token None", OF v] by simp
  moreover have "core s2 = core s1" using keepsD [where m = "call f" for f, OF sync] by simp
  ultimately have core: "core s2 = core s" by simp
  note verified = verify_exchange_ok [OF v]
  show ?thesis
  proof (cases factor)
    case None
    note n = begin_external_two_factor_None [OF f [unfolded None]]
    obtain s4 jwt where "record_login_of (tn_auth T) (ve_user v) ip (provider_login (ve_provider v)) None s2 = (Inr (), s4)"
      "issue_jwt_with_auth_time (tn_auth T) (us_id (ve_user v)) (ve_authenticated_at v) s4 = (Inr jwt, s')" "x = Jwt_Issued jwt"
      using rest None n by (auto simp: and_then_ok)
    then show ?thesis
      using verified w n record_login_of_logs_in logs_in_after [OF core] issue_jwt_with_auth_time_ok
      by (intro exI [of _ "ve_provider v"] exI [of _ "ve_info v"] exI [of _ "ve_user v"]) (simp, blast)
  next
    case (Some factor')
    note b = begin_external_two_factor_Some [OF f [unfolded Some]]
    have "s' = s3" "\<forall>jwt. x \<noteq> Jwt_Issued jwt"
      using rest Some by (auto split: external_two_factor.split_asm)
    then show ?thesis
      using verified w b core
      by (intro exI [of _ "ve_provider v"] exI [of _ "ve_info v"] exI [of _ "ve_user v"])
        (simp add: core_eq split: jwt_or_two_factor.split)
  qed
qed

section \<open>A demonstration\<close>

text \<open>
  The app of ExternalProps with Google, at which \<open>bob\<close> is \<open>ann\<close>, opted in; and an issuer
  trusted with the rule of Workload, whose user is a workload.
\<close>

definition demo_tokens :: "demo_value token_lib" where
  "demo_tokens = \<lparr>tl_parse = (\<lambda>_. Some (V4 0, 0)), tl_claims = (\<lambda>keys audience other token now. Some demo_id_claims),
     tl_payload = (\<lambda>p. Some (if p = ''u'' then [(''iss'', JString ''https://accounts.google.com'')]
       else (''iss'', JString ''https://ci'') # demo_workload_claims)),
     tl_f64 = (\<lambda>_. 0)\<rparr>"

definition demo_google :: external_login_provider where
  "demo_google = \<lparr>ep_id = ''go'', ep_name = ''Google'', ep_slug = ''google'', ep_registration_disabled = False,
     ep_token_exchange = \<lparr>tx_enabled = True, tx_audiences = [], tx_max_token_age_secs = 0\<rparr>,
     ep_config = Google_Config \<lparr>nc_enabled = True, nc_client_id = ''app'', nc_client_secret = ''x''\<rparr>\<rparr>"

definition demo_google_client :: "(nat, demo_value) google_provider" where
  "demo_google_client = \<lparr>gp_client_id = ''app'', gp_verification_keys = keys_new GOOGLE_ISSUER (V4 0, 0),
     gp_exchange_code = (\<lambda>_ w. (Inl (Failure UNAUTHORIZED None), w)), gp_id_token = (\<lambda>_. None), gp_claims = (\<lambda>_ _ _. None)\<rparr>"

definition demo_issuer :: trusted_issuer where
  "demo_issuer = \<lparr>ti_id = ''ci'', ti_name = ''CI'', ti_enabled = True, ti_issuer = ''https://ci/'', ti_keys = Discovery,
     ti_audiences = [''app''], ti_max_token_age_secs = 300, ti_rules = [demo_rule]\<rparr>"

definition demo_bot :: "demo_value user" where
  "demo_bot = (demo_user ''bot'' None)\<lparr>us_workload := True\<rparr>"

definition demo_token_env :: "(nat, demo_value) token_env" where
  "demo_token_env = \<lparr>tn_ext = demo_external\<lparr>xe_auth := demo_env\<lparr>ae_get_user := (\<lambda>u w. (Inr demo_bot, w))\<rparr>,
       xe_client := demo_client_lib\<lparr>cx_token_lib := demo_tokens\<rparr>, xe_static_providers := [demo_google],
       xe_list_providers := (\<lambda>w. (Inr [], w)), xe_load_client := (\<lambda>_ w. (Inr (Built_Google demo_google_client), w)),
       xe_find_external_user := (\<lambda>i x w. (Inr (Some (demo_user ''bob'' None)), w))\<rparr>,
     tn_static_issuers = [demo_issuer], tn_list_issuers = (\<lambda>w. (Inr [], w)),
     tn_load_keys = (\<lambda>_ w. (Inr (keys_new ''https://ci/'' (V4 0, 0)), w)),
     tn_get_or_create_workload_user = (\<lambda>_ w. (Inr ''bot'', w))\<rparr>"

lemma demo_token_env_sel [simp]:
  "tn_auth demo_token_env = demo_env\<lparr>ae_get_user := (\<lambda>u w. (Inr demo_bot, w))\<rparr>" "tn_lib demo_token_env = demo_tokens"
  "xe_client (tn_ext demo_token_env) = demo_client_lib\<lparr>cx_token_lib := demo_tokens\<rparr>"
  "xe_list_providers (tn_ext demo_token_env) w = (Inr [], w)" "xe_static_providers (tn_ext demo_token_env) = [demo_google]"
  "xe_load_client (tn_ext demo_token_env) p w = (Inr (Built_Google demo_google_client), w)"
  "xe_find_external_user (tn_ext demo_token_env) i x w = (Inr (Some (demo_user ''bob'' None)), w)"
  "xe_sync_external_user (tn_ext demo_token_env) u info w = (Inr (), w)"
  "tn_static_issuers demo_token_env = [demo_issuer]" "tn_list_issuers demo_token_env w = (Inr [], w)"
  "tn_load_keys demo_token_env t w = (Inr (keys_new ''https://ci/'' (V4 0, 0)), w)"
  "tn_get_or_create_workload_user demo_token_env identity w = (Inr ''bot'', w)"
  by (simp_all add: demo_token_env_def demo_external_def)

definition demo_exchange_request :: "string \<Rightarrow> token_request" where
  "demo_exchange_request token = \<lparr>tr_grant_type = GRANT_TYPE_TOKEN_EXCHANGE, tr_subject_token = token,
     tr_subject_token_type = TOKEN_TYPE_JWT, tr_requested_token_type = None, tr_actor_token = None, tr_actor_token_type = None\<rparr>"

lemma demo_unverified:
  "unverified_issuer demo_tokens ''h.u.s'' = Some ''https://accounts.google.com''"
  "unverified_issuer demo_tokens ''h.w.s'' = Some ''https://ci''"
  "unverified_payload demo_tokens ''h.w.s'' = Some ((''iss'', JString ''https://ci'') # demo_workload_claims)"
  by (simp_all add: unverified_issuer_def unverified_payload_def demo_tokens_def MAX_SUBJECT_TOKEN_LENGTH_def trim_end_matches_def)

lemma demo_request_valid:
  "length token \<le> MAX_SUBJECT_TOKEN_LENGTH \<Longrightarrow> token \<noteq> [] \<Longrightarrow>
   validate_request (demo_exchange_request token) s = (Inr TOKEN_TYPE_ACCESS_TOKEN, s)"
  by (simp add: validate_request_def demo_exchange_request_def done_with_def)

lemma demo_verifies_google:
  "verify_exchange_token (demo_client_lib\<lparr>cx_token_lib := demo_tokens\<rparr>) (Built_Google demo_google_client) demo_google ''h.u.s'' 1000 =
     Inr \<lparr>xi_provider_id = ''go'', xi_kind = Google, xi_external_id = ''ann'', xi_avatar_url = Some [], xi_groups = None, xi_admin = None\<rparr>"
  by (simp add: verify_exchange_token_def demo_google_def google_verify_exchange_token_def verify_token_def demo_tokens_def
      demo_id_claims_def demo_google_client_def MAX_SUBJECT_TOKEN_LENGTH_def is_security_event_token_def unverified_payload_def
      check_not_before_def not_before_of_def check_token_age_def res_bind_def trim_end_matches_def google_user_from_claims_def base_info_def provider_kind_def)

lemma demo_verified:
  "\<exists>v. verify_exchange demo_token_env ''h.u.s'' None demo_state = (Inr (Some v), demo_state) \<and>
     ve_provider v = demo_google \<and> ve_user v = demo_user ''bob'' None"
proof -
  have listed: "plain (list_external_providers (tn_ext demo_token_env)) demo_state =
      (Inr (merge_providers [demo_google] []), demo_state)"
    by (simp add: plain_def list_external_providers_def flow_steps)
  have "map rp_provider (merge_providers [demo_google] []) = [demo_google]"
    by (simp add: merge_providers_def merge_step_def demo_google_def slug_of_def validate_provider_id_def MAX_PROVIDER_ID_LENGTH_def
        is_ascii_alnum_def is_ascii_lower_def is_ascii_upper_def is_ascii_digit_def)
  then have candidates: "exchange_candidates (map rp_provider (merge_providers [demo_google] []))
      ''https://accounts.google.com'' None = [demo_google]"
    by (simp add: exchange_candidates_def provider_issues_def demo_google_def provider_enabled_def named_enabled_def
        is_role_def issuers_match_def GOOGLE_ISSUER_def trim_end_matches_def)
  obtain v where tried: "try_candidates demo_token_env ''h.u.s'' None None None [demo_google] demo_state = (Inr v, demo_state)"
    and v: "ve_provider v = demo_google" "ve_user v = demo_user ''bob'' None"
    by (simp add: attempt_of_def load_provider_client_def plain_def flow_steps demo_verifies_google)
  have verified: "verify_exchange demo_token_env ''h.u.s'' None demo_state = (Inr (Some v), demo_state)"
    unfolding verify_exchange_def using listed candidates tried
    by (simp add: demo_unverified and_then_step MAX_SUBJECT_TOKEN_LENGTH_def done_with_def del: try_candidates.simps)
  then show ?thesis using v by blast
qed

lemma demo_user_exchange:
  "\<exists>e s'. exchange demo_token_env (\<lambda>_. []) (V4 0x0A000001) (demo_exchange_request ''h.u.s'') None demo_state = (Inr e, s') \<and>
     et_login e = Provider ''go'' ''Google'' \<and> et_user_id e = ''bob''"
proof -
  obtain v where verified: "verify_exchange demo_token_env ''h.u.s'' None demo_state = (Inr (Some v), demo_state)"
    and v: "ve_provider v = demo_google" "ve_user v = demo_user ''bob'' None" using demo_verified by blast
  obtain e s' where "complete_exchange demo_token_env (V4 0x0A000001) v TOKEN_TYPE_ACCESS_TOKEN demo_state = (Inr e, s')"
    "et_login e = Provider ''go'' ''Google''" "et_user_id e = ''bob''"
    using v
    by (simp add: complete_exchange_def Let_def plain_def flow_steps demo_whitelist external_login_requires_two_factor_def
        provider_login_def demo_google_def demo_encode)
  then show ?thesis using verified
    by (simp add: exchange_def and_then_step [OF demo_request_valid] MAX_SUBJECT_TOKEN_LENGTH_def Let_def
        demo_exchange_request_def [of "''h.u.s''", THEN arg_cong [where f = tr_subject_token]])
qed








lemma user_exchange_checked_witness:
  "\<exists>p info. ep_id p = ''go'' \<and> shown_by demo_token_env ''h.u.s'' p info \<and> linked_to demo_token_env info (demo_user ''bob'' None)"
proof -
  obtain e s' where run: "exchange demo_token_env (\<lambda>_. []) (V4 0x0A000001) (demo_exchange_request ''h.u.s'') None demo_state = (Inr e, s')"
    "et_login e = Provider ''go'' ''Google''" using demo_user_exchange by blast
  show ?thesis
    using user_exchange_checked [OF run] by (auto simp: demo_exchange_request_def linked_to_def)
qed


lemma login_exchange_second_factor_witness:
  "\<exists>p info u jwt s'. exchange_external_for_jwt demo_token_env (V4 0x0A000001) ''h.u.s'' demo_state = (Inr (Jwt_Issued jwt), s') \<and>
     takes_token demo_token_env ''h.u.s'' None p \<and> shown_by demo_token_env ''h.u.s'' p info \<and> linked_to demo_token_env info u"
proof -
  obtain v where verified: "verify_exchange demo_token_env ''h.u.s'' None demo_state = (Inr (Some v), demo_state)"
    and v: "ve_provider v = demo_google" "ve_user v = demo_user ''bob'' None" using demo_verified by blast
  obtain jwt s' where run: "exchange_external_for_jwt demo_token_env (V4 0x0A000001) ''h.u.s'' demo_state = (Inr (Jwt_Issued jwt), s')"
    using v unfolding exchange_external_for_jwt_def Let_def
      and_then_step [where m = "verify_exchange T t r" for T t r, OF verified]
    by (simp add: ok_or_def plain_def flow_steps demo_whitelist external_login_requires_two_factor_def
        begin_external_two_factor_def demo_encode)
  show ?thesis using login_exchange_second_factor [OF run] run by blast
qed

end
