(* ===== verification/Pki.thy ===== *)
theory Pki
  imports Prelude "HOL-Library.Word"
begin

text \<open>
  Keys and Noise handshakes, \<^verbatim>\<open>crates/pki/src\<close>: the checks of raw X25519 keys, the forms
  a key is given in, pem framing, and the two kinds of handshake. The crates \<^verbatim>\<open>data_encoding\<close>
  (base64), \<^verbatim>\<open>pem_rfc7468\<close>, \<^verbatim>\<open>der\<close>, \<^verbatim>\<open>spki\<close>,
  \<^verbatim>\<open>pkcs8\<close> and \<^verbatim>\<open>snow\<close> are the parameter \<open>pki_lib\<close>, \<open>'o\<close> the state of
  a handshake. Wiping memory is left out.
\<close>

unbundle bit_operations_syntax

section \<open>Bytes and the libraries\<close>

type_synonym bytes = "8 word list"

definition bytes_of :: "string \<Rightarrow> bytes" where
  "bytes_of = map of_char"

datatype pki_error =
    Wrong_Length nat | Not_Canonical | Low_Order | Zero_Key | Key_Empty | Key_Too_Long
  | Bad_Base64 | Bad_Pem | Bad_Der | Not_X25519 | Not_Aligned | Handshake_Failed

record spki_info =
  sp_oid :: string
  sp_unused_bits :: nat
  sp_bits :: "bytes option"

record 'o pki_lib =
  pk_base64_encode :: "bytes \<Rightarrow> string"
  pk_base64_decode :: "string \<Rightarrow> bytes option"
  pk_pem_decode :: "string \<Rightarrow> bytes option"
  pk_spki_decode :: "bytes \<Rightarrow> spki_info option"
  pk_spki_encode :: "bytes \<Rightarrow> bytes option"
  pk_pkcs8_decode :: "bytes \<Rightarrow> (string \<times> bytes) option"   \<comment> \<open>the algorithm, the octets\<close>
  pk_pkcs8_encode :: "bytes \<Rightarrow> bytes option"
  pk_octet_decode :: "bytes \<Rightarrow> bytes option"
  pk_octet_encode :: "bytes \<Rightarrow> bytes option"
  pk_dh_public :: "bytes \<Rightarrow> bytes"
  nz_initiator :: "string \<Rightarrow> bytes \<Rightarrow> bytes option \<Rightarrow> bytes \<Rightarrow> 'o option"   \<comment> \<open>parameters, private, remote, prologue\<close>
  nz_responder :: "string \<Rightarrow> bytes \<Rightarrow> bytes \<Rightarrow> 'o option"
  nz_write :: "'o \<Rightarrow> (bytes \<times> 'o) option"
  nz_read :: "'o \<Rightarrow> bytes \<Rightarrow> 'o option"
  nz_remote_static :: "'o \<Rightarrow> bytes option"

datatype pki_kind = One_Way | Mutual

fun noise_params :: "pki_kind \<Rightarrow> string" where
  "noise_params One_Way = ''Noise_IK_25519_ChaChaPoly_BLAKE2s''"
| "noise_params Mutual = ''Noise_XX_25519_ChaChaPoly_BLAKE2s''"

definition OID_X25519 :: string where "OID_X25519 = ''1.3.101.110''"

text \<open>Rust's \<open>?\<close> on a call of a library, whose error is the given one.\<close>

abbreviation attempting :: "pki_error \<Rightarrow> 'a option \<Rightarrow> ('a \<Rightarrow> pki_error + 'b) \<Rightarrow> pki_error + 'b" where
  "attempting e x f \<equiv> res_bind (ok_or e x) f"

section \<open>Raw keys\<close>

definition LOW_ORDER_POINTS :: "bytes list" where
  "LOW_ORDER_POINTS = [
     replicate 32 0,
     1 # replicate 31 0,
     [0xe0, 0xeb, 0x7a, 0x7c, 0x3b, 0x41, 0xb8, 0xae, 0x16, 0x56, 0xe3,
      0xfa, 0xf1, 0x9f, 0xc4, 0x6a, 0xda, 0x09, 0x8d, 0xeb, 0x9c, 0x32,
      0xb1, 0xfd, 0x86, 0x62, 0x05, 0x16, 0x5f, 0x49, 0xb8, 0x00],
     [0x5f, 0x9c, 0x95, 0xbc, 0xa3, 0x50, 0x8c, 0x24, 0xb1, 0xd0, 0xb1,
      0x55, 0x9c, 0x83, 0xef, 0x5b, 0x04, 0x44, 0x5c, 0xc4, 0x58, 0x1c,
      0x8e, 0x86, 0xd8, 0x22, 0x4e, 0xdd, 0xd0, 0x9f, 0x11, 0x57],
     0xec # replicate 30 0xff @ [0x7f]]"

definition check_raw_public_key :: "bytes \<Rightarrow> pki_error + unit" where
  "check_raw_public_key raw =
     (if length raw \<noteq> 32 then Inl (Wrong_Length (length raw))
      else let at_least_p = raw ! 31 = 0x7f \<and> list_all (\<lambda>b. b = 0xff) (take 30 (drop 1 raw)) \<and> 0xed \<le> raw ! 0 in
        if (raw ! 31) AND 0x80 \<noteq> 0 \<or> at_least_p then Inl Not_Canonical
        else if raw \<in> set LOW_ORDER_POINTS then Inl Low_Order
        else Inr ())"

definition check_scalar :: "bytes \<Rightarrow> pki_error + unit" where
  "check_scalar raw =
     (let bits = fold (\<lambda>b bits. bits OR b) (take 30 (drop 1 raw)) ((raw ! 0 AND 0xf8) OR (raw ! 31 AND 0x3f)) in
      if bits = 0 then Inl Zero_Key else Inr ())"

definition check_raw_private_key :: "bytes \<Rightarrow> pki_error + unit" where
  "check_raw_private_key raw =
     (if length raw \<noteq> 32 then Inl (Wrong_Length (length raw)) else check_scalar raw)"

definition padded :: "bytes \<Rightarrow> bytes" where
  "padded bs = bs @ replicate (32 - length bs) 0"

section \<open>Private keys\<close>

definition raw_bytes_after_decode :: "'o pki_lib \<Rightarrow> bytes \<Rightarrow> pki_error + bytes" where
  "raw_bytes_after_decode K decoded =
     attempting Bad_Der (pk_pkcs8_decode K decoded) (\<lambda>(oid, private_key).
     if oid \<noteq> OID_X25519 then Inl Not_X25519
     else attempting Bad_Der (pk_octet_decode K private_key) (\<lambda>octet.
     if length octet \<noteq> 32 then Inl (Wrong_Length (length octet))
     else res_bind (check_scalar octet) (\<lambda>_. Inr octet)))"

definition private_raw_bytes :: "'o pki_lib \<Rightarrow> string \<Rightarrow> pki_error + bytes" where
  "private_raw_bytes K pkcs8_private_key =
     attempting Bad_Base64 (pk_base64_decode K pkcs8_private_key) (raw_bytes_after_decode K)"

definition maybe_raw_bytes :: "'o pki_lib \<Rightarrow> string \<Rightarrow> pki_error + bytes" where
  "maybe_raw_bytes K key =
     (let trimmed = trim key in
      if trimmed = [] then Inl Key_Empty
      else if prefix ''-----BEGIN'' trimmed then attempting Bad_Pem (pk_pem_decode K trimmed) (raw_bytes_after_decode K)
      else if length key \<le> 32 then res_bind (check_scalar (padded (bytes_of key))) (\<lambda>_. Inr (padded (bytes_of key)))
      else private_raw_bytes K trimmed)"

definition private_from_raw_bytes :: "'o pki_lib \<Rightarrow> bytes \<Rightarrow> pki_error + string" where
  "private_from_raw_bytes K private_key =
     (if 32 < length private_key then Inl Key_Too_Long
      else if private_key = [] then Inl Key_Empty
      else res_bind (check_scalar (padded private_key)) (\<lambda>_.
        attempting Bad_Der (pk_octet_encode K (padded private_key)) (\<lambda>octet_der.
        attempting Bad_Der (pk_pkcs8_encode K octet_der) (\<lambda>der. Inr (pk_base64_encode K der)))))"

definition from_maybe_raw_bytes :: "'o pki_lib \<Rightarrow> string \<Rightarrow> pki_error + string" where
  "from_maybe_raw_bytes K key = res_bind (maybe_raw_bytes K key) (private_from_raw_bytes K)"

section \<open>Public keys\<close>

definition public_from_raw_bytes :: "'o pki_lib \<Rightarrow> bytes \<Rightarrow> pki_error + string" where
  "public_from_raw_bytes K public_key =
     res_bind (check_raw_public_key public_key) (\<lambda>_.
     attempting Bad_Der (pk_spki_encode K public_key) (\<lambda>der. Inr (pk_base64_encode K der)))"

definition der_to_raw_bytes :: "'o pki_lib \<Rightarrow> bytes \<Rightarrow> pki_error + bytes" where
  "der_to_raw_bytes K spki_der =
     attempting Bad_Der (pk_spki_decode K spki_der) (\<lambda>spki.
     if sp_oid spki \<noteq> OID_X25519 then Inl Not_X25519
     else if sp_unused_bits spki \<noteq> 0 then Inl Not_Aligned
     else attempting Bad_Der (sp_bits spki) (\<lambda>raw.
       res_bind (check_raw_public_key raw) (\<lambda>_. Inr raw)))"

definition maybe_pem_to_der :: "'o pki_lib \<Rightarrow> string \<Rightarrow> pki_error + bytes" where
  "maybe_pem_to_der K public_key =
     (let public_key = trim public_key in
      if prefix ''-----BEGIN'' public_key then ok_or Bad_Pem (pk_pem_decode K public_key)
      else ok_or Bad_Base64 (pk_base64_decode K public_key))"

definition public_from_der :: "'o pki_lib \<Rightarrow> bytes \<Rightarrow> pki_error + string" where
  "public_from_der K der = res_bind (der_to_raw_bytes K der) (public_from_raw_bytes K)"

definition public_from_maybe_pem :: "'o pki_lib \<Rightarrow> string \<Rightarrow> pki_error + string" where
  "public_from_maybe_pem K public_key = res_bind (maybe_pem_to_der K public_key) (public_from_der K)"

definition maybe_pem_to_raw_bytes :: "'o pki_lib \<Rightarrow> string \<Rightarrow> pki_error + bytes" where
  "maybe_pem_to_raw_bytes K public_key = res_bind (maybe_pem_to_der K public_key) (der_to_raw_bytes K)"

definition from_private_key_using_dh :: "'o pki_lib \<Rightarrow> string \<Rightarrow> pki_error + string" where
  "from_private_key_using_dh K private_key =
     res_bind (maybe_raw_bytes K private_key) (\<lambda>raw. public_from_raw_bytes K (pk_dh_public K raw))"

section \<open>Pem framing\<close>

function chunks :: "nat \<Rightarrow> 'a list \<Rightarrow> 'a list list" where
  "chunks n xs = (if xs = [] \<or> n = 0 then [] else take n xs # chunks n (drop n xs))"
  by auto
termination by (relation "measure (\<lambda>(n, xs). length xs)") auto

declare chunks.simps [simp del]

definition NEWLINE :: char where "NEWLINE = CHR 0x0A"

definition encode_pem :: "string \<Rightarrow> string \<Rightarrow> string" where
  "encode_pem label body =
     ''-----BEGIN '' @ label @ ''-----'' @ [NEWLINE] @
     concat (map (\<lambda>line. line @ [NEWLINE]) (chunks 64 body)) @
     ''-----END '' @ label @ ''-----'' @ [NEWLINE]"

section \<open>Handshakes\<close>

text \<open>One message, which shows the client's key to the holder of the pinned one.\<close>

definition one_way_initiator :: "'o pki_lib \<Rightarrow> bytes \<Rightarrow> bytes \<Rightarrow> bytes \<Rightarrow> pki_error + 'o" where
  "one_way_initiator K private_key remote_public_key prologue =
     res_bind (check_raw_private_key private_key) (\<lambda>_.
     res_bind (check_raw_public_key remote_public_key) (\<lambda>_.
     ok_or Handshake_Failed (nz_initiator K (noise_params One_Way) private_key (Some remote_public_key) prologue)))"

definition one_way_responder :: "'o pki_lib \<Rightarrow> bytes \<Rightarrow> bytes \<Rightarrow> pki_error + 'o" where
  "one_way_responder K private_key prologue =
     res_bind (check_raw_private_key private_key) (\<lambda>_.
     ok_or Handshake_Failed (nz_responder K (noise_params One_Way) private_key prologue))"

definition generate_signature :: "'o pki_lib \<Rightarrow> 'o \<Rightarrow> pki_error + string" where
  "generate_signature K h = attempting Handshake_Failed (nz_write K h) (\<lambda>(message, _). Inr (pk_base64_encode K message))"

definition validate_signature :: "'o pki_lib \<Rightarrow> 'o \<Rightarrow> string \<Rightarrow> pki_error + string" where
  "validate_signature K h signature =
     attempting Bad_Base64 (pk_base64_decode K signature) (\<lambda>decoded.
     attempting Handshake_Failed (nz_read K h decoded) (\<lambda>h'.
     attempting Handshake_Failed (nz_remote_static K h') (\<lambda>raw. public_from_raw_bytes K raw)))"

text \<open>Several messages, after which each side knows the other's key.\<close>

definition mutual_initiator :: "'o pki_lib \<Rightarrow> string \<Rightarrow> bytes \<Rightarrow> pki_error + 'o" where
  "mutual_initiator K private_key prologue =
     res_bind (maybe_raw_bytes K private_key) (\<lambda>raw.
     ok_or Handshake_Failed (nz_initiator K (noise_params Mutual) raw None prologue))"

definition mutual_responder :: "'o pki_lib \<Rightarrow> string \<Rightarrow> bytes \<Rightarrow> pki_error + 'o" where
  "mutual_responder K private_key prologue =
     res_bind (maybe_raw_bytes K private_key) (\<lambda>raw.
     ok_or Handshake_Failed (nz_responder K (noise_params Mutual) raw prologue))"

definition mutual_read_message :: "'o pki_lib \<Rightarrow> bytes \<Rightarrow> 'o \<Rightarrow> pki_error + 'o" where
  "mutual_read_message K message h = ok_or Handshake_Failed (nz_read K h message)"

definition mutual_next_message :: "'o pki_lib \<Rightarrow> 'o \<Rightarrow> pki_error + bytes \<times> 'o" where
  "mutual_next_message K h = ok_or Handshake_Failed (nz_write K h)"

definition mutual_remote_public_key :: "'o pki_lib \<Rightarrow> 'o \<Rightarrow> pki_error + bytes" where
  "mutual_remote_public_key K h =
     attempting Handshake_Failed (nz_remote_static K h) (\<lambda>remote.
     res_bind (check_raw_public_key remote) (\<lambda>_. Inr remote))"

section \<open>A public key is canonical\<close>

fun le_value :: "bytes \<Rightarrow> nat" where
  "le_value [] = 0"
| "le_value (b # bs) = unat b + 256 * le_value bs"

definition p25519 :: nat where "p25519 = 2 ^ 255 - 19"

lemma le_value_append: "le_value (xs @ ys) = le_value xs + 256 ^ length xs * le_value ys"
  by (induction xs) (auto simp: algebra_simps)

lemma unat8_less: "unat (b :: 8 word) < 256"
proof -
  have "unat b < 2 ^ LENGTH(8)" by (rule unsigned_less)
  then show ?thesis by simp
qed

lemma le_value_less: "le_value bs < 256 ^ length bs"
proof (induction bs)
  case (Cons b bs)
  then show ?case using unat8_less [of b] by simp
qed simp

lemma le_value_inj: "length xs = length ys \<Longrightarrow> le_value xs = le_value ys \<Longrightarrow> xs = ys"
proof (induction xs ys rule: list_induct2)
  case (Cons x xs y ys)
  then have eq: "unat x + 256 * le_value xs = unat y + 256 * le_value ys" by simp
  then have "unat x mod 256 = unat y mod 256" by (metis mod_mult_self2)
  then have "unat x = unat y" using unat8_less [of x] unat8_less [of y] by simp
  then show ?case using eq Cons.IH by (simp add: unat_eq_nat_uint [symmetric] word_unat_eq_iff)
qed simp

lemma le_value_max: "le_value bs = 256 ^ length bs - 1 \<longleftrightarrow> list_all (\<lambda>b. b = 0xff) bs"
proof (induction bs)
  case (Cons b bs)
  let ?m = "256 ^ length bs :: nat"
  have b: "unat b \<le> 255" "b = 0xff \<longleftrightarrow> unat b = 255" using unat8_less [of b] by (simp_all add: word_unat_eq_iff)
  have v: "le_value bs \<le> ?m - 1" using le_value_less [of bs] by simp
  have arith: "x + 256 * y = 256 * m - 1 \<longleftrightarrow> x = 255 \<and> y = m - 1" if "x \<le> 255" "y \<le> m - 1" "0 < m" for x y m :: nat
  proof (cases m)
    case (Suc k)
    then have "y \<le> k" "256 * m - 1 = 255 + 256 * k" using that by simp_all
    then show ?thesis using that(1) Suc by (intro iffI conjI) linarith+
  qed (use that in simp)
  have "unat b + 256 * le_value bs = 256 * ?m - 1 \<longleftrightarrow> unat b = 255 \<and> le_value bs = ?m - 1"
    by (rule arith [OF b(1) v]) simp
  then show ?case using Cons.IH b(2) by simp
qed simp

lemma bytes32_cases:
  assumes "length raw = 32"
  obtains a m z where "raw = a # m @ [z]" "length m = 30" "raw ! 0 = a" "raw ! 31 = z" "take 30 (drop 1 raw) = m"
proof -
  obtain a r where r: "raw = a # r" "length r = 31" using assms by (cases raw) auto
  then obtain m z where m: "r = m @ [z]" "length m = 30" by (cases r rule: rev_cases) auto
  show thesis using that [of a m z] r m by (simp add: nth_append)
qed

lemma high_bit: "(z :: 8 word) AND 0x80 \<noteq> 0 \<longleftrightarrow> 128 \<le> unat z"
proof -
  have "z AND 0x80 \<noteq> 0 \<longleftrightarrow> bit z 7"
    using and_exp_eq_0_iff_not_bit [of z 7] by simp
  also have "\<dots> \<longleftrightarrow> bit (unat z) 7" by (simp add: bit_unsigned_iff)
  also have "\<dots> \<longleftrightarrow> odd (unat z div 128)" by (simp add: bit_iff_odd)
  also have "\<dots> \<longleftrightarrow> 128 \<le> unat z"
  proof -
    have "unat z div 128 < 2" using unat8_less [of z] by (simp add: div_less_iff_less_mult)
    then have "odd (unat z div 128) \<longleftrightarrow> unat z div 128 = 1" by (auto simp: less_2_cases_iff)
    then show ?thesis using unat8_less [of z] by auto
  qed
  finally show ?thesis .
qed

lemma le_value_zeros: "le_value (replicate n 0) = 0"
  by (induction n) simp_all

text \<open>
  Which raw keys pass as public keys: the 32 bytes, read as a little endian number, which are the
  canonical form of a point (below the prime, so the unused top bit is clear) other than the five
  low order ones. So no two accepted keys are the same point.
\<close>

theorem public_key_check_canonical:
  "check_raw_public_key raw = Inr () \<longleftrightarrow>
     length raw = 32 \<and> le_value raw < 2 ^ 255 - 19 \<and>
     le_value raw \<notin> {0, 1, 2 ^ 255 - 20,
       325606250916557431795983626356110631294008115727848805560023387167927233504,
       39382357235489614581723060781553021112529911719440698176882885853963445705823}"
proof (cases "length raw = 32")
  case True
  then obtain a m z where raw: "raw = a # m @ [z]" "length m = 30" and sel: "raw ! 0 = a" "raw ! 31 = z" "take 30 (drop 1 raw) = m"
    by (rule bytes32_cases)
  have val: "le_value raw = unat a + 256 * (le_value m + 256 ^ 30 * unat z)"
    by (simp add: raw le_value_append)
  have bounds: "unat a < 256" "le_value m < 256 ^ 30" "unat z < 256"
    using unat8_less le_value_less [of m] raw(2) by simp_all
  have canonical: "\<not> ((raw ! 31) AND 0x80 \<noteq> 0 \<or>
      raw ! 31 = 0x7f \<and> list_all (\<lambda>b. b = 0xff) (take 30 (drop 1 raw)) \<and> 0xed \<le> raw ! 0) \<longleftrightarrow> le_value raw < 2 ^ 255 - 19"
    unfolding sel high_bit le_value_max [symmetric] raw(2) val
    using bounds by (simp add: word_unat_eq_iff word_le_nat_alt) linarith
  have low: "raw \<in> set LOW_ORDER_POINTS \<longleftrightarrow> le_value raw \<in> le_value ` set LOW_ORDER_POINTS"
    using le_value_inj True by (auto simp: LOW_ORDER_POINTS_def)
  have "le_value ` set LOW_ORDER_POINTS = {0, 1, 2 ^ 255 - 20,
       325606250916557431795983626356110631294008115727848805560023387167927233504,
       39382357235489614581723060781553021112529911719440698176882885853963445705823}"
    using le_value_max [of "replicate 30 (0xff :: 8 word)"]
    by (simp add: LOW_ORDER_POINTS_def le_value_append le_value_zeros list_all_iff insert_commute)
  then show ?thesis using canonical low True
    by (auto simp: check_raw_public_key_def Let_def split: if_splits)
qed (simp add: check_raw_public_key_def)

section \<open>A private key is usable\<close>

text \<open>What X25519 makes of the bytes: the scalar with some bits cleared and one set.\<close>

definition clamped :: "bytes \<Rightarrow> bytes" where
  "clamped raw = raw[0 := raw ! 0 AND 0xf8, 31 := (raw ! 31 AND 0x7f) OR 0x40]"

lemma fold_or_zero: "fold (\<lambda>b bits. bits OR b) bs (x :: 8 word) = 0 \<longleftrightarrow> x = 0 \<and> (\<forall>b \<in> set bs. b = 0)"
  by (induction bs arbitrary: x) (auto simp: or_eq_0_iff)

lemma clamp_high: "((z :: 8 word) AND 0x7f) OR 0x40 = 0x40 \<longleftrightarrow> z AND 0x3f = 0"
proof -
  have bits: "w = v \<longleftrightarrow> (\<forall>n < 8. bit w n = bit v n)" for w v :: "8 word"
    using bit_word_eqI [of w v] by auto
  show ?thesis unfolding bits
    by (simp add: bit_simps numeral_eq_Suc All_less_Suc)
qed

lemma check_scalar_clamped:
  assumes "length raw = 32"
  shows "check_scalar raw = Inl Zero_Key \<longleftrightarrow> clamped raw = clamped (replicate 32 0)"
    and "check_scalar raw = Inr () \<longleftrightarrow> clamped raw \<noteq> clamped (replicate 32 0)"
proof -
  obtain a m z where raw: "raw = a # m @ [z]" "length m = 30" and sel: "raw ! 0 = a" "raw ! 31 = z" "take 30 (drop 1 raw) = m"
    using assms by (rule bytes32_cases)
  have "clamped raw = (a AND 0xf8) # m @ [(z AND 0x7f) OR 0x40]"
    by (simp add: clamped_def raw nth_append list_update_append)
  moreover have "clamped (replicate 32 0) = 0 # replicate 30 0 @ [0x40]"
    by (simp add: clamped_def numeral_eq_Suc)
  moreover have "m = replicate 30 0 \<longleftrightarrow> (\<forall>b \<in> set m. b = 0)"
    using raw(2) by (metis in_set_replicate replicate_eqI)
  ultimately have "clamped raw = clamped (replicate 32 0) \<longleftrightarrow> a AND 0xf8 = 0 \<and> (\<forall>b \<in> set m. b = 0) \<and> z AND 0x3f = 0"
    by (auto simp: clamp_high)
  moreover have "check_scalar raw = Inl Zero_Key \<longleftrightarrow> a AND 0xf8 = 0 \<and> (\<forall>b \<in> set m. b = 0) \<and> z AND 0x3f = 0"
    unfolding check_scalar_def Let_def sel fold_or_zero by (auto simp: or_eq_0_iff)
  ultimately show "check_scalar raw = Inl Zero_Key \<longleftrightarrow> clamped raw = clamped (replicate 32 0)"
    "check_scalar raw = Inr () \<longleftrightarrow> clamped raw \<noteq> clamped (replicate 32 0)"
    by (auto simp: check_scalar_def Let_def)
qed

lemma padded_length: "length bs \<le> 32 \<Longrightarrow> length (padded bs) = 32"
  by (simp add: padded_def)

lemma decoded_usable:
  "raw_bytes_after_decode K decoded = Inr raw \<Longrightarrow> length raw = 32 \<and> check_scalar raw = Inr ()"
  by (auto simp: raw_bytes_after_decode_def res_bind_Inr_iff ok_or_Inr_iff split: if_splits)

text \<open>
  Whatever form a private key is given in (pem, base64 or raw), what is used of it is 32 bytes
  whose scalar is not the one everybody knows, that of an empty or zero key; and text which is no
  longer than 32 bytes and no pem is the key itself, zero padded, its white space included, unless
  it is nothing but white space.
\<close>

theorem private_key_usable:
  assumes "maybe_raw_bytes K key = Inr raw"
  shows "length raw = 32 \<and> clamped raw \<noteq> clamped (replicate 32 0) \<and> trim key \<noteq> [] \<and>
    (length key \<le> 32 \<and> \<not> prefix ''-----BEGIN'' (trim key) \<longrightarrow> raw = map of_char key @ replicate (32 - length key) 0)"
proof -
  have "length raw = 32 \<and> check_scalar raw = Inr () \<and> trim key \<noteq> [] \<and>
    (length key \<le> 32 \<and> \<not> prefix ''-----BEGIN'' (trim key) \<longrightarrow> raw = padded (bytes_of key))"
    using assms decoded_usable [of K _ raw]
    by (auto simp: maybe_raw_bytes_def Let_def private_raw_bytes_def res_bind_Inr_iff ok_or_Inr_iff padded_length bytes_of_def
        split: if_splits)
  then show ?thesis using check_scalar_clamped(2) [of raw] by (simp add: padded_def bytes_of_def)
qed

lemma repeated_public_key:
  assumes "b \<in> {7, 9}"
  shows "check_raw_public_key (replicate 32 b) = Inr ()"
proof -
  have "hd raw \<in> {0, 1, 0xe0, 0x5f, 0xec}" if "raw \<in> set LOW_ORDER_POINTS" for raw
    using that by (auto simp: LOW_ORDER_POINTS_def)
  from this [of "replicate 32 b"] have "replicate 32 b \<notin> set LOW_ORDER_POINTS" using assms by auto
  then show ?thesis using assms by (auto simp: check_raw_public_key_def)
qed

definition demo_pki :: "unit pki_lib" where
  "demo_pki = \<lparr>pk_base64_encode = (\<lambda>_. []), pk_base64_decode = (\<lambda>_. None), pk_pem_decode = (\<lambda>_. None),
     pk_spki_decode = (\<lambda>_. None), pk_spki_encode = Some, pk_pkcs8_decode = (\<lambda>_. None), pk_pkcs8_encode = Some,
     pk_octet_decode = Some, pk_octet_encode = Some, pk_dh_public = id, nz_initiator = (\<lambda>_ _ _ _. None),
     nz_responder = (\<lambda>_ _ _. None), nz_write = (\<lambda>_. None), nz_read = (\<lambda>_ _. None), nz_remote_static = (\<lambda>_. None)\<rparr>"

lemma private_key_usable_witness:
  "\<exists>raw. maybe_raw_bytes demo_pki ''a key'' = Inr raw \<and> length raw = 32 \<and> clamped raw \<noteq> clamped (replicate 32 0)"
proof -
  have "((\<lambda>x. x) ^^ n) y = y" for n and y :: "8 word" by (induction n) simp_all
  then have "check_scalar (padded (bytes_of ''a key'')) = Inr ()"
    by (simp add: check_scalar_def Let_def fold_or_zero padded_def bytes_of_def)
  then have run: "maybe_raw_bytes demo_pki ''a key'' = Inr (padded (bytes_of ''a key''))"
    by (simp add: maybe_raw_bytes_def Let_def byte_simps)
  then show ?thesis using private_key_usable [OF run] by blast
qed

section \<open>Pem can be undone\<close>

lemma concat_chunks: "0 < n \<Longrightarrow> concat (chunks n xs) = xs"
proof (induction n xs rule: chunks.induct)
  case (1 n xs)
  then show ?case by (cases "xs = []") (simp_all add: chunks.simps [of n xs] chunks.simps [of n "[]"])
qed

lemma chunks_lines: "line \<in> set (chunks n xs) \<Longrightarrow> line \<noteq> [] \<and> length line \<le> n \<and> set line \<subseteq> set xs"
proof (induction n xs rule: chunks.induct)
  case (1 n xs)
  then show ?case
    by (subst (asm) chunks.simps) (auto split: if_splits dest: in_set_takeD in_set_dropD)
qed

lemma split_on_lines:
  assumes "\<forall>line \<in> set ls. c \<notin> set line"
  shows "split_on c (concat (map (\<lambda>line. line @ [c]) ls) @ rest) = ls @ split_on c rest"
proof -
  have one: "split_on c (line @ c # r) = line # split_on c r" if "c \<notin> set line" for line r
    using that by (induction line) auto
  show ?thesis using assms by (induction ls) (auto simp: one)
qed

text \<open>
  The lines of a pem: the frame's, and between them lines of at most 64 characters, none empty,
  which put together are the body again.
\<close>

theorem pem_framing:
  assumes "NEWLINE \<notin> set label" "NEWLINE \<notin> set body"
  shows "\<exists>lines. split_on NEWLINE (encode_pem label body) =
      (''-----BEGIN '' @ label @ ''-----'') # lines @ [''-----END '' @ label @ ''-----'', []] \<and>
    concat lines = body \<and> (\<forall>line \<in> set lines. 1 \<le> length line \<and> length line \<le> 64)"
proof (intro exI [of _ "chunks 64 body"] conjI)
  let ?start = "''-----BEGIN '' @ label @ ''-----''" and ?fin = "''-----END '' @ label @ ''-----''"
  have plain: "NEWLINE \<notin> set ''-----BEGIN ''" "NEWLINE \<notin> set ''-----END ''" "NEWLINE \<notin> set ''-----''"
    by (simp_all add: NEWLINE_def)
  have "\<forall>line \<in> set (?start # chunks 64 body @ [?fin]). NEWLINE \<notin> set line"
    using assms plain chunks_lines [of _ 64 body] by auto
  from split_on_lines [OF this, of "[]"]
  show "split_on NEWLINE (encode_pem label body) = ?start # chunks 64 body @ [?fin, []]"
    by (simp add: encode_pem_def)
  show "concat (chunks 64 body) = body" by (simp add: concat_chunks)
  show "\<forall>line \<in> set (chunks 64 body). 1 \<le> length line \<and> length line \<le> 64"
    using chunks_lines [of _ 64 body] by (auto simp: Suc_le_eq)
qed

lemma pem_framing_witness:
  "\<exists>lines. split_on NEWLINE (encode_pem ''PUBLIC KEY'' ''MCow'') =
      (''-----BEGIN '' @ ''PUBLIC KEY'' @ ''-----'') # lines @ [''-----END '' @ ''PUBLIC KEY'' @ ''-----'', []] \<and>
    concat lines = ''MCow''"
  using pem_framing [of "''PUBLIC KEY''" "''MCow''"] by (simp add: NEWLINE_def) blast

end
