(* ===== verification/SecretFile.thy ===== *)
theory SecretFile
  imports Flow "HOL-Library.Word"
begin

unbundle bit_operations_syntax

text \<open>
  Writing secret files, \<^verbatim>\<open>crates/secret_file/src/write.rs\<close> on unix: a new file beside the
  path, given the identity of the existing one, renamed onto it; where that can't be done, the
  existing file is written in place. The kernel is the parameter \<open>os\<close>: which of its calls fail and
  how far a failed one got; \<open>'w\<close> is what that depends on. The entry at the path and the temp file are
  the state, with every entry the path has shown on the way. Two runs on the same path, and the
  names of the directories above it, are left out.
\<close>

section \<open>Files and the kernel\<close>

datatype io_kind =
    Not_Found | Permission_Denied | Read_Only_Filesystem | Resource_Busy | Crosses_Devices
  | Already_Exists | Invalid_Input | Unsupported | Other_Error

record file_entry =
  fl_regular :: bool
  fl_inode :: nat
  fl_uid :: nat
  fl_gid :: nat
  fl_mode :: nat
  fl_acl :: string
  fl_links :: nat
  fl_bytes :: string

record directory =
  dr_uid :: nat
  dr_mode :: nat

datatype syscall =
    Create_Dirs | Lstat | Stat_Dir | Create_Temp | Stat_Temp | Chown | Chown_Back | Copy_Acl | Set_Mode
  | Write_Temp | Sync_Temp | Rename | Sync_Dir | Open_File | Stat_Open | Write_File | Truncate | Sync_File
  | Remove_Temp

record 'w os =
  os_fail :: "syscall \<Rightarrow> 'w \<Rightarrow> io_kind option \<times> 'w"
  os_written :: "'w \<Rightarrow> nat"       \<comment> \<open>how many bytes a write which fails wrote\<close>
  os_renamed :: "'w \<Rightarrow> bool"      \<comment> \<open>whether a rename which reports an error happened\<close>
  os_created :: "'w \<Rightarrow> file_entry"      \<comment> \<open>inode, owner and group of a file created\<close>
  os_dir :: "'w \<Rightarrow> directory"

record 'w disk =
  dk_file :: "file_entry option"
  dk_temp :: "file_entry option"
  dk_seen :: "file_entry option list"   \<comment> \<open>history: the entries the path has shown\<close>
  dk_world :: 'w

type_synonym ('w, 'a) io = "'w disk \<Rightarrow> (io_kind + 'a) \<times> 'w disk"

definition now_shows :: "file_entry option \<Rightarrow> 'w disk \<Rightarrow> 'w disk" where
  "now_shows f s = s\<lparr>dk_file := f, dk_seen := dk_seen s @ [f]\<rparr>"

definition sys :: "'w os \<Rightarrow> syscall \<Rightarrow> ('w, unit) io" where
  "sys K c s = (case os_fail K c (dk_world s) of
     (None, w) \<Rightarrow> (Inr (), s\<lparr>dk_world := w\<rparr>)
   | (Some e, w) \<Rightarrow> (Inl e, s\<lparr>dk_world := w\<rparr>))"

definition fails :: "io_kind \<Rightarrow> ('w, 'a) io" where
  "fails e s = (Inl e, s)"

section \<open>Rules\<close>

definition not_permitted :: "io_kind \<Rightarrow> bool" where
  "not_permitted e \<longleftrightarrow> e \<in> {Permission_Denied, Invalid_Input, Unsupported}"

text \<open>Modes are in octal in the source: \<open>0o1000\<close> is 512, \<open>0o022\<close> is 18, \<open>0o600\<close> is 384.\<close>

definition sticky_permits :: "nat \<Rightarrow> nat \<Rightarrow> nat \<Rightarrow> nat \<Rightarrow> bool" where
  "sticky_permits dir_mode dir_uid file_uid writer_uid \<longleftrightarrow>
     dir_mode AND 512 = 0 \<or> writer_uid = file_uid \<or> writer_uid = dir_uid"

definition owner_only_dir :: "nat \<Rightarrow> nat \<Rightarrow> nat \<Rightarrow> bool" where
  "owner_only_dir dir_mode dir_uid file_uid \<longleftrightarrow> dir_mode AND 18 = 0 \<and> (dir_uid = 0 \<or> dir_uid = file_uid)"

definition hard_linked :: "file_entry \<Rightarrow> bool" where
  "hard_linked f \<longleftrightarrow> 1 < fl_links f"

definition stat_dir :: "'w os \<Rightarrow> ('w, directory) io" where
  "stat_dir K = and_then (sys K Stat_Dir) (\<lambda>_ s. (Inr (os_dir K (dk_world s)), s))"

definition sticky_permits_in_place :: "'w os \<Rightarrow> file_entry \<Rightarrow> file_entry \<Rightarrow> ('w, bool) io" where
  "sticky_permits_in_place K created existing = and_then (stat_dir K) (\<lambda>d.
     done_with (sticky_permits (dr_mode d) (dr_uid d) (fl_uid existing) (fl_uid created)))"

definition hard_link_trusted :: "'w os \<Rightarrow> file_entry \<Rightarrow> ('w, bool) io" where
  "hard_link_trusted K existing = and_then (stat_dir K) (\<lambda>d.
     done_with (owner_only_dir (dr_mode d) (dr_uid d) (fl_uid existing)))"

text \<open>Some file systems can't sync a directory, and one without read permission can't be opened.\<close>

definition sync_dir :: "'w os \<Rightarrow> ('w, unit) io" where
  "sync_dir K = catching (sys K Sync_Dir) (\<lambda>e.
     if e \<in> {Invalid_Input, Unsupported, Permission_Denied} then done_with () else fails e)"

section \<open>The temp file\<close>

definition TEMP_ATTEMPTS :: nat where "TEMP_ATTEMPTS = 8"

definition set_temp :: "(file_entry \<Rightarrow> file_entry) \<Rightarrow> 'w disk \<Rightarrow> 'w disk" where
  "set_temp f s = s\<lparr>dk_temp := map_option f (dk_temp s)\<rparr>"

definition changing_temp :: "(file_entry \<Rightarrow> file_entry) \<Rightarrow> ('w, unit) io" where
  "changing_temp f s = (Inr (), set_temp f s)"

fun create_temp :: "'w os \<Rightarrow> nat \<Rightarrow> ('w, file_entry) io" where
  "create_temp K left s = (case sys K Create_Temp s of
     (Inr _, s') \<Rightarrow> (let f = (os_created K (dk_world s'))\<lparr>fl_regular := True, fl_mode := 384, fl_links := 1, fl_bytes := []\<rparr>
                   in (Inr f, s'\<lparr>dk_temp := Some f\<rparr>))
   | (Inl e, s') \<Rightarrow> (case left of
        Suc (Suc n) \<Rightarrow> if e = Already_Exists then create_temp K (Suc n) s' else (Inl e, s')
      | _ \<Rightarrow> (Inl e, s')))"

declare create_temp.simps [simp del]

text \<open>\<open>drop\<close> of the temp path, which \<open>keep\<close> stops: after the rename there is no temp file.\<close>

definition drop_temp :: "'w os \<Rightarrow> 'w disk \<Rightarrow> 'w disk" where
  "drop_temp K s = (case dk_temp s of
     None \<Rightarrow> s
   | Some _ \<Rightarrow> (case sys K Remove_Temp s of
        (Inr _, s') \<Rightarrow> s'\<lparr>dk_temp := None\<rparr>
      | (Inl _, s') \<Rightarrow> s'))"

text \<open>The owner, the access control, then the mode; an owner given away is taken back on an error.\<close>

definition give_owner :: "'w os \<Rightarrow> file_entry \<Rightarrow> file_entry \<Rightarrow> ('w, unit) io" where
  "give_owner K created existing =
     (if fl_uid created \<noteq> fl_uid existing \<or> fl_gid created \<noteq> fl_gid existing
      then and_then (sys K Chown) (\<lambda>_. changing_temp (\<lambda>f. f\<lparr>fl_uid := fl_uid existing, fl_gid := fl_gid existing\<rparr>))
      else done_with ())"

definition give_access :: "'w os \<Rightarrow> file_entry \<Rightarrow> ('w, unit) io" where
  "give_access K existing =
     and_then (sys K Copy_Acl) (\<lambda>_. and_then (changing_temp (\<lambda>f. f\<lparr>fl_acl := fl_acl existing\<rparr>)) (\<lambda>_.
     and_then (sys K Set_Mode) (\<lambda>_. changing_temp (\<lambda>f. f\<lparr>fl_mode := fl_mode existing\<rparr>))))"

definition take_back :: "'w os \<Rightarrow> file_entry \<Rightarrow> ('w, unit) io" where
  "take_back K created = and_then (sys K Chown_Back) (\<lambda>_. 
     changing_temp (\<lambda>f. f\<lparr>fl_uid := fl_uid created, fl_gid := fl_gid created\<rparr>))"

definition copy_identity :: "'w os \<Rightarrow> file_entry \<Rightarrow> file_entry \<Rightarrow> ('w, unit) io" where
  "copy_identity K created existing =
     and_then (give_owner K created existing) (\<lambda>_.
     catching (give_access K existing) (\<lambda>e.
       if fl_uid created \<noteq> fl_uid existing
       then and_then (catching (take_back K created) (\<lambda>_. done_with ())) (\<lambda>_. fails e)
       else fails e))"

text \<open>Whether to go on with the temp file, or to write in place instead.\<close>

definition keep_identity :: "'w os \<Rightarrow> file_entry \<Rightarrow> bool \<Rightarrow> file_entry \<Rightarrow> ('w, bool) io" where
  "keep_identity K created in_place existing =
     and_then (sys K Stat_Temp) (\<lambda>_.
     catching (and_then (copy_identity K created existing) (\<lambda>_. done_with True)) (\<lambda>e.
       if not_permitted e \<and> in_place
       then and_then (sticky_permits_in_place K created existing) (\<lambda>permitted.
         if permitted then done_with False else fails e)
       else fails e))"

definition write_temp :: "'w os \<Rightarrow> string \<Rightarrow> ('w, unit) io" where
  "write_temp K contents =
     and_then (catching (sys K Write_Temp) (\<lambda>e s.
       (Inl e, set_temp (\<lambda>f. f\<lparr>fl_bytes := take (os_written K (dk_world s)) contents\<rparr>) s))) (\<lambda>_.
     changing_temp (\<lambda>f. f\<lparr>fl_bytes := contents\<rparr>))"

definition renamed :: "'w disk \<Rightarrow> 'w disk" where
  "renamed s = (now_shows (dk_temp s) s)\<lparr>dk_temp := None\<rparr>"

definition rename_temp :: "'w os \<Rightarrow> ('w, unit) io" where
  "rename_temp K = and_then (catching (sys K Rename) (\<lambda>e s.
     (Inl e, if os_renamed K (dk_world s) then renamed s else s))) (\<lambda>_ s. (Inr (), renamed s))"

definition replace_with :: "'w os \<Rightarrow> file_entry \<Rightarrow> file_entry option \<Rightarrow> bool \<Rightarrow> string \<Rightarrow> ('w, bool) io" where
  "replace_with K created existing in_place contents =
     and_then (case existing of None \<Rightarrow> done_with True | Some f \<Rightarrow> keep_identity K created in_place f) (\<lambda>go_on.
     if \<not> go_on then done_with False
     else and_then (write_temp K contents) (\<lambda>_.
       and_then (sys K Sync_Temp) (\<lambda>_.
       and_then (catching (and_then (rename_temp K) (\<lambda>_. done_with True)) (\<lambda>e.
         if in_place \<and> e \<in> {Resource_Busy, Crosses_Devices} then done_with False else fails e)) (\<lambda>replaced.
       if replaced then and_then (sync_dir K) (\<lambda>_. done_with True) else done_with False))))"

definition replace :: "'w os \<Rightarrow> file_entry option \<Rightarrow> bool \<Rightarrow> string \<Rightarrow> ('w, bool) io" where
  "replace K existing in_place contents =
     and_then (catching (and_then (create_temp K TEMP_ATTEMPTS) (\<lambda>created. done_with (Some created))) (\<lambda>e.
       if in_place \<and> e \<in> {Permission_Denied, Read_Only_Filesystem} then done_with None else fails e)) (\<lambda>temp.
     case temp of
       None \<Rightarrow> done_with False
     | Some created \<Rightarrow> (\<lambda>s. case replace_with K created existing in_place contents s of (r, s') \<Rightarrow> (r, drop_temp K s')))"

section \<open>In place\<close>

definition overwritten :: "string \<Rightarrow> file_entry \<Rightarrow> file_entry" where
  "overwritten new f = f\<lparr>fl_bytes := new @ drop (length new) (fl_bytes f)\<rparr>"

text \<open>\<open>write_all\<close>: the path now_shows every prefix of the new contents over the old ones.\<close>

definition write_over :: "'w os \<Rightarrow> string \<Rightarrow> ('w, unit) io" where
  "write_over K contents s = (case (dk_file s, sys K Write_File s) of
     (None, (_, s')) \<Rightarrow> (Inl Not_Found, s')
   | (Some f, (r, s')) \<Rightarrow>
       (let n = (case r of Inr _ \<Rightarrow> length contents | Inl _ \<Rightarrow> min (os_written K (dk_world s')) (length contents)) in
        (r, fold (\<lambda>k. now_shows (Some (overwritten (take k contents) f))) [0..<Suc n] s')))"

definition truncate :: "'w os \<Rightarrow> nat \<Rightarrow> ('w, unit) io" where
  "truncate K n = and_then (sys K Truncate) (\<lambda>_ s.
     (Inr (), now_shows (map_option (\<lambda>f. f\<lparr>fl_bytes := take n (fl_bytes f)\<rparr>) (dk_file s)) s))"

definition write_in_place :: "'w os \<Rightarrow> file_entry \<Rightarrow> string \<Rightarrow> ('w, unit) io" where
  "write_in_place K existing contents =
     and_then (sys K Open_File) (\<lambda>_.
     and_then (sys K Stat_Open) (\<lambda>_ s.
     if map_option fl_inode (dk_file s) \<noteq> Some (fl_inode existing) then (Inl Other_Error, s)
     else and_then (write_over K contents) (\<lambda>_.
       and_then (truncate K (length contents)) (\<lambda>_.
       sys K Sync_File)) s))"

section \<open>Writing\<close>

text \<open>\<open>symlink_metadata\<close>: the entry at the path itself, if there is one.\<close>

definition lstat :: "'w os \<Rightarrow> ('w, file_entry option) io" where
  "lstat K s = (case dk_file s of
     None \<Rightarrow> (Inr None, s)
   | Some f \<Rightarrow> and_then (sys K Lstat) (\<lambda>_. done_with (Some f)) s)"

definition replace_or_write :: "'w os \<Rightarrow> file_entry \<Rightarrow> bool \<Rightarrow> string \<Rightarrow> ('w, unit) io" where
  "replace_or_write K f in_place contents =
     and_then (replace K (Some f) in_place contents) (\<lambda>replaced.
     if replaced then done_with () else write_in_place K f contents)"

definition write_file :: "'w os \<Rightarrow> string \<Rightarrow> ('w, unit) io" where
  "write_file K contents =
     and_then (sys K Create_Dirs) (\<lambda>_.
     and_then (lstat K) (\<lambda>existing.
     case (case existing of Some f \<Rightarrow> if fl_regular f then Some f else None | None \<Rightarrow> None) of
       None \<Rightarrow> and_then (replace K None False contents) (\<lambda>_. done_with ())
     | Some f \<Rightarrow>
         if \<not> hard_linked f then replace_or_write K f True contents
         else and_then (hard_link_trusted K f) (\<lambda>in_place.
           if \<not> in_place then replace_or_write K f False contents
           else catching (write_in_place K f contents) (\<lambda>e.
             if e = Permission_Denied then replace_or_write K f False contents else fails e))))"

section \<open>What the path shows\<close>

definition identity :: "file_entry \<Rightarrow> nat \<times> nat \<times> nat \<times> string" where
  "identity f = (fl_uid f, fl_gid f, fl_mode f, fl_acl f)"

definition kept :: "file_entry option \<Rightarrow> file_entry option" where
  "kept before = (case before of Some f \<Rightarrow> if fl_regular f then Some f else None | None \<Rightarrow> None)"

definition keeps_identity :: "file_entry option \<Rightarrow> file_entry \<Rightarrow> bool" where
  "keeps_identity before f \<longleftrightarrow> (case kept before of Some old \<Rightarrow> identity f = identity old | None \<Rightarrow> fl_mode f = 384)"

text \<open>A regular file of exactly the contents, as accessible as the regular file before, or as a new one.\<close>

definition whole :: "file_entry option \<Rightarrow> string \<Rightarrow> file_entry option \<Rightarrow> bool" where
  "whole before contents e \<longleftrightarrow> (\<exists>f. e = Some f \<and> fl_regular f \<and> fl_bytes f = contents \<and> keeps_identity before f)"

text \<open>The regular file before, with new contents over the old ones up to somewhere.\<close>

definition torn :: "file_entry option \<Rightarrow> string \<Rightarrow> file_entry option \<Rightarrow> bool" where
  "torn before contents e \<longleftrightarrow> (\<exists>old k. kept before = Some old \<and> k \<le> length contents \<and> e = Some (overwritten (take k contents) old))"

definition allowed :: "file_entry option \<Rightarrow> string \<Rightarrow> file_entry option \<Rightarrow> bool" where
  "allowed before contents e \<longleftrightarrow> e = before \<or> whole before contents e \<or> torn before contents e"

definition good :: "file_entry option \<Rightarrow> string \<Rightarrow> 'w disk \<Rightarrow> bool" where
  "good before contents s \<longleftrightarrow> allowed before contents (dk_file s) \<and> (\<forall>e \<in> set (dk_seen s). allowed before contents e)"

lemma allowed_before [simp]: "allowed before contents before"
  by (simp add: allowed_def)

lemma allowed_whole: "whole before contents e \<Longrightarrow> allowed before contents e"
  by (simp add: allowed_def)

lemma kept_Some: "kept before = Some old \<longleftrightarrow> before = Some old \<and> fl_regular old"
  by (auto simp: kept_def split: option.splits if_splits)

lemma identity_of_overwritten [simp]:
  "identity (overwritten b f) = identity f" "fl_regular (overwritten b f) = fl_regular f" "fl_inode (overwritten b f) = fl_inode f"
  by (simp_all add: identity_def overwritten_def)

lemma keeps_identity_overwritten [simp]: "keeps_identity before (overwritten b f) = keeps_identity before f"
  by (simp add: keeps_identity_def identity_def overwritten_def split: option.splits)

lemma allowed_identity: "allowed before contents (Some f) \<Longrightarrow> kept before = Some old \<Longrightarrow> fl_regular f \<and> keeps_identity before f"
  by (auto simp: allowed_def whole_def torn_def keeps_identity_def kept_def split: option.splits if_splits)

lemma overwritten_again:
  assumes "j \<le> length contents" "k \<le> length contents"
  shows "overwritten (take k contents) (overwritten (take j contents) f) = overwritten (take (max j k) contents) f"
proof (cases "k \<le> j")
  case True
  then have "take k contents @ drop k (take j contents) = take j contents"
    by (metis append_take_drop_id min.absorb1 take_take)
  then show ?thesis using assms True by (simp add: overwritten_def max_def)
next
  case False
  then show ?thesis using assms by (simp add: overwritten_def max_def)
qed

text \<open>Writing over an allowed entry keeps it allowed, and the whole write leaves the contents in front.\<close>

lemma allowed_overwritten:
  assumes "allowed before contents (Some f)" "kept before = Some old" "k \<le> length contents"
  shows "allowed before contents (Some (overwritten (take k contents) f))"
proof -
  have "f = old \<or> whole before contents (Some f) \<or> (\<exists>j \<le> length contents. f = overwritten (take j contents) old)"
    using assms(1,2) by (auto simp: allowed_def torn_def kept_Some)
  then show ?thesis
  proof (elim disjE exE conjE)
    assume "f = old"
    then show ?thesis using assms by (auto simp: allowed_def torn_def)
  next
    assume "whole before contents (Some f)"
    then have "overwritten (take k contents) f = f" using assms(3) by (simp add: whole_def overwritten_def)
    then show ?thesis using assms(1) by simp
  next
    fix j assume j: "j \<le> length contents" "f = overwritten (take j contents) old"
    have "overwritten (take k contents) f = overwritten (take (max j k) contents) old"
      using j assms(3) overwritten_again by simp
    moreover have "max j k \<le> length contents" using j assms(3) by simp
    ultimately show ?thesis using assms(2) unfolding allowed_def torn_def by blast
  qed
qed

lemma good_world [simp]: "good before contents (s\<lparr>dk_world := w\<rparr>) = good before contents s"
  "good before contents (s\<lparr>dk_temp := t\<rparr>) = good before contents s"
  by (simp_all add: good_def)

lemma good_shows: "good before contents s \<Longrightarrow> allowed before contents e \<Longrightarrow> good before contents (now_shows e s)"
  by (simp add: good_def now_shows_def)

section \<open>Every step\<close>

lemma runs_sys:
  assumes "\<And>s w. P s \<Longrightarrow> P (s\<lparr>dk_world := w\<rparr>)"
  shows "runs P (sys K c) (\<lambda>_. P) (\<lambda>_. P)"
  using assms by (auto simp: runs_def sys_def split: prod.splits option.splits)

lemma runs_stat_dir:
  assumes "\<And>s w. P s \<Longrightarrow> P (s\<lparr>dk_world := w\<rparr>)"
  shows "runs P (stat_dir K) (\<lambda>_. P) (\<lambda>_. P)"
  unfolding stat_dir_def by (rule runs_and_then [OF runs_sys]) (use assms in \<open>auto simp: runs_def\<close>)

lemma runs_sticky:
  assumes "\<And>s w. P s \<Longrightarrow> P (s\<lparr>dk_world := w\<rparr>)"
  shows "runs P (sticky_permits_in_place K created existing) (\<lambda>_. P) (\<lambda>_. P)"
    and "runs P (hard_link_trusted K existing) (\<lambda>_. P) (\<lambda>_. P)"
  unfolding sticky_permits_in_place_def hard_link_trusted_def
  by (rule runs_and_then [OF runs_stat_dir]; use assms in \<open>auto simp: runs_done\<close>)+

lemma runs_fails: "(\<And>s. P s \<Longrightarrow> E e s) \<Longrightarrow> runs P (fails e) Q E"
  by (simp add: runs_def fails_def)

lemma runs_sync_dir:
  assumes "\<And>s w. P s \<Longrightarrow> P (s\<lparr>dk_world := w\<rparr>)"
  shows "runs P (sync_dir K) (\<lambda>_. P) (\<lambda>_. P)"
  unfolding sync_dir_def by (rule runs_catching [OF runs_sys]) (auto intro: assms runs_done runs_fails)

text \<open>A temp file on its way: regular, and with the identity of the existing file once it was given it.\<close>

definition fresh_temp :: "'w disk \<Rightarrow> bool" where
  "fresh_temp s \<longleftrightarrow> (\<exists>t. dk_temp s = Some t \<and> fl_regular t)"

lemma runs_create_temp:
  "runs (good before contents) (create_temp K n)
     (\<lambda>f s. good before contents s \<and> dk_temp s = Some f \<and> fl_regular f \<and> fl_mode f = 384) (\<lambda>_. good before contents)"
proof -
  have "case create_temp K n s of (Inl e, s') \<Rightarrow> good before contents s'
      | (Inr f, s') \<Rightarrow> good before contents s' \<and> dk_temp s' = Some f \<and> fl_regular f \<and> fl_mode f = 384"
    if "good before contents s" for s :: "'a disk"
    using that
  proof (induction n arbitrary: s rule: less_induct)
    case (less n)
    obtain r s1 where sys: "sys K Create_Temp s = (r, s1)" by fastforce
    have g: "good before contents s1" using runs_sys [of "good before contents" K Create_Temp] less.prems sys
      by (cases r) (auto dest: runs_Inr runs_Inl)
    show ?case
    proof (cases "\<exists>e m. r = Inl e \<and> n = Suc (Suc m) \<and> e = Already_Exists")
      case True
      then obtain m where "r = Inl Already_Exists" "n = Suc (Suc m)" by blast
      then show ?thesis using less.IH [of "Suc m" s1] g sys by (simp add: create_temp.simps [of K "Suc (Suc m)" s])
    next
      case False
      then show ?thesis using g sys by (auto simp: create_temp.simps [of K n s] Let_def split: sum.splits nat.splits)
    qed
  qed
  then show ?thesis by (auto simp: runs_def)
qed


text \<open>Giving the temp file the identity: the path is not touched, a temp file stays one.\<close>

abbreviation writing :: "file_entry option \<Rightarrow> string \<Rightarrow> 'w disk \<Rightarrow> bool" where
  "writing before contents s \<equiv> good before contents s \<and> fresh_temp s"

lemma fresh_temp_world [simp]: "fresh_temp (s\<lparr>dk_world := w\<rparr>) = fresh_temp s"
  by (simp add: fresh_temp_def)

lemma writing_set_temp:
  "writing before contents s \<Longrightarrow> (\<And>f. fl_regular (g f) = fl_regular f) \<Longrightarrow> writing before contents (set_temp g s)"
  by (auto simp: set_temp_def fresh_temp_def)

lemma runs_changing_temp:
  assumes "\<And>f. fl_regular (g f) = fl_regular f"
  shows "runs (writing before contents) (changing_temp g) (\<lambda>_. writing before contents) E"
  unfolding changing_temp_def by (rule runs_pure) (use writing_set_temp assms in force)

lemma changing_temp_ok [simp]: "changing_temp g s = (Inr u, s') \<longleftrightarrow> s' = set_temp g s"
  by (auto simp: changing_temp_def)

lemma fails_ok [simp]: "fails e s \<noteq> (Inr y, s')"
  by (simp add: fails_def)

lemma sys_temp: "sys K c s = (r, s') \<Longrightarrow> dk_temp s' = dk_temp s"
  by (auto simp: sys_def split: prod.splits option.splits)

lemma copy_identity_ok:
  assumes "copy_identity K created existing s = (Inr u, s')" "dk_temp s = Some created"
  shows "\<exists>t. dk_temp s' = Some t \<and> identity t = identity existing"
proof -
  obtain v s1 where own: "give_owner K created existing s = (Inr v, s1)" and rest: "give_access K existing s1 = (Inr (), s')"
    using assms(1) by (auto simp: copy_identity_def and_then_ok catching_ok split: if_splits)
  have "\<exists>t. dk_temp s1 = Some t \<and> fl_uid t = fl_uid existing \<and> fl_gid t = fl_gid existing"
    using own assms(2) by (auto simp: give_owner_def and_then_ok set_temp_def dest: sys_temp split: if_splits)
  then show ?thesis using rest by (auto simp: give_access_def and_then_ok set_temp_def identity_def dest!: sys_temp)
qed

lemma runs_copy_identity:
  "runs (writing before contents) (copy_identity K created existing) (\<lambda>_. writing before contents) (\<lambda>_. writing before contents)"
  unfolding copy_identity_def give_owner_def give_access_def take_back_def
  by (intro runs_and_then [where R = "\<lambda>_. writing before contents"] runs_catching [where R = "\<lambda>_. writing before contents"]
      runs_if runs_sys runs_changing_temp runs_done runs_fails; simp)

text \<open>A temp file ready to be written: of the existing file's identity, or a new one's.\<close>

definition ready :: "file_entry option \<Rightarrow> string \<Rightarrow> 'w disk \<Rightarrow> bool" where
  "ready before contents s \<longleftrightarrow> good before contents s \<and>
     (\<exists>t. dk_temp s = Some t \<and> fl_regular t \<and> keeps_identity before t)"

lemma ready_world [simp]: "ready before contents (s\<lparr>dk_world := w\<rparr>) = ready before contents s"
  by (simp add: ready_def)

lemma runs_keep_identity:
  assumes "kept before = Some existing"
  shows "runs (\<lambda>s. good before contents s \<and> dk_temp s = Some created \<and> fl_regular created) (keep_identity K created in_place existing)
     (\<lambda>go_on s. good before contents s \<and> (go_on \<longrightarrow> ready before contents s)) (\<lambda>_. good before contents)"
  (is "runs ?Start _ ?Q ?E")
proof -
  let ?P = "\<lambda>s. writing before contents s \<and> dk_temp s = Some created"
  have stat: "runs ?Start (sys K Stat_Temp) (\<lambda>_. ?P) ?E"
    by (rule runs_weaken [OF runs_sys [where P = ?P]]) (auto simp: fresh_temp_def)
  have copied: "runs ?P (copy_identity K created existing)
      (\<lambda>_ s. writing before contents s \<and> (\<exists>t. dk_temp s = Some t \<and> identity t = identity existing)) ?E"
    by (rule runs_and_value [OF runs_weaken [OF runs_copy_identity]]) (auto dest: copy_identity_ok)
  have went: "runs ?P (and_then (copy_identity K created existing) (\<lambda>_. done_with True)) ?Q ?E"
    by (rule runs_and_then [OF copied], rule runs_done) (use assms in \<open>auto simp: ready_def fresh_temp_def keeps_identity_def\<close>)
  have sticky: "runs (good before contents) (sticky_permits_in_place K created existing) (\<lambda>_. good before contents) ?E"
    by (rule runs_sticky) simp
  have otherwise: "runs (good before contents) (if not_permitted e \<and> in_place
       then and_then (sticky_permits_in_place K created existing) (\<lambda>permitted. if permitted then done_with False else fails e)
       else fails e) ?Q ?E" for e
    by (intro runs_if runs_and_then [OF sticky] runs_done runs_fails) simp_all
  show ?thesis unfolding keep_identity_def
    by (rule runs_and_then [OF stat]) (rule runs_catching [OF went], rule otherwise)
qed

text \<open>A temp file with the whole contents.\<close>

definition filled :: "file_entry option \<Rightarrow> string \<Rightarrow> 'w disk \<Rightarrow> bool" where
  "filled before contents s \<longleftrightarrow> ready before contents s \<and> map_option fl_bytes (dk_temp s) = Some contents"

lemma filled_world [simp]: "filled before contents (s\<lparr>dk_world := w\<rparr>) = filled before contents s"
  by (simp add: filled_def)

lemma filled_good: "filled before contents s \<Longrightarrow> good before contents s"
  by (simp add: filled_def ready_def)

lemma runs_write_temp:
  "runs (ready before contents) (write_temp K contents) (\<lambda>_. filled before contents) (\<lambda>_. good before contents)"
proof -
  have fill: "runs (ready before contents) (changing_temp (\<lambda>f. f\<lparr>fl_bytes := contents\<rparr>))
      (\<lambda>_. filled before contents) (\<lambda>_. good before contents)"
    by (rule runsI) (auto simp: changing_temp_def set_temp_def filled_def ready_def keeps_identity_def identity_def split: option.splits)
  have sys: "runs (ready before contents) (sys K Write_Temp) (\<lambda>_. ready before contents) (\<lambda>_. good before contents)"
    by (rule runs_weaken [OF runs_sys [where P = "ready before contents"]]) (auto simp: ready_def)
  have stopped: "runs (good before contents) (\<lambda>s. (Inl e, set_temp (g s) s)) Q (\<lambda>_. good before contents)" for e g Q
    by (rule runsI) (simp add: set_temp_def)
  show ?thesis unfolding write_temp_def
    by (rule runs_and_then [OF runs_catching [OF sys stopped] fill])
qed

abbreviation complete :: "file_entry option \<Rightarrow> string \<Rightarrow> 'w disk \<Rightarrow> bool" where
  "complete before contents s \<equiv> good before contents s \<and> whole before contents (dk_file s)"

lemma good_renamed: "filled before contents s \<Longrightarrow> complete before contents (renamed s)"
  by (auto simp: filled_def ready_def renamed_def whole_def now_shows_def good_def allowed_def)

lemma runs_rename_temp:
  "runs (filled before contents) (rename_temp K) (\<lambda>_. complete before contents) (\<lambda>_. good before contents)"
proof -
  have sys: "runs (filled before contents) (sys K Rename) (\<lambda>_. filled before contents) (\<lambda>_. filled before contents)"
    by (rule runs_sys) simp
  show ?thesis unfolding rename_temp_def
    by (rule runs_and_then [OF runs_catching [OF sys]]; rule runsI) (auto dest: good_renamed filled_good)
qed

lemma good_drop_temp: "good before contents s \<Longrightarrow> good before contents (drop_temp K s)" "dk_file (drop_temp K s) = dk_file s"
  by (auto simp: drop_temp_def sys_def split: option.splits prod.splits sum.splits)

lemma runs_replace_with:
  assumes "existing = kept before"
  shows "runs (\<lambda>s. good before contents s \<and> dk_temp s = Some created \<and> fl_regular created \<and> fl_mode created = 384)
     (replace_with K created existing in_place contents)
     (\<lambda>replaced s. good before contents s \<and> (replaced \<longrightarrow> whole before contents (dk_file s))) (\<lambda>_. good before contents)"
  (is "runs ?P _ ?Q ?E")
proof -
  let ?go = "case existing of None \<Rightarrow> done_with True | Some f \<Rightarrow> keep_identity K created in_place f"
  have go: "runs ?P ?go (\<lambda>go_on s. good before contents s \<and> (go_on \<longrightarrow> ready before contents s)) ?E"
  proof (cases existing)
    case None
    then show ?thesis using assms by (auto intro!: runs_done simp: ready_def keeps_identity_def)
  next
    case (Some f)
    then show ?thesis using assms by (auto intro!: runs_weaken [OF runs_keep_identity])
  qed
  have sync: "runs (filled before contents) (sys K Sync_Temp) (\<lambda>_. filled before contents) ?E"
    by (rule runs_weaken [OF runs_sys [where P = "filled before contents"]]) (auto dest: filled_good)
  have rename: "runs (filled before contents) (and_then (rename_temp K) (\<lambda>_. done_with True)) ?Q ?E"
    by (rule runs_and_then [OF runs_rename_temp], rule runs_done) simp
  have in_use: "runs (good before contents) (if b then done_with False else fails e) ?Q ?E" for b e
    by (intro runs_if runs_done runs_fails) simp_all
  have durable: "runs (?Q replaced) (if replaced then and_then (sync_dir K) (\<lambda>_. done_with True) else done_with False) ?Q ?E" for replaced
  proof (intro runs_if)
    assume replaced
    then have "runs (?Q replaced) (sync_dir K) (\<lambda>_. ?Q True) ?E"
      by (intro runs_weaken [OF runs_sync_dir [where P = "?Q True"]]) auto
    then show "runs (?Q replaced) (and_then (sync_dir K) (\<lambda>_. done_with True)) ?Q ?E"
      by (rule runs_and_then) (rule runs_done)
  qed (auto intro: runs_done)
  have rest: "runs (\<lambda>s. good before contents s \<and> (go_on \<longrightarrow> ready before contents s))
      (if \<not> go_on then done_with False
     else and_then (write_temp K contents) (\<lambda>_.
       and_then (sys K Sync_Temp) (\<lambda>_.
       and_then (catching (and_then (rename_temp K) (\<lambda>_. done_with True)) (\<lambda>e.
         if in_place \<and> e \<in> {Resource_Busy, Crosses_Devices} then done_with False else fails e)) (\<lambda>replaced.
       if replaced then and_then (sync_dir K) (\<lambda>_. done_with True) else done_with False)))) ?Q ?E" for go_on
  proof (rule runs_if)
    assume "\<not> go_on"
    then show "runs (\<lambda>s. good before contents s \<and> (go_on \<longrightarrow> ready before contents s)) (done_with False) ?Q ?E"
      by (intro runs_done) simp
  next
    assume "\<not> \<not> go_on"
    then have "runs (\<lambda>s. good before contents s \<and> (go_on \<longrightarrow> ready before contents s)) (write_temp K contents)
        (\<lambda>_. filled before contents) ?E"
      by (intro runs_weaken [OF runs_write_temp]) auto
    then show "runs (\<lambda>s. good before contents s \<and> (go_on \<longrightarrow> ready before contents s))
      (and_then (write_temp K contents) (\<lambda>_.
       and_then (sys K Sync_Temp) (\<lambda>_.
       and_then (catching (and_then (rename_temp K) (\<lambda>_. done_with True)) (\<lambda>e.
         if in_place \<and> e \<in> {Resource_Busy, Crosses_Devices} then done_with False else fails e)) (\<lambda>replaced.
       if replaced then and_then (sync_dir K) (\<lambda>_. done_with True) else done_with False)))) ?Q ?E"
      by (rule runs_and_then) (rule runs_and_then [OF sync], rule runs_and_then [OF _ durable], rule runs_catching [OF rename], rule in_use)
  qed
  show ?thesis
    unfolding replace_with_def by (rule runs_and_then [OF go rest])
qed

lemma runs_dropping:
  assumes "runs P m (\<lambda>x s. good before contents s \<and> Q x (dk_file s)) (\<lambda>_. good before contents)"
  shows "runs P (\<lambda>s. case m s of (r, s') \<Rightarrow> (r, drop_temp K s'))
    (\<lambda>x s. good before contents s \<and> Q x (dk_file s)) (\<lambda>_. good before contents)"
  using assms by (fastforce simp: runs_def good_drop_temp split: prod.splits sum.splits)

lemma runs_replace:
  assumes "existing = kept before"
  shows "runs (good before contents) (replace K existing in_place contents)
     (\<lambda>replaced s. good before contents s \<and> (replaced \<longrightarrow> whole before contents (dk_file s))) (\<lambda>_. good before contents)"
  (is "runs _ _ ?Q ?E")
proof -
  let ?made = "\<lambda>temp s. case temp of None \<Rightarrow> good before contents s
    | Some f \<Rightarrow> good before contents s \<and> dk_temp s = Some f \<and> fl_regular f \<and> fl_mode f = 384"
  have "runs (good before contents) (and_then (create_temp K TEMP_ATTEMPTS) (\<lambda>created. done_with (Some created))) ?made ?E"
    by (rule runs_and_then [OF runs_create_temp], rule runs_done) simp
  moreover have "runs (good before contents) (if b then done_with None else fails e) ?made ?E" for b e
    by (intro runs_if runs_done runs_fails) simp_all
  ultimately have made: "runs (good before contents) (catching (and_then (create_temp K TEMP_ATTEMPTS) (\<lambda>created. done_with (Some created))) (\<lambda>e.
       if in_place \<and> e \<in> {Permission_Denied, Read_Only_Filesystem} then done_with None else fails e)) ?made ?E"
    by (rule runs_catching)
  have "runs (?made temp) (case temp of
       None \<Rightarrow> done_with False
     | Some created \<Rightarrow> (\<lambda>s. case replace_with K created existing in_place contents s of (r, s') \<Rightarrow> (r, drop_temp K s'))) ?Q ?E" for temp
  proof (cases temp)
    case (Some created)
    show ?thesis unfolding Some option.case
      by (rule runs_dropping [where Q = "\<lambda>replaced e. replaced \<longrightarrow> whole before contents e", OF runs_replace_with [OF assms]])
  qed (simp add: runs_done)
  then show ?thesis unfolding replace_def by (rule runs_and_then [OF made])
qed

section \<open>In place\<close>

lemma good_shows_all:
  "good before contents s \<Longrightarrow> (\<And>k. k \<in> set ks \<Longrightarrow> allowed before contents (g k)) \<Longrightarrow>
   good before contents (fold (\<lambda>k. now_shows (g k)) ks s)"
  by (induction ks arbitrary: s) (simp_all add: good_shows)

definition over :: "file_entry option \<Rightarrow> string \<Rightarrow> 'w disk \<Rightarrow> bool" where
  "over before contents s \<longleftrightarrow> good before contents s \<and>
     (\<exists>f rest. dk_file s = Some f \<and> fl_regular f \<and> keeps_identity before f \<and> fl_bytes f = contents @ rest)"

lemma sys_file: "sys K c s = (r, s') \<Longrightarrow> dk_file s' = dk_file s"
  by (auto simp: sys_def split: prod.splits option.splits)

lemma sys_good: "sys K c s = (r, s') \<Longrightarrow> good before contents s' = good before contents s"
  by (auto simp: sys_def split: prod.splits option.splits)

lemma runs_write_over:
  assumes "kept before = Some old"
  shows "runs (good before contents) (write_over K contents) (\<lambda>_. over before contents) (\<lambda>_. good before contents)"
proof (rule runsI)
  fix s :: "'a disk" assume g: "good before contents s"
  obtain r s1 where sys: "sys K Write_File s = (r, s1)" by fastforce
  have g1: "good before contents s1" using sys_good [OF sys] g by simp
  show "case write_over K contents s of (Inl e, s') \<Rightarrow> good before contents s' | (Inr x, s') \<Rightarrow> over before contents s'"
  proof (cases "dk_file s")
    case None
    then show ?thesis using sys g1 by (simp add: write_over_def)
  next
    case (Some f)
    have f: "allowed before contents (Some f)" using g Some by (simp add: good_def)
    have shows_all: "good before contents (fold (\<lambda>k. now_shows (Some (overwritten (take k contents) f))) [0..<Suc n] s1)"
      if "n \<le> length contents" for n
      using that by (intro good_shows_all [OF g1] allowed_overwritten [OF f assms]) auto
    have whole: "over before contents (fold (\<lambda>k. now_shows (Some (overwritten (take k contents) f))) [0..<Suc (length contents)] s1)"
    proof -
      have "dk_file (fold (\<lambda>k. now_shows (Some (overwritten (take k contents) f))) [0..<Suc (length contents)] s1)
          = Some (overwritten contents f)" by (simp add: now_shows_def)
      moreover have "fl_bytes (overwritten contents f) = contents @ drop (length contents) (fl_bytes f)"
        by (simp add: overwritten_def)
      ultimately show ?thesis
        using shows_all [of "length contents"] allowed_identity [OF f assms] unfolding over_def by auto
    qed
    show ?thesis using Some sys whole shows_all
      by (cases r) (simp_all add: write_over_def Let_def del: upt_Suc)
  qed
qed

lemma runs_truncate:
  "runs (over before contents) (truncate K (length contents)) (\<lambda>_. complete before contents) (\<lambda>_. good before contents)"
proof -
  have sys: "runs (over before contents) (sys K Truncate) (\<lambda>_. over before contents) (\<lambda>_. good before contents)"
    by (rule runs_weaken [OF runs_sys [where P = "over before contents"]]) (auto simp: over_def)
  have complete: "complete before contents (now_shows (map_option (\<lambda>f. f\<lparr>fl_bytes := take (length contents) (fl_bytes f)\<rparr>) (dk_file s)) s)"
    if o: "over before contents s" for s :: "'a disk"
  proof -
    obtain f rest where f: "dk_file s = Some f" "fl_regular f" "keeps_identity before f" "fl_bytes f = contents @ rest"
      and g: "good before contents s" using o unfolding over_def by blast
    have "keeps_identity before (f\<lparr>fl_bytes := contents\<rparr>)" using f(3) by (simp add: keeps_identity_def identity_def split: option.splits)
    then have "whole before contents (Some (f\<lparr>fl_bytes := contents\<rparr>))" using f(2) by (simp add: whole_def)
    then show ?thesis using good_shows [OF g allowed_whole] f by (simp add: now_shows_def)
  qed
  show ?thesis unfolding truncate_def
    by (rule runs_and_then [OF sys], rule runsI) (use complete in simp)
qed

lemma runs_write_in_place:
  assumes "kept before = Some old"
  shows "runs (good before contents) (write_in_place K existing contents) (\<lambda>_. complete before contents) (\<lambda>_. good before contents)"
proof -
  have good_sys: "runs (good before contents) (sys K c) (\<lambda>_. good before contents) (\<lambda>_. good before contents)" for c
    by (rule runs_sys) simp
  have complete_sys: "runs (complete before contents) (sys K c) (\<lambda>_. complete before contents) (\<lambda>_. good before contents)" for c
    by (rule runs_weaken [OF runs_sys [where P = "complete before contents"]]) auto
  have rest: "runs (good before contents) (and_then (write_over K contents) (\<lambda>_. and_then (truncate K (length contents)) (\<lambda>_. sys K Sync_File)))
      (\<lambda>_. complete before contents) (\<lambda>_. good before contents)"
    by (rule runs_and_then [OF runs_write_over [OF assms] runs_and_then [OF runs_truncate complete_sys]])
  have "runs (good before contents) (\<lambda>s. if map_option fl_inode (dk_file s) \<noteq> Some (fl_inode existing) then (Inl Other_Error, s)
     else and_then (write_over K contents) (\<lambda>_. and_then (truncate K (length contents)) (\<lambda>_. sys K Sync_File)) s)
     (\<lambda>_. complete before contents) (\<lambda>_. good before contents)"
    using rest by (auto simp: runs_def)
  then show ?thesis unfolding write_in_place_def
    by (rule runs_and_then [OF good_sys runs_and_then [OF good_sys]])
qed

section \<open>The whole write\<close>

lemma runs_replace_or_write:
  assumes "kept before = Some f"
  shows "runs (good before contents) (replace_or_write K f in_place contents) (\<lambda>_. complete before contents) (\<lambda>_. good before contents)"
  unfolding replace_or_write_def
proof (rule runs_and_then [OF runs_replace])
  show "Some f = kept before" using assms by simp
  show "runs (\<lambda>s. good before contents s \<and> (replaced \<longrightarrow> whole before contents (dk_file s)))
      (if replaced then done_with () else write_in_place K f contents) (\<lambda>_. complete before contents) (\<lambda>_. good before contents)" for replaced
    by (intro runs_if runs_done runs_weaken [OF runs_write_in_place [OF assms]]) auto
qed

lemma runs_lstat:
  "runs (\<lambda>s. dk_file s = before \<and> good before contents s) (lstat K) (\<lambda>existing s. existing = before \<and> good before contents s)
     (\<lambda>_. good before contents)"
  by (auto simp: runs_def lstat_def and_then_def done_with_def sys_good dest: sys_good sys_file split: option.splits prod.splits sum.splits)

text \<open>Without in place writes, a replace that returns has replaced the file.\<close>

lemma replaced_with: "replace_with K created None False contents s = (Inr b, s') \<Longrightarrow> b"
  by (auto simp: replace_with_def and_then_ok catching_ok split: if_splits)

lemma replaced:
  assumes "replace K None False contents s = (Inr b, s')"
  shows b
proof -
  obtain temp s1 where made: "catching (and_then (create_temp K TEMP_ATTEMPTS) (\<lambda>created. done_with (Some created))) (\<lambda>e. fails e) s
      = (Inr temp, s1)" and rest: "(case temp of None \<Rightarrow> done_with False
     | Some created \<Rightarrow> (\<lambda>s. case replace_with K created None False contents s of (r, s') \<Rightarrow> (r, drop_temp K s'))) s1 = (Inr b, s')"
    using assms unfolding replace_def and_then_ok by auto
  obtain created where "temp = Some created" using made by (auto simp: catching_ok and_then_ok)
  then show b using rest by (auto intro: replaced_with split: prod.splits)
qed

lemma runs_write_file:
  "runs (\<lambda>s. dk_file s = before \<and> dk_seen s = []) (write_file K contents) (\<lambda>_. complete before contents) (\<lambda>_. good before contents)"
proof -
  let ?C = "\<lambda>_ :: unit. complete before contents" and ?G = "good before contents" and ?E = "\<lambda>_ :: io_kind. good before contents"
  let ?P = "\<lambda>s. dk_file s = before \<and> ?G s"
  have dirs: "runs (\<lambda>s. dk_file s = before \<and> dk_seen s = []) (sys K Create_Dirs) (\<lambda>_. ?P) ?E"
    by (rule runs_weaken [OF runs_sys [where P = ?P]]) (auto simp: good_def)
  have written: "runs ?G (replace_or_write K f in_place contents) ?C ?E"
    and linked: "runs ?G (and_then (hard_link_trusted K f) (\<lambda>in_place.
           if \<not> in_place then replace_or_write K f False contents
           else catching (write_in_place K f contents) (\<lambda>e.
             if e = Permission_Denied then replace_or_write K f False contents else fails e))) ?C ?E"
    if f: "kept before = Some f" for f in_place
  proof -
    show w: "runs ?G (replace_or_write K f in_place contents) ?C ?E" for in_place
      by (rule runs_replace_or_write [OF f])
    have "runs ?G (hard_link_trusted K f) (\<lambda>_. ?G) ?E" by (rule runs_sticky) simp
    then show "runs ?G (and_then (hard_link_trusted K f) (\<lambda>in_place.
           if \<not> in_place then replace_or_write K f False contents
           else catching (write_in_place K f contents) (\<lambda>e.
             if e = Permission_Denied then replace_or_write K f False contents else fails e))) ?C ?E"
      by (rule runs_and_then) (intro runs_if w runs_catching [OF runs_write_in_place [OF f]] runs_fails)
  qed
  have fresh: "runs ?G (and_then (replace K None False contents) (\<lambda>_. done_with ())) ?C ?E" if "kept before = None"
  proof -
    have "runs ?G (replace K None False contents) (\<lambda>b s. (?G s \<and> (b \<longrightarrow> whole before contents (dk_file s))) \<and> b) ?E"
      using that by (intro runs_and_value [OF runs_replace]) (auto dest: replaced)
    then show ?thesis by (rule runs_and_then) (rule runs_done, simp)
  qed
  have "runs (\<lambda>s. existing = before \<and> ?G s) (case (case existing of Some f \<Rightarrow> if fl_regular f then Some f else None | None \<Rightarrow> None) of
       None \<Rightarrow> and_then (replace K None False contents) (\<lambda>_. done_with ())
     | Some f \<Rightarrow>
         if \<not> hard_linked f then replace_or_write K f True contents
         else and_then (hard_link_trusted K f) (\<lambda>in_place.
           if \<not> in_place then replace_or_write K f False contents
           else catching (write_in_place K f contents) (\<lambda>e.
             if e = Permission_Denied then replace_or_write K f False contents else fails e))) ?C ?E" for existing
  proof (cases "existing = before")
    case True
    show ?thesis
    proof (cases "kept before")
      case None
      then show ?thesis using fresh True by (simp add: kept_def split: option.splits if_splits)
    next
      case (Some f)
      then show ?thesis using written [OF Some] linked [OF Some] True by (simp add: kept_Some)
    qed
  qed (simp add: runs_def)
  then show ?thesis unfolding write_file_def
    by (rule runs_and_then [OF dirs runs_and_then [OF runs_lstat]])
qed

section \<open>No temp file left\<close>

abbreviation no_temp :: "'w disk \<Rightarrow> bool" where "no_temp s \<equiv> dk_temp s = None"

definition removes :: "'w os \<Rightarrow> bool" where
  "removes K \<longleftrightarrow> (\<forall>w. fst (os_fail K Remove_Temp w) = None)"

lemma dropped_temp: "removes K \<Longrightarrow> no_temp (drop_temp K s)"
  unfolding removes_def by (auto simp: drop_temp_def sys_def split: option.splits prod.splits) (metis fst_conv option.distinct(1))

lemma no_temp_sys: "runs no_temp (sys K c) (\<lambda>_. no_temp) (\<lambda>_. no_temp)"
  by (rule runs_sys) simp

lemma create_temp_none: "create_temp K n s = (Inl e, s') \<Longrightarrow> no_temp s \<Longrightarrow> no_temp s'"
proof (induction n arbitrary: s rule: less_induct)
  case (less n)
  obtain r s1 where sys: "sys K Create_Temp s = (r, s1)" by fastforce
  have "no_temp s1" using less.prems(2) sys_temp [OF sys] by simp
  then show ?case using less sys
    by (auto simp: create_temp.simps [of K n s] Let_def split: sum.splits nat.splits if_splits)
qed

lemma no_temp_replace:
  assumes "removes K"
  shows "runs no_temp (replace K existing in_place contents) (\<lambda>_. no_temp) (\<lambda>_. no_temp)"
proof -
  have "runs no_temp (and_then (create_temp K TEMP_ATTEMPTS) (\<lambda>created. done_with (Some created)))
      (\<lambda>temp s. temp = None \<longrightarrow> no_temp s) (\<lambda>_. no_temp)"
    by (rule runs_and_then [where R = "\<lambda>_ _. True"]; rule runsI)
      (auto simp: done_with_def dest: create_temp_none split: sum.splits prod.splits)
  then have made: "runs no_temp (catching (and_then (create_temp K TEMP_ATTEMPTS) (\<lambda>created. done_with (Some created))) (\<lambda>e.
       if in_place \<and> e \<in> {Permission_Denied, Read_Only_Filesystem} then done_with None else fails e))
      (\<lambda>temp s. temp = None \<longrightarrow> no_temp s) (\<lambda>_. no_temp)"
    by (rule runs_catching) (intro runs_if runs_done runs_fails, simp_all)
  have "runs (\<lambda>s. temp = None \<longrightarrow> no_temp s) (case temp of
       None \<Rightarrow> done_with False
     | Some created \<Rightarrow> (\<lambda>s. case replace_with K created existing in_place contents s of (r, s') \<Rightarrow> (r, drop_temp K s')))
     (\<lambda>_. no_temp) (\<lambda>_. no_temp)" for temp
  proof (cases temp)
    case (Some created)
    then show ?thesis by (auto simp: runs_def dropped_temp [OF assms] split: prod.splits sum.splits)
  qed (simp add: runs_done)
  then show ?thesis unfolding replace_def by (rule runs_and_then [OF made])
qed

lemma shows_temp: "dk_temp (fold (\<lambda>k. now_shows (g k)) ks s) = dk_temp s"
  by (induction ks arbitrary: s) (simp_all add: now_shows_def)

lemma no_temp_write_in_place: "runs no_temp (write_in_place K existing contents) (\<lambda>_. no_temp) (\<lambda>_. no_temp)"
proof -
  have over: "runs no_temp (write_over K contents) (\<lambda>_. no_temp) (\<lambda>_. no_temp)"
    by (rule runsI) (auto simp: write_over_def Let_def shows_temp simp del: upt_Suc dest: sys_temp split: option.splits prod.splits sum.splits)
  have cut: "runs no_temp (truncate K n) (\<lambda>_. no_temp) (\<lambda>_. no_temp)" for n
    unfolding truncate_def by (rule runs_and_then [OF no_temp_sys], rule runsI) (simp add: now_shows_def)
  have "runs no_temp (and_then (write_over K contents) (\<lambda>_. and_then (truncate K (length contents)) (\<lambda>_. sys K Sync_File)))
      (\<lambda>_. no_temp) (\<lambda>_. no_temp)"
    by (rule runs_and_then [OF over runs_and_then [OF cut no_temp_sys]])
  then have "runs no_temp (\<lambda>s. if map_option fl_inode (dk_file s) \<noteq> Some (fl_inode existing) then (Inl Other_Error, s)
     else and_then (write_over K contents) (\<lambda>_. and_then (truncate K (length contents)) (\<lambda>_. sys K Sync_File)) s)
     (\<lambda>_. no_temp) (\<lambda>_. no_temp)"
    by (auto simp: runs_def)
  then show ?thesis unfolding write_in_place_def
    by (rule runs_and_then [OF no_temp_sys runs_and_then [OF no_temp_sys]])
qed

lemma no_temp_write_file:
  assumes "removes K"
  shows "runs no_temp (write_file K contents) (\<lambda>_. no_temp) (\<lambda>_. no_temp)"
proof -
  have whole: "runs no_temp (replace_or_write K f in_place contents) (\<lambda>_. no_temp) (\<lambda>_. no_temp)" for f in_place
    unfolding replace_or_write_def
    by (rule runs_and_then [OF no_temp_replace [OF assms]]) (intro runs_if runs_done no_temp_write_in_place)
  have trusted: "runs no_temp (hard_link_trusted K f) (\<lambda>_. no_temp) (\<lambda>_. no_temp)" for f
    by (rule runs_sticky) simp
  have linked: "runs no_temp (catching (write_in_place K f contents) (\<lambda>e.
      if e = Permission_Denied then replace_or_write K f False contents else fails e)) (\<lambda>_. no_temp) (\<lambda>_. no_temp)" for f
    by (rule runs_catching [OF no_temp_write_in_place]) (intro runs_if whole runs_fails)
  have lstat: "runs no_temp (lstat K) (\<lambda>_. no_temp) (\<lambda>_. no_temp)"
    by (auto simp: runs_def lstat_def and_then_def done_with_def dest: sys_temp split: option.splits prod.splits sum.splits)
  have fresh: "runs no_temp (and_then (replace K None False contents) (\<lambda>_. done_with ())) (\<lambda>_. no_temp) (\<lambda>_. no_temp)"
    by (rule runs_and_then [OF no_temp_replace [OF assms]]) (rule runs_done)
  show ?thesis unfolding write_file_def
    apply (rule runs_and_then [OF no_temp_sys runs_and_then [OF lstat]])
    subgoal for u existing
      by (cases "case existing of Some f \<Rightarrow> if fl_regular f then Some f else None | None \<Rightarrow> None")
        (simp_all add: fresh whole linked runs_and_then [OF trusted] runs_if)
    done
qed

section \<open>Properties\<close>

text \<open>A directory of root with a file of user 7, shared with a group, and a kernel which fails some calls.\<close>

definition demo_os :: "(syscall \<times> io_kind) list \<Rightarrow> unit os" where
  "demo_os failing = \<lparr>os_fail = \<lambda>c w. (map_of failing c, w), os_written = \<lambda>_. 1, os_renamed = \<lambda>_. False,
     os_created = \<lambda>_. \<lparr>fl_regular = True, fl_inode = 9, fl_uid = 0, fl_gid = 0, fl_mode = 384, fl_acl = [], fl_links = 1, fl_bytes = []\<rparr>,
     os_dir = \<lambda>_. \<lparr>dr_uid = 0, dr_mode = 493\<rparr>\<rparr>"

definition demo_file :: file_entry where
  "demo_file = \<lparr>fl_regular = True, fl_inode = 4, fl_uid = 7, fl_gid = 7, fl_mode = 416, fl_acl = [], fl_links = 1, fl_bytes = ''older''\<rparr>"

definition demo_disk :: "unit disk" where
  "demo_disk = \<lparr>dk_file = Some demo_file, dk_temp = None, dk_seen = [], dk_world = ()\<rparr>"

lemma demo_os_fields: "os_fail (demo_os failing) c w = (map_of failing c, w)" "os_written (demo_os failing) w = 1"
  "\<not> os_renamed (demo_os failing) w" "os_dir (demo_os failing) w = \<lparr>dr_uid = 0, dr_mode = 493\<rparr>"
  "os_created (demo_os failing) w =
     \<lparr>fl_regular = True, fl_inode = 9, fl_uid = 0, fl_gid = 0, fl_mode = 384, fl_acl = [], fl_links = 1, fl_bytes = []\<rparr>"
  by (simp_all add: demo_os_def)

lemmas evaluate = write_file_def and_then_def catching_def done_with_def fails_def sys_def lstat_def hard_linked_def
  replace_or_write_def replace_def replace_with_def create_temp.simps [of "demo_os f" n for f n] TEMP_ATTEMPTS_def keep_identity_def copy_identity_def
  give_owner_def give_access_def changing_temp_def set_temp_def write_temp_def rename_temp_def renamed_def now_shows_def
  sync_dir_def drop_temp_def write_in_place_def write_over_def overwritten_def truncate_def demo_os_fields demo_disk_def demo_file_def
  upt_rec Let_def

text \<open>
  a secret file written is there as a regular file of exactly the contents; it has the owner,
  group, mode and access control of the regular file there before, and without one is open to its
  owner only.
\<close>

theorem secret_file_written:
  assumes "write_file K contents s = (Inr u, s')" "dk_seen s = []"
  shows "\<exists>f. dk_file s' = Some f \<and> fl_regular f \<and> fl_bytes f = contents \<and>
    (case kept (dk_file s) of None \<Rightarrow> fl_mode f = 384
     | Some old \<Rightarrow> fl_uid f = fl_uid old \<and> fl_gid f = fl_gid old \<and> fl_mode f = fl_mode old \<and> fl_acl f = fl_acl old)"
proof -
  have "whole (dk_file s) contents (dk_file s')"
    using runs_Inr [OF runs_write_file _ assms(1), of "dk_file s"] assms(2) by simp
  then show ?thesis by (auto simp: whole_def keeps_identity_def identity_def split: option.splits)
qed

theorem secret_file_written_witness:
  "\<exists>f. dk_file (snd (write_file (demo_os []) ''new'' demo_disk)) = Some f \<and> fl_bytes f = ''new'' \<and> fl_mode f = 416"
proof -
  have run: "write_file (demo_os []) ''new'' demo_disk = (Inr (), snd (write_file (demo_os []) ''new'' demo_disk))"
    by (simp add: evaluate)
  have "kept (dk_file demo_disk) = Some demo_file" by (simp add: kept_def demo_disk_def demo_file_def)
  then show ?thesis using secret_file_written [OF run] by (auto simp: demo_disk_def demo_file_def)
qed

text \<open>
  C21: whatever fails, the path never shows anything but the entry before, the whole new file, or the
  regular file before written over up to somewhere; where there was none, or a link or another kind
  of entry, it is the entry before or the whole new file. A new file there is never more accessible
  than the one before, or than to its owner.
\<close>

theorem secret_file_shows:
  assumes "write_file K contents s = (r, s')" "dk_seen s = []" "e \<in> set (dk_seen s') \<or> e = dk_file s'"
  shows "e = dk_file s \<or> whole (dk_file s) contents e \<or>
    (\<exists>old k. kept (dk_file s) = Some old \<and> e = Some (overwritten (take k contents) old))"
proof -
  have "good (dk_file s) contents s'"
    using runs_Inr [OF runs_write_file, of s "dk_file s" K contents] runs_Inl [OF runs_write_file, of s "dk_file s" K contents] assms(1,2)
    by (cases r) auto
  then show ?thesis using assms(3) by (auto simp: good_def allowed_def torn_def)
qed

theorem secret_file_shows_witness:
  "\<exists>e \<in> set (dk_seen (snd (write_file (demo_os [(Rename, Resource_Busy), (Write_File, Other_Error)]) ''new'' demo_disk))).
     \<exists>k. e = Some (overwritten (take k ''new'') demo_file)"
proof -
  let ?K = "demo_os [(Rename, Resource_Busy), (Write_File, Other_Error)]"
  have run: "write_file ?K ''new'' demo_disk = (Inl Other_Error, snd (write_file ?K ''new'' demo_disk))" by (simp add: evaluate)
  have seen: "dk_seen (snd (write_file ?K ''new'' demo_disk)) = [Some demo_file, Some (demo_file\<lparr>fl_bytes := ''nlder''\<rparr>)]" by (simp add: evaluate)
  have "Some (demo_file\<lparr>fl_bytes := ''nlder''\<rparr>) \<noteq> dk_file demo_disk"
    "\<not> whole (dk_file demo_disk) ''new'' (Some (demo_file\<lparr>fl_bytes := ''nlder''\<rparr>))"
    "kept (dk_file demo_disk) = Some demo_file"
    by (simp_all add: demo_disk_def demo_file_def whole_def kept_def)
  then show ?thesis using secret_file_shows [OF run, of "Some (demo_file\<lparr>fl_bytes := ''nlder''\<rparr>)"] seen
    by (auto simp: demo_disk_def)
qed

text \<open>
  no temp file with the contents is left behind, whatever fails, as long as it can be removed.
\<close>

theorem no_temp_file_left:
  assumes "write_file K contents s = (r, s')" "dk_temp s = None" "\<And>w. fst (os_fail K Remove_Temp w) = None"
  shows "dk_temp s' = None"
  using runs_Inr [OF no_temp_write_file, of K s contents] runs_Inl [OF no_temp_write_file, of K s contents] assms
  by (cases r) (auto simp: removes_def)

theorem no_temp_file_left_witness:
  "dk_temp (snd (write_file (demo_os [(Rename, Other_Error)]) ''new'' demo_disk)) = None"
  by (rule no_temp_file_left [where K = "demo_os [(Rename, Other_Error)]" and s = demo_disk and contents = "''new''"
      and r = "fst (write_file (demo_os [(Rename, Other_Error)]) ''new'' demo_disk)"])
    (simp_all add: demo_disk_def demo_os_def)

end
