(* ===== verification/KeyRotation.thy ===== *)
theory KeyRotation
  imports Pki SecretFile
begin

text \<open>
  A private key file and its rotation, \<^verbatim>\<open>crates/pki/src/key/mod.rs\<close>: the pair in use in
  memory, and on disk the live file, the candidate beside it, the retired key and the public key. Files
  are written by \<open>write_file\<close> and read by the parsers of \<open>Pki\<close>; the kernel is the parameter
  \<open>key_os\<close>. The guard keeps every other rotation out from the start of one to its end, so an
  operation is one run. Every directory shown on the way is kept, as that is what a crash leaves. An
  entry's bytes are what reading it gives, so those of a link are those of the file behind it.
\<close>

section \<open>Keys, files and the kernel\<close>

record key_pair =
  kp_private :: string
  kp_public :: string

datatype key_slot = Live | Next | Old | Pub

type_synonym key_dir = "key_slot \<Rightarrow> file_entry option"

record 'w key_os =
  ko_write :: "'w os"
  ko_read :: "file_entry \<Rightarrow> 'w \<Rightarrow> io_kind option \<times> 'w"    \<comment> \<open>why it can't be read as text\<close>
  ko_stat :: "key_slot \<Rightarrow> 'w \<Rightarrow> io_kind option \<times> 'w"
  ko_remove :: "key_slot \<Rightarrow> 'w \<Rightarrow> io_kind option \<times> 'w"
  ko_generate :: "string \<Rightarrow> 'w \<Rightarrow> (bytes \<times> bytes) option \<times> 'w"   \<comment> \<open>the private, then the public key\<close>

record 'w rotatable =
  rt_keys :: key_pair
  rt_backed :: bool
  rt_rotating :: bool
  rt_files :: key_dir
  rt_shown :: "key_dir list"     \<comment> \<open>history: the directories shown\<close>
  rt_world :: 'w

datatype key_error =
    Key_Invalid pki_error | Key_Io io_kind | Generate_Failed | Not_File_Backed | Rotation_In_Progress
  | Rotation_Unfinished | Candidate_Changed | Retired_Waiting

type_synonym ('w, 'a) rotating = "'w rotatable \<Rightarrow> (key_error + 'a) \<times> 'w rotatable"

definition stops :: "key_error \<Rightarrow> ('w, 'a) rotating" where
  "stops e s = (Inl e, s)"

definition key_step :: "('w \<Rightarrow> 'a \<times> 'w) \<Rightarrow> ('w, 'a) rotating" where
  "key_step f s = (case f (rt_world s) of (x, w) \<Rightarrow> (Inr x, s\<lparr>rt_world := w\<rparr>))"

text \<open>A call of the kernel, which is done or fails.\<close>

definition key_call :: "('w \<Rightarrow> io_kind option \<times> 'w) \<Rightarrow> ('w, unit) rotating" where
  "key_call f = and_then (key_step f) (\<lambda>failed. case failed of None \<Rightarrow> done_with () | Some e \<Rightarrow> stops (Key_Io e))"

definition shows_dir :: "key_dir \<Rightarrow> 'w rotatable \<Rightarrow> 'w rotatable" where
  "shows_dir d s = s\<lparr>rt_files := d, rt_shown := rt_shown s @ [d]\<rparr>"

text \<open>\<open>mogh_secret_file::write\<close> at one of the paths.\<close>

definition write_slot :: "'w key_os \<Rightarrow> key_slot \<Rightarrow> string \<Rightarrow> ('w, unit) rotating" where
  "write_slot K x contents s =
     (case write_file (ko_write K) contents \<lparr>dk_file = rt_files s x, dk_temp = None, dk_seen = [], dk_world = rt_world s\<rparr> of
       (r, d) \<Rightarrow> (map_sum Key_Io id r,
         s\<lparr>rt_files := (rt_files s)(x := dk_file d),
           rt_shown := rt_shown s @ map (\<lambda>e. (rt_files s)(x := e)) (dk_seen d), rt_world := dk_world d\<rparr>))"

definition read_text :: "'w key_os \<Rightarrow> key_slot \<Rightarrow> ('w, string) rotating" where
  "read_text K x s = (case rt_files s x of
     None \<Rightarrow> (Inl (Key_Io Not_Found), s)
   | Some f \<Rightarrow> and_then (key_call (ko_read K f)) (\<lambda>_. done_with (fl_bytes f)) s)"

definition try_exists :: "'w key_os \<Rightarrow> key_slot \<Rightarrow> ('w, bool) rotating" where
  "try_exists K x = and_then (key_call (ko_stat K x)) (\<lambda>_ s. (Inr (rt_files s x \<noteq> None), s))"

definition exists_or_false :: "'w key_os \<Rightarrow> key_slot \<Rightarrow> ('w, bool) rotating" where
  "exists_or_false K x = catching (try_exists K x) (\<lambda>_. done_with False)"

definition remove_file :: "'w key_os \<Rightarrow> key_slot \<Rightarrow> ('w, unit) rotating" where
  "remove_file K x s = (case rt_files s x of
     None \<Rightarrow> (Inl (Key_Io Not_Found), s)
   | Some _ \<Rightarrow> and_then (key_call (ko_remove K x)) (\<lambda>_ s. (Inr (), shows_dir ((rt_files s)(x := None)) s)) s)"

definition remove_file_if_exists :: "'w key_os \<Rightarrow> key_slot \<Rightarrow> ('w, unit) rotating" where
  "remove_file_if_exists K x = catching (remove_file K x) (\<lambda>e. if e = Key_Io Not_Found then done_with () else stops e)"

text \<open>What is only logged when it fails.\<close>

definition best_effort :: "('w, unit) rotating \<Rightarrow> ('w, unit) rotating" where
  "best_effort m = catching m (\<lambda>_. done_with ())"

definition sync_parent_dir :: "'w key_os \<Rightarrow> ('w, unit) rotating" where
  "sync_parent_dir K = best_effort (key_call (os_fail (ko_write K) Sync_Dir))"

section \<open>A pair of keys\<close>

definition private_as_pem :: "string \<Rightarrow> string" where "private_as_pem key = encode_pem ''PRIVATE KEY'' key"

definition public_as_pem :: "string \<Rightarrow> string" where "public_as_pem key = encode_pem ''PUBLIC KEY'' key"

definition checked :: "pki_error + 'a \<Rightarrow> ('w, 'a) rotating" where
  "checked r s = (map_sum Key_Invalid id r, s)"

definition from_private_key :: "'o pki_lib \<Rightarrow> string \<Rightarrow> pki_error + key_pair" where
  "from_private_key P text' =
     res_bind (from_maybe_raw_bytes P text') (\<lambda>private.
     res_bind (from_private_key_using_dh P private) (\<lambda>public. Inr \<lparr>kp_private = private, kp_public = public\<rparr>))"

definition private_from_file :: "'o pki_lib \<Rightarrow> 'w key_os \<Rightarrow> key_slot \<Rightarrow> ('w, string) rotating" where
  "private_from_file P K x = and_then (read_text K x) (\<lambda>contents. checked (from_maybe_raw_bytes P contents))"

definition pair_from_file :: "'o pki_lib \<Rightarrow> 'w key_os \<Rightarrow> key_slot \<Rightarrow> ('w, key_pair) rotating" where
  "pair_from_file P K x =
     and_then (private_from_file P K x) (\<lambda>private.
     and_then (checked (from_private_key_using_dh P private)) (\<lambda>public.
     done_with \<lparr>kp_private = private, kp_public = public\<rparr>))"

definition generate_pair :: "'o pki_lib \<Rightarrow> 'w key_os \<Rightarrow> pki_kind \<Rightarrow> ('w, key_pair) rotating" where
  "generate_pair P K kind =
     and_then (key_step (ko_generate K (noise_params kind))) (\<lambda>generated. case generated of
       None \<Rightarrow> stops Generate_Failed
     | Some (private_raw, public_raw) \<Rightarrow>
         and_then (checked (private_from_raw_bytes P private_raw)) (\<lambda>private.
         and_then (checked (public_from_raw_bytes P public_raw)) (\<lambda>public.
         done_with \<lparr>kp_private = private, kp_public = public\<rparr>)))"

definition write_private :: "'w key_os \<Rightarrow> string \<Rightarrow> key_slot \<Rightarrow> ('w, unit) rotating" where
  "write_private K private x = write_slot K x (private_as_pem private)"

definition write_public :: "'w key_os \<Rightarrow> string \<Rightarrow> key_slot \<Rightarrow> ('w, unit) rotating" where
  "write_public K public x = write_slot K x (public_as_pem public)"

definition generate_write :: "'o pki_lib \<Rightarrow> 'w key_os \<Rightarrow> pki_kind \<Rightarrow> ('w, key_pair) rotating" where
  "generate_write P K kind =
     and_then (generate_pair P K kind) (\<lambda>keys.
     and_then (write_private K (kp_private keys) Live) (\<lambda>_.
     and_then (write_public K (kp_public keys) Pub) (\<lambda>_. done_with keys)))"

definition load_maybe_generate :: "'o pki_lib \<Rightarrow> 'w key_os \<Rightarrow> pki_kind \<Rightarrow> ('w, key_pair) rotating" where
  "load_maybe_generate P K kind =
     and_then (try_exists K Live) (\<lambda>found.
     if \<not> found then generate_write P K kind else pair_from_file P K Live)"

text \<open>Whether the file can be read and is the key's.\<close>

definition file_holds_key :: "'o pki_lib \<Rightarrow> 'w key_os \<Rightarrow> key_slot \<Rightarrow> string \<Rightarrow> ('w, bool) rotating" where
  "file_holds_key P K x public =
     catching (and_then (pair_from_file P K x) (\<lambda>on_disk. done_with (kp_public on_disk = public))) (\<lambda>_. done_with False)"

section \<open>The rotatable pair\<close>

definition get_keys :: "('w, key_pair) rotating" where
  "get_keys s = (Inr (rt_keys s), s)"

definition store_keys :: "key_pair \<Rightarrow> ('w, unit) rotating" where
  "store_keys keys s = (Inr (), s\<lparr>rt_keys := keys\<rparr>)"

text \<open>\<open>from_private_key_spec\<close>: the start of a process, which finds the directory and has no keys yet.\<close>

definition from_private_key_spec :: "'o pki_lib \<Rightarrow> 'w key_os \<Rightarrow> pki_kind \<Rightarrow> string \<Rightarrow> ('w, unit) rotating" where
  "from_private_key_spec P K kind spec s =
     (case strip_prefix ''file:'' spec of
        Some _ \<Rightarrow> and_then (load_maybe_generate P K kind) (\<lambda>keys s.
          (Inr (), s\<lparr>rt_keys := keys, rt_backed := True, rt_rotating := False\<rparr>)) s
      | None \<Rightarrow> and_then (checked (from_private_key P spec)) (\<lambda>keys s.
          (Inr (), s\<lparr>rt_keys := keys, rt_backed := False, rt_rotating := False\<rparr>)) s)"

definition acquire :: "('w, unit) rotating" where
  "acquire s = (if rt_rotating s then (Inl Rotation_In_Progress, s) else (Inr (), s\<lparr>rt_rotating := True\<rparr>))"

definition release :: "'w rotatable \<Rightarrow> 'w rotatable" where
  "release s = s\<lparr>rt_rotating := False\<rparr>"

text \<open>The guard's drop, on every way out.\<close>

definition releasing :: "('w, 'a) rotating \<Rightarrow> ('w, 'a) rotating" where
  "releasing m s = (case m s of (r, s') \<Rightarrow> (r, release s'))"

definition rotate :: "'o pki_lib \<Rightarrow> 'w key_os \<Rightarrow> pki_kind \<Rightarrow> ('w, string) rotating" where
  "rotate P K kind s =
     (if \<not> rt_backed s then (Inr (kp_public (rt_keys s)), s)
      else and_then acquire (\<lambda>_. releasing (
        and_then (generate_pair P K kind) (\<lambda>keys.
        and_then (catching (write_private K (kp_private keys) Live) (\<lambda>e.
          and_then (file_holds_key P K Live (kp_public keys)) (\<lambda>holds. if holds then done_with () else stops e))) (\<lambda>_.
        and_then (store_keys keys) (\<lambda>_.
        and_then (sync_parent_dir K) (\<lambda>_.
        and_then (best_effort (write_public K (kp_public keys) Pub)) (\<lambda>_.
        done_with (kp_public keys)))))))) s)"

text \<open>The retired key; one which is in use is none, and \<open>settle\<close> removes it once the live file holds it.\<close>

definition load_retired :: "'o pki_lib \<Rightarrow> 'w key_os \<Rightarrow> bool \<Rightarrow> ('w, key_pair option) rotating" where
  "load_retired P K settle =
     and_then (try_exists K Old) (\<lambda>found.
     if \<not> found then done_with None
     else and_then (catching (and_then (pair_from_file P K Old) (\<lambda>retired. done_with (Some retired))) (\<lambda>e.
         and_then (try_exists K Old) (\<lambda>found. if \<not> found then done_with None else stops e))) (\<lambda>loaded.
       case loaded of
         None \<Rightarrow> done_with None
       | Some retired \<Rightarrow>
           and_then get_keys (\<lambda>keys.
           if kp_public retired \<noteq> kp_public keys then done_with (Some retired)
           else if \<not> settle then done_with None
           else and_then (file_holds_key P K Live (kp_public retired)) (\<lambda>holds.
             if holds then and_then (remove_file_if_exists K Old) (\<lambda>_. done_with None)
             else done_with None))))"

definition retired :: "'o pki_lib \<Rightarrow> 'w key_os \<Rightarrow> ('w, key_pair option) rotating" where
  "retired P K s = (if \<not> rt_backed s then (Inr None, s) else load_retired P K False s)"

definition write_candidate :: "'o pki_lib \<Rightarrow> 'w key_os \<Rightarrow> pki_kind \<Rightarrow> ('w, key_pair) rotating" where
  "write_candidate P K kind =
     and_then (generate_pair P K kind) (\<lambda>candidate.
     and_then (write_private K (kp_private candidate) Next) (\<lambda>_. done_with candidate))"

text \<open>The candidate of an interrupted rotation is taken up, unless it is the key in use or no key.\<close>

definition find_candidate :: "'o pki_lib \<Rightarrow> 'w key_os \<Rightarrow> pki_kind \<Rightarrow> ('w, key_pair) rotating" where
  "find_candidate P K kind =
     and_then (try_exists K Next) (\<lambda>found.
     if \<not> found then write_candidate P K kind
     else and_then (catching (and_then (pair_from_file P K Next) (\<lambda>candidate. done_with (Some candidate))) (\<lambda>_. done_with None)) (\<lambda>loaded.
       case loaded of
         None \<Rightarrow> write_candidate P K kind
       | Some candidate \<Rightarrow>
           and_then get_keys (\<lambda>keys.
           if kp_public candidate = kp_public keys then write_candidate P K kind else done_with candidate)))"

definition begin_rotation :: "'o pki_lib \<Rightarrow> 'w key_os \<Rightarrow> pki_kind \<Rightarrow> ('w, key_pair) rotating" where
  "begin_rotation P K kind s =
     (if \<not> rt_backed s then (Inl Not_File_Backed, s)
      else and_then acquire (\<lambda>_ s.
        case and_then (load_retired P K True) (\<lambda>waiting.
            if waiting \<noteq> None then stops Rotation_Unfinished else find_candidate P K kind) s of
          (Inr candidate, s') \<Rightarrow> (Inr candidate, s')
        | (Inl e, s') \<Rightarrow> (Inl e, release s')) s)"

definition holds_key_in_use :: "'o pki_lib \<Rightarrow> 'w key_os \<Rightarrow> key_slot \<Rightarrow> ('w, bool) rotating" where
  "holds_key_in_use P K x =
     and_then get_keys (\<lambda>keys.
     catching (and_then (private_from_file P K x) (\<lambda>key. done_with (key = kp_private keys))) (\<lambda>_. done_with False))"

definition rotation_pending :: "'o pki_lib \<Rightarrow> 'w key_os \<Rightarrow> ('w, bool) rotating" where
  "rotation_pending P K s =
     (if \<not> rt_backed s then (Inr False, s)
      else and_then (exists_or_false K Next) (\<lambda>found.
        and_then (if \<not> found then done_with False
          else and_then (holds_key_in_use P K Next) (\<lambda>in_use. done_with (\<not> in_use))) (\<lambda>waiting.
        if waiting then done_with True else exists_or_false K Old)) s)"

definition finish_rotation :: "'o pki_lib \<Rightarrow> 'w key_os \<Rightarrow> ('w, unit) rotating" where
  "finish_rotation P K s =
     (if \<not> rt_backed s then (Inr (), s)
      else and_then acquire (\<lambda>_. releasing (
        and_then (holds_key_in_use P K Old) (\<lambda>old_in_use.
        if \<not> old_in_use then remove_file_if_exists K Old
        else and_then (holds_key_in_use P K Live) (\<lambda>live_in_use.
          if \<not> live_in_use then done_with () else remove_file_if_exists K Old)))) s)"

section \<open>A rotation in flight\<close>

text \<open>The switch: the candidate over the live file, or the error, if the live file does not hold it.\<close>

definition switch_live :: "'o pki_lib \<Rightarrow> 'w key_os \<Rightarrow> key_pair \<Rightarrow> key_pair \<Rightarrow> ('w, unit) rotating" where
  "switch_live P K candidate previous =
     catching (write_private K (kp_private candidate) Live) (\<lambda>e.
       and_then (file_holds_key P K Live (kp_public candidate)) (\<lambda>switched.
       if switched then done_with ()
       else and_then (file_holds_key P K Live (kp_public previous)) (\<lambda>unchanged.
         and_then (if unchanged then best_effort (remove_file K Old) else done_with ()) (\<lambda>_. stops e))))"

definition clean_up :: "'w key_os \<Rightarrow> key_pair \<Rightarrow> ('w, unit) rotating" where
  "clean_up K candidate =
     and_then (sync_parent_dir K) (\<lambda>_.
     and_then (best_effort (remove_file_if_exists K Next)) (\<lambda>_.
     best_effort (write_public K (kp_public candidate) Pub)))"

definition switch_keys :: "'o pki_lib \<Rightarrow> 'w key_os \<Rightarrow> key_pair \<Rightarrow> key_pair \<Rightarrow> ('w, unit) rotating" where
  "switch_keys P K candidate previous =
     and_then (write_private K (kp_private previous) Old) (\<lambda>_.
     and_then (switch_live P K candidate previous) (\<lambda>_.
     and_then (store_keys candidate) (\<lambda>_. clean_up K candidate)))"

definition commit_from :: "'o pki_lib \<Rightarrow> 'w key_os \<Rightarrow> key_pair \<Rightarrow> key_pair \<Rightarrow> ('w, unit) rotating" where
  "commit_from P K candidate previous =
     and_then (try_exists K Old) (\<lambda>found.
     and_then (if found then file_holds_key P K Old (kp_public previous) else done_with True) (\<lambda>free.
     if \<not> free then stops Retired_Waiting else switch_keys P K candidate previous))"

definition commit :: "'o pki_lib \<Rightarrow> 'w key_os \<Rightarrow> key_pair \<Rightarrow> ('w, unit) rotating" where
  "commit P K candidate = releasing (
     and_then (pair_from_file P K Next) (\<lambda>on_disk.
     if kp_public on_disk \<noteq> kp_public candidate then stops Candidate_Changed
     else and_then get_keys (commit_from P K candidate)))"

definition abort_rotation :: "'w key_os \<Rightarrow> ('w, unit) rotating" where
  "abort_rotation K = releasing (remove_file_if_exists K Next)"

end
