(* ===== verification/KeyRotationProps.thy ===== *)
theory KeyRotationProps
  imports KeyRotation
begin

text \<open>
  The rotation of a private key file: what is written as a pem is read back, a commit keeps both keys
  on disk at every moment, and the key in use is on disk after any sequence of rotations, failed or
  not.
\<close>

section \<open>A key written is read back\<close>

text \<open>
  What the libraries document: the encoders and decoders of base64, DER and pem undo each other, the
  text of base64 is visible and at least as long as the bytes, and DER has a header.
\<close>

definition pki_laws :: "'o pki_lib \<Rightarrow> bool" where
  "pki_laws P \<longleftrightarrow>
     (\<forall>b. pk_base64_decode P (pk_base64_encode P b) = Some b) \<and>
     (\<forall>b. \<forall>c \<in> set (pk_base64_encode P b). is_graphic c \<and> c \<noteq> CHR ''-'') \<and>
     (\<forall>b. length b \<le> length (pk_base64_encode P b)) \<and>
     (\<forall>b. pk_pem_decode P (butlast (encode_pem ''PRIVATE KEY'' (pk_base64_encode P b))) = Some b) \<and>
     (\<forall>raw octet. pk_octet_encode P raw = Some octet \<longrightarrow> pk_octet_decode P octet = Some raw \<and> length raw < length octet) \<and>
     (\<forall>octet der. pk_pkcs8_encode P octet = Some der \<longrightarrow> pk_pkcs8_decode P der = Some (OID_X25519, octet) \<and> length octet \<le> length der)"

lemma trim_line: "w \<noteq> [] \<Longrightarrow> is_graphic (hd w) \<Longrightarrow> is_graphic (last w) \<Longrightarrow> trim (w @ [NEWLINE]) = w"
proof -
  assume w: "w \<noteq> []" "is_graphic (hd w)" "is_graphic (last w)"
  have "ws_len_rev (map of_char (take 3 (NEWLINE # rev w))) = 1"
    by (cases "rev w"; cases "tl (rev w)") (simp_all add: NEWLINE_def)
  then have "trim_end_rev (NEWLINE # rev w) = trim_end_rev (rev w)"
    by (subst trim_end_rev.simps) (simp add: Let_def)
  moreover have "trim_end_rev (rev w) = rev w" using w by (intro trim_end_rev_graphic) (simp_all add: hd_rev)
  ultimately show ?thesis using w by (simp add: trim_def trim_end_def trim_start_graphic)
qed

lemma encode_pem_line:
  obtains w where "encode_pem label body = w @ [NEWLINE]" "prefix ''-----BEGIN'' w" "last w = CHR ''-''" "w \<noteq> []"
  by (rule that [of "''-----BEGIN '' @ label @ ''-----'' @ [NEWLINE] @
     concat (map (\<lambda>line. line @ [NEWLINE]) (chunks 64 body)) @ ''-----END '' @ label @ ''-----''"])
    (simp_all add: encode_pem_def)

lemma trim_pem: "trim (encode_pem label body) = butlast (encode_pem label body)"
  "prefix ''-----BEGIN'' (butlast (encode_pem label body))"
proof -
  obtain w where w: "encode_pem label body = w @ [NEWLINE]" "prefix ''-----BEGIN'' w" "last w = CHR ''-''" "w \<noteq> []"
    by (rule encode_pem_line)
  have "is_graphic (hd w)" using w(2) by (auto simp: prefix_def is_graphic_def)
  then show "trim (encode_pem label body) = butlast (encode_pem label body)"
    using w trim_line [of w] by (simp add: is_graphic_def)
  show "prefix ''-----BEGIN'' (butlast (encode_pem label body))" using w by simp
qed

text \<open>The stored form of a key: what \<open>from_raw_bytes\<close> makes of 32 usable bytes.\<close>

definition stored_as :: "'o pki_lib \<Rightarrow> bytes \<Rightarrow> string \<Rightarrow> bool" where
  "stored_as P raw key \<longleftrightarrow> length raw = 32 \<and> check_scalar raw = Inr () \<and> private_from_raw_bytes P raw = Inr key"

lemma padded_full: "length raw = 32 \<Longrightarrow> padded raw = raw"
  by (simp add: padded_def)

lemma maybe_raw_bytes_full: "maybe_raw_bytes P key = Inr raw \<Longrightarrow> length raw = 32 \<and> check_scalar raw = Inr ()"
  using decoded_usable [of P _ raw]
  by (auto simp: maybe_raw_bytes_def Let_def private_raw_bytes_def res_bind_Inr_iff ok_or_Inr_iff padded_length bytes_of_def
      split: if_splits)

lemma stored:
  "from_maybe_raw_bytes P given = Inr key \<Longrightarrow> \<exists>raw. stored_as P raw key"
  by (auto simp: from_maybe_raw_bytes_def res_bind_Inr_iff stored_as_def dest: maybe_raw_bytes_full)

lemma stored_decoded:
  assumes "pki_laws P" "stored_as P raw key"
  obtains der where "key = pk_base64_encode P der" "raw_bytes_after_decode P der = Inr raw" "32 < length der"
proof -
  obtain octet der where o: "pk_octet_encode P raw = Some octet" and d: "pk_pkcs8_encode P octet = Some der"
    and p: "key = pk_base64_encode P der"
    using assms(2) by (auto simp: stored_as_def private_from_raw_bytes_def padded_full res_bind_Inr_iff ok_or_Inr_iff split: if_splits)
  have laws: "pk_octet_decode P octet = Some raw" "length raw < length octet"
    "pk_pkcs8_decode P der = Some (OID_X25519, octet)" "length octet \<le> length der"
    using assms(1) o d unfolding pki_laws_def by blast+
  then have "raw_bytes_after_decode P der = Inr raw"
    using assms(2) by (simp add: raw_bytes_after_decode_def stored_as_def ok_or_def res_bind_def)
  then show thesis using that [of der] p laws assms(2) by (simp add: stored_as_def)
qed

lemma pem_read_back:
  assumes "pki_laws P" "stored_as P raw key"
  shows "maybe_raw_bytes P (private_as_pem key) = Inr raw" "from_maybe_raw_bytes P (private_as_pem key) = Inr key"
proof -
  obtain der where der: "key = pk_base64_encode P der" "raw_bytes_after_decode P der = Inr raw"
    using stored_decoded [OF assms] by blast
  have "pk_pem_decode P (butlast (encode_pem ''PRIVATE KEY'' key)) = Some der"
    using assms(1) der(1) unfolding pki_laws_def by blast
  moreover have "butlast (encode_pem ''PRIVATE KEY'' key) \<noteq> []" using trim_pem(2) [of "''PRIVATE KEY''" key] by auto
  ultimately show "maybe_raw_bytes P (private_as_pem key) = Inr raw"
    using trim_pem [of "''PRIVATE KEY''" key] der(2)
    by (simp add: maybe_raw_bytes_def private_as_pem_def ok_or_def res_bind_def)
  then show "from_maybe_raw_bytes P (private_as_pem key) = Inr key"
    using assms(2) by (simp add: from_maybe_raw_bytes_def res_bind_def stored_as_def)
qed

lemma text_read_back:
  assumes "pki_laws P" "stored_as P raw key"
  shows "maybe_raw_bytes P key = Inr raw"
proof -
  obtain der where der: "key = pk_base64_encode P der" "raw_bytes_after_decode P der = Inr raw" "32 < length der"
    using stored_decoded [OF assms] by blast
  have law: "pk_base64_decode P key = Some der" "\<forall>c \<in> set key. is_graphic c \<and> c \<noteq> CHR ''-''" "length der \<le> length key"
    using assms(1) der(1) unfolding pki_laws_def by blast+
  have ne: "key \<noteq> []" using law(3) der(3) by auto
  then have trim: "trim key = key" using law(2) trim_graphic [of key] hd_in_set [of key] last_in_set [of key] ne by blast
  moreover have "\<not> prefix ''-----BEGIN'' key"
  proof
    assume "prefix ''-----BEGIN'' key"
    then have "hd key = CHR ''-''" by (auto simp: prefix_def)
    then show False using law(2) hd_in_set [OF ne] by metis
  qed
  ultimately show ?thesis using law der ne
    by (simp add: maybe_raw_bytes_def private_raw_bytes_def ok_or_def res_bind_def)
qed

section \<open>Steps which only look\<close>

definition visible :: "'w rotatable \<Rightarrow> key_pair \<times> bool \<times> bool \<times> key_dir \<times> key_dir list" where
  "visible s = (rt_keys s, rt_backed s, rt_rotating s, rt_files s, rt_shown s)"

abbreviation looks :: "('w, 'a) rotating \<Rightarrow> bool" where "looks \<equiv> preserves visible"

lemma looks_steps [intro, simp]:
  "looks (done_with x)" "looks (stops e)" "looks (checked r)" "looks (key_step f)" "looks get_keys"
  by (simp_all add: preserves_def visible_def done_with_def stops_def checked_def key_step_def get_keys_def split: prod.splits)

lemma looks_if [intro]: "(b \<Longrightarrow> looks m) \<Longrightarrow> (\<not> b \<Longrightarrow> looks m') \<Longrightarrow> looks (if b then m else m')"
  by simp

lemma looks_calls [intro, simp]: "looks (key_call f)" "looks (try_exists K x)" "looks (read_text K x)"
proof -
  show call: "looks (key_call f)" for f :: "'w \<Rightarrow> io_kind option \<times> 'w"
    unfolding key_call_def by (rule preserves_and_then) (auto split: option.split)
  have "looks (\<lambda>s :: 'w rotatable. (Inr (rt_files s x \<noteq> None), s))" for x by (simp add: preserves_def)
  then show "looks (try_exists K x)" unfolding try_exists_def by (rule preserves_and_then [OF call])
  have "looks (and_then (key_call (ko_read K f)) (\<lambda>_. done_with (fl_bytes f)))" for f
    by (rule preserves_and_then [OF call]) simp
  then show "looks (read_text K x)" by (auto simp: preserves_def read_text_def split: option.split)
qed

lemma looks_reads [intro, simp]:
  "looks (private_from_file P K x)" "looks (pair_from_file P K x)" "looks (file_holds_key P K x public)"
  "looks (holds_key_in_use P K x)" "looks (exists_or_false K x)" "looks (sync_parent_dir K)"
  unfolding private_from_file_def pair_from_file_def file_holds_key_def holds_key_in_use_def exists_or_false_def
    sync_parent_dir_def best_effort_def
  by (auto intro!: preserves_and_then preserves_catching)

lemma looks_generate [intro, simp]: "looks (generate_pair P K kind)"
  unfolding generate_pair_def by (auto intro!: preserves_and_then split: option.split)

lemma visible_simps: "visible s' = visible s \<longleftrightarrow> rt_keys s' = rt_keys s \<and> rt_backed s' = rt_backed s \<and>
    rt_rotating s' = rt_rotating s \<and> rt_files s' = rt_files s \<and> rt_shown s' = rt_shown s"
  by (auto simp: visible_def)

section \<open>Which key a file holds\<close>

definition holds :: "'o pki_lib \<Rightarrow> string \<Rightarrow> file_entry option \<Rightarrow> bool" where
  "holds P public e \<longleftrightarrow> (\<exists>f keys. e = Some f \<and> from_private_key P (fl_bytes f) = Inr keys \<and> kp_public keys = public)"

lemma read_text_ok: "read_text K x s = (Inr t, s') \<Longrightarrow> \<exists>f. rt_files s x = Some f \<and> t = fl_bytes f"
  by (auto simp: read_text_def and_then_ok split: option.splits)

lemma checked_ok [simp]: "checked r s = (Inr y, s') \<longleftrightarrow> r = Inr y \<and> s' = s"
  by (cases r) (auto simp: checked_def)

lemma private_from_file_ok:
  "private_from_file P K x s = (Inr key, s') \<Longrightarrow> \<exists>f. rt_files s x = Some f \<and> from_maybe_raw_bytes P (fl_bytes f) = Inr key"
  unfolding private_from_file_def and_then_ok by (auto dest: read_text_ok)

lemma pair_from_file_ok:
  assumes "pair_from_file P K x s = (Inr keys, s')"
  shows "\<exists>f. rt_files s x = Some f \<and> from_private_key P (fl_bytes f) = Inr keys" "visible s' = visible s"
proof -
  obtain key s1 where one: "private_from_file P K x s = (Inr key, s1)"
    and two: "and_then (checked (from_private_key_using_dh P key)) (\<lambda>public.
     done_with \<lparr>kp_private = key, kp_public = public\<rparr>) s1 = (Inr keys, s')"
    using assms unfolding pair_from_file_def and_then_ok by blast
  show "\<exists>f. rt_files s x = Some f \<and> from_private_key P (fl_bytes f) = Inr keys"
    using private_from_file_ok [OF one] two by (auto simp: and_then_ok from_private_key_def res_bind_Inr_iff)
  show "visible s' = visible s" using preservesD [OF looks_reads(2) assms] .
qed

lemma file_holds_key_ok:
  assumes "file_holds_key P K x public s = (Inr True, s')"
  shows "holds P public (rt_files s x)" "visible s' = visible s"
proof -
  show "holds P public (rt_files s x)"
    using assms by (auto simp: file_holds_key_def catching_ok and_then_ok holds_def dest!: pair_from_file_ok(1))
  show "visible s' = visible s" using preservesD [OF looks_reads(3) assms] .
qed

text \<open>A file with the key's pem.\<close>

definition has_pem :: "string \<Rightarrow> file_entry option \<Rightarrow> bool" where
  "has_pem key e \<longleftrightarrow> (\<exists>f. e = Some f \<and> fl_bytes f = private_as_pem key)"

text \<open>A pair as it is stored: its private key in the stored form, and the public key of that.\<close>

definition proper :: "'o pki_lib \<Rightarrow> key_pair \<Rightarrow> bool" where
  "proper P keys \<longleftrightarrow> (\<exists>raw. stored_as P raw (kp_private keys)) \<and> from_private_key_using_dh P (kp_private keys) = Inr (kp_public keys)"

lemma loaded_proper: "from_private_key P given = Inr keys \<Longrightarrow> proper P keys"
  by (auto simp: from_private_key_def res_bind_Inr_iff proper_def dest: stored)

lemma pem_loads:
  assumes "pki_laws P" "proper P keys"
  shows "from_private_key P (private_as_pem (kp_private keys)) = Inr keys"
  using assms pem_read_back(2) [OF assms(1)] by (auto simp: proper_def from_private_key_def res_bind_def)

lemma has_pem_holds: "pki_laws P \<Longrightarrow> proper P keys \<Longrightarrow> has_pem (kp_private keys) e \<Longrightarrow> holds P (kp_public keys) e"
  by (auto simp: has_pem_def holds_def pem_loads)

lemma whole_has_pem: "whole before (private_as_pem key) e \<Longrightarrow> has_pem key e"
  by (auto simp: whole_def has_pem_def)

text \<open>Writing a pem over the same pem changes nothing, torn or not.\<close>

lemma allowed_same_pem:
  assumes "allowed before (private_as_pem key) e" "has_pem key before"
  shows "has_pem key e"
proof -
  have "has_pem key (Some (overwritten (take k (private_as_pem key)) old))" if "fl_bytes old = private_as_pem key" for k old
    using that by (cases "k \<le> length (private_as_pem key)") (auto simp: has_pem_def overwritten_def)
  then show ?thesis using assms whole_has_pem by (auto simp: allowed_def torn_def kept_Some has_pem_def)
qed

lemma allowed_present: "allowed before contents e \<Longrightarrow> before \<noteq> None \<Longrightarrow> e \<noteq> None"
  by (auto simp: allowed_def whole_def torn_def)

text \<open>A write of a key_slot: which directories are shown on the way, and which one is left.\<close>

lemma write_slot_effect:
  assumes "write_slot K x contents s = (r, s')"
  shows "rt_keys s' = rt_keys s \<and> rt_backed s' = rt_backed s \<and> rt_rotating s' = rt_rotating s"
    and "\<exists>e. rt_files s' = (rt_files s)(x := e) \<and> allowed (rt_files s x) contents e \<and>
      (r = Inr () \<longrightarrow> whole (rt_files s x) contents e)"
    and "\<exists>es. rt_shown s' = rt_shown s @ map (\<lambda>e. (rt_files s)(x := e)) es \<and> (\<forall>e \<in> set es. allowed (rt_files s x) contents e)"
proof -
  let ?d0 = "\<lparr>dk_file = rt_files s x, dk_temp = None, dk_seen = [], dk_world = rt_world s\<rparr>"
  obtain q d where w: "write_file (ko_write K) contents ?d0 = (q, d)" by fastforce
  have good: "good (rt_files s x) contents d" "q = Inr () \<longrightarrow> whole (rt_files s x) contents (dk_file d)"
    using w runs_Inr [OF runs_write_file [where before = "rt_files s x"], where s = ?d0 and s' = d]
      runs_Inl [OF runs_write_file [where before = "rt_files s x"], where s = ?d0 and s' = d]
    by (cases q; force)+
  have s': "s' = s\<lparr>rt_files := (rt_files s)(x := dk_file d),
           rt_shown := rt_shown s @ map (\<lambda>e. (rt_files s)(x := e)) (dk_seen d), rt_world := dk_world d\<rparr>"
    and r: "r = map_sum Key_Io id q" using assms w by (auto simp: write_slot_def)
  show "rt_keys s' = rt_keys s \<and> rt_backed s' = rt_backed s \<and> rt_rotating s' = rt_rotating s" by (simp add: s')
  have "r = Inr () \<longrightarrow> q = Inr ()" using r by (cases q) auto
  then show "\<exists>e. rt_files s' = (rt_files s)(x := e) \<and> allowed (rt_files s x) contents e \<and>
      (r = Inr () \<longrightarrow> whole (rt_files s x) contents e)"
    using good by (intro exI [of _ "dk_file d"]) (simp add: s' good_def)
  show "\<exists>es. rt_shown s' = rt_shown s @ map (\<lambda>e. (rt_files s)(x := e)) es \<and> (\<forall>e \<in> set es. allowed (rt_files s x) contents e)"
    using good(1) by (intro exI [of _ "dk_seen d"]) (simp add: s' good_def)
qed

section \<open>Phases of an operation\<close>

text \<open>The keys in memory, what holds of every directory shown so far, and of the one there is.\<close>

definition rot_phase :: "(key_dir \<Rightarrow> bool) \<Rightarrow> key_pair \<Rightarrow> (key_dir \<Rightarrow> bool) \<Rightarrow> 'w rotatable \<Rightarrow> bool" where
  "rot_phase T keys Q s \<longleftrightarrow> rt_keys s = keys \<and> (\<forall>d \<in> set (rt_shown s). T d) \<and> Q (rt_files s)"

lemma rot_phase_visible: "visible s' = visible s \<Longrightarrow> rot_phase T keys Q s \<Longrightarrow> rot_phase T keys Q s'"
  by (auto simp: rot_phase_def visible_simps)

lemma rot_phase_mono: "rot_phase T keys Q s \<Longrightarrow> (\<And>d. Q d \<Longrightarrow> Q' d) \<Longrightarrow> rot_phase T keys Q' s"
  by (auto simp: rot_phase_def)

lemma runs_look: "looks m \<Longrightarrow> (\<And>d. Q d \<Longrightarrow> Q' d) \<Longrightarrow> runs (rot_phase T keys Q) m (\<lambda>_. rot_phase T keys Q) (\<lambda>_. rot_phase T keys Q')"
  by (rule runs_weaken [OF runs_preserves [where g = visible and P = "rot_phase T keys Q"]]) (auto intro: rot_phase_visible rot_phase_mono)

lemma runs_write_slot:
  fixes K :: "'w key_os"
  assumes "\<And>d e. Q d \<Longrightarrow> allowed (d x) contents e \<Longrightarrow> T (d(x := e)) \<and> E (d(x := e))"
    and "\<And>d e. Q d \<Longrightarrow> whole (d x) contents e \<Longrightarrow> W (d(x := e))"
  shows "runs (rot_phase T keys Q) (write_slot K x contents) (\<lambda>_. rot_phase T keys W) (\<lambda>_. rot_phase T keys E)"
proof (rule runsI)
  fix s :: "'w rotatable" assume p: "rot_phase T keys Q s"
  obtain r s' where w: "write_slot K x contents s = (r, s')" by fastforce
  note effect = write_slot_effect [OF w]
  have "Q (rt_files s)" "\<forall>d \<in> set (rt_shown s). T d" "rt_keys s = keys" using p by (simp_all add: rot_phase_def)
  then have "\<forall>d \<in> set (rt_shown s'). T d" "E (rt_files s')" "r = Inr () \<longrightarrow> W (rt_files s')" "rt_keys s' = keys"
    using effect assms by auto
  then show "case write_slot K x contents s of (Inl e, s') \<Rightarrow> rot_phase T keys E s' | (Inr y, s') \<Rightarrow> rot_phase T keys W s'"
    using w by (cases r) (simp_all add: rot_phase_def)
qed

lemma runs_remove_file:
  fixes K :: "'w key_os"
  assumes "\<And>d. Q d \<Longrightarrow> T (d(x := None)) \<and> W (d(x := None))"
  shows "runs (rot_phase T keys Q) (remove_file K x) (\<lambda>_. rot_phase T keys W) (\<lambda>_. rot_phase T keys Q)"
proof (rule runsI)
  fix s :: "'w rotatable" assume p: "rot_phase T keys Q s"
  have gone: "runs (rot_phase T keys Q) (\<lambda>s. (Inr (), shows_dir ((rt_files s)(x := None)) s)) (\<lambda>_. rot_phase T keys W) (\<lambda>_. rot_phase T keys Q)"
    by (rule runsI) (use assms in \<open>auto simp: rot_phase_def shows_dir_def\<close>)
  have "runs (rot_phase T keys Q) (and_then (key_call (ko_remove K x)) (\<lambda>_ s. (Inr (), shows_dir ((rt_files s)(x := None)) s)))
      (\<lambda>_. rot_phase T keys W) (\<lambda>_. rot_phase T keys Q)"
    by (rule runs_and_then [OF runs_look gone]) simp_all
  then show "case remove_file K x s of (Inl e, s') \<Rightarrow> rot_phase T keys Q s' | (Inr y, s') \<Rightarrow> rot_phase T keys W s'"
    using p by (auto simp: remove_file_def runs_def split: option.split)
qed

lemma runs_remove_file_if_exists:
  assumes "\<And>d. Q d \<Longrightarrow> T (d(x := None)) \<and> Q (d(x := None))"
  shows "runs (rot_phase T keys Q) (remove_file_if_exists K x) (\<lambda>_. rot_phase T keys Q) (\<lambda>_. rot_phase T keys Q)"
  unfolding remove_file_if_exists_def
  by (rule runs_catching [OF runs_remove_file [where W = Q and T = T and Q = Q]]) (use assms in \<open>auto simp: runs_def stops_def done_with_def\<close>)

lemma runs_best_effort: "runs P m Q (\<lambda>_. Q ()) \<Longrightarrow> runs P (best_effort m) Q E"
  unfolding best_effort_def by (rule runs_catching) (auto intro: runs_done)

lemma runs_file_holds_key:
  fixes K :: "'w key_os"
  shows "runs (rot_phase T keys Q) (file_holds_key P K x public)
     (\<lambda>b. rot_phase T keys (\<lambda>d. Q d \<and> (b \<longrightarrow> holds P public (d x)))) (\<lambda>_. rot_phase T keys Q)"
proof (rule runsI)
  fix s :: "'w rotatable" assume p: "rot_phase T keys Q s"
  obtain r s' where run: "file_holds_key P K x public s = (r, s')" by fastforce
  have v: "visible s' = visible s" using preservesD [OF looks_reads(3) run] .
  have "rot_phase T keys Q s'" using rot_phase_visible [OF v p] .
  moreover have "r = Inr True \<Longrightarrow> holds P public (rt_files s' x)"
    using file_holds_key_ok(1) run v by (auto simp: visible_simps)
  ultimately show "case file_holds_key P K x public s of (Inl e, s') \<Rightarrow> rot_phase T keys Q s'
      | (Inr b, s') \<Rightarrow> rot_phase T keys (\<lambda>d. Q d \<and> (b \<longrightarrow> holds P public (d x))) s'"
    using run by (cases r) (auto simp: rot_phase_def)
qed

lemma runs_pair_from_file:
  fixes K :: "'w key_os"
  shows "runs (rot_phase T keys Q) (pair_from_file P K x)
     (\<lambda>found. rot_phase T keys (\<lambda>d. Q d \<and> proper P found \<and> holds P (kp_public found) (d x))) (\<lambda>_. rot_phase T keys Q)"
proof (rule runsI)
  fix s :: "'w rotatable" assume p: "rot_phase T keys Q s"
  obtain r s' where run: "pair_from_file P K x s = (r, s')" by fastforce
  have v: "visible s' = visible s" using preservesD [OF looks_reads(2) run] .
  have "rot_phase T keys Q s'" using rot_phase_visible [OF v p] .
  moreover have "proper P found \<and> holds P (kp_public found) (rt_files s' x)" if "r = Inr found" for found
    using pair_from_file_ok(1) [of P K x s found s'] run that v loaded_proper by (fastforce simp: visible_simps holds_def)
  ultimately show "case pair_from_file P K x s of (Inl e, s') \<Rightarrow> rot_phase T keys Q s'
      | (Inr found, s') \<Rightarrow> rot_phase T keys (\<lambda>d. Q d \<and> proper P found \<and> holds P (kp_public found) (d x)) s'"
    using run by (cases r) (auto simp: rot_phase_def)
qed

lemma runs_stops: "(\<And>s. P s \<Longrightarrow> E e s) \<Longrightarrow> runs P (stops e) Q E"
  by (simp add: runs_def stops_def)

lemma runs_get_keys: "runs (rot_phase T keys Q) get_keys (\<lambda>k s. rot_phase T keys Q s \<and> k = keys) E"
  by (simp add: runs_def get_keys_def rot_phase_def)

lemma runs_releasing: "runs P m (\<lambda>x. rot_phase T k Q) (\<lambda>_. rot_phase T' k' Q') \<Longrightarrow> runs P (releasing m) (\<lambda>x. rot_phase T k Q) (\<lambda>_. rot_phase T' k' Q')"
  by (fastforce simp: runs_def releasing_def release_def rot_phase_def split: prod.splits sum.splits)

section \<open>A commit keeps both keys\<close>

definition two_keys :: "'o pki_lib \<Rightarrow> key_pair \<Rightarrow> key_pair \<Rightarrow> key_dir \<Rightarrow> bool" where
  "two_keys P previous candidate d \<longleftrightarrow> d Live \<noteq> None \<and>
     (holds P (kp_public previous) (d Live) \<or> holds P (kp_public previous) (d Old)) \<and>
     (holds P (kp_public candidate) (d Live) \<or> holds P (kp_public candidate) (d Next))"

text \<open>The key in use is on disk: in the live file, or else in the pem beside it.\<close>

definition key_kept :: "'o pki_lib \<Rightarrow> key_pair \<Rightarrow> key_dir \<Rightarrow> bool" where
  "key_kept P keys d \<longleftrightarrow> d Live \<noteq> None \<and> (holds P (kp_public keys) (d Live) \<or> has_pem (kp_private keys) (d Old))"

abbreviation offered :: "'o pki_lib \<Rightarrow> key_pair \<Rightarrow> key_pair \<Rightarrow> key_dir \<Rightarrow> bool" where
  "offered P previous candidate d \<equiv> key_kept P previous d \<and> holds P (kp_public candidate) (d Next)"

abbreviation prepared :: "'o pki_lib \<Rightarrow> key_pair \<Rightarrow> key_pair \<Rightarrow> key_dir \<Rightarrow> bool" where
  "prepared P previous candidate d \<equiv> offered P previous candidate d \<and> has_pem (kp_private previous) (d Old)"

abbreviation switched :: "'o pki_lib \<Rightarrow> key_pair \<Rightarrow> key_pair \<Rightarrow> key_dir \<Rightarrow> bool" where
  "switched P previous candidate d \<equiv> holds P (kp_public candidate) (d Live) \<and> has_pem (kp_private previous) (d Old)"

lemma holds_present: "holds P public e \<Longrightarrow> e \<noteq> None"
  by (auto simp: holds_def)

lemma kept_two:
  assumes "pki_laws P" "proper P previous" "offered P previous candidate d"
  shows "two_keys P previous candidate d"
  using has_pem_holds [OF assms(1,2)] assms(3) by (auto simp: two_keys_def key_kept_def)

lemma switched_two:
  assumes "pki_laws P" "proper P previous" "switched P previous candidate d"
  shows "two_keys P previous candidate d"
  using has_pem_holds [OF assms(1,2)] assms(3) holds_present by (auto simp: two_keys_def)

text \<open>The previous key is put aside.\<close>

lemma runs_put_aside:
  assumes "pki_laws P" "proper P previous"
  shows "runs (rot_phase (two_keys P previous candidate) previous (offered P previous candidate)) (write_private K (kp_private previous) Old)
    (\<lambda>_. rot_phase (two_keys P previous candidate) previous (prepared P previous candidate))
    (\<lambda>_. rot_phase (two_keys P previous candidate) previous (offered P previous candidate))"
  unfolding write_private_def
proof (rule runs_write_slot)
  fix d e assume d: "offered P previous candidate d"
  show "allowed (d Old) (private_as_pem (kp_private previous)) e \<Longrightarrow>
      two_keys P previous candidate (d(Old := e)) \<and> offered P previous candidate (d(Old := e))"
    using d allowed_same_pem by (intro conjI kept_two [OF assms]) (auto simp: key_kept_def)
  show "whole (d Old) (private_as_pem (kp_private previous)) e \<Longrightarrow> prepared P previous candidate (d(Old := e))"
    using d whole_has_pem by (auto simp: key_kept_def)
qed

text \<open>The switch.\<close>

lemma runs_switch_live:
  assumes "pki_laws P" "proper P previous" "proper P candidate"
  shows "runs (rot_phase (two_keys P previous candidate) previous (prepared P previous candidate)) (switch_live P K candidate previous)
    (\<lambda>_. rot_phase (two_keys P previous candidate) previous (switched P previous candidate))
    (\<lambda>_. rot_phase (two_keys P previous candidate) previous (offered P previous candidate))"
proof -
  let ?ph = "rot_phase (two_keys P previous candidate) previous"
  have live: "prepared P previous candidate (d(Live := e))" if "prepared P previous candidate d" "e \<noteq> None" for d e
    using that by (auto simp: key_kept_def)
  have wrote: "runs (?ph (prepared P previous candidate)) (write_private K (kp_private candidate) Live)
      (\<lambda>_. ?ph (switched P previous candidate)) (\<lambda>_. ?ph (prepared P previous candidate))"
    unfolding write_private_def
  proof (rule runs_write_slot)
    fix d e assume d: "prepared P previous candidate d"
    show "allowed (d Live) (private_as_pem (kp_private candidate)) e \<Longrightarrow>
        two_keys P previous candidate (d(Live := e)) \<and> prepared P previous candidate (d(Live := e))"
      using d live kept_two [OF assms(1,2)] allowed_present by (auto simp: key_kept_def)
    show "whole (d Live) (private_as_pem (kp_private candidate)) e \<Longrightarrow> switched P previous candidate (d(Live := e))"
      using d has_pem_holds [OF assms(1,3)] whole_has_pem by auto
  qed
  have settle: "runs (?ph (\<lambda>d. prepared P previous candidate d \<and> (unchanged \<longrightarrow> holds P (kp_public previous) (d Live))))
      (and_then (if unchanged then best_effort (remove_file K Old) else done_with ()) (\<lambda>_. stops e))
      (\<lambda>_. ?ph (switched P previous candidate)) (\<lambda>_. ?ph (offered P previous candidate))" for unchanged e
  proof (rule runs_and_then)
    have drop_old: "two_keys P previous candidate (d(Old := None)) \<and> offered P previous candidate (d(Old := None))"
      if "prepared P previous candidate d" "holds P (kp_public previous) (d Live)" for d
      using that by (intro conjI kept_two [OF assms(1,2)]) (auto simp: key_kept_def)
    show "runs (?ph (\<lambda>d. prepared P previous candidate d \<and> (unchanged \<longrightarrow> holds P (kp_public previous) (d Live))))
        (if unchanged then best_effort (remove_file K Old) else done_with ())
        (\<lambda>_. ?ph (offered P previous candidate)) (\<lambda>_. ?ph (offered P previous candidate))"
    proof (rule runs_if)
      assume unchanged
      then show "runs (?ph (\<lambda>d. prepared P previous candidate d \<and> (unchanged \<longrightarrow> holds P (kp_public previous) (d Live))))
        (best_effort (remove_file K Old)) (\<lambda>_. ?ph (offered P previous candidate)) (\<lambda>_. ?ph (offered P previous candidate))"
        by (intro runs_best_effort runs_weaken [OF runs_remove_file [where W = "offered P previous candidate" and
            Q = "\<lambda>d. prepared P previous candidate d \<and> holds P (kp_public previous) (d Live)"]])
          (use drop_old in \<open>auto intro: rot_phase_mono\<close>)
    qed (auto intro!: runs_done intro: rot_phase_mono)
    show "runs (?ph (offered P previous candidate)) (stops e) (\<lambda>_. ?ph (switched P previous candidate))
        (\<lambda>_. ?ph (offered P previous candidate))" by (rule runs_stops)
  qed
  have failed: "runs (?ph (prepared P previous candidate)) (and_then (file_holds_key P K Live (kp_public candidate)) (\<lambda>switched.
       if switched then done_with ()
       else and_then (file_holds_key P K Live (kp_public previous)) (\<lambda>unchanged.
         and_then (if unchanged then best_effort (remove_file K Old) else done_with ()) (\<lambda>_. stops e))))
      (\<lambda>_. ?ph (switched P previous candidate)) (\<lambda>_. ?ph (offered P previous candidate))" for e
  proof (rule runs_and_then)
    show "runs (?ph (prepared P previous candidate)) (file_holds_key P K Live (kp_public candidate))
        (\<lambda>b. ?ph (\<lambda>d. prepared P previous candidate d \<and> (b \<longrightarrow> holds P (kp_public candidate) (d Live))))
        (\<lambda>_. ?ph (offered P previous candidate))"
      by (rule runs_weaken [OF runs_file_holds_key [where Q = "prepared P previous candidate"]]) (auto elim!: rot_phase_mono)
    show "runs (?ph (\<lambda>d. prepared P previous candidate d \<and> (b \<longrightarrow> holds P (kp_public candidate) (d Live))))
        (if b then done_with () else and_then (file_holds_key P K Live (kp_public previous)) (\<lambda>unchanged.
         and_then (if unchanged then best_effort (remove_file K Old) else done_with ()) (\<lambda>_. stops e)))
        (\<lambda>_. ?ph (switched P previous candidate)) (\<lambda>_. ?ph (offered P previous candidate))" for b
    proof (rule runs_if)
      assume b
      then show "runs (?ph (\<lambda>d. prepared P previous candidate d \<and> (b \<longrightarrow> holds P (kp_public candidate) (d Live))))
          (done_with ()) (\<lambda>_. ?ph (switched P previous candidate)) (\<lambda>_. ?ph (offered P previous candidate))"
        by (intro runs_done) (auto intro: rot_phase_mono)
    next
      have "runs (?ph (prepared P previous candidate)) (file_holds_key P K Live (kp_public previous))
          (\<lambda>b. ?ph (\<lambda>d. prepared P previous candidate d \<and> (b \<longrightarrow> holds P (kp_public previous) (d Live))))
          (\<lambda>_. ?ph (offered P previous candidate))"
        by (rule runs_weaken [OF runs_file_holds_key [where Q = "prepared P previous candidate"]]) (auto elim!: rot_phase_mono)
      then have "runs (?ph (prepared P previous candidate)) (and_then (file_holds_key P K Live (kp_public previous)) (\<lambda>unchanged.
         and_then (if unchanged then best_effort (remove_file K Old) else done_with ()) (\<lambda>_. stops e)))
        (\<lambda>_. ?ph (switched P previous candidate)) (\<lambda>_. ?ph (offered P previous candidate))"
        by (rule runs_and_then [OF _ settle])
      then show "runs (?ph (\<lambda>d. prepared P previous candidate d \<and> (b \<longrightarrow> holds P (kp_public candidate) (d Live))))
        (and_then (file_holds_key P K Live (kp_public previous)) (\<lambda>unchanged.
         and_then (if unchanged then best_effort (remove_file K Old) else done_with ()) (\<lambda>_. stops e)))
        (\<lambda>_. ?ph (switched P previous candidate)) (\<lambda>_. ?ph (offered P previous candidate))"
        by (rule runs_weaken) (auto intro: rot_phase_mono)
    qed
  qed
  show ?thesis unfolding switch_live_def by (rule runs_catching [OF wrote failed])
qed

text \<open>What a commit leaves: the switch done and the previous key put aside, or the previous key in use and kept.\<close>

lemma runs_clean_up:
  assumes "\<And>d. switched P previous candidate d \<Longrightarrow> T d"
  shows "runs (rot_phase T candidate (switched P previous candidate)) (clean_up K candidate)
    (\<lambda>_. rot_phase T candidate (switched P previous candidate)) E"
proof -
  let ?sw = "rot_phase T candidate (switched P previous candidate)"
  have "runs ?sw (key_call (os_fail (ko_write K) Sync_Dir)) (\<lambda>_. ?sw) (\<lambda>_. ?sw)" by (rule runs_look) simp_all
  then have sync: "runs ?sw (sync_parent_dir K) (\<lambda>_. ?sw) E" unfolding sync_parent_dir_def by (rule runs_best_effort)
  have "runs ?sw (remove_file_if_exists K Next) (\<lambda>_. ?sw) (\<lambda>_. ?sw)"
    by (rule runs_remove_file_if_exists) (use assms in auto)
  then have removed: "runs ?sw (best_effort (remove_file_if_exists K Next)) (\<lambda>_. ?sw) E" by (rule runs_best_effort)
  have "runs ?sw (write_public K (kp_public candidate) Pub) (\<lambda>_. ?sw) (\<lambda>_. ?sw)"
    unfolding write_public_def by (rule runs_write_slot) (use assms in auto)
  then have "runs ?sw (best_effort (write_public K (kp_public candidate) Pub)) (\<lambda>_. ?sw) E" by (rule runs_best_effort)
  then show ?thesis unfolding clean_up_def by (intro runs_and_then [OF sync] runs_and_then [OF removed])
qed

abbreviation committed :: "'o pki_lib \<Rightarrow> key_pair \<Rightarrow> key_pair \<Rightarrow> 'w rotatable \<Rightarrow> bool" where
  "committed P previous candidate \<equiv> rot_phase (two_keys P previous candidate) candidate (switched P previous candidate)"

abbreviation not_committed :: "'o pki_lib \<Rightarrow> key_pair \<Rightarrow> key_pair \<Rightarrow> 'w rotatable \<Rightarrow> bool" where
  "not_committed P previous candidate \<equiv> rot_phase (two_keys P previous candidate) previous (key_kept P previous)"

lemma offered_kept:
  "rot_phase T previous (offered P previous candidate) s \<Longrightarrow> rot_phase T previous (key_kept P previous) s"
  by (erule rot_phase_mono) simp

lemma runs_switch_keys:
  assumes "pki_laws P" "proper P previous" "proper P candidate"
  shows "runs (rot_phase (two_keys P previous candidate) previous (offered P previous candidate)) (switch_keys P K candidate previous)
    (\<lambda>_. committed P previous candidate) (\<lambda>_. not_committed P previous candidate)"
proof -
  have store: "runs (rot_phase (two_keys P previous candidate) previous (switched P previous candidate)) (store_keys candidate)
      (\<lambda>_. committed P previous candidate) (\<lambda>_. not_committed P previous candidate)"
    by (simp add: runs_def store_keys_def rot_phase_def)
  show ?thesis unfolding switch_keys_def
    by (rule runs_and_then [OF runs_weaken [OF runs_put_aside [OF assms(1,2)]]
          runs_and_then [OF runs_weaken [OF runs_switch_live [OF assms]] runs_and_then [OF store runs_clean_up]]])
      (auto intro: offered_kept switched_two [OF assms(1,2)])
qed

lemma runs_commit_from:
  assumes "pki_laws P" "proper P previous" "proper P candidate"
  shows "runs (rot_phase (two_keys P previous candidate) previous (offered P previous candidate)) (commit_from P K candidate previous)
    (\<lambda>_. committed P previous candidate) (\<lambda>_. not_committed P previous candidate)"
proof -
  let ?offered = "rot_phase (two_keys P previous candidate) previous (offered P previous candidate)"
  have look: "runs ?offered m (\<lambda>_. ?offered) (\<lambda>_. not_committed P previous candidate)" if "looks m" for m
    by (rule runs_weaken [OF runs_look [where Q = "offered P previous candidate", OF that]]) (auto intro: offered_kept)
  show ?thesis unfolding commit_from_def
    by (intro runs_and_then [OF look] runs_if runs_stops runs_switch_keys [OF assms]) (auto intro: offered_kept)
qed

lemma runs_commit:
  fixes K :: "'w key_os"
  assumes "pki_laws P" "proper P previous" "proper P candidate"
  shows "runs (\<lambda>s. rt_keys s = previous \<and> rt_shown s = [] \<and> key_kept P previous (rt_files s)) (commit P K candidate)
    (\<lambda>_. committed P previous candidate) (\<lambda>_. not_committed P previous candidate)"
proof -
  let ?ph = "rot_phase (two_keys P previous candidate) previous" and ?E = "\<lambda>_ :: key_error. not_committed P previous candidate"
  have loaded: "runs (\<lambda>s. rt_keys s = previous \<and> rt_shown s = [] \<and> key_kept P previous (rt_files s)) (pair_from_file P K Next)
      (\<lambda>on_disk. ?ph (\<lambda>d. key_kept P previous d \<and> holds P (kp_public on_disk) (d Next))) ?E"
    by (rule runs_weaken [OF runs_pair_from_file [where Q = "key_kept P previous" and T = "two_keys P previous candidate"
            and keys = previous]])
      (auto simp: rot_phase_def)
  have same: "runs (?ph (offered P previous candidate)) (and_then get_keys (commit_from P K candidate))
      (\<lambda>_. committed P previous candidate) ?E"
  proof (rule runs_and_then [OF runs_get_keys])
    show "runs (\<lambda>s. ?ph (offered P previous candidate) s \<and> k = previous) (commit_from P K candidate k)
        (\<lambda>_. committed P previous candidate) ?E" for k
      using runs_commit_from [OF assms, of K] by (cases "k = previous") (auto simp: runs_def)
  qed
  have go_on: "runs (?ph (\<lambda>d. key_kept P previous d \<and> holds P (kp_public on_disk) (d Next)))
      (if kp_public on_disk \<noteq> kp_public candidate then stops Candidate_Changed else and_then get_keys (commit_from P K candidate))
      (\<lambda>_. committed P previous candidate) ?E" for on_disk
    by (intro runs_if runs_stops) (use same in \<open>auto elim: rot_phase_mono\<close>)
  show ?thesis unfolding commit_def
    by (rule runs_releasing) (rule runs_and_then [OF loaded go_on])
qed

section \<open>The key in use stays on disk\<close>

text \<open>What \<open>snow\<close> documents of a key pair it generates, and that a key file can be read.\<close>

definition generates_pairs :: "'o pki_lib \<Rightarrow> 'w key_os \<Rightarrow> bool" where
  "generates_pairs P K \<longleftrightarrow> (\<forall>params w private public w'. ko_generate K params w = (Some (private, public), w') \<longrightarrow>
     length private = 32 \<and> public = pk_dh_public P private)"

definition reads_keys :: "'w key_os \<Rightarrow> bool" where
  "reads_keys K \<longleftrightarrow> (\<forall>f key w. fl_bytes f = private_as_pem key \<longrightarrow> fst (ko_read K f w) = None)"

lemma private_from_raw_usable: "private_from_raw_bytes P raw = Inr key \<Longrightarrow> length raw = 32 \<Longrightarrow> stored_as P raw key"
  by (auto simp: stored_as_def private_from_raw_bytes_def res_bind_Inr_iff padded_full split: if_splits)

lemma generated_proper:
  assumes "pki_laws P" "generates_pairs P K" "generate_pair P K kind s = (Inr keys, s')"
  shows "proper P keys"
proof -
  obtain raw public_raw w where g: "ko_generate K (noise_params kind) (rt_world s) = (Some (raw, public_raw), w)"
    and k: "private_from_raw_bytes P raw = Inr (kp_private keys)" "public_from_raw_bytes P public_raw = Inr (kp_public keys)"
    using assms(3) by (auto simp: generate_pair_def and_then_ok key_step_def stops_def split: option.splits prod.splits)
  have raw: "length raw = 32" "public_raw = pk_dh_public P raw" using assms(2) g unfolding generates_pairs_def by blast+
  have st: "stored_as P raw (kp_private keys)" using private_from_raw_usable [OF k(1) raw(1)] .
  then show ?thesis using text_read_back [OF assms(1) st] k(2) raw(2)
    by (auto simp: proper_def from_private_key_using_dh_def res_bind_def)
qed

definition present :: "key_dir \<Rightarrow> bool" where "present d \<longleftrightarrow> d Live \<noteq> None"

abbreviation uses_kept :: "'o pki_lib \<Rightarrow> key_pair \<Rightarrow> 'w rotatable \<Rightarrow> bool" where
  "uses_kept P keys \<equiv> rot_phase present keys (key_kept P keys)"

lemma runs_generate:
  assumes "pki_laws P" "generates_pairs P K"
  shows "runs (uses_kept P keys) (generate_pair P K kind) (\<lambda>c s. uses_kept P keys s \<and> proper P c) (\<lambda>_. uses_kept P keys)"
  by (rule runs_and_value [OF runs_look]) (auto intro: generated_proper [OF assms])

lemma runs_write_candidate:
  assumes "pki_laws P" "generates_pairs P K"
  shows "runs (uses_kept P keys) (write_candidate P K kind) (\<lambda>c s. uses_kept P keys s \<and> proper P c) (\<lambda>_. uses_kept P keys)"
  unfolding write_candidate_def
proof (rule runs_and_then [OF runs_generate [OF assms]])
  fix c :: key_pair
  have "runs (uses_kept P keys) (write_private K (kp_private c) Next) (\<lambda>_. uses_kept P keys) (\<lambda>_. uses_kept P keys)"
    unfolding write_private_def by (rule runs_write_slot) (auto simp: key_kept_def present_def)
  then have wrote: "runs (uses_kept P keys) (and_then (write_private K (kp_private c) Next) (\<lambda>_. done_with c))
      (\<lambda>x s. uses_kept P keys s \<and> x = c) (\<lambda>_. uses_kept P keys)"
    by (rule runs_and_then) (rule runs_done, simp)
  then show "runs (\<lambda>s. uses_kept P keys s \<and> proper P c) (and_then (write_private K (kp_private c) Next) (\<lambda>_. done_with c))
      (\<lambda>c s. uses_kept P keys s \<and> proper P c) (\<lambda>_. uses_kept P keys)"
  proof (cases "proper P c")
    case True
    then show ?thesis by (intro runs_weaken [OF wrote]) auto
  qed (simp add: runs_def)
qed

lemma runs_find_candidate:
  assumes "pki_laws P" "generates_pairs P K"
  shows "runs (uses_kept P keys) (find_candidate P K kind) (\<lambda>c s. uses_kept P keys s \<and> proper P c) (\<lambda>_. uses_kept P keys)"
proof -
  note wrote = runs_write_candidate [OF assms]
  have found: "runs (uses_kept P keys) (try_exists K Next) (\<lambda>_. uses_kept P keys) (\<lambda>_. uses_kept P keys)"
    by (rule runs_look) simp_all
  let ?some = "\<lambda>loaded s. uses_kept P keys s \<and> (\<forall>c. loaded = Some c \<longrightarrow> proper P c)"
  have "runs (uses_kept P keys) (and_then (pair_from_file P K Next) (\<lambda>candidate. done_with (Some candidate))) ?some (\<lambda>_. uses_kept P keys)"
    by (rule runs_and_then [OF runs_pair_from_file], rule runs_done) (auto simp: rot_phase_def)
  then have loaded: "runs (uses_kept P keys) (catching (and_then (pair_from_file P K Next) (\<lambda>candidate. done_with (Some candidate))) (\<lambda>_. done_with None))
      ?some (\<lambda>_. uses_kept P keys)"
    by (rule runs_catching) (rule runs_done, simp)
  have taken: "runs (\<lambda>s. uses_kept P keys s \<and> k = keys) (if kp_public c = kp_public k then write_candidate P K kind else done_with c)
      (\<lambda>c s. uses_kept P keys s \<and> proper P c) (\<lambda>_. uses_kept P keys)" if "proper P c" for c k
    by (intro runs_if runs_weaken [OF wrote] runs_done) (use that in auto)
  have pick: "runs (?some loaded) (case loaded of
         None \<Rightarrow> write_candidate P K kind
       | Some candidate \<Rightarrow> and_then get_keys (\<lambda>keys.
           if kp_public candidate = kp_public keys then write_candidate P K kind else done_with candidate))
      (\<lambda>c s. uses_kept P keys s \<and> proper P c) (\<lambda>_. uses_kept P keys)" for loaded
  proof (cases loaded)
    case (Some c)
    then show ?thesis
    proof (cases "proper P c")
      case True
      then have "runs (uses_kept P keys) (and_then get_keys (\<lambda>keys.
           if kp_public c = kp_public keys then write_candidate P K kind else done_with c))
      (\<lambda>c s. uses_kept P keys s \<and> proper P c) (\<lambda>_. uses_kept P keys)"
        by (intro runs_and_then [OF runs_get_keys] taken)
      then show ?thesis unfolding Some option.case by (rule runs_weaken) auto
    qed (simp add: runs_def)
  qed (simp add: wrote)
  show ?thesis unfolding find_candidate_def
    by (intro runs_and_then [OF found] runs_if wrote runs_and_then [OF loaded pick])
qed

lemma runs_drop_old:
  "runs (rot_phase present keys (\<lambda>d. key_kept P keys d \<and> holds P (kp_public keys) (d Live))) (remove_file_if_exists K Old)
     (\<lambda>_. uses_kept P keys) (\<lambda>_. uses_kept P keys)"
  by (rule runs_weaken [OF runs_remove_file_if_exists [where Q = "\<lambda>d. key_kept P keys d \<and> holds P (kp_public keys) (d Live)"]])
    (auto simp: key_kept_def present_def elim: rot_phase_mono)

lemma runs_load_retired:
  fixes K :: "'w key_os"
  shows "runs (uses_kept P keys) (load_retired P K settle) (\<lambda>_. uses_kept P keys) (\<lambda>_. uses_kept P keys)"
proof -
  let ?I = "uses_kept P keys :: 'w rotatable \<Rightarrow> bool"
  have found: "runs ?I (try_exists K Old) (\<lambda>_. ?I) (\<lambda>_. ?I)"
    by (rule runs_look) simp_all
  have loaded: "runs ?I (catching (and_then (pair_from_file P K Old) (\<lambda>rt. done_with (Some rt))) (\<lambda>e.
         and_then (try_exists K Old) (\<lambda>found. if \<not> found then done_with None else stops e))) (\<lambda>_. ?I) (\<lambda>_. ?I)"
    by (rule runs_look) (auto intro!: preserves_catching preserves_and_then)
  have settled: "runs ?I (and_then (file_holds_key P K Live (kp_public keys)) (\<lambda>holds.
      if holds then and_then (remove_file_if_exists K Old) (\<lambda>_. done_with None) else done_with None)) (\<lambda>_. ?I) (\<lambda>_. ?I)"
    by (intro runs_and_then [OF runs_file_holds_key] runs_if runs_done runs_and_then [OF runs_weaken [OF runs_drop_old]])
      (auto elim!: rot_phase_mono)
  have taken: "runs (\<lambda>s. ?I s \<and> k = keys) (if kp_public rt \<noteq> kp_public k then done_with (Some rt)
           else if \<not> settle then done_with None
           else and_then (file_holds_key P K Live (kp_public rt)) (\<lambda>holds.
             if holds then and_then (remove_file_if_exists K Old) (\<lambda>_. done_with None)
             else done_with None)) (\<lambda>_. ?I) (\<lambda>_. ?I)" for k rt
  proof (cases "k = keys \<and> kp_public rt = kp_public keys")
    case True
    then show ?thesis using settled by (cases settle) (auto intro: runs_done)
  next
    case False
    then show ?thesis by (cases "k = keys") (auto intro: runs_done simp: runs_def [of "\<lambda>_. False"])
  qed
  have pick: "runs ?I (case loaded of None \<Rightarrow> done_with None
       | Some rt \<Rightarrow>
           and_then get_keys (\<lambda>keys.
           if kp_public rt \<noteq> kp_public keys then done_with (Some rt)
           else if \<not> settle then done_with None
           else and_then (file_holds_key P K Live (kp_public rt)) (\<lambda>holds.
             if holds then and_then (remove_file_if_exists K Old) (\<lambda>_. done_with None)
             else done_with None))) (\<lambda>_. ?I) (\<lambda>_. ?I)" for loaded
  proof (cases loaded)
    case (Some rt)
    show ?thesis unfolding Some option.case by (rule runs_and_then [OF runs_get_keys taken])
  qed (simp add: runs_done)
  show ?thesis unfolding load_retired_def
    by (intro runs_and_then [OF found] runs_if runs_done runs_and_then [OF loaded pick])
qed

definition key_text :: "'o pki_lib \<Rightarrow> string \<Rightarrow> file_entry option \<Rightarrow> bool" where
  "key_text P key e \<longleftrightarrow> (\<exists>f. e = Some f \<and> from_maybe_raw_bytes P (fl_bytes f) = Inr key)"

lemma key_text_holds: "proper P keys \<Longrightarrow> key_text P (kp_private keys) e \<Longrightarrow> holds P (kp_public keys) e"
  by (auto simp: key_text_def holds_def proper_def from_private_key_def res_bind_def)

lemma pem_is_read:
  assumes "pki_laws P" "proper P keys" "reads_keys K" "has_pem (kp_private keys) (rt_files s x)"
  shows "\<exists>s'. private_from_file P K x s = (Inr (kp_private keys), s')"
proof -
  obtain f where f: "rt_files s x = Some f" "fl_bytes f = private_as_pem (kp_private keys)"
    using assms(4) by (auto simp: has_pem_def)
  have "fst (ko_read K f (rt_world s)) = None" using assms(3) f(2) unfolding reads_keys_def by blast
  moreover obtain raw where "stored_as P raw (kp_private keys)" using assms(2) by (auto simp: proper_def)
  then have "from_maybe_raw_bytes P (fl_bytes f) = Inr (kp_private keys)" using pem_read_back(2) [OF assms(1)] f(2) by simp
  ultimately show ?thesis using f(1)
    by (cases "ko_read K f (rt_world s)")
      (simp add: private_from_file_def read_text_def key_call_def key_step_def checked_def and_then_def done_with_def)
qed

lemma runs_holds_key_in_use:
  fixes K :: "'w key_os"
  assumes "pki_laws P" "proper P keys" "reads_keys K"
  shows "runs (rot_phase T keys Q) (holds_key_in_use P K x)
    (\<lambda>b. rot_phase T keys (\<lambda>d. Q d \<and> (if b then key_text P (kp_private keys) (d x) else \<not> has_pem (kp_private keys) (d x)))) E"
proof (rule runsI)
  fix s :: "'w rotatable" assume p: "rot_phase T keys Q s"
  obtain r s1 where fl: "private_from_file P K x s = (r, s1)" by fastforce
  have v: "visible s1 = visible s" using preservesD [OF looks_reads(1) fl] .
  have keys: "rt_keys s = keys" using p by (simp add: rot_phase_def)
  have run: "holds_key_in_use P K x s = (Inr (r = Inr (kp_private keys)), s1)"
    using fl keys by (cases r) (auto simp: holds_key_in_use_def get_keys_def and_then_def catching_def done_with_def)
  have "r = Inr (kp_private keys) \<Longrightarrow> key_text P (kp_private keys) (rt_files s x)"
    using private_from_file_ok fl by (fastforce simp: key_text_def)
  moreover have "r \<noteq> Inr (kp_private keys) \<Longrightarrow> \<not> has_pem (kp_private keys) (rt_files s x)"
    using pem_is_read [OF assms, of s x] fl by auto
  moreover have "rot_phase T keys Q s1" by (rule rot_phase_visible [OF v p])
  ultimately show "case holds_key_in_use P K x s of (Inl e, s') \<Rightarrow> E e s' | (Inr b, s') \<Rightarrow>
      rot_phase T keys (\<lambda>d. Q d \<and> (if b then key_text P (kp_private keys) (d x) else \<not> has_pem (kp_private keys) (d x))) s'"
    using run v by (auto simp: rot_phase_def visible_simps)
qed

lemma runs_acquire: "runs (rot_phase T keys Q) acquire (\<lambda>_. rot_phase T keys Q) (\<lambda>_. rot_phase T keys Q)"
  by (auto simp: runs_def acquire_def rot_phase_def)

lemma runs_finish_rotation:
  fixes K :: "'w key_os"
  assumes "pki_laws P" "proper P keys" "reads_keys K"
  shows "runs (uses_kept P keys) (finish_rotation P K) (\<lambda>_. uses_kept P keys) (\<lambda>_. uses_kept P keys)"
proof -
  let ?I = "uses_kept P keys :: 'w rotatable \<Rightarrow> bool"
  note holds_key = runs_holds_key_in_use [OF assms, where T = present]
  have inner: "runs ?I (and_then (holds_key_in_use P K Old) (\<lambda>old_in_use.
        if \<not> old_in_use then remove_file_if_exists K Old
        else and_then (holds_key_in_use P K Live) (\<lambda>live_in_use.
          if \<not> live_in_use then done_with () else remove_file_if_exists K Old))) (\<lambda>_. ?I) (\<lambda>_. ?I)"
  proof (rule runs_and_then [OF holds_key])
    fix old_in_use
    have second: "runs ?I (and_then (holds_key_in_use P K Live) (\<lambda>live_in_use.
          if \<not> live_in_use then done_with () else remove_file_if_exists K Old)) (\<lambda>_. ?I) (\<lambda>_. ?I)"
      by (rule runs_and_then [OF holds_key], intro runs_if runs_done runs_weaken [OF runs_drop_old])
        (auto elim!: rot_phase_mono intro: key_text_holds [OF assms(2)])
    show "runs (rot_phase present keys (\<lambda>d. key_kept P keys d \<and>
        (if old_in_use then key_text P (kp_private keys) (d Old) else \<not> has_pem (kp_private keys) (d Old))))
      (if \<not> old_in_use then remove_file_if_exists K Old
        else and_then (holds_key_in_use P K Live) (\<lambda>live_in_use.
          if \<not> live_in_use then done_with () else remove_file_if_exists K Old)) (\<lambda>_. ?I) (\<lambda>_. ?I)"
    proof (cases old_in_use)
      case True
      then show ?thesis using second by (auto intro!: runs_weaken [OF second] elim!: rot_phase_mono)
    next
      case False
      then show ?thesis by (auto intro!: runs_weaken [OF runs_drop_old [where P = P]] elim!: rot_phase_mono simp: key_kept_def)
    qed
  qed
  have "runs ?I (and_then acquire (\<lambda>_. releasing (and_then (holds_key_in_use P K Old) (\<lambda>old_in_use.
        if \<not> old_in_use then remove_file_if_exists K Old
        else and_then (holds_key_in_use P K Live) (\<lambda>live_in_use.
          if \<not> live_in_use then done_with () else remove_file_if_exists K Old))))) (\<lambda>_. ?I) (\<lambda>_. ?I)"
    by (rule runs_and_then [OF runs_acquire runs_releasing [OF inner]])
  then show ?thesis by (auto simp: runs_def finish_rotation_def)
qed

lemma runs_on_error:
  "runs P m Q E \<Longrightarrow> (\<And>e s. E e s \<Longrightarrow> E e (g s)) \<Longrightarrow>
   runs P (\<lambda>s. case m s of (Inr x, s') \<Rightarrow> (Inr x, s') | (Inl e, s') \<Rightarrow> (Inl e, g s')) Q E"
  by (rule runsI) (auto dest: runs_Inr runs_Inl split: prod.split sum.split)

lemma runs_begin_rotation:
  fixes K :: "'w key_os"
  assumes "pki_laws P" "generates_pairs P K"
  shows "runs (uses_kept P keys) (begin_rotation P K kind) (\<lambda>c s. uses_kept P keys s \<and> proper P c) (\<lambda>_. uses_kept P keys)"
proof -
  have "runs (uses_kept P keys) (and_then (load_retired P K True) (\<lambda>waiting.
      if waiting \<noteq> None then stops Rotation_Unfinished else find_candidate P K kind))
      (\<lambda>c s. uses_kept P keys s \<and> proper P c) (\<lambda>_. uses_kept P keys)"
    by (intro runs_and_then [OF runs_load_retired] runs_if runs_stops runs_find_candidate [OF assms])
  then have held: "runs (uses_kept P keys) (\<lambda>s. case and_then (load_retired P K True) (\<lambda>waiting.
            if waiting \<noteq> None then stops Rotation_Unfinished else find_candidate P K kind) s of
          (Inr candidate, s') \<Rightarrow> (Inr candidate, s') | (Inl e, s') \<Rightarrow> (Inl e, release s'))
      (\<lambda>c s. uses_kept P keys s \<and> proper P c) (\<lambda>_. uses_kept P keys)"
    by (rule runs_on_error) (simp add: release_def rot_phase_def)
  show ?thesis
  proof (rule runsI)
    fix s :: "'w rotatable" assume "uses_kept P keys s"
    with runs_and_then [OF runs_acquire held, unfolded runs_def, rule_format, of s]
    show "case begin_rotation P K kind s of (Inl e, s') \<Rightarrow> uses_kept P keys s' | (Inr c, s') \<Rightarrow> uses_kept P keys s' \<and> proper P c"
      by (cases "rt_backed s") (simp_all add: begin_rotation_def)
  qed
qed

section \<open>Rotations, failures and crashes\<close>

text \<open>
  A process with the pair and the rotation it has begun. A crash leaves one of the directories the last
  operation has shown, and nothing in memory; the next start reads the live file.
\<close>

definition from_now :: "'w rotatable \<Rightarrow> 'w rotatable" where
  "from_now s = s\<lparr>rt_shown := []\<rparr>"

inductive rot_step :: "'o pki_lib \<Rightarrow> 'w key_os \<Rightarrow> pki_kind \<Rightarrow> 'w rotatable \<times> key_pair option \<Rightarrow> 'w rotatable \<times> key_pair option \<Rightarrow> bool"
  for P K kind where
  Begin: "begin_rotation P K kind (from_now s) = (Inr c, s') \<Longrightarrow> rot_step P K kind (s, ro) (s', Some c)"
| Refused: "begin_rotation P K kind (from_now s) = (Inl e, s') \<Longrightarrow> rot_step P K kind (s, ro) (s', ro)"
| Commit: "commit P K c (from_now s) = (r, s') \<Longrightarrow> rot_step P K kind (s, Some c) (s', None)"
| Abort: "abort_rotation K (from_now s) = (r, s') \<Longrightarrow> rot_step P K kind (s, Some c) (s', None)"
| Dropped: "rot_step P K kind (s, Some c) (release s, None)"
| Finish: "finish_rotation P K (from_now s) = (r, s') \<Longrightarrow> rot_step P K kind (s, ro) (s', ro)"
| Retired: "retired P K (from_now s) = (r, s') \<Longrightarrow> rot_step P K kind (s, ro) (s', ro)"
| Pending: "rotation_pending P K (from_now s) = (r, s') \<Longrightarrow> rot_step P K kind (s, ro) (s', ro)"
| Crash: "d \<in> set (rt_shown s) \<union> {rt_files s} \<Longrightarrow> strip_prefix ''file:'' spec \<noteq> None \<Longrightarrow>
    from_private_key_spec P K kind spec (s\<lparr>rt_files := d, rt_shown := [], rt_world := w\<rparr>) = (Inr (), s') \<Longrightarrow>
    rot_step P K kind (s, ro) (s', None)"

definition rot_ok :: "'o pki_lib \<Rightarrow> 'w rotatable \<times> key_pair option \<Rightarrow> bool" where
  "rot_ok P = (\<lambda>(s, ro). uses_kept P (rt_keys s) s \<and> proper P (rt_keys s) \<and>
     (\<forall>c. ro = Some c \<longrightarrow> proper P c))"

lemma runs_never: "runs Q m (\<lambda>_ _. False) (\<lambda>_. R) \<Longrightarrow> Q s \<Longrightarrow> \<exists>e s'. m s = (Inl e, s') \<and> R s'"
  by (cases "m s"; cases "fst (m s)") (auto dest: runs_Inr runs_Inl)

lemma runs_total: "runs Q m (\<lambda>_. R) (\<lambda>_. R) \<Longrightarrow> m s = (r, s') \<Longrightarrow> Q s \<Longrightarrow> R s'"
  by (cases r) (auto dest: runs_Inr runs_Inl)

lemma in_use_from_now: "uses_kept P keys s \<Longrightarrow> uses_kept P keys (from_now s)"
  by (simp add: rot_phase_def from_now_def)

lemma commit_in_use:
  assumes "pki_laws P" "proper P keys" "proper P c" "uses_kept P keys s" "commit P K c (from_now s) = (r, s')"
  shows "uses_kept P (rt_keys s') s'" "proper P (rt_keys s')"
proof -
  have start: "rt_keys (from_now s) = keys \<and> rt_shown (from_now s) = [] \<and> key_kept P keys (rt_files (from_now s))"
    using assms(4) by (simp add: rot_phase_def from_now_def)
  have "committed P keys c s' \<or> not_committed P keys c s'"
    using runs_Inr [OF runs_commit [OF assms(1-3)] start] runs_Inl [OF runs_commit [OF assms(1-3)] start] assms(5)
    by (cases r) blast+
  then show "uses_kept P (rt_keys s') s'" "proper P (rt_keys s')"
    using assms(2,3) by (auto simp: rot_phase_def two_keys_def present_def key_kept_def dest: holds_present)
qed

lemma restart_in_use:
  assumes "present d" "from_private_key_spec P K kind spec (s\<lparr>rt_files := d, rt_shown := [], rt_world := w\<rparr>) = (Inr (), s')"
    "strip_prefix ''file:'' spec \<noteq> None"
  shows "uses_kept P (rt_keys s') s'" "proper P (rt_keys s')"
proof -
  let ?s = "s\<lparr>rt_files := d, rt_shown := [], rt_world := w\<rparr>"
  obtain keys s1 where load: "load_maybe_generate P K kind ?s = (Inr keys, s1)"
    and s': "s' = s1\<lparr>rt_keys := keys, rt_backed := True, rt_rotating := False\<rparr>"
    using assms(2,3) by (auto simp: from_private_key_spec_def and_then_ok)
  obtain found s2 where f: "try_exists K Live ?s = (Inr found, s2)"
    and rest: "(if \<not> found then generate_write P K kind else pair_from_file P K Live) s2 = (Inr keys, s1)"
    using load unfolding load_maybe_generate_def and_then_ok by blast
  have v: "visible s2 = visible ?s" using preservesD [OF looks_calls(2) f] .
  have "found \<longleftrightarrow> rt_files s2 Live \<noteq> None" using f by (auto simp: try_exists_def and_then_ok)
  then have p: "pair_from_file P K Live s2 = (Inr keys, s1)" using rest v assms(1) by (auto simp: visible_simps present_def split: if_splits)
  obtain t where "d Live = Some t" "from_private_key P (fl_bytes t) = Inr keys" "visible s1 = visible s2"
    using pair_from_file_ok [OF p] v by (auto simp: visible_simps)
  then show "uses_kept P (rt_keys s') s'" "proper P (rt_keys s')"
    using s' v loaded_proper by (auto simp: rot_phase_def visible_simps key_kept_def holds_def)
qed

lemma looks_pending: "looks (rotation_pending P K)"
proof -
  have "looks (and_then (exists_or_false K Next) (\<lambda>found.
        and_then (if \<not> found then done_with False
          else and_then (holds_key_in_use P K Next) (\<lambda>in_use. done_with (\<not> in_use))) (\<lambda>waiting.
        if waiting then done_with True else exists_or_false K Old)))"
    by (auto intro!: preserves_and_then)
  then show ?thesis by (simp add: preserves_def rotation_pending_def)
qed

lemma rot_step_ok:
  assumes "pki_laws P" "generates_pairs P K" "reads_keys K"
  shows "rot_step P K kind x y \<Longrightarrow> rot_ok P x \<Longrightarrow> rot_ok P y"
proof (induction rule: rot_step.induct)
  case (Begin s c s' ro)
  then have "uses_kept P (rt_keys s) (from_now s)" by (simp add: rot_ok_def in_use_from_now)
  from runs_Inr [OF runs_begin_rotation [OF assms(1,2)] this Begin(1)] show ?case
    using Begin.prems by (auto simp: rot_ok_def rot_phase_def)
next
  case (Refused s e s' ro)
  then have "uses_kept P (rt_keys s) (from_now s)" by (simp add: rot_ok_def in_use_from_now)
  from runs_Inl [OF runs_begin_rotation [OF assms(1,2)] this Refused(1)] show ?case
    using Refused.prems by (auto simp: rot_ok_def rot_phase_def)
next
  case (Commit c s r s')
  then show ?case using commit_in_use [OF assms(1)] by (fastforce simp: rot_ok_def)
next
  case (Abort s r s' c)
  have "runs (uses_kept P keys) (abort_rotation K) (\<lambda>_. uses_kept P keys) (\<lambda>_. uses_kept P keys)" for keys
    unfolding abort_rotation_def
    by (intro runs_releasing runs_remove_file_if_exists) (auto simp: key_kept_def present_def)
  from runs_total [OF this Abort(1)] have "uses_kept P (rt_keys s) s'"
    using Abort.prems by (simp add: rot_ok_def in_use_from_now)
  then show ?case using Abort.prems by (auto simp: rot_ok_def rot_phase_def)
next
  case (Dropped s c)
  then show ?case by (simp add: rot_ok_def release_def rot_phase_def)
next
  case (Finish s r s' ro)
  then have "proper P (rt_keys s)" by (simp add: rot_ok_def)
  from runs_total [OF runs_finish_rotation [OF assms(1) this assms(3)] Finish(1)] have "uses_kept P (rt_keys s) s'"
    using Finish.prems by (simp add: rot_ok_def in_use_from_now)
  then show ?case using Finish.prems by (auto simp: rot_ok_def rot_phase_def)
next
  case (Retired s r s' ro)
  have "runs (uses_kept P keys) (retired P K) (\<lambda>_. uses_kept P keys) (\<lambda>_. uses_kept P keys)" for keys
    using runs_load_retired [where P = P and K = K and settle = False] by (auto simp: runs_def retired_def)
  from runs_total [OF this Retired(1)] have "uses_kept P (rt_keys s) s'"
    using Retired.prems by (simp add: rot_ok_def in_use_from_now)
  then show ?case using Retired.prems by (auto simp: rot_ok_def rot_phase_def)
next
  case (Pending s r s' ro)
  have "visible s' = visible (from_now s)" using looks_pending Pending(1) by (rule preservesD)
  then show ?case using Pending by (auto simp: rot_ok_def rot_phase_def from_now_def visible_simps)
next
  case (Crash d s spec w s' ro)
  then have "present d" by (auto simp: rot_ok_def rot_phase_def key_kept_def present_def)
  from restart_in_use [OF this Crash(3,2)] show ?case by (simp add: rot_ok_def)
qed

section \<open>A retired key waits\<close>

text \<open>Nothing was written: no directory was shown, and the one there is is the same.\<close>

abbreviation untouched :: "key_pair \<Rightarrow> key_dir \<Rightarrow> 'w rotatable \<Rightarrow> bool" where
  "untouched keys d \<equiv> rot_phase (\<lambda>_. False) keys (\<lambda>d'. d' = d)"

lemma runs_exists:
  fixes K :: "'w key_os"
  assumes "d x \<noteq> None"
  shows "runs (untouched keys d) (try_exists K x) (\<lambda>found s. untouched keys d s \<and> found) (\<lambda>_. untouched keys d)"
proof (rule runs_and_value [OF runs_look])
  fix s :: "'w rotatable" and found s' assume "untouched keys d s" and run: "try_exists K x s = (Inr found, s')"
  have "found \<longleftrightarrow> rt_files s' x \<noteq> None" using run by (auto simp: try_exists_def and_then_ok)
  moreover have "rt_files s' = rt_files s" using preservesD [OF looks_calls(2) run] by (simp add: visible_simps)
  ultimately show found using \<open>untouched keys d s\<close> assms by (simp add: rot_phase_def)
qed simp_all

lemma runs_load_waiting:
  fixes K :: "'w key_os"
  assumes "d Old = Some f" "from_private_key P (fl_bytes f) = Inr k" "kp_public k \<noteq> kp_public keys"
  shows "runs (untouched keys d) (load_retired P K settle) (\<lambda>waiting s. untouched keys d s \<and> waiting \<noteq> None) (\<lambda>_. untouched keys d)"
proof -
  let ?U = "untouched keys d :: 'w rotatable \<Rightarrow> bool"
  have exists: "runs ?U (try_exists K Old) (\<lambda>found s. ?U s \<and> found) (\<lambda>_. ?U)"
    by (rule runs_exists) (simp add: assms(1))
  have "runs ?U (and_then (try_exists K Old) (\<lambda>found. if \<not> found then done_with None else stops e))
      (\<lambda>loaded s. ?U s \<and> loaded = Some k) (\<lambda>_. ?U)" for e
    by (rule runs_and_then [OF exists]) (auto simp: runs_def stops_def)
  moreover have "runs ?U (and_then (pair_from_file P K Old) (\<lambda>retired. done_with (Some retired)))
      (\<lambda>loaded s. ?U s \<and> loaded = Some k) (\<lambda>_. ?U)"
  proof (rule runs_and_value [OF runs_look])
    fix s loaded s' assume "?U s" and run: "and_then (pair_from_file P K Old) (\<lambda>retired. done_with (Some retired)) s = (Inr loaded, s')"
    then show "loaded = Some k" using assms(1,2) pair_from_file_ok(1) [of P K Old s]
      by (fastforce simp: and_then_ok rot_phase_def)
  qed (auto intro!: preserves_and_then)
  ultimately have loaded: "runs ?U (catching (and_then (pair_from_file P K Old) (\<lambda>retired. done_with (Some retired))) (\<lambda>e.
         and_then (try_exists K Old) (\<lambda>found. if \<not> found then done_with None else stops e)))
      (\<lambda>loaded s. ?U s \<and> loaded = Some k) (\<lambda>_. ?U)" by (rule runs_catching [rotated])
  let ?settle = "\<lambda>loaded. case loaded of None \<Rightarrow> done_with None
       | Some rt \<Rightarrow> and_then get_keys (\<lambda>keys.
           if kp_public rt \<noteq> kp_public keys then done_with (Some rt)
           else if \<not> settle then done_with None
           else and_then (file_holds_key P K Live (kp_public rt)) (\<lambda>holds.
             if holds then and_then (remove_file_if_exists K Old) (\<lambda>_. done_with None) else done_with None))"
  have "runs (\<lambda>s. ?U s \<and> loaded = Some k) (?settle loaded) (\<lambda>waiting s. ?U s \<and> waiting \<noteq> None) (\<lambda>_. ?U)" for loaded
    using assms(3) by (auto simp: runs_def and_then_def get_keys_def done_with_def rot_phase_def)
  then have rest: "runs ?U (and_then (catching (and_then (pair_from_file P K Old) (\<lambda>retired. done_with (Some retired))) (\<lambda>e.
         and_then (try_exists K Old) (\<lambda>found. if \<not> found then done_with None else stops e))) ?settle)
      (\<lambda>waiting s. ?U s \<and> waiting \<noteq> None) (\<lambda>_. ?U)"
    by (rule runs_and_then [OF loaded])
  show ?thesis unfolding load_retired_def
  proof (rule runs_and_then [OF exists])
    fix found show "runs (\<lambda>s. ?U s \<and> found) (if \<not> found then done_with None else and_then
       (catching (and_then (pair_from_file P K Old) (\<lambda>retired. done_with (Some retired))) (\<lambda>e.
         and_then (try_exists K Old) (\<lambda>found. if \<not> found then done_with None else stops e))) ?settle)
      (\<lambda>waiting s. ?U s \<and> waiting \<noteq> None) (\<lambda>_. ?U)"
      using rest by (cases found) (auto simp: runs_def)
  qed
qed

lemma runs_begin_waiting:
  fixes K :: "'w key_os"
  assumes "d Old = Some f" "from_private_key P (fl_bytes f) = Inr k" "kp_public k \<noteq> kp_public keys"
  shows "runs (\<lambda>s. untouched keys d s \<and> rt_backed s) (begin_rotation P K kind) (\<lambda>_ _. False) (\<lambda>_. untouched keys d)"
proof (rule runsI)
  let ?m = "and_then (load_retired P K True) (\<lambda>waiting. if waiting \<noteq> None then stops Rotation_Unfinished else find_candidate P K kind)"
  fix s :: "'w rotatable" assume s: "untouched keys d s \<and> rt_backed s"
  have "runs (\<lambda>s. untouched keys d s \<and> waiting \<noteq> None)
      (if waiting \<noteq> None then stops Rotation_Unfinished else find_candidate P K kind) (\<lambda>_ _. False) (\<lambda>_. untouched keys d)" for waiting
    by (cases waiting) (auto simp: runs_def stops_def)
  then have "runs (untouched keys d) ?m (\<lambda>_ _. False) (\<lambda>_. untouched keys d)"
    by (rule runs_and_then [OF runs_load_waiting [where d = d, OF assms]])
  from runs_on_error [OF this, of release]
  have "runs (untouched keys d) (\<lambda>s. case ?m s of (Inr c, s') \<Rightarrow> (Inr c, s') | (Inl e, s') \<Rightarrow> (Inl e, release s'))
      (\<lambda>_ _. False) (\<lambda>_. untouched keys d)" by (simp add: release_def rot_phase_def)
  from runs_and_then [OF runs_acquire this, unfolded runs_def, rule_format, of s]
  show "case begin_rotation P K kind s of (Inl e, s') \<Rightarrow> untouched keys d s' | (Inr x, s') \<Rightarrow> False"
    using s by (simp add: begin_rotation_def)
qed

lemma runs_commit_waiting:
  fixes K :: "'w key_os"
  assumes "d Old = Some f" "from_private_key P (fl_bytes f) = Inr k" "kp_public k \<noteq> kp_public keys"
  shows "runs (untouched keys d) (commit P K c) (\<lambda>_ _. False) (\<lambda>_. untouched keys d)"
proof -
  let ?U = "untouched keys d :: 'w rotatable \<Rightarrow> bool"
  have holds_not: "\<not> holds P (kp_public keys) (d Old)" using assms by (simp add: holds_def)
  have held: "runs ?U (if found then file_holds_key P K Old (kp_public keys) else done_with True)
      (\<lambda>free s. ?U s \<and> (found \<longrightarrow> \<not> free)) (\<lambda>_. ?U)" for found
  proof (cases found)
    case True
    have "runs ?U (file_holds_key P K Old (kp_public keys)) (\<lambda>free s. ?U s \<and> \<not> free) (\<lambda>_. ?U)"
    proof (rule runs_weaken [OF runs_file_holds_key])
      fix free and s :: "'w rotatable" assume "rot_phase (\<lambda>_. False) keys (\<lambda>d'. d' = d \<and> (free \<longrightarrow> holds P (kp_public keys) (d' Old))) s"
      then show "?U s \<and> \<not> free" using holds_not unfolding rot_phase_def by blast
    qed
    then show ?thesis using True by simp
  qed (simp add: runs_done)
  have from_keys: "runs ?U (commit_from P K c keys) (\<lambda>_ _. False) (\<lambda>_. ?U)" unfolding commit_from_def
  proof (rule runs_and_then [OF runs_exists [where d = d]])
    fix found
    have "runs (\<lambda>s. ?U s \<and> (True \<longrightarrow> \<not> free)) (if \<not> free then stops Retired_Waiting else switch_keys P K c keys)
        (\<lambda>_ _. False) (\<lambda>_. ?U)" for free
      by (cases free) (simp_all add: runs_def stops_def)
    then have refused: "runs ?U (and_then (if True then file_holds_key P K Old (kp_public keys) else done_with True)
        (\<lambda>free. if \<not> free then stops Retired_Waiting else switch_keys P K c keys)) (\<lambda>_ _. False) (\<lambda>_. ?U)"
      by (rule runs_and_then [OF held])
    show "runs (\<lambda>s. ?U s \<and> found) (and_then (if found then file_holds_key P K Old (kp_public keys) else done_with True)
        (\<lambda>free. if \<not> free then stops Retired_Waiting else switch_keys P K c keys)) (\<lambda>_ _. False) (\<lambda>_. ?U)"
    proof (cases found)
      case True
      then show ?thesis using refused by simp
    qed (simp add: runs_def)
  qed (simp add: assms(1))
  have "runs ?U (pair_from_file P K Next) (\<lambda>_. ?U) (\<lambda>_. ?U)" by (rule runs_look) simp_all
  moreover have "runs ?U (and_then get_keys (commit_from P K c)) (\<lambda>_ _. False) (\<lambda>_. ?U)"
  proof (rule runs_and_then [OF runs_get_keys])
    show "runs (\<lambda>s. ?U s \<and> k' = keys) (commit_from P K c k') (\<lambda>_ _. False) (\<lambda>_. ?U)" for k'
      using from_keys by (cases "k' = keys") (auto simp: runs_def)
  qed
  ultimately have "runs ?U (and_then (pair_from_file P K Next) (\<lambda>on_disk.
     if kp_public on_disk \<noteq> kp_public c then stops Candidate_Changed else and_then get_keys (commit_from P K c)))
     (\<lambda>_ _. False) (\<lambda>_. ?U)"
    by (elim runs_and_then) (intro runs_if runs_stops)
  then show ?thesis unfolding commit_def releasing_def runs_def
    by (auto simp: release_def rot_phase_def split: prod.splits sum.splits)
qed

text \<open>
  Why \<open>reads_keys\<close> is needed: a copy which can't be read just then is not seen to hold the key in
  use, and is removed, even when the live file does not hold that key.
\<close>

lemma finish_drops_unreadable_copy:
  assumes "rt_backed s" "\<not> rt_rotating s" "rt_files s Old \<noteq> None"
    and "\<And>f w. ko_read K f w = (Some e, w)" "\<And>x w. ko_remove K x w = (None, w)"
  shows "\<exists>s'. finish_rotation P K s = (Inr (), s') \<and> rt_files s' = (rt_files s)(Old := None)"
  using assms by (auto simp: finish_rotation_def acquire_def releasing_def release_def holds_key_in_use_def get_keys_def
      private_from_file_def read_text_def remove_file_if_exists_def remove_file_def key_call_def key_step_def stops_def
      shows_dir_def and_then_def catching_def done_with_def)

section \<open>A library and two pairs\<close>

text \<open>Base64 with two letters for a byte, and DER with one byte of header.\<close>

definition letters :: "bytes \<Rightarrow> string" where
  "letters b = concat (map (\<lambda>x. [char_of (97 + unat x div 16), char_of (97 + unat x mod 16)]) b)"

fun from_letters :: "string \<Rightarrow> bytes" where
  "from_letters (a # b # r) = word_of_nat (16 * (of_char a - 97) + (of_char b - 97)) # from_letters r"
| "from_letters _ = []"

definition small_pki :: "unit pki_lib" where
  "small_pki = \<lparr>pk_base64_encode = letters, pk_base64_decode = Some \<circ> from_letters,
     pk_pem_decode = Some \<circ> from_letters \<circ> filter is_ascii_lower,
     pk_spki_decode = (\<lambda>_. None), pk_spki_encode = Some,
     pk_pkcs8_decode = (\<lambda>d. Some (OID_X25519, d)), pk_pkcs8_encode = Some,
     pk_octet_decode = (\<lambda>d. Some (drop 1 d)), pk_octet_encode = (\<lambda>raw. Some (4 # raw)), pk_dh_public = id,
     nz_initiator = (\<lambda>_ _ _ _. None), nz_responder = (\<lambda>_ _ _. None), nz_write = (\<lambda>_. None),
     nz_read = (\<lambda>_ _. None), nz_remote_static = (\<lambda>_. None)\<rparr>"

lemma letter: "n < 16 \<Longrightarrow> of_char (char_of (97 + n :: nat)) = 97 + n"
  by simp

lemma letter_chars: "c \<in> set (letters b) \<Longrightarrow> is_ascii_lower c"
proof -
  assume "c \<in> set (letters b)"
  then obtain x where "c = char_of (97 + unat x div 16) \<or> c = char_of (97 + unat x mod 16)" "x \<in> set b"
    by (auto simp: letters_def)
  moreover have "unat (x :: 8 word) div 16 < 16" "unat x mod 16 < 16"
    using unat8_less [of x] by (simp_all add: div_less_iff_less_mult)
  ultimately show ?thesis using letter by (auto simp: is_ascii_lower_def)
qed

lemma from_letters_letters: "from_letters (letters b) = b"
proof (induction b)
  case (Cons x b)
  have "unat x div 16 < 16" "unat x mod 16 < 16" using unat8_less [of x] by (simp_all add: div_less_iff_less_mult)
  moreover have "16 * (unat x div 16) + unat x mod 16 = unat x" by simp
  ultimately show ?case using Cons by (simp add: letters_def letter)
qed (simp add: letters_def)

lemma pem_letters: "filter is_ascii_lower (butlast (encode_pem ''PRIVATE KEY'' (letters b))) = letters b"
proof -
  obtain w where w: "encode_pem ''PRIVATE KEY'' (letters b) = w @ [NEWLINE]" by (rule encode_pem_line)
  have nl: "\<not> is_ascii_lower NEWLINE" by (simp add: NEWLINE_def is_ascii_lower_def)
  have "filter is_ascii_lower (concat (map (\<lambda>line. line @ [NEWLINE]) ls)) = filter is_ascii_lower (concat ls)" for ls
    using nl by (induction ls) simp_all
  then have "filter is_ascii_lower (encode_pem ''PRIVATE KEY'' (letters b)) = filter is_ascii_lower (letters b)"
    using nl by (simp add: encode_pem_def concat_chunks is_ascii_lower_def)
  also have "\<dots> = letters b" using letter_chars by (simp add: filter_id_conv)
  finally show ?thesis using w nl by simp
qed

lemma small_laws: "pki_laws small_pki"
proof -
  have "is_graphic c \<and> c \<noteq> CHR ''-''" if "c \<in> set (letters b)" for c b
    using letter_chars [OF that] by (auto simp: is_ascii_lower_def is_graphic_def)
  moreover have "length (letters b) = 2 * length b" for b by (induction b) (simp_all add: letters_def)
  ultimately show ?thesis
    by (simp add: pki_laws_def small_pki_def from_letters_letters pem_letters)
qed

definition small_pair :: "8 word \<Rightarrow> key_pair" where
  "small_pair b = \<lparr>kp_private = letters (4 # replicate 32 b), kp_public = letters (replicate 32 b)\<rparr>"

lemma small_checks:
  assumes "b \<in> {7, 9}"
  shows "check_scalar (replicate 32 b) = Inr ()" "check_raw_public_key (replicate 32 b) = Inr ()"
proof -
  show "check_scalar (replicate 32 b) = Inr ()"
    unfolding check_scalar_def Let_def fold_or_zero using assms by (auto simp: or_eq_0_iff)
  show "check_raw_public_key (replicate 32 b) = Inr ()" by (rule repeated_public_key [OF assms])
qed

lemma small_generated:
  assumes "b \<in> {7, 9}"
  shows "private_from_raw_bytes small_pki (replicate 32 b) = Inr (kp_private (small_pair b))"
    and "public_from_raw_bytes small_pki (replicate 32 b) = Inr (kp_public (small_pair b))"
  using small_checks [OF assms]
  by (simp_all add: private_from_raw_bytes_def public_from_raw_bytes_def padded_full ok_or_def res_bind_def small_pki_def small_pair_def)

lemma small_proper: "b \<in> {7, 9} \<Longrightarrow> proper small_pki (small_pair b)"
proof -
  assume b: "b \<in> {7, 9}"
  have st: "stored_as small_pki (replicate 32 b) (kp_private (small_pair b))"
    using small_checks [OF b] small_generated [OF b] by (simp add: stored_as_def)
  have "pk_dh_public small_pki = id" by (simp add: small_pki_def)
  then show ?thesis using text_read_back [OF small_laws st] small_generated [OF b] st
    by (auto simp: proper_def from_private_key_using_dh_def res_bind_def)
qed

definition small_os :: "(syscall \<times> io_kind) list \<Rightarrow> unit key_os" where
  "small_os failing = \<lparr>ko_write = demo_os failing, ko_read = \<lambda>_ w. (None, w), ko_stat = \<lambda>_ w. (None, w),
     ko_remove = \<lambda>_ w. (None, w), ko_generate = \<lambda>_ w. (Some (replicate 32 7, replicate 32 7), w)\<rparr>"

definition small_start :: "unit rotatable" where
  "small_start = \<lparr>rt_keys = small_pair 9, rt_backed = True, rt_rotating = False,
     rt_files = (\<lambda>_. None)(Live := Some (demo_file\<lparr>fl_bytes := private_as_pem (kp_private (small_pair 9))\<rparr>)),
     rt_shown = [], rt_world = ()\<rparr>"

lemma small_kept: "key_kept small_pki (small_pair 9) (rt_files small_start)"
  using pem_loads [OF small_laws small_proper [of 9]] by (simp add: key_kept_def holds_def small_start_def)

section \<open>Properties\<close>

text \<open>
  a key loaded in any form and written as a pem, as key files are, is loaded as the same pair
  again, so a key never changes by being written.
\<close>

theorem key_file_roundtrip:
  assumes "pki_laws P" "from_private_key P given = Inr keys"
  shows "from_private_key P (private_as_pem (kp_private keys)) = Inr keys"
  using pem_loads [OF assms(1) loaded_proper [OF assms(2)]] .

theorem key_file_roundtrip_witness:
  "from_private_key small_pki (private_as_pem (kp_private (small_pair 9))) = Inr (small_pair 9)"
proof (rule key_file_roundtrip [OF small_laws])
  show "from_private_key small_pki (private_as_pem (kp_private (small_pair 9))) = Inr (small_pair 9)"
    using pem_loads [OF small_laws small_proper [of 9]] by simp
qed

text \<open>
  C19: at every moment of a commit, so after a crash at any of them and whatever fails, the live file is
  there, the previous key is in it or put aside, and the candidate is in it or still beside it. A
  commit which returns has switched, with the previous key put aside; one which fails has not, and the
  key in use is still on disk.
\<close>

theorem commit_keeps_both_keys:
  assumes "pki_laws P" "proper P (rt_keys s)" "proper P candidate" "key_kept P (rt_keys s) (rt_files s)" "rt_shown s = []"
    and "commit P K candidate s = (r, s')"
  shows "(\<forall>d \<in> set (rt_shown s'). d Live \<noteq> None \<and>
      (holds P (kp_public (rt_keys s)) (d Live) \<or> holds P (kp_public (rt_keys s)) (d Old)) \<and>
      (holds P (kp_public candidate) (d Live) \<or> holds P (kp_public candidate) (d Next))) \<and>
    (case r of
       Inr _ \<Rightarrow> rt_keys s' = candidate \<and> holds P (kp_public candidate) (rt_files s' Live) \<and>
         holds P (kp_public (rt_keys s)) (rt_files s' Old)
     | Inl _ \<Rightarrow> rt_keys s' = rt_keys s \<and> key_kept P (rt_keys s) (rt_files s'))"
proof -
  let ?p = "rt_keys s"
  have start: "rt_keys s = ?p \<and> rt_shown s = [] \<and> key_kept P ?p (rt_files s)" using assms(4,5) by simp
  have "case r of Inr _ \<Rightarrow> committed P ?p candidate s' | Inl _ \<Rightarrow> not_committed P ?p candidate s'"
    using runs_Inr [OF runs_commit [OF assms(1-3)] start] runs_Inl [OF runs_commit [OF assms(1-3)] start] assms(6)
    by (auto split: sum.split)
  then show ?thesis using has_pem_holds [OF assms(1,2)] by (auto simp: rot_phase_def two_keys_def split: sum.splits)
qed

text \<open>The candidate beside the live file, and its commit run to its end.\<close>

definition small_begun :: "unit rotatable" where
  "small_begun = small_start\<lparr>rt_rotating := True, rt_files := (rt_files small_start)
     (Next := Some (demo_file\<lparr>fl_bytes := private_as_pem (kp_private (small_pair 7))\<rparr>))\<rparr>"

lemma small_candidate: "pair_from_file small_pki (small_os failing) Next small_begun = (Inr (small_pair 7), small_begun)"
proof -
  have "from_private_key small_pki (private_as_pem (kp_private (small_pair 7))) = Inr (small_pair 7)"
    using pem_loads [OF small_laws small_proper [of 7]] by simp
  then show ?thesis
    by (auto simp: from_private_key_def res_bind_Inr_iff pair_from_file_def private_from_file_def read_text_def key_call_def
        key_step_def checked_def and_then_def done_with_def small_begun_def small_os_def)
qed

lemma small_writes:
  "\<exists>e. write_file (demo_os []) c \<lparr>dk_file = None, dk_temp = None, dk_seen = [], dk_world = ()\<rparr> =
     (Inr (), \<lparr>dk_file = Some e, dk_temp = None, dk_seen = [Some e], dk_world = ()\<rparr>)"
  "\<exists>e. write_file (demo_os []) c \<lparr>dk_file = Some (demo_file\<lparr>fl_bytes := b\<rparr>), dk_temp = None, dk_seen = [], dk_world = ()\<rparr> =
     (Inr (), \<lparr>dk_file = Some e, dk_temp = None, dk_seen = [Some e], dk_world = ()\<rparr>)"
  by (simp_all add: evaluate)

lemma small_commits:
  "\<exists>s'. commit small_pki (small_os []) (small_pair 7) small_begun = (Inr (), s') \<and> length (rt_shown s') = 4"
proof -
  let ?c = "\<lambda>b. private_as_pem (kp_private (small_pair b))"
  obtain old where old: "write_file (demo_os []) (?c 9) \<lparr>dk_file = None, dk_temp = None, dk_seen = [], dk_world = ()\<rparr> =
     (Inr (), \<lparr>dk_file = Some old, dk_temp = None, dk_seen = [Some old], dk_world = ()\<rparr>)"
    using small_writes(1) by blast
  obtain live where live: "write_file (demo_os []) (?c 7) \<lparr>dk_file = Some (demo_file\<lparr>fl_bytes := ?c 9\<rparr>), dk_temp = None, dk_seen = [], dk_world = ()\<rparr> =
     (Inr (), \<lparr>dk_file = Some live, dk_temp = None, dk_seen = [Some live], dk_world = ()\<rparr>)"
    using small_writes(2) by blast
  obtain pub where pub: "write_file (demo_os []) (public_as_pem (kp_public (small_pair 7))) \<lparr>dk_file = None, dk_temp = None, dk_seen = [], dk_world = ()\<rparr> =
     (Inr (), \<lparr>dk_file = Some pub, dk_temp = None, dk_seen = [Some pub], dk_world = ()\<rparr>)"
    using small_writes(1) by blast
  have fields: "rt_files small_begun Old = None" "rt_files small_begun Live = Some (demo_file\<lparr>fl_bytes := ?c 9\<rparr>)"
    "rt_files small_begun Pub = None" "rt_files small_begun Next \<noteq> None" "rt_keys small_begun = small_pair 9" "rt_world small_begun = ()" "rt_shown small_begun = []"
    by (simp_all add: small_begun_def small_start_def)
  have os: "ko_write (small_os []) = demo_os []" "ko_stat (small_os []) x () = (None, ())" "ko_remove (small_os []) x () = (None, ())" for x
    by (simp_all add: small_os_def)
  have syncs: "os_fail (demo_os []) Sync_Dir () = (None, ())" by (simp add: demo_os_def)
  show ?thesis
    unfolding commit_def releasing_def and_then_step [where m = "pair_from_file small_pki (small_os []) Next", OF small_candidate]
    by (simp add: get_keys_def and_then_def commit_from_def try_exists_def key_call_def key_step_def fields os done_with_def
        switch_keys_def write_private_def write_slot_def old live pub switch_live_def catching_def store_keys_def clean_up_def
        sync_parent_dir_def best_effort_def remove_file_if_exists_def remove_file_def shows_dir_def write_public_def syncs release_def split: option.splits)
qed

theorem commit_keeps_both_keys_witness:
  "\<exists>s'. commit small_pki (small_os []) (small_pair 7) small_begun = (Inr (), s') \<and> length (rt_shown s') = 4 \<and>
     list_all (\<lambda>d. (holds small_pki (kp_public (small_pair 9)) (d Live) \<or> holds small_pki (kp_public (small_pair 9)) (d Old)) \<and>
       (holds small_pki (kp_public (small_pair 7)) (d Live) \<or> holds small_pki (kp_public (small_pair 7)) (d Next))) (rt_shown s') \<and>
     rt_keys s' = small_pair 7 \<and> holds small_pki (kp_public (small_pair 7)) (rt_files s' Live)"
proof -
  obtain s' where run: "commit small_pki (small_os []) (small_pair 7) small_begun = (Inr (), s')" and moments: "length (rt_shown s') = 4"
    using small_commits by blast
  have start: "proper small_pki (rt_keys small_begun)" "proper small_pki (small_pair 7)"
    "key_kept small_pki (rt_keys small_begun) (rt_files small_begun)" "rt_shown small_begun = []"
    using small_proper [of 7] small_proper [of 9] small_kept by (simp_all add: small_begun_def small_start_def key_kept_def)
  from commit_keeps_both_keys [OF small_laws start run] run moments show ?thesis
    by (simp add: list_all_iff) (simp add: small_begun_def small_start_def)
qed

text \<open>
  C20: as long as the file of a key can be read whenever it is there, after any sequence of rotations
  begun, refused, committed, aborted, dropped and finished, whatever else fails on the way (writes,
  renames, removals, checks whether a file exists, the generation of a pair), and of crashes at any
  moment followed by a start from the file, the live file is there and the key in use is on disk, in
  the live file or put aside. A copy which can't be read just then is not seen to hold the key in use,
  and finishing the rotation removes it (\<open>finish_drops_unreadable_copy\<close>).
\<close>

theorem key_in_use_on_disk:
  assumes "pki_laws P" "generates_pairs P K" "reads_keys K"
    and "proper P (rt_keys s)" "rt_shown s = []" "holds P (kp_public (rt_keys s)) (rt_files s Live)"
    and "(rot_step P K kind)\<^sup>*\<^sup>* (s, None) (s', ro)"
  shows "rt_files s' Live \<noteq> None \<and>
    (holds P (kp_public (rt_keys s')) (rt_files s' Live) \<or> holds P (kp_public (rt_keys s')) (rt_files s' Old))"
proof -
  have "rot_ok P (s, None)" using assms(4-6) holds_present by (auto simp: rot_ok_def rot_phase_def key_kept_def)
  with assms(7) have "rot_ok P (s', ro)"
    by (induction rule: rtranclp_induct) (auto intro: rot_step_ok [OF assms(1-3)])
  then show ?thesis using has_pem_holds [OF assms(1)] by (auto simp: rot_ok_def rot_phase_def key_kept_def)
qed

text \<open>
  while a retired key waits to be revoked, no rotation begins and none is committed, and neither
  attempt changes a file or the key in use.
\<close>

theorem retired_key_waits:
  assumes "rt_files s Old = Some f" "from_private_key P (fl_bytes f) = Inr k" "kp_public k \<noteq> kp_public (rt_keys s)"
    and "rt_backed s" "rt_shown s = []"
  shows "(\<exists>e s'. begin_rotation P K kind s = (Inl e, s') \<and> rt_shown s' = [] \<and> rt_files s' = rt_files s \<and> rt_keys s' = rt_keys s) \<and>
    (\<exists>e s'. commit P K c s = (Inl e, s') \<and> rt_shown s' = [] \<and> rt_files s' = rt_files s \<and> rt_keys s' = rt_keys s)"
proof -
  have start: "untouched (rt_keys s) (rt_files s) s" using assms(5) by (simp add: rot_phase_def)
  have "\<exists>e s'. begin_rotation P K kind s = (Inl e, s') \<and> untouched (rt_keys s) (rt_files s) s'"
    using runs_never [OF runs_begin_waiting [where d = "rt_files s", OF assms(1-3)]] start assms(4) by blast
  moreover have "\<exists>e s'. commit P K c s = (Inl e, s') \<and> untouched (rt_keys s) (rt_files s) s'"
    using runs_never [OF runs_commit_waiting [where d = "rt_files s", OF assms(1-3)]] start by blast
  ultimately show ?thesis by (auto simp: rot_phase_def)
qed

definition small_waiting :: "unit rotatable" where
  "small_waiting = small_start\<lparr>rt_files := (rt_files small_start)
     (Old := Some (demo_file\<lparr>fl_bytes := private_as_pem (kp_private (small_pair 7))\<rparr>))\<rparr>"

theorem retired_key_waits_witness:
  "\<exists>e s'. begin_rotation small_pki (small_os []) Mutual small_waiting = (Inl e, s') \<and> rt_keys s' = small_pair 9"
proof -
  have "from_letters (letters (replicate 32 7)) \<noteq> from_letters (letters (replicate 32 9))"
    by (simp add: from_letters_letters numeral_eq_Suc)
  then have other: "kp_public (small_pair 7) \<noteq> kp_public (rt_keys small_waiting)"
    by (auto simp: small_pair_def small_waiting_def small_start_def)
  have old: "rt_files small_waiting Old = Some (demo_file\<lparr>fl_bytes := private_as_pem (kp_private (small_pair 7))\<rparr>)"
    by (simp add: small_waiting_def)
  have loads: "from_private_key small_pki (fl_bytes (demo_file\<lparr>fl_bytes := private_as_pem (kp_private (small_pair 7))\<rparr>)) = Inr (small_pair 7)"
    using pem_loads [OF small_laws small_proper [of 7]] by simp
  have rest: "rt_backed small_waiting" "rt_shown small_waiting = []" "rt_keys small_waiting = small_pair 9"
    by (simp_all add: small_waiting_def small_start_def)
  from retired_key_waits [where K = "small_os []" and kind = Mutual and c = "small_pair 9", OF old loads other rest(1,2)] rest(3) show ?thesis by auto
qed

text \<open>A rotation begun, its commit failing.\<close>

lemma small_begin: "\<exists>s'. begin_rotation small_pki (small_os []) Mutual small_start = (Inr (small_pair 7), s')"
proof -
  obtain d where d: "write_file (demo_os []) (private_as_pem (kp_private (small_pair 7))) \<lparr>dk_file = None, dk_temp = None, dk_seen = [], dk_world = ()\<rparr> = (Inr (), d)"
    by (simp add: evaluate)
  show ?thesis
    by (simp add: begin_rotation_def acquire_def load_retired_def try_exists_def key_call_def key_step_def find_candidate_def
        write_candidate_def generate_pair_def small_os_def small_start_def checked_def done_with_def and_then_def
        small_generated [of 7] write_private_def write_slot_def d)
qed

theorem key_in_use_on_disk_witness:
  "\<exists>s1 s2. begin_rotation small_pki (small_os []) Mutual small_start = (Inr (small_pair 7), s1) \<and>
    s2 = snd (commit small_pki (small_os []) (small_pair 7) (from_now s1)) \<and>
    (holds small_pki (kp_public (rt_keys s2)) (rt_files s2 Live) \<or> holds small_pki (kp_public (rt_keys s2)) (rt_files s2 Old))"
proof -
  obtain s1 where s1: "begin_rotation small_pki (small_os []) Mutual small_start = (Inr (small_pair 7), s1)" using small_begin by blast
  let ?run = "commit small_pki (small_os []) (small_pair 7) (from_now s1)"
  have "from_now small_start = small_start" by (simp add: from_now_def small_start_def)
  then have started: "rot_step small_pki (small_os []) Mutual (small_start, None) (s1, Some (small_pair 7))"
    using Begin [where s = small_start] s1 by metis
  have ended: "rot_step small_pki (small_os []) Mutual (s1, Some (small_pair 7)) (snd ?run, None)"
    by (rule Commit [where r = "fst ?run"]) simp
  have laws: "generates_pairs small_pki (small_os [])" "reads_keys (small_os [])"
    by (simp_all add: generates_pairs_def reads_keys_def small_os_def small_pki_def)
  have start: "proper small_pki (rt_keys small_start)" "rt_shown small_start = []"
    "holds small_pki (kp_public (rt_keys small_start)) (rt_files small_start Live)"
    using small_proper [of 9] pem_loads [OF small_laws small_proper [of 9]] by (simp_all add: small_start_def holds_def)
  from started ended have "(rot_step small_pki (small_os []) Mutual)\<^sup>*\<^sup>* (small_start, None) (snd ?run, None)"
    by (meson converse_rtranclp_into_rtranclp r_into_rtranclp)
  from key_in_use_on_disk [OF small_laws laws start this] s1 show ?thesis by blast
qed

end
