(* ===== verification/RequestAuth.thy ===== *)
theory RequestAuth
  imports TokenVerify Pki RateLimit Errors
begin

text \<open>
  How a request is authenticated, \<^verbatim>\<open>auth/server/src/middleware.rs\<close>, \<open>lib.rs\<close> and
  \<^verbatim>\<open>auth/client/rs/src/signature.rs\<close>: the credential of its headers (a jwt, an api key, or
  a signature over the request), the user behind it, and the failures counted against the client's
  address. The app (\<open>AuthImpl\<close>), the body as axum reads it, \<^verbatim>\<open>bcrypt\<close> and
  \<^verbatim>\<open>sha2\<close> are the parameter \<open>mw_env\<close>; the state of the request is the world they act on
  and the entry of the client in the failure rate limiter.
\<close>

section \<open>What a signature covers\<close>

definition ascii_upper :: "char \<Rightarrow> char" where
  "ascii_upper c = (if is_ascii_lower c then char_of (byte c - 32) else c)"

definition to_ascii_uppercase :: "string \<Rightarrow> string" where
  "to_ascii_uppercase = map ascii_upper"

definition show_int :: "int \<Rightarrow> string" where
  "show_int n = (if n < 0 then CHR ''-'' # show_nat (nat (- n)) else show_nat (nat n))"

definition hex_digit :: "nat \<Rightarrow> char" where
  "hex_digit n = (if n < 10 then char_of (48 + n) else char_of (87 + n))"

definition body_sha256 :: "(string \<Rightarrow> bytes) \<Rightarrow> string \<Rightarrow> string" where
  "body_sha256 sha256 body = concat (map (\<lambda>b. [hex_digit (unat b div 16), hex_digit (unat b mod 16)]) (sha256 body))"

definition signature_prologue :: "(string \<Rightarrow> bytes) \<Rightarrow> string \<Rightarrow> string \<Rightarrow> int \<Rightarrow> string \<Rightarrow> string" where
  "signature_prologue sha256 meth path_and_query timestamp body =
     to_ascii_uppercase meth @ ''|'' @ path_and_query @ ''|'' @ show_int timestamp @ ''|'' @ body_sha256 sha256 body"

definition sign_request ::
  "'o pki_lib \<Rightarrow> (string \<Rightarrow> bytes) \<Rightarrow> string \<Rightarrow> string \<Rightarrow> string \<Rightarrow> string \<Rightarrow> int \<Rightarrow> string \<Rightarrow> pki_error + string" where
  "sign_request K sha256 private_key server_public_key meth path_and_query timestamp body =
     res_bind (maybe_raw_bytes K private_key) (\<lambda>private.
     res_bind (maybe_pem_to_raw_bytes K server_public_key) (\<lambda>server.
     res_bind (one_way_initiator K private server (bytes_of (signature_prologue sha256 meth path_and_query timestamp body)))
       (generate_signature K)))"

definition signed_request_headers ::
  "'o pki_lib \<Rightarrow> (string \<Rightarrow> bytes) \<Rightarrow> int \<Rightarrow> string \<Rightarrow> string \<Rightarrow> string \<Rightarrow> string \<Rightarrow> string \<Rightarrow> pki_error + (string \<times> string) list" where
  "signed_request_headers K sha256 now private_key server_public_key meth path_and_query body =
     res_bind (sign_request K sha256 private_key server_public_key meth path_and_query now body) (\<lambda>signature.
     Inr [(''x-api-signature'', signature), (''x-api-timestamp'', show_int now)])"

section \<open>Requests and the app\<close>

record 'o request =
  rq_method :: string
  rq_path :: string                          \<comment> \<open>as the router sees it\<close>
  rq_path_and_query :: "string option"    \<comment> \<open>of the original uri\<close>
  rq_headers :: header_map
  rq_body :: 'o

datatype request_authentication =
    Auth_Jwt string | Auth_Api_Key string string | Auth_Public_Key string

record api_key =
  ak_user_id :: user_id
  ak_cidr_whitelist :: "string list"

record ('w, 'o) mw_env =
  mw_auth :: "('w, 'o) auth_env"
  mw_pki :: "'o pki_lib"
  mw_sha256 :: "string \<Rightarrow> bytes"
  mw_to_str :: "string \<Rightarrow> string option"
  mw_server_keys :: "string option"        \<comment> \<open>the server's private key\<close>
  mw_tolerance_ms :: nat
  mw_body_limit :: nat
  mw_limiter :: rate_limiter
  mw_unix_millis :: "'w \<Rightarrow> int"
  mw_read_body :: "nat option \<Rightarrow> 'o \<Rightarrow> ('w, string) callback"
  mw_body_of :: "string \<Rightarrow> 'o"
  mw_get_api_key :: "string \<Rightarrow> string \<Rightarrow> ('w, api_key) callback"
  mw_get_signing_key :: "string \<Rightarrow> ('w, api_key) callback"

record 'w mw_state =
  ms_world :: 'w
  ms_attempts :: "attempts option"
  ms_failures :: nat                     \<comment> \<open>history: the failures counted\<close>

type_synonym ('w, 'a) mw = "'w mw_state \<Rightarrow> (failure + 'a) \<times> 'w mw_state"

definition rejected :: "status \<Rightarrow> string \<Rightarrow> ('w, 'a) mw" where
  "rejected st msg s = (Inl (Failure st (Some msg)), s)"

definition app :: "('w, 'a) callback \<Rightarrow> ('w, 'a) mw" where
  "app f s = (case f (ms_world s) of (r, w) \<Rightarrow> (r, s\<lparr>ms_world := w\<rparr>))"

definition now_is :: "('w \<Rightarrow> 'a) \<Rightarrow> ('w, 'a) mw" where
  "now_is f s = (Inr (f (ms_world s)), s)"

text \<open>
  \<open>with_failure_rate_limit_using_ip\<close> with the general limiter, for the address of the request. A failure keeps its
  status; its message, which gets a note of the attempts left, is not followed.
\<close>

definition count_failure :: "('w, 'o) mw_env \<Rightarrow> 'w mw_state \<Rightarrow> 'w mw_state" where
  "count_failure M s =
     (let a = (case ms_attempts s of None \<Rightarrow> no_attempts | Some a \<Rightarrow> a) in
      s\<lparr>ms_attempts := Some (snd (record_failure (mw_limiter M) (ae_instant (mw_auth M) (ms_world s)) a)),
        ms_failures := Suc (ms_failures s)\<rparr>)"

definition with_rate_limit :: "('w, 'o) mw_env \<Rightarrow> ('w, 'a) mw \<Rightarrow> ('w, 'a) mw" where
  "with_rate_limit M m s =
     (if rl_disabled (mw_limiter M) then m s
      else case check (mw_limiter M) (ae_instant (mw_auth M) (ms_world s)) (ms_attempts s) of
        Inl _ \<Rightarrow> (Inl (Failure TOO_MANY_REQUESTS None), s)
      | Inr entry \<Rightarrow> (case m (s\<lparr>ms_attempts := entry\<rparr>) of
            (Inr x, s') \<Rightarrow> (Inr x, s')
          | (Inl e, s') \<Rightarrow> (Inl (Failure (failure_status e) None), count_failure M s')))"

section \<open>The headers\<close>

definition first_value :: "header_map \<Rightarrow> string \<Rightarrow> string option" where
  "first_value headers name = (case headers name of [] \<Rightarrow> None | v # _ \<Rightarrow> Some v)"

definition text_of :: "('w, 'o) mw_env \<Rightarrow> string \<Rightarrow> string \<Rightarrow> failure + string" where
  "text_of M msg v = ok_or (Failure UNAUTHORIZED (Some msg)) (mw_to_str M v)"

definition split_at_ws :: "string \<Rightarrow> (string \<times> string) option" where
  "split_at_ws s = (case dropWhile (\<lambda>c. \<not> is_ascii_ws c) s of
     [] \<Rightarrow> None | _ # r \<Rightarrow> Some (takeWhile (\<lambda>c. \<not> is_ascii_ws c) s, r))"

definition extract_request_jwt :: "('w, 'o) mw_env \<Rightarrow> header_map \<Rightarrow> failure + string option" where
  "extract_request_jwt M headers = (case first_value headers ''authorization'' of
     None \<Rightarrow> Inr None
   | Some authorization \<Rightarrow>
       res_bind (text_of M ''AUTHORIZATION is not valid UTF-8'' authorization) (\<lambda>value.
       let maybe_bearer = trim value in
       Inr (Some (case split_at_ws maybe_bearer of
         Some (scheme, jwt) \<Rightarrow> if eq_ignore_ascii_case scheme ''bearer'' then trim_start jwt else maybe_bearer
       | None \<Rightarrow> maybe_bearer))))"

definition extract_request_api_key :: "('w, 'o) mw_env \<Rightarrow> header_map \<Rightarrow> failure + (string \<times> string) option" where
  "extract_request_api_key M headers = (case first_value headers ''x-api-key'' of
     None \<Rightarrow> Inr None
   | Some key \<Rightarrow>
       res_bind (text_of M ''X-API-KEY is not valid UTF-8'' key) (\<lambda>key.
       res_bind (ok_or (Failure UNAUTHORIZED (Some ''Request headers have X-API-KEY but missing X-API-SECRET''))
         (first_value headers ''x-api-secret'')) (\<lambda>secret.
       res_bind (text_of M ''X-API-SECRET is not valid UTF-8'' secret) (\<lambda>secret.
       Inr (Some (trim key, trim secret))))))"

text \<open>\<open>str::parse::<i64>\<close>.\<close>

definition parse_i64 :: "string \<Rightarrow> int option" where
  "parse_i64 s = (let (negative, digits) = (case s of
       [] \<Rightarrow> (False, [])
     | c # r \<Rightarrow> if c = CHR ''-'' then (True, r) else if c = CHR ''+'' then (False, r) else (False, s)) in
     if digits = [] then None
     else case digits_value 0 digits of
       None \<Rightarrow> None
     | Some n \<Rightarrow> (let v = (if negative then - int n else int n) in if i64_min \<le> v \<and> v \<le> i64_max then Some v else None))"

definition check_request_timestamp :: "('w, 'o) mw_env \<Rightarrow> header_map \<Rightarrow> int \<Rightarrow> failure + int" where
  "check_request_timestamp M headers now =
     res_bind (ok_or (Failure UNAUTHORIZED (Some ''Request headers have X-API-SIGNATURE but missing X-API-TIMESTAMP''))
       (first_value headers ''x-api-timestamp'')) (\<lambda>v.
     res_bind (text_of M ''X-API-TIMESTAMP is not valid UTF-8'' v) (\<lambda>value.
     res_bind (ok_or (Failure UNAUTHORIZED (Some ''X-API-TIMESTAMP is not a unix timestamp in milliseconds''))
       (parse_i64 (trim value))) (\<lambda>timestamp.
     if min (int (mw_tolerance_ms M)) i64_max < i64_clamp \<bar>i64_clamp (now - timestamp)\<bar>
     then Inl (Failure UNAUTHORIZED (Some ''Invalid client credentials''))
     else Inr timestamp)))"

definition server_keys :: "('w, 'o) mw_env \<Rightarrow> failure + string" where
  "server_keys M = ok_or (Failure UNAUTHORIZED (Some ''Signing keys are not enabled'')) (mw_server_keys M)"

definition check_signed_request :: "('w, 'o) mw_env \<Rightarrow> header_map \<Rightarrow> ('w, string \<times> int) mw" where
  "check_signed_request M headers =
     and_then (from_result (server_keys M)) (\<lambda>keys.
     and_then (now_is (mw_unix_millis M)) (\<lambda>now.
     and_then (from_result (check_request_timestamp M headers now)) (\<lambda>timestamp. done_with (keys, timestamp))))"

section \<open>The signature\<close>

definition request_prologue :: "('w, 'o) mw_env \<Rightarrow> 'o request \<Rightarrow> int \<Rightarrow> string \<Rightarrow> string" where
  "request_prologue M rq timestamp body = signature_prologue (mw_sha256 M) (rq_method rq)
     (case rq_path_and_query rq of Some p \<Rightarrow> p | None \<Rightarrow> ''/'') timestamp body"

text \<open>The key of the client a signature shows, over the prologue and with the server's private key.\<close>

definition signature_key :: "('w, 'o) mw_env \<Rightarrow> string \<Rightarrow> string \<Rightarrow> string \<Rightarrow> failure + string" where
  "signature_key M keys prologue signature =
     res_bind (map_sum (\<lambda>_. Failure INTERNAL_SERVER_ERROR (Some ''Failed to verify the request signature'')) id
       (res_bind (maybe_raw_bytes (mw_pki M) keys) (\<lambda>private. one_way_responder (mw_pki M) private (bytes_of prologue)))) (\<lambda>handshake.
     map_sum (\<lambda>_. Failure UNAUTHORIZED (Some ''Invalid client credentials'')) id
       (validate_signature (mw_pki M) handshake signature))"

definition verify_request_signature :: "('w, 'o) mw_env \<Rightarrow> 'o request \<Rightarrow> string \<Rightarrow> int option \<Rightarrow> ('w, string option) mw" where
  "verify_request_signature M rq body checked_at = (case first_value (rq_headers rq) ''x-api-signature'' of
     None \<Rightarrow> done_with None
   | Some v \<Rightarrow>
       and_then (from_result (text_of M ''X-API-SIGNATURE is not valid UTF-8'' v)) (\<lambda>signature.
       and_then (case checked_at of
           Some timestamp \<Rightarrow> and_then (from_result (server_keys M)) (\<lambda>keys. done_with (keys, timestamp))
         | None \<Rightarrow> check_signed_request M (rq_headers rq)) (\<lambda>(keys, timestamp).
       and_then (from_result (signature_key M keys (request_prologue M rq timestamp body) signature)) (\<lambda>public_key.
       done_with (Some public_key)))))"

definition extract_request_public_key :: "('w, 'o) mw_env \<Rightarrow> 'o request \<Rightarrow> string \<Rightarrow> ('w, string option) mw" where
  "extract_request_public_key M rq body = verify_request_signature M rq body None"

section \<open>The body\<close>

record signed_body =
  sb_body :: string
  sb_timestamp :: "int option"

definition read_request_body :: "('w, 'o) mw_env \<Rightarrow> nat option \<Rightarrow> 'o request \<Rightarrow> ('w, 'o request \<times> string) mw" where
  "read_request_body M limit rq =
     and_then (app (mw_read_body M limit (rq_body rq))) (\<lambda>body.
     done_with (rq\<lparr>rq_body := mw_body_of M body\<rparr>, body))"

definition has_header :: "header_map \<Rightarrow> string \<Rightarrow> bool" where
  "has_header headers name \<longleftrightarrow> headers name \<noteq> []"

definition read_signed_request_body :: "('w, 'o) mw_env \<Rightarrow> 'o request \<Rightarrow> ('w, 'o request \<times> signed_body) mw" where
  "read_signed_request_body M rq =
     (if \<not> has_header (rq_headers rq) ''x-api-signature'' \<or> has_header (rq_headers rq) ''authorization''
         \<or> has_header (rq_headers rq) ''x-api-key''
      then done_with (rq, \<lparr>sb_body = [], sb_timestamp = None\<rparr>)
      else and_then (check_signed_request M (rq_headers rq)) (\<lambda>(_, timestamp).
        if rq_method rq = ''CONNECT'' then done_with (rq, \<lparr>sb_body = [], sb_timestamp = Some timestamp\<rparr>)
        else and_then (with_rate_limit M (done_with ())) (\<lambda>_.
          and_then (read_request_body M (Some (mw_body_limit M)) rq) (\<lambda>(rq, body).
          done_with (rq, \<lparr>sb_body = body, sb_timestamp = Some timestamp\<rparr>)))))"

section \<open>The credential\<close>

definition extract_request_authentication ::
  "('w, 'o) mw_env \<Rightarrow> 'o request \<Rightarrow> signed_body \<Rightarrow> ('w, request_authentication option) mw" where
  "extract_request_authentication M rq body =
     and_then (from_result (extract_request_jwt M (rq_headers rq))) (\<lambda>jwt.
     case jwt of Some jwt \<Rightarrow> done_with (Some (Auth_Jwt jwt))
     | None \<Rightarrow> and_then (from_result (extract_request_api_key M (rq_headers rq))) (\<lambda>api_key.
     case api_key of Some (key, secret) \<Rightarrow> done_with (Some (Auth_Api_Key key secret))
     | None \<Rightarrow> and_then (verify_request_signature M rq (sb_body body) (sb_timestamp body)) (\<lambda>public_key.
       done_with (map_option Auth_Public_Key public_key))))"

definition extract_request_authentication_rate_limited ::
  "('w, 'o) mw_env \<Rightarrow> 'o request \<Rightarrow> signed_body \<Rightarrow> ('w, request_authentication) mw" where
  "extract_request_authentication_rate_limited M rq body =
     and_then (with_rate_limit M (extract_request_authentication M rq body)) (\<lambda>req_auth.
     case req_auth of None \<Rightarrow> rejected UNAUTHORIZED ''Invalid client credentials'' | Some a \<Rightarrow> done_with a)"

section \<open>The user\<close>

definition get_jwt_user_id :: "('w, 'o) mw_env \<Rightarrow> string \<Rightarrow> ('w, user_id) mw" where
  "get_jwt_user_id M jwt =
     and_then (now_is (ae_unix_secs (mw_auth M))) (\<lambda>now.
     from_result (ok_or (Failure UNAUTHORIZED None) (decode_sub (ae_lib (mw_auth M)) (ae_jwt (mw_auth M)) now jwt)))"

definition check_whitelist :: "('w, 'o) mw_env \<Rightarrow> ip_addr \<Rightarrow> string list \<Rightarrow> ('w, unit) mw" where
  "check_whitelist M ip whitelist =
     from_result (map_sum (\<lambda>st. Failure st None) id (check_cidr_whitelist (ae_net (mw_auth M)) ip whitelist))"

definition check_api_key_cidr_whitelist :: "('w, 'o) mw_env \<Rightarrow> api_key \<Rightarrow> ip_addr \<Rightarrow> ('w, unit) mw" where
  "check_api_key_cidr_whitelist M k ip = check_whitelist M ip (ak_cidr_whitelist k)"

definition get_user_id_from_request_authentication ::
  "('w, 'o) mw_env \<Rightarrow> request_authentication \<Rightarrow> ip_addr \<Rightarrow> ('w, user_id) mw" where
  "get_user_id_from_request_authentication M a ip =
     (let of_key = (\<lambda>load. and_then (app load) (\<lambda>k.
            and_then (check_api_key_cidr_whitelist M k ip) (\<lambda>_. done_with (ak_user_id k)))) in
      case a of
        Auth_Jwt jwt \<Rightarrow> get_jwt_user_id M jwt
      | Auth_Api_Key key secret \<Rightarrow> of_key (mw_get_api_key M key secret)
      | Auth_Public_Key public_key \<Rightarrow> of_key (mw_get_signing_key M public_key))"

definition get_user_from_request_authentication ::
  "('w, 'o) mw_env \<Rightarrow> request_authentication \<Rightarrow> ip_addr \<Rightarrow> ('w, 'o user) mw" where
  "get_user_from_request_authentication M a ip =
     and_then (get_user_id_from_request_authentication M a ip) (\<lambda>user_id.
     and_then (app (ae_get_user (mw_auth M) user_id)) (\<lambda>user.
     and_then (check_whitelist M ip (us_cidr_whitelist user)) (\<lambda>_. done_with user)))"

text \<open>For an app's \<open>get_api_key\<close>: an unknown key costs a hash as well.\<close>

definition verify_api_key_secret ::
  "('w, 'o) mw_env \<Rightarrow> string \<Rightarrow> string option \<Rightarrow> ('w, unit) mw" where
  "verify_api_key_secret M secret hashed_secret = (case hashed_secret of
     None \<Rightarrow> and_then (catching (and_then (app (ae_bcrypt_hash (mw_auth M) secret)) (\<lambda>_. done_with ())) (\<lambda>_. done_with ())) (\<lambda>_.
       rejected UNAUTHORIZED ''Invalid client credentials'')
   | Some hashed \<Rightarrow> (case ae_bcrypt_verify (mw_auth M) secret hashed of
       Inl _ \<Rightarrow> rejected UNAUTHORIZED ''Invalid client credentials''
     | Inr verified \<Rightarrow> if verified then done_with () else rejected UNAUTHORIZED ''Invalid client credentials''))"

text \<open>\<open>authenticate_request\<close> up to the app's \<open>handle_request_authentication\<close>, the parameter \<open>handle\<close>.\<close>

definition authenticate_request ::
  "('w, 'o) mw_env \<Rightarrow> (request_authentication \<Rightarrow> 'o request \<Rightarrow> ('w, 'o request) callback) \<Rightarrow> 'o request \<Rightarrow> ('w, 'o request) mw" where
  "authenticate_request M handle rq =
     and_then (read_signed_request_body M rq) (\<lambda>(rq, body).
     and_then (extract_request_authentication_rate_limited M rq body) (\<lambda>req_auth.
     with_rate_limit M (app (handle req_auth rq))))"

end
