(* ===== verification/RequestAuthProps.thy ===== *)
theory RequestAuthProps
  imports RequestAuth LoginDemo
begin

text \<open>
  What is proved of the authentication of requests: the bytes a signature covers determine the request, a
  request taken for signed was signed, as it is, and now; the requests a client signs are accepted;
  failures are counted, once, and anonymous requests are not; the user is one the credential stands for.
\<close>

section \<open>What a signature covers\<close>

lemma byte_of_digit: "n < 10 \<Longrightarrow> byte (char_of (48 + n :: nat)) = 48 + n"
  by simp

lemma show_nat_digits: "\<forall>c \<in> set (show_nat n). 48 \<le> byte c \<and> byte c \<le> 57"
  by (induction n rule: show_nat.induct) (subst show_nat.simps, auto simp: Ball_def)

lemma show_nat_nonempty: "show_nat n \<noteq> []"
  by (subst show_nat.simps) simp

definition value_of :: "string \<Rightarrow> nat" where
  "value_of = foldl (\<lambda>n c. 10 * n + (byte c - 48)) 0"

lemma value_of_show_nat: "value_of (show_nat n) = n"
  by (induction n rule: show_nat.induct) (subst show_nat.simps, auto simp: value_of_def)

lemma show_nat_inj: "show_nat m = show_nat n \<Longrightarrow> m = n"
  by (metis value_of_show_nat)

lemma show_nat_minus: "CHR ''-'' \<notin> set (show_nat n)" "show_nat n \<noteq> CHR ''-'' # s"
  using show_nat_digits [of n] by (auto simp: Ball_def)

lemma show_int_inj: "show_int m = show_int n \<Longrightarrow> m = n"
  using show_nat_minus(2) [of "nat m" "show_nat (nat (- n))"] show_nat_minus(2) [of "nat n" "show_nat (nat (- m))"]
    show_nat_inj [of "nat m" "nat n"] show_nat_inj [of "nat (- m)" "nat (- n)"]
  by (simp add: show_int_def split: if_splits)

lemma show_nat_bar: "CHR ''|'' \<notin> set (show_nat n)"
  using show_nat_digits [of n] by (auto simp: Ball_def)

lemma show_int_bar: "CHR ''|'' \<notin> set (show_int n)"
  by (simp add: show_int_def show_nat_bar)

lemma hex_digit_inj: "m < 16 \<Longrightarrow> n < 16 \<Longrightarrow> hex_digit m = hex_digit n \<Longrightarrow> m = n"
  by (auto simp: hex_digit_def split: if_splits dest!: arg_cong [where f = byte])

lemma hex_digit_bar: "n < 16 \<Longrightarrow> hex_digit n \<noteq> CHR ''|''"
  by (auto simp: hex_digit_def dest!: arg_cong [where f = byte])

lemma unat_byte_less: "unat (b :: 8 word) < 256"
  using unsigned_less [of b] by simp

lemma hex_inj: "concat (map (\<lambda>b :: 8 word. [hex_digit (unat b div 16), hex_digit (unat b mod 16)]) xs) =
    concat (map (\<lambda>b. [hex_digit (unat b div 16), hex_digit (unat b mod 16)]) ys) \<Longrightarrow> xs = ys"
proof (induction xs arbitrary: ys)
  case Nil
  then show ?case by (cases ys) auto
next
  case (Cons x xs)
  then obtain y ys' where ys: "ys = y # ys'" by (cases ys) auto
  have "unat x div 16 < 16" "unat y div 16 < 16" "unat x mod 16 < 16" "unat y mod 16 < 16"
    using unat_byte_less [of x] unat_byte_less [of y] by simp_all
  then have "unat x div 16 = unat y div 16" "unat x mod 16 = unat y mod 16"
    using Cons.prems hex_digit_inj [of "unat x div 16" "unat y div 16"] hex_digit_inj [of "unat x mod 16" "unat y mod 16"]
    by (simp_all add: ys)
  then have "unat x = unat y" by (metis div_mult_mod_eq)
  then have "x = y" by (simp add: unsigned_word_eqI)
  then show ?case using Cons by (simp add: ys)
qed

lemma body_sha256_inj: "body_sha256 sha b = body_sha256 sha b' \<Longrightarrow> sha b = sha b'"
  unfolding body_sha256_def by (rule hex_inj)

lemma body_sha256_bar: "CHR ''|'' \<notin> set (body_sha256 sha b)"
proof
  assume "CHR ''|'' \<in> set (body_sha256 sha b)"
  then obtain x where "x \<in> set (sha b)" "CHR ''|'' = hex_digit (unat x div 16) \<or> CHR ''|'' = hex_digit (unat x mod 16)"
    by (auto simp: body_sha256_def)
  moreover have "unat x div 16 < 16" using unat_byte_less [of x] by simp
  ultimately show False using hex_digit_bar by (metis mod_less_divisor zero_less_numeral)
qed

lemma last_bar: 
  assumes "a @ ''|'' @ x = b @ ''|'' @ y" "CHR ''|'' \<notin> set x" "CHR ''|'' \<notin> set y"
  shows "a = b \<and> x = y"
proof -
  have "rev x @ CHR ''|'' # rev a = rev y @ CHR ''|'' # rev b" using arg_cong [OF assms(1), of rev] by simp
  then have "takeWhile (\<lambda>c. c \<noteq> CHR ''|'') (rev x @ CHR ''|'' # rev a) = takeWhile (\<lambda>c. c \<noteq> CHR ''|'') (rev y @ CHR ''|'' # rev b)" by simp
  moreover have "takeWhile (\<lambda>c. c \<noteq> CHR ''|'') (rev x @ CHR ''|'' # rev a) = rev x"
    "takeWhile (\<lambda>c. c \<noteq> CHR ''|'') (rev y @ CHR ''|'' # rev b) = rev y"
    using assms(2,3) by (auto simp: takeWhile_append)
  ultimately have "x = y" by simp
  then show ?thesis using assms(1) by simp
qed

lemma ascii_upper_keeps: "ascii_upper c = CHR ''/'' \<longleftrightarrow> c = CHR ''/''" "ascii_upper c = CHR ''?'' \<longleftrightarrow> c = CHR ''?''"
  by (auto simp: ascii_upper_def is_ascii_lower_def dest!: arg_cong [where f = byte])

text \<open>A method of HTTP is a token, without slash and question mark; a target is a path, a query or the asterisk.\<close>

definition is_token :: "string \<Rightarrow> bool" where
  "is_token m \<longleftrightarrow> CHR ''/'' \<notin> set m \<and> CHR ''?'' \<notin> set m"

definition is_target :: "string \<Rightarrow> bool" where
  "is_target p \<longleftrightarrow> p = ''*'' \<or> (p \<noteq> [] \<and> hd p \<in> {CHR ''/'', CHR ''?''})"

lemma upper_token: "is_token m \<Longrightarrow> is_token (to_ascii_uppercase m)"
  by (auto simp: is_token_def to_ascii_uppercase_def ascii_upper_keeps image_iff) (metis ascii_upper_keeps)+

lemma first_target:
  assumes "m @ ''|'' @ p = m' @ ''|'' @ p'" "is_token m" "is_token m'" "is_target p" "is_target p'"
  shows "m = m' \<and> p = p'"
proof -
  let ?w = "takeWhile (\<lambda>c. c \<noteq> CHR ''/'' \<and> c \<noteq> CHR ''?'')"
  have split: "?w (m @ ''|'' @ p) = (if p = ''*'' then m @ ''|*'' else m @ ''|'')" if "is_token m" "is_target p" for m p
    using that by (cases p) (auto simp: takeWhile_append is_token_def is_target_def)
  have "(if p = ''*'' then m @ ''|*'' else m @ ''|'') = (if p' = ''*'' then m' @ ''|*'' else m' @ ''|'')"
    using split [OF assms(2,4)] split [OF assms(3,5)] assms(1) by simp
  then show ?thesis using assms(1)
    by (auto split: if_splits dest!: arg_cong [where f = rev])
qed

text \<open>
  the bytes a request signature covers determine the method (up to the case of its letters), the path
  and query, the timestamp and the hash of the body: a signature made for one request is one for
  another only when these are the same, whatever bars the path holds.
\<close>

theorem prologue_binds_request:
  assumes "is_token m" "is_token m'" "is_target p" "is_target p'"
  shows "signature_prologue sha m p ts b = signature_prologue sha m' p' ts' b' \<longleftrightarrow>
    to_ascii_uppercase m = to_ascii_uppercase m' \<and> p = p' \<and> ts = ts' \<and> sha b = sha b'"
proof
  assume "signature_prologue sha m p ts b = signature_prologue sha m' p' ts' b'"
  then have "((to_ascii_uppercase m @ ''|'' @ p) @ ''|'' @ show_int ts) @ ''|'' @ body_sha256 sha b =
      ((to_ascii_uppercase m' @ ''|'' @ p') @ ''|'' @ show_int ts') @ ''|'' @ body_sha256 sha b'"
    by (simp add: signature_prologue_def)
  then have h: "(to_ascii_uppercase m @ ''|'' @ p) @ ''|'' @ show_int ts = (to_ascii_uppercase m' @ ''|'' @ p') @ ''|'' @ show_int ts'"
    and sha: "body_sha256 sha b = body_sha256 sha b'" using last_bar body_sha256_bar by blast+
  from h have "to_ascii_uppercase m @ ''|'' @ p = to_ascii_uppercase m' @ ''|'' @ p'" and ts: "show_int ts = show_int ts'"
    using last_bar show_int_bar by blast+
  then show "to_ascii_uppercase m = to_ascii_uppercase m' \<and> p = p' \<and> ts = ts' \<and> sha b = sha b'"
    using first_target upper_token assms sha body_sha256_inj show_int_inj by metis
qed (simp add: signature_prologue_def body_sha256_def)

theorem prologue_binds_request_witness:
  "signature_prologue (\<lambda>s. []) ''GET'' ''/a|b'' 5 [] \<noteq> signature_prologue (\<lambda>s. []) ''GET'' ''/a'' 5 []"
  using prologue_binds_request [of "''GET''" "''GET''" "''/a|b''" "''/a''" "\<lambda>s. []" 5 "[]" 5 "[]"]
  by (simp add: is_token_def is_target_def)

section \<open>A signed request\<close>

lemma no_header: "\<not> has_header h n \<longleftrightarrow> first_value h n = None"
  by (cases "h n") (simp_all add: has_header_def first_value_def)

lemma check_request_timestamp_ok:
  assumes "check_request_timestamp M h now = Inr ts"
  shows "\<exists>v text. first_value h ''x-api-timestamp'' = Some v \<and> mw_to_str M v = Some text \<and> parse_i64 (trim text) = Some ts \<and>
    i64_clamp \<bar>i64_clamp (now - ts)\<bar> \<le> min (int (mw_tolerance_ms M)) i64_max"
  using assms unfolding check_request_timestamp_def text_of_def
  by (auto simp: res_bind_Inr_iff ok_or_Inr_iff split: if_splits)

lemma in_tolerance:
  assumes "i64_clamp \<bar>i64_clamp d\<bar> \<le> min (int t) i64_max" "int t < i64_max"
  shows "\<bar>d\<bar> \<le> int t"
  using assms by (auto simp: i64_clamp_def i64_max_def i64_min_def min_def max_def split: if_splits)

text \<open>What the checks before the body leave of a request.\<close>

definition signed_at :: "('w, 'o) mw_env \<Rightarrow> 'o request \<Rightarrow> 'w mw_state \<Rightarrow> 'o request \<Rightarrow> signed_body \<Rightarrow> bool" where
  "signed_at M rq s rq' b \<longleftrightarrow>
     (\<exists>ts. sb_timestamp b = Some ts \<and> check_request_timestamp M (rq_headers rq) (mw_unix_millis M (ms_world s)) = Inr ts) \<and>
     (if rq_method rq = ''CONNECT'' then rq' = rq \<and> sb_body b = []
      else fst (mw_read_body M (Some (mw_body_limit M)) (rq_body rq) (ms_world s)) = Inr (sb_body b) \<and>
        rq' = rq\<lparr>rq_body := mw_body_of M (sb_body b)\<rparr>)"

lemma with_rate_limit_done: "with_rate_limit M (done_with ()) s = (Inr x, s') \<Longrightarrow> ms_world s' = ms_world s"
  by (auto simp: with_rate_limit_def done_with_def split: if_splits sum.splits)

lemma app_ok: "app f s = (Inr x, s') \<Longrightarrow> fst (f (ms_world s)) = Inr x"
  by (auto simp: app_def split: prod.splits)

lemma read_signed_request_body_ok:
  assumes "read_signed_request_body M rq s = (Inr (rq', b), s')"
  shows "if has_header (rq_headers rq) ''x-api-signature'' \<and> \<not> has_header (rq_headers rq) ''authorization'' \<and>
           \<not> has_header (rq_headers rq) ''x-api-key''
         then signed_at M rq s rq' b else rq' = rq \<and> b = \<lparr>sb_body = [], sb_timestamp = None\<rparr> \<and> s' = s"
  using assms
  by (auto simp: read_signed_request_body_def signed_at_def and_then_ok check_signed_request_def now_is_def read_request_body_def
      split: if_splits prod.splits dest!: with_rate_limit_done app_ok)

lemma with_rate_limit_ok:
  assumes "with_rate_limit M m s = (Inr x, s')"
  shows "\<exists>s0. ms_world s0 = ms_world s \<and> m s0 = (Inr x, s')"
  using assms by (auto simp: with_rate_limit_def Let_def split: if_splits sum.splits prod.splits) (metis mw_state.select_convs(1) mw_state.surjective mw_state.update_convs(2))

lemma extract_request_jwt_None: "extract_request_jwt M h = Inr None \<longleftrightarrow> first_value h ''authorization'' = None"
  by (auto simp: extract_request_jwt_def res_bind_Inr_iff Let_def split: option.splits)

lemma extract_request_api_key_None: "extract_request_api_key M h = Inr None \<longleftrightarrow> first_value h ''x-api-key'' = None"
  by (auto simp: extract_request_api_key_def res_bind_Inr_iff Let_def split: option.splits)

lemma verify_request_signature_ok:
  assumes "verify_request_signature M rq body (Some ts) s = (Inr (Some pk), s')"
  shows "\<exists>v signature keys. first_value (rq_headers rq) ''x-api-signature'' = Some v \<and> mw_to_str M v = Some signature \<and>
    mw_server_keys M = Some keys \<and> signature_key M keys (request_prologue M rq ts body) signature = Inr pk \<and> s' = s"
  using assms
  by (auto simp: verify_request_signature_def and_then_ok text_of_def server_keys_def ok_or_Inr_iff split: option.splits)

lemma extract_authentication_cases:
  assumes "extract_request_authentication M rq b s = (Inr (Some a), s')"
  shows "case a of
      Auth_Jwt jwt \<Rightarrow> extract_request_jwt M (rq_headers rq) = Inr (Some jwt)
    | Auth_Api_Key key secret \<Rightarrow> first_value (rq_headers rq) ''authorization'' = None \<and>
        extract_request_api_key M (rq_headers rq) = Inr (Some (key, secret))
    | Auth_Public_Key pk \<Rightarrow> first_value (rq_headers rq) ''authorization'' = None \<and> first_value (rq_headers rq) ''x-api-key'' = None \<and>
        verify_request_signature M rq (sb_body b) (sb_timestamp b) s = (Inr (Some pk), s')"
  using assms
  by (auto simp: extract_request_authentication_def and_then_ok extract_request_jwt_None split: option.splits prod.splits)
    (metis extract_request_api_key_None not_None_eq surj_pair)

text \<open>
  C22: a request authenticated by its signature carries neither a jwt nor an api key; the signature of its
  header verifies, with the server's key, over the method and the path of this very request, over a
  timestamp within the tolerance of the time its headers arrived at (any timestamp is, when the
  tolerance configured is 2^63 - 1 milliseconds or more), and over the body read from the request
  within the limit on bodies, which is the body the handler gets. Only of a CONNECT the body is not
  read: its signature is over an empty one, and the request goes on as it came.
\<close>

theorem signed_request_verified:
  assumes "read_signed_request_body M rq s = (Inr (rq', b), s1)"
    and "extract_request_authentication_rate_limited M rq' b s1 = (Inr (Auth_Public_Key pk), s')"
  shows "\<exists>keys ts v signature body. first_value (rq_headers rq) ''authorization'' = None \<and> first_value (rq_headers rq) ''x-api-key'' = None \<and>
      mw_server_keys M = Some keys \<and>
      (int (mw_tolerance_ms M) < i64_max \<longrightarrow> \<bar>mw_unix_millis M (ms_world s) - ts\<bar> \<le> int (mw_tolerance_ms M)) \<and>
      first_value (rq_headers rq) ''x-api-signature'' = Some v \<and> mw_to_str M v = Some signature \<and>
      signature_key M keys (signature_prologue (mw_sha256 M) (rq_method rq)
        (case rq_path_and_query rq of Some p \<Rightarrow> p | None \<Rightarrow> ''/'') ts body) signature = Inr pk \<and>
      (if rq_method rq = ''CONNECT'' then body = [] \<and> rq' = rq
       else fst (mw_read_body M (Some (mw_body_limit M)) (rq_body rq) (ms_world s)) = Inr body \<and>
         rq' = rq\<lparr>rq_body := mw_body_of M body\<rparr>)"
proof -
  obtain s0 s2 where extracted: "extract_request_authentication M rq' b s0 = (Inr (Some (Auth_Public_Key pk)), s2)"
    using assms(2) with_rate_limit_ok
    by (fastforce simp: extract_request_authentication_rate_limited_def and_then_ok rejected_def split: option.splits)
  have same: "rq_headers rq' = rq_headers rq" "request_prologue M rq' = request_prologue M rq"
    using read_signed_request_body_ok [OF assms(1)]
    by (auto simp: signed_at_def request_prologue_def fun_eq_iff split: if_splits)
  note from_key = extract_authentication_cases [OF extracted, simplified, unfolded same]
  then obtain v where v: "first_value (rq_headers rq) ''x-api-signature'' = Some v"
    by (auto simp: verify_request_signature_def same split: option.splits)
  then have "signed_at M rq s rq' b"
    using read_signed_request_body_ok [OF assms(1)] from_key no_header by (metis option.distinct(1))
  then obtain ts where ts: "sb_timestamp b = Some ts" "check_request_timestamp M (rq_headers rq) (mw_unix_millis M (ms_world s)) = Inr ts"
    and body: "if rq_method rq = ''CONNECT'' then rq' = rq \<and> sb_body b = []
      else fst (mw_read_body M (Some (mw_body_limit M)) (rq_body rq) (ms_world s)) = Inr (sb_body b) \<and>
        rq' = rq\<lparr>rq_body := mw_body_of M (sb_body b)\<rparr>"
    by (auto simp: signed_at_def)
  have tolerance: "int (mw_tolerance_ms M) < i64_max \<longrightarrow> \<bar>mw_unix_millis M (ms_world s) - ts\<bar> \<le> int (mw_tolerance_ms M)"
    using check_request_timestamp_ok [OF ts(2)] in_tolerance by blast
  obtain w signature keys where sig: "first_value (rq_headers rq) ''x-api-signature'' = Some w" "mw_to_str M w = Some signature"
    "mw_server_keys M = Some keys" "signature_key M keys (request_prologue M rq ts (sb_body b)) signature = Inr pk"
    using verify_request_signature_ok [of M rq' "sb_body b" ts s0 pk s2] from_key ts(1) by (auto simp: same)
  show ?thesis
    by (rule exI [of _ keys], rule exI [of _ ts], rule exI [of _ w], rule exI [of _ signature], rule exI [of _ "sb_body b"])
      (use from_key tolerance sig body in \<open>auto simp: request_prologue_def\<close>)
qed

section \<open>A client's signature is accepted\<close>

lemma digits_show_nat: "digits_value n (a @ b) = (case digits_value n a of None \<Rightarrow> None | Some m \<Rightarrow> digits_value m b)"
  by (induction a arbitrary: n) simp_all

lemma digits_value_show_nat: "digits_value 0 (show_nat n) = Some n"
proof (induction n rule: show_nat.induct)
  case (1 n)
  have digit: "is_ascii_digit (char_of (48 + d))" if "d < 10" for d :: nat using that by (simp add: is_ascii_digit_def)
  show ?case
  proof (cases "n < 10")
    case True
    then show ?thesis using digit [of n] by (subst show_nat.simps) simp
  next
    case False
    then show ?thesis using 1 digit [of "n mod 10"] by (subst show_nat.simps) (simp add: digits_show_nat)
  qed
qed

lemma show_int_graphic: "is_graphic c" if "c \<in> set (show_int n)"
  using that show_nat_digits by (fastforce simp: show_int_def is_graphic_def Ball_def split: if_splits)

lemma parse_show_int:
  assumes "i64_min \<le> n" "n \<le> i64_max"
  shows "parse_i64 (trim (show_int n)) = Some n"
proof -
  have nonempty: "show_int n \<noteq> []" using show_nat_nonempty by (simp add: show_int_def)
  then have "trim (show_int n) = show_int n"
    using trim_graphic [OF nonempty] show_int_graphic hd_in_set last_in_set by blast
  moreover have "parse_i64 (show_int n) = Some n"
  proof (cases "n < 0")
    case True
    then show ?thesis using assms show_nat_nonempty by (simp add: show_int_def parse_i64_def digits_value_show_nat Let_def)
  next
    case False
    obtain c r where cr: "show_nat (nat n) = c # r" using show_nat_nonempty by (cases "show_nat (nat n)") auto
    then have "c \<noteq> CHR ''-''" "c \<noteq> CHR ''+''" using show_nat_digits [of "nat n"] by auto
    then show ?thesis using False assms cr digits_value_show_nat [of "nat n"] by (simp add: show_int_def parse_i64_def Let_def)
  qed
  ultimately show ?thesis by simp
qed

text \<open>What is relied on of \<^verbatim>\<open>snow\<close>'s one message pattern: the responder with the pinned key reads the message of an initiator
  over the same prologue, and learns its key; and of base 64.\<close>

definition one_way_law :: "'o pki_lib \<Rightarrow> bool" where
  "one_way_law K \<longleftrightarrow> (\<forall>b. pk_base64_decode K (pk_base64_encode K b) = Some b) \<and>
     (\<forall>private server prologue h m h'. nz_initiator K (noise_params One_Way) private (Some (pk_dh_public K server)) prologue = Some h \<and>
        nz_write K h = Some (m, h') \<longrightarrow>
      (\<exists>r r'. nz_responder K (noise_params One_Way) server prologue = Some r \<and> nz_read K r m = Some r' \<and>
         nz_remote_static K r' = Some (pk_dh_public K private)))"

lemma client_signature_key:
  assumes "one_way_law (mw_pki M)"
    and "maybe_raw_bytes (mw_pki M) private_key = Inr client_raw" "maybe_raw_bytes (mw_pki M) keys = Inr server"
    and "maybe_pem_to_raw_bytes (mw_pki M) server_public_key = Inr (pk_dh_public (mw_pki M) server)"
    and "check_raw_private_key server = Inr ()"
    and "public_from_raw_bytes (mw_pki M) (pk_dh_public (mw_pki M) client_raw) = Inr pk"
    and "sign_request (mw_pki M) (mw_sha256 M) private_key server_public_key meth path ts body = Inr signature"
  shows "signature_key M keys (signature_prologue (mw_sha256 M) meth path ts body) signature = Inr pk"
proof -
  let ?K = "mw_pki M" and ?p = "bytes_of (signature_prologue (mw_sha256 M) meth path ts body)"
  obtain h m h' where "nz_initiator ?K (noise_params One_Way) client_raw (Some (pk_dh_public ?K server)) ?p = Some h"
    and "nz_write ?K h = Some (m, h')" and m: "signature = pk_base64_encode ?K m"
    using assms(7) by (auto simp: sign_request_def assms(2,4) one_way_initiator_def generate_signature_def res_bind_Inr_iff ok_or_Inr_iff)
  then obtain r r' where "nz_responder ?K (noise_params One_Way) server ?p = Some r" "nz_read ?K r m = Some r'"
    "nz_remote_static ?K r' = Some (pk_dh_public ?K client_raw)" "pk_base64_decode ?K signature = Some m"
    using assms(1) unfolding one_way_law_def by metis
  then show ?thesis using assms(3,5,6) by (simp add: signature_key_def one_way_responder_def validate_signature_def)
qed

text \<open>
  C23: a request signed by a client, with the headers of \<open>signed_request_headers\<close>, is accepted by the server whose public key it
  pinned while the clock of the server is within the tolerance: it is the client's public key the
  server learns.
\<close>

theorem client_signature_accepted:
  assumes "one_way_law (mw_pki M)"
    and "maybe_raw_bytes (mw_pki M) private_key = Inr client_raw" "maybe_raw_bytes (mw_pki M) keys = Inr server"
    and "maybe_pem_to_raw_bytes (mw_pki M) server_public_key = Inr (pk_dh_public (mw_pki M) server)"
    and "check_raw_private_key server = Inr ()"
    and "public_from_raw_bytes (mw_pki M) (pk_dh_public (mw_pki M) client_raw) = Inr pk"
    and "mw_server_keys M = Some keys" "\<And>h. h \<in> {signature, stamp} \<Longrightarrow> mw_to_str M h = Some h"
    and "signed_request_headers (mw_pki M) (mw_sha256 M) now private_key server_public_key (rq_method rq) path body =
      Inr [(''x-api-signature'', signature), (''x-api-timestamp'', stamp)]"
    and "rq_headers rq ''x-api-signature'' = [signature]" "rq_headers rq ''x-api-timestamp'' = [stamp]"
    and "rq_path_and_query rq = Some path"
    and "i64_min \<le> now" "now \<le> i64_max" "\<bar>mw_unix_millis M (ms_world s) - now\<bar> \<le> min (int (mw_tolerance_ms M)) i64_max"
  shows "extract_request_public_key M rq body s = (Inr (Some pk), s)"
proof -
  have signed: "sign_request (mw_pki M) (mw_sha256 M) private_key server_public_key (rq_method rq) path now body = Inr signature"
    and stamp: "stamp = show_int now" using assms(9) by (auto simp: signed_request_headers_def res_bind_Inr_iff)
  have "i64_clamp \<bar>i64_clamp (mw_unix_millis M (ms_world s) - now)\<bar> \<le> min (int (mw_tolerance_ms M)) i64_max"
    using assms(15) by (auto simp: i64_clamp_def i64_max_def i64_min_def)
  then have "check_request_timestamp M (rq_headers rq) (mw_unix_millis M (ms_world s)) = Inr now"
    using assms(8,11) parse_show_int [OF assms(13,14)]
    by (simp add: check_request_timestamp_def first_value_def text_of_def stamp not_less)
  then have "check_signed_request M (rq_headers rq) s = (Inr (keys, now), s)"
    by (simp add: check_signed_request_def server_keys_def assms(7) and_then_def from_result_def now_is_def done_with_def)
  moreover have "signature_key M keys (request_prologue M rq now body) signature = Inr pk"
    using client_signature_key [OF assms(1-6) signed] by (simp add: request_prologue_def assms(12))
  ultimately show ?thesis using assms(8,10)
    by (simp add: extract_request_public_key_def verify_request_signature_def first_value_def text_of_def and_then_def
        from_result_def done_with_def)
qed

section \<open>What is counted\<close>

lemma extract_request_authentication_failures: "preserves ms_failures (extract_request_authentication M rq b)"
  unfolding extract_request_authentication_def verify_request_signature_def check_signed_request_def preserves_def
  by (auto simp: and_then_def from_result_def done_with_def now_is_def split: option.splits sum.splits prod.splits)

lemma app_failures: "preserves ms_failures (app f)"
  by (auto simp: preserves_def app_def split: prod.splits)

definition locked_out :: "('w, 'o) mw_env \<Rightarrow> 'w mw_state \<Rightarrow> bool" where
  "locked_out M s \<longleftrightarrow> \<not> rl_disabled (mw_limiter M) \<and>
     isl (check (mw_limiter M) (ae_instant (mw_auth M) (ms_world s)) (ms_attempts s))"

lemma with_rate_limit_locked:
  "locked_out M s \<Longrightarrow> with_rate_limit M m s = (Inl (Failure TOO_MANY_REQUESTS None), s)"
  by (auto simp: locked_out_def with_rate_limit_def isl_def)

lemma count_failure_failures [simp]: "ms_failures (count_failure M s) = Suc (ms_failures s)"
  by (simp add: count_failure_def Let_def)

lemma with_rate_limit_runs:
  assumes "\<not> rl_disabled (mw_limiter M)" "check (mw_limiter M) (ae_instant (mw_auth M) (ms_world s)) (ms_attempts s) = Inr a"
    and "m (s\<lparr>ms_attempts := a\<rparr>) = (q, s1)"
  shows "with_rate_limit M m s = (case q of Inr x \<Rightarrow> (Inr x, s1) | Inl e \<Rightarrow> (Inl (Failure (failure_status e) None), count_failure M s1))"
  by (cases q) (simp_all add: with_rate_limit_def assms)

lemma with_rate_limit_failures:
  assumes "preserves ms_failures m" "with_rate_limit M m s = (r, s')"
  shows "ms_failures s' = ms_failures s \<or> ms_failures s' = Suc (ms_failures s) \<and> isl r"
proof (cases "rl_disabled (mw_limiter M)")
  case True
  then have "m s = (r, s')" using assms(2) by (simp add: with_rate_limit_def)
  then show ?thesis using preservesD [OF assms(1)] by blast
next
  case False
  show ?thesis
  proof (cases "check (mw_limiter M) (ae_instant (mw_auth M) (ms_world s)) (ms_attempts s)")
    case (Inl e)
    then show ?thesis using False assms(2) by (simp add: with_rate_limit_def)
  next
    case (Inr a)
    obtain q s1 where m: "m (s\<lparr>ms_attempts := a\<rparr>) = (q, s1)" by (rule prod.exhaust)
    have kept: "ms_failures s1 = ms_failures s" using preservesD [OF assms(1) m] by simp
    show ?thesis using with_rate_limit_runs [where m = m, OF False Inr m] assms(2) kept
      by (cases q) simp_all
  qed
qed

lemma preserves_plain: "preserves g (done_with x)" "preserves g (from_result r)" "preserves g (now_is f)" "preserves g (rejected st msg)"
  by (simp_all add: preserves_def done_with_def from_result_def now_is_def rejected_def)

lemma lookup_failures: "preserves ms_failures (with_rate_limit M (done_with ()))"
  unfolding preserves_def with_rate_limit_def done_with_def by (simp split: sum.split)

lemma check_signed_request_failures: "preserves ms_failures (check_signed_request M h)"
  unfolding check_signed_request_def by (intro preserves_and_then preserves_plain)

lemma read_signed_request_body_failures: "preserves ms_failures (read_signed_request_body M rq)"
  unfolding read_signed_request_body_def read_request_body_def
  by (auto intro!: preserves_plain lookup_failures app_failures check_signed_request_failures split: prod.split)

text \<open>
  C25: a request counts at most one failure against the address of its client, and only when it is refused. A
  request without credentials counts none: it is refused and the app is not asked. A client which is locked
  out changes nothing: its body is not read, its credential not looked at.
\<close>

theorem request_counted_at_most_once:
  assumes "authenticate_request M handle rq s = (r, s')"
  shows "(ms_failures s' = ms_failures s \<or> ms_failures s' = Suc (ms_failures s) \<and> isl r) \<and>
    (locked_out M s \<longrightarrow> isl r \<and> s' = s) \<and>
    (first_value (rq_headers rq) ''authorization'' = None \<and> first_value (rq_headers rq) ''x-api-key'' = None \<and>
       first_value (rq_headers rq) ''x-api-signature'' = None \<longrightarrow>
     isl r \<and> ms_failures s' = ms_failures s \<and> ms_world s' = ms_world s)"
proof (intro conjI impI)
  obtain q s1 where read: "read_signed_request_body M rq s = (q, s1)" by (rule prod.exhaust)
  have kept: "ms_failures s1 = ms_failures s" by (rule preservesD [OF read_signed_request_body_failures read])
  show "ms_failures s' = ms_failures s \<or> ms_failures s' = Suc (ms_failures s) \<and> isl r"
  proof (cases q)
    case (Inl e)
    then show ?thesis using assms read kept by (simp add: authenticate_request_def and_then_def)
  next
    case (Inr x)
    then obtain rq' b where x: "q = Inr (rq', b)" by (cases x) simp
    obtain q2 s2 where lim: "with_rate_limit M (extract_request_authentication M rq' b) s1 = (q2, s2)" by (rule prod.exhaust)
    have two: "ms_failures s2 = ms_failures s \<or> ms_failures s2 = Suc (ms_failures s) \<and> isl q2"
      using with_rate_limit_failures [OF extract_request_authentication_failures lim] kept by simp
    have run: "authenticate_request M handle rq s = (case q2 of Inl e \<Rightarrow> (Inl e, s2) | Inr None \<Rightarrow>
        (Inl (Failure UNAUTHORIZED (Some ''Invalid client credentials'')), s2)
      | Inr (Some a) \<Rightarrow> with_rate_limit M (app (handle a rq')) s2)"
      using read lim by (simp add: authenticate_request_def extract_request_authentication_rate_limited_def and_then_def x
          rejected_def done_with_def split: sum.split option.split)
    show ?thesis
    proof (cases q2)
      case (Inr a)
      show ?thesis
      proof (cases a)
        case (Some v)
        then have "with_rate_limit M (app (handle v rq')) s2 = (r, s')" using run assms Inr by simp
        then show ?thesis using with_rate_limit_failures [OF app_failures] two Inr by fastforce
      qed (use run two assms Inr in simp)
    qed (use run two assms in simp)
  qed
next
  assume locked: "locked_out M s"
  show "isl r" "s' = s" using assms
    by (auto simp: authenticate_request_def extract_request_authentication_rate_limited_def read_signed_request_body_def
        check_signed_request_def and_then_def from_result_def done_with_def now_is_def
        with_rate_limit_locked [OF locked] split: if_splits sum.splits)
next
  assume none: "first_value (rq_headers rq) ''authorization'' = None \<and> first_value (rq_headers rq) ''x-api-key'' = None \<and>
    first_value (rq_headers rq) ''x-api-signature'' = None"
  then have "\<not> has_header (rq_headers rq) ''x-api-signature''" by (simp add: no_header)
  then have read: "read_signed_request_body M rq s = (Inr (rq, \<lparr>sb_body = [], sb_timestamp = None\<rparr>), s)"
    by (simp add: read_signed_request_body_def done_with_def)
  have extracted: "extract_request_authentication M rq b s0 = (Inr None, s0)" for b s0
    using none by (simp add: extract_request_authentication_def extract_request_jwt_def extract_request_api_key_def
        verify_request_signature_def and_then_def from_result_def done_with_def)
  show "isl r" "ms_failures s' = ms_failures s" "ms_world s' = ms_world s" using assms
    by (auto simp: authenticate_request_def extract_request_authentication_rate_limited_def read and_then_def with_rate_limit_def
        extracted rejected_def split: if_splits sum.splits)
qed

section \<open>The user of a request\<close>

lemma check_whitelist_ok [simp]:
  "check_whitelist M ip l t = (Inr x, t') \<longleftrightarrow> check_cidr_whitelist (ae_net (mw_auth M)) ip l = Inr () \<and> t' = t"
  by (cases "check_cidr_whitelist (ae_net (mw_auth M)) ip l") (auto simp: check_whitelist_def)

lemma user_in_whitelist:
  "get_user_from_request_authentication M a ip s = (Inr user, s') \<Longrightarrow>
     check_cidr_whitelist (ae_net (mw_auth M)) ip (us_cidr_whitelist user) = Inr ()"
  by (auto simp: get_user_from_request_authentication_def and_then_ok)

text \<open>
  C24: the user a request is authenticated as is loaded by the subject of its jwt, valid now, or by the owner
  of its key, whose whitelist the address of the client is in; it is always in the whitelist of the user.
\<close>

theorem request_user_allowed:
  assumes "get_user_from_request_authentication M a ip s = (Inr user, s')"
  shows "check_cidr_whitelist (ae_net (mw_auth M)) ip (us_cidr_whitelist user) = Inr () \<and>
    (\<exists>id w1 w2. ae_get_user (mw_auth M) id w1 = (Inr user, w2) \<and>
      (case a of
         Auth_Jwt jwt \<Rightarrow> w1 = ms_world s \<and>
           decode_sub (ae_lib (mw_auth M)) (ae_jwt (mw_auth M)) (ae_unix_secs (mw_auth M) (ms_world s)) jwt = Some id
       | Auth_Api_Key key secret \<Rightarrow> \<exists>k. mw_get_api_key M key secret (ms_world s) = (Inr k, w1) \<and> id = ak_user_id k \<and>
           check_cidr_whitelist (ae_net (mw_auth M)) ip (ak_cidr_whitelist k) = Inr ()
       | Auth_Public_Key pk \<Rightarrow> \<exists>k. mw_get_signing_key M pk (ms_world s) = (Inr k, w1) \<and> id = ak_user_id k \<and>
           check_cidr_whitelist (ae_net (mw_auth M)) ip (ak_cidr_whitelist k) = Inr ()))"
proof -
  obtain id s1 s2 where id: "get_user_id_from_request_authentication M a ip s = (Inr id, s1)"
    and user: "app (ae_get_user (mw_auth M) id) s1 = (Inr user, s2)"
    and ok: "check_cidr_whitelist (ae_net (mw_auth M)) ip (us_cidr_whitelist user) = Inr ()"
    using assms by (auto simp: get_user_from_request_authentication_def and_then_ok)
  obtain w2 where loaded: "ae_get_user (mw_auth M) id (ms_world s1) = (Inr user, w2)"
    using user by (auto simp: app_def split: prod.splits)
  have "case a of
       Auth_Jwt jwt \<Rightarrow> ms_world s1 = ms_world s \<and>
         decode_sub (ae_lib (mw_auth M)) (ae_jwt (mw_auth M)) (ae_unix_secs (mw_auth M) (ms_world s)) jwt = Some id
     | Auth_Api_Key key secret \<Rightarrow> \<exists>k. mw_get_api_key M key secret (ms_world s) = (Inr k, ms_world s1) \<and> id = ak_user_id k \<and>
         check_cidr_whitelist (ae_net (mw_auth M)) ip (ak_cidr_whitelist k) = Inr ()
     | Auth_Public_Key pk \<Rightarrow> \<exists>k. mw_get_signing_key M pk (ms_world s) = (Inr k, ms_world s1) \<and> id = ak_user_id k \<and>
         check_cidr_whitelist (ae_net (mw_auth M)) ip (ak_cidr_whitelist k) = Inr ()"
    using id by (cases a) (auto simp: get_user_id_from_request_authentication_def get_jwt_user_id_def
        check_api_key_cidr_whitelist_def and_then_ok app_def now_is_def ok_or_Inr_iff split: prod.splits)
  then show ?thesis using ok loaded by (intro conjI exI [of _ id] exI [of _ "ms_world s1"] exI [of _ w2]) (auto split: request_authentication.splits)
qed

section \<open>Demonstrations\<close>

definition demo_client_pki :: "demo_value pki_lib" where
  "demo_client_pki = \<lparr>pk_base64_encode = map (\<lambda>b. char_of (unat b)), pk_base64_decode = (\<lambda>s. Some (bytes_of s)),
     pk_pem_decode = (\<lambda>_. None),
     pk_spki_decode = (\<lambda>_. Some \<lparr>sp_oid = OID_X25519, sp_unused_bits = 0, sp_bits = Some (replicate 32 9)\<rparr>), pk_spki_encode = Some, pk_pkcs8_decode = (\<lambda>_. None), pk_pkcs8_encode = Some,
     pk_octet_decode = Some, pk_octet_encode = Some, pk_dh_public = (\<lambda>_. replicate 32 9),
     nz_initiator = (\<lambda>_ _ _ prologue. Some (V4 0, length prologue)), nz_responder = (\<lambda>_ _ prologue. Some (V4 0, length prologue)),
     nz_write = (\<lambda>h. Some (replicate (snd h) 65, h)),
     nz_read = (\<lambda>h message. if length message = snd h then Some h else None), nz_remote_static = (\<lambda>_. Some (replicate 32 9))\<rparr>"

definition demo_mw :: "(nat, demo_value) mw_env" where
  "demo_mw = \<lparr>mw_auth = demo_env, mw_pki = demo_client_pki, mw_sha256 = (\<lambda>s. []), mw_to_str = Some,
     mw_server_keys = Some ''a key'', mw_tolerance_ms = 5, mw_body_limit = 100,
     mw_limiter = \<lparr>rl_disabled = False, rl_max_attempts = 2, rl_window = 60, rl_ipv6_prefix_len = 64, rl_max_entries = 10\<rparr>,
     mw_unix_millis = int, mw_read_body = (\<lambda>_ b w. (Inr (if b = (V4 0, 5) then ''hello'' else []), Suc w)), mw_body_of = (\<lambda>b. (V4 0, length b)),
     mw_get_api_key = (\<lambda>key secret w. (if secret = ''S_right_S'' then Inr \<lparr>ak_user_id = ''ann'', ak_cidr_whitelist = []\<rparr>
       else Inl (Failure UNAUTHORIZED None), w)),
     mw_get_signing_key = (\<lambda>_ w. (Inl (Failure UNAUTHORIZED None), w))\<rparr>"

definition demo_signed :: "demo_value request" where
  "demo_signed = \<lparr>rq_method = ''GET'', rq_path = ''/x'', rq_path_and_query = Some ''/x'',
     rq_headers = (\<lambda>n. if n = ''x-api-signature'' then [''123456789''] else if n = ''x-api-timestamp'' then [''7''] else []),
     rq_body = (V4 0, 5)\<rparr>"

definition demo_at :: "nat \<Rightarrow> nat mw_state" where
  "demo_at t = \<lparr>ms_world = t, ms_attempts = None, ms_failures = 0\<rparr>"

definition demo_client :: string where
  "demo_client = map (\<lambda>b :: 8 word. char_of (unat b)) (replicate 32 9)"

lemma demo_client_key: "public_from_raw_bytes demo_client_pki (replicate 32 9) = Inr demo_client"
  by (simp add: public_from_raw_bytes_def demo_client_pki_def repeated_public_key demo_client_def)

lemma demo_server_key: "\<exists>raw. maybe_raw_bytes demo_client_pki ''a key'' = Inr raw \<and> check_raw_private_key raw = Inr ()"
proof -
  have "((\<lambda>x. x) ^^ n) y = y" for n and y :: "8 word" by (induction n) simp_all
  then have "check_scalar (padded (bytes_of ''a key'')) = Inr ()"
    by (simp add: check_scalar_def Let_def fold_or_zero padded_def bytes_of_def)
  then show ?thesis
    by (simp add: maybe_raw_bytes_def Let_def byte_simps check_raw_private_key_def padded_def bytes_of_def)
qed

text \<open>A request signed at 7 ms, whose headers arrive at 10 ms.\<close>

lemmas demo_mw_sels = demo_mw_def [THEN arg_cong [where f = mw_auth], simplified] demo_mw_def [THEN arg_cong [where f = mw_pki], simplified]
  demo_mw_def [THEN arg_cong [where f = mw_to_str], simplified] demo_mw_def [THEN arg_cong [where f = mw_server_keys], simplified]
  demo_mw_def [THEN arg_cong [where f = mw_unix_millis], simplified] demo_mw_def [THEN arg_cong [where f = mw_read_body], simplified]
  demo_mw_def [THEN arg_cong [where f = mw_body_of], simplified] demo_mw_def [THEN arg_cong [where f = mw_tolerance_ms], simplified]
  demo_mw_def [THEN arg_cong [where f = mw_get_api_key], simplified]

lemma show_seven: "show_nat 7 = ''7''"
proof -
  have "char_of (of_char (CHR ''7'') :: nat) = CHR ''7''" by (rule char_of_char)
  then show ?thesis by (simp add: show_nat.simps)
qed

lemma demo_prologue: "request_prologue demo_mw demo_signed 7 ''hello'' = ''GET|/x|7|''"
  by (simp add: request_prologue_def demo_signed_def demo_mw_def signature_prologue_def to_ascii_uppercase_def ascii_upper_def
      is_ascii_lower_def show_int_def show_seven body_sha256_def)

lemma demo_timestamp: "check_request_timestamp demo_mw (rq_headers demo_signed) 10 = Inr 7"
  by (simp add: check_request_timestamp_def demo_signed_def demo_mw_def first_value_def text_of_def byte_simps parse_i64_def is_ascii_digit_def
      digits_value.simps digit_value_def i64_clamp_def i64_max_def i64_min_def ok_or_def)

lemma demo_signature: "signature_key demo_mw ''a key'' ''GET|/x|7|'' ''123456789'' = Inr demo_client"
  using demo_server_key
  by (auto simp: signature_key_def demo_mw_def one_way_responder_def validate_signature_def demo_client_pki_def bytes_of_def
      public_from_raw_bytes_def repeated_public_key ok_or_def demo_client_def)

lemmas demo_request_steps = and_then_def from_result_def done_with_def now_is_def app_def with_rate_limit_def check_def Let_def

lemma demo_accepted:
  "read_signed_request_body demo_mw demo_signed (demo_at 10) =
     (Inr (demo_signed, \<lparr>sb_body = ''hello'', sb_timestamp = Some 7\<rparr>), (demo_at 11)\<lparr>ms_attempts := None\<rparr>)"
  "extract_request_authentication_rate_limited demo_mw demo_signed \<lparr>sb_body = ''hello'', sb_timestamp = Some 7\<rparr> (demo_at 11) =
     (Inr (Auth_Public_Key demo_client), demo_at 11)"
proof -
  have hd: "first_value (rq_headers demo_signed) ''x-api-signature'' = Some ''123456789''"
    "first_value (rq_headers demo_signed) ''authorization'' = None" "first_value (rq_headers demo_signed) ''x-api-key'' = None"
    by (simp_all add: demo_signed_def first_value_def)
  have not_limited: "\<not> rl_disabled (mw_limiter demo_mw)" "rl_max_attempts (mw_limiter demo_mw) \<noteq> 0"
    by (simp_all add: demo_mw_def)
  have lim: "with_rate_limit demo_mw m (demo_at t) = (case m (demo_at t) of (Inr x, s') \<Rightarrow> (Inr x, s')
      | (Inl e, s') \<Rightarrow> (Inl (Failure (failure_status e) None), count_failure demo_mw s'))" for m :: "(nat, 'a) mw" and t
    using not_limited by (simp add: with_rate_limit_def check_def demo_at_def)
  have checked: "check_signed_request demo_mw (rq_headers demo_signed) (demo_at 10) = (Inr (''a key'', 7), demo_at 10)"
    using demo_timestamp by (simp add: check_signed_request_def server_keys_def demo_request_steps demo_at_def demo_mw_sels)
  show "read_signed_request_body demo_mw demo_signed (demo_at 10) =
     (Inr (demo_signed, \<lparr>sb_body = ''hello'', sb_timestamp = Some 7\<rparr>), (demo_at 11)\<lparr>ms_attempts := None\<rparr>)"
    by (simp add: read_signed_request_body_def no_header hd and_then_def checked lim read_request_body_def done_with_def app_def)
      (simp add: demo_at_def demo_mw_sels demo_signed_def has_header_def done_with_def eval_nat_numeral)
  show "extract_request_authentication_rate_limited demo_mw demo_signed \<lparr>sb_body = ''hello'', sb_timestamp = Some 7\<rparr> (demo_at 11) =
     (Inr (Auth_Public_Key demo_client), demo_at 11)"
    using demo_signature
    by (simp add: extract_request_authentication_rate_limited_def lim extract_request_authentication_def
        extract_request_jwt_def extract_request_api_key_def hd verify_request_signature_def demo_prologue and_then_def from_result_def done_with_def)
      (simp add: demo_mw_sels text_of_def server_keys_def demo_prologue and_then_def from_result_def done_with_def)
qed

theorem signed_request_verified_witness:
  "\<exists>ts. \<bar>10 - ts\<bar> \<le> (5 :: int) \<and>
     signature_key demo_mw ''a key'' (request_prologue demo_mw demo_signed ts ''hello'') ''123456789'' = Inr demo_client"
proof -
  have clock: "mw_unix_millis demo_mw (ms_world (demo_at 10)) = 10" "mw_server_keys demo_mw = Some ''a key''"
    "mw_tolerance_ms demo_mw = 5" "mw_to_str demo_mw = Some"
    "first_value (rq_headers demo_signed) ''x-api-signature'' = Some ''123456789''" "rq_method demo_signed \<noteq> ''CONNECT''"
    "fst (mw_read_body demo_mw limit (rq_body demo_signed) (ms_world (demo_at 10))) = Inr ''hello''" for limit
    by (simp_all add: demo_mw_sels demo_at_def demo_signed_def first_value_def)
  have same: "(demo_at 11)\<lparr>ms_attempts := None\<rparr> = demo_at 11" by (simp add: demo_at_def)
  show ?thesis
    using signed_request_verified [of demo_mw demo_signed "demo_at 10" demo_signed "\<lparr>sb_body = ''hello'', sb_timestamp = Some 7\<rparr>" "demo_at 11"
        demo_client "demo_at 11"] demo_accepted [unfolded same]
    by (auto simp: clock i64_max_def request_prologue_def)
qed

text \<open>An unsigned request without credentials, and one with the key of ann, from within her whitelist.\<close>

theorem request_counted_at_most_once_witness:
  "ms_failures (snd (authenticate_request demo_mw (\<lambda>_ _ w. (Inr demo_signed, w)) (demo_signed\<lparr>rq_headers := \<lambda>_. []\<rparr>) (demo_at 10))) = 0"
  using request_counted_at_most_once [of demo_mw "\<lambda>_ _ w. (Inr demo_signed, w)" "demo_signed\<lparr>rq_headers := \<lambda>_. []\<rparr>" "demo_at 10",
      OF prod.collapse [symmetric]]
  by (simp add: first_value_def demo_at_def)

theorem request_user_allowed_witness:
  "\<exists>user. fst (get_user_from_request_authentication demo_mw (Auth_Api_Key ''K'' ''S_right_S'') (V4 0x0A000001) (demo_at 10)) = Inr user \<and>
     check_cidr_whitelist demo_nets (V4 0x0A000001) (us_cidr_whitelist user) = Inr ()"
proof -
  have "check_cidr_whitelist demo_nets (V4 0x0A000001) [] = Inr ()"
    by (simp add: check_cidr_whitelist_def cidr_set_contains_def byte_simps)
  then have run: "get_user_from_request_authentication demo_mw (Auth_Api_Key ''K'' ''S_right_S'') (V4 0x0A000001) (demo_at 10) =
      (Inr (demo_user ''ann'' (Some ''S'')), demo_at 10)"
    by (simp add: get_user_from_request_authentication_def get_user_id_from_request_authentication_def check_api_key_cidr_whitelist_def
        check_whitelist_def demo_mw_sels demo_at_def demo_whitelist app_def flow_steps)
  show ?thesis using request_user_allowed [OF run] by (auto simp: run demo_mw_sels demo_env_def)
qed

lemma demo_one_way: "one_way_law demo_client_pki"
proof -
  have "bytes_of (map (\<lambda>b. char_of (unat b)) b) = b" for b :: bytes
  proof -
    have "of_char (char_of (unat x) :: char) = x" for x :: "8 word"
    proof -
      have "of_nat (of_char (char_of (unat x) :: char)) = x" using unat_byte_less [of x] by simp
      then show ?thesis by (simp only: of_nat_of_char)
    qed
    then show ?thesis by (simp add: bytes_of_def comp_def map_idI)
  qed
  then show ?thesis by (simp add: one_way_law_def demo_client_pki_def)
qed

definition demo_sent :: string where
  "demo_sent = pk_base64_encode demo_client_pki (replicate 9 65)"

theorem client_signature_accepted_witness:
  "extract_request_public_key demo_mw (demo_signed\<lparr>rq_headers := (\<lambda>_. [])
     (''x-api-signature'' := [demo_sent], ''x-api-timestamp'' := [''7''])\<rparr>) ''hello'' (demo_at 10) = (Inr (Some demo_client), demo_at 10)"
proof -
  obtain raw where raw: "maybe_raw_bytes demo_client_pki ''a key'' = Inr raw" "check_raw_private_key raw = Inr ()"
    using demo_server_key by blast
  have dh: "pk_dh_public demo_client_pki raw = replicate 32 9" by (simp add: demo_client_pki_def)
  have pin: "maybe_pem_to_raw_bytes demo_client_pki ''pin'' = Inr (replicate 32 9)"
    by (simp add: maybe_pem_to_raw_bytes_def maybe_pem_to_der_def der_to_raw_bytes_def demo_client_pki_def byte_simps repeated_public_key)
  have prologue: "signature_prologue (\<lambda>s. []) ''GET'' ''/x'' 7 ''hello'' = ''GET|/x|7|''"
    using demo_prologue by (simp add: request_prologue_def demo_signed_def demo_mw_def)
  have signed: "signed_request_headers demo_client_pki (\<lambda>s. []) 7 ''a key'' ''pin'' ''GET'' ''/x'' ''hello'' =
      Inr [(''x-api-signature'', demo_sent), (''x-api-timestamp'', ''7'')]"
    by (simp add: signed_request_headers_def sign_request_def raw pin one_way_initiator_def repeated_public_key prologue show_int_def show_seven
        generate_signature_def demo_sent_def)
      (simp add: demo_client_pki_def bytes_of_def generate_signature_def eval_nat_numeral)
  show ?thesis
    by (rule client_signature_accepted [where private_key = "''a key''" and client_raw = raw and keys = "''a key''" and server = raw
          and server_public_key = "''pin''" and now = 7 and path = "''/x''" and signature = "demo_sent" and stamp = "''7''"])
      (use raw pin signed demo_client_key demo_one_way in \<open>auto simp: demo_mw_sels demo_mw_def [THEN arg_cong [where f = mw_sha256], simplified]
        dh demo_signed_def demo_at_def i64_min_def i64_max_def\<close>)
qed

end
