(* ===== verification/ManageFlow.thy ===== *)
theory ManageFlow
  imports TokenExchange RequestAuth
begin

text \<open>
  How users manage their own account, \<^verbatim>\<open>auth/server/src/api/manage\<close>: the app behind the requests, and
  the handlers for usernames and passwords (\<^verbatim>\<open>local.rs\<close>), passkeys and TOTP (\<^verbatim>\<open>passkey.rs\<close>,
  \<^verbatim>\<open>totp.rs\<close>), linked logins (\<^verbatim>\<open>external.rs\<close>), and api and signing keys
  (\<^verbatim>\<open>api_key.rs\<close>). The app keeps the trait's default validation of key names and whitelists.
  What a handler logs, and that it wipes secrets from memory, is not modelled.
\<close>

section \<open>The app\<close>

record create_api_key_request =
  ck_name :: string
  ck_expires :: "64 word"
  ck_cidr_whitelist :: "string list"

record create_signing_key_request =
  cs_name :: string
  cs_expires :: "64 word"
  cs_cidr_whitelist :: "string list"
  cs_public_key :: string

record ('w, 'o) manage_env =
  mg_token :: "('w, 'o) token_env"
  mg_pki :: "'o pki_lib"
  mg_urls :: "'o urls"
  mg_parse_jwks :: "string \<Rightarrow> nat option"         \<comment> \<open>the keys of a key set's JSON\<close>
  mg_path :: string
  mg_api_key_secret_length :: nat
  mg_api_secret_bcrypt_cost :: nat
  mg_random_bytes :: "nat \<Rightarrow> 'w \<Rightarrow> bytes \<times> 'w"
  mg_bcrypt_hash_at :: "nat \<Rightarrow> string \<Rightarrow> ('w, string) callback"
  mg_generate_keypair :: "string \<Rightarrow> 'w \<Rightarrow> (bytes \<times> bytes) option \<times> 'w"   \<comment> \<open>the private, then the public key\<close>
  mg_make_totp :: "bytes \<Rightarrow> user_id \<Rightarrow> failure + 'o"
  mg_totp_secret :: "'o \<Rightarrow> string"                \<comment> \<open>in base 32\<close>
  mg_totp_png :: "'o \<Rightarrow> string option"
  mg_totp_uri :: "'o \<Rightarrow> string option"
  mg_start_registration :: "'o passkey_provider \<Rightarrow> string \<Rightarrow> failure + 'o \<times> 'o"
  mg_finish_registration :: "'o passkey_provider \<Rightarrow> 'o \<Rightarrow> 'o \<Rightarrow> failure + 'o"
  mg_update_username :: "user_id \<Rightarrow> string \<Rightarrow> ('w, unit) callback"
  mg_update_password :: "user_id \<Rightarrow> string \<Rightarrow> ('w, unit) callback"
  mg_update_stored_totp :: "user_id \<Rightarrow> string \<Rightarrow> string list \<Rightarrow> ('w, unit) callback"
  mg_remove_stored_totp :: "user_id \<Rightarrow> ('w, unit) callback"
  mg_update_stored_passkey :: "user_id \<Rightarrow> 'o option \<Rightarrow> ('w, unit) callback"
  mg_update_external_skip_2fa :: "user_id \<Rightarrow> bool \<Rightarrow> ('w, unit) callback"
  mg_unlink_local_login :: "user_id \<Rightarrow> ('w, unit) callback"
  mg_unlink_external_login :: "user_id \<Rightarrow> string \<Rightarrow> ('w, unit) callback"
  mg_create_api_key :: "user_id \<Rightarrow> create_api_key_request \<Rightarrow> string \<Rightarrow> string \<Rightarrow> ('w, unit) callback"
  mg_get_api_key_owner_id :: "string \<Rightarrow> ('w, user_id) callback"
  mg_delete_api_key :: "string \<Rightarrow> ('w, unit) callback"
  mg_create_signing_key :: "user_id \<Rightarrow> create_api_key_request \<Rightarrow> string \<Rightarrow> ('w, unit) callback"
  mg_get_signing_key_owner_id :: "string \<Rightarrow> ('w, user_id) callback"
  mg_delete_signing_key :: "string \<Rightarrow> ('w, unit) callback"
  mg_get_external_provider :: "string \<Rightarrow> ('w, external_login_provider option) callback"
  mg_create_external_provider :: "external_login_provider \<Rightarrow> ('w, unit) callback"
  mg_update_external_provider :: "external_login_provider \<Rightarrow> ('w, unit) callback"
  mg_delete_external_provider :: "string \<Rightarrow> ('w, unit) callback"
  mg_evict_built_provider :: "string \<Rightarrow> ('w, unit) callback"
  mg_create_trusted_issuer :: "trusted_issuer \<Rightarrow> ('w, unit) callback"
  mg_update_trusted_issuer :: "trusted_issuer \<Rightarrow> ('w, unit) callback"
  mg_delete_trusted_issuer :: "string \<Rightarrow> ('w, unit) callback"
  mg_evict_verification_keys :: "string \<Rightarrow> ('w, unit) callback"
  mg_sync_workload_users :: "string \<Rightarrow> workload_access list \<Rightarrow> ('w, unit) callback"

abbreviation mg_ext :: "('w, 'o) manage_env \<Rightarrow> ('w, 'o) external_env" where
  "mg_ext M \<equiv> tn_ext (mg_token M)"

abbreviation mg_auth :: "('w, 'o) manage_env \<Rightarrow> ('w, 'o) auth_env" where
  "mg_auth M \<equiv> xe_auth (mg_ext M)"

definition draw :: "('w \<Rightarrow> 'a \<times> 'w) \<Rightarrow> ('w, 'o, 'a) flow" where
  "draw f s = (case f (ls_world s) of (x, w) \<Rightarrow> (Inr x, s\<lparr>ls_world := w\<rparr>))"

definition random_string_of :: "('w, 'o) manage_env \<Rightarrow> nat \<Rightarrow> ('w, 'o, string) flow" where
  "random_string_of M n = draw (xe_random_string (mg_ext M) n)"

definition check_locked :: "('w, 'o) manage_env \<Rightarrow> 'o user \<Rightarrow> ('w, 'o, unit) flow" where
  "check_locked M u = check_username_locked (ae_locked_usernames (mg_auth M)) (us_username u)"

section \<open>Usernames and passwords\<close>

definition update_username :: "('w, 'o) manage_env \<Rightarrow> 'o user \<Rightarrow> string \<Rightarrow> ('w, 'o, unit) flow" where
  "update_username M u new_username =
     and_then (check_locked M u) (\<lambda>_.
     and_then (from_result (ae_validate_username (mg_auth M) new_username)) (\<lambda>_.
     and_then (check_username_available (mg_auth M) new_username (Some (us_id u))) (\<lambda>_.
     call (mg_update_username M (us_id u) new_username))))"

definition update_password :: "('w, 'o) manage_env \<Rightarrow> 'o user \<Rightarrow> string \<Rightarrow> ('w, 'o, unit) flow" where
  "update_password M u password =
     and_then (check_locked M u) (\<lambda>_.
     and_then (from_result (ae_validate_password (mg_auth M) password)) (\<lambda>_.
     and_then (call (ae_bcrypt_hash (mg_auth M) password)) (\<lambda>hashed_password.
     call (mg_update_password M (us_id u) hashed_password))))"

section \<open>TOTP\<close>

definition TOTP_ENROLLMENT_SECRET_LENGTH :: nat where "TOTP_ENROLLMENT_SECRET_LENGTH = 40"
definition RECOVERY_CODE_COUNT :: nat where "RECOVERY_CODE_COUNT = 10"
definition RECOVERY_CODE_LENGTH :: nat where "RECOVERY_CODE_LENGTH = 20"
definition RECOVERY_CODE_BCRYPT_COST :: nat where "RECOVERY_CODE_BCRYPT_COST = 4"

fun each :: "('a \<Rightarrow> 's \<Rightarrow> ('e + 'b) \<times> 's) \<Rightarrow> 'a list \<Rightarrow> 's \<Rightarrow> ('e + 'b list) \<times> 's" where
  "each f [] = done_with []"
| "each f (x # xs) = and_then (f x) (\<lambda>y. and_then (each f xs) (\<lambda>ys. done_with (y # ys)))"

definition hash_recovery_codes :: "('w, 'o) manage_env \<Rightarrow> string list \<Rightarrow> ('w, 'o, string list) flow" where
  "hash_recovery_codes M = each (\<lambda>code. call (mg_bcrypt_hash_at M RECOVERY_CODE_BCRYPT_COST code))"

definition begin_totp_enrollment :: "('w, 'o) manage_env \<Rightarrow> 'o user \<Rightarrow> ('w, 'o, string \<times> string) flow" where
  "begin_totp_enrollment M u =
     and_then (check_locked M u) (\<lambda>_.
     and_then (draw (mg_random_bytes M TOTP_ENROLLMENT_SECRET_LENGTH)) (\<lambda>secret.
     and_then (from_result (mg_make_totp M secret (us_id u))) (\<lambda>totp.
     and_then (required INTERNAL_SERVER_ERROR ''Failed to generate QR code png'' (mg_totp_png M totp)) (\<lambda>png.
     and_then (required INTERNAL_SERVER_ERROR ''Failed to generate QR code uri'' (mg_totp_uri M totp)) (\<lambda>uri.
     and_then (to_session (insert_totp_enrollment (us_id u) totp)) (\<lambda>_.
     done_with (uri, png)))))))"

definition confirm_totp_enrollment :: "('w, 'o) manage_env \<Rightarrow> 'o user \<Rightarrow> string \<Rightarrow> ('w, 'o, string list) flow" where
  "confirm_totp_enrollment M u code =
     and_then (check_locked M u) (\<lambda>_.
     and_then (on_session (retrieve_totp_enrollment (us_id u))) (\<lambda>totp.
     and_then (asking (ae_check_totp (mg_auth M) totp code)) (\<lambda>current.
     and_then (required BAD_REQUEST ''The provided code was not valid. Please try BeginTotpEnrollment flow again.'' current) (\<lambda>step.
     and_then (each (\<lambda>_. random_string_of M RECOVERY_CODE_LENGTH) [0..<RECOVERY_CODE_COUNT]) (\<lambda>recovery_codes.
     and_then (catching (hash_recovery_codes M recovery_codes)
       (\<lambda>_. refuse INTERNAL_SERVER_ERROR ''Failed to generate valid recovery codes'')) (\<lambda>hashed_recovery_codes.
     and_then (call (mg_update_stored_totp M (us_id u) (mg_totp_secret M totp) hashed_recovery_codes)) (\<lambda>_.
     and_then (catching (call (ae_consume_totp_step (mg_auth M) (us_id u) step)) (\<lambda>_. done_with False)) (\<lambda>_.
     done_with recovery_codes))))))))"

definition unenroll_totp :: "('w, 'o) manage_env \<Rightarrow> 'o user \<Rightarrow> ('w, 'o, unit) flow" where
  "unenroll_totp M u = and_then (check_locked M u) (\<lambda>_. call (mg_remove_stored_totp M (us_id u)))"

section \<open>Passkeys\<close>

definition passkey_provider_of :: "('w, 'o) manage_env \<Rightarrow> ('w, 'o, 'o passkey_provider) flow" where
  "passkey_provider_of M = required INTERNAL_SERVER_ERROR (''No passkey provider available, invalid '' @ quoted ''host'' @ '' config'')
     (ae_passkey_provider (mg_auth M))"

definition begin_passkey_enrollment :: "('w, 'o) manage_env \<Rightarrow> 'o user \<Rightarrow> ('w, 'o, 'o) flow" where
  "begin_passkey_enrollment M u =
     and_then (check_locked M u) (\<lambda>_.
     and_then (passkey_provider_of M) (\<lambda>provider.
     and_then (from_result (mg_start_registration M provider (us_username u))) (\<lambda>(challenge, state).
     and_then (to_session (insert_passkey_enrollment (us_id u) state)) (\<lambda>_.
     done_with challenge))))"

definition confirm_passkey_enrollment :: "('w, 'o) manage_env \<Rightarrow> 'o user \<Rightarrow> 'o \<Rightarrow> ('w, 'o, unit) flow" where
  "confirm_passkey_enrollment M u credential =
     and_then (check_locked M u) (\<lambda>_.
     and_then (passkey_provider_of M) (\<lambda>provider.
     and_then (on_session (retrieve_passkey_enrollment (us_id u))) (\<lambda>state.
     and_then (from_result (mg_finish_registration M provider credential state)) (\<lambda>passkey.
     call (mg_update_stored_passkey M (us_id u) (Some passkey))))))"

definition unenroll_passkey :: "('w, 'o) manage_env \<Rightarrow> 'o user \<Rightarrow> ('w, 'o, unit) flow" where
  "unenroll_passkey M u = and_then (check_locked M u) (\<lambda>_. call (mg_update_stored_passkey M (us_id u) None))"

section \<open>Linked logins\<close>

definition begin_external_login_link :: "('w, 'o) manage_env \<Rightarrow> 'o user \<Rightarrow> ('w, 'o, unit) flow" where
  "begin_external_login_link M u =
     and_then (check_locked M u) (\<lambda>_.
     and_then (new_session_id (mg_auth M)) (\<lambda>i.
     and_then (unix_secs_now (mg_auth M)) (\<lambda>now.
     to_session (insert_external_link i (us_id u) now))))"

definition unlink_local_login :: "('w, 'o) manage_env \<Rightarrow> 'o user \<Rightarrow> ('w, 'o, unit) flow" where
  "unlink_local_login M u = and_then (check_locked M u) (\<lambda>_. call (mg_unlink_local_login M (us_id u)))"

definition unlink_external_login :: "('w, 'o) manage_env \<Rightarrow> 'o user \<Rightarrow> string \<Rightarrow> ('w, 'o, unit) flow" where
  "unlink_external_login M u provider_id =
     and_then (check_locked M u) (\<lambda>_.
     if \<not> validate_provider_id provider_id then from_status (Inl BAD_REQUEST)
     else call (mg_unlink_external_login M (us_id u) provider_id))"

definition update_external_skip_2fa :: "('w, 'o) manage_env \<Rightarrow> 'o user \<Rightarrow> bool \<Rightarrow> ('w, 'o, unit) flow" where
  "update_external_skip_2fa M u skip = and_then (check_locked M u) (\<lambda>_. call (mg_update_external_skip_2fa M (us_id u) skip))"

section \<open>Api keys\<close>

definition generate_api_key_parts :: "('w, 'o) manage_env \<Rightarrow> ('w, 'o, string \<times> string \<times> string) flow" where
  "generate_api_key_parts M =
     and_then (random_string_of M (mg_api_key_secret_length M)) (\<lambda>k.
     and_then (random_string_of M (mg_api_key_secret_length M)) (\<lambda>r.
     let key = ''K_'' @ k @ ''_K''; secret = ''S_'' @ r @ ''_S'' in
     and_then (call (mg_bcrypt_hash_at M (mg_api_secret_bcrypt_cost M) secret)) (\<lambda>hashed_secret.
     done_with (key, secret, hashed_secret))))"

definition normalize_cidr_whitelist :: "('w, 'o) manage_env \<Rightarrow> string list \<Rightarrow> failure + string list" where
  "normalize_cidr_whitelist M whitelist =
     (let whitelist = filter (\<lambda>e. e \<noteq> []) (map trim whitelist) in
      case validate_cidr_whitelist (ae_net (mg_auth M)) whitelist of
        Inl _ \<Rightarrow> Inl (Failure BAD_REQUEST None)
      | Inr _ \<Rightarrow> Inr whitelist)"

definition check_key_name :: "string \<Rightarrow> failure + unit" where
  "check_key_name name = map_sum (\<lambda>_. Failure BAD_REQUEST None) id (validate_api_key_name name)"

definition create_api_key :: "('w, 'o) manage_env \<Rightarrow> user_id \<Rightarrow> create_api_key_request \<Rightarrow> ('w, 'o, string \<times> string) flow" where
  "create_api_key M user_id body =
     and_then (from_result (check_key_name (ck_name body))) (\<lambda>_.
     and_then (from_result (normalize_cidr_whitelist M (ck_cidr_whitelist body))) (\<lambda>whitelist.
     and_then (generate_api_key_parts M) (\<lambda>(key, secret, hashed_secret).
     and_then (call (mg_create_api_key M user_id (body\<lparr>ck_cidr_whitelist := whitelist\<rparr>) key hashed_secret)) (\<lambda>_.
     done_with (key, secret)))))"

definition delete_api_key :: "('w, 'o) manage_env \<Rightarrow> user_id \<Rightarrow> string \<Rightarrow> ('w, 'o, unit) flow" where
  "delete_api_key M user_id key =
     and_then (call (mg_get_api_key_owner_id M key)) (\<lambda>expected_user_id.
     if user_id \<noteq> expected_user_id then refuse FORBIDDEN ''Api key does not belong to user''
     else call (mg_delete_api_key M key))"

section \<open>Signing keys\<close>

definition normalize_public_key :: "('w, 'o) manage_env \<Rightarrow> string \<Rightarrow> failure + string" where
  "normalize_public_key M public_key =
     map_sum (\<lambda>_. Failure BAD_REQUEST (Some ''Invalid public key'')) id (public_from_maybe_pem (mg_pki M) (trim public_key))"

definition check_public_key_unused :: "('w, 'o) manage_env \<Rightarrow> string \<Rightarrow> ('w, 'o, unit) flow" where
  "check_public_key_unused M public_key =
     and_then (catching (and_then (call (mg_get_signing_key_owner_id M public_key)) (\<lambda>_. done_with True)) (\<lambda>_. done_with False)) (\<lambda>used.
     if used then refuse CONFLICT ''This public key is already in use'' else done_with ())"

definition on_pki :: "pki_error + 'a \<Rightarrow> ('w, 'o, 'a) flow" where
  "on_pki r = from_result (map_sum (\<lambda>_. Failure INTERNAL_SERVER_ERROR None) id r)"

definition generate_encoded_pair :: "('w, 'o) manage_env \<Rightarrow> pki_kind \<Rightarrow> ('w, 'o, string \<times> string) flow" where
  "generate_encoded_pair M kind =
     and_then (draw (mg_generate_keypair M (noise_params kind))) (\<lambda>generated.
     and_then (required INTERNAL_SERVER_ERROR ''Failed to generate keypair'' generated) (\<lambda>(private_raw, public_raw).
     and_then (on_pki (private_from_raw_bytes (mg_pki M) private_raw)) (\<lambda>private.
     and_then (on_pki (public_from_raw_bytes (mg_pki M) public_raw)) (\<lambda>public.
     done_with (private, public)))))"

definition create_signing_key ::
  "('w, 'o) manage_env \<Rightarrow> user_id \<Rightarrow> create_signing_key_request \<Rightarrow> ('w, 'o, string option) flow" where
  "create_signing_key M user_id body =
     and_then (from_result (check_key_name (cs_name body))) (\<lambda>_.
     and_then (from_result (normalize_cidr_whitelist M (cs_cidr_whitelist body))) (\<lambda>whitelist.
     let given = trim (cs_public_key body) in
     and_then (if given = []
       then and_then (generate_encoded_pair M One_Way) (\<lambda>(private_key, public_key). done_with (Some private_key, public_key))
       else and_then (from_result (normalize_public_key M given)) (\<lambda>public_key.
         and_then (check_public_key_unused M public_key) (\<lambda>_. done_with (None, public_key)))) (\<lambda>(private_key, public_key).
     and_then (call (mg_create_signing_key M user_id \<lparr>ck_name = cs_name body, ck_expires = cs_expires body,
       ck_cidr_whitelist = whitelist\<rparr> public_key)) (\<lambda>_.
     done_with private_key))))"

definition delete_signing_key :: "('w, 'o) manage_env \<Rightarrow> user_id \<Rightarrow> string \<Rightarrow> ('w, 'o, unit) flow" where
  "delete_signing_key M user_id public_key =
     (let public_key = (case normalize_public_key M public_key of Inr normalized \<Rightarrow> normalized | Inl _ \<Rightarrow> public_key) in
      and_then (call (mg_get_signing_key_owner_id M public_key)) (\<lambda>expected_user_id.
      if user_id \<noteq> expected_user_id then refuse FORBIDDEN ''Signing key does not belong to user''
      else call (mg_delete_signing_key M public_key)))"

end
