(* ===== verification/ManageProviders.thy ===== *)
theory ManageProviders
  imports ManageFlow Validations
begin

text \<open>
  The external login providers of the app as admins manage them,
  \<^verbatim>\<open>auth/server/src/api/manage/provider.rs\<close>. \<open>issuer_change\<close>, whose result is only
  logged, is left out.
\<close>

definition MAX_PROVIDER_NAME_LENGTH :: nat where "MAX_PROVIDER_NAME_LENGTH = 100"
definition MAX_TOKEN_EXCHANGE_AUDIENCES :: nat where "MAX_TOKEN_EXCHANGE_AUDIENCES = 16"
definition MAX_AUDIENCE_LENGTH :: nat where "MAX_AUDIENCE_LENGTH = 256"
definition PROVIDER_ID_LENGTH :: nat where "PROVIDER_ID_LENGTH = 16"
definition REDACTED :: string where "REDACTED = ''##############''"

record create_provider_request =
  cp_name :: string
  cp_slug :: string
  cp_registration_disabled :: bool
  cp_token_exchange :: token_exchange_config
  cp_config :: provider_config

record update_provider_request = create_provider_request +
  up_id :: string
  up_clear_client_secret :: bool

record provider_list_item =
  pl_provider :: external_login_provider
  pl_read_only :: bool
  pl_redirect_uri :: string

definition bad_request :: "string \<Rightarrow> failure + 'a" where
  "bad_request msg = Inl (Failure BAD_REQUEST (Some msg))"

section \<open>Checks\<close>

definition check_provider_admin :: "'o user \<Rightarrow> failure + unit" where
  "check_provider_admin u = (if us_admin u then Inr ()
     else Inl (Failure FORBIDDEN (Some ''Only admins can manage external login providers'')))"

definition list_item :: "('w, 'o) manage_env \<Rightarrow> external_login_provider \<Rightarrow> bool \<Rightarrow> provider_list_item" where
  "list_item M p read_only =
     (let p = p\<lparr>ep_config := redact_secret (ep_config p)\<rparr> in
      \<lparr>pl_provider = p, pl_read_only = read_only, pl_redirect_uri = redirect_uri (xe_host (mg_ext M)) (mg_path M) p\<rparr>)"

definition validate_provider_name :: "string \<Rightarrow> failure + string" where
  "validate_provider_name name =
     (let name = trim name in
      if name = [] then bad_request ''Provider name cannot be empty''
      else if MAX_PROVIDER_NAME_LENGTH < char_count name
      then bad_request (''Provider name cannot be longer than '' @ show_nat MAX_PROVIDER_NAME_LENGTH @ '' characters'')
      else Inr name)"

definition own_slug :: "string \<Rightarrow> string \<Rightarrow> failure + string" where
  "own_slug slug name =
     (if trim slug = [] then
        (if slugify name = [] then bad_request (''The name '' @ quoted name @
           '' makes no slug (it needs letters or digits), give the provider one'')
         else Inr (slugify name))
      else map_sum (\<lambda>_. Failure BAD_REQUEST None) (\<lambda>_. trim slug) (validate_slug (trim slug)))"

definition validate_provider_slug ::
  "('w, 'o) manage_env \<Rightarrow> string \<Rightarrow> string \<Rightarrow> string option \<Rightarrow> ('w, 'o, string) flow" where
  "validate_provider_slug M slug name except_id =
     (let from_name = (trim slug = []) in
      and_then (from_result (own_slug slug name)) (\<lambda>slug.
      and_then (list_external_providers (mg_ext M)) (\<lambda>providers.
      if list_ex (\<lambda>r. except_id \<noteq> Some (ep_id (rp_provider r)) \<and> slug_of (rp_provider r) = slug) providers
      then refuse CONFLICT (''Another login provider already uses the slug '' @ quoted slug @
        (if from_name then '' (made from the name), give the provider a different one'' else []))
      else done_with slug)))"

definition checked_url :: "('w, 'o) manage_env \<Rightarrow> string \<Rightarrow> failure + unit" where
  "checked_url M url = map_sum (\<lambda>_. Failure BAD_REQUEST None) id (validate_public_http_url (mg_urls M) url)"

definition validate_config :: "('w, 'o) manage_env \<Rightarrow> provider_config \<Rightarrow> failure + unit" where
  "validate_config M config =
     (if client_secret config = REDACTED then bad_request ''The redacted client secret cannot be used as the secret''
      else case config of
        Oidc_Config c \<Rightarrow>
          res_bind (if oc_provider c \<noteq> [] then checked_url M (oc_provider c) else Inr ()) (\<lambda>_.
          if oc_redirect_host c \<noteq> [] then checked_url M (oc_redirect_host c) else Inr ())
      | Github_Config c \<Rightarrow>
          if nc_enabled c \<and> nc_client_secret c = [] then bad_request ''A client secret is required to enable this provider'' else Inr ()
      | Google_Config c \<Rightarrow>
          if nc_enabled c \<and> nc_client_secret c = [] then bad_request ''A client secret is required to enable this provider'' else Inr ())"

text \<open>Trimmed, without empty entries or duplicates; no value longer than \<open>longest\<close>.\<close>

fun clean_values :: "nat \<Rightarrow> string \<Rightarrow> string list \<Rightarrow> string list \<Rightarrow> failure + string list" where
  "clean_values longest msg cleaned [] = Inr cleaned"
| "clean_values longest msg cleaned (v # vs) =
     (let v = trim v in
      if v = [] \<or> v \<in> set cleaned then clean_values longest msg cleaned vs
      else if longest < length v then bad_request msg
      else clean_values longest msg (cleaned @ [v]) vs)"

definition validate_token_exchange ::
  "token_exchange_config \<Rightarrow> provider_config \<Rightarrow> failure + token_exchange_config" where
  "validate_token_exchange token_exchange config =
     (if tx_enabled token_exchange \<and> config_kind config = Github
      then bad_request ''Token exchange is not available for Github providers''
      else res_bind (clean_values MAX_AUDIENCE_LENGTH
          (''Token exchange audiences cannot be longer than '' @ show_nat MAX_AUDIENCE_LENGTH @ '' characters'')
          [] (tx_audiences token_exchange)) (\<lambda>audiences.
        if MAX_TOKEN_EXCHANGE_AUDIENCES < length audiences
        then bad_request (''Token exchange accepts at most '' @ show_nat MAX_TOKEN_EXCHANGE_AUDIENCES @ '' audiences'')
        else Inr (token_exchange\<lparr>tx_audiences := audiences\<rparr>)))"

text \<open>The provider url of an OIDC configuration which changes.\<close>

definition url_changes :: "provider_config \<Rightarrow> provider_config \<Rightarrow> bool" where
  "url_changes config existing = (case (config, existing) of
     (Oidc_Config c, Oidc_Config e) \<Rightarrow> oc_provider c \<noteq> oc_provider e \<and> oc_client_secret e \<noteq> []
   | _ \<Rightarrow> False)"

definition keep_existing_secret :: "provider_config \<Rightarrow> provider_config \<Rightarrow> bool \<Rightarrow> failure + provider_config" where
  "keep_existing_secret config existing clear =
     (let new_secret = (client_secret config \<noteq> [] \<and> client_secret config \<noteq> REDACTED) in
      if clear then
        (if new_secret then bad_request ''Cannot both clear the client secret and set a new one''
         else Inr (set_client_secret [] config))
      else if new_secret then Inr config
      else if url_changes config existing
      then bad_request ''The client secret must be entered again when the provider url changes''
      else Inr (set_client_secret (client_secret existing) config))"

definition merge_update :: "('w, 'o) manage_env \<Rightarrow> provider_config \<Rightarrow> provider_config \<Rightarrow> bool \<Rightarrow> failure + provider_config" where
  "merge_update M config existing clear_client_secret =
     (if config_kind config \<noteq> config_kind existing
      then bad_request ''The kind of a provider cannot be changed, create a new provider instead''
      else res_bind (keep_existing_secret config existing clear_client_secret) (\<lambda>config.
        res_bind (validate_config M config) (\<lambda>_. Inr config)))"

section \<open>Requests\<close>

definition list_providers :: "('w, 'o) manage_env \<Rightarrow> 'o user \<Rightarrow> ('w, 'o, provider_list_item list) flow" where
  "list_providers M u =
     and_then (from_result (check_provider_admin u)) (\<lambda>_.
     and_then (list_external_providers (mg_ext M)) (\<lambda>providers.
     done_with (map (\<lambda>r. list_item M (rp_provider r) (rp_is_static r)) providers)))"

definition create_provider ::
  "('w, 'o) manage_env \<Rightarrow> 'o user \<Rightarrow> create_provider_request \<Rightarrow> ('w, 'o, provider_list_item) flow" where
  "create_provider M u q =
     and_then (from_result (check_provider_admin u)) (\<lambda>_.
     and_then (from_result (validate_config M (cp_config q))) (\<lambda>_.
     and_then (from_result (validate_provider_name (cp_name q))) (\<lambda>name.
     and_then (from_result (validate_token_exchange (cp_token_exchange q) (cp_config q))) (\<lambda>token_exchange.
     and_then (validate_provider_slug M (cp_slug q) name None) (\<lambda>slug.
     and_then (random_string_of M PROVIDER_ID_LENGTH) (\<lambda>i.
     let p = \<lparr>ep_id = i, ep_name = name, ep_slug = slug, ep_registration_disabled = cp_registration_disabled q,
         ep_token_exchange = token_exchange, ep_config = cp_config q\<rparr> in
     and_then (call (mg_create_external_provider M p)) (\<lambda>_. done_with (list_item M p False))))))))"

definition resolve_external_provider_now :: "('w, 'o) manage_env \<Rightarrow> string \<Rightarrow> ('w, 'o, resolved_provider) flow" where
  "resolve_external_provider_now M i =
     (let static_providers = xe_static_providers (mg_ext M) in
      if validate_provider_id i \<and> List.find (\<lambda>p. ep_id p = i) static_providers = None
      then and_then (call (mg_get_external_provider M i)) (\<lambda>stored.
        from_status (resolve_external_provider static_providers stored i))
      else from_status (resolve_external_provider static_providers None i))"

definition resolve_managed_provider :: "('w, 'o) manage_env \<Rightarrow> string \<Rightarrow> ('w, 'o, external_login_provider) flow" where
  "resolve_managed_provider M i =
     and_then (resolve_external_provider_now M i) (\<lambda>r.
     if rp_is_static r then refuse BAD_REQUEST (''Provider '' @ quoted (ep_name (rp_provider r)) @
       '' comes from the app configuration and is read only'')
     else done_with (rp_provider r))"

definition update_provider ::
  "('w, 'o) manage_env \<Rightarrow> 'o user \<Rightarrow> update_provider_request \<Rightarrow> ('w, 'o, provider_list_item) flow" where
  "update_provider M u q =
     and_then (from_result (check_provider_admin u)) (\<lambda>_.
     and_then (from_result (validate_provider_name (cp_name q))) (\<lambda>name.
     and_then (from_result (validate_token_exchange (cp_token_exchange q) (cp_config q))) (\<lambda>token_exchange.
     and_then (resolve_managed_provider M (up_id q)) (\<lambda>existing.
     and_then (from_result (merge_update M (cp_config q) (ep_config existing) (up_clear_client_secret q))) (\<lambda>config.
     and_then (if trim (cp_slug q) = [] then done_with (ep_slug existing)
       else validate_provider_slug M (cp_slug q) name (Some (ep_id existing))) (\<lambda>slug.
     let p = \<lparr>ep_id = ep_id existing, ep_name = name, ep_slug = slug, ep_registration_disabled = cp_registration_disabled q,
         ep_token_exchange = token_exchange, ep_config = config\<rparr> in
     and_then (call (mg_update_external_provider M p)) (\<lambda>_.
     and_then (call (mg_evict_built_provider M (ep_id p))) (\<lambda>_. done_with (list_item M p False)))))))))"

definition delete_provider :: "('w, 'o) manage_env \<Rightarrow> 'o user \<Rightarrow> string \<Rightarrow> ('w, 'o, unit) flow" where
  "delete_provider M u i =
     and_then (from_result (check_provider_admin u)) (\<lambda>_.
     and_then (resolve_managed_provider M i) (\<lambda>p.
     and_then (call (mg_delete_external_provider M (ep_id p))) (\<lambda>_.
     call (mg_evict_built_provider M (ep_id p)))))"

end
