(* ===== verification/ManageIssuers.thy ===== *)
theory ManageIssuers
  imports ManageProviders
begin

text \<open>
  The issuers trusted for workload identity as admins manage them,
  \<^verbatim>\<open>auth/server/src/api/manage/issuer.rs\<close>. An update or deletion holds the lock of its issuer, so
  no other and no exchange of the issuer runs between its steps.
\<close>

definition MAX_NAME_LENGTH :: nat where "MAX_NAME_LENGTH = 100"
definition MAX_AUDIENCES :: nat where "MAX_AUDIENCES = 16"
definition MAX_RULES :: nat where "MAX_RULES = 64"
definition MAX_CLAIMS_PER_RULE :: nat where "MAX_CLAIMS_PER_RULE = 16"
definition MAX_GROUPS_PER_RULE :: nat where "MAX_GROUPS_PER_RULE = 64"
definition MAX_VALUE_LENGTH :: nat where "MAX_VALUE_LENGTH = 512"
definition MAX_JWKS_LENGTH :: nat where "MAX_JWKS_LENGTH = 256 * 1024"

definition VERIFIED_CLAIMS :: "string list" where
  "VERIFIED_CLAIMS = [''iss'', ''aud'', ''exp'', ''iat'', ''nbf'', ''jti'']"

section \<open>Checks\<close>

definition check_issuer_admin :: "'o user \<Rightarrow> failure + unit" where
  "check_issuer_admin u = (if us_admin u then Inr ()
     else Inl (Failure FORBIDDEN (Some ''Only admins can manage trusted issuers'')))"

definition validate_named :: "string \<Rightarrow> string \<Rightarrow> failure + string" where
  "validate_named kind name =
     (let name = trim name in
      if name = [] then bad_request (kind @ '' name cannot be empty'')
      else if MAX_NAME_LENGTH < char_count name
      then bad_request (kind @ '' name cannot be longer than '' @ show_nat MAX_NAME_LENGTH @ '' characters'')
      else Inr name)"

definition clean_list :: "string \<Rightarrow> string list \<Rightarrow> nat \<Rightarrow> failure + string list" where
  "clean_list field values most =
     res_bind (clean_values MAX_VALUE_LENGTH
       (quoted field @ '' values cannot be longer than '' @ show_nat MAX_VALUE_LENGTH @ '' characters'') [] values) (\<lambda>cleaned.
     if most < length cleaned then bad_request (quoted field @ '' accepts at most '' @ show_nat most @ '' values'')
     else Inr cleaned)"

definition validate_condition :: "string \<Rightarrow> workload_claim \<Rightarrow> failure + workload_claim" where
  "validate_condition rule_name condition =
     (let claim = trim (wc_claim condition); pattern = wc_pattern condition in
      if claim = [] \<or> pattern = [] then bad_request (''Rule '' @ quoted rule_name @ '' has a claim without a name or a value'')
      else if MAX_VALUE_LENGTH < length claim \<or> MAX_VALUE_LENGTH < length pattern
      then bad_request (''Claims of rule '' @ quoted rule_name @ '' cannot be longer than '' @ show_nat MAX_VALUE_LENGTH @ '' characters'')
      else if list_all (\<lambda>c. c = CHR ''*'') pattern
      then bad_request (''Claim '' @ quoted claim @ '' of rule '' @ quoted rule_name @
        '' matches any value, which doesn't restrict anything'')
      else Inr (condition\<lparr>wc_claim := claim\<rparr>))"

fun all_results :: "('a \<Rightarrow> 'e + 'b) \<Rightarrow> 'a list \<Rightarrow> 'e + 'b list" where
  "all_results f [] = Inr []"
| "all_results f (x # xs) = res_bind (f x) (\<lambda>y. res_bind (all_results f xs) (\<lambda>ys. Inr (y # ys)))"

definition validate_rule :: "workload_rule \<Rightarrow> failure + workload_rule" where
  "validate_rule r =
     res_bind (validate_named ''Rule'' (wr_name r)) (\<lambda>name.
     if wr_claims r = [] then bad_request (''Rule '' @ quoted name @ '' needs at least one claim to match'')
     else if MAX_CLAIMS_PER_RULE < length (wr_claims r)
     then bad_request (''Rule '' @ quoted name @ '' can match at most '' @ show_nat MAX_CLAIMS_PER_RULE @ '' claims'')
     else res_bind (all_results (validate_condition name) (wr_claims r)) (\<lambda>conditions.
       if list_all (\<lambda>c. wc_claim c \<in> set VERIFIED_CLAIMS) conditions
       then bad_request (''Rule '' @ quoted name @ '' only matches claims every accepted token has (issuer, audience, times), which doesn't restrict anything. Add a claim identifying the workload, eg. 'sub' or 'repository_id'.'')
       else res_bind (clean_list ''groups'' (wr_groups r) MAX_GROUPS_PER_RULE) (\<lambda>groups.
         Inr (r\<lparr>wr_name := name, wr_claims := conditions, wr_groups := groups\<rparr>))))"

definition parse_jwks :: "('w, 'o) manage_env \<Rightarrow> string \<Rightarrow> failure + nat" where
  "parse_jwks M jwks =
     (if MAX_JWKS_LENGTH < length jwks then bad_request ''Key set is too large''
      else case mg_parse_jwks M jwks of
        None \<Rightarrow> bad_request ''Invalid key set (JWKS) json''
      | Some n \<Rightarrow> if n = 0 then bad_request ''Key set (JWKS) has no usable keys'' else Inr n)"

text \<open>The loop which validates the rules and assigns their ids.\<close>

fun assign_rules ::
  "('w, 'o) manage_env \<Rightarrow> trusted_issuer option \<Rightarrow> workload_rule list \<Rightarrow> workload_rule list \<Rightarrow> ('w, 'o, workload_rule list) flow" where
  "assign_rules M existing rules [] = done_with rules"
| "assign_rules M existing rules (r # rs) =
     and_then (from_result (validate_rule r)) (\<lambda>r.
     let keeps_id = (case existing of None \<Rightarrow> False | Some e \<Rightarrow> list_ex (\<lambda>x. wr_id x = wr_id r) (ti_rules e)) \<and>
           \<not> list_ex (\<lambda>x. wr_id x = wr_id r) rules in
     and_then (if keeps_id then done_with (wr_id r) else random_string_of M PROVIDER_ID_LENGTH) (\<lambda>i.
     assign_rules M existing (rules @ [r\<lparr>wr_id := i\<rparr>]) rs))"

definition validate_issuer ::
  "('w, 'o) manage_env \<Rightarrow> trusted_issuer \<Rightarrow> trusted_issuer option \<Rightarrow> ('w, 'o, trusted_issuer) flow" where
  "validate_issuer M i existing =
     and_then (from_result (validate_named ''Issuer'' (ti_name i))) (\<lambda>name.
     let url = trim (ti_issuer i) in
     and_then (from_result (checked_url M url)) (\<lambda>_.
     and_then (from_result (clean_list ''audiences'' (ti_audiences i) MAX_AUDIENCES)) (\<lambda>audiences.
     if audiences = [] then refuse BAD_REQUEST ''At least one audience is required. Use one specific to this app, eg. its url.''
     else and_then (from_result (case ti_keys i of
         Discovery \<Rightarrow> Inr ()
       | Jwks_Uri uri \<Rightarrow> checked_url M uri
       | Static_Keys jwks \<Rightarrow> map_sum id (\<lambda>_. ()) (parse_jwks M jwks))) (\<lambda>_.
     if MAX_RULES < length (ti_rules i) then refuse BAD_REQUEST (''An issuer can have at most '' @ show_nat MAX_RULES @ '' rules'')
     else and_then (assign_rules M existing [] (ti_rules i)) (\<lambda>rules.
     done_with (i\<lparr>ti_name := name, ti_issuer := url, ti_audiences := audiences, ti_rules := rules\<rparr>))))))"

section \<open>Requests\<close>

definition list_issuers_now :: "('w, 'o) manage_env \<Rightarrow> ('w, 'o, (trusted_issuer \<times> bool) list) flow" where
  "list_issuers_now M = and_then (call (tn_list_issuers (mg_token M))) (\<lambda>stored.
     done_with (list_trusted_issuers (tn_static_issuers (mg_token M)) stored))"

definition list_managed_issuers :: "('w, 'o) manage_env \<Rightarrow> 'o user \<Rightarrow> ('w, 'o, (trusted_issuer \<times> bool) list) flow" where
  "list_managed_issuers M u = and_then (from_result (check_issuer_admin u)) (\<lambda>_. list_issuers_now M)"

definition create_issuer :: "('w, 'o) manage_env \<Rightarrow> 'o user \<Rightarrow> trusted_issuer \<Rightarrow> ('w, 'o, trusted_issuer \<times> bool) flow" where
  "create_issuer M u i =
     and_then (from_result (check_issuer_admin u)) (\<lambda>_.
     and_then (validate_issuer M i None) (\<lambda>i.
     and_then (random_string_of M PROVIDER_ID_LENGTH) (\<lambda>new_id.
     and_then (call (mg_create_trusted_issuer M (i\<lparr>ti_id := new_id\<rparr>))) (\<lambda>_.
     done_with (i\<lparr>ti_id := new_id\<rparr>, False)))))"

definition resolve_managed_issuer :: "('w, 'o) manage_env \<Rightarrow> string \<Rightarrow> ('w, 'o, trusted_issuer) flow" where
  "resolve_managed_issuer M i =
     and_then (list_issuers_now M) (\<lambda>issuers.
     and_then (required NOT_FOUND (''No trusted issuer with id '' @ quoted i) (List.find (\<lambda>r. ti_id (fst r) = i) issuers)) (\<lambda>r.
     if snd r then refuse BAD_REQUEST (''Issuer '' @ quoted (ti_name (fst r)) @
       '' comes from the app configuration and is read only'')
     else done_with (fst r)))"

definition update_issuer :: "('w, 'o) manage_env \<Rightarrow> 'o user \<Rightarrow> trusted_issuer \<Rightarrow> ('w, 'o, trusted_issuer \<times> bool) flow" where
  "update_issuer M u i =
     and_then (from_result (check_issuer_admin u)) (\<lambda>_.
     and_then (resolve_managed_issuer M (ti_id i)) (\<lambda>existing.
     and_then (validate_issuer M i (Some existing)) (\<lambda>i.
     let i = i\<lparr>ti_id := ti_id existing\<rparr> in
     and_then (call (mg_update_trusted_issuer M i)) (\<lambda>_.
     and_then (call (mg_evict_verification_keys M (ti_id i))) (\<lambda>_.
     and_then (call (mg_sync_workload_users M (ti_id i) (access_of_issuer i))) (\<lambda>_.
     done_with (i, False)))))))"

definition delete_issuer :: "('w, 'o) manage_env \<Rightarrow> 'o user \<Rightarrow> string \<Rightarrow> ('w, 'o, unit) flow" where
  "delete_issuer M u i =
     and_then (from_result (check_issuer_admin u)) (\<lambda>_.
     and_then (resolve_managed_issuer M i) (\<lambda>issuer.
     and_then (call (mg_delete_trusted_issuer M (ti_id issuer))) (\<lambda>_.
     call (mg_evict_verification_keys M (ti_id issuer)))))"

text \<open>\<open>sync_all_workload_users\<close>, when the app starts.\<close>

fun sync_issuers :: "('w, 'o) manage_env \<Rightarrow> (trusted_issuer \<times> bool) list \<Rightarrow> ('w, 'o, unit) flow" where
  "sync_issuers M [] = done_with ()"
| "sync_issuers M (r # rs) =
     and_then (call (mg_sync_workload_users M (ti_id (fst r)) (access_of_issuer (fst r)))) (\<lambda>_. sync_issuers M rs)"

definition sync_all_workload_users :: "('w, 'o) manage_env \<Rightarrow> ('w, 'o, unit) flow" where
  "sync_all_workload_users M = and_then (list_issuers_now M) (sync_issuers M)"

end
