(* ===== verification/Manage.thy ===== *)
theory Manage
  imports ManageIssuers
begin

text \<open>
  The management API, \<^verbatim>\<open>auth/server/src/api/manage/mod.rs\<close> and \<^verbatim>\<open>middleware.rs\<close>: its requests,
  the middleware which finds the user, the checks before a request is resolved, and the handler. The
  state is the middleware's (the failures counted for the client's address) and the flows'; both act on one world.
\<close>

section \<open>Requests\<close>

datatype 'o manage_request =
    Get_User_Id
  | Update_Username string
  | Update_Password string
  | Begin_External_Login_Link
  | Unlink_Local_Login
  | Unlink_External_Login string
  | List_External_Login_Providers
  | Create_External_Login_Provider create_provider_request
  | Update_External_Login_Provider update_provider_request
  | Delete_External_Login_Provider string
  | List_Trusted_Issuers
  | Create_Trusted_Issuer trusted_issuer
  | Update_Trusted_Issuer trusted_issuer
  | Delete_Trusted_Issuer string
  | Begin_Passkey_Enrollment
  | Confirm_Passkey_Enrollment 'o
  | Unenroll_Passkey
  | Begin_Totp_Enrollment
  | Confirm_Totp_Enrollment string
  | Unenroll_Totp
  | Update_External_Skip_2fa bool
  | Create_Api_Key create_api_key_request
  | Delete_Api_Key string
  | Create_Signing_Key create_signing_key_request
  | Delete_Signing_Key string

datatype 'o manage_response =
    User_Is user_id
  | No_Data
  | Provider_Items "provider_list_item list"
  | Issuer_Items "(trusted_issuer \<times> bool) list"
  | Passkey_Challenge 'o
  | Totp_Enrollment string string
  | Recovery_Codes "string list"
  | New_Api_Key string string
  | New_Signing_Key "string option"

abbreviation giving :: "('w, 'o, 'a) flow \<Rightarrow> ('a \<Rightarrow> 'o manage_response) \<Rightarrow> ('w, 'o, 'o manage_response) flow" where
  "giving m f \<equiv> and_then m (\<lambda>x. done_with (f x))"

fun resolve_manage :: "('w, 'o) manage_env \<Rightarrow> 'o user \<Rightarrow> 'o manage_request \<Rightarrow> ('w, 'o, 'o manage_response) flow" where
  "resolve_manage M u Get_User_Id = done_with (User_Is (us_id u))"
| "resolve_manage M u (Update_Username name) = giving (update_username M u name) (\<lambda>_. No_Data)"
| "resolve_manage M u (Update_Password password) = giving (update_password M u password) (\<lambda>_. No_Data)"
| "resolve_manage M u Begin_External_Login_Link = giving (begin_external_login_link M u) (\<lambda>_. No_Data)"
| "resolve_manage M u Unlink_Local_Login = giving (unlink_local_login M u) (\<lambda>_. No_Data)"
| "resolve_manage M u (Unlink_External_Login provider_id) = giving (unlink_external_login M u provider_id) (\<lambda>_. No_Data)"
| "resolve_manage M u List_External_Login_Providers = giving (list_providers M u) Provider_Items"
| "resolve_manage M u (Create_External_Login_Provider q) = giving (create_provider M u q) (\<lambda>i. Provider_Items [i])"
| "resolve_manage M u (Update_External_Login_Provider q) = giving (update_provider M u q) (\<lambda>i. Provider_Items [i])"
| "resolve_manage M u (Delete_External_Login_Provider i) = giving (delete_provider M u i) (\<lambda>_. No_Data)"
| "resolve_manage M u List_Trusted_Issuers = giving (list_managed_issuers M u) Issuer_Items"
| "resolve_manage M u (Create_Trusted_Issuer i) = giving (create_issuer M u i) (\<lambda>i. Issuer_Items [i])"
| "resolve_manage M u (Update_Trusted_Issuer i) = giving (update_issuer M u i) (\<lambda>i. Issuer_Items [i])"
| "resolve_manage M u (Delete_Trusted_Issuer i) = giving (delete_issuer M u i) (\<lambda>_. No_Data)"
| "resolve_manage M u Begin_Passkey_Enrollment = giving (begin_passkey_enrollment M u) Passkey_Challenge"
| "resolve_manage M u (Confirm_Passkey_Enrollment credential) = giving (confirm_passkey_enrollment M u credential) (\<lambda>_. No_Data)"
| "resolve_manage M u Unenroll_Passkey = giving (unenroll_passkey M u) (\<lambda>_. No_Data)"
| "resolve_manage M u Begin_Totp_Enrollment = giving (begin_totp_enrollment M u) (\<lambda>(uri, png). Totp_Enrollment uri png)"
| "resolve_manage M u (Confirm_Totp_Enrollment code) = giving (confirm_totp_enrollment M u code) Recovery_Codes"
| "resolve_manage M u Unenroll_Totp = giving (unenroll_totp M u) (\<lambda>_. No_Data)"
| "resolve_manage M u (Update_External_Skip_2fa skip) = giving (update_external_skip_2fa M u skip) (\<lambda>_. No_Data)"
| "resolve_manage M u (Create_Api_Key body) = giving (create_api_key M (us_id u) body) (\<lambda>(key, secret). New_Api_Key key secret)"
| "resolve_manage M u (Delete_Api_Key key) = giving (delete_api_key M (us_id u) key) (\<lambda>_. No_Data)"
| "resolve_manage M u (Create_Signing_Key body) = giving (create_signing_key M (us_id u) body) New_Signing_Key"
| "resolve_manage M u (Delete_Signing_Key public_key) = giving (delete_signing_key M (us_id u) public_key) (\<lambda>_. No_Data)"

section \<open>What a request needs\<close>

definition check_not_workload :: "'o user \<Rightarrow> 'o manage_request \<Rightarrow> failure + unit" where
  "check_not_workload u q = (if \<not> us_workload u \<or> q = Get_User_Id then Inr ()
     else Inl (Failure FORBIDDEN (Some ''Workload users can't use the auth management API'')))"

fun requires_recent_login :: "'o manage_request \<Rightarrow> bool" where
  "requires_recent_login Get_User_Id = False"
| "requires_recent_login List_External_Login_Providers = False"
| "requires_recent_login List_Trusted_Issuers = False"
| "requires_recent_login (Delete_Api_Key _) = False"
| "requires_recent_login (Delete_Signing_Key _) = False"
| "requires_recent_login _ = True"

fun manages_resources :: "'o manage_request \<Rightarrow> bool" where
  "manages_resources (Create_External_Login_Provider _) = True"
| "manages_resources (Update_External_Login_Provider _) = True"
| "manages_resources (Delete_External_Login_Provider _) = True"
| "manages_resources (Create_Trusted_Issuer _) = True"
| "manages_resources (Update_Trusted_Issuer _) = True"
| "manages_resources (Delete_Trusted_Issuer _) = True"
| "manages_resources _ = False"

definition REAUTHENTICATION_REQUIRED :: string where "REAUTHENTICATION_REQUIRED = ''Reauthentication required''"

definition check_credential_kind :: "unix_secs option \<Rightarrow> 'o manage_request \<Rightarrow> failure + unit" where
  "check_credential_kind logged_in_at q =
     (if logged_in_at \<noteq> None \<or> \<not> requires_recent_login q \<or> manages_resources q then Inr ()
      else Inl (Failure FORBIDDEN (Some (REAUTHENTICATION_REQUIRED @
        '': this needs a recent login, credentials without a login (api keys, signing keys) can't be used for it''))))"

definition format_window :: "nat \<Rightarrow> string" where
  "format_window window =
     (if 120 \<le> window \<and> 60 dvd window then show_nat (window div 60) @ '' minutes'' else show_nat window @ '' seconds'')"

definition check_recent_login ::
  "nat \<Rightarrow> nat \<Rightarrow> unix_secs option \<Rightarrow> unix_secs \<Rightarrow> 'o manage_request \<Rightarrow> failure + unit" where
  "check_recent_login window_secs leeway_secs logged_in_at now q =
     (if window_secs = 0 \<or> \<not> requires_recent_login q then Inr ()
      else case logged_in_at of
        None \<Rightarrow> Inr ()
      | Some at \<Rightarrow>
          if at \<le> saturating_add now leeway_secs \<and> now - at \<le> window_secs then Inr ()
          else Inl (Failure FORBIDDEN (Some (REAUTHENTICATION_REQUIRED @
            '': log in again to continue, this needs a login within the last '' @ format_window window_secs))))"

section \<open>The server\<close>

record ('w, 'o) manage_server =
  ma_env :: "('w, 'o) manage_env"
  ma_mw :: "('w, 'o) mw_env"
  ma_window_secs :: nat
  ma_from_json :: "json \<Rightarrow> 'o manage_request option"     \<comment> \<open>\<^verbatim>\<open>serde\<close>\<close>
  ma_from_slice :: "string \<Rightarrow> json option"
  ma_extract_json :: "header_map \<Rightarrow> string \<Rightarrow> failure + json"   \<comment> \<open>the \<open>Json\<close> extractor\<close>

type_synonym ('w, 'o) manage_state = "'w mw_state \<times> ('w, 'o) login_state"

text \<open>What the middleware hands on: the request, its user, and when that user logged in.\<close>

definition login_time :: "('w, 'o) mw_env \<Rightarrow> request_authentication \<Rightarrow> ('w, unix_secs option) mw" where
  "login_time M a = (case a of
     Auth_Jwt jwt \<Rightarrow> and_then (now_is (ae_unix_secs (mw_auth M))) (\<lambda>now.
       done_with (map_option authenticated_at (decode_claims (ae_lib (mw_auth M)) (ae_jwt (mw_auth M)) now jwt)))
   | _ \<Rightarrow> done_with None)"

definition check_disabled_user_request :: "('w, 'o) manage_server \<Rightarrow> 'o request \<Rightarrow> ('w, 'o request) mw" where
  "check_disabled_user_request A rq =
     and_then (if rq_path rq = ''/GetUserId'' then done_with (rq, True)
       else if rq_path rq = ''/'' then
         and_then (read_request_body (ma_mw A) None rq) (\<lambda>(rq, body).
         done_with (rq, Option.bind (ma_from_slice A body) (ma_from_json A) = Some Get_User_Id))
       else done_with (rq, False)) (\<lambda>(rq, get_user_id).
     if get_user_id then done_with rq else rejected FORBIDDEN ''User is not enabled'')"

definition attach_user ::
  "('w, 'o) manage_server \<Rightarrow> ip_addr \<Rightarrow> 'o request \<Rightarrow> ('w, 'o request \<times> 'o user \<times> unix_secs option) mw" where
  "attach_user A ip rq =
     and_then (read_signed_request_body (ma_mw A) rq) (\<lambda>(rq, body).
     and_then (extract_request_authentication_rate_limited (ma_mw A) rq body) (\<lambda>req_auth.
     and_then (login_time (ma_mw A) req_auth) (\<lambda>logged_in_at.
     and_then (with_rate_limit (ma_mw A) (get_user_from_request_authentication (ma_mw A) req_auth ip)) (\<lambda>user.
     and_then (if us_enabled user then done_with rq else check_disabled_user_request A rq) (\<lambda>rq.
     done_with (rq, user, logged_in_at))))))"

definition parse_variant_request :: "('w, 'o) manage_server \<Rightarrow> string \<Rightarrow> json \<Rightarrow> failure + 'o manage_request" where
  "parse_variant_request A variant params =
     ok_or (Failure BAD_REQUEST (Some ''Invalid request''))
       (ma_from_json A (JObject [(''type'', JString variant), (''params'', params)]))"

definition handle_manage ::
  "('w, 'o) manage_server \<Rightarrow> 'o user \<Rightarrow> unix_secs option \<Rightarrow> 'o manage_request \<Rightarrow> ('w, 'o, 'o manage_response) flow" where
  "handle_manage A u logged_in_at q =
     and_then (from_result (check_not_workload u q)) (\<lambda>_.
     and_then (from_result (check_credential_kind logged_in_at q)) (\<lambda>_.
     and_then (asking (ae_unix_secs (mg_auth (ma_env A)))) (\<lambda>now.
     and_then (from_result (check_recent_login (ma_window_secs A)
       (jl_leeway (ae_lib (mg_auth (ma_env A))) (jwt_validation (ae_jwt (mg_auth (ma_env A))))) logged_in_at now q)) (\<lambda>_.
     resolve_manage (ma_env A) u q))))"

text \<open>The routes \<open>POST /\<close> and \<open>POST /{variant}\<close>: the body is read, parsed, and handled.\<close>

definition UNPROCESSABLE_ENTITY :: status where "UNPROCESSABLE_ENTITY = 422"

definition parse_manage_request :: "('w, 'o) manage_server \<Rightarrow> string \<Rightarrow> json \<Rightarrow> failure + 'o manage_request" where
  "parse_manage_request A path v =
     (if path = ''/'' then ok_or (Failure UNPROCESSABLE_ENTITY None) (ma_from_json A v)
      else parse_variant_request A (tl path) v)"

definition read_manage_request :: "('w, 'o) manage_server \<Rightarrow> 'o request \<Rightarrow> ('w, 'o manage_request) mw" where
  "read_manage_request A rq =
     (if CHR ''/'' \<in> set (tl (rq_path rq)) then from_result (Inl (Failure NOT_FOUND None))
      else and_then (read_request_body (ma_mw A) None rq) (\<lambda>(rq, body).
        and_then (from_result (ma_extract_json A (rq_headers rq) body)) (\<lambda>v.
        from_result (parse_manage_request A (rq_path rq) v))))"

definition manage_api ::
  "('w, 'o) manage_server \<Rightarrow> ip_addr \<Rightarrow> 'o request \<Rightarrow> ('w, 'o) manage_state \<Rightarrow> (failure + 'o manage_response) \<times> ('w, 'o) manage_state" where
  "manage_api A ip rq = (\<lambda>(s, t).
     case attach_user A ip rq s of
       (Inl e, s) \<Rightarrow> (Inl e, s, t)
     | (Inr (rq, u, logged_in_at), s) \<Rightarrow>
         (case read_manage_request A rq s of
            (Inl e, s) \<Rightarrow> (Inl e, s, t)
          | (Inr q, s) \<Rightarrow>
              (case handle_manage A u logged_in_at q (t\<lparr>ls_world := ms_world s\<rparr>) of
                 (r, t) \<Rightarrow> (r, s\<lparr>ms_world := ls_world t\<rparr>, t))))"

end
