(* ===== verification/ManageDemo.thy ===== *)
theory ManageDemo
  imports "HOL-Library.Countable" Manage RequestAuthProps TokenExchangeProps
begin

text \<open>
  A server for the demonstrations of the management API: its users are those of LoginDemo, a body is its code as a
  number, and a request is known by its tag.
\<close>

definition demo_urls_all :: "demo_value urls" where
  "demo_urls_all = \<lparr>url_parse = (\<lambda>s. Some (V4 0, length s)), url_scheme_of = (\<lambda>_. ''https''), url_username = (\<lambda>_. []),
     url_password = (\<lambda>_. None), url_set_username = (\<lambda>u _. Some u), url_clear_password = Some, url_text = (\<lambda>_. [])\<rparr>"

definition demo_manage :: "(nat, demo_value) manage_env" where
  "demo_manage = \<lparr>mg_token = demo_token_env\<lparr>tn_ext := demo_external, tn_static_issuers := [], tn_list_issuers := (\<lambda>w. (Inr [demo_issuer], w))\<rparr>,
     mg_pki = demo_client_pki, mg_urls = demo_urls_all, mg_parse_jwks = (\<lambda>_. Some 1), mg_path = ''/auth'',
     mg_api_key_secret_length = 40, mg_api_secret_bcrypt_cost = 10,
     mg_random_bytes = (\<lambda>n w. (replicate n 7, w)), mg_bcrypt_hash_at = (\<lambda>_ s w. (Inr (''#'' @ s), w)),
     mg_generate_keypair = (\<lambda>_ w. (Some (replicate 32 9, replicate 32 9), w)),
     mg_make_totp = (\<lambda>_ _. Inr (V4 0, 1)), mg_totp_secret = (\<lambda>_. ''SECRET''), mg_totp_png = (\<lambda>_. Some ''png''),
     mg_totp_uri = (\<lambda>_. Some ''uri''), mg_start_registration = (\<lambda>_ _. Inl (Failure INTERNAL_SERVER_ERROR None)),
     mg_finish_registration = (\<lambda>_ _ _. Inl (Failure INTERNAL_SERVER_ERROR None)),
     mg_update_username = (\<lambda>_ _ w. (Inr (), w)), mg_update_password = (\<lambda>_ _ w. (Inr (), w)),
     mg_update_stored_totp = (\<lambda>_ _ _ w. (Inr (), w)), mg_remove_stored_totp = (\<lambda>_ w. (Inr (), w)),
     mg_update_stored_passkey = (\<lambda>_ _ w. (Inr (), w)), mg_update_external_skip_2fa = (\<lambda>_ _ w. (Inr (), w)),
     mg_unlink_local_login = (\<lambda>_ w. (Inr (), w)), mg_unlink_external_login = (\<lambda>_ _ w. (Inr (), w)),
     mg_create_api_key = (\<lambda>_ _ _ _ w. (Inr (), w)),
     mg_get_api_key_owner_id = (\<lambda>k w. (if k = ''K_1_K'' then Inr ''ann'' else Inl (Failure NOT_FOUND None), w)),
     mg_delete_api_key = (\<lambda>_ w. (Inr (), w)), mg_create_signing_key = (\<lambda>_ _ _ w. (Inr (), w)),
     mg_get_signing_key_owner_id = (\<lambda>_ w. (Inl (Failure NOT_FOUND None), w)), mg_delete_signing_key = (\<lambda>_ w. (Inr (), w)),
     mg_get_external_provider = (\<lambda>i w. (Inr (if i = ''p1'' then Some (demo_github ''p1'' ''p'') else None), w)),
     mg_create_external_provider = (\<lambda>_ w. (Inr (), w)), mg_update_external_provider = (\<lambda>_ w. (Inr (), w)),
     mg_delete_external_provider = (\<lambda>_ w. (Inr (), w)), mg_evict_built_provider = (\<lambda>_ w. (Inr (), w)),
     mg_create_trusted_issuer = (\<lambda>_ w. (Inr (), w)), mg_update_trusted_issuer = (\<lambda>_ w. (Inr (), w)),
     mg_delete_trusted_issuer = (\<lambda>_ w. (Inr (), w)), mg_evict_verification_keys = (\<lambda>_ w. (Inr (), w)),
     mg_sync_workload_users = (\<lambda>_ _ w. (Inr (), w))\<rparr>"

definition demo_web_mw :: "(nat, demo_value) mw_env" where
  "demo_web_mw = demo_mw\<lparr>mw_read_body := (\<lambda>_ b w. (Inr (from_nat (snd b)), w)), mw_body_of := (\<lambda>b. (V4 0, to_nat b))\<rparr>"

definition demo_api :: "(nat, demo_value) manage_server" where
  "demo_api = \<lparr>ma_env = demo_manage, ma_mw = demo_web_mw, ma_window_secs = 900,
     ma_from_json = (\<lambda>v. case v of JObject ((k, JString tag) # _) \<Rightarrow>
       if k = ''type'' \<and> tag = ''GetUserId'' then Some Get_User_Id else Some Unlink_Local_Login | _ \<Rightarrow> None),
     ma_from_slice = (\<lambda>_. Some (JObject [])), ma_extract_json = (\<lambda>_ _. Inr (JObject []))\<rparr>"

lemma demo_manage_sel [simp]:
  "mg_token demo_manage = demo_token_env\<lparr>tn_ext := demo_external, tn_static_issuers := [], tn_list_issuers := (\<lambda>w. (Inr [demo_issuer], w))\<rparr>"
  "mg_pki demo_manage = demo_client_pki" "mg_urls demo_manage = demo_urls_all"
  "mg_bcrypt_hash_at demo_manage c t w = (Inr (''#'' @ t), w)" "mg_totp_secret demo_manage totp = ''SECRET''"
  "mg_update_stored_totp demo_manage u sec codes w = (Inr (), w)"
  "mg_get_api_key_owner_id demo_manage k w = (if k = ''K_1_K'' then Inr ''ann'' else Inl (Failure NOT_FOUND None), w)"
  "mg_create_signing_key demo_manage u b k w = (Inr (), w)"
  "mg_get_signing_key_owner_id demo_manage k w = (Inl (Failure NOT_FOUND None), w)"
  "mg_get_external_provider demo_manage i w = (Inr (if i = ''p1'' then Some (demo_github ''p1'' ''p'') else None), w)"
  "mg_create_external_provider demo_manage p w = (Inr (), w)" "mg_update_external_provider demo_manage p w = (Inr (), w)"
  "mg_evict_built_provider demo_manage i w = (Inr (), w)" "mg_update_trusted_issuer demo_manage iss w = (Inr (), w)"
  "mg_evict_verification_keys demo_manage i w = (Inr (), w)" "mg_sync_workload_users demo_manage i a w = (Inr (), w)"
  "mg_generate_keypair demo_manage ps w = (Some (replicate 32 9, replicate 32 9), w)"
  by (simp_all add: demo_manage_def)

definition demo_admin :: "demo_value user" where
  "demo_admin = (demo_user ''bob'' None)\<lparr>us_admin := True\<rparr>"

end
