(* ===== verification/ManageProps.thy ===== *)
theory ManageProps
  imports ManageDemo
begin

text \<open>
  What is proved of the management API: whose requests are resolved and which need a recent login, which are
  refused at once, and what the enrollment of a TOTP ends in.
\<close>

section \<open>Who gets through to a request\<close>

text \<open>
  What is relied on: the middleware and the handlers are of one app; a body put back is read again as it was;
  and of \<^verbatim>\<open>serde\<close>, that the tag decides the request, and that the extractor parses the text.
\<close>

definition manage_laws :: "('w, 'o) manage_server \<Rightarrow> bool" where
  "manage_laws A \<longleftrightarrow> mw_auth (ma_mw A) = mg_auth (ma_env A) \<and>
     (\<forall>b b' w w'. mw_read_body (ma_mw A) None (mw_body_of (ma_mw A) b) w = (Inr b', w') \<longrightarrow> b' = b) \<and>
     (\<forall>params q. ma_from_json A (JObject [(''type'', JString ''GetUserId''), (''params'', params)]) = Some q \<longrightarrow> q = Get_User_Id) \<and>
     (\<forall>h b v. ma_extract_json A h b = Inr v \<longrightarrow> ma_from_slice A b = Some v)"

text \<open>
  The requests which only read, and the ones which take a key away: no login is needed for them. The ones
  on login providers and trusted issuers, which a key may make. All others change how somebody logs in.
\<close>

definition harmless :: "'o manage_request set" where
  "harmless = {Get_User_Id, List_External_Login_Providers, List_Trusted_Issuers} \<union> range Delete_Api_Key \<union> range Delete_Signing_Key"

definition on_providers :: "'o manage_request set" where
  "on_providers =
     range Create_External_Login_Provider \<union> range Update_External_Login_Provider \<union> range Delete_External_Login_Provider \<union>
     range Create_Trusted_Issuer \<union> range Update_Trusted_Issuer \<union> range Delete_Trusted_Issuer"

definition recent_enough :: "('w, 'o) manage_server \<Rightarrow> unix_secs option \<Rightarrow> unix_secs \<Rightarrow> 'o manage_request \<Rightarrow> bool" where
  "recent_enough A logged_in_at now q \<longleftrightarrow> q \<in> harmless \<or>
     (case logged_in_at of
        None \<Rightarrow> q \<in> on_providers
      | Some l \<Rightarrow> ma_window_secs A = 0 \<or> (now \<le> l + ma_window_secs A \<and>
          l \<le> now + jl_leeway (ae_lib (mg_auth (ma_env A))) (jwt_validation (ae_jwt (mg_auth (ma_env A))))))"

text \<open>The request the client sent: the variant its path names, or the one its body names.\<close>

definition asks :: "('w, 'o) manage_server \<Rightarrow> 'o request \<Rightarrow> 'o manage_request \<Rightarrow> bool" where
  "asks A rq q \<longleftrightarrow> (\<exists>body v. ma_extract_json A (rq_headers rq) body = Inr v \<and>
     ma_from_json A (if rq_path rq = ''/'' then v
       else JObject [(''type'', JString (tl (rq_path rq))), (''params'', v)]) = Some q)"

lemma needs_login: "requires_recent_login q \<longleftrightarrow> q \<notin> harmless" "manages_resources q \<longleftrightarrow> q \<in> on_providers"
  by (cases q; simp add: harmless_def on_providers_def image_iff)+

lemma handle_manage_cases:
  assumes "handle_manage A u l q t = (r, t')"
  shows "(\<not> us_workload u \<or> q = Get_User_Id) \<and> recent_enough A l (ae_unix_secs (mg_auth (ma_env A)) (ls_world t)) q \<and>
      resolve_manage (ma_env A) u q t = (r, t') \<or> isl r \<and> t' = t"
  using assms
  by (auto simp: handle_manage_def and_then_def from_result_def asking_def check_not_workload_def check_credential_kind_def
      check_recent_login_def recent_enough_def needs_login saturating_add_def split: if_splits option.splits)

lemma login_time_ok:
  assumes "login_time M a s = (Inr l, s')"
  shows "s' = s \<and> (case a of
      Auth_Jwt jwt \<Rightarrow> l = map_option authenticated_at
        (decode_claims (ae_lib (mw_auth M)) (ae_jwt (mw_auth M)) (ae_unix_secs (mw_auth M) (ms_world s)) jwt)
    | _ \<Rightarrow> l = None)"
  using assms by (cases a) (auto simp: login_time_def and_then_ok now_is_def)

text \<open>The credential of the request, when it logged in, and its user.\<close>

definition authenticates ::
  "('w, 'o) manage_server \<Rightarrow> ip_addr \<Rightarrow> 'o request \<Rightarrow> 'w mw_state \<Rightarrow> request_authentication \<Rightarrow> unix_secs option \<Rightarrow> 'o user \<Rightarrow>
     'o request \<Rightarrow> 'w mw_state \<Rightarrow> bool" where
  "authenticates A ip rq s a l u rq1 s2 \<longleftrightarrow> (\<exists>b s0 s1 sa.
     read_signed_request_body (ma_mw A) rq s = (Inr (rq1, b), s0) \<and>
     extract_request_authentication_rate_limited (ma_mw A) rq1 b s0 = (Inr a, s1) \<and>
     login_time (ma_mw A) a s1 = (Inr l, s1) \<and>
     ms_world sa = ms_world s1 \<and> get_user_from_request_authentication (ma_mw A) a ip sa = (Inr u, s2))"

lemma attach_user_ok:
  assumes "attach_user A ip rq s = (Inr (rq', u, l), s')"
  shows "\<exists>a rq1 s2. authenticates A ip rq s a l u rq1 s2 \<and>
      (if us_enabled u then rq' = rq1 \<and> s' = s2 else check_disabled_user_request A rq1 s2 = (Inr rq', s'))"
proof -
  obtain rq1 b s0 a s1 s1b s2 where *: "read_signed_request_body (ma_mw A) rq s = (Inr (rq1, b), s0)"
    "extract_request_authentication_rate_limited (ma_mw A) rq1 b s0 = (Inr a, s1)"
    "login_time (ma_mw A) a s1 = (Inr l, s1b)"
    "with_rate_limit (ma_mw A) (get_user_from_request_authentication (ma_mw A) a ip) s1b = (Inr u, s2)"
    "(if us_enabled u then done_with rq1 else check_disabled_user_request A rq1) s2 = (Inr rq', s')"
    using assms by (auto simp: attach_user_def and_then_ok split: prod.splits)
  have same: "s1b = s1" using login_time_ok [OF *(3)] by blast
  obtain sa where "ms_world sa = ms_world s1" "get_user_from_request_authentication (ma_mw A) a ip sa = (Inr u, s2)"
    using with_rate_limit_ok [OF *(4)] same by blast
  then have "authenticates A ip rq s a l u rq1 s2" using * same unfolding authenticates_def by blast
  then show ?thesis using *(5) by (intro exI [of _ a] exI [of _ rq1] exI [of _ s2]) (simp split: if_splits)
qed

lemma check_disabled_user_request_ok:
  assumes "check_disabled_user_request A rq s = (Inr rq', s')"
  shows "rq_path rq' = rq_path rq \<and> rq_headers rq' = rq_headers rq \<and>
    (rq_path rq = ''/GetUserId'' \<or>
     rq_path rq = ''/'' \<and> (\<exists>b. rq_body rq' = mw_body_of (ma_mw A) b \<and>
       Option.bind (ma_from_slice A b) (ma_from_json A) = Some Get_User_Id))"
  using assms
  by (auto simp: check_disabled_user_request_def read_request_body_def and_then_ok rejected_def split: if_splits prod.splits)

lemma read_manage_request_ok:
  assumes "read_manage_request A rq s = (Inr q, s')"
  shows "\<exists>body v w. mw_read_body (ma_mw A) None (rq_body rq) (ms_world s) = (Inr body, w) \<and>
    ma_extract_json A (rq_headers rq) body = Inr v \<and> parse_manage_request A (rq_path rq) v = Inr q"
  using assms
  by (auto simp: read_manage_request_def read_request_body_def and_then_ok app_def split: if_splits prod.splits)

lemma disabled_reads_get_user_id:
  assumes "manage_laws A" "check_disabled_user_request A rq1 s1 = (Inr rq, s2)" "read_manage_request A rq s3 = (Inr q, s4)"
  shows "q = Get_User_Id"
proof -
  obtain body v w where read: "mw_read_body (ma_mw A) None (rq_body rq) (ms_world s3) = (Inr body, w)"
    "ma_extract_json A (rq_headers rq) body = Inr v" "parse_manage_request A (rq_path rq) v = Inr q"
    using read_manage_request_ok [OF assms(3)] by blast
  show ?thesis
  proof (cases "rq_path rq1 = ''/GetUserId''")
    case True
    then have "rq_path rq = ''/GetUserId''" using check_disabled_user_request_ok [OF assms(2)] by simp
    then show ?thesis using read(3) assms(1) by (auto simp: parse_manage_request_def parse_variant_request_def ok_or_Inr_iff manage_laws_def)
  next
    case False
    then obtain b where b: "rq_path rq = ''/''" "rq_body rq = mw_body_of (ma_mw A) b"
      "Option.bind (ma_from_slice A b) (ma_from_json A) = Some Get_User_Id"
      using check_disabled_user_request_ok [OF assms(2)] by auto
    then have "body = b" using read(1) assms(1) by (simp add: manage_laws_def) blast
    then have "ma_from_slice A b = Some v" using read(2) assms(1) by (auto simp: manage_laws_def)
    then show ?thesis using b read(3) by (simp add: parse_manage_request_def ok_or_Inr_iff)
  qed
qed

lemma asks_of_read:
  assumes "read_manage_request A rq1 s = (Inr q, s')" "rq_path rq1 = rq_path rq" "rq_headers rq1 = rq_headers rq"
  shows "asks A rq q"
  using read_manage_request_ok [OF assms(1)] assms(2,3)
  by (auto simp: asks_def parse_manage_request_def parse_variant_request_def ok_or_Inr_iff split: if_splits)

lemma authenticates_same:
  assumes "authenticates A ip rq s a l u rq1 s1"
  shows "rq_path rq1 = rq_path rq \<and> rq_headers rq1 = rq_headers rq"
  using assms read_signed_request_body_ok
  by (fastforce simp: authenticates_def signed_at_def split: if_splits)

text \<open>
  C26: a request of the management API is resolved only as what its path or its body asks for, for the user its
  credential stands for, from an address in the user's whitelist; a disabled user and a workload are resolved only
  \<open>GetUserId\<close>. Everything but reading (the user's id, the lists of providers and of issuers) and deleting a key
  needs a token with a login, or, where it creates, updates or deletes a provider or an issuer, may also come
  with a key; and that login must lie within the app's window, unless the app set the window to zero, which
  turns this check off. Every other request is refused and changes nothing of the session and the accounts.
\<close>

theorem manage_request_gated:
  assumes "manage_laws A" "manage_api A ip rq (s, t) = (r, s', t')"
  shows "(\<exists>a l u rq1 s1 q w. authenticates A ip rq s a l u rq1 s1 \<and> asks A rq q \<and>
      check_cidr_whitelist (ae_net (mg_auth (ma_env A))) ip (us_cidr_whitelist u) = Inr () \<and>
      (us_enabled u \<or> q = Get_User_Id) \<and> (us_workload u \<longrightarrow> q = Get_User_Id) \<and>
      recent_enough A l (ae_unix_secs (mg_auth (ma_env A)) w) q \<and>
      resolve_manage (ma_env A) u q (t\<lparr>ls_world := w\<rparr>) = (r, t')) \<or>
    isl r \<and> ls_session t' = ls_session t \<and> ls_logins t' = ls_logins t \<and> ls_events t' = ls_events t \<and>
      ls_second t' = ls_second t \<and> (t' = t \<or> ls_world t' = ms_world s')"
proof -
  obtain x s1 where attach: "attach_user A ip rq s = (x, s1)" by (rule prod.exhaust)
  show ?thesis
  proof (cases x)
    case (Inl e)
    then show ?thesis using assms(2) attach by (auto simp: manage_api_def)
  next
    case (Inr y)
    then obtain rq' u l where y: "x = Inr (rq', u, l)" by (cases y) auto
    obtain z s2 where read: "read_manage_request A rq' s1 = (z, s2)" by (rule prod.exhaust)
    show ?thesis
    proof (cases z)
      case (Inl e)
      then show ?thesis using assms(2) attach y read by (auto simp: manage_api_def)
    next
      case (Inr q)
      obtain r' t2 where handle: "handle_manage A u l q (t\<lparr>ls_world := ms_world s2\<rparr>) = (r', t2)" by (rule prod.exhaust)
      then have eqs: "r = r'" "t' = t2" "s' = s2\<lparr>ms_world := ls_world t2\<rparr>"
        using assms(2) attach y read Inr by (auto simp: manage_api_def)
      obtain a rq1 su where a: "authenticates A ip rq s a l u rq1 su"
        "if us_enabled u then rq' = rq1 \<and> s1 = su else check_disabled_user_request A rq1 su = (Inr rq', s1)"
        using attach_user_ok [OF attach [unfolded y]] by blast
      have white: "check_cidr_whitelist (ae_net (mg_auth (ma_env A))) ip (us_cidr_whitelist u) = Inr ()"
        using a(1) user_in_whitelist assms(1) unfolding authenticates_def manage_laws_def by metis
      have enabled: "us_enabled u \<or> q = Get_User_Id"
        using a(2) disabled_reads_get_user_id [OF assms(1) _ read [unfolded Inr]] by (cases "us_enabled u") auto
      consider (refused) "isl r'" "t2 = t\<lparr>ls_world := ms_world s2\<rparr>"
        | (resolved) "us_workload u \<longrightarrow> q = Get_User_Id" "recent_enough A l (ae_unix_secs (mg_auth (ma_env A)) (ms_world s2)) q"
            "resolve_manage (ma_env A) u q (t\<lparr>ls_world := ms_world s2\<rparr>) = (r', t2)"
        using handle_manage_cases [OF handle] by auto
      then show ?thesis
      proof cases
        case refused
        then show ?thesis by (simp add: eqs)
      next
        case resolved
        moreover have "rq_path rq' = rq_path rq1 \<and> rq_headers rq' = rq_headers rq1"
        proof (cases "us_enabled u")
          case True
          then show ?thesis using a(2) by simp
        next
          case False
          then have "check_disabled_user_request A rq1 su = (Inr rq', s1)" using a(2) by simp
          from check_disabled_user_request_ok [OF this] show ?thesis by simp
        qed
        then have "asks A rq q" using asks_of_read [OF read [unfolded Inr]] authenticates_same [OF a(1)] by simp
        ultimately show ?thesis using a(1) white enabled unfolding eqs(1,2) by blast
      qed
    qed
  qed
qed

section \<open>Who may do what\<close>

text \<open>The requests which need an admin, and those which change how a user logs in.\<close>

fun configures :: "'o manage_request \<Rightarrow> bool" where
  "configures List_External_Login_Providers = True"
| "configures List_Trusted_Issuers = True"
| "configures q = manages_resources q"

fun changes_login :: "'o manage_request \<Rightarrow> bool" where
  "changes_login (Create_Api_Key _) = False"
| "changes_login (Create_Signing_Key _) = False"
| "changes_login q = (requires_recent_login q \<and> \<not> manages_resources q)"

definition locked :: "('w, 'o) manage_env \<Rightarrow> 'o user \<Rightarrow> bool" where
  "locked M u \<longleftrightarrow> us_username u \<in> set (ae_locked_usernames (mg_auth M)) \<or> ''__ALL__'' \<in> set (ae_locked_usernames (mg_auth M))"

lemma check_locked_refuses:
  "locked M u \<Longrightarrow> check_locked M u s = (Inl (Failure UNAUTHORIZED (Some ''Login credentials are locked for this user'')), s)"
  by (auto simp: locked_def check_locked_def check_username_locked_def refuse_def list_ex_iff)

lemma check_locked_ok: "check_locked M u s = (Inr x, s') \<longleftrightarrow> \<not> locked M u \<and> s' = s"
  by (auto simp: locked_def check_locked_def check_username_locked_def list_ex_iff)

lemmas first_step = and_then_stop [OF and_then_stop]

text \<open>
  C30: without being an admin nobody lists or changes the login providers and the trusted issuers, and the login
  of a locked user is not changed: the request is refused before anything else of it runs, whatever it says.
\<close>

theorem manage_refused_at_once:
  assumes "(configures q \<and> \<not> us_admin u) \<or> (changes_login q \<and> locked M u)"
  shows "\<exists>e. resolve_manage M u q s = (Inl e, s) \<and> failure_status e = (if configures q then FORBIDDEN else UNAUTHORIZED)"
  using assms
  by (cases q) (auto simp: check_locked_refuses and_then_def from_result_def check_provider_admin_def check_issuer_admin_def
      list_providers_def create_provider_def update_provider_def delete_provider_def list_managed_issuers_def create_issuer_def
      update_issuer_def delete_issuer_def update_username_def update_password_def begin_external_login_link_def
      unlink_local_login_def unlink_external_login_def begin_passkey_enrollment_def confirm_passkey_enrollment_def
      unenroll_passkey_def begin_totp_enrollment_def confirm_totp_enrollment_def unenroll_totp_def update_external_skip_2fa_def)

section \<open>Enrollments\<close>

lemma each_ok:
  assumes "each f xs s = (Inr ys, s')"
  shows "length ys = length xs"
  using assms by (induction xs arbitrary: ys s) (auto simp: and_then_ok)

lemma retrieved_enrollment:
  assumes "on_session (retrieve_totp_enrollment v) s = (r, s')"
  shows "as_totp_enrollment (ls_session s') = Absent \<and> ls_world s' = ls_world s \<and>
    (\<forall>totp. r = Inr totp \<longrightarrow> as_totp_enrollment (ls_session s) = Present (v, totp))"
  using assms
  by (cases "as_totp_enrollment (ls_session s)")
    (auto simp: on_session_def retrieve_totp_enrollment_def modified_def slot_required_def slot_get_def check_enrollment_user_def
      res_bind_Inr_iff ok_or_def split: if_splits)

lemma keeps_session:
  "preserves ls_session (call f)" "preserves ls_session (asking g)" "preserves ls_session (refuse st msg)"
  "preserves ls_session (done_with x)" "preserves ls_session (from_result r)" "preserves ls_session (draw h)"
  "preserves ls_session (required st msg y)"
  by (auto simp: preserves_def call_def asking_def refuse_def done_with_def from_result_def draw_def required_def
      split: prod.splits option.splits)

lemma preserves_done: "preserves g (done_with x)"
  by (simp add: preserves_def done_with_def)

lemma preserves_each: "(\<And>x. preserves g (f x)) \<Longrightarrow> preserves g (each f xs)"
  by (induction xs) (simp_all add: preserves_and_then preserves_done)

lemma confirm_totp_parts:
  "\<exists>rest. confirm_totp_enrollment M u code = and_then (check_locked M u) (\<lambda>_.
      and_then (on_session (retrieve_totp_enrollment (us_id u))) rest) \<and> (\<forall>totp. preserves ls_session (rest totp))"
  unfolding confirm_totp_enrollment_def hash_recovery_codes_def random_string_of_def
  by (rule exI, rule conjI, rule refl) (intro allI preserves_and_then preserves_catching preserves_each keeps_session)

text \<open>Each of the results is what the step gives for its element, whatever the world is at then.\<close>

lemma each_gives:
  "each f xs s = (Inr ys, s') \<Longrightarrow> list_all2 (\<lambda>x y. \<exists>t t'. f x t = (Inr y, t')) xs ys"
proof (induction xs arbitrary: ys s)
  case (Cons x xs)
  then obtain y s1 zs where "f x s = (Inr y, s1)" "each f xs s1 = (Inr zs, s')" "ys = y # zs" by (auto simp: and_then_ok done_with_def)
  then show ?case using Cons.IH by auto
qed (simp add: done_with_def)

text \<open>
  C27: a TOTP is stored only with a code of it which is valid now, for the user who began its enrollment in this
  session, with as many hashes as the answer has recovery codes, ten, each of them what bcrypt gave for the
  recovery code at its place, which was drawn at random by the length codes have. Whatever comes of a
  confirmation of a user who is not locked, the enrollment is over: its secret can't be tried again.
\<close>

theorem totp_enrollment_confirmed:
  assumes "confirm_totp_enrollment M u code s = (r, s')"
  shows "(\<not> locked M u \<longrightarrow> as_totp_enrollment (ls_session s') = Absent) \<and>
    (\<forall>codes. r = Inr codes \<longrightarrow>
      (\<exists>totp step hashes w1 w2. as_totp_enrollment (ls_session s) = Present (us_id u, totp) \<and>
        ae_check_totp (mg_auth M) totp code (ls_world s) = Some step \<and>
        length codes = 10 \<and>
        (\<forall>recovery \<in> set codes. \<exists>t t'. random_string_of M RECOVERY_CODE_LENGTH t = (Inr recovery, t')) \<and>
        list_all2 (\<lambda>recovery hash. \<exists>w. fst (mg_bcrypt_hash_at M RECOVERY_CODE_BCRYPT_COST recovery w) = Inr hash) codes hashes \<and>
        mg_update_stored_totp M (us_id u) (mg_totp_secret M totp) hashes w1 = (Inr (), w2)))"
proof (intro conjI impI allI)
  show "as_totp_enrollment (ls_session s') = Absent" if "\<not> locked M u"
  proof -
    obtain rest where rest: "confirm_totp_enrollment M u code = and_then (check_locked M u) (\<lambda>_.
        and_then (on_session (retrieve_totp_enrollment (us_id u))) rest)" "\<And>totp. preserves ls_session (rest totp)"
      using confirm_totp_parts [of M u code] by blast
    obtain q s1 where taken: "on_session (retrieve_totp_enrollment (us_id u)) s = (q, s1)" by (rule prod.exhaust)
    have "check_locked M u s = (Inr (), s)" using that by (simp add: check_locked_ok)
    then have "(case q of Inl e \<Rightarrow> (Inl e, s1) | Inr totp \<Rightarrow> rest totp s1) = (r, s')"
      using assms taken by (simp add: rest(1) and_then_def)
    then have "ls_session s' = ls_session s1" using preservesD [OF rest(2)] by (cases q) auto
    then show ?thesis using retrieved_enrollment [OF taken] by simp
  qed
  fix codes assume "r = Inr codes"
  then obtain totp s1 step s2 s3 hashes s4 where
    taken: "on_session (retrieve_totp_enrollment (us_id u)) s = (Inr totp, s1)" and
    step: "ae_check_totp (mg_auth M) totp code (ls_world s1) = Some step" and
    codes: "each (\<lambda>_. random_string_of M RECOVERY_CODE_LENGTH) [0..<RECOVERY_CODE_COUNT] s1 = (Inr codes, s2)" and
    hashes: "catching (hash_recovery_codes M codes) (\<lambda>_. refuse INTERNAL_SERVER_ERROR ''Failed to generate valid recovery codes'') s2 =
      (Inr hashes, s3)" and
    stored: "call (mg_update_stored_totp M (us_id u) (mg_totp_secret M totp) hashes) s3 = (Inr (), s4)"
    using assms by (auto simp: confirm_totp_enrollment_def and_then_ok check_locked_ok)
  have "each (\<lambda>code. call (mg_bcrypt_hash_at M RECOVERY_CODE_BCRYPT_COST code)) codes s2 = (Inr hashes, s3)"
    using hashes by (auto simp: catching_ok hash_recovery_codes_def)
  then have hashed: "list_all2 (\<lambda>recovery hash. \<exists>w. fst (mg_bcrypt_hash_at M RECOVERY_CODE_BCRYPT_COST recovery w) = Inr hash) codes hashes"
    by (auto dest!: each_gives simp: call_ok elim!: list_all2_mono) (metis fst_conv)
  have drawn: "\<forall>recovery \<in> set codes. \<exists>t t'. random_string_of M RECOVERY_CODE_LENGTH t = (Inr recovery, t')"
    using each_gives [OF codes] by (auto simp: list_all2_conv_all_nth in_set_conv_nth)
  have "length codes = 10" using each_ok [OF codes] by (simp add: RECOVERY_CODE_COUNT_def)
  then show "\<exists>totp step hashes w1 w2. as_totp_enrollment (ls_session s) = Present (us_id u, totp) \<and>
        ae_check_totp (mg_auth M) totp code (ls_world s) = Some step \<and>
        length codes = 10 \<and>
        (\<forall>recovery \<in> set codes. \<exists>t t'. random_string_of M RECOVERY_CODE_LENGTH t = (Inr recovery, t')) \<and>
        list_all2 (\<lambda>recovery hash. \<exists>w. fst (mg_bcrypt_hash_at M RECOVERY_CODE_BCRYPT_COST recovery w) = Inr hash) codes hashes \<and>
        mg_update_stored_totp M (us_id u) (mg_totp_secret M totp) hashes w1 = (Inr (), w2)"
    using retrieved_enrollment [OF taken] step stored hashed drawn by (auto simp: call_ok)
qed

section \<open>Demonstrations\<close>

lemma demo_manage_laws: "manage_laws demo_api"
  by (auto simp: manage_laws_def demo_api_def demo_web_mw_def demo_mw_def demo_manage_def)

text \<open>A request without credentials, which is refused, and one of a user who is not an admin.\<close>

definition demo_keyed :: "demo_value request" where
  "demo_keyed = demo_signed\<lparr>rq_path := ''/GetUserId'',
     rq_headers := (\<lambda>n. if n = ''x-api-key'' then [''K''] else if n = ''x-api-secret'' then [''S_right_S''] else [])\<rparr>"

lemma demo_api_limit: "with_rate_limit demo_web_mw m (demo_at t) = (case m (demo_at t) of (Inr x, s') \<Rightarrow> (Inr x, s')
    | (Inl e, s') \<Rightarrow> (Inl (Failure (failure_status e) None), count_failure demo_web_mw s'))"
proof -
  have "\<not> rl_disabled (mw_limiter demo_web_mw)" "rl_max_attempts (mw_limiter demo_web_mw) \<noteq> 0"
    by (simp_all add: demo_web_mw_def demo_mw_def)
  then show ?thesis by (simp add: with_rate_limit_def check_def demo_at_def)
qed

lemma demo_keyed_user:
  "attach_user demo_api (V4 0x0A000001) demo_keyed (demo_at 10) = (Inr (demo_keyed, demo_user ''ann'' (Some ''S''), None), demo_at 10)"
proof -
  have hd: "first_value (rq_headers demo_keyed) ''x-api-key'' = Some ''K''" "first_value (rq_headers demo_keyed) ''x-api-secret'' = Some ''S_right_S''"
    "first_value (rq_headers demo_keyed) ''authorization'' = None" "\<not> has_header (rq_headers demo_keyed) ''x-api-signature''"
    by (simp_all add: demo_keyed_def first_value_def has_header_def)
  have mw: "ma_mw demo_api = demo_web_mw" by (simp add: demo_api_def)
  have trims: "trim ''K'' = ''K''" "trim ''S_right_S'' = ''S_right_S''" by (simp_all add: byte_simps)
  have sels: "mw_to_str demo_web_mw = Some" "mw_auth demo_web_mw = demo_env"
    "mw_get_api_key demo_web_mw k secret w = (if secret = ''S_right_S'' then Inr \<lparr>ak_user_id = ''ann'', ak_cidr_whitelist = []\<rparr>
       else Inl (Failure UNAUTHORIZED None), w)" for k secret w
    by (simp_all add: demo_web_mw_def demo_mw_def)
  have white: "check_cidr_whitelist demo_nets (V4 0x0A000001) [] = Inr ()"
    by (simp add: check_cidr_whitelist_def cidr_set_contains_def byte_simps)
  have "extract_request_authentication_rate_limited demo_web_mw demo_keyed b (demo_at 10) = (Inr (Auth_Api_Key ''K'' ''S_right_S''), demo_at 10)" for b
    by (simp add: extract_request_authentication_rate_limited_def demo_api_limit extract_request_authentication_def extract_request_jwt_def
        extract_request_api_key_def hd sels text_of_def ok_or_def res_bind_def trims and_then_def from_result_def done_with_def)
  moreover have "get_user_from_request_authentication demo_web_mw (Auth_Api_Key ''K'' ''S_right_S'') (V4 0x0A000001) (demo_at 10) =
      (Inr (demo_user ''ann'' (Some ''S'')), demo_at 10)"
    by (simp add: get_user_from_request_authentication_def get_user_id_from_request_authentication_def check_api_key_cidr_whitelist_def
        check_whitelist_def sels demo_at_def demo_whitelist app_def flow_steps white)
  moreover have "us_enabled (demo_user ''ann'' (Some ''S''))" by (simp add: demo_user_def)
  ultimately show ?thesis
    by (simp add: attach_user_def mw read_signed_request_body_def hd demo_api_limit login_time_def and_then_def done_with_def)
qed

lemma demo_keyed_reads: "\<exists>s'. read_manage_request demo_api demo_keyed (demo_at 10) = (Inr Get_User_Id, s')"
proof -
  have sels: "ma_mw demo_api = demo_web_mw" "ma_extract_json demo_api h b = Inr (JObject [])"
    "ma_from_json demo_api (JObject [(''type'', JString ''GetUserId''), (''params'', v)]) = Some Get_User_Id"
    "mw_read_body demo_web_mw l b' w = (Inr (from_nat (snd b')), w)" "rq_path demo_keyed = ''/GetUserId''" for h b v l b' w
    by (simp_all add: demo_api_def demo_web_mw_def demo_keyed_def)
  have paths: "rq_path (demo_keyed\<lparr>rq_body := b\<rparr>) = ''/GetUserId''" for b by (simp add: demo_keyed_def)
  show ?thesis
    by (simp add: read_manage_request_def sels paths read_request_body_def and_then_def app_def done_with_def from_result_def
        parse_manage_request_def parse_variant_request_def ok_or_def)
qed

theorem manage_request_gated_witness:
  "\<exists>s' t' a l u rq1 s1. manage_api demo_api (V4 0x0A000001) demo_keyed (demo_at 10, demo_state) = (Inr (User_Is ''ann''), s', t') \<and>
     authenticates demo_api (V4 0x0A000001) demo_keyed (demo_at 10) a l u rq1 s1 \<and>
     check_cidr_whitelist demo_nets (V4 0x0A000001) (us_cidr_whitelist u) = Inr ()"
proof -
  obtain s' t' where run: "manage_api demo_api (V4 0x0A000001) demo_keyed (demo_at 10, demo_state) = (Inr (User_Is ''ann''), s', t')"
    using demo_keyed_reads by (auto simp: manage_api_def demo_keyed_user handle_manage_def check_not_workload_def
      check_credential_kind_def check_recent_login_def and_then_def from_result_def done_with_def asking_def demo_user_def)
  have net: "ae_net (mg_auth (ma_env demo_api)) = demo_nets" by (simp add: demo_api_def demo_env_def)
  obtain a l u rq1 s1 where "authenticates demo_api (V4 0x0A000001) demo_keyed (demo_at 10) a l u rq1 s1"
    "check_cidr_whitelist (ae_net (mg_auth (ma_env demo_api))) (V4 0x0A000001) (us_cidr_whitelist u) = Inr ()"
    using manage_request_gated [OF demo_manage_laws run] by (simp only: sum.disc simp_thms) blast
  then show ?thesis using run unfolding net by blast
qed

theorem manage_refused_at_once_witness:
  "\<exists>e. resolve_manage demo_manage (demo_user ''bob'' None) (Delete_Trusted_Issuer ''ci'') demo_state = (Inl e, demo_state) \<and>
     failure_status e = FORBIDDEN"
  using manage_refused_at_once [of "Delete_Trusted_Issuer ''ci''" "demo_user ''bob'' None" demo_manage demo_state]
  by (simp add: demo_user_def)

text \<open>Ann began to enroll; the code is the one of the demonstration's TOTP.\<close>

theorem totp_enrollment_confirmed_witness:
  "\<exists>codes s'. confirm_totp_enrollment demo_manage (demo_user ''ann'' None) ''123456''
      (demo_state\<lparr>ls_session := insert_totp_enrollment ''ann'' (V4 0, 1) (empty_session 1)\<rparr>) = (Inr codes, s') \<and>
    length codes = 10 \<and> as_totp_enrollment (ls_session s') = Absent \<and>
    (\<exists>hashes w. list_all2 (\<lambda>recovery hash. hash = ''#'' @ recovery) codes hashes \<and>
       mg_update_stored_totp demo_manage ''ann'' ''SECRET'' hashes w = (Inr (), w))"
proof -
  let ?s = "demo_state\<lparr>ls_session := insert_totp_enrollment ''ann'' (V4 0, 1) (empty_session 1)\<rparr>"
  have locked: "\<not> locked demo_manage (demo_user ''ann'' None)" by (simp add: locked_def demo_env_def)
  then have ok: "check_locked demo_manage (demo_user ''ann'' None) s = (Inr (), s)" for s by (simp add: check_locked_ok)
  have [simp]: "us_id (demo_user ''ann'' None) = ''ann''" by (simp add: demo_user_def)
  obtain s1 where taken: "on_session (retrieve_totp_enrollment ''ann'') ?s = (Inr (V4 0, 1), s1)" and w: "ls_world s1 = 1000"
    by (simp add: on_session_def retrieve_totp_enrollment_def insert_totp_enrollment_def slot_required_def slot_get_def
        check_enrollment_user_def modified_def demo_state_def)
  have codes: "\<exists>codes. each (\<lambda>_. random_string_of demo_manage RECOVERY_CODE_LENGTH) xs s = (Inr codes, s)" for xs :: "nat list" and s
    by (induction xs) (auto simp: done_with_def and_then_def random_string_of_def draw_def demo_external_def)
  have hashes: "\<exists>hs. each (\<lambda>code. call (mg_bcrypt_hash_at demo_manage c code)) xs s = (Inr hs, s)" for c xs and s :: "(nat, demo_value) login_state"
    by (induction xs) (auto simp: done_with_def and_then_def call_def)
  obtain codes where c: "each (\<lambda>_. random_string_of demo_manage RECOVERY_CODE_LENGTH) [0..<RECOVERY_CODE_COUNT] s1 = (Inr codes, s1)"
    using codes by blast
  obtain hs where h: "each (\<lambda>code. call (mg_bcrypt_hash_at demo_manage RECOVERY_CODE_BCRYPT_COST code)) codes s1 = (Inr hs, s1)"
    using hashes by blast
  have run: "confirm_totp_enrollment demo_manage (demo_user ''ann'' None) ''123456'' ?s = (Inr codes, s1)"
    using taken w c h
    by (simp add: confirm_totp_enrollment_def and_then_def ok asking_def required_def done_with_def catching_def hash_recovery_codes_def
        call_def demo_env_def)
  from totp_enrollment_confirmed [OF run] locked obtain hashes where "length codes = 10" "as_totp_enrollment (ls_session s1) = Absent"
    "list_all2 (\<lambda>recovery hash. \<exists>w. fst (mg_bcrypt_hash_at demo_manage RECOVERY_CODE_BCRYPT_COST recovery w) = Inr hash) codes hashes"
    by blast
  then show ?thesis using run by (auto simp: list_all2_conv_all_nth)
qed

end
