(* ===== verification/ManageConfigProps.thy ===== *)
theory ManageConfigProps
  imports ManageDemo
begin

text \<open>
  What is proved of the management of keys, login providers and trusted issuers: a stored client secret stays with
  the server it was entered for, and is not shown; a created provider is found by its slug; the rules of an issuer
  restrict what they accept, and don't take over the user of another rule; keys are stored as requests
  are matched with them, and deleted by their owner.
\<close>

lemma draw_ok: "draw f s = (Inr x, s') \<longleftrightarrow> f (ls_world s) = (x, ls_world s') \<and> s' = s\<lparr>ls_world := ls_world s'\<rparr>"
  by (auto simp: draw_def split: prod.splits)

lemma bad_request_fails [simp]: "bad_request msg \<noteq> Inr x"
  by (simp add: bad_request_def)

lemma refused_if: "(if c then bad_request msg else m) = Inr x \<longleftrightarrow> \<not> c \<and> m = Inr x"
  by simp

lemma refused_flow: "(if c then refuse st msg else m) s = (Inr x, s') \<longleftrightarrow> \<not> c \<and> m s = (Inr x, s')"
  by simp

section \<open>Client secrets\<close>

fun provider_url :: "provider_config \<Rightarrow> string" where
  "provider_url (Oidc_Config c) = oc_provider c"
| "provider_url _ = []"

lemma set_client_secret [simp]:
  "client_secret (set_client_secret x c) = x" "provider_url (set_client_secret x c) = provider_url c"
  "config_kind (set_client_secret x c) = config_kind c"
  by (cases c; simp)+

lemma shown_secret: "client_secret (redact_secret c) \<in> {[], REDACTED}"
  by (simp add: redact_secret_def empty_or_redacted_def REDACTED_def)

lemma merge_update_ok:
  assumes "merge_update M config existing clear = Inr merged"
  shows "config_kind merged = config_kind existing \<and> client_secret merged \<noteq> REDACTED \<and> provider_url merged = provider_url config \<and>
    (client_secret merged \<noteq> [] \<longrightarrow>
      client_secret merged = client_secret config \<or>
      client_secret merged = client_secret existing \<and> provider_url merged = provider_url existing)"
proof -
  from assms obtain "config_kind config = config_kind existing" and kept: "keep_existing_secret config existing clear = Inr merged"
    and "validate_config M merged = Inr ()"
    by (auto simp: merge_update_def res_bind_Inr_iff split: if_splits)
  moreover have "client_secret merged \<noteq> REDACTED" using calculation(3) by (auto simp: validate_config_def)
  ultimately show ?thesis
    by (cases config; cases existing) (auto simp: keep_existing_secret_def url_changes_def Let_def split: if_splits)
qed

text \<open>
  C29: an update of a login provider keeps its id and kind, and stores a client secret only if the request gave it,
  or if it is the stored one and the provider's url is the stored one too: a secret is never sent to
  another server than the one it was entered for. Neither answer nor storage confuses a
  secret with its redacted form, and the answer does not show it.
\<close>

theorem stored_secret_stays:
  assumes "update_provider M u q s = (Inr item, s')"
  shows "\<exists>existing p w w' v v'. resolve_managed_provider M (up_id q) v = (Inr existing, v') \<and>
      mg_update_external_provider M p w = (Inr (), w') \<and>
      ep_id p = ep_id existing \<and> provider_kind p = provider_kind existing \<and>
      client_secret (ep_config p) \<noteq> REDACTED \<and>
      (client_secret (ep_config p) \<noteq> [] \<longrightarrow>
        client_secret (ep_config p) = client_secret (cp_config q) \<or>
        client_secret (ep_config p) = client_secret (ep_config existing) \<and>
          provider_url (ep_config p) = provider_url (ep_config existing)) \<and>
      client_secret (ep_config (pl_provider item)) \<in> {[], REDACTED}"
proof -
  obtain name tx existing s1 s2 merged slug w w' where
    existing: "resolve_managed_provider M (up_id q) s1 = (Inr existing, s2)" and
    merged: "merge_update M (cp_config q) (ep_config existing) (up_clear_client_secret q) = Inr merged" and
    stored: "(mg_update_external_provider M \<lparr>ep_id = ep_id existing, ep_name = name, ep_slug = slug,
         ep_registration_disabled = cp_registration_disabled q, ep_token_exchange = tx, ep_config = merged\<rparr>) w = (Inr (), w')" and
    item: "item = list_item M \<lparr>ep_id = ep_id existing, ep_name = name, ep_slug = slug,
         ep_registration_disabled = cp_registration_disabled q, ep_token_exchange = tx, ep_config = merged\<rparr> False"
    using assms by (clarsimp simp: update_provider_def and_then_ok call_ok Let_def)
  let ?p = "\<lparr>ep_id = ep_id existing, ep_name = name, ep_slug = slug,
         ep_registration_disabled = cp_registration_disabled q, ep_token_exchange = tx, ep_config = merged\<rparr>"
  note m = merge_update_ok [OF merged]
  have "client_secret (ep_config (pl_provider item)) \<in> {[], REDACTED}"
    using shown_secret by (simp add: item list_item_def Let_def)
  then show ?thesis using existing stored m unfolding provider_kind_def
    by (intro exI [of _ existing] exI [of _ ?p]) auto
qed

section \<open>Created providers\<close>

lemma merge_snoc: "merge_providers static_providers (stored @ [p]) = merge_step (p, False) (merge_providers static_providers stored)"
  by (simp add: merge_providers_def)

lemma find_snoc: "List.find P xs = None \<Longrightarrow> P x \<Longrightarrow> List.find P (xs @ [x]) = Some x"
  by (induction xs) (auto split: if_splits)

lemma slug_is_id:
  assumes "slug_form slug" "slug \<noteq> []" "length slug \<le> MAX_SLUG_LENGTH"
  shows "validate_provider_id slug"
  using assms by (auto simp: validate_provider_id_def slug_form_def slug_char_def is_ascii_alnum_def MAX_SLUG_LENGTH_def
      MAX_PROVIDER_ID_LENGTH_def list_all_iff)

lemma own_slug_ok:
  assumes "own_slug slug name = Inr s"
  shows "slug_form s \<and> s \<noteq> [] \<and> length s \<le> MAX_SLUG_LENGTH"
proof (cases "trim slug = []")
  case True
  then show ?thesis using assms slugify_form [of name] by (auto simp: own_slug_def split: if_splits)
next
  case False
  then have "validate_slug s = Inr ()" using assms by (cases "validate_slug (trim slug)") (auto simp: own_slug_def)
  then show ?thesis using slugify_form(1) [of s] by (auto simp: validate_slug_def split: if_splits)
qed

lemma validate_provider_slug_ok:
  assumes "validate_provider_slug M slug name None s = (Inr x, s')"
  shows "validate_provider_id x \<and> x \<noteq> [] \<and> (\<exists>stored. xe_list_providers (mg_ext M) (ls_world s) = (Inr stored, ls_world s') \<and>
    (\<forall>r \<in> set (merge_providers (xe_static_providers (mg_ext M)) stored). slug_of (rp_provider r) \<noteq> x))"
  using assms own_slug_ok slug_is_id
  by (auto simp: validate_provider_slug_def and_then_ok list_external_providers_def call_ok Let_def list_ex_iff split: if_splits)

text \<open>
  a created provider is served: listed after the providers which were there before it, none of
  which changes, and found by its slug, provided its random id is new; so no created provider takes the
  urls of another, or loses its own to one.
\<close>

theorem created_provider_served:
  assumes "create_provider M u q s = (Inr item, s')"
  shows "\<exists>p stored v v' w w'. mg_create_external_provider M p w = (Inr (), w') \<and>
      xe_list_providers (mg_ext M) v = (Inr stored, v') \<and>
      (validate_provider_id (ep_id p) \<and>
        (\<forall>r \<in> set (merge_providers (xe_static_providers (mg_ext M)) stored). ep_id (rp_provider r) \<noteq> ep_id p) \<longrightarrow>
       merge_providers (xe_static_providers (mg_ext M)) (stored @ [p]) =
         merge_providers (xe_static_providers (mg_ext M)) stored @ [\<lparr>rp_provider = p, rp_is_static = False\<rparr>] \<and>
       find_by_slug (ep_slug p) (merge_providers (xe_static_providers (mg_ext M)) (stored @ [p])) =
         Inr \<lparr>rp_provider = p, rp_is_static = False\<rparr>)"
proof -
  obtain name tx s1 slug s2 i w w' where
    slug: "validate_provider_slug M (cp_slug q) name None s1 = (Inr slug, s2)" and
    made: "(mg_create_external_provider M \<lparr>ep_id = i, ep_name = name, ep_slug = slug,
         ep_registration_disabled = cp_registration_disabled q, ep_token_exchange = tx, ep_config = cp_config q\<rparr>) w = (Inr (), w')"
    using assms by (clarsimp simp: create_provider_def and_then_ok call_ok Let_def)
  let ?p = "\<lparr>ep_id = i, ep_name = name, ep_slug = slug,
         ep_registration_disabled = cp_registration_disabled q, ep_token_exchange = tx, ep_config = cp_config q\<rparr>"
  obtain stored where listed: "xe_list_providers (mg_ext M) (ls_world s1) = (Inr stored, ls_world s2)"
    and unused: "\<forall>r \<in> set (merge_providers (xe_static_providers (mg_ext M)) stored). slug_of (rp_provider r) \<noteq> slug"
    and x: "validate_provider_id slug" "slug \<noteq> []"
    using validate_provider_slug_ok [OF slug] by blast
  have "slug_of ?p = slug" using x(2) by (simp add: slug_of_def)
  moreover have "List.find (\<lambda>r. slug_of (rp_provider r) = slug) (merge_providers (xe_static_providers (mg_ext M)) stored) = None"
    using unused by (simp add: find_None_iff)
  ultimately have "merge_providers (xe_static_providers (mg_ext M)) (stored @ [?p]) =
         merge_providers (xe_static_providers (mg_ext M)) stored @ [\<lparr>rp_provider = ?p, rp_is_static = False\<rparr>] \<and>
       find_by_slug (ep_slug ?p) (merge_providers (xe_static_providers (mg_ext M)) (stored @ [?p])) =
         Inr \<lparr>rp_provider = ?p, rp_is_static = False\<rparr>"
    if "validate_provider_id i" "\<forall>r \<in> set (merge_providers (xe_static_providers (mg_ext M)) stored). ep_id (rp_provider r) \<noteq> i"
    using that unused x(1) by (auto simp: merge_snoc merge_step_def list_ex_iff find_by_slug_def find_snoc)
  then show ?thesis using made listed by (intro exI [of _ ?p] exI [of _ stored]) auto
qed

section \<open>Rules\<close>

lemma all_results_result: "all_results f xs = Inr ys \<Longrightarrow> y \<in> set ys \<Longrightarrow> \<exists>x. f x = Inr y"
  by (induction xs arbitrary: ys) (auto simp: res_bind_Inr_iff)

text \<open>A condition outside the claims every accepted token has, whose pattern not every value matches.\<close>

definition restricts :: "workload_rule \<Rightarrow> bool" where
  "restricts r \<longleftrightarrow> (\<exists>c \<in> set (wr_claims r). wc_claim c \<notin> set VERIFIED_CLAIMS) \<and>
     (\<forall>c \<in> set (wr_claims r). \<not> list_all (\<lambda>x. x = CHR ''*'') (wc_pattern c))"

lemma validate_condition_ok:
  "validate_condition name c = Inr c' \<Longrightarrow> \<not> list_all (\<lambda>x. x = CHR ''*'') (wc_pattern c')"
  by (auto simp: validate_condition_def Let_def split: if_splits)

lemma validate_rule_ok:
  assumes "validate_rule r = Inr r'"
  shows "restricts r' \<and> wr_id r' = wr_id r"
proof -
  obtain name conditions groups where *: "all_results (validate_condition name) (wr_claims r) = Inr conditions"
    "\<not> list_all (\<lambda>c. wc_claim c \<in> set VERIFIED_CLAIMS) conditions"
    "r\<lparr>wr_name := name, wr_claims := conditions, wr_groups := groups\<rparr> = r'"
    using assms unfolding validate_rule_def
    by (simp only: refused_if res_bind_Inr_iff sum.inject) (elim exE conjE, rule that, assumption+)
  have "\<not> list_all (\<lambda>x. x = CHR ''*'') (wc_pattern c)" if "c \<in> set conditions" for c
    using all_results_result [OF *(1) that] validate_condition_ok by blast
  then show ?thesis using *(2) unfolding *(3) [symmetric] by (auto simp: restricts_def list_all_iff)
qed

lemma glob_spec_empty: "glob_spec p [] \<longleftrightarrow> list_all (\<lambda>x. x = CHR ''*'') p"
  by (induction p) auto

lemma restricted_claim_given:
  assumes "restricts r" "list_all (claim_matches claims) (wr_claims r)"
  shows "\<exists>k v. k \<notin> set VERIFIED_CLAIMS \<and> lookup_claim claims k = Some v \<and> v \<noteq> JString []"
proof -
  obtain c where c: "c \<in> set (wr_claims r)" "wc_claim c \<notin> set VERIFIED_CLAIMS" "\<not> list_all (\<lambda>x. x = CHR ''*'') (wc_pattern c)"
    using assms(1) by (auto simp: restricts_def)
  then have "claim_matches claims c" using assms(2) by (simp add: list_all_iff)
  then obtain v where "lookup_claim claims (wc_claim c) = Some v" "v \<noteq> JString []"
    using c(3) glob_match_spec [of "wc_pattern c" "[]"] glob_spec_empty
    by (auto simp: claim_matches_def split: option.splits json.splits)
  then show ?thesis using c(2) by blast
qed

definition own_or_drawn :: "('w, 'o) manage_env \<Rightarrow> trusted_issuer option \<Rightarrow> workload_rule \<Rightarrow> bool" where
  "own_or_drawn M existing r \<longleftrightarrow>
     (\<exists>e. existing = Some e \<and> list_ex (\<lambda>x. wr_id x = wr_id r) (ti_rules e)) \<or>
     (\<exists>w w'. xe_random_string (mg_ext M) PROVIDER_ID_LENGTH w = (wr_id r, w'))"

lemma assign_rules_ok:
  assumes "assign_rules M existing rules rs s = (Inr rules', s')"
    and "\<forall>r \<in> set rules. restricts r \<and> own_or_drawn M existing r"
  shows "\<forall>r \<in> set rules'. restricts r \<and> own_or_drawn M existing r"
  using assms
proof (induction rs arbitrary: rules s)
  case (Cons r rs)
  let ?keeps = "\<lambda>r. (case existing of None \<Rightarrow> False | Some e \<Rightarrow> list_ex (\<lambda>x. wr_id x = wr_id r) (ti_rules e)) \<and>
           \<not> list_ex (\<lambda>x. wr_id x = wr_id r) rules"
  obtain r' i s1 where r': "validate_rule r = Inr r'"
    and i: "(if ?keeps r' then done_with (wr_id r') else random_string_of M PROVIDER_ID_LENGTH) s = (Inr i, s1)"
    and rest: "assign_rules M existing (rules @ [r'\<lparr>wr_id := i\<rparr>]) rs s1 = (Inr rules', s')"
    using Cons.prems(1) by (auto simp: and_then_ok Let_def)
  have "own_or_drawn M existing (r'\<lparr>wr_id := i\<rparr>)"
  proof (cases "?keeps r'")
    case True
    then have "i = wr_id r'" using i by simp
    then show ?thesis using True by (auto simp: own_or_drawn_def split: option.splits)
  next
    case False
    then have "random_string_of M PROVIDER_ID_LENGTH s = (Inr i, s1)" using i by (simp only: if_False)
    then show ?thesis by (auto simp: own_or_drawn_def random_string_of_def draw_ok)
  qed
  moreover have "restricts (r'\<lparr>wr_id := i\<rparr>)" using validate_rule_ok [OF r'] by (simp add: restricts_def)
  ultimately have "\<forall>r \<in> set (rules @ [r'\<lparr>wr_id := i\<rparr>]). restricts r \<and> own_or_drawn M existing r"
    using Cons.prems(2) by (simp only: set_append ball_Un list.set ball_simps simp_thms)
  then show ?case by (rule Cons.IH [OF rest])
qed simp

lemma validate_issuer_ok:
  assumes "validate_issuer M i existing s = (Inr i', s')"
  shows "\<forall>r \<in> set (ti_rules i'). restricts r \<and> own_or_drawn M existing r"
proof -
  obtain rules s1 name url audiences where rules: "assign_rules M existing [] (ti_rules i) s1 = (Inr rules, s')"
    and i': "i\<lparr>ti_name := name, ti_issuer := url, ti_audiences := audiences, ti_rules := rules\<rparr> = i'"
    using assms unfolding validate_issuer_def and_then_ok Let_def refused_flow
    by (simp only: done_with_ok) (elim exE conjE, rule that, (assumption | simp only:)+)
  have "ti_rules i' = rules" unfolding i' [symmetric] by simp
  then show ?thesis using assign_rules_ok [OF rules] by simp
qed

text \<open>
  C28: an update of a trusted issuer stores only rules which restrict what they accept: a token one of them
  matches has a claim, beside those every accepted token has, with a value. A rule has the id, and so
  the user, of a rule the issuer had, or a random one: no request takes over the user of a rule
  which is gone. The users of the rules are given exactly what the stored rules say.
\<close>

theorem stored_rules_restrict:
  assumes "update_issuer M u i s = (Inr (stored, read_only), s')"
  shows "\<exists>existing v v' w w' x x'. resolve_managed_issuer M (ti_id i) v = (Inr existing, v') \<and> ti_id stored = ti_id existing \<and>
      mg_update_trusted_issuer M stored w = (Inr (), w') \<and>
      mg_sync_workload_users M (ti_id stored) (access_of_issuer stored) x = (Inr (), x') \<and>
      (\<forall>r \<in> set (ti_rules stored). own_or_drawn M (Some existing) r) \<and>
      (\<forall>claims r. match_rule (ti_rules stored) claims = Some r \<longrightarrow>
        (\<exists>k v. k \<notin> set VERIFIED_CLAIMS \<and> lookup_claim claims k = Some v \<and> v \<noteq> JString []))"
proof -
  obtain existing s1 i' s2 w w' x x' where
    e: "resolve_managed_issuer M (ti_id i) s = (Inr existing, s1)" and
    v: "validate_issuer M i (Some existing) s1 = (Inr i', s2)" and
    st: "stored = i'\<lparr>ti_id := ti_id existing\<rparr>" and
    up: "mg_update_trusted_issuer M (i'\<lparr>ti_id := ti_id existing\<rparr>) w = (Inr (), w')" and
    sy: "mg_sync_workload_users M (ti_id existing) (access_of_issuer (i'\<lparr>ti_id := ti_id existing\<rparr>)) x = (Inr (), x')"
    using assms by (clarsimp simp: update_issuer_def and_then_ok call_ok Let_def)
  note rules = validate_issuer_ok [OF v]
  have "\<exists>k v. k \<notin> set VERIFIED_CLAIMS \<and> lookup_claim claims k = Some v \<and> v \<noteq> JString []"
    if "match_rule (ti_rules i') claims = Some r" for claims r
    using that rules restricted_claim_given [of r claims] by (auto simp: match_rule_def find_Some_iff)
  then show ?thesis using e up sy rules st
    by (intro exI [of _ existing] exI [of _ s] exI [of _ s1] exI [of _ w] exI [of _ w'] exI [of _ x] exI [of _ x']) simp
qed

section \<open>Keys\<close>

lemma on_pki_ok [simp]: "on_pki r s = (Inr x, s') \<longleftrightarrow> r = Inr x \<and> s = s'"
  by (cases r) (auto simp: on_pki_def)

text \<open>
  The public key stored for a signing key is the encoding a request's handshake yields for the raw key, so
  a request signed with it is matched with it; one the user brought was not stored for anybody.
\<close>

theorem signing_key_stored:
  assumes "create_signing_key M user_id body s = (Inr private_key, s')"
  shows "\<exists>whitelist public_key raw w w'.
      mg_create_signing_key M user_id \<lparr>ck_name = cs_name body, ck_expires = cs_expires body, ck_cidr_whitelist = whitelist\<rparr>
        public_key w = (Inr (), w') \<and>
      public_from_raw_bytes (mg_pki M) raw = Inr public_key \<and>
      (if trim (cs_public_key body) = [] then private_key \<noteq> None
       else private_key = None \<and> public_from_maybe_pem (mg_pki M) (trim (trim (cs_public_key body))) = Inr public_key \<and>
         (\<exists>v e v'. mg_get_signing_key_owner_id M public_key v = (Inl e, v')))"
proof -
  let ?given = "trim (cs_public_key body)"
  obtain whitelist public_key s1 s2 w w' where
    key: "(if ?given = []
       then and_then (generate_encoded_pair M One_Way) (\<lambda>(private_key, public_key). done_with (Some private_key, public_key))
       else and_then (from_result (normalize_public_key M ?given)) (\<lambda>public_key.
         and_then (check_public_key_unused M public_key) (\<lambda>_. done_with (None, public_key)))) s1 = (Inr (private_key, public_key), s2)" and
    made: "mg_create_signing_key M user_id \<lparr>ck_name = cs_name body, ck_expires = cs_expires body, ck_cidr_whitelist = whitelist\<rparr>
        public_key w = (Inr (), w')"
    using assms by (clarsimp simp: create_signing_key_def and_then_ok call_ok Let_def split: prod.splits)
  have "\<exists>raw. public_from_raw_bytes (mg_pki M) raw = Inr public_key \<and>
      (if ?given = [] then private_key \<noteq> None
       else private_key = None \<and> public_from_maybe_pem (mg_pki M) (trim ?given) = Inr public_key \<and>
         (\<exists>v e v'. mg_get_signing_key_owner_id M public_key v = (Inl e, v')))"
  proof (cases "?given = []")
    case True
    then show ?thesis using key
      by (auto simp: generate_encoded_pair_def and_then_ok split: prod.splits)
  next
    case False
    then have "normalize_public_key M ?given = Inr public_key" "private_key = None"
      and unused: "check_public_key_unused M public_key s1 = (Inr (), s2)"
      using key by (auto simp: and_then_ok)
    then have pem: "public_from_maybe_pem (mg_pki M) (trim ?given) = Inr public_key"
      by (cases "public_from_maybe_pem (mg_pki M) (trim ?given)") (auto simp: normalize_public_key_def)
    moreover obtain e v' where "mg_get_signing_key_owner_id M public_key (ls_world s1) = (Inl e, v')"
      using unused by (auto simp: check_public_key_unused_def and_then_ok catching_def and_then_def call_def done_with_def
          split: if_splits prod.splits sum.splits)
    ultimately show ?thesis using False \<open>private_key = None\<close>
      by (auto simp: public_from_maybe_pem_def public_from_der_def res_bind_Inr_iff)
  qed
  then show ?thesis using made by blast
qed

text \<open>A key is deleted only by the user who owns it: for another the request is refused once the owner is known.\<close>

theorem keys_deleted_by_owner:
  assumes "mg_get_api_key_owner_id M key (ls_world s) = (Inr owner, w) \<and> q = delete_api_key M user_id key \<or>
      mg_get_signing_key_owner_id M (case normalize_public_key M key of Inr k \<Rightarrow> k | Inl _ \<Rightarrow> key) (ls_world s) = (Inr owner, w) \<and>
        q = delete_signing_key M user_id key"
    and "owner \<noteq> user_id"
  shows "\<exists>e. q s = (Inl e, s\<lparr>ls_world := w\<rparr>) \<and> failure_status e = FORBIDDEN"
  using assms by (auto simp: delete_api_key_def delete_signing_key_def and_then_def call_def refuse_def Let_def split: sum.splits)

section \<open>Demonstrations\<close>

text \<open>The stored provider \<open>p1\<close> is renamed; its secret is sent back redacted.\<close>

definition demo_update :: update_provider_request where
  "demo_update = \<lparr>cp_name = '' Hub '', cp_slug = [], cp_registration_disabled = False,
     cp_token_exchange = \<lparr>tx_enabled = False, tx_audiences = [], tx_max_token_age_secs = 0\<rparr>,
     cp_config = Github_Config \<lparr>nc_enabled = True, nc_client_id = ''c'', nc_client_secret = REDACTED\<rparr>,
     up_id = ''p1'', up_clear_client_secret = False\<rparr>"

lemmas demo_char_simps = is_ascii_alnum_def is_ascii_lower_def is_ascii_upper_def is_ascii_digit_def

lemma demo_ids: "validate_provider_id ''p1''" "validate_provider_id ''ci''"
  by (simp_all add: validate_provider_id_def MAX_PROVIDER_ID_LENGTH_def demo_char_simps)

lemma demo_names: "trim '' Hub '' = ''Hub''" "trim '' Work '' = ''Work''" "char_count ''Hub'' = 3" "char_count ''Work'' = 4"
  by (simp_all add: byte_simps char_count_def is_continuation_def)

lemma demo_stored_provider:
  "resolve_managed_provider demo_manage ''p1'' s = (Inr (demo_github ''p1'' ''p''), s)"
  by (simp add: resolve_managed_provider_def resolve_external_provider_now_def demo_ids demo_external_def and_then_def call_def
      resolve_external_provider_def from_status_def done_with_def demo_github_def)

theorem stored_secret_stays_witness:
  "\<exists>item s'. update_provider demo_manage demo_admin demo_update demo_state = (Inr item, s') \<and>
     ep_name (pl_provider item) = ''Hub'' \<and> client_secret (ep_config (pl_provider item)) \<in> {[], REDACTED}"
proof -
  obtain item s' where run: "update_provider demo_manage demo_admin demo_update demo_state = (Inr item, s')"
    and name: "ep_name (pl_provider item) = ''Hub''"
    by (simp add: update_provider_def and_then_def demo_update_def from_result_def check_provider_admin_def demo_admin_def demo_user_def
        validate_provider_name_def demo_names MAX_PROVIDER_NAME_LENGTH_def validate_token_exchange_def res_bind_def
        demo_stored_provider merge_update_def keep_existing_secret_def url_changes_def validate_config_def done_with_def
        demo_github_def REDACTED_def call_def list_item_def Let_def byte_simps)
  show ?thesis using stored_secret_stays [OF run] run name by blast
qed

text \<open>A provider is created, whose name makes its slug.\<close>

definition demo_create :: create_provider_request where
  "demo_create = \<lparr>cp_name = '' Work '', cp_slug = ''office'', cp_registration_disabled = False,
     cp_token_exchange = \<lparr>tx_enabled = False, tx_audiences = [], tx_max_token_age_secs = 0\<rparr>,
     cp_config = Github_Config \<lparr>nc_enabled = True, nc_client_id = ''c'', nc_client_secret = ''new''\<rparr>\<rparr>"

lemma demo_office_slug: "validate_provider_slug demo_manage ''office'' name None s = (Inr ''office'', s)"
proof -
  have "slugify ''office'' = ''office''"
    by (rule slugify_id) (simp_all add: slug_form_def slug_char_def demo_char_simps MAX_SLUG_LENGTH_def)
  then have "own_slug ''office'' name = Inr ''office''"
    by (simp add: own_slug_def validate_slug_def MAX_SLUG_LENGTH_def byte_simps)
  then show ?thesis
    by (simp add: validate_provider_slug_def and_then_def from_result_def list_external_providers_def call_def demo_external_def
        merge_providers_def merge_step_def demo_github_def slug_of_def done_with_def
        validate_provider_id_def MAX_PROVIDER_ID_LENGTH_def demo_char_simps)
qed

lemma demo_random: "\<exists>i. random_string_of demo_manage n s = (Inr i, s)"
  by (simp add: random_string_of_def draw_def demo_external_def)

theorem created_provider_served_witness:
  "\<exists>item s' p w w'. create_provider demo_manage demo_admin demo_create demo_state = (Inr item, s') \<and>
     mg_create_external_provider demo_manage p w = (Inr (), w')"
proof -
  obtain i where "random_string_of demo_manage PROVIDER_ID_LENGTH demo_state = (Inr i, demo_state)" using demo_random by blast
  then obtain item s' where run: "create_provider demo_manage demo_admin demo_create demo_state = (Inr item, s')"
    by (simp add: create_provider_def and_then_def demo_create_def from_result_def check_provider_admin_def demo_admin_def demo_user_def
        validate_provider_name_def demo_names MAX_PROVIDER_NAME_LENGTH_def validate_token_exchange_def res_bind_def
        demo_office_slug validate_config_def REDACTED_def call_def done_with_def Let_def)
  show ?thesis using created_provider_served [OF run] run by blast
qed

text \<open>The issuer is stored again with its rule, which keeps its id.\<close>

lemma demo_rule_valid: "validate_rule demo_rule = Inr demo_rule"
  by (simp add: validate_rule_def demo_rule_def validate_named_def MAX_NAME_LENGTH_def MAX_CLAIMS_PER_RULE_def res_bind_def
      validate_condition_def MAX_VALUE_LENGTH_def VERIFIED_CLAIMS_def clean_list_def MAX_GROUPS_PER_RULE_def
      byte_simps char_count_def is_continuation_def Let_def)

lemma demo_issuer_valid: "validate_issuer demo_manage demo_issuer (Some demo_issuer) s = (Inr (demo_issuer\<lparr>ti_issuer := ''https://ci/''\<rparr>), s)"
  by (simp add: validate_issuer_def demo_issuer_def validate_named_def MAX_NAME_LENGTH_def demo_rule_valid and_then_def from_result_def
      MAX_VALUE_LENGTH_def clean_list_def MAX_AUDIENCES_def MAX_RULES_def checked_url_def validate_public_http_url_def
      demo_urls_all_def url_has_credentials_def res_bind_def done_with_def
      byte_simps char_count_def is_continuation_def Let_def)

lemma demo_stored_issuer: "resolve_managed_issuer demo_manage ''ci'' s = (Inr demo_issuer, s)"
  by (simp add: resolve_managed_issuer_def list_issuers_now_def and_then_def call_def list_trusted_issuers_def resolve_step_def
      demo_issuer_def demo_ids done_with_def required_def)

lemma demo_issuer_id: "ti_id demo_issuer = ''ci''"
  by (simp add: demo_issuer_def)

theorem stored_rules_restrict_witness:
  "\<exists>stored s'. update_issuer demo_manage demo_admin demo_issuer demo_state = (Inr (stored, False), s') \<and>
     list_all (own_or_drawn demo_manage (Some demo_issuer)) (ti_rules stored)"
proof -
  obtain stored s' where run: "update_issuer demo_manage demo_admin demo_issuer demo_state = (Inr (stored, False), s')"
    by (simp add: update_issuer_def and_then_def from_result_def check_issuer_admin_def demo_admin_def demo_user_def
        demo_stored_issuer demo_issuer_valid demo_issuer_id call_def done_with_def Let_def)
  show ?thesis using stored_rules_restrict [OF run] run by (auto simp: list_all_iff demo_stored_issuer demo_issuer_id)
qed

text \<open>A key pair is made for a user without one of their own.\<close>

definition demo_key_request :: create_signing_key_request where
  "demo_key_request = \<lparr>cs_name = ''laptop'', cs_expires = 0, cs_cidr_whitelist = [], cs_public_key = []\<rparr>"

lemma demo_private: "\<exists>k. private_from_raw_bytes demo_client_pki (replicate 32 9) = Inr k"
proof -
  have "check_scalar (replicate 32 (9::8 word)) = Inr ()" unfolding check_scalar_def Let_def fold_or_zero by simp
  then show ?thesis by (simp add: private_from_raw_bytes_def padded_def demo_client_pki_def)
qed

lemma demo_pair: "\<exists>k. generate_encoded_pair demo_manage One_Way s = (Inr (k, demo_client), s)"
  using demo_private by (auto simp: demo_manage_def generate_encoded_pair_def and_then_def draw_def required_def on_pki_def from_result_def done_with_def
      demo_client_key)

lemma demo_key_name: "check_key_name ''laptop'' = Inr ()"
  by (simp add: check_key_name_def validate_api_key_name_def validate_def Let_def default_validator_def MAX_API_KEY_NAME_LENGTH_def
      char_count_def is_continuation_def byte_simps validate_no_control_chars_def res_bind_def)

theorem signing_key_stored_witness:
  "\<exists>key s'. create_signing_key demo_manage ''bob'' demo_key_request demo_state = (Inr (Some key), s') \<and>
     (\<exists>raw public_key. public_from_raw_bytes demo_client_pki raw = Inr public_key)"
proof -
  obtain key s' where run: "create_signing_key demo_manage ''bob'' demo_key_request demo_state = (Inr (Some key), s')"
    using demo_pair [of demo_state]
    by (auto simp add: create_signing_key_def and_then_def demo_key_request_def from_result_def demo_key_name
        normalize_cidr_whitelist_def validate_cidr_whitelist_def byte_simps call_def done_with_def)
  show ?thesis using signing_key_stored [OF run] run by auto
qed

theorem keys_deleted_by_owner_witness:
  "\<exists>e. delete_api_key demo_manage ''bob'' ''K_1_K'' demo_state = (Inl e, demo_state\<lparr>ls_world := 1000\<rparr>) \<and> failure_status e = FORBIDDEN"
  using keys_deleted_by_owner [of demo_manage "''K_1_K''" demo_state "''ann''" 1000 "delete_api_key demo_manage ''bob'' ''K_1_K''" "''bob''"]
  by (simp add: demo_state_def)

end
