(* ===== verification/Rand.thy ===== *)
theory Rand
  imports Prelude "HOL-Library.Word"
begin

unbundle bit_operations_syntax

text \<open>
  Random secrets, \<^verbatim>\<open>auth/server/src/rand.rs\<close>. The random source of the operating system fills a
  block of a given length, or fails, which panics. The string is drawn by rejection: the loop ends only
  when the source keeps giving bytes it can use.
\<close>

type_synonym 'w source = "nat \<Rightarrow> 'w \<Rightarrow> 8 word list option \<times> 'w"

datatype panic = Random_Source_Unavailable

definition ALPHANUMERIC :: string where
  "ALPHANUMERIC = ''ABCDEFGHIJKLMNOPQRSTUVWXYZabcdefghijklmnopqrstuvwxyz0123456789''"

definition index_of :: "8 word \<Rightarrow> nat" where
  "index_of b = unat (b AND 0x3F)"

text \<open>The loop over the bytes of a block, which stops at the length wanted.\<close>

fun push_block :: "nat \<Rightarrow> string \<Rightarrow> 8 word list \<Rightarrow> string" where
  "push_block n out [] = out"
| "push_block n out (b # bs) =
     (if index_of b < length ALPHANUMERIC then
        (let out = out @ [ALPHANUMERIC ! index_of b] in
         if length out = n then out else push_block n out bs)
      else push_block n out bs)"

partial_function (option) fill_string ::
  "'w source \<Rightarrow> nat \<Rightarrow> string \<Rightarrow> 'w \<Rightarrow> ((panic + string) \<times> 'w) option" where
  "fill_string R n out w =
     (if length out < n then
        (case R 64 w of
           (None, w) \<Rightarrow> Some (Inl Random_Source_Unavailable, w)
         | (Some block, w) \<Rightarrow> fill_string R n (push_block n out block) w)
      else Some (Inr out, w))"

definition random_string :: "'w source \<Rightarrow> nat \<Rightarrow> 'w \<Rightarrow> ((panic + string) \<times> 'w) option" where
  "random_string R n = fill_string R n []"

definition random_bytes :: "'w source \<Rightarrow> nat \<Rightarrow> 'w \<Rightarrow> (panic + 8 word list) \<times> 'w" where
  "random_bytes R n w = (case R n w of
     (None, w) \<Rightarrow> (Inl Random_Source_Unavailable, w)
   | (Some bs, w) \<Rightarrow> (Inr bs, w))"

section \<open>What a string is made of\<close>

text \<open>The characters of the bytes which are not rejected.\<close>

definition accepted :: "8 word list \<Rightarrow> string" where
  "accepted bs = map (\<lambda>b. ALPHANUMERIC ! index_of b) (filter (\<lambda>b. index_of b < length ALPHANUMERIC) bs)"

lemma accepted_simps [simp]:
  "accepted [] = []" "accepted (xs @ ys) = accepted xs @ accepted ys"
  "accepted (b # bs) = (if index_of b < length ALPHANUMERIC then [ALPHANUMERIC ! index_of b] else []) @ accepted bs"
  by (simp_all add: accepted_def)

lemma push_block_take: "length out < n \<Longrightarrow> push_block n out bs = take n (out @ accepted bs)"
  by (induction bs arbitrary: out) (auto simp: Let_def)

text \<open>The source gives, sooner or later, a block with a byte which is used, or fails.\<close>

inductive yields :: "'w source \<Rightarrow> 'w \<Rightarrow> bool" for R where
  fails: "R 64 w = (None, w') \<Longrightarrow> yields R w"
| useful: "R 64 w = (Some block, w') \<Longrightarrow> accepted block \<noteq> [] \<Longrightarrow> yields R w"
| later: "R 64 w = (Some block, w') \<Longrightarrow> yields R w' \<Longrightarrow> yields R w"

text \<open>The blocks a run draws.\<close>

inductive draws :: "'w source \<Rightarrow> 'w \<Rightarrow> 8 word list \<Rightarrow> 'w \<Rightarrow> bool" for R where
  none: "draws R w [] w"
| more: "R 64 w = (Some block, w1) \<Longrightarrow> draws R w1 bs w2 \<Longrightarrow> draws R w (block @ bs) w2"

lemma push_block_progress:
  assumes "length out < n" "accepted block \<noteq> []"
  shows "n - length (push_block n out block) < n - length out"
proof -
  have "1 \<le> length (accepted block)" using assms(2) by (cases "accepted block") simp_all
  moreover have "length (push_block n out block) = min n (length out + length (accepted block))"
    by (simp add: push_block_take [OF assms(1)] min.commute)
  ultimately show ?thesis using assms(1) by linarith
qed

lemma fill_string_returns:
  assumes "\<And>w. yields R w"
  shows "\<exists>r w'. fill_string R n out w = Some (r, w')"
proof (induction "n - length out" arbitrary: out w rule: less_induct)
  case less
  have "yields R w" by (rule assms)
  then show ?case using less.hyps
  proof (induction rule: yields.induct)
    case (fails w w')
    then show ?case by (subst fill_string.simps) simp
  next
    case (useful w block w')
    show ?case
    proof (cases "length out < n")
      case True
      have "n - length (push_block n out block) < n - length out"
        by (rule push_block_progress [OF True useful.hyps(2)])
      then show ?thesis using useful.prems useful.hyps(1) True by (subst fill_string.simps) simp
    qed (subst fill_string.simps, simp)
  next
    case (later w block w')
    show ?case
    proof (cases "length out < n")
      case True
      have "accepted block = [] \<or> n - length (push_block n out block) < n - length out"
        using push_block_progress [OF True, of block] by blast
      moreover have "push_block n out block = out" if "accepted block = []"
        using that True by (simp add: push_block_take)
      ultimately show ?thesis using later.IH later.prems later.hyps(1) True by (subst fill_string.simps) auto
    qed (subst fill_string.simps, simp)
  qed
qed

definition outcome_of :: "'w source \<Rightarrow> nat \<Rightarrow> string \<Rightarrow> 'w \<Rightarrow> (panic + string) \<times> 'w \<Rightarrow> bool" where
  "outcome_of R n out w y \<longleftrightarrow> (\<exists>bs v. draws R w bs v \<and>
      (case fst y of Inl _ \<Rightarrow> R 64 v = (None, snd y) \<and> length (out @ accepted bs) < n
       | Inr s \<Rightarrow> v = snd y \<and> s = take n (out @ accepted bs) \<and> length s = n))"

lemma fill_string_result:
  assumes "fill_string R n out w = Some y"
  shows "length out \<le> n \<longrightarrow> outcome_of R n out w y"
proof (rule fill_string.raw_induct [where P = "\<lambda>R n out w y. length out \<le> n \<longrightarrow> outcome_of R n out w y", OF _ assms])
  fix fill :: "'w source \<Rightarrow> nat \<Rightarrow> string \<Rightarrow> 'w \<Rightarrow> ((panic + string) \<times> 'w) option" and R n out w y
  assume hyp: "\<And>R n out w y. fill R n out w = Some y \<Longrightarrow> length out \<le> n \<longrightarrow> outcome_of R n out w y"
    and step: "(if length out < n
      then case R 64 w of
          (None, w) \<Rightarrow> Some (Inl Random_Source_Unavailable, w)
        | (Some block, w) \<Rightarrow> fill R n (push_block n out block) w
      else Some (Inr out, w)) = Some y"
  show "length out \<le> n \<longrightarrow> outcome_of R n out w y"
  proof (rule impI, cases "length out < n")
    assume short: "length out \<le> n"
    case False
    then have "y = (Inr out, w)" using step by simp
    then show "outcome_of R n out w y" unfolding outcome_of_def using False short
      by (intro exI [of _ "[]"] exI [of _ w]) (simp add: draws.none)
  next
    case True
    obtain b w1 where b: "R 64 w = (b, w1)" by (rule prod.exhaust)
    show "outcome_of R n out w y"
    proof (cases b)
      case None
      then have "y = (Inl Random_Source_Unavailable, w1)" using step True b by simp
      then show ?thesis unfolding outcome_of_def using True b None
        by (intro exI [of _ "[]"] exI [of _ w]) (simp add: draws.none)
    next
      case (Some block)
      let ?out = "push_block n out block"
      have run: "fill R n ?out w1 = Some y" using step True b Some by simp
      have out: "?out = take n (out @ accepted block)" using True by (rule push_block_take)
      then have "outcome_of R n ?out w1 y" using hyp [OF run] by simp
      then obtain bs v where bs: "draws R w1 bs v"
        "case fst y of Inl _ \<Rightarrow> R 64 v = (None, snd y) \<and> length (?out @ accepted bs) < n
         | Inr s \<Rightarrow> v = snd y \<and> s = take n (?out @ accepted bs) \<and> length s = n"
        unfolding outcome_of_def by blast
      have "take n (?out @ accepted bs) = take n (out @ accepted (block @ bs))"
        by (simp add: out min_def)
      moreover have "length (out @ accepted (block @ bs)) < n" if "length (?out @ accepted bs) < n"
        using that by (auto simp: out)
      ultimately show ?thesis unfolding outcome_of_def using bs draws.more [of R w block w1 bs v] b Some
        by (intro exI [of _ "block @ bs"] exI [of _ v]) (auto split: sum.splits)
    qed
  qed
qed

lemma low_bits: "index_of b = unat b mod 64"
proof -
  have "b AND 0x3F = take_bit 6 b" by (simp add: take_bit_eq_mask mask_eq_exp_minus_1)
  then show ?thesis by (simp add: index_of_def unsigned_take_bit_eq take_bit_eq_mod unat_mod)
qed

lemma residue:
  assumes "n < 256" "i < (64 :: nat)"
  shows "n mod 64 = i \<longleftrightarrow> (\<exists>j < 4. n = i + 64 * j)"
proof
  assume "n mod 64 = i"
  then have "n = i + 64 * (n div 64)" using mod_mult_div_eq [of n 64] by simp
  moreover have "n div 64 < 4" using assms(1) by simp
  ultimately show "\<exists>j < 4. n = i + 64 * j" by blast
qed (use assms(2) in auto)

lemma byte_of: "i < 64 \<Longrightarrow> j < 4 \<Longrightarrow> unat (of_nat (i + 64 * j) :: 8 word) = i + 64 * j"
  by (simp only: unat_of_nat) simp

lemma index_of_preimage:
  assumes "i < 64"
  shows "{b. index_of b = i} = (\<lambda>j. of_nat (i + 64 * j)) ` {0..<4}"
proof (rule set_eqI)
  fix b :: "8 word"
  have "unat b < 256" using unsigned_less [of b] by simp
  then have "unat b mod 64 = i \<longleftrightarrow> (\<exists>j < 4. unat b = i + 64 * j)" by (rule residue [OF _ assms])
  moreover have "unat b = i + 64 * j \<longleftrightarrow> b = of_nat (i + 64 * j)" if "j < 4" for j
    using byte_of [OF assms that] unfolding word_unat_eq_iff by simp
  ultimately show "b \<in> {b. index_of b = i} \<longleftrightarrow> b \<in> (\<lambda>j. of_nat (i + 64 * j)) ` {0..<4}"
    by (auto simp: low_bits)
qed

lemma alphanumeric: "distinct ALPHANUMERIC" "length ALPHANUMERIC = 62" "list_all is_ascii_alnum ALPHANUMERIC"
  by (simp_all add: ALPHANUMERIC_def is_ascii_alnum_def is_ascii_lower_def is_ascii_upper_def is_ascii_digit_def)

section \<open>Properties\<close>

text \<open>
  when the source keeps giving bytes which can be used, a random string is always returned, of the length
  wanted and of letters and digits, those of the bytes drawn which are not rejected, in order; or the
  source fails, and the server panics. Every character stands for equally many bytes, so none is more likely.
\<close>

theorem random_string_returns:
  assumes "\<And>w. yields R w"
  shows "\<exists>r w'. random_string R n w = Some (r, w') \<and> (\<exists>bs v. draws R w bs v \<and>
      (case r of Inl _ \<Rightarrow> R 64 v = (None, w')
       | Inr s \<Rightarrow> v = w' \<and> s = take n (accepted bs) \<and> length s = n \<and> list_all is_ascii_alnum s)) \<and>
      (\<forall>c \<in> set ALPHANUMERIC. card {b. index_of b < length ALPHANUMERIC \<and> ALPHANUMERIC ! index_of b = c} = 4)"
proof -
  obtain r w' where run: "random_string R n w = Some (r, w')"
    using fill_string_returns [OF assms] unfolding random_string_def by blast
  then have "outcome_of R n [] w (r, w')" using fill_string_result unfolding random_string_def by fastforce
  then obtain bs v where bs: "draws R w bs v"
    "case r of Inl _ \<Rightarrow> R 64 v = (None, w') | Inr s \<Rightarrow> v = w' \<and> s = take n (accepted bs) \<and> length s = n"
    unfolding outcome_of_def by (cases r) auto
  have "set (accepted bs) \<subseteq> set ALPHANUMERIC" by (auto simp: accepted_def)
  then have letters: "list_all is_ascii_alnum (take n (accepted bs))"
    using alphanumeric(3) unfolding list_all_iff by (meson in_set_takeD subsetD)
  have four: "card {b. index_of b < length ALPHANUMERIC \<and> ALPHANUMERIC ! index_of b = c} = 4" if c: "c \<in> set ALPHANUMERIC" for c
  proof -
    obtain i where i: "i < 62" "ALPHANUMERIC ! i = c" using c alphanumeric(2) by (auto simp: in_set_conv_nth)
    then have "{b. index_of b < length ALPHANUMERIC \<and> ALPHANUMERIC ! index_of b = c} = {b. index_of b = i}"
      using alphanumeric(1,2) by (auto simp: nth_eq_iff_index_eq)
    moreover have "inj_on (\<lambda>j. of_nat (i + 64 * j) :: 8 word) {0..<4}"
    proof (rule inj_onI)
      fix x y :: nat
      assume "x \<in> {0..<4}" "y \<in> {0..<4}" "of_nat (i + 64 * x) = (of_nat (i + 64 * y) :: 8 word)"
      then show "x = y" using byte_of [of i x] byte_of [of i y] i(1) by simp
    qed
    ultimately show ?thesis using i(1) by (simp add: index_of_preimage card_image del: of_nat_add of_nat_mult)
  qed
  show ?thesis using run bs letters four by (intro exI [of _ r] exI [of _ w'] conjI exI [of _ bs] exI [of _ v]) (auto split: sum.splits)
qed

text \<open>A source which repeats one block of a rejected and an accepted byte.\<close>

theorem random_string_returns_witness:
  "\<exists>s. random_string (\<lambda>n w. (Some [255, 1], Suc w)) 3 (0 :: nat) = Some (Inr s, 3) \<and> length s = 3"
proof -
  let ?R = "\<lambda>n w. (Some [255, 1 :: 8 word], Suc w)"
  have "yields ?R w" for w
    by (rule yields.useful [where block = "[255, 1]"]) (simp_all add: accepted_def index_of_def ALPHANUMERIC_def)
  note random_string_returns [of ?R 3 0, OF this]
  moreover have "random_string ?R 3 0 = Some (Inr ''BBB'', 3)"
    by (simp add: random_string_def fill_string.simps index_of_def ALPHANUMERIC_def Let_def)
  ultimately show ?thesis by auto
qed

end
