(* ===== verification/ConfigValue.thy ===== *)
theory ConfigValue
  imports Workload
begin

text \<open>
  The values of a configuration: \<^verbatim>\<open>serde_json\<close>, whose objects are maps ordered by their keys
  (\<open>BTreeMap\<close>). An object is the list of its entries in that order.
\<close>

section \<open>Objects\<close>

text \<open>The order of \<open>String\<close>: bytewise, a prefix first.\<close>

fun key_less :: "string \<Rightarrow> string \<Rightarrow> bool" where
  "key_less [] t \<longleftrightarrow> t \<noteq> []"
| "key_less (a # s) [] \<longleftrightarrow> False"
| "key_less (a # s) (b # t) \<longleftrightarrow> byte a < byte b \<or> a = b \<and> key_less s t"

fun obj_insert :: "string \<Rightarrow> 'v \<Rightarrow> (string \<times> 'v) list \<Rightarrow> (string \<times> 'v) list" where
  "obj_insert k v [] = [(k, v)]"
| "obj_insert k v ((k', v') # m) =
     (if k = k' then (k, v) # m
      else if key_less k k' then (k, v) # (k', v') # m
      else (k', v') # obj_insert k v m)"

definition obj_remove :: "string \<Rightarrow> (string \<times> 'v) list \<Rightarrow> (string \<times> 'v) list" where
  "obj_remove k m = filter (\<lambda>e. fst e \<noteq> k) m"

text \<open>What a map holds: each key once, in order; in the values too.\<close>

definition obj_ok :: "(string \<times> 'v) list \<Rightarrow> bool" where
  "obj_ok m \<longleftrightarrow> sorted_wrt key_less (map fst m)"

fun json_ok :: "json \<Rightarrow> bool" where
  "json_ok (JObject m) \<longleftrightarrow> obj_ok m \<and> list_all (\<lambda>e. json_ok (snd e)) m"
| "json_ok (JArray vs) \<longleftrightarrow> list_all json_ok vs"
| "json_ok _ \<longleftrightarrow> True"

section \<open>Facts\<close>

lemma key_less_irrefl [simp]: "\<not> key_less s s"
  by (induction s) auto

lemma key_less_trans: "key_less a b \<Longrightarrow> key_less b c \<Longrightarrow> key_less a c"
proof (induction a b arbitrary: c rule: key_less.induct)
  case (1 t)
  then show ?case by (cases t; cases c) auto
next
  case (3 x s y t)
  then show ?case by (cases c) auto
qed simp

lemma key_less_total: "a \<noteq> b \<Longrightarrow> \<not> key_less a b \<Longrightarrow> key_less b a"
proof (induction a b rule: key_less.induct)
  case (3 x s y t)
  have "byte x = byte y \<longleftrightarrow> x = y" by (simp add: of_char_eq_iff)
  then show ?case using 3 by auto
qed auto

lemma map_of_obj_insert [simp]: "map_of (obj_insert k v m) = (map_of m)(k \<mapsto> v)"
  by (induction m) (auto simp: fun_eq_iff)

lemma map_of_obj_remove [simp]: "map_of (obj_remove k m) = (map_of m)(k := None)"
  by (induction m) (auto simp: obj_remove_def fun_eq_iff)

lemma keys_obj_insert [simp]: "fst ` set (obj_insert k v m) = insert k (fst ` set m)"
  unfolding dom_map_of_conv_image_fst [symmetric] by simp

lemma set_obj_insert: "set (obj_insert k v m) \<subseteq> insert (k, v) (set m)"
  by (induction m) (auto split: if_splits)

lemma obj_ok_Cons: "obj_ok ((k, v) # m) \<longleftrightarrow> (\<forall>k' \<in> fst ` set m. key_less k k') \<and> obj_ok m"
  by (simp add: obj_ok_def)

lemma obj_ok_Nil [simp]: "obj_ok []"
  by (simp add: obj_ok_def)

lemma obj_ok_insert [simp]: "obj_ok m \<Longrightarrow> obj_ok (obj_insert k v m)"
proof (induction m)
  case Nil
  then show ?case by (simp add: obj_ok_def)
next
  case (Cons e m)
  obtain k' v' where e: "e = (k', v')" by (cases e) auto
  have "key_less k k''" if "key_less k k'" "k'' \<in> fst ` set m" for k''
    using Cons.prems that key_less_trans unfolding e obj_ok_Cons by blast
  moreover have "key_less k' k" if "k \<noteq> k'" "\<not> key_less k k'" using key_less_total [OF that] .
  ultimately show ?case using Cons unfolding e by (auto simp: obj_ok_Cons simp del: map_of_obj_insert)
qed

lemma obj_ok_remove [simp]: "obj_ok m \<Longrightarrow> obj_ok (obj_remove k m)"
  by (induction m) (auto simp: obj_ok_def obj_remove_def)

lemma obj_ok_distinct: "obj_ok m \<Longrightarrow> distinct (map fst m)"
  by (induction m) (auto simp: obj_ok_def)

text \<open>Two ordered lists with the same entries are the same.\<close>

lemma obj_ok_hd:
  assumes "obj_ok ((k, v) # m)"
  shows "map_of ((k, v) # m) k' \<noteq> None \<Longrightarrow> k' = k \<or> key_less k k'"
  using assms by (auto simp: obj_ok_Cons dest!: map_of_SomeD split: if_splits)

lemma obj_ok_eq:
  "obj_ok m \<Longrightarrow> obj_ok n \<Longrightarrow> map_of m = map_of n \<Longrightarrow> m = n"
proof (induction m arbitrary: n)
  case Nil
  then show ?case by (cases n) (auto simp: fun_eq_iff split: if_splits)
next
  case (Cons e m)
  obtain k v where e: "e = (k, v)" by (cases e) auto
  obtain k' v' n' where n: "n = (k', v') # n'"
  proof (cases n)
    case Nil
    moreover have "map_of (e # m) k = map_of n k" by (simp only: Cons.prems(3))
    ultimately show ?thesis unfolding e by simp
  qed auto
  have maps: "map_of ((k, v) # m) = map_of ((k', v') # n')" using Cons.prems(3) unfolding e n .
  have "map_of ((k, v) # m) k = Some v" "map_of ((k', v') # n') k' = Some v'" by simp_all
  then have at: "map_of ((k', v') # n') k = Some v" "map_of ((k, v) # m) k' = Some v'" unfolding maps .
  then have "k' = k \<or> key_less k k'" "k = k' \<or> key_less k' k"
    using obj_ok_hd [OF Cons.prems(1) [unfolded e], of k'] obj_ok_hd [OF Cons.prems(2) [unfolded n], of k] by simp_all
  then have "k = k'" by (meson key_less_trans key_less_irrefl)
  moreover have none: "map_of m k = None" "map_of n' k' = None"
    using Cons.prems(1,2) unfolding e n obj_ok_Cons map_of_eq_None_iff by (auto dest: bspec)
  ultimately have "v = v'" "map_of m = map_of n'"
  proof -
    show "v = v'" using at(1) \<open>k = k'\<close> by simp
    show "map_of m = map_of n'"
    proof
      fix x
      show "map_of m x = map_of n' x" using fun_cong [OF maps, of x] none \<open>k = k'\<close> by (cases "x = k") auto
    qed
  qed
  then show ?case using Cons.IH [of n'] Cons.prems(1,2) \<open>k = k'\<close> unfolding e n by (simp add: obj_ok_Cons)
qed

lemma json_ok_value: "json_ok (JObject m) \<Longrightarrow> map_of m k = Some v \<Longrightarrow> json_ok v"
  by (auto simp: list_all_iff dest!: map_of_SomeD)

lemma json_ok_insert: "json_ok (JObject m) \<Longrightarrow> json_ok v \<Longrightarrow> json_ok (JObject (obj_insert k v m))"
  using set_obj_insert [of k v m] by (fastforce simp: list_all_iff)

end
