(* ===== verification/ConfigEnv.thy ===== *)
theory ConfigEnv
  imports ConfigValue Errors
begin

text \<open>
  Env files as a source of configuration, \<^verbatim>\<open>crates/config/src/env_file.rs\<close>. The Unicode tables
  behind \<open>str::to_lowercase\<close> are a parameter. Where the code indexes a map (\<open>origins[&path]\<close>), a key which is not
  there is a panic of the model, so that its absence is proved and not assumed.
\<close>

definition MAX_NESTED_SEGMENTS :: nat where "MAX_NESTED_SEGMENTS = 32"

datatype env_file_error = Env_File_Error nat string | Env_File_Panic

record env_entry =
  en_line :: nat
  en_name :: string
  en_value :: string

definition ticked :: "string \<Rightarrow> string" where
  "ticked s = CHR 0x60 # s @ [CHR 0x60]"

section \<open>Lines\<close>

text \<open>\<open>str::lines\<close>: what ends with a line feed, or a carriage return and a line feed, and the rest, if any.\<close>

fun split_inclusive :: "char \<Rightarrow> string \<Rightarrow> string list" where
  "split_inclusive c [] = []"
| "split_inclusive c (x # xs) =
     (if x = c then [x] # split_inclusive c xs
      else case split_inclusive c xs of [] \<Rightarrow> [[x]] | l # ls \<Rightarrow> (x # l) # ls)"

definition strip_eol :: "string \<Rightarrow> string" where
  "strip_eol l =
     (if l \<noteq> [] \<and> last l = CHR 0x0A then
        (let l = butlast l in if l \<noteq> [] \<and> last l = CHR 0x0D then butlast l else l)
      else l)"

definition lines_of :: "string \<Rightarrow> string list" where
  "lines_of s = map strip_eol (split_inclusive (CHR 0x0A) s)"

section \<open>Values\<close>

definition UNTERMINATED_DOUBLE :: string where "UNTERMINATED_DOUBLE = ''unterminated double quoted value''"
definition AFTER_QUOTE :: string where "AFTER_QUOTE = ''unexpected content after closing quote''"

definition unsupported_escape :: "string \<Rightarrow> string" where
  "unsupported_escape name = ''unsupported escape in the value of '' @ ticked name @ '': a double quoted value takes '' @
     ticked (CHR 0x5C # ''n'') @ '', '' @ ticked (CHR 0x5C # ''r'') @ '', '' @ ticked (CHR 0x5C # ''t'') @ '', '' @
     ticked [CHR 0x5C, CHR 0x22] @ '' and '' @ ticked [CHR 0x5C, CHR 0x5C] @ '' (a literal backslash)''"

definition unescape :: "char \<Rightarrow> char option" where
  "unescape c = (if c = CHR ''n'' then Some (CHR 0x0A) else if c = CHR ''r'' then Some (CHR 0x0D)
     else if c = CHR ''t'' then Some (CHR 0x09) else if c = CHR 0x22 \<or> c = CHR 0x5C then Some c else None)"

fun double_quoted :: "string \<Rightarrow> nat \<Rightarrow> string \<Rightarrow> string \<Rightarrow> env_file_error + string" where
  "double_quoted name line out [] = Inl (Env_File_Error line UNTERMINATED_DOUBLE)"
| "double_quoted name line out (c # cs) =
     (if c = CHR 0x5C then
        (case cs of
           [] \<Rightarrow> Inl (Env_File_Error line UNTERMINATED_DOUBLE)
         | e # ds \<Rightarrow> (case unescape e of
             Some x \<Rightarrow> double_quoted name line (out @ [x]) ds
           | None \<Rightarrow> Inl (Env_File_Error line (unsupported_escape name))))
      else if c = CHR 0x22 then
        (if cs \<noteq> [] then Inl (Env_File_Error line AFTER_QUOTE) else Inr out)
      else double_quoted name line (out @ [c]) cs)"

definition single_quoted :: "nat \<Rightarrow> string \<Rightarrow> env_file_error + string" where
  "single_quoted line rest =
     (if CHR 0x27 \<notin> set rest then Inl (Env_File_Error line ''unterminated single quoted value'')
      else if last rest \<noteq> CHR 0x27 then Inl (Env_File_Error line AFTER_QUOTE)
      else Inr (butlast rest))"

definition parse_value :: "string \<Rightarrow> string \<Rightarrow> nat \<Rightarrow> env_file_error + string" where
  "parse_value v name line = (case v of
     [] \<Rightarrow> Inr []
   | c # rest \<Rightarrow>
       if c = CHR 0x22 then double_quoted name line [] rest
       else if c = CHR 0x27 then single_quoted line rest
       else Inr v)"

section \<open>Entries\<close>

definition parse_entry_line :: "string list \<Rightarrow> nat \<Rightarrow> string \<Rightarrow> env_file_error + env_entry" where
  "parse_entry_line names number line =
     (let line = (case strip_prefix ''export '' line of Some rest \<Rightarrow> trim_start rest | None \<Rightarrow> line) in
      case split_once (CHR ''='') line of
        None \<Rightarrow> Inl (Env_File_Error number (''expected '' @ ticked ''NAME=value'' @ '', a '' @ ticked ''#'' @ '' comment, or a blank line''))
      | Some (name, v) \<Rightarrow>
          let name = trim name in
          if name = [] then Inl (Env_File_Error number (''missing name before '' @ ticked ''=''))
          else if name \<in> set names then Inl (Env_File_Error number (''duplicate entry for '' @ ticked name))
          else res_bind (parse_value (trim v) name number) (\<lambda>v. Inr \<lparr>en_line = number, en_name = name, en_value = v\<rparr>))"

fun parse_lines :: "env_entry list \<Rightarrow> nat \<Rightarrow> string list \<Rightarrow> env_file_error + env_entry list" where
  "parse_lines entries idx [] = Inr entries"
| "parse_lines entries idx (raw # raws) =
     (let number = idx + 1; line = trim raw in
      if line = [] \<or> hd line = CHR ''#'' then parse_lines entries number raws
      else res_bind (parse_entry_line (map en_name entries) number line) (\<lambda>e.
        parse_lines (entries @ [e]) number raws))"

definition BOM :: string where "BOM = [CHR 0xEF, CHR 0xBB, CHR 0xBF]"

definition parse_entries :: "string \<Rightarrow> env_file_error + env_entry list" where
  "parse_entries content =
     (let content = (case strip_prefix BOM content of Some rest \<Rightarrow> rest | None \<Rightarrow> content) in
      parse_lines [] 0 (lines_of content))"

definition parse_env_file :: "string \<Rightarrow> env_file_error + (string \<times> string) list" where
  "parse_env_file content = res_bind (parse_entries content) (\<lambda>entries.
     Inr (map (\<lambda>e. (en_name e, en_value e)) entries))"

section \<open>Objects\<close>

type_synonym origins = "string \<rightharpoonup> string \<times> nat"

definition entry_conflict :: "env_entry \<Rightarrow> (string \<times> nat) option \<Rightarrow> string \<Rightarrow> env_file_error" where
  "entry_conflict e origin msg = (case origin of
     None \<Rightarrow> Env_File_Panic
   | Some (other, line) \<Rightarrow> Env_File_Error (en_line e)
       (ticked (en_name e) @ '' conflicts with '' @ ticked other @ '' (line '' @ show_nat line @ ''): '' @ msg))"

definition segments_of :: "string \<Rightarrow> string list" where
  "segments_of name =
     (let segments = split_on (CHR ''.'') name in
      if [] \<in> set segments \<or> MAX_NESTED_SEGMENTS < length segments then [name] else segments)"

definition both_value_and_object :: "string \<Rightarrow> string" where
  "both_value_and_object path = ticked path @ '' is both a value and an object''"

text \<open>The walk of one entry, from the object its remaining segments are under; \<open>done\<close> are those passed.\<close>

fun place :: "env_entry \<Rightarrow> string \<Rightarrow> string list \<Rightarrow> string list \<Rightarrow> claims \<Rightarrow> origins \<Rightarrow> env_file_error + claims \<times> origins" where
  "place e name passed [] current origins = Inr (current, origins)"
| "place e name passed [segment] current origins =
     (case map_of current segment of
        Some existing \<Rightarrow> Inl (entry_conflict e (origins name)
          (case existing of JObject _ \<Rightarrow> both_value_and_object name | _ \<Rightarrow> ''names are case insensitive''))
      | None \<Rightarrow> Inr (obj_insert segment (JString (en_value e)) current, origins(name \<mapsto> (en_name e, en_line e))))"
| "place e name passed (segment # next # segments) current origins =
     (let path = join_on ''.'' (passed @ [segment]);
          (slot, origins) = (case map_of current segment of
            Some slot \<Rightarrow> (slot, origins)
          | None \<Rightarrow> (JObject [], origins(path \<mapsto> (en_name e, en_line e)))) in
      case slot of
        JObject m \<Rightarrow> res_bind (place e name (passed @ [segment]) (next # segments) m origins) (\<lambda>(m, origins).
          Inr (obj_insert segment (JObject m) current, origins))
      | _ \<Rightarrow> Inl (entry_conflict e (origins path) (both_value_and_object path)))"

fun place_all :: "(string \<Rightarrow> string) \<Rightarrow> env_entry list \<Rightarrow> claims \<Rightarrow> origins \<Rightarrow> env_file_error + claims" where
  "place_all lower [] object origins = Inr object"
| "place_all lower (e # es) object origins =
     (let name = lower (en_name e) in
      res_bind (place e name [] (segments_of name) object origins) (\<lambda>(object, origins).
      place_all lower es object origins))"

definition parse_env_file_object :: "(string \<Rightarrow> string) \<Rightarrow> string \<Rightarrow> env_file_error + claims" where
  "parse_env_file_object lower content = res_bind (parse_entries content) (\<lambda>entries.
     place_all lower entries [] Map.empty)"

end
