(* ===== verification/ConfigMerge.thy ===== *)
theory ConfigMerge
  imports ConfigEnv
begin

text \<open>
  Merging the sources of a configuration, \<^verbatim>\<open>crates/config/src/merge.rs\<close>, and the errors of
  \<^verbatim>\<open>error.rs\<close>. The messages of third party parsers are theirs.
\<close>

datatype loader_error =
    Object_Field_Type_Mismatch string string
  | Array_Field_Type_Mismatch string string
  | File_Open string
  | Read_File_Contents string
  | Parse_Toml string string
  | Parse_Yaml string string
  | Parse_Json string string
  | Parse_Env_File env_file_error string
  | Unsupported_File_Type string
  | Parse_Final_Json string "string option" string
  | Serialize_Json
  | Read_Dir string
  | Dir_File string
  | Get_File_Name string
  | Read_Path_Meta_Data string
  | Value_Is_Not_Object
  | Invalid_Wildcard string string
  | Cicada_Feature_Disabled string
  | Cicada_Load string string

fun value_type :: "json \<Rightarrow> string" where
  "value_type JNull = ''null''"
| "value_type (JBool _) = ''boolean''"
| "value_type (JNumber _) = ''number''"
| "value_type (JString _) = ''string''"
| "value_type (JArray _) = ''array''"
| "value_type (JObject _) = ''object''"

section \<open>Merging objects, or failing\<close>

text \<open>The loop over the source; \<open>BTreeMap::remove\<close> takes the value which was there.\<close>

function merge_objects :: "bool \<Rightarrow> bool \<Rightarrow> claims \<Rightarrow> claims \<Rightarrow> loader_error + claims" where
  "merge_objects merge_nested extend_array target [] = Inr target"
| "merge_objects merge_nested extend_array target ((key, value) # source) =
     (case map_of target key of
        None \<Rightarrow> merge_objects merge_nested extend_array (obj_insert key value target) source
      | Some existing \<Rightarrow>
          let target = obj_remove key target in
          res_bind
            (case existing of
               JObject target_obj \<Rightarrow>
                 (if \<not> merge_nested then Inr value
                  else case value of
                    JObject source_obj \<Rightarrow> map_sum id JObject (merge_objects merge_nested extend_array target_obj source_obj)
                  | _ \<Rightarrow> Inl (Object_Field_Type_Mismatch key (value_type value)))
             | JArray target_arr \<Rightarrow>
                 (if \<not> extend_array then Inr value
                  else case value of
                    JArray source_arr \<Rightarrow> Inr (JArray (target_arr @ source_arr))
                  | _ \<Rightarrow> Inl (Array_Field_Type_Mismatch key (value_type value)))
             | _ \<Rightarrow> Inr value)
            (\<lambda>value. merge_objects merge_nested extend_array (obj_insert key value target) source))"
  by pat_completeness auto
termination
  by (relation "measure (\<lambda>(_, _, _, source). size (JObject source))") auto

section \<open>Merging a source\<close>

definition split_entries :: "string \<Rightarrow> json list" where
  "split_entries l = map JString (filter (\<lambda>e. e \<noteq> []) (map trim (split_on (CHR '','') l)))"

function merge_source :: "bool \<Rightarrow> bool \<Rightarrow> bool \<Rightarrow> claims \<Rightarrow> claims \<Rightarrow> claims" where
  "merge_source merge_nested extend_array split_lists target [] = target"
| "merge_source merge_nested extend_array split_lists target ((key, value) # source) =
     (let merged = (case map_of target key of
          None \<Rightarrow> value
        | Some existing \<Rightarrow>
            (case existing of
               JObject target_obj \<Rightarrow>
                 if merge_nested then
                   (case value of
                      JObject source_obj \<Rightarrow>
                        JObject (merge_source merge_nested extend_array split_lists target_obj source_obj)
                    | JNull \<Rightarrow> existing
                    | _ \<Rightarrow> value)
                 else value
             | JArray target_arr \<Rightarrow>
                 if extend_array then
                   (case value of
                      JArray source_arr \<Rightarrow> JArray (target_arr @ source_arr)
                    | JNull \<Rightarrow> existing
                    | JString l \<Rightarrow> if split_lists then JArray (target_arr @ split_entries l) else value
                    | _ \<Rightarrow> value)
                 else value
             | _ \<Rightarrow> value)) in
      merge_source merge_nested extend_array split_lists (obj_insert key merged target) source)"
  by pat_completeness auto
termination
  by (relation "measure (\<lambda>(_, _, _, _, source). size (JObject source))") auto

text \<open>\<open>merge_config\<close>, for a type which is serialized and deserialized.\<close>

definition merge_config ::
  "('t \<Rightarrow> json option) \<Rightarrow> (json \<Rightarrow> loader_error + 't) \<Rightarrow> 't \<Rightarrow> 't \<Rightarrow> bool \<Rightarrow> bool \<Rightarrow> loader_error + 't" where
  "merge_config to_value deserialize_final target source merge_nested extend_array =
     res_bind (ok_or Serialize_Json (to_value target)) (\<lambda>target.
     case target of
       JObject target \<Rightarrow>
         res_bind (ok_or Serialize_Json (to_value source)) (\<lambda>source.
         case source of
           JObject source \<Rightarrow>
             res_bind (merge_objects merge_nested extend_array target source) (\<lambda>object. deserialize_final (JObject object))
         | _ \<Rightarrow> Inl Value_Is_Not_Object)
     | _ \<Rightarrow> Inl Value_Is_Not_Object)"

end
