(* ===== verification/ConfigInterpolate.thy ===== *)
theory ConfigInterpolate
  imports ConfigMerge
begin

text \<open>
  Environment variables and command output in the values of a configuration, \<^verbatim>\<open>crates/config/src/interpolate.rs\<close>. Its
  regular expressions find references of a fixed form, which are read here directly. The process environment and the
  shell are parameters: what a command prints, if it can be started, and the world it leaves.
\<close>

record 'w shell =
  sh_name :: string
  sh_var :: "string \<Rightarrow> 'w \<Rightarrow> string option"
  sh_run :: "string \<Rightarrow> string \<Rightarrow> 'w \<Rightarrow> string option \<times> 'w"

section \<open>References\<close>

datatype piece = Text_Char char | Env_Ref string | Shell_Ref string

definition is_word_char :: "char \<Rightarrow> bool" where
  "is_word_char c \<longleftrightarrow> is_ascii_alnum c \<or> c = CHR ''_''"

text \<open>\<open>${NAME}\<close> or \<open>$(name)\<close> at the start, with what follows it.\<close>

definition closed_by :: "char \<Rightarrow> string \<Rightarrow> (string \<times> string) option" where
  "closed_by close s =
     (let word = takeWhile is_word_char s; rest = dropWhile is_word_char s in
      if word \<noteq> [] \<and> rest \<noteq> [] \<and> hd rest = close then Some (word, tl rest) else None)"

fun reference :: "bool \<Rightarrow> bool \<Rightarrow> string \<Rightarrow> (piece \<times> string) option" where
  "reference env shell (a # b # s) =
     (if a \<noteq> CHR ''$'' then None
      else if env \<and> b = CHR ''{'' then map_option (\<lambda>(word, rest). (Env_Ref word, rest)) (closed_by (CHR ''}'') s)
      else if shell \<and> b = CHR ''('' then map_option (\<lambda>(word, rest). (Shell_Ref word, rest)) (closed_by (CHR '')'') s)
      else None)"
| "reference env shell _ = None"

lemma reference_shorter: "reference env shell s = Some (p, rest) \<Longrightarrow> length rest < length s"
proof -
  have "length rest \<le> length s" if "closed_by close s = Some (word, rest)" for close s word rest
    using that length_dropWhile_le [of is_word_char s] by (auto simp: closed_by_def Let_def split: if_splits)
  then show "reference env shell s = Some (p, rest) \<Longrightarrow> length rest < length s"
    by (cases "(env, shell, s)" rule: reference.cases) (fastforce split: if_splits)+
qed

text \<open>What \<open>replace_all\<close> goes through: the references, leftmost first, and the characters between them.\<close>

function pieces :: "bool \<Rightarrow> bool \<Rightarrow> string \<Rightarrow> piece list" where
  "pieces env shell [] = []"
| "pieces env shell (c # s) = (case reference env shell (c # s) of
     Some (p, rest) \<Rightarrow> p # pieces env shell rest
   | None \<Rightarrow> Text_Char c # pieces env shell s)"
  by pat_completeness auto
termination
  by (relation "measure (\<lambda>(_, _, s). length s)") (auto dest: reference_shorter)

definition needs_interpolation :: "string \<Rightarrow> bool" where
  "needs_interpolation s \<longleftrightarrow> find_sub ''${'' s \<noteq> None \<or> find_sub ''$('' s \<noteq> None"

text \<open>Anything between the brackets, up to the first which closes.\<close>

fun any_reference :: "string \<Rightarrow> (string \<times> string) option" where
  "any_reference (a # b # s) =
     (if a \<noteq> CHR ''$'' then None
      else let close = (if b = CHR ''('' then CHR '')'' else CHR ''}'') in
      if (b = CHR ''('' \<or> b = CHR ''{'') \<and> close \<in> set s
      then Some (a # b # takeWhile (\<lambda>c. c \<noteq> close) s @ [close], tl (dropWhile (\<lambda>c. c \<noteq> close) s))
      else None)"
| "any_reference _ = None"

lemma any_reference_shorter: "any_reference s = Some (f, rest) \<Longrightarrow> length rest < length s"
proof -
  have "length (dropWhile P s) - Suc 0 < Suc (Suc (length s))" for P and s :: string
    using length_dropWhile_le [of P s] by simp
  then show "any_reference s = Some (f, rest) \<Longrightarrow> length rest < length s"
    by (cases s rule: any_reference.cases) (auto simp: Let_def split: if_splits)
qed

function any_references :: "string \<Rightarrow> string list" where
  "any_references [] = []"
| "any_references (c # s) = (case any_reference (c # s) of
     Some (f, rest) \<Rightarrow> f # any_references rest
   | None \<Rightarrow> any_references s)"
  by pat_completeness auto
termination
  by (relation "measure length") (auto dest: any_reference_shorter)

definition has_unsupported_interpolation :: "string \<Rightarrow> bool" where
  "has_unsupported_interpolation s \<longleftrightarrow> needs_interpolation s \<and>
     list_ex (\<lambda>f. case reference True True f of Some (_, []) \<Rightarrow> False | _ \<Rightarrow> True) (any_references s)"

text \<open>The paths of the values with one which is kept as written.\<close>

fun unsupported_walk :: "string \<Rightarrow> json \<Rightarrow> string list"
  and unsupported_items :: "string \<Rightarrow> nat \<Rightarrow> json list \<Rightarrow> string list"
  and unsupported_entries :: "string \<Rightarrow> claims \<Rightarrow> string list" where
  "unsupported_walk path (JString s) =
     (if has_unsupported_interpolation s then [if path = [] then ''.'' else path] else [])"
| "unsupported_walk path (JArray items) = unsupported_items path 0 items"
| "unsupported_walk path (JObject m) = unsupported_entries path m"
| "unsupported_walk path _ = []"
| "unsupported_items path i [] = []"
| "unsupported_items path i (v # vs) =
     unsupported_walk (path @ ''['' @ show_nat i @ '']'') v @ unsupported_items path (Suc i) vs"
| "unsupported_entries path [] = []"
| "unsupported_entries path ((k, v) # m) =
     unsupported_walk (if path = [] then k else path @ ''.'' @ k) v @ unsupported_entries path m"

definition unsupported_interpolations :: "json \<Rightarrow> string list" where
  "unsupported_interpolations = unsupported_walk []"

section \<open>Substitution\<close>

text \<open>\<open>String::from_utf8\<close>.\<close>

fun utf8_ok :: "nat list \<Rightarrow> bool" where
  "utf8_ok [] \<longleftrightarrow> True"
| "utf8_ok (a # s) \<longleftrightarrow>
     (if a < 0x80 then utf8_ok s
      else if 0xC2 \<le> a \<and> a \<le> 0xDF then
        (case s of b # s \<Rightarrow> 0x80 \<le> b \<and> b \<le> 0xBF \<and> utf8_ok s | _ \<Rightarrow> False)
      else if 0xE0 \<le> a \<and> a \<le> 0xEF then
        (case s of b # c # s \<Rightarrow>
           (if a = 0xE0 then 0xA0 else 0x80) \<le> b \<and> b \<le> (if a = 0xED then 0x9F else 0xBF) \<and> 0x80 \<le> c \<and> c \<le> 0xBF \<and> utf8_ok s
         | _ \<Rightarrow> False)
      else if 0xF0 \<le> a \<and> a \<le> 0xF4 then
        (case s of b # c # d # s \<Rightarrow>
           (if a = 0xF0 then 0x90 else 0x80) \<le> b \<and> b \<le> (if a = 0xF4 then 0x8F else 0xBF) \<and> 0x80 \<le> c \<and> c \<le> 0xBF \<and>
           0x80 \<le> d \<and> d \<le> 0xBF \<and> utf8_ok s
         | _ \<Rightarrow> False)
      else False)"

definition stdout_text :: "string option \<Rightarrow> string" where
  "stdout_text output = (case output of
     None \<Rightarrow> []
   | Some out \<Rightarrow> if utf8_ok (map of_char out) then trim out else [])"

definition run_shell_command :: "'w shell \<Rightarrow> string \<Rightarrow> string \<Rightarrow> 'w \<Rightarrow> string \<times> 'w" where
  "run_shell_command S command shell w = (case sh_run S shell command w of (output, w) \<Rightarrow> (stdout_text output, w))"

definition try_get_env_extended :: "'w shell \<Rightarrow> string \<Rightarrow> string \<Rightarrow> 'w \<Rightarrow> string \<times> 'w" where
  "try_get_env_extended S var_name shell w = (case sh_var S var_name w of
     Some value \<Rightarrow> if value \<noteq> [] then (value, w) else run_shell_command S (''echo $'' @ var_name) shell w
   | None \<Rightarrow> run_shell_command S (''echo $'' @ var_name) shell w)"

text \<open>\<open>replace_all\<close> with the replacement of each piece.\<close>

fun expand :: "(piece \<Rightarrow> 'w \<Rightarrow> string \<times> 'w) \<Rightarrow> piece list \<Rightarrow> 'w \<Rightarrow> string \<times> 'w" where
  "expand f [] w = ([], w)"
| "expand f (p # ps) w = (case f p w of (a, w) \<Rightarrow> (case expand f ps w of (b, w) \<Rightarrow> (a @ b, w)))"

fun env_piece :: "'w shell \<Rightarrow> string \<Rightarrow> piece \<Rightarrow> 'w \<Rightarrow> string \<times> 'w" where
  "env_piece S shell (Env_Ref v) w = try_get_env_extended S v shell w"
| "env_piece S shell (Shell_Ref c) w = run_shell_command S c shell w"
| "env_piece S shell (Text_Char c) w = ([c], w)"

definition replace_env :: "'w shell \<Rightarrow> string \<Rightarrow> string \<Rightarrow> 'w \<Rightarrow> string \<times> 'w" where
  "replace_env S shell input = expand (env_piece S shell) (pieces True False input)"

fun env_or_shell_piece :: "'w shell \<Rightarrow> piece \<Rightarrow> 'w \<Rightarrow> string \<times> 'w" where
  "env_or_shell_piece S (Env_Ref v) w =
     (case try_get_env_extended S v (sh_name S) w of (value, w) \<Rightarrow> replace_env S (sh_name S) value w)"
| "env_or_shell_piece S p w = env_piece S (sh_name S) p w"

definition interpolate_env_and_shell :: "'w shell \<Rightarrow> string \<Rightarrow> 'w \<Rightarrow> string \<times> 'w" where
  "interpolate_env_and_shell S input w =
     (if \<not> needs_interpolation input then (input, w)
      else expand (env_or_shell_piece S) (pieces True True input) w)"

definition interpolate_env :: "'w shell \<Rightarrow> string \<Rightarrow> string \<Rightarrow> 'w \<Rightarrow> string \<times> 'w" where
  "interpolate_env S input shell w = (case replace_env S shell input w of
     (first_env_pass, w) \<Rightarrow> replace_env S shell first_env_pass w)"

definition interpolate_shell :: "'w shell \<Rightarrow> string \<Rightarrow> string \<Rightarrow> 'w \<Rightarrow> string \<times> 'w" where
  "interpolate_shell S input shell = expand (env_piece S shell) (pieces False True input)"

section \<open>Values\<close>

definition interpolate_text :: "'w shell \<Rightarrow> string \<Rightarrow> 'w \<Rightarrow> string \<times> 'w" where
  "interpolate_text S s w = (if needs_interpolation s then interpolate_env_and_shell S s w else (s, w))"

text \<open>The entries inserted again under their interpolated keys.\<close>

fun rekey :: "'w shell \<Rightarrow> claims \<Rightarrow> claims \<Rightarrow> 'w \<Rightarrow> claims \<times> 'w" where
  "rekey S [] m w = (m, w)"
| "rekey S ((k, v) # entries) m w = (case interpolate_env_and_shell S k w of
     (k, w) \<Rightarrow> rekey S entries (obj_insert k v m) w)"

fun interpolate_value :: "'w shell \<Rightarrow> json \<Rightarrow> 'w \<Rightarrow> json \<times> 'w"
  and interpolate_items :: "'w shell \<Rightarrow> json list \<Rightarrow> 'w \<Rightarrow> json list \<times> 'w"
  and interpolate_entries :: "'w shell \<Rightarrow> claims \<Rightarrow> 'w \<Rightarrow> claims \<times> 'w" where
  "interpolate_value S (JString s) w = (case interpolate_text S s w of (s, w) \<Rightarrow> (JString s, w))"
| "interpolate_value S (JArray items) w = (case interpolate_items S items w of (items, w) \<Rightarrow> (JArray items, w))"
| "interpolate_value S (JObject m) w = (case interpolate_entries S m w of (m, w) \<Rightarrow>
     if list_ex (\<lambda>e. needs_interpolation (fst e)) m
     then (case rekey S m [] w of (m, w) \<Rightarrow> (JObject m, w))
     else (JObject m, w))"
| "interpolate_value S v w = (v, w)"
| "interpolate_items S [] w = ([], w)"
| "interpolate_items S (v # vs) w = (case interpolate_value S v w of (v, w) \<Rightarrow>
     (case interpolate_items S vs w of (vs, w) \<Rightarrow> (v # vs, w)))"
| "interpolate_entries S [] w = ([], w)"
| "interpolate_entries S ((k, v) # m) w = (case interpolate_value S v w of (v, w) \<Rightarrow>
     (case interpolate_entries S m w of (m, w) \<Rightarrow> ((k, v) # m, w)))"

end
