(* ===== verification/ConfigRedact.thy ===== *)
theory ConfigRedact
  imports ConfigMerge ExternalFlow
begin

text \<open>
  Error messages without the values of a configuration, \<^verbatim>\<open>crates/config/src/error.rs\<close>. The
  regular expressions are written out as scanners: each can match in one way only. The characters \<open>\d\<close>
  stands for are a parameter, the decimal digits of Unicode.
\<close>

abbreviation TICK :: char where "TICK \<equiv> CHR 0x60"

section \<open>Values\<close>

text \<open>The rest after a double quoted string, from the character after its opening quote.\<close>

fun quoted_end :: "string \<Rightarrow> string option" where
  "quoted_end [] = None"
| "quoted_end (c # s) =
     (if c = CHR 0x22 then Some s
      else if c = CHR 0x5C then (case s of [] \<Rightarrow> None | d # s \<Rightarrow> quoted_end s)
      else quoted_end s)"

definition ticked_end :: "string \<Rightarrow> string option" where
  "ticked_end s = (if TICK \<in> set s then Some (tl (dropWhile (\<lambda>c. c \<noteq> TICK) s)) else None)"

text \<open>One character in backticks, which may be a backtick.\<close>

definition character_end :: "string \<Rightarrow> string option" where
  "character_end s = (case s of
     [] \<Rightarrow> None
   | c # s \<Rightarrow> (case dropWhile is_continuation s of [] \<Rightarrow> None | d # rest \<Rightarrow> if d = TICK then Some rest else None))"

text \<open>What is matched at the start: its replacement and the rest.\<close>

definition value_token :: "string \<Rightarrow> (string \<times> string) option" where
  "value_token s =
     (let quoted = (if s \<noteq> [] \<and> hd s = CHR 0x22 then quoted_end (tl s) else None);
          character = Option.bind (strip_prefix (''character '' @ [TICK]) s) character_end;
          ticked = (if s \<noteq> [] \<and> hd s = TICK then ticked_end (tl s) else None) in
      case quoted of
        Some rest \<Rightarrow> Some (''[redacted]'', rest)
      | None \<Rightarrow> (case character of
          Some rest \<Rightarrow> Some (''character [redacted]'', rest)
        | None \<Rightarrow> map_option (Pair ''[redacted]'') ticked))"

lemma quoted_end_shorter: "quoted_end s = Some r \<Longrightarrow> length r < length s"
  by (induction s arbitrary: r rule: quoted_end.induct) (fastforce split: if_splits list.splits)+

lemma ticked_end_shorter: "ticked_end s = Some r \<Longrightarrow> length r \<le> length s"
  using length_dropWhile_le [of "\<lambda>c. c \<noteq> TICK" s] by (auto simp: ticked_end_def split: if_splits)

lemma character_end_shorter: "character_end s = Some r \<Longrightarrow> length r < length s"
proof (cases s)
  case (Cons c t)
  moreover assume "character_end s = Some r"
  ultimately obtain d where "dropWhile is_continuation t = d # r"
    by (auto simp: character_end_def split: list.splits if_splits)
  then have "length r < length (dropWhile is_continuation t)" by simp
  then show ?thesis using length_dropWhile_le [of is_continuation t] Cons by simp
qed (simp add: character_end_def)

lemma value_token_shorter: "value_token s = Some (r, rest) \<Longrightarrow> length rest < length s"
  by (cases s) (auto simp: value_token_def Let_def strip_prefix_Some_iff bind_eq_Some_conv split: option.splits if_splits
      dest!: quoted_end_shorter ticked_end_shorter character_end_shorter)

function redact_values :: "string \<Rightarrow> string" where
  "redact_values [] = []"
| "redact_values (c # s) = (case value_token (c # s) of
     Some (r, rest) \<Rightarrow> r @ redact_values rest
   | None \<Rightarrow> c # redact_values s)"
  by pat_completeness auto
termination
  by (relation "measure length") (auto dest: value_token_shorter)

section \<open>Messages\<close>

definition value_wordings :: "string list" where
  "value_wordings = concat (map (\<lambda>invalid. map (\<lambda>kind. invalid @ '': '' @ kind @ '' '')
     [''string'', ''character'', ''boolean'', ''integer'', ''floating point'']) [''invalid type'', ''invalid value''])"

definition WORDINGS :: "string list" where
  "WORDINGS = value_wordings @ [''unknown variant '', ''unknown field '', ''missing field '', ''duplicate field '']"

text \<open>Where serde's own wording starts, if the text ends with one.\<close>

definition wording_start :: "string \<Rightarrow> nat option" where
  "wording_start before = map_option (\<lambda>w. length before - length w)
     (List.find (\<lambda>w. suffix w before \<and>
        (length before = length w \<or> suffix '': '' (take (length before - length w) before))) WORDINGS)"

definition all_digits :: "(string \<Rightarrow> bool) \<Rightarrow> string \<Rightarrow> bool" where
  "all_digits digit s \<longleftrightarrow> s \<noteq> [] \<and> list_all digit (utf8_chars s)"

definition location_here :: "(string \<Rightarrow> bool) \<Rightarrow> string \<Rightarrow> bool" where
  "location_here digit s \<longleftrightarrow>
     (case strip_prefix '' at line '' s of
        Some r \<Rightarrow> (case split_once_str '' column '' r of
          Some (line, column) \<Rightarrow> all_digits digit line \<and> all_digits digit column
        | None \<Rightarrow> False)
      | None \<Rightarrow> (case strip_prefix '' at position '' s of
          Some r \<Rightarrow> all_digits digit r
        | None \<Rightarrow> False))"

fun find_location :: "(string \<Rightarrow> bool) \<Rightarrow> string \<Rightarrow> string" where
  "find_location digit [] = []"
| "find_location digit (c # s) = (if location_here digit (c # s) then c # s else find_location digit s)"

text \<open>The last end of an unknown name, and what is after it.\<close>

fun unknown_end :: "string \<Rightarrow> (string \<times> string) option" where
  "unknown_end [] = None"
| "unknown_end (c # s) = (case unknown_end s of
     Some r \<Rightarrow> Some r
   | None \<Rightarrow> (case strip_prefix (TICK # '', expected'') (c # s) of
       Some rest \<Rightarrow> Some ('', expected'', rest)
     | None \<Rightarrow> map_option (Pair '', there are no'') (strip_prefix (TICK # '', there are no'') (c # s))))"

definition unknown_name :: "string \<Rightarrow> (string \<times> string \<times> string) option" where
  "unknown_name rest = Option.bind
     (List.find (\<lambda>u. prefix (u @ [TICK]) rest) [''unknown variant '', ''unknown field ''])
     (\<lambda>u. map_option (Pair u) (unknown_end (drop (length u + 1) rest)))"

definition redact_message :: "(string \<Rightarrow> bool) \<Rightarrow> string \<Rightarrow> bool \<Rightarrow> string" where
  "redact_message digit message path_prefix =
     (let before = takeWhile (\<lambda>c. c \<noteq> CHR 0x22 \<and> c \<noteq> TICK) message;
          start = (if before \<noteq> message \<and> path_prefix then wording_start before else Some 0) in
      case start of
        None \<Rightarrow> before @ ''[redacted]'' @ find_location digit (drop (length before) message)
      | Some start \<Rightarrow>
          (case unknown_name (drop start message) of
             Some (u, expected, rest) \<Rightarrow> take start message @ u @ ''[redacted]'' @ expected @ rest
           | None \<Rightarrow> redact_values message))"

definition redact_serde_error :: "(string \<Rightarrow> bool) \<Rightarrow> string \<Rightarrow> string" where
  "redact_serde_error digit e = redact_message digit e False"

definition redact_yaml_error :: "(string \<Rightarrow> bool) \<Rightarrow> string \<Rightarrow> string" where
  "redact_yaml_error digit e = redact_message digit e True"

text \<open>The prefix of a string at a byte offset, on the boundary of a character.\<close>

definition str_get :: "string \<Rightarrow> nat \<Rightarrow> string option" where
  "str_get s n = (if n < length s \<and> \<not> is_continuation (s ! n) \<or> n = length s then Some (take n s) else None)"

definition line_column :: "string \<Rightarrow> nat \<Rightarrow> (nat \<times> nat) option" where
  "line_column contents offset = map_option (\<lambda>before.
     (length (filter (\<lambda>c. c = CHR 0x0A) before) + 1, char_count (last (split_on (CHR 0x0A) before)) + 1)) (str_get contents offset)"

text \<open>The message and the start of the span of a toml error.\<close>

definition redact_toml_error :: "(string \<Rightarrow> bool) \<Rightarrow> string \<times> nat option \<Rightarrow> string \<Rightarrow> string" where
  "redact_toml_error digit e contents =
     (let message = redact_message digit (trim_end (fst e)) False in
      case Option.bind (snd e) (line_column contents) of
        None \<Rightarrow> message
      | Some (line, column) \<Rightarrow> message @ '' at line '' @ show_nat line @ '' column '' @ show_nat column)"

section \<open>The final type\<close>

datatype path_segment = Seg_Map string | Seg_Enum string | Seg_Seq nat | Seg_Unknown

definition get_key :: "json \<Rightarrow> string \<Rightarrow> json option" where
  "get_key v key = (case v of JObject m \<Rightarrow> map_of m key | _ \<Rightarrow> None)"

definition get_index :: "json \<Rightarrow> nat \<Rightarrow> json option" where
  "get_index v i = (case v of JArray vs \<Rightarrow> if i < length vs then Some (vs ! i) else None | _ \<Rightarrow> None)"

fun value_at :: "json \<Rightarrow> path_segment list \<Rightarrow> json option" where
  "value_at v [] = Some v"
| "value_at v (Seg_Map key # path) = (case get_key v key of None \<Rightarrow> None | Some v \<Rightarrow> value_at v path)"
| "value_at v (Seg_Enum key # path) = (case get_key v key of None \<Rightarrow> None | Some v \<Rightarrow> value_at v path)"
| "value_at v (Seg_Seq i # path) =
     (case v of JString _ \<Rightarrow> Some v | _ \<Rightarrow> (case get_index v i of None \<Rightarrow> None | Some v \<Rightarrow> value_at v path))"
| "value_at v (Seg_Unknown # path) = None"

text \<open>\<open>deserialize\<close> gives the path of an error, as segments and as text, with its message.\<close>

definition deserialize_final ::
  "(string \<Rightarrow> bool) \<Rightarrow> (json \<Rightarrow> (path_segment list \<times> string \<times> string) + 't) \<Rightarrow> json \<Rightarrow> loader_error + 't" where
  "deserialize_final digit deserialize v = (case deserialize v of
     Inr x \<Rightarrow> Inr x
   | Inl (path, path_text, message) \<Rightarrow>
       Inl (Parse_Final_Json path_text (map_option value_type (value_at v path)) (redact_serde_error digit message)))"

section \<open>What is left of a value\<close>

text \<open>
  What serde writes of a value after its wording: a string between quotes, escaped as by \<open>{:?}\<close>; one character,
  whichever, or a number or boolean, between backticks.
\<close>

fun escaped_text :: "string \<Rightarrow> bool" where
  "escaped_text [] \<longleftrightarrow> True"
| "escaped_text (c # s) \<longleftrightarrow>
     (if c = CHR 0x22 then False
      else if c = CHR 0x5C then (case s of [] \<Rightarrow> False | d # s \<Rightarrow> escaped_text s)
      else escaped_text s)"

inductive written :: "string \<Rightarrow> string \<Rightarrow> bool" where
  quoted: "w \<in> {''invalid type: string '', ''invalid value: string ''} \<Longrightarrow> escaped_text e \<Longrightarrow>
    written w (CHR 0x22 # e @ [CHR 0x22])"
| character: "w \<in> {''invalid type: character '', ''invalid value: character ''} \<Longrightarrow> \<forall>x \<in> set cs. is_continuation x \<Longrightarrow>
    written w (TICK # c # cs @ [TICK])"
| plain: "w \<in> {''invalid type: boolean '', ''invalid value: boolean '', ''invalid type: integer '', ''invalid value: integer '',
      ''invalid type: floating point '', ''invalid value: floating point ''} \<Longrightarrow> TICK \<notin> set t \<Longrightarrow>
    written w (TICK # t @ [TICK])"

lemma quoted_end_escaped: "escaped_text e \<Longrightarrow> quoted_end (e @ CHR 0x22 # r) = Some r"
  by (induction e rule: escaped_text.induct) (auto split: if_splits list.splits)

lemma ticked_end_plain:
  assumes "TICK \<notin> set v"
  shows "ticked_end (v @ TICK # r) = Some r"
proof -
  have "dropWhile (\<lambda>c. c \<noteq> TICK) (v @ TICK # r) = TICK # r" using assms by (induction v) auto
  then show ?thesis by (simp add: ticked_end_def)
qed

lemma tick_byte [simp]: "\<not> is_continuation TICK"
  by (simp add: is_continuation_def)

lemma no_token:
  assumes "c \<noteq> CHR 0x22" "c \<noteq> TICK" "takeWhile (\<lambda>x. x \<noteq> TICK) (c # s) \<noteq> ''character ''"
  shows "value_token (c # s) = None"
proof -
  have "strip_prefix (''character '' @ [TICK]) (c # s) = None"
  proof (rule ccontr)
    assume "strip_prefix (''character '' @ [TICK]) (c # s) \<noteq> None"
    then obtain r where "c # s = ''character '' @ TICK # r" by (auto simp: strip_prefix_Some_iff)
    then have "takeWhile (\<lambda>x. x \<noteq> TICK) (c # s) = ''character ''" by simp
    then show False using assms(3) by simp
  qed
  then show ?thesis using assms(1,2) by (simp add: value_token_def)
qed

lemma redact_plain:
  assumes "CHR 0x22 \<notin> set p" "TICK \<notin> set p"
    and "\<And>q. suffix q p \<Longrightarrow> q \<noteq> [] \<Longrightarrow> takeWhile (\<lambda>x. x \<noteq> TICK) (q @ t) \<noteq> ''character ''"
  shows "redact_values (p @ t) = p @ redact_values t"
  using assms
proof (induction p)
  case (Cons c p)
  have "value_token (c # p @ t) = None" using Cons.prems(3) [of "c # p"] Cons.prems(1,2) by (intro no_token) auto
  moreover have "redact_values (p @ t) = p @ redact_values t"
    using Cons.prems by (intro Cons.IH) (auto simp: suffix_Cons)
  ultimately show ?case by simp
qed simp

lemma redact_written:
  assumes "written w t" "CHR 0x22 \<notin> set p" "TICK \<notin> set p"
  shows "redact_values (p @ w @ t @ r) = p @ w @ ''[redacted]'' @ redact_values r"
  using assms(1)
proof cases
  case (quoted e)
  have "redact_values ((p @ w) @ t @ r) = (p @ w) @ redact_values (t @ r)"
  proof (rule redact_plain)
    fix q assume "suffix q (p @ w)"
    then have "TICK \<notin> set q" using assms(3) quoted(2) by (auto dest!: set_mono_suffix)
    then have "CHR 0x22 \<in> set (takeWhile (\<lambda>x. x \<noteq> TICK) (q @ t @ r))" by (auto simp: quoted(1) takeWhile_append)
    then show "takeWhile (\<lambda>x. x \<noteq> TICK) (q @ t @ r) \<noteq> ''character ''" by auto
  qed (use assms(2,3) quoted(2) in auto)
  moreover have "value_token (t @ r) = Some (''[redacted]'', r)"
    using quoted_end_escaped [OF quoted(3), of r] by (simp add: quoted(1) value_token_def)
  ultimately show ?thesis by (simp add: quoted(1))
next
  case (character cs c)
  obtain v where v: "w = v @ ''character ''" "v \<in> {''invalid type: '', ''invalid value: ''}" using character(2) by auto
  have "redact_values ((p @ v) @ ''character '' @ t @ r) = (p @ v) @ redact_values (''character '' @ t @ r)"
  proof (rule redact_plain)
    fix q assume q: "suffix q (p @ v)" "q \<noteq> []"
    then have "TICK \<notin> set q" using assms(3) v(2) by (auto dest!: set_mono_suffix)
    then have "takeWhile (\<lambda>x. x \<noteq> TICK) (q @ ''character '' @ t @ r) = q @ ''character ''"
      by (auto simp: character(1) takeWhile_append)
    then show "takeWhile (\<lambda>x. x \<noteq> TICK) (q @ ''character '' @ t @ r) \<noteq> ''character ''" using q(2) by auto
  qed (use assms(2,3) v(2) in auto)
  moreover have "character_end (c # cs @ TICK # r) = Some r"
    using character(3) by (simp add: character_end_def dropWhile_append)
  then have "value_token (''character '' @ t @ r) = Some (''character [redacted]'', r)"
    using strip_prefix_append [of "''character '' @ [TICK]" "c # cs @ TICK # r"]
    by (simp add: character(1) value_token_def)
  ultimately show ?thesis by (simp add: v(1))
next
  case (plain v)
  have "redact_values ((p @ w) @ t @ r) = (p @ w) @ redact_values (t @ r)"
  proof (rule redact_plain)
    fix q assume q: "suffix q (p @ w)" "q \<noteq> []"
    then have "TICK \<notin> set q" using assms(3) plain(2) by (auto dest!: set_mono_suffix)
    then have "takeWhile (\<lambda>x. x \<noteq> TICK) (q @ t @ r) = q" by (auto simp: plain(1) takeWhile_append)
    moreover have "q \<noteq> ''character ''"
    proof
      assume "q = ''character ''"
      then have "suffix ''character '' (p @ w)" using q(1) by simp
      then show False using plain(2) by (auto simp: suffix_def append_eq_append_conv2 append_eq_Cons_conv)
    qed
    ultimately show "takeWhile (\<lambda>x. x \<noteq> TICK) (q @ t @ r) \<noteq> ''character ''" by simp
  qed (use assms(2,3) plain(2) in auto)
  moreover have "value_token (t @ r) = Some (''[redacted]'', r)"
    using ticked_end_plain [OF plain(3)] by (simp add: plain(1) value_token_def strip_prefix_def)
  ultimately show ?thesis by (simp add: plain(1))
qed

section \<open>Messages without values\<close>

lemma wordings_distinguished: "\<forall>v \<in> set WORDINGS. \<forall>w \<in> set WORDINGS. suffix v w \<longrightarrow> v = w"
  unfolding WORDINGS_def value_wordings_def by code_simp

lemma wording_start_found:
  assumes "w \<in> set WORDINGS" "p = [] \<or> suffix '': '' p"
  shows "wording_start (p @ w) = Some (length p)"
proof -
  let ?P = "\<lambda>v. suffix v (p @ w) \<and> (length (p @ w) = length v \<or> suffix '': '' (take (length (p @ w) - length v) (p @ w)))"
  have "?P w" using assms(2) by (auto simp: suffixI)
  then obtain v where v: "List.find ?P WORDINGS = Some v" using assms(1) by (cases "List.find ?P WORDINGS") (auto simp: find_None_iff)
  then have "v \<in> set WORDINGS" "suffix v (p @ w)" by (auto simp: find_Some_iff)
  moreover from this(2) have "suffix v w \<or> suffix w v" by (metis suffix_same_cases suffixI)
  ultimately have "v = w" using wordings_distinguished assms(1) by metis
  then show ?thesis using v by (simp add: wording_start_def)
qed

lemma written_wording: "written w t \<Longrightarrow> w \<in> set WORDINGS \<and> CHR 0x22 \<notin> set w \<and> TICK \<notin> set w \<and> hd w = CHR ''i'' \<and> w \<noteq> [] \<and>
    t \<noteq> [] \<and> (hd t = CHR 0x22 \<or> hd t = TICK)"
  by (induction rule: written.induct) (auto simp: WORDINGS_def value_wordings_def)

lemma unknown_end_last: "unknown_end s = None \<Longrightarrow> unknown_end (c # s) = Some r \<Longrightarrow> unknown_end (n @ c # s) = Some r"
  by (induction n) auto

lemma unknown_end_plain: "TICK \<notin> set n \<Longrightarrow> unknown_end s = None \<Longrightarrow> unknown_end (n @ s) = None"
  by (induction n) (auto simp: strip_prefix_def)

lemma unknown_end_expected:
  assumes "unknown_end rest = None" "e \<in> {'', expected'', '', there are no''}"
  shows "unknown_end (n @ TICK # e @ rest) = Some (e, rest)"
proof (rule unknown_end_last)
  show none: "unknown_end (e @ rest) = None" using assms by (intro unknown_end_plain) auto
  show "unknown_end (TICK # e @ rest) = Some (e, rest)"
    using assms(2) none strip_prefix_append [of "TICK # e" rest] by (auto simp: strip_prefix_def)
qed

text \<open>The path of a yaml message ends with a colon and a space, and holds no quote or backtick.\<close>

definition path_ok :: "bool \<Rightarrow> string \<Rightarrow> bool" where
  "path_ok path_prefix p \<longleftrightarrow>
     CHR 0x22 \<notin> set p \<and> TICK \<notin> set p \<and> (p = [] \<or> path_prefix \<and> suffix '': '' p)"

lemma redact_start:
  assumes "path_ok path_prefix p" "w \<in> set WORDINGS" "CHR 0x22 \<notin> set w" "TICK \<notin> set w" "t \<noteq> []" "hd t = CHR 0x22 \<or> hd t = TICK"
  shows "redact_message digit (p @ w @ t) path_prefix = (case unknown_name (w @ t) of
      Some (u, expected, rest) \<Rightarrow> p @ u @ ''[redacted]'' @ expected @ rest
    | None \<Rightarrow> redact_values (p @ w @ t))"
proof -
  let ?P = "\<lambda>c. c \<noteq> CHR 0x22 \<and> c \<noteq> TICK"
  have "takeWhile ?P ((p @ w) @ t) = p @ w"
    using assms(1,3-6) by (subst takeWhile_append2) (auto simp: path_ok_def hd_conv_nth takeWhile_eq_Nil_iff)
  moreover have "wording_start (p @ w) = Some (length p)"
    using assms(1,2) by (intro wording_start_found) (auto simp: path_ok_def)
  moreover have "p = []" if "\<not> path_prefix" using assms(1) that by (auto simp: path_ok_def)
  ultimately show ?thesis using assms(5) by (cases path_prefix) (auto simp: redact_message_def Let_def split: option.splits)
qed

text \<open>Where an error is, at the end of a message.\<close>

definition tells_where :: "(string \<Rightarrow> bool) \<Rightarrow> string \<Rightarrow> bool" where
  "tells_where digit l \<longleftrightarrow>
     (\<exists>line column. all_digits digit line \<and> all_digits digit column \<and> l = '' at line '' @ line @ '' column '' @ column) \<or>
     (\<exists>offset. all_digits digit offset \<and> l = '' at position '' @ offset)"

lemma split_once_str_parts:
  assumes "split_once_str p s = Some (a, b)"
  shows "s = a @ p @ b"
proof -
  obtain i where i: "find_sub p s = Some i" "a = take i s" "b = drop (i + length p) s"
    using assms by (auto split: option.splits)
  from i(1) obtain x r where "s = x @ p @ r" "length x = i" by (rule find_sub_Some) blast
  then show ?thesis using i(2,3) by auto
qed

lemma location_tells_where: "location_here digit l \<Longrightarrow> tells_where digit l"
  by (auto simp: location_here_def tells_where_def strip_prefix_Some_iff split: option.splits prod.splits simp del: split_once_str.simps dest!: split_once_str_parts)

lemma find_location_end: "find_location digit s = [] \<or> tells_where digit (find_location digit s) \<and> suffix (find_location digit s) s"
  by (induction s) (auto simp: suffix_Cons intro: location_tells_where)

lemma redact_unknown_path:
  assumes "CHR 0x22 \<notin> set b" "TICK \<notin> set b" "q = CHR 0x22 \<or> q = TICK" "wording_start b = None"
  shows "redact_message digit (b @ q # m) True = b @ ''[redacted]'' @ find_location digit (q # m)"
proof -
  have "takeWhile (\<lambda>c. c \<noteq> CHR 0x22 \<and> c \<noteq> TICK) (b @ q # m) = b"
    using assms(1-3) by (subst takeWhile_append2) auto
  then show ?thesis using assms(4) by (simp add: redact_message_def)
qed

text \<open>
  C39: whatever value a parser's message quotes, the message of the error is the same: a string, with quotes and backticks
  and text like serde's own in it, a character, a number or a boolean is replaced whole, and so is an unknown
  variant or field, up to the names which were expected. This holds for json and for yaml, whose messages may start with a path,
  as long as the path has no quote and no backtick. Where it has one, and the text before its first does not end like serde's wording, only
  that text is kept, and where the error is. A path whose key itself reads like serde's wording up to a quote is not covered:
  \<open>key_like_wording_reveals\<close> shows the value which then stays.
\<close>

theorem redaction_hides_values:
  assumes "path_ok path_prefix p"
  shows "(\<forall>w t rest. written w t \<longrightarrow>
      redact_message digit (p @ w @ t @ rest) path_prefix = p @ w @ ''[redacted]'' @ redact_values rest) \<and>
    (\<forall>u n e rest. u \<in> {''unknown variant '', ''unknown field ''} \<longrightarrow> e \<in> {'', expected'', '', there are no''} \<longrightarrow> unknown_end rest = None \<longrightarrow>
      redact_message digit (p @ u @ TICK # n @ TICK # e @ rest) path_prefix = p @ u @ ''[redacted]'' @ e @ rest) \<and>
    (\<forall>b q m. CHR 0x22 \<notin> set b \<and> TICK \<notin> set b \<and> (q = CHR 0x22 \<or> q = TICK) \<and>
      \<not> (\<exists>b' w. w \<in> set WORDINGS \<and> b = b' @ w \<and> (b' = [] \<or> suffix '': '' b')) \<longrightarrow>
      (\<exists>l. redact_message digit (b @ q # m) True = b @ ''[redacted]'' @ l \<and> (l = [] \<or> tells_where digit l \<and> suffix l (q # m))))"
proof (intro conjI allI impI)
  fix w t rest assume t: "written w t"
  note w = written_wording [OF t]
  have "unknown_name (w @ t @ rest) = None"
    using w by (cases w) (auto simp: unknown_name_def)
  then show "redact_message digit (p @ w @ t @ rest) path_prefix = p @ w @ ''[redacted]'' @ redact_values rest"
    using redact_start [OF assms, of w "t @ rest" digit] w redact_written [OF t, of p rest] assms by (auto simp: path_ok_def)
next
  fix u n e rest :: string
  assume u: "u \<in> {''unknown variant '', ''unknown field ''}" and e: "e \<in> {'', expected'', '', there are no''}" "unknown_end rest = None"
  have "unknown_name (u @ TICK # n @ TICK # e @ rest) = Some (u, e, rest)"
    using u unknown_end_expected [OF e(2,1), of n] by (auto simp: unknown_name_def)
  moreover have "u \<in> set WORDINGS" "CHR 0x22 \<notin> set u" "TICK \<notin> set u" using u by (auto simp: WORDINGS_def)
  ultimately show "redact_message digit (p @ u @ TICK # n @ TICK # e @ rest) path_prefix = p @ u @ ''[redacted]'' @ e @ rest"
    using redact_start [OF assms, of u "TICK # n @ TICK # e @ rest" digit] by simp
next
  fix b q m
  assume b: "CHR 0x22 \<notin> set b \<and> TICK \<notin> set b \<and> (q = CHR 0x22 \<or> q = TICK) \<and>
      \<not> (\<exists>b' w. w \<in> set WORDINGS \<and> b = b' @ w \<and> (b' = [] \<or> suffix '': '' b'))"
  have "\<not> (suffix w b \<and> (length b = length w \<or> suffix '': '' (take (length b - length w) b)))" if "w \<in> set WORDINGS" for w
    using b that by (auto simp: suffix_def)
  then have "wording_start b = None" by (auto simp: wording_start_def find_None_iff)
  then show "\<exists>l. redact_message digit (b @ q # m) True = b @ ''[redacted]'' @ l \<and> (l = [] \<or> tells_where digit l \<and> suffix l (q # m))"
    using redact_unknown_path [of b q digit m] b find_location_end [of digit "q # m"] by blast
qed

theorem redaction_hides_values_witness:
  "redact_message (\<lambda>_. False) (''db.port: invalid type: string '' @ CHR 0x22 # ''hunter2'' @ CHR 0x22 # '', expected u16'') True =
     ''db.port: invalid type: string [redacted], expected u16''"
proof -
  have "path_ok True ''db.port: ''" by (simp add: path_ok_def suffix_def)
  moreover have "written ''invalid type: string '' (CHR 0x22 # ''hunter2'' @ [CHR 0x22])" by (rule written.quoted) simp_all
  moreover have "redact_values '', expected u16'' = '', expected u16''" by (simp add: value_token_def strip_prefix_def)
  ultimately show ?thesis
    using redaction_hides_values [of True "''db.port: ''" "\<lambda>_. False", THEN conjunct1, rule_format, of "''invalid type: string ''"
      "CHR 0x22 # ''hunter2'' @ [CHR 0x22]" "'', expected u16''"] by simp
qed

text \<open>
  Not with a yaml key which reads like serde's wording: what the key's quote starts is taken for the value,
  and the value stays readable.
\<close>

lemma key_like_wording_reveals:
  "redact_message (\<lambda>_. False)
      (''x: invalid type: string '' @ CHR 0x22 # ''k'' @ '': invalid type: string '' @ CHR 0x22 # ''hunter2'' @ CHR 0x22 # '', expected u16'') True =
    ''x: invalid type: string [redacted]hunter2'' @ CHR 0x22 # '', expected u16''"
proof -
  have "wording_start ((''x: '') @ ''invalid type: string '') = Some (length ''x: '')"
    by (rule wording_start_found) (simp_all add: WORDINGS_def value_wordings_def suffix_def)
  then show ?thesis
    by (simp add: redact_message_def Let_def unknown_name_def value_token_def strip_prefix_def)
qed

end
