(* ===== verification/ConfigLoad.thy ===== *)
theory ConfigLoad
  imports ConfigInterpolate ConfigRedact
begin

text \<open>
  Finding the files of a configuration and loading them, \<^verbatim>\<open>crates/config/src/lib.rs\<close>,
  \<^verbatim>\<open>load.rs\<close> and \<^verbatim>\<open>includes.rs\<close>. The file system, which is taken not to change meanwhile, the parsers of
  toml, yaml and json, the wildcards, the cicada loader and the final deserialization are parameters. Paths are Unix
  paths in UTF-8.
\<close>

datatype file_kind = Regular | Directory | Other_Kind

record ('w, 't) config_env =
  cf_shell :: "'w shell"
  cf_lower :: "string \<Rightarrow> string"
  cf_cicada :: bool   \<comment> \<open>the feature\<close>
  cf_cicada_load :: "string \<Rightarrow> string list \<Rightarrow> 'w \<Rightarrow> (string + string) \<times> 'w"
  cf_metadata :: "string \<Rightarrow> file_kind option"
  cf_canonicalize :: "string \<Rightarrow> string option"
  cf_read_dir :: "string \<Rightarrow> (string \<times> string option) list option"   \<comment> \<open>paths with names, if UTF-8\<close>
  cf_open :: "string \<Rightarrow> bool"
  cf_read_to_string :: "string \<Rightarrow> string option"
  cf_wildcard :: "string \<Rightarrow> string + (string \<Rightarrow> bool)"
  cf_from_toml :: "string \<Rightarrow> (string \<times> nat option) + claims"   \<comment> \<open>an error's message and the start of its span\<close>
  cf_from_yaml :: "string \<Rightarrow> string + claims"
  cf_from_json :: "string \<Rightarrow> string + claims"
  cf_deserialize :: "json \<Rightarrow> (path_segment list \<times> string \<times> string) + 't"
  cf_digit :: "string \<Rightarrow> bool"

section \<open>Paths\<close>

definition path_components :: "string \<Rightarrow> string list" where
  "path_components p = filter (\<lambda>c. c \<noteq> [] \<and> c \<noteq> ''.'') (split_on (CHR ''/'') p)"

definition path_file_name :: "string \<Rightarrow> string option" where
  "path_file_name p =
     (let cs = path_components p in if cs = [] \<or> last cs = ''..'' then None else Some (last cs))"

definition path_extension :: "string \<Rightarrow> string option" where
  "path_extension p = (case path_file_name p of
     None \<Rightarrow> None
   | Some name \<Rightarrow>
       let after = takeWhile (\<lambda>c. c \<noteq> CHR ''.'') (rev name) in
       if length after + 1 < length name then Some (rev after) else None)"

definition path_join :: "string \<Rightarrow> string \<Rightarrow> string" where
  "path_join p q =
     (if q \<noteq> [] \<and> hd q = CHR ''/'' then q
      else if p = [] \<or> last p = CHR ''/'' then p @ q else p @ ''/'' @ q)"

definition is_file :: "('w, 't) config_env \<Rightarrow> string \<Rightarrow> bool" where
  "is_file C p \<longleftrightarrow> cf_metadata C p = Some Regular"

definition is_dir :: "('w, 't) config_env \<Rightarrow> string \<Rightarrow> bool" where
  "is_dir C p \<longleftrightarrow> cf_metadata C p = Some Directory"

definition is_cicada_path :: "string \<Rightarrow> bool" where
  "is_cicada_path p \<longleftrightarrow> prefix ''cicada:'' p"

definition is_env_file :: "string \<Rightarrow> bool" where
  "is_env_file p \<longleftrightarrow> (case path_file_name p of Some n \<Rightarrow> n | None \<Rightarrow> []) = ''.env'' \<or>
     (case path_extension p of Some ext \<Rightarrow> eq_ignore_ascii_case ext ''env'' | None \<Rightarrow> False)"

definition has_config_type :: "string \<Rightarrow> bool" where
  "has_config_type p \<longleftrightarrow> is_env_file p \<or>
     (case path_extension p of
        Some ext \<Rightarrow> to_ascii_lowercase ext \<in> {''toml'', ''yaml'', ''yml'', ''json''}
      | None \<Rightarrow> False)"

definition dedupe_key :: "('w, 't) config_env \<Rightarrow> string \<Rightarrow> string" where
  "dedupe_key C p =
     (if is_cicada_path p then p else case cf_canonicalize C p of Some q \<Rightarrow> q | None \<Rightarrow> p)"

text \<open>Path and environments of a cicada path.\<close>

definition cicada_query :: "string \<Rightarrow> string list" where
  "cicada_query query =
     filter (\<lambda>e. e \<noteq> []) (map trim (concat (map (\<lambda>pair. case split_once (CHR ''='') pair of
         Some (key, v) \<Rightarrow> if trim key \<in> {''env'', ''envs'', ''environment'', ''environments''} then split_on (CHR ''+'') v else []
       | None \<Rightarrow> []) (split_on (CHR ''&'') query))))"

definition parse_cicada_path :: "string \<Rightarrow> (string \<times> string list) option" where
  "parse_cicada_path p = map_option (\<lambda>rest.
     let path = dropWhile (\<lambda>c. c = CHR ''/'') rest in
     case split_once (CHR ''?'') path of
       None \<Rightarrow> (path, [])
     | Some (path, query) \<Rightarrow> (path, cicada_query query)) (strip_prefix ''cicada:'' p)"

section \<open>Includes\<close>

text \<open>The paths of an include file: \<open>IndexMap::entry(key).or_insert(path)\<close> keeps the first.\<close>

definition include_entry :: "'k \<Rightarrow> 'v \<Rightarrow> ('k \<times> 'v) list \<Rightarrow> ('k \<times> 'v) list" where
  "include_entry k v m = (if k \<in> set (map fst m) then m else m @ [(k, v)])"

definition include_line :: "string \<Rightarrow> string" where
  "include_line line = (case split_once_str '' #'' line of
     Some (path, _) \<Rightarrow> trim path
   | None \<Rightarrow> (case split_once_str [CHR 0x09, CHR ''#''] line of
       Some (path, _) \<Rightarrow> trim path
     | None \<Rightarrow> line))"

definition add_include :: "('w, 't) config_env \<Rightarrow> string \<Rightarrow> (string \<times> string) list \<Rightarrow> string \<Rightarrow> (string \<times> string) list" where
  "add_include C folder m line =
     (if is_cicada_path line then include_entry line line m
      else let path = path_join folder line in
        case cf_canonicalize C path of None \<Rightarrow> m | Some key \<Rightarrow> include_entry key path m)"

definition load_includes :: "('w, 't) config_env \<Rightarrow> string \<Rightarrow> string \<Rightarrow> string list" where
  "load_includes C folder include_file_name =
     (if \<not> is_dir C folder then []
      else case cf_canonicalize C folder of
        None \<Rightarrow> []
      | Some folder \<Rightarrow> (case cf_read_to_string C (path_join folder include_file_name) of
          None \<Rightarrow> []
        | Some text \<Rightarrow>
            map snd (foldl (add_include C folder) []
              (map include_line (filter (\<lambda>l. l \<noteq> [] \<and> hd l \<noteq> CHR ''#'') (map trim (split_on (CHR 0x0A) text)))))))"

section \<open>Directories\<close>

text \<open>The last wildcard which matches.\<close>

fun rposition :: "('a \<Rightarrow> bool) \<Rightarrow> 'a list \<Rightarrow> nat option" where
  "rposition p [] = None"
| "rposition p (x # xs) = (case rposition p xs of Some i \<Rightarrow> Some (Suc i) | None \<Rightarrow> if p x then Some 0 else None)"

definition file_rank :: "(string \<Rightarrow> bool) list \<Rightarrow> string \<Rightarrow> nat option" where
  "file_rank keywords name = (if keywords = [] then Some 0 else rposition (\<lambda>wc. wc name) keywords)"

definition dir_file :: "('w, 't) config_env \<Rightarrow> (string \<Rightarrow> bool) list \<Rightarrow> string \<Rightarrow> string \<times> string option \<Rightarrow> (nat \<times> string) option" where
  "dir_file C keywords include_file_name = (\<lambda>(path, name).
     if \<not> is_file C path then None
     else case name of
       None \<Rightarrow> None
     | Some name \<Rightarrow>
         if name = include_file_name then None
         else if keywords = [] \<and> is_env_file path then None
         else map_option (\<lambda>rank. (rank, path)) (file_rank keywords name))"

text \<open>\<open>sort\<close> of the ranked paths: paths compare component by component.\<close>

fun components_less :: "string list \<Rightarrow> string list \<Rightarrow> bool" where
  "components_less [] q \<longleftrightarrow> q \<noteq> []"
| "components_less (a # p) [] \<longleftrightarrow> False"
| "components_less (a # p) (b # q) \<longleftrightarrow> key_less a b \<or> a = b \<and> components_less p q"

definition ranked_less :: "nat \<times> string \<Rightarrow> nat \<times> string \<Rightarrow> bool" where
  "ranked_less a b \<longleftrightarrow> fst a < fst b \<or> fst a = fst b \<and> components_less (path_components (snd a)) (path_components (snd b))"

fun insert_ranked :: "nat \<times> string \<Rightarrow> (nat \<times> string) list \<Rightarrow> (nat \<times> string) list" where
  "insert_ranked a [] = [a]"
| "insert_ranked a (b # bs) = (if ranked_less b a then b # insert_ranked a bs else a # b # bs)"

definition sort_ranked :: "(nat \<times> string) list \<Rightarrow> (nat \<times> string) list" where
  "sort_ranked files = foldr insert_ranked files []"

definition dir_files ::
  "('w, 't) config_env \<Rightarrow> (string \<Rightarrow> bool) list \<Rightarrow> string \<Rightarrow> (string \<times> string option) list \<Rightarrow> string list" where
  "dir_files C keywords include_file_name entries =
     map snd (sort_ranked (List.map_filter (dir_file C keywords include_file_name) entries))"

text \<open>
  \<open>load_config_files\<close> for each of the paths. \<open>visiting\<close> holds the directories on the stack: the code
  removes one when it returns from it, and so gives back the set it was called with.
\<close>

partial_function (option) load_paths ::
  "('w, 't) config_env \<Rightarrow> (string \<Rightarrow> bool) list \<Rightarrow> string \<Rightarrow> string list \<Rightarrow> string list \<Rightarrow> string list \<Rightarrow>
     (loader_error + string list) option" where
  "load_paths C keywords include_file_name visiting files paths = (case paths of
     [] \<Rightarrow> Some (Inr files)
   | path # paths \<Rightarrow>
       if is_cicada_path path then
         (if cf_cicada C then load_paths C keywords include_file_name visiting (files @ [path]) paths
          else Some (Inl (Cicada_Feature_Disabled path)))
       else if is_file C path then load_paths C keywords include_file_name visiting (files @ [path]) paths
       else if \<not> is_dir C path then load_paths C keywords include_file_name visiting files paths
       else (case cf_canonicalize C path of
         None \<Rightarrow> load_paths C keywords include_file_name visiting files paths
       | Some folder \<Rightarrow>
           if folder \<in> set visiting then load_paths C keywords include_file_name visiting files paths
           else (case cf_read_dir C folder of
             None \<Rightarrow> load_paths C keywords include_file_name visiting files paths
           | Some entries \<Rightarrow>
               Option.bind
                 (load_paths C keywords include_file_name (folder # visiting)
                   (files @ dir_files C keywords include_file_name entries) (load_includes C folder include_file_name))
                 (\<lambda>r. case r of
                    Inl e \<Rightarrow> Some (Inl e)
                  | Inr files \<Rightarrow> load_paths C keywords include_file_name visiting files paths))))"

definition load_config_files ::
  "('w, 't) config_env \<Rightarrow> (string \<Rightarrow> bool) list \<Rightarrow> string \<Rightarrow> string \<Rightarrow> (loader_error + string list) option" where
  "load_config_files C keywords include_file_name path = load_paths C keywords include_file_name [] [] [path]"

section \<open>Sources\<close>

definition parse_config_contents :: "('w, 't) config_env \<Rightarrow> string \<Rightarrow> string \<Rightarrow> loader_error + claims" where
  "parse_config_contents C file contents =
     (if is_env_file file then
        map_sum (\<lambda>e. Parse_Env_File e file) id (parse_env_file_object (cf_lower C) contents)
      else case map_option to_ascii_lowercase (path_extension file) of
        None \<Rightarrow> Inl (Unsupported_File_Type file)
      | Some ext \<Rightarrow>
          if ext = ''toml'' then map_sum (\<lambda>e. Parse_Toml file (redact_toml_error (cf_digit C) e contents)) id (cf_from_toml C contents)
          else if ext = ''yaml'' \<or> ext = ''yml'' then map_sum (\<lambda>e. Parse_Yaml file (redact_yaml_error (cf_digit C) e)) id (cf_from_yaml C contents)
          else if ext = ''json'' then map_sum (\<lambda>e. Parse_Json file (redact_serde_error (cf_digit C) e)) id (cf_from_json C contents)
          else Inl (Unsupported_File_Type file))"

definition load_parse_config_file :: "('w, 't) config_env \<Rightarrow> string \<Rightarrow> loader_error + claims" where
  "load_parse_config_file C file =
     (if \<not> cf_open C file then Inl (File_Open file)
      else case cf_read_to_string C file of
        None \<Rightarrow> Inl (Read_File_Contents file)
      | Some contents \<Rightarrow> parse_config_contents C file contents)"

text \<open>What a file gives: a source, whether it is interpolated, and whether it is an env file; or an error which ends the load.\<close>

definition load_source ::
  "('w, 't) config_env \<Rightarrow> string \<Rightarrow> 'w \<Rightarrow> (loader_error + (loader_error + claims) \<times> bool \<times> bool) \<times> 'w" where
  "load_source C file w =
     (let local_source = Inr (load_parse_config_file C file, \<not> is_env_file file, is_env_file file) in
      if cf_cicada C then
        (case parse_cicada_path file of
           Some (node, environments) \<Rightarrow>
             (case cf_cicada_load C node environments w of
                (Inl e, w) \<Rightarrow> (Inl (Cicada_Load file e), w)
              | (Inr contents, w) \<Rightarrow>
                  (map_sum id (\<lambda>source. (Inr source, False, is_env_file node)) (parse_config_contents C node contents), w))
         | None \<Rightarrow> (local_source, w))
      else (local_source, w))"

fun object_of :: "json \<Rightarrow> claims" where
  "object_of (JObject m) = m"
| "object_of _ = []"

fun merge_files :: "('w, 't) config_env \<Rightarrow> bool \<Rightarrow> bool \<Rightarrow> claims \<Rightarrow> string list \<Rightarrow> 'w \<Rightarrow> (loader_error + claims) \<times> 'w" where
  "merge_files C merge_nested extend_array target [] w = (Inr target, w)"
| "merge_files C merge_nested extend_array target (file # files) w = (case load_source C file w of
     (Inl e, w) \<Rightarrow> (Inl e, w)
   | (Inr (Inl _, _, _), w) \<Rightarrow> merge_files C merge_nested extend_array target files w
   | (Inr (Inr source, interpolate, env_file), w) \<Rightarrow>
       (case (if interpolate then interpolate_value (cf_shell C) (JObject source) w else (JObject source, w)) of
          (source, w) \<Rightarrow>
            merge_files C merge_nested extend_array
              (merge_source merge_nested extend_array env_file target (object_of source)) files w))"

definition load_parse_config_files ::
  "('w, 't) config_env \<Rightarrow> bool \<Rightarrow> bool \<Rightarrow> string list \<Rightarrow> 'w \<Rightarrow> (loader_error + 't) \<times> 'w" where
  "load_parse_config_files C merge_nested extend_array files w =
     (case merge_files C merge_nested extend_array [] files w of
        (Inl e, w) \<Rightarrow> (Inl e, w)
      | (Inr target, w) \<Rightarrow> (deserialize_final (cf_digit C) (cf_deserialize C) (JObject target), w))"

section \<open>The loader\<close>

record config_loader =
  lo_paths :: "string list"
  lo_match_wildcards :: "string list"
  lo_include_file_name :: string
  lo_merge_nested :: bool
  lo_extend_array :: bool

fun compile_wildcards :: "('w, 't) config_env \<Rightarrow> string list \<Rightarrow> loader_error + (string \<Rightarrow> bool) list" where
  "compile_wildcards C [] = Inr []"
| "compile_wildcards C (p # ps) =
     res_bind (map_sum (Invalid_Wildcard p) id (cf_wildcard C p)) (\<lambda>wc.
     res_bind (compile_wildcards C ps) (\<lambda>wcs. Inr (wc # wcs)))"

text \<open>A file which comes up again is moved to the end, under a name its type is known by.\<close>

definition push_file :: "(string \<times> string) list \<Rightarrow> string \<Rightarrow> string \<Rightarrow> (string \<times> string) list" where
  "push_file all_files key path =
     (let path' = (case map_of all_files key of
          Some prev \<Rightarrow> if \<not> has_config_type path \<and> has_config_type prev then prev else path
        | None \<Rightarrow> path) in
      filter (\<lambda>f. fst f \<noteq> key) all_files @ [(key, path')])"

definition push_all :: "('w, 't) config_env \<Rightarrow> (string \<times> string) list \<Rightarrow> string list \<Rightarrow> (string \<times> string) list" where
  "push_all C = foldl (\<lambda>all_files p. push_file all_files (dedupe_key C p) p)"

fun find_files ::
  "('w, 't) config_env \<Rightarrow> (string \<Rightarrow> bool) list \<Rightarrow> string \<Rightarrow> (string \<times> string) list \<Rightarrow> string list \<Rightarrow>
     (loader_error + (string \<times> string) list) option" where
  "find_files C keywords include_file_name all_files [] = Some (Inr all_files)"
| "find_files C keywords include_file_name all_files (path # paths) =
     (if is_cicada_path path then
        (if cf_cicada C then find_files C keywords include_file_name (push_file all_files path path) paths
         else Some (Inl (Cicada_Feature_Disabled path)))
      else case cf_metadata C path of
        None \<Rightarrow> find_files C keywords include_file_name all_files paths
      | Some Directory \<Rightarrow>
          Option.bind (load_config_files C keywords include_file_name path) (\<lambda>r. case r of
            Inl e \<Rightarrow> Some (Inl e)
          | Inr files \<Rightarrow> find_files C keywords include_file_name (push_all C all_files files) paths)
      | Some Regular \<Rightarrow> find_files C keywords include_file_name (push_file all_files (dedupe_key C path) path) paths
      | Some Other_Kind \<Rightarrow> find_files C keywords include_file_name all_files paths)"

definition load_config :: "('w, 't) config_env \<Rightarrow> config_loader \<Rightarrow> 'w \<Rightarrow> ((loader_error + 't) \<times> 'w) option" where
  "load_config C L w = (case compile_wildcards C (lo_match_wildcards L) of
     Inl e \<Rightarrow> Some (Inl e, w)
   | Inr wildcards \<Rightarrow>
       Option.bind (find_files C wildcards (lo_include_file_name L) [] (lo_paths L)) (\<lambda>r. case r of
         Inl e \<Rightarrow> Some (Inl e, w)
       | Inr all_files \<Rightarrow>
           Some (load_parse_config_files C (lo_merge_nested L) (lo_extend_array L) (map snd all_files) w)))"

end
