(* ===== verification/ConfigInterpolateProps.thy ===== *)
theory ConfigInterpolateProps
  imports ConfigInterpolate
begin

text \<open>
  What is proved of interpolation: it runs the commands which the configuration names and no others, whatever is
  substituted.
\<close>

section \<open>Pieces\<close>

definition word :: "string \<Rightarrow> bool" where
  "word v \<longleftrightarrow> v \<noteq> [] \<and> list_all is_word_char v"

lemma closed_by_word: "closed_by close s = Some (v, rest) \<Longrightarrow> word v"
  by (auto simp: closed_by_def Let_def word_def list_all_iff dest: set_takeWhileD split: if_splits)

lemma reference_word: "reference env shell s = Some (p, rest) \<Longrightarrow>
    (\<exists>v. word v \<and> (p = Env_Ref v \<and> env \<or> p = Shell_Ref v \<and> shell))"
  by (cases "(env, shell, s)" rule: reference.cases) (auto split: if_splits dest: closed_by_word)

lemma pieces_words:
  "p \<in> set (pieces env shell s) \<Longrightarrow> (\<exists>c. p = Text_Char c) \<or> (\<exists>v. word v \<and> (p = Env_Ref v \<and> env \<or> p = Shell_Ref v \<and> shell))"
  by (induction env shell s rule: pieces.induct) (auto split: option.splits dest: reference_word)

fun piece_text :: "piece \<Rightarrow> string" where
  "piece_text (Text_Char c) = [c]"
| "piece_text (Env_Ref v) = ''${'' @ v @ ''}''"
| "piece_text (Shell_Ref c) = ''$('' @ c @ '')''"

lemma closed_by_text: "closed_by close s = Some (v, rest) \<Longrightarrow> s = v @ close # rest"
proof -
  assume "closed_by close s = Some (v, rest)"
  then have "v = takeWhile is_word_char s" "close # rest = dropWhile is_word_char s"
    by (auto simp: closed_by_def Let_def neq_Nil_conv split: if_splits)
  then show ?thesis by (metis takeWhile_dropWhile_id)
qed

lemma reference_text: "reference env shell s = Some (p, rest) \<Longrightarrow> s = piece_text p @ rest"
  by (cases "(env, shell, s)" rule: reference.cases) (auto split: if_splits dest: closed_by_text)

text \<open>The pieces are the input.\<close>

lemma pieces_text: "concat (map piece_text (pieces env shell s)) = s"
  by (induction env shell s rule: pieces.induct) (auto split: option.splits dest: reference_text)

section \<open>Commands\<close>

definition commands_in :: "string \<Rightarrow> string set" where
  "commands_in s = {c. Shell_Ref c \<in> set (pieces True True s)}"

fun commands_of :: "json \<Rightarrow> string set"
  and commands_of_items :: "json list \<Rightarrow> string set"
  and commands_of_entries :: "claims \<Rightarrow> string set" where
  "commands_of (JString s) = commands_in s"
| "commands_of (JArray vs) = commands_of_items vs"
| "commands_of (JObject m) = commands_of_entries m"
| "commands_of _ = {}"
| "commands_of_items [] = {}"
| "commands_of_items (v # vs) = commands_of v \<union> commands_of_items vs"
| "commands_of_entries [] = {}"
| "commands_of_entries ((k, v) # m) = commands_in k \<union> commands_of v \<union> commands_of_entries m"

text \<open>Two shells which differ at most in commands other than \<open>cs\<close> and the lookup of a variable.\<close>

definition same_on :: "string set \<Rightarrow> 'w shell \<Rightarrow> 'w shell \<Rightarrow> bool" where
  "same_on cs A B \<longleftrightarrow> sh_name A = sh_name B \<and> sh_var A = sh_var B \<and>
     (\<forall>c shell w. c \<in> cs \<or> (\<exists>v. word v \<and> c = ''echo $'' @ v) \<longrightarrow> sh_run A shell c w = sh_run B shell c w)"

lemma same_on_subset: "same_on cs A B \<Longrightarrow> ds \<subseteq> cs \<Longrightarrow> same_on ds A B"
  by (auto simp: same_on_def)

lemma same_on_union: "same_on (cs \<union> ds) A B \<Longrightarrow> same_on cs A B \<and> same_on ds A B"
  by (auto simp: same_on_def)

lemma same_var: "same_on cs A B \<Longrightarrow> word v \<Longrightarrow> try_get_env_extended A v shell w = try_get_env_extended B v shell w"
  by (auto simp: try_get_env_extended_def run_shell_command_def same_on_def split: option.splits)

lemma same_command: "same_on cs A B \<Longrightarrow> c \<in> cs \<Longrightarrow> run_shell_command A c shell w = run_shell_command B c shell w"
  by (auto simp: run_shell_command_def same_on_def)

lemma expand_same: "(\<And>p w. p \<in> set ps \<Longrightarrow> f p w = g p w) \<Longrightarrow> expand f ps w = expand g ps w"
  by (induction ps arbitrary: w) (auto split: prod.splits)

lemma replace_env_same: "same_on cs A B \<Longrightarrow> replace_env A shell s w = replace_env B shell s w"
  unfolding replace_env_def by (rule expand_same) (auto dest!: pieces_words intro: same_var)

lemma interpolate_same:
  assumes "same_on (commands_in s) A B"
  shows "interpolate_env_and_shell A s w = interpolate_env_and_shell B s w"
proof -
  have name: "sh_name A = sh_name B" using assms by (simp add: same_on_def)
  have "env_or_shell_piece A p w = env_or_shell_piece B p w" if p: "p \<in> set (pieces True True s)" for p w
  proof (cases p)
    case (Env_Ref v)
    then have "word v" using pieces_words [OF p] by auto
    then show ?thesis using Env_Ref same_var [OF assms] replace_env_same [OF assms] name by (simp split: prod.splits)
  next
    case (Shell_Ref c)
    then have "c \<in> commands_in s" using p by (simp add: commands_in_def)
    then show ?thesis using Shell_Ref same_command [OF assms] name by simp
  qed simp
  then have "expand (env_or_shell_piece A) (pieces True True s) w = expand (env_or_shell_piece B) (pieces True True s) w"
    by (rule expand_same)
  then show ?thesis by (simp only: interpolate_env_and_shell_def)
qed

lemma rekey_same:
  "\<forall>k \<in> set (map fst es). same_on (commands_in k) A B \<Longrightarrow> rekey A es m w = rekey B es m w"
proof (induction es arbitrary: m w)
  case (Cons e es)
  obtain k v where e: "e = (k, v)" by (cases e) auto
  then show ?case using Cons interpolate_same [of k A B] by (simp split: prod.splits)
qed simp

text \<open>The keys are as they were when the values have been interpolated.\<close>

lemma interpolate_entries_keys: "interpolate_entries S m w = (m', w') \<Longrightarrow> map fst m' = map fst m"
  by (induction m arbitrary: m' w) (auto split: prod.splits)

lemma key_commands: "(k, v) \<in> set m \<Longrightarrow> commands_in k \<subseteq> commands_of_entries m"
  by (induction m) auto

lemma interpolate_value_same:
  "same_on (commands_of v) A B \<Longrightarrow> interpolate_value A v w = interpolate_value B v w"
  "same_on (commands_of_items vs) A B \<Longrightarrow> interpolate_items A vs w = interpolate_items B vs w"
  "same_on (commands_of_entries m) A B \<Longrightarrow> interpolate_entries A m w = interpolate_entries B m w"
proof (induction A v w and A vs w and A m w rule: interpolate_value_interpolate_items_interpolate_entries.induct)
  case (1 S s w)
  then show ?case using interpolate_same [of s S B w] by (simp add: interpolate_text_def)
next
  case (3 S m w)
  obtain m' w' where m': "interpolate_entries S m w = (m', w')" by (rule prod.exhaust)
  then have B: "interpolate_entries B m w = (m', w')" using 3 by simp
  have "\<forall>k \<in> set (map fst m'). same_on (commands_in k) S B"
    using same_on_subset [OF "3.prems" [unfolded commands_of.simps] key_commands] unfolding interpolate_entries_keys [OF m'] by auto
  then have "rekey S m' [] w' = rekey B m' [] w'" by (rule rekey_same)
  then show ?case using m' B by simp
qed (auto dest!: same_on_union split: prod.splits)

section \<open>Well formed values\<close>

lemma rekey_ok: "json_ok (JObject m) \<Longrightarrow> list_all (\<lambda>e. json_ok (snd e)) es \<Longrightarrow> json_ok (JObject (fst (rekey S es m w)))"
proof (induction es arbitrary: m w)
  case (Cons e es)
  obtain k v where e: "e = (k, v)" by (cases e) auto
  obtain k' w' where k: "interpolate_env_and_shell S k w = (k', w')" by (rule prod.exhaust)
  have "json_ok (JObject (obj_insert k' v m))" using Cons.prems e by (intro json_ok_insert) auto
  then show ?case using Cons e k by (simp del: json_ok.simps)
qed simp

lemma interpolate_value_ok:
  "json_ok v \<Longrightarrow> json_ok (fst (interpolate_value S v w))"
  "list_all json_ok vs \<Longrightarrow> list_all json_ok (fst (interpolate_items S vs w))"
  "list_all (\<lambda>e. json_ok (snd e)) m \<Longrightarrow> list_all (\<lambda>e. json_ok (snd e)) (fst (interpolate_entries S m w))"
proof (induction S v w and S vs w and S m w rule: interpolate_value_interpolate_items_interpolate_entries.induct)
  case (3 S m w)
  obtain m' w' where m': "interpolate_entries S m w = (m', w')" by (rule prod.exhaust)
  then have ok: "list_all (\<lambda>e. json_ok (snd e)) m'" using 3 by simp
  have "json_ok (JObject (fst (rekey S m' [] w')))" using ok by (intro rekey_ok) (simp_all add: obj_ok_def)
  moreover have "obj_ok m'" using "3.prems" interpolate_entries_keys [OF m'] by (simp add: obj_ok_def)
  ultimately show ?case using m' ok by (auto split: prod.splits)
qed (auto simp: interpolate_text_def split: prod.splits)

text \<open>
  Interpolating a value runs no other command than those whose \<open>$(name)\<close> is written in its strings or keys, and the
  \<open>echo\<close> of a variable's name, a word, whatever the variables hold and the commands print: the result is the same
  with a shell in which every other command does something else. It keeps a well formed value well formed.
\<close>

theorem interpolation_runs_named_commands:
  assumes "same_on (commands_of v) A B"
  shows "interpolate_value A v w = interpolate_value B v w \<and> (json_ok v \<longrightarrow> json_ok (fst (interpolate_value A v w)))"
  by (rule conjI, rule interpolate_value_same(1) [OF assms], rule impI, rule interpolate_value_ok(1))

text \<open>A variable which holds a command: it stays text.\<close>

definition demo_shell :: "string \<Rightarrow> nat shell" where
  "demo_shell answer = \<lparr>sh_name = ''sh'', sh_var = (\<lambda>v _. if v = ''PASS'' then Some ''$(rm)'' else None),
     sh_run = (\<lambda>_ c w. (Some (if c = ''date'' then ''now'' else answer), Suc w))\<rparr>"

definition demo_other :: "nat shell" where
  "demo_other = (demo_shell ''pwned'')\<lparr>sh_run := \<lambda>_ c w. if c = ''date'' then (Some ''now'', Suc w)
     else if prefix ''echo '' c then (Some ''pwned'', Suc w) else (None, w)\<rparr>"

lemma demo_same: "same_on {''date''} (demo_shell ''pwned'') demo_other"
  unfolding same_on_def
proof (intro conjI allI impI)
  fix c shell :: string and w :: nat
  assume "c \<in> {''date''} \<or> (\<exists>v. word v \<and> c = ''echo $'' @ v)"
  then show "sh_run (demo_shell ''pwned'') shell c w = sh_run demo_other shell c w"
    by (elim disjE exE conjE) (simp_all add: demo_shell_def demo_other_def)
qed (simp_all add: demo_shell_def demo_other_def)

theorem interpolation_runs_named_commands_witness:
  "interpolate_value (demo_shell ''pwned'') (JObject [(''k'', JString ''${PASS}$(date)'')]) 0 =
     interpolate_value demo_other (JObject [(''k'', JString ''${PASS}$(date)'')]) 0"
proof -
  have "closed_by CHR ''}'' ''PASS}$(date)'' = Some (''PASS'', ''$(date)'')" "closed_by CHR '')'' ''date)'' = Some (''date'', [])"
    by (simp_all add: closed_by_def is_word_char_def is_ascii_alnum_def is_ascii_upper_def is_ascii_lower_def is_ascii_digit_def)
  then have "commands_in ''${PASS}$(date)'' = {''date''}" by (auto simp: commands_in_def)
  moreover have "commands_in ''k'' = {}" by (simp add: commands_in_def)
  ultimately have cs: "commands_of (JObject [(''k'', JString ''${PASS}$(date)'')]) = {''date''}" by simp
  show ?thesis by (rule conjunct1 [OF interpolation_runs_named_commands [OF demo_same [folded cs]]])
qed

end
