(* ===== verification/ConfigEnvProps.thy ===== *)
theory ConfigEnvProps
  imports ConfigEnv
begin

text \<open>
  What is proved of env files: any values can be written so that they are read back, and the object of a file
  holds exactly its entries, or two of them are in each other's way.
\<close>

section \<open>Reading back what was written\<close>

definition escape :: "char \<Rightarrow> string" where
  "escape c = (if c = CHR 0x0A then [CHR 0x5C, CHR ''n''] else if c = CHR 0x0D then [CHR 0x5C, CHR ''r'']
     else if c = CHR 0x09 then [CHR 0x5C, CHR ''t''] else if c = CHR 0x22 \<or> c = CHR 0x5C then [CHR 0x5C, c] else [c])"

definition render_entry :: "string \<times> string \<Rightarrow> string" where
  "render_entry = (\<lambda>(name, v). name @ ''='' @ CHR 0x22 # concat (map escape v) @ [CHR 0x22])"

definition render_env :: "(string \<times> string) list \<Rightarrow> string" where
  "render_env entries = concat (map (\<lambda>e. render_entry e @ [CHR 0x0A]) entries)"

definition plain_name :: "string \<Rightarrow> bool" where
  "plain_name n \<longleftrightarrow> n \<noteq> [] \<and> is_graphic (hd n) \<and> is_graphic (last n) \<and> hd n \<noteq> CHR ''#'' \<and> CHR ''='' \<notin> set n \<and>
     CHR 0x0A \<notin> set n \<and> \<not> prefix ''export '' n"

lemma double_quoted_escaped: "double_quoted name line out (concat (map escape v) @ [CHR 0x22]) = Inr (out @ v)"
  by (induction v arbitrary: out) (auto simp: escape_def unescape_def)

lemma split_inclusive_line: "c \<notin> set l \<Longrightarrow> split_inclusive c (l @ c # r) = (l @ [c]) # split_inclusive c r"
  by (induction l) auto

lemma lines_of_line:
  assumes "CHR 0x0A \<notin> set l" "l \<noteq> []" "last l \<noteq> CHR 0x0D"
  shows "lines_of (l @ CHR 0x0A # r) = l # lines_of r"
  using assms by (simp add: lines_of_def split_inclusive_line strip_eol_def)

lemma escaped_no_newline: "CHR 0x0A \<notin> set (concat (map escape v))"
  by (induction v) (auto simp: escape_def)

lemma render_line: "plain_name n \<Longrightarrow> lines_of (render_entry (n, v) @ CHR 0x0A # r) = render_entry (n, v) # lines_of r"
  using escaped_no_newline [of v] by (intro lines_of_line) (auto simp: render_entry_def plain_name_def)

lemma render_trimmed:
  assumes "plain_name n"
  shows "trim (render_entry (n, v)) = render_entry (n, v)"
  using assms by (intro trim_graphic) (auto simp: render_entry_def plain_name_def hd_append is_graphic_def)

lemma parse_rendered_line:
  assumes "plain_name n" "n \<notin> set names"
  shows "parse_entry_line names number (render_entry (n, v)) = Inr \<lparr>en_line = number, en_name = n, en_value = v\<rparr>"
proof -
  have "strip_prefix ''export '' (render_entry (n, v)) = None"
  proof (rule ccontr)
    assume "strip_prefix ''export '' (render_entry (n, v)) \<noteq> None"
    then have "prefix ''export '' (n @ ''='' @ CHR 0x22 # concat (map escape v) @ [CHR 0x22])"
      by (auto simp: strip_prefix_def render_entry_def split: if_splits)
    moreover have "\<not> prefix ''export '' n" using assms(1) by (simp add: plain_name_def)
    ultimately obtain us where us: "''export '' = n @ us" "us \<noteq> []" "prefix us (''='' @ CHR 0x22 # concat (map escape v) @ [CHR 0x22])"
      by (auto simp: prefix_append)
    then have "CHR ''='' \<in> set (n @ us)" by (cases us) auto
    then show False unfolding us(1) [symmetric] by simp
  qed
  moreover have "split_once (CHR ''='') (render_entry (n, v)) = Some (n, CHR 0x22 # concat (map escape v) @ [CHR 0x22])"
    using assms(1) by (simp add: render_entry_def split_once_Some_iff plain_name_def)
  moreover have "trim n = n" "n \<noteq> []" using assms(1) by (auto simp: plain_name_def intro: trim_graphic)
  moreover have "trim (CHR 0x22 # concat (map escape v) @ [CHR 0x22]) = CHR 0x22 # concat (map escape v) @ [CHR 0x22]"
    by (rule trim_graphic) (simp_all add: is_graphic_def)
  ultimately show ?thesis using assms(2) double_quoted_escaped [of n number "[]" v]
    by (simp add: parse_entry_line_def parse_value_def Let_def)
qed

lemma parse_rendered:
  assumes "list_all (\<lambda>e. plain_name (fst e)) es" "distinct (map en_name entries @ map fst es)"
  shows "\<exists>rest. parse_lines entries idx (lines_of (render_env es)) = Inr (entries @ rest) \<and>
    map (\<lambda>e. (en_name e, en_value e)) rest = es"
  using assms
proof (induction es arbitrary: entries idx)
  case Nil
  then show ?case by (simp add: render_env_def lines_of_def)
next
  case (Cons e es)
  obtain n v where e: "e = (n, v)" by (cases e) auto
  have n: "plain_name n" "n \<notin> set (map en_name entries)" using Cons.prems e by auto
  have "hd (render_entry (n, v)) \<noteq> CHR ''#''" "render_entry (n, v) \<noteq> []"
    using n(1) by (auto simp: render_entry_def plain_name_def hd_append)
  then have "parse_lines entries idx (lines_of (render_env (e # es))) =
      parse_lines (entries @ [\<lparr>en_line = idx + 1, en_name = n, en_value = v\<rparr>]) (idx + 1) (lines_of (render_env es))"
    using parse_rendered_line [OF n, of "idx + 1" v] render_line [OF n(1), of v] render_trimmed [OF n(1), of v]
    by (simp add: render_env_def e)
  moreover obtain rest where "parse_lines (entries @ [\<lparr>en_line = idx + 1, en_name = n, en_value = v\<rparr>]) (idx + 1) (lines_of (render_env es)) =
      Inr ((entries @ [\<lparr>en_line = idx + 1, en_name = n, en_value = v\<rparr>]) @ rest)"
      "map (\<lambda>e. (en_name e, en_value e)) rest = es"
    using Cons.IH [of "entries @ [\<lparr>en_line = idx + 1, en_name = n, en_value = v\<rparr>]" "idx + 1"] Cons.prems e by auto
  ultimately show ?case using e by (intro exI [of _ "\<lparr>en_line = idx + 1, en_name = n, en_value = v\<rparr> # rest"]) simp
qed

text \<open>
  any values, line breaks and quotes in them too, can be given under plain and distinct names: written in double quotes with
  the five escapes, they are read back as they were, in their order.
\<close>

theorem env_file_roundtrip:
  assumes "list_all (\<lambda>e. plain_name (fst e)) es" "distinct (map fst es)"
  shows "parse_env_file (render_env es) = Inr es"
proof -
  have "strip_prefix BOM (render_env es) = None"
    using assms(1)
    by (cases es) (auto simp: strip_prefix_def BOM_def render_env_def render_entry_def plain_name_def is_graphic_def prefix_def
        append_eq_Cons_conv split: prod.splits)
  then show ?thesis using parse_rendered [OF assms(1), of "[]" 0] assms(2)
    by (auto simp: parse_env_file_def parse_entries_def res_bind_def)
qed

theorem env_file_roundtrip_witness:
  "parse_env_file (render_env [(''KEY'', [CHR 0x22, CHR 0x0A, CHR ''#'']), (''B'', [])]) = Inr [(''KEY'', [CHR 0x22, CHR 0x0A, CHR ''#'']), (''B'', [])]"
  by (rule env_file_roundtrip) (simp_all add: plain_name_def is_graphic_def)

section \<open>Objects\<close>

lemma obj_insert_nonempty: "obj_insert k v m \<noteq> []"
  by (cases "(k, v, m)" rule: obj_insert.cases) simp_all

fun node_at :: "json \<Rightarrow> string list \<Rightarrow> json option" where
  "node_at v [] = Some v"
| "node_at (JObject m) (k # p) = (case map_of m k of None \<Rightarrow> None | Some v \<Rightarrow> node_at v p)"
| "node_at _ (k # p) = None"

text \<open>The objects which placing builds: strings, and objects which are not empty.\<close>

fun built :: "json \<Rightarrow> bool" where
  "built (JString s) \<longleftrightarrow> True"
| "built (JObject m) \<longleftrightarrow> m \<noteq> [] \<and> obj_ok m \<and> list_all (\<lambda>e. built (snd e)) m"
| "built _ \<longleftrightarrow> False"

definition built_entries :: "claims \<Rightarrow> bool" where
  "built_entries m \<longleftrightarrow> obj_ok m \<and> list_all (\<lambda>e. built (snd e)) m"

lemma built_object: "built (JObject m) \<longleftrightarrow> m \<noteq> [] \<and> built_entries m"
  by (auto simp: built_entries_def)

lemma built_insert: "built_entries m \<Longrightarrow> built v \<Longrightarrow> built_entries (obj_insert k v m)"
  using set_obj_insert [of k v m] by (fastforce simp: built_entries_def list_all_iff)

lemma built_value: "built_entries m \<Longrightarrow> map_of m k = Some v \<Longrightarrow> built v"
  by (auto simp: built_entries_def list_all_iff dest!: map_of_SomeD)

lemma built_json_ok: "built v \<Longrightarrow> json_ok v"
  by (induction v rule: built.induct) (auto simp: list_all_iff)

lemma built_leaf: "built v \<Longrightarrow> \<exists>q s. node_at v q = Some (JString s)"
proof (induction v rule: built.induct)
  case (1 s)
  then show ?case by (metis node_at.simps(1))
next
  case (2 m)
  then obtain k v where kv: "(k, v) \<in> set m" by (cases m) auto
  then have "built v" using 2 by (auto simp: list_all_iff)
  then obtain q s where "node_at v q = Some (JString s)" using 2 kv by fastforce
  moreover have "map_of m k = Some v" using kv(1) 2(2) by (simp add: obj_ok_distinct)
  ultimately show ?case by (intro exI [of _ "k # q"] exI [of _ s]) simp
qed simp_all

definition leaf :: "claims \<Rightarrow> string list \<Rightarrow> string \<Rightarrow> bool" where
  "leaf m p s \<longleftrightarrow> node_at (JObject m) p = Some (JString s)"

lemma leaf_Nil [simp]: "\<not> leaf m [] s"
  by (simp add: leaf_def)

lemma leaf_Cons: "leaf m (k # p) s \<longleftrightarrow> (\<exists>v. map_of m k = Some v \<and> node_at v p = Some (JString s))"
  by (auto simp: leaf_def split: option.splits)

definition comparable :: "string list \<Rightarrow> string list \<Rightarrow> bool" where
  "comparable p q \<longleftrightarrow> prefix p q \<or> prefix q p"

text \<open>Every node has an origin.\<close>

definition covered :: "string list \<Rightarrow> claims \<Rightarrow> origins \<Rightarrow> bool" where
  "covered passed m origins \<longleftrightarrow>
     (\<forall>p. p \<noteq> [] \<and> node_at (JObject m) p \<noteq> None \<longrightarrow> origins (join_on ''.'' (passed @ p)) \<noteq> None)"

lemma coveredD: "covered passed m o1 \<Longrightarrow> map_of m k = Some v \<Longrightarrow> o1 (join_on ''.'' (passed @ [k])) \<noteq> None"
  by (auto simp: covered_def dest!: spec [of _ "[k]"])

lemma covered_mono: "covered passed m o1 \<Longrightarrow> o1 \<subseteq>\<^sub>m o2 \<Longrightarrow> covered passed m o2"
  unfolding covered_def map_le_def by (metis domIff)

definition placed :: "env_entry \<Rightarrow> string list \<Rightarrow> string list \<Rightarrow> claims \<Rightarrow> origins \<Rightarrow> env_file_error + claims \<times> origins \<Rightarrow> bool" where
  "placed e passed segs current origins r \<longleftrightarrow> (case r of
     Inr (m, origins') \<Rightarrow> m \<noteq> [] \<and> built_entries m \<and> covered passed m origins' \<and> dom origins \<subseteq> dom origins' \<and>
       (\<forall>p s. leaf m p s \<longleftrightarrow> leaf current p s \<or> p = segs \<and> s = en_value e) \<and>
       (\<forall>p s. leaf current p s \<longrightarrow> \<not> comparable p segs)
   | Inl err \<Rightarrow> (\<exists>msg. err = Env_File_Error (en_line e) msg) \<and> (\<exists>p s. leaf current p s \<and> comparable p segs))"

lemma entry_conflict_line: "origin \<noteq> None \<Longrightarrow> \<exists>msg'. entry_conflict e origin msg = Env_File_Error (en_line e) msg'"
  by (auto simp: entry_conflict_def)

lemma comparable_Cons [simp]: "comparable (a # p) (b # q) \<longleftrightarrow> a = b \<and> comparable p q"
  by (auto simp: comparable_def)

lemma leaf_insert: "leaf (obj_insert k v m) (k' # q) s \<longleftrightarrow> (if k' = k then node_at v q = Some (JString s) else leaf m (k' # q) s)"
  by (simp add: leaf_Cons)

lemma placed_under:
  assumes "placed e (passed @ [k]) segs m o1 r" "built_entries current" "covered passed current origins"
    and o1: "dom origins \<subseteq> dom o1" "o1 (join_on ''.'' (passed @ [k])) \<noteq> None"
    and below: "\<And>p s. leaf current (k # p) s \<longleftrightarrow> leaf m p s"
  shows "placed e passed (k # segs) current origins
    (res_bind r (\<lambda>(m', o2). Inr (obj_insert k (JObject m') current, o2)))"
proof (cases r)
  case (Inl err)
  then obtain msg p s where "err = Env_File_Error (en_line e) msg" "leaf m p s" "comparable p segs"
    using assms(1) by (auto simp: placed_def)
  then have "leaf current (k # p) s" "comparable (k # p) (k # segs)" using below by simp_all
  then show ?thesis using Inl \<open>err = _\<close> by (auto simp: placed_def)
next
  case (Inr y)
  obtain m' o2 where y: "y = (m', o2)" by (cases y) auto
  have m': "m' \<noteq> []" "built_entries m'" "covered (passed @ [k]) m' o2" "dom o1 \<subseteq> dom o2"
    and leaves: "\<And>p s. leaf m' p s \<longleftrightarrow> leaf m p s \<or> p = segs \<and> s = en_value e"
    and free: "\<And>p s. leaf m p s \<Longrightarrow> \<not> comparable p segs"
    using assms(1) Inr y by (auto simp: placed_def)
  let ?m = "obj_insert k (JObject m') current"
  have "leaf ?m p s \<longleftrightarrow> leaf current p s \<or> p = k # segs \<and> s = en_value e" for p s
    using leaves below by (cases p) (auto simp: leaf_insert simp flip: leaf_def)
  moreover have "\<not> comparable p (k # segs)" if "leaf current p s" for p s
    using that free below by (cases p) (auto simp: leaf_def [of _ "[]"])
  moreover have "covered passed ?m o2"
    unfolding covered_def
  proof (intro allI impI, elim conjE)
    fix p assume p: "p \<noteq> []" "node_at (JObject ?m) p \<noteq> None"
    then obtain k' q where q: "p = k' # q" by (cases p) auto
    show "o2 (join_on ''.'' (passed @ p)) \<noteq> None"
    proof (cases "k' = k")
      case True
      then have "q = [] \<or> q \<noteq> [] \<and> node_at (JObject m') q \<noteq> None" using p q by auto
      then show ?thesis using m'(3,4) o1(2) True q unfolding covered_def by fastforce
    next
      case False
      then have "node_at (JObject current) p \<noteq> None" using p q by simp
      then have "origins (join_on ''.'' (passed @ p)) \<noteq> None" using assms(3) p(1) by (simp add: covered_def)
      then show ?thesis using o1(1) m'(4) by blast
    qed
  qed
  moreover have "?m \<noteq> []" by (rule obj_insert_nonempty)
  moreover have "built (JObject m')" using m'(1,2) built_object by blast
  ultimately show ?thesis using Inr y assms(2) m'(4) o1(1) by (auto simp: placed_def built_insert)
qed

lemma leaf_empty: "\<not> leaf [] p s"
  by (cases p) (simp_all add: leaf_Cons)

lemma place_placed:
  assumes "built_entries current" "covered passed current origins" "segs \<noteq> []" "name = join_on ''.'' (passed @ segs)"
  shows "placed e passed segs current origins (place e name passed segs current origins)"
  using assms
proof (induction e name passed segs current origins rule: place.induct)
  case (2 e name passed segment current origins)
  show ?case
  proof (cases "map_of current segment")
    case None
    let ?m = "obj_insert segment (JString (en_value e)) current"
    have "leaf ?m p s \<longleftrightarrow> leaf current p s \<or> p = [segment] \<and> s = en_value e" for p s
      using None by (cases p; cases "tl p") (auto simp: leaf_Cons)
    moreover have "\<not> comparable p [segment]" if "leaf current p s" for p s
      using that None by (cases p) (auto simp: comparable_def leaf_Cons)
    moreover have "covered passed ?m (origins(name \<mapsto> (en_name e, en_line e)))"
    proof -
      have "p = [segment] \<or> node_at (JObject current) p \<noteq> None" if "p \<noteq> []" "node_at (JObject ?m) p \<noteq> None" for p
        using that None by (cases p; cases "tl p") (auto split: if_splits option.splits)
      then show ?thesis using 2(2,4) unfolding covered_def by fastforce
    qed
    moreover have "?m \<noteq> []" by (rule obj_insert_nonempty)
    ultimately show ?thesis using 2(1) None by (auto simp: placed_def built_insert)
  next
    case (Some v)
    have "origins name \<noteq> None" using coveredD [OF 2(2) Some] 2(4) by simp
    moreover obtain q s where "node_at v q = Some (JString s)" using built_leaf [OF built_value [OF 2(1) Some]] by blast
    then have "leaf current (segment # q) s" using Some by (simp add: leaf_Cons)
    then have "\<exists>p s. leaf current p s \<and> comparable p [segment]" by (auto simp: comparable_def)
    ultimately show ?thesis using Some by (auto simp: placed_def entry_conflict_def)
  qed
next
  case (3 e name passed segment nxt segments current origins)
  let ?path = "join_on ''.'' (passed @ [segment])"
  have name: "name = join_on ''.'' ((passed @ [segment]) @ nxt # segments)" using "3.prems"(4) by simp
  show ?case
  proof (cases "map_of current segment")
    case None
    let ?o1 = "origins(?path \<mapsto> (en_name e, en_line e))"
    have "placed e (passed @ [segment]) (nxt # segments) [] ?o1 (place e name (passed @ [segment]) (nxt # segments) [] ?o1)"
      by (rule "3.IH") (use None name in \<open>auto simp: built_entries_def covered_def neq_Nil_conv\<close>)
    from placed_under [OF this "3.prems"(1,2)]
    have "placed e passed (segment # nxt # segments) current origins
        (res_bind (place e name (passed @ [segment]) (nxt # segments) [] ?o1)
          (\<lambda>(m', o2). Inr (obj_insert segment (JObject m') current, o2)))"
      using None by (auto simp: leaf_Cons leaf_empty)
    then show ?thesis using None by (simp add: Let_def)
  next
    case (Some v)
    have v: "built v" using built_value [OF "3.prems"(1) Some] .
    show ?thesis
    proof (cases v)
      case (JObject m)
      have "covered (passed @ [segment]) m origins"
        unfolding covered_def
      proof (intro allI impI, elim conjE)
        fix p assume "p \<noteq> []" "node_at (JObject m) p \<noteq> None"
        then show "origins (join_on ''.'' ((passed @ [segment]) @ p)) \<noteq> None"
          using "3.prems"(2) Some JObject unfolding covered_def by (auto dest!: spec [of _ "segment # p"])
      qed
      moreover have "built_entries m" using v unfolding JObject built_object by simp
      ultimately have "placed e (passed @ [segment]) (nxt # segments) m origins
          (place e name (passed @ [segment]) (nxt # segments) m origins)"
        by (intro "3.IH") (use Some JObject name in auto)
      then show ?thesis
        using placed_under [of e passed segment "nxt # segments" m origins _ current origins] "3.prems"(1,2) Some JObject
          coveredD [OF "3.prems"(2) Some]
        by (auto simp: leaf_Cons leaf_def)
    next
      case (JString t)
      have "leaf current [segment] t" using Some JString by (simp add: leaf_Cons)
      then have "\<exists>p s. leaf current p s \<and> comparable p (segment # nxt # segments)"
        by (intro exI [of _ "[segment]"] exI [of _ t]) (simp add: comparable_def)
      then show ?thesis using Some JString coveredD [OF "3.prems"(2) Some]
        by (fastforce simp: placed_def entry_conflict_def)
    qed (use v in simp_all)
  qed
qed simp

lemma segments_of_join: "join_on ''.'' (segments_of n) = n" "segments_of n \<noteq> []" "length (segments_of n) \<le> MAX_NESTED_SEGMENTS"
  by (auto simp: segments_of_def Let_def join_on_split_on MAX_NESTED_SEGMENTS_def)

definition path_of :: "(string \<Rightarrow> string) \<Rightarrow> env_entry \<Rightarrow> string list" where
  "path_of lower e = segments_of (lower (en_name e))"

definition apart :: "string list list \<Rightarrow> bool" where
  "apart ps \<longleftrightarrow> sorted_wrt (\<lambda>p q. \<not> comparable p q) ps"

lemma place_all_result:
  assumes "built_entries m" "covered [] m origins"
    "\<And>p s. leaf m p s \<longleftrightarrow> (\<exists>e \<in> set before. p = path_of lower e \<and> s = en_value e)" "apart (map (path_of lower) before)"
  shows "case place_all lower es m origins of
      Inr m' \<Rightarrow> apart (map (path_of lower) (before @ es)) \<and> built_entries m' \<and>
        (\<forall>p s. leaf m' p s \<longleftrightarrow> (\<exists>e \<in> set (before @ es). p = path_of lower e \<and> s = en_value e))
    | Inl err \<Rightarrow> \<not> apart (map (path_of lower) (before @ es)) \<and> (\<exists>e \<in> set es. \<exists>msg. err = Env_File_Error (en_line e) msg)"
  using assms
proof (induction es arbitrary: m origins before)
  case (Cons e es)
  let ?segs = "path_of lower e"
  have placed: "placed e [] ?segs m origins (place e (lower (en_name e)) [] ?segs m origins)"
    using Cons.prems(1,2) segments_of_join [of "lower (en_name e)"] by (intro place_placed) (auto simp: path_of_def)
  show ?case
  proof (cases "place e (lower (en_name e)) [] ?segs m origins")
    case (Inl err)
    then obtain msg p s where err: "err = Env_File_Error (en_line e) msg" "leaf m p s" "comparable p ?segs"
      using placed by (auto simp: placed_def)
    then obtain e' where "e' \<in> set before" "comparable (path_of lower e') ?segs" using Cons.prems(3) by auto
    then have "\<not> apart (map (path_of lower) (before @ e # es))" by (auto simp: apart_def sorted_wrt_append)
    then show ?thesis using Inl err(1) by (simp add: path_of_def)
  next
    case (Inr y)
    obtain m' origins' where y: "y = (m', origins')" by (cases y) auto
    have m': "built_entries m'" "covered [] m' origins'"
      "\<And>p s. leaf m' p s \<longleftrightarrow> leaf m p s \<or> p = ?segs \<and> s = en_value e" "\<And>p s. leaf m p s \<Longrightarrow> \<not> comparable p ?segs"
      using placed Inr y by (auto simp: placed_def)
    have "\<not> comparable (path_of lower e') ?segs" if "e' \<in> set before" for e'
      using that m'(4) Cons.prems(3) by blast
    then have "apart (map (path_of lower) (before @ [e]))"
      using Cons.prems(4) by (auto simp: apart_def sorted_wrt_append)
    moreover have "\<And>p s. leaf m' p s \<longleftrightarrow> (\<exists>e \<in> set (before @ [e]). p = path_of lower e \<and> s = en_value e)"
      using m'(3) Cons.prems(3) by auto
    ultimately have "case place_all lower es m' origins' of
      Inr m' \<Rightarrow> apart (map (path_of lower) ((before @ [e]) @ es)) \<and> built_entries m' \<and>
        (\<forall>p s. leaf m' p s \<longleftrightarrow> (\<exists>e \<in> set ((before @ [e]) @ es). p = path_of lower e \<and> s = en_value e))
    | Inl err \<Rightarrow> \<not> apart (map (path_of lower) ((before @ [e]) @ es)) \<and> (\<exists>e \<in> set es. \<exists>msg. err = Env_File_Error (en_line e) msg)"
      using m'(1,2) by (intro Cons.IH)
    moreover have "place_all lower (e # es) m origins = place_all lower es m' origins'"
      using Inr y by (simp add: path_of_def)
    moreover have "(before @ [e]) @ es = before @ e # es" by simp
    ultimately show ?thesis by (auto split: sum.splits)
  qed
qed simp

text \<open>
  C34: the object of an env file holds exactly its values, each at the path its lowercased name stands for, of at most 32
  segments, in a well formed object; and it is given unless one entry's path leads to or through another's, in which case the
  error has the line of an entry. The code's map of origins has every key it is asked for: it does not panic.
\<close>

theorem env_object_exact:
  assumes "parse_entries content = Inr es"
  shows "case parse_env_file_object lower content of
      Inr m \<Rightarrow> apart (map (path_of lower) es) \<and> json_ok (JObject m) \<and>
        (\<forall>p s. node_at (JObject m) p = Some (JString s) \<longleftrightarrow> (\<exists>e \<in> set es. p = path_of lower e \<and> s = en_value e)) \<and>
        (\<forall>e \<in> set es. length (path_of lower e) \<le> MAX_NESTED_SEGMENTS)
    | Inl err \<Rightarrow> \<not> apart (map (path_of lower) es) \<and> (\<exists>e \<in> set es. \<exists>msg. err = Env_File_Error (en_line e) msg)"
proof -
  have "built_entries []" "covered [] [] Map.empty" "\<And>p s. leaf [] p s \<longleftrightarrow> (\<exists>e \<in> set []. p = path_of lower e \<and> s = en_value e)"
    by (auto simp: built_entries_def covered_def leaf_empty neq_Nil_conv)
  moreover have "apart (map (path_of lower) [])" by (simp add: apart_def)
  ultimately have "case place_all lower es [] Map.empty of
      Inr m' \<Rightarrow> apart (map (path_of lower) es) \<and> built_entries m' \<and>
        (\<forall>p s. leaf m' p s \<longleftrightarrow> (\<exists>e \<in> set es. p = path_of lower e \<and> s = en_value e))
    | Inl err \<Rightarrow> \<not> apart (map (path_of lower) es) \<and> (\<exists>e \<in> set es. \<exists>msg. err = Env_File_Error (en_line e) msg)"
    using place_all_result [of "[]" Map.empty "[]" lower es] unfolding append_Nil by blast
  moreover have "json_ok (JObject m)" if "built_entries m" for m
    using that built_json_ok by (auto simp: built_entries_def list_all_iff)
  ultimately show ?thesis using segments_of_join(3) assms
    by (auto simp: parse_env_file_object_def leaf_def path_of_def split: sum.splits)
qed

text \<open>A nested and a flat name; and two names in each other's way.\<close>

definition demo_env_text :: string where
  "demo_env_text = ''DB.HOST=h'' @ CHR 0x0A # ''.X=y'' @ [CHR 0x0A]"

lemma demo_env_entries: "parse_entries demo_env_text =
  Inr [\<lparr>en_line = 1, en_name = ''DB.HOST'', en_value = ''h''\<rparr>, \<lparr>en_line = 2, en_name = ''.X'', en_value = ''y''\<rparr>]"
  by (simp add: parse_entries_def demo_env_text_def BOM_def strip_prefix_def lines_of_def strip_eol_def Let_def parse_entry_line_def
      parse_value_def byte_simps)

text \<open>Lowercase, for the names of this file.\<close>

definition demo_lower :: "string \<Rightarrow> string" where
  "demo_lower s = (if s = ''DB.HOST'' then ''db.host'' else if s = ''.X'' then ''.x'' else s)"

theorem env_object_exact_witness:
  "\<exists>m. parse_env_file_object demo_lower demo_env_text = Inr m \<and>
     node_at (JObject m) [''db'', ''host''] = Some (JString ''h'') \<and> node_at (JObject m) [''.x''] = Some (JString ''y'')"
proof -
  have paths: "path_of demo_lower \<lparr>en_line = 1, en_name = ''DB.HOST'', en_value = ''h''\<rparr> = [''db'', ''host'']"
    "path_of demo_lower \<lparr>en_line = 2, en_name = ''.X'', en_value = ''y''\<rparr> = [''.x'']"
    by (simp_all add: path_of_def segments_of_def demo_lower_def Let_def MAX_NESTED_SEGMENTS_def)
  let ?es = "[\<lparr>en_line = 1, en_name = ''DB.HOST'', en_value = ''h''\<rparr>, \<lparr>en_line = 2, en_name = ''.X'', en_value = ''y''\<rparr>]"
  have apart: "apart (map (path_of demo_lower) ?es)" by (simp add: apart_def comparable_def paths [unfolded One_nat_def])
  note exact = env_object_exact [OF demo_env_entries, of demo_lower]
  show ?thesis
  proof (cases "parse_env_file_object demo_lower demo_env_text")
    case (Inl err)
    then show ?thesis using exact apart by simp
  next
    case (Inr m)
    then have "node_at (JObject m) p = Some (JString s) \<longleftrightarrow> (\<exists>e \<in> set ?es. p = path_of demo_lower e \<and> s = en_value e)" for p s
      using exact unfolding Inr sum.case by blast
    then show ?thesis using Inr by (simp add: paths [unfolded One_nat_def] del: node_at.simps)
  qed
qed

end
