(* ===== verification/ConfigMergeProps.thy ===== *)
theory ConfigMergeProps
  imports ConfigMerge ConfigEnvProps
begin

text \<open>
  What is proved of merging: a source decides what it says and leaves the rest, well formed objects stay well formed, and
  the merge which may fail gives what the lenient one does.
\<close>

section \<open>Key by key\<close>

text \<open>What is stored for a key which both sides have.\<close>

fun merged_value :: "bool \<Rightarrow> bool \<Rightarrow> bool \<Rightarrow> json \<Rightarrow> json \<Rightarrow> json" where
  "merged_value n x sp (JObject t) (JObject s) = (if n then JObject (merge_source n x sp t s) else JObject s)"
| "merged_value n x sp (JObject t) JNull = (if n then JObject t else JNull)"
| "merged_value n x sp (JArray t) (JArray s) = (if x then JArray (t @ s) else JArray s)"
| "merged_value n x sp (JArray t) JNull = (if x then JArray t else JNull)"
| "merged_value n x sp (JArray t) (JString l) = (if x \<and> sp then JArray (t @ split_entries l) else JString l)"
| "merged_value n x sp _ v = v"

lemma merge_source_step:
  "merge_source n x sp t ((k, v) # s) =
     merge_source n x sp (obj_insert k (case map_of t k of None \<Rightarrow> v | Some c \<Rightarrow> merged_value n x sp c v) t) s"
  by (auto split: option.splits json.splits)

lemma map_of_merge_source:
  assumes "obj_ok s"
  shows "map_of (merge_source n x sp t s) k =
    (case map_of s k of None \<Rightarrow> map_of t k
     | Some v \<Rightarrow> Some (case map_of t k of None \<Rightarrow> v | Some c \<Rightarrow> merged_value n x sp c v))"
  using assms
proof (induction s arbitrary: t)
  case (Cons e s)
  obtain k' v where e: "e = (k', v)" by (cases e) auto
  have s: "obj_ok s" "map_of s k' = None"
    using Cons.prems by (auto simp: e obj_ok_Cons map_of_eq_None_iff)
  show ?case unfolding e merge_source_step using Cons.IH [OF s(1)] s(2) by (auto split: option.splits)
qed simp

declare merge_source.simps(2) [simp del]

lemma json_ok_array: "json_ok (JArray (a @ b)) \<longleftrightarrow> json_ok (JArray a) \<and> json_ok (JArray b)"
  by simp

lemma json_ok_split: "json_ok (JArray (split_entries l))"
  by (auto simp: split_entries_def list_all_iff)

lemma json_ok_Cons: "json_ok (JObject ((k, v) # s)) \<Longrightarrow> json_ok v \<and> json_ok (JObject s)"
  by (auto simp: obj_ok_Cons)

text \<open>Merging keeps objects well formed.\<close>

lemma merge_induct [case_names Nil Cons]:
  assumes nil: "\<And>t. P t []"
    and step: "\<And>t k v s. (\<And>t' s'. v = JObject s' \<Longrightarrow> P t' s') \<Longrightarrow> (\<And>t. P t s) \<Longrightarrow> P t ((k, v) # s)"
  shows "P t (s :: claims)"
proof (induction "size (JObject s)" arbitrary: t s rule: less_induct)
  case less
  show ?case
  proof (cases s)
    case (Cons e r)
    obtain k v where e: "e = (k, v)" by (cases e) auto
    show ?thesis unfolding Cons e
      by (rule step; rule less) (auto simp: Cons e)
  qed (use nil in simp)
qed

lemma merge_source_ok:
  "json_ok (JObject t) \<Longrightarrow> json_ok (JObject s) \<Longrightarrow> json_ok (JObject (merge_source n x sp t s))"
proof (induction t s rule: merge_induct)
  case (Cons t k v s)
  have v: "json_ok v" "json_ok (JObject s)" using json_ok_Cons [OF Cons.prems(2)] by auto
  have "json_ok (merged_value n x sp c v)" if "map_of t k = Some c" for c
    using json_ok_value [OF Cons.prems(1) that] v(1) Cons.IH(1) json_ok_array json_ok_split
    by (cases "(n, x, sp, c, v)" rule: merged_value.cases) (auto simp del: json_ok.simps(1))
  then have "json_ok (JObject (obj_insert k (case map_of t k of None \<Rightarrow> v | Some c \<Rightarrow> merged_value n x sp c v) t))"
    using v(1) Cons.prems(1) by (intro json_ok_insert) (auto split: option.splits)
  then show ?case unfolding merge_source_step using Cons.IH(2) v(2) by simp
qed simp

section \<open>Path by path\<close>

text \<open>A value which replaces what was there.\<close>

fun is_scalar :: "json \<Rightarrow> bool" where
  "is_scalar (JBool _) = True"
| "is_scalar (JNumber _) = True"
| "is_scalar (JString _) = True"
| "is_scalar _ = False"

lemma merged_scalar: "is_scalar v \<Longrightarrow> \<not> (\<exists>a. c = JArray a) \<Longrightarrow> merged_value n x sp c v = v"
  by (cases "(n, x, sp, c, v)" rule: merged_value.cases) auto

lemma node_at_merge:
  assumes "obj_ok s"
  shows "node_at (JObject (merge_source n x sp t s)) (k # p) =
    (case map_of s k of None \<Rightarrow> node_at (JObject t) (k # p)
     | Some v \<Rightarrow> node_at (case map_of t k of None \<Rightarrow> v | Some c \<Rightarrow> merged_value n x sp c v) p)"
  using map_of_merge_source [OF assms] by (simp split: option.splits)

text \<open>Beyond a value which is no object there is nothing.\<close>

lemma node_at_scalar: "is_scalar v \<Longrightarrow> p \<noteq> [] \<Longrightarrow> node_at v p = None"
  by (cases v; cases p) auto

lemma merge_source_says:
  assumes "json_ok (JObject s)" "node_at (JObject s) p = Some v" "is_scalar v" "\<not> (\<exists>a. node_at (JObject t) p = Some (JArray a))"
  shows "node_at (JObject (merge_source True x sp t s)) p = Some v"
  using assms
proof (induction p arbitrary: t s)
  case Nil
  then show ?case by auto
next
  case (Cons k p)
  have ok: "obj_ok s" using Cons.prems(1) by simp
  obtain u where u: "map_of s k = Some u" "node_at u p = Some v" using Cons.prems(2) by (auto split: option.splits)
  show ?case
  proof (cases "map_of t k")
    case None
    then show ?thesis using u node_at_merge [OF ok, of True x sp t k p] by simp
  next
    case (Some c)
    have "node_at (merged_value True x sp c u) p = Some v"
    proof (cases p)
      case Nil
      then have "merged_value True x sp c u = u" using u(2) Cons.prems(3,4) Some by (intro merged_scalar) auto
      then show ?thesis using u(2) by simp
    next
      case (Cons k' p')
      then obtain s' where s': "u = JObject s'" using u(2) by (cases u) auto
      show ?thesis
      proof (cases "\<exists>t'. c = JObject t'")
        case True
        then obtain t' where t': "c = JObject t'" by blast
        have "node_at (JObject (merge_source True x sp t' s')) p = Some v"
          using json_ok_value [OF Cons.prems(1) u(1)] u(2) Cons.prems(3,4) Some
          unfolding s' t' by (intro Cons.IH) (auto simp: Some t')
        then show ?thesis by (simp add: s' t')
      next
        case False
        then have "merged_value True x sp c u = u" by (cases c) (auto simp: s')
        then show ?thesis using u(2) by simp
      qed
    qed
    then show ?thesis using u(1) Some node_at_merge [OF ok, of True x sp t k p] by simp
  qed
qed

text \<open>Nothing at the path, nor a value on the way which isn't an object.\<close>

fun says_nothing :: "claims \<Rightarrow> string list \<Rightarrow> bool" where
  "says_nothing s [] \<longleftrightarrow> False"
| "says_nothing s (k # p) \<longleftrightarrow> (case map_of s k of
     None \<Rightarrow> True
   | Some (JObject s') \<Rightarrow> says_nothing s' p
   | Some _ \<Rightarrow> False)"

lemma says_nothing_none: "says_nothing s p \<Longrightarrow> node_at (JObject s) p = None"
  by (induction s p rule: says_nothing.induct) (auto split: option.splits json.splits)

lemma merge_source_leaves:
  assumes "json_ok (JObject s)" "says_nothing s p"
  shows "node_at (JObject (merge_source True x sp t s)) p = node_at (JObject t) p"
  using assms
proof (induction p arbitrary: t s)
  case (Cons k p)
  have ok: "obj_ok s" using Cons.prems(1) by simp
  show ?case
  proof (cases "map_of s k")
    case None
    then show ?thesis using node_at_merge [OF ok, of True x sp t k p] by simp
  next
    case (Some u)
    then obtain s' where s': "u = JObject s'" "says_nothing s' p" using Cons.prems(2) by (auto split: json.splits)
    then obtain k' p' where p: "p = k' # p'" by (cases p) auto
    have ok': "json_ok (JObject s')" using json_ok_value [OF Cons.prems(1) Some] s'(1) by simp
    show ?thesis
    proof (cases "\<exists>t'. map_of t k = Some (JObject t')")
      case True
      then obtain t' where t': "map_of t k = Some (JObject t')" by blast
      have "node_at (JObject (merge_source True x sp t' s')) p = node_at (JObject t') p"
        by (rule Cons.IH [OF ok' s'(2)])
      then show ?thesis using node_at_merge [OF ok, of True x sp t k p] Some s'(1) t' by simp
    next
      case False
      then have "node_at (JObject t) (k # p) = None" by (auto simp: p split: option.splits json.splits) (metis node_at.simps(3-7) json.exhaust)
      moreover have "(case map_of t k of None \<Rightarrow> u | Some c \<Rightarrow> merged_value True x sp c u) = JObject s'"
        using False s'(1) by (auto split: option.splits) (metis json.exhaust merged_value.simps)
      ultimately show ?thesis using node_at_merge [OF ok, of True x sp t k p] Some says_nothing_none [OF s'(2)] by simp
    qed
  qed
qed simp

text \<open>
  with nested merging a source decides every value it says, and leaves every path it says nothing of as it was, whatever the
  rest of it holds; merging never fails, and well formed objects stay so.
\<close>

theorem merge_source_decides:
  assumes "json_ok (JObject target)" "json_ok (JObject source)"
  shows "json_ok (JObject (merge_source n x sp target source)) \<and>
    (\<forall>p v. node_at (JObject source) p = Some v \<and> is_scalar v \<and> \<not> (\<exists>a. node_at (JObject target) p = Some (JArray a)) \<longrightarrow>
      node_at (JObject (merge_source True x sp target source)) p = Some v) \<and>
    (\<forall>p. says_nothing source p \<longrightarrow> node_at (JObject (merge_source True x sp target source)) p = node_at (JObject target) p)"
  using assms merge_source_ok merge_source_says merge_source_leaves by blast

text \<open>A section of which one value is set again.\<close>

definition demo_target :: claims where
  "demo_target = [(''db'', JObject [(''host'', JString ''h''), (''port'', JNumber ''1'')]), (''hosts'', JArray [JString ''a''])]"

definition demo_source :: claims where
  "demo_source = [(''db'', JObject [(''port'', JNumber ''2'')]), (''hosts'', JString ''b'')]"

lemma demo_sides_ok: "json_ok (JObject demo_target)" "json_ok (JObject demo_source)"
  by (simp_all add: demo_target_def demo_source_def obj_ok_def)

theorem merge_source_decides_witness:
  "node_at (JObject (merge_source True False False demo_target demo_source)) [''db'', ''port''] = Some (JNumber ''2'') \<and>
   node_at (JObject (merge_source True False False demo_target demo_source)) [''db'', ''host''] = Some (JString ''h'')"
proof -
  have says: "node_at (JObject demo_source) [''db'', ''port''] = Some (JNumber ''2'') \<and> is_scalar (JNumber ''2'') \<and>
      \<not> (\<exists>a. node_at (JObject demo_target) [''db'', ''port''] = Some (JArray a))"
    and leaves: "says_nothing demo_source [''db'', ''host'']" "node_at (JObject demo_target) [''db'', ''host''] = Some (JString ''h'')"
    by (simp_all add: demo_target_def demo_source_def)
  note decides = merge_source_decides [OF demo_sides_ok, of True False False]
  from decides says have "node_at (JObject (merge_source True False False demo_target demo_source)) [''db'', ''port''] = Some (JNumber ''2'')"
    by blast
  moreover from decides leaves(1) have "node_at (JObject (merge_source True False False demo_target demo_source)) [''db'', ''host''] =
      node_at (JObject demo_target) [''db'', ''host'']" by blast
  ultimately show ?thesis using leaves(2) by simp
qed

section \<open>The merge which may fail\<close>

text \<open>Where the values differ in kind, on paths through objects of both.\<close>

fun clash :: "bool \<Rightarrow> bool \<Rightarrow> json \<Rightarrow> json \<Rightarrow> string list \<Rightarrow> bool" where
  "clash n x c v [] \<longleftrightarrow> n \<and> (\<exists>m. c = JObject m) \<and> \<not> (\<exists>m. v = JObject m) \<or> x \<and> (\<exists>a. c = JArray a) \<and> \<not> (\<exists>a. v = JArray a)"
| "clash n x (JObject t) (JObject s) (k # q) \<longleftrightarrow> n \<and>
     (case map_of t k of None \<Rightarrow> False | Some c \<Rightarrow> (case map_of s k of None \<Rightarrow> False | Some v \<Rightarrow> clash n x c v q))"
| "clash n x _ _ (k # q) \<longleftrightarrow> False"

definition clashes :: "bool \<Rightarrow> bool \<Rightarrow> claims \<Rightarrow> claims \<Rightarrow> bool" where
  "clashes n x t s \<longleftrightarrow> (\<exists>k c v q. map_of t k = Some c \<and> map_of s k = Some v \<and> clash n x c v q)"

lemma clash_objects: "(\<exists>q. clash n x (JObject t) (JObject s) q) \<longleftrightarrow> n \<and> clashes n x t s"
proof
  assume "\<exists>q. clash n x (JObject t) (JObject s) q"
  then obtain q where q: "clash n x (JObject t) (JObject s) q" by blast
  then show "n \<and> clashes n x t s" by (cases q) (fastforce simp: clashes_def split: option.splits)+
next
  assume "n \<and> clashes n x t s"
  then obtain k c v q where "n" "map_of t k = Some c" "map_of s k = Some v" "clash n x c v q" by (auto simp: clashes_def)
  then have "clash n x (JObject t) (JObject s) (k # q)" by simp
  then show "\<exists>q. clash n x (JObject t) (JObject s) q" by blast
qed

lemma clashes_Cons:
  assumes "map_of s k = None" "\<And>k'. k' \<noteq> k \<Longrightarrow> map_of t' k' = map_of t k'"
  shows "clashes n x t ((k, v) # s) \<longleftrightarrow> (\<exists>c. map_of t k = Some c \<and> (\<exists>q. clash n x c v q)) \<or> clashes n x t' s"
proof -
  let ?others = "\<exists>k' c w q. k' \<noteq> k \<and> map_of t k' = Some c \<and> map_of s k' = Some w \<and> clash n x c w q"
  have "clashes n x t' s \<longleftrightarrow> ?others"
    using assms unfolding clashes_def by (metis option.simps(3))
  moreover have "clashes n x t ((k, v) # s) \<longleftrightarrow> (\<exists>c. map_of t k = Some c \<and> (\<exists>q. clash n x c v q)) \<or> ?others"
  proof
    assume "clashes n x t ((k, v) # s)"
    then obtain k' c w q where "map_of t k' = Some c" "map_of ((k, v) # s) k' = Some w" "clash n x c w q"
      unfolding clashes_def by blast
    then show "(\<exists>c. map_of t k = Some c \<and> (\<exists>q. clash n x c v q)) \<or> ?others"
      proof (cases "k' = k")
      case False
      then have ?others using \<open>map_of t k' = _\<close> \<open>map_of ((k, v) # s) k' = _\<close> \<open>clash n x c w q\<close> by auto
      then show ?thesis ..
    qed auto
  next
    assume "(\<exists>c. map_of t k = Some c \<and> (\<exists>q. clash n x c v q)) \<or> ?others"
    then obtain k' c w q where "map_of t k' = Some c" "map_of ((k, v) # s) k' = Some w" "clash n x c w q"
      by (metis map_of_Cons_code(2))
    then show "clashes n x t ((k, v) # s)" unfolding clashes_def by blast
  qed
  ultimately show ?thesis by blast
qed

lemma obj_insert_removed: "obj_ok t \<Longrightarrow> obj_insert k v (obj_remove k t) = obj_insert k v t"
  by (rule obj_ok_eq) auto

definition merged_or_error :: "bool \<Rightarrow> bool \<Rightarrow> string \<Rightarrow> json \<Rightarrow> json \<Rightarrow> loader_error + json" where
  "merged_or_error n x key existing value =
     (case existing of
        JObject t \<Rightarrow>
          (if \<not> n then Inr value
           else case value of
             JObject s \<Rightarrow> map_sum id JObject (merge_objects n x t s)
           | _ \<Rightarrow> Inl (Object_Field_Type_Mismatch key (value_type value)))
      | JArray a \<Rightarrow>
          (if \<not> x then Inr value
           else case value of
             JArray b \<Rightarrow> Inr (JArray (a @ b))
           | _ \<Rightarrow> Inl (Array_Field_Type_Mismatch key (value_type value)))
      | _ \<Rightarrow> Inr value)"

lemma merge_objects_step:
  "merge_objects n x t ((k, v) # s) =
     (case map_of t k of
        None \<Rightarrow> merge_objects n x (obj_insert k v t) s
      | Some c \<Rightarrow> res_bind (merged_or_error n x k c v) (\<lambda>w. merge_objects n x (obj_insert k w (obj_remove k t)) s))"
  by (cases "map_of t k") (simp_all add: merged_or_error_def Let_def)

declare merge_objects.simps(2) [simp del]

definition agrees :: "bool \<Rightarrow> loader_error + 'a \<Rightarrow> 'a \<Rightarrow> bool" where
  "agrees bad r y \<longleftrightarrow> (case r of Inl _ \<Rightarrow> bad | Inr z \<Rightarrow> \<not> bad \<and> z = y)"

lemma merged_or_error_agrees:
  assumes "\<And>t s. c = JObject t \<Longrightarrow> v = JObject s \<Longrightarrow> agrees (clashes n x t s) (merge_objects n x t s) (merge_source n x False t s)"
  shows "agrees (\<exists>q. clash n x c v q) (merged_or_error n x k c v) (merged_value n x False c v)"
proof (cases "\<exists>t s. c = JObject t \<and> v = JObject s")
  case True
  then obtain t s where ts: "c = JObject t" "v = JObject s" by blast
  show ?thesis using assms [OF ts] unfolding ts clash_objects
    by (auto simp: agrees_def merged_or_error_def split: sum.splits)
next
  case False
  have "clash n x c v q \<Longrightarrow> q = []" for q using False by (cases "(n, x, c, v, q)" rule: clash.cases) auto
  then have "(\<exists>q. clash n x c v q) \<longleftrightarrow> clash n x c v []" by blast
  then show ?thesis using False by (cases c; cases v) (auto simp: agrees_def merged_or_error_def)
qed

lemma merge_objects_agrees:
  assumes "json_ok (JObject t)" "json_ok (JObject s)"
  shows "agrees (clashes n x t s) (merge_objects n x t s) (merge_source n x False t s)"
  using assms
proof (induction t s rule: merge_induct)
  case (Nil t)
  then show ?case by (simp add: agrees_def clashes_def)
next
  case (Cons t k v s)
  have v: "json_ok v" "json_ok (JObject s)" using json_ok_Cons [OF Cons.prems(2)] by auto
  have none: "map_of s k = None" using Cons.prems(2) by (auto simp: obj_ok_Cons map_of_eq_None_iff)
  let ?w = "case map_of t k of None \<Rightarrow> v | Some c \<Rightarrow> merged_value n x False c v"
  have "json_ok (JObject (merge_source n x False t ((k, v) # [])))"
    using Cons.prems(1) v(1) by (intro merge_source_ok) (auto simp: obj_ok_Cons)
  then have ok: "json_ok (JObject (obj_insert k ?w t))" by (simp add: merge_source_step)
  have rest: "agrees (clashes n x (obj_insert k ?w t) s) (merge_objects n x (obj_insert k ?w t) s)
      (merge_source n x False (obj_insert k ?w t) s)"
    using Cons.IH(2) [OF ok v(2)] .
  have split: "clashes n x t ((k, v) # s) \<longleftrightarrow>
      (\<exists>c. map_of t k = Some c \<and> (\<exists>q. clash n x c v q)) \<or> clashes n x (obj_insert k ?w t) s"
    by (rule clashes_Cons [OF none]) simp
  show ?case
  proof (cases "map_of t k")
    case None
    then show ?thesis using rest split by (simp add: merge_objects_step merge_source_step)
  next
    case (Some c)
    have "agrees (\<exists>q. clash n x c v q) (merged_or_error n x k c v) (merged_value n x False c v)"
      using json_ok_value [OF Cons.prems(1) Some] v(1) by (intro merged_or_error_agrees Cons.IH(1)) auto
    moreover have "obj_insert k w (obj_remove k t) = obj_insert k w t" for w using Cons.prems(1) by (intro obj_insert_removed) simp
    ultimately show ?thesis using rest split Some
      by (auto simp: merge_objects_step merge_source_step agrees_def split: sum.splits)
  qed
qed

text \<open>
  merging two configurations fails exactly where, on a path through objects of both, one has an object or an
  array to be merged and the other something else; and otherwise gives what the merge of the loader's sources, which does not fail, gives.
\<close>

theorem merge_objects_exact:
  assumes "json_ok (JObject target)" "json_ok (JObject source)"
  shows "case merge_objects n x target source of
      Inl _ \<Rightarrow> clashes n x target source
    | Inr merged \<Rightarrow> \<not> clashes n x target source \<and> merged = merge_source n x False target source"
  using merge_objects_agrees [OF assms] unfolding agrees_def .

text \<open>The hosts are an array on one side only.\<close>

theorem merge_objects_exact_witness:
  "\<exists>e. merge_objects True True demo_target demo_source = Inl e"
proof -
  have "clash True True (JArray [JString ''a'']) (JString ''b'') []" by simp
  then have "clashes True True demo_target demo_source"
    unfolding clashes_def demo_target_def demo_source_def
    by (intro exI [of _ "''hosts''"] exI [of _ "JArray [JString ''a'']"] exI [of _ "JString ''b''"] exI [of _ "[]"]) simp
  then show ?thesis using merge_objects_exact [OF demo_sides_ok, of True True]
    by (cases "merge_objects True True demo_target demo_source") auto
qed

end
