(* ===== verification/ConfigLoadProps.thy ===== *)
theory ConfigLoadProps
  imports ConfigLoad ConfigInterpolateProps ConfigMergeProps
begin

text \<open>
  What is proved of loading a configuration: it returns although includes may form cycles, every file is loaded once, each
  value comes from the last file which gives it, and only local toml, yaml and json files can name a command which is run.
\<close>

section \<open>Returning\<close>

text \<open>The directories which a scan can enter.\<close>

definition directories :: "('w, 't) config_env \<Rightarrow> string set" where
  "directories C = {folder. \<exists>p. is_dir C p \<and> cf_canonicalize C p = Some folder}"

lemma load_paths_returns:
  assumes "finite (directories C)"
  shows "\<exists>r. load_paths C keywords inc visiting files paths = Some r"
proof (induction "(card (directories C - set visiting), length paths)" arbitrary: visiting files paths
    rule: wf_induct_rule [OF wf_lex_prod [OF wf_less wf_less]])
  case 1
  note IH = this
  show ?case
  proof (cases paths)
    case Nil
    then show ?thesis by (subst load_paths.simps) simp
  next
    case (Cons path rest)
    have skip: "\<exists>r. load_paths C keywords inc visiting files' rest = Some r" for files'
      by (rule IH) (simp add: Cons)
    have enter: "\<exists>r. load_paths C keywords inc (folder # visiting) files' paths' = Some r"
      if "is_dir C path" "cf_canonicalize C path = Some folder" "folder \<notin> set visiting" for folder files' paths'
    proof (rule IH)
      have "folder \<in> directories C" using that(1,2) by (auto simp: directories_def)
      then have "card (directories C - set (folder # visiting)) < card (directories C - set visiting)"
        using assms that(3) by (intro psubset_card_mono) auto
      then show "((card (directories C - set (folder # visiting)), length paths'),
          (card (directories C - set visiting), length paths)) \<in> {(x, y). x < y} <*lex*> {(x, y). x < y}" by simp
    qed
    show ?thesis
    proof (cases "is_cicada_path path \<or> is_file C path \<or> \<not> is_dir C path \<or> cf_canonicalize C path = None")
      case True
      then show ?thesis unfolding Cons using skip by (subst load_paths.simps) auto
    next
      case False
      then obtain folder where folder: "\<not> is_cicada_path path" "\<not> is_file C path" "is_dir C path"
        "cf_canonicalize C path = Some folder" by auto
      show ?thesis
      proof (cases "folder \<in> set visiting \<or> cf_read_dir C folder = None")
        case True
        then show ?thesis unfolding Cons using folder skip by (subst load_paths.simps) auto
      next
        case False
        then obtain entries where entries: "folder \<notin> set visiting" "cf_read_dir C folder = Some entries" by auto
        obtain r where r: "load_paths C keywords inc (folder # visiting) (files @ dir_files C keywords inc entries)
            (load_includes C folder inc) = Some r" using enter [OF folder(3,4) entries(1)] by blast
        show ?thesis unfolding Cons using folder entries r skip
          by (subst load_paths.simps) (cases r; auto)
      qed
    qed
  qed
qed

text \<open>Each key once; each path under its key.\<close>

definition files_ok :: "('w, 't) config_env \<Rightarrow> (string \<times> string) list \<Rightarrow> bool" where
  "files_ok C fs \<longleftrightarrow> distinct (map fst fs) \<and> list_all (\<lambda>f. dedupe_key C (snd f) = fst f) fs"

lemma push_file_ok: "files_ok C fs \<Longrightarrow> files_ok C (push_file fs (dedupe_key C p) p)"
  by (auto simp: files_ok_def push_file_def Let_def list_all_iff distinct_map_filter dest!: map_of_SomeD split: option.splits)

lemma push_all_ok: "files_ok C fs \<Longrightarrow> files_ok C (push_all C fs ps)"
  by (induction ps arbitrary: fs) (auto simp: push_all_def intro: push_file_ok)

lemma cicada_key: "is_cicada_path p \<Longrightarrow> dedupe_key C p = p"
  by (simp add: dedupe_key_def)

lemma find_files_result:
  assumes "finite (directories C)" "files_ok C fs"
  shows "\<exists>r. find_files C keywords inc fs paths = Some r \<and> (\<forall>fs'. r = Inr fs' \<longrightarrow> files_ok C fs')"
  using assms(2)
proof (induction paths arbitrary: fs)
  case (Cons path paths)
  obtain r where r: "load_config_files C keywords inc path = Some r"
    using load_paths_returns [OF assms(1)] unfolding load_config_files_def by blast
  have "files_ok C (push_file fs (dedupe_key C path) path)" using Cons.prems by (rule push_file_ok)
  moreover have "files_ok C (push_all C fs files)" for files using Cons.prems by (rule push_all_ok)
  ultimately show ?case using Cons cicada_key [of path C] r
    by (auto split: option.splits file_kind.splits sum.splits)
qed simp

text \<open>Two found paths name one file: they are the same, or lead to the same place.\<close>

definition same_file :: "('w, 't) config_env \<Rightarrow> string \<Rightarrow> string \<Rightarrow> bool" where
  "same_file C p q \<longleftrightarrow> p = q \<or> \<not> is_cicada_path p \<and> \<not> is_cicada_path q \<and>
     (\<exists>c. cf_canonicalize C p = Some c \<and> cf_canonicalize C q = Some c)"

lemma same_key: "same_file C p q \<Longrightarrow> dedupe_key C p = dedupe_key C q"
  by (auto simp: same_file_def dedupe_key_def)

lemma key_of_file:
  "\<not> is_cicada_path p \<Longrightarrow> dedupe_key C q = dedupe_key C p \<Longrightarrow>
   same_file C q p \<or> cf_canonicalize C p = Some q \<or> cf_canonicalize C q = Some p"
  by (auto simp: same_file_def dedupe_key_def split: if_splits option.splits)

lemma push_file_keys: "fst ` set (push_file fs k p) = insert k (fst ` set fs)"
  by (auto simp: push_file_def Let_def image_iff)

lemma push_all_keys: "fst ` set fs \<subseteq> fst ` set (push_all C fs ps)"
proof (induction ps arbitrary: fs)
  case (Cons p ps)
  have "fst ` set fs \<subseteq> fst ` set (push_file fs (dedupe_key C p) p)" by (auto simp: push_file_keys)
  also have "\<dots> \<subseteq> fst ` set (push_all C (push_file fs (dedupe_key C p) p) ps)" by (rule Cons)
  finally show ?case by (simp add: push_all_def)
qed (simp add: push_all_def)

lemma find_files_keys:
  "find_files C keywords inc fs paths = Some (Inr fs') \<Longrightarrow>
   fst ` set fs \<subseteq> fst ` set fs' \<and> (\<forall>p \<in> set paths. \<not> is_cicada_path p \<and> is_file C p \<longrightarrow> dedupe_key C p \<in> fst ` set fs')"
proof (induction paths arbitrary: fs)
  case (Cons path paths)
  have later: "fst ` set fs \<subseteq> fst ` set fs1 \<Longrightarrow> (\<not> is_cicada_path path \<and> is_file C path \<longrightarrow> dedupe_key C path \<in> fst ` set fs1) \<Longrightarrow>
      find_files C keywords inc fs1 paths = Some (Inr fs') \<Longrightarrow> ?case" for fs1
    using Cons.IH [of fs1] by auto
  show ?case
  proof (cases "is_cicada_path path")
    case True
    then show ?thesis using Cons.prems later [of "push_file fs path path"] by (auto simp: push_file_keys split: if_splits)
  next
    case False
    show ?thesis
    proof (cases "cf_metadata C path = Some Directory")
      case True
      obtain r where r: "load_config_files C keywords inc path = Some r"
        using Cons.prems False True by (cases "load_config_files C keywords inc path") auto
      then obtain files where "find_files C keywords inc (push_all C fs files) paths = Some (Inr fs')"
        using Cons.prems False True by (cases r) auto
      then show ?thesis using later [of "push_all C fs files"] push_all_keys [of fs C files] True by (simp add: is_file_def)
    next
      case dir: False
      then show ?thesis
        using Cons.prems False later [of fs] later [of "push_file fs (dedupe_key C path) path"]
        by (auto simp: is_file_def push_file_keys split: option.splits file_kind.splits)
    qed
  qed
qed simp

text \<open>
  C31: a configuration is loaded, or refused, in finitely many steps: where the directories which can be reached are finitely many, the
  scan returns even if they include each other in a cycle. No file is loaded twice: of the paths found no two are equal or lead,
  by whatever links, to the same canonical path. And every file the app names is loaded, under that name or another of its own.
\<close>

theorem config_load_returns:
  assumes "finite (directories C)"
  shows "(\<exists>r w'. load_config C L w = Some (r, w')) \<and>
    (\<forall>wcs fs. find_files C wcs (lo_include_file_name L) [] (lo_paths L) = Some (Inr fs) \<longrightarrow>
      (\<forall>i j. i < j \<and> j < length fs \<longrightarrow> \<not> same_file C (snd (fs ! i)) (snd (fs ! j))) \<and>
      (\<forall>p \<in> set (lo_paths L). \<not> is_cicada_path p \<and> cf_metadata C p = Some Regular \<longrightarrow>
        (\<exists>q \<in> snd ` set fs. same_file C q p \<or> cf_canonicalize C p = Some q \<or> cf_canonicalize C q = Some p)))"
proof -
  have found: "\<exists>r. find_files C wcs (lo_include_file_name L) [] (lo_paths L) = Some r \<and> (\<forall>fs. r = Inr fs \<longrightarrow> files_ok C fs)"
    for wcs by (rule find_files_result [OF assms]) (simp add: files_ok_def)
  have "\<exists>r w'. load_config C L w = Some (r, w')"
  proof (cases "compile_wildcards C (lo_match_wildcards L)")
    case (Inr wildcards)
    obtain r where "find_files C wildcards (lo_include_file_name L) [] (lo_paths L) = Some r" using found by blast
    then show ?thesis using Inr by (cases r) (auto simp: load_config_def intro: prod.exhaust)
  qed (simp add: load_config_def)
  moreover have "\<not> same_file C (snd (fs ! i)) (snd (fs ! j))" if "files_ok C fs" "i < j" "j < length fs" for fs i j
  proof -
    have "fst (fs ! i) \<noteq> fst (fs ! j)"
      using that nth_eq_iff_index_eq [of "map fst fs" i j] by (auto simp: files_ok_def)
    moreover have "dedupe_key C (snd (fs ! i)) = fst (fs ! i)" "dedupe_key C (snd (fs ! j)) = fst (fs ! j)"
      using that by (auto simp: files_ok_def list_all_length)
    ultimately show ?thesis using same_key by metis
  qed
  moreover have "\<exists>q \<in> snd ` set fs. same_file C q p \<or> cf_canonicalize C p = Some q \<or> cf_canonicalize C q = Some p"
    if run: "find_files C wcs (lo_include_file_name L) [] (lo_paths L) = Some (Inr fs)" and ok: "files_ok C fs"
      and p: "p \<in> set (lo_paths L)" "\<not> is_cicada_path p" "cf_metadata C p = Some Regular" for wcs fs p
  proof -
    obtain f where "f \<in> set fs" "fst f = dedupe_key C p"
      using find_files_keys [OF run] p by (fastforce simp: is_file_def)
    moreover have "dedupe_key C (snd f) = fst f" using ok \<open>f \<in> set fs\<close> by (auto simp: files_ok_def list_all_iff)
    ultimately show ?thesis using key_of_file [OF p(2), of C "snd f"] by force
  qed
  ultimately show ?thesis using found by (metis option.inject)
qed

section \<open>Well formed configurations\<close>

lemma env_object_ok:
  assumes "parse_env_file_object lower content = Inr m"
  shows "json_ok (JObject m)"
proof -
  obtain es where es: "place_all lower es [] Map.empty = Inr m"
    using assms by (auto simp: parse_env_file_object_def res_bind_Inr_iff)
  have "built_entries []" "covered [] [] Map.empty" "\<And>p s. leaf [] p s \<longleftrightarrow> (\<exists>e \<in> set []. p = path_of lower e \<and> s = en_value e)"
    "apart (map (path_of lower) [])"
    by (auto simp: built_entries_def covered_def leaf_empty neq_Nil_conv apart_def)
  then have "built_entries m" using place_all_result [of "[]" Map.empty "[]" lower es] es by simp
  then show ?thesis using built_json_ok by (auto simp: built_entries_def list_all_iff)
qed

text \<open>The parsers give maps.\<close>

definition parsers_ok :: "('w, 't) config_env \<Rightarrow> bool" where
  "parsers_ok C \<longleftrightarrow> (\<forall>text m. cf_from_toml C text = Inr m \<or> cf_from_yaml C text = Inr m \<or> cf_from_json C text = Inr m \<longrightarrow>
     json_ok (JObject m))"

lemma parse_config_contents_ok:
  "parsers_ok C \<Longrightarrow> parse_config_contents C fl text = Inr m \<Longrightarrow> json_ok (JObject m)"
proof -
  assume C: "parsers_ok C" and m: "parse_config_contents C fl text = Inr m"
  have sum: "map_sum f id r = Inr m \<longleftrightarrow> r = Inr m" for f :: "'e \<Rightarrow> 'f" and r :: "'e + claims" by (cases r) auto
  from m consider "parse_env_file_object (cf_lower C) text = Inr m" | "cf_from_toml C text = Inr m" | "cf_from_yaml C text = Inr m"
    | "cf_from_json C text = Inr m"
    by (auto simp: parse_config_contents_def sum split: if_splits option.splits)
  then show ?thesis
  proof cases
    case 1
    then show ?thesis by (rule env_object_ok)
  qed (use C in \<open>unfold parsers_ok_def, blast+\<close>)
qed

lemma load_parse_ok: "parsers_ok C \<Longrightarrow> load_parse_config_file C fl = Inr m \<Longrightarrow> json_ok (JObject m)"
  by (auto simp: load_parse_config_file_def simp del: json_ok.simps split: if_splits option.splits intro: parse_config_contents_ok)

lemma map_sum_Inr: "map_sum f g r = Inr y \<longleftrightarrow> (\<exists>x. r = Inr x \<and> y = g x)"
  by (cases r) auto

lemma load_source_ok:
  "parsers_ok C \<Longrightarrow> load_source C fl w = (Inr (Inr m, i, e), w') \<Longrightarrow> json_ok (JObject m)"
  by (auto simp: load_source_def Let_def map_sum_Inr simp del: json_ok.simps split: if_splits option.splits prod.splits sum.splits
      intro: load_parse_ok parse_config_contents_ok)

lemma interpolated_object: "\<exists>m' w'. interpolate_value S (JObject m) w = (JObject m', w')"
  by (auto split: prod.splits)

lemma merge_files_ok:
  assumes "parsers_ok C" "json_ok (JObject target)" "merge_files C n x target files w = (Inr m, w')"
  shows "json_ok (JObject m)"
  using assms(2,3)
proof (induction files arbitrary: target w)
  case (Cons fl files)
  obtain r w1 where r: "load_source C fl w = (r, w1)" by (rule prod.exhaust)
  show ?case
  proof (cases r)
    case (Inr y)
    obtain source i e where y: "y = (source, i, e)" by (cases y) auto
    show ?thesis
    proof (cases source)
      case (Inr s)
      then have s: "json_ok (JObject s)" using load_source_ok [OF assms(1)] r \<open>r = Inr y\<close> y by blast
      obtain s' w2 where s': "(if i then interpolate_value (cf_shell C) (JObject s) w1 else (JObject s, w1)) = (JObject s', w2)"
        using interpolated_object [of "cf_shell C" s w1] by (cases i) auto
      then have "json_ok (JObject s')"
        using s interpolate_value_ok(1) [OF s, of "cf_shell C" w1] by (cases i) (auto simp del: interpolate_value.simps)
      then have "json_ok (JObject (merge_source n x e target s'))" using Cons.prems(1) by (intro merge_source_ok)
      then show ?thesis using Cons.IH Cons.prems(2) r \<open>r = Inr y\<close> y Inr s' by (simp del: json_ok.simps interpolate_value.simps)
    qed (use Cons r Inr y in simp)
  qed (use Cons.prems r in simp)
qed simp

section \<open>What a file gives\<close>

text \<open>
  Texts read in turn; and a value with its texts and its keys replaced: the values first, then the keys, and where keys become
  equal the entry which stood last is kept.
\<close>

inductive texts_read :: "'w shell \<Rightarrow> string list \<Rightarrow> 'w \<Rightarrow> string list \<Rightarrow> 'w \<Rightarrow> bool" for S where
  No_Text: "texts_read S [] w [] w"
| More_Texts: "interpolate_text S k w = (k', w1) \<Longrightarrow> texts_read S ks w1 ks' w2 \<Longrightarrow> texts_read S (k # ks) w (k' # ks') w2"

inductive interpolated :: "'w shell \<Rightarrow> json \<Rightarrow> 'w \<Rightarrow> json \<Rightarrow> 'w \<Rightarrow> bool"
  and all_interpolated :: "'w shell \<Rightarrow> json list \<Rightarrow> 'w \<Rightarrow> json list \<Rightarrow> 'w \<Rightarrow> bool" for S where
  Text: "interpolate_text S t w = (t', w') \<Longrightarrow> interpolated S (JString t) w (JString t') w'"
| Array: "all_interpolated S vs w vs' w' \<Longrightarrow> interpolated S (JArray vs) w (JArray vs') w'"
| Object: "all_interpolated S (map snd m) w vs w1 \<Longrightarrow> texts_read S (map fst m) w1 ks w2 \<Longrightarrow>
     obj_ok m' \<Longrightarrow> (\<And>k. map_of m' k = map_of (rev (zip ks vs)) k) \<Longrightarrow> interpolated S (JObject m) w (JObject m') w2"
| Other: "v = JNull \<or> v = JBool b \<or> v = JNumber n \<Longrightarrow> interpolated S v w v w"
| None_Left: "all_interpolated S [] w [] w"
| Next_Value: "interpolated S v w v' w1 \<Longrightarrow> all_interpolated S vs w1 vs' w2 \<Longrightarrow> all_interpolated S (v # vs) w (v' # vs') w2"

lemma interpolate_text_plain: "\<not> needs_interpolation t \<Longrightarrow> interpolate_text S t w = (t, w)"
  by (simp add: interpolate_text_def)

lemma texts_read_plain: "list_all (\<lambda>k. \<not> needs_interpolation k) ks \<Longrightarrow> texts_read S ks w ks w"
  by (induction ks) (auto intro: texts_read.intros interpolate_text_plain)

lemma interpolate_key: "interpolate_env_and_shell S k w = interpolate_text S k w"
  by (simp add: interpolate_text_def interpolate_env_and_shell_def)

lemma rekey_reads:
  "rekey S es m w = (m', w') \<Longrightarrow> obj_ok m \<Longrightarrow>
   \<exists>ks. texts_read S (map fst es) w ks w' \<and> obj_ok m' \<and> length ks = length es \<and>
     (\<forall>k. map_of m' k = (case map_of (rev (zip ks (map snd es))) k of None \<Rightarrow> map_of m k | Some v \<Rightarrow> Some v))"
proof (induction S es m w rule: rekey.induct)
  case (1 S m w)
  then show ?case by (auto intro: texts_read.intros)
next
  case (2 S k v entries m w)
  obtain k' w1 where k': "interpolate_env_and_shell S k w = (k', w1)" by (rule prod.exhaust)
  have "rekey S entries (obj_insert k' v m) w1 = (m', w')" "obj_ok (obj_insert k' v m)" using 2(2,3) k' by auto
  from 2(1) [OF k' [symmetric] this] obtain ks where ks: "texts_read S (map fst entries) w1 ks w'" "obj_ok m'"
    "length ks = length entries"
    "\<And>q. map_of m' q = (case map_of (rev (zip ks (map snd entries))) q of None \<Rightarrow> map_of (obj_insert k' v m) q | Some v \<Rightarrow> Some v)"
    by blast
  have "texts_read S (map fst ((k, v) # entries)) w (k' # ks) w'" using k' ks(1) by (auto simp: interpolate_key intro: texts_read.intros)
  then show ?case using ks(2-4) 2(3)
    by (intro exI [of _ "k' # ks"]) (auto simp: map_add_def split: option.splits)
qed

lemma rekey_from_empty:
  assumes "rekey S es [] w = (m', w')"
  shows "\<exists>ks. texts_read S (map fst es) w ks w' \<and> obj_ok m' \<and> (\<forall>k. map_of m' k = map_of (rev (zip ks (map snd es))) k)"
proof -
  obtain ks where "texts_read S (map fst es) w ks w'" "obj_ok m'"
    "\<And>k. map_of m' k = (case map_of (rev (zip ks (map snd es))) k of None \<Rightarrow> map_of ([] :: claims) k | Some v \<Rightarrow> Some v)"
    using rekey_reads [OF assms] by auto
  then show ?thesis by (intro exI [of _ ks]) (auto split: option.split)
qed

lemma map_of_rev_distinct: "distinct (map fst m) \<Longrightarrow> map_of (rev m) = map_of m"
proof (induction m)
  case (Cons e m)
  then have "map_of m (fst e) = None" by (simp add: map_of_eq_None_iff)
  with Cons show ?case by (cases e) (auto simp: map_add_def fun_eq_iff split: option.splits)
qed simp

lemma map_of_zip_snds: "distinct (map fst m) \<Longrightarrow> map_of (rev (zip (map fst m) (map snd m))) k = map_of m k"
  by (simp add: zip_map_fst_snd map_of_rev_distinct)

lemma interpolate_value_interpolated:
  "interpolate_value S v w = (v', w') \<Longrightarrow> json_ok v \<Longrightarrow> interpolated S v w v' w'"
  "interpolate_items S vs w = (vs', w') \<Longrightarrow> list_all json_ok vs \<Longrightarrow> all_interpolated S vs w vs' w'"
  "interpolate_entries S m w = (m', w') \<Longrightarrow> list_all (\<lambda>e. json_ok (snd e)) m \<Longrightarrow>
     all_interpolated S (map snd m) w (map snd m') w' \<and> map fst m' = map fst m"
proof (induction S v w and S vs w and S m w arbitrary: v' w' and vs' w' and m' w'
    rule: interpolate_value_interpolate_items_interpolate_entries.induct)
  case (3 S m w)
  obtain m1 w1 where m1: "interpolate_entries S m w = (m1, w1)" by (rule prod.exhaust)
  have ok: "obj_ok m" "list_all (\<lambda>e. json_ok (snd e)) m" using "3.prems"(2) by simp_all
  have vals: "all_interpolated S (map snd m) w (map snd m1) w1" and keys: "map fst m1 = map fst m"
    using "3.IH" [OF m1 ok(2)] by simp_all
  show ?case
  proof (cases "list_ex (\<lambda>e. needs_interpolation (fst e)) m1")
    case True
    obtain m2 w2 where m2: "rekey S m1 [] w1 = (m2, w2)" by (rule prod.exhaust)
    obtain ks where ks: "texts_read S (map fst m1) w1 ks w2" "obj_ok m2" "\<And>k. map_of m2 k = map_of (rev (zip ks (map snd m1))) k"
      using rekey_from_empty [OF m2] by blast
    show ?thesis using "3.prems"(1) m1 m2 True Object [OF vals ks(1) [unfolded keys] ks(2,3)] by simp
  next
    case False
    have plain: "list_all (\<lambda>k. \<not> needs_interpolation k) (map fst m)"
      using False unfolding keys [symmetric] by (auto simp: list_all_iff list_ex_iff)
    have "obj_ok m1" using ok(1) unfolding obj_ok_def keys .
    then have "map_of m1 k = map_of (rev (zip (map fst m) (map snd m1))) k" for k
      using map_of_zip_snds [of m1 k] obj_ok_distinct keys by metis
    then show ?thesis using "3.prems"(1) m1 False Object [OF vals texts_read_plain [OF plain] \<open>obj_ok m1\<close>] by simp
  qed
next
  case (8 S k v m w)
  obtain v1 w1 m1 where runs: "interpolate_value S v w = (v1, w1)" "interpolate_entries S m w1 = (m1, w')" "m' = (k, v1) # m1"
    using "8.prems"(1) by (auto split: prod.splits)
  then have "interpolated S v w v1 w1" "all_interpolated S (map snd m) w1 (map snd m1) w' \<and> map fst m1 = map fst m"
    using "8.IH"(1) [OF runs(1)] "8.IH"(2) [OF runs(1) [symmetric] runs(2)] "8.prems"(2) by auto
  then show ?case using runs(3) by (auto intro: Next_Value)
qed (auto split: prod.splits intro: interpolated_all_interpolated.intros)

text \<open>
  What a file gives to a load at its turn: nothing when it is a local one which can't be loaded; the entries of an env file and of
  a cicada source as they are; of any other local file, its values interpolated. A cicada source which can't be loaded ends the load.
\<close>

inductive file_gives :: "('w, 't) config_env \<Rightarrow> string \<Rightarrow> 'w \<Rightarrow> claims option \<Rightarrow> bool \<Rightarrow> 'w \<Rightarrow> bool" for C where
  Unusable: "\<not> (cf_cicada C \<and> is_cicada_path fl) \<Longrightarrow> load_parse_config_file C fl = Inl e \<Longrightarrow> file_gives C fl w None env w"
| Entries: "\<not> (cf_cicada C \<and> is_cicada_path fl) \<Longrightarrow> is_env_file fl \<Longrightarrow> load_parse_config_file C fl = Inr s \<Longrightarrow>
     file_gives C fl w (Some s) True w"
| Values: "\<not> (cf_cicada C \<and> is_cicada_path fl) \<Longrightarrow> \<not> is_env_file fl \<Longrightarrow> load_parse_config_file C fl = Inr s \<Longrightarrow>
     interpolated (cf_shell C) (JObject s) w (JObject s') w' \<Longrightarrow> file_gives C fl w (Some s') False w'"
| Cicada_Source: "cf_cicada C \<Longrightarrow> parse_cicada_path fl = Some (node, envs) \<Longrightarrow> cf_cicada_load C node envs w = (Inr text, w') \<Longrightarrow>
     parse_config_contents C node text = Inr s \<Longrightarrow> file_gives C fl w (Some s) (is_env_file node) w'"

inductive files_give :: "('w, 't) config_env \<Rightarrow> string list \<Rightarrow> 'w \<Rightarrow> (claims option \<times> bool) list \<Rightarrow> 'w \<Rightarrow> bool" for C where
  No_File: "files_give C [] w [] w"
| More_Files: "file_gives C fl w s env w1 \<Longrightarrow> files_give C fls w1 ss w2 \<Longrightarrow> files_give C (fl # fls) w ((s, env) # ss) w2"

lemma cicada_parsed: "parse_cicada_path f = None \<longleftrightarrow> \<not> is_cicada_path f"
  by (simp add: parse_cicada_path_def is_cicada_path_def strip_prefix_None_iff)

lemma load_source_gives:
  assumes "parsers_ok C" "load_source C fl w = (Inr (Inr m, i, e), w1)"
    and "(if i then interpolate_value (cf_shell C) (JObject m) w1 else (JObject m, w1)) = (v, w2)"
  shows "file_gives C fl w (Some (object_of v)) e w2"
proof (cases "cf_cicada C \<and> is_cicada_path fl")
  case True
  then obtain node envs where node: "parse_cicada_path fl = Some (node, envs)" using cicada_parsed [of fl] by (cases "parse_cicada_path fl") auto
  then obtain contents where "cf_cicada_load C node envs w = (Inr contents, w1)" "parse_config_contents C node contents = Inr m" "\<not> i" "e = is_env_file node"
    using assms(2) True by (auto simp: load_source_def map_sum_Inr split: sum.splits prod.splits)
  then show ?thesis using assms(3) True node Cicada_Source by fastforce
next
  case False
  then have here: "load_parse_config_file C fl = Inr m" "i = (\<not> is_env_file fl)" "e = is_env_file fl" "w1 = w"
    using assms(2) cicada_parsed [of fl] by (auto simp: load_source_def Let_def split: if_splits option.splits)
  show ?thesis
  proof (cases "is_env_file fl")
    case True
    then show ?thesis using here assms(3) False Entries by fastforce
  next
    case plain: False
    then have run: "interpolate_value (cf_shell C) (JObject m) w = (v, w2)" using here assms(3) by simp
    have "json_ok (JObject m)" using load_source_ok [OF assms(1,2)] .
    from interpolate_value_interpolated(1) [OF run this] have int: "interpolated (cf_shell C) (JObject m) w v w2" .
    obtain m' where "v = JObject m'" using interpolated_object [of "cf_shell C" m w] run by auto
    then show ?thesis using here plain False int Values by fastforce
  qed
qed

lemma load_source_gives_none:
  assumes "load_source C fl w = (Inr (Inl e, i, env), w')"
  shows "file_gives C fl w None env w'"
proof -
  have "\<not> (cf_cicada C \<and> is_cicada_path fl)" "load_parse_config_file C fl = Inl e" "w' = w"
    using assms cicada_parsed [of fl]
    by (auto simp: load_source_def Let_def map_sum_Inr split: if_splits option.splits sum.splits prod.splits)
  then show ?thesis by (simp add: Unusable)
qed

text \<open>One after the other, the sources are merged into what there is.\<close>

definition merge_given :: "bool \<Rightarrow> bool \<Rightarrow> claims \<Rightarrow> claims option \<times> bool \<Rightarrow> claims" where
  "merge_given n x t = (\<lambda>(s, env). case s of None \<Rightarrow> t | Some s \<Rightarrow> merge_source n x env t s)"

lemma merge_given_simps [simp]:
  "merge_given n x t (None, env) = t" "merge_given n x t (Some s, env) = merge_source n x env t s"
  by (simp_all add: merge_given_def)

definition given_ok :: "(claims option \<times> bool) list \<Rightarrow> bool" where
  "given_ok ss \<longleftrightarrow> (\<forall>s env. (Some s, env) \<in> set ss \<longrightarrow> json_ok (JObject s))"

lemma merge_files_gives:
  assumes "parsers_ok C" "merge_files C n x target files w = (Inr m, w')"
  shows "\<exists>ss. files_give C files w ss w' \<and> given_ok ss \<and> m = foldl (merge_given n x) target ss"
  using assms(2)
proof (induction files arbitrary: target w)
  case Nil
  then show ?case by (auto simp: given_ok_def intro!: exI [of _ "[]"] files_give.intros)
next
  case (Cons fl files)
  obtain r w1 where r: "load_source C fl w = (r, w1)" by (rule prod.exhaust)
  then obtain source i env where y: "r = Inr (source, i, env)" using Cons.prems by (cases r) auto
  show ?case
  proof (cases source)
    case (Inl e)
    then have "merge_files C n x target files w1 = (Inr m, w')" using Cons.prems r y by simp
    from Cons.IH [OF this] obtain ss where ss: "files_give C files w1 ss w'" "given_ok ss" "m = foldl (merge_given n x) target ss" by blast
    have "file_gives C fl w None env w1" using load_source_gives_none [OF r [unfolded y Inl]] .
    then have "files_give C (fl # files) w ((None, env) # ss) w'" using ss(1) by (rule More_Files)
    then show ?thesis using ss(2,3) by (intro exI [of _ "(None, env) # ss"]) (simp add: given_ok_def)
  next
    case (Inr s)
    obtain v w2 where v: "(if i then interpolate_value (cf_shell C) (JObject s) w1 else (JObject s, w1)) = (v, w2)" by (rule prod.exhaust)
    have gives: "file_gives C fl w (Some (object_of v)) env w2" using load_source_gives [OF assms(1) r [unfolded y Inr] v] .
    have s: "json_ok (JObject s)" using load_source_ok [OF assms(1)] r y Inr by blast
    obtain s' where s': "v = JObject s'"
      using v interpolated_object [of "cf_shell C" s w1] by (cases i) auto
    then have "json_ok (JObject s')"
      using v s interpolate_value_ok(1) [OF s, of "cf_shell C" w1] by (cases i) (auto simp del: interpolate_value.simps)
    moreover have "merge_files C n x (merge_source n x env target s') files w2 = (Inr m, w')"
      using Cons.prems r y Inr v s' by (simp del: interpolate_value.simps)
    from Cons.IH [OF this] obtain ss where ss: "files_give C files w2 ss w'" "given_ok ss"
      "m = foldl (merge_given n x) (merge_source n x env target s') ss" by blast
    moreover have "files_give C (fl # files) w ((Some s', env) # ss) w'" using More_Files [OF gives ss(1)] s' by simp
    ultimately show ?thesis by (intro exI [of _ "(Some s', env) # ss"]) (auto simp: given_ok_def)
  qed
qed

section \<open>What a load gives\<close>

lemma array_of_merge:
  assumes "json_ok (JObject s)" "node_at (JObject (merge_source True x env t s)) p = Some (JArray a)"
  shows "(\<exists>b. node_at (JObject t) p = Some (JArray b)) \<or> (\<exists>b. node_at (JObject s) p = Some (JArray b))"
  using assms
proof (induction p arbitrary: t s)
  case (Cons k p)
  have ok: "obj_ok s" using Cons.prems(1) by simp
  show ?case
  proof (cases "map_of s k")
    case None
    then have "node_at (JObject t) (k # p) = Some (JArray a)"
      using Cons.prems(2) node_at_merge [OF ok, of True x env t k p] by (simp del: node_at.simps)
    then show ?thesis by blast
  next
    case (Some u)
    then have u: "json_ok u" using json_ok_value [OF Cons.prems(1)] by blast
    show ?thesis
    proof (cases "map_of t k")
      case None
      then have "node_at (JObject s) (k # p) = Some (JArray a)"
        using Cons.prems(2) node_at_merge [OF ok, of True x env t k p] Some by simp
      then show ?thesis by blast
    next
      case c: (Some c)
      have m: "node_at (merged_value True x env c u) p = Some (JArray a)"
        using Cons.prems(2) node_at_merge [OF ok, of True x env t k p] Some c by simp
      have "(\<exists>b. node_at c p = Some (JArray b)) \<or> (\<exists>b. node_at u p = Some (JArray b))"
      proof (cases "\<exists>t' s'. c = JObject t' \<and> u = JObject s'")
        case True
        then obtain t' s' where sides: "c = JObject t'" "u = JObject s'" by blast
        have "node_at (JObject (merge_source True x env t' s')) p = Some (JArray a)" using m sides by simp
        from Cons.IH [OF _ this] show ?thesis using u unfolding sides by blast
      next
        case False
        then show ?thesis using m
          by (cases "(True, x, env, c, u)" rule: merged_value.cases) (auto split: if_splits, (cases p; simp)+)
      qed
      then show ?thesis using Some c by simp
    qed
  qed
qed simp

lemma arrays_of_given:
  assumes "given_ok ss" "\<forall>t. (\<exists>env. (Some t, env) \<in> set ss) \<longrightarrow> (\<nexists>a. node_at (JObject t) p = Some (JArray a))"
    and "\<nexists>a. node_at (JObject t0) p = Some (JArray a)"
  shows "\<nexists>a. node_at (JObject (foldl (merge_given True x) t0 ss)) p = Some (JArray a)"
  using assms
proof (induction ss arbitrary: t0)
  case (Cons e ss)
  obtain s env where e: "e = (s, env)" by (cases e)
  have step: "\<nexists>a. node_at (JObject (merge_given True x t0 e)) p = Some (JArray a)"
  proof (cases s)
    case (Some s')
    then show ?thesis using Cons.prems e array_of_merge [of s' x env t0 p] by (auto simp: given_ok_def)
  qed (use Cons.prems(3) e in simp)
  show ?case using Cons.IH [OF _ _ step] Cons.prems(1,2) by (auto simp: given_ok_def)
qed simp

lemma untouched_by_given:
  assumes "given_ok ss" "\<forall>t. (\<exists>env. (Some t, env) \<in> set ss) \<longrightarrow> says_nothing t p"
  shows "node_at (JObject (foldl (merge_given True x) t0 ss)) p = node_at (JObject t0) p"
  using assms
proof (induction ss arbitrary: t0)
  case (Cons e ss)
  obtain s env where e: "e = (s, env)" by (cases e)
  have "node_at (JObject (merge_given True x t0 e)) p = node_at (JObject t0) p"
  proof (cases s)
    case (Some s')
    then show ?thesis using Cons.prems e merge_source_leaves [of s' p x env t0] by (auto simp: given_ok_def)
  qed (use e in simp)
  then show ?case using Cons.IH [of "merge_given True x t0 e"] Cons.prems by (auto simp: given_ok_def)
qed simp

lemma last_given_decides:
  assumes "given_ok (before @ (Some s, env) # after)" "node_at (JObject s) p = Some v" "is_scalar v"
    and "\<forall>t. (\<exists>env. (Some t, env) \<in> set before) \<longrightarrow> (\<nexists>a. node_at (JObject t) p = Some (JArray a))"
    and "\<forall>t. (\<exists>env. (Some t, env) \<in> set after) \<longrightarrow> says_nothing t p"
  shows "node_at (JObject (foldl (merge_given True x) [] (before @ (Some s, env) # after))) p = Some v"
proof -
  let ?t = "foldl (merge_given True x) [] before"
  have oks: "given_ok before" "json_ok (JObject s)" "given_ok after" using assms(1) by (auto simp: given_ok_def)
  have "\<nexists>a. node_at (JObject []) p = Some (JArray a)" by (cases p) auto
  from arrays_of_given [OF oks(1) assms(4) this] have "\<nexists>a. node_at (JObject ?t) p = Some (JArray a)" .
  then have "node_at (JObject (merge_source True x env ?t s)) p = Some v"
    using merge_source_says [OF oks(2) assms(2,3)] by blast
  then show ?thesis using untouched_by_given [OF oks(3) assms(5), of x "merge_source True x env ?t s"] by simp
qed

text \<open>Without nested merging and without extending arrays a later file replaces the values of its keys.\<close>

lemma flat_given:
  assumes "given_ok ss"
  shows "map_of (foldl (merge_given False False) t0 ss) k =
    foldl (\<lambda>r (s, env). case s of None \<Rightarrow> r | Some s \<Rightarrow> (case map_of s k of None \<Rightarrow> r | Some v \<Rightarrow> Some v)) (map_of t0 k) ss"
  using assms
proof (induction ss arbitrary: t0)
  case (Cons e ss)
  obtain s env where e: "e = (s, env)" by (cases e)
  have flat: "merged_value False False sp c v = v" for sp c v by (cases "(False, False, sp, c, v)" rule: merged_value.cases) auto
  have ok: "given_ok ss" using Cons.prems by (auto simp: given_ok_def)
  show ?case
  proof (cases s)
    case (Some s')
    then have "obj_ok s'" using Cons.prems e by (auto simp: given_ok_def)
    then show ?thesis using Cons.IH [OF ok, of "merge_source False False env t0 s'"] e Some
      by (auto simp: map_of_merge_source flat split: option.splits)
  qed (use Cons.IH [OF ok] e in simp)
qed simp

text \<open>
  C32: what a configuration is loaded from. Every file gives, at its turn, nothing, its entries, or its values with the texts and the
  keys interpolated, where of keys which become equal the last entry is kept. With nested merging, a value which is
  a text, a number or a boolean is the one the last file which says anything at its path gives there, whatever else the files hold
  (an array there before may be extended instead); a path no file says anything at is not set. Without nested merging and extended
  arrays, each key has the value of the last file which has it. That object, and nothing else, is what is deserialized.
\<close>

theorem loaded_values_decided:
  assumes "parsers_ok C" "load_parse_config_files C n x files w = (Inr result, w')"
  shows "\<exists>ss m. files_give C files w ss w' \<and> deserialize_final (cf_digit C) (cf_deserialize C) (JObject m) = Inr result \<and>
    (n \<longrightarrow>
      (\<forall>before s env after p v. ss = before @ (Some s, env) # after \<and> node_at (JObject s) p = Some v \<and> is_scalar v \<and>
         (\<forall>t. (\<exists>env. (Some t, env) \<in> set before) \<longrightarrow> (\<nexists>a. node_at (JObject t) p = Some (JArray a))) \<and>
         (\<forall>t. (\<exists>env. (Some t, env) \<in> set after) \<longrightarrow> says_nothing t p) \<longrightarrow>
         node_at (JObject m) p = Some v) \<and>
      (\<forall>p. p \<noteq> [] \<and> (\<forall>t. (\<exists>env. (Some t, env) \<in> set ss) \<longrightarrow> says_nothing t p) \<longrightarrow> node_at (JObject m) p = None)) \<and>
    (\<not> n \<and> \<not> x \<longrightarrow>
      (\<forall>k. map_of m k = foldl (\<lambda>r (s, env). case s of None \<Rightarrow> r | Some s \<Rightarrow>
         (case map_of s k of None \<Rightarrow> r | Some v \<Rightarrow> Some v)) None ss))"
proof -
  obtain m where m: "merge_files C n x [] files w = (Inr m, w')" "deserialize_final (cf_digit C) (cf_deserialize C) (JObject m) = Inr result"
    using assms(2) by (auto simp: load_parse_config_files_def split: sum.splits prod.splits)
  obtain ss where ss: "files_give C files w ss w'" "given_ok ss" "m = foldl (merge_given n x) [] ss"
    using merge_files_gives [OF assms(1) m(1)] by blast
  have none: "node_at (JObject []) p = None" if "p \<noteq> []" for p using that by (cases p) auto
  have "node_at (JObject m) p = Some v"
    if "n" "ss = before @ (Some s, env) # after" "node_at (JObject s) p = Some v" "is_scalar v"
      "\<forall>t. (\<exists>env. (Some t, env) \<in> set before) \<longrightarrow> (\<nexists>a. node_at (JObject t) p = Some (JArray a))"
      "\<forall>t. (\<exists>env. (Some t, env) \<in> set after) \<longrightarrow> says_nothing t p" for before s env after p v
    using last_given_decides [OF ss(2) [unfolded that(2)] that(3-6), of x] that(1) unfolding ss(3) that(2) by simp
  moreover have "node_at (JObject m) p = None" if "n" "p \<noteq> []" "\<forall>t. (\<exists>env. (Some t, env) \<in> set ss) \<longrightarrow> says_nothing t p" for p
    using untouched_by_given [OF ss(2) that(3), of x "[]"] that(1) none [OF that(2)] unfolding ss(3) by simp
  moreover have "\<not> n \<and> \<not> x \<longrightarrow> (\<forall>k. map_of m k = foldl (\<lambda>r (s, env). case s of None \<Rightarrow> r | Some s \<Rightarrow>
         (case map_of s k of None \<Rightarrow> r | Some v \<Rightarrow> Some v)) None ss)"
    using flat_given [OF ss(2), of "[]"] unfolding ss(3) by auto
  ultimately show ?thesis using m(2) ss(1) by (intro exI [of _ ss] exI [of _ m]) blast
qed

section \<open>Commands\<close>

text \<open>The commands which the local files that are interpolated name.\<close>

definition local_commands :: "('w, 't) config_env \<Rightarrow> string list \<Rightarrow> string set" where
  "local_commands C files = \<Union> {commands_of (JObject m) | m fl. fl \<in> set files \<and> \<not> is_env_file fl \<and>
     \<not> (cf_cicada C \<and> is_cicada_path fl) \<and> load_parse_config_file C fl = Inr m}"

lemma load_source_interpolated:
  assumes "load_source C fl w = (Inr (Inr m, True, e), w')"
  shows "\<not> is_env_file fl \<and> \<not> (cf_cicada C \<and> is_cicada_path fl) \<and> load_parse_config_file C fl = Inr m"
  using assms cicada_parsed [of fl]
  by (auto simp: load_source_def Let_def map_sum_Inr split: if_splits option.splits prod.splits sum.splits)

lemma other_shell_sel:
  "cf_open (C\<lparr>cf_shell := B\<rparr>) = cf_open C" "cf_read_to_string (C\<lparr>cf_shell := B\<rparr>) = cf_read_to_string C"
  "cf_cicada (C\<lparr>cf_shell := B\<rparr>) = cf_cicada C" "cf_cicada_load (C\<lparr>cf_shell := B\<rparr>) = cf_cicada_load C"
  by simp_all

lemma other_shell_parse: "parse_config_contents (C\<lparr>cf_shell := B\<rparr>) = parse_config_contents C"
  by (auto simp: parse_config_contents_def fun_eq_iff split: option.splits)

lemma other_shell_source: "load_source (C\<lparr>cf_shell := B\<rparr>) fl w = load_source C fl w"
  unfolding load_source_def load_parse_config_file_def other_shell_parse other_shell_sel ..

lemma merge_files_same:
  assumes "same_on (local_commands C files) (cf_shell C) B"
  shows "merge_files C n x target files w = merge_files (C\<lparr>cf_shell := B\<rparr>) n x target files w"
  using assms
proof (induction files arbitrary: target w)
  case (Cons fl files)
  have rest: "same_on (local_commands C files) (cf_shell C) B"
    using Cons.prems by (rule same_on_subset) (auto simp: local_commands_def)
  have same: "interpolate_value (cf_shell C) (JObject m) v = interpolate_value B (JObject m) v"
    if "load_source C fl w = (Inr (Inr m, True, e), w1)" for m e w1 v
  proof -
    have "commands_of (JObject m) \<subseteq> local_commands C (fl # files)"
      using load_source_interpolated [OF that] unfolding local_commands_def by auto
    then show ?thesis by (intro interpolate_value_same(1) same_on_subset [OF Cons.prems])
  qed
  show ?case
    using Cons.IH [OF rest] same
    by (auto simp: other_shell_source simp del: interpolate_value.simps split: prod.splits sum.splits)
qed simp

text \<open>
  C33: the only commands a load runs are those whose \<open>$(name)\<close> a local toml, yaml or json file has in a value or key, and the
  lookup of variables; nothing in an env fl, in a cicada source, in a variable or in the output of a command is run.
\<close>

theorem load_runs_named_commands:
  assumes "same_on (local_commands C files) (cf_shell C) B"
  shows "load_parse_config_files C n x files w = load_parse_config_files (C\<lparr>cf_shell := B\<rparr>) n x files w"
  unfolding load_parse_config_files_def merge_files_same [OF assms] by (simp split: prod.splits sum.splits)

section \<open>A demonstration\<close>

text \<open>A directory which includes itself, with a json file; an env file is listed.\<close>

definition demo_config_env :: "(nat, json) config_env" where
  "demo_config_env = \<lparr>cf_shell = demo_shell ''pwned'', cf_lower = (\<lambda>s. if s = ''PORT'' then ''port'' else s), cf_cicada = False,
     cf_cicada_load = (\<lambda>_ _ w. (Inl ''no'', w)),
     cf_metadata = (\<lambda>p. if p = ''/c'' then Some Directory else if p = ''/c/a.json'' \<or> p = ''/.env'' then Some Regular else None),
     cf_canonicalize = (\<lambda>p. if p \<in> {''/c'', ''/c/a.json'', ''/.env''} then Some p else if p = ''/c/.'' then Some ''/c'' else None),
     cf_read_dir = (\<lambda>p. if p = ''/c'' then Some [(''/c/a.json'', Some ''a.json'')] else None),
     cf_open = (\<lambda>_. True), cf_read_to_string = (\<lambda>p. if p = ''/.env'' then Some ''PORT=$(rm)'' else if p = ''/c/a.json'' then Some ''{}''
       else if p = ''/c/.include'' then Some ''.'' else None),
     cf_wildcard = (\<lambda>_. Inr (\<lambda>_. True)), cf_from_toml = (\<lambda>_. Inl (''toml'', None)), cf_from_yaml = (\<lambda>_. Inl ''yaml''),
     cf_from_json = (\<lambda>_. Inr [(''at'', JString ''$(date)'')]), cf_deserialize = Inr, cf_digit = (\<lambda>_. False)\<rparr>"

definition demo_loader :: config_loader where
  "demo_loader = \<lparr>lo_paths = [''/c'', ''/.env''], lo_match_wildcards = [], lo_include_file_name = ''.include'', lo_merge_nested = True,
     lo_extend_array = False\<rparr>"

lemma demo_directories: "finite (directories demo_config_env)"
proof -
  have "directories demo_config_env \<subseteq> {''/c''}"
    by (auto simp: directories_def is_dir_def demo_config_env_def split: if_splits)
  then show ?thesis by (rule finite_subset) simp
qed

text \<open>A link to a file which is listed too.\<close>

definition demo_links :: "(nat, json) config_env" where
  "demo_links = demo_config_env\<lparr>
     cf_metadata := (\<lambda>p. if p \<in> {''/a.json'', ''/link.json'', ''/.env''} then Some Regular else None),
     cf_canonicalize := (\<lambda>p. if p \<in> {''/a.json'', ''/link.json''} then Some ''/a.json'' else if p = ''/.env'' then Some p else None)\<rparr>"

theorem config_load_returns_witness:
  "\<exists>fs. find_files demo_links [] ''.include'' [] [''/a.json'', ''/link.json'', ''/.env''] = Some (Inr fs) \<and> length fs = 2 \<and>
     (\<exists>q \<in> snd ` set fs. q = ''/link.json'') \<and> \<not> same_file demo_links (snd (fs ! 0)) (snd (fs ! 1))"
proof -
  let ?L = "demo_loader\<lparr>lo_paths := [''/a.json'', ''/link.json'', ''/.env'']\<rparr>"
  have "directories demo_links = {}" by (auto simp: directories_def is_dir_def demo_links_def split: if_splits)
  then have fin: "finite (directories demo_links)" by simp
  have types: "has_config_type ''/link.json''"
    by (simp add: has_config_type_def path_extension_def path_file_name_def path_components_def to_ascii_lowercase_def ascii_lower_def
        is_ascii_upper_def Let_def)
  have run: "find_files demo_links [] ''.include'' [] [''/a.json'', ''/link.json'', ''/.env''] =
      Some (Inr [(''/a.json'', ''/link.json''), (''/.env'', ''/.env'')])"
    by (simp add: is_cicada_path_def dedupe_key_def push_file_def Let_def types demo_links_def)
  have L: "lo_include_file_name ?L = ''.include''" "lo_paths ?L = [''/a.json'', ''/link.json'', ''/.env'']" by (simp_all add: demo_loader_def)
  have spec: "find_files demo_links [] (lo_include_file_name ?L) [] (lo_paths ?L) = Some (Inr fs) \<Longrightarrow> 0 < (1::nat) \<and> 1 < length fs \<Longrightarrow>
      \<not> same_file demo_links (snd (fs ! 0)) (snd (fs ! 1))" for fs
    using config_load_returns [OF fin, of ?L 0] by blast
  have "\<not> same_file demo_links ''/link.json'' ''/.env''" using spec [unfolded L, OF run] by simp
  then show ?thesis using run by simp
qed

lemma demo_parsers: "parsers_ok demo_config_env"
  by (auto simp: parsers_ok_def demo_config_env_def obj_ok_def)

lemma demo_json: "load_parse_config_file demo_config_env ''/c/a.json'' = Inr [(''at'', JString ''$(date)'')]"
proof -
  have "to_ascii_lowercase ''json'' = ''json''" "to_ascii_lowercase ''env'' = ''env''"
    by (simp_all add: to_ascii_lowercase_def ascii_lower_def is_ascii_upper_def)
  then show ?thesis
    by (simp add: load_parse_config_file_def parse_config_contents_def is_env_file_def path_file_name_def path_components_def
        path_extension_def Let_def eq_ignore_ascii_case_def demo_config_env_def)
qed

text \<open>Two files, the second of which sets a value of the first again.\<close>

definition demo_two :: "(nat, json) config_env" where
  "demo_two = demo_config_env\<lparr>cf_read_to_string := Some,
     cf_from_json := (\<lambda>t. Inr (if t = ''/a.json'' then demo_target else demo_source))\<rparr>"

lemma demo_two_parsers: "parsers_ok demo_two"
  using demo_sides_ok by (auto simp: parsers_ok_def demo_two_def demo_config_env_def)

lemma demo_two_files:
  "load_parse_config_file demo_two ''/a.json'' = Inr demo_target" "load_parse_config_file demo_two ''/b.json'' = Inr demo_source"
  "\<not> is_env_file ''/a.json''" "\<not> is_env_file ''/b.json''" "\<not> cf_cicada demo_two"
proof -
  have "to_ascii_lowercase ''json'' = ''json''" "to_ascii_lowercase ''env'' = ''env''"
    by (simp_all add: to_ascii_lowercase_def ascii_lower_def is_ascii_upper_def)
  then show "load_parse_config_file demo_two ''/a.json'' = Inr demo_target" "load_parse_config_file demo_two ''/b.json'' = Inr demo_source"
    "\<not> is_env_file ''/a.json''" "\<not> is_env_file ''/b.json''" "\<not> cf_cicada demo_two"
    by (simp_all add: load_parse_config_file_def parse_config_contents_def is_env_file_def path_file_name_def path_components_def
        path_extension_def Let_def eq_ignore_ascii_case_def demo_two_def demo_config_env_def)
qed

lemma demo_two_run: "\<exists>m w. load_parse_config_files demo_two True False [''/a.json'', ''/b.json''] 0 = (Inr m, w)"
proof -
  have source: "load_source demo_two f w = (Inr (load_parse_config_file demo_two f, \<not> is_env_file f, is_env_file f), w)" for f w
    by (simp add: load_source_def demo_two_files(5))
  have final: "deserialize_final (cf_digit demo_two) (cf_deserialize demo_two) v = Inr v" for v
    by (simp add: deserialize_final_def demo_two_def demo_config_env_def)
  obtain a w1 where a: "interpolate_value (cf_shell demo_two) (JObject demo_target) 0 = (JObject a, w1)"
    using interpolated_object [of "cf_shell demo_two" demo_target "0 :: nat"] by (auto simp del: interpolate_value.simps)
  obtain b w2 where b: "interpolate_value (cf_shell demo_two) (JObject demo_source) w1 = (JObject b, w2)"
    using interpolated_object [of "cf_shell demo_two" demo_source w1] by (auto simp del: interpolate_value.simps)
  show ?thesis by (simp add: load_parse_config_files_def source demo_two_files a b final del: interpolate_value.simps)
qed

inductive_cases interpolated_elims:
  "interpolated S (JNumber n) w v w'" "interpolated S (JObject m) w v w'"
  "all_interpolated S [] w vs w'" "all_interpolated S (v # vs) w vs' w'"

lemma texts_read_plainly:
  "texts_read S ks w ks' w' \<Longrightarrow> list_all (\<lambda>k. \<not> needs_interpolation k) ks \<Longrightarrow> ks' = ks"
  by (induction rule: texts_read.induct) (auto simp: interpolate_text_plain)

lemma plain_object:
  assumes "interpolated S (JObject m) w v w'" "list_all (\<lambda>k. \<not> needs_interpolation k) (map fst m)"
  shows "\<exists>m' vs w1. v = JObject m' \<and> all_interpolated S (map snd m) w vs w1 \<and>
    (\<forall>k. map_of m' k = map_of (rev (zip (map fst m) vs)) k)"
  using assms by (elim interpolated_elims) (auto dest!: texts_read_plainly)

lemma plain_number: "interpolated S (JNumber n) w v w' \<Longrightarrow> v = JNumber n"
  by (elim interpolated_elims) auto

inductive_cases files_giveE: "files_give C [] w ss w'" "files_give C (fl # fls) w ss w'"

lemma demo_two_gives:
  assumes "file_gives demo_two fl w s env w'" "load_parse_config_file demo_two fl = Inr m" "\<not> is_env_file fl"
  shows "\<exists>m'. s = Some m' \<and> interpolated (cf_shell demo_two) (JObject m) w (JObject m') w'"
  using assms demo_two_files(5) by (auto elim: file_gives.cases)

lemma demo_plain_keys:
  "\<not> needs_interpolation ''db''" "\<not> needs_interpolation ''hosts''" "\<not> needs_interpolation ''host''" "\<not> needs_interpolation ''port''"
  by (simp_all add: needs_interpolation_def find_sub.simps)

lemma demo_source_port:
  assumes "interpolated S (JObject demo_source) w (JObject b) w'"
  shows "node_at (JObject b) [''db'', ''port''] = Some (JNumber ''2'')"
proof -
  obtain vs w1 where vs: "all_interpolated S [JObject [(''port'', JNumber ''2'')], JString ''b''] w vs w1"
    "\<forall>k. map_of b k = map_of (rev (zip [''db'', ''hosts''] vs)) k"
    using plain_object [OF assms] by (auto simp: demo_source_def demo_plain_keys)
  from vs(1) obtain d h w2 where d: "vs = [d, h]" "interpolated S (JObject [(''port'', JNumber ''2'')]) w d w2"
    by (auto elim!: interpolated_elims(3,4))
  obtain m us w3 where m: "d = JObject m" "all_interpolated S [JNumber ''2''] w us w3" "\<forall>k. map_of m k = map_of (rev (zip [''port''] us)) k"
    using plain_object [OF d(2)] by (auto simp: demo_plain_keys)
  from m(2) have "us = [JNumber ''2'']" by (auto elim!: interpolated_elims(3,4) dest!: plain_number)
  then show ?thesis using vs(2) m(1,3) by (simp add: d(1))
qed

lemma demo_target_port:
  assumes "interpolated S (JObject demo_target) w (JObject a) w'"
  shows "node_at (JObject a) [''db'', ''port''] = Some (JNumber ''1'')"
proof -
  obtain vs w1 where vs: "all_interpolated S [JObject [(''host'', JString ''h''), (''port'', JNumber ''1'')], JArray [JString ''a'']] w vs w1"
    "\<forall>k. map_of a k = map_of (rev (zip [''db'', ''hosts''] vs)) k"
    using plain_object [OF assms] by (auto simp: demo_target_def demo_plain_keys)
  from vs(1) obtain d h w2 where d: "vs = [d, h]" "interpolated S (JObject [(''host'', JString ''h''), (''port'', JNumber ''1'')]) w d w2"
    by (auto elim!: interpolated_elims(3,4))
  obtain m us w3 where m: "d = JObject m" "all_interpolated S [JString ''h'', JNumber ''1''] w us w3"
    "\<forall>k. map_of m k = map_of (rev (zip [''host'', ''port''] us)) k"
    using plain_object [OF d(2)] by (auto simp: demo_plain_keys)
  from m(2) obtain u where "us = [u, JNumber ''1'']" by (auto elim!: interpolated_elims(3,4) dest!: plain_number)
  then show ?thesis using vs(2) m(1,3) by (simp add: d(1))
qed

theorem loaded_values_decided_witness:
  "\<exists>m w'. load_parse_config_files demo_two True False [''/a.json'', ''/b.json''] 0 = (Inr (JObject m), w') \<and>
     node_at (JObject m) [''db'', ''port''] = Some (JNumber ''2'')"
proof -
  obtain r w' where run: "load_parse_config_files demo_two True False [''/a.json'', ''/b.json''] 0 = (Inr r, w')" using demo_two_run by blast
  obtain ss m where ss: "files_give demo_two [''/a.json'', ''/b.json''] 0 ss w'"
    "deserialize_final (cf_digit demo_two) (cf_deserialize demo_two) (JObject m) = Inr r"
    "\<forall>before s env after p v. ss = before @ (Some s, env) # after \<and> node_at (JObject s) p = Some v \<and> is_scalar v \<and>
         (\<forall>t. (\<exists>env. (Some t, env) \<in> set before) \<longrightarrow> (\<nexists>a. node_at (JObject t) p = Some (JArray a))) \<and>
         (\<forall>t. (\<exists>env. (Some t, env) \<in> set after) \<longrightarrow> says_nothing t p) \<longrightarrow> node_at (JObject m) p = Some v"
    using loaded_values_decided [OF demo_two_parsers run] by blast
  from ss(1) obtain s1 e1 w1 s2 e2 where two: "ss = [(s1, e1), (s2, e2)]" "file_gives demo_two ''/a.json'' 0 s1 e1 w1"
    "file_gives demo_two ''/b.json'' w1 s2 e2 w'"
    by (auto elim!: files_giveE)
  obtain a b where a: "s1 = Some a" "interpolated (cf_shell demo_two) (JObject demo_target) 0 (JObject a) w1"
    and b: "s2 = Some b" "interpolated (cf_shell demo_two) (JObject demo_source) w1 (JObject b) w'"
    using demo_two_gives [OF two(2) demo_two_files(1,3)] demo_two_gives [OF two(3) demo_two_files(2,4)] that by (elim exE conjE)
  have at_b: "node_at (JObject b) [''db'', ''port''] = Some (JNumber ''2'')" using demo_source_port [OF b(2)] .
  have at_a: "node_at (JObject a) [''db'', ''port''] = Some (JNumber ''1'')" using demo_target_port [OF a(2)] .
  have "node_at (JObject m) [''db'', ''port''] = Some (JNumber ''2'')"
  proof (rule ss(3) [rule_format], intro conjI)
    show "ss = [(s1, e1)] @ (Some b, e2) # []" by (simp add: two(1) b(1))
  qed (use at_a at_b a(1) in simp_all)
  moreover have "r = JObject m" using ss(2) by (simp add: deserialize_final_def demo_two_def demo_config_env_def)
  ultimately show ?thesis using run by blast
qed

text \<open>The env file's value is not run, the json file's is.\<close>

lemma demo_local_commands: "local_commands demo_config_env [''/c/a.json'', ''/.env''] \<subseteq> {''date''}"
proof -
  have "is_env_file ''/.env''" by (simp add: is_env_file_def path_file_name_def path_components_def)
  moreover have "closed_by CHR '')'' ''date)'' = Some (''date'', [])"
    by (simp add: closed_by_def is_word_char_def is_ascii_alnum_def is_ascii_upper_def is_ascii_lower_def is_ascii_digit_def)
  ultimately show ?thesis using demo_json by (auto simp: local_commands_def commands_in_def)
qed

theorem load_runs_named_commands_witness:
  "load_parse_config_files demo_config_env True False [''/c/a.json'', ''/.env''] 0 =
     load_parse_config_files (demo_config_env\<lparr>cf_shell := demo_other\<rparr>) True False [''/c/a.json'', ''/.env''] 0"
proof -
  have "cf_shell demo_config_env = demo_shell ''pwned''" by (simp add: demo_config_env_def)
  then show ?thesis using same_on_subset [OF demo_same demo_local_commands] by (intro load_runs_named_commands) simp
qed

end
