(* ===== verification/Encryption.thy ===== *)
theory Encryption
  imports Flow Rand Providers
begin

text \<open>
  Symmetric encryption, \<^verbatim>\<open>crates/encryption\<close>: keys, the format marker of a ciphertext, data and
  envelope encryption and their text forms. The ciphers (\<^verbatim>\<open>chacha20poly1305\<close>,
  \<^verbatim>\<open>aes_gcm\<close>) and base64url (\<^verbatim>\<open>data_encoding\<close>) are parameters. An error is its
  outermost message. Wiping memory has no counterpart, but for the buffer \<open>from_bytes\<close> gives back.
\<close>

section \<open>Ciphers\<close>

datatype cipher = X_Cha_Cha20_Poly1305 | Aes256_Gcm

definition ALL_CIPHERS :: "cipher list" where
  "ALL_CIPHERS = [X_Cha_Cha20_Poly1305, Aes256_Gcm]"

fun marker :: "cipher \<Rightarrow> string" where
  "marker X_Cha_Cha20_Poly1305 = ''xchacha20poly1305''"
| "marker Aes256_Gcm = ''aes256gcm''"

definition from_marker :: "string \<Rightarrow> cipher option" where
  "from_marker m = List.find (\<lambda>c. marker c = m) ALL_CIPHERS"

fun nonce_len :: "cipher \<Rightarrow> nat" where
  "nonce_len X_Cha_Cha20_Poly1305 = 24"
| "nonce_len Aes256_Gcm = 12"

definition mark :: "cipher \<Rightarrow> string \<Rightarrow> string" where
  "mark c payload = ''$'' @ marker c @ ''$'' @ payload"

definition unknown_cipher :: "string \<Rightarrow> string" where
  "unknown_cipher m =
     (let shown = concat (take 32 (utf8_chars m));
          more = (if char_count m > 32 then [CHR 0xE2, CHR 0x80, CHR 0xA6] else []) in
      ''Unknown cipher '' @ [CHR 0x27] @ shown @ more @ [CHR 0x27])"

definition parse_cipher :: "string \<Rightarrow> string + cipher \<times> string" where
  "parse_cipher data = (case strip_prefix ''$'' data of
     None \<Rightarrow> Inr (X_Cha_Cha20_Poly1305, data)
   | Some rest \<Rightarrow>
       res_bind (ok_or ''Invalid ciphertext format marker'' (split_once (CHR ''$'') rest)) (\<lambda>(m, payload).
       res_bind (ok_or (unknown_cipher m) (from_marker m)) (\<lambda>c. Inr (c, payload))))"

section \<open>Keys\<close>

type_synonym octets = "8 word list"

record 'w enc_lib =
  el_base64_encode :: "octets \<Rightarrow> string"
  el_base64_decode :: "string \<Rightarrow> octets option"
  el_random :: "'w source"
  el_seal :: "cipher \<Rightarrow> octets \<Rightarrow> octets \<Rightarrow> octets \<Rightarrow> octets \<Rightarrow> octets option"
  el_open :: "cipher \<Rightarrow> octets \<Rightarrow> octets \<Rightarrow> octets \<Rightarrow> octets \<Rightarrow> octets option"
  el_error :: string

datatype key = Key (as_bytes: octets)

definition KEY_LEN :: nat where "KEY_LEN = 32"

text \<open>The key, and what is left in the caller's buffer.\<close>

definition from_bytes :: "octets \<Rightarrow> key \<times> octets" where
  "from_bytes bytes = (Key bytes, replicate (length bytes) 0)"

definition from_slice :: "octets \<Rightarrow> key option" where
  "from_slice bytes = (if length bytes \<noteq> KEY_LEN then None else Some (Key bytes))"

definition try_generate :: "'w enc_lib \<Rightarrow> 'w \<Rightarrow> (string + key) \<times> 'w" where
  "try_generate E w = (case el_random E KEY_LEN w of
     (None, w) \<Rightarrow> (Inl ''Failed to read from the OS random source'', w)
   | (Some bytes, w) \<Rightarrow> (Inr (fst (from_bytes bytes)), w))"

definition from_base64url :: "'w enc_lib \<Rightarrow> string \<Rightarrow> string + key" where
  "from_base64url E encoded =
     res_bind (ok_or ''Invalid base64url encoding'' (el_base64_decode E encoded)) (\<lambda>decoded.
     ok_or ''Invalid decoded base64url bytes length'' (from_slice decoded))"

definition to_base64url :: "'w enc_lib \<Rightarrow> key \<Rightarrow> string" where
  "to_base64url E k = el_base64_encode E (as_bytes k)"

section \<open>Stored forms\<close>

record encrypted_data =
  ed_data :: string
  ed_nonce :: string

record envelope_encrypted_data =
  ev_key :: encrypted_data
  ev_data :: encrypted_data

definition check_text_part :: "string \<Rightarrow> string + unit" where
  "check_text_part part =
     (if part \<noteq> [] \<and> list_all (\<lambda>c. is_ascii_alnum c \<or> c \<in> set ''-_=$'') part then Inr ()
      else Inl ''Encrypted data has the wrong format'')"

definition encrypted_text :: "encrypted_data \<Rightarrow> string" where
  "encrypted_text e = ed_nonce e @ '':'' @ ed_data e"

definition encrypted_from_str :: "string \<Rightarrow> string + encrypted_data" where
  "encrypted_from_str s = (case split_on (CHR '':'') s of
     [nonce, data] \<Rightarrow>
       res_bind (check_text_part nonce) (\<lambda>_.
       res_bind (check_text_part data) (\<lambda>_. Inr \<lparr>ed_data = data, ed_nonce = nonce\<rparr>))
   | _ \<Rightarrow> Inl ''Encrypted data has the wrong format'')"

definition envelope_text :: "envelope_encrypted_data \<Rightarrow> string" where
  "envelope_text e = encrypted_text (ev_key e) @ '':'' @ encrypted_text (ev_data e)"

definition envelope_from_str :: "string \<Rightarrow> string + envelope_encrypted_data" where
  "envelope_from_str s = (case split_on (CHR '':'') s of
     [key_nonce, key_data, nonce, data] \<Rightarrow>
       res_bind (check_text_part key_nonce) (\<lambda>_.
       res_bind (check_text_part key_data) (\<lambda>_.
       res_bind (check_text_part nonce) (\<lambda>_.
       res_bind (check_text_part data) (\<lambda>_.
       Inr \<lparr>ev_key = \<lparr>ed_data = key_data, ed_nonce = key_nonce\<rparr>, ev_data = \<lparr>ed_data = data, ed_nonce = nonce\<rparr>\<rparr>))))
   | _ \<Rightarrow> Inl ''Envelope encrypted data has the wrong format'')"

section \<open>Encryption\<close>

definition nonce_array :: "cipher \<Rightarrow> octets \<Rightarrow> string + octets" where
  "nonce_array c nonce = (if length nonce = nonce_len c then Inr nonce else Inl ''Invalid nonce'')"

definition read_nonce :: "'w enc_lib \<Rightarrow> nat \<Rightarrow> 'w \<Rightarrow> (string + octets) \<times> 'w" where
  "read_nonce E n w = (case el_random E n w of
     (None, w) \<Rightarrow> (Inl ''Failed to read nonce from the OS random source'', w)
   | (Some nonce, w) \<Rightarrow> (Inr nonce, w))"

definition encrypt :: "'w enc_lib \<Rightarrow> octets \<Rightarrow> key \<Rightarrow> octets \<Rightarrow> cipher \<Rightarrow> 'w \<Rightarrow> (string + encrypted_data) \<times> 'w" where
  "encrypt E data k aad c =
     and_then (read_nonce E (nonce_len c)) (\<lambda>nonce.
     and_then (from_result (nonce_array c nonce)) (\<lambda>n.
     and_then (from_result (ok_or (''Encryption failed | '' @ el_error E) (el_seal E c (as_bytes k) n aad data))) (\<lambda>sealed.
     done_with \<lparr>ed_data = mark c (el_base64_encode E sealed), ed_nonce = el_base64_encode E nonce\<rparr>)))"

definition envelope_encrypt ::
  "'w enc_lib \<Rightarrow> octets \<Rightarrow> key \<Rightarrow> octets \<Rightarrow> cipher \<Rightarrow> 'w \<Rightarrow> (string + envelope_encrypted_data) \<times> 'w" where
  "envelope_encrypt E data master_key aad c =
     and_then (try_generate E) (\<lambda>key.
     and_then (encrypt E data key aad c) (\<lambda>data.
     and_then (encrypt E (as_bytes key) master_key aad c) (\<lambda>key.
     done_with \<lparr>ev_key = key, ev_data = data\<rparr>)))"

section \<open>Decryption\<close>

definition decrypt :: "'w enc_lib \<Rightarrow> encrypted_data \<Rightarrow> key \<Rightarrow> octets \<Rightarrow> string + octets" where
  "decrypt E e k aad =
     res_bind (parse_cipher (ed_data e)) (\<lambda>(c, payload).
     res_bind (ok_or ''Data is not valid base64url'' (el_base64_decode E payload)) (\<lambda>data.
     res_bind (ok_or ''Nonce is not valid base64url'' (el_base64_decode E (ed_nonce e))) (\<lambda>nonce.
     if length nonce \<noteq> nonce_len c then Inl ''Invalid nonce''
     else res_bind (nonce_array c nonce) (\<lambda>n.
       ok_or (''Decryption failed | '' @ el_error E) (el_open E c (as_bytes k) n aad data)))))"

definition envelope_decrypt :: "'w enc_lib \<Rightarrow> envelope_encrypted_data \<Rightarrow> key \<Rightarrow> octets \<Rightarrow> string + octets" where
  "envelope_decrypt E e master_key aad =
     res_bind (decrypt E (ev_key e) master_key aad) (\<lambda>key.
     res_bind (ok_or ''The envelope encryption key is not 32 bytes after decryption'' (from_slice key)) (\<lambda>key.
     decrypt E (ev_data e) key aad))"

section \<open>What is relied on\<close>

text \<open>
  Base64url decodes what it encoded, to texts of its alphabet with padding; other texts may decode as well, such as padded ones
  one after the other. A cipher opens exactly what it seals under the same key, nonce and associated data, and a sealed message
  has its tag. The random source fills the buffer.
\<close>

definition base64url_char :: "char \<Rightarrow> bool" where
  "base64url_char c \<longleftrightarrow> is_ascii_alnum c \<or> c \<in> set ''-_=''"

definition enc_laws :: "'w enc_lib \<Rightarrow> bool" where
  "enc_laws E \<longleftrightarrow>
     (\<forall>x. el_base64_decode E (el_base64_encode E x) = Some x) \<and>
     (\<forall>x. list_all base64url_char (el_base64_encode E x)) \<and> el_base64_encode E [] = [] \<and>
     (\<forall>c k n a m s. el_open E c k n a s = Some m \<longleftrightarrow> el_seal E c k n a m = Some s) \<and>
     (\<forall>c k n a m. el_seal E c k n a m \<noteq> Some []) \<and>
     (\<forall>n w b w'. el_random E n w = (Some b, w') \<longrightarrow> length b = n)"

lemma base64_decodes: "enc_laws E \<Longrightarrow> el_base64_decode E (el_base64_encode E x) = Some x"
  by (simp add: enc_laws_def)

lemma base64_inj: "enc_laws E \<Longrightarrow> el_base64_encode E x = el_base64_encode E y \<longleftrightarrow> x = y"
  using base64_decodes [of E x] base64_decodes [of E y] by (metis option.inject)

lemma base64_dollar:
  assumes "enc_laws E"
  shows "CHR ''$'' \<notin> set (el_base64_encode E x)"
proof -
  have "list_all base64url_char (el_base64_encode E x)" using assms by (simp add: enc_laws_def)
  moreover have "\<not> base64url_char (CHR ''$'')"
    by (simp add: base64url_char_def is_ascii_alnum_def is_ascii_digit_def is_ascii_upper_def is_ascii_lower_def)
  ultimately show ?thesis by (auto simp: list_all_iff)
qed

lemma open_iff: "enc_laws E \<Longrightarrow> el_open E c k n a s = Some m \<longleftrightarrow> el_seal E c k n a m = Some s"
  by (simp add: enc_laws_def)

section \<open>Markers\<close>

lemma marker_dollar: "CHR ''$'' \<notin> set (marker c)"
  by (cases c) auto

lemma from_marker_iff: "from_marker m = Some c \<longleftrightarrow> m = marker c"
  by (cases c) (auto simp: from_marker_def ALL_CIPHERS_def)

lemma parse_cipher_exact:
  "parse_cipher data = Inr (c, payload) \<longleftrightarrow>
     data = mark c payload \<or> c = X_Cha_Cha20_Poly1305 \<and> payload = data \<and> \<not> prefix ''$'' data"
proof (cases "strip_prefix ''$'' data")
  case None
  then have "\<not> prefix ''$'' data" by (simp add: strip_prefix_None_iff)
  moreover from this have "data \<noteq> mark c payload" by (auto simp: mark_def)
  ultimately show ?thesis using None by (auto simp: parse_cipher_def)
next
  case (Some rest)
  then have "data = ''$'' @ rest" by (simp add: strip_prefix_Some_iff)
  then show ?thesis using Some marker_dollar [of c]
    by (auto simp: parse_cipher_def res_bind_Inr_iff ok_or_Inr_iff split_once_Some_iff from_marker_iff mark_def)
qed

section \<open>Round trips\<close>

lemma check_text_part_iff:
  "check_text_part part = Inr u \<longleftrightarrow> part \<noteq> [] \<and> list_all (\<lambda>c. is_ascii_alnum c \<or> c \<in> set ''-_=$'') part"
  by (simp add: check_text_part_def)

lemma text_part_colon: "check_text_part part = Inr u \<Longrightarrow> CHR '':'' \<notin> set part"
  by (auto simp: check_text_part_iff list_all_iff is_ascii_alnum_def is_ascii_digit_def is_ascii_upper_def is_ascii_lower_def)

definition text_ok :: "encrypted_data \<Rightarrow> bool" where
  "text_ok e \<longleftrightarrow> check_text_part (ed_nonce e) = Inr () \<and> check_text_part (ed_data e) = Inr ()"

text \<open>The text forms hold exactly what can be printed.\<close>

lemma encrypted_from_str_iff: "encrypted_from_str s = Inr e \<longleftrightarrow> s = encrypted_text e \<and> text_ok e"
proof
  assume "encrypted_from_str s = Inr e"
  then have parts: "split_on (CHR '':'') s = [ed_nonce e, ed_data e]" and ok: "text_ok e"
    by (auto simp: encrypted_from_str_def text_ok_def res_bind_Inr_iff split: list.splits)
  show "s = encrypted_text e \<and> text_ok e"
    using join_on_split_on [of "CHR '':''" s] ok unfolding parts by (simp add: encrypted_text_def)
next
  assume e: "s = encrypted_text e \<and> text_ok e"
  then have "split_on (CHR '':'') s = [ed_nonce e, ed_data e]"
    using text_part_colon unfolding text_ok_def encrypted_text_def by (simp add: split_on_append_sep split_on_no_sep)
  then show "encrypted_from_str s = Inr e" using e by (simp add: encrypted_from_str_def text_ok_def)
qed

lemma envelope_from_str_iff:
  "envelope_from_str s = Inr e \<longleftrightarrow> s = envelope_text e \<and> text_ok (ev_key e) \<and> text_ok (ev_data e)"
proof
  assume "envelope_from_str s = Inr e"
  then have parts: "split_on (CHR '':'') s = [ed_nonce (ev_key e), ed_data (ev_key e), ed_nonce (ev_data e), ed_data (ev_data e)]"
    and ok: "text_ok (ev_key e)" "text_ok (ev_data e)"
    by (auto simp: envelope_from_str_def text_ok_def res_bind_Inr_iff split: list.splits)
  show "s = envelope_text e \<and> text_ok (ev_key e) \<and> text_ok (ev_data e)"
    using join_on_split_on [of "CHR '':''" s] ok unfolding parts by (simp add: envelope_text_def encrypted_text_def)
next
  assume e: "s = envelope_text e \<and> text_ok (ev_key e) \<and> text_ok (ev_data e)"
  then have "split_on (CHR '':'') s = [ed_nonce (ev_key e), ed_data (ev_key e), ed_nonce (ev_data e), ed_data (ev_data e)]"
    using text_part_colon unfolding text_ok_def envelope_text_def encrypted_text_def
    by (simp add: split_on_append_sep split_on_no_sep)
  then show "envelope_from_str s = Inr e" using e by (simp add: envelope_from_str_def text_ok_def)
qed

lemma base64_text_part:
  assumes "enc_laws E" "x \<noteq> []"
  shows "check_text_part (el_base64_encode E x) = Inr ()" "check_text_part (mark c (el_base64_encode E x)) = Inr ()"
proof -
  have "list_all base64url_char (el_base64_encode E x)" using assms(1) by (simp add: enc_laws_def)
  then have chars: "list_all (\<lambda>c. is_ascii_alnum c \<or> c \<in> set ''-_=$'') (el_base64_encode E x)"
    by (auto simp: list_all_iff base64url_char_def)
  have "el_base64_encode E x \<noteq> []" using base64_inj [OF assms(1), of x "[]"] assms by (simp add: enc_laws_def)
  then show "check_text_part (el_base64_encode E x) = Inr ()" using chars by (simp add: check_text_part_iff)
  show "check_text_part (mark c (el_base64_encode E x)) = Inr ()"
    using chars
    by (cases c) (simp_all add: check_text_part_iff mark_def is_ascii_alnum_def is_ascii_digit_def is_ascii_upper_def is_ascii_lower_def)
qed

lemma encrypt_result:
  assumes "enc_laws E" "encrypt E data k aad c w = (Inr e, w')"
  obtains nonce sealed where "el_seal E c (as_bytes k) nonce aad data = Some sealed" "length nonce = nonce_len c"
    "e = \<lparr>ed_data = mark c (el_base64_encode E sealed), ed_nonce = el_base64_encode E nonce\<rparr>"
  using assms(2)
  by (auto simp: encrypt_def and_then_ok nonce_array_def ok_or_Inr_iff split: if_splits)

lemma encrypt_decrypts:
  assumes "enc_laws E" "encrypt E data k aad c w = (Inr e, w')"
  shows "decrypt E e k aad = Inr data" "text_ok e"
proof -
  obtain nonce sealed where e: "el_seal E c (as_bytes k) nonce aad data = Some sealed" "length nonce = nonce_len c"
    "e = \<lparr>ed_data = mark c (el_base64_encode E sealed), ed_nonce = el_base64_encode E nonce\<rparr>"
    using encrypt_result [OF assms] .
  have "nonce \<noteq> []" using e(2) by (cases c) auto
  moreover have "sealed \<noteq> []" using e(1) assms(1) by (auto simp: enc_laws_def)
  ultimately show "text_ok e" using base64_text_part [OF assms(1)] e(3) by (simp add: text_ok_def)
  have "el_open E c (as_bytes k) nonce aad sealed = Some data" using e(1) open_iff [OF assms(1)] by simp
  moreover have "parse_cipher (mark c p) = Inr (c, p)" for p by (simp add: parse_cipher_exact)
  moreover have "el_base64_decode E (el_base64_encode E x) = Some x" for x using base64_decodes [OF assms(1)] .
  ultimately show "decrypt E e k aad = Inr data"
    using e(2,3) by (simp add: decrypt_def nonce_array_def)
qed

section \<open>What is decrypted\<close>

text \<open>The cipher of what was encrypted, named by no other marker.\<close>

lemma other_cipher_refused:
  assumes "parse_cipher d = Inr (c', p)" "el_base64_decode E p = Some sealed" "el_base64_decode E n = Some nonce"
    and "length nonce = nonce_len c" "c' \<noteq> c"
  shows "decrypt E \<lparr>ed_data = d, ed_nonce = n\<rparr> k aad = Inl ''Invalid nonce''"
  using assms by (cases c; cases c') (simp_all add: decrypt_def)

text \<open>
  C37: data is decrypted exactly when, under the key and associated data given, the nonce and payload its texts decode to are what
  the cipher its marker names seals the result to; data without a marker is taken for XChaCha20-Poly1305. What was encrypted
  is given back under its key and associated data; its marker can't be exchanged for that of the other
  cipher, nor be taken away from what AES-256-GCM sealed: both are refused for the nonce, under any key. Without the
  marker, what XChaCha20-Poly1305 sealed is given back as it was before there were markers.
\<close>

theorem decrypt_exact:
  assumes "enc_laws E"
  shows "(decrypt E e k aad = Inr m \<longleftrightarrow> (\<exists>c payload nonce sealed.
      (ed_data e = mark c payload \<or> c = X_Cha_Cha20_Poly1305 \<and> ed_data e = payload \<and> \<not> prefix ''$'' payload) \<and>
      el_base64_decode E payload = Some sealed \<and> el_base64_decode E (ed_nonce e) = Some nonce \<and> length nonce = nonce_len c \<and>
      el_seal E c (as_bytes k) nonce aad m = Some sealed)) \<and>
    (encrypt E data k aad c w = (Inr e, w') \<longrightarrow> decrypt E e k aad = Inr data \<and>
      (\<exists>payload. ed_data e = mark c payload \<and>
        (\<forall>c' k' aad'. c' \<noteq> c \<longrightarrow> decrypt E (e\<lparr>ed_data := mark c' payload\<rparr>) k' aad' = Inl ''Invalid nonce'') \<and>
        (\<forall>k' aad'. c = Aes256_Gcm \<longrightarrow> decrypt E (e\<lparr>ed_data := payload\<rparr>) k' aad' = Inl ''Invalid nonce'') \<and>
        (c = X_Cha_Cha20_Poly1305 \<longrightarrow> decrypt E (e\<lparr>ed_data := payload\<rparr>) k aad = Inr data)))"
proof (intro conjI impI)
  show "decrypt E e k aad = Inr m \<longleftrightarrow> (\<exists>c payload nonce sealed.
      (ed_data e = mark c payload \<or> c = X_Cha_Cha20_Poly1305 \<and> ed_data e = payload \<and> \<not> prefix ''$'' payload) \<and>
      el_base64_decode E payload = Some sealed \<and> el_base64_decode E (ed_nonce e) = Some nonce \<and> length nonce = nonce_len c \<and>
      el_seal E c (as_bytes k) nonce aad m = Some sealed)"
    by (auto simp: decrypt_def res_bind_Inr_iff ok_or_Inr_iff open_iff [OF assms] nonce_array_def parse_cipher_exact split: if_splits)
next
  assume run: "encrypt E data k aad c w = (Inr e, w')"
  show "decrypt E e k aad = Inr data" using encrypt_decrypts [OF assms run] by simp
  obtain nonce sealed where e: "el_seal E c (as_bytes k) nonce aad data = Some sealed" "length nonce = nonce_len c"
    "e = \<lparr>ed_data = mark c (el_base64_encode E sealed), ed_nonce = el_base64_encode E nonce\<rparr>"
    using encrypt_result [OF assms run] .
  let ?p = "el_base64_encode E sealed"
  have marked: "parse_cipher (mark c' ?p) = Inr (c', ?p)" for c' by (simp add: parse_cipher_exact)
  have plain: "parse_cipher ?p = Inr (X_Cha_Cha20_Poly1305, ?p)"
    using base64_dollar [OF assms, of sealed] by (auto simp: parse_cipher_exact prefix_def)
  note decodes = base64_decodes [OF assms]
  have "decrypt E (e\<lparr>ed_data := ?p\<rparr>) k aad = Inr data" if "c = X_Cha_Cha20_Poly1305"
    using e that plain decodes open_iff [OF assms, THEN iffD2] by (simp add: decrypt_def nonce_array_def ok_or_Inr_iff)
  then show "\<exists>payload. ed_data e = mark c payload \<and>
        (\<forall>c' k' aad'. c' \<noteq> c \<longrightarrow> decrypt E (e\<lparr>ed_data := mark c' payload\<rparr>) k' aad' = Inl ''Invalid nonce'') \<and>
        (\<forall>k' aad'. c = Aes256_Gcm \<longrightarrow> decrypt E (e\<lparr>ed_data := payload\<rparr>) k' aad' = Inl ''Invalid nonce'') \<and>
        (c = X_Cha_Cha20_Poly1305 \<longrightarrow> decrypt E (e\<lparr>ed_data := payload\<rparr>) k aad = Inr data)"
    using other_cipher_refused [OF marked decodes decodes e(2)] other_cipher_refused [OF plain decodes decodes e(2)]
    unfolding e(3) by (intro exI [of _ ?p]) auto
qed

section \<open>Envelopes\<close>

text \<open>
  C38: what envelope encryption gives can be printed, read back and decrypted with the master key and the associated data, and is
  the data again. It is encrypted under a data key of 32 bytes drawn from the random source, and what decrypting the stored key with
  the master key and the associated data gives are these bytes.
\<close>

theorem envelope_roundtrip:
  assumes "enc_laws E" "envelope_encrypt E data k aad c w = (Inr e, w')"
  shows "envelope_from_str (envelope_text e) = Inr e \<and> envelope_decrypt E e k aad = Inr data \<and>
    (\<exists>w1 dk. el_random E KEY_LEN w = (Some dk, w1) \<and> decrypt E (ev_key e) k aad = Inr dk \<and> length dk = KEY_LEN \<and>
      decrypt E (ev_data e) (Key dk) aad = Inr data)"
proof -
  obtain dk w1 w2 where key: "try_generate E w = (Inr dk, w1)" and data: "encrypt E data dk aad c w1 = (Inr (ev_data e), w2)"
    and wrapped: "encrypt E (as_bytes dk) k aad c w2 = (Inr (ev_key e), w')"
    using assms(2) by (auto simp: envelope_encrypt_def and_then_ok)
  have drawn: "el_random E KEY_LEN w = (Some (as_bytes dk), w1)"
    using key by (auto simp: try_generate_def from_bytes_def split: prod.splits option.splits)
  then have len: "length (as_bytes dk) = KEY_LEN" using assms(1) unfolding enc_laws_def by blast
  note d = encrypt_decrypts [OF assms(1) data] and k = encrypt_decrypts [OF assms(1) wrapped]
  have "envelope_decrypt E e k aad = Inr data"
    using d(1) k(1) len by (simp add: envelope_decrypt_def from_slice_def)
  then show ?thesis using envelope_from_str_iff [of "envelope_text e" e] d k drawn len by simp
qed

lemma key_roundtrip: "enc_laws E \<Longrightarrow> length (as_bytes k) = KEY_LEN \<Longrightarrow> from_base64url E (to_base64url E k) = Inr k"
  using base64_decodes [of E "as_bytes k"] by (simp add: from_base64url_def to_base64url_def from_slice_def)

section \<open>A demonstration\<close>

text \<open>A byte in unary, a cipher which only tags, and a random source of zeros.\<close>

definition demo_encode :: "octets \<Rightarrow> string" where
  "demo_encode x = concat (map (\<lambda>b. replicate (unat b) (CHR ''A'') @ ''B'') x)"

fun demo_decode :: "nat \<Rightarrow> string \<Rightarrow> octets option" where
  "demo_decode n [] = (if n = 0 then Some [] else None)"
| "demo_decode n (c # s) =
     (if c = CHR ''A'' \<and> n < 255 then demo_decode (Suc n) s
      else if c = CHR ''B'' then map_option (\<lambda>x. of_nat n # x) (demo_decode 0 s) else None)"

lemma demo_decode_letters: "n + k < 256 \<Longrightarrow> demo_decode n (replicate k (CHR ''A'') @ CHR ''B'' # s) =
    map_option (\<lambda>x. of_nat (n + k) # x) (demo_decode 0 s)"
  by (induction k arbitrary: n) (simp_all add: ac_simps)

lemma demo_decode_encoded: "demo_decode 0 (demo_encode x) = Some x"
proof (induction x)
  case (Cons b x)
  have "unat b < 256" using unsigned_less [of b] by simp
  then show ?case using Cons demo_decode_letters [of 0 "unat b" "demo_encode x"] by (simp add: demo_encode_def)
qed (simp add: demo_encode_def)

definition demo_tag :: "octets \<Rightarrow> octets \<Rightarrow> 8 word" where
  "demo_tag k a = sum_list k + sum_list a"

definition demo_enc :: "nat enc_lib" where
  "demo_enc = \<lparr>el_base64_encode = demo_encode, el_base64_decode = demo_decode 0, el_random = (\<lambda>n w. (Some (replicate n 0), Suc w)),
     el_seal = (\<lambda>c k n a m. Some (demo_tag k a # m)),
     el_open = (\<lambda>c k n a s. case s of [] \<Rightarrow> None | t # m \<Rightarrow> if t = demo_tag k a then Some m else None), el_error = ''Error''\<rparr>"

lemma demo_enc_laws: "enc_laws demo_enc"
proof -
  have "base64url_char (CHR ''A'')" "base64url_char (CHR ''B'')"
    by (simp_all add: base64url_char_def is_ascii_alnum_def is_ascii_upper_def)
  then have "list_all base64url_char (demo_encode x)" for x
    by (auto simp: demo_encode_def list_all_iff)
  moreover have "demo_decode 0 (demo_encode x) = Some x" for x by (rule demo_decode_encoded)
  ultimately show ?thesis
    by (auto simp: enc_laws_def demo_enc_def split: list.splits if_splits) (simp add: demo_encode_def)
qed

theorem decrypt_exact_witness:
  "\<exists>e w. encrypt demo_enc [5] (Key [1]) [2] Aes256_Gcm 0 = (Inr e, w) \<and> decrypt demo_enc e (Key [1]) [2] = Inr [5] \<and>
     decrypt demo_enc e (Key [1]) [3] \<noteq> Inr [5] \<and>
     (\<exists>payload. decrypt demo_enc (e\<lparr>ed_data := mark X_Cha_Cha20_Poly1305 payload\<rparr>) (Key [1]) [2] = Inl ''Invalid nonce'')"
proof -
  obtain e w where e: "encrypt demo_enc [5] (Key [1]) [2] Aes256_Gcm 0 = (Inr e, w)"
    by (simp add: encrypt_def and_then_def read_nonce_def nonce_array_def demo_enc_def from_result_def done_with_def)
  then have data: "ed_data e = mark Aes256_Gcm (demo_encode [3, 5])" "ed_nonce e = demo_encode (replicate 12 0)"
    by (auto simp: encrypt_def and_then_def read_nonce_def nonce_array_def demo_enc_def from_result_def done_with_def demo_tag_def)
  note exact = decrypt_exact [OF demo_enc_laws]
  have lib: "el_base64_decode demo_enc = demo_decode 0" "el_seal demo_enc c [1] n [3] [5] = Some [4, 5]" for c n
    by (simp_all add: demo_enc_def demo_tag_def)
  have "decrypt demo_enc e (Key [1]) [3] \<noteq> Inr [5]"
  proof
    assume "decrypt demo_enc e (Key [1]) [3] = Inr [5]"
    then obtain c payload sealed where c: "ed_data e = mark c payload \<or> ed_data e = payload \<and> \<not> prefix ''$'' payload"
      "demo_decode 0 payload = Some sealed" "Some [4, 5] = Some sealed"
      using exact [of e "Key [1]" "[3]" "[5]", THEN conjunct1] lib by auto
    have "payload = demo_encode [3, 5]" using c(1) by (cases c) (auto simp: data mark_def)
    then show False using c(2,3) demo_decode_encoded by auto
  qed
  then show ?thesis using exact [of e "Key [1]" "[2]" _ "[5]" Aes256_Gcm 0 w] e by blast
qed

theorem envelope_roundtrip_witness:
  "\<exists>e. envelope_encrypt demo_enc [5] (Key (replicate 32 1)) [2] Aes256_Gcm 0 = (Inr e, 3) \<and>
     envelope_decrypt demo_enc e (Key (replicate 32 1)) [2] = Inr [5]"
proof -
  obtain e where e: "envelope_encrypt demo_enc [5] (Key (replicate 32 1)) [2] Aes256_Gcm 0 = (Inr e, 3)"
    by (simp add: envelope_encrypt_def and_then_def try_generate_def encrypt_def read_nonce_def nonce_array_def demo_enc_def
        from_result_def done_with_def)
  then show ?thesis using envelope_roundtrip [OF demo_enc_laws e] by blast
qed

end
