(* ===== verification/WorkloadLocks.thy ===== *)
theory WorkloadLocks
  imports Workload
begin

text \<open>
  Exchanges and changes of a trusted issuer at the same time: the locks of
  \<^verbatim>\<open>auth/server/src/provider/workload.rs\<close> (\<open>lock_workload_user\<close>, \<open>lock_trusted_issuer\<close>) and what
  \<^verbatim>\<open>api/token.rs\<close> (\<open>complete_workload\<close>), \<^verbatim>\<open>api/manage/issuer.rs\<close>
  (\<open>update_issuer\<close>, \<open>delete_issuer\<close>) and \<open>sync_all_workload_users\<close> do under them, one await point
  at a time, in any order. A lock is the identity of its \<open>Arc\<close>; the maps of locks are one map, whose keys tell them apart. The
  locks are tokio's: who waits is served in the order of asking, so that an exchange waits behind a change which waits.
  The app's users and how it brings them in line are parameters; a call to the app which fails, or whose request is dropped,
  may have done any part of its work. Static issuers never change and are left out.
\<close>

section \<open>Tasks\<close>

datatype lock_key = Issuer_Lock string | Rule_Lock string string

text \<open>A sync of all issuers has the one it is at, as listed before, and the rest of the list.\<close>

datatype wl_work = Exchange string string | Change string | Sync_Listed trusted_issuer "trusted_issuer list"

fun work_issuer :: "wl_work \<Rightarrow> string" where
  "work_issuer (Exchange i r) = i"
| "work_issuer (Change i) = i"
| "work_issuer (Sync_Listed c cs) = ti_id c"

fun work_rule :: "wl_work \<Rightarrow> string" where
  "work_rule (Exchange i r) = r"
| "work_rule _ = []"

text \<open>Whether it takes the lock of the issuer for itself.\<close>

fun is_change :: "wl_work \<Rightarrow> bool" where
  "is_change (Exchange i r) = False"
| "is_change _ = True"

text \<open>Where a task is, with the locks it waits for or holds: the issuer's first, then the rule's.\<close>

datatype wl_pc =
    Begun
  | Wait_Issuer nat
  | Got_Issuer nat
  | Wait_Rule nat nat
  | Got_Rule nat nat
  | Read_Rule nat nat trusted_issuer workload_rule
  | Stored_Change nat trusted_issuer
  | Drop_Rule nat nat
  | Drop_Issuer nat
  | Next_Issuer nat
  | Finished

record wl_task =
  wt_work :: wl_work
  wt_pc :: wl_pc

type_synonym workload_users = "string \<times> string \<Rightarrow> workload_access option"

record wl_system =
  ws_locks :: "lock_key \<Rightarrow> nat option"
  ws_next :: nat
  ws_tasks :: "wl_task list"
  ws_queue :: "nat list"   \<comment> \<open>the tasks which wait for a lock, in the order they asked\<close>
  ws_stored :: "string \<Rightarrow> trusted_issuer option"
  ws_users :: workload_users
  ws_unsynced :: "string \<Rightarrow> bool"   \<comment> \<open>history: the last change, or sync, of the issuer was not completed, or synced what is not stored\<close>
  ws_unfinished :: "string \<times> string \<Rightarrow> bool"   \<comment> \<open>history: the last call which gave the rule's user its access was not completed\<close>

definition wl_init :: "(string \<Rightarrow> trusted_issuer option) \<Rightarrow> wl_system" where
  "wl_init stored = \<lparr>ws_locks = (\<lambda>_. None), ws_next = 0, ws_tasks = [], ws_queue = [], ws_stored = stored,
     ws_users = (\<lambda>_. None), ws_unsynced = (\<lambda>_. False), ws_unfinished = (\<lambda>_. False)\<rparr>"

section \<open>Locks\<close>

fun issuer_arc :: "wl_pc \<Rightarrow> nat option" where
  "issuer_arc (Wait_Issuer n) = Some n"
| "issuer_arc (Got_Issuer n) = Some n"
| "issuer_arc (Wait_Rule n m) = Some n"
| "issuer_arc (Got_Rule n m) = Some n"
| "issuer_arc (Read_Rule n m c r) = Some n"
| "issuer_arc (Stored_Change n c) = Some n"
| "issuer_arc (Drop_Rule n m) = Some n"
| "issuer_arc (Drop_Issuer n) = Some n"
| "issuer_arc (Next_Issuer n) = Some n"
| "issuer_arc _ = None"

fun rule_arc :: "wl_pc \<Rightarrow> nat option" where
  "rule_arc (Wait_Rule n m) = Some m"
| "rule_arc (Got_Rule n m) = Some m"
| "rule_arc (Read_Rule n m c r) = Some m"
| "rule_arc (Drop_Rule n m) = Some m"
| "rule_arc _ = None"

definition holds_issuer :: "wl_task \<Rightarrow> nat option" where
  "holds_issuer t = (case wt_pc t of Wait_Issuer n \<Rightarrow> None | pc \<Rightarrow> issuer_arc pc)"

definition holds_rule :: "wl_task \<Rightarrow> nat option" where
  "holds_rule t = (case wt_pc t of Wait_Rule n m \<Rightarrow> None | pc \<Rightarrow> rule_arc pc)"

definition has_arc :: "nat \<Rightarrow> wl_task \<Rightarrow> bool" where
  "has_arc n t \<longleftrightarrow> issuer_arc (wt_pc t) = Some n \<or> rule_arc (wt_pc t) = Some n"

text \<open>\<open>Arc::strong_count\<close> of a lock in the map.\<close>

definition strong_count :: "wl_system \<Rightarrow> nat \<Rightarrow> nat" where
  "strong_count s n = 1 + length (filter (has_arc n) (ws_tasks s))"

text \<open>\<open>entry(key).or_default().clone()\<close>\<close>

definition take_clone :: "lock_key \<Rightarrow> wl_system \<Rightarrow> nat \<times> wl_system" where
  "take_clone k s = (case ws_locks s k of
     Some n \<Rightarrow> (n, s)
   | None \<Rightarrow> (ws_next s, s\<lparr>ws_locks := (ws_locks s)(k \<mapsto> ws_next s), ws_next := Suc (ws_next s)\<rparr>))"

definition goto :: "nat \<Rightarrow> wl_pc \<Rightarrow> wl_system \<Rightarrow> wl_system" where
  "goto t pc s = s\<lparr>ws_tasks := (ws_tasks s)[t := (ws_tasks s ! t)\<lparr>wt_pc := pc\<rparr>]\<rparr>"

text \<open>\<open>Drop\<close> of a held lock, once the guard is dropped; the map is locked.\<close>

definition drop_held :: "lock_key \<Rightarrow> wl_system \<Rightarrow> wl_system" where
  "drop_held k s = (case ws_locks s k of
     Some n \<Rightarrow> if strong_count s n = 1 then s\<lparr>ws_locks := (ws_locks s)(k := None)\<rparr> else s
   | None \<Rightarrow> s)"

text \<open>The lock a task waits for; those who asked for it before are served before.\<close>

fun awaited :: "wl_pc \<Rightarrow> nat option" where
  "awaited (Wait_Issuer n) = Some n"
| "awaited (Wait_Rule n m) = Some m"
| "awaited _ = None"

definition waits_at :: "wl_system \<Rightarrow> nat \<Rightarrow> nat \<Rightarrow> bool" where
  "waits_at s n t \<longleftrightarrow> t < length (ws_tasks s) \<and> awaited (wt_pc (ws_tasks s ! t)) = Some n"

definition first_to_wait :: "wl_system \<Rightarrow> nat \<Rightarrow> nat \<Rightarrow> bool" where
  "first_to_wait s t n \<longleftrightarrow> \<not> list_ex (waits_at s n) (takeWhile (\<lambda>u. u \<noteq> t) (ws_queue s))"

text \<open>\<open>RwLock::read_owned\<close> and \<open>write_owned\<close>, and \<open>Mutex::lock_owned\<close>.\<close>

definition issuer_free :: "wl_system \<Rightarrow> nat \<Rightarrow> bool \<Rightarrow> nat \<Rightarrow> bool" where
  "issuer_free s t write n \<longleftrightarrow> first_to_wait s t n \<and>
     \<not> list_ex (\<lambda>u. holds_issuer u = Some n \<and> (write \<or> is_change (wt_work u))) (ws_tasks s)"

definition rule_free :: "wl_system \<Rightarrow> nat \<Rightarrow> nat \<Rightarrow> bool" where
  "rule_free s t n \<longleftrightarrow> first_to_wait s t n \<and> \<not> list_ex (\<lambda>u. holds_rule u = Some n) (ws_tasks s)"

definition dequeue :: "nat \<Rightarrow> wl_system \<Rightarrow> wl_system" where
  "dequeue t s = s\<lparr>ws_queue := filter (\<lambda>u. u \<noteq> t) (ws_queue s)\<rparr>"

section \<open>Steps\<close>

record wl_app =
  wl_sync :: "string \<Rightarrow> workload_access list \<Rightarrow> workload_users \<Rightarrow> workload_users"
  wl_get_or_create :: "string \<Rightarrow> workload_rule \<Rightarrow> workload_users \<Rightarrow> workload_users"
  wl_delete :: "string \<Rightarrow> workload_users \<Rightarrow> workload_users"

text \<open>What the exchange finds of its rule: \<open>current_rule\<close>, where the token still matches.\<close>

definition find_current :: "wl_system \<Rightarrow> string \<Rightarrow> string \<Rightarrow> (trusted_issuer \<times> workload_rule) option" where
  "find_current s i r = (case ws_stored s i of
     None \<Rightarrow> None
   | Some c \<Rightarrow>
       if \<not> ti_enabled c then None
       else (case List.find (\<lambda>x. wr_id x = r) (ti_rules c) of
         None \<Rightarrow> None
       | Some x \<Rightarrow>
           if wr_enabled x \<and> length (filter (\<lambda>y. wr_id y = wr_id x) (ti_rules c)) = 1 \<and> validate_provider_id (wr_id x)
           then Some (c, x) else None))"

definition ask :: "nat \<Rightarrow> lock_key \<Rightarrow> (nat \<Rightarrow> wl_pc) \<Rightarrow> wl_system \<Rightarrow> wl_system" where
  "ask t k pc s = (case take_clone k s of (n, s) \<Rightarrow> goto t (pc n) (s\<lparr>ws_queue := ws_queue s @ [t]\<rparr>))"

definition at :: "wl_system \<Rightarrow> nat \<Rightarrow> wl_work \<Rightarrow> wl_pc \<Rightarrow> bool" where
  "at s t w pc \<longleftrightarrow> t < length (ws_tasks s) \<and> ws_tasks s ! t = \<lparr>wt_work = w, wt_pc = pc\<rparr>"

definition set_of_issuer :: "string \<Rightarrow> (string \<times> string \<Rightarrow> bool) \<Rightarrow> string \<times> string \<Rightarrow> bool" where
  "set_of_issuer i f = (\<lambda>k. fst k \<noteq> i \<and> f k)"

fun next_listed :: "trusted_issuer \<Rightarrow> trusted_issuer list \<Rightarrow> wl_task" where
  "next_listed c [] = \<lparr>wt_work = Sync_Listed c [], wt_pc = Finished\<rparr>"
| "next_listed c (c' # cs) = \<lparr>wt_work = Sync_Listed c' cs, wt_pc = Begun\<rparr>"

text \<open>
  A request begins, or the app starts up and lists its issuers; a task goes on; it ends early, with an error
  or because its request is dropped while it holds a lock; or it is dropped while it holds none or waits for one.
\<close>

datatype wl_label = Begins | Starts_Up | Goes_On | Ends_Early | Abandoned

inductive wl_step :: "wl_app \<Rightarrow> wl_label \<Rightarrow> wl_system \<Rightarrow> wl_system \<Rightarrow> bool" for A where
  begin_work: "w = Exchange i r \<or> w = Change i \<Longrightarrow>
    wl_step A Begins s (s\<lparr>ws_tasks := ws_tasks s @ [\<lparr>wt_work = w, wt_pc = Begun\<rparr>]\<rparr>)"
| list_issuers: "list_all (\<lambda>c. ws_stored s (ti_id c) = Some c) (c # cs) \<Longrightarrow>
    wl_step A Starts_Up s (s\<lparr>ws_tasks := ws_tasks s @ [\<lparr>wt_work = Sync_Listed c cs, wt_pc = Begun\<rparr>]\<rparr>)"
| ask_issuer: "at s t w Begun \<Longrightarrow> wl_step A Goes_On s (ask t (Issuer_Lock (work_issuer w)) Wait_Issuer s)"
| get_issuer: "at s t w (Wait_Issuer n) \<Longrightarrow> issuer_free s t (is_change w) n \<Longrightarrow>
    wl_step A Goes_On s (goto t (Got_Issuer n) (dequeue t s))"
| ask_rule: "at s t (Exchange i r) (Got_Issuer n) \<Longrightarrow> wl_step A Goes_On s (ask t (Rule_Lock i r) (Wait_Rule n) s)"
| get_rule: "at s t w (Wait_Rule n m) \<Longrightarrow> rule_free s t m \<Longrightarrow> wl_step A Goes_On s (goto t (Got_Rule n m) (dequeue t s))"
| read_current: "at s t (Exchange i r) (Got_Rule n m) \<Longrightarrow> find_current s i r = Some (c, x) \<Longrightarrow>
    wl_step A Goes_On s (goto t (Read_Rule n m c x) s)"
| rule_gone: "at s t (Exchange i r) (Got_Rule n m) \<Longrightarrow> find_current s i r = None \<Longrightarrow> wl_step A Goes_On s (goto t (Drop_Rule n m) s)"
| give_user: "at s t w (Read_Rule n m c x) \<Longrightarrow>
    wl_step A Goes_On s (goto t (Drop_Rule n m) (s\<lparr>ws_users := wl_get_or_create A (work_issuer w) x (ws_users s),
      ws_unfinished := (ws_unfinished s)((work_issuer w, wr_id x) := False)\<rparr>))"
| give_user_fails: "at s t w (Read_Rule n m c x) \<Longrightarrow>
    (\<And>k. k \<noteq> (work_issuer w, wr_id x) \<Longrightarrow> us k = ws_users s k) \<Longrightarrow>
    (\<And>a. us (work_issuer w, wr_id x) = Some a \<Longrightarrow>
      wa_enabled a = (case ws_users s (work_issuer w, wr_id x) of None \<Rightarrow> True | Some b \<Rightarrow> wa_enabled b)) \<Longrightarrow>
    wl_step A Ends_Early s (goto t (Drop_Rule n m)
      (s\<lparr>ws_users := us, ws_unfinished := (ws_unfinished s)((work_issuer w, wr_id x) := True)\<rparr>))"
| ends_with_rule: "at s t w (Got_Rule n m) \<Longrightarrow> wl_step A Ends_Early s (goto t (Drop_Rule n m) s)"
| issuer_gone: "at s t (Change i) (Got_Issuer n) \<Longrightarrow> ws_stored s i = None \<Longrightarrow> wl_step A Goes_On s (goto t (Drop_Issuer n) s)"
| store_change: "at s t (Change i) (Got_Issuer n) \<Longrightarrow> ws_stored s i \<noteq> None \<Longrightarrow>
    wl_step A Goes_On s (goto t (Stored_Change n c)
      (s\<lparr>ws_stored := (ws_stored s)(i \<mapsto> c), ws_unsynced := (ws_unsynced s)(i := True)\<rparr>))"
| sync_users: "at s t (Change i) (Stored_Change n c) \<Longrightarrow>
    wl_step A Goes_On s (goto t (Drop_Issuer n)
      (s\<lparr>ws_users := wl_sync A i (access_of_issuer c) (ws_users s), ws_unsynced := (ws_unsynced s)(i := False),
        ws_unfinished := set_of_issuer i (ws_unfinished s)\<rparr>))"
| delete_stored: "at s t (Change i) (Got_Issuer n) \<Longrightarrow> ws_stored s i \<noteq> None \<Longrightarrow>
    wl_step A Goes_On s (goto t (Drop_Issuer n)
      (s\<lparr>ws_stored := (ws_stored s)(i := None), ws_users := wl_delete A i (ws_users s), ws_unsynced := (ws_unsynced s)(i := False),
        ws_unfinished := set_of_issuer i (ws_unfinished s)\<rparr>))"
| change_fails: "at s t (Change i) pc \<Longrightarrow> pc = Got_Issuer n \<or> pc = Stored_Change n c \<Longrightarrow>
    (\<And>j. j \<noteq> i \<Longrightarrow> stored j = ws_stored s j) \<Longrightarrow> (\<And>j r. j \<noteq> i \<Longrightarrow> us (j, r) = ws_users s (j, r)) \<Longrightarrow>
    wl_step A Ends_Early s (goto t (Drop_Issuer n)
      (s\<lparr>ws_stored := stored, ws_users := us, ws_unsynced := (ws_unsynced s)(i := True)\<rparr>))"
| sync_listed: "at s t (Sync_Listed c cs) (Got_Issuer n) \<Longrightarrow>
    wl_step A Goes_On s (goto t (Next_Issuer n)
      (s\<lparr>ws_users := wl_sync A (ti_id c) (access_of_issuer c) (ws_users s),
        ws_unsynced := (ws_unsynced s)(ti_id c := ws_stored s (ti_id c) \<noteq> Some c),
        ws_unfinished := set_of_issuer (ti_id c) (ws_unfinished s)\<rparr>))"
| sync_listed_fails: "at s t (Sync_Listed c cs) (Got_Issuer n) \<Longrightarrow> (\<And>j r. j \<noteq> ti_id c \<Longrightarrow> us (j, r) = ws_users s (j, r)) \<Longrightarrow>
    wl_step A Ends_Early s (goto t (Drop_Issuer n) (s\<lparr>ws_users := us, ws_unsynced := (ws_unsynced s)(ti_id c := True)\<rparr>))"
| ends_with_issuer: "at s t w (Got_Issuer n) \<Longrightarrow> wl_step A Ends_Early s (goto t (Drop_Issuer n) s)"
| abandoned: "at s t w pc \<Longrightarrow> pc = Begun \<or> pc = Wait_Issuer n \<Longrightarrow> wl_step A Abandoned s (goto t Finished (dequeue t s))"
| abandoned_rule: "at s t w (Wait_Rule n m) \<Longrightarrow> wl_step A Abandoned s (goto t (Drop_Issuer n) (dequeue t s))"
| release_rule: "at s t w (Drop_Rule n m) \<Longrightarrow>
    wl_step A Goes_On s (drop_held (Rule_Lock (work_issuer w) (work_rule w)) (goto t (Drop_Issuer n) s))"
| release_issuer: "at s t w (Drop_Issuer n) \<Longrightarrow>
    wl_step A Goes_On s (drop_held (Issuer_Lock (work_issuer w)) (goto t Finished s))"
| release_listed: "at s t (Sync_Listed c cs) (Next_Issuer n) \<Longrightarrow>
    wl_step A Goes_On s (drop_held (Issuer_Lock (ti_id c)) (s\<lparr>ws_tasks := (ws_tasks s)[t := next_listed c cs]\<rparr>))"

text \<open>What runs with steps of the labels \<open>L\<close> can reach.\<close>

inductive wl_reachable :: "wl_app \<Rightarrow> wl_label set \<Rightarrow> wl_system \<Rightarrow> bool" for A L where
  init: "wl_reachable A L (wl_init stored)"
| step: "wl_reachable A L s \<Longrightarrow> l \<in> L \<Longrightarrow> wl_step A l s s' \<Longrightarrow> wl_reachable A L s'"

section \<open>What the app promises\<close>

text \<open>
  The documentation of \<open>sync_workload_users\<close>, \<open>get_or_create_workload_user\<close> and
  \<open>delete_trusted_issuer\<close>: one user for a rule of an issuer, brought in line with the access it is given,
  removed with the rule or the issuer; other issuers' users are left alone.
\<close>

definition app_laws :: "wl_app \<Rightarrow> bool" where
  "app_laws A \<longleftrightarrow>
     (\<forall>i access us j r. wl_sync A i access us (j, r) =
        (if j \<noteq> i \<or> us (j, r) = None then us (j, r) else List.find (\<lambda>a. wa_rule_id a = r) access)) \<and>
     (\<forall>i x us k. wl_get_or_create A i x us k =
        (if k \<noteq> (i, wr_id x) then us k
         else Some \<lparr>wa_rule_id = wr_id x, wa_groups = wr_groups x, wa_admin = wr_admin x,
           wa_enabled = (case us k of None \<Rightarrow> True | Some a \<Rightarrow> wa_enabled a)\<rparr>)) \<and>
     (\<forall>i us j r. wl_delete A i us (j, r) = (if j = i then None else us (j, r)))"

section \<open>Invariants\<close>

definition arcs_of :: "wl_task \<Rightarrow> (lock_key \<times> nat) set" where
  "arcs_of t = {(Issuer_Lock (work_issuer (wt_work t)), n) |n. issuer_arc (wt_pc t) = Some n} \<union>
     {(Rule_Lock (work_issuer (wt_work t)) (work_rule (wt_work t)), m) |m. rule_arc (wt_pc t) = Some m}"

text \<open>The locks tasks have are those in the map.\<close>

definition arcs_inv :: "wl_system \<Rightarrow> bool" where
  "arcs_inv s \<longleftrightarrow> (\<forall>t \<in> set (ws_tasks s). \<forall>(k, n) \<in> arcs_of t. ws_locks s k = Some n) \<and>
     (\<forall>k n. ws_locks s k = Some n \<longrightarrow> n < ws_next s) \<and> inj_on (ws_locks s) (dom (ws_locks s))"

definition apart_tasks :: "wl_task \<Rightarrow> wl_task \<Rightarrow> bool" where
  "apart_tasks t u \<longleftrightarrow>
     (\<forall>n. holds_issuer t = Some n \<and> holds_issuer u = Some n \<longrightarrow> \<not> is_change (wt_work t) \<and> \<not> is_change (wt_work u)) \<and>
     (\<forall>m. holds_rule t = Some m \<longrightarrow> holds_rule u \<noteq> Some m)"

definition exclusion_inv :: "wl_system \<Rightarrow> bool" where
  "exclusion_inv s \<longleftrightarrow> (\<forall>t u. t < length (ws_tasks s) \<and> u < length (ws_tasks s) \<and> t \<noteq> u \<longrightarrow>
     apart_tasks (ws_tasks s ! t) (ws_tasks s ! u))"

text \<open>What a task has read or stored is what is stored.\<close>

fun is_listed :: "wl_work \<Rightarrow> bool" where
  "is_listed (Sync_Listed c cs) = True"
| "is_listed _ = False"

definition read_ok :: "wl_system \<Rightarrow> wl_task \<Rightarrow> bool" where
  "read_ok s t \<longleftrightarrow> (case wt_pc t of
       Read_Rule n m c x \<Rightarrow> \<not> is_change (wt_work t) \<and> find_current s (work_issuer (wt_work t)) (work_rule (wt_work t)) = Some (c, x)
     | Stored_Change n c \<Rightarrow> is_change (wt_work t) \<and> \<not> is_listed (wt_work t) \<and> ws_stored s (work_issuer (wt_work t)) = Some c \<and>
         ws_unsynced s (work_issuer (wt_work t))
     | Got_Rule n m \<Rightarrow> \<not> is_change (wt_work t)
     | Wait_Rule n m \<Rightarrow> \<not> is_change (wt_work t)
     | Drop_Rule n m \<Rightarrow> \<not> is_change (wt_work t)
     | Next_Issuer n \<Rightarrow> is_listed (wt_work t)
     | _ \<Rightarrow> True)"

definition read_inv :: "wl_system \<Rightarrow> bool" where
  "read_inv s \<longleftrightarrow> (\<forall>t \<in> set (ws_tasks s). read_ok s t)"

definition access_in :: "trusted_issuer option \<Rightarrow> string \<Rightarrow> workload_access option" where
  "access_in c r = Option.bind c (\<lambda>c. List.find (\<lambda>a. wa_rule_id a = r) (access_of_issuer c))"

text \<open>A user is enabled as its rule is, and has the rule's access once the call which gives it was completed.\<close>

definition in_line :: "wl_system \<Rightarrow> string \<Rightarrow> string \<Rightarrow> workload_access \<Rightarrow> bool" where
  "in_line s i r a \<longleftrightarrow> (\<exists>b. access_in (ws_stored s i) r = Some b \<and> wa_enabled a = wa_enabled b \<and>
     (\<not> ws_unfinished s (i, r) \<longrightarrow> a = b))"

definition users_inv :: "wl_system \<Rightarrow> bool" where
  "users_inv s \<longleftrightarrow> (\<forall>i r a. ws_users s (i, r) = Some a \<and> \<not> ws_unsynced s i \<longrightarrow> in_line s i r a)"

section \<open>Steps of one task\<close>

lemma goto_fields [simp]:
  "ws_locks (goto t pc s) = ws_locks s" "ws_next (goto t pc s) = ws_next s" "ws_stored (goto t pc s) = ws_stored s"
  "ws_users (goto t pc s) = ws_users s" "ws_unsynced (goto t pc s) = ws_unsynced s" "ws_unfinished (goto t pc s) = ws_unfinished s"
  "length (ws_tasks (goto t pc s)) = length (ws_tasks s)"
  by (simp_all add: goto_def)

lemma drop_held_fields [simp]:
  "ws_next (drop_held k s) = ws_next s" "ws_stored (drop_held k s) = ws_stored s" "ws_users (drop_held k s) = ws_users s"
  "ws_unsynced (drop_held k s) = ws_unsynced s" "ws_unfinished (drop_held k s) = ws_unfinished s" "ws_tasks (drop_held k s) = ws_tasks s"
  by (simp_all add: drop_held_def split: option.splits)

lemma dequeue_fields [simp]:
  "ws_locks (dequeue t s) = ws_locks s" "ws_next (dequeue t s) = ws_next s" "ws_stored (dequeue t s) = ws_stored s"
  "ws_users (dequeue t s) = ws_users s" "ws_unsynced (dequeue t s) = ws_unsynced s" "ws_unfinished (dequeue t s) = ws_unfinished s"
  "ws_tasks (dequeue t s) = ws_tasks s"
  by (simp_all add: dequeue_def)

lemma ask_fields [simp]:
  "ws_stored (ask t k pc s) = ws_stored s" "ws_users (ask t k pc s) = ws_users s" "ws_unsynced (ask t k pc s) = ws_unsynced s"
  "ws_unfinished (ask t k pc s) = ws_unfinished s"
  "ws_tasks (ask t k pc s) = (ws_tasks s)[t := (ws_tasks s ! t)\<lparr>wt_pc := pc (fst (take_clone k s))\<rparr>]"
  by (simp_all add: ask_def take_clone_def goto_def split: option.splits)

lemma find_current_cong: "ws_stored s i = ws_stored s' i \<Longrightarrow> find_current s i r = find_current s' i r"
  by (simp add: find_current_def)

lemma read_ok_cong:
  assumes "ws_stored s (work_issuer (wt_work t)) = ws_stored s' (work_issuer (wt_work t))"
    "ws_unsynced s (work_issuer (wt_work t)) = ws_unsynced s' (work_issuer (wt_work t))"
  shows "read_ok s t = read_ok s' t"
  using assms find_current_cong [OF assms(1)] by (simp add: read_ok_def split: wl_pc.splits)

lemma at_task: "at s t w pc \<Longrightarrow> \<lparr>wt_work = w, wt_pc = pc\<rparr> \<in> set (ws_tasks s)"
  unfolding at_def by (metis nth_mem)

lemma goto_tasks: "at s t w pc \<Longrightarrow> ws_tasks (goto t pc' s) = (ws_tasks s)[t := \<lparr>wt_work = w, wt_pc = pc'\<rparr>]"
  by (simp add: goto_def at_def)

lemma ask_tasks: "at s t w pc \<Longrightarrow> ws_tasks (ask t k pc' s) = (ws_tasks s)[t := \<lparr>wt_work = w, wt_pc = pc' (fst (take_clone k s))\<rparr>]"
  by (simp add: at_def)

lemma task_at: "t \<in> set (ws_tasks s) \<Longrightarrow> \<exists>k. at s k (wt_work t) (wt_pc t)"
  by (cases t) (auto simp: in_set_conv_nth at_def)

section \<open>The maps of locks\<close>

lemma arcs_inv_update:
  assumes "arcs_inv s" "ws_tasks s' = (ws_tasks s)[t := u]" "ws_locks s' = ws_locks s" "ws_next s' = ws_next s"
    and "\<forall>(k, n) \<in> arcs_of u. ws_locks s k = Some n"
  shows "arcs_inv s'"
proof -
  have "\<forall>v \<in> set (ws_tasks s'). \<forall>(k, n) \<in> arcs_of v. ws_locks s k = Some n"
    using assms(1,5) set_update_subset_insert [of "ws_tasks s" t u] unfolding assms(2) arcs_inv_def by blast
  then show ?thesis using assms(1,3,4) by (simp add: arcs_inv_def)
qed

lemma arcs_inv_goto:
  assumes "arcs_inv s" "at s t w pc" "issuer_arc pc' \<in> {None, issuer_arc pc}" "rule_arc pc' \<in> {None, rule_arc pc}"
  shows "arcs_inv (goto t pc' s)"
proof (rule arcs_inv_update [OF assms(1) goto_tasks [OF assms(2)]])
  have "\<forall>(k, n) \<in> arcs_of \<lparr>wt_work = w, wt_pc = pc\<rparr>. ws_locks s k = Some n"
    using assms(1) at_task [OF assms(2)] by (simp add: arcs_inv_def)
  then show "\<forall>(k, n) \<in> arcs_of \<lparr>wt_work = w, wt_pc = pc'\<rparr>. ws_locks s k = Some n"
    using assms(3,4) by (auto simp: arcs_of_def)
qed simp_all

lemma arcs_inv_fields [simp]:
  "arcs_inv (s\<lparr>ws_users := us\<rparr>) = arcs_inv s" "arcs_inv (s\<lparr>ws_stored := c\<rparr>) = arcs_inv s"
  "arcs_inv (s\<lparr>ws_unsynced := b\<rparr>) = arcs_inv s" "arcs_inv (s\<lparr>ws_unfinished := f\<rparr>) = arcs_inv s"
  "arcs_inv (s\<lparr>ws_queue := q\<rparr>) = arcs_inv s" "arcs_inv (dequeue t s) = arcs_inv s"
  by (simp_all add: arcs_inv_def)

lemma at_fields [simp]:
  "at (s\<lparr>ws_users := us\<rparr>) = at s" "at (s\<lparr>ws_stored := c\<rparr>) = at s" "at (s\<lparr>ws_unsynced := b\<rparr>) = at s"
  "at (s\<lparr>ws_unfinished := f\<rparr>) = at s" "at (s\<lparr>ws_queue := q\<rparr>) = at s" "at (dequeue u s) = at s"
  by (simp_all add: at_def fun_eq_iff)

lemma take_clone_locks:
  assumes "arcs_inv s" "take_clone k s = (n, s')"
  shows "arcs_inv s'" "ws_locks s' k = Some n" "ws_tasks s' = ws_tasks s" "\<And>k' m. ws_locks s k' = Some m \<Longrightarrow> ws_locks s' k' = Some m"
proof -
  have "arcs_inv (s\<lparr>ws_locks := (ws_locks s)(k \<mapsto> ws_next s), ws_next := Suc (ws_next s)\<rparr>)" if "ws_locks s k = None"
  proof -
    have fresh: "ws_locks s k' \<noteq> Some (ws_next s)" for k' using assms(1) by (fastforce simp: arcs_inv_def)
    have "inj_on ((ws_locks s)(k \<mapsto> ws_next s)) (insert k (dom (ws_locks s)))"
      using assms(1) fresh by (auto simp: arcs_inv_def inj_on_def dom_def)
    moreover have "\<forall>t \<in> set (ws_tasks s). \<forall>(k', n) \<in> arcs_of t. k' \<noteq> k \<and> ws_locks s k' = Some n"
      using assms(1) that by (fastforce simp: arcs_inv_def)
    ultimately show ?thesis using assms(1) by (fastforce simp: arcs_inv_def less_Suc_eq)
  qed
  then show "arcs_inv s'" "ws_locks s' k = Some n" "ws_tasks s' = ws_tasks s" "\<And>k' m. ws_locks s k' = Some m \<Longrightarrow> ws_locks s' k' = Some m"
    using assms by (auto simp: take_clone_def split: option.splits)
qed

lemma arcs_inv_ask:
  assumes "arcs_inv s" "at s t w pc" "\<And>n k' m. (k', m) \<in> arcs_of \<lparr>wt_work = w, wt_pc = pc' n\<rparr> \<Longrightarrow>
    (k', m) = (k, n) \<or> (k', m) \<in> arcs_of \<lparr>wt_work = w, wt_pc = pc\<rparr>"
  shows "arcs_inv (ask t k pc' s)"
proof -
  obtain n s1 where s1: "take_clone k s = (n, s1)" by fastforce
  note taken = take_clone_locks [OF assms(1) s1]
  let ?s = "s1\<lparr>ws_queue := ws_queue s1 @ [t]\<rparr>"
  have at1: "at ?s t w pc" using assms(2) taken(3) by (simp add: at_def)
  have "\<forall>(k', m) \<in> arcs_of \<lparr>wt_work = w, wt_pc = pc\<rparr>. ws_locks s k' = Some m"
    using assms(1) at_task [OF assms(2)] by (simp add: arcs_inv_def)
  then have "\<forall>(k', m) \<in> arcs_of \<lparr>wt_work = w, wt_pc = pc' n\<rparr>. ws_locks s1 k' = Some m"
    using assms(3) [of _ _ n] taken(2,4) by fastforce
  then have "arcs_inv (goto t (pc' n) ?s)" using taken(1) by (intro arcs_inv_update [OF _ goto_tasks [OF at1]]) simp_all
  then show ?thesis by (simp add: ask_def s1)
qed

lemma arcs_inv_drop:
  assumes "arcs_inv s"
  shows "arcs_inv (drop_held k s)"
proof (cases "\<exists>n. ws_locks s k = Some n \<and> strong_count s n = 1")
  case True
  then obtain n where n: "ws_locks s k = Some n" "strong_count s n = 1" by blast
  have "k' \<noteq> k" if t: "t \<in> set (ws_tasks s)" "(k', m) \<in> arcs_of t" for t k' m
  proof
    assume "k' = k"
    then have "m = n" using assms t n(1) by (fastforce simp: arcs_inv_def)
    then have "has_arc n t" using t(2) by (auto simp: arcs_of_def has_arc_def)
    then show False using n(2) t(1) by (auto simp: strong_count_def filter_empty_conv)
  qed
  then show ?thesis using assms n by (fastforce simp: arcs_inv_def drop_held_def inj_on_def dom_def)
qed (use assms in \<open>auto simp: drop_held_def split: option.splits\<close>)

lemma arcs_of_next: "arcs_of (next_listed c cs) = {}"
  by (cases cs) (auto simp: arcs_of_def)

lemma arcs_inv_step: "wl_step A l s s' \<Longrightarrow> arcs_inv s \<Longrightarrow> arcs_inv s'"
proof (induction rule: wl_step.induct)
  case (begin_work w i r s)
  then show ?case by (auto simp: arcs_inv_def arcs_of_def)
next
  case (list_issuers s c cs)
  then show ?case by (auto simp: arcs_inv_def arcs_of_def)
next
  case (ask_issuer s t w)
  then show ?case by (intro arcs_inv_ask) (auto simp: arcs_of_def)
next
  case (ask_rule s t i r n)
  then show ?case by (intro arcs_inv_ask) (auto simp: arcs_of_def)
next
  case (change_fails s t i pc n c stored us)
  then show ?case by (intro arcs_inv_goto [where w = "Change i" and pc = pc]) auto
next
  case (abandoned s t w pc n)
  then show ?case by (intro arcs_inv_goto [where w = w and pc = pc]) auto
next
  case (release_rule s t w n m)
  then show ?case by (intro arcs_inv_drop arcs_inv_goto [where w = w and pc = "Drop_Rule n m"]) auto
next
  case (release_issuer s t w n)
  then show ?case by (intro arcs_inv_drop arcs_inv_goto [where w = w and pc = "Drop_Issuer n"]) auto
next
  case (release_listed s t c cs n)
  have "arcs_inv (s\<lparr>ws_tasks := (ws_tasks s)[t := next_listed c cs]\<rparr>)"
    using arcs_of_next [of c cs] by (intro arcs_inv_update [OF release_listed.prems]) auto
  then show ?case by (rule arcs_inv_drop)
qed (rule arcs_inv_goto, (simp; fail), (unfold at_fields)?, assumption, (simp; fail), (simp; fail))+

section \<open>Exclusion\<close>

lemma apart_tasks_sym: "apart_tasks t u \<Longrightarrow> apart_tasks u t"
  by (auto simp: apart_tasks_def)

lemma exclusion_update:
  assumes "exclusion_inv s" "ws_tasks s' = (ws_tasks s)[t := u]"
    and "\<And>v. v < length (ws_tasks s) \<Longrightarrow> v \<noteq> t \<Longrightarrow> apart_tasks u (ws_tasks s ! v)"
  shows "exclusion_inv s'"
  unfolding exclusion_inv_def
proof (intro allI impI)
  fix v x assume v: "v < length (ws_tasks s') \<and> x < length (ws_tasks s') \<and> v \<noteq> x"
  then have "apart_tasks (ws_tasks s ! v) (ws_tasks s ! x)" using assms(1,2) by (simp add: exclusion_inv_def)
  then show "apart_tasks (ws_tasks s' ! v) (ws_tasks s' ! x)"
    using v assms(3) [of v] assms(3) [of x] apart_tasks_sym
    by (cases "v = t"; cases "x = t") (simp_all add: assms(2))
qed

lemma exclusionD:
  "exclusion_inv s \<Longrightarrow> at s t w pc \<Longrightarrow> v < length (ws_tasks s) \<Longrightarrow> v \<noteq> t \<Longrightarrow> apart_tasks \<lparr>wt_work = w, wt_pc = pc\<rparr> (ws_tasks s ! v)"
  unfolding exclusion_inv_def at_def by metis

lemma exclusion_keeps:
  assumes "exclusion_inv s" "at s t w pc" "ws_tasks s' = (ws_tasks s)[t := \<lparr>wt_work = w, wt_pc = pc'\<rparr>]"
    and "holds_issuer \<lparr>wt_work = w, wt_pc = pc'\<rparr> \<in> {None, holds_issuer \<lparr>wt_work = w, wt_pc = pc\<rparr>}"
    and "holds_rule \<lparr>wt_work = w, wt_pc = pc'\<rparr> \<in> {None, holds_rule \<lparr>wt_work = w, wt_pc = pc\<rparr>}"
  shows "exclusion_inv s'"
proof (rule exclusion_update [OF assms(1,3)])
  fix v assume v: "v < length (ws_tasks s)" "v \<noteq> t"
  then have "apart_tasks \<lparr>wt_work = w, wt_pc = pc\<rparr> (ws_tasks s ! v)" by (rule exclusionD [OF assms(1,2)])
  then show "apart_tasks \<lparr>wt_work = w, wt_pc = pc'\<rparr> (ws_tasks s ! v)"
    using assms(4,5) unfolding apart_tasks_def wl_task.select_convs by (metis empty_iff insert_iff option.distinct(1))
qed

lemma exclusion_get_issuer:
  assumes "exclusion_inv s" "at s t w (Wait_Issuer n)" "issuer_free s t (is_change w) n"
  shows "exclusion_inv (goto t (Got_Issuer n) s)"
proof (rule exclusion_update [OF assms(1) goto_tasks [OF assms(2)]])
  fix v assume "v < length (ws_tasks s)"
  then have "\<not> (holds_issuer (ws_tasks s ! v) = Some n \<and> (is_change w \<or> is_change (wt_work (ws_tasks s ! v))))"
    using assms(3) by (auto simp: issuer_free_def list_ex_iff)
  then show "apart_tasks \<lparr>wt_work = w, wt_pc = Got_Issuer n\<rparr> (ws_tasks s ! v)"
    by (auto simp: apart_tasks_def holds_issuer_def holds_rule_def)
qed

lemma exclusion_get_rule:
  assumes "exclusion_inv s" "at s t w (Wait_Rule n m)" "rule_free s t m"
  shows "exclusion_inv (goto t (Got_Rule n m) s)"
proof (rule exclusion_update [OF assms(1) goto_tasks [OF assms(2)]])
  fix v assume v: "v < length (ws_tasks s)" "v \<noteq> t"
  then have "apart_tasks \<lparr>wt_work = w, wt_pc = Wait_Rule n m\<rparr> (ws_tasks s ! v)"
    by (rule exclusionD [OF assms(1,2)])
  moreover have "holds_rule (ws_tasks s ! v) \<noteq> Some m" using assms(3) v by (auto simp: rule_free_def list_ex_iff)
  ultimately show "apart_tasks \<lparr>wt_work = w, wt_pc = Got_Rule n m\<rparr> (ws_tasks s ! v)"
    by (auto simp: apart_tasks_def holds_issuer_def holds_rule_def)
qed

lemmas wl_holds = holds_issuer_def holds_rule_def

lemma exclusion_begin: "exclusion_inv s \<Longrightarrow> exclusion_inv (s\<lparr>ws_tasks := ws_tasks s @ [\<lparr>wt_work = w, wt_pc = Begun\<rparr>]\<rparr>)"
proof -
  have "apart_tasks \<lparr>wt_work = w, wt_pc = Begun\<rparr> u" "apart_tasks u \<lparr>wt_work = w, wt_pc = Begun\<rparr>" for u
    by (auto simp: apart_tasks_def wl_holds)
  then show "exclusion_inv s \<Longrightarrow> ?thesis"
    by (auto simp: exclusion_inv_def nth_append less_Suc_eq)
qed

lemma exclusion_goto:
  "exclusion_inv s \<Longrightarrow> at s t w pc \<Longrightarrow> holds_issuer \<lparr>wt_work = w, wt_pc = pc'\<rparr> \<in> {None, holds_issuer \<lparr>wt_work = w, wt_pc = pc\<rparr>} \<Longrightarrow>
    holds_rule \<lparr>wt_work = w, wt_pc = pc'\<rparr> \<in> {None, holds_rule \<lparr>wt_work = w, wt_pc = pc\<rparr>} \<Longrightarrow> exclusion_inv (goto t pc' s)"
  by (rule exclusion_keeps [OF _ _ goto_tasks])

lemma exclusion_ask:
  "exclusion_inv s \<Longrightarrow> at s t w pc \<Longrightarrow> (\<And>n. holds_issuer \<lparr>wt_work = w, wt_pc = pc' n\<rparr> \<in> {None, holds_issuer \<lparr>wt_work = w, wt_pc = pc\<rparr>}) \<Longrightarrow>
    (\<And>n. holds_rule \<lparr>wt_work = w, wt_pc = pc' n\<rparr> \<in> {None, holds_rule \<lparr>wt_work = w, wt_pc = pc\<rparr>}) \<Longrightarrow> exclusion_inv (ask t k pc' s)"
  by (rule exclusion_keeps [OF _ _ ask_tasks])

lemma exclusion_next: "exclusion_inv s \<Longrightarrow> exclusion_inv (s\<lparr>ws_tasks := (ws_tasks s)[t := next_listed c cs]\<rparr>)"
proof (rule exclusion_update)
  show "apart_tasks (next_listed c cs) u" for u by (cases cs) (auto simp: apart_tasks_def wl_holds)
qed simp_all

lemma dequeue_goto: "goto t pc (dequeue u s) = dequeue u (goto t pc s)"
  by (simp add: goto_def dequeue_def)

lemma exclusion_fields [simp]:
  "exclusion_inv (s\<lparr>ws_users := us\<rparr>) = exclusion_inv s" "exclusion_inv (s\<lparr>ws_stored := c\<rparr>) = exclusion_inv s"
  "exclusion_inv (s\<lparr>ws_unsynced := b\<rparr>) = exclusion_inv s" "exclusion_inv (drop_held k s) = exclusion_inv s"
  "exclusion_inv (s\<lparr>ws_unfinished := f\<rparr>) = exclusion_inv s" "exclusion_inv (dequeue t s) = exclusion_inv s"
  by (simp_all add: exclusion_inv_def)

lemma exclusion_step: "wl_step A l s s' \<Longrightarrow> exclusion_inv s \<Longrightarrow> exclusion_inv s'"
proof (induction rule: wl_step.induct)
  case (begin_work w i r s)
  then show ?case by (intro exclusion_begin)
next
  case (list_issuers s c cs)
  then show ?case by (intro exclusion_begin)
next
  case (ask_issuer s t w)
  then show ?case by (intro exclusion_ask) (auto simp: wl_holds)
next
  case (get_issuer s t w n)
  then show ?case unfolding dequeue_goto exclusion_fields by (intro exclusion_get_issuer)
next
  case (ask_rule s t i r n)
  then show ?case by (intro exclusion_ask) (auto simp: wl_holds)
next
  case (get_rule s t w n m)
  then show ?case unfolding dequeue_goto exclusion_fields by (intro exclusion_get_rule)
next
  case (change_fails s t i pc n c stored us)
  then show ?case by (intro exclusion_goto [where w = "Change i" and pc = pc]) (auto simp: wl_holds)
next
  case (abandoned s t w pc n)
  then show ?case by (intro exclusion_goto [where w = w and pc = pc]) (auto simp: wl_holds)
next
  case (release_listed s t c cs n)
  then show ?case by (simp add: exclusion_next)
qed (unfold exclusion_fields, (rule exclusion_goto, (simp; fail), (unfold at_fields)?, assumption, (simp add: wl_holds; fail),
  (simp add: wl_holds; fail))+)

section \<open>What is read\<close>

text \<open>While a change of an issuer holds its lock, no other task does.\<close>

lemma change_alone:
  assumes "arcs_inv s" "exclusion_inv s" "at s t w pc" "is_change w" "holds_issuer \<lparr>wt_work = w, wt_pc = pc\<rparr> \<noteq> None"
    and "v < length (ws_tasks s)" "v \<noteq> t" "holds_issuer (ws_tasks s ! v) \<noteq> None"
  shows "work_issuer (wt_work (ws_tasks s ! v)) \<noteq> work_issuer w"
proof
  let ?v = "ws_tasks s ! v" and ?t = "\<lparr>wt_work = w, wt_pc = pc\<rparr>"
  assume i: "work_issuer (wt_work ?v) = work_issuer w"
  have arc: "(Issuer_Lock (work_issuer (wt_work u)), n) \<in> arcs_of u" if "holds_issuer u = Some n" for u n
    using that by (auto simp: holds_issuer_def arcs_of_def split: wl_pc.splits)
  obtain n m where n: "holds_issuer ?t = Some n" and m: "holds_issuer ?v = Some m" using assms(5,8) by auto
  have "ws_locks s (Issuer_Lock (work_issuer w)) = Some n" using arc [OF n] assms(1) at_task [OF assms(3)] by (fastforce simp: arcs_inv_def)
  moreover have "ws_locks s (Issuer_Lock (work_issuer w)) = Some m"
    using arc [OF m] i assms(1) nth_mem [OF assms(6)] by (fastforce simp: arcs_inv_def)
  moreover have "apart_tasks ?t ?v" by (rule exclusionD [OF assms(2,3,6,7)])
  ultimately show False using n m assms(4) by (simp add: apart_tasks_def)
qed

text \<open>Only a change whose lock is held writes what the issuer's other tasks have read.\<close>

lemma read_inv_update:
  assumes "read_inv s" "at s t w pc" "ws_tasks s' = (ws_tasks s)[t := \<lparr>wt_work = w, wt_pc = pc'\<rparr>]"
    and "read_ok s' \<lparr>wt_work = w, wt_pc = pc'\<rparr>"
    and "\<And>v. v < length (ws_tasks s) \<Longrightarrow> v \<noteq> t \<Longrightarrow> holds_issuer (ws_tasks s ! v) \<noteq> None \<Longrightarrow>
      ws_stored s' (work_issuer (wt_work (ws_tasks s ! v))) = ws_stored s (work_issuer (wt_work (ws_tasks s ! v))) \<and>
      ws_unsynced s' (work_issuer (wt_work (ws_tasks s ! v))) = ws_unsynced s (work_issuer (wt_work (ws_tasks s ! v)))"
  shows "read_inv s'"
proof -
  have "read_ok s' (ws_tasks s' ! v)" if v: "v < length (ws_tasks s')" for v
  proof (cases "v = t")
    case False
    let ?v = "ws_tasks s ! v"
    have ok: "read_ok s ?v" using assms(1) v by (simp add: read_inv_def assms(3))
    have "read_ok s' ?v"
    proof (cases "holds_issuer ?v = None")
      case True
      then show ?thesis using ok by (auto simp: read_ok_def holds_issuer_def split: wl_pc.splits)
    next
      case held: False
      then show ?thesis using ok assms(5) [of v] v False read_ok_cong [of s ?v s'] by (simp add: assms(3))
    qed
    then show ?thesis using False by (simp add: assms(3))
  qed (use assms(2-4) v in \<open>simp add: at_def\<close>)
  then show ?thesis by (auto simp: read_inv_def in_set_conv_nth)
qed

lemma read_inv_same:
  assumes "read_inv s" "at s t w pc" "ws_tasks s' = (ws_tasks s)[t := \<lparr>wt_work = w, wt_pc = pc'\<rparr>]"
    and "ws_stored s' = ws_stored s" "ws_unsynced s' = ws_unsynced s" "read_ok s' \<lparr>wt_work = w, wt_pc = pc'\<rparr>"
  shows "read_inv s'"
  by (rule read_inv_update [OF assms(1-3,6)]) (simp add: assms(4,5))

lemma read_inv_change:
  assumes "arcs_inv s" "exclusion_inv s" "read_inv s" "at s t w pc" "is_change w" "holds_issuer \<lparr>wt_work = w, wt_pc = pc\<rparr> \<noteq> None"
    and "ws_tasks s' = (ws_tasks s)[t := \<lparr>wt_work = w, wt_pc = pc'\<rparr>]" "read_ok s' \<lparr>wt_work = w, wt_pc = pc'\<rparr>"
    and "\<And>j. j \<noteq> work_issuer w \<Longrightarrow> ws_stored s' j = ws_stored s j \<and> ws_unsynced s' j = ws_unsynced s j"
  shows "read_inv s'"
  by (rule read_inv_update [OF assms(3,4,7,8)]) (use assms(9) change_alone [OF assms(1,2,4,5,6)] in blast)

lemma read_ok_simps [simp]:
  "read_ok s \<lparr>wt_work = w, wt_pc = Begun\<rparr>" "read_ok s \<lparr>wt_work = w, wt_pc = Wait_Issuer n\<rparr>"
  "read_ok s \<lparr>wt_work = w, wt_pc = Got_Issuer n\<rparr>" "read_ok s \<lparr>wt_work = w, wt_pc = Drop_Issuer n\<rparr>"
  "read_ok s \<lparr>wt_work = w, wt_pc = Finished\<rparr>" "read_ok s \<lparr>wt_work = w, wt_pc = Next_Issuer n\<rparr> \<longleftrightarrow> is_listed w"
  "read_ok s \<lparr>wt_work = w, wt_pc = Wait_Rule n m\<rparr> \<longleftrightarrow> \<not> is_change w" "read_ok s \<lparr>wt_work = w, wt_pc = Got_Rule n m\<rparr> \<longleftrightarrow> \<not> is_change w"
  "read_ok s \<lparr>wt_work = w, wt_pc = Drop_Rule n m\<rparr> \<longleftrightarrow> \<not> is_change w"
  "read_ok s \<lparr>wt_work = w, wt_pc = Stored_Change n c\<rparr> \<longleftrightarrow>
     is_change w \<and> \<not> is_listed w \<and> ws_stored s (work_issuer w) = Some c \<and> ws_unsynced s (work_issuer w)"
  "read_ok s \<lparr>wt_work = w, wt_pc = Read_Rule n m c x\<rparr> \<longleftrightarrow> \<not> is_change w \<and> find_current s (work_issuer w) (work_rule w) = Some (c, x)"
  by (simp_all add: read_ok_def)

lemma at_read: "read_inv s \<Longrightarrow> at s t w pc \<Longrightarrow> read_ok s \<lparr>wt_work = w, wt_pc = pc\<rparr>"
  using at_task unfolding read_inv_def by blast

lemma read_inv_goto:
  assumes "read_inv s" "at s t w pc" "read_ok (goto t pc' s) \<lparr>wt_work = w, wt_pc = pc'\<rparr>"
  shows "read_inv (goto t pc' s)"
  by (rule read_inv_same [OF assms(1,2) goto_tasks [OF assms(2)] _ _ assms(3)]) simp_all

lemma find_current_fields [simp]:
  "find_current (goto t pc s) = find_current s" "find_current (ask t k pc' s) = find_current s" "find_current (drop_held k s) = find_current s"
  "find_current (s\<lparr>ws_users := us\<rparr>) = find_current s" "find_current (s\<lparr>ws_unfinished := f\<rparr>) = find_current s"
  "find_current (dequeue u s) = find_current s" "find_current (s\<lparr>ws_tasks := ts\<rparr>) = find_current s"
  by (simp_all add: find_current_def fun_eq_iff)

lemma read_ok_fields [simp]:
  "read_ok (s\<lparr>ws_users := us\<rparr>) = read_ok s" "read_ok (s\<lparr>ws_unfinished := f\<rparr>) = read_ok s" "read_ok (drop_held k s) = read_ok s"
  "read_ok (dequeue u s) = read_ok s" "read_ok (s\<lparr>ws_tasks := ts\<rparr>) = read_ok s"
  by (simp_all add: fun_eq_iff read_ok_def cong: wl_pc.case_cong)

lemma read_inv_fields [simp]:
  "read_inv (s\<lparr>ws_users := us\<rparr>) = read_inv s" "read_inv (s\<lparr>ws_unfinished := f\<rparr>) = read_inv s" "read_inv (drop_held k s) = read_inv s"
  "read_inv (dequeue u s) = read_inv s"
  by (simp_all add: read_inv_def)

lemma read_inv_begin: "read_inv s \<Longrightarrow> read_inv (s\<lparr>ws_tasks := ws_tasks s @ [\<lparr>wt_work = w, wt_pc = Begun\<rparr>]\<rparr>)"
  by (auto simp: read_inv_def)

lemma read_inv_next: "read_inv s \<Longrightarrow> read_inv (s\<lparr>ws_tasks := (ws_tasks s)[t := next_listed c cs]\<rparr>)"
  by (cases cs) (auto simp: read_inv_def dest: set_update_subset_insert [THEN subsetD])

lemma read_inv_step: "wl_step A l s s' \<Longrightarrow> arcs_inv s \<Longrightarrow> exclusion_inv s \<Longrightarrow> read_inv s \<Longrightarrow> read_inv s'"
proof (induction rule: wl_step.induct)
  case (begin_work w i r s)
  then show ?case by (intro read_inv_begin)
next
  case (list_issuers s c cs)
  then show ?case by (intro read_inv_begin)
next
  case (ask_issuer s t w)
  then show ?case by (intro read_inv_same [OF _ _ ask_tasks]) auto
next
  case (ask_rule s t i r n)
  then show ?case by (intro read_inv_same [OF _ _ ask_tasks]) auto
next
  case (get_rule s t w n m)
  then show ?case using at_read [of s t w "Wait_Rule n m"] by (intro read_inv_goto [where w = w and pc = "Wait_Rule n m"]) auto
next
  case (store_change s t i n c)
  let ?s = "s\<lparr>ws_stored := (ws_stored s)(i \<mapsto> c), ws_unsynced := (ws_unsynced s)(i := True)\<rparr>"
  show ?case
    by (rule read_inv_change [OF store_change.prems store_change.hyps(1)])
      (use store_change.hyps(1) goto_tasks [of ?s t] in \<open>auto simp: holds_issuer_def\<close>)
next
  case (sync_users s t i n c)
  let ?s = "s\<lparr>ws_users := wl_sync A i (access_of_issuer c) (ws_users s), ws_unsynced := (ws_unsynced s)(i := False),
    ws_unfinished := set_of_issuer i (ws_unfinished s)\<rparr>"
  show ?case
    by (rule read_inv_change [OF sync_users.prems sync_users.hyps(1)])
      (use sync_users.hyps(1) goto_tasks [of ?s t] in \<open>auto simp: holds_issuer_def\<close>)
next
  case (delete_stored s t i n)
  let ?s = "s\<lparr>ws_stored := (ws_stored s)(i := None), ws_users := wl_delete A i (ws_users s), ws_unsynced := (ws_unsynced s)(i := False),
    ws_unfinished := set_of_issuer i (ws_unfinished s)\<rparr>"
  show ?case
    by (rule read_inv_change [OF delete_stored.prems delete_stored.hyps(1)])
      (use delete_stored.hyps(1) goto_tasks [of ?s t] in \<open>auto simp: holds_issuer_def\<close>)
next
  case (change_fails s t i pc n c stored us)
  let ?s = "s\<lparr>ws_stored := stored, ws_users := us, ws_unsynced := (ws_unsynced s)(i := True)\<rparr>"
  show ?case
    by (rule read_inv_change [OF change_fails.prems change_fails.hyps(1)])
      (use change_fails.hyps goto_tasks [of ?s t] in \<open>auto simp: holds_issuer_def\<close>)
next
  case (sync_listed s t c cs n)
  let ?s = "s\<lparr>ws_users := wl_sync A (ti_id c) (access_of_issuer c) (ws_users s),
    ws_unsynced := (ws_unsynced s)(ti_id c := ws_stored s (ti_id c) \<noteq> Some c), ws_unfinished := set_of_issuer (ti_id c) (ws_unfinished s)\<rparr>"
  show ?case
    by (rule read_inv_change [OF sync_listed.prems sync_listed.hyps(1)])
      (use sync_listed.hyps(1) goto_tasks [of ?s t] in \<open>auto simp: holds_issuer_def\<close>)
next
  case (sync_listed_fails s t c cs n us)
  let ?s = "s\<lparr>ws_users := us, ws_unsynced := (ws_unsynced s)(ti_id c := True)\<rparr>"
  show ?case
    by (rule read_inv_change [OF sync_listed_fails.prems sync_listed_fails.hyps(1)])
      (use sync_listed_fails.hyps(1) goto_tasks [of ?s t] in \<open>auto simp: holds_issuer_def\<close>)
next
  case (give_user s t w n m c x)
  then show ?case using at_read [of s t w "Read_Rule n m c x"]
    by (intro read_inv_goto [where w = w and pc = "Read_Rule n m c x"]) auto
next
  case (give_user_fails s t w n m c x us)
  then show ?case using at_read [of s t w "Read_Rule n m c x"]
    by (intro read_inv_goto [where w = w and pc = "Read_Rule n m c x"]) auto
next
  case (rule_gone s t i r n m)
  then show ?case by (intro read_inv_goto [where w = "Exchange i r" and pc = "Got_Rule n m"]) auto
next
  case (ends_with_rule s t w n m)
  then show ?case using at_read [of s t w "Got_Rule n m"] by (intro read_inv_goto [where w = w and pc = "Got_Rule n m"]) auto
next
  case (abandoned s t w pc n)
  then show ?case by (intro read_inv_goto [where w = w and pc = pc]) auto
next
  case (release_listed s t c cs n)
  then show ?case by (simp add: read_inv_next)
qed (unfold read_inv_fields, (rule read_inv_goto, (simp; fail), (unfold at_fields)?, assumption, (simp; fail))+)

section \<open>Users in line with their rules\<close>

lemma access_of_current:
  assumes "find_current s i r = Some (c, x)"
  shows "ws_stored s i = Some c" "wr_id x = r"
    "List.find (\<lambda>a. wa_rule_id a = r) (access_of_issuer c) =
      Some \<lparr>wa_rule_id = r, wa_groups = wr_groups x, wa_admin = wr_admin x, wa_enabled = True\<rparr>"
proof -
  have c: "ws_stored s i = Some c" "ti_enabled c" "List.find (\<lambda>x. wr_id x = r) (ti_rules c) = Some x" "wr_enabled x"
    "length (filter (\<lambda>y. wr_id y = wr_id x) (ti_rules c)) = 1" "validate_provider_id (wr_id x)"
    using assms by (auto simp: find_current_def split: option.splits if_splits)
  have x: "x \<in> set (ti_rules c)" "wr_id x = r" using c(3) by (auto simp: find_Some_iff)
  then show "ws_stored s i = Some c" "wr_id x = r" using c(1) by auto
  have "filter (\<lambda>y. wr_id y = r) (ti_rules c) = [x]"
  proof -
    obtain y where y: "filter (\<lambda>y. wr_id y = r) (ti_rules c) = [y]" using c(5) x(2) by (auto simp: length_Suc_conv)
    moreover have "x \<in> set (filter (\<lambda>y. wr_id y = r) (ti_rules c))" using x by simp
    ultimately show ?thesis by simp
  qed
  then have entry: "entry_of c (ti_rules c) r = \<lparr>wa_rule_id = r, wa_groups = wr_groups x, wa_admin = wr_admin x, wa_enabled = True\<rparr>"
    using c(2,4) by (simp add: entry_of_def)
  have inv: "r \<in> wa_rule_id ` set (access_of_issuer c)" "\<And>a. a \<in> set (access_of_issuer c) \<Longrightarrow> entry_of c (ti_rules c) (wa_rule_id a) = a"
    using access_of_issuer_inv [of c] c(6) x unfolding access_inv_def by auto
  then obtain a where a: "List.find (\<lambda>a. wa_rule_id a = r) (access_of_issuer c) = Some a"
    by (cases "List.find (\<lambda>a. wa_rule_id a = r) (access_of_issuer c)") (auto simp: find_None_iff)
  then have "a \<in> set (access_of_issuer c)" "wa_rule_id a = r" by (auto simp: find_Some_iff)
  then show "List.find (\<lambda>a. wa_rule_id a = r) (access_of_issuer c) =
      Some \<lparr>wa_rule_id = r, wa_groups = wr_groups x, wa_admin = wr_admin x, wa_enabled = True\<rparr>"
    using inv(2) entry a by metis
qed

lemma in_line_cong:
  "ws_stored s i = ws_stored s' i \<Longrightarrow> ws_unfinished s (i, r) = ws_unfinished s' (i, r) \<Longrightarrow> in_line s i r a = in_line s' i r a"
  by (simp add: in_line_def)

lemma users_inv_same:
  assumes "users_inv s" "ws_users s' = ws_users s" "ws_stored s' = ws_stored s" "ws_unsynced s' = ws_unsynced s"
    "ws_unfinished s' = ws_unfinished s"
  shows "users_inv s'"
  using assms in_line_cong [of s _ s'] by (simp add: users_inv_def)

text \<open>What is done for one issuer leaves the users of the others in line.\<close>

lemma users_inv_issuer:
  assumes "users_inv s"
    and "\<And>j r. j \<noteq> i \<Longrightarrow> ws_users s' (j, r) = ws_users s (j, r) \<and> ws_unfinished s' (j, r) = ws_unfinished s (j, r)"
    and "\<And>j. j \<noteq> i \<Longrightarrow> ws_stored s' j = ws_stored s j \<and> ws_unsynced s' j = ws_unsynced s j"
    and "\<And>r a. ws_users s' (i, r) = Some a \<Longrightarrow> \<not> ws_unsynced s' i \<Longrightarrow> in_line s' i r a"
  shows "users_inv s'"
  unfolding users_inv_def
proof (intro allI impI)
  fix j r a assume a: "ws_users s' (j, r) = Some a \<and> \<not> ws_unsynced s' j"
  show "in_line s' j r a"
  proof (cases "j = i")
    case False
    then show ?thesis using a assms(1) assms(2) [of j r] assms(3) [of j] in_line_cong [of s j s' r a] by (simp add: users_inv_def)
  qed (use a assms(4) in simp)
qed

lemma synced_in_line:
  assumes "app_laws A" "wl_sync A i (access_of_issuer c) us (i, r) = Some a" "ws_stored s i = Some c"
  shows "in_line s i r a"
  using assms by (auto simp: in_line_def access_in_def app_laws_def split: if_splits)

lemma users_inv_step:
  assumes "wl_step A l s s'" "app_laws A" "read_inv s" "users_inv s"
  shows "users_inv s'"
  using assms(1,3,4)
proof (induction rule: wl_step.induct)
  case (give_user s t w n m c x)
  let ?i = "work_issuer w" and ?r = "wr_id x"
  have "find_current s ?i (work_rule w) = Some (c, x)" using at_read [OF give_user.prems(1) give_user.hyps] by simp
  note c = access_of_current [OF this]
  have law: "wl_get_or_create A ?i x us k = (if k \<noteq> (?i, ?r) then us k
      else Some \<lparr>wa_rule_id = ?r, wa_groups = wr_groups x, wa_admin = wr_admin x,
        wa_enabled = (case us k of None \<Rightarrow> True | Some a \<Rightarrow> wa_enabled a)\<rparr>)" for us k
    using assms(2) unfolding app_laws_def by blast
  have enabled: "wa_enabled a" if "ws_users s (?i, ?r) = Some a" "\<not> ws_unsynced s ?i" for a
  proof -
    have "in_line s ?i ?r a" using give_user.prems(2) that by (simp add: users_inv_def)
    then show ?thesis using c by (auto simp: in_line_def access_in_def)
  qed
  let ?s = "s\<lparr>ws_users := wl_get_or_create A ?i x (ws_users s), ws_unfinished := (ws_unfinished s)((?i, ?r) := False)\<rparr>"
  show ?case
  proof (rule users_inv_issuer [OF give_user.prems(2), of ?i])
    fix r a assume a: "ws_users (goto t (Drop_Rule n m) ?s) (?i, r) = Some a" "\<not> ws_unsynced (goto t (Drop_Rule n m) ?s) ?i"
    show "in_line (goto t (Drop_Rule n m) ?s) ?i r a"
    proof (cases "r = ?r")
      case True
      then have "a = \<lparr>wa_rule_id = ?r, wa_groups = wr_groups x, wa_admin = wr_admin x, wa_enabled = True\<rparr>"
        using a enabled by (auto simp: law split: option.splits)
      then show ?thesis using True c by (simp add: in_line_def access_in_def)
    next
      case False
      then show ?thesis using a give_user.prems(2) by (simp add: law users_inv_def in_line_def)
    qed
  qed (auto simp: law)
next
  case (give_user_fails s t w n m c x us)
  let ?i = "work_issuer w" and ?r = "wr_id x"
  have "find_current s ?i (work_rule w) = Some (c, x)" using at_read [OF give_user_fails.prems(1) give_user_fails.hyps(1)] by simp
  note c = access_of_current [OF this]
  let ?s = "s\<lparr>ws_users := us, ws_unfinished := (ws_unfinished s)((?i, ?r) := True)\<rparr>"
  show ?case
  proof (rule users_inv_issuer [OF give_user_fails.prems(2), of ?i])
    fix r a assume a: "ws_users (goto t (Drop_Rule n m) ?s) (?i, r) = Some a" "\<not> ws_unsynced (goto t (Drop_Rule n m) ?s) ?i"
    show "in_line (goto t (Drop_Rule n m) ?s) ?i r a"
    proof (cases "r = ?r")
      case True
      have "wa_enabled b" if "ws_users s (?i, ?r) = Some b" for b
      proof -
        have "in_line s ?i ?r b" using give_user_fails.prems(2) that a(2) by (simp add: users_inv_def)
        then show ?thesis using c by (auto simp: in_line_def access_in_def)
      qed
      then have "wa_enabled a" using a(1) True give_user_fails.hyps(3) [of a] by (auto split: option.splits)
      then show ?thesis using True c by (simp add: in_line_def access_in_def)
    next
      case False
      then show ?thesis using a give_user_fails.hyps(2) [of "(?i, r)"] give_user_fails.prems(2) by (simp add: users_inv_def in_line_def)
    qed
  qed (use give_user_fails.hyps(2) in auto)
next
  case (store_change s t i n c)
  show ?case by (rule users_inv_issuer [OF store_change.prems(2), of i]) auto
next
  case (sync_users s t i n c)
  have stored: "ws_stored s i = Some c" using at_read [OF sync_users.prems(1) sync_users.hyps] by simp
  have "wl_sync A i acc us (j, r) = us (j, r)" if "j \<noteq> i" for acc us j r using assms(2) that by (simp add: app_laws_def)
  then show ?case
    using synced_in_line [OF assms(2)] stored by (intro users_inv_issuer [OF sync_users.prems(2), of i]) (auto simp: set_of_issuer_def)
next
  case (delete_stored s t i n)
  have "wl_delete A i us (j, r) = (if j = i then None else us (j, r))" for us j r using assms(2) by (simp add: app_laws_def)
  then show ?case by (intro users_inv_issuer [OF delete_stored.prems(2), of i]) (auto simp: set_of_issuer_def)
next
  case (change_fails s t i pc n c stored us)
  then show ?case by (intro users_inv_issuer [OF change_fails.prems(2), of i]) auto
next
  case (sync_listed s t c cs n)
  have "wl_sync A (ti_id c) acc us (j, r) = us (j, r)" if "j \<noteq> ti_id c" for acc us j r using assms(2) that by (simp add: app_laws_def)
  then show ?case using synced_in_line [OF assms(2), of "ti_id c" c]
    by (intro users_inv_issuer [OF sync_listed.prems(2), of "ti_id c"]) (auto simp: set_of_issuer_def)
next
  case (sync_listed_fails s t c cs n us)
  then show ?case by (intro users_inv_issuer [OF sync_listed_fails.prems(2), of "ti_id c"]) auto
qed (erule users_inv_same, (simp; fail), (simp; fail), (simp; fail), (simp; fail))+

lemma wl_reachable_inv: "wl_reachable A L s \<Longrightarrow> app_laws A \<Longrightarrow> arcs_inv s \<and> exclusion_inv s \<and> read_inv s \<and> users_inv s"
proof (induction rule: wl_reachable.induct)
  case (init stored)
  then show ?case by (simp add: wl_init_def arcs_inv_def exclusion_inv_def read_inv_def users_inv_def)
next
  case (step s l s')
  then show ?case using arcs_inv_step exclusion_step read_inv_step users_inv_step by meson
qed

text \<open>While no call to the app fails and the app doesn't start up, only a change between storing and syncing is not synced.\<close>

definition calm :: "wl_system \<Rightarrow> bool" where
  "calm s \<longleftrightarrow> (\<forall>i. ws_unsynced s i \<longrightarrow> (\<exists>t n c. at s t (Change i) (Stored_Change n c))) \<and> (\<forall>k. \<not> ws_unfinished s k) \<and>
     (\<forall>t \<in> set (ws_tasks s). \<not> is_listed (wt_work t))"

lemma calm_update:
  assumes "calm s" "at s t w pc" "ws_tasks s' = (ws_tasks s)[t := \<lparr>wt_work = w, wt_pc = pc'\<rparr>]"
    and "\<And>i. ws_unsynced s' i \<Longrightarrow> w = Change i \<and> (\<exists>n c. pc' = Stored_Change n c) \<or>
      ws_unsynced s i \<and> (w = Change i \<longrightarrow> (\<forall>n c. pc \<noteq> Stored_Change n c))"
    and "\<And>k. ws_unfinished s' k \<Longrightarrow> ws_unfinished s k"
  shows "calm s'"
proof -
  have w: "\<not> is_listed w" using assms(1) at_task [OF assms(2)] unfolding calm_def by (metis wl_task.select_convs(1))
  have tasks: "\<not> is_listed (wt_work u)" if "u \<in> set (ws_tasks s')" for u
    using that assms(1) w set_update_subset_insert [of "ws_tasks s" t] unfolding assms(3) calm_def by fastforce
  have "\<exists>u n c. at s' u (Change i) (Stored_Change n c)" if i: "ws_unsynced s' i" for i
    using assms(4) [OF i]
  proof
    assume "w = Change i \<and> (\<exists>n c. pc' = Stored_Change n c)"
    then show ?thesis using assms(2,3) unfolding at_def by (metis length_list_update nth_list_update_eq)
  next
    assume other: "ws_unsynced s i \<and> (w = Change i \<longrightarrow> (\<forall>n c. pc \<noteq> Stored_Change n c))"
    then obtain u n c where u: "at s u (Change i) (Stored_Change n c)" using assms(1) unfolding calm_def by blast
    then have "u \<noteq> t" using other assms(2) by (auto simp: at_def)
    then show ?thesis using u assms(3) unfolding at_def by (metis length_list_update nth_list_update_neq)
  qed
  then show ?thesis using assms(1,5) tasks by (auto simp: calm_def)
qed

lemma calm_goto:
  assumes "calm s" "at s t w pc" "\<And>n c. pc \<noteq> Stored_Change n c"
  shows "calm (goto t pc' s)"
  by (rule calm_update [OF assms(1,2) goto_tasks [OF assms(2)]]) (use assms(3) in auto)

lemma calm_fields [simp]:
  "calm (dequeue t s) = calm s" "calm (drop_held k s) = calm s" "calm (s\<lparr>ws_users := us\<rparr>) = calm s"
  by (simp_all add: calm_def at_def)

lemma at_drop_held [simp]: "at (drop_held k s) = at s"
  by (simp add: at_def fun_eq_iff)

lemma calm_step: "wl_step A l s s' \<Longrightarrow> l \<notin> {Starts_Up, Ends_Early} \<Longrightarrow> calm s \<Longrightarrow> calm s'"
proof (induction rule: wl_step.induct)
  case (begin_work w i r s)
  have "at (s\<lparr>ws_tasks := ws_tasks s @ [u]\<rparr>) t v pc" if "at s t v pc" for t u v pc
    using that by (simp add: at_def nth_append)
  then show ?case using begin_work by (auto simp: calm_def) blast+
next
  case (ask_issuer s t w)
  then show ?case by (intro calm_update [OF _ _ ask_tasks]) auto
next
  case (ask_rule s t i r n)
  then show ?case by (intro calm_update [OF _ _ ask_tasks]) auto
next
  case (abandoned s t w pc n)
  then show ?case by (intro calm_goto [where w = w and pc = pc]) auto
next
  case (give_user s t w n m c x)
  show ?case by (rule calm_update [OF give_user.prems(2) give_user.hyps(1), where pc' = "Drop_Rule n m"])
    (use give_user.hyps(1) in \<open>auto simp: goto_def at_def split: if_splits\<close>)
next
  case (store_change s t i n c)
  show ?case by (rule calm_update [OF store_change.prems(2) store_change.hyps(1), where pc' = "Stored_Change n c"])
    (use store_change.hyps(1) in \<open>auto simp: goto_def at_def set_of_issuer_def split: if_splits\<close>)
next
  case (sync_users s t i n c)
  show ?case by (rule calm_update [OF sync_users.prems(2) sync_users.hyps(1), where pc' = "Drop_Issuer n"])
    (use sync_users.hyps(1) in \<open>auto simp: goto_def at_def set_of_issuer_def split: if_splits\<close>)
next
  case (delete_stored s t i n)
  show ?case by (rule calm_update [OF delete_stored.prems(2) delete_stored.hyps(1), where pc' = "Drop_Issuer n"])
    (use delete_stored.hyps(1) in \<open>auto simp: goto_def at_def set_of_issuer_def split: if_splits\<close>)
next
  case (sync_listed s t c cs n)
  then show ?case using at_task [OF sync_listed.hyps(1)] by (auto simp: calm_def)
next
  case (release_listed s t c cs n)
  then show ?case using at_task [OF release_listed.hyps(1)] by (auto simp: calm_def)
qed ((simp; fail) | ((unfold calm_fields)?, rule calm_goto, (simp; fail), (unfold at_fields)?, assumption, (simp; fail)))+

lemma calm_reachable: "wl_reachable A L s \<Longrightarrow> L \<subseteq> {Begins, Goes_On, Abandoned} \<Longrightarrow> calm s"
proof (induction rule: wl_reachable.induct)
  case (init stored)
  then show ?case by (simp add: wl_init_def calm_def)
next
  case (step s l s')
  then have "l \<notin> {Starts_Up, Ends_Early}" "calm s" by auto
  then show ?case using calm_step step.hyps(3) by blast
qed

section \<open>Exchanges under changes\<close>

lemma issuer_arc_locked:
  assumes "arcs_inv s" "at s t w pc" "issuer_arc pc = Some n"
  shows "ws_locks s (Issuer_Lock (work_issuer w)) = Some n"
proof -
  have "(Issuer_Lock (work_issuer w), n) \<in> arcs_of \<lparr>wt_work = w, wt_pc = pc\<rparr>" using assms(3) by (simp add: arcs_of_def)
  then show ?thesis using assms(1) at_task [OF assms(2)] unfolding arcs_inv_def by blast
qed

lemma rule_arc_locked:
  assumes "arcs_inv s" "at s t w pc" "rule_arc pc = Some m"
  shows "ws_locks s (Rule_Lock (work_issuer w) (work_rule w)) = Some m"
proof -
  have "(Rule_Lock (work_issuer w) (work_rule w), m) \<in> arcs_of \<lparr>wt_work = w, wt_pc = pc\<rparr>" using assms(3) by (simp add: arcs_of_def)
  then show ?thesis using assms(1) at_task [OF assms(2)] unfolding arcs_inv_def by blast
qed

text \<open>
  C35: whatever exchanges, changes and start-up syncs of trusted issuers run at once. In every run in which no call to the app fails
  and the app doesn't start up, a user of a rule has the access the stored rule gives it, and no user outlives its rule, except while
  a change of the issuer is between storing it and syncing its users. When calls fail or requests are dropped in their midst, users of
  an issuer are in line unless its last change or sync was not completed or synced an issuer as listed before it was changed:
  each is enabled exactly when its rule is, none outlives its rule, and it has the rule's access unless the last call which
  gave it was not completed. Two exchanges of a rule are never both between reading it and giving its user
  access, and none is while a change or sync of the issuer has its lock.
\<close>

theorem workload_users_follow_rules:
  assumes "wl_reachable A L s" "app_laws A"
  shows "(L \<subseteq> {Begins, Goes_On, Abandoned} \<longrightarrow> (\<forall>i r a. ws_users s (i, r) = Some a \<longrightarrow>
      access_in (ws_stored s i) r = Some a \<or> (\<exists>t n c. at s t (Change i) (Stored_Change n c)))) \<and>
    (\<forall>i r a. ws_users s (i, r) = Some a \<and> \<not> ws_unsynced s i \<longrightarrow>
      (\<exists>b. access_in (ws_stored s i) r = Some b \<and> wa_enabled a = wa_enabled b \<and> (\<not> ws_unfinished s (i, r) \<longrightarrow> a = b))) \<and>
    (\<forall>t u i r n m c x. at s t (Exchange i r) (Read_Rule n m c x) \<and> u \<noteq> t \<longrightarrow>
      \<not> (\<exists>n' m' c' x'. at s u (Exchange i r) (Read_Rule n' m' c' x')) \<and>
      (\<forall>w pc. at s u w pc \<and> is_change w \<and> work_issuer w = i \<longrightarrow> pc = Begun \<or> (\<exists>n'. pc = Wait_Issuer n') \<or> pc = Finished))"
proof (intro conjI)
  note inv = wl_reachable_inv [OF assms]
  show general: "\<forall>i r a. ws_users s (i, r) = Some a \<and> \<not> ws_unsynced s i \<longrightarrow>
      (\<exists>b. access_in (ws_stored s i) r = Some b \<and> wa_enabled a = wa_enabled b \<and> (\<not> ws_unfinished s (i, r) \<longrightarrow> a = b))"
    using inv by (simp add: users_inv_def in_line_def)
  show "L \<subseteq> {Begins, Goes_On, Abandoned} \<longrightarrow> (\<forall>i r a. ws_users s (i, r) = Some a \<longrightarrow>
      access_in (ws_stored s i) r = Some a \<or> (\<exists>t n c. at s t (Change i) (Stored_Change n c)))"
  proof (intro impI allI)
    fix i r a assume "L \<subseteq> {Begins, Goes_On, Abandoned}" and user: "ws_users s (i, r) = Some a"
    then have "calm s" using calm_reachable [OF assms(1)] by blast
    then have calm: "ws_unsynced s i \<longrightarrow> (\<exists>t n c. at s t (Change i) (Stored_Change n c))" "\<not> ws_unfinished s (i, r)"
      unfolding calm_def by blast+
    show "access_in (ws_stored s i) r = Some a \<or> (\<exists>t n c. at s t (Change i) (Stored_Change n c))"
      using calm user general by (cases "ws_unsynced s i") auto
  qed
  have rule: "False" if t: "at s t (Exchange i r) (Read_Rule n m c x)" and u: "at s u (Exchange i r) (Read_Rule n' m' c' x')" "u \<noteq> t"
    for t u i r n m c x n' m' c' x'
  proof -
    have "ws_locks s (Rule_Lock i r) = Some m" "ws_locks s (Rule_Lock i r) = Some m'"
      using rule_arc_locked [OF _ t] rule_arc_locked [OF _ u(1)] inv by simp_all
    moreover have "apart_tasks \<lparr>wt_work = Exchange i r, wt_pc = Read_Rule n m c x\<rparr> (ws_tasks s ! u)"
      using inv t u by (intro exclusionD [of s t]) (auto simp: at_def)
    ultimately show False using u(1) by (auto simp: apart_tasks_def holds_rule_def at_def)
  qed
  have change: "pc = Begun \<or> (\<exists>n'. pc = Wait_Issuer n') \<or> pc = Finished"
    if t: "at s t (Exchange i r) (Read_Rule n m c x)" and u: "at s u w pc" "is_change w" "work_issuer w = i" "u \<noteq> t"
    for t u i r n m c x w pc
  proof (rule ccontr)
    assume "\<not> (pc = Begun \<or> (\<exists>n'. pc = Wait_Issuer n') \<or> pc = Finished)"
    then have "holds_issuer \<lparr>wt_work = w, wt_pc = pc\<rparr> \<noteq> None" by (cases pc) (auto simp: holds_issuer_def)
    moreover have "holds_issuer (ws_tasks s ! t) \<noteq> None" "work_issuer (wt_work (ws_tasks s ! t)) = i" "t < length (ws_tasks s)"
      using t by (auto simp: at_def holds_issuer_def)
    ultimately show False using change_alone [of s u w pc t] inv u by metis
  qed
  show "\<forall>t u i r n m c x. at s t (Exchange i r) (Read_Rule n m c x) \<and> u \<noteq> t \<longrightarrow>
      \<not> (\<exists>n' m' c' x'. at s u (Exchange i r) (Read_Rule n' m' c' x')) \<and>
      (\<forall>w pc. at s u w pc \<and> is_change w \<and> work_issuer w = i \<longrightarrow> pc = Begun \<or> (\<exists>n'. pc = Wait_Issuer n') \<or> pc = Finished)"
    by (intro allI impI conjI notI; elim conjE exE) (erule (2) rule, erule (4) change)
qed

section \<open>Going on\<close>

lemma not_change: "\<not> is_change w \<Longrightarrow> \<exists>i r. w = Exchange i r"
  by (cases w) auto

lemma holder_goes_on:
  assumes "read_inv s" "u \<in> set (ws_tasks s)" "wt_pc u \<noteq> Finished" "awaited (wt_pc u) = None"
  shows "\<exists>s'. wl_step A Goes_On s s'"
proof -
  obtain k where k: "at s k (wt_work u) (wt_pc u)" using task_at [OF assms(2)] by blast
  note ok = at_read [OF assms(1) k]
  show ?thesis
  proof (cases "wt_pc u")
    case Begun
    then show ?thesis using k ask_issuer by metis
  next
    case (Got_Issuer n)
    show ?thesis
    proof (cases "wt_work u")
      case (Exchange i r)
      then show ?thesis using k Got_Issuer ask_rule by metis
    next
      case (Change i)
      then show ?thesis using k Got_Issuer issuer_gone delete_stored by metis
    next
      case (Sync_Listed c cs)
      then show ?thesis using k Got_Issuer sync_listed by metis
    qed
  next
    case (Got_Rule n m)
    then obtain i r where w: "wt_work u = Exchange i r" using ok by (cases "wt_work u") auto
    show ?thesis
    proof (cases "find_current s i r")
      case None
      then show ?thesis using k Got_Rule w rule_gone by metis
    next
      case (Some y)
      then show ?thesis using k Got_Rule w read_current [of s k i r n m "fst y" "snd y"] by auto
    qed
  next
    case (Read_Rule n m c x)
    then show ?thesis using k give_user by metis
  next
    case (Stored_Change n c)
    then obtain i where "wt_work u = Change i" using ok by (cases "wt_work u") auto
    then show ?thesis using k Stored_Change sync_users by metis
  next
    case (Drop_Rule n m)
    then show ?thesis using k release_rule by metis
  next
    case (Drop_Issuer n)
    then show ?thesis using k release_issuer by metis
  next
    case (Next_Issuer n)
    then obtain c cs where "wt_work u = Sync_Listed c cs" using ok by (cases "wt_work u") auto
    then show ?thesis using k Next_Issuer release_listed by metis
  qed (use assms in auto)
qed

text \<open>Of those who wait for a lock one is the first.\<close>

lemma first_waiter:
  assumes "waits_at s n t"
  shows "\<exists>u. waits_at s n u \<and> first_to_wait s u n"
proof (cases "\<exists>u \<in> set (ws_queue s). waits_at s n u")
  case True
  then obtain ys u zs where u: "ws_queue s = ys @ u # zs" "waits_at s n u" "\<forall>y \<in> set ys. \<not> waits_at s n y"
    using split_list_first_prop [OF True] by blast
  have "u \<notin> set ys" using u(2,3) by blast
  then have "takeWhile (\<lambda>v. v \<noteq> u) (ws_queue s) = ys" unfolding u(1) by (subst takeWhile_append2) auto
  then show ?thesis using u by (auto simp: first_to_wait_def list_ex_iff)
next
  case False
  then have "first_to_wait s t n" by (auto simp: first_to_wait_def list_ex_iff dest: set_takeWhileD)
  then show ?thesis using assms by blast
qed

lemma rule_waiter_goes_on:
  assumes "read_inv s" "arcs_inv s" "u \<in> set (ws_tasks s)" "wt_pc u = Wait_Rule n m"
  shows "\<exists>s'. wl_step A Goes_On s s'"
proof (cases "list_ex (\<lambda>v. holds_rule v = Some m) (ws_tasks s)")
  case True
  then obtain v where v: "v \<in> set (ws_tasks s)" "holds_rule v = Some m" by (auto simp: list_ex_iff)
  then show ?thesis by (intro holder_goes_on [OF assms(1) v(1)]) (auto simp: holds_rule_def split: wl_pc.splits)
next
  case False
  obtain k where k: "at s k (wt_work u) (Wait_Rule n m)" using task_at [OF assms(3)] assms(4) by auto
  then have "waits_at s m k" by (auto simp: waits_at_def at_def)
  then obtain j where j: "waits_at s m j" "first_to_wait s j m" using first_waiter by blast
  define v where "v = ws_tasks s ! j"
  have v: "at s j (wt_work v) (wt_pc v)" "awaited (wt_pc v) = Some m" using j(1) by (simp_all add: v_def waits_at_def at_def)
  have "\<exists>n'. wt_pc v = Wait_Rule n' m"
  proof (rule ccontr)
    assume "\<not> ?thesis"
    then have "wt_pc v = Wait_Issuer m" using v(2) by (cases "wt_pc v") auto
    then have "ws_locks s (Issuer_Lock (work_issuer (wt_work v))) = Some m"
      using issuer_arc_locked [OF assms(2) v(1)] by simp
    moreover have "ws_locks s (Rule_Lock (work_issuer (wt_work u)) (work_rule (wt_work u))) = Some m"
      using rule_arc_locked [OF assms(2) k] by simp
    ultimately show False using assms(2) unfolding arcs_inv_def inj_on_def by (metis domI lock_key.distinct(1))
  qed
  then show ?thesis using v(1) j(2) False get_rule [of s j "wt_work v" _ m A] by (fastforce simp: rule_free_def)
qed

lemma task_goes_on:
  assumes "read_inv s" "arcs_inv s" "t \<in> set (ws_tasks s)" "wt_pc t \<noteq> Finished"
  shows "\<exists>s'. wl_step A Goes_On s s'"
proof (cases "\<exists>n. wt_pc t = Wait_Issuer n")
  case False
  then show ?thesis using holder_goes_on [OF assms(1,3,4)] rule_waiter_goes_on [OF assms(1,2,3)] by (cases "wt_pc t") auto
next
  case True
  then obtain n where n: "wt_pc t = Wait_Issuer n" by blast
  show ?thesis
  proof (cases "list_ex (\<lambda>v. holds_issuer v = Some n) (ws_tasks s)")
    case True
    then obtain v where v: "v \<in> set (ws_tasks s)" "holds_issuer v = Some n" by (auto simp: list_ex_iff)
    then show ?thesis using holder_goes_on [OF assms(1) v(1)] rule_waiter_goes_on [OF assms(1,2) v(1)]
      by (cases "wt_pc v") (auto simp: holds_issuer_def)
  next
    case False
    obtain k where k: "at s k (wt_work t) (Wait_Issuer n)" using task_at [OF assms(3)] n by auto
    then have "waits_at s n k" by (auto simp: waits_at_def at_def)
    then obtain j where j: "waits_at s n j" "first_to_wait s j n" using first_waiter by blast
    define v where "v = ws_tasks s ! j"
    have v: "at s j (wt_work v) (wt_pc v)" "awaited (wt_pc v) = Some n" using j(1) by (simp_all add: v_def waits_at_def at_def)
    have "wt_pc v = Wait_Issuer n"
    proof (rule ccontr)
      assume "wt_pc v \<noteq> Wait_Issuer n"
      then obtain n' where "wt_pc v = Wait_Rule n' n" using v(2) by (cases "wt_pc v") auto
      then have "ws_locks s (Rule_Lock (work_issuer (wt_work v)) (work_rule (wt_work v))) = Some n"
        using rule_arc_locked [OF assms(2) v(1)] by simp
      moreover have "ws_locks s (Issuer_Lock (work_issuer (wt_work t))) = Some n"
        using issuer_arc_locked [OF assms(2) k] by simp
      ultimately show False using assms(2) unfolding arcs_inv_def inj_on_def by (metis domI lock_key.distinct(1))
    qed
    moreover have "issuer_free s j w n" for w using j(2) False by (auto simp: issuer_free_def list_ex_iff)
    ultimately show ?thesis using v(1) get_issuer [of s j "wt_work v" n A] by auto
  qed
qed

text \<open>How far a task is from its end; every step of going on brings one task nearer.\<close>

fun pc_rank :: "wl_pc \<Rightarrow> nat" where
  "pc_rank Begun = 8"
| "pc_rank (Wait_Issuer n) = 7"
| "pc_rank (Got_Issuer n) = 6"
| "pc_rank (Wait_Rule n m) = 5"
| "pc_rank (Got_Rule n m) = 4"
| "pc_rank (Read_Rule n m c x) = 3"
| "pc_rank (Stored_Change n c) = 3"
| "pc_rank (Drop_Rule n m) = 2"
| "pc_rank (Drop_Issuer n) = 1"
| "pc_rank (Next_Issuer n) = 1"
| "pc_rank Finished = 0"

fun issuers_of :: "wl_work \<Rightarrow> nat" where
  "issuers_of (Sync_Listed c cs) = Suc (length cs)"
| "issuers_of _ = 1"

definition task_rank :: "wl_task \<Rightarrow> nat" where
  "task_rank t = 8 * (issuers_of (wt_work t) - 1) + pc_rank (wt_pc t)"

definition all_ranks :: "wl_system \<Rightarrow> nat" where
  "all_ranks s = sum_list (map task_rank (ws_tasks s))"

lemma ranks_update:
  assumes "at s t w pc" "ws_tasks s' = (ws_tasks s)[t := u]" "task_rank u < task_rank \<lparr>wt_work = w, wt_pc = pc\<rparr>"
  shows "all_ranks s' < all_ranks s"
proof -
  have t: "t < length (ws_tasks s)" "ws_tasks s ! t = \<lparr>wt_work = w, wt_pc = pc\<rparr>" using assms(1) by (simp_all add: at_def)
  then have "task_rank (ws_tasks s ! t) \<le> all_ranks s"
    unfolding all_ranks_def by (metis elem_le_sum_list length_map nth_map)
  then show ?thesis using t assms(3) by (simp add: all_ranks_def assms(2) map_update sum_list_update)
qed

lemma ranks_goto:
  assumes "at s t w pc" "pc_rank pc' < pc_rank pc" "ws_tasks s' = (ws_tasks s)[t := (ws_tasks s ! t)\<lparr>wt_pc := pc'\<rparr>]"
  shows "all_ranks s' < all_ranks s"
proof (rule ranks_update [OF assms(1,3)])
  have "ws_tasks s ! t = \<lparr>wt_work = w, wt_pc = pc\<rparr>" using assms(1) by (simp add: at_def)
  then show "task_rank ((ws_tasks s ! t)\<lparr>wt_pc := pc'\<rparr>) < task_rank \<lparr>wt_work = w, wt_pc = pc\<rparr>"
    using assms(2) by (simp add: task_rank_def)
qed

lemma ranks_to: "at s t w pc \<Longrightarrow> pc_rank pc' < pc_rank pc \<Longrightarrow> ws_tasks s2 = ws_tasks s \<Longrightarrow> all_ranks (goto t pc' s2) < all_ranks s"
  by (erule ranks_goto, assumption) (simp add: goto_def)

lemma ranks_drop: "all_ranks (drop_held k s) = all_ranks s"
  by (simp add: all_ranks_def)

lemma goes_on_nearer: "wl_step A l s s' \<Longrightarrow> l = Goes_On \<Longrightarrow> all_ranks s' < all_ranks s"
proof (induction rule: wl_step.induct)
  case (ask_issuer s t w)
  then show ?case by (intro ranks_goto [OF ask_issuer.hyps]) simp_all
next
  case (ask_rule s t i r n)
  then show ?case by (intro ranks_goto [OF ask_rule.hyps]) simp_all
next
  case (release_listed s t c cs n)
  have "task_rank (next_listed c cs) < task_rank \<lparr>wt_work = Sync_Listed c cs, wt_pc = Next_Issuer n\<rparr>"
    by (cases cs) (simp_all add: task_rank_def)
  then show ?case by (intro ranks_update [OF release_listed.hyps, of _ "next_listed c cs"]) simp_all
qed ((simp; fail) | ((unfold ranks_drop)?, erule ranks_to, (simp; fail), (simp; fail)))+

lemma ranks_bound: "all_ranks s \<le> 8 * sum_list (map (\<lambda>t. issuers_of (wt_work t)) (ws_tasks s))"
proof -
  have "task_rank t \<le> 8 * issuers_of (wt_work t)" for t
  proof -
    have "pc_rank (wt_pc t) \<le> 8" by (cases "wt_pc t") auto
    moreover have "1 \<le> issuers_of (wt_work t)" by (cases "wt_work t") auto
    ultimately show ?thesis by (simp add: task_rank_def)
  qed
  then have "sum_list (map task_rank ts) \<le> 8 * sum_list (map (\<lambda>t. issuers_of (wt_work t)) ts)" for ts
    by (induction ts) (simp_all add: add_mono)
  then show ?thesis by (simp add: all_ranks_def)
qed

lemma goes_on_reachable: "(wl_step A Goes_On ^^ n) s s' \<Longrightarrow> wl_reachable A L s \<Longrightarrow> wl_reachable A UNIV s' \<and> n + all_ranks s' \<le> all_ranks s"
proof (induction n arbitrary: s')
  case 0
  have "wl_reachable A UNIV s" using 0(2) by (induction rule: wl_reachable.induct) (auto intro: wl_reachable.intros)
  then show ?case using 0 by simp
next
  case (Suc n)
  then obtain s1 where s1: "(wl_step A Goes_On ^^ n) s s1" "wl_step A Goes_On s1 s'" by auto
  then have "wl_reachable A UNIV s1 \<and> n + all_ranks s1 \<le> all_ranks s" using Suc by blast
  then show ?case using wl_reachable.step [of A UNIV s1 Goes_On s'] s1(2) goes_on_nearer [OF s1(2)] by auto
qed

text \<open>
  C36: the locks neither deadlock nor keep tasks going forever. From any state which exchanges, changes and start-up syncs, errors and
  dropped requests lead to, let the tasks there are go on in any order, each call to the app answered: after at most eight steps for
  each issuer a task goes through nothing can go on any more, and when nothing can, all tasks have finished. An exchange
  waits behind a change which waits for the same issuer, as the locks are fair.
\<close>

theorem workload_locks_go_on:
  assumes "wl_reachable A L s" "app_laws A" "(wl_step A Goes_On ^^ n) s s'"
  shows "n \<le> 8 * sum_list (map (\<lambda>t. issuers_of (wt_work t)) (ws_tasks s)) \<and>
    ((\<exists>s''. wl_step A Goes_On s' s'') \<or> list_all (\<lambda>t. wt_pc t = Finished) (ws_tasks s'))"
proof -
  have s': "wl_reachable A UNIV s'" "n + all_ranks s' \<le> all_ranks s" using goes_on_reachable [OF assms(3,1)] by auto
  have "read_inv s'" "arcs_inv s'" using wl_reachable_inv [OF s'(1) assms(2)] by auto
  then have "(\<exists>s''. wl_step A Goes_On s' s'') \<or> list_all (\<lambda>t. wt_pc t = Finished) (ws_tasks s')"
    using task_goes_on [of s'] unfolding list_all_iff by blast
  then show ?thesis using s'(2) ranks_bound [of s] by simp
qed

text \<open>
  A waiting request which is dropped leaves the maps as they are: the lock of one whose holder is gone stays in its map until the
  next task of the key.
\<close>

inductive_cases abandonedE: "wl_step A Abandoned s s'"

lemma abandoned_keeps_entry: "wl_step A Abandoned s s' \<Longrightarrow> ws_locks s' = ws_locks s"
  by (auto elim: abandonedE)

section \<open>A demonstration\<close>

text \<open>An app which does what is promised; an exchange whose user gets the access of its rule, and a change which waits for it.\<close>

definition demo_app :: wl_app where
  "demo_app = \<lparr>wl_sync = (\<lambda>i access us k. if fst k \<noteq> i \<or> us k = None then us k else List.find (\<lambda>a. wa_rule_id a = snd k) access),
     wl_get_or_create = (\<lambda>i x us k. if k \<noteq> (i, wr_id x) then us k
       else Some \<lparr>wa_rule_id = wr_id x, wa_groups = wr_groups x, wa_admin = wr_admin x,
         wa_enabled = (case us k of None \<Rightarrow> True | Some a \<Rightarrow> wa_enabled a)\<rparr>),
     wl_delete = (\<lambda>i us k. if fst k = i then None else us k)\<rparr>"

lemma demo_app_laws: "app_laws demo_app"
  by (simp add: app_laws_def demo_app_def)

definition demo_locked :: trusted_issuer where
  "demo_locked = \<lparr>ti_id = ''ci'', ti_name = ''CI'', ti_enabled = True, ti_issuer = ''https://ci/'', ti_keys = Discovery,
     ti_audiences = [''app''], ti_max_token_age_secs = 300, ti_rules = [demo_rule]\<rparr>"

definition demo_run :: "wl_pc \<Rightarrow> wl_pc \<Rightarrow> wl_system \<Rightarrow> bool" where
  "demo_run pc pc' s \<longleftrightarrow> wl_reachable demo_app {Begins, Goes_On} s \<and>
     ws_tasks s = [\<lparr>wt_work = Exchange ''ci'' ''r1'', wt_pc = pc\<rparr>, \<lparr>wt_work = Change ''ci'', wt_pc = pc'\<rparr>] \<and>
     ws_stored s ''ci'' = Some demo_locked \<and> \<not> ws_unsynced s ''ci''"

lemma demo_waiting: "\<exists>s n m x. demo_run (Read_Rule n m demo_locked x) (Wait_Issuer n) s \<and> find_current s ''ci'' ''r1'' = Some (demo_locked, x)"
proof -
  note step = wl_reachable.step [where L = "{Begins, Goes_On}"] and at = at_def goto_def ask_def take_clone_def dequeue_def
  let ?s0 = "wl_init (\<lambda>_. Some demo_locked)"
  let ?s1 = "?s0\<lparr>ws_tasks := ws_tasks ?s0 @ [\<lparr>wt_work = Exchange ''ci'' ''r1'', wt_pc = Begun\<rparr>]\<rparr>"
  let ?s2 = "?s1\<lparr>ws_tasks := ws_tasks ?s1 @ [\<lparr>wt_work = Change ''ci'', wt_pc = Begun\<rparr>]\<rparr>"
  have "wl_reachable demo_app {Begins, Goes_On} ?s2" by (rule step [OF step [OF wl_reachable.init _ begin_work] _ begin_work]) auto
  then obtain s2 where s2: "wl_reachable demo_app {Begins, Goes_On} s2" "s2 = ?s2" by blast
  have "wl_reachable demo_app {Begins, Goes_On} (ask 0 (Issuer_Lock ''ci'') Wait_Issuer s2)"
    using step [OF s2(1) _ ask_issuer [of s2 0 "Exchange ''ci'' ''r1''"]] by (simp add: s2(2) at wl_init_def)
  then obtain s3 where s3: "wl_reachable demo_app {Begins, Goes_On} s3" "s3 = ask 0 (Issuer_Lock ''ci'') Wait_Issuer s2" by blast
  have "wl_reachable demo_app {Begins, Goes_On} (goto 0 (Got_Issuer 0) (dequeue 0 s3))"
    by (rule step [OF s3(1) _ get_issuer [of s3 0 "Exchange ''ci'' ''r1''"]]) (simp_all add: s3(2) s2(2) at wl_init_def issuer_free_def first_to_wait_def holds_issuer_def)
  then obtain s4 where s4: "wl_reachable demo_app {Begins, Goes_On} s4" "s4 = goto 0 (Got_Issuer 0) (dequeue 0 s3)" by blast
  have "wl_reachable demo_app {Begins, Goes_On} (ask 0 (Rule_Lock ''ci'' ''r1'') (Wait_Rule 0) s4)"
    by (rule step [OF s4(1) _ ask_rule [of s4 0]]) (simp_all add: s4(2) s3(2) s2(2) at wl_init_def)
  then obtain s5 where s5: "wl_reachable demo_app {Begins, Goes_On} s5" "s5 = ask 0 (Rule_Lock ''ci'' ''r1'') (Wait_Rule 0) s4" by blast
  have "wl_reachable demo_app {Begins, Goes_On} (goto 0 (Got_Rule 0 1) (dequeue 0 s5))"
    by (rule step [OF s5(1) _ get_rule [of s5 0 "Exchange ''ci'' ''r1''"]])
      (simp_all add: s5(2) s4(2) s3(2) s2(2) at wl_init_def rule_free_def first_to_wait_def holds_rule_def)
  then obtain s6 where s6: "wl_reachable demo_app {Begins, Goes_On} s6" "s6 = goto 0 (Got_Rule 0 1) (dequeue 0 s5)" by blast
  have "wl_reachable demo_app {Begins, Goes_On} (ask 1 (Issuer_Lock ''ci'') Wait_Issuer s6)"
    using step [OF s6(1) _ ask_issuer [of s6 1 "Change ''ci''"]] by (simp add: s6(2) s5(2) s4(2) s3(2) s2(2) at wl_init_def)
  then obtain s7 where s7: "wl_reachable demo_app {Begins, Goes_On} s7" "s7 = ask 1 (Issuer_Lock ''ci'') Wait_Issuer s6" by blast
  have "validate_provider_id ''r1''"
    by (simp add: validate_provider_id_def MAX_PROVIDER_ID_LENGTH_def is_ascii_alnum_def is_ascii_lower_def is_ascii_digit_def)
  then have cur: "find_current s ''ci'' ''r1'' = Some (demo_locked, demo_rule)" if "ws_stored s ''ci'' = Some demo_locked" for s
    using that by (simp add: find_current_def demo_locked_def demo_rule_def)
  have "ws_stored s7 ''ci'' = Some demo_locked" by (simp add: s7(2) s6(2) s5(2) s4(2) s3(2) s2(2) at wl_init_def)
  from cur [OF this] have "wl_reachable demo_app {Begins, Goes_On} (goto 0 (Read_Rule 0 1 demo_locked demo_rule) s7)"
    by (rule step [OF s7(1) _ read_current [of s7 0], rotated 2])
      (simp_all add: s7(2) s6(2) s5(2) s4(2) s3(2) s2(2) at wl_init_def)
  then have "demo_run (Read_Rule 0 1 demo_locked demo_rule) (Wait_Issuer 0) (goto 0 (Read_Rule 0 1 demo_locked demo_rule) s7)"
    by (simp add: demo_run_def s7(2) s6(2) s5(2) s4(2) s3(2) s2(2) at wl_init_def)
  moreover from this have "find_current (goto 0 (Read_Rule 0 1 demo_locked demo_rule) s7) ''ci'' ''r1'' = Some (demo_locked, demo_rule)"
    by (intro cur) (simp add: demo_run_def)
  ultimately show ?thesis by blast
qed

theorem workload_users_follow_rules_witness:
  "\<exists>s a. wl_reachable demo_app {Begins, Goes_On} s \<and> ws_users s (''ci'', ''r1'') = Some a \<and>
     access_in (ws_stored s ''ci'') ''r1'' = Some a"
proof -
  obtain s n m x where s: "demo_run (Read_Rule n m demo_locked x) (Wait_Issuer n) s" "find_current s ''ci'' ''r1'' = Some (demo_locked, x)"
    using demo_waiting by blast
  then have at: "at s 0 (Exchange ''ci'' ''r1'') (Read_Rule n m demo_locked x)" by (simp add: demo_run_def at_def)
  let ?s = "goto 0 (Drop_Rule n m) (s\<lparr>ws_users := wl_get_or_create demo_app ''ci'' x (ws_users s),
    ws_unfinished := (ws_unfinished s)((''ci'', wr_id x) := False)\<rparr>)"
  have reach: "wl_reachable demo_app {Begins, Goes_On} ?s"
    using wl_reachable.step [OF _ _ give_user [OF at], where L = "{Begins, Goes_On}"] s(1) by (simp add: demo_run_def)
  have "wr_id x = ''r1''" using access_of_current(2) [OF s(2)] .
  then obtain a where a: "ws_users ?s (''ci'', ''r1'') = Some a" by (simp add: demo_app_def)
  have tasks: "ws_tasks ?s = [\<lparr>wt_work = Exchange ''ci'' ''r1'', wt_pc = Drop_Rule n m\<rparr>, \<lparr>wt_work = Change ''ci'', wt_pc = Wait_Issuer n\<rparr>]"
    using s(1) by (simp add: demo_run_def goto_def)
  have "\<not> at ?s t (Change ''ci'') (Stored_Change n' c)" for t n' c
    unfolding at_def tasks by (cases t) (simp_all add: nth_Cons')
  then have "access_in (ws_stored ?s ''ci'') ''r1'' = Some a"
    using workload_users_follow_rules [OF reach demo_app_laws, THEN conjunct1, rule_format, of "''ci''" "''r1''" a] a by auto
  then show ?thesis using reach a by blast
qed

theorem workload_locks_go_on_witness:
  "\<exists>s s' k. (\<exists>t \<in> set (ws_tasks s). \<exists>n. wt_pc t = Wait_Issuer n) \<and> (wl_step demo_app Goes_On ^^ k) s s' \<and> k \<le> 16 \<and>
     list_all (\<lambda>t. wt_pc t = Finished) (ws_tasks s')"
proof -
  obtain s n m x where s: "demo_run (Read_Rule n m demo_locked x) (Wait_Issuer n) s" using demo_waiting by blast
  then have reach: "wl_reachable demo_app {Begins, Goes_On} s" and waits: "\<exists>t \<in> set (ws_tasks s). \<exists>n. wt_pc t = Wait_Issuer n"
    and size: "8 * sum_list (map (\<lambda>t. issuers_of (wt_work t)) (ws_tasks s)) = 16"
    by (auto simp: demo_run_def)
  note go_on = workload_locks_go_on [OF reach demo_app_laws, unfolded size]
  have "(\<exists>s'. (wl_step demo_app Goes_On ^^ k) s s') \<or>
      (\<exists>j s'. (wl_step demo_app Goes_On ^^ j) s s' \<and> list_all (\<lambda>t. wt_pc t = Finished) (ws_tasks s'))" for k
  proof (induction k)
    case (Suc k)
    then show ?case using go_on by (metis relpowp_Suc_I)
  qed auto
  from this [of 17] obtain j s' where "(wl_step demo_app Goes_On ^^ j) s s'" "list_all (\<lambda>t. wt_pc t = Finished) (ws_tasks s')"
    using go_on [of 17] by auto
  then show ?thesis using go_on waits by blast
qed

end
