(* ===== verification/ClientRequest.thy ===== *)
theory ClientRequest
  imports ConfigRedact
begin

text \<open>
  Calling the auth API, \<^verbatim>\<open>auth/client/rs/src/request.rs\<close>: the body and url of a request, and what becomes
  of a response. \<open>reqwest\<close> and \<open>serde_json\<close> are parameters; the text of a status code is one too. The blocking
  functions are the same.
\<close>

section \<open>Redaction\<close>

text \<open>
  The text after an unknown name: from the last marker's comma. A marker's backtick is the first character of it.
\<close>

fun after_name :: "string \<Rightarrow> string option" where
  "after_name [] = None"
| "after_name (c # s) = (case after_name s of
     Some r \<Rightarrow> Some r
   | None \<Rightarrow> if c = TICK \<and> (prefix '', expected '' s \<or> prefix '', there are no '' s) then Some s else None)"

lemma length_takeWhile_drop: "length (drop (length (takeWhile P s)) s) \<le> length s"
  by simp

text \<open>Each value in turn; one which does not end is redacted to the end.\<close>

definition redacted_end :: "string \<Rightarrow> char \<Rightarrow> string \<Rightarrow> string option" where
  "redacted_end before quote inner =
     (if quote = CHR 0x22 then quoted_end inner
      else if suffix ''character '' before then character_end inner
      else ticked_end inner)"

lemma redacted_end_shorter: "redacted_end before quote inner = Some r \<Longrightarrow> length r \<le> length inner"
  by (auto simp: redacted_end_def split: if_splits dest!: quoted_end_shorter ticked_end_shorter character_end_shorter)

function redact_serde_values :: "string \<Rightarrow> string" where
  "redact_serde_values message =
     (let before = takeWhile (\<lambda>c. c \<noteq> CHR 0x22 \<and> c \<noteq> TICK) message in
      case drop (length before) message of
        [] \<Rightarrow> message
      | quote # inner \<Rightarrow> before @ ''[redacted]'' @ (case redacted_end before quote inner of
          None \<Rightarrow> []
        | Some rest \<Rightarrow> redact_serde_values rest))"
  by pat_completeness auto
termination
proof (relation "measure length", goal_cases)
  case (2 message before quote inner rest)
  have "length rest \<le> length inner" using redacted_end_shorter [OF 2(3)] .
  moreover have "Suc (length inner) \<le> length message" using arg_cong [OF 2(2), of length] by simp
  ultimately show ?case by simp
qed simp

declare redact_serde_values.simps [simp del]

definition redact_serde_message :: "string \<Rightarrow> string" where
  "redact_serde_message message =
     (case List.find (\<lambda>w. prefix (w @ [TICK]) message) [''unknown variant '', ''unknown field ''] of
        Some w \<Rightarrow> w @ ''[redacted]'' @ (case after_name (drop (length w + 1) message) of None \<Rightarrow> [] | Some after \<Rightarrow> after)
      | None \<Rightarrow>
          (case List.find (\<lambda>w. prefix w message \<and> TICK \<in> set (drop (length w) message))
              [''missing field '' @ [TICK], ''duplicate field '' @ [TICK]] of
             Some w \<Rightarrow>
               let end = length (takeWhile (\<lambda>c. c \<noteq> TICK) (drop (length w) message)) in
               take (length w + end + 1) message @ redact_serde_values (drop (length w + end + 1) message)
           | None \<Rightarrow> redact_serde_values message))"

section \<open>Requests\<close>

record 'w http_client =
  hc_post :: "string \<Rightarrow> json \<Rightarrow> 'w \<Rightarrow> (anyhow + status \<times> (anyhow + string)) \<times> 'w"
  hc_form :: "string \<Rightarrow> (string \<times> string) list \<Rightarrow> 'w \<Rightarrow> (anyhow + status \<times> (anyhow + string)) \<times> 'w"
  hc_status_text :: "status \<Rightarrow> string"
  hc_serror :: "string \<Rightarrow> serror option"
  hc_oauth_error :: "string \<Rightarrow> string option"

text \<open>The error of \<open>serde_json::from_str\<close>: its message, and whether the text was json of another type.\<close>

type_synonym 'r parser = "string \<Rightarrow> (string \<times> bool) + 'r"

definition request_body :: "string \<Rightarrow> json \<Rightarrow> json" where
  "request_body req_type params = JObject (obj_insert ''params'' params (obj_insert ''type'' (JString req_type) []))"

definition request_url :: "string \<Rightarrow> string \<Rightarrow> string" where
  "request_url address endpoint = rev (dropWhile (\<lambda>c. c = CHR ''/'') (rev address)) @ endpoint"

definition is_success :: "status \<Rightarrow> bool" where
  "is_success s \<longleftrightarrow> 200 \<le> s \<and> s < 300"

definition BODY_PREVIEW_CHARS :: nat where "BODY_PREVIEW_CHARS = 200"

definition success_body_error :: "string \<times> bool \<Rightarrow> string \<Rightarrow> anyhow" where
  "success_body_error e body =
     (let message = redact_serde_message (fst e); trimmed = trim_start body in
      if trimmed = [] \<or> hd trimmed \<in> {CHR ''{'', CHR ''['', CHR 0x22} \<or> snd e
      then Msg (message @ '' ('' @ show_nat (length body) @ '' bytes)'')
      else
        (let cs = utf8_chars body;
             preview = (if BODY_PREVIEW_CHARS < length cs then concat (take BODY_PREVIEW_CHARS cs) @ ''...'' else body) in
         Msg (message @ '' | body: '' @ preview)))"

definition parse_response :: "'w http_client \<Rightarrow> 'r parser \<Rightarrow> status \<Rightarrow> string \<Rightarrow> anyhow + 'r" where
  "parse_response H from_json status body =
     (if is_success status then
        map_sum (\<lambda>e. Context (hc_status_text H status) (Context ''failed to deserialize response body'' (success_body_error e body))) id
          (from_json body)
      else Inl (Context (hc_status_text H status) (deserialize_error (hc_serror H) body)))"

definition parse_token_response :: "'w http_client \<Rightarrow> 'r parser \<Rightarrow> status \<Rightarrow> string \<Rightarrow> anyhow + 'r" where
  "parse_token_response H from_json status body =
     (if is_success status then
        map_sum (\<lambda>e. Context (hc_status_text H status) (Context ''failed to deserialize token response'' (success_body_error e body))) id
          (from_json body)
      else Inl (Context (hc_status_text H status) (Msg (case hc_oauth_error H body of Some e \<Rightarrow> e | None \<Rightarrow> body))))"

definition read_response ::
  "'w http_client \<Rightarrow> (status \<Rightarrow> string \<Rightarrow> anyhow + 'r) \<Rightarrow> (anyhow + status \<times> (anyhow + string)) \<times> 'w \<Rightarrow> (anyhow + 'r) \<times> 'w" where
  "read_response H parse got = (case got of
     (Inl e, w) \<Rightarrow> (Inl (Context ''failed to reach Mogh Auth API'' e), w)
   | (Inr (status, Inl e), w) \<Rightarrow> (Inl (Context (hc_status_text H status) e), w)
   | (Inr (status, Inr body), w) \<Rightarrow> (parse status body, w))"

definition post :: "'w http_client \<Rightarrow> 'r parser \<Rightarrow> string \<Rightarrow> string \<Rightarrow> json \<Rightarrow> 'w \<Rightarrow> (anyhow + 'r) \<times> 'w" where
  "post H from_json address endpoint body w =
     read_response H (parse_response H from_json) (hc_post H (request_url address endpoint) body w)"

definition client_login :: "'w http_client \<Rightarrow> 'r parser \<Rightarrow> string \<Rightarrow> string \<Rightarrow> json \<Rightarrow> 'w \<Rightarrow> (anyhow + 'r) \<times> 'w" where
  "client_login H from_json address req_type request = post H from_json address ''/login'' (request_body req_type request)"

definition client_manage :: "'w http_client \<Rightarrow> 'r parser \<Rightarrow> string \<Rightarrow> string \<Rightarrow> json \<Rightarrow> 'w \<Rightarrow> (anyhow + 'r) \<times> 'w" where
  "client_manage H from_json address req_type request = post H from_json address ''/manage'' (request_body req_type request)"

definition client_token_exchange ::
  "'w http_client \<Rightarrow> 'r parser \<Rightarrow> string \<Rightarrow> (string \<times> string) list \<Rightarrow> 'w \<Rightarrow> (anyhow + 'r) \<times> 'w" where
  "client_token_exchange H from_json address form w =
     read_response H (parse_token_response H from_json) (hc_form H (request_url address ''/token'') form w)"

section \<open>What is left of a value\<close>

lemma redact_serde_written:
  assumes "written w t"
  shows "redact_serde_values (w @ t @ r) = w @ ''[redacted]'' @ redact_serde_values r"
proof -
  let ?P = "\<lambda>c. c \<noteq> CHR 0x22 \<and> c \<noteq> TICK"
  note w = written_wording [OF assms]
  obtain q i where t: "t = q # i" "\<not> ?P q" using w by (cases t) auto
  have "takeWhile ?P (w @ q # i @ r) = w" using w t(2) by (subst takeWhile_append2) auto
  then have before: "takeWhile ?P (w @ t @ r) = w" "drop (length w) (w @ t @ r) = hd t # tl t @ r" by (simp_all add: t(1))
  have "redacted_end w (hd t) (tl t @ r) = Some r"
    using assms
  proof cases
    case (quoted e)
    then show ?thesis using quoted_end_escaped [OF quoted(3), of r] by (simp add: redacted_end_def)
  next
    case (character cs c)
    have "suffix ''character '' w" using character(2) by (auto simp: suffix_def)
    moreover have "character_end (c # cs @ TICK # r) = Some r" using character(3) by (simp add: character_end_def dropWhile_append)
    ultimately show ?thesis by (simp add: character(1) redacted_end_def)
  next
    case (plain v)
    have "\<not> suffix ''character '' w" using plain(2) by (auto simp: suffix_def append_eq_append_conv2 append_eq_Cons_conv)
    then show ?thesis using ticked_end_plain [OF plain(3), of r] by (simp add: plain(1) redacted_end_def)
  qed
  then show ?thesis using before by (subst redact_serde_values.simps) (simp add: Let_def t(1))
qed

lemma redact_message_written:
  assumes "written w t"
  shows "redact_serde_message (w @ t @ r) = w @ ''[redacted]'' @ redact_serde_values r"
proof -
  have "hd w = CHR ''i'' \<and> w \<noteq> []" using written_wording [OF assms] by simp
  then show ?thesis using redact_serde_written [OF assms] by (cases w) (simp_all add: redact_serde_message_def)
qed

lemma after_name_last:
  assumes "after_name s = None" "prefix '', expected '' s \<or> prefix '', there are no '' s"
  shows "after_name (n @ TICK # s) = Some s"
  using assms by (induction n) auto

lemma redact_message_unknown:
  assumes "u \<in> {''unknown variant '', ''unknown field ''}" "after_name s = None" "prefix '', expected '' s \<or> prefix '', there are no '' s"
  shows "redact_serde_message (u @ TICK # n @ TICK # s) = u @ ''[redacted]'' @ s"
  using assms(1) after_name_last [OF assms(2,3), of n] by (auto simp: redact_serde_message_def)

text \<open>What a parser complains of: a value of another type, or an unknown name, with what it writes after it.\<close>

datatype complaint = Wrong_Value string string | Unknown_Name string string

fun complaint_text :: "complaint \<Rightarrow> string \<Rightarrow> string" where
  "complaint_text (Wrong_Value w rest) v = w @ v @ rest"
| "complaint_text (Unknown_Name u rest) v = u @ TICK # v @ TICK # rest"

fun complains_of :: "complaint \<Rightarrow> string \<Rightarrow> bool" where
  "complains_of (Wrong_Value w rest) v \<longleftrightarrow> written w v"
| "complains_of (Unknown_Name u rest) v \<longleftrightarrow> u \<in> {''unknown variant '', ''unknown field ''} \<and> after_name rest = None \<and>
     (prefix '', expected '' rest \<or> prefix '', there are no '' rest)"

lemma redacted_complaint:
  "complains_of c v \<Longrightarrow> redact_serde_message (complaint_text c v) = (case c of
     Wrong_Value w rest \<Rightarrow> w @ ''[redacted]'' @ redact_serde_values rest
   | Unknown_Name u rest \<Rightarrow> u @ ''[redacted]'' @ rest)"
  using redact_message_written redact_message_unknown by (cases c) simp_all

text \<open>
  C40: when a successful response which holds json can't be read, the error is the same whatever value the parser stumbled over:
  two bodies of one length, whose parse errors differ in the value only, can't be told apart by it. So no token, secret
  or recovery code of a response reaches the errors of the client.
\<close>

theorem client_errors_hide_values:
  assumes "is_success status" "from_json body = Inl (complaint_text c v, b)" "from_json body' = Inl (complaint_text c v', b')"
    and "complains_of c v" "complains_of c v'" "length body = length body'"
    and "b \<or> trim_start body = [] \<or> hd (trim_start body) \<in> {CHR ''{'', CHR ''['', CHR 0x22}"
    and "b' \<or> trim_start body' = [] \<or> hd (trim_start body') \<in> {CHR ''{'', CHR ''['', CHR 0x22}"
  shows "parse_response H from_json status body = parse_response H from_json status body' \<and>
    parse_token_response H from_json status body = parse_token_response H from_json status body'"
proof -
  have "redact_serde_message (complaint_text c v) = redact_serde_message (complaint_text c v')"
    using redacted_complaint assms(4,5) by simp
  then have "success_body_error (complaint_text c v, b) body = success_body_error (complaint_text c v', b') body'"
    using assms(6-8) by (auto simp: success_body_error_def Let_def)
  then show ?thesis using assms(1-3) by (simp add: parse_response_def parse_token_response_def)
qed

text \<open>Two tokens where a number is expected.\<close>

definition demo_http :: "nat http_client" where
  "demo_http = \<lparr>hc_post = (\<lambda>_ _ w. (Inl (Msg ''down''), w)), hc_form = (\<lambda>_ _ w. (Inl (Msg ''down''), w)),
     hc_status_text = (\<lambda>_. ''200 OK''), hc_serror = (\<lambda>_. None), hc_oauth_error = (\<lambda>_. None)\<rparr>"

definition demo_parser :: "unit parser" where
  "demo_parser body = Inl (''invalid type: string '' @ body @ '', expected u64 at line 1 column 5'', True)"

theorem client_errors_hide_values_witness:
  "parse_response demo_http demo_parser 200 (CHR 0x22 # ''a`b'' @ [CHR 0x22]) = parse_response demo_http demo_parser 200 (CHR 0x22 # ''key'' @ [CHR 0x22])"
proof -
  let ?c = "Wrong_Value ''invalid type: string '' '', expected u64 at line 1 column 5''"
  have "complains_of ?c (CHR 0x22 # ''a`b'' @ [CHR 0x22])" "complains_of ?c (CHR 0x22 # ''key'' @ [CHR 0x22])"
    unfolding complains_of.simps by (rule written.quoted; simp)+
  moreover have "trim_start (CHR 0x22 # s) = CHR 0x22 # s" for s by (rule trim_start_graphic) (simp_all add: is_graphic_def)
  ultimately show ?thesis
    using client_errors_hide_values [of 200 demo_parser "CHR 0x22 # ''a`b'' @ [CHR 0x22]" ?c "CHR 0x22 # ''a`b'' @ [CHR 0x22]" True
      "CHR 0x22 # ''key'' @ [CHR 0x22]" "CHR 0x22 # ''key'' @ [CHR 0x22]" True demo_http]
    by (simp add: is_success_def demo_parser_def)
qed

end
