(* ===== verification/TraceContext.thy ===== *)
theory TraceContext
  imports Prelude "HOL-Library.Word"
begin

text \<open>
  Trace contexts between processes, \<^verbatim>\<open>crates/logger/src/trace_context.rs\<close>: the \<open>traceparent\<close> value of a span
  and its parsing. The spans themselves are \<^verbatim>\<open>opentelemetry\<close>'s; an id is a word, written in hex.
\<close>

record span_context =
  sc_trace_id :: "128 word"
  sc_span_id :: "64 word"
  sc_flags :: "8 word"
  sc_remote :: bool

definition span_valid :: "span_context \<Rightarrow> bool" where
  "span_valid c \<longleftrightarrow> sc_trace_id c \<noteq> 0 \<and> sc_span_id c \<noteq> 0"

section \<open>Hex\<close>

definition hex_char :: "nat \<Rightarrow> char" where
  "hex_char n = char_of (if n < 10 then 48 + n else 87 + n)"

text \<open>\<open>{:0wx}\<close> of a number of at most \<open>w\<close> digits.\<close>

fun to_hex :: "nat \<Rightarrow> nat \<Rightarrow> string" where
  "to_hex 0 n = []"
| "to_hex (Suc w) n = to_hex w (n div 16) @ [hex_char (n mod 16)]"

definition lower_hex_value :: "char \<Rightarrow> nat" where
  "lower_hex_value c = (if byte c < 58 then byte c - 48 else byte c - 87)"

definition from_hex :: "string \<Rightarrow> nat" where
  "from_hex = foldl (\<lambda>n c. 16 * n + lower_hex_value c) 0"

definition lower_hex_char :: "char \<Rightarrow> bool" where
  "lower_hex_char c \<longleftrightarrow> 48 \<le> byte c \<and> byte c \<le> 57 \<or> 97 \<le> byte c \<and> byte c \<le> 102"

definition is_lower_hex :: "string \<Rightarrow> bool" where
  "is_lower_hex s \<longleftrightarrow> s \<noteq> [] \<and> list_all lower_hex_char s"

section \<open>The header\<close>

definition format_traceparent :: "span_context \<Rightarrow> string" where
  "format_traceparent c = ''00-'' @ to_hex 32 (unat (sc_trace_id c)) @ ''-'' @ to_hex 16 (unat (sc_span_id c)) @ ''-'' @
     to_hex 2 (unat (sc_flags c))"

definition parse_traceparent :: "string \<Rightarrow> span_context option" where
  "parse_traceparent traceparent = (case split_on (CHR ''-'') (trim traceparent) of
     version # trace_id # span_id # flags # others \<Rightarrow>
       if length version \<noteq> 2 \<or> \<not> is_lower_hex version \<or> version = ''ff'' \<or> (version = ''00'' \<and> others \<noteq> []) then None
       else if length trace_id \<noteq> 32 \<or> length span_id \<noteq> 16 \<or> length flags \<noteq> 2 \<or>
         \<not> list_all is_lower_hex [trace_id, span_id, flags] then None
       else
         let c = \<lparr>sc_trace_id = of_nat (from_hex trace_id), sc_span_id = of_nat (from_hex span_id),
           sc_flags = of_nat (from_hex flags), sc_remote = True\<rparr> in
         if span_valid c then Some c else None
   | _ \<Rightarrow> None)"

text \<open>The context of the current span, if it has one; and a parent given to a span, whose success is told.\<close>

definition current_traceparent :: "span_context \<Rightarrow> string option" where
  "current_traceparent c = (if span_valid c then Some (format_traceparent c) else None)"

definition set_remote_parent :: "('s \<Rightarrow> span_context \<Rightarrow> 's option) \<Rightarrow> 's \<Rightarrow> string \<Rightarrow> bool \<times> 's" where
  "set_remote_parent set_parent span traceparent = (case parse_traceparent traceparent of
     None \<Rightarrow> (False, span)
   | Some remote \<Rightarrow> (case set_parent span remote of Some span' \<Rightarrow> (True, span') | None \<Rightarrow> (False, span)))"

section \<open>Numbers in hex\<close>

lemma lower_hex_value_char: "n < 16 \<Longrightarrow> lower_hex_value (hex_char n) = n"
  by (simp add: lower_hex_value_def hex_char_def)

lemma hex_char_lower: "n < 16 \<Longrightarrow> lower_hex_char (hex_char n)"
  by (simp add: lower_hex_char_def hex_char_def)

lemma hex_char_value: "lower_hex_char c \<Longrightarrow> hex_char (lower_hex_value c) = c"
  by (auto simp: lower_hex_char_def hex_char_def lower_hex_value_def)

lemma lower_hex_value_less: "lower_hex_char c \<Longrightarrow> lower_hex_value c < 16"
  by (auto simp: lower_hex_char_def lower_hex_value_def)

lemma from_hex_snoc [simp]: "from_hex (s @ [c]) = 16 * from_hex s + lower_hex_value c" "from_hex [] = 0"
  by (simp_all add: from_hex_def)

lemma to_hex_shape: "length (to_hex w n) = w" "list_all lower_hex_char (to_hex w n)"
  by (induction w arbitrary: n) (simp_all add: hex_char_lower)

lemma from_to_hex: "n < 16 ^ w \<Longrightarrow> from_hex (to_hex w n) = n"
  by (induction w arbitrary: n) (simp_all add: lower_hex_value_char less_mult_imp_div_less mult.commute)

lemma to_from_hex: "list_all lower_hex_char s \<Longrightarrow> to_hex (length s) (from_hex s) = s \<and> from_hex s < 16 ^ length s"
proof (induction s rule: rev_induct)
  case (snoc c s)
  have c: "lower_hex_char c" using snoc.prems by simp
  have "(16 * from_hex s + lower_hex_value c) div 16 = from_hex s" "(16 * from_hex s + lower_hex_value c) mod 16 = lower_hex_value c"
    using lower_hex_value_less [OF c] by simp_all
  then show ?case using snoc hex_char_value [OF c] lower_hex_value_less [OF c] by simp
qed simp

lemma hex_no_dash: "list_all lower_hex_char s \<Longrightarrow> CHR ''-'' \<notin> set s"
  by (auto simp: list_all_iff lower_hex_char_def)

lemma lower_hex_graphic: "lower_hex_char c \<Longrightarrow> is_graphic c"
  by (auto simp: lower_hex_char_def is_graphic_def)

section \<open>What is sent is what is received\<close>

text \<open>
  The value a span sends is parsed to its context, as a remote one; and a value of this version is parsed
  only if it is, up to surrounding space, what the context it gives is written as.
\<close>

theorem traceparent_exact:
  "(span_valid c \<longrightarrow> parse_traceparent (format_traceparent c) = Some (c\<lparr>sc_remote := True\<rparr>)) \<and>
   (prefix ''00'' (trim s) \<longrightarrow> (parse_traceparent s = Some c \<longleftrightarrow> trim s = format_traceparent c \<and> span_valid c \<and> sc_remote c))"
proof -
  have hex: "is_lower_hex (to_hex (Suc w) n)" for w n using to_hex_shape [of "Suc w" n] by (simp add: is_lower_hex_def)
  have trimmed: "trim (format_traceparent c) = format_traceparent c" for c
  proof (rule trim_graphic)
    show "is_graphic (last (format_traceparent c))"
      using lower_hex_graphic [OF hex_char_lower, of "unat (sc_flags c) mod 16"] by (simp add: format_traceparent_def numeral_2_eq_2)
  qed (simp_all add: format_traceparent_def is_graphic_def)
  have split: "split_on (CHR ''-'') (format_traceparent c) =
      [''00'', to_hex 32 (unat (sc_trace_id c)), to_hex 16 (unat (sc_span_id c)), to_hex 2 (unat (sc_flags c))]" for c
    using hex_no_dash [OF to_hex_shape(2)] unfolding format_traceparent_def
    by (simp add: split_on_append_sep split_on_no_sep)
  have number: "of_nat (from_hex (to_hex 32 (unat a))) = a" "of_nat (from_hex (to_hex 16 (unat b))) = b" "of_nat (from_hex (to_hex 2 (unat d))) = d"
    for a :: "128 word" and b :: "64 word" and d :: "8 word"
  proof -
    have "unat a < 2 ^ LENGTH(128)" "unat b < 2 ^ LENGTH(64)" "unat d < 2 ^ LENGTH(8)" by (rule unsigned_less)+
    then show "of_nat (from_hex (to_hex 32 (unat a))) = a" "of_nat (from_hex (to_hex 16 (unat b))) = b" "of_nat (from_hex (to_hex 2 (unat d))) = d"
      using from_to_hex [of "unat a" 32] from_to_hex [of "unat b" 16] from_to_hex [of "unat d" 2] by simp_all
  qed
  have widths: "is_lower_hex (to_hex 32 a)" "is_lower_hex (to_hex 16 b)" "is_lower_hex (to_hex 2 d)" for a b d
    using hex [of 31 a] hex [of 15 b] hex [of "Suc 0" d] by (simp_all del: to_hex.simps add: numeral_2_eq_2)
  have sent: "parse_traceparent (format_traceparent c) = Some (c\<lparr>sc_remote := True\<rparr>)" if "span_valid c" for c
    using that widths by (simp add: parse_traceparent_def trimmed split number to_hex_shape(1) is_lower_hex_def lower_hex_char_def span_valid_def)
  have "trim s = format_traceparent c \<and> span_valid c \<and> sc_remote c" if s: "prefix ''00'' (trim s)" "parse_traceparent s = Some c"
  proof -
    obtain v t p f others where parts: "split_on (CHR ''-'') (trim s) = v # t # p # f # others" and "length v = 2" "v = ''00'' \<longrightarrow> others = []"
      and len: "length t = 32" "length p = 16" "length f = 2" and hexes: "list_all lower_hex_char t" "list_all lower_hex_char p" "list_all lower_hex_char f"
      and c: "c = \<lparr>sc_trace_id = of_nat (from_hex t), sc_span_id = of_nat (from_hex p), sc_flags = of_nat (from_hex f), sc_remote = True\<rparr>"
        "span_valid c"
      using s(2) by (auto simp: parse_traceparent_def Let_def is_lower_hex_def split: list.splits if_splits)
    have joined: "trim s = join_on ''-'' (v # t # p # f # others)" using join_on_split_on [of "CHR ''-''" "trim s"] parts by simp
    moreover have "v = ''00''" using s(1) joined \<open>length v = 2\<close> by (auto simp: prefix_def length_Suc_conv numeral_2_eq_2)
    ultimately have shown: "trim s = ''00-'' @ t @ ''-'' @ p @ ''-'' @ f" using \<open>v = ''00'' \<longrightarrow> others = []\<close> by simp
    have "unat (of_nat (from_hex t) :: 128 word) = from_hex t" "unat (of_nat (from_hex p) :: 64 word) = from_hex p"
      "unat (of_nat (from_hex f) :: 8 word) = from_hex f"
      using to_from_hex [OF hexes(1)] to_from_hex [OF hexes(2)] to_from_hex [OF hexes(3)] by (simp_all add: len unat_of_nat)
    then show ?thesis
      using shown c to_from_hex [OF hexes(1)] to_from_hex [OF hexes(2)] to_from_hex [OF hexes(3)] by (simp add: format_traceparent_def len)
  qed
  moreover have "parse_traceparent s = Some c" if "trim s = format_traceparent c" "span_valid c" "sc_remote c"
  proof -
    have "parse_traceparent s = parse_traceparent (format_traceparent c)" using that(1) trimmed by (simp add: parse_traceparent_def)
    then show ?thesis using sent [OF that(2)] that(3) by simp
  qed
  ultimately show ?thesis using sent by blast
qed

end
