(* ===== verification/Spec2Isabelle.thy ===== *)
theory Spec2Isabelle
  imports
    LimiterProps RequestIp HeaderTimeout SessionStore Cache LoadCache Errors Validations
    SecondFactorSystem LoginProps Providers Workload OidcProps ExternalProps TokenExchangeProps
    KeyRotationProps RequestAuthProps ManageProps ManageConfigProps Rand ConfigLoadProps Encryption WorkloadLocks ClientRequest TraceContext
begin

text \<open>
  A model of the Rust crates of \<^verbatim>\<open>moghtech-lib\<close>: how a service identifies its clients, bounds what they can
  try, keeps their sessions, logs them in, authenticates and manages their requests, loads its configuration and keeps its keys.

  \<^bold>\<open>The program and its parts.\<close> A request reaches the server (\<^verbatim>\<open>crates/server\<close>), which
  bounds how long a connection may owe its headers and keeps the session of the cookie. The address
  the client is counted by is found from the peer and the forwarding headers
  (\<^verbatim>\<open>crates/request_ip\<close>), and its failures are bounded (\<^verbatim>\<open>crates/rate_limit\<close>). The
  auth server (\<^verbatim>\<open>auth/server\<close>) logs users in with passwords, external providers and second
  factors, exchanges tokens of providers and workloads, and issues app tokens; its middleware finds the user of a
  request, and its management API is how users and admins change accounts, login providers and trusted issuers.
  Errors travel with their causes (\<^verbatim>\<open>crates/error\<close>); caches share loads and locks (\<^verbatim>\<open>crates/cache\<close>,
  \<^verbatim>\<open>provider/load_cache.rs\<close>). Beside these: configuration (\<^verbatim>\<open>crates/config\<close>), encryption
  (\<^verbatim>\<open>crates/encryption\<close>), keys (\<^verbatim>\<open>crates/pki\<close>) and secret files
  (\<^verbatim>\<open>crates/secret_file\<close>).

  \<^bold>\<open>Theories.\<close> Paths without a crate are under \<^verbatim>\<open>auth/server/src\<close>.
  \<^item> Prelude: Rust's byte strings, results, time and status codes. Flow: fallible steps over a state, with
    \<open>?\<close> as \<open>and_then\<close>, and what they leave alone. Net, IpParse: addresses and the parsers of
    \<^verbatim>\<open>std::net\<close>.
  \<^item> Budget: the locale of a failure budget within a sliding window, its bound proved once.
    RateLimit, LimiterSystem, LimiterBound, LimiterProps: \<^verbatim>\<open>crates/rate_limit/src/lib.rs\<close>, the
    first provider of the budget, with attempts as interleaved tasks (a step relation), the map of
    clients and its clean up.
  \<^item> RequestIp: \<^verbatim>\<open>crates/request_ip/src/lib.rs\<close> and \<^verbatim>\<open>cidr.rs\<close>, the trusted proxies,
    the walk over the forwarding headers, CIDR sets.
  \<^item> HeaderTimeout: \<^verbatim>\<open>crates/server/src/timeout.rs\<close>, a connection as the bytes it
    reads, HTTP/1 and HTTP/2. SessionStore: the in-memory session store and session layer of
    \<^verbatim>\<open>crates/server/src/session.rs\<close>.
  \<^item> Cache: \<^verbatim>\<open>crates/cache\<close>, the timeout cache with its locks (the locale of a keyed cache has
    both caches as interpretations). LoadCache: \<^verbatim>\<open>provider/load_cache.rs\<close>.
  \<^item> Errors: \<^verbatim>\<open>crates/error\<close>, the serialised error and the response. Validations:
    \<^verbatim>\<open>crates/validations\<close> and \<^verbatim>\<open>validations.rs\<close>.
  \<^item> AuthSession: what logins keep on a session, \<^verbatim>\<open>session.rs\<close>. SecondFactor,
    SecondFactorSystem: the second factor failures of a user (the second provider of the budget) and
    the recovery codes under their lock, \<^verbatim>\<open>api/login/totp.rs\<close>, as interleaved requests.
  \<^item> Jwt: \<^verbatim>\<open>provider/jwt.rs\<close>. LoginFlow, Login, LoginDemo, LoginProps: the login API,
    \<^verbatim>\<open>api/login\<close> and \<^verbatim>\<open>api/mod.rs\<close>, as runs over a session, the second factor attempts
    and the world of the app's callbacks.
  \<^item> Providers, ExternalClient: the configured login providers and what a login with each gives,
    \<^verbatim>\<open>provider/external.rs\<close> and \<^verbatim>\<open>provider/named\<close>. Oidc, OidcProps:
    \<^verbatim>\<open>provider/oidc.rs\<close>. ExternalFlow, ExternalProps: logins and links, \<^verbatim>\<open>api/external.rs\<close>.
  \<^item> TokenVerify: \<^verbatim>\<open>provider/token_exchange.rs\<close>. Workload: rules, globs and access,
    \<^verbatim>\<open>provider/workload.rs\<close>. TokenExchange, TokenExchangeProps: \<^verbatim>\<open>api/token.rs\<close>.
    WorkloadLocks: the locks of issuers and rules, with exchanges, changes and the sync at start-up as tasks of a step relation.
  \<^item> RequestAuth, RequestAuthProps: \<^verbatim>\<open>middleware.rs\<close> and the client's signing,
    \<^verbatim>\<open>auth/client/rs/src/signature.rs\<close>. ClientRequest: \<^verbatim>\<open>auth/client/rs/src/request.rs\<close>.
  \<^item> Manage, ManageFlow, ManageProviders, ManageIssuers: the management API, \<^verbatim>\<open>api/manage\<close>; ManageDemo,
    ManageProps, ManageConfigProps: what is proved of it. Rand: \<^verbatim>\<open>rand.rs\<close>.
  \<^item> ConfigValue, ConfigEnv, ConfigInterpolate, ConfigMerge, ConfigRedact, ConfigLoad and their Props:
    \<^verbatim>\<open>crates/config\<close>: json values, env files, variables and commands, merging, errors without values, and the
    search for files.
  \<^item> Encryption: \<^verbatim>\<open>crates/encryption\<close>. Pki: keys and handshakes; KeyRotation, KeyRotationProps: the rotation of
    a key file, \<^verbatim>\<open>crates/pki\<close>. SecretFile: \<^verbatim>\<open>crates/secret_file/src/write.rs\<close>. TraceContext:
    \<^verbatim>\<open>crates/logger/src/trace_context.rs\<close>.

  \<^bold>\<open>How code is read.\<close> A \<open>Result\<close> is a sum with the error on the left; an error of a request is its status
  and message, with its causes where they are shown. Times are natural numbers (nanoseconds of a
  monotonic clock, or unix seconds), with the saturations of the source written out. Locks held across
  a whole operation make it one step; tasks interleave between await points. Third party crates
  (\<^verbatim>\<open>ipnet\<close>, \<^verbatim>\<open>http\<close>, \<^verbatim>\<open>url\<close>, \<^verbatim>\<open>bcrypt\<close>, \<^verbatim>\<open>webauthn_rs\<close>,
  \<^verbatim>\<open>totp_rs\<close>, \<^verbatim>\<open>jsonwebtoken\<close>, \<^verbatim>\<open>openidconnect\<close>, \<^verbatim>\<open>snow\<close>, ciphers and
  parsers), the file system and the app behind \<open>AuthImpl\<close> are parameters, records of
  functions, with named hypotheses where a property needs what they document.

  \<^bold>\<open>What the lemmas show.\<close> For each component: the invariant of its state and that every step
  keeps it; what each operation returns on every branch a property speaks of; and for the interleaved
  systems the bounds which hold in every reachable state, and, of the locks, that tasks which go on finish. What is
  required of an answer is stated with definitions of its own (relations and sets beside the properties), not with the functions
  of the code. Loops are structural or have a termination proof; the two which need not return on every input (the search for
  included files, and drawing random characters) are partial functions, and proved to return where directories are finitely many
  and the random source goes on giving usable bytes. No fuel is used.

  \<^bold>\<open>Not modelled.\<close> Logging and its exporters, serialisation and lenient deserialisation by \<^verbatim>\<open>serde\<close>, the
  axum routers and extractors, TLS, CORS, openapi documents, the thread pool of bcrypt, the fetching of keys and metadata over HTTP,
  reading secret files, extended attributes, command lines, the TypeScript UI and the example services: glue, input and output,
  or code of other crates.
\<close>

end
